(* ===== verification/Prelude.thy ===== *)
theory Prelude
  imports "HOL-Library.Word" "HOL-Library.Monad_Syntax"
begin

unbundle bit_operations_syntax

text \<open>
  Shared vocabulary of the development: the machine integers of the i386 target, the reading of
  a C computation as a value of an option type (\<open>None\<close>: the code faults, leaves an array,
  or never returns), pointer-linked lists over an arbitrary \<open>next\<close> function, and the facts
  about words that several components use.
\<close>

section \<open>Machine integers\<close>

type_synonym u8 = "8 word"
type_synonym u16 = "16 word"
type_synonym u32 = "32 word"
type_synonym u64 = "64 word"

text \<open>\<open>PAGE_SIZE\<close> of mem/pmm.h, as a machine word and as a number.\<close>

abbreviation PAGE_SIZE :: u32 where "PAGE_SIZE \<equiv> 4096"

lemma unat_less_2p32 [simp]: "unat (x :: u32) < 4294967296"
  using unsigned_less [of x] by simp

lemma unat_plus_u32:
  "unat (x :: u32) + unat y < 4294967296 \<Longrightarrow> unat (x + y) = unat x + unat y"
  by (simp add: unat_word_ariths)

lemma unat_minus_u32: "y \<le> (x :: u32) \<Longrightarrow> unat (x - y) = unat x - unat y"
  by (rule unat_sub)

lemma unat_of_nat_u32: "n < 4294967296 \<Longrightarrow> unat (of_nat n :: u32) = n"
  by (simp add: unat_of_nat take_bit_nat_eq_self)

lemma unat_div_4096: "unat ((x :: u32) div 4096) = unat x div 4096"
  by (simp add: unat_div)

section \<open>Computations that may fail\<close>

text \<open>
  A C function of the kernel is modelled by a function into \<open>'a option\<close> wherever it can fail
  to deliver a result: it leaves an array, follows a null pointer, or loops for ever (a spinlock
  that nobody will release). \<open>None\<close> stands for all of these; a theorem that an operation
  works shows that it is \<open>Some\<close>.
\<close>

definition guard :: "bool \<Rightarrow> unit option" where
  "guard P = (if P then Some () else None)"

lemma guard_simps [simp]: "guard True = Some ()" "guard False = None"
  by (simp_all add: guard_def)

lemma guard_eq_Some [simp]: "guard P = Some u \<longleftrightarrow> P"
  by (simp add: guard_def)

lemma guard_bind_Some: "guard P \<bind> f = Some x \<longleftrightarrow> P \<and> f () = Some x"
  by (simp add: guard_def)

section \<open>Linked lists through a next function\<close>

text \<open>
  \<open>lseg nx a xs b\<close>: following \<open>nx\<close> from the pointer \<open>a\<close> visits exactly the
  nodes \<open>xs\<close>, in that order, and arrives at the pointer \<open>b\<close>. \<open>None\<close> is the null
  pointer, and a list proper ends there.
\<close>

primrec lseg :: "('p \<Rightarrow> 'p option) \<Rightarrow> 'p option \<Rightarrow> 'p list \<Rightarrow> 'p option \<Rightarrow> bool" where
  "lseg nx a [] b \<longleftrightarrow> a = b"
| "lseg nx a (x # xs) b \<longleftrightarrow> a = Some x \<and> lseg nx (nx x) xs b"

abbreviation llist :: "('p \<Rightarrow> 'p option) \<Rightarrow> 'p option \<Rightarrow> 'p list \<Rightarrow> bool" where
  "llist nx a xs \<equiv> lseg nx a xs None"

lemma llist_None [simp]: "llist nx None xs \<longleftrightarrow> xs = []"
  by (cases xs) auto

lemma llist_Some: "llist nx (Some x) xs \<longleftrightarrow> (\<exists>ys. xs = x # ys \<and> llist nx (nx x) ys)"
  by (cases xs) auto

lemma lseg_append [simp]:
  "lseg nx a (xs @ ys) c \<longleftrightarrow> (\<exists>b. lseg nx a xs b \<and> lseg nx b ys c)"
  by (induction xs arbitrary: a) auto

lemma lseg_cong:
  "(\<And>x. x \<in> set xs \<Longrightarrow> nx' x = nx x) \<Longrightarrow> lseg nx' a xs b = lseg nx a xs b"
  by (induction xs arbitrary: a) auto

lemma lseg_upd [simp]: "x \<notin> set xs \<Longrightarrow> lseg (nx(x := v)) a xs b = lseg nx a xs b"
  by (rule lseg_cong) auto

lemma llist_det: "llist nx a xs \<Longrightarrow> llist nx a ys \<Longrightarrow> xs = ys"
proof (induction xs arbitrary: a ys)
  case (Cons x xs)
  from Cons.prems obtain zs where "ys = x # zs" and "llist nx (nx x) zs"
    by (auto simp: llist_Some)
  with Cons.prems Cons.IH [of "nx x" zs] show ?case by simp
qed simp

text \<open>A list that reaches the null pointer never visits a node twice.\<close>

lemma llist_distinct: "llist nx a xs \<Longrightarrow> distinct xs"
proof (induction xs arbitrary: a)
  case (Cons x xs)
  have "x \<notin> set xs"
  proof
    assume "x \<in> set xs"
    then obtain us vs where xs: "xs = us @ x # vs" by (auto simp: in_set_conv_decomp)
    from Cons.prems have "llist nx (nx x) xs" by simp
    moreover from this xs have "llist nx (nx x) vs" by auto
    ultimately have "xs = vs" by (rule llist_det)
    with xs show False by simp
  qed
  with Cons show ?case by auto
qed simp

lemma llist_next_split:
  "llist nx a (us @ x # vs) \<Longrightarrow> nx x = (case vs of [] \<Rightarrow> None | v # _ \<Rightarrow> Some v)"
  by (auto split: list.splits)

lemma llist_append_node:
  assumes "llist nx a xs" and "xs \<noteq> []" and "x \<notin> set xs"
  shows "llist (nx(last xs := Some x, x := None)) a (xs @ [x])"
proof -
  from \<open>xs \<noteq> []\<close> obtain us l where xs: "xs = us @ [l]" by (cases xs rule: rev_cases) auto
  moreover from assms(1) xs have "l \<notin> set us" using llist_distinct [of nx a xs] by simp
  ultimately show ?thesis using assms by (auto intro: exI [of _ "Some l"])
qed

text \<open>Taking a node out: its predecessor, or the head, is redirected to its successor.\<close>

lemma llist_unlink_head: "llist nx (Some x) (x # xs) \<Longrightarrow> llist (nx(x := v)) (nx x) xs"
  using llist_distinct by fastforce

lemma llist_unlink_mid:
  assumes "llist nx a (us @ p # x # vs)"
  shows "llist (nx(p := nx x)) a (us @ p # vs)"
proof -
  from assms have "distinct (us @ p # x # vs)" by (rule llist_distinct)
  with assms show ?thesis by auto
qed

text \<open>
  The walk that the unlinking loops of the kernel share: from \<open>cur\<close> forward until the target
  or the end of the list, remembering the node before. It returns the predecessor (\<open>None\<close>
  when the target is the head) and the place where it stopped. On a cyclic list without the target
  it never returns.
\<close>

partial_function (option) ll_walk ::
  "('p \<Rightarrow> 'p option) \<Rightarrow> 'p \<Rightarrow> 'p option \<Rightarrow> 'p option \<Rightarrow> ('p option \<times> 'p option) option" where
  "ll_walk nx tgt prev cur =
     (case cur of
        None \<Rightarrow> Some (prev, None)
      | Some c \<Rightarrow> if c = tgt then Some (prev, Some c) else ll_walk nx tgt (Some c) (nx c))"

lemma ll_walk_None [simp]: "ll_walk nx tgt prev None = Some (prev, None)"
  by (simp add: ll_walk.simps)

lemma ll_walk_hit [simp]: "ll_walk nx tgt prev (Some tgt) = Some (prev, Some tgt)"
  by (simp add: ll_walk.simps)

lemma ll_walk_step: "c \<noteq> tgt \<Longrightarrow> ll_walk nx tgt prev (Some c) = ll_walk nx tgt (Some c) (nx c)"
  by (subst ll_walk.simps) simp

lemma ll_walk_lseg:
  "lseg nx a xs b \<Longrightarrow> tgt \<notin> set xs \<Longrightarrow>
   ll_walk nx tgt prev a = ll_walk nx tgt (if xs = [] then prev else Some (last xs)) b"
proof (induction xs arbitrary: a prev)
  case (Cons x xs)
  then have a: "a = Some x" and seg: "lseg nx (nx x) xs b" and ne: "x \<noteq> tgt"
    and notin: "tgt \<notin> set xs" by auto
  have "ll_walk nx tgt prev a = ll_walk nx tgt (Some x) (nx x)"
    unfolding a by (rule ll_walk_step) (rule ne)
  also have "\<dots> = ll_walk nx tgt (if xs = [] then Some x else Some (last xs)) b"
    by (rule Cons.IH) (rule seg, rule notin)
  finally show ?case by simp
qed simp

lemma ll_walk_miss:
  "llist nx a xs \<Longrightarrow> tgt \<notin> set xs \<Longrightarrow>
   ll_walk nx tgt prev a = Some (if xs = [] then prev else Some (last xs), None)"
  by (simp add: ll_walk_lseg)

lemma ll_walk_found:
  assumes "llist nx a (us @ tgt # vs)"
  shows "ll_walk nx tgt prev a = Some (if us = [] then prev else Some (last us), Some tgt)"
proof -
  from assms have "tgt \<notin> set us" using llist_distinct [of nx a] by fastforce
  moreover from assms have "lseg nx a us (Some tgt)" by auto
  ultimately show ?thesis by (simp add: ll_walk_lseg)
qed

text \<open>Counting the nodes of a list, the loop of the various \<open>count\<close> functions.\<close>

partial_function (option) ll_count ::
  "('p \<Rightarrow> 'p option) \<Rightarrow> 'p option \<Rightarrow> nat \<Rightarrow> nat option" where
  "ll_count nx cur n = (case cur of None \<Rightarrow> Some n | Some c \<Rightarrow> ll_count nx (nx c) (Suc n))"

lemma ll_count_llist: "llist nx a xs \<Longrightarrow> ll_count nx a n = Some (n + length xs)"
  by (induction xs arbitrary: a n) (auto simp: ll_count.simps)

text \<open>The first node of a list that passes a test.\<close>

partial_function (option) find_loop ::
  "('p \<Rightarrow> bool) \<Rightarrow> ('p \<Rightarrow> 'p option) \<Rightarrow> 'p option \<Rightarrow> 'p option option" where
  "find_loop hit nx cur =
     (case cur of
        None \<Rightarrow> Some None
      | Some c \<Rightarrow> if hit c then Some (Some c) else find_loop hit nx (nx c))"

lemma find_loop_ok: "llist nx cur cs \<Longrightarrow> find_loop hit nx cur = Some (find hit cs)"
proof (induction cs arbitrary: cur)
  case Nil
  then show ?case by (simp add: find_loop.simps)
next
  case (Cons c cs)
  then have cur: "cur = Some c" and seg: "llist nx (nx c) cs" by simp_all
  show ?case unfolding cur by (subst find_loop.simps) (simp add: Cons.IH [OF seg])
qed

end
