(* ===== verification/Spinlock.thy ===== *)
theory Spinlock
  imports Prelude
begin

text \<open>
  task/sync/spinlock.h and lib/refcount.h: the two primitives every other component is built on.
  The first half models the spinlock operations on the lock word together with the interrupt
  flag of the processor, and the protocol of several processors that compete for one lock as a
  step relation. The second half models the reference counter, first as the atomic operation the
  compare-and-swap loop amounts to, then as the loop itself, interleaved over any number of owners.
\<close>

section \<open>Spinlocks\<close>

text \<open>The lock word, \<open>atomic_uint state\<close> of \<open>struct spinlock\<close>.\<close>

type_synonym spinlock_t = u32

text \<open>The part of the processor state that the lock operations use: \<open>EFLAGS.IF\<close>.\<close>

record cpu =
  int_enabled :: bool

text \<open>\<open>spinlock_init\<close> and \<open>spinlock_destroy\<close> store \<open>__ATOMIC_RELAXED\<close>, which is 0.\<close>

definition spinlock_init :: "spinlock_t \<Rightarrow> spinlock_t" where
  "spinlock_init lock = 0"

definition spinlock_destroy :: "spinlock_t \<Rightarrow> spinlock_t" where
  "spinlock_destroy lock = 0"

definition spinlock_trylock :: "spinlock_t \<Rightarrow> bool \<times> spinlock_t" where
  "spinlock_trylock lock = (if lock = 0 then (True, 1) else (False, lock))"

text \<open>
  The spinning loop on a lock word that nobody else writes meanwhile (one processor, interrupts
  masked): it returns only if the lock is free.
\<close>

partial_function (option) spinlock_spin :: "spinlock_t \<Rightarrow> spinlock_t option" where
  "spinlock_spin lock =
     (if fst (spinlock_trylock lock) then Some (snd (spinlock_trylock lock))
      else spinlock_spin (snd (spinlock_trylock lock)))"

definition spinlock :: "cpu \<Rightarrow> spinlock_t \<Rightarrow> (bool \<times> cpu \<times> spinlock_t) option" where
  "spinlock c lock = do {
     let interrupts_enabled = int_enabled c;
     let c = c\<lparr>int_enabled := False\<rparr>;
     lock \<leftarrow> spinlock_spin lock;
     Some (interrupts_enabled, c, lock)
   }"

text \<open>
  \<open>__atomic_clear\<close> and \<open>__atomic_test_and_set\<close> act on the first byte of the lock word.
\<close>

definition atomic_clear_byte :: "u32 \<Rightarrow> u32" where
  "atomic_clear_byte w = w AND 0xFFFFFF00"

definition spinlock_unlock :: "cpu \<Rightarrow> spinlock_t \<Rightarrow> bool \<Rightarrow> cpu \<times> spinlock_t" where
  "spinlock_unlock c lock restore_interrupts =
     ((if restore_interrupts then c\<lparr>int_enabled := True\<rparr> else c), atomic_clear_byte lock)"

definition atomic_test_and_set_byte :: "u32 \<Rightarrow> bool \<times> u32" where
  "atomic_test_and_set_byte w = (w AND 0xFF \<noteq> 0, atomic_clear_byte w OR 1)"

partial_function (option) spinlock_noint :: "spinlock_t \<Rightarrow> spinlock_t option" where
  "spinlock_noint lock =
     (if \<not> fst (atomic_test_and_set_byte lock) then Some (snd (atomic_test_and_set_byte lock))
      else spinlock_noint (snd (atomic_test_and_set_byte lock)))"

definition spinlock_unlock_noint :: "spinlock_t \<Rightarrow> spinlock_t" where
  "spinlock_unlock_noint lock = atomic_clear_byte lock"

lemma spinlock_spin_free [simp]: "spinlock_spin 0 = Some 1"
  by (simp add: spinlock_spin.simps spinlock_trylock_def)

lemma spinlock_spin_only_free: "spinlock_spin lock = Some lock' \<Longrightarrow> lock = 0"
proof -
  assume ret: "spinlock_spin lock = Some lock'"
  show "lock = 0"
  proof (rule spinlock_spin.raw_induct [where P = "\<lambda>l r. l = 0", OF _ ret])
    fix f :: "spinlock_t \<Rightarrow> spinlock_t option" and l r
    assume IH: "\<And>l r. f l = Some r \<Longrightarrow> l = 0"
      and eq: "(if fst (spinlock_trylock l) then Some (snd (spinlock_trylock l))
                else f (snd (spinlock_trylock l))) = Some r"
    show "l = 0"
    proof (cases "l = 0")
      case False
      with eq have "f l = Some r" by (simp add: spinlock_trylock_def)
      then show ?thesis by (rule IH)
    qed
  qed
qed

lemma spinlock_spin_held [simp]: "lock \<noteq> 0 \<Longrightarrow> spinlock_spin lock = None"
  using spinlock_spin_only_free by (cases "spinlock_spin lock") auto

lemma spinlock_spin_eq: "spinlock_spin lock = (if lock = 0 then Some 1 else None)"
  by simp

lemma atomic_clear_byte_simps [simp]: "atomic_clear_byte 0 = 0" "atomic_clear_byte 1 = 0"
  by (simp_all add: atomic_clear_byte_def)

text \<open>
  The view the sequential models of the other components use: what an acquisition and a release
  do to the lock word alone.
\<close>

definition lock_acquire :: "spinlock_t \<Rightarrow> spinlock_t option" where
  "lock_acquire lock = map_option (\<lambda>(_, _, l). l) (spinlock \<lparr>int_enabled = True\<rparr> lock)"

definition lock_release :: "spinlock_t \<Rightarrow> spinlock_t" where
  "lock_release lock = snd (spinlock_unlock \<lparr>int_enabled = True\<rparr> lock True)"

lemma lock_acquire_simps [simp]:
  "lock_acquire 0 = Some 1" "lock \<noteq> 0 \<Longrightarrow> lock_acquire lock = None"
  by (simp_all add: lock_acquire_def spinlock_def)

lemma lock_acquire_Some [simp]: "lock_acquire lock = Some l \<longleftrightarrow> lock = 0 \<and> l = 1"
  by (cases "lock = 0") auto

lemma lock_release_simps [simp]: "lock_release 0 = 0" "lock_release 1 = 0"
  by (simp_all add: lock_release_def spinlock_unlock_def)

section \<open>Competing processors\<close>

text \<open>
  Several processors (numbered) run \<open>spinlock(&lock) \<dots> spinlock_unlock(&lock, _)\<close> on one lock.
  A processor is outside, spinning, or inside its critical section; a step is one atomic access to
  the lock word.
\<close>

datatype spin_pc = Outside | Spinning | Inside

record spin_sys =
  spin_word :: spinlock_t
  spin_pcs :: "nat \<Rightarrow> spin_pc"

inductive spin_step :: "spin_sys \<Rightarrow> spin_sys \<Rightarrow> bool" where
  enter: "spin_pcs s i = Outside \<Longrightarrow> spin_step s (s\<lparr>spin_pcs := (spin_pcs s)(i := Spinning)\<rparr>)"
| try_ok: "spin_pcs s i = Spinning \<Longrightarrow> spinlock_trylock (spin_word s) = (True, w) \<Longrightarrow>
     spin_step s (s\<lparr>spin_word := w, spin_pcs := (spin_pcs s)(i := Inside)\<rparr>)"
| try_fail: "spin_pcs s i = Spinning \<Longrightarrow> spinlock_trylock (spin_word s) = (False, w) \<Longrightarrow>
     spin_step s (s\<lparr>spin_word := w\<rparr>)"
| release: "spin_pcs s i = Inside \<Longrightarrow>
     spin_step s (s\<lparr>spin_word := atomic_clear_byte (spin_word s),
                    spin_pcs := (spin_pcs s)(i := Outside)\<rparr>)"

definition spin_start :: spin_sys where
  "spin_start = \<lparr>spin_word = 0, spin_pcs = (\<lambda>_. Outside)\<rparr>"

inductive spin_reachable :: "spin_sys \<Rightarrow> bool" where
  start: "spin_reachable spin_start"
| step: "spin_reachable s \<Longrightarrow> spin_step s t \<Longrightarrow> spin_reachable t"

definition spin_inv :: "spin_sys \<Rightarrow> bool" where
  "spin_inv s \<longleftrightarrow>
     (spin_word s = 0 \<and> (\<forall>i. spin_pcs s i \<noteq> Inside)) \<or>
     (spin_word s = 1 \<and> (\<exists>i. \<forall>j. spin_pcs s j = Inside \<longleftrightarrow> j = i))"

lemma spin_step_inv: "spin_step s t \<Longrightarrow> spin_inv s \<Longrightarrow> spin_inv t"
proof (induction rule: spin_step.induct)
  case (enter s i)
  then show ?case by (force simp: spin_inv_def)
next
  case (try_ok s i w)
  then show ?case by (auto simp: spin_inv_def spinlock_trylock_def split: if_splits)
next
  case (try_fail s i w)
  then show ?case by (auto simp: spin_inv_def spinlock_trylock_def split: if_splits)
next
  case (release s i)
  then show ?case by (auto simp: spin_inv_def)
qed

lemma spin_inv_start: "spin_inv spin_start"
  by (simp add: spin_start_def spin_inv_def)

lemma spin_reachable_inv: "spin_reachable s \<Longrightarrow> spin_inv s"
  by (induction rule: spin_reachable.induct) (auto intro: spin_inv_start spin_step_inv)

text \<open>C3: Spinlock mutual exclusion. However the atomic accesses of any number of processors are
  interleaved, at most one processor is between \<open>spinlock\<close> and \<open>spinlock_unlock\<close>, and while
  one is, the lock word is 1, so that every \<open>spinlock_trylock\<close> fails.\<close>
theorem spinlock_mutual_exclusion:
  assumes "spin_reachable s" and "spin_pcs s i = Inside"
  shows "(\<forall>j. spin_pcs s j = Inside \<longrightarrow> j = i) \<and> spinlock_trylock (spin_word s) = (False, 1)"
  using spin_reachable_inv [OF assms(1)] assms(2)
  by (auto simp: spin_inv_def spinlock_trylock_def)

lemma spin_example_reachable:
  "spin_reachable \<lparr>spin_word = 1, spin_pcs = (\<lambda>_. Outside)(3 := Inside)\<rparr>"
proof -
  let ?s1 = "spin_start\<lparr>spin_pcs := (spin_pcs spin_start)(3 := Spinning)\<rparr>"
  have "spin_reachable ?s1"
    by (rule spin_reachable.step [OF spin_reachable.start])
      (rule spin_step.enter, simp add: spin_start_def)
  moreover have "spin_step ?s1 (?s1\<lparr>spin_word := 1, spin_pcs := (spin_pcs ?s1)(3 := Inside)\<rparr>)"
    by (rule spin_step.try_ok) (simp_all add: spin_start_def spinlock_trylock_def)
  ultimately have "spin_reachable (?s1\<lparr>spin_word := 1, spin_pcs := (spin_pcs ?s1)(3 := Inside)\<rparr>)"
    by (rule spin_reachable.step)
  then show ?thesis by (simp add: spin_start_def)
qed

theorem spinlock_mutual_exclusion_witness:
  "spinlock_trylock (spin_word \<lparr>spin_word = 1, spin_pcs = (\<lambda>_. Outside)(3 := Inside)\<rparr>) = (False, 1)"
  using spinlock_mutual_exclusion [OF spin_example_reachable, of 3] by simp

section \<open>Interrupts across nested locks\<close>

text \<open>
  The unlock that the kernel uses everywhere, \<open>spinlock_unlock(&lock, true)\<close>, does not restore
  the saved interrupt flag: it sets it. Two nested sections, as in \<open>heap_box_iterate\<close> around
  \<open>heap_box_alloc\<close>:
\<close>

definition nested_sections :: "cpu \<Rightarrow> spinlock_t \<Rightarrow> spinlock_t \<Rightarrow> (cpu \<times> spinlock_t \<times> spinlock_t) option" where
  "nested_sections c outer inner = do {
     (_, c, outer) \<leftarrow> spinlock c outer;
     (_, c, inner) \<leftarrow> spinlock c inner;
     let (c, inner) = spinlock_unlock c inner True;
     Some (c, outer, inner)
   }"

text \<open>Leaving an inner critical section with \<open>spinlock_unlock(_, true)\<close> switches interrupts on
  while the outer spinlock is still held, whatever the interrupt state was on entry.\<close>
theorem nested_unlock_enables_interrupts:
  "nested_sections c 0 0 = Some (c\<lparr>int_enabled := True\<rparr>, 1, 0)"
  by (simp add: nested_sections_def spinlock_def spinlock_unlock_def)

section \<open>Reference counts\<close>

type_synonym refcount_t = u32

definition refcount_init :: "refcount_t \<Rightarrow> refcount_t" where
  "refcount_init references = 1"

text \<open>What the two loops do when no other owner interferes: one load and one successful
  compare-and-swap.\<close>

definition refcount_inc_not_zero :: "refcount_t \<Rightarrow> bool \<times> refcount_t" where
  "refcount_inc_not_zero references =
     (let old = references in if old = 0 then (False, references) else (True, old + 1))"

definition refcount_dec_and_test :: "refcount_t \<Rightarrow> bool \<times> refcount_t" where
  "refcount_dec_and_test references =
     (let old = references
      in if old = 0 then (False, references) else (old - 1 = 0, old - 1))"

lemma refcount_dec_and_test_simps [simp]:
  "refcount_dec_and_test 1 = (True, 0)" "refcount_dec_and_test 0 = (False, 0)"
  by (simp_all add: refcount_dec_and_test_def)

lemma refcount_inc_zero [simp]: "refcount_inc_not_zero 0 = (False, 0)"
  by (simp add: refcount_inc_not_zero_def)

lemma u32_Suc_nonzero: "(r :: u32) \<noteq> 0xFFFFFFFF \<Longrightarrow> r + 1 \<noteq> 0"
  using eq_neg_iff_add_eq_0 [of r 1] by auto

lemma refcount_inc_dec:
  "r \<noteq> 0 \<Longrightarrow> r \<noteq> 0xFFFFFFFF \<Longrightarrow>
   refcount_inc_not_zero r = (True, r + 1) \<and> refcount_dec_and_test (r + 1) = (False, r)"
  using u32_Suc_nonzero by (auto simp: refcount_inc_not_zero_def refcount_dec_and_test_def)

subsection \<open>The compare-and-swap loop among several owners\<close>

text \<open>
  \<open>n\<close> owners each drop their reference once. An owner still owns its reference, has loaded
  \<open>old\<close>, or has finished with the result of \<open>refcount_dec_and_test\<close>. A weak
  compare-and-swap fails when the counter changed and may also fail spuriously; the loop then
  starts again.
\<close>

datatype drop_pc = Owns | Loaded u32 | Dropped bool

record drop_sys =
  drop_count :: refcount_t
  drop_pcs :: "nat \<Rightarrow> drop_pc"

inductive drop_step :: "nat \<Rightarrow> drop_sys \<Rightarrow> drop_sys \<Rightarrow> bool" for n where
  load: "i < n \<Longrightarrow> drop_pcs s i = Owns \<Longrightarrow> drop_count s \<noteq> 0 \<Longrightarrow>
     drop_step n s (s\<lparr>drop_pcs := (drop_pcs s)(i := Loaded (drop_count s))\<rparr>)"
| load_zero: "i < n \<Longrightarrow> drop_pcs s i = Owns \<Longrightarrow> drop_count s = 0 \<Longrightarrow>
     drop_step n s (s\<lparr>drop_pcs := (drop_pcs s)(i := Dropped False)\<rparr>)"
| cas_ok: "i < n \<Longrightarrow> drop_pcs s i = Loaded old \<Longrightarrow> drop_count s = old \<Longrightarrow>
     drop_step n s (s\<lparr>drop_count := old - 1, drop_pcs := (drop_pcs s)(i := Dropped (old - 1 = 0))\<rparr>)"
| cas_fail: "i < n \<Longrightarrow> drop_pcs s i = Loaded old \<Longrightarrow>
     drop_step n s (s\<lparr>drop_pcs := (drop_pcs s)(i := Owns)\<rparr>)"

definition drop_start :: "nat \<Rightarrow> drop_sys" where
  "drop_start n = \<lparr>drop_count = of_nat n, drop_pcs = (\<lambda>_. Owns)\<rparr>"

inductive drop_reachable :: "nat \<Rightarrow> drop_sys \<Rightarrow> bool" for n where
  start: "drop_reachable n (drop_start n)"
| step: "drop_reachable n s \<Longrightarrow> drop_step n s t \<Longrightarrow> drop_reachable n t"

fun has_dropped :: "drop_pc \<Rightarrow> bool" where
  "has_dropped (Dropped _) = True"
| "has_dropped _ = False"

definition drop_owners :: "nat \<Rightarrow> drop_sys \<Rightarrow> nat set" where
  "drop_owners n s = {i. i < n \<and> \<not> has_dropped (drop_pcs s i)}"

definition drop_freed :: "nat \<Rightarrow> drop_sys \<Rightarrow> nat set" where
  "drop_freed n s = {i. i < n \<and> drop_pcs s i = Dropped True}"

definition drop_inv :: "nat \<Rightarrow> drop_sys \<Rightarrow> bool" where
  "drop_inv n s \<longleftrightarrow>
     unat (drop_count s) = card (drop_owners n s) \<and>
     card (drop_freed n s) = (if drop_count s = 0 then 1 else 0)"

lemma finite_drop_sets [simp]: "finite (drop_owners n s)" "finite (drop_freed n s)"
  by (simp_all add: drop_owners_def drop_freed_def)

lemma drop_inv_start: "0 < n \<Longrightarrow> n < 2 ^ 32 \<Longrightarrow> drop_inv n (drop_start n)"
proof -
  assume n: "0 < n" "n < 2 ^ 32"
  then have u: "unat (of_nat n :: u32) = n"
    by (simp add: unat_of_nat)
  with n have "(of_nat n :: u32) \<noteq> 0" by (metis unat_0 less_irrefl)
  with u show ?thesis by (simp add: drop_inv_def drop_start_def drop_owners_def drop_freed_def)
qed

lemma drop_step_inv: "drop_step n s t \<Longrightarrow> drop_inv n s \<Longrightarrow> drop_inv n t"
proof (induction rule: drop_step.induct)
  case (load i s)
  then have "drop_owners n (s\<lparr>drop_pcs := (drop_pcs s)(i := Loaded (drop_count s))\<rparr>) = drop_owners n s"
    and "drop_freed n (s\<lparr>drop_pcs := (drop_pcs s)(i := Loaded (drop_count s))\<rparr>) = drop_freed n s"
    by (auto simp: drop_owners_def drop_freed_def)
  with load show ?case by (simp add: drop_inv_def)
next
  case (load_zero i s)
  then have "i \<in> drop_owners n s" by (simp add: drop_owners_def)
  with load_zero show ?case by (auto simp: drop_inv_def)
next
  case (cas_ok i s old)
  let ?t = "s\<lparr>drop_count := old - 1, drop_pcs := (drop_pcs s)(i := Dropped (old - 1 = 0))\<rparr>"
  from cas_ok have i: "i \<in> drop_owners n s" by (simp add: drop_owners_def)
  then have pos: "0 < card (drop_owners n s)" by (auto simp: card_gt_0_iff)
  with cas_ok have nz: "old \<noteq> 0" by (auto simp: drop_inv_def)
  have own: "drop_owners n ?t = drop_owners n s - {i}"
    by (auto simp: drop_owners_def)
  from nz have u: "unat (old - 1) = unat old - 1" by (simp add: unat_minus_one)
  from cas_ok have none: "drop_freed n s = {}" using nz by (simp add: drop_inv_def)
  then have "drop_freed n ?t = (if old - 1 = 0 then {i} else {})"
    using cas_ok.hyps by (auto simp: drop_freed_def split: if_splits)
  with own u i cas_ok show ?case by (auto simp: drop_inv_def)
next
  case (cas_fail i s old)
  then have "drop_owners n (s\<lparr>drop_pcs := (drop_pcs s)(i := Owns)\<rparr>) = drop_owners n s"
    and "drop_freed n (s\<lparr>drop_pcs := (drop_pcs s)(i := Owns)\<rparr>) = drop_freed n s"
    by (auto simp: drop_owners_def drop_freed_def)
  with cas_fail show ?case by (simp add: drop_inv_def)
qed

lemma drop_reachable_inv:
  "drop_reachable n s \<Longrightarrow> 0 < n \<Longrightarrow> n < 2 ^ 32 \<Longrightarrow> drop_inv n s"
  by (induction rule: drop_reachable.induct) (auto intro: drop_inv_start drop_step_inv)

text \<open>A reference count reaches its end exactly once. When \<open>n\<close> owners run
  \<open>refcount_dec_and_test\<close> in any interleaving of their loads and weak compare-and-swaps, at most
  one of them is ever told to free the object, and when all of them have finished the counter is 0
  and exactly one was.\<close>
theorem refcount_last_owner_frees:
  assumes "drop_reachable n s" and "0 < n" and "n < 2 ^ 32"
  shows "card (drop_freed n s) \<le> 1 \<and>
         (drop_owners n s = {} \<longrightarrow> drop_count s = 0 \<and> card (drop_freed n s) = 1)"
proof -
  have inv: "drop_inv n s" using assms by (rule drop_reachable_inv)
  then show ?thesis by (auto simp: drop_inv_def unat_eq_0)
qed

theorem refcount_last_owner_frees_witness:
  "card (drop_freed 2 (drop_start 2)) \<le> 1"
  using refcount_last_owner_frees [OF drop_reachable.start, of 2] by simp

end
