(* ===== verification/Pmm.thy ===== *)
theory Pmm
  imports Spinlock
begin

text \<open>
  mem/pmm.c: the buddy allocator for physical page frames. The array \<open>page_info\<close> is a function
  from its index; a pointer \<open>struct page*\<close> is the index of its element, so the links of the free
  lists are indices too. \<open>free_list\<close> has \<open>MAX_ORDER + 1\<close> elements, and an access beyond them
  is \<open>None\<close>. Physical addresses are 32-bit words, and so is every address computation. Block
  orders are natural numbers: the callers keep them at most \<open>MAX_ORDER\<close>.
\<close>

unbundle bit_operations_syntax

section \<open>State\<close>

definition MAX_ORDER :: nat where "MAX_ORDER = 10"

record page =
  pg_address :: u32
  pg_order :: nat
  pg_is_free :: bool
  pg_next :: "nat option"

record buddy_allocator =
  free_list :: "nat \<Rightarrow> nat option"
  page_info :: "nat \<Rightarrow> page"
  page_info_addr :: u32
  total_pages :: u32
  memory_start :: u32
  memory_end :: u32
  memory_base :: u32
  buddy_lock :: spinlock_t

text \<open>Assignments to one element of the two arrays.\<close>

definition set_free_list :: "nat \<Rightarrow> nat option \<Rightarrow> buddy_allocator \<Rightarrow> buddy_allocator" where
  "set_free_list j p b = b\<lparr>free_list := (free_list b)(j := p)\<rparr>"

definition upd_page :: "nat \<Rightarrow> (page \<Rightarrow> page) \<Rightarrow> buddy_allocator \<Rightarrow> buddy_allocator" where
  "upd_page i f b = b\<lparr>page_info := (page_info b)(i := f (page_info b i))\<rparr>"

abbreviation page_next :: "buddy_allocator \<Rightarrow> nat \<Rightarrow> nat option" where
  "page_next b \<equiv> \<lambda>i. pg_next (page_info b i)"

section \<open>Addresses and page indices\<close>

definition align_up :: "u32 \<Rightarrow> u32 \<Rightarrow> u32" where
  "align_up x a = (x + (a - 1)) AND NOT (a - 1)"

definition page_index :: "buddy_allocator \<Rightarrow> u32 \<Rightarrow> u32" where
  "page_index b addr = (addr - memory_base b) div PAGE_SIZE"

definition phys_to_page_index :: "buddy_allocator \<Rightarrow> u32 \<Rightarrow> nat option" where
  "phys_to_page_index b addr =
     (if addr < memory_base b \<or> addr \<ge> memory_end b then None
      else let index = page_index b addr in
        if index \<ge> total_pages b then None else Some (unat index))"

definition pmm_is_valid_addr :: "buddy_allocator \<Rightarrow> u32 \<Rightarrow> bool" where
  "pmm_is_valid_addr b addr =
     (if addr mod PAGE_SIZE \<noteq> 0 then False
      else if addr < memory_base b \<or> addr \<ge> memory_end b then False
      else if page_index b addr \<ge> total_pages b then False
      else True)"

definition pmm_get_buddy_address :: "u32 \<Rightarrow> nat \<Rightarrow> u32" where
  "pmm_get_buddy_address addr ord = addr XOR push_bit ord 1 * PAGE_SIZE"

definition pmm_is_primary_buddy :: "u32 \<Rightarrow> nat \<Rightarrow> bool" where
  "pmm_is_primary_buddy addr ord \<longleftrightarrow> addr AND push_bit ord 1 * PAGE_SIZE = 0"

definition pmm_get_block_size :: "nat \<Rightarrow> u32" where
  "pmm_get_block_size ord = push_bit ord PAGE_SIZE"

definition pmm_align_to_order :: "u32 \<Rightarrow> nat \<Rightarrow> u32" where
  "pmm_align_to_order addr ord = (let mask = push_bit ord PAGE_SIZE - 1 in (addr + mask) AND NOT mask)"

definition pmm_check_alignment :: "u32 \<Rightarrow> nat \<Rightarrow> bool" where
  "pmm_check_alignment addr ord \<longleftrightarrow> (let mask = push_bit ord PAGE_SIZE - 1 in addr AND mask = 0)"

definition pmm_is_page_free :: "buddy_allocator \<Rightarrow> u32 \<Rightarrow> bool" where
  "pmm_is_page_free b addr =
     (case phys_to_page_index b addr of None \<Rightarrow> False | Some pg \<Rightarrow> pg_is_free (page_info b pg))"

definition pmm_get_page_order :: "buddy_allocator \<Rightarrow> u32 \<Rightarrow> nat" where
  "pmm_get_page_order b addr =
     (case phys_to_page_index b addr of None \<Rightarrow> 0 | Some pg \<Rightarrow> pg_order (page_info b pg))"

definition page_to_phys_addr :: "buddy_allocator \<Rightarrow> nat \<Rightarrow> u32" where
  "page_to_phys_addr b pg = pg_address (page_info b pg)"

definition pmm_get_memory_size :: "buddy_allocator \<Rightarrow> u32" where
  "pmm_get_memory_size b = total_pages b * PAGE_SIZE"

definition pmm_get_page_count :: "buddy_allocator \<Rightarrow> u32" where
  "pmm_get_page_count b = total_pages b"

section \<open>Splitting and merging\<close>

text \<open>Pushing a page on the front of the free list of an order.\<close>

definition push_free :: "nat \<Rightarrow> nat \<Rightarrow> buddy_allocator \<Rightarrow> buddy_allocator option" where
  "push_free ord pg b = do {
     guard (ord \<le> MAX_ORDER);
     Some (set_free_list ord (Some pg) (upd_page pg (\<lambda>p. p\<lparr>pg_next := free_list b ord\<rparr>) b))
   }"

definition pmm_buddy_split :: "buddy_allocator \<Rightarrow> u32 \<Rightarrow> nat \<Rightarrow> buddy_allocator option" where
  "pmm_buddy_split b addr ord =
     (if ord = 0 then Some b
      else
        let half_size = push_bit (ord - 1) 1 * PAGE_SIZE;
            buddy_addr = addr + half_size
        in case (phys_to_page_index b addr, phys_to_page_index b buddy_addr) of
             (Some page_one, Some page_two) \<Rightarrow> do {
               let b = upd_page page_one (\<lambda>p. p\<lparr>pg_order := ord - 1\<rparr>) b;
               let b = upd_page page_two (\<lambda>p. p\<lparr>pg_order := ord - 1\<rparr>) b;
               let b = upd_page page_one (\<lambda>p. p\<lparr>pg_is_free := True\<rparr>) b;
               let b = upd_page page_two (\<lambda>p. p\<lparr>pg_is_free := True\<rparr>) b;
               b \<leftarrow> push_free (ord - 1) page_one b;
               push_free (ord - 1) page_two b
             }
           | _ \<Rightarrow> Some b)"

text \<open>
  Taking \<open>buddy_page\<close> out of the free list of its order: the pointer-to-pointer walk of
  \<open>pmm_buddy_merge\<close>. Nothing happens when the page is not on the list.
\<close>

definition pmm_unlink :: "buddy_allocator \<Rightarrow> nat \<Rightarrow> nat \<Rightarrow> buddy_allocator option" where
  "pmm_unlink b ord buddy_page = do {
     guard (ord \<le> MAX_ORDER);
     (prev, cur) \<leftarrow> ll_walk (page_next b) buddy_page None (free_list b ord);
     Some (if cur = Some buddy_page then
             (case prev of
                None \<Rightarrow> set_free_list ord (page_next b buddy_page) b
              | Some p \<Rightarrow> upd_page p (\<lambda>q. q\<lparr>pg_next := page_next b buddy_page\<rparr>) b)
           else b)
   }"

text \<open>
  The recursion of \<open>pmm_buddy_merge\<close> has no bound on the order in the source; it ends because an
  access to \<open>free_list[MAX_ORDER + 1]\<close> is outside the array.
\<close>

function pmm_buddy_merge :: "buddy_allocator \<Rightarrow> u32 \<Rightarrow> nat \<Rightarrow> buddy_allocator option" where
  "pmm_buddy_merge b addr ord =
     (let buddy_addr = pmm_get_buddy_address addr ord in
      case phys_to_page_index b addr of
        None \<Rightarrow> Some b
      | Some page \<Rightarrow>
          (case phys_to_page_index b buddy_addr of
             Some buddy_page \<Rightarrow>
               if pg_is_free (page_info b buddy_page) \<and> pg_order (page_info b buddy_page) = ord then
                 (if ord \<le> MAX_ORDER then do {
                    b \<leftarrow> pmm_unlink b ord buddy_page;
                    let merged_addr = (if addr < buddy_addr then addr else buddy_addr);
                    pmm_buddy_merge b merged_addr (Suc ord)
                  } else None)
               else push_free ord page (upd_page page (\<lambda>p. p\<lparr>pg_order := ord, pg_is_free := True\<rparr>) b)
           | None \<Rightarrow>
               push_free ord page (upd_page page (\<lambda>p. p\<lparr>pg_order := ord, pg_is_free := True\<rparr>) b)))"
  by pat_completeness auto
termination
  by (relation "measure (\<lambda>(b, addr, ord). Suc MAX_ORDER - ord)") auto

declare pmm_buddy_merge.simps [simp del]

section \<open>Allocation\<close>

function pmm_fetch_order_block :: "buddy_allocator \<Rightarrow> nat \<Rightarrow> (nat option \<times> buddy_allocator)" where
  "pmm_fetch_order_block b j =
     (if j \<le> MAX_ORDER then
        (case free_list b j of
           Some block \<Rightarrow> (Some block, set_free_list j (page_next b block) b)
         | None \<Rightarrow> pmm_fetch_order_block b (Suc j))
      else (None, b))"
  by pat_completeness auto
termination
  by (relation "measure (\<lambda>(b, j). Suc MAX_ORDER - j)") auto

declare pmm_fetch_order_block.simps [simp del]

fun pmm_determine_split :: "buddy_allocator \<Rightarrow> nat \<Rightarrow> nat \<Rightarrow> nat \<Rightarrow> buddy_allocator option" where
  "pmm_determine_split b block from_order to_order =
     (if from_order > to_order then
        let from_order = from_order - 1;
            split_size = push_bit from_order 1 * PAGE_SIZE;
            buddy_addr = pg_address (page_info b block) + split_size
        in case phys_to_page_index b buddy_addr of
             None \<Rightarrow> Some b
           | Some right \<Rightarrow> do {
               b \<leftarrow> push_free from_order right
                 (upd_page right (\<lambda>p. p\<lparr>pg_address := buddy_addr, pg_order := from_order, pg_is_free := True\<rparr>) b);
               pmm_determine_split (upd_page block (\<lambda>p. p\<lparr>pg_order := from_order\<rparr>) b) block from_order to_order
             }
      else Some b)"

declare pmm_determine_split.simps [simp del]

text \<open>A null result of the allocators is \<open>None\<close> in the first component.\<close>

definition pmm_alloc_block :: "buddy_allocator \<Rightarrow> nat \<Rightarrow> (u32 option \<times> buddy_allocator) option" where
  "pmm_alloc_block b ord =
     (case pmm_fetch_order_block b ord of
        (None, b) \<Rightarrow> Some (None, b)
      | (Some block, b) \<Rightarrow> do {
          let b = upd_page block (\<lambda>p. p\<lparr>pg_is_free := False\<rparr>) b;
          let b = upd_page block (\<lambda>p. p\<lparr>pg_order := ord\<rparr>) b;
          b \<leftarrow> pmm_determine_split b block (pg_order (page_info b block)) ord;
          let addr = pg_address (page_info b block);
          Some (if addr = 0 then None else Some addr, b)
        })"

definition pmm_free_block :: "buddy_allocator \<Rightarrow> u32 \<Rightarrow> nat \<Rightarrow> buddy_allocator option" where
  "pmm_free_block b addr ord =
     (case phys_to_page_index b addr of
        None \<Rightarrow> Some b
      | Some page \<Rightarrow>
          let b = upd_page page (\<lambda>p. p\<lparr>pg_is_free := True\<rparr>) b
          in pmm_buddy_merge b (pg_address (page_info b page)) ord)"

fun pmm_free_loop :: "buddy_allocator \<Rightarrow> u32 \<Rightarrow> nat \<Rightarrow> nat \<Rightarrow> buddy_allocator option" where
  "pmm_free_loop b cur ord 0 = Some b"
| "pmm_free_loop b cur ord (Suc n) = do {
     b \<leftarrow> pmm_free_block b cur ord;
     pmm_free_loop b (cur + push_bit ord 1 * PAGE_SIZE) ord n
   }"

definition pmm_free_pages :: "buddy_allocator \<Rightarrow> u32 \<Rightarrow> nat \<Rightarrow> u32 \<Rightarrow> buddy_allocator option" where
  "pmm_free_pages b addr ord count =
     (if addr = 0 \<or> ord > MAX_ORDER \<or> count = 0 then Some b
      else do {
        l \<leftarrow> lock_acquire (buddy_lock b);
        b \<leftarrow> pmm_free_loop (b\<lparr>buddy_lock := l\<rparr>) addr ord (unat count);
        Some (b\<lparr>buddy_lock := lock_release (buddy_lock b)\<rparr>)
      })"

text \<open>
  The loop of \<open>pmm_alloc_pages\<close>, with \<open>n\<close> iterations left and \<open>i\<close> done. Its rollback calls
  \<open>pmm_free_pages\<close> while the lock is held.
\<close>

fun pmm_alloc_loop ::
  "buddy_allocator \<Rightarrow> nat \<Rightarrow> nat \<Rightarrow> u32 \<Rightarrow> u32 option \<Rightarrow> (u32 option \<times> buddy_allocator) option" where
  "pmm_alloc_loop b ord 0 i start_page = Some (start_page, b)"
| "pmm_alloc_loop b ord (Suc n) i start_page = do {
     (pg, b) \<leftarrow> pmm_alloc_block b ord;
     (case pg of
        None \<Rightarrow>
          (case start_page of
             Some a \<Rightarrow> do { b \<leftarrow> pmm_free_pages b a ord i; Some (None, b) }
           | None \<Rightarrow> Some (None, b))
      | Some a \<Rightarrow>
          pmm_alloc_loop b ord n (i + 1) (case start_page of None \<Rightarrow> Some a | Some s \<Rightarrow> Some s))
   }"

definition pmm_alloc_pages ::
  "buddy_allocator \<Rightarrow> nat \<Rightarrow> u32 \<Rightarrow> (u32 option \<times> buddy_allocator) option" where
  "pmm_alloc_pages b ord count =
     (if ord > MAX_ORDER \<or> count = 0 then Some (None, b)
      else do {
        l \<leftarrow> lock_acquire (buddy_lock b);
        (start_page, b) \<leftarrow> pmm_alloc_loop (b\<lparr>buddy_lock := l\<rparr>) ord (unat count) 0 None;
        Some (start_page, b\<lparr>buddy_lock := lock_release (buddy_lock b)\<rparr>)
      })"

definition pmm_alloc_page :: "buddy_allocator \<Rightarrow> (u32 option \<times> buddy_allocator) option" where
  "pmm_alloc_page b = pmm_alloc_pages b 0 1"

definition pmm_free_page :: "buddy_allocator \<Rightarrow> u32 \<Rightarrow> buddy_allocator option" where
  "pmm_free_page b addr = pmm_free_pages b addr 0 1"

section \<open>Counting\<close>

definition pmm_count_free_of_order :: "buddy_allocator \<Rightarrow> nat \<Rightarrow> (u32 \<times> buddy_allocator) option" where
  "pmm_count_free_of_order b ord =
     (if ord > MAX_ORDER then Some (0, b)
      else do {
        l \<leftarrow> lock_acquire (buddy_lock b);
        count \<leftarrow> ll_count (page_next b) (free_list b ord) 0;
        Some (of_nat count, b\<lparr>buddy_lock := lock_release l\<rparr>)
      })"

fun pmm_free_blocks_upto :: "buddy_allocator \<Rightarrow> nat \<Rightarrow> nat option" where
  "pmm_free_blocks_upto b 0 = Some 0"
| "pmm_free_blocks_upto b (Suc i) = do {
     n \<leftarrow> pmm_free_blocks_upto b i;
     ll_count (page_next b) (free_list b i) n
   }"

definition pmm_get_free_memory_size :: "buddy_allocator \<Rightarrow> u32 option" where
  "pmm_get_free_memory_size b =
     map_option (\<lambda>n. of_nat n * PAGE_SIZE) (pmm_free_blocks_upto b (Suc MAX_ORDER))"

fun pmm_last_used_below :: "buddy_allocator \<Rightarrow> nat \<Rightarrow> nat option" where
  "pmm_last_used_below b 0 = None"
| "pmm_last_used_below b (Suc i) = (if pg_is_free (page_info b i) then pmm_last_used_below b i else Some i)"

definition pmm_get_last_used_page :: "buddy_allocator \<Rightarrow> nat option" where
  "pmm_get_last_used_page b = pmm_last_used_below b (unat (total_pages b))"

end
