(* ===== verification/PageSource.thy ===== *)
theory PageSource
  imports Prelude
begin

text \<open>
  The contract between the physical page allocator and its clients (mem/vmm.c, mem/alloc.c,
  mem/paging.c, task/process.c): pages are taken one at a time and given back one at a time. The
  client is any sequence of requests that only gives back what it holds.
\<close>

text \<open>\<open>Give k\<close> gives back the \<open>k\<close>-th page the client holds.\<close>

datatype page_req = Take | Give nat

definition without :: "nat \<Rightarrow> 'a list \<Rightarrow> 'a list" where
  "without k xs = take k xs @ drop (Suc k) xs"

lemma without_distinct:
  assumes "distinct xs" and "k < length xs"
  shows "distinct (without k xs)" and "set (without k xs) = set xs - {xs ! k}"
proof -
  have "xs = take k xs @ xs ! k # drop (Suc k) xs" using assms(2) by (rule id_take_nth_drop)
  moreover obtain us x vs where e: "take k xs = us" "xs ! k = x" "drop (Suc k) xs = vs" by blast
  ultimately have "xs = us @ x # vs" by simp
  with assms(1) show "distinct (without k xs)" "set (without k xs) = set xs - {xs ! k}"
    unfolding without_def e by auto
qed

fun page_client ::
  "('s \<Rightarrow> (u32 option \<times> 's) option) \<Rightarrow> ('s \<Rightarrow> u32 \<Rightarrow> 's option) \<Rightarrow>
   's \<Rightarrow> u32 list \<Rightarrow> page_req list \<Rightarrow> ('s \<times> u32 list) option" where
  "page_client get put s held [] = Some (s, held)"
| "page_client get put s held (Take # reqs) = do {
     (r, s) \<leftarrow> get s;
     page_client get put s (case r of None \<Rightarrow> held | Some a \<Rightarrow> held @ [a]) reqs
   }"
| "page_client get put s held (Give k # reqs) =
     (if k < length held then do {
        s \<leftarrow> put s (held ! k);
        page_client get put s (without k held) reqs
      } else page_client get put s held reqs)"

locale page_source =
  fixes get :: "'s \<Rightarrow> (u32 option \<times> 's) option"
    and put :: "'s \<Rightarrow> u32 \<Rightarrow> 's option"
    and owns :: "'s \<Rightarrow> u32 set \<Rightarrow> bool"
  assumes get_ok: "owns s U \<Longrightarrow> \<exists>r s'. get s = Some (r, s') \<and>
      (case r of None \<Rightarrow> owns s' U
               | Some a \<Rightarrow> a \<noteq> 0 \<and> a mod PAGE_SIZE = 0 \<and> a \<notin> U \<and> owns s' (insert a U))"
    and put_ok: "owns s U \<Longrightarrow> a \<in> U \<Longrightarrow> \<exists>s'. put s a = Some s' \<and> owns s' (U - {a})"
begin

lemma get_cases:
  assumes "owns s U"
  obtains (none) s' where "get s = Some (None, s')" "owns s' U"
  | (page) a s' where "get s = Some (Some a, s')" "a \<noteq> 0" "a mod PAGE_SIZE = 0" "a \<notin> U" "owns s' (insert a U)"
proof -
  from get_ok [OF assms] obtain r s' where g: "get s = Some (r, s')" and
    r: "case r of None \<Rightarrow> owns s' U
               | Some a \<Rightarrow> a \<noteq> 0 \<and> a mod PAGE_SIZE = 0 \<and> a \<notin> U \<and> owns s' (insert a U)" by blast
  show ?thesis
  proof (cases r)
    case None
    then show ?thesis using none g r by simp
  next
    case (Some a)
    then show ?thesis using page [of a s'] g r by simp
  qed
qed

text \<open>
  However a client interleaves its requests, every one of them returns, no page is handed out
  twice, and what it holds is what the allocator thinks it holds.
\<close>

lemma client_exclusive:
  "owns s (set held) \<Longrightarrow> distinct held \<Longrightarrow>
   \<exists>s' held'. page_client get put s held reqs = Some (s', held') \<and> distinct held' \<and> owns s' (set held')"
proof (induction reqs arbitrary: s held)
  case (Cons q reqs)
  show ?case
  proof (cases q)
    case Take
    from Cons.prems(1) show ?thesis
    proof (cases rule: get_cases)
      case (none s')
      then show ?thesis using Cons Take by simp
    next
      case (page a s')
      have "distinct (held @ [a])" "owns s' (set (held @ [a]))" using page Cons.prems by auto
      then show ?thesis using Cons.IH [of s' "held @ [a]"] page Take by simp
    qed
  next
    case (Give k)
    show ?thesis
    proof (cases "k < length held")
      case True
      from put_ok [OF Cons.prems(1), of "held ! k"] True obtain s' where
        s': "put s (held ! k) = Some s'" "owns s' (set held - {held ! k})" by auto
      note w = without_distinct [OF Cons.prems(2) True]
      show ?thesis using Cons.IH [of s' "without k held"] s' w True Give by simp
    qed (use Cons Give in simp)
  qed
qed simp

end

end
