(* ===== verification/PmmInv.thy ===== *)
theory PmmInv
  imports Pmm PageSource
begin

text \<open>
  The invariant of the buddy allocator under the discipline the kernel follows: every caller asks
  for pages of order 0.
\<close>

section \<open>Buddies as frame numbers\<close>

definition buddy_frame :: "nat \<Rightarrow> nat \<Rightarrow> nat" where
  "buddy_frame f ord = f XOR 2 ^ ord"

definition frame_addr :: "nat \<Rightarrow> u32" where
  "frame_addr f = of_nat (f * 4096)"

text \<open>The other one of the pair that an even number and its successor form.\<close>

definition sib :: "nat \<Rightarrow> nat" where
  "sib n = (if even n then Suc n else n - 1)"

lemma xor_one_sib: "(n :: nat) XOR 1 = sib n"
  unfolding sib_def One_nat_def xor_Suc_0_eq by (cases "even n") simp_all

lemma sib_cases: "(m :: nat) div 2 = n div 2 \<longleftrightarrow> m = n \<or> m = sib n"
  by (cases "even m"; cases "even n") (auto simp: sib_def elim!: evenE oddE)

lemma sib_neq: "sib n \<noteq> n" "n \<noteq> sib n"
  by (auto simp: sib_def elim!: oddE)

lemma sib_even: "even n \<Longrightarrow> sib n = Suc n"
  by (simp add: sib_def)

lemma sib_odd: "odd n \<Longrightarrow> n = Suc (sib n) \<and> even (sib n)"
  by (simp add: sib_def)

lemma buddy_frame_div: "buddy_frame f ord div 2 ^ ord = sib (f div 2 ^ ord)"
proof -
  have "drop_bit ord (f XOR 2 ^ ord) = drop_bit ord f XOR drop_bit ord (2 ^ ord)"
    by (rule drop_bit_xor)
  then have "buddy_frame f ord div 2 ^ ord = (f div 2 ^ ord) XOR 1"
    by (simp add: buddy_frame_def drop_bit_eq_div)
  then show ?thesis by (simp only: xor_one_sib)
qed

lemma buddy_frame_mod: "buddy_frame f ord mod 2 ^ ord = f mod 2 ^ ord"
proof -
  have "take_bit ord (f XOR 2 ^ ord) = take_bit ord f XOR take_bit ord (2 ^ ord)"
    by (rule take_bit_xor)
  then show ?thesis by (simp add: buddy_frame_def take_bit_eq_mod)
qed

lemma pmm_get_buddy_address_frame:
  "pmm_get_buddy_address (frame_addr f) ord = frame_addr (buddy_frame f ord)"
proof -
  have "frame_addr g = push_bit 12 (of_nat g)" for g
    by (simp add: frame_addr_def push_bit_eq_mult)
  moreover have "(push_bit ord 1 * 4096 :: u32) = push_bit 12 (of_nat (2 ^ ord))"
    by (simp add: push_bit_eq_mult)
  ultimately show ?thesis
    by (simp add: pmm_get_buddy_address_def buddy_frame_def of_nat_xor_eq push_bit_xor)
qed

section \<open>Geometry\<close>

definition base_frame :: "buddy_allocator \<Rightarrow> nat" where
  "base_frame b = unat (memory_base b) div 4096"

definition geometry :: "buddy_allocator \<Rightarrow> bool" where
  "geometry b \<longleftrightarrow>
     memory_base b \<noteq> 0 \<and> unat (memory_base b) mod 4096 = 0 \<and>
     memory_end b = memory_base b + total_pages b * PAGE_SIZE \<and>
     unat (memory_base b) + unat (total_pages b) * 4096 < 4294967296"

definition page_addr :: "buddy_allocator \<Rightarrow> nat \<Rightarrow> u32" where
  "page_addr b i = frame_addr (base_frame b + i)"

lemma unat_frame_addr: "f < 1048576 \<Longrightarrow> unat (frame_addr f) = f * 4096"
  by (simp only: frame_addr_def unat_of_nat) simp

lemma frame_addr_less:
  "f < 1048576 \<Longrightarrow> g < 1048576 \<Longrightarrow> frame_addr f < frame_addr g \<longleftrightarrow> f < g"
  by (simp add: word_less_nat_alt unat_frame_addr)

lemma geometry_base: "geometry b \<Longrightarrow> unat (memory_base b) = base_frame b * 4096"
  using div_mult_mod_eq [of "unat (memory_base b)" 4096] by (simp add: geometry_def base_frame_def)

lemma geometry_bound: "geometry b \<Longrightarrow> base_frame b + unat (total_pages b) < 1048576"
proof -
  assume g: "geometry b"
  then have "unat (memory_base b) + unat (total_pages b) * 4096 < 4294967296"
    by (simp only: geometry_def)
  then show ?thesis unfolding geometry_base [OF g] by linarith
qed

lemma geometry_end:
  assumes "geometry b" shows "unat (memory_end b) = (base_frame b + unat (total_pages b)) * 4096"
proof -
  have t: "unat (total_pages b * 4096) = unat (total_pages b) * 4096"
    using geometry_bound [OF assms] by (simp add: unat_word_ariths)
  have "memory_end b = memory_base b + total_pages b * 4096"
    using assms by (simp add: geometry_def)
  moreover have "unat (memory_base b + total_pages b * 4096)
      = unat (memory_base b) + unat (total_pages b) * 4096"
    using assms t by (subst unat_plus_u32) (simp_all add: geometry_def)
  ultimately show ?thesis using geometry_base [OF assms] by simp
qed

lemma phys_to_page_index_frame:
  assumes g: "geometry b" and f: "f < 1048576"
  shows "phys_to_page_index b (frame_addr f) =
    (if base_frame b \<le> f \<and> f < base_frame b + unat (total_pages b) then Some (f - base_frame b) else None)"
proof (cases "base_frame b \<le> f \<and> f < base_frame b + unat (total_pages b)")
  case True
  have u: "unat (frame_addr f) = f * 4096" using f by (rule unat_frame_addr)
  have lo: "memory_base b \<le> frame_addr f"
    using True by (simp add: word_le_nat_alt u geometry_base [OF g])
  have hi: "frame_addr f < memory_end b"
    using True by (simp add: word_less_nat_alt u geometry_end [OF g])
  have "unat (page_index b (frame_addr f)) = (f * 4096 - base_frame b * 4096) div 4096"
    using lo by (simp add: page_index_def unat_div unat_minus_u32 u geometry_base [OF g])
  also have "\<dots> = f - base_frame b" by (simp flip: diff_mult_distrib)
  finally have idx: "unat (page_index b (frame_addr f)) = f - base_frame b" .
  then have "\<not> page_index b (frame_addr f) \<ge> total_pages b"
    using True unfolding word_le_nat_alt by linarith
  with True lo hi idx show ?thesis
    by (simp add: phys_to_page_index_def Let_def not_le not_less)
next
  case False
  have u: "unat (frame_addr f) = f * 4096" using f by (rule unat_frame_addr)
  from False have "frame_addr f < memory_base b \<or> memory_end b \<le> frame_addr f"
    by (simp add: word_less_nat_alt word_le_nat_alt u geometry_base [OF g] geometry_end [OF g]) linarith
  with False show ?thesis by (auto simp: phys_to_page_index_def)
qed

lemma phys_to_page_index_page_addr:
  assumes "geometry b" and "i < unat (total_pages b)"
  shows "phys_to_page_index b (page_addr b i) = Some i"
proof -
  have "base_frame b + i < 1048576"
    using geometry_bound [OF assms(1)] assms(2) by linarith
  with assms show ?thesis by (simp add: page_addr_def phys_to_page_index_frame)
qed

section \<open>Blocks\<close>

text \<open>The pages of the aligned block of order \<open>ord\<close> that page \<open>i\<close> lies in.\<close>

definition blk :: "buddy_allocator \<Rightarrow> nat \<Rightarrow> nat \<Rightarrow> nat set" where
  "blk b i ord = {j. (base_frame b + j) div 2 ^ ord = (base_frame b + i) div 2 ^ ord}"

text \<open>Page \<open>i\<close> heads an aligned block of order \<open>ord\<close> inside the managed range.\<close>

definition fits :: "buddy_allocator \<Rightarrow> nat \<Rightarrow> nat \<Rightarrow> bool" where
  "fits b i ord \<longleftrightarrow> (base_frame b + i) mod 2 ^ ord = 0 \<and> i + 2 ^ ord \<le> unat (total_pages b)"

lemma in_blk: "j \<in> blk b i ord \<longleftrightarrow> (base_frame b + j) div 2 ^ ord = (base_frame b + i) div 2 ^ ord"
  by (simp add: blk_def)

lemma blk_self [simp]: "i \<in> blk b i ord"
  by (simp add: in_blk)

lemma blk_0 [simp]: "blk b i 0 = {i}"
  by (auto simp: blk_def)

lemma fits_0 [simp]: "fits b i 0 \<longleftrightarrow> i < unat (total_pages b)"
  by (auto simp: fits_def)

lemma fits_range: "fits b i ord \<Longrightarrow> i < unat (total_pages b)"
proof -
  assume "fits b i ord"
  moreover have "(0 :: nat) < 2 ^ ord" by simp
  ultimately show ?thesis unfolding fits_def by linarith
qed

lemma div_pow_le: "p \<le> q \<Longrightarrow> (f :: nat) div 2 ^ q = f div 2 ^ p div 2 ^ (q - p)"
  by (simp add: div_mult2_eq [symmetric] power_add [symmetric])

lemma blk_mono_of_common:
  assumes "p \<le> q" and "x \<in> blk b i p" and "x \<in> blk b j q"
  shows "blk b i p \<subseteq> blk b j q"
  using assms by (auto simp: in_blk div_pow_le [OF assms(1)])

text \<open>Aligned blocks are disjoint or nested.\<close>

lemma blk_laminar:
  "p \<le> q \<Longrightarrow> blk b i p \<inter> blk b j q = {} \<or> blk b i p \<subseteq> blk b j q"
  using blk_mono_of_common by blast

lemma fits_head_unique:
  assumes "fits b i ord" and "fits b j ord" and "j \<in> blk b i ord"
  shows "i = j"
proof -
  have "base_frame b + i = (base_frame b + i) div 2 ^ ord * 2 ^ ord"
    using assms(1) by (simp add: fits_def) (metis add.right_neutral div_mult_mod_eq)
  moreover have "base_frame b + j = (base_frame b + j) div 2 ^ ord * 2 ^ ord"
    using assms(2) by (simp add: fits_def) (metis add.right_neutral div_mult_mod_eq)
  ultimately show ?thesis using assms(3) by (simp add: in_blk)
qed

lemma div_interval:
  assumes "0 < (P :: nat)" shows "n div P = d \<longleftrightarrow> d * P \<le> n \<and> n < d * P + P"
proof
  assume "n div P = d"
  then show "d * P \<le> n \<and> n < d * P + P"
    using div_times_less_eq_dividend [of n P] dividend_less_div_times [OF assms, of n] by simp
next
  assume "d * P \<le> n \<and> n < d * P + P"
  then show "n div P = d" by (intro div_nat_eqI) (simp_all add: mult.commute)
qed

lemma fits_blk:
  assumes "fits b i ord" shows "blk b i ord = {i..<i + 2 ^ ord}"
proof -
  let ?P = "2 ^ ord :: nat" and ?B = "base_frame b"
  have P: "0 < ?P" by simp
  have h: "?B + i = (?B + i) div ?P * ?P"
    using assms by (simp add: fits_def) (metis add.right_neutral div_mult_mod_eq)
  have "j \<in> blk b i ord \<longleftrightarrow> i \<le> j \<and> j < i + ?P" for j
  proof -
    define d where "d = (?B + i) div ?P"
    have hd: "d * ?P = ?B + i" using h unfolding d_def by (rule sym)
    have "j \<in> blk b i ord \<longleftrightarrow> (?B + j) div ?P = d" by (simp only: in_blk d_def)
    also have "\<dots> \<longleftrightarrow> d * ?P \<le> ?B + j \<and> ?B + j < d * ?P + ?P" by (rule div_interval [OF P])
    finally have "j \<in> blk b i ord \<longleftrightarrow> ?B + i \<le> ?B + j \<and> ?B + j < ?B + i + ?P" unfolding hd .
    then show ?thesis by linarith
  qed
  then show ?thesis by (intro set_eqI) (simp only: atLeastLessThan_iff)
qed

lemma fits_blk_subset_order:
  assumes "fits b i p" and "fits b j q" and "blk b j q \<subseteq> blk b i p"
  shows "q \<le> p"
proof -
  have "card (blk b j q) \<le> card (blk b i p)"
    using assms by (intro card_mono) (auto simp: fits_blk)
  then show ?thesis using assms(1,2) by (simp add: fits_blk)
qed

lemma fits_smaller: "fits b i q \<Longrightarrow> p \<le> q \<Longrightarrow> fits b i p"
proof -
  assume f: "fits b i q" and le: "p \<le> q"
  have "(2 :: nat) ^ p dvd 2 ^ q" using le by (rule le_imp_power_dvd)
  with f have "(base_frame b + i) mod 2 ^ p = 0"
    by (meson dvd_trans fits_def mod_0_imp_dvd dvd_imp_mod_0)
  moreover have "(2 :: nat) ^ p \<le> 2 ^ q" using le by simp
  ultimately show ?thesis using f unfolding fits_def by linarith
qed


subsection \<open>The buddy of a block\<close>

lemma buddy_in_blk:
  assumes "base_frame b + j = buddy_frame (base_frame b + i) ord"
  shows "x \<in> blk b j ord \<longleftrightarrow> (base_frame b + x) div 2 ^ ord = sib ((base_frame b + i) div 2 ^ ord)"
  by (simp add: in_blk assms buddy_frame_div)

lemma buddy_disjoint:
  assumes "base_frame b + j = buddy_frame (base_frame b + i) ord"
  shows "blk b i ord \<inter> blk b j ord = {}"
  by (auto simp: buddy_in_blk [OF assms] in_blk [of _ b i] sib_neq)

lemma div_pow_Suc: "(f :: nat) div 2 ^ Suc ord = f div 2 ^ ord div 2"
  by (simp add: div_mult2_eq [symmetric] mult.commute)

lemma buddy_union:
  assumes "base_frame b + j = buddy_frame (base_frame b + i) ord"
  shows "blk b i (Suc ord) = blk b i ord \<union> blk b j ord"
    and "blk b j (Suc ord) = blk b i ord \<union> blk b j ord"
proof -
  have "x \<in> blk b i (Suc ord) \<longleftrightarrow> x \<in> blk b i ord \<union> blk b j ord" for x
    by (simp only: in_blk [of x b i] buddy_in_blk [OF assms] div_pow_Suc sib_cases Un_iff)
  then show i: "blk b i (Suc ord) = blk b i ord \<union> blk b j ord" by blast
  have "j \<in> blk b i (Suc ord)" using i by simp
  then have "blk b j (Suc ord) = blk b i (Suc ord)" by (auto simp: in_blk)
  with i show "blk b j (Suc ord) = blk b i ord \<union> blk b j ord" by simp
qed

lemma buddy_fits_min:
  assumes j: "base_frame b + j = buddy_frame (base_frame b + i) ord"
    and fi: "fits b i ord" and fj: "fits b j ord"
  shows "fits b (min i j) (Suc ord)"
proof -
  let ?f = "base_frame b + i" and ?g = "base_frame b + j" and ?p = "2 ^ ord :: nat"
  have f: "?f = ?f div ?p * ?p" using fi by (simp add: fits_def) (metis add.right_neutral div_mult_mod_eq)
  have g: "?g = ?g div ?p * ?p" using fj by (simp add: fits_def) (metis add.right_neutral div_mult_mod_eq)
  have gd: "?g div ?p = sib (?f div ?p)" by (simp only: j buddy_frame_div)
  have fi': "i + ?p \<le> unat (total_pages b)" and fj': "j + ?p \<le> unat (total_pages b)"
    using fi fj by (simp_all only: fits_def)
  show ?thesis
  proof (cases "even (?f div ?p)")
    case True
    then have "?g div ?p = Suc (?f div ?p)" using gd by (simp only: sib_even)
    then have ij: "j = i + ?p" using f g by (metis add.assoc add_left_cancel mult_Suc add.commute)
    from True obtain k where "?f div ?p = 2 * k" by (elim evenE)
    with f have "?f = k * 2 ^ Suc ord" by simp
    then have "?f mod 2 ^ Suc ord = 0" by (metis mod_mult_self2_is_0)
    with ij fj' show ?thesis by (simp add: fits_def min_def)
  next
    case False
    then have gs: "?f div ?p = Suc (?g div ?p)" "even (?g div ?p)" using sib_odd gd by metis+
    from gs(1) have ij: "i = j + ?p" using f g by (metis add.assoc add_left_cancel mult_Suc add.commute)
    from gs(2) obtain k where "?g div ?p = 2 * k" by (elim evenE)
    with g have "?g = k * 2 ^ Suc ord" by simp
    then have "?g mod 2 ^ Suc ord = 0" by (metis mod_mult_self2_is_0)
    with ij fi' show ?thesis by (simp add: fits_def min_def)
  qed
qed


section \<open>Updates\<close>

lemma upd_page_simps [simp]:
  "page_info (upd_page i f b) j = (if j = i then f (page_info b i) else page_info b j)"
  "free_list (upd_page i f b) = free_list b"
  "memory_base (upd_page i f b) = memory_base b"
  "memory_end (upd_page i f b) = memory_end b"
  "total_pages (upd_page i f b) = total_pages b"
  "buddy_lock (upd_page i f b) = buddy_lock b"
  "page_info_addr (upd_page i f b) = page_info_addr b"
  by (simp_all add: upd_page_def)

lemma set_free_list_simps [simp]:
  "page_info (set_free_list j p b) = page_info b"
  "free_list (set_free_list j p b) = (free_list b)(j := p)"
  "memory_base (set_free_list j p b) = memory_base b"
  "memory_end (set_free_list j p b) = memory_end b"
  "total_pages (set_free_list j p b) = total_pages b"
  "buddy_lock (set_free_list j p b) = buddy_lock b"
  "page_info_addr (set_free_list j p b) = page_info_addr b"
  by (simp_all add: set_free_list_def)

text \<open>Two states that manage the same memory.\<close>

definition same_range :: "buddy_allocator \<Rightarrow> buddy_allocator \<Rightarrow> bool" where
  "same_range b b' \<longleftrightarrow> memory_base b' = memory_base b \<and> memory_end b' = memory_end b \<and>
     total_pages b' = total_pages b \<and> buddy_lock b' = buddy_lock b \<and>
     page_info_addr b' = page_info_addr b"

lemma same_range_refl [simp]: "same_range b b"
  by (simp add: same_range_def)

lemma same_range_trans: "same_range a b \<Longrightarrow> same_range b c \<Longrightarrow> same_range a c"
  by (simp add: same_range_def)

lemma same_range_upd [simp]: "same_range b (upd_page i f b')\<longleftrightarrow> same_range b b'"
  "same_range b (set_free_list j p b') \<longleftrightarrow> same_range b b'"
  by (simp_all add: same_range_def)

lemma same_range_eqs:
  assumes "same_range b b'"
  shows "base_frame b' = base_frame b" "blk b' = blk b" "fits b' = fits b" "page_addr b' = page_addr b"
    "geometry b' = geometry b" "phys_to_page_index b' = phys_to_page_index b"
    "total_pages b' = total_pages b" "buddy_lock b' = buddy_lock b"
    "page_info_addr b' = page_info_addr b" "memory_base b' = memory_base b"
  using assms
  by (auto simp: same_range_def base_frame_def blk_def fits_def page_addr_def geometry_def
      phys_to_page_index_def page_index_def fun_eq_iff)

section \<open>The invariant\<close>

text \<open>
  \<open>A\<close> is the set of pages handed out (by index), \<open>xs p\<close> the contents of the free list of order
  \<open>p\<close>. The flags of a page may be stale: after a merge the upper half keeps \<open>is_free\<close> and its
  old order, and an allocation from a larger block leaves the rest of the block flagged but on no
  list. What stays true is that a flagged page names an aligned block inside the range which holds
  no page that is handed out, and which every listed block either avoids or covers.
\<close>

definition flag_ok :: "buddy_allocator \<Rightarrow> nat set \<Rightarrow> (nat \<Rightarrow> nat list) \<Rightarrow> nat \<Rightarrow> bool" where
  "flag_ok b A xs i \<longleftrightarrow>
     (let q = pg_order (page_info b i) in
      q \<le> MAX_ORDER \<and> fits b i q \<and> pg_address (page_info b i) = page_addr b i \<and>
      blk b i q \<inter> A = {} \<and>
      (\<forall>p\<le>MAX_ORDER. \<forall>j\<in>set (xs p). blk b j p \<inter> blk b i q = {} \<or> blk b i q \<subseteq> blk b j p))"

definition flagged :: "buddy_allocator \<Rightarrow> nat \<Rightarrow> bool" where
  "flagged b i \<longleftrightarrow> i < unat (total_pages b) \<and> pg_is_free (page_info b i)"

definition lists_ok :: "buddy_allocator \<Rightarrow> (nat \<Rightarrow> nat list) \<Rightarrow> bool" where
  "lists_ok b xs \<longleftrightarrow>
     (\<forall>p\<le>MAX_ORDER. llist (page_next b) (free_list b p) (xs p) \<and>
        (\<forall>i\<in>set (xs p). flagged b i \<and> pg_order (page_info b i) = p)) \<and>
     (\<forall>p\<le>MAX_ORDER. \<forall>q\<le>MAX_ORDER. \<forall>i\<in>set (xs p). \<forall>j\<in>set (xs q).
        i \<noteq> j \<longrightarrow> blk b i p \<inter> blk b j q = {})"

definition used_ok :: "buddy_allocator \<Rightarrow> nat \<Rightarrow> bool" where
  "used_ok b i \<longleftrightarrow> i < unat (total_pages b) \<and> \<not> pg_is_free (page_info b i) \<and>
     pg_order (page_info b i) = 0 \<and> pg_address (page_info b i) = page_addr b i"

definition pmm_wf :: "buddy_allocator \<Rightarrow> nat set \<Rightarrow> (nat \<Rightarrow> nat list) \<Rightarrow> bool" where
  "pmm_wf b A xs \<longleftrightarrow> geometry b \<and> lists_ok b xs \<and> (\<forall>i\<in>A. used_ok b i) \<and>
     (\<forall>i. flagged b i \<longrightarrow> flag_ok b A xs i)"

definition pmm_inv :: "buddy_allocator \<Rightarrow> nat set \<Rightarrow> bool" where
  "pmm_inv b A \<longleftrightarrow> buddy_lock b = 0 \<and> (\<exists>xs. pmm_wf b A xs)"

lemma wf_listed:
  assumes "pmm_wf b A xs" and "p \<le> MAX_ORDER" and "k \<in> set (xs p)"
  shows "flagged b k" and "pg_order (page_info b k) = p" and "flag_ok b A xs k" and "fits b k p"
proof -
  show fl: "flagged b k" and ord: "pg_order (page_info b k) = p"
    using assms by (simp_all add: pmm_wf_def lists_ok_def)
  show ok: "flag_ok b A xs k" using assms(1) fl by (simp add: pmm_wf_def)
  then show "fits b k p" using ord by (simp add: flag_ok_def Let_def)
qed

text \<open>
  The state inside a merge: a block that is neither listed nor handed out.
\<close>

definition hole_ok :: "buddy_allocator \<Rightarrow> nat set \<Rightarrow> (nat \<Rightarrow> nat list) \<Rightarrow> nat \<Rightarrow> nat \<Rightarrow> bool" where
  "hole_ok b A xs i ord \<longleftrightarrow>
     fits b i ord \<and> pg_address (page_info b i) = page_addr b i \<and> blk b i ord \<inter> A = {} \<and>
     (\<forall>p\<le>MAX_ORDER. \<forall>j\<in>set (xs p). blk b j p \<inter> blk b i ord = {}) \<and>
     (\<forall>k. flagged b k \<longrightarrow>
        (let q = pg_order (page_info b k) in blk b k q \<inter> blk b i ord = {} \<or> blk b k q \<subseteq> blk b i ord))"

subsection \<open>Closing the hole: pushing the block on its list\<close>

lemma push_hole:
  assumes wf: "pmm_wf b A xs" and hole: "hole_ok b A xs i ord" and le: "ord \<le> MAX_ORDER"
  shows "\<exists>b'. push_free ord i (upd_page i (\<lambda>p. p\<lparr>pg_order := ord, pg_is_free := True\<rparr>) b) = Some b' \<and>
    same_range b b' \<and> pmm_wf b' A (xs(ord := i # xs ord))"
proof -
  let ?b1 = "upd_page i (\<lambda>p. p\<lparr>pg_order := ord, pg_is_free := True\<rparr>) b"
  define b' where "b' = set_free_list ord (Some i) (upd_page i (\<lambda>p. p\<lparr>pg_next := free_list ?b1 ord\<rparr>) ?b1)"
  let ?xs = "xs(ord := i # xs ord)"
  have ret: "push_free ord i ?b1 = Some b'"
    using le by (simp add: push_free_def b'_def)
  have rng: "same_range b b'" by (simp add: b'_def)
  note eqs = same_range_eqs [OF rng]
  have fresh: "i \<notin> set (xs p)" if "p \<le> MAX_ORDER" for p
  proof
    assume "i \<in> set (xs p)"
    with hole that have "blk b i p \<inter> blk b i ord = {}" by (simp add: hole_ok_def)
    then show False using blk_self by blast
  qed
  have fitsi: "fits b i ord" using hole by (simp add: hole_ok_def)
  have other: "pg_is_free (page_info b' k) = pg_is_free (page_info b k)"
    "pg_order (page_info b' k) = pg_order (page_info b k)"
    "pg_address (page_info b' k) = pg_address (page_info b k)"
    "pg_next (page_info b' k) = pg_next (page_info b k)" if "k \<noteq> i" for k
    using that by (simp_all add: b'_def)
  have self: "pg_is_free (page_info b' i)" "pg_order (page_info b' i) = ord"
    "pg_address (page_info b' i) = pg_address (page_info b i)"
    "pg_next (page_info b' i) = free_list b ord"
    by (simp_all add: b'_def)
  have seg: "llist (page_next b') (free_list b p) (xs p)" if "p \<le> MAX_ORDER" for p
  proof -
    have "lseg (page_next b') (free_list b p) (xs p) None = llist (page_next b) (free_list b p) (xs p)"
      by (rule lseg_cong, rule other(4)) (use fresh [OF that] in blast)
    then show ?thesis using wf that by (simp add: pmm_wf_def lists_ok_def)
  qed
  have lists: "lists_ok b' ?xs"
    unfolding lists_ok_def eqs
  proof (intro conjI allI impI ballI)
    fix p assume p: "p \<le> MAX_ORDER"
    show "llist (page_next b') (free_list b' p) (?xs p)"
      using seg [OF p] self by (auto simp: b'_def)
  next
    fix p j assume p: "p \<le> MAX_ORDER" and j: "j \<in> set (?xs p)"
    show "flagged b' j"
      using wf p j self other [of j] fits_range [OF fitsi]
      by (cases "j = i") (auto simp: flagged_def eqs pmm_wf_def lists_ok_def split: if_splits)
    show "pg_order (page_info b' j) = p"
      using wf p j self other [of j] fresh [OF p]
      by (cases "j = i") (auto simp: pmm_wf_def lists_ok_def split: if_splits)
  next
    fix p q j k assume pq: "p \<le> MAX_ORDER" "q \<le> MAX_ORDER" and j: "j \<in> set (?xs p)"
      and k: "k \<in> set (?xs q)" and ne: "j \<noteq> k"
    have hd: "blk b m r \<inter> blk b i ord = {}" if "r \<le> MAX_ORDER" "m \<in> set (xs r)" for m r
      using hole that by (simp add: hole_ok_def)
    show "blk b j p \<inter> blk b k q = {}"
    proof (cases "j = i \<or> k = i")
      case True
      then show ?thesis
        using j k ne fresh [OF pq(1)] fresh [OF pq(2)] hd pq by (fastforce split: if_splits)
    next
      case False
      then have "j \<in> set (xs p)" "k \<in> set (xs q)" using j k by (auto split: if_splits)
      then show ?thesis using wf pq ne by (simp add: pmm_wf_def lists_ok_def)
    qed
  qed
  have flags: "flag_ok b' A ?xs k" if fl: "flagged b' k" for k
  proof (cases "k = i")
    case True
    then show ?thesis
      using hole le self by (auto simp: flag_ok_def eqs hole_ok_def Let_def)
  next
    case False
    with fl have "flagged b k" by (simp add: flagged_def other eqs)
    with wf hole have "flag_ok b A xs k"
      and "blk b k (pg_order (page_info b k)) \<inter> blk b i ord = {} \<or>
           blk b k (pg_order (page_info b k)) \<subseteq> blk b i ord"
      by (auto simp: pmm_wf_def hole_ok_def Let_def)
    with False show ?thesis by (auto simp: flag_ok_def eqs other Let_def)
  qed
  have "\<forall>k\<in>A. used_ok b' k"
  proof
    fix k assume k: "k \<in> A"
    moreover have "k \<noteq> i" using hole k blk_self [of i b ord] unfolding hole_ok_def by blast
    ultimately show "used_ok b' k" using wf by (simp add: pmm_wf_def used_ok_def other eqs)
  qed
  with wf lists flags have "pmm_wf b' A ?xs" by (simp add: pmm_wf_def eqs)
  with ret rng show ?thesis by blast
qed


subsection \<open>Taking the buddy out of its list\<close>

lemma unlink_listed:
  assumes seg: "llist (page_next b) (free_list b ord) (us @ j # vs)" and le: "ord \<le> MAX_ORDER"
  shows "\<exists>b'. pmm_unlink b ord j = Some b' \<and> same_range b b' \<and>
    llist (page_next b') (free_list b' ord) (us @ vs) \<and>
    (\<forall>p. p \<noteq> ord \<longrightarrow> free_list b' p = free_list b p) \<and>
    (\<forall>k. pg_is_free (page_info b' k) = pg_is_free (page_info b k) \<and>
         pg_order (page_info b' k) = pg_order (page_info b k) \<and>
         pg_address (page_info b' k) = pg_address (page_info b k)) \<and>
    (\<forall>k. k \<notin> set us \<longrightarrow> pg_next (page_info b' k) = pg_next (page_info b k))"
proof -
  have walk: "ll_walk (page_next b) j None (free_list b ord) = Some (if us = [] then None else Some (last us), Some j)"
    using ll_walk_found [OF seg, of None] by simp
  have dist: "distinct (us @ j # vs)" using seg by (rule llist_distinct)
  show ?thesis
  proof (cases us rule: rev_cases)
    case Nil
    then show ?thesis
      using seg walk le by (auto simp: pmm_unlink_def)
  next
    case (snoc ws w)
    let ?b' = "upd_page w (\<lambda>q. q\<lparr>pg_next := page_next b j\<rparr>) b"
    have "pmm_unlink b ord j = Some ?b'"
      using walk le snoc by (simp add: pmm_unlink_def)
    moreover have "page_next ?b' = (page_next b)(w := page_next b j)"
      by (auto simp: fun_eq_iff)
    then have "llist (page_next ?b') (free_list ?b' ord) (us @ vs)"
      using llist_unlink_mid [of "page_next b" "free_list b ord" ws w j vs] seg snoc by simp
    ultimately show ?thesis using snoc by auto
  qed
qed

lemma unlink_unlisted:
  assumes "llist (page_next b) (free_list b ord) ys" and "ord \<le> MAX_ORDER" and "j \<notin> set ys"
  shows "pmm_unlink b ord j = Some b"
  using assms by (simp add: pmm_unlink_def ll_walk_miss)

lemma unlink_wf:
  assumes wf: "pmm_wf b A xs" and le: "ord \<le> MAX_ORDER"
  shows "\<exists>b'. pmm_unlink b ord j = Some b' \<and> same_range b b' \<and>
    pmm_wf b' A (xs(ord := remove1 j (xs ord))) \<and>
    (\<forall>k. pg_is_free (page_info b' k) = pg_is_free (page_info b k) \<and>
         pg_order (page_info b' k) = pg_order (page_info b k) \<and>
         pg_address (page_info b' k) = pg_address (page_info b k))"
proof (cases "j \<in> set (xs ord)")
  case False
  then have "xs(ord := remove1 j (xs ord)) = xs" by (simp add: remove1_idem)
  moreover have "pmm_unlink b ord j = Some b"
    using wf le False unlink_unlisted by (auto simp: pmm_wf_def lists_ok_def)
  ultimately show ?thesis using wf by simp
next
  case True
  then obtain us vs where xo: "xs ord = us @ j # vs" by (auto simp: in_set_conv_decomp)
  have seg: "llist (page_next b) (free_list b ord) (us @ j # vs)"
    using wf le by (simp add: pmm_wf_def lists_ok_def flip: xo)
  have dist: "distinct (us @ j # vs)" using seg by (rule llist_distinct)
  from unlink_listed [OF seg le] obtain b' where
    ret: "pmm_unlink b ord j = Some b'" and rng: "same_range b b'" and
    seg': "llist (page_next b') (free_list b' ord) (us @ vs)" and
    fl: "\<And>p. p \<noteq> ord \<Longrightarrow> free_list b' p = free_list b p" and
    same: "\<And>k. pg_is_free (page_info b' k) = pg_is_free (page_info b k) \<and>
         pg_order (page_info b' k) = pg_order (page_info b k) \<and>
         pg_address (page_info b' k) = pg_address (page_info b k)" and
    nx: "\<And>k. k \<notin> set us \<Longrightarrow> pg_next (page_info b' k) = pg_next (page_info b k)"
    by blast
  note eqs = same_range_eqs [OF rng]
  define ys where "ys = xs(ord := remove1 j (xs ord))"
  have ysord: "ys ord = us @ vs" using xo dist by (simp add: ys_def remove1_append)
  have sub: "set (ys p) \<subseteq> set (xs p)" for p using xo ysord by (auto simp: ys_def)
  have away: "k \<notin> set us" if "p \<le> MAX_ORDER" "p \<noteq> ord" "k \<in> set (xs p)" for p k
  proof
    assume "k \<in> set us"
    then have "pg_order (page_info b k) = ord"
      using wf le xo by (auto simp: pmm_wf_def lists_ok_def)
    moreover have "pg_order (page_info b k) = p"
      using wf that by (simp add: pmm_wf_def lists_ok_def)
    ultimately show False using that by simp
  qed
  have segs: "llist (page_next b') (free_list b' p) (ys p)" if p: "p \<le> MAX_ORDER" for p
  proof (cases "p = ord")
    case True then show ?thesis using seg' ysord by simp
  next
    case False
    have "lseg (page_next b') (free_list b p) (xs p) None = llist (page_next b) (free_list b p) (xs p)"
      by (rule lseg_cong) (use nx away [OF p False] in auto)
    then show ?thesis using wf p False fl by (simp add: pmm_wf_def lists_ok_def ys_def)
  qed
  have lists: "lists_ok b' ys"
    using wf sub segs unfolding pmm_wf_def lists_ok_def
    by (simp add: eqs same flagged_def) blast
  have "pmm_wf b' A ys"
    using wf lists sub
    by (simp add: pmm_wf_def eqs used_ok_def same flagged_def flag_ok_def Let_def) blast
  with ret rng same show ?thesis by (auto simp: ys_def)
qed


subsection \<open>One merging step\<close>

lemma merge_step_hole:
  assumes wf: "pmm_wf b A xs" and hole: "hole_ok b A xs i ord" and le: "ord \<le> MAX_ORDER"
    and bud: "base_frame b + j = buddy_frame (base_frame b + i) ord"
    and fl: "flagged b j" and jo: "pg_order (page_info b j) = ord"
  shows "hole_ok b A (xs(ord := remove1 j (xs ord))) (min i j) (Suc ord)"
proof -
  let ?ys = "xs(ord := remove1 j (xs ord))" and ?m = "min i j"
  have fj: "flag_ok b A xs j" using wf fl by (simp add: pmm_wf_def)
  then have fitj: "fits b j ord" and adj: "pg_address (page_info b j) = page_addr b j"
    and Aj: "blk b j ord \<inter> A = {}"
    and listj: "\<And>p k. p \<le> MAX_ORDER \<Longrightarrow> k \<in> set (xs p) \<Longrightarrow>
        blk b k p \<inter> blk b j ord = {} \<or> blk b j ord \<subseteq> blk b k p"
    by (auto simp: flag_ok_def jo Let_def)
  have fiti: "fits b i ord" and adi: "pg_address (page_info b i) = page_addr b i"
    and Ai: "blk b i ord \<inter> A = {}"
    and listi: "\<And>p k. p \<le> MAX_ORDER \<Longrightarrow> k \<in> set (xs p) \<Longrightarrow> blk b k p \<inter> blk b i ord = {}"
    and flagi: "\<And>k. flagged b k \<Longrightarrow> blk b k (pg_order (page_info b k)) \<inter> blk b i ord = {} \<or>
        blk b k (pg_order (page_info b k)) \<subseteq> blk b i ord"
    using hole by (auto simp: hole_ok_def Let_def)
  have disj: "blk b i ord \<inter> blk b j ord = {}" using bud by (rule buddy_disjoint)
  have un: "blk b ?m (Suc ord) = blk b i ord \<union> blk b j ord"
    using buddy_union [OF bud] by (auto simp: min_def)
  have fitm: "fits b ?m (Suc ord)" using bud fiti fitj by (rule buddy_fits_min)
  have bigger: "blk b i ord \<subseteq> blk b k q" if "blk b j ord \<subseteq> blk b k q" "ord < q" for k q
  proof -
    have "j \<in> blk b k q" using that by auto
    moreover have "j \<in> blk b i (Suc ord)" using buddy_union(1) [OF bud] by simp
    ultimately have "blk b i (Suc ord) \<subseteq> blk b k q"
      using that by (intro blk_mono_of_common [where x = j]) auto
    then show ?thesis using buddy_union(1) [OF bud] by auto
  qed
  have clear: "blk b k p \<inter> blk b ?m (Suc ord) = {}" if p: "p \<le> MAX_ORDER" and k: "k \<in> set (?ys p)" for p k
  proof -
    have kx: "k \<in> set (xs p)" using k set_remove1_subset [of j "xs ord"] by (auto split: if_splits)
    have "blk b k p \<inter> blk b j ord = {}"
    proof (rule ccontr)
      assume "blk b k p \<inter> blk b j ord \<noteq> {}"
      then have sub: "blk b j ord \<subseteq> blk b k p" using listj [OF p kx] by blast
      have "\<not> ord < p" using bigger [OF sub] listi [OF p kx] blk_self [of i b ord] by blast
      moreover have fk: "fits b k p"
        by (rule wf_listed(4) [OF wf p kx])
      then have "ord \<le> p" using fits_blk_subset_order [OF fk fitj sub] by simp
      ultimately have po: "p = ord" by simp
      have "j \<in> blk b k ord" using sub po blk_self by blast
      then have "k = j" using fits_head_unique [of b k ord j] fk fitj po by simp
      moreover have "llist (page_next b) (free_list b ord) (xs ord)"
        using wf le by (simp add: pmm_wf_def lists_ok_def)
      then have "distinct (xs ord)" by (rule llist_distinct)
      ultimately show False using k po by simp
    qed
    then show ?thesis using un listi [OF p kx] by auto
  qed
  have flags: "blk b k q \<inter> blk b ?m (Suc ord) = {} \<or> blk b k q \<subseteq> blk b ?m (Suc ord)"
    if k: "flagged b k" and q: "q = pg_order (page_info b k)" for k q
  proof -
    have "blk b k q \<inter> blk b j ord = {} \<or> blk b k q \<subseteq> blk b j ord"
    proof (cases "q \<le> ord")
      case True then show ?thesis by (rule blk_laminar)
    next
      case False
      then have "blk b j ord \<inter> blk b k q = {} \<or> blk b j ord \<subseteq> blk b k q"
        by (intro blk_laminar) simp
      moreover have "\<not> blk b j ord \<subseteq> blk b k q"
      proof
        assume sub: "blk b j ord \<subseteq> blk b k q"
        with False have "blk b i ord \<subseteq> blk b k q" by (intro bigger) auto
        then have "blk b k q \<subseteq> blk b i ord" using flagi [OF k] q blk_self [of i b ord] by blast
        then show False using sub disj blk_self [of j b ord] by blast
      qed
      ultimately show ?thesis by blast
    qed
    then show ?thesis using flagi [OF k] q un by blast
  qed
  have adm: "pg_address (page_info b ?m) = page_addr b ?m" using adi adj by (simp add: min_def)
  have "blk b ?m (Suc ord) \<inter> A = {}" using un Ai Aj by blast
  with fitm adm clear flags show ?thesis by (auto simp: hole_ok_def Let_def)
qed


subsection \<open>The whole merge\<close>

text \<open>The pages on the free lists, block by block.\<close>

definition listed :: "buddy_allocator \<Rightarrow> (nat \<Rightarrow> nat list) \<Rightarrow> nat set" where
  "listed b xs = (\<Union>p\<in>{..MAX_ORDER}. \<Union>j\<in>set (xs p). blk b j p)"

text \<open>Every aligned block of \<open>2 ^ (MAX_ORDER + 1)\<close> pages has a page that is handed out.\<close>

definition no_huge_hole :: "buddy_allocator \<Rightarrow> nat set \<Rightarrow> bool" where
  "no_huge_hole b A \<longleftrightarrow> (\<forall>i. fits b i (Suc MAX_ORDER) \<longrightarrow> blk b i (Suc MAX_ORDER) \<inter> A \<noteq> {})"

lemma no_huge_hole_small: "unat (total_pages b) < 2048 \<Longrightarrow> no_huge_hole b A"
  by (simp add: no_huge_hole_def fits_def MAX_ORDER_def)

text \<open>
  What keeps a merge inside the array of free lists: either there is no room for a block of order
  \<open>MAX_ORDER + 1\<close>, or no block of the largest order is free.
\<close>

definition merge_room :: "buddy_allocator \<Rightarrow> nat set \<Rightarrow> bool" where
  "merge_room b A \<longleftrightarrow> no_huge_hole b A \<or> (\<forall>k. flagged b k \<longrightarrow> pg_order (page_info b k) \<noteq> MAX_ORDER)"

lemma buddy_frame_less: "f < 1048576 \<Longrightarrow> ord \<le> MAX_ORDER \<Longrightarrow> buddy_frame f ord < 1048576"
proof -
  assume f: "f < 1048576" and le: "ord \<le> MAX_ORDER"
  have "take_bit 20 f = f" using f by (simp add: take_bit_nat_eq_self_iff)
  moreover have "(2 :: nat) ^ ord < 2 ^ 20" using le by (intro power_strict_increasing) (auto simp: MAX_ORDER_def)
  then have "take_bit 20 (2 ^ ord :: nat) = 2 ^ ord" by (simp only: take_bit_nat_eq_self_iff)
  ultimately have "take_bit 20 (buddy_frame f ord) = buddy_frame f ord"
    by (simp add: buddy_frame_def take_bit_xor)
  then show ?thesis by (simp add: take_bit_nat_eq_self_iff)
qed

lemma hole_phys:
  assumes g: "geometry b" and i: "i < unat (total_pages b)" and le: "ord \<le> MAX_ORDER"
  shows "pmm_get_buddy_address (page_addr b i) ord = frame_addr (buddy_frame (base_frame b + i) ord)"
    and "phys_to_page_index b (pmm_get_buddy_address (page_addr b i) ord) = Some j \<longleftrightarrow>
         base_frame b + j = buddy_frame (base_frame b + i) ord \<and> j < unat (total_pages b)"
proof -
  have f: "base_frame b + i < 1048576" using geometry_bound [OF g] i by linarith
  show eq: "pmm_get_buddy_address (page_addr b i) ord = frame_addr (buddy_frame (base_frame b + i) ord)"
    unfolding page_addr_def by (rule pmm_get_buddy_address_frame)
  show "phys_to_page_index b (pmm_get_buddy_address (page_addr b i) ord) = Some j \<longleftrightarrow>
         base_frame b + j = buddy_frame (base_frame b + i) ord \<and> j < unat (total_pages b)"
    unfolding eq phys_to_page_index_frame [OF g buddy_frame_less [OF f le]] by auto
qed

lemma listed_upd [simp]:
  "listed (upd_page i f b) xs = listed b xs" "listed (set_free_list q v b) xs = listed b xs"
  by (simp_all add: listed_def blk_def base_frame_def)

lemma listed_same_range: "same_range b b' \<Longrightarrow> listed b' xs = listed b xs"
  by (simp add: listed_def same_range_eqs)

lemma listed_push:
  assumes "ord \<le> MAX_ORDER"
  shows "listed b (xs(ord := i # xs ord)) = blk b i ord \<union> listed b xs"
proof (intro set_eqI iffI)
  fix x assume "x \<in> blk b i ord \<union> listed b xs"
  then consider "x \<in> blk b i ord" | p j where "p \<le> MAX_ORDER" "j \<in> set (xs p)" "x \<in> blk b j p"
    by (auto simp: listed_def)
  then show "x \<in> listed b (xs(ord := i # xs ord))"
  proof cases
    case 1
    then show ?thesis using assms by (auto simp: listed_def intro!: bexI [of _ ord])
  next
    case (2 p j)
    then have "j \<in> set ((xs(ord := i # xs ord)) p)" by (cases "p = ord") simp_all
    with 2 show ?thesis unfolding listed_def by blast
  qed
qed (auto simp: listed_def split: if_splits)

lemma listed_remove1: "listed b xs \<subseteq> blk b j ord \<union> listed b (xs(ord := remove1 j (xs ord)))"
proof
  fix x assume "x \<in> listed b xs"
  then obtain p k where p: "p \<le> MAX_ORDER" "k \<in> set (xs p)" "x \<in> blk b k p"
    by (auto simp: listed_def)
  show "x \<in> blk b j ord \<union> listed b (xs(ord := remove1 j (xs ord)))"
  proof (cases "p = ord \<and> k = j")
    case False
    then have "k \<in> set ((xs(ord := remove1 j (xs ord))) p)" using p in_set_remove1 [of k j "xs ord"] by auto
    with p show ?thesis unfolding listed_def by blast
  qed (use p in simp)
qed

text \<open>The pages of the blocks whose head is flagged as free, on a list or not.\<close>

definition flagged_pages :: "buddy_allocator \<Rightarrow> nat set" where
  "flagged_pages b = {x. \<exists>k. flagged b k \<and> x \<in> blk b k (pg_order (page_info b k))}"

lemma listed_mono: "(\<And>p. set (ys p) \<subseteq> set (xs p)) \<Longrightarrow> listed b ys \<subseteq> listed b xs"
  unfolding listed_def by blast

lemma pmm_buddy_merge_ok:
  assumes "pmm_wf b A xs" and "hole_ok b A xs i ord" and "ord \<le> MAX_ORDER" and "merge_room b A"
  shows "\<exists>b' xs'. pmm_buddy_merge b (page_addr b i) ord = Some b' \<and> same_range b b' \<and>
    pmm_wf b' A xs' \<and> blk b i ord \<union> listed b xs \<subseteq> listed b xs' \<and>
    listed b xs' \<subseteq> blk b i ord \<union> listed b xs \<union> flagged_pages b"
  using assms
proof (induction "Suc MAX_ORDER - ord" arbitrary: b xs i ord rule: less_induct)
  case less
  note wf = \<open>pmm_wf b A xs\<close> and hole = \<open>hole_ok b A xs i ord\<close> and le = \<open>ord \<le> MAX_ORDER\<close>
  have g: "geometry b" using wf by (simp add: pmm_wf_def)
  have fitsi: "fits b i ord" using hole by (simp add: hole_ok_def)
  have i: "i < unat (total_pages b)" using fitsi by (rule fits_range)
  note hp = hole_phys [OF g i le]
  let ?ba = "pmm_get_buddy_address (page_addr b i) ord"
  have pi: "phys_to_page_index b (page_addr b i) = Some i" by (rule phys_to_page_index_page_addr [OF g i])
  show ?case
  proof (cases "\<exists>j. phys_to_page_index b ?ba = Some j \<and> pg_is_free (page_info b j) \<and> pg_order (page_info b j) = ord")
    case False
    then have "pmm_buddy_merge b (page_addr b i) ord =
        push_free ord i (upd_page i (\<lambda>p. p\<lparr>pg_order := ord, pg_is_free := True\<rparr>) b)"
      by (subst pmm_buddy_merge.simps) (auto simp: Let_def pi split: option.splits)
    with push_hole [OF wf hole le] listed_push [OF le, of b xs i] show ?thesis by fastforce
  next
    case True
    then obtain j where pj: "phys_to_page_index b ?ba = Some j" and free: "pg_is_free (page_info b j)"
      and jo: "pg_order (page_info b j) = ord" by blast
    have bud: "base_frame b + j = buddy_frame (base_frame b + i) ord" and jlt: "j < unat (total_pages b)"
      using pj by (simp_all only: hp(2))
    have fl: "flagged b j" using free jlt by (simp add: flagged_def)
    from unlink_wf [OF wf le, of j] obtain b1 where un: "pmm_unlink b ord j = Some b1"
      and rng: "same_range b b1" and wf1: "pmm_wf b1 A (xs(ord := remove1 j (xs ord)))"
      and pg: "\<And>k. pg_is_free (page_info b1 k) = pg_is_free (page_info b k) \<and>
         pg_order (page_info b1 k) = pg_order (page_info b k) \<and>
         pg_address (page_info b1 k) = pg_address (page_info b k)" by blast
    note eqs = same_range_eqs [OF rng]
    have h0: "hole_ok b A (xs(ord := remove1 j (xs ord))) (min i j) (Suc ord)"
      by (rule merge_step_hole [OF wf hole le bud fl jo])
    then have h1: "hole_ok b1 A (xs(ord := remove1 j (xs ord))) (min i j) (Suc ord)"
      by (simp add: hole_ok_def eqs pg flagged_def)
    have ord: "Suc ord \<le> MAX_ORDER"
    proof (rule ccontr)
      assume "\<not> Suc ord \<le> MAX_ORDER"
      then have o: "ord = MAX_ORDER" using le by simp
      then have "no_huge_hole b A" using \<open>merge_room b A\<close> fl jo unfolding merge_room_def by blast
      then show False using h0 unfolding hole_ok_def no_huge_hole_def o by metis
    qed
    have f: "base_frame b + i < 1048576" "base_frame b + j < 1048576"
      using geometry_bound [OF g] i jlt by linarith+
    have "?ba = page_addr b j" by (simp only: hp(1) page_addr_def [of b j] bud)
    then have "(if page_addr b i < ?ba then page_addr b i else ?ba) = page_addr b1 (min i j)"
      using frame_addr_less [OF f] by (simp add: eqs page_addr_def min_def)
    then have step: "pmm_buddy_merge b (page_addr b i) ord = pmm_buddy_merge b1 (page_addr b1 (min i j)) (Suc ord)"
      by (subst pmm_buddy_merge.simps) (simp add: Let_def pi pj free jo le un)
    have nh: "merge_room b1 A"
      using \<open>merge_room b A\<close> by (simp add: merge_room_def no_huge_hole_def flagged_def pg eqs)
    from less.hyps [OF _ wf1 h1 ord nh] le obtain b' xs' where
      ret: "pmm_buddy_merge b1 (page_addr b1 (min i j)) (Suc ord) = Some b'" and rng': "same_range b1 b'"
      and wf': "pmm_wf b' A xs'"
      and cov: "blk b1 (min i j) (Suc ord) \<union> listed b1 (xs(ord := remove1 j (xs ord))) \<subseteq> listed b1 xs'"
      and bnd: "listed b1 xs' \<subseteq> blk b1 (min i j) (Suc ord) \<union> listed b1 (xs(ord := remove1 j (xs ord))) \<union> flagged_pages b1"
      by (auto simp: Suc_diff_le)
    have un2: "blk b (min i j) (Suc ord) = blk b i ord \<union> blk b j ord"
      using buddy_union [OF bud] by (auto simp: min_def)
    then have "blk b i ord \<union> listed b xs \<subseteq> listed b xs'"
      using cov listed_remove1 [of b xs j ord] unfolding eqs listed_same_range [OF rng] by blast
    moreover have "blk b j ord \<subseteq> flagged_pages b" using fl jo unfolding flagged_pages_def by blast
    moreover have "flagged_pages b1 = flagged_pages b" by (simp add: flagged_pages_def flagged_def pg eqs)
    moreover have "listed b (xs(ord := remove1 j (xs ord))) \<subseteq> listed b xs"
      by (rule listed_mono) (auto dest: set_remove1_subset [THEN subsetD])
    ultimately have "blk b i ord \<union> listed b xs \<subseteq> listed b xs' \<and> listed b xs' \<subseteq> blk b i ord \<union> listed b xs \<union> flagged_pages b"
      using bnd un2 unfolding eqs listed_same_range [OF rng] by blast
    with step ret wf' same_range_trans [OF rng rng'] show ?thesis by auto
  qed
qed


section \<open>Freeing a page\<close>

lemma pmm_wf_lock [simp]: "pmm_wf (b\<lparr>buddy_lock := l\<rparr>) A xs \<longleftrightarrow> pmm_wf b A xs"
  by (simp add: pmm_wf_def geometry_def lists_ok_def used_ok_def flagged_def flag_ok_def
      page_addr_def base_frame_def blk_def fits_def Let_def)

lemma lock_simps [simp]:
  "page_addr (b\<lparr>buddy_lock := l\<rparr>) = page_addr b"
  "blk (b\<lparr>buddy_lock := l\<rparr>) = blk b"
  "fits (b\<lparr>buddy_lock := l\<rparr>) = fits b"
  "listed (b\<lparr>buddy_lock := l\<rparr>) = listed b"
  "no_huge_hole (b\<lparr>buddy_lock := l\<rparr>) = no_huge_hole b"
  "merge_room (b\<lparr>buddy_lock := l\<rparr>) = merge_room b"
  "flagged_pages (b\<lparr>buddy_lock := l\<rparr>) = flagged_pages b"
  by (simp_all add: fun_eq_iff page_addr_def base_frame_def blk_def fits_def listed_def no_huge_hole_def
      merge_room_def flagged_def flagged_pages_def)

lemma page_addr_nonzero:
  assumes g: "geometry b" and i: "i < unat (total_pages b)"
  shows "page_addr b i \<noteq> 0"
proof -
  have "unat (memory_base b) \<noteq> 0" using g by (simp add: geometry_def unat_eq_zero)
  then have "base_frame b \<noteq> 0" using geometry_base [OF g] by auto
  moreover have "base_frame b + i < 1048576" using geometry_bound [OF g] i by linarith
  then have "unat (page_addr b i) = (base_frame b + i) * 4096"
    unfolding page_addr_def by (rule unat_frame_addr)
  ultimately show ?thesis by (metis add_is_0 mult_is_0 unat_0 zero_neq_numeral)
qed

lemma page_addr_aligned:
  assumes g: "geometry b" and i: "i < unat (total_pages b)"
  shows "page_addr b i mod PAGE_SIZE = 0"
proof -
  have "base_frame b + i < 1048576" using geometry_bound [OF g] i by linarith
  then have "unat (page_addr b i) = (base_frame b + i) * 4096"
    unfolding page_addr_def by (rule unat_frame_addr)
  then show ?thesis by (simp add: word_arith_nat_mod)
qed

lemma pmm_free_block_ok:
  assumes wf: "pmm_wf b A xs" and a: "a \<in> A" and nh: "merge_room b (A - {a})"
  shows "\<exists>b' xs'. pmm_free_block b (page_addr b a) 0 = Some b' \<and> same_range b b' \<and>
    pmm_wf b' (A - {a}) xs' \<and> insert a (listed b xs) \<subseteq> listed b xs' \<and>
    listed b xs' \<subseteq> insert a (listed b xs \<union> flagged_pages b)"
proof -
  let ?b1 = "upd_page a (\<lambda>p. p\<lparr>pg_is_free := True\<rparr>) b"
  have g: "geometry b" using wf by (simp add: pmm_wf_def)
  have used: "used_ok b a" using wf a by (simp add: pmm_wf_def)
  then have alt: "a < unat (total_pages b)" by (simp add: used_ok_def)
  have rng: "same_range b ?b1" by simp
  note eqs = same_range_eqs [OF rng]
  have ordk: "pg_order (page_info ?b1 k) = pg_order (page_info b k)"
    "pg_address (page_info ?b1 k) = pg_address (page_info b k)" for k by simp_all
  have fl: "flagged ?b1 k \<longleftrightarrow> k = a \<or> flagged b k" for k
    using alt by (auto simp: flagged_def)
  have avoid: "a \<notin> blk b k (pg_order (page_info b k))" if "flagged b k" for k
  proof -
    have "flag_ok b A xs k" using wf that by (simp add: pmm_wf_def)
    then show ?thesis using a by (auto simp: flag_ok_def Let_def)
  qed
  have lavoid: "a \<notin> blk b k p" if "p \<le> MAX_ORDER" "k \<in> set (xs p)" for k p
    using avoid [OF wf_listed(1) [OF wf that]] wf_listed(2) [OF wf that] by simp
  have wf1: "pmm_wf ?b1 (A - {a}) xs"
    unfolding pmm_wf_def eqs
  proof (intro conjI ballI allI impI)
    have nx: "page_next ?b1 = page_next b" by (simp add: fun_eq_iff)
    show "lists_ok ?b1 xs"
      using wf unfolding lists_ok_def pmm_wf_def eqs fl ordk nx by simp
    show "used_ok ?b1 i" if "i \<in> A - {a}" for i
      using wf that by (simp add: pmm_wf_def used_ok_def eqs)
    show "flag_ok ?b1 (A - {a}) xs i" if "flagged ?b1 i" for i
    proof (cases "i = a")
      case True
      then show ?thesis
        using used lavoid unfolding flag_ok_def eqs ordk used_ok_def by (auto simp: Let_def)
    next
      case False
      then have "flag_ok b A xs i" using that wf fl by (simp add: pmm_wf_def)
      then show ?thesis unfolding flag_ok_def eqs ordk Let_def by auto
    qed
  qed (rule g)
  have hole: "hole_ok ?b1 (A - {a}) xs a 0"
    using used alt lavoid avoid unfolding hole_ok_def eqs ordk fl used_ok_def
    by (auto simp: Let_def)
  have "pg_order (page_info b a) \<noteq> MAX_ORDER" using used by (simp add: used_ok_def MAX_ORDER_def)
  then have nh1: "merge_room ?b1 (A - {a})"
    using nh by (simp only: merge_room_def no_huge_hole_def eqs fl ordk) blast
  from pmm_buddy_merge_ok [OF wf1 hole _ nh1] obtain b' xs' where
    m: "pmm_buddy_merge ?b1 (page_addr b a) 0 = Some b'" and "same_range ?b1 b'"
    and "pmm_wf b' (A - {a}) xs'" and "blk b a 0 \<union> listed b xs \<subseteq> listed b xs'"
    and "listed b xs' \<subseteq> blk b a 0 \<union> listed b xs \<union> flagged_pages ?b1"
    unfolding eqs listed_same_range [OF rng] by blast
  moreover have "flagged_pages ?b1 \<subseteq> insert a (flagged_pages b)"
    using used unfolding flagged_pages_def eqs fl ordk by (auto simp: used_ok_def)
  moreover have "pmm_free_block b (page_addr b a) 0 = Some b'"
    using m used by (simp add: pmm_free_block_def phys_to_page_index_page_addr [OF g alt] used_ok_def)
  moreover from \<open>same_range ?b1 b'\<close> have "same_range b b'" by (rule same_range_trans [OF rng])
  ultimately show ?thesis by (intro exI [of _ b'] exI [of _ xs']) auto
qed

section \<open>Taking a page\<close>

lemma pmm_fetch_none:
  "(\<And>p. j \<le> p \<Longrightarrow> p \<le> MAX_ORDER \<Longrightarrow> free_list b p = None) \<Longrightarrow> pmm_fetch_order_block b j = (None, b)"
proof (induction b j rule: pmm_fetch_order_block.induct)
  case (1 b j)
  then show ?case by (subst pmm_fetch_order_block.simps) (auto split: option.split)
qed

lemma pmm_fetch_some:
  "j \<le> p \<Longrightarrow> p \<le> MAX_ORDER \<Longrightarrow> free_list b p = Some i \<Longrightarrow>
   (\<And>q. j \<le> q \<Longrightarrow> q < p \<Longrightarrow> free_list b q = None) \<Longrightarrow>
   pmm_fetch_order_block b j = (Some i, set_free_list p (page_next b i) b)"
proof (induction b j rule: pmm_fetch_order_block.induct)
  case (1 b j)
  show ?case
  proof (cases "j = p")
    case True
    then show ?thesis using 1 by (subst pmm_fetch_order_block.simps) simp
  next
    case False
    with 1 have "j < p" "free_list b j = None" by simp_all
    with 1 have "pmm_fetch_order_block b (Suc j) = (Some i, set_free_list p (page_next b i) b)"
      by simp
    with 1 \<open>free_list b j = None\<close> show ?thesis by (subst pmm_fetch_order_block.simps) simp
  qed
qed

lemma pmm_fetch_cases:
  obtains (none) "\<And>p. j \<le> p \<Longrightarrow> p \<le> MAX_ORDER \<Longrightarrow> free_list b p = None"
    "pmm_fetch_order_block b j = (None, b)"
  | (some) p i where "j \<le> p" "p \<le> MAX_ORDER" "free_list b p = Some i"
    "\<And>q. j \<le> q \<Longrightarrow> q < p \<Longrightarrow> free_list b q = None"
    "pmm_fetch_order_block b j = (Some i, set_free_list p (page_next b i) b)"
proof (cases "\<exists>p. j \<le> p \<and> p \<le> MAX_ORDER \<and> free_list b p \<noteq> None")
  case False
  then show ?thesis using none pmm_fetch_none [of j b] by blast
next
  case True
  define p where "p = (LEAST p. j \<le> p \<and> p \<le> MAX_ORDER \<and> free_list b p \<noteq> None)"
  have P: "j \<le> p \<and> p \<le> MAX_ORDER \<and> free_list b p \<noteq> None"
    unfolding p_def using True by (rule LeastI_ex)
  then obtain i where i: "free_list b p = Some i" by auto
  have low: "free_list b q = None" if "j \<le> q" "q < p" for q
    using not_less_Least [of q "\<lambda>p. j \<le> p \<and> p \<le> MAX_ORDER \<and> free_list b p \<noteq> None"] that P
    unfolding p_def [symmetric] by auto
  show ?thesis using some [of p i] P i low pmm_fetch_some [of j p b i] by blast
qed

text \<open>The page leaves its list, its whole block with it.\<close>

lemma take_wf:
  assumes wf: "pmm_wf b A xs" and p: "p \<le> MAX_ORDER" and hd: "free_list b p = Some a"
  defines "b' \<equiv> upd_page a (\<lambda>p. p\<lparr>pg_is_free := False, pg_order := 0\<rparr>) (set_free_list p (page_next b a) b)"
  shows "a \<in> set (xs p)" and "a \<notin> A" and "a < unat (total_pages b)"
    and "pg_address (page_info b a) = page_addr b a"
    and "pmm_wf b' (insert a A) (xs(p := tl (xs p)))"
    and "xs p = a # tl (xs p)"
proof -
  have seg: "llist (page_next b) (Some a) (xs p)" using wf p hd by (auto simp: pmm_wf_def lists_ok_def)
  then obtain ys where xp: "xs p = a # ys" and segy: "llist (page_next b) (page_next b a) ys"
    by (auto simp: llist_Some)
  show a: "a \<in> set (xs p)" and "xs p = a # tl (xs p)" using xp by simp_all
  note wl = wf_listed [OF wf p a]
  have ao: "pg_order (page_info b a) = p" by (rule wl(2))
  show "a \<notin> A" using wl(3) blk_self [of a b p] unfolding flag_ok_def ao Let_def by blast
  show alt: "a < unat (total_pages b)" using wl(4) by (rule fits_range)
  show ad: "pg_address (page_info b a) = page_addr b a" using wl(3) by (simp add: flag_ok_def Let_def)
  have dist: "distinct (a # ys)" using llist_distinct [OF seg] xp by simp
  have rng: "same_range b b'" by (simp add: b'_def)
  note eqs = same_range_eqs [OF rng]
  have nx: "page_next b' = page_next b" by (simp add: fun_eq_iff b'_def)
  have other: "pg_is_free (page_info b' k) = pg_is_free (page_info b k)"
    "pg_order (page_info b' k) = pg_order (page_info b k)"
    "pg_address (page_info b' k) = pg_address (page_info b k)" if "k \<noteq> a" for k
    using that by (simp_all add: b'_def)
  have self: "\<not> pg_is_free (page_info b' a)" "pg_order (page_info b' a) = 0"
    "pg_address (page_info b' a) = pg_address (page_info b a)"
    by (simp_all add: b'_def)
  define zs where "zs = xs(p := ys)"
  have zs: "xs(p := tl (xs p)) = zs" using xp by (simp add: zs_def)
  have sub: "k \<in> set (xs q) \<and> k \<noteq> a" if "q \<le> MAX_ORDER" "k \<in> set (zs q)" for q k
  proof (cases "q = p")
    case True then show ?thesis using that xp dist by (auto simp: zs_def)
  next
    case False
    then have k: "k \<in> set (xs q)" using that by (simp add: zs_def)
    then have "pg_order (page_info b k) = q" using wf_listed(2) [OF wf that(1)] by simp
    then show ?thesis using k False ao by auto
  qed
  have lists: "lists_ok b' zs"
    unfolding lists_ok_def nx eqs
  proof (intro conjI allI impI ballI)
    show "llist (page_next b) (free_list b' q) (zs q)" if "q \<le> MAX_ORDER" for q
      using wf that segy by (auto simp: b'_def zs_def pmm_wf_def lists_ok_def)
    show "flagged b' k" "pg_order (page_info b' k) = q" if "q \<le> MAX_ORDER" "k \<in> set (zs q)" for q k
      using sub [OF that] wf_listed(1,2) [OF wf that(1), of k] other [of k] by (simp_all add: flagged_def eqs)
    show "blk b i q \<inter> blk b j r = {}"
      if "q \<le> MAX_ORDER" "r \<le> MAX_ORDER" "i \<in> set (zs q)" "j \<in> set (zs r)" "i \<noteq> j" for q r i j
      using sub [OF that(1,3)] sub [OF that(2,4)] wf that by (simp add: pmm_wf_def lists_ok_def)
  qed
  have flags: "flag_ok b' (insert a A) zs k" if fl: "flagged b' k" for k
  proof -
    have ka: "k \<noteq> a" using fl self by (auto simp: flagged_def)
    let ?q = "pg_order (page_info b k)"
    have fk: "flag_ok b A xs k" using wf fl ka other [of k] by (simp add: pmm_wf_def flagged_def eqs)
    then have fitk: "fits b k ?q" and d: "blk b a p \<inter> blk b k ?q = {} \<or> blk b k ?q \<subseteq> blk b a p"
      using p a by (simp_all add: flag_ok_def Let_def)
    have "a \<notin> blk b k ?q"
    proof
      assume ak: "a \<in> blk b k ?q"
      then have "blk b k ?q \<subseteq> blk b a p" using d blk_self [of a b p] by blast
      then have "k \<in> blk b a p" using blk_self by blast
      then have "a \<le> k" using fits_blk [OF wl(4)] by simp
      moreover have "k \<le> a" using ak fits_blk [OF fitk] by simp
      ultimately show False using ka by simp
    qed
    with fk ka sub show ?thesis
      unfolding flag_ok_def eqs other(2,3) [OF ka] by (simp add: Let_def)
  qed
  have "\<forall>k\<in>insert a A. used_ok b' k"
  proof
    fix k assume k: "k \<in> insert a A"
    show "used_ok b' k"
    proof (cases "k = a")
      case True then show ?thesis using alt self ad by (simp add: used_ok_def eqs)
    next
      case False
      with k have "used_ok b k" using wf by (simp add: pmm_wf_def)
      then show ?thesis using other [OF False] by (simp add: used_ok_def eqs)
    qed
  qed
  with wf lists flags show "pmm_wf b' (insert a A) (xs(p := tl (xs p)))"
    unfolding zs by (simp add: pmm_wf_def eqs)
qed


text \<open>
  The free pages, read off the free lists of the state itself: the pages of every block on a list.
\<close>

definition free_pages :: "buddy_allocator \<Rightarrow> nat set" where
  "free_pages b = {k. \<exists>p\<le>MAX_ORDER. \<exists>ys. llist (page_next b) (free_list b p) ys \<and> (\<exists>j\<in>set ys. k \<in> blk b j p)}"

lemma free_pages_listed: "pmm_wf b A xs \<Longrightarrow> free_pages b = listed b xs"
proof -
  assume "pmm_wf b A xs"
  then have l: "llist (page_next b) (free_list b p) (xs p)" if "p \<le> MAX_ORDER" for p
    using that by (simp add: pmm_wf_def lists_ok_def)
  then have "llist (page_next b) (free_list b p) ys \<longleftrightarrow> ys = xs p" if "p \<le> MAX_ORDER" for p ys
    using that llist_det by blast
  then have "(\<exists>ys. llist (page_next b) (free_list b p) ys \<and> (\<exists>j\<in>set ys. k \<in> blk b j p)) \<longleftrightarrow>
      (\<exists>j\<in>set (xs p). k \<in> blk b j p)" if "p \<le> MAX_ORDER" for p k
    using that by simp
  then show ?thesis
    unfolding free_pages_def listed_def set_eq_iff mem_Collect_eq UN_iff atMost_iff Bex_def by metis
qed

lemma free_pages_lock [simp]: "free_pages (b\<lparr>buddy_lock := l\<rparr>) = free_pages b"
  by (simp add: free_pages_def)

lemma listed_not_used: "pmm_wf b A xs \<Longrightarrow> listed b xs \<inter> A = {}"
proof -
  assume wf: "pmm_wf b A xs"
  have "blk b j p \<inter> A = {}" if "p \<le> MAX_ORDER" "j \<in> set (xs p)" for p j
    using wf_listed(2,3) [OF wf that] unfolding flag_ok_def Let_def by blast
  then show ?thesis unfolding listed_def by blast
qed

lemma take_listed:
  assumes wf: "pmm_wf b A xs" and p: "p \<le> MAX_ORDER" and xp: "xs p = a # tl (xs p)"
  shows "listed b (xs(p := tl (xs p))) = listed b xs - blk b a p"
proof -
  let ?ys = "xs(p := tl (xs p))"
  have "xs = ?ys(p := a # ?ys p)" using xp by (simp add: fun_eq_iff)
  then have u: "listed b xs = blk b a p \<union> listed b ?ys" using listed_push [OF p, of b ?ys a] by simp
  have ina: "a \<in> set (xs p)" using xp by (metis list.set_intros(1))
  have "llist (page_next b) (free_list b p) (xs p)" using wf p by (simp add: pmm_wf_def lists_ok_def)
  then have "distinct (a # tl (xs p))" using llist_distinct xp by metis
  then have na: "a \<notin> set (tl (xs p))" by simp
  have "blk b j q \<inter> blk b a p = {}" if q: "q \<le> MAX_ORDER" and j: "j \<in> set (?ys q)" for q j
  proof -
    have jx: "j \<in> set (xs q)" using j xp by (metis fun_upd_apply list.set_intros(2))
    have "j \<noteq> a"
    proof
      assume "j = a"
      then have "pg_order (page_info b a) = q" "pg_order (page_info b a) = p"
        using wf_listed(2) [OF wf q] jx wf_listed(2) [OF wf p ina] by simp_all
      then show False using j na \<open>j = a\<close> by simp
    qed
    then show ?thesis using wf q p jx ina by (simp add: pmm_wf_def lists_ok_def)
  qed
  then have "listed b ?ys \<inter> blk b a p = {}" unfolding listed_def by blast
  with u show ?thesis by blast
qed

lemma pmm_alloc_block_none:
  assumes "\<And>p. p \<le> MAX_ORDER \<Longrightarrow> free_list b p = None"
  shows "pmm_alloc_block b ord = Some (None, b)"
proof -
  have "pmm_fetch_order_block b ord = (None, b)" using assms by (intro pmm_fetch_none) simp
  then show ?thesis by (simp add: pmm_alloc_block_def)
qed

lemma determine_split_same [simp]: "pmm_determine_split b i ord ord = Some b"
  by (simp add: pmm_determine_split.simps)

lemma pmm_alloc_block_some:
  assumes wf: "pmm_wf b A xs" and p: "p \<le> MAX_ORDER" and hd: "free_list b p = Some a"
    and low: "\<And>q. q < p \<Longrightarrow> free_list b q = None"
  shows "\<exists>b'. pmm_alloc_block b 0 = Some (Some (page_addr b a), b') \<and> same_range b b' \<and>
    a \<notin> A \<and> a < unat (total_pages b) \<and> a \<in> listed b xs \<and>
    pmm_wf b' (insert a A) (xs(p := tl (xs p))) \<and> xs p = a # tl (xs p) \<and>
    (\<forall>k. flagged b' k \<longrightarrow> flagged b k \<and> pg_order (page_info b' k) = pg_order (page_info b k))"
proof -
  let ?b1 = "set_free_list p (page_next b a) b"
  let ?b' = "upd_page a (\<lambda>p. p\<lparr>pg_is_free := False, pg_order := 0\<rparr>) ?b1"
  note tw = take_wf [OF wf p hd]
  have g: "geometry b" using wf by (simp add: pmm_wf_def)
  have "pmm_fetch_order_block b 0 = (Some a, ?b1)"
    using p hd low by (intro pmm_fetch_some) auto
  moreover have "upd_page a (\<lambda>p. p\<lparr>pg_order := 0\<rparr>) (upd_page a (\<lambda>p. p\<lparr>pg_is_free := False\<rparr>) ?b1) = ?b'"
    by (simp add: upd_page_def)
  ultimately have "pmm_alloc_block b 0 = Some (Some (page_addr b a), ?b')"
    using tw(4) page_addr_nonzero [OF g tw(3)] by (simp add: pmm_alloc_block_def Let_def)
  moreover have "a \<in> listed b xs" using tw(1) p blk_self unfolding listed_def by blast
  ultimately show ?thesis using tw by (intro exI [of _ ?b']) (simp add: flagged_def)
qed

section \<open>The page interface\<close>

lemma pmm_alloc_page_unfold:
  assumes "buddy_lock b = 0"
  shows "pmm_alloc_page b = do {
     (r, b') \<leftarrow> pmm_alloc_block (b\<lparr>buddy_lock := 1\<rparr>) 0;
     Some (r, b'\<lparr>buddy_lock := lock_release (buddy_lock b')\<rparr>)
   }"
  using assms
  by (auto simp: pmm_alloc_page_def pmm_alloc_pages_def split: option.splits bind_splits)


text \<open>Reserved pages \<open>R\<close> are handed out for ever; the clients hold the addresses \<open>U\<close>.\<close>

definition pmm_owns :: "nat set \<Rightarrow> buddy_allocator \<Rightarrow> u32 set \<Rightarrow> bool" where
  "pmm_owns R b U \<longleftrightarrow> (\<exists>A. pmm_inv b A \<and> R \<subseteq> A \<and> no_huge_hole b R \<and> U = page_addr b ` (A - R))"

lemma pmm_alloc_page_cases:
  assumes "pmm_inv b A"
  obtains (none) "free_pages b = {}" "pmm_alloc_page b = Some (None, b)"
  | (page) a b' where "pmm_alloc_page b = Some (Some (page_addr b a), b')" "same_range b b'"
      "a \<notin> A" "a < unat (total_pages b)" "a \<in> free_pages b" "pmm_inv b' (insert a A)"
      "free_pages b' = free_pages b - blk b a (pg_order (page_info b a))"
      "\<And>k. flagged b' k \<Longrightarrow> flagged b k \<and> pg_order (page_info b' k) = pg_order (page_info b k)"
proof -
  from assms obtain xs where l: "buddy_lock b = 0" and wf: "pmm_wf b A xs" by (auto simp: pmm_inv_def)
  let ?b1 = "b\<lparr>buddy_lock := 1\<rparr>"
  have wf1: "pmm_wf ?b1 A xs" using wf by simp
  show ?thesis
  proof (cases rule: pmm_fetch_cases [of 0 ?b1])
    case none
    then have "xs p = []" if "p \<le> MAX_ORDER" for p
      using that wf by (auto simp: pmm_wf_def lists_ok_def)
    then have "free_pages b = {}" by (auto simp: free_pages_listed [OF wf] listed_def)
    moreover have "pmm_alloc_block ?b1 0 = Some (None, ?b1)"
      using none by (intro pmm_alloc_block_none) simp
    then have "pmm_alloc_page b = Some (None, b)" using l by (simp add: pmm_alloc_page_unfold)
    ultimately show ?thesis by (rule that(1))
  next
    case (some p a)
    from pmm_alloc_block_some [OF wf1 some(2,3)] some(4) obtain b' where
      ab: "pmm_alloc_block ?b1 0 = Some (Some (page_addr ?b1 a), b')" and rng: "same_range ?b1 b'"
      and a: "a \<notin> A" "a < unat (total_pages b)" "a \<in> listed b xs"
      and wf': "pmm_wf b' (insert a A) (xs(p := tl (xs p)))" and xp: "xs p = a # tl (xs p)"
      and fl: "\<And>k. flagged b' k \<Longrightarrow> flagged b k \<and> pg_order (page_info b' k) = pg_order (page_info b k)"
      by (auto simp: flagged_def)
    let ?b2 = "b'\<lparr>buddy_lock := 0\<rparr>"
    have lk: "buddy_lock b' = 1" using same_range_eqs(8) [OF rng] by simp
    have al: "pmm_alloc_page b = Some (Some (page_addr b a), ?b2)"
      unfolding pmm_alloc_page_unfold [OF l] ab by (simp add: lk)
    have sr: "same_range b ?b2" using rng l by (simp add: same_range_def)
    have inv: "pmm_inv ?b2 (insert a A)" using wf' by (auto simp: pmm_inv_def)
    have "a \<in> set (xs p)" using xp by (metis list.set_intros(1))
    then have ao: "pg_order (page_info b a) = p" by (rule wf_listed(2) [OF wf some(2)])
    have "free_pages ?b2 = free_pages b - blk b a p"
      using take_listed [OF wf some(2) xp] listed_same_range [OF sr] free_pages_listed [OF wf]
        free_pages_listed [OF wf'] by simp
    moreover have "flagged ?b2 k \<Longrightarrow> flagged b k \<and> pg_order (page_info ?b2 k) = pg_order (page_info b k)" for k
      using fl [of k] by (simp add: flagged_def)
    ultimately show ?thesis
      using that(2) [OF al sr a(1,2) _ inv] a(3) free_pages_listed [OF wf] ao by simp
  qed
qed

text \<open>Pages that are flagged as free but on no list: an allocation from a larger block has lost them.\<close>

definition lost_pages :: "buddy_allocator \<Rightarrow> nat set" where
  "lost_pages b = flagged_pages b - free_pages b"

lemma pmm_free_page_ok:
  assumes inv: "pmm_inv b A" and a: "a \<in> A" and nh: "merge_room b (A - {a})"
  obtains b' where "pmm_free_page b (page_addr b a) = Some b'" "same_range b b'"
    "pmm_inv b' (A - {a})" "insert a (free_pages b) \<subseteq> free_pages b'"
    "free_pages b' \<subseteq> insert a (free_pages b \<union> flagged_pages b)" "free_pages b' \<inter> (A - {a}) = {}"
proof -
  from inv obtain xs where l: "buddy_lock b = 0" and wf: "pmm_wf b A xs" by (auto simp: pmm_inv_def)
  let ?b1 = "b\<lparr>buddy_lock := 1\<rparr>"
  have g: "geometry b" and alt: "a < unat (total_pages b)"
    using wf a by (simp_all add: pmm_wf_def used_ok_def)
  have wf1: "pmm_wf ?b1 A xs" and nh1: "merge_room ?b1 (A - {a})" using wf nh by simp_all
  from pmm_free_block_ok [OF wf1 a nh1] obtain b' xs' where
    fb: "pmm_free_block ?b1 (page_addr b a) 0 = Some b'" and rng: "same_range ?b1 b'"
    and wf': "pmm_wf b' (A - {a}) xs'" and cov: "insert a (listed b xs) \<subseteq> listed b xs'"
    and bnd: "listed b xs' \<subseteq> insert a (listed b xs \<union> flagged_pages b)" by auto
  let ?b2 = "b'\<lparr>buddy_lock := 0\<rparr>"
  have lk: "buddy_lock b' = 1" using same_range_eqs(8) [OF rng] by simp
  have ret: "pmm_free_page b (page_addr b a) = Some ?b2"
    using page_addr_nonzero [OF g alt] l fb lk
    by (simp add: pmm_free_page_def pmm_free_pages_def)
  have sr: "same_range b ?b2" using rng l by (simp add: same_range_def)
  have inv': "pmm_inv ?b2 (A - {a})" using wf' by (auto simp: pmm_inv_def)
  have "insert a (free_pages b) \<subseteq> free_pages ?b2" "free_pages ?b2 \<subseteq> insert a (free_pages b \<union> flagged_pages b)"
    using cov bnd listed_same_range [OF sr] free_pages_listed [OF wf] free_pages_listed [OF wf'] by simp_all
  moreover have "free_pages ?b2 \<inter> (A - {a}) = {}"
    using listed_not_used [OF wf'] free_pages_listed [OF wf'] by simp
  ultimately show ?thesis using ret sr inv' by (intro that)
qed

lemma page_addr_inj:
  assumes "geometry b" and "i < unat (total_pages b)" and "j < unat (total_pages b)"
  shows "page_addr b i = page_addr b j \<longleftrightarrow> i = j"
  using phys_to_page_index_page_addr [OF assms(1,2)] phys_to_page_index_page_addr [OF assms(1,3)]
  by (metis option.inject)

lemma pmm_inv_range: "pmm_inv b A \<Longrightarrow> geometry b \<and> (\<forall>a\<in>A. a < unat (total_pages b))"
  by (auto simp: pmm_inv_def pmm_wf_def used_ok_def)

interpretation pmm: page_source pmm_alloc_page pmm_free_page "pmm_owns R"
proof unfold_locales
  fix b U assume "pmm_owns R b U"
  then obtain A where inv: "pmm_inv b A" and R: "R \<subseteq> A" and nh: "no_huge_hole b R"
    and U: "U = page_addr b ` (A - R)" by (auto simp: pmm_owns_def)
  note range = pmm_inv_range [OF inv]
  from inv show "\<exists>r b'. pmm_alloc_page b = Some (r, b') \<and>
      (case r of None \<Rightarrow> pmm_owns R b' U
       | Some a \<Rightarrow> a \<noteq> 0 \<and> a mod PAGE_SIZE = 0 \<and> a \<notin> U \<and> pmm_owns R b' (insert a U))"
  proof (cases rule: pmm_alloc_page_cases)
    case none
    then show ?thesis using inv R nh U by (auto simp: pmm_owns_def)
  next
    case (page a b')
    note eqs = same_range_eqs [OF page(2)]
    have "page_addr b a \<notin> U"
      using U page(3,4) range page_addr_inj by (auto simp: image_iff)
    moreover have "pmm_owns R b' (insert (page_addr b a) U)"
      unfolding pmm_owns_def eqs
    proof (intro exI [of _ "insert a A"] conjI)
      show "no_huge_hole b' R" using nh by (simp add: no_huge_hole_def eqs)
      show "insert (page_addr b a) U = page_addr b ` (insert a A - R)"
        using U R page(3) by auto
    qed (use page R in auto)
    ultimately show ?thesis
      using page range page_addr_nonzero page_addr_aligned by auto
  qed
next
  fix b U addr assume "pmm_owns R b U" and addr: "addr \<in> U"
  then obtain A where inv: "pmm_inv b A" and R: "R \<subseteq> A" and nh: "no_huge_hole b R"
    and U: "U = page_addr b ` (A - R)" by (auto simp: pmm_owns_def)
  note range = pmm_inv_range [OF inv]
  from addr U obtain a where a: "a \<in> A" "a \<notin> R" "addr = page_addr b a" by auto
  have "merge_room b (A - {a})" using nh R a unfolding merge_room_def no_huge_hole_def by blast
  from pmm_free_page_ok [OF inv a(1) this] obtain b' where
    ret: "pmm_free_page b addr = Some b'" and rng: "same_range b b'" and inv': "pmm_inv b' (A - {a})"
    using a by metis
  note eqs = same_range_eqs [OF rng]
  have "U - {addr} = page_addr b ` (A - {a} - R)"
    using U a range page_addr_inj [of b] by (auto simp: image_iff)
  moreover have "no_huge_hole b' R" using nh by (simp add: no_huge_hole_def eqs)
  ultimately have "pmm_owns R b' (U - {addr})"
    unfolding pmm_owns_def eqs using inv' R a by blast
  with ret show "\<exists>b'. pmm_free_page b addr = Some b' \<and> pmm_owns R b' (U - {addr})" by blast
qed

end
