(* ===== verification/PmmInit.thy ===== *)
theory PmmInit
  imports PmmInv
begin

text \<open>
  The initialisation half of mem/pmm.c: counting the usable memory of the boot loader's map,
  placing the page array, filling the free list of order 0, and the self test of \<open>pmm_init\<close>.
  The map is the list of its entries, in order, up to \<open>mmap_length\<close>.
\<close>

unbundle bit_operations_syntax

section \<open>The boot information\<close>

record multiboot_memory_map_t =
  mm_size :: u32
  mm_addr :: u64
  mm_len :: u64
  mm_type :: u32

record multiboot_info_t =
  mb_flags :: u32
  mb_mods :: "u32 list"
  mb_mmap_addr :: u32
  mb_mmap_length :: u32
  mb_mmap :: "multiboot_memory_map_t list"

definition PMM_HAS_MMAP :: "multiboot_info_t \<Rightarrow> bool" where
  "PMM_HAS_MMAP mb \<longleftrightarrow> mb_flags mb AND 0x40 \<noteq> 0"

definition PMM_HAS_MODS :: "multiboot_info_t \<Rightarrow> bool" where
  "PMM_HAS_MODS mb \<longleftrightarrow> mb_flags mb AND 0x08 \<noteq> 0"

definition PMM_ALIGN :: "u32 \<Rightarrow> u32" where
  "PMM_ALIGN x = align_up x PAGE_SIZE"

definition PMM_REGION_USABLE :: "multiboot_memory_map_t \<Rightarrow> bool" where
  "PMM_REGION_USABLE mm \<longleftrightarrow> mm_type mm = 1 \<and> mm_addr mm \<ge> 0x100000"

text \<open>The 64-bit fields of an entry are cast to the 32-bit \<open>uintptr_t\<close>.\<close>

definition PMM_REGION_START :: "multiboot_memory_map_t \<Rightarrow> u32" where
  "PMM_REGION_START mm = PMM_ALIGN (ucast (mm_addr mm))"

definition PMM_REGION_END :: "multiboot_memory_map_t \<Rightarrow> u32" where
  "PMM_REGION_END mm = (ucast (mm_addr mm) + ucast (mm_len mm)) AND NOT (PAGE_SIZE - 1)"

text \<open>The entries the walks visit: they stop at an entry of size 0.\<close>

definition valid_entries :: "multiboot_info_t \<Rightarrow> multiboot_memory_map_t list" where
  "valid_entries mb = takeWhile (\<lambda>mm. mm_size mm \<noteq> 0) (mb_mmap mb)"

section \<open>Counting and placing\<close>

fun count_usable_loop :: "multiboot_memory_map_t list \<Rightarrow> u32 \<Rightarrow> u64 \<Rightarrow> u32 \<times> u64" where
  "count_usable_loop [] start tot = (start, tot)"
| "count_usable_loop (mm # es) start tot =
     (let region_start = PMM_REGION_START mm; region_end = PMM_REGION_END mm in
      if PMM_REGION_USABLE mm \<and> region_end > region_start then
        count_usable_loop es (if start = 0 then region_start else start)
          (tot + ucast (region_end - region_start))
      else count_usable_loop es start tot)"

text \<open>The result, \<open>*out_region_start_usable\<close> and \<open>*out_total_bytes\<close>.\<close>

definition pmm_count_usable_pages :: "multiboot_info_t \<Rightarrow> u64 \<times> u32 \<times> u64" where
  "pmm_count_usable_pages mb =
     (if \<not> PMM_HAS_MMAP mb then (0, 0, 0)
      else let (region_start_usable, total_bytes) = count_usable_loop (valid_entries mb) 0 0
        in (total_bytes div 4096, region_start_usable, total_bytes))"

text \<open>\<open>kernel_end\<close> is the linker's symbol, \<open>mb_ptr\<close> the address of the boot information.\<close>

definition pmm_reserved_top :: "u32 \<Rightarrow> u32 \<Rightarrow> multiboot_info_t \<Rightarrow> u32" where
  "pmm_reserved_top kernel_end mb_ptr mb =
     (let top = kernel_end;
          top = (if mb_ptr > top then mb_ptr else top);
          top = (if PMM_HAS_MMAP mb then
                   let t = mb_mmap_addr mb + mb_mmap_length mb in if t > top then t else top
                 else top);
          top = (if PMM_HAS_MODS mb then fold (\<lambda>end top. if end > top then end else top) (mb_mods mb) top
                 else top)
      in PMM_ALIGN top)"

fun find_placement_loop :: "multiboot_memory_map_t list \<Rightarrow> u32 \<Rightarrow> u32 \<Rightarrow> u32" where
  "find_placement_loop [] reserved_top need = 0"
| "find_placement_loop (mm # es) reserved_top need =
     (let region_start = PMM_REGION_START mm; region_end = PMM_REGION_END mm;
          start = PMM_ALIGN (if reserved_top > region_start then reserved_top else region_start)
      in if PMM_REGION_USABLE mm \<and> start < region_end \<and> region_end - start \<ge> need then start
         else find_placement_loop es reserved_top need)"

definition pmm_find_page_info_placement :: "multiboot_info_t \<Rightarrow> u32 \<Rightarrow> u32 \<Rightarrow> u32" where
  "pmm_find_page_info_placement mb reserved_top bytes =
     (if \<not> PMM_HAS_MMAP mb then 0
      else find_placement_loop (valid_entries mb) reserved_top (PMM_ALIGN bytes))"

section \<open>Filling the free list\<close>

definition pmm_add_free :: "buddy_allocator \<Rightarrow> nat \<Rightarrow> u32 \<Rightarrow> buddy_allocator" where
  "pmm_add_free b pg addr =
     set_free_list 0 (Some pg)
       (upd_page pg (\<lambda>p. p\<lparr>pg_address := addr, pg_order := 0, pg_is_free := True, pg_next := free_list b 0\<rparr>) b)"

definition pmm_addr_in_pageinfo :: "u32 \<Rightarrow> u32 \<Rightarrow> u32 \<Rightarrow> bool" where
  "pmm_addr_in_pageinfo addr s e \<longleftrightarrow> addr \<ge> s \<and> addr < e"

definition pmm_skip_addr :: "buddy_allocator \<Rightarrow> u32 \<Rightarrow> bool" where
  "pmm_skip_addr b addr \<longleftrightarrow> addr < memory_base b \<or> addr \<ge> memory_end b"

text \<open>The body of the loop over the pages of a region.\<close>

definition pmm_region_page :: "u32 \<Rightarrow> u32 \<Rightarrow> u32 \<Rightarrow> buddy_allocator \<times> u32 \<Rightarrow> buddy_allocator \<times> u32" where
  "pmm_region_page s e a = (\<lambda>(b, added).
     if pmm_addr_in_pageinfo a s e then (b, added)
     else if pmm_skip_addr b a then (b, added)
     else let idx = (a - memory_base b) div PAGE_SIZE in
       if idx \<ge> total_pages b then (b, added)
       else (pmm_add_free b (unat idx) a, added + 1))"

partial_function (option) pmm_region_loop ::
  "u32 \<Rightarrow> u32 \<Rightarrow> u32 \<Rightarrow> u32 \<Rightarrow> buddy_allocator \<times> u32 \<Rightarrow> (buddy_allocator \<times> u32) option" where
  "pmm_region_loop s e region_end a st =
     (if a < region_end then pmm_region_loop s e region_end (a + PAGE_SIZE) (pmm_region_page s e a st)
      else Some st)"

definition pmm_process_region ::
  "multiboot_memory_map_t \<Rightarrow> u32 \<Rightarrow> u32 \<Rightarrow> buddy_allocator \<Rightarrow> (buddy_allocator \<times> u32) option" where
  "pmm_process_region mm s e b = pmm_region_loop s e (PMM_REGION_END mm) (PMM_REGION_START mm) (b, 0)"

fun create_free_list_loop ::
  "multiboot_memory_map_t list \<Rightarrow> u32 \<Rightarrow> u32 \<Rightarrow> buddy_allocator \<Rightarrow> buddy_allocator option" where
  "create_free_list_loop [] s e b = Some b"
| "create_free_list_loop (mm # es) s e b =
     (if PMM_REGION_USABLE mm then do {
        (b, added) \<leftarrow> pmm_process_region mm s e b;
        create_free_list_loop es s e b
      } else create_free_list_loop es s e b)"

text \<open>\<open>sizeof(struct page)\<close> is 16.\<close>

definition pmm_create_free_list :: "multiboot_info_t \<Rightarrow> buddy_allocator \<Rightarrow> buddy_allocator option" where
  "pmm_create_free_list mb b =
     (if \<not> PMM_HAS_MMAP mb then Some b
      else create_free_list_loop (valid_entries mb) (page_info_addr b)
             (page_info_addr b + PMM_ALIGN (total_pages b * 16)) b)"

text \<open>
  \<open>ram addr\<close> is the array of pages that the bytes at \<open>addr\<close> happen to hold: the source never
  clears the memory it turns into the page array.
\<close>

definition pmm_buddy_init ::
  "u32 \<Rightarrow> u32 \<Rightarrow> (u32 \<Rightarrow> nat \<Rightarrow> page) \<Rightarrow> u64 \<Rightarrow> u32 \<Rightarrow> multiboot_info_t \<Rightarrow> buddy_allocator \<Rightarrow>
   buddy_allocator option" where
  "pmm_buddy_init kernel_end mb_ptr ram usable_pages base mb b =
     (let b = b\<lparr>total_pages := ucast usable_pages, memory_base := base\<rparr>;
          page_info_bytes = total_pages b * 16;
          reserved_top = pmm_reserved_top kernel_end mb_ptr mb;
          addr = pmm_find_page_info_placement mb reserved_top page_info_bytes;
          addr = (if addr = 0 then reserved_top else addr);
          page_info_pages = (page_info_bytes + PAGE_SIZE - 1) div PAGE_SIZE;
          b = b\<lparr>page_info := ram addr, page_info_addr := addr,
                memory_start := addr + page_info_pages * PAGE_SIZE,
                memory_end := memory_base b + total_pages b * PAGE_SIZE\<rparr>
      in pmm_create_free_list mb b)"

text \<open>
  The null check on the boot information is the caller's; the self test takes a page, writes and
  reads it (the RAM is taken to work), and gives it back.
\<close>

definition pmm_init ::
  "u32 \<Rightarrow> u32 \<Rightarrow> (u32 \<Rightarrow> nat \<Rightarrow> page) \<Rightarrow> multiboot_info_t \<Rightarrow> buddy_allocator \<Rightarrow> buddy_allocator option" where
  "pmm_init kernel_end mb_ptr ram mb b =
     (if \<not> PMM_HAS_MMAP mb then Some b
      else let (usable_pages, usable_start, total_memory_bytes) = pmm_count_usable_pages mb in
        if usable_pages = 0 \<or> usable_start = 0 then Some b
        else do {
          b \<leftarrow> pmm_buddy_init kernel_end mb_ptr ram usable_pages usable_start mb b;
          let b = b\<lparr>buddy_lock := spinlock_init 0\<rparr>;
          (test_page, b) \<leftarrow> pmm_alloc_page b;
          case test_page of None \<Rightarrow> Some b | Some a \<Rightarrow> pmm_free_page b a
        })"

section \<open>The state while the free list is filled\<close>

definition filling :: "buddy_allocator \<Rightarrow> nat list \<Rightarrow> bool" where
  "filling b l \<longleftrightarrow> geometry b \<and> llist (page_next b) (free_list b 0) l \<and>
     (\<forall>p. p \<noteq> 0 \<longrightarrow> free_list b p = None) \<and>
     (\<forall>i<unat (total_pages b). pg_is_free (page_info b i) \<longleftrightarrow> i \<in> set l) \<and>
     (\<forall>i\<in>set l. i < unat (total_pages b) \<and> pg_order (page_info b i) = 0 \<and>
        pg_address (page_info b i) = page_addr b i)"

lemma filling_wf:
  assumes "filling b l"
  shows "pmm_wf b {} (\<lambda>p. if p = 0 then l else [])"
  using assms
  by (auto simp: filling_def pmm_wf_def lists_ok_def flagged_def flag_ok_def Let_def)

lemma filling_listed: "filling b l \<Longrightarrow> listed b (\<lambda>p. if p = 0 then l else []) = set l"
  by (auto simp: listed_def split: if_splits)

lemma pmm_add_free_simps [simp]:
  "free_list (pmm_add_free b i a) = (free_list b)(0 := Some i)"
  "same_range b0 (pmm_add_free b i a) \<longleftrightarrow> same_range b0 b"
  "page_info (pmm_add_free b i a) j =
     (if j = i then (page_info b i)\<lparr>pg_address := a, pg_order := 0, pg_is_free := True, pg_next := free_list b 0\<rparr>
      else page_info b j)"
  by (simp_all add: pmm_add_free_def)

lemma add_free_filling:
  assumes f: "filling b l" and i: "i < unat (total_pages b)" and new: "i \<notin> set l"
  shows "filling (pmm_add_free b i (page_addr b i)) (i # l)"
proof -
  let ?b' = "pmm_add_free b i (page_addr b i)"
  have rng: "same_range b ?b'" by simp
  note eqs = same_range_eqs [OF rng]
  have "lseg (page_next ?b') (free_list b 0) l None = llist (page_next b) (free_list b 0) l"
    by (rule lseg_cong) (use new in auto)
  then show ?thesis using f i new unfolding filling_def eqs by auto
qed

section \<open>One region\<close>

text \<open>The pages of the managed range that lie in \<open>[lo, hi)\<close> and outside the page array.\<close>

definition pages_in :: "buddy_allocator \<Rightarrow> u32 \<Rightarrow> u32 \<Rightarrow> u32 \<Rightarrow> u32 \<Rightarrow> nat set" where
  "pages_in b s e lo hi = {i. i < unat (total_pages b) \<and> lo \<le> page_addr b i \<and> page_addr b i < hi \<and>
     \<not> pmm_addr_in_pageinfo (page_addr b i) s e}"

lemma aligned_frame:
  "unat (a :: u32) mod 4096 = 0 \<Longrightarrow> a = frame_addr (unat a div 4096)"
proof -
  assume "unat a mod 4096 = 0"
  then have "unat a div 4096 * 4096 = unat a" using div_mult_mod_eq [of "unat a" 4096] by linarith
  then show ?thesis by (simp only: frame_addr_def) simp
qed

lemma region_page_ok:
  assumes f: "filling b l" and al: "unat a mod 4096 = 0"
    and new: "\<And>i. i \<in> set l \<Longrightarrow> page_addr b i \<noteq> a"
  shows "\<exists>b' l' n'. pmm_region_page s e a (b, n) = (b', n') \<and> same_range b b' \<and> filling b' l' \<and>
    set l' = set l \<union> {i. i < unat (total_pages b) \<and> page_addr b i = a \<and> \<not> pmm_addr_in_pageinfo a s e}"
proof -
  have g: "geometry b" using f by (simp add: filling_def)
  let ?f = "unat a div 4096"
  have a: "a = frame_addr ?f" by (rule aligned_frame) (rule al)
  have flt: "?f < 1048576" using unat_less_2p32 [of a] by linarith
  have idx: "phys_to_page_index b a = (if base_frame b \<le> ?f \<and> ?f < base_frame b + unat (total_pages b)
      then Some (?f - base_frame b) else None)"
    using phys_to_page_index_frame [OF g flt] a by simp
  have step: "pmm_region_page s e a (b, n) =
      (case phys_to_page_index b a of
         Some i \<Rightarrow> if pmm_addr_in_pageinfo a s e then (b, n) else (pmm_add_free b i a, n + 1)
       | None \<Rightarrow> (b, n))"
    by (simp add: pmm_region_page_def phys_to_page_index_def pmm_skip_addr_def page_index_def Let_def)
  show ?thesis
  proof (cases "phys_to_page_index b a")
    case None
    have "page_addr b i \<noteq> a" if "i < unat (total_pages b)" for i
      using phys_to_page_index_page_addr [OF g that] None by auto
    then show ?thesis using step None f by auto
  next
    case (Some i)
    then have i: "i < unat (total_pages b)" and ai: "page_addr b i = a"
      using idx a by (auto simp: page_addr_def split: if_splits)
    have only: "{i. i < unat (total_pages b) \<and> page_addr b i = a} = {i}"
      using i ai page_addr_inj [OF g _ i] by auto
    show ?thesis
    proof (cases "pmm_addr_in_pageinfo a s e")
      case True
      then show ?thesis using step Some f by auto
    next
      case False
      have "i \<notin> set l" using new ai by blast
      from add_free_filling [OF f i this] have "filling (pmm_add_free b i a) (i # l)" by (simp add: ai)
      moreover have "set (i # l) = set l \<union> {i. i < unat (total_pages b) \<and> page_addr b i = a \<and> \<not> pmm_addr_in_pageinfo a s e}"
        using only False by auto
      moreover have "pmm_region_page s e a (b, n) = (pmm_add_free b i a, n + 1)"
        using step Some False by simp
      ultimately show ?thesis
        by (intro exI [of _ "pmm_add_free b i a"] exI [of _ "i # l"] exI [of _ "n + 1"]) simp
    qed
  qed
qed


lemma aligned_and_not: "unat ((x :: u32) AND NOT 4095) mod 4096 = 0"
proof -
  have m: "(4095 :: u32) = mask 12" by (simp add: mask_eq_exp_minus_1)
  have "take_bit 12 (x AND NOT (mask 12)) = 0"
    by (rule bit_eqI) (auto simp: bit_simps)
  then have "take_bit 12 (unat (x AND NOT 4095)) = unat (0 :: u32)"
    unfolding m by (simp flip: unsigned_take_bit_eq)
  then show ?thesis by (simp add: take_bit_eq_mod)
qed

lemma region_bounds_aligned:
  "unat (PMM_REGION_START mm) mod 4096 = 0" "unat (PMM_REGION_END mm) mod 4096 = 0"
  using aligned_and_not by (simp_all add: PMM_REGION_START_def PMM_ALIGN_def align_up_def PMM_REGION_END_def)

lemma aligned_gap:
  assumes "unat a mod 4096 = 0" and "unat x mod 4096 = 0" and "unat (a :: u32) + 4096 < 4294967296"
  shows "a \<le> x \<longleftrightarrow> x = a \<or> a + 4096 \<le> x"
proof -
  have s: "unat (a + 4096) = unat a + 4096" using assms(3) by (subst unat_plus_u32) simp_all
  obtain k m where km: "unat a = 4096 * k" "unat x = 4096 * m"
    using assms(1,2) by (metis mod_0_imp_dvd dvdE)
  have "4096 * k \<le> 4096 * m \<longleftrightarrow> 4096 * m = 4096 * k \<or> 4096 * k + 4096 \<le> 4096 * m"
  proof (cases m k rule: linorder_cases)
    case greater
    then have "Suc k \<le> m \<or> m < k" by linarith
    with greater show ?thesis by linarith
  qed linarith+
  then show ?thesis unfolding word_le_nat_alt word_unat_eq_iff s km .
qed

lemma page_addr_unat_aligned:
  "geometry b \<Longrightarrow> i < unat (total_pages b) \<Longrightarrow> unat (page_addr b i) mod 4096 = 0"
proof -
  assume "geometry b" and "i < unat (total_pages b)"
  then have "page_addr b i mod 4096 = 0" by (rule page_addr_aligned)
  then have "unat (page_addr b i mod 4096) = unat (0 :: u32)" by (rule arg_cong)
  then show ?thesis by (simp add: unat_mod)
qed

lemma region_loop_ok:
  assumes "filling b l" and "unat a mod 4096 = 0" and "unat a + n * 4096 = unat hi"
    and "\<And>i. i \<in> set l \<Longrightarrow> \<not> (a \<le> page_addr b i \<and> page_addr b i < hi)"
  shows "\<exists>b' l' c'. pmm_region_loop s e hi a (b, c) = Some (b', c') \<and> same_range b b' \<and> filling b' l' \<and>
    set l' = set l \<union> pages_in b s e a hi"
  using assms
proof (induction n arbitrary: a b l c)
  case 0
  then have "a = hi" by (simp add: word_unat_eq_iff)
  then have "pages_in b s e a hi = {}" by (auto simp: pages_in_def)
  with 0 \<open>a = hi\<close> show ?case by (subst pmm_region_loop.simps) auto
next
  case (Suc n)
  have g: "geometry b" using Suc.prems(1) by (simp add: filling_def)
  have lt: "unat a + 4096 < 4294967296"
    using Suc.prems(3) unat_less_2p32 [of hi] unfolding mult_Suc by linarith
  have sum: "unat (a + 4096) = unat a + 4096" using lt by (subst unat_plus_u32) simp_all
  have ahi: "a < hi" using Suc.prems(3) by (simp add: word_less_nat_alt)
  have alen: "a + 4096 \<le> hi" using Suc.prems(3) sum by (simp add: word_le_nat_alt)
  have gap: "a \<le> page_addr b i \<longleftrightarrow> page_addr b i = a \<or> a + 4096 \<le> page_addr b i"
    if "i < unat (total_pages b)" for i
    by (rule aligned_gap [OF Suc.prems(2) page_addr_unat_aligned [OF g that] lt])
  have inrange: "i < unat (total_pages b)" if "i \<in> set l" for i
    using that Suc.prems(1) by (simp add: filling_def)
  have new: "page_addr b i \<noteq> a" if "i \<in> set l" for i
    using Suc.prems(4) [OF that] ahi by auto
  from region_page_ok [OF Suc.prems(1,2) new] obtain b1 l1 c1 where
    st: "pmm_region_page s e a (b, c) = (b1, c1)" and rng: "same_range b b1" and f1: "filling b1 l1"
    and l1: "set l1 = set l \<union> {i. i < unat (total_pages b) \<and> page_addr b i = a \<and> \<not> pmm_addr_in_pageinfo a s e}"
    by blast
  note eqs = same_range_eqs [OF rng]
  have apos: "a < a + 4096" using sum by (simp add: word_less_nat_alt)
  have new1: "\<not> (a + 4096 \<le> page_addr b1 i \<and> page_addr b1 i < hi)" if "i \<in> set l1" for i
    using that l1 Suc.prems(4) gap inrange apos unfolding eqs by fastforce
  have "unat (a + 4096) mod 4096 = 0" "unat (a + 4096) + n * 4096 = unat hi"
    using Suc.prems(2,3) unfolding sum by simp_all
  from Suc.IH [OF f1 this new1] obtain b' l' c' where
    lp: "pmm_region_loop s e hi (a + 4096) (b1, c1) = Some (b', c')" and rng': "same_range b1 b'"
    and f': "filling b' l'" and l': "set l' = set l1 \<union> pages_in b1 s e (a + 4096) hi" by blast
  have "pages_in b s e a hi = pages_in b s e (a + 4096) hi \<union>
      {i. i < unat (total_pages b) \<and> page_addr b i = a \<and> \<not> pmm_addr_in_pageinfo a s e}"
    using gap ahi by (auto simp: pages_in_def)
  moreover have "pages_in b1 = pages_in b" by (simp add: pages_in_def eqs fun_eq_iff)
  ultimately have "set l' = set l \<union> pages_in b s e a hi" using l' l1 by auto
  moreover have "pmm_region_loop s e hi a (b, c) = Some (b', c')"
    using lp st ahi by (subst pmm_region_loop.simps) simp
  ultimately show ?case using f' same_range_trans [OF rng rng'] by blast
qed

lemma process_region_ok:
  assumes f: "filling b l"
    and new: "\<And>i. i \<in> set l \<Longrightarrow> \<not> (PMM_REGION_START mm \<le> page_addr b i \<and> page_addr b i < PMM_REGION_END mm)"
  shows "\<exists>b' l' c'. pmm_process_region mm s e b = Some (b', c') \<and> same_range b b' \<and> filling b' l' \<and>
    set l' = set l \<union> pages_in b s e (PMM_REGION_START mm) (PMM_REGION_END mm)"
proof (cases "PMM_REGION_START mm \<le> PMM_REGION_END mm")
  case True
  note al = region_bounds_aligned [of mm]
  obtain k m where km: "unat (PMM_REGION_START mm) = 4096 * k" "unat (PMM_REGION_END mm) = 4096 * m"
    using al by (metis mod_0_imp_dvd dvdE)
  then have "k \<le> m" using True by (simp add: word_le_nat_alt)
  then have "unat (PMM_REGION_START mm) + (m - k) * 4096 = unat (PMM_REGION_END mm)"
    by (simp add: km diff_mult_distrib2)
  from region_loop_ok [OF f al(1) this new] show ?thesis by (simp add: pmm_process_region_def)
next
  case False
  then have "pages_in b s e (PMM_REGION_START mm) (PMM_REGION_END mm) = {}" by (auto simp: pages_in_def)
  moreover have "pmm_process_region mm s e b = Some (b, 0)"
  proof -
    have "\<not> PMM_REGION_START mm < PMM_REGION_END mm" using False by (meson less_imp_le)
    then show ?thesis
      unfolding pmm_process_region_def by (subst pmm_region_loop.simps) simp
  qed
  ultimately show ?thesis using f by auto
qed

section \<open>All regions\<close>

text \<open>The usable regions of a sane map do not overlap.\<close>

definition disjoint_regions :: "multiboot_memory_map_t list \<Rightarrow> bool" where
  "disjoint_regions es \<longleftrightarrow>
     sorted_wrt (\<lambda>m m'. PMM_REGION_END m \<le> PMM_REGION_START m' \<or> PMM_REGION_END m' \<le> PMM_REGION_START m)
       (filter PMM_REGION_USABLE es)"

definition usable_in :: "buddy_allocator \<Rightarrow> u32 \<Rightarrow> u32 \<Rightarrow> multiboot_memory_map_t list \<Rightarrow> nat set" where
  "usable_in b s e es = (\<Union>mm\<in>set (filter PMM_REGION_USABLE es). pages_in b s e (PMM_REGION_START mm) (PMM_REGION_END mm))"

lemma create_free_list_loop_ok:
  assumes "filling b l" and "disjoint_regions es"
    and "\<And>i mm. i \<in> set l \<Longrightarrow> mm \<in> set es \<Longrightarrow> PMM_REGION_USABLE mm \<Longrightarrow>
        \<not> (PMM_REGION_START mm \<le> page_addr b i \<and> page_addr b i < PMM_REGION_END mm)"
  shows "\<exists>b' l'. create_free_list_loop es s e b = Some b' \<and> same_range b b' \<and> filling b' l' \<and>
    set l' = set l \<union> usable_in b s e es"
  using assms
proof (induction es arbitrary: b l)
  case Nil
  then show ?case by (auto simp: usable_in_def)
next
  case (Cons mm es)
  have dis: "disjoint_regions es" using Cons.prems(2) by (simp add: disjoint_regions_def split: if_splits)
  show ?case
  proof (cases "PMM_REGION_USABLE mm")
    case False
    with Cons.IH [OF Cons.prems(1) dis] Cons.prems(3) show ?thesis by (simp add: usable_in_def)
  next
    case True
    from process_region_ok [OF Cons.prems(1)] Cons.prems(3) True obtain b1 l1 c where
      pr: "pmm_process_region mm s e b = Some (b1, c)" and rng: "same_range b b1" and f1: "filling b1 l1"
      and l1: "set l1 = set l \<union> pages_in b s e (PMM_REGION_START mm) (PMM_REGION_END mm)"
      by (metis list.set_intros(1))
    note eqs = same_range_eqs [OF rng]
    have new1: "\<not> (PMM_REGION_START m \<le> page_addr b1 i \<and> page_addr b1 i < PMM_REGION_END m)"
      if i: "i \<in> set l1" and m: "m \<in> set es" "PMM_REGION_USABLE m" for i m
    proof (cases "i \<in> set l")
      case True
      then show ?thesis using Cons.prems(3) [OF True _ m(2)] m(1) unfolding eqs by simp
    next
      case False
      then have "PMM_REGION_START mm \<le> page_addr b i" "page_addr b i < PMM_REGION_END mm"
        using i l1 by (auto simp: pages_in_def)
      moreover have "PMM_REGION_END mm \<le> PMM_REGION_START m \<or> PMM_REGION_END m \<le> PMM_REGION_START mm"
        using Cons.prems(2) True m by (auto simp: disjoint_regions_def)
      ultimately show ?thesis unfolding eqs by (metis leD order.strict_trans2 order.trans)
    qed
    from Cons.IH [OF f1 dis new1] obtain b' l' where
      cl: "create_free_list_loop es s e b1 = Some b'" and rng': "same_range b1 b'"
      and f': "filling b' l'" and l': "set l' = set l1 \<union> usable_in b1 s e es" by blast
    have "pages_in b1 = pages_in b" by (simp add: pages_in_def eqs fun_eq_iff)
    then have "usable_in b1 s e es = usable_in b s e es" by (simp add: usable_in_def)
    then have "set l' = set l \<union> usable_in b s e (mm # es)"
      using l' l1 True by (auto simp: usable_in_def)
    then show ?thesis using pr cl True f' same_range_trans [OF rng rng'] by auto
  qed
qed


section \<open>The whole initialisation\<close>

lemma region_start_loop_aligned:
  "unat start mod 4096 = 0 \<Longrightarrow> unat (fst (count_usable_loop es start tot)) mod 4096 = 0"
  by (induction es start tot rule: count_usable_loop.induct)
     (simp_all add: Let_def region_bounds_aligned)

lemma small_cast: "unat (n :: u64) < 4294967296 \<Longrightarrow> unat (ucast n :: u32) = unat n"
  by (simp add: unsigned_ucast_eq take_bit_nat_eq_self_iff)

lemma geometry_init:
  assumes "unat base mod 4096 = 0" and "base \<noteq> 0" and "unat base + unat n * 4096 < 4294967296"
    and "memory_base b = base" and "total_pages b = ucast (n :: u64)"
    and "memory_end b = base + ucast n * PAGE_SIZE"
  shows "geometry b"
proof -
  have "unat n < 4294967296" using assms(3) by linarith
  then have "unat (ucast n :: u32) = unat n" by (rule small_cast)
  then show ?thesis using assms by (simp add: geometry_def)
qed

lemma pmm_buddy_init_ok:
  assumes base: "unat base mod 4096 = 0" "base \<noteq> 0" "unat base + unat n * 4096 < 4294967296"
    and has: "PMM_HAS_MMAP mb" and dis: "disjoint_regions (valid_entries mb)"
    and bss: "\<And>p. free_list b p = None" and clear: "\<And>addr i. \<not> pg_is_free (ram addr i)"
  shows "\<exists>b' l. pmm_buddy_init kernel_end mb_ptr ram n base mb b = Some b' \<and> filling b' l \<and>
    total_pages b' = ucast n \<and> memory_base b' = base \<and>
    set l = usable_in b' (page_info_addr b') (page_info_addr b' + PMM_ALIGN (total_pages b' * 16)) (valid_entries mb)"
proof -
  define addr where "addr =
    (let a = pmm_find_page_info_placement mb (pmm_reserved_top kernel_end mb_ptr mb) (ucast n * 16) in
     if a = 0 then pmm_reserved_top kernel_end mb_ptr mb else a)"
  define b1 where "b1 = b\<lparr>total_pages := ucast n, memory_base := base, page_info := ram addr,
    page_info_addr := addr, memory_start := addr + ((ucast n * 16 + PAGE_SIZE - 1) div PAGE_SIZE) * PAGE_SIZE,
    memory_end := base + ucast n * PAGE_SIZE\<rparr>"
  have eq: "pmm_buddy_init kernel_end mb_ptr ram n base mb b = pmm_create_free_list mb b1"
    by (simp add: pmm_buddy_init_def b1_def addr_def Let_def)
  have g: "geometry b1" by (rule geometry_init [OF base]) (simp_all add: b1_def)
  have f: "filling b1 []" using g bss clear by (simp add: filling_def b1_def)
  let ?s = "page_info_addr b1" and ?e = "page_info_addr b1 + PMM_ALIGN (total_pages b1 * 16)"
  from create_free_list_loop_ok [OF f dis, where s = ?s and e = ?e] obtain b' l where
    c: "create_free_list_loop (valid_entries mb) ?s ?e b1 = Some b'" and rng: "same_range b1 b'"
    and f': "filling b' l" and l: "set l = usable_in b1 ?s ?e (valid_entries mb)" by auto
  note eqs = same_range_eqs [OF rng]
  have "pages_in b' = pages_in b1" by (simp add: pages_in_def eqs fun_eq_iff)
  then have "usable_in b' = usable_in b1" by (simp add: usable_in_def fun_eq_iff)
  moreover have "total_pages b1 = ucast n" "memory_base b1 = base" by (simp_all add: b1_def)
  ultimately show ?thesis
    using eq c has f' l
    by (intro exI [of _ b'] exI [of _ l]) (simp add: pmm_create_free_list_def eqs)
qed

lemma self_test_ok:
  assumes f: "filling b l" and lk: "buddy_lock b = 0"
  shows "\<exists>b'. (do { (test_page, b1) \<leftarrow> pmm_alloc_page b;
                    case test_page of None \<Rightarrow> Some b1 | Some a \<Rightarrow> pmm_free_page b1 a }) = Some b' \<and>
    same_range b b' \<and> pmm_inv b' {} \<and> free_pages b' = set l"
proof -
  note wf = filling_wf [OF f]
  have inv: "pmm_inv b {}" using wf lk by (auto simp: pmm_inv_def)
  have fp: "free_pages b = set l" using free_pages_listed [OF wf] filling_listed [OF f] by simp
  from inv show ?thesis
  proof (cases rule: pmm_alloc_page_cases)
    case none
    then show ?thesis using inv fp by simp
  next
    case (page a b1)
    note eqs = same_range_eqs [OF page(2)]
    have ord0: "pg_order (page_info b k) = 0" if "flagged b k" for k
      using f that by (auto simp: filling_def flagged_def)
    have room: "merge_room b1 ({a} - {a})"
      using page(8) ord0 unfolding merge_room_def by (auto simp: MAX_ORDER_def)
    have a0: "pg_order (page_info b a) = 0" using page(5) fp f by (auto simp: filling_def)
    obtain b2 where fr: "pmm_free_page b1 (page_addr b1 a) = Some b2" and rng: "same_range b1 b2"
      and inv2: "pmm_inv b2 ({a} - {a})" and fp2: "insert a (free_pages b1) \<subseteq> free_pages b2"
      and fp3: "free_pages b2 \<subseteq> insert a (free_pages b1 \<union> flagged_pages b1)"
      using pmm_free_page_ok [OF page(6) _ room] by auto
    have in_l: "k \<in> set l" if "flagged b k" for k using f that by (auto simp: filling_def flagged_def)
    have "blk b1 k (pg_order (page_info b1 k)) \<subseteq> set l" if "flagged b1 k" for k
      using page(8) [OF that] ord0 [of k] in_l [of k] by simp
    then have "flagged_pages b1 \<subseteq> set l" unfolding flagged_pages_def by blast
    then have "free_pages b2 = set l" using fp2 fp3 page(5,7) fp a0 by auto
    moreover have "same_range b b2" by (rule same_range_trans [OF page(2) rng])
    ultimately show ?thesis using page(1) fr inv2 by (simp add: eqs)
  qed
qed

lemma pmm_init_ok:
  assumes has: "PMM_HAS_MMAP mb"
    and count: "pmm_count_usable_pages mb = (n, base, bytes)" "n \<noteq> 0" "base \<noteq> 0"
    and fits: "unat base + unat n * 4096 < 4294967296"
    and dis: "disjoint_regions (valid_entries mb)"
    and bss: "\<And>p. free_list b p = None" and clear: "\<And>addr i. \<not> pg_is_free (ram addr i)"
  shows "\<exists>b'. pmm_init kernel_end mb_ptr ram mb b = Some b' \<and> pmm_inv b' {} \<and>
    total_pages b' = ucast n \<and> memory_base b' = base \<and>
    free_pages b' =
      usable_in b' (page_info_addr b') (page_info_addr b' + PMM_ALIGN (total_pages b' * 16)) (valid_entries mb)"
proof -
  have "base = fst (count_usable_loop (valid_entries mb) 0 0)"
    using count(1) has by (auto simp: pmm_count_usable_pages_def split: prod.splits)
  then have al: "unat base mod 4096 = 0" using region_start_loop_aligned [of 0] by simp
  from pmm_buddy_init_ok [where ram = ram and b = b, OF al count(3) fits has dis bss clear] obtain b1 l where
    bi: "pmm_buddy_init kernel_end mb_ptr ram n base mb b = Some b1" and f: "filling b1 l"
    and tot: "total_pages b1 = ucast n" and mb: "memory_base b1 = base"
    and l: "set l = usable_in b1 (page_info_addr b1) (page_info_addr b1 + PMM_ALIGN (total_pages b1 * 16)) (valid_entries mb)"
    by blast
  let ?b2 = "b1\<lparr>buddy_lock := spinlock_init 0\<rparr>"
  have f2: "filling ?b2 l" and lk: "buddy_lock ?b2 = 0"
    using f by (simp_all add: filling_def geometry_def spinlock_init_def)
  from self_test_ok [OF f2 lk] obtain b' where
    t: "(do { (test_page, b1) \<leftarrow> pmm_alloc_page ?b2;
              case test_page of None \<Rightarrow> Some b1 | Some a \<Rightarrow> pmm_free_page b1 a }) = Some b'"
    and rng: "same_range ?b2 b'" and inv: "pmm_inv b' {}" and fp: "free_pages b' = set l" by blast
  note eqs = same_range_eqs [OF rng]
  have "usable_in b' = usable_in b1" by (simp add: usable_in_def pages_in_def eqs fun_eq_iff)
  then show ?thesis
    using has count bi t inv fp l tot mb by (simp add: pmm_init_def eqs)
qed

end
