(* ===== verification/PmmProps.thy ===== *)
theory PmmProps
  imports PmmInit
begin

text \<open>
  The properties of the physical page allocator, and what it does outside the discipline of one
  page at a time.
\<close>

section \<open>A concrete allocator\<close>

text \<open>Three pages from 1 MiB on: pages 0 and 1 free, page 2 handed out.\<close>

definition demo_pmm :: buddy_allocator where
  "demo_pmm = \<lparr>free_list = (\<lambda>p. if p = 0 then Some 0 else None),
     page_info = (\<lambda>i. \<lparr>pg_address = 0x100000 + of_nat i * 0x1000, pg_order = 0, pg_is_free = i < 2,
                       pg_next = (if i = 0 then Some 1 else None)\<rparr>),
     page_info_addr = 0x200000, total_pages = 3, memory_start = 0x201000,
     memory_end = 0x103000, memory_base = 0x100000, buddy_lock = 0\<rparr>"

lemma demo_base_frame: "base_frame demo_pmm = 256"
  by (simp add: base_frame_def demo_pmm_def)

lemma demo_page_addr: "page_addr demo_pmm i = 0x100000 + of_nat i * 0x1000"
  by (simp add: page_addr_def frame_addr_def demo_base_frame algebra_simps)

lemma demo_pmm_inv: "pmm_inv demo_pmm {2}"
proof -
  have g: "geometry demo_pmm" by (simp add: geometry_def demo_pmm_def)
  note pa = demo_page_addr
  have "pmm_wf demo_pmm {2} (\<lambda>p. if p = 0 then [0, 1] else [])"
    using g unfolding pmm_wf_def lists_ok_def used_ok_def flag_ok_def flagged_def pa
    by (auto simp: demo_pmm_def Let_def fits_def blk_def)
  moreover have "buddy_lock demo_pmm = 0" by (simp add: demo_pmm_def)
  ultimately show ?thesis by (auto simp: pmm_inv_def)
qed

lemma demo_pmm_room: "no_huge_hole demo_pmm A"
  by (rule no_huge_hole_small) (simp add: demo_pmm_def)

section \<open>One page at a time\<close>

text \<open>C1: In a consistent allocator a request for a page always returns. It returns null
  only when no page is on a free list, and then nothing changes; otherwise it returns the non-null,
  page-aligned address of a page that was free and that nobody holds, and the allocator is
  consistent again with that page handed out.\<close>

theorem pmm_alloc_page_correct:
  assumes "pmm_inv b A"
  shows "\<exists>r b'. pmm_alloc_page b = Some (r, b') \<and>
    (case r of
       None \<Rightarrow> free_pages b = {} \<and> b' = b
     | Some addr \<Rightarrow> addr \<noteq> 0 \<and> addr mod PAGE_SIZE = 0 \<and>
         (\<exists>a. addr = page_addr b a \<and> a < unat (total_pages b) \<and> a \<in> free_pages b \<and> a \<notin> A \<and>
              pmm_inv b' (insert a A)))"
  using assms
proof (cases rule: pmm_alloc_page_cases)
  case (page a b')
  then show ?thesis
    using pmm_inv_range [OF assms] page_addr_nonzero page_addr_aligned by auto
qed simp

theorem pmm_alloc_page_correct_witness:
  "\<exists>r b'. pmm_alloc_page demo_pmm = Some (r, b') \<and>
    (case r of
       None \<Rightarrow> free_pages demo_pmm = {} \<and> b' = demo_pmm
     | Some addr \<Rightarrow> addr \<noteq> 0 \<and> addr mod PAGE_SIZE = 0 \<and>
         (\<exists>a. addr = page_addr demo_pmm a \<and> a < unat (total_pages demo_pmm) \<and>
              a \<in> free_pages demo_pmm \<and> a \<notin> {2} \<and> pmm_inv b' (insert a {2})))"
  by (rule pmm_alloc_page_correct [OF demo_pmm_inv])

text \<open>C2: Giving back a page that was handed out always returns, whatever cascade of merges it
  starts, provided a merge cannot run past the largest order (no aligned block of order 11 in the range
  without a page that stays handed out, or no free block of order 10). Afterwards the free pages are the ones that were
  free before, the page, and possibly pages that an earlier allocation has lost; none of them is handed out,
  and the allocator is consistent without the page. When no page has been lost, exactly that page is free in addition.\<close>

theorem pmm_free_page_correct:
  assumes "pmm_inv b A" and "a \<in> A" and "merge_room b (A - {a})"
  shows "\<exists>b'. pmm_free_page b (page_addr b a) = Some b' \<and> pmm_inv b' (A - {a}) \<and>
    (\<exists>L. L \<subseteq> lost_pages b \<and> free_pages b' = insert a (free_pages b) \<union> L) \<and>
    free_pages b' \<inter> (A - {a}) = {}"
proof -
  from pmm_free_page_ok [OF assms] obtain b' where ret: "pmm_free_page b (page_addr b a) = Some b'" "pmm_inv b' (A - {a})"
    and lo: "insert a (free_pages b) \<subseteq> free_pages b'" and hi: "free_pages b' \<subseteq> insert a (free_pages b \<union> flagged_pages b)"
    and dis: "free_pages b' \<inter> (A - {a}) = {}" by metis
  have "free_pages b' = insert a (free_pages b) \<union> (free_pages b' \<inter> lost_pages b)"
    using lo hi unfolding lost_pages_def by blast
  with ret dis show ?thesis by blast
qed

text \<open>In the allocator above nothing has been lost.\<close>

lemma demo_pmm_nothing_lost: "lost_pages demo_pmm = {}" "free_pages demo_pmm = {0, 1}"
proof -
  have g: "geometry demo_pmm" by (simp add: geometry_def demo_pmm_def)
  have "pmm_wf demo_pmm {2} (\<lambda>p. if p = 0 then [0, 1] else [])"
    using g unfolding pmm_wf_def lists_ok_def used_ok_def flag_ok_def flagged_def demo_page_addr
    by (auto simp: demo_pmm_def Let_def fits_def blk_def)
  then show f: "free_pages demo_pmm = {0, 1}"
    by (auto simp: free_pages_listed listed_def split: if_splits)
  show "lost_pages demo_pmm = {}"
    unfolding lost_pages_def f by (auto simp: flagged_pages_def flagged_def demo_pmm_def blk_def)
qed

theorem pmm_free_page_correct_witness:
  "\<exists>b'. pmm_free_page demo_pmm 0x102000 = Some b' \<and> pmm_inv b' ({2} - {2}) \<and> free_pages b' = {0, 1, 2}"
  using pmm_free_page_correct [OF demo_pmm_inv, of 2] demo_pmm_room
  by (auto simp: demo_page_addr merge_room_def demo_pmm_nothing_lost)

text \<open>However a client interleaves taking pages and giving back pages it holds, every request
  returns, and at no time does it hold the same page twice (\<open>R\<close>: pages that are never given back
  and that break up every block of order 11).\<close>

theorem pmm_client_exclusive:
  assumes "pmm_owns R b (set held)" and "distinct held"
  shows "\<exists>b' held'. page_client pmm_alloc_page pmm_free_page b held reqs = Some (b', held') \<and>
    distinct held' \<and> pmm_owns R b' (set held')"
  by (rule pmm.client_exclusive [OF assms])

theorem pmm_client_exclusive_witness:
  "\<exists>b' held'. page_client pmm_alloc_page pmm_free_page demo_pmm [0x102000]
      [Take, Give 0, Take, Take, Take, Give 2, Take] = Some (b', held') \<and>
    distinct held' \<and> pmm_owns {} b' (set held')"
proof (rule pmm_client_exclusive)
  show "pmm_owns {} demo_pmm (set [0x102000])"
    unfolding pmm_owns_def
    by (rule exI [of _ "{2}"]) (simp add: demo_pmm_inv demo_pmm_room demo_page_addr)
qed simp

section \<open>Initialisation\<close>


text \<open>A machine with 4 MiB of usable memory at 1 MiB and the region below it.\<close>

definition demo_boot :: multiboot_info_t where
  "demo_boot = \<lparr>mb_flags = 0x40, mb_mods = [], mb_mmap_addr = 0x9000, mb_mmap_length = 48,
     mb_mmap = [\<lparr>mm_size = 20, mm_addr = 0, mm_len = 0x9F000, mm_type = 1\<rparr>,
                \<lparr>mm_size = 20, mm_addr = 0x100000, mm_len = 0x400000, mm_type = 1\<rparr>]\<rparr>"

definition demo_bss :: buddy_allocator where
  "demo_bss = \<lparr>free_list = (\<lambda>_. None),
     page_info = (\<lambda>_. \<lparr>pg_address = 0, pg_order = 0, pg_is_free = False, pg_next = None\<rparr>),
     page_info_addr = 0, total_pages = 0, memory_start = 0, memory_end = 0, memory_base = 0, buddy_lock = 0\<rparr>"

lemma demo_boot_facts:
  "PMM_HAS_MMAP demo_boot"
  "pmm_count_usable_pages demo_boot = (1024, 0x100000, 0x400000)"
  "disjoint_regions (valid_entries demo_boot)"
  "PMM_REGION_USABLE (mb_mmap demo_boot ! 1)" "mb_mmap demo_boot ! 1 \<in> set (valid_entries demo_boot)"
  "PMM_REGION_START (mb_mmap demo_boot ! 1) = 0x100000" "PMM_REGION_END (mb_mmap demo_boot ! 1) = 0x500000"
  by (simp_all add: demo_boot_def PMM_HAS_MMAP_def pmm_count_usable_pages_def valid_entries_def
      PMM_REGION_START_def PMM_REGION_END_def PMM_ALIGN_def align_up_def PMM_REGION_USABLE_def
      disjoint_regions_def)



section \<open>The kernel's own memory\<close>

text \<open>The allocator gives out the kernel: nothing keeps the pages of the kernel image off the
  free list. Whatever the end of the image is, once the allocator is initialised over the boot map
  above, page 0, at 1 MiB where the linker script puts the kernel, is free unless the page array
  lies there.\<close>

theorem pmm_init_frees_kernel_image:
  "\<exists>b'. pmm_init kernel_end mb_ptr (\<lambda>_. page_info demo_bss) demo_boot demo_bss = Some b' \<and>
    page_addr b' 0 = 0x100000 \<and>
    (pmm_addr_in_pageinfo 0x100000 (page_info_addr b') (page_info_addr b' + 0x4000) \<or> 0 \<in> free_pages b')"
proof -
  have clear: "\<not> pg_is_free (page_info demo_bss i)" and bss: "free_list demo_bss p = None" for i p
    by (simp_all add: demo_bss_def)
  have nz: "(1024 :: u64) \<noteq> 0" "(0x100000 :: u32) \<noteq> 0"
    and small: "unat (0x100000 :: u32) + unat (1024 :: u64) * 4096 < 4294967296" by simp_all
  from pmm_init_ok [where ram = "\<lambda>_. page_info demo_bss" and b = demo_bss and kernel_end = kernel_end
      and mb_ptr = mb_ptr, OF demo_boot_facts(1,2) nz small demo_boot_facts(3) bss clear]
  obtain b' where ret: "pmm_init kernel_end mb_ptr (\<lambda>_. page_info demo_bss) demo_boot demo_bss = Some b'"
    and tot: "total_pages b' = 1024" and base: "memory_base b' = 0x100000"
    and sub: "free_pages b' = usable_in b' (page_info_addr b') (page_info_addr b' + PMM_ALIGN (total_pages b' * 16))
      (valid_entries demo_boot)" by auto
  have a0: "page_addr b' 0 = 0x100000"
    by (simp add: page_addr_def frame_addr_def base_frame_def base)
  have al: "PMM_ALIGN (total_pages b' * 16) = 0x4000"
    by (simp add: tot PMM_ALIGN_def align_up_def)
  have "0 \<in> free_pages b'"
    if out: "\<not> pmm_addr_in_pageinfo 0x100000 (page_info_addr b') (page_info_addr b' + 0x4000)"
  proof -
    have "0 \<in> pages_in b' (page_info_addr b') (page_info_addr b' + 0x4000) 0x100000 0x500000"
      using out by (simp add: pages_in_def a0 tot)
    then have "0 \<in> usable_in b' (page_info_addr b') (page_info_addr b' + 0x4000) (valid_entries demo_boot)"
      using demo_boot_facts(4-7) by (auto simp: usable_in_def intro!: bexI [of _ "mb_mmap demo_boot ! 1"])
    then show ?thesis using sub al by auto
  qed
  with ret a0 show ?thesis by blast
qed

section \<open>Blocks that are lost\<close>

text \<open>The allocator never splits: when the page it takes heads a larger block (order
  \<open>p > 0\<close>), the whole block leaves the free pages, and only its first page is handed out. The
  other \<open>2 ^ p - 1\<close> pages are neither free nor held.\<close>

theorem pmm_alloc_loses_block:
  assumes "pmm_inv b A" and "p \<le> MAX_ORDER" and "free_list b p = Some a"
    and "\<And>q. q < p \<Longrightarrow> free_list b q = None"
  shows "\<exists>b'. pmm_alloc_page b = Some (Some (page_addr b a), b') \<and> pmm_inv b' (insert a A) \<and>
    free_pages b' = free_pages b - blk b a p \<and> blk b a p \<subseteq> free_pages b \<and> card (blk b a p) = 2 ^ p"
proof -
  from assms(1) obtain xs where l: "buddy_lock b = 0" and wf: "pmm_wf b A xs" by (auto simp: pmm_inv_def)
  have wf1: "pmm_wf (b\<lparr>buddy_lock := 1\<rparr>) A xs" using wf by simp
  from pmm_alloc_block_some [OF wf1 assms(2)] assms(3,4) obtain b1 where
    ab: "pmm_alloc_block (b\<lparr>buddy_lock := 1\<rparr>) 0 = Some (Some (page_addr b a), b1)" by auto
  have fits: "fits b a p" and ord: "pg_order (page_info b a) = p" and inl: "a \<in> set (xs p)"
    using take_wf(1) [OF wf assms(2,3)] wf_listed [OF wf assms(2)] by auto
  have ina: "a \<in> blk b a p" by simp
  have sub: "blk b a p \<subseteq> free_pages b"
    using inl assms(2) unfolding free_pages_listed [OF wf] listed_def by auto
  have card: "card (blk b a p) = 2 ^ p" using fits by (simp add: fits_blk)
  from assms(1) show ?thesis
  proof (cases rule: pmm_alloc_page_cases)
    case none
    then show ?thesis using sub ina by blast
  next
    case (page c b')
    have "page_addr b c = page_addr b a"
      using page(1) ab pmm_alloc_page_unfold [OF l] by auto
    moreover have "a < unat (total_pages b)" using fits by (rule fits_range)
    moreover have "geometry b" using wf by (simp add: pmm_wf_def)
    ultimately have "c = a" using page(4) page_addr_inj by blast
    then show ?thesis using page sub card ord by auto
  qed
qed

text \<open>Two pages from 1 MiB on, joined in one free block of order 1.\<close>

definition demo_pair :: buddy_allocator where
  "demo_pair = \<lparr>free_list = (\<lambda>p. if p = 1 then Some 0 else None),
     page_info = (\<lambda>i. \<lparr>pg_address = 0x100000 + of_nat i * 0x1000, pg_order = 1, pg_is_free = i < 1,
                       pg_next = None\<rparr>),
     page_info_addr = 0x200000, total_pages = 2, memory_start = 0x201000,
     memory_end = 0x102000, memory_base = 0x100000, buddy_lock = 0\<rparr>"

lemma demo_pair_base_frame: "base_frame demo_pair = 256"
  by (simp add: base_frame_def demo_pair_def)

lemma demo_pair_addr: "page_addr demo_pair i = 0x100000 + of_nat i * 0x1000"
  by (simp add: page_addr_def frame_addr_def demo_pair_base_frame algebra_simps)

lemma demo_pair_inv: "pmm_inv demo_pair {}"
proof -
  have g: "geometry demo_pair" by (simp add: geometry_def demo_pair_def)
  have "pmm_wf demo_pair {} (\<lambda>p. if p = 1 then [0] else [])"
    using g unfolding pmm_wf_def lists_ok_def used_ok_def flag_ok_def flagged_def demo_pair_addr fits_def
      demo_pair_base_frame
    by (auto simp: demo_pair_def Let_def MAX_ORDER_def)
  moreover have "buddy_lock demo_pair = 0" by (simp add: demo_pair_def)
  ultimately show ?thesis by (auto simp: pmm_inv_def)
qed

theorem pmm_alloc_loses_block_witness:
  "\<exists>b'. pmm_alloc_page demo_pair = Some (Some (page_addr demo_pair 0), b') \<and> pmm_inv b' (insert 0 {}) \<and>
    free_pages b' = free_pages demo_pair - blk demo_pair 0 1 \<and>
    blk demo_pair 0 1 \<subseteq> free_pages demo_pair \<and> card (blk demo_pair 0 1) = 2 ^ 1"
  by (rule pmm_alloc_loses_block [OF demo_pair_inv])
     (simp_all add: demo_pair_def MAX_ORDER_def)


section \<open>Several pages at once\<close>

lemma free_blocks_upto_eq:
  "pmm_wf b A xs \<Longrightarrow> n \<le> Suc MAX_ORDER \<Longrightarrow> pmm_free_blocks_upto b n = Some (\<Sum>p<n. length (xs p))"
proof (induction n)
  case (Suc n)
  then have "llist (page_next b) (free_list b n) (xs n)" by (simp add: pmm_wf_def lists_ok_def)
  from ll_count_llist [OF this] Suc show ?case by (simp add: add.commute)
qed simp

lemma rollback_deadlocks:
  assumes "buddy_lock b = 1" and "s \<noteq> 0" and "i \<noteq> 0"
  shows "pmm_free_pages b s 0 i = None"
  using assms by (simp add: pmm_free_pages_def)

lemma alloc_loop_oom:
  assumes "pmm_wf b A xs" and "buddy_lock b = 1" and "(\<Sum>p<Suc MAX_ORDER. length (xs p)) < n"
    and "start = None \<Longrightarrow> (\<Sum>p<Suc MAX_ORDER. length (xs p)) > 0"
    and "\<And>s. start = Some s \<Longrightarrow> s \<noteq> 0 \<and> i \<noteq> 0" and "unat i + n < 4294967296"
  shows "pmm_alloc_loop b 0 n i start = None"
  using assms
proof (induction n arbitrary: b A xs i start)
  case (Suc n)
  note wf = Suc.prems(1)
  show ?case
  proof (cases rule: pmm_fetch_cases [of 0 b])
    case none
    have "xs p = []" if "p < Suc MAX_ORDER" for p
      using that none(1) [of p] wf by (auto simp: pmm_wf_def lists_ok_def less_Suc_eq_le)
    then have "(\<Sum>p<Suc MAX_ORDER. length (xs p)) = 0" by simp
    then obtain s where s: "start = Some s" using Suc.prems(4) by auto
    have "pmm_alloc_block b 0 = Some (None, b)" using none by (intro pmm_alloc_block_none) simp
    then show ?thesis
      using s Suc.prems(5) rollback_deadlocks [OF Suc.prems(2), of s i] by simp
  next
    case (some p a)
    from pmm_alloc_block_some [OF wf some(2,3) some(4)] obtain b' where
      ab: "pmm_alloc_block b 0 = Some (Some (page_addr b a), b')" and rng: "same_range b b'"
      and a: "a < unat (total_pages b)" and wf': "pmm_wf b' (insert a A) (xs(p := tl (xs p)))"
      and xp: "xs p = a # tl (xs p)" by auto
    have "length (xs p) = Suc (length (tl (xs p)))" using xp by (metis length_Cons)
    then have sum: "(\<Sum>q<Suc MAX_ORDER. length (xs q)) = Suc (\<Sum>q<Suc MAX_ORDER. length ((xs(p := tl (xs p))) q))"
    proof -
      let ?I = "{..<Suc MAX_ORDER}" and ?ys = "xs(p := tl (xs p))"
      have p: "p \<in> ?I" using some(2) by simp
      have "sum (\<lambda>q. length (xs q)) (?I - {p}) = sum (\<lambda>q. length (?ys q)) (?I - {p})"
        by (rule sum.cong) auto
      moreover have "sum (\<lambda>q. length (xs q)) ?I = length (xs p) + sum (\<lambda>q. length (xs q)) (?I - {p})"
        by (rule sum.remove [OF finite_lessThan p])
      moreover have "sum (\<lambda>q. length (?ys q)) ?I = length (?ys p) + sum (\<lambda>q. length (?ys q)) (?I - {p})"
        by (rule sum.remove [OF finite_lessThan p])
      moreover have "length (?ys p) = length (tl (xs p))" by simp
      ultimately show ?thesis using \<open>length (xs p) = Suc (length (tl (xs p)))\<close> by linarith
    qed
    have nz: "page_addr b a \<noteq> 0"
      using wf a by (intro page_addr_nonzero) (simp_all add: pmm_wf_def)
    have "unat (i + 1) = unat i + 1"
      using Suc.prems(6) by (subst unat_plus_u32) simp_all
    then have i1: "i + 1 \<noteq> 0" "unat (i + 1) + n < 4294967296" using Suc.prems(6) by auto
    have lk: "buddy_lock b' = 1" using Suc.prems(2) same_range_eqs(8) [OF rng] by simp
    let ?start = "case start of None \<Rightarrow> Some (page_addr b a) | Some s \<Rightarrow> Some s"
    have "?start = Some s \<Longrightarrow> s \<noteq> 0 \<and> i + 1 \<noteq> 0" for s
      using nz i1 Suc.prems(5) by (auto split: option.splits)
    moreover have "?start \<noteq> None" by (simp split: option.split)
    ultimately have "pmm_alloc_loop b' 0 n (i + 1) ?start = None"
      using Suc.prems(3) sum i1 by (intro Suc.IH [OF wf' lk]) auto
    with ab show ?thesis by simp
  qed
qed simp

text \<open>A request for more single pages than there are free blocks, when there is at least one,
  never returns: the loop hands out what there is, and its rollback then calls
  \<open>pmm_free_pages\<close>, which spins on the allocator lock that \<open>pmm_alloc_pages\<close> itself
  holds.\<close>

theorem pmm_alloc_pages_oom_deadlock:
  assumes "pmm_inv b A" and "pmm_free_blocks_upto b (Suc MAX_ORDER) = Some k"
    and "0 < k" and "k < unat count"
  shows "pmm_alloc_pages b 0 count = None"
proof -
  from assms(1) obtain xs where l: "buddy_lock b = 0" and wf: "pmm_wf b A xs" by (auto simp: pmm_inv_def)
  have k: "k = (\<Sum>p<Suc MAX_ORDER. length (xs p))"
    using free_blocks_upto_eq [OF wf, of "Suc MAX_ORDER"] assms(2) by simp
  have "count \<noteq> 0" using assms(4) by auto
  moreover have "pmm_alloc_loop (b\<lparr>buddy_lock := 1\<rparr>) 0 (unat count) 0 None = None"
    using wf assms(3,4) k by (intro alloc_loop_oom [of _ A xs]) simp_all
  ultimately show ?thesis using l by (simp add: pmm_alloc_pages_def)
qed

lemma demo_pmm_blocks: "pmm_free_blocks_upto demo_pmm (Suc MAX_ORDER) = Some 2"
  by (simp add: MAX_ORDER_def eval_nat_numeral demo_pmm_def ll_count.simps)

theorem pmm_alloc_pages_oom_deadlock_witness: "pmm_alloc_pages demo_pmm 0 3 = None"
  by (rule pmm_alloc_pages_oom_deadlock [OF demo_pmm_inv demo_pmm_blocks]) simp_all

text \<open>Two pages asked for together need not be neighbours: they are the first two of the free
  list, and only the address of the first is returned. On the list that \<open>pmm_init\<close> builds the
  second is the page below the first, so the 8 KiB that start at the result belong to somebody
  else.\<close>

theorem pmm_alloc_two_pages:
  assumes "pmm_inv b A" and "free_list b 0 = Some i" and "page_next b i = Some j"
  shows "\<exists>b'. pmm_alloc_pages b 0 2 = Some (Some (page_addr b i), b') \<and> pmm_inv b' (insert j (insert i A)) \<and>
    i \<noteq> j"
proof -
  from assms(1) obtain xs where l: "buddy_lock b = 0" and wf: "pmm_wf b A xs" by (auto simp: pmm_inv_def)
  let ?b1 = "b\<lparr>buddy_lock := 1\<rparr>"
  have wf1: "pmm_wf ?b1 A xs" using wf by simp
  let ?b2 = "upd_page i (\<lambda>p. p\<lparr>pg_is_free := False, pg_order := 0\<rparr>) (set_free_list 0 (page_next ?b1 i) ?b1)"
  have tw: "pmm_wf ?b2 (insert i A) (xs(0 := tl (xs 0)))" and ilt: "i < unat (total_pages b)"
    and ad: "pg_address (page_info b i) = page_addr b i"
    using take_wf [OF wf1, of 0 i] assms(2) by simp_all
  have g: "geometry b" using wf by (simp add: pmm_wf_def)
  have f1: "pmm_fetch_order_block ?b1 0 = (Some i, set_free_list 0 (page_next ?b1 i) ?b1)"
    using assms(2) by (intro pmm_fetch_some) simp_all
  have u: "upd_page i (\<lambda>p. p\<lparr>pg_order := 0\<rparr>) (upd_page i (\<lambda>p. p\<lparr>pg_is_free := False\<rparr>) c) =
      upd_page i (\<lambda>p. p\<lparr>pg_is_free := False, pg_order := 0\<rparr>) c" for c
    by (simp add: upd_page_def)
  have a1: "pmm_alloc_block ?b1 0 = Some (Some (page_addr b i), ?b2)"
    using f1 ad page_addr_nonzero [OF g ilt] by (simp add: pmm_alloc_block_def Let_def u)
  have hd2: "free_list ?b2 0 = Some j" using assms(3) by simp
  from pmm_alloc_block_some [OF tw _ hd2] obtain b3 where
    a2: "pmm_alloc_block ?b2 0 = Some (Some (page_addr ?b2 j), b3)" and rng: "same_range ?b2 b3"
    and j: "j \<notin> insert i A" and wf3: "\<exists>ys. pmm_wf b3 (insert j (insert i A)) ys" by blast
  have lk: "buddy_lock b3 = 1" using same_range_eqs(8) [OF rng] by simp
  have "pmm_alloc_loop ?b1 0 (Suc (Suc 0)) 0 None = Some (Some (page_addr b i), b3)"
    using a1 a2 by simp
  then have "pmm_alloc_loop ?b1 0 2 0 None = Some (Some (page_addr b i), b3)"
    by (simp only: numeral_2_eq_2)
  then have "pmm_alloc_pages b 0 2 = Some (Some (page_addr b i), b3\<lparr>buddy_lock := 0\<rparr>)"
    using l lk by (simp add: pmm_alloc_pages_def)
  moreover have "pmm_inv (b3\<lparr>buddy_lock := 0\<rparr>) (insert j (insert i A))"
    using wf3 by (simp add: pmm_inv_def)
  ultimately show ?thesis using j by blast
qed

theorem pmm_alloc_two_pages_witness:
  "\<exists>b'. pmm_alloc_pages demo_pmm 0 2 = Some (Some (page_addr demo_pmm 0), b') \<and>
    pmm_inv b' (insert 1 (insert 0 {2})) \<and> (0 :: nat) \<noteq> 1"
  by (rule pmm_alloc_two_pages [OF demo_pmm_inv]) (simp_all add: demo_pmm_def)


section \<open>Merging past the largest order\<close>

lemma unlink_range:
  "llist (page_next b) (free_list b ord) ys \<Longrightarrow> ord \<le> MAX_ORDER \<Longrightarrow>
   \<exists>b'. pmm_unlink b ord j = Some b' \<and> same_range b b'"
proof (cases "j \<in> set ys")
  case True
  assume l: "llist (page_next b) (free_list b ord) ys" and o: "ord \<le> MAX_ORDER"
  from True obtain us vs where "ys = us @ j # vs" by (auto simp: in_set_conv_decomp)
  with unlink_listed [of b ord us j vs] l o show ?thesis by blast
next
  case False
  assume l: "llist (page_next b) (free_list b ord) ys" and o: "ord \<le> MAX_ORDER"
  then show ?thesis using unlink_unlisted [OF l o False] by simp
qed

lemma merge_above_max:
  assumes "phys_to_page_index b addr = Some i"
  shows "pmm_buddy_merge b addr (Suc MAX_ORDER) = None"
  using assms by (subst pmm_buddy_merge.simps) (auto simp: Let_def push_free_def split: option.split)

text \<open>A merge is not bounded by \<open>MAX_ORDER\<close>: when the buddy of a block of the largest order
  is free too, the merge goes on to order 11 and accesses \<open>free_list[11]\<close>, outside the array.\<close>

theorem pmm_merge_leaves_array:
  assumes "geometry b" and "i < unat (total_pages b)"
    and "phys_to_page_index b (pmm_get_buddy_address (page_addr b i) MAX_ORDER) = Some j"
    and "pg_is_free (page_info b j)" and "pg_order (page_info b j) = MAX_ORDER"
    and "llist (page_next b) (free_list b MAX_ORDER) ys"
  shows "pmm_buddy_merge b (page_addr b i) MAX_ORDER = None"
proof -
  let ?ba = "pmm_get_buddy_address (page_addr b i) MAX_ORDER"
  have pi: "phys_to_page_index b (page_addr b i) = Some i"
    by (rule phys_to_page_index_page_addr [OF assms(1,2)])
  obtain b' where un: "pmm_unlink b MAX_ORDER j = Some b'" and rng: "same_range b b'"
    using unlink_range [OF assms(6)] by blast
  have "\<exists>k. phys_to_page_index b' (if page_addr b i < ?ba then page_addr b i else ?ba) = Some k"
    using pi assms(3) same_range_eqs(6) [OF rng] by simp
  then show ?thesis
    using merge_above_max un pi assms(3-5) by (subst pmm_buddy_merge.simps) (auto simp: Let_def)
qed

text \<open>Two free neighbours of order 10 from 8 MiB on.\<close>

definition demo_huge :: buddy_allocator where
  "demo_huge = \<lparr>free_list = (\<lambda>p. if p = 10 then Some 1024 else None),
     page_info = (\<lambda>i. \<lparr>pg_address = 0x800000 + of_nat i * 0x1000, pg_order = 10, pg_is_free = (i = 1024),
                       pg_next = None\<rparr>),
     page_info_addr = 0x200000, total_pages = 2048, memory_start = 0x208000,
     memory_end = 0x1000000, memory_base = 0x800000, buddy_lock = 0\<rparr>"

theorem pmm_merge_leaves_array_witness:
  "pmm_buddy_merge demo_huge (page_addr demo_huge 0) MAX_ORDER = None"
proof (rule pmm_merge_leaves_array)
  show g: "geometry demo_huge" by (simp add: geometry_def demo_huge_def)
  show "0 < unat (total_pages demo_huge)" by (simp add: demo_huge_def)
  have bf: "base_frame demo_huge = 2048" by (simp add: base_frame_def demo_huge_def)
  have "page_addr demo_huge 0 = 0x800000" by (simp add: page_addr_def frame_addr_def bf)
  then have "pmm_get_buddy_address (page_addr demo_huge 0) MAX_ORDER = 0xC00000"
    by (simp add: pmm_get_buddy_address_def MAX_ORDER_def push_bit_eq_mult)
  then show "phys_to_page_index demo_huge (pmm_get_buddy_address (page_addr demo_huge 0) MAX_ORDER) = Some 1024"
    by (simp add: phys_to_page_index_def page_index_def demo_huge_def Let_def)
  show "pg_is_free (page_info demo_huge 1024)" "pg_order (page_info demo_huge 1024) = MAX_ORDER"
    "llist (page_next demo_huge) (free_list demo_huge MAX_ORDER) [1024]"
    by (simp_all add: demo_huge_def MAX_ORDER_def)
qed

end
