(* ===== verification/BoxHash.thy ===== *)
theory BoxHash
  imports Prelude
begin

text \<open>
  The hash table of mem/alloc.c that maps box identifiers to boxes: open addressing with linear
  probing over 256 slots, and deletion that reinserts the rest of the probe chain. The index is an
  8-bit word: \<open>x & BOX_HASH_MASK\<close> is the conversion to it, and \<open>(idx + 1) & BOX_HASH_MASK\<close>
  its addition. The locale states what a table promises to its clients.
\<close>

unbundle bit_operations_syntax

section \<open>The code\<close>

record 'b box_hash_entry_t =
  bh_key :: u32
  bh_value :: "'b option"

type_synonym 'b box_hash = "u8 \<Rightarrow> 'b box_hash_entry_t"

definition box_hash_resolve_index :: "u32 \<Rightarrow> u8" where
  "box_hash_resolve_index ident = ucast (ident * 2654435761)"

partial_function (option) box_hash_insert_loop ::
  "u8 \<Rightarrow> u32 \<Rightarrow> 'b \<Rightarrow> 'b box_hash \<Rightarrow> 'b box_hash option" where
  "box_hash_insert_loop idx ident box t =
     (if bh_value (t idx) = None then Some (t(idx := \<lparr>bh_key = ident, bh_value = Some box\<rparr>))
      else box_hash_insert_loop (idx + 1) ident box t)"

definition box_hash_insert :: "u32 \<Rightarrow> 'b \<Rightarrow> 'b box_hash \<Rightarrow> 'b box_hash option" where
  "box_hash_insert ident box t = box_hash_insert_loop (box_hash_resolve_index ident) ident box t"

partial_function (option) box_hash_lookup_loop :: "u8 \<Rightarrow> u32 \<Rightarrow> 'b box_hash \<Rightarrow> 'b option option" where
  "box_hash_lookup_loop idx ident t =
     (if bh_value (t idx) = None then Some None
      else if bh_key (t idx) = ident then Some (bh_value (t idx))
      else box_hash_lookup_loop (idx + 1) ident t)"

definition box_hash_lookup :: "u32 \<Rightarrow> 'b box_hash \<Rightarrow> 'b option option" where
  "box_hash_lookup ident t = box_hash_lookup_loop (box_hash_resolve_index ident) ident t"

text \<open>The slot of the key, or \<open>None\<close> when an empty slot comes first.\<close>

partial_function (option) box_hash_find_loop :: "u8 \<Rightarrow> u32 \<Rightarrow> 'b box_hash \<Rightarrow> u8 option option" where
  "box_hash_find_loop idx ident t =
     (if bh_value (t idx) = None then Some None
      else if bh_key (t idx) = ident then Some (Some idx)
      else box_hash_find_loop (idx + 1) ident t)"

definition clear_slot :: "u8 \<Rightarrow> 'b box_hash \<Rightarrow> 'b box_hash" where
  "clear_slot idx t = t(idx := (t idx)\<lparr>bh_value := None\<rparr>)"

partial_function (option) box_hash_rehash :: "u8 \<Rightarrow> 'b box_hash \<Rightarrow> 'b box_hash option" where
  "box_hash_rehash idx t =
     (case bh_value (t idx) of
        None \<Rightarrow> Some t
      | Some rebox \<Rightarrow> do {
          let rekey = bh_key (t idx);
          let t = clear_slot idx t;
          t \<leftarrow> box_hash_insert rekey rebox t;
          box_hash_rehash (idx + 1) t
        })"

definition box_hash_remove :: "u32 \<Rightarrow> 'b box_hash \<Rightarrow> 'b box_hash option" where
  "box_hash_remove ident t = do {
     found \<leftarrow> box_hash_find_loop (box_hash_resolve_index ident) ident t;
     (case found of
        None \<Rightarrow> Some t
      | Some idx \<Rightarrow> do {
          let t = clear_slot idx t;
          box_hash_rehash (idx + 1) t
        })
   }"

section \<open>Going round the table\<close>

lemma u8_forward_induct [case_names here step]:
  assumes "P x" and "\<And>i. i \<noteq> x \<Longrightarrow> P (i + 1) \<Longrightarrow> P i"
  shows "P (i :: u8)"
proof (induction "unat (x - i)" arbitrary: i rule: less_induct)
  case less
  show ?case
  proof (cases "i = x")
    case False
    then have nz: "x - i \<noteq> 0" by simp
    have "x - (i + 1) = (x - i) - 1" by simp
    then have "unat (x - (i + 1)) < unat (x - i)" using nz by (metis measure_unat)
    then show ?thesis using less assms(2) False by blast
  qed (use assms(1) in simp)
qed

text \<open>The distance between two slots, seen from a third.\<close>

lemma unat_diff_u8:
  "unat (a - b :: u8) = (if unat b \<le> unat a then unat a - unat b else 256 + unat a - unat b)"
  by (simp add: unat_sub_if_size word_size) arith

lemma unat_dist: "unat (p - q :: u8) =
  (if unat (q - i) \<le> unat (p - i) then unat (p - i) - unat (q - i) else 256 + unat (p - i) - unat (q - i))"
  using unat_diff_u8 [of "p - i" "q - i"] by (simp only: diff_diff_eq2 diff_add_cancel add_diff_cancel)

lemma unat_u8_bound: "unat (x :: u8) < 256"
  using unsigned_less [of x] by simp

text \<open>The slots from \<open>a\<close> forward up to \<open>b\<close>.\<close>

definition span :: "u8 \<Rightarrow> u8 \<Rightarrow> u8 set" where
  "span a b = {y. y - a \<le> b - a}"

lemma span_ends [simp]: "a \<in> span a b" "b \<in> span a b"
  by (simp_all add: span_def)

lemma in_span_from:
  "y \<in> span a b \<longleftrightarrow>
    (if unat (a - i) \<le> unat (y - i) then unat (y - i) - unat (a - i) else 256 + unat (y - i) - unat (a - i)) \<le>
    (if unat (a - i) \<le> unat (b - i) then unat (b - i) - unat (a - i) else 256 + unat (b - i) - unat (a - i))"
  unfolding span_def mem_Collect_eq word_le_nat_alt unat_dist [of y a i] unat_dist [of b a i] ..

lemma span_step:
  assumes "i \<noteq> x"
  shows "span i x = insert i (span (i + 1) x)"
proof -
  have b: "unat (i + 1 - i) = 1" "unat (i - i) = 0" by simp_all
  have x: "unat (x - i) \<noteq> 0" using assms by (simp add: unat_eq_0)
  have "y \<in> span i x \<longleftrightarrow> y \<in> insert i (span (i + 1) x)" for y
  proof (cases "y = i")
    case False
    then have "unat (y - i) \<noteq> 0" by (simp add: unat_eq_0)
    then show ?thesis
      using False x unat_u8_bound [of "x - i"]
      unfolding insert_iff in_span_from [of y i x i] in_span_from [of y "i + 1" x i] b by auto
  qed simp
  then show ?thesis by blast
qed

lemma span_trans:
  assumes "y \<in> span a x" and "z \<in> span a y"
  shows "z \<in> span a x"
  using assms by (auto simp: span_def)

section \<open>Probing\<close>

definition occ :: "'b box_hash \<Rightarrow> u8 \<Rightarrow> bool" where
  "occ t i \<longleftrightarrow> bh_value (t i) \<noteq> None"

lemma loop_skip:
  "occ t i \<Longrightarrow> box_hash_insert_loop i ident box t = box_hash_insert_loop (i + 1) ident box t"
  "occ t i \<Longrightarrow> bh_key (t i) \<noteq> ident \<Longrightarrow> box_hash_find_loop i ident t = box_hash_find_loop (i + 1) ident t"
  "occ t i \<Longrightarrow> bh_key (t i) \<noteq> ident \<Longrightarrow> box_hash_lookup_loop i ident t = box_hash_lookup_loop (i + 1) ident t"
    apply (subst box_hash_insert_loop.simps, auto simp: occ_def)
   apply (subst box_hash_find_loop.simps, auto simp: occ_def)
  apply (subst box_hash_lookup_loop.simps, auto simp: occ_def)
  done

lemma insert_loop_at:
  assumes "\<not> occ t x"
  shows "(\<And>y. y \<in> span idx x \<Longrightarrow> y \<noteq> x \<Longrightarrow> occ t y) \<Longrightarrow>
    box_hash_insert_loop idx ident box t = Some (t(x := \<lparr>bh_key = ident, bh_value = Some box\<rparr>))"
proof (induction idx rule: u8_forward_induct [where x = x])
  case here
  then show ?case using assms by (subst box_hash_insert_loop.simps) (simp add: occ_def)
next
  case (step i)
  have "occ t i" using step by simp
  then have "box_hash_insert_loop i ident box t = box_hash_insert_loop (i + 1) ident box t"
    by (rule loop_skip)
  also have "\<dots> = Some (t(x := \<lparr>bh_key = ident, bh_value = Some box\<rparr>))"
    using step.prems span_step [OF step.hyps] by (intro step.IH) blast
  finally show ?case .
qed

text \<open>Where the two searches for a key end: at its slot, or at the first empty slot.\<close>

lemma search_at:
  assumes "\<And>y. y \<in> span idx x \<Longrightarrow> y \<noteq> x \<Longrightarrow> occ t y \<and> bh_key (t y) \<noteq> ident"
    and "occ t x \<Longrightarrow> bh_key (t x) = ident"
  shows "box_hash_find_loop idx ident t = Some (if occ t x then Some x else None) \<and>
    box_hash_lookup_loop idx ident t = Some (bh_value (t x))"
  using assms(1)
proof (induction idx rule: u8_forward_induct [where x = x])
  case here
  then show ?case using assms(2)
    by (subst box_hash_find_loop.simps, subst box_hash_lookup_loop.simps) (auto simp: occ_def)
next
  case (step i)
  then have "occ t i" "bh_key (t i) \<noteq> ident" using step.hyps by simp_all
  moreover have "box_hash_find_loop (i + 1) ident t = Some (if occ t x then Some x else None) \<and>
    box_hash_lookup_loop (i + 1) ident t = Some (bh_value (t x))"
    using step.prems span_step [OF step.hyps] by (intro step.IH) blast
  ultimately show ?case by (simp add: loop_skip)
qed

lemma first_empty:
  assumes "\<not> occ t e"
  obtains x where "\<not> occ t x" "\<And>y. y \<in> span idx x \<Longrightarrow> y \<noteq> x \<Longrightarrow> occ t y"
proof -
  have "\<exists>x. \<not> occ t x \<and> (\<forall>y. y \<in> span idx x \<longrightarrow> y \<noteq> x \<longrightarrow> occ t y)"
  proof (induction idx rule: u8_forward_induct [where x = e])
    case here
    have "span e e = {e}" by (auto simp: span_def)
    then show ?case using assms by auto
  next
    case (step i)
    show ?case
    proof (cases "occ t i")
      case False
      have "span i i = {i}" by (auto simp: span_def)
      then show ?thesis using False by auto
    next
      case True
      from step.IH obtain x where x: "\<not> occ t x" "\<And>y. y \<in> span (i + 1) x \<Longrightarrow> y \<noteq> x \<Longrightarrow> occ t y" by blast
      then have "i \<noteq> x" using True by auto
      then have "\<forall>y. y \<in> span i x \<longrightarrow> y \<noteq> x \<longrightarrow> occ t y"
        using x(2) True unfolding span_step [OF \<open>i \<noteq> x\<close>] by blast
      with x(1) show ?thesis by blast
    qed
  qed
  then show ?thesis using that by blast
qed


section \<open>The invariant\<close>

definition home :: "'b box_hash \<Rightarrow> u8 \<Rightarrow> u8" where
  "home t x = box_hash_resolve_index (bh_key (t x))"

definition reachable_at :: "'b box_hash \<Rightarrow> u8 \<Rightarrow> bool" where
  "reachable_at t x \<longleftrightarrow> (\<forall>y\<in>span (home t x) x. occ t y)"

definition keys_distinct :: "'b box_hash \<Rightarrow> bool" where
  "keys_distinct t \<longleftrightarrow> (\<forall>x y. occ t x \<longrightarrow> occ t y \<longrightarrow> bh_key (t x) = bh_key (t y) \<longrightarrow> x = y)"

definition bh_inv :: "'b box_hash \<Rightarrow> bool" where
  "bh_inv t \<longleftrightarrow> keys_distinct t \<and> (\<forall>x. occ t x \<longrightarrow> reachable_at t x)"

definition bh_entries :: "'b box_hash \<Rightarrow> (u32 \<times> 'b) set" where
  "bh_entries t = {(k, v). \<exists>x. t x = \<lparr>bh_key = k, bh_value = Some v\<rparr>}"

lemma entries_iff: "(k, v) \<in> bh_entries t \<longleftrightarrow> (\<exists>x. bh_key (t x) = k \<and> bh_value (t x) = Some v)"
proof -
  have "t x = \<lparr>bh_key = k, bh_value = Some v\<rparr> \<longleftrightarrow> bh_key (t x) = k \<and> bh_value (t x) = Some v" for x
    by (cases "t x") simp
  then show ?thesis by (simp add: bh_entries_def)
qed

lemma absent_key: "k \<notin> fst ` bh_entries t \<Longrightarrow> occ t x \<Longrightarrow> bh_key (t x) \<noteq> k"
proof -
  assume a: "k \<notin> fst ` bh_entries t" and "occ t x"
  then obtain v where v: "bh_value (t x) = Some v" by (auto simp: occ_def)
  show "bh_key (t x) \<noteq> k"
  proof
    assume "bh_key (t x) = k"
    then have "(k, v) \<in> bh_entries t" using v by (auto simp: entries_iff)
    then show False using a by force
  qed
qed

lemma search_present:
  assumes inv: "bh_inv t" and x: "occ t x" "bh_key (t x) = k"
  shows "box_hash_find_loop (box_hash_resolve_index k) k t = Some (Some x)"
    and "box_hash_lookup k t = Some (bh_value (t x))"
proof -
  have h: "home t x = box_hash_resolve_index k" using x by (simp add: home_def)
  have "occ t y \<and> bh_key (t y) \<noteq> k" if "y \<in> span (box_hash_resolve_index k) x" "y \<noteq> x" for y
    using that inv x h by (auto simp: bh_inv_def reachable_at_def keys_distinct_def)
  note s = search_at [OF this x(2)]
  show "box_hash_find_loop (box_hash_resolve_index k) k t = Some (Some x)"
    "box_hash_lookup k t = Some (bh_value (t x))"
    using s x by (simp_all add: box_hash_lookup_def)
qed

lemma search_absent:
  assumes k: "k \<notin> fst ` bh_entries t" and e: "\<not> occ t e"
  shows "box_hash_find_loop (box_hash_resolve_index k) k t = Some None"
    and "box_hash_lookup k t = Some None"
proof -
  obtain x where x: "\<not> occ t x" "\<And>y. y \<in> span (box_hash_resolve_index k) x \<Longrightarrow> y \<noteq> x \<Longrightarrow> occ t y"
    using first_empty [OF e] by blast
  have "occ t y \<and> bh_key (t y) \<noteq> k" if "y \<in> span (box_hash_resolve_index k) x" "y \<noteq> x" for y
    using x(2) [OF that] absent_key [OF k] by blast
  note s = search_at [of "box_hash_resolve_index k" x t k, OF this]
  show "box_hash_find_loop (box_hash_resolve_index k) k t = Some None"
    "box_hash_lookup k t = Some None"
    using s x by (simp_all add: box_hash_lookup_def occ_def)
qed

lemma box_hash_lookup_ok:
  assumes "bh_inv t" and "\<not> occ t e"
  shows "\<exists>r. box_hash_lookup k t = Some r \<and> (\<forall>v. r = Some v \<longleftrightarrow> (k, v) \<in> bh_entries t)"
proof (cases "k \<in> fst ` bh_entries t")
  case False
  then show ?thesis using search_absent(2) [OF False assms(2)] by force
next
  case True
  then obtain x v where x: "bh_key (t x) = k" "bh_value (t x) = Some v" by (auto simp: entries_iff)
  then have o: "occ t x" by (simp add: occ_def)
  have "bh_value (t y) = Some v" if "bh_key (t y) = k" "bh_value (t y) = Some w" for y w
  proof -
    have "occ t y" using that by (simp add: occ_def)
    then have "y = x" using assms(1) o x that by (simp add: bh_inv_def keys_distinct_def)
    then show ?thesis using x by simp
  qed
  then have "(k, w) \<in> bh_entries t \<longleftrightarrow> w = v" for w
    using x unfolding entries_iff by (metis option.inject)
  then show ?thesis using search_present(2) [OF assms(1) o x(1)] x(2) by auto
qed

section \<open>Insertion\<close>

lemma insert_into:
  assumes "\<not> occ t e"
  obtains x where "box_hash_insert k v t = Some (t(x := \<lparr>bh_key = k, bh_value = Some v\<rparr>))" "\<not> occ t x"
    "\<And>y. y \<in> span (box_hash_resolve_index k) x \<Longrightarrow> y \<noteq> x \<Longrightarrow> occ t y"
proof -
  obtain x where x: "\<not> occ t x" "\<And>y. y \<in> span (box_hash_resolve_index k) x \<Longrightarrow> y \<noteq> x \<Longrightarrow> occ t y"
    using first_empty [OF assms] by blast
  have "box_hash_insert k v t = Some (t(x := \<lparr>bh_key = k, bh_value = Some v\<rparr>))"
    unfolding box_hash_insert_def by (rule insert_loop_at) (rule x(1), rule x(2))
  with x that show ?thesis by blast
qed

lemma occ_upd [simp]: "occ (t(x := \<lparr>bh_key = k, bh_value = v\<rparr>)) y \<longleftrightarrow> (if y = x then v \<noteq> None else occ t y)"
  by (simp add: occ_def)

lemma home_upd: "home (t(x := \<lparr>bh_key = k, bh_value = v\<rparr>)) y = (if y = x then box_hash_resolve_index k else home t y)"
  by (simp add: home_def)

lemma entries_put:
  assumes "\<not> occ t x"
  shows "bh_entries (t(x := \<lparr>bh_key = k, bh_value = Some v\<rparr>)) = insert (k, v) (bh_entries t)"
proof -
  have "(a, b) \<in> bh_entries (t(x := \<lparr>bh_key = k, bh_value = Some v\<rparr>)) \<longleftrightarrow> (a, b) \<in> insert (k, v) (bh_entries t)" for a b
  proof -
    let ?t = "t(x := \<lparr>bh_key = k, bh_value = Some v\<rparr>)"
    have new: "bh_key (?t x) = k" "bh_value (?t x) = Some v" by simp_all
    have old: "?t y = t y" if "y \<noteq> x" for y using that by simp
    have "(\<exists>y. bh_key (?t y) = a \<and> bh_value (?t y) = Some b) \<longleftrightarrow>
        (a = k \<and> b = v) \<or> (\<exists>y. bh_key (t y) = a \<and> bh_value (t y) = Some b)"
      using new old assms unfolding occ_def by (metis option.discI option.inject)
    then show ?thesis unfolding entries_iff insert_iff by simp
  qed
  then show ?thesis by auto
qed

lemma put_distinct:
  assumes inv: "keys_distinct t" and k: "k \<notin> fst ` bh_entries t"
  shows "keys_distinct (t(x := \<lparr>bh_key = k, bh_value = Some v\<rparr>))"
  unfolding keys_distinct_def
proof (intro allI impI)
  let ?t = "t(x := \<lparr>bh_key = k, bh_value = Some v\<rparr>)"
  fix y z assume "occ ?t y" "occ ?t z" "bh_key (?t y) = bh_key (?t z)"
  then show "y = z"
    using inv absent_key [OF k, of y] absent_key [OF k, of z]
    by (auto simp: keys_distinct_def split: if_splits)
qed

lemma put_inv:
  assumes inv: "bh_inv t" and k: "k \<notin> fst ` bh_entries t" and x: "\<not> occ t x"
    and sp: "\<And>y. y \<in> span (box_hash_resolve_index k) x \<Longrightarrow> y \<noteq> x \<Longrightarrow> occ t y"
  shows "bh_inv (t(x := \<lparr>bh_key = k, bh_value = Some v\<rparr>))"
proof -
  let ?t = "t(x := \<lparr>bh_key = k, bh_value = Some v\<rparr>)"
  have "keys_distinct ?t" using inv k by (simp add: bh_inv_def put_distinct)
  moreover have "reachable_at ?t y" if "occ ?t y" for y
    using that inv sp by (auto simp: bh_inv_def reachable_at_def home_upd split: if_splits)
  ultimately show ?thesis by (simp add: bh_inv_def)
qed


section \<open>Deletion\<close>

lemma occ_clear [simp]: "occ (clear_slot i t) y \<longleftrightarrow> y \<noteq> i \<and> occ t y"
  by (simp add: occ_def clear_slot_def)

lemma key_clear [simp]: "bh_key (clear_slot i t y) = bh_key (t y)"
  by (simp add: clear_slot_def)

lemma value_clear: "bh_value (clear_slot i t y) = (if y = i then None else bh_value (t y))"
  by (simp add: clear_slot_def)

lemma home_clear [simp]: "home (clear_slot i t) y = home t y"
  by (simp add: home_def)

lemma entries_clear:
  assumes kd: "keys_distinct t" and x: "bh_key (t x) = k" "bh_value (t x) = Some v"
  shows "bh_entries (clear_slot x t) = {p \<in> bh_entries t. fst p \<noteq> k}"
    and "bh_entries t = insert (k, v) (bh_entries (clear_slot x t))"
proof -
  have ox: "occ t x" using x by (simp add: occ_def)
  have one: "y = x" if "bh_key (t y) = k" "bh_value (t y) = Some w" for y w
    using kd ox that x unfolding keys_distinct_def occ_def by (metis option.distinct(1))
  have "(a, b) \<in> bh_entries (clear_slot x t) \<longleftrightarrow> (a, b) \<in> bh_entries t \<and> a \<noteq> k" for a b
  proof -
    have "(\<exists>y. bh_key (clear_slot x t y) = a \<and> bh_value (clear_slot x t y) = Some b) \<longleftrightarrow>
        (\<exists>y. y \<noteq> x \<and> bh_key (t y) = a \<and> bh_value (t y) = Some b)"
      unfolding key_clear value_clear by (intro arg_cong [where f = Ex] ext) auto
    also have "\<dots> \<longleftrightarrow> (\<exists>y. bh_key (t y) = a \<and> bh_value (t y) = Some b) \<and> a \<noteq> k"
    proof (intro iffI conjI)
      assume "\<exists>y. y \<noteq> x \<and> bh_key (t y) = a \<and> bh_value (t y) = Some b"
      then obtain y where y: "y \<noteq> x" "bh_key (t y) = a" "bh_value (t y) = Some b" by blast
      then show "\<exists>y. bh_key (t y) = a \<and> bh_value (t y) = Some b" by blast
      show "a \<noteq> k" using y one [of y b] by blast
    next
      assume "(\<exists>y. bh_key (t y) = a \<and> bh_value (t y) = Some b) \<and> a \<noteq> k"
      then obtain y where "bh_key (t y) = a" "bh_value (t y) = Some b" "a \<noteq> k" by blast
      then show "\<exists>y. y \<noteq> x \<and> bh_key (t y) = a \<and> bh_value (t y) = Some b" using x(1) by metis
    qed
    finally show ?thesis unfolding entries_iff .
  qed
  then show e: "bh_entries (clear_slot x t) = {p \<in> bh_entries t. fst p \<noteq> k}" by auto
  have kb: "(k, b) \<in> bh_entries t \<longleftrightarrow> b = v" for b
    using one x unfolding entries_iff by (metis option.inject)
  show "bh_entries t = insert (k, v) (bh_entries (clear_slot x t))"
  proof (rule set_eqI)
    fix p :: "u32 \<times> 'a"
    obtain a b where p: "p = (a, b)" by (cases p)
    show "p \<in> bh_entries t \<longleftrightarrow> p \<in> insert (k, v) (bh_entries (clear_slot x t))"
      unfolding e p using kb by (cases "a = k") auto
  qed
qed

text \<open>
  The state of the reinsertion loop \<open>s + 1\<close> slots after the deleted one, \<open>i\<close>: behind the
  loop every entry is reachable again, ahead of it an entry may have lost slots behind the loop.
  The empty slot \<open>e\<close> is ahead.
\<close>

definition rehash_inv :: "'b box_hash \<Rightarrow> u8 \<Rightarrow> nat \<Rightarrow> u8 \<Rightarrow> bool" where
  "rehash_inv t i s e \<longleftrightarrow> \<not> occ t e \<and> s < unat (e - i) \<and> keys_distinct t \<and>
     (\<forall>x. occ t x \<longrightarrow>
        (if unat (x - i) \<le> s then reachable_at t x
         else \<forall>y\<in>span (home t x) x. occ t y \<or> unat (y - i) \<le> s))"

lemma cross_ahead:
  assumes "y \<in> span a x" and "unat (y - i) \<le> s" and "unat (j - i) = Suc s" and "Suc s < unat (x - i)"
  shows "j \<in> span a x"
  using assms unat_u8_bound [of "a - i"] unat_u8_bound [of "x - i"]
  unfolding in_span_from [of _ a x i] by (auto split: if_splits)

lemma cross_wrap:
  assumes "j \<in> span a x" and "unat (x - i) \<le> s" and "unat (j - i) = Suc s" and "Suc s < unat (e - i)"
  shows "e \<in> span a x"
  using assms unat_u8_bound [of "a - i"] unat_u8_bound [of "e - i"]
  unfolding in_span_from [of _ a x i] by (auto split: if_splits)

lemma rehash_done:
  assumes inv: "rehash_inv t i s e" and j: "unat (j - i) = Suc s" and empty: "\<not> occ t j"
  shows "bh_inv t"
proof -
  have "reachable_at t x" if x: "occ t x" for x
  proof (cases "unat (x - i) \<le> s")
    case True
    then show ?thesis using inv x by (simp add: rehash_inv_def)
  next
    case False
    then have weak: "\<And>y. y \<in> span (home t x) x \<Longrightarrow> occ t y \<or> unat (y - i) \<le> s"
      using inv x by (simp add: rehash_inv_def)
    have "unat (x - i) \<noteq> Suc s"
    proof
      assume "unat (x - i) = Suc s"
      then have "x - i = j - i" using j by (simp add: word_unat_eq_iff)
      then show False using x empty by simp
    qed
    then have far: "Suc s < unat (x - i)" using False by simp
    have "occ t y" if y: "y \<in> span (home t x) x" for y
    proof (rule ccontr)
      assume "\<not> occ t y"
      then have "unat (y - i) \<le> s" using weak [OF y] by simp
      from cross_ahead [OF y this j far] have "j \<in> span (home t x) x" .
      then show False using weak [of j] empty j by simp
    qed
    then show ?thesis by (simp add: reachable_at_def)
  qed
  then show ?thesis using inv by (simp add: bh_inv_def rehash_inv_def)
qed

lemma rehash_step_inv:
  assumes inv: "rehash_inv t i s e" and j: "unat (j - i) = Suc s"
    and jk: "bh_key (t j) = k" and jv: "bh_value (t j) = Some v"
  shows "\<exists>t'. box_hash_insert k v (clear_slot j t) = Some t' \<and> rehash_inv t' i (Suc s) e \<and>
    bh_entries t' = bh_entries t"
proof -
  let ?t1 = "clear_slot j t"
  have oj: "occ t j" using jv by (simp add: occ_def)
  have e: "\<not> occ t e" and kd: "keys_distinct t" and se: "s < unat (e - i)"
    using inv by (simp_all add: rehash_inv_def)
  have "unat (e - i) \<noteq> Suc s"
  proof
    assume "unat (e - i) = Suc s"
    then have "e - i = j - i" using j by (simp add: word_unat_eq_iff)
    then show False using e oj by simp
  qed
  then have far: "Suc s < unat (e - i)" using se by simp
  have "\<not> occ ?t1 e" using e by simp
  then obtain x where ins: "box_hash_insert k v ?t1 = Some (?t1(x := \<lparr>bh_key = k, bh_value = Some v\<rparr>))"
    and x: "\<not> occ ?t1 x" and sp: "\<And>y. y \<in> span (box_hash_resolve_index k) x \<Longrightarrow> y \<noteq> x \<Longrightarrow> occ ?t1 y"
    by (rule insert_into [of ?t1 e k v]) blast
  let ?t2 = "?t1(x := \<lparr>bh_key = k, bh_value = Some v\<rparr>)"
  have h: "home t j = box_hash_resolve_index k" by (simp add: home_def jk)
  have weakj: "occ t y \<or> unat (y - i) \<le> s" if "y \<in> span (home t j) j" for y
    using inv oj j that by (simp add: rehash_inv_def)
  have xin: "x \<in> span (home t j) j"
  proof (rule ccontr)
    assume "x \<notin> span (home t j) j"
    then have "j \<in> span (home t j) x" "j \<noteq> x" by (auto simp: span_def)
    then show False using sp [of j] h by simp
  qed
  have xs: "unat (x - i) \<le> s" if "x \<noteq> j" using weakj [OF xin] x that by simp
  then have xs1: "unat (x - i) \<le> Suc s" using j by (cases "x = j") auto
  then have xe: "x \<noteq> e" using far by auto
  have nk: "k \<notin> fst ` bh_entries ?t1" using entries_clear(1) [OF kd jk jv] by auto
  have kd1: "keys_distinct ?t1" using kd by (simp add: keys_distinct_def)
  have ent: "bh_entries ?t2 = bh_entries t"
    using entries_put [OF x, of k v] entries_clear(2) [OF kd jk jv] by simp
  have occ2: "occ ?t2 y \<longleftrightarrow> y = x \<or> y \<noteq> j \<and> occ t y" for y by simp
  have home2: "home ?t2 y = (if y = x then box_hash_resolve_index k else home t y)" for y
    by (simp add: home_upd)
  have "if unat (z - i) \<le> Suc s then reachable_at ?t2 z
        else \<forall>y\<in>span (home ?t2 z) z. occ ?t2 y \<or> unat (y - i) \<le> Suc s" if z: "occ ?t2 z" for z
  proof (cases "z = x")
    case True
    have "reachable_at ?t2 x"
      unfolding reachable_at_def home2 using sp occ2 by auto
    then show ?thesis using True xs1 by simp
  next
    case False
    then have zt: "occ t z" "z \<noteq> j" using z occ2 by auto
    have zj: "unat (z - i) \<noteq> Suc s"
    proof
      assume "unat (z - i) = Suc s"
      then have "z - i = j - i" using j by (simp add: word_unat_eq_iff)
      then show False using zt by simp
    qed
    show ?thesis
    proof (cases "unat (z - i) \<le> s")
      case True
      have "\<forall>x. occ t x \<longrightarrow> (if unat (x - i) \<le> s then reachable_at t x
          else \<forall>y\<in>span (home t x) x. occ t y \<or> unat (y - i) \<le> s)"
        using inv unfolding rehash_inv_def by (elim conjE)
      from spec [OF this, of z] have "reachable_at t z" using zt True by simp
      then have r: "\<And>y. y \<in> span (home t z) z \<Longrightarrow> occ t y" by (simp add: reachable_at_def)
      have "j \<notin> span (home t z) z"
      proof
        assume "j \<in> span (home t z) z"
        from cross_wrap [OF this True j far] have "occ t e" by (rule r)
        then show False using e by simp
      qed
      then have "reachable_at ?t2 z"
        unfolding reachable_at_def home2 occ2 using r False by auto
      then show ?thesis using True by simp
    next
      case far: False
      then have w: "\<And>y. y \<in> span (home t z) z \<Longrightarrow> occ t y \<or> unat (y - i) \<le> s"
        using inv zt by (simp add: rehash_inv_def)
      have "occ ?t2 y \<or> unat (y - i) \<le> Suc s" if "y \<in> span (home t z) z" for y
        using w [OF that] j occ2 [of y] by auto
      then show ?thesis using far zj False unfolding home2 by auto
    qed
  qed
  then have all: "\<forall>z. occ ?t2 z \<longrightarrow> (if unat (z - i) \<le> Suc s then reachable_at ?t2 z
        else \<forall>y\<in>span (home ?t2 z) z. occ ?t2 y \<or> unat (y - i) \<le> Suc s)" by blast
  have e2: "\<not> occ ?t2 e" using xe e by simp
  have "rehash_inv ?t2 i (Suc s) e"
    unfolding rehash_inv_def
    by (intro conjI) (rule e2, rule far, rule put_distinct [OF kd1 nk], rule all)
  with ins ent show ?thesis by blast
qed

lemma rehash_ok:
  assumes "rehash_inv t i s e"
  shows "\<exists>t'. box_hash_rehash (i + of_nat (Suc s)) t = Some t' \<and> bh_inv t' \<and>
    bh_entries t' = bh_entries t \<and> \<not> occ t' e"
  using assms
proof (induction "unat (e - i) - s" arbitrary: t s rule: less_induct)
  case less
  define j where "j = i + of_nat (Suc s)"
  have se: "s < unat (e - i)" and e: "\<not> occ t e" using less.prems by (simp_all add: rehash_inv_def)
  then have "Suc s < 256" using unat_u8_bound [of "e - i"] by linarith
  then have "unat (of_nat (Suc s) :: u8) = Suc s" by (simp only: unat_of_nat) simp
  then have j: "unat (j - i) = Suc s" by (simp add: j_def)
  show ?case
  proof (cases "bh_value (t j)")
    case None
    then have "\<not> occ t j" by (simp add: occ_def)
    from rehash_done [OF less.prems j this] have "bh_inv t" .
    with None e show ?thesis unfolding j_def [symmetric] by (subst box_hash_rehash.simps) simp
  next
    case (Some v)
    from rehash_step_inv [OF less.prems j refl Some] obtain t2 where
      ins: "box_hash_insert (bh_key (t j)) v (clear_slot j t) = Some t2"
      and inv2: "rehash_inv t2 i (Suc s) e" and ent: "bh_entries t2 = bh_entries t" by blast
    have "unat (e - i) - Suc s < unat (e - i) - s" using se by linarith
    from less.hyps [OF this inv2] obtain t' where
      r: "box_hash_rehash (i + of_nat (Suc (Suc s))) t2 = Some t'" and i': "bh_inv t'"
      and e': "bh_entries t' = bh_entries t2" "\<not> occ t' e" by blast
    have j1: "i + of_nat (Suc (Suc s)) = j + 1" by (simp add: j_def algebra_simps)
    have "box_hash_rehash j t = box_hash_rehash (j + 1) t2"
      using Some ins by (subst box_hash_rehash.simps) (simp add: Let_def)
    also have "\<dots> = Some t'" using r unfolding j1 .
    finally show ?thesis using i' e' ent by (auto simp: j_def)
  qed
qed

lemma box_hash_remove_ok:
  assumes inv: "bh_inv t" and e: "\<not> occ t e"
  shows "\<exists>t'. box_hash_remove k t = Some t' \<and> bh_inv t' \<and>
    bh_entries t' = {p \<in> bh_entries t. fst p \<noteq> k} \<and> \<not> occ t' e"
proof (cases "k \<in> fst ` bh_entries t")
  case False
  then have "box_hash_remove k t = Some t"
    using search_absent(1) [OF False e] by (simp add: box_hash_remove_def)
  moreover have "{p \<in> bh_entries t. fst p \<noteq> k} = bh_entries t" using False by force
  ultimately show ?thesis using inv e by simp
next
  case True
  then obtain x v where x: "bh_key (t x) = k" "bh_value (t x) = Some v" by (auto simp: entries_iff)
  then have o: "occ t x" by (simp add: occ_def)
  have kd: "keys_distinct t" using inv by (simp add: bh_inv_def)
  have d0: "unat (y - x) \<le> 0 \<longleftrightarrow> y = x" for y by (simp add: unat_eq_0)
  have "e \<noteq> x" using e o by auto
  then have "0 < unat (e - x)" using d0 [of e] by linarith
  moreover have "keys_distinct (clear_slot x t)" using kd by (simp add: keys_distinct_def)
  moreover have "\<forall>z. occ (clear_slot x t) z \<longrightarrow>
      (if unat (z - x) \<le> 0 then reachable_at (clear_slot x t) z
       else \<forall>y\<in>span (home (clear_slot x t) z) z. occ (clear_slot x t) y \<or> unat (y - x) \<le> 0)"
    using inv unfolding d0 by (auto simp: bh_inv_def reachable_at_def)
  ultimately have "rehash_inv (clear_slot x t) x 0 e"
    using e unfolding rehash_inv_def by simp
  from rehash_ok [OF this] obtain t' where
    "box_hash_rehash (x + 1) (clear_slot x t) = Some t'" "bh_inv t'"
    "bh_entries t' = bh_entries (clear_slot x t)" "\<not> occ t' e" by auto
  then show ?thesis
    using search_present(1) [OF inv o x(1)] entries_clear(1) [OF kd x] by (simp add: box_hash_remove_def)
qed


section \<open>The contract\<close>

text \<open>
  What a client of the table relies on: \<open>ok t M\<close> says that the table \<open>t\<close> holds exactly the
  pairs \<open>M\<close> and still has room to stop a search.
\<close>

locale kv_table =
  fixes ok :: "'t \<Rightarrow> ('k \<times> 'v) set \<Rightarrow> bool"
    and cap :: nat
    and ins :: "'k \<Rightarrow> 'v \<Rightarrow> 't \<Rightarrow> 't option"
    and look :: "'k \<Rightarrow> 't \<Rightarrow> 'v option option"
    and del :: "'k \<Rightarrow> 't \<Rightarrow> 't option"
  assumes look_ok: "ok t M \<Longrightarrow> \<exists>r. look k t = Some r \<and> (\<forall>v. r = Some v \<longleftrightarrow> (k, v) \<in> M)"
    and ins_ok: "ok t M \<Longrightarrow> card M < cap \<Longrightarrow> k \<notin> fst ` M \<Longrightarrow>
      \<exists>t'. ins k v t = Some t' \<and> ok t' (insert (k, v) M)"
    and del_ok: "ok t M \<Longrightarrow> \<exists>t'. del k t = Some t' \<and> ok t' {p \<in> M. fst p \<noteq> k}"
begin

lemma look_eq:
  assumes "ok t M" and "ok t' M'" and "\<And>v. (k, v) \<in> M \<longleftrightarrow> (k, v) \<in> M'"
  shows "look k t = look k t'"
proof -
  from look_ok [OF assms(1), of k] look_ok [OF assms(2), of k] obtain r r' where
    "look k t = Some r" "\<forall>v. r = Some v \<longleftrightarrow> (k, v) \<in> M"
    "look k t' = Some r'" "\<forall>v. r' = Some v \<longleftrightarrow> (k, v) \<in> M'" by blast
  moreover have "r = r'" using calculation assms(3) by (cases r; cases r') auto
  ultimately show ?thesis by simp
qed

lemma look_after_insert:
  assumes "ok t M" and "card M < cap" and "k \<notin> fst ` M"
  shows "\<exists>t'. ins k v t = Some t' \<and> ok t' (insert (k, v) M) \<and> look k t' = Some (Some v) \<and>
    (\<forall>k'. k' \<noteq> k \<longrightarrow> look k' t' = look k' t)"
proof -
  from ins_ok [OF assms, of v] obtain t' where t': "ins k v t = Some t'" "ok t' (insert (k, v) M)" by blast
  from look_ok [OF t'(2), of k] have "look k t' = Some (Some v)" by fastforce
  moreover have "look k' t' = look k' t" if "k' \<noteq> k" for k'
    by (rule look_eq [OF t'(2) assms(1)]) (use that in simp)
  ultimately show ?thesis using t' by blast
qed

lemma look_after_delete:
  assumes "ok t M"
  shows "\<exists>t'. del k t = Some t' \<and> ok t' {p \<in> M. fst p \<noteq> k} \<and> look k t' = Some None \<and>
    (\<forall>k'. k' \<noteq> k \<longrightarrow> look k' t' = look k' t)"
proof -
  from del_ok [OF assms, of k] obtain t' where t': "del k t = Some t'" "ok t' {p \<in> M. fst p \<noteq> k}" by blast
  from look_ok [OF t'(2), of k] have "look k t' = Some None" by fastforce
  moreover have "look k' t' = look k' t" if "k' \<noteq> k" for k'
    by (rule look_eq [OF t'(2) assms]) (use that in simp)
  ultimately show ?thesis using t' by blast
qed

lemma insert_delete:
  assumes "ok t M" and "card M < cap" and "k \<notin> fst ` M"
  shows "\<exists>t' t''. ins k v t = Some t' \<and> del k t' = Some t'' \<and> ok t'' M \<and> (\<forall>k'. look k' t'' = look k' t)"
proof -
  from ins_ok [OF assms, of v] obtain t' where t': "ins k v t = Some t'" "ok t' (insert (k, v) M)" by blast
  from del_ok [OF t'(2), of k] obtain t'' where
    d: "del k t' = Some t''" "ok t'' {p \<in> insert (k, v) M. fst p \<noteq> k}" by blast
  have "{p \<in> insert (k, v) M. fst p \<noteq> k} = M" using assms(3) by force
  with d have "ok t'' M" by simp
  then show ?thesis using t' d look_eq [OF \<open>ok t'' M\<close> assms(1)] by blast
qed

end

definition bh_ok :: "'b box_hash \<Rightarrow> (u32 \<times> 'b) set \<Rightarrow> bool" where
  "bh_ok t M \<longleftrightarrow> bh_inv t \<and> (\<exists>e. \<not> occ t e) \<and> M = bh_entries t"

lemma entries_card:
  assumes "keys_distinct t"
  shows "card (bh_entries t) = card {x. occ t x}"
proof -
  have "bh_entries t = (\<lambda>x. (bh_key (t x), the (bh_value (t x)))) ` {x. occ t x}"
  proof (rule set_eqI)
    fix p :: "u32 \<times> 'a"
    obtain k v where p: "p = (k, v)" by (cases p)
    show "p \<in> bh_entries t \<longleftrightarrow> p \<in> (\<lambda>x. (bh_key (t x), the (bh_value (t x)))) ` {x. occ t x}"
      unfolding p entries_iff image_iff occ_def Bex_def mem_Collect_eq prod.inject
      by (metis option.collapse option.distinct(1) option.sel)
  qed
  moreover have "inj_on (\<lambda>x. (bh_key (t x), the (bh_value (t x)))) {x. occ t x}"
    using assms by (auto simp: inj_on_def keys_distinct_def)
  ultimately show ?thesis by (simp add: card_image)
qed

lemma room_left: "card {x. occ t x} < 256 \<Longrightarrow> \<exists>e. \<not> occ t e"
proof (rule ccontr)
  assume c: "card {x. occ t x} < 256" and "\<nexists>e. \<not> occ t e"
  then have "{x. occ t x} = UNIV" by auto
  then show False using c by (simp add: card_word)
qed

interpretation bh: kv_table bh_ok 255 box_hash_insert box_hash_lookup box_hash_remove
proof unfold_locales
  fix t :: "'b box_hash" and M k
  assume "bh_ok t M"
  then show "\<exists>r. box_hash_lookup k t = Some r \<and> (\<forall>v. (r = Some v) = ((k, v) \<in> M))"
    using box_hash_lookup_ok unfolding bh_ok_def by blast
next
  fix t :: "'b box_hash" and M k v
  assume ok: "bh_ok t M" and c: "card M < 255" and k: "k \<notin> fst ` M"
  then obtain e where e: "\<not> occ t e" and inv: "bh_inv t" and M: "M = bh_entries t"
    by (auto simp: bh_ok_def)
  obtain x where ins: "box_hash_insert k v t = Some (t(x := \<lparr>bh_key = k, bh_value = Some v\<rparr>))"
    and x: "\<not> occ t x" and sp: "\<And>y. y \<in> span (box_hash_resolve_index k) x \<Longrightarrow> y \<noteq> x \<Longrightarrow> occ t y"
    by (rule insert_into [OF e, of k v]) blast
  let ?t = "t(x := \<lparr>bh_key = k, bh_value = Some v\<rparr>)"
  have i2: "bh_inv ?t" using put_inv [OF inv _ x sp] k M by simp
  have e2: "bh_entries ?t = insert (k, v) M" unfolding M by (rule entries_put [OF x])
  have "card {y. occ ?t y} = card (insert (k, v) M)"
    using entries_card [of ?t] i2 e2 by (simp add: bh_inv_def)
  also have "\<dots> < 256" using c by (cases "finite M") (simp_all add: card_insert_if)
  finally have "\<exists>e. \<not> occ ?t e" by (rule room_left)
  with ins i2 e2 show "\<exists>t'. box_hash_insert k v t = Some t' \<and> bh_ok t' (insert (k, v) M)"
    unfolding bh_ok_def by blast
next
  fix t :: "'b box_hash" and M k
  assume "bh_ok t M"
  then show "\<exists>t'. box_hash_remove k t = Some t' \<and> bh_ok t' {p \<in> M. fst p \<noteq> k}"
    using box_hash_remove_ok unfolding bh_ok_def by blast
qed

section \<open>Properties\<close>

definition bh_empty :: "'b box_hash" where
  "bh_empty = (\<lambda>_. \<lparr>bh_key = 0, bh_value = None\<rparr>)"

lemma bh_empty_ok: "bh_ok bh_empty {}"
  by (auto simp: bh_ok_def bh_inv_def keys_distinct_def occ_def bh_empty_def bh_entries_def)

text \<open>Inserting a box under a fresh identifier while fewer than 255 are registered returns, the
  identifier then finds that box, and every other identifier finds what it found before.\<close>

theorem box_hash_insert_correct:
  assumes "bh_ok t M" and "card M < 255" and "k \<notin> fst ` M"
  shows "\<exists>t'. box_hash_insert k v t = Some t' \<and> bh_ok t' (insert (k, v) M) \<and>
    box_hash_lookup k t' = Some (Some v) \<and>
    (\<forall>k'. k' \<noteq> k \<longrightarrow> box_hash_lookup k' t' = box_hash_lookup k' t)"
  by (rule bh.look_after_insert [OF assms])

theorem box_hash_insert_correct_witness:
  "\<exists>t'. box_hash_insert 7 (True :: bool) bh_empty = Some t' \<and> bh_ok t' {(7, True)} \<and>
    box_hash_lookup 7 t' = Some (Some True)"
  using box_hash_insert_correct [OF bh_empty_ok, of 7 True] by auto

text \<open>C8: Removing an identifier, with the reinsertion of the rest of its probe chain, returns; the
  identifier is gone and every other one still finds its box.\<close>

theorem box_hash_remove_correct:
  assumes "bh_ok t M"
  shows "\<exists>t'. box_hash_remove k t = Some t' \<and> bh_ok t' {p \<in> M. fst p \<noteq> k} \<and>
    box_hash_lookup k t' = Some None \<and>
    (\<forall>k'. k' \<noteq> k \<longrightarrow> box_hash_lookup k' t' = box_hash_lookup k' t)"
  by (rule bh.look_after_delete [OF assms])

text \<open>Identifiers 1, 2 and 257 (which shares the home slot of 1) in one chain.\<close>

definition demo_chain :: "nat box_hash" where
  "demo_chain = bh_empty(177 := \<lparr>bh_key = 1, bh_value = Some 10\<rparr>, 178 := \<lparr>bh_key = 257, bh_value = Some 20\<rparr>)"

lemma demo_chain_ok: "bh_ok demo_chain {(1, 10), (257, 20)}"
proof -
  have h: "box_hash_resolve_index 1 = 177" "box_hash_resolve_index 257 = 177"
    by (simp_all add: box_hash_resolve_index_def)
  have o: "occ demo_chain x \<longleftrightarrow> x = 177 \<or> x = 178" for x
    by (simp add: demo_chain_def occ_def bh_empty_def)
  have k: "bh_key (demo_chain 177) = 1" "bh_key (demo_chain 178) = 257"
    by (simp_all add: demo_chain_def)
  have s1: "span 177 178 = {177 :: u8, 178}"
    using span_step [of 177 178] by (auto simp: span_def)
  have s2: "span 177 177 = {177 :: u8}" by (auto simp: span_def)
  have "reachable_at demo_chain 177" "reachable_at demo_chain 178"
    by (simp_all add: reachable_at_def home_def k h s1 s2 o)
  then have "bh_inv demo_chain"
    unfolding bh_inv_def keys_distinct_def o using k by auto
  moreover have "bh_entries demo_chain = {(1, 10), (257, 20)}"
  proof -
    have v: "bh_value (demo_chain x) = (if x = 177 then Some 10 else if x = 178 then Some 20 else None)" for x
      by (simp add: demo_chain_def bh_empty_def)
    have "(\<exists>x. bh_key (demo_chain x) = a \<and> bh_value (demo_chain x) = Some b) \<longleftrightarrow>
        bh_key (demo_chain 177) = a \<and> b = 10 \<or> bh_key (demo_chain 178) = a \<and> b = 20" for a b
    proof (intro iffI)
      assume "\<exists>x. bh_key (demo_chain x) = a \<and> bh_value (demo_chain x) = Some b"
      then obtain x where x: "bh_key (demo_chain x) = a" "bh_value (demo_chain x) = Some b" by blast
      then have "x = 177 \<or> x = 178" by (simp add: v split: if_splits)
      then show "bh_key (demo_chain 177) = a \<and> b = 10 \<or> bh_key (demo_chain 178) = a \<and> b = 20"
        using x v [of 177] v [of 178] by (elim disjE) simp_all
    next
      assume "bh_key (demo_chain 177) = a \<and> b = 10 \<or> bh_key (demo_chain 178) = a \<and> b = 20"
      then show "\<exists>x. bh_key (demo_chain x) = a \<and> bh_value (demo_chain x) = Some b"
        using v [of 177] v [of 178] by (elim disjE) (rule exI [of _ 177], simp, rule exI [of _ 178], simp)
    qed
    then have "(a, b) \<in> bh_entries demo_chain \<longleftrightarrow> (a, b) \<in> {(1, 10), (257, 20)}" for a b
      unfolding entries_iff k by auto
    then show ?thesis by (intro set_eqI) (metis surj_pair)
  qed
  moreover have "\<not> occ demo_chain 0" by (simp add: o)
  ultimately show ?thesis unfolding bh_ok_def by metis
qed

theorem box_hash_remove_correct_witness:
  "\<exists>t'. box_hash_remove 1 demo_chain = Some t' \<and> box_hash_lookup 1 t' = Some None"
  using box_hash_remove_correct [OF demo_chain_ok] by blast

text \<open>With all 256 slots taken, registering another box never returns.\<close>

theorem box_hash_full_hangs: "bh_value \<circ> t = Some \<circ> f \<Longrightarrow> box_hash_insert k v t = None"
proof -
  assume f: "bh_value \<circ> t = Some \<circ> f"
  have full: "bh_value (t x) = Some (f x)" for x using fun_cong [OF f, of x] by simp
  have "box_hash_insert_loop idx k v t = Some r \<Longrightarrow> False" for idx r
  proof -
    assume ret: "box_hash_insert_loop idx k v t = Some r"
    have "t = t \<longrightarrow> False"
    proof (rule box_hash_insert_loop.raw_induct [where P = "\<lambda>i k v u r. u = t \<longrightarrow> False", OF _ ret])
      fix find i k v u r
      assume "\<And>i k v u r. find i k v u = Some r \<Longrightarrow> u = t \<longrightarrow> False"
        and "(if bh_value (u i) = None then Some (u(i := \<lparr>bh_key = k, bh_value = Some v\<rparr>))
              else find (i + 1) k v u) = Some r"
      then show "u = t \<longrightarrow> False" using full by (auto split: if_splits)
    qed
    then show False by simp
  qed
  then show ?thesis unfolding box_hash_insert_def by (cases "box_hash_insert_loop (box_hash_resolve_index k) k v t") auto
qed

theorem box_hash_full_hangs_witness:
  "box_hash_insert 300 () (\<lambda>i. \<lparr>bh_key = ucast i, bh_value = Some ()\<rparr>) = None"
  by (rule box_hash_full_hangs [of _ "\<lambda>_. ()"]) (simp add: fun_eq_iff)

end
