(* ===== verification/Memory.thy ===== *)
theory Memory
  imports Prelude
begin

text \<open>
  Byte memory, and mem/utils.c: \<open>flop_memset\<close>, \<open>flop_memcmp\<close>, \<open>flop_memcpy\<close> and
  \<open>flop_memmove\<close> with the string instructions they are written with. Memory is a function from
  32-bit addresses to bytes; a pointer is an address, and the null pointer is 0.
\<close>

unbundle bit_operations_syntax

type_synonym mem = "u32 \<Rightarrow> u8"

section \<open>Words in memory\<close>

text \<open>Little-endian 32-bit loads and stores.\<close>

definition load32 :: "mem \<Rightarrow> u32 \<Rightarrow> u32" where
  "load32 m a = ucast (m a) OR push_bit 8 (ucast (m (a + 1))) OR
     push_bit 16 (ucast (m (a + 2))) OR push_bit 24 (ucast (m (a + 3)))"

definition store32 :: "mem \<Rightarrow> u32 \<Rightarrow> u32 \<Rightarrow> mem" where
  "store32 m a w = m(a := ucast w, a + 1 := ucast (drop_bit 8 w),
     a + 2 := ucast (drop_bit 16 w), a + 3 := ucast (drop_bit 24 w))"

lemma bytes_of_word:
  "(ucast (ucast w :: u8) :: u32) OR push_bit 8 (ucast (ucast (drop_bit 8 w) :: u8)) OR
   push_bit 16 (ucast (ucast (drop_bit 16 w) :: u8)) OR push_bit 24 (ucast (ucast (drop_bit 24 w) :: u8)) = w"
proof (rule bit_word_eqI)
  fix n assume n: "n < LENGTH(32)"
  then consider "n < 8" | "8 \<le> n" "n < 16" | "16 \<le> n" "n < 24" | "24 \<le> n" "n < 32" by fastforce
  then show "bit ((ucast (ucast w :: u8) :: u32) OR push_bit 8 (ucast (ucast (drop_bit 8 w) :: u8)) OR
      push_bit 16 (ucast (ucast (drop_bit 16 w) :: u8)) OR push_bit 24 (ucast (ucast (drop_bit 24 w) :: u8))) n = bit w n"
    by cases (auto simp: bit_simps)
qed

lemma addr_offsets: "(a :: u32) + 1 \<noteq> a" "a + 2 \<noteq> a" "a + 3 \<noteq> a" "a + 2 \<noteq> a + 1" "a + 3 \<noteq> a + 1" "a + 3 \<noteq> a + 2"
  by simp_all

lemma load32_store32 [simp]: "load32 (store32 m a w) a = w"
  using bytes_of_word [of w] by (simp add: load32_def store32_def)

lemma store32_other:
  "x \<noteq> a \<Longrightarrow> x \<noteq> a + 1 \<Longrightarrow> x \<noteq> a + 2 \<Longrightarrow> x \<noteq> a + 3 \<Longrightarrow> store32 m a w x = m x"
  by (simp add: store32_def)

text \<open>The same for 16 bits.\<close>

definition store16 :: "mem \<Rightarrow> u32 \<Rightarrow> u16 \<Rightarrow> mem" where
  "store16 m a w = m(a := ucast w, a + 1 := ucast (drop_bit 8 w))"

definition load16 :: "mem \<Rightarrow> u32 \<Rightarrow> u16" where
  "load16 m a = ucast (m a) OR push_bit 8 (ucast (m (a + 1)))"

lemma load16_store16 [simp]: "load16 (store16 m a w) a = w"
proof (rule bit_word_eqI)
  fix n assume n: "n < LENGTH(16)"
  then consider "n < 8" | "8 \<le> n" "n < 16" by fastforce
  then show "bit (load16 (store16 m a w) a) n = bit w n"
    by cases (auto simp: load16_def store16_def bit_simps)
qed

lemma store16_other: "x \<noteq> a \<Longrightarrow> x \<noteq> a + 1 \<Longrightarrow> store16 m a w x = m x"
  by (simp add: store16_def)

lemma load32_cong:
  "m' a = m a \<Longrightarrow> m' (a + 1) = m (a + 1) \<Longrightarrow> m' (a + 2) = m (a + 2) \<Longrightarrow> m' (a + 3) = m (a + 3) \<Longrightarrow>
   load32 m' a = load32 m a"
  by (simp add: load32_def)

section \<open>The string instructions\<close>

text \<open>\<open>rep stosb\<close>, \<open>rep movsb\<close> with the direction flag clear, and with it set.\<close>

fun rep_stosb :: "mem \<Rightarrow> u32 \<Rightarrow> u8 \<Rightarrow> nat \<Rightarrow> mem \<times> u32" where
  "rep_stosb m d v 0 = (m, d)"
| "rep_stosb m d v (Suc n) = rep_stosb (m(d := v)) (d + 1) v n"

fun rep_movsb_up :: "mem \<Rightarrow> u32 \<Rightarrow> u32 \<Rightarrow> nat \<Rightarrow> mem \<times> u32" where
  "rep_movsb_up m d s 0 = (m, d)"
| "rep_movsb_up m d s (Suc n) = rep_movsb_up (m(d := m s)) (d + 1) (s + 1) n"

fun rep_movsb_down :: "mem \<Rightarrow> u32 \<Rightarrow> u32 \<Rightarrow> nat \<Rightarrow> mem" where
  "rep_movsb_down m d s 0 = m"
| "rep_movsb_down m d s (Suc n) = rep_movsb_down (m(d := m s)) (d - 1) (s - 1) n"

section \<open>The functions\<close>

text \<open>
  The destination register is an in-out operand of the assembly, so \<open>flop_memset\<close> and
  \<open>flop_memcpy\<close> return it as the instruction left it.
\<close>

definition flop_memset :: "mem \<Rightarrow> u32 \<Rightarrow> u32 \<Rightarrow> u32 \<Rightarrow> mem \<times> u32" where
  "flop_memset m dest value sz = rep_stosb m dest (ucast value) (unat sz)"

fun memcmp_loop :: "mem \<Rightarrow> u32 \<Rightarrow> u32 \<Rightarrow> nat \<Rightarrow> int" where
  "memcmp_loop m p1 p2 0 = 0"
| "memcmp_loop m p1 p2 (Suc n) =
     (if m p1 \<noteq> m p2 then uint (m p1) - uint (m p2) else memcmp_loop m (p1 + 1) (p2 + 1) n)"

definition flop_memcmp :: "mem \<Rightarrow> u32 \<Rightarrow> u32 \<Rightarrow> u32 \<Rightarrow> int" where
  "flop_memcmp m ptr1 ptr2 num = (if ptr1 = 0 \<or> ptr2 = 0 then -1 else memcmp_loop m ptr1 ptr2 (unat num))"

definition flop_memcpy :: "mem \<Rightarrow> u32 \<Rightarrow> u32 \<Rightarrow> u32 \<Rightarrow> mem \<times> u32" where
  "flop_memcpy m dest src n = (if dest = 0 \<or> src = 0 then (m, 0) else rep_movsb_up m dest src (unat n))"

definition flop_memmove :: "mem \<Rightarrow> u32 \<Rightarrow> u32 \<Rightarrow> u32 \<Rightarrow> mem \<times> u32" where
  "flop_memmove m dest src n =
     (if dest = 0 \<or> src = 0 then (m, 0)
      else if dest < src then flop_memcpy m dest src n
      else (rep_movsb_down m (dest + n - 1) (src + n - 1) (unat n), dest))"

section \<open>What they do\<close>

text \<open>The bytes of a block of \<open>n\<close> bytes at \<open>a\<close>, and the addresses it covers.\<close>

definition bytes_at :: "mem \<Rightarrow> u32 \<Rightarrow> nat \<Rightarrow> u8 list" where
  "bytes_at m a n = map (\<lambda>i. m (a + of_nat i)) [0..<n]"

definition block :: "u32 \<Rightarrow> nat \<Rightarrow> u32 set" where
  "block a n = {a + of_nat i | i. i < n}"

lemma of_nat_u32_inj: "i < 4294967296 \<Longrightarrow> j < 4294967296 \<Longrightarrow> (of_nat i :: u32) = of_nat j \<longleftrightarrow> i = j"
  by (simp add: word_of_nat_eq_iff take_bit_nat_eq_self)

lemma block_0 [simp]: "block a 0 = {}"
  by (simp add: block_def)

lemma block_Suc: "block a (Suc n) = insert a (block (a + 1) n)"
proof (rule set_eqI)
  fix x
  have "x \<in> block a (Suc n) \<longleftrightarrow> (\<exists>i<Suc n. x = a + of_nat i)" by (auto simp: block_def)
  also have "\<dots> \<longleftrightarrow> x = a \<or> (\<exists>i<n. x = a + of_nat (Suc i))" by (auto simp: less_Suc_eq_0_disj)
  also have "\<dots> \<longleftrightarrow> x \<in> insert a (block (a + 1) n)" by (auto simp: block_def algebra_simps)
  finally show "x \<in> block a (Suc n) \<longleftrightarrow> x \<in> insert a (block (a + 1) n)" .
qed

lemma in_block_iff: "n \<le> 4294967296 \<Longrightarrow> x \<in> block a n \<longleftrightarrow> unat (x - a) < n"
proof
  assume n: "n \<le> 4294967296" and "x \<in> block a n"
  then obtain i where i: "i < n" "x = a + of_nat i" by (auto simp: block_def)
  then have "unat (x - a) = i" using n by (simp add: unat_of_nat take_bit_nat_eq_self)
  then show "unat (x - a) < n" using i by simp
next
  assume "unat (x - a) < n"
  moreover have "x = a + of_nat (unat (x - a))" by simp
  ultimately show "x \<in> block a n" unfolding block_def by blast
qed

lemma notin_own_tail: "n \<le> 4294967295 \<Longrightarrow> a \<notin> block (a + 1) n"
proof -
  have "a - (a + 1) = (4294967295 :: u32)" by simp
  then have "unat (a - (a + 1)) = unat (4294967295 :: u32)" by (simp only:)
  then have "unat (a - (a + 1)) = 4294967295" by simp
  then show "n \<le> 4294967295 \<Longrightarrow> a \<notin> block (a + 1) n" by (simp add: in_block_iff)
qed

lemma rep_stosb_fst: "fst (rep_stosb m d v n) x = (if x \<in> block d n then v else m x)"
proof (induction n arbitrary: m d)
  case (Suc n)
  show ?case unfolding rep_stosb.simps block_Suc Suc [of "m(d := v)" "d + 1"] by simp
qed simp

lemma rep_stosb_snd: "snd (rep_stosb m d v n) = d + of_nat n"
proof (induction n arbitrary: m d)
  case (Suc n)
  show ?case unfolding rep_stosb.simps Suc [of "m(d := v)" "d + 1"] by simp
qed simp

lemma rep_movsb_up_snd: "snd (rep_movsb_up m d s n) = d + of_nat n"
proof (induction n arbitrary: m d s)
  case (Suc n)
  show ?case unfolding rep_movsb_up.simps Suc [of "m(d := m s)" "d + 1" "s + 1"] by simp
qed simp

text \<open>An ascending copy is right when no byte is overwritten before it is read.\<close>

lemma rep_movsb_up_fst:
  assumes "n \<le> 4294967296" and "\<And>i j. i < n \<Longrightarrow> j < i \<Longrightarrow> s + of_nat i \<noteq> d + of_nat j"
  shows "fst (rep_movsb_up m d s n) x = (if x \<in> block d n then m (s + (x - d)) else m x)"
  using assms
proof (induction n arbitrary: m d s)
  case (Suc n)
  have "s + 1 + of_nat i \<noteq> d + 1 + of_nat j" if "i < n" "j < i" for i j
    using Suc.prems(2) [of "Suc i" "Suc j"] that by (simp add: algebra_simps)
  with Suc have IH: "fst (rep_movsb_up (m(d := m s)) (d + 1) (s + 1) n) x =
      (if x \<in> block (d + 1) n then (m(d := m s)) (s + 1 + (x - (d + 1))) else (m(d := m s)) x)" by simp
  have nd: "d \<notin> block (d + 1) n" using Suc.prems(1) by (intro notin_own_tail) simp
  have "s + (x - d) \<noteq> d" if "x \<in> block (d + 1) n"
  proof -
    from that obtain i where i: "i < n" "x = d + 1 + of_nat i" by (auto simp: block_def)
    then have "s + (x - d) = s + of_nat (Suc i)" by simp
    then show ?thesis using Suc.prems(2) [of "Suc i" 0] i by simp
  qed
  then show ?case using IH nd by (auto simp: block_Suc algebra_simps)
qed simp

lemma bytes_at_block:
  assumes "n \<le> 4294967296" and "\<And>x. x \<in> block d n \<Longrightarrow> m' x = m (s + (x - d))"
  shows "bytes_at m' d n = bytes_at m s n"
proof -
  have "m' (d + of_nat i) = m (s + of_nat i)" if "i < n" for i
    using assms(2) [of "d + of_nat i"] that by (auto simp: block_def)
  then show ?thesis by (simp add: bytes_at_def)
qed

text \<open>A descending copy, which starts at the last byte.\<close>

lemma rep_movsb_down_eq:
  assumes "n \<le> 4294967296" and "\<And>i j. i < n \<Longrightarrow> j < i \<Longrightarrow> s + of_nat j \<noteq> d + of_nat i"
  shows "rep_movsb_down m (d + of_nat n - 1) (s + of_nat n - 1) n x =
    (if x \<in> block d n then m (s + (x - d)) else m x)"
  using assms
proof (induction n arbitrary: m)
  case (Suc n)
  let ?m = "m(d + of_nat n := m (s + of_nat n))"
  have IH: "rep_movsb_down ?m (d + of_nat n - 1) (s + of_nat n - 1) n x =
      (if x \<in> block d n then ?m (s + (x - d)) else ?m x)"
    using Suc by simp
  have nb: "d + of_nat n \<notin> block d n"
    using Suc.prems(1) by (simp add: in_block_iff unat_of_nat take_bit_nat_eq_self)
  have "s + (x - d) \<noteq> d + of_nat n" if "x \<in> block d n"
  proof -
    from that obtain i where "i < n" "x = d + of_nat i" by (auto simp: block_def)
    then show ?thesis using Suc.prems(2) [of n i] by simp
  qed
  moreover have "x \<in> block d (Suc n) \<longleftrightarrow> x \<in> block d n \<or> x = d + of_nat n"
    unfolding block_def by (auto simp: less_Suc_eq)
  ultimately show ?case using IH nb by auto
qed simp

section \<open>Properties\<close>

text \<open>\<open>flop_memmove\<close> copies between blocks that do not wrap around the end of memory,
  however they overlap: the destination then holds what the source held, and nothing else
  changes.\<close>

theorem flop_memmove_correct:
  assumes "dest \<noteq> 0" and "src \<noteq> 0"
    and "unat dest + unat n \<le> 4294967296" and "unat src + unat n \<le> 4294967296"
  shows "bytes_at (fst (flop_memmove m dest src n)) dest (unat n) = bytes_at m src (unat n) \<and>
    (\<forall>x. x \<notin> block dest (unat n) \<longrightarrow> fst (flop_memmove m dest src n) x = m x)"
proof -
  let ?n = "unat n"
  have n: "?n \<le> 4294967296" by (simp add: less_imp_le)
  have spec: "fst (flop_memmove m dest src n) x = (if x \<in> block dest ?n then m (src + (x - dest)) else m x)" for x
  proof (cases "dest < src")
    case True
    have "src + of_nat i \<noteq> dest + of_nat j" if "i < ?n" "j < i" for i j
    proof -
      have "unat (src + of_nat i) = unat src + i" "unat (dest + of_nat j) = unat dest + j"
        using that assms(3,4) by (simp_all add: unat_word_ariths unat_of_nat)
      then show ?thesis using True that by (auto simp: word_less_nat_alt)
    qed
    then show ?thesis
      using True assms(1,2) rep_movsb_up_fst [OF n] by (simp add: flop_memmove_def flop_memcpy_def)
  next
    case False
    have "src + of_nat j \<noteq> dest + of_nat i" if "i < ?n" "j < i" for i j
    proof -
      have "unat (dest + of_nat i) = unat dest + i" "unat (src + of_nat j) = unat src + j"
        using that assms(3,4) by (simp_all add: unat_word_ariths unat_of_nat)
      then show ?thesis using False that by (auto simp: word_less_nat_alt)
    qed
    then show ?thesis
      using False assms(1,2) rep_movsb_down_eq [OF n, of src dest m x] by (simp add: flop_memmove_def)
  qed
  have "bytes_at (fst (flop_memmove m dest src n)) dest ?n = bytes_at m src ?n"
    by (rule bytes_at_block [OF n]) (simp add: spec)
  then show ?thesis by (simp add: spec)
qed

theorem flop_memmove_correct_witness:
  "bytes_at (fst (flop_memmove ucast 0x1002 0x1000 8)) 0x1002 (unat (8 :: u32)) = bytes_at ucast 0x1000 (unat (8 :: u32))"
  by (rule flop_memmove_correct [THEN conjunct1]) simp_all

text \<open>\<open>flop_memset\<close> fills exactly the block with the low byte of the value; but what it
  returns is not the block, as the C function of that name does, but the address behind it, because
  the destination register is an output of the assembly.\<close>

theorem flop_memset_returns_end:
  "fst (flop_memset m dest value sz) = (\<lambda>x. if x \<in> block dest (unat sz) then ucast value else m x) \<and>
    snd (flop_memset m dest value sz) = dest + sz"
  by (rule conjI, rule ext) (simp_all add: flop_memset_def rep_stosb_fst rep_stosb_snd)

end
