(* ===== verification/Heap.thy ===== *)
theory Heap
  imports Memory BoxHash PmmProps
begin

text \<open>
  mem/alloc.c: the kernel heap. A box is one page: a header of 28 bytes, a bitmap of 16 bytes and
  123 data blocks of 32 bytes. The header is a record, kept by the address of the box; the bitmap,
  the object headers and the user data are bytes of memory. Each object is preceded by an
  \<open>object_t\<close>: the address of its box and, four bytes on, its size.
\<close>

unbundle bit_operations_syntax

section \<open>State\<close>

abbreviation BLOCK_SIZE :: u32 where "BLOCK_SIZE \<equiv> 32"
abbreviation OBJECT_ALIGN :: u32 where "OBJECT_ALIGN \<equiv> 4"

text \<open>\<open>sizeof(box_t)\<close> is 28, so \<open>BLOCKS_PER_BOX\<close> is \<open>(4096 - 28) / 33\<close>.\<close>

definition SIZEOF_BOX :: u32 where "SIZEOF_BOX = 28"
definition BLOCKS_PER_BOX :: nat where "BLOCKS_PER_BOX = 123"

record box_t =
  bx_next :: u32
  bx_page :: u32
  bx_data :: u32
  bx_map :: u32
  bx_total :: nat
  bx_lock :: spinlock_t
  bx_id :: u32

record heap =
  hp_mem :: mem
  hp_box :: "u32 \<Rightarrow> box_t"
  hp_boxes :: u32
  hp_hash :: "u32 box_hash"
  hp_next_id :: u32
  hp_initialized :: bool
  hp_lock :: spinlock_t
  hp_pmm :: buddy_allocator

definition upd_box :: "u32 \<Rightarrow> (box_t \<Rightarrow> box_t) \<Rightarrow> heap \<Rightarrow> heap" where
  "upd_box b f h = h\<lparr>hp_box := (hp_box h)(b := f (hp_box h b))\<rparr>"

text \<open>A pointer to a box, with null as \<open>None\<close>, and the links of the list of boxes.\<close>

definition box_ptr :: "u32 \<Rightarrow> u32 option" where
  "box_ptr p = (if p = 0 then None else Some p)"

abbreviation box_next :: "heap \<Rightarrow> u32 \<Rightarrow> u32 option" where
  "box_next h \<equiv> \<lambda>b. box_ptr (bx_next (hp_box h b))"

section \<open>Boxes\<close>

definition box_init :: "heap \<Rightarrow> u32 \<Rightarrow> u32 \<Rightarrow> heap" where
  "box_init h box page =
     (let h = upd_box box (\<lambda>x. x\<lparr>bx_lock := spinlock_init (bx_lock x), bx_page := page, bx_total := BLOCKS_PER_BOX,
                bx_map := page + SIZEOF_BOX,
                bx_data := page + SIZEOF_BOX + of_nat ((BLOCKS_PER_BOX + 7) div 8)\<rparr>) h
      in h\<lparr>hp_mem := fst (flop_memset (hp_mem h) (bx_map (hp_box h box)) 0 (of_nat ((BLOCKS_PER_BOX + 7) div 8)))\<rparr>)"

definition heap_box_register :: "heap \<Rightarrow> u32 \<Rightarrow> heap option" where
  "heap_box_register h box = do {
     l \<leftarrow> lock_acquire (hp_lock h);
     let h = upd_box box (\<lambda>x. x\<lparr>bx_id := hp_next_id h, bx_next := hp_boxes h\<rparr>)
               (h\<lparr>hp_lock := l, hp_next_id := hp_next_id h + 1\<rparr>);
     let h = h\<lparr>hp_boxes := box\<rparr>;
     t \<leftarrow> box_hash_insert (bx_id (hp_box h box)) box (hp_hash h);
     Some (h\<lparr>hp_hash := t, hp_lock := lock_release l\<rparr>)
   }"

definition heap_create_box :: "heap \<Rightarrow> (u32 \<times> heap) option" where
  "heap_create_box h = do {
     (page, p) \<leftarrow> pmm_alloc_page (hp_pmm h);
     let h = h\<lparr>hp_pmm := p\<rparr>;
     (case page of
        None \<Rightarrow> Some (0, h)
      | Some pg \<Rightarrow> do {
          h \<leftarrow> heap_box_register (box_init h pg pg) pg;
          Some (pg, h)
        })
   }"

section \<open>The bitmap\<close>

definition map_bit :: "mem \<Rightarrow> u32 \<Rightarrow> nat \<Rightarrow> bool" where
  "map_bit m mp i \<longleftrightarrow> m (mp + of_nat (i div 8)) AND push_bit (i mod 8) 1 \<noteq> 0"

text \<open>The search for a run of free blocks; the C result -1 is \<open>None\<close>.\<close>

function heap_map_find_loop ::
  "mem \<Rightarrow> u32 \<Rightarrow> nat \<Rightarrow> nat \<Rightarrow> nat \<Rightarrow> nat \<Rightarrow> nat option \<Rightarrow> nat option" where
  "heap_map_find_loop m mp tot needed i run start =
     (if i < tot then
        (if \<not> map_bit m mp i then
           let start = (if run = 0 then Some i else start); run = run + 1 in
           if run \<ge> needed then start else heap_map_find_loop m mp tot needed (i + 1) run start
         else heap_map_find_loop m mp tot needed (i + 1) 0 None)
      else None)"
  by pat_completeness auto
termination
  by (relation "measure (\<lambda>(m, mp, tot, needed, i, run, start). tot - i)") auto

declare heap_map_find_loop.simps [simp del]

definition heap_map_find_free :: "mem \<Rightarrow> u32 \<Rightarrow> nat \<Rightarrow> nat \<Rightarrow> nat option" where
  "heap_map_find_free m mp tot needed = heap_map_find_loop m mp tot needed 0 0 None"

fun heap_map_set :: "mem \<Rightarrow> u32 \<Rightarrow> nat \<Rightarrow> nat \<Rightarrow> bool \<Rightarrow> mem" where
  "heap_map_set m mp start 0 used = m"
| "heap_map_set m mp start (Suc count) used =
     (let byte = mp + of_nat (start div 8); bit = push_bit (start mod 8) 1 in
      heap_map_set (m(byte := (if used then m byte OR bit else m byte AND NOT bit))) mp (Suc start) count used)"

definition heap_box_is_empty :: "heap \<Rightarrow> u32 \<Rightarrow> bool" where
  "heap_box_is_empty h box =
     list_all (\<lambda>i. hp_mem h (bx_map (hp_box h box) + of_nat i) = 0) [0..<(bx_total (hp_box h box) + 7) div 8]"

section \<open>Allocation inside a box\<close>

definition blocks_needed :: "u32 \<Rightarrow> nat" where
  "blocks_needed sz = unat ((sz + OBJECT_ALIGN + BLOCK_SIZE - 1) div BLOCK_SIZE)"

definition heap_box_alloc :: "heap \<Rightarrow> u32 \<Rightarrow> u32 \<Rightarrow> (u32 \<times> heap) option" where
  "heap_box_alloc h box sz = do {
     l \<leftarrow> lock_acquire (bx_lock (hp_box h box));
     let b = hp_box h box;
     let needed = blocks_needed sz;
     (case heap_map_find_free (hp_mem h) (bx_map b) (bx_total b) needed of
        None \<Rightarrow> Some (0, upd_box box (\<lambda>x. x\<lparr>bx_lock := lock_release l\<rparr>) h)
      | Some start \<Rightarrow>
          let m = heap_map_set (hp_mem h) (bx_map b) start needed True;
              obj = bx_data b + of_nat start * BLOCK_SIZE;
              m = store32 m obj box;
              m = store32 m (obj + 4) sz
          in Some (obj + OBJECT_ALIGN, upd_box box (\<lambda>x. x\<lparr>bx_lock := lock_release l\<rparr>) (h\<lparr>hp_mem := m\<rparr>)))
   }"

definition heap_fetch_block_index :: "heap \<Rightarrow> u32 \<Rightarrow> u32 \<Rightarrow> nat option" where
  "heap_fetch_block_index h box p =
     (let base = bx_data (hp_box h box) in
      if p < base then None
      else let diff = p - base in
        if diff mod BLOCK_SIZE \<noteq> 0 then None
        else let idx = unat (diff div BLOCK_SIZE) in
          if idx < bx_total (hp_box h box) then Some idx else None)"

text \<open>Taking an empty box off the list and out of the table, and giving its page back.\<close>

definition unlink_box :: "heap \<Rightarrow> u32 \<Rightarrow> heap option" where
  "unlink_box h box = do {
     (prev, cur) \<leftarrow> ll_walk (box_next h) box None (box_ptr (hp_boxes h));
     Some (if cur = Some box then
             (case prev of
                None \<Rightarrow> h\<lparr>hp_boxes := bx_next (hp_box h box)\<rparr>
              | Some p \<Rightarrow> upd_box p (\<lambda>x. x\<lparr>bx_next := bx_next (hp_box h box)\<rparr>) h)
           else h)
   }"

definition heap_box_free :: "heap \<Rightarrow> u32 \<Rightarrow> heap option" where
  "heap_box_free h box =
     (if box = 0 then Some h
      else do {
        l \<leftarrow> lock_acquire (bx_lock (hp_box h box));
        let h = upd_box box (\<lambda>x. x\<lparr>bx_lock := lock_release l\<rparr>) h;
        if \<not> heap_box_is_empty h box then Some h
        else do {
          g \<leftarrow> lock_acquire (hp_lock h);
          h \<leftarrow> unlink_box (h\<lparr>hp_lock := g\<rparr>) box;
          t \<leftarrow> box_hash_remove (bx_id (hp_box h box)) (hp_hash h);
          let h = h\<lparr>hp_hash := t, hp_lock := lock_release g\<rparr>;
          p \<leftarrow> pmm_free_page (hp_pmm h) (bx_page (hp_box h box));
          Some (h\<lparr>hp_pmm := p\<rparr>)
        }
      })"

section \<open>The interface\<close>

definition heap_init :: "heap \<Rightarrow> heap option" where
  "heap_init h =
     (if hp_initialized h then Some h
      else do {
        (b, h) \<leftarrow> heap_create_box (h\<lparr>hp_lock := spinlock_init (hp_lock h), hp_boxes := 0\<rparr>);
        Some (if b = 0 then h else h\<lparr>hp_initialized := True\<rparr>)
      })"

text \<open>The walk over the boxes: the first one that can serve the request.\<close>

partial_function (option) heap_box_iterate_loop :: "heap \<Rightarrow> u32 option \<Rightarrow> u32 \<Rightarrow> (u32 \<times> heap) option" where
  "heap_box_iterate_loop h cur sz =
     (case cur of
        None \<Rightarrow> Some (0, h)
      | Some b \<Rightarrow> do {
          (r, h) \<leftarrow> heap_box_alloc h b sz;
          if r \<noteq> 0 then Some (r, h) else heap_box_iterate_loop h (box_next h b) sz
        })"

definition heap_box_iterate :: "heap \<Rightarrow> u32 \<Rightarrow> (u32 \<times> heap) option" where
  "heap_box_iterate h sz = do {
     g \<leftarrow> lock_acquire (hp_lock h);
     (r, h) \<leftarrow> heap_box_iterate_loop (h\<lparr>hp_lock := g\<rparr>) (box_ptr (hp_boxes h)) sz;
     Some (r, h\<lparr>hp_lock := lock_release (hp_lock h)\<rparr>)
   }"

definition kmalloc :: "heap \<Rightarrow> u32 \<Rightarrow> (u32 \<times> heap) option" where
  "kmalloc h sz =
     (if sz = 0 then Some (0, h)
      else if sz > PAGE_SIZE then
        let pages = (sz + OBJECT_ALIGN + PAGE_SIZE - 1) div PAGE_SIZE in
        do {
          (mem, p) \<leftarrow> pmm_alloc_pages (hp_pmm h) 0 pages;
          let h = h\<lparr>hp_pmm := p\<rparr>;
          (case mem of
             None \<Rightarrow> Some (0, h)
           | Some obj \<Rightarrow>
               let m = store32 (hp_mem h) obj 0; m = store32 m (obj + 4) sz in
               Some (obj + OBJECT_ALIGN, h\<lparr>hp_mem := m\<rparr>))
        }
      else do {
        h \<leftarrow> (if \<not> hp_initialized h then heap_init h else Some h);
        (r, h) \<leftarrow> heap_box_iterate h sz;
        if r \<noteq> 0 then Some (r, h)
        else do {
          (b, h) \<leftarrow> heap_create_box h;
          if b = 0 then Some (0, h) else heap_box_alloc h b sz
        }
      })"

text \<open>The size argument of \<open>kfree\<close> is not used.\<close>

definition kfree :: "heap \<Rightarrow> u32 \<Rightarrow> u32 \<Rightarrow> heap option" where
  "kfree h ptr sz =
     (if ptr = 0 then Some h
      else
        let obj = ptr - OBJECT_ALIGN;
            box = load32 (hp_mem h) obj;
            osize = load32 (hp_mem h) (obj + 4)
        in if box = 0 then do {
             let pages = (osize + OBJECT_ALIGN + PAGE_SIZE - 1) div PAGE_SIZE;
             p \<leftarrow> pmm_free_pages (hp_pmm h) obj 0 pages;
             Some (h\<lparr>hp_pmm := p\<rparr>)
           }
           else
             (case heap_fetch_block_index h box obj of
                None \<Rightarrow> Some h
              | Some idx \<Rightarrow>
                  let h = h\<lparr>hp_mem := heap_map_set (hp_mem h) (bx_map (hp_box h box)) idx (blocks_needed osize) False\<rparr>
                  in if heap_box_is_empty h box then heap_box_free h box else Some h))"

definition kcalloc :: "heap \<Rightarrow> u32 \<Rightarrow> u32 \<Rightarrow> (u32 \<times> heap) option" where
  "kcalloc h n s = do {
     let t = n * s;
     (p, h) \<leftarrow> kmalloc h t;
     Some (p, if p \<noteq> 0 then h\<lparr>hp_mem := fst (flop_memset (hp_mem h) p 0 t)\<rparr> else h)
   }"

definition krealloc :: "heap \<Rightarrow> u32 \<Rightarrow> u32 \<Rightarrow> u32 \<Rightarrow> (u32 \<times> heap) option" where
  "krealloc h ptr new_size old_size =
     (if ptr = 0 then kmalloc h new_size
      else if new_size = 0 then do { h \<leftarrow> kfree h ptr old_size; Some (0, h) }
      else do {
        let old = ptr - OBJECT_ALIGN;
        (n, h) \<leftarrow> kmalloc h new_size;
        if n = 0 then Some (0, h)
        else do {
          let osize = load32 (hp_mem h) (old + 4);
          let copy = (if osize < new_size then osize else new_size);
          let h = h\<lparr>hp_mem := fst (flop_memcpy (hp_mem h) n ptr copy)\<rparr>;
          h \<leftarrow> kfree h ptr old_size;
          Some (n, h)
        }
      })"

section \<open>Facts about the bitmap\<close>

lemma map_bit_eq: "map_bit m mp i \<longleftrightarrow> bit (m (mp + of_nat (i div 8))) (i mod 8)"
proof -
  have "m (mp + of_nat (i div 8)) AND push_bit (i mod 8) 1 =
      (if bit (m (mp + of_nat (i div 8))) (i mod 8) then push_bit (i mod 8) 1 else 0)"
    by (rule bit_word_eqI) (auto simp: bit_simps)
  moreover have "push_bit (i mod 8) 1 \<noteq> (0 :: u8)"
  proof -
    have "bit (push_bit (i mod 8) 1 :: u8) (i mod 8)" by (simp add: bit_simps)
    then show ?thesis by (metis bit_0_eq bot_apply bot_bool_def)
  qed
  ultimately show ?thesis unfolding map_bit_def by simp
qed

text \<open>The search returns the first run of free blocks that is long enough.\<close>

definition free_run :: "mem \<Rightarrow> u32 \<Rightarrow> nat \<Rightarrow> nat \<Rightarrow> nat \<Rightarrow> bool" where
  "free_run m mp tot needed s \<longleftrightarrow> s + needed \<le> tot \<and> (\<forall>j. s \<le> j \<and> j < s + needed \<longrightarrow> \<not> map_bit m mp j)"

lemma find_loop_spec:
  assumes "needed > 0" and "run < needed" and "run \<le> i" and "i \<le> tot"
    and "run > 0 \<Longrightarrow> start = Some (i - run)" and "\<And>j. i - run \<le> j \<Longrightarrow> j < i \<Longrightarrow> \<not> map_bit m mp j"
    and "\<And>s. s < i - run \<Longrightarrow> \<not> free_run m mp tot needed s"
  shows "case heap_map_find_loop m mp tot needed i run start of
      None \<Rightarrow> \<forall>s. \<not> free_run m mp tot needed s
    | Some s \<Rightarrow> free_run m mp tot needed s \<and> (\<forall>u. u < s \<longrightarrow> \<not> free_run m mp tot needed u)"
  using assms
proof (induction m mp tot needed i run start rule: heap_map_find_loop.induct)
  case (1 m mp tot needed i run start)
  show ?case
  proof (cases "i < tot")
    case False
    have "\<not> free_run m mp tot needed s" for s
    proof (cases "s < i - run")
      case True then show ?thesis using 1 by blast
    next
      case s: False
      then show ?thesis using 1 False by (auto simp: free_run_def)
    qed
    then show ?thesis using False by (simp add: heap_map_find_loop.simps)
  next
    case lt: True
    show ?thesis
    proof (cases "map_bit m mp i")
      case True
      have "\<not> free_run m mp tot needed s" if "s < i + 1" for s
      proof (cases "s < i - run")
        case True then show ?thesis using 1 by blast
      next
        case False
        then have "s \<le> i \<and> i < s + needed" using that 1 by simp
        then show ?thesis using True by (auto simp: free_run_def)
      qed
      then have "case heap_map_find_loop m mp tot needed (i + 1) 0 None of
          None \<Rightarrow> \<forall>s. \<not> free_run m mp tot needed s
        | Some s \<Rightarrow> free_run m mp tot needed s \<and> (\<forall>u. u < s \<longrightarrow> \<not> free_run m mp tot needed u)"
        using 1 lt True by (intro "1.IH"(2)) auto
      then show ?thesis using lt True by (simp add: heap_map_find_loop.simps [of m mp tot needed i])
    next
      case False
      define st where "st = (if run = 0 then Some i else start)"
      have st: "st = Some (i - run)" using 1 by (auto simp: st_def)
      have clear: "\<not> map_bit m mp j" if "i - run \<le> j" "j < i + 1" for j
        using 1 False that by (cases "j = i") auto
      show ?thesis
      proof (cases "run + 1 \<ge> needed")
        case True
        then have "needed = run + 1" using 1 by simp
        then have "free_run m mp tot needed (i - run)"
          using clear lt 1 by (auto simp: free_run_def)
        moreover have "heap_map_find_loop m mp tot needed i run start = Some (i - run)"
          using lt False True st by (simp add: heap_map_find_loop.simps [of m mp tot needed i] Let_def st_def)
        ultimately show ?thesis using 1 by simp
      next
        case more: False
        have "case heap_map_find_loop m mp tot needed (i + 1) (run + 1) st of
            None \<Rightarrow> \<forall>s. \<not> free_run m mp tot needed s
          | Some s \<Rightarrow> free_run m mp tot needed s \<and> (\<forall>u. u < s \<longrightarrow> \<not> free_run m mp tot needed u)"
          using 1 lt False more st clear st_def by (intro "1.IH"(1)) auto
        then show ?thesis
          using lt False more by (simp add: heap_map_find_loop.simps [of m mp tot needed i] Let_def st_def)
      qed
    qed
  qed
qed

lemma heap_map_find_free_spec:
  assumes "needed > 0"
  shows "case heap_map_find_free m mp tot needed of
      None \<Rightarrow> \<forall>s. \<not> free_run m mp tot needed s
    | Some s \<Rightarrow> free_run m mp tot needed s \<and> (\<forall>u. u < s \<longrightarrow> \<not> free_run m mp tot needed u)"
  unfolding heap_map_find_free_def using assms by (intro find_loop_spec) auto

end
