(* ===== verification/HeapInv.thy ===== *)
theory HeapInv
  imports Heap
begin

text \<open>
  The allocation invariant of a box and what \<open>heap_box_alloc\<close>, \<open>kfree\<close> and \<open>kmalloc\<close> do to it.
\<close>

unbundle bit_operations_syntax

section \<open>Setting and clearing bits\<close>

lemma map_byte_inj:
  "i < 4294967296 \<Longrightarrow> j < 4294967296 \<Longrightarrow> (mp :: u32) + of_nat (i div 8) = mp + of_nat (j div 8) \<longleftrightarrow> i div 8 = j div 8"
  by (simp add: of_nat_u32_inj)

lemma same_bit: "i = j \<longleftrightarrow> i div 8 = j div 8 \<and> i mod 8 = (j :: nat) mod 8"
  by (metis div_mult_mod_eq)

lemma bit_set_u8: "k < 8 \<Longrightarrow> n < 8 \<Longrightarrow> bit ((x :: u8) OR push_bit k 1) n \<longleftrightarrow> n = k \<or> bit x n"
  by (auto simp: bit_simps)

lemma bit_clear_u8: "k < 8 \<Longrightarrow> n < 8 \<Longrightarrow> bit ((x :: u8) AND NOT (push_bit k 1)) n \<longleftrightarrow> n \<noteq> k \<and> bit x n"
  by (auto simp: bit_simps)

lemma map_bit_upd:
  fixes mp :: u32 and m :: mem
  assumes "s < 4294967296" and "j < 4294967296"
  defines "a \<equiv> mp + of_nat (s div 8)"
  shows "map_bit (m(a := (if used then m a OR push_bit (s mod 8) 1 else m a AND NOT (push_bit (s mod 8) 1)))) mp j \<longleftrightarrow>
    (if j = s then used else map_bit m mp j)"
proof (cases "j div 8 = s div 8")
  case True
  then have aj: "mp + of_nat (j div 8) = a" by (simp add: a_def)
  have eq: "j = s \<longleftrightarrow> j mod 8 = s mod 8" using True same_bit [of j s] by blast
  show ?thesis
    unfolding map_bit_eq aj fun_upd_same eq
    using bit_set_u8 [of "s mod 8" "j mod 8" "m a"] bit_clear_u8 [of "s mod 8" "j mod 8" "m a"]
    by (cases used) simp_all
next
  case False
  then have "mp + of_nat (j div 8) \<noteq> a" using assms map_byte_inj [of j s mp] by simp
  moreover have "j \<noteq> s" using False by auto
  ultimately show ?thesis unfolding map_bit_eq by simp
qed

lemma heap_map_set_bit:
  "s + c \<le> 4294967296 \<Longrightarrow> j < 4294967296 \<Longrightarrow>
   map_bit (heap_map_set m mp s c used) mp j \<longleftrightarrow> (if s \<le> j \<and> j < s + c then used else map_bit m mp j)"
proof (induction c arbitrary: m s)
  case (Suc c)
  let ?a = "mp + of_nat (s div 8)"
  let ?m = "m(?a := (if used then m ?a OR push_bit (s mod 8) 1 else m ?a AND NOT (push_bit (s mod 8) 1)))"
  have "map_bit (heap_map_set m mp s (Suc c) used) mp j \<longleftrightarrow> map_bit (heap_map_set ?m mp (Suc s) c used) mp j"
    by (simp only: heap_map_set.simps Let_def)
  also have "\<dots> \<longleftrightarrow> (if Suc s \<le> j \<and> j < Suc s + c then used else map_bit ?m mp j)"
    using Suc.prems by (intro Suc.IH) simp_all
  also have "map_bit ?m mp j \<longleftrightarrow> (if j = s then used else map_bit m mp j)"
    using Suc.prems by (intro map_bit_upd) simp_all
  finally show ?case by auto
qed auto

lemma heap_map_set_other:
  "s + c \<le> 8 * n \<Longrightarrow> (\<And>k. k < n \<Longrightarrow> x \<noteq> mp + of_nat k) \<Longrightarrow> heap_map_set m mp s c used x = m x"
proof (induction c arbitrary: m s)
  case (Suc c)
  let ?a = "mp + of_nat (s div 8)"
  let ?m = "m(?a := (if used then m ?a OR push_bit (s mod 8) 1 else m ?a AND NOT (push_bit (s mod 8) 1)))"
  have "heap_map_set m mp s (Suc c) used x = heap_map_set ?m mp (Suc s) c used x"
    by (simp only: heap_map_set.simps Let_def)
  also have "\<dots> = ?m x" using Suc.prems by (intro Suc.IH) simp_all
  also have "x \<noteq> ?a" using Suc.prems by (intro Suc.prems(2)) simp
  then have "?m x = m x" by simp
  finally show ?case .
qed simp

section \<open>A box\<close>

text \<open>
  A box as \<open>box_init\<close> leaves its header, at a page-aligned address that is not 0, with the set
  \<open>L\<close> of runs \<open>(start, count)\<close> of blocks that are allocated.
\<close>

definition box_geometry :: "heap \<Rightarrow> u32 \<Rightarrow> bool" where
  "box_geometry h b \<longleftrightarrow> b \<noteq> 0 \<and> unat b mod 4096 = 0 \<and> bx_page (hp_box h b) = b \<and>
     bx_map (hp_box h b) = b + 28 \<and> bx_data (hp_box h b) = b + 44 \<and>
     bx_total (hp_box h b) = BLOCKS_PER_BOX \<and> bx_lock (hp_box h b) = 0"

definition run_blocks :: "nat \<times> nat \<Rightarrow> nat set" where
  "run_blocks r = {fst r..<fst r + snd r}"

definition box_live :: "mem \<Rightarrow> u32 \<Rightarrow> (nat \<times> nat) set \<Rightarrow> bool" where
  "box_live m b L \<longleftrightarrow>
     (\<forall>r\<in>L. snd r > 0 \<and> fst r + snd r \<le> BLOCKS_PER_BOX) \<and>
     (\<forall>r\<in>L. \<forall>r'\<in>L. r \<noteq> r' \<longrightarrow> run_blocks r \<inter> run_blocks r' = {}) \<and>
     (\<forall>j<128. map_bit m (b + 28) j \<longleftrightarrow> (\<exists>r\<in>L. j \<in> run_blocks r))"

definition box_ok :: "heap \<Rightarrow> u32 \<Rightarrow> (nat \<times> nat) set \<Rightarrow> bool" where
  "box_ok h b L \<longleftrightarrow> box_geometry h b \<and> box_live (hp_mem h) b L"

lemma box_live_cong:
  assumes "\<And>k. k < 16 \<Longrightarrow> m' (b + 28 + of_nat k) = m (b + 28 + of_nat k)"
  shows "box_live m' b L \<longleftrightarrow> box_live m b L"
proof -
  have "map_bit m' (b + 28) j \<longleftrightarrow> map_bit m (b + 28) j" if "j < 128" for j
    unfolding map_bit_def using assms [of "j div 8"] that by simp
  then show ?thesis by (simp add: box_live_def)
qed

lemma box_add:
  assumes live: "box_live m b L" and run: "free_run m (b + 28) BLOCKS_PER_BOX needed s" and n: "needed > 0"
  shows "box_live (heap_map_set m (b + 28) s needed True) b (insert (s, needed) L)"
    and "\<And>r. r \<in> L \<Longrightarrow> run_blocks r \<inter> {s..<s + needed} = {}" and "(s, needed) \<notin> L"
proof -
  have le: "s + needed \<le> BLOCKS_PER_BOX" using run by (simp add: free_run_def)
  then have le': "s + needed \<le> 123" by (simp add: BLOCKS_PER_BOX_def)
  show dis: "run_blocks r \<inter> {s..<s + needed} = {}" if r: "r \<in> L" for r
  proof (rule ccontr)
    assume "run_blocks r \<inter> {s..<s + needed} \<noteq> {}"
    then obtain j where j: "j \<in> run_blocks r" "s \<le> j" "j < s + needed" by auto
    then have "map_bit m (b + 28) j" using live r le' by (auto simp: box_live_def)
    then show False using run j by (simp add: free_run_def)
  qed
  show "(s, needed) \<notin> L" using dis [of "(s, needed)"] n by (auto simp: run_blocks_def)
  have bits: "map_bit (heap_map_set m (b + 28) s needed True) (b + 28) j \<longleftrightarrow>
      (\<exists>r\<in>insert (s, needed) L. j \<in> run_blocks r)" if "j < 128" for j
    using that live le' heap_map_set_bit [of s needed j m "b + 28" True]
    by (auto simp: box_live_def run_blocks_def)
  show "box_live (heap_map_set m (b + 28) s needed True) b (insert (s, needed) L)"
    unfolding box_live_def
  proof (intro conjI ballI impI allI)
    show "snd r > 0" "fst r + snd r \<le> BLOCKS_PER_BOX" if "r \<in> insert (s, needed) L" for r
      using that live n le by (auto simp: box_live_def)
    show "run_blocks r \<inter> run_blocks r' = {}"
      if "r \<in> insert (s, needed) L" "r' \<in> insert (s, needed) L" "r \<noteq> r'" for r r'
      using that live dis unfolding box_live_def
      by (metis Int_commute insert_iff run_blocks_def fst_conv snd_conv)
  qed (rule bits)
qed

lemma box_del:
  assumes live: "box_live m b L" and r: "(s, c) \<in> L"
  shows "box_live (heap_map_set m (b + 28) s c False) b (L - {(s, c)})"
proof -
  have le: "s + c \<le> 123" using live r by (auto simp: box_live_def BLOCKS_PER_BOX_def)
  have "map_bit (heap_map_set m (b + 28) s c False) (b + 28) j \<longleftrightarrow> (\<exists>r\<in>L - {(s, c)}. j \<in> run_blocks r)"
    if "j < 128" for j
  proof -
    have "(\<exists>r\<in>L - {(s, c)}. j \<in> run_blocks r) \<longleftrightarrow> (\<exists>r\<in>L. j \<in> run_blocks r) \<and> j \<notin> run_blocks (s, c)"
      using live r unfolding box_live_def by blast
    then show ?thesis
      using that live le heap_map_set_bit [of s c j m "b + 28" False]
      by (auto simp: box_live_def run_blocks_def)
  qed
  with live show ?thesis unfolding box_live_def by blast
qed

text \<open>Addresses inside a box do not wrap around.\<close>

lemma box_offset:
  assumes "box_geometry h b" and "k < 4096"
  shows "unat (b + of_nat k) = unat b + k"
proof -
  have "unat b mod 4096 = 0" using assms by (simp add: box_geometry_def)
  then obtain q where q: "unat b = 4096 * q" by (metis mod_0_imp_dvd dvdE)
  have "unat b < 4294967296" by simp
  then have "q < 1048576" using q by simp
  then have "unat b + k < 4294967296" using q assms(2) by simp
  moreover have "unat (of_nat k :: u32) = k" using assms(2) by (simp add: unat_of_nat take_bit_nat_eq_self)
  ultimately show ?thesis by (subst unat_plus_u32) simp_all
qed

lemma box_offset_eq:
  assumes "box_geometry h b" and "j < 4096" and "k < 4096"
  shows "b + of_nat j = b + of_nat k \<longleftrightarrow> j = k"
  using assms(2,3) by (simp add: of_nat_u32_inj)


section \<open>Allocation\<close>

lemma blocks_needed_eq:
  assumes "unat sz \<le> 4096" shows "blocks_needed sz = (unat sz + 35) div 32"
proof -
  have "sz + 4 + 32 - 1 = sz + 35" by simp
  moreover have "unat (sz + 35) = unat sz + 35" using assms by (subst unat_plus_u32) simp_all
  ultimately show ?thesis by (simp only: blocks_needed_def unat_div) simp
qed

lemma blocks_needed_bounds:
  assumes "unat sz \<le> 4096" shows "0 < blocks_needed sz" and "unat sz + 4 \<le> 32 * blocks_needed sz"
  unfolding blocks_needed_eq [OF assms] by linarith+

text \<open>What \<open>heap_box_alloc\<close> hands out: the bytes after the box pointer of the object header.\<close>

definition object_bytes :: "u32 \<Rightarrow> nat \<times> nat \<Rightarrow> u32 set" where
  "object_bytes b r = block (b + 44 + of_nat (32 * fst r)) (32 * snd r)"

lemma object_bytes_disjoint:
  assumes "box_geometry h b" and "fst r + snd r \<le> BLOCKS_PER_BOX" and "fst r' + snd r' \<le> BLOCKS_PER_BOX"
    and "run_blocks r \<inter> run_blocks r' = {}"
  shows "object_bytes b r \<inter> object_bytes b r' = {}"
proof (rule ccontr)
  assume "object_bytes b r \<inter> object_bytes b r' \<noteq> {}"
  then obtain i j where i: "i < 32 * snd r" and j: "j < 32 * snd r'"
    and eq: "b + of_nat (44 + 32 * fst r + i) = b + of_nat (44 + 32 * fst r' + j)"
    by (auto simp: object_bytes_def block_def algebra_simps)
  have lt: "44 + 32 * fst r + i < 4096" "44 + 32 * fst r' + j < 4096"
    using assms(2,3) i j by (simp_all add: BLOCKS_PER_BOX_def)
  have "44 + 32 * fst r + i = 44 + 32 * fst r' + j"
    using iffD1 [OF box_offset_eq [OF assms(1) lt] eq] .
  then have e: "32 * fst r + i = 32 * fst r' + j" by simp
  define q where "q = (32 * fst r + i) div 32"
  have "q = fst r + i div 32" unfolding q_def by simp
  moreover have "q = fst r' + j div 32" unfolding q_def e by simp
  moreover have "i div 32 < snd r" "j div 32 < snd r'" using i j by (simp_all add: less_mult_imp_div_less mult.commute)
  ultimately have "q \<in> run_blocks r" "q \<in> run_blocks r'" by (simp_all add: run_blocks_def)
  then show False using assms(4) by blast
qed

lemma store32_at:
  assumes "box_geometry h b" and "44 \<le> o'" and "o' < 4088" and "k < 44"
  shows "store32 m (b + of_nat o') w (b + of_nat k) = m (b + of_nat k)"
proof -
  have off: "b + of_nat o' + 1 = b + of_nat (o' + 1)" "b + of_nat o' + 2 = b + of_nat (o' + 2)"
    "b + of_nat o' + 3 = b + of_nat (o' + 3)" by simp_all
  have ne: "b + of_nat k \<noteq> b + of_nat p" if "44 \<le> p" "p < 4096" for p
    using box_offset_eq [OF assms(1), of k p] that assms(4) by linarith
  show ?thesis
    using ne [of o'] ne [of "o' + 1"] ne [of "o' + 2"] ne [of "o' + 3"] assms(2,3)
    unfolding off [symmetric] by (intro store32_other) simp_all
qed

lemma box_offsets_differ: "i < 4096 \<Longrightarrow> j < 4096 \<Longrightarrow> i \<noteq> j \<Longrightarrow> (b :: u32) + of_nat i \<noteq> b + of_nat j"
proof
  assume lt: "i < 4096" "j < 4096" "i \<noteq> j" and eq: "b + of_nat i = b + of_nat j"
  then have "unat (of_nat i :: u32) = unat (of_nat j :: u32)" by simp
  then show False using lt by (simp add: unat_of_nat_u32)
qed

lemma heap_box_alloc_ok:
  assumes ok: "box_ok h b L" and sz: "unat sz \<le> 4096"
  defines "needed \<equiv> blocks_needed sz"
  shows "\<exists>r h'. heap_box_alloc h b sz = Some (r, h') \<and>
    (if \<exists>s. free_run (hp_mem h) (b + 28) BLOCKS_PER_BOX needed s
     then \<exists>s. free_run (hp_mem h) (b + 28) BLOCKS_PER_BOX needed s \<and>
            r = b + 44 + of_nat (32 * s) + 4 \<and> (s, needed) \<notin> L \<and>
            (\<forall>l\<in>L. run_blocks l \<inter> run_blocks (s, needed) = {}) \<and>
            box_ok h' b (insert (s, needed) L) \<and>
            load32 (hp_mem h') (r - 4) = b \<and> load32 (hp_mem h') r = sz \<and> hp_boxes h' = hp_boxes h \<and> hp_box h' = hp_box h \<and>
            (\<forall>x. (\<forall>k<16. x \<noteq> b + 28 + of_nat k) \<and> (\<forall>k<8. x \<noteq> r - 4 + of_nat k) \<longrightarrow> hp_mem h' x = hp_mem h x) \<and>
            (\<forall>l\<in>L. \<forall>k < 32 * snd l. hp_mem h' (b + 44 + of_nat (32 * fst l + k)) = hp_mem h (b + 44 + of_nat (32 * fst l + k)))
     else r = 0 \<and> h' = h)"
proof -
  have g: "box_geometry h b" and live: "box_live (hp_mem h) b L" using ok by (simp_all add: box_ok_def)
  have hdr: "bx_map (hp_box h b) = b + 28" "bx_data (hp_box h b) = b + 44"
    "bx_total (hp_box h b) = BLOCKS_PER_BOX" "bx_lock (hp_box h b) = 0"
    using g by (simp_all add: box_geometry_def)
  have n: "needed > 0" using blocks_needed_bounds [OF sz] by (simp add: needed_def)
  have same: "upd_box b (\<lambda>x. x\<lparr>bx_lock := 0\<rparr>) h' = h'" if "bx_lock (hp_box h' b) = 0" for h'
    using that by (auto simp: upd_box_def fun_eq_iff)
  note fs = heap_map_find_free_spec [OF n, of "hp_mem h" "b + 28" BLOCKS_PER_BOX]
  show ?thesis
  proof (cases "heap_map_find_free (hp_mem h) (b + 28) BLOCKS_PER_BOX needed")
    case None
    then have "\<forall>s. \<not> free_run (hp_mem h) (b + 28) BLOCKS_PER_BOX needed s" using fs by simp
    moreover have "heap_box_alloc h b sz = Some (0, h)"
      using None hdr same [of h] by (simp add: heap_box_alloc_def needed_def)
    ultimately show ?thesis by simp
  next
    case (Some s)
    then have run: "free_run (hp_mem h) (b + 28) BLOCKS_PER_BOX needed s" using fs by simp
    then have le: "s + needed \<le> 123" by (simp add: free_run_def BLOCKS_PER_BOX_def)
    let ?m = "heap_map_set (hp_mem h) (b + 28) s needed True"
    let ?obj = "b + 44 + of_nat s * BLOCK_SIZE"
    have objE: "?obj = b + of_nat (44 + 32 * s)" by simp
    have obj4: "?obj + 4 = b + of_nat (48 + 32 * s)" by simp
    let ?m1 = "store32 ?m ?obj b" and ?m2 = "store32 (store32 ?m ?obj b) (?obj + 4) sz"
    have lt: "44 + 32 * s < 4088" "48 + 32 * s < 4088" using le n by simp_all
    have mapb: "?m2 (b + 28 + of_nat k) = ?m (b + 28 + of_nat k)" if "k < 16" for k
    proof -
      have at: "b + 28 + of_nat k = b + of_nat (28 + k)" by simp
      have "?m2 (b + of_nat (28 + k)) = ?m1 (b + of_nat (28 + k))"
        unfolding obj4 by (rule store32_at [OF g _ lt(2)]) (use that in simp_all)
      also have "\<dots> = ?m (b + of_nat (28 + k))"
        unfolding objE by (rule store32_at [OF g _ lt(1)]) (use that in simp_all)
      finally show ?thesis unfolding at .
    qed
    have live2: "box_live ?m2 b (insert (s, needed) L)"
      using box_add(1) [OF live run n] box_live_cong [of ?m2 b ?m] mapb by blast
    have ret: "heap_box_alloc h b sz = Some (?obj + 4, h\<lparr>hp_mem := ?m2\<rparr>)"
      using Some hdr same [of "h\<lparr>hp_mem := ?m2\<rparr>"] by (simp add: heap_box_alloc_def needed_def Let_def)
    have l1: "load32 ?m2 (?obj + 4) = sz" by simp
    have l0: "load32 ?m2 ?obj = b"
    proof -
      have "load32 ?m2 ?obj = load32 ?m1 ?obj"
        by (rule load32_cong) (rule store32_other; simp)+
      then show ?thesis by simp
    qed
    have g2: "box_geometry (h\<lparr>hp_mem := ?m2\<rparr>) b" using g by (simp add: box_geometry_def)
    have ex: "\<exists>s. free_run (hp_mem h) (b + 28) BLOCKS_PER_BOX needed s" using run by blast
    have ok2: "box_ok (h\<lparr>hp_mem := ?m2\<rparr>) b (insert (s, needed) L)" using live2 g2 by (simp add: box_ok_def)
    have dis: "\<forall>l\<in>L. run_blocks l \<inter> run_blocks (s, needed) = {}"
      using box_add(2) [OF live run n] by (simp add: run_blocks_def)
    have frame: "?m2 x = hp_mem h x" if "\<forall>k<16. x \<noteq> b + 28 + of_nat k" "\<forall>k<8. x \<noteq> ?obj + of_nat k" for x
    proof -
      have ne: "x \<noteq> ?obj + of_nat k" if "k < 8" for k using \<open>\<forall>k<8. x \<noteq> ?obj + of_nat k\<close> that by blast
      have "?m2 x = ?m1 x"
        by (rule store32_other) (use ne [of 4] ne [of 5] ne [of 6] ne [of 7] in \<open>simp_all add: add.assoc\<close>)
      also have "\<dots> = ?m x"
        by (rule store32_other) (use ne [of 0] ne [of 1] ne [of 2] ne [of 3] in simp_all)
      also have "\<dots> = hp_mem h x"
        by (rule heap_map_set_other [where n = 16]) (use that(1) le in auto)
      finally show ?thesis .
    qed
    have others: "?m2 (b + 44 + of_nat (32 * fst l + k)) = hp_mem h (b + 44 + of_nat (32 * fst l + k))"
      if l: "l \<in> L" and k: "k < 32 * snd l" for l k
    proof (rule frame)
      have lb: "fst l + snd l \<le> 123" using live l by (simp add: box_live_def BLOCKS_PER_BOX_def)
      have off: "b + 44 + of_nat (32 * fst l + k) = b + of_nat (44 + 32 * fst l + k)" by simp
      show "\<forall>k'<16. b + 44 + of_nat (32 * fst l + k) \<noteq> b + 28 + of_nat k'"
        unfolding off using box_offsets_differ [of "44 + 32 * fst l + k" "28 + _" b] lb k by auto
      have "run_blocks l \<inter> run_blocks (s, needed) = {}" using box_add(2) [OF live run n l] by (simp add: run_blocks_def)
      then have "fst l + snd l \<le> s \<or> s + needed \<le> fst l" using n k by (auto simp: run_blocks_def)
      then have "44 + 32 * fst l + k \<noteq> 44 + 32 * s + k'" if "k' < 8" for k' using that k n by linarith
      then show "\<forall>k'<8. b + 44 + of_nat (32 * fst l + k) \<noteq> ?obj + of_nat k'"
        unfolding off objE using box_offsets_differ [of "44 + 32 * fst l + k" "44 + 32 * s + _" b] lb k le n by auto
    qed
    have p: "?obj + 4 = b + 44 + of_nat (32 * s) + 4" by simp
    have p4: "?obj + 4 - 4 = ?obj" by simp
    show ?thesis
      unfolding if_P [OF ex]
    proof (intro exI conjI)
      show "load32 (hp_mem (h\<lparr>hp_mem := ?m2\<rparr>)) (?obj + 4 - 4) = b"
        unfolding p4 using l0 by simp
      show "load32 (hp_mem (h\<lparr>hp_mem := ?m2\<rparr>)) (?obj + 4) = sz" using l1 by simp
      show "\<forall>x. (\<forall>k<16. x \<noteq> b + 28 + of_nat k) \<and> (\<forall>k<8. x \<noteq> ?obj + 4 - 4 + of_nat k) \<longrightarrow>
          hp_mem (h\<lparr>hp_mem := ?m2\<rparr>) x = hp_mem h x"
        unfolding p4 using frame by simp
      show "\<forall>l\<in>L. \<forall>k < 32 * snd l. hp_mem (h\<lparr>hp_mem := ?m2\<rparr>) (b + 44 + of_nat (32 * fst l + k)) =
          hp_mem h (b + 44 + of_nat (32 * fst l + k))"
        using others by simp
    qed (rule ret run p box_add(3) [OF live run n] dis ok2 | simp)+
  qed
qed


section \<open>Releasing\<close>

lemma box_is_empty_iff:
  assumes "box_ok h b L"
  shows "heap_box_is_empty h b \<longleftrightarrow> L = {}"
proof -
  have g: "bx_map (hp_box h b) = b + 28" "(bx_total (hp_box h b) + 7) div 8 = 16"
    using assms by (simp_all add: box_ok_def box_geometry_def BLOCKS_PER_BOX_def)
  have "heap_box_is_empty h b \<longleftrightarrow> (\<forall>k<16. hp_mem h (b + 28 + of_nat k) = 0)"
    unfolding heap_box_is_empty_def g list_all_iff by auto
  also have "\<dots> \<longleftrightarrow> (\<forall>j<128. \<not> map_bit (hp_mem h) (b + 28) j)"
  proof (intro iffI allI impI)
    fix j :: nat assume "\<forall>k<16. hp_mem h (b + 28 + of_nat k) = 0" and "j < 128"
    then show "\<not> map_bit (hp_mem h) (b + 28) j" by (simp add: map_bit_def)
  next
    fix k :: nat assume a: "\<forall>j<128. \<not> map_bit (hp_mem h) (b + 28) j" and k: "k < 16"
    show "hp_mem h (b + 28 + of_nat k) = 0"
    proof (rule bit_word_eqI)
      fix n assume "n < LENGTH(8)"
      then have n: "n < 8" by simp
      have "\<not> map_bit (hp_mem h) (b + 28) (8 * k + n)" using a k n by simp
      then show "bit (hp_mem h (b + 28 + of_nat k)) n = bit 0 n" using n by (simp add: map_bit_eq)
    qed
  qed
  also have "\<dots> \<longleftrightarrow> L = {}"
  proof
    assume a: "\<forall>j<128. \<not> map_bit (hp_mem h) (b + 28) j"
    show "L = {}"
    proof (rule ccontr)
      assume "L \<noteq> {}"
      then obtain r where r: "r \<in> L" by blast
      then have "snd r > 0" "fst r + snd r \<le> 123"
        using assms by (auto simp: box_ok_def box_live_def BLOCKS_PER_BOX_def)
      then have "fst r < 128" "fst r \<in> run_blocks r" by (auto simp: run_blocks_def)
      then show False using a r assms by (auto simp: box_ok_def box_live_def)
    qed
  qed (use assms in \<open>auto simp: box_ok_def box_live_def\<close>)
  finally show ?thesis .
qed

lemma fetch_block_index:
  assumes "box_geometry h b" and "s < BLOCKS_PER_BOX"
  shows "heap_fetch_block_index h b (b + 44 + of_nat (32 * s)) = Some s"
proof -
  have s: "s < 123" using assms(2) by (simp add: BLOCKS_PER_BOX_def)
  have "unat (b + of_nat 44) = unat b + 44" "unat (b + of_nat (44 + 32 * s)) = unat b + (44 + 32 * s)"
    using s by (intro box_offset [OF assms(1)]; simp)+
  then have le: "\<not> b + 44 + of_nat (32 * s) < b + 44" by (simp add: word_less_nat_alt add.assoc)
  have u: "unat (of_nat (32 * s) :: u32) = 32 * s" by (rule unat_of_nat_u32) (use s in simp)
  have "b + 44 + of_nat (32 * s) - (b + 44) = of_nat (32 * s)" by simp
  moreover have "(of_nat (32 * s) :: u32) mod 32 = 0"
    by (simp add: word_arith_nat_mod u del: of_nat_mult)
  moreover have "unat ((of_nat (32 * s) :: u32) div 32) = s" by (simp add: unat_div u del: of_nat_mult)
  ultimately show ?thesis
    using assms le unfolding heap_fetch_block_index_def box_geometry_def by (simp add: Let_def del: of_nat_mult)
qed

lemma kfree_ok:
  assumes ok: "box_ok h b L" and r: "(s, c) \<in> L" and rest: "L - {(s, c)} \<noteq> {}"
    and hdr: "load32 (hp_mem h) (b + 44 + of_nat (32 * s)) = b"
    and sz: "blocks_needed (load32 (hp_mem h) (b + 44 + of_nat (32 * s) + 4)) = c"
  shows "\<exists>h'. kfree h (b + 44 + of_nat (32 * s) + 4) n = Some h' \<and> box_ok h' b (L - {(s, c)}) \<and>
    (\<forall>x. (\<forall>k<16. x \<noteq> b + 28 + of_nat k) \<longrightarrow> hp_mem h' x = hp_mem h x)"
proof -
  have g: "box_geometry h b" and live: "box_live (hp_mem h) b L" using ok by (simp_all add: box_ok_def)
  have bounds: "0 < c" "s + c \<le> 123" using live r by (auto simp: box_live_def BLOCKS_PER_BOX_def)
  let ?p = "b + 44 + of_nat (32 * s)"
  have "44 + 32 * s + 4 < 4096" using bounds by simp
  then have "unat (b + of_nat (44 + 32 * s + 4)) = unat b + (44 + 32 * s + 4)"
    by (intro box_offset [OF g])
  moreover have "?p + 4 = b + of_nat (44 + 32 * s + 4)" by simp
  ultimately have "unat (?p + 4) = unat b + (44 + 32 * s + 4)" by (simp only:)
  then have "unat (?p + 4) > 0" by linarith
  then have "?p + 4 \<noteq> 0" by (intro notI) simp
  moreover have "b \<noteq> 0" using g by (simp add: box_geometry_def)
  moreover have "heap_fetch_block_index h b ?p = Some s"
    using fetch_block_index [OF g, of s] bounds by (simp add: BLOCKS_PER_BOX_def)
  moreover have "?p + 4 - OBJECT_ALIGN = ?p" by simp
  moreover define h1 where "h1 = h\<lparr>hp_mem := heap_map_set (hp_mem h) (b + 28) s c False\<rparr>"
  have ok1: "box_ok h1 b (L - {(s, c)})"
    using box_del [OF live r] g by (simp add: box_ok_def h1_def box_geometry_def)
  then have "\<not> heap_box_is_empty h1 b" using box_is_empty_iff rest by blast
  moreover have "bx_map (hp_box h b) = b + 28" using g by (simp add: box_geometry_def)
  ultimately have "kfree h (?p + 4) n = Some h1"
    unfolding kfree_def by (simp only: Let_def hdr sz h1_def [symmetric] option.simps if_False simp_thms)
  moreover have "hp_mem h1 x = hp_mem h x" if "\<forall>k<16. x \<noteq> b + 28 + of_nat k" for x
    using heap_map_set_other [of s c 16 x "b + 28"] bounds that by (simp add: h1_def)
  ultimately show ?thesis using ok1 by blast
qed


lemma in_box_block:
  assumes "box_geometry h b" and "o' + n \<le> 4096" and "k < 4096"
  shows "b + of_nat k \<in> block (b + of_nat o') n \<longleftrightarrow> o' \<le> k \<and> k < o' + n"
proof -
  have "b + of_nat k \<in> block (b + of_nat o') n \<longleftrightarrow> (\<exists>i<n. b + of_nat k = b + of_nat (o' + i))"
    by (auto simp: block_def add.assoc)
  also have "\<dots> \<longleftrightarrow> (\<exists>i<n. k = o' + i)"
  proof -
    have "b + of_nat k = b + of_nat (o' + i) \<longleftrightarrow> k = o' + i" if "i < n" for i
      by (rule box_offset_eq [OF assms(1,3)]) (use that assms(2) in simp)
    then show ?thesis by blast
  qed
  also have "\<dots> \<longleftrightarrow> o' \<le> k \<and> k < o' + n" by (auto simp: nat_le_iff_add)
  finally show ?thesis .
qed

section \<open>Properties\<close>

text \<open>An empty box at 1 MiB that is the only one of the heap.\<close>

definition demo_heap :: heap where
  "demo_heap = \<lparr>hp_mem = (\<lambda>_. 0),
     hp_box = (\<lambda>_. \<lparr>bx_next = 0, bx_page = 0x100000, bx_data = 0x10002C, bx_map = 0x10001C,
                   bx_total = BLOCKS_PER_BOX, bx_lock = 0, bx_id = 0\<rparr>),
     hp_boxes = 0x100000, hp_hash = bh_empty, hp_next_id = 1, hp_initialized = True, hp_lock = 0,
     hp_pmm = demo_pmm\<rparr>"

lemma demo_heap_ok: "box_ok demo_heap 0x100000 {}"
  by (simp add: box_ok_def box_geometry_def box_live_def demo_heap_def map_bit_def)

text \<open>The bitmap search returns the first run of free blocks that is long enough, and fails
  only when there is none.\<close>

theorem heap_map_find_free_first_fit:
  assumes "needed > 0"
  shows "case heap_map_find_free m mp tot needed of
      None \<Rightarrow> \<forall>s. \<not> free_run m mp tot needed s
    | Some s \<Rightarrow> free_run m mp tot needed s \<and> (\<forall>u. u < s \<longrightarrow> \<not> free_run m mp tot needed u)"
  using assms by (rule heap_map_find_free_spec)

theorem heap_map_find_free_first_fit_witness:
  "heap_map_find_free (\<lambda>_. 0) 0 16 3 \<noteq> None"
proof -
  have "free_run (\<lambda>_. 0) 0 16 3 0" by (simp add: free_run_def map_bit_def)
  then show ?thesis
    using heap_map_find_free_first_fit [of 3 "\<lambda>_. 0" 0 16] by (auto split: option.splits)
qed

text \<open>C7: An allocation in a box returns null only when no run of free blocks is long enough, and then changes nothing.
  Otherwise it returns the address behind the object header at the start of such a run, its blocks
  overlap those of no live object, the box stays consistent with the new object added, and the
  header names the box and the size. Only the bytes of the bitmap and of the new header are written: every byte of the
  blocks of every other object keeps its value.\<close>

theorem heap_box_alloc_correct:
  assumes "box_ok h b L" and "unat sz \<le> 4096"
  shows "\<exists>r h'. heap_box_alloc h b sz = Some (r, h') \<and>
    (if \<exists>s. free_run (hp_mem h) (b + 28) BLOCKS_PER_BOX (blocks_needed sz) s
     then \<exists>s. free_run (hp_mem h) (b + 28) BLOCKS_PER_BOX (blocks_needed sz) s \<and>
            r = b + 44 + of_nat (32 * s) + 4 \<and> (s, blocks_needed sz) \<notin> L \<and>
            (\<forall>l\<in>L. run_blocks l \<inter> run_blocks (s, blocks_needed sz) = {}) \<and>
            box_ok h' b (insert (s, blocks_needed sz) L) \<and>
            load32 (hp_mem h') (r - 4) = b \<and> load32 (hp_mem h') r = sz \<and> hp_boxes h' = hp_boxes h \<and> hp_box h' = hp_box h \<and>
            (\<forall>x. (\<forall>k<16. x \<noteq> b + 28 + of_nat k) \<and> (\<forall>k<8. x \<noteq> r - 4 + of_nat k) \<longrightarrow> hp_mem h' x = hp_mem h x) \<and>
            (\<forall>l\<in>L. \<forall>k < 32 * snd l. hp_mem h' (b + 44 + of_nat (32 * fst l + k)) = hp_mem h (b + 44 + of_nat (32 * fst l + k)))
     else r = 0 \<and> h' = h)"
  by (rule heap_box_alloc_ok [OF assms])

text \<open>Freeing an object whose header still is as \<open>kmalloc\<close> wrote it, in a box that keeps
  another object, releases exactly its blocks and writes nothing outside the bitmap.\<close>

theorem kfree_correct:
  assumes "box_ok h b L" and "(s, c) \<in> L" and "L - {(s, c)} \<noteq> {}"
    and "load32 (hp_mem h) (b + 44 + of_nat (32 * s)) = b"
    and "blocks_needed (load32 (hp_mem h) (b + 44 + of_nat (32 * s) + 4)) = c"
  shows "\<exists>h'. kfree h (b + 44 + of_nat (32 * s) + 4) n = Some h' \<and> box_ok h' b (L - {(s, c)}) \<and>
    (\<forall>x. (\<forall>k<16. x \<noteq> b + 28 + of_nat k) \<longrightarrow> hp_mem h' x = hp_mem h x)"
  by (rule kfree_ok [OF assms])

text \<open>A box with two objects: one of 64 bytes in blocks 0 to 2, one in block 3.\<close>

definition demo_two :: heap where
  "demo_two = demo_heap\<lparr>hp_mem := store32 (store32 ((\<lambda>_. 0)(0x10001C := 15)) 0x10002C 0x100000) 0x100030 64\<rparr>"

lemma demo_two_ok: "box_ok demo_two 0x100000 {(0, 3), (3, 1)}"
proof -
  have mem: "hp_mem demo_two = (\<lambda>x. if x = 0x10001C then 15 else if x = 0x10002E then 0x10
      else if x = 0x100030 then 64 else 0)"
    by (auto simp: demo_two_def demo_heap_def store32_def fun_eq_iff)
  have "map_bit (hp_mem demo_two) 0x10001C j \<longleftrightarrow> j < 4" if j: "j < 128" for j
  proof (cases "j < 8")
    case True
    then have "j \<in> {0, 1, 2, 3, 4, 5, 6, 7}" by auto
    then show ?thesis by (auto simp: mem map_bit_def)
  next
    case False
    have u: "unat (0x10001C + of_nat (j div 8) :: u32) = 0x10001C + j div 8"
      using j by (simp add: unat_word_ariths unat_of_nat take_bit_nat_eq_self)
    then have "(0x10001C + of_nat (j div 8) :: u32) \<notin> {0x10001C, 0x10002E, 0x100030}"
      using False j by (auto simp: word_unat_eq_iff)
    then show ?thesis using False by (simp add: mem map_bit_def)
  qed
  moreover have "(\<exists>r\<in>{(0, 3), (3, 1)}. j \<in> run_blocks r) \<longleftrightarrow> j < 4" for j
    by (auto simp: run_blocks_def)
  moreover have "run_blocks (0, 3) \<inter> run_blocks (3, 1) = {}" by (auto simp: run_blocks_def)
  ultimately have "box_live (hp_mem demo_two) 0x100000 {(0, 3), (3, 1)}"
    by (auto simp: box_live_def BLOCKS_PER_BOX_def)
  then show ?thesis by (simp add: box_ok_def box_geometry_def demo_two_def demo_heap_def)
qed

theorem kfree_correct_witness:
  "\<exists>h'. kfree demo_two (0x100000 + 44 + of_nat (32 * 0) + 4) 64 = Some h' \<and>
    box_ok h' 0x100000 ({(0, 3), (3, 1)} - {(0, 3)})"
proof -
  have 1: "load32 (hp_mem demo_two) (0x100000 + 44 + of_nat (32 * 0)) = 0x100000"
    by (simp add: demo_two_def load32_def store32_def)
  have 2: "blocks_needed (load32 (hp_mem demo_two) (0x100000 + 44 + of_nat (32 * 0) + 4)) = 3"
    by (simp add: demo_two_def load32_def store32_def blocks_needed_def)
  have 3: "(0, 3) \<in> {(0, 3), (3, 1)}" "{(0 :: nat, 3 :: nat), (3, 1)} - {(0, 3)} \<noteq> {}" by auto
  from kfree_correct [OF demo_two_ok 3 1 2, of 64] show ?thesis by blast
qed

section \<open>Two defects\<close>

theorem heap_box_alloc_correct_witness:
  "\<exists>r h'. heap_box_alloc demo_two 0x100000 100 = Some (r, h') \<and>
     hp_mem h' 0x100030 = 64"
proof -
  have s: "unat (100 :: u32) \<le> 4096" by simp
  from heap_box_alloc_correct [OF demo_two_ok s] obtain r h' where ret: "heap_box_alloc demo_two 0x100000 100 = Some (r, h')"
    and c: "(\<exists>s. free_run (hp_mem demo_two) (0x100000 + 28) BLOCKS_PER_BOX (blocks_needed 100) s) \<Longrightarrow>
      \<forall>l\<in>{(0, 3), (3, 1)}. \<forall>k < 32 * snd l. hp_mem h' (0x100000 + 44 + of_nat (32 * fst l + k)) =
        hp_mem demo_two (0x100000 + 44 + of_nat (32 * fst l + k))"
      "\<not> (\<exists>s. free_run (hp_mem demo_two) (0x100000 + 28) BLOCKS_PER_BOX (blocks_needed 100) s) \<Longrightarrow> h' = demo_two"
    by (auto split: if_splits)
  have v: "hp_mem demo_two 0x100030 = 64" by (simp add: demo_two_def store32_def)
  have "hp_mem h' 0x100030 = 64"
  proof (cases "\<exists>s. free_run (hp_mem demo_two) (0x100000 + 28) BLOCKS_PER_BOX (blocks_needed 100) s")
    case True
    from c(1) [OF this, rule_format, of "(0, 3)" 4] show ?thesis using v by simp
  next
    case False
    then show ?thesis using c(2) v by simp
  qed
  with ret show ?thesis by blast
qed

text \<open>The size field of an object header overlaps the first four bytes of the user's data
  (\<open>OBJECT_ALIGN\<close> is 4, the header 8). Zeroing an object, as \<open>kcalloc\<close> does, makes its
  recorded size 0, so that freeing it releases one block, and every further block of the object
  stays marked as used.\<close>

theorem zeroed_object_leaks:
  assumes "box_ok h b L" and "(s, c) \<in> L" and "2 \<le> c"
    and "load32 (hp_mem h) (b + 44 + of_nat (32 * s)) = b" and "4 \<le> unat t" and "unat t + 4 \<le> 32 * c"
  defines "p \<equiv> b + 44 + of_nat (32 * s) + 4"
  shows "\<exists>h'. kfree (h\<lparr>hp_mem := fst (flop_memset (hp_mem h) p 0 t)\<rparr>) p t = Some h' \<and>
    (\<forall>j. s < j \<and> j < s + c \<longrightarrow> map_bit (hp_mem h') (b + 28) j)"
proof -
  have g: "box_geometry h b" and live: "box_live (hp_mem h) b L" using assms(1) by (simp_all add: box_ok_def)
  have bounds: "s + c \<le> 123" using live assms(2) by (auto simp: box_live_def BLOCKS_PER_BOX_def)
  have pE: "p = b + of_nat (48 + 32 * s)" and objE: "p - 4 = b + of_nat (44 + 32 * s)" by (simp_all add: p_def)
  let ?m = "fst (flop_memset (hp_mem h) p 0 t)"
  have memset: "?m x = (if x \<in> block p (unat t) then 0 else hp_mem h x)" for x
    using flop_memset_returns_end [of "hp_mem h" p 0 t] by simp
  have out: "?m (b + of_nat k) = hp_mem h (b + of_nat k)" if "k < 48 + 32 * s" for k
    unfolding memset
    using in_box_block [OF g, of "48 + 32 * s" "unat t" k, folded pE] that assms(6) bounds by simp
  have zero: "?m (b + of_nat k) = 0" if "48 + 32 * s \<le> k" "k < 52 + 32 * s" for k
    unfolding memset
    using in_box_block [OF g, of "48 + 32 * s" "unat t" k, folded pE] that assms(5,6) bounds by simp
  have size0: "load32 ?m p = 0"
  proof -
    have "?m p = 0" "?m (p + 1) = 0" "?m (p + 2) = 0" "?m (p + 3) = 0"
      using zero [of "48 + 32 * s"] zero [of "49 + 32 * s"] zero [of "50 + 32 * s"] zero [of "51 + 32 * s"]
      by (simp_all add: pE algebra_simps)
    then show ?thesis by (simp add: load32_def)
  qed
  have box: "load32 ?m (p - 4) = b"
  proof -
    have "load32 ?m (p - 4) = load32 (hp_mem h) (p - 4)"
      unfolding objE
      using out [of "44 + 32 * s"] out [of "45 + 32 * s"] out [of "46 + 32 * s"] out [of "47 + 32 * s"]
      by (intro load32_cong) (simp_all add: algebra_simps)
    also have "p - 4 = b + 44 + of_nat (32 * s)" by (simp only: p_def add_diff_cancel)
    then have "load32 (hp_mem h) (p - 4) = b" using assms(4) by (simp only:)
    finally show ?thesis .
  qed
  define h1 where "h1 = h\<lparr>hp_mem := ?m\<rparr>"
  have g1: "box_geometry h1 b" using g by (simp add: h1_def box_geometry_def)
  have "?m (b + 28 + of_nat k) = hp_mem h (b + 28 + of_nat k)" if "k < 16" for k
    using out [of "28 + k"] that by (simp add: add.assoc)
  then have live1: "box_live ?m b L" using box_live_cong live by blast
  define h2 where "h2 = h1\<lparr>hp_mem := heap_map_set ?m (b + 28) s 1 False\<rparr>"
  have bits: "map_bit (hp_mem h2) (b + 28) j" if "s < j" "j < s + c" for j
  proof -
    have "j \<in> run_blocks (s, c)" using that by (simp add: run_blocks_def)
    then have "map_bit ?m (b + 28) j" using live1 assms(2) that bounds by (auto simp: box_live_def)
    then show ?thesis using heap_map_set_bit [of s 1 j ?m "b + 28" False] that bounds by (simp add: h2_def)
  qed
  have "\<not> heap_box_is_empty h2 b"
  proof -
    have "map_bit (hp_mem h2) (b + 28) (Suc s)" using bits assms(3) by simp
    then have "hp_mem h2 (b + 28 + of_nat (Suc s div 8)) \<noteq> 0" by (auto simp: map_bit_def)
    moreover have "Suc s div 8 < 16" using bounds assms(3) by simp
    moreover have "bx_map (hp_box h2 b) = b + 28" "(bx_total (hp_box h2 b) + 7) div 8 = 16"
      using g by (simp_all add: h2_def h1_def box_geometry_def BLOCKS_PER_BOX_def)
    ultimately show ?thesis by (auto simp: heap_box_is_empty_def list_all_iff)
  qed
  moreover have "p \<noteq> 0"
  proof -
    have "unat (b + of_nat (48 + 32 * s)) = unat b + (48 + 32 * s)"
      using bounds assms(3) by (intro box_offset [OF g]) simp
    then have "unat p > 0" unfolding pE by linarith
    then show ?thesis by (intro notI) simp
  qed
  moreover have "b \<noteq> 0" using g by (simp add: box_geometry_def)
  moreover have "heap_fetch_block_index h1 b (p - 4) = Some s"
  proof -
    have "p - 4 = b + 44 + of_nat (32 * s)" by (simp only: p_def add_diff_cancel)
    moreover have "s < BLOCKS_PER_BOX" using bounds assms(3) by (simp add: BLOCKS_PER_BOX_def)
    ultimately show ?thesis using fetch_block_index [OF g1] by (simp only:)
  qed
  moreover have "blocks_needed 0 = 1" by (simp add: blocks_needed_def)
  moreover have "bx_map (hp_box h1 b) = b + 28" using g1 by (simp add: box_geometry_def)
  moreover have "p - 4 + 4 = p" by simp
  moreover have "hp_mem h1 = ?m" by (simp add: h1_def)
  ultimately have "kfree h1 p t = Some h2"
    unfolding kfree_def
    by (simp only: Let_def box size0 h2_def [symmetric] option.simps if_False simp_thms)
  then show ?thesis using bits unfolding h1_def by blast
qed

theorem zeroed_object_leaks_witness:
  "\<exists>h'. kfree (demo_two\<lparr>hp_mem := fst (flop_memset (hp_mem demo_two) (0x100000 + 44 + of_nat (32 * 0) + 4) 0 64)\<rparr>)
      (0x100000 + 44 + of_nat (32 * 0) + 4) 64 = Some h' \<and>
    (\<forall>j. 0 < j \<and> j < 0 + 3 \<longrightarrow> map_bit (hp_mem h') (0x100000 + 28) j)"
proof (rule zeroed_object_leaks [OF demo_two_ok])
  show "load32 (hp_mem demo_two) (0x100000 + 44 + of_nat (32 * 0)) = 0x100000"
    by (simp add: demo_two_def load32_def store32_def)
qed simp_all


lemma no_run_too_long: "tot < needed \<Longrightarrow> heap_map_find_free m mp tot needed = None"
  using heap_map_find_free_spec [of needed m mp tot]
  by (auto simp: free_run_def split: option.splits)

lemma heap_box_alloc_too_long:
  assumes "bx_lock (hp_box h b) = 0" and "bx_total (hp_box h b) < blocks_needed sz"
  shows "heap_box_alloc h b sz = Some (0, h)"
proof -
  have "upd_box b (\<lambda>x. x\<lparr>bx_lock := 0\<rparr>) h = h" using assms(1) by (auto simp: upd_box_def fun_eq_iff)
  then show ?thesis using assms no_run_too_long by (simp add: heap_box_alloc_def)
qed

lemma iterate_too_long:
  assumes "\<And>b. b \<in> set bs \<Longrightarrow> bx_lock (hp_box h b) = 0 \<and> bx_total (hp_box h b) < blocks_needed sz"
    and "llist (box_next h) cur bs"
  shows "heap_box_iterate_loop h cur sz = Some (0, h)"
  using assms
proof (induction bs arbitrary: cur)
  case Nil
  then show ?case by (simp add: heap_box_iterate_loop.simps)
next
  case (Cons b bs)
  then have "cur = Some b" "llist (box_next h) (box_next h b) bs" by simp_all
  with Cons have "heap_box_iterate_loop h (box_next h b) sz = Some (0, h)" by simp
  with \<open>cur = Some b\<close> Cons heap_box_alloc_too_long [of h b sz] show ?case
    by (subst heap_box_iterate_loop.simps) simp
qed

text \<open>A request for 3933 to 4096 bytes is sent to the boxes, and no box can hold it, not even
  an empty one: it always returns null, and each time it takes one more page for a new box that stays
  on the list of boxes.\<close>

theorem kmalloc_gap:
  assumes "3933 \<le> unat sz" and "unat sz \<le> 4096"
    and "hp_initialized h" and "hp_lock h = 0"
    and "llist (box_next h) (box_ptr (hp_boxes h)) bs"
    and "\<And>b. b \<in> set bs \<Longrightarrow> bx_lock (hp_box h b) = 0 \<and> bx_total (hp_box h b) = BLOCKS_PER_BOX"
    and "pmm_alloc_page (hp_pmm h) = Some (Some pg, p)" and "pg \<noteq> 0"
    and "bh_ok (hp_hash h) M" and "card M < 255" and "hp_next_id h \<notin> fst ` M"
  shows "\<exists>h'. kmalloc h sz = Some (0, h') \<and> hp_pmm h' = p \<and> hp_boxes h' = pg"
proof -
  have needed: "BLOCKS_PER_BOX < blocks_needed sz"
    unfolding blocks_needed_eq [OF assms(2)] BLOCKS_PER_BOX_def using assms(1) by linarith
  let ?h0 = "h\<lparr>hp_lock := 1\<rparr>"
  have "heap_box_iterate_loop ?h0 (box_ptr (hp_boxes h)) sz = Some (0, ?h0)"
    using assms(5,6) needed by (intro iterate_too_long [of bs]) simp_all
  then have it: "heap_box_iterate h sz = Some (0, h)"
    using assms(4) by (simp add: heap_box_iterate_def)
  let ?h1 = "box_init (h\<lparr>hp_pmm := p\<rparr>) pg pg"
  let ?t = "hp_hash h"
  have h1: "hp_hash ?h1 = ?t" "hp_next_id ?h1 = hp_next_id h" "hp_lock ?h1 = 0" "hp_pmm ?h1 = p"
    "bx_lock (hp_box ?h1 pg) = 0" "bx_total (hp_box ?h1 pg) = BLOCKS_PER_BOX"
    using assms(4) by (simp_all add: box_init_def upd_box_def Let_def spinlock_init_def)
  obtain t' where ins: "box_hash_insert (hp_next_id h) pg ?t = Some t'"
    using box_hash_insert_correct [OF assms(9-11), of pg] by blast
  let ?reg = "upd_box pg (\<lambda>x. x\<lparr>bx_id := hp_next_id h, bx_next := hp_boxes ?h1\<rparr>)
      (?h1\<lparr>hp_lock := 1, hp_next_id := hp_next_id h + 1\<rparr>)"
  let ?h2 = "?reg\<lparr>hp_boxes := pg, hp_hash := t', hp_lock := 0\<rparr>"
  have reg: "heap_box_register ?h1 pg = Some ?h2"
    using ins h1 by (simp add: heap_box_register_def upd_box_def Let_def)
  have "bx_lock (hp_box ?h2 pg) = 0" "bx_total (hp_box ?h2 pg) < blocks_needed sz"
    using h1 needed by (simp_all add: upd_box_def)
  then have "heap_box_alloc ?h2 pg sz = Some (0, ?h2)" by (rule heap_box_alloc_too_long)
  moreover have "heap_create_box h = Some (pg, ?h2)"
    using assms(7) reg by (simp add: heap_create_box_def Let_def)
  moreover have "\<not> sz > PAGE_SIZE" "sz \<noteq> 0" using assms(1,2) by (auto simp: word_less_nat_alt)
  ultimately have "kmalloc h sz = Some (0, ?h2)"
    using it assms(3,8) by (simp add: kmalloc_def)
  moreover have "hp_pmm ?h2 = p" using h1 by (simp add: upd_box_def)
  ultimately show ?thesis by auto
qed

theorem kmalloc_gap_witness:
  "\<exists>p. pmm_alloc_page demo_pmm = Some (Some 0x100000, p) \<and>
    (\<exists>h'. kmalloc (demo_heap\<lparr>hp_boxes := 0\<rparr>) 4000 = Some (0, h') \<and> hp_pmm h' = p \<and> hp_boxes h' = 0x100000)"
proof -
  have l: "buddy_lock demo_pmm = 0" by (simp add: demo_pmm_def)
  have "pmm_fetch_order_block (demo_pmm\<lparr>buddy_lock := 1\<rparr>) 0 =
      (Some 0, set_free_list 0 (Some 1) (demo_pmm\<lparr>buddy_lock := 1\<rparr>))"
    by (subst pmm_fetch_order_block.simps) (simp add: demo_pmm_def)
  then obtain p where p: "pmm_alloc_page demo_pmm = Some (Some 0x100000, p)"
    unfolding pmm_alloc_page_unfold [OF l] pmm_alloc_block_def
    by (simp add: Let_def) (simp add: demo_pmm_def upd_page_def set_free_list_def)
  have "\<exists>h'. kmalloc (demo_heap\<lparr>hp_boxes := 0\<rparr>) 4000 = Some (0, h') \<and> hp_pmm h' = p \<and> hp_boxes h' = 0x100000"
  proof (rule kmalloc_gap [of _ _ "[]" _ _ "{}"])
    show "pmm_alloc_page (hp_pmm (demo_heap\<lparr>hp_boxes := 0\<rparr>)) = Some (Some 0x100000, p)"
      using p by (simp add: demo_heap_def)
    show "bh_ok (hp_hash (demo_heap\<lparr>hp_boxes := 0\<rparr>)) {}" using bh_empty_ok by (simp add: demo_heap_def)
  qed (simp_all add: demo_heap_def box_ptr_def)
  with p show ?thesis by blast
qed

end
