(* ===== verification/Sched.thy ===== *)
theory Sched
  imports Spinlock
begin

text \<open>
  task/sched.c: thread lists, the choice of the next thread, starvation boosting, yielding, blocking,
  sleeping and the timer tick. A thread is named by a number, the address of its \<open>thread_t\<close>; the
  structures are a function of it, so that the one \<open>next\<close> link of a thread is shared by every
  list it is put on, as in the source. A null pointer is \<open>None\<close>.
\<close>

section \<open>State\<close>

datatype thread_state = THREAD_READY | THREAD_RUNNING | THREAD_SLEEPING | THREAD_EXITED | THREAD_DEAD
  | THREAD_SUSPENDED | THREAD_BLOCKED

datatype sched_class = SCHED_CLASS_REALTIME | SCHED_CLASS_NORMAL | SCHED_CLASS_IDLE

text \<open>The order of the enumeration: a smaller class is served first.\<close>

primrec class_rank :: "sched_class \<Rightarrow> nat" where
  "class_rank SCHED_CLASS_REALTIME = 0"
| "class_rank SCHED_CLASS_NORMAL = 1"
| "class_rank SCHED_CLASS_IDLE = 2"

instantiation sched_class :: linorder
begin

definition less_eq_sched_class :: "sched_class \<Rightarrow> sched_class \<Rightarrow> bool" where
  "less_eq_sched_class a b \<longleftrightarrow> class_rank a \<le> class_rank b"

definition less_sched_class :: "sched_class \<Rightarrow> sched_class \<Rightarrow> bool" where
  "less_sched_class a b \<longleftrightarrow> class_rank a < class_rank b"

instance
proof
  fix x y :: sched_class
  assume "x \<le> y" and "y \<le> x"
  then show "x = y" by (cases x; cases y) (simp_all add: less_eq_sched_class_def)
qed (auto simp: less_eq_sched_class_def less_sched_class_def)

end

record thread =
  t_next :: "nat option"
  t_cls :: sched_class
  t_base :: u32
  t_effective :: u32
  t_state :: thread_state
  t_process :: "nat option"
  t_user :: bool
  t_id :: u32
  t_uptime :: u32
  t_wait :: u32
  t_time_slice :: u32
  t_wake_time :: u64
  t_ts_next :: "nat option"
  t_blocked_lock :: u32
  t_pi_owner :: "nat option"

type_synonym threads = "nat \<Rightarrow> thread"

record thread_list =
  tl_head :: "nat option"
  tl_tail :: "nat option"
  tl_count :: u32
  tl_lock :: spinlock_t

definition upd_thread :: "nat \<Rightarrow> (thread \<Rightarrow> thread) \<Rightarrow> threads \<Rightarrow> threads" where
  "upd_thread t f th = th(t := f (th t))"

abbreviation thread_next :: "threads \<Rightarrow> nat \<Rightarrow> nat option" where
  "thread_next th \<equiv> \<lambda>t. t_next (th t)"

definition set_next :: "nat \<Rightarrow> nat option \<Rightarrow> threads \<Rightarrow> threads" where
  "set_next t p th = upd_thread t (\<lambda>x. x\<lparr>t_next := p\<rparr>) th"

section \<open>Thread lists\<close>

text \<open>Appending, shared by \<open>sched_enqueue\<close> and \<open>sched_thread_list_add\<close>.\<close>

definition tl_append :: "threads \<times> thread_list \<Rightarrow> nat \<Rightarrow> (threads \<times> thread_list) option" where
  "tl_append = (\<lambda>(th, l) t. do {
     lk \<leftarrow> lock_acquire (tl_lock l);
     let l = l\<lparr>tl_lock := lk\<rparr>;
     let th = set_next t None th;
     (th, l) \<leftarrow> (case tl_head l of
        None \<Rightarrow> Some (th, l\<lparr>tl_head := Some t, tl_tail := Some t\<rparr>)
      | Some _ \<Rightarrow> (case tl_tail l of
            None \<Rightarrow> None
          | Some e \<Rightarrow> Some (set_next e (Some t) th, l\<lparr>tl_tail := Some t\<rparr>)));
     Some (th, l\<lparr>tl_count := tl_count l + 1, tl_lock := lock_release lk\<rparr>)
   })"

definition sched_enqueue :: "threads \<times> thread_list \<Rightarrow> nat option \<Rightarrow> (threads \<times> thread_list) option" where
  "sched_enqueue s thread = (case thread of None \<Rightarrow> Some s | Some t \<Rightarrow> tl_append s t)"

definition sched_thread_list_add :: "threads \<times> thread_list \<Rightarrow> nat option \<Rightarrow> (threads \<times> thread_list) option" where
  "sched_thread_list_add s thread = (case thread of None \<Rightarrow> Some s | Some t \<Rightarrow> tl_append s t)"

definition sched_dequeue :: "threads \<times> thread_list \<Rightarrow> (nat option \<times> threads \<times> thread_list) option" where
  "sched_dequeue = (\<lambda>(th, l). do {
     lk \<leftarrow> lock_acquire (tl_lock l);
     (case tl_head l of
        None \<Rightarrow> Some (None, th, l\<lparr>tl_lock := lock_release lk\<rparr>)
      | Some t \<Rightarrow>
          let l = l\<lparr>tl_head := thread_next th t\<rparr>;
              l = (if tl_head l = None then l\<lparr>tl_tail := None\<rparr> else l);
              l = l\<lparr>tl_count := tl_count l - 1\<rparr>;
              th = set_next t None th
          in Some (Some t, th, l\<lparr>tl_lock := lock_release lk\<rparr>))
   })"

text \<open>Taking \<open>cur\<close> out after \<open>prev\<close>: the body shared by the three unlinking functions.\<close>

definition tl_cut :: "threads \<times> thread_list \<Rightarrow> nat option \<Rightarrow> nat \<Rightarrow> threads \<times> thread_list" where
  "tl_cut = (\<lambda>(th, l) prev cur.
     let (th, l) = (case prev of
            Some p \<Rightarrow> (set_next p (thread_next th cur) th, l)
          | None \<Rightarrow> (th, l\<lparr>tl_head := thread_next th cur\<rparr>));
         l = (if tl_tail l = Some cur then l\<lparr>tl_tail := prev\<rparr> else l)
     in (th, l))"

definition sched_remove ::
  "threads \<times> thread_list \<Rightarrow> nat option \<Rightarrow> (nat option \<times> threads \<times> thread_list) option" where
  "sched_remove = (\<lambda>(th, l) target.
     (case target of
        None \<Rightarrow> Some (None, th, l)
      | Some t \<Rightarrow> do {
          lk \<leftarrow> lock_acquire (tl_lock l);
          (prev, cur) \<leftarrow> ll_walk (thread_next th) t None (tl_head l);
          (case cur of
             None \<Rightarrow> Some (None, th, l\<lparr>tl_lock := lock_release lk\<rparr>)
           | Some c \<Rightarrow>
               let (th, l) = tl_cut (th, l) prev c;
                   l = l\<lparr>tl_count := tl_count l - 1\<rparr>;
                   th = set_next c None th
               in Some (Some c, th, l\<lparr>tl_lock := lock_release lk\<rparr>))
        }))"

text \<open>\<open>sched_unlink_thread\<close> and \<open>sched_remove_from_sleep_queue\<close> have the same body.\<close>

definition sched_unlink_thread :: "threads \<times> thread_list \<Rightarrow> nat \<Rightarrow> nat option \<Rightarrow> threads \<times> thread_list" where
  "sched_unlink_thread s t prev =
     (let (th, l) = tl_cut s prev t;
          l = (if tl_count l > 0 then l\<lparr>tl_count := tl_count l - 1\<rparr> else l)
      in (set_next t None th, l))"

section \<open>Starvation\<close>

definition STARVATION_THRESHOLD :: u32 where "STARVATION_THRESHOLD = 1000"
definition BOOST_AMOUNT :: u32 where "BOOST_AMOUNT = 5"
definition MAX_PRIORITY :: u32 where "MAX_PRIORITY = 255"

partial_function (option) boost_count_loop :: "threads \<Rightarrow> nat option \<Rightarrow> u32 \<Rightarrow> (threads \<times> u32) option" where
  "boost_count_loop th cur max_wait =
     (case cur of
        None \<Rightarrow> Some (th, max_wait)
      | Some t \<Rightarrow>
          let th = upd_thread t (\<lambda>x. x\<lparr>t_wait := t_wait x + 1\<rparr>) th;
              max_wait = (if t_cls (th t) = SCHED_CLASS_NORMAL \<and> t_wait (th t) > max_wait then t_wait (th t)
                          else max_wait)
          in boost_count_loop th (thread_next th t) max_wait)"

definition boost_thread :: "u32 \<Rightarrow> thread \<Rightarrow> thread" where
  "boost_thread max_wait x =
     (if t_cls x = SCHED_CLASS_NORMAL \<and> t_wait x > STARVATION_THRESHOLD then
        let boost = t_wait x * BOOST_AMOUNT div max_wait;
            boost = (if boost = 0 then 1 else boost)
        in if t_effective x + boost \<ge> MAX_PRIORITY then x\<lparr>t_effective := MAX_PRIORITY\<rparr>
           else x\<lparr>t_effective := t_effective x + boost\<rparr>
      else x)"

partial_function (option) boost_loop :: "threads \<Rightarrow> nat option \<Rightarrow> u32 \<Rightarrow> threads option" where
  "boost_loop th cur max_wait =
     (case cur of
        None \<Rightarrow> Some th
      | Some t \<Rightarrow>
          let th = upd_thread t (boost_thread max_wait) th
          in boost_loop th (thread_next th t) max_wait)"

definition sched_boost_starved_threads :: "threads \<times> thread_list \<Rightarrow> (threads \<times> thread_list) option" where
  "sched_boost_starved_threads = (\<lambda>(th, l). do {
     lk \<leftarrow> lock_acquire (tl_lock l);
     (th, max_wait) \<leftarrow> boost_count_loop th (tl_head l) 0;
     th \<leftarrow> (if max_wait > STARVATION_THRESHOLD then boost_loop th (tl_head l) max_wait else Some th);
     Some (th, l\<lparr>tl_lock := lock_release lk\<rparr>)
   })"

section \<open>The choice of the next thread\<close>

definition better_thread :: "threads \<Rightarrow> nat \<Rightarrow> nat option \<Rightarrow> bool" where
  "better_thread th t best =
     (case best of
        None \<Rightarrow> True
      | Some b \<Rightarrow>
          if t_cls (th t) < t_cls (th b) then True
          else if t_cls (th t) = t_cls (th b) then t_effective (th t) > t_effective (th b)
          else False)"

partial_function (option) find_best_loop ::
  "threads \<Rightarrow> nat option \<Rightarrow> nat option \<Rightarrow> nat option \<Rightarrow> nat option \<Rightarrow> (nat option \<times> nat option) option" where
  "find_best_loop th iter prev best prev_best =
     (case iter of
        None \<Rightarrow> Some (best, prev_best)
      | Some t \<Rightarrow>
          let (best, prev_best) = (if better_thread th t best then (Some t, prev) else (best, prev_best))
          in find_best_loop th (thread_next th t) (Some t) best prev_best)"

definition sched_find_best_thread_iterate :: "threads \<Rightarrow> thread_list \<Rightarrow> (nat option \<times> nat option) option" where
  "sched_find_best_thread_iterate th l = find_best_loop th (tl_head l) None None None"

definition sched_find_best_thread :: "threads \<Rightarrow> thread_list \<Rightarrow> (nat option \<times> nat option) option" where
  "sched_find_best_thread th l =
     (if tl_head l = None then Some (None, None) else sched_find_best_thread_iterate th l)"

definition sched_assign_time_slice :: "thread \<Rightarrow> thread" where
  "sched_assign_time_slice x =
     (case t_cls x of
        SCHED_CLASS_REALTIME \<Rightarrow> x\<lparr>t_time_slice := 100\<rparr>
      | SCHED_CLASS_IDLE \<Rightarrow> x\<lparr>t_time_slice := 1\<rparr>
      | SCHED_CLASS_NORMAL \<Rightarrow> x\<lparr>t_time_slice := (if t_base x \<noteq> 0 then t_base x else 20)\<rparr>)"

definition sched_select_by_time_slice ::
  "threads \<times> thread_list \<Rightarrow> (nat option \<times> threads \<times> thread_list) option" where
  "sched_select_by_time_slice = (\<lambda>(th, l).
     if tl_head l = None then Some (None, th, l)
     else do {
       (best, prev) \<leftarrow> sched_find_best_thread th l;
       (case best of
          None \<Rightarrow> Some (None, th, l)
        | Some b \<Rightarrow>
            let (th, l) = sched_unlink_thread (th, l) b prev
            in Some (Some b, upd_thread b sched_assign_time_slice th, l))
     })"

definition sched_select_next :: "threads \<times> thread_list \<Rightarrow> (nat option \<times> threads \<times> thread_list) option" where
  "sched_select_next s = do {
     (th, l) \<leftarrow> sched_boost_starved_threads s;
     lk \<leftarrow> lock_acquire (tl_lock l);
     (next, th, l) \<leftarrow> sched_select_by_time_slice (th, l\<lparr>tl_lock := lk\<rparr>);
     Some (next, th, l\<lparr>tl_lock := lock_release lk\<rparr>)
   }"

section \<open>The scheduler\<close>

record scheduler =
  threads :: threads
  ready_queue :: thread_list
  sleep_queue :: thread_list
  kernel_threads :: thread_list
  user_threads :: thread_list
  next_tid :: u32
  idle_thread :: "nat option"
  current_thread :: "nat option"
  current_process :: "nat option"
  ticks :: u64
  proc_pd :: "nat option \<Rightarrow> u32 option"
  loaded_pd :: u32

text \<open>
  \<open>proc_pd\<close> is where \<open>process->region->pg_dir\<close> leads for a process, and \<open>kernel_region->pg_dir\<close> for the threads of
  none; it is None where a null pointer is followed. Processes and regions are other components: \<open>sys_sched_yield\<close> fills it
  in from them. \<open>loaded_pd\<close> is what \<open>load_pd\<close> has loaded.
\<close>

text \<open>
  \<open>context_switch\<close> saves and loads registers; what the model sees of it is the change of
  \<open>current_thread\<close>. It follows \<open>prev\<close>, so the first switch of all faults when no thread runs.
\<close>

definition sched_determine_and_switch :: "scheduler \<Rightarrow> nat \<Rightarrow> scheduler option" where
  "sched_determine_and_switch s next = do {
     guard (current_thread s \<noteq> None);
     pd \<leftarrow> proc_pd s (t_process (threads s next));
     Some (s\<lparr>current_thread := Some next, current_process := t_process (threads s next), loaded_pd := pd\<rparr>)
   }"

definition sched_schedule :: "scheduler \<Rightarrow> scheduler option" where
  "sched_schedule s = do {
     (next, th, l) \<leftarrow> sched_select_next (threads s, ready_queue s);
     let s = s\<lparr>threads := th, ready_queue := l\<rparr>;
     (next, s) \<leftarrow> (case next of
        Some t \<Rightarrow> Some (t, s)
      | None \<Rightarrow> (case idle_thread s of
            None \<Rightarrow> None
          | Some i \<Rightarrow> Some (i, s\<lparr>threads := upd_thread i (\<lambda>x. x\<lparr>t_time_slice := 1\<rparr>) (threads s)\<rparr>)));
     if current_thread s = Some next then Some s
     else sched_determine_and_switch (s\<lparr>threads := upd_thread next (\<lambda>x. x\<lparr>t_wait := 0\<rparr>) (threads s)\<rparr>) next
   }"

definition enqueue_ready :: "scheduler \<Rightarrow> nat \<Rightarrow> scheduler option" where
  "enqueue_ready s t = do {
     (th, l) \<leftarrow> sched_enqueue (threads s, ready_queue s) (Some t);
     Some (s\<lparr>threads := th, ready_queue := l\<rparr>)
   }"

definition sched_yield :: "scheduler \<Rightarrow> scheduler option" where
  "sched_yield s =
     (case current_thread s of
        None \<Rightarrow> Some s
      | Some c \<Rightarrow> do {
          s \<leftarrow> (if idle_thread s \<noteq> Some c then enqueue_ready s c else Some s);
          sched_schedule s
        })"

definition sched_thread_exit :: "scheduler \<Rightarrow> scheduler option" where
  "sched_thread_exit s = sched_yield s"

definition set_state :: "nat \<Rightarrow> thread_state \<Rightarrow> scheduler \<Rightarrow> scheduler" where
  "set_state t st s = s\<lparr>threads := upd_thread t (\<lambda>x. x\<lparr>t_state := st\<rparr>) (threads s)\<rparr>"

definition sched_block :: "scheduler \<Rightarrow> scheduler option" where
  "sched_block s =
     (case current_thread s of
        None \<Rightarrow> Some s
      | Some c \<Rightarrow> sched_schedule (set_state c THREAD_BLOCKED s))"

definition sched_unblock :: "scheduler \<Rightarrow> nat option \<Rightarrow> scheduler option" where
  "sched_unblock s thread =
     (case thread of None \<Rightarrow> Some s | Some t \<Rightarrow> enqueue_ready (set_state t THREAD_READY s) t)"

definition sched_thread_sleep :: "scheduler \<Rightarrow> u32 \<Rightarrow> scheduler option" where
  "sched_thread_sleep s ms =
     (case current_thread s of
        None \<Rightarrow> Some s
      | Some c \<Rightarrow>
          if ms = 0 then Some s
          else do {
            let s = s\<lparr>threads := upd_thread c (\<lambda>x. x\<lparr>t_wake_time := ticks s + ucast ms,
                                t_state := THREAD_SLEEPING\<rparr>) (threads s)\<rparr>;
            (th, l) \<leftarrow> sched_enqueue (threads s, sleep_queue s) (Some c);
            sched_yield (s\<lparr>threads := th, sleep_queue := l\<rparr>)
          })"

section \<open>The timer tick\<close>

definition sched_process_sleep_thread :: "scheduler \<Rightarrow> nat \<Rightarrow> nat option \<Rightarrow> (nat option \<times> scheduler) option" where
  "sched_process_sleep_thread s t prev =
     (if t_wake_time (threads s t) \<le> ticks s then do {
        let (th, l) = sched_unlink_thread (threads s, sleep_queue s) t prev;
        s \<leftarrow> enqueue_ready (set_state t THREAD_READY (s\<lparr>threads := th, sleep_queue := l\<rparr>)) t;
        Some (prev, s)
      } else Some (Some t, s))"

partial_function (option) sched_tick_loop :: "scheduler \<Rightarrow> nat option \<Rightarrow> nat option \<Rightarrow> scheduler option" where
  "sched_tick_loop s prev cur =
     (case cur of
        None \<Rightarrow> Some s
      | Some t \<Rightarrow> do {
          (prev, s) \<leftarrow> sched_process_sleep_thread s t prev;
          sched_tick_loop s prev
            (case prev of Some p \<Rightarrow> thread_next (threads s) p | None \<Rightarrow> tl_head (sleep_queue s))
        })"

definition sched_tick :: "scheduler \<Rightarrow> scheduler option" where
  "sched_tick s = do {
     let s = s\<lparr>ticks := ticks s + 1\<rparr>;
     lk \<leftarrow> lock_acquire (tl_lock (sleep_queue s));
     s \<leftarrow> sched_tick_loop (s\<lparr>sleep_queue := (sleep_queue s)\<lparr>tl_lock := lk\<rparr>\<rparr>) None (tl_head (sleep_queue s));
     Some (s\<lparr>sleep_queue := (sleep_queue s)\<lparr>tl_lock := lock_release lk\<rparr>\<rparr>)
   }"

definition sched_set_class :: "scheduler \<Rightarrow> nat option \<Rightarrow> sched_class \<Rightarrow> scheduler" where
  "sched_set_class s thread c =
     (case thread of None \<Rightarrow> s
      | Some t \<Rightarrow> s\<lparr>threads := upd_thread t (\<lambda>x. x\<lparr>t_cls := c\<rparr>) (threads s)\<rparr>)"

end
