(* ===== verification/Fifo.thy ===== *)
theory Fifo
  imports Prelude
begin

text \<open>
  The contract of a first-in first-out queue of distinct elements, and what a client that mixes
  insertions and removals sees of it.
\<close>

datatype 'a queue_op = Put 'a | Get

text \<open>The client, and the abstract queue it is compared with.\<close>

fun queue_run ::
  "('s \<Rightarrow> 'a \<Rightarrow> 's option) \<Rightarrow> ('s \<Rightarrow> ('a option \<times> 's) option) \<Rightarrow> 's \<Rightarrow> 'a queue_op list \<Rightarrow>
   ('s \<times> 'a option list) option" where
  "queue_run enq deq s [] = Some (s, [])"
| "queue_run enq deq s (Put x # ops) = do { s \<leftarrow> enq s x; queue_run enq deq s ops }"
| "queue_run enq deq s (Get # ops) = do {
     (r, s) \<leftarrow> deq s;
     (s, out) \<leftarrow> queue_run enq deq s ops;
     Some (s, r # out)
   }"

fun queue_spec :: "'a list \<Rightarrow> 'a queue_op list \<Rightarrow> 'a list \<times> 'a option list" where
  "queue_spec xs [] = (xs, [])"
| "queue_spec xs (Put x # ops) = queue_spec (xs @ [x]) ops"
| "queue_spec [] (Get # ops) = (let (ys, out) = queue_spec [] ops in (ys, None # out))"
| "queue_spec (x # xs) (Get # ops) = (let (ys, out) = queue_spec xs ops in (ys, Some x # out))"

text \<open>No element is inserted while it is in the queue.\<close>

fun fresh_puts :: "'a list \<Rightarrow> 'a queue_op list \<Rightarrow> bool" where
  "fresh_puts xs [] \<longleftrightarrow> True"
| "fresh_puts xs (Put x # ops) \<longleftrightarrow> x \<notin> set xs \<and> fresh_puts (xs @ [x]) ops"
| "fresh_puts xs (Get # ops) \<longleftrightarrow> fresh_puts (tl xs) ops"

locale fifo_queue =
  fixes enq :: "'s \<Rightarrow> 'a \<Rightarrow> 's option"
    and deq :: "'s \<Rightarrow> ('a option \<times> 's) option"
    and rep :: "'s \<Rightarrow> 'a list \<Rightarrow> bool"
  assumes enq_ok: "rep s xs \<Longrightarrow> x \<notin> set xs \<Longrightarrow> \<exists>s'. enq s x = Some s' \<and> rep s' (xs @ [x])"
    and deq_empty: "rep s [] \<Longrightarrow> \<exists>s'. deq s = Some (None, s') \<and> rep s' []"
    and deq_ok: "rep s (x # xs) \<Longrightarrow> \<exists>s'. deq s = Some (Some x, s') \<and> rep s' xs"
begin

lemma run_refines:
  "rep s xs \<Longrightarrow> fresh_puts xs ops \<Longrightarrow>
   \<exists>s'. queue_run enq deq s ops = Some (s', snd (queue_spec xs ops)) \<and> rep s' (fst (queue_spec xs ops))"
proof (induction xs ops arbitrary: s rule: queue_spec.induct)
  case (2 xs x ops)
  then obtain s' where "enq s x = Some s'" "rep s' (xs @ [x])" using enq_ok by force
  with 2 show ?case by simp
next
  case (3 ops)
  then obtain s' where "deq s = Some (None, s')" "rep s' []" using deq_empty by blast
  with 3 show ?case by (fastforce split: prod.splits)
next
  case (4 x xs ops)
  then obtain s' where "deq s = Some (Some x, s')" "rep s' xs" using deq_ok by blast
  with 4 show ?case by (fastforce split: prod.splits)
qed simp

end

end
