(* ===== verification/SchedQueue.thy ===== *)
theory SchedQueue
  imports Sched Fifo
begin

text \<open>
  The thread lists of the scheduler as first-in first-out queues: the representation relation, the
  contract as a locale, and its interpretation on \<open>sched_enqueue\<close> and \<open>sched_dequeue\<close>.
\<close>

section \<open>Representation\<close>

text \<open>\<open>tl_shape\<close> is what holds while the lock is held, \<open>tl_rep\<close> what holds between operations.\<close>

definition tl_shape :: "threads \<times> thread_list \<Rightarrow> nat list \<Rightarrow> bool" where
  "tl_shape = (\<lambda>(th, l) xs.
     llist (thread_next th) (tl_head l) xs \<and>
     tl_tail l = (if xs = [] then None else Some (last xs)) \<and>
     tl_count l = of_nat (length xs))"

definition tl_rep :: "threads \<times> thread_list \<Rightarrow> nat list \<Rightarrow> bool" where
  "tl_rep = (\<lambda>(th, l) xs. tl_shape (th, l) xs \<and> tl_lock l = 0)"

lemma tl_shape_lock [simp]: "tl_shape (th, l\<lparr>tl_lock := k\<rparr>) xs \<longleftrightarrow> tl_shape (th, l) xs"
  by (simp add: tl_shape_def)

text \<open>Only the links differ.\<close>

definition same_data :: "threads \<Rightarrow> threads \<Rightarrow> bool" where
  "same_data th th' \<longleftrightarrow> (\<forall>t. (th' t)\<lparr>t_next := None\<rparr> = (th t)\<lparr>t_next := None\<rparr>)"

lemma same_data_refl [simp]: "same_data th th"
  by (simp add: same_data_def)

lemma same_data_trans: "same_data a b \<Longrightarrow> same_data b c \<Longrightarrow> same_data a c"
  by (simp add: same_data_def)

lemma same_data_set_next [simp]: "same_data a (set_next t p b) \<longleftrightarrow> same_data a b"
proof -
  have "(set_next t p b u)\<lparr>t_next := None\<rparr> = (b u)\<lparr>t_next := None\<rparr>" for u
    by (simp add: set_next_def upd_thread_def)
  then show ?thesis by (simp add: same_data_def)
qed

lemma same_dataD:
  assumes "same_data th th'"
  shows "t_cls (th' t) = t_cls (th t)" "t_effective (th' t) = t_effective (th t)"
    "t_base (th' t) = t_base (th t)" "t_state (th' t) = t_state (th t)" "t_wait (th' t) = t_wait (th t)"
    "t_wake_time (th' t) = t_wake_time (th t)" "t_process (th' t) = t_process (th t)"
    "t_time_slice (th' t) = t_time_slice (th t)"
proof -
  have e: "(th' t)\<lparr>t_next := None\<rparr> = (th t)\<lparr>t_next := None\<rparr>" using assms by (simp add: same_data_def)
  show "t_cls (th' t) = t_cls (th t)" "t_effective (th' t) = t_effective (th t)"
    "t_base (th' t) = t_base (th t)" "t_state (th' t) = t_state (th t)" "t_wait (th' t) = t_wait (th t)"
    "t_wake_time (th' t) = t_wake_time (th t)" "t_process (th' t) = t_process (th t)"
    "t_time_slice (th' t) = t_time_slice (th t)"
    using e by (cases "th t"; cases "th' t"; simp)+
qed

lemma next_set_next: "thread_next (set_next t p th) = (thread_next th)(t := p)"
  by (auto simp: set_next_def upd_thread_def fun_eq_iff)

lemma set_next_other: "u \<noteq> t \<Longrightarrow> set_next t p th u = th u"
  by (simp add: set_next_def upd_thread_def)

lemma tl_shape_distinct: "tl_shape (th, l) xs \<Longrightarrow> distinct xs"
  by (auto simp: tl_shape_def intro: llist_distinct)

lemma tl_rep_distinct: "tl_rep (th, l) xs \<Longrightarrow> distinct xs"
  by (auto simp: tl_rep_def tl_shape_def intro: llist_distinct)

lemma tl_rep_head: "tl_rep (th, l) xs \<Longrightarrow> tl_head l = (case xs of [] \<Rightarrow> None | x # _ \<Rightarrow> Some x)"
  by (cases xs) (auto simp: tl_rep_def tl_shape_def)

lemma tl_rep_cong:
  assumes "\<And>t. t \<in> set xs \<Longrightarrow> thread_next th' t = thread_next th t"
  shows "tl_rep (th', l) xs \<longleftrightarrow> tl_rep (th, l) xs"
  using lseg_cong [of xs "thread_next th'" "thread_next th"] assms by (simp add: tl_rep_def tl_shape_def)

section \<open>The operations on represented lists\<close>

lemma tl_append_ok:
  assumes rep: "tl_rep (th, l) xs" and t: "t \<notin> set xs"
  shows "\<exists>th' l'. tl_append (th, l) t = Some (th', l') \<and> tl_rep (th', l') (xs @ [t]) \<and> same_data th th' \<and>
    (\<forall>u. u \<noteq> t \<and> u \<notin> set xs \<longrightarrow> th' u = th u)"
proof (cases "xs = []")
  case True
  let ?th = "set_next t None th"
  let ?l = "l\<lparr>tl_head := Some t, tl_tail := Some t, tl_count := tl_count l + 1, tl_lock := 0\<rparr>"
  have "tl_append (th, l) t = Some (?th, ?l)"
    using rep True by (simp add: tl_append_def tl_rep_def tl_shape_def)
  moreover have "tl_rep (?th, ?l) [t]"
    using rep True by (simp add: tl_rep_def tl_shape_def next_set_next)
  ultimately show ?thesis using True by (auto simp: set_next_other)
next
  case False
  then obtain ys e where xs: "xs = ys @ [e]" by (cases xs rule: rev_cases) auto
  have l: "llist (thread_next th) (tl_head l) (ys @ [e])" "tl_tail l = Some e" "tl_lock l = 0"
    using rep xs by (simp_all add: tl_rep_def tl_shape_def)
  then have hd: "tl_head l \<noteq> None" by (intro notI) (cases ys; simp)
  let ?th = "set_next e (Some t) (set_next t None th)"
  let ?l = "l\<lparr>tl_tail := Some t, tl_count := tl_count l + 1, tl_lock := 0\<rparr>"
  have ret: "tl_append (th, l) t = Some (?th, ?l)"
    using l hd by (auto simp: tl_append_def)
  have nx: "thread_next ?th = (thread_next th)(t := None, e := Some t)" by (simp add: next_set_next)
  have "llist ((thread_next th)(t := None, e := Some t)) (tl_head l) (xs @ [t])"
  proof -
    have te: "t \<noteq> e" using t xs by simp
    have "llist ((thread_next th)(last xs := Some t, t := None)) (tl_head l) (xs @ [t])"
      using l(1) t xs by (intro llist_append_node) auto
    then show ?thesis using te xs by (simp add: fun_upd_twist)
  qed
  then have "tl_rep (?th, ?l) (xs @ [t])"
    using rep by (simp add: tl_rep_def tl_shape_def nx)
  with ret show ?thesis using xs by (auto simp: set_next_other)
qed

lemma sched_dequeue_empty:
  assumes "tl_rep (th, l) []" shows "sched_dequeue (th, l) = Some (None, th, l)"
  using assms by (simp add: sched_dequeue_def tl_rep_def tl_shape_def)

lemma sched_dequeue_ok:
  assumes rep: "tl_rep (th, l) (x # xs)"
  shows "\<exists>th' l'. sched_dequeue (th, l) = Some (Some x, th', l') \<and> tl_rep (th', l') xs \<and> same_data th th' \<and>
    (\<forall>u. u \<noteq> x \<longrightarrow> th' u = th u)"
proof -
  have l: "tl_head l = Some x" "llist (thread_next th) (thread_next th x) xs" "tl_lock l = 0"
    using rep by (auto simp: tl_rep_def tl_shape_def)
  have x: "x \<notin> set xs" using tl_rep_distinct [OF rep] by simp
  let ?l1 = "l\<lparr>tl_head := thread_next th x\<rparr>"
  let ?l2 = "if thread_next th x = None then ?l1\<lparr>tl_tail := None\<rparr> else ?l1"
  let ?l = "?l2\<lparr>tl_count := tl_count l - 1, tl_lock := 0\<rparr>"
  have ret: "sched_dequeue (th, l) = Some (Some x, set_next x None th, ?l)"
    using l by (simp add: sched_dequeue_def Let_def)
  have "thread_next th x = None \<longleftrightarrow> xs = []" using l(2) by (cases xs) auto
  then have "tl_rep (set_next x None th, ?l) xs"
    using rep l x by (auto simp: tl_rep_def tl_shape_def next_set_next)
  with ret show ?thesis by (auto simp: set_next_other)
qed

text \<open>Cutting a node out, given its predecessor.\<close>

lemma tl_cut_ok:
  assumes rep: "tl_shape (th, l) (us @ t # vs)"
  defines "prev \<equiv> (if us = [] then None else Some (last us))"
  shows "\<exists>th' l'. tl_cut (th, l) prev t = (th', l') \<and> llist (thread_next th') (tl_head l') (us @ vs) \<and>
    tl_tail l' = (if us @ vs = [] then None else Some (last (us @ vs))) \<and>
    tl_count l' = tl_count l \<and> tl_lock l' = tl_lock l \<and> same_data th th' \<and> (\<forall>u. u \<notin> set us \<longrightarrow> th' u = th u)"
proof -
  have l: "llist (thread_next th) (tl_head l) (us @ t # vs)"
    "tl_tail l = Some (last (us @ t # vs))"
    using rep by (auto simp: tl_shape_def)
  have dist: "distinct (us @ t # vs)" using rep by (rule tl_shape_distinct)
  have tail: "tl_tail l = Some t \<longleftrightarrow> vs = []"
    using l(2) dist by (cases vs rule: rev_cases) auto
  show ?thesis
  proof (cases us rule: rev_cases)
    case Nil
    let ?l = "l\<lparr>tl_head := thread_next th t\<rparr>"
    let ?l' = "if tl_tail l = Some t then ?l\<lparr>tl_tail := None\<rparr> else ?l"
    have "tl_cut (th, l) prev t = (th, ?l')"
      using Nil by (simp add: tl_cut_def prev_def)
    moreover have "llist (thread_next th) (tl_head ?l') vs" using l Nil by auto
    moreover have "tl_tail ?l' = (if vs = [] then None else Some (last vs))"
      using tail l(2) Nil by auto
    ultimately show ?thesis using Nil by (intro exI [of _ th] exI [of _ ?l']) auto
  next
    case (snoc ws p)
    let ?th = "set_next p (thread_next th t) th"
    let ?l' = "if tl_tail l = Some t then l\<lparr>tl_tail := Some p\<rparr> else l"
    have pt: "p \<noteq> t" using dist snoc by auto
    have "tl_cut (th, l) prev t = (?th, ?l')"
      using snoc by (simp add: tl_cut_def prev_def)
    moreover have "llist (thread_next ?th) (tl_head ?l') (us @ vs)"
    proof -
      have "llist ((thread_next th)(p := thread_next th t)) (tl_head l) (ws @ p # vs)"
        using l(1) snoc by (intro llist_unlink_mid) simp
      then show ?thesis using snoc by (simp add: next_set_next)
    qed
    moreover have "tl_tail ?l' = (if us @ vs = [] then None else Some (last (us @ vs)))"
      using tail l(2) snoc by auto
    ultimately show ?thesis
      using snoc by (intro exI [of _ ?th] exI [of _ ?l']) (auto simp: set_next_other)
  qed
qed

lemma cut_unlink_shape:
  assumes rep: "tl_shape (th, l) (us @ t # vs)"
    and seg: "llist (thread_next th') (tl_head l') (us @ vs)"
    and tail: "tl_tail l' = (if us @ vs = [] then None else Some (last (us @ vs)))"
  shows "tl_shape (set_next t None th', l'\<lparr>tl_count := tl_count l - 1\<rparr>) (us @ vs)"
proof -
  have "t \<notin> set (us @ vs)" using tl_shape_distinct [OF rep] by auto
  then have "llist (thread_next (set_next t None th')) (tl_head l') (us @ vs)"
    using seg unfolding next_set_next by (subst lseg_upd) simp_all
  then show ?thesis using rep tail by (simp add: tl_shape_def)
qed

lemma sched_remove_ok:
  assumes rep: "tl_rep (th, l) (us @ t # vs)"
  shows "\<exists>th' l'. sched_remove (th, l) (Some t) = Some (Some t, th', l') \<and> tl_rep (th', l') (us @ vs) \<and>
    same_data th th' \<and> (\<forall>u. u \<noteq> t \<and> u \<notin> set us \<longrightarrow> th' u = th u)"
proof -
  obtain prev where pr: "(if us = [] then None else Some (last us)) = prev" by blast
  have l: "llist (thread_next th) (tl_head l) (us @ t # vs)" "tl_lock l = 0" using rep by (auto simp: tl_rep_def tl_shape_def)
  have walk: "ll_walk (thread_next th) t None (tl_head l) = Some (prev, Some t)"
    using ll_walk_found [OF l(1), of None] unfolding pr .
  have shape: "tl_shape (th, l) (us @ t # vs)" using rep by (simp add: tl_rep_def)
  from tl_cut_ok [OF shape] obtain th1 l1 where cut: "tl_cut (th, l) prev t = (th1, l1)"
    and seg: "llist (thread_next th1) (tl_head l1) (us @ vs)"
    and tail: "tl_tail l1 = (if us @ vs = [] then None else Some (last (us @ vs)))"
    and cnt: "tl_count l1 = tl_count l" "tl_lock l1 = tl_lock l" and sd: "same_data th th1"
    and oth: "\<forall>u. u \<notin> set us \<longrightarrow> th1 u = th u" unfolding pr by blast
  let ?l2 = "l1\<lparr>tl_count := tl_count l - 1\<rparr>"
  have "l1\<lparr>tl_count := tl_count l - 1, tl_lock := 0\<rparr> = ?l2"
    using cnt l(2) by (cases l1) simp
  then have "sched_remove (th, l) (Some t) = Some (Some t, set_next t None th1, ?l2)"
    using l(2) walk cut cnt by (simp add: sched_remove_def Let_def)
  moreover have "tl_rep (set_next t None th1, ?l2) (us @ vs)"
    using cut_unlink_shape [OF shape seg tail] cnt l(2) by (simp add: tl_rep_def)
  ultimately show ?thesis using sd oth by (auto simp: set_next_other)
qed

lemma sched_remove_absent:
  assumes rep: "tl_rep (th, l) xs" and "t \<notin> set xs"
  shows "sched_remove (th, l) (Some t) = Some (None, th, l)"
proof -
  have "llist (thread_next th) (tl_head l) xs" "tl_lock l = 0" using rep by (auto simp: tl_rep_def tl_shape_def)
  with assms(2) show ?thesis by (simp add: sched_remove_def ll_walk_miss)
qed

lemma sched_unlink_ok:
  assumes rep: "tl_shape (th, l) (us @ t # vs)" and short: "length (us @ t # vs) < 4294967296"
  shows "\<exists>th' l'. sched_unlink_thread (th, l) t (if us = [] then None else Some (last us)) = (th', l') \<and>
    tl_shape (th', l') (us @ vs) \<and> same_data th th' \<and> tl_lock l' = tl_lock l \<and>
    (\<forall>u. u \<noteq> t \<and> u \<notin> set us \<longrightarrow> th' u = th u)"
proof -
  obtain prev where pr: "(if us = [] then None else Some (last us)) = prev" by blast
  have cl: "tl_count l = of_nat (length (us @ t # vs))" using rep by (simp only: tl_shape_def) auto
  from tl_cut_ok [OF rep] obtain th1 l1 where cut: "tl_cut (th, l) prev t = (th1, l1)"
    and seg: "llist (thread_next th1) (tl_head l1) (us @ vs)"
    and tail: "tl_tail l1 = (if us @ vs = [] then None else Some (last (us @ vs)))"
    and cnt: "tl_count l1 = tl_count l" "tl_lock l1 = tl_lock l" and sd: "same_data th th1"
    and oth: "\<forall>u. u \<notin> set us \<longrightarrow> th1 u = th u" unfolding pr by blast
  have "unat (tl_count l) = length (us @ t # vs)"
    unfolding cl using short by (rule unat_of_nat_u32)
  then have "tl_count l1 > 0" using cnt(1) by (simp add: word_less_nat_alt)
  then have "sched_unlink_thread (th, l) t prev = (set_next t None th1, l1\<lparr>tl_count := tl_count l - 1\<rparr>)"
    using cut cnt by (simp add: sched_unlink_thread_def Let_def)
  moreover have "tl_shape (set_next t None th1, l1\<lparr>tl_count := tl_count l - 1\<rparr>) (us @ vs)"
    using cut_unlink_shape [OF rep seg tail] cnt by simp
  ultimately show ?thesis unfolding pr using sd oth cnt by (auto simp: set_next_other)
qed


section \<open>The queue contract\<close>

interpretation tq: fifo_queue "\<lambda>s t. sched_enqueue s (Some t)"
  "\<lambda>s. map_option (\<lambda>(r, th, l). (r, (th, l))) (sched_dequeue s)" tl_rep
proof unfold_locales
  fix s xs t assume "tl_rep s xs" and "t \<notin> set xs"
  then show "\<exists>s'. sched_enqueue s (Some t) = Some s' \<and> tl_rep s' (xs @ [t])"
    using tl_append_ok [of "fst s" "snd s" xs t] by (auto simp: sched_enqueue_def)
next
  fix s assume "tl_rep s []"
  then show "\<exists>s'. map_option (\<lambda>(r, th, l). (r, (th, l))) (sched_dequeue s) = Some (None, s') \<and> tl_rep s' []"
    using sched_dequeue_empty [of "fst s" "snd s"] by simp
next
  fix s x xs assume "tl_rep s (x # xs)"
  then show "\<exists>s'. map_option (\<lambda>(r, th, l). (r, (th, l))) (sched_dequeue s) = Some (Some x, s') \<and> tl_rep s' xs"
    using sched_dequeue_ok [of "fst s" "snd s" x xs] by auto
qed

section \<open>The best thread\<close>

text \<open>\<open>t\<close> is strictly preferred to \<open>b\<close>.\<close>

definition outranks :: "threads \<Rightarrow> nat \<Rightarrow> nat \<Rightarrow> bool" where
  "outranks th t b \<longleftrightarrow> t_cls (th t) < t_cls (th b) \<or>
     t_cls (th t) = t_cls (th b) \<and> t_effective (th t) > t_effective (th b)"

lemma better_thread_iff:
  "better_thread th t None" "better_thread th t (Some b) \<longleftrightarrow> outranks th t b"
  by (auto simp: better_thread_def outranks_def)

lemma outranks_trans: "outranks th a b \<Longrightarrow> outranks th b c \<Longrightarrow> outranks th a c"
  by (auto simp: outranks_def)

lemma outranks_neg_trans: "outranks th a b \<Longrightarrow> \<not> outranks th c b \<Longrightarrow> outranks th a c"
  by (auto simp: outranks_def not_less)

text \<open>\<open>b\<close> is the first of the most preferred threads of the list.\<close>

definition best_split :: "threads \<Rightarrow> nat list \<Rightarrow> nat list \<Rightarrow> nat \<Rightarrow> nat list \<Rightarrow> bool" where
  "best_split th xs us b vs \<longleftrightarrow> xs = us @ b # vs \<and>
     (\<forall>u\<in>set us. outranks th b u) \<and> (\<forall>v\<in>set vs. \<not> outranks th v b)"

definition prev_of :: "nat list \<Rightarrow> nat option" where
  "prev_of us = (if us = [] then None else Some (last us))"

lemma find_best_loop_ok:
  "llist (thread_next th) iter zs \<Longrightarrow> best_split th ps us b ws \<Longrightarrow>
   \<exists>us' b' vs'. find_best_loop th iter (prev_of ps) (Some b) (prev_of us) = Some (Some b', prev_of us') \<and>
     best_split th (ps @ zs) us' b' vs'"
proof (induction zs arbitrary: iter ps us b ws)
  case Nil
  then show ?case by (subst find_best_loop.simps) auto
next
  case (Cons z zs)
  then have it: "iter = Some z" and seg: "llist (thread_next th) (thread_next th z) zs" by simp_all
  have pz: "Some z = prev_of (ps @ [z])" by (simp add: prev_of_def)
  show ?case
  proof (cases "outranks th z b")
    case True
    have "best_split th (ps @ [z]) ps z []"
    proof -
      have "outranks th z u" if "u \<in> set ps" for u
      proof -
        from that Cons.prems(2) consider "u \<in> set us" | "u = b" | "u \<in> set ws"
          by (auto simp: best_split_def)
        then show ?thesis
        proof cases
          case 1
          then have "outranks th b u" using Cons.prems(2) by (simp add: best_split_def)
          with True show ?thesis by (rule outranks_trans)
        next
          case 2 then show ?thesis using True by simp
        next
          case 3
          then have "\<not> outranks th u b" using Cons.prems(2) by (simp add: best_split_def)
          with True show ?thesis by (rule outranks_neg_trans)
        qed
      qed
      then show ?thesis by (simp add: best_split_def)
    qed
    from Cons.IH [OF seg this] show ?thesis
      unfolding it by (subst find_best_loop.simps) (simp add: better_thread_iff True flip: pz)
  next
    case False
    have "best_split th (ps @ [z]) us b (ws @ [z])"
      using Cons.prems(2) False unfolding best_split_def by auto
    from Cons.IH [OF seg this] show ?thesis
      unfolding it by (subst find_best_loop.simps) (simp add: better_thread_iff False flip: pz)
  qed
qed

lemma sched_find_best_ok:
  assumes "llist (thread_next th) (tl_head l) xs" and "xs \<noteq> []"
  shows "\<exists>us b vs. sched_find_best_thread th l = Some (Some b, prev_of us) \<and> best_split th xs us b vs"
proof -
  from assms obtain x ys where xs: "xs = x # ys" by (cases xs) auto
  then have hd: "tl_head l = Some x" and seg: "llist (thread_next th) (thread_next th x) ys"
    using assms by simp_all
  have "best_split th [x] [] x []" by (simp add: best_split_def)
  from find_best_loop_ok [OF seg this] obtain us b vs where
    fb: "find_best_loop th (thread_next th x) (prev_of [x]) (Some x) (prev_of []) = Some (Some b, prev_of us)"
    and bs: "best_split th ([x] @ ys) us b vs" by blast
  have "find_best_loop th (Some x) None None None = Some (Some b, prev_of us)"
    using fb by (subst find_best_loop.simps) (simp add: better_thread_iff prev_of_def)
  then have "sched_find_best_thread th l = Some (Some b, prev_of us)"
    by (simp add: sched_find_best_thread_def sched_find_best_thread_iterate_def hd)
  with bs xs show ?thesis by auto
qed

section \<open>Boosting\<close>

text \<open>The links are untouched.\<close>

definition same_links :: "threads \<Rightarrow> threads \<Rightarrow> bool" where
  "same_links th th' \<longleftrightarrow> (\<forall>t. t_next (th' t) = t_next (th t))"

lemma same_links_rep:
  assumes "same_links th th'"
  shows "tl_rep (th', l) xs \<longleftrightarrow> tl_rep (th, l) xs" "tl_shape (th', l) xs \<longleftrightarrow> tl_shape (th, l) xs"
    "llist (thread_next th') p xs \<longleftrightarrow> llist (thread_next th) p xs"
proof -
  have "thread_next th' = thread_next th" using assms by (auto simp: same_links_def)
  then show "tl_rep (th', l) xs \<longleftrightarrow> tl_rep (th, l) xs" "tl_shape (th', l) xs \<longleftrightarrow> tl_shape (th, l) xs"
    "llist (thread_next th') p xs \<longleftrightarrow> llist (thread_next th) p xs"
    by (simp_all add: tl_rep_def tl_shape_def)
qed

lemma same_links_upd: "(\<And>x. t_next (f x) = t_next x) \<Longrightarrow> same_links th (upd_thread t f th)"
  by (simp add: same_links_def upd_thread_def)

lemma boost_thread_next [simp]: "t_next (boost_thread m x) = t_next x"
  by (simp add: boost_thread_def Let_def)

lemma boost_count_loop_ok:
  "llist (thread_next th) cur xs \<Longrightarrow>
   \<exists>m'. boost_count_loop th cur m =
      Some (\<lambda>t. if t \<in> set xs then (th t)\<lparr>t_wait := t_wait (th t) + 1\<rparr> else th t, m')"
proof (induction xs arbitrary: th cur m)
  case Nil
  then show ?case by (subst boost_count_loop.simps) simp
next
  case (Cons x xs)
  let ?th = "upd_thread x (\<lambda>x. x\<lparr>t_wait := t_wait x + 1\<rparr>) th"
  have cur: "cur = Some x" and seg: "llist (thread_next th) (thread_next th x) xs" using Cons.prems by simp_all
  have x: "x \<notin> set xs" using llist_distinct [OF Cons.prems] by simp
  have eq: "thread_next ?th = thread_next th" by (auto simp: upd_thread_def fun_eq_iff)
  have "thread_next ?th x = thread_next th x" by (simp add: upd_thread_def)
  then have "llist (thread_next ?th) (thread_next ?th x) xs" using seg eq by (simp only:)
  from Cons.IH [OF this] obtain m' where
    "boost_count_loop ?th (thread_next ?th x)
       (if t_cls (?th x) = SCHED_CLASS_NORMAL \<and> t_wait (?th x) > m then t_wait (?th x) else m) =
     Some (\<lambda>t. if t \<in> set xs then (?th t)\<lparr>t_wait := t_wait (?th t) + 1\<rparr> else ?th t, m')" by blast
  moreover have "(\<lambda>t. if t \<in> set xs then (?th t)\<lparr>t_wait := t_wait (?th t) + 1\<rparr> else ?th t) =
      (\<lambda>t. if t \<in> set (x # xs) then (th t)\<lparr>t_wait := t_wait (th t) + 1\<rparr> else th t)"
    using x by (auto simp: upd_thread_def fun_eq_iff)
  ultimately show ?case unfolding cur by (subst boost_count_loop.simps) (auto simp: Let_def)
qed

lemma boost_loop_ok:
  "llist (thread_next th) cur xs \<Longrightarrow>
   boost_loop th cur m = Some (\<lambda>t. if t \<in> set xs then boost_thread m (th t) else th t)"
proof (induction xs arbitrary: th cur)
  case Nil
  then show ?case by (subst boost_loop.simps) simp
next
  case (Cons x xs)
  let ?th = "upd_thread x (boost_thread m) th"
  have cur: "cur = Some x" and seg: "llist (thread_next th) (thread_next th x) xs" using Cons.prems by simp_all
  have x: "x \<notin> set xs" using llist_distinct [OF Cons.prems] by simp
  have eq: "thread_next ?th = thread_next th" by (auto simp: upd_thread_def fun_eq_iff)
  have "thread_next ?th x = thread_next th x" by (simp add: upd_thread_def)
  then have "llist (thread_next ?th) (thread_next ?th x) xs" using seg eq by (simp only:)
  from Cons.IH [OF this] have "boost_loop ?th (thread_next ?th x) m =
    Some (\<lambda>t. if t \<in> set xs then boost_thread m (?th t) else ?th t)" .
  moreover have "(\<lambda>t. if t \<in> set xs then boost_thread m (?th t) else ?th t) =
      (\<lambda>t. if t \<in> set (x # xs) then boost_thread m (th t) else th t)"
    using x by (auto simp: upd_thread_def fun_eq_iff)
  ultimately show ?case unfolding cur by (subst boost_loop.simps) (simp add: Let_def)
qed

end
