(* ===== verification/SchedProps.thy ===== *)
theory SchedProps
  imports SchedQueue
begin

text \<open>The properties of the scheduler.\<close>

section \<open>Boosting\<close>

lemma boost_thread_bounds:
  assumes "m > 1000" and "t_effective x \<le> 255"
  shows "t_effective x \<le> t_effective (boost_thread m x)" and "t_effective (boost_thread m x) \<le> 255"
proof -
  let ?b = "t_wait x * BOOST_AMOUNT div m"
  let ?boost = "if ?b = 0 then 1 else ?b"
  have m: "1000 < unat m" using assms(1) by (simp add: word_less_nat_alt)
  have "unat ?b = unat (t_wait x * BOOST_AMOUNT) div unat m" by (simp add: unat_div)
  also have "\<dots> \<le> unat (t_wait x * BOOST_AMOUNT) div 1000" using m by (intro div_le_mono2) simp_all
  also have "\<dots> < 4294968" using unat_less_2p32 [of "t_wait x * BOOST_AMOUNT"] by linarith
  finally have "unat ?boost < 4294968" by simp
  moreover have e: "unat (t_effective x) \<le> 255" using assms(2) by (simp add: word_le_nat_alt)
  ultimately have "unat (t_effective x + ?boost) = unat (t_effective x) + unat ?boost"
    by (intro unat_plus_u32) linarith
  then have le: "t_effective x \<le> t_effective x + ?boost" by (simp add: word_le_nat_alt)
  have "t_effective (boost_thread m x) = (if t_cls x = SCHED_CLASS_NORMAL \<and> t_wait x > STARVATION_THRESHOLD
      then if t_effective x + ?boost \<ge> MAX_PRIORITY then MAX_PRIORITY else t_effective x + ?boost
      else t_effective x)"
    by (simp add: boost_thread_def Let_def)
  then show "t_effective x \<le> t_effective (boost_thread m x)" "t_effective (boost_thread m x) \<le> 255"
    using le assms(2) by (auto simp: MAX_PRIORITY_def not_le)
qed

abbreviation waited :: "thread \<Rightarrow> thread" where
  "waited x \<equiv> x\<lparr>t_wait := t_wait x + 1\<rparr>"

lemma boost_ok:
  assumes rep: "tl_rep (th, l) xs"
  shows "\<exists>th'. sched_boost_starved_threads (th, l) = Some (th', l) \<and> same_links th th' \<and>
    (\<forall>t. t \<notin> set xs \<longrightarrow> th' t = th t) \<and>
    (\<forall>t\<in>set xs. th' t = waited (th t) \<or> (\<exists>m>1000. th' t = boost_thread m (waited (th t))))"
proof -
  have l: "llist (thread_next th) (tl_head l) xs" "tl_lock l = 0" using rep by (auto simp: tl_rep_def tl_shape_def)
  have ll: "l\<lparr>tl_lock := 0\<rparr> = l" using l(2) by (cases l) simp
  let ?th = "\<lambda>t. if t \<in> set xs then waited (th t) else th t"
  obtain m where c: "boost_count_loop th (tl_head l) 0 = Some (?th, m)"
    using boost_count_loop_ok [OF l(1)] by blast
  have sl: "same_links th ?th" by (simp add: same_links_def)
  show ?thesis
  proof (cases "m > STARVATION_THRESHOLD")
    case False
    then have "sched_boost_starved_threads (th, l) = Some (?th, l)"
      using l(2) c ll by (simp add: sched_boost_starved_threads_def)
    then show ?thesis using sl by (intro exI [of _ ?th]) simp
  next
    case True
    let ?th' = "\<lambda>t. if t \<in> set xs then boost_thread m (?th t) else ?th t"
    have "llist (thread_next ?th) (tl_head l) xs" using l(1) same_links_rep(3) [OF sl] by simp
    then have "boost_loop ?th (tl_head l) m = Some ?th'" by (rule boost_loop_ok)
    then have "sched_boost_starved_threads (th, l) = Some (?th', l)"
      using l(2) c ll True by (simp add: sched_boost_starved_threads_def)
    moreover have "same_links th ?th'" by (simp add: same_links_def)
    moreover have "m > 1000" using True by (simp add: STARVATION_THRESHOLD_def)
    ultimately show ?thesis by (intro exI [of _ ?th']) auto
  qed
qed

text \<open>One pass of the starvation boost over the ready queue terminates, leaves the queue as it
  is, never lowers an effective priority, keeps it at most 255, never touches the base priority, and
  raises only threads of the normal class that waited more than 1000 rounds.\<close>

theorem sched_boost_bounds:
  assumes "tl_rep (th, l) xs"
  shows "\<exists>th'. sched_boost_starved_threads (th, l) = Some (th', l) \<and> tl_rep (th', l) xs \<and>
    (\<forall>t. t_effective (th t) \<le> MAX_PRIORITY \<longrightarrow>
       t_effective (th t) \<le> t_effective (th' t) \<and> t_effective (th' t) \<le> MAX_PRIORITY) \<and>
    (\<forall>t. t_base (th' t) = t_base (th t)) \<and>
    (\<forall>t. t_effective (th' t) \<noteq> t_effective (th t) \<longrightarrow>
       t \<in> set xs \<and> t_cls (th t) = SCHED_CLASS_NORMAL \<and> t_wait (th t) + 1 > STARVATION_THRESHOLD)"
proof -
  from boost_ok [OF assms] obtain th' where
    r: "sched_boost_starved_threads (th, l) = Some (th', l)" and sl: "same_links th th'"
    and out: "\<And>t. t \<notin> set xs \<Longrightarrow> th' t = th t"
    and on: "\<And>t. t \<in> set xs \<Longrightarrow> th' t = waited (th t) \<or> (\<exists>m>1000. th' t = boost_thread m (waited (th t)))"
    by blast
  have "t_effective (th t) \<le> t_effective (th' t) \<and> t_effective (th' t) \<le> MAX_PRIORITY"
    if "t_effective (th t) \<le> MAX_PRIORITY" for t
    using out [of t] on [of t] that boost_thread_bounds [of _ "waited (th t)"]
    by (cases "t \<in> set xs") (auto simp: MAX_PRIORITY_def)
  moreover have "t_base (th' t) = t_base (th t)" for t
    using out [of t] on [of t] by (cases "t \<in> set xs") (auto simp: boost_thread_def Let_def)
  moreover have "t \<in> set xs \<and> t_cls (th t) = SCHED_CLASS_NORMAL \<and> t_wait (th t) + 1 > STARVATION_THRESHOLD"
    if "t_effective (th' t) \<noteq> t_effective (th t)" for t
    using out [of t] on [of t] that
    by (cases "t \<in> set xs") (auto simp: boost_thread_def Let_def split: if_splits)
  ultimately show ?thesis using r same_links_rep(1) [OF sl] assms by blast
qed

text \<open>A concrete queue of three threads.\<close>

definition demo_thread :: thread where
  "demo_thread = \<lparr>t_next = None, t_cls = SCHED_CLASS_NORMAL, t_base = 10, t_effective = 10,
     t_state = THREAD_READY, t_process = None, t_user = False, t_id = 0, t_uptime = 0, t_wait = 2000,
     t_time_slice = 0, t_wake_time = 0, t_ts_next = None, t_blocked_lock = 0, t_pi_owner = None\<rparr>"

definition demo_threads :: threads where
  "demo_threads = (\<lambda>_. demo_thread)
     (1 := demo_thread\<lparr>t_next := Some 2\<rparr>,
      2 := demo_thread\<lparr>t_next := Some 3, t_effective := 254\<rparr>,
      3 := demo_thread\<lparr>t_cls := SCHED_CLASS_REALTIME\<rparr>)"

definition demo_queue :: thread_list where
  "demo_queue = \<lparr>tl_head = Some 1, tl_tail = Some 3, tl_count = 3, tl_lock = 0\<rparr>"

lemma demo_queue_rep: "tl_rep (demo_threads, demo_queue) [1, 2, 3]"
  by (simp add: tl_rep_def tl_shape_def demo_threads_def demo_queue_def demo_thread_def)

theorem sched_boost_bounds_witness:
  "\<exists>th'. sched_boost_starved_threads (demo_threads, demo_queue) = Some (th', demo_queue) \<and>
    tl_rep (th', demo_queue) [1, 2, 3]"
  using sched_boost_bounds [OF demo_queue_rep] by blast

section \<open>Thread lists\<close>

text \<open>A thread list behaves as a first-in first-out queue: for every sequence of enqueues (of
  threads that are not on it) and dequeues, the results are those of the abstract queue, and the
  list represents what the abstract queue holds.\<close>

theorem sched_queue_is_fifo:
  assumes "tl_rep s xs" and "fresh_puts xs ops"
  shows "\<exists>s'. queue_run (\<lambda>s t. sched_enqueue s (Some t))
      (\<lambda>s. map_option (\<lambda>(r, th, l). (r, (th, l))) (sched_dequeue s)) s ops = Some (s', snd (queue_spec xs ops)) \<and>
    tl_rep s' (fst (queue_spec xs ops))"
  by (rule tq.run_refines [OF assms])

theorem sched_queue_is_fifo_witness:
  "\<exists>s'. queue_run (\<lambda>s t. sched_enqueue s (Some t))
      (\<lambda>s. map_option (\<lambda>(r, th, l). (r, (th, l))) (sched_dequeue s)) (demo_threads, demo_queue)
      [Get, Put 5, Get, Get, Get, Get] =
      Some (s', snd (queue_spec [1, 2, 3] [Get, Put 5, Get, Get, Get, Get])) \<and>
    tl_rep s' (fst (queue_spec [1, 2, 3] [Get, Put 5, Get, Get, Get, Get]))"
  by (rule sched_queue_is_fifo [OF demo_queue_rep]) simp

text \<open>\<open>sched_remove\<close> takes exactly the target out of a thread list, wherever it stands,
  keeps the order of the others and returns the target; if the target is not on the list it returns
  null and changes nothing.\<close>

theorem sched_remove_correct:
  assumes "tl_rep (th, l) xs"
  shows "\<exists>th' l'. sched_remove (th, l) (Some t) = Some (if t \<in> set xs then Some t else None, th', l') \<and>
    tl_rep (th', l') (remove1 t xs) \<and> same_data th th' \<and> (t \<notin> set xs \<longrightarrow> th' = th \<and> l' = l)"
proof (cases "t \<in> set xs")
  case True
  then obtain us vs where xs: "xs = us @ t # vs" "t \<notin> set us" by (auto dest: split_list_first)
  with sched_remove_ok [of th l us t vs] assms show ?thesis by (auto simp: remove1_append)
next
  case False
  with sched_remove_absent [OF assms] assms show ?thesis by (simp add: remove1_idem)
qed

theorem sched_remove_correct_witness:
  "\<exists>th' l'. sched_remove (demo_threads, demo_queue) (Some 2) = Some (Some 2, th', l') \<and>
    tl_rep (th', l') [1, 3]"
  using sched_remove_correct [OF demo_queue_rep, of 2] by auto

section \<open>Selection\<close>

lemma best_split_cong:
  assumes "\<And>t. t \<in> set xs \<Longrightarrow> t_cls (th' t) = t_cls (th t) \<and> t_effective (th' t) = t_effective (th t)"
  shows "best_split th' xs us b vs \<longleftrightarrow> best_split th xs us b vs"
proof (cases "xs = us @ b # vs")
  case True
  then have "outranks th' x y \<longleftrightarrow> outranks th x y" if "x \<in> set xs" "y \<in> set xs" for x y
    using assms that by (simp add: outranks_def)
  with True show ?thesis by (simp add: best_split_def)
qed (simp add: best_split_def)

lemma assign_time_slice_fields [simp]:
  "t_next (sched_assign_time_slice x) = t_next x" "t_cls (sched_assign_time_slice x) = t_cls x"
  "t_effective (sched_assign_time_slice x) = t_effective x" "t_process (sched_assign_time_slice x) = t_process x"
  "t_state (sched_assign_time_slice x) = t_state x"
  by (simp_all add: sched_assign_time_slice_def split: sched_class.split)

lemma select_next_empty:
  assumes rep: "tl_rep (th, l) []"
  shows "sched_select_next (th, l) = Some (None, th, l)"
proof -
  from boost_ok [OF rep] obtain th' where "sched_boost_starved_threads (th, l) = Some (th', l)" "\<forall>t. th' t = th t"
    by auto
  moreover then have "th' = th" by auto
  moreover have "l\<lparr>tl_lock := 0\<rparr> = l" using rep by (cases l) (simp add: tl_rep_def)
  ultimately show ?thesis
    using rep by (simp add: sched_select_next_def sched_select_by_time_slice_def tl_rep_def tl_shape_def)
qed

lemma select_next_ok:
  assumes rep: "tl_rep (th, l) xs" and ne: "xs \<noteq> []" and short: "length xs < 4294967296"
  shows "\<exists>th' l' us b vs. sched_select_next (th, l) = Some (Some b, th', l') \<and> best_split th' xs us b vs \<and>
    tl_rep (th', l') (us @ vs) \<and> (\<forall>t. t \<notin> set xs \<longrightarrow> th' t = th t) \<and>
    (\<forall>t. t_process (th' t) = t_process (th t) \<and> t_state (th' t) = t_state (th t))"
proof -
  from boost_ok [OF rep] obtain th1 where b1: "sched_boost_starved_threads (th, l) = Some (th1, l)"
    and sl: "same_links th th1" and out: "\<And>t. t \<notin> set xs \<Longrightarrow> th1 t = th t"
    and on: "\<And>t. t \<in> set xs \<Longrightarrow> th1 t = waited (th t) \<or> (\<exists>m>1000. th1 t = boost_thread m (waited (th t)))"
    by blast
  have d1: "t_process (th1 t) = t_process (th t) \<and> t_state (th1 t) = t_state (th t)" for t
    using out [of t] on [of t] by (cases "t \<in> set xs") (auto simp: boost_thread_def Let_def)
  have lk: "tl_lock l = 0" and sh: "tl_shape (th1, l) xs"
    using rep same_links_rep(2) [OF sl] by (simp_all add: tl_rep_def)
  let ?l = "l\<lparr>tl_lock := 1\<rparr>"
  have seg: "llist (thread_next th1) (tl_head ?l) xs" using sh by (simp add: tl_shape_def)
  from sched_find_best_ok [OF seg ne] obtain us b vs where
    fb: "sched_find_best_thread th1 ?l = Some (Some b, prev_of us)" and bs: "best_split th1 xs us b vs" by blast
  have xs: "xs = us @ b # vs" using bs by (simp add: best_split_def)
  have "tl_shape (th1, ?l) (us @ b # vs)" using sh xs by simp
  from sched_unlink_ok [OF this] short xs obtain th2 l2 where
    ul: "sched_unlink_thread (th1, ?l) b (prev_of us) = (th2, l2)" and sh2: "tl_shape (th2, l2) (us @ vs)"
    and sd: "same_data th1 th2" and lk2: "tl_lock l2 = 1"
    and oth: "\<forall>u. u \<noteq> b \<and> u \<notin> set us \<longrightarrow> th2 u = th1 u"
    by (auto simp: prev_of_def)
  let ?th = "upd_thread b sched_assign_time_slice th2"
  have hd: "tl_head ?l \<noteq> None" using seg ne by (intro notI) simp
  then have sel: "sched_select_by_time_slice (th1, ?l) = Some (Some b, ?th, l2)"
    using fb ul by (simp add: sched_select_by_time_slice_def)
  have ret: "sched_select_next (th, l) = Some (Some b, ?th, l2\<lparr>tl_lock := 0\<rparr>)"
    using b1 lk sel by (simp add: sched_select_next_def)
  have "same_links th2 ?th" by (rule same_links_upd) simp
  then have "tl_rep (?th, l2\<lparr>tl_lock := 0\<rparr>) (us @ vs)"
    using sh2 same_links_rep(2) by (simp add: tl_rep_def)
  moreover have f: "t_cls (?th t) = t_cls (th1 t) \<and> t_effective (?th t) = t_effective (th1 t) \<and>
      t_process (?th t) = t_process (th1 t) \<and> t_state (?th t) = t_state (th1 t)" for t
    using same_dataD [OF sd, of t] by (cases "t = b") (simp_all add: upd_thread_def)
  then have "best_split ?th xs us b vs" using bs best_split_cong [of xs ?th th1] by simp
  moreover have "?th t = th t" if "t \<notin> set xs" for t
    using that oth out [OF that] xs by (auto simp: upd_thread_def)
  ultimately show ?thesis using ret f d1 by metis
qed


section \<open>Yielding\<close>

lemma schedule_ok:
  assumes cur: "current_thread s = Some c" and rep: "tl_rep (threads s, ready_queue s) xs"
    and ne: "xs \<noteq> []" and short: "length xs < 4294967296"
    and pds: "\<And>t. t \<in> set xs \<Longrightarrow> proc_pd s (t_process (threads s t)) \<noteq> None"
  shows "\<exists>s' us b vs. sched_schedule s = Some s' \<and> current_thread s' = Some b \<and>
    best_split (threads s') xs us b vs \<and> tl_rep (threads s', ready_queue s') (us @ vs) \<and>
    (b \<noteq> c \<longrightarrow> current_process s' = t_process (threads s b) \<and> t_wait (threads s' b) = 0 \<and>
       Some (loaded_pd s') = proc_pd s (t_process (threads s b))) \<and>
    (b = c \<longrightarrow> current_process s' = current_process s \<and> loaded_pd s' = loaded_pd s) \<and>
    sleep_queue s' = sleep_queue s \<and> idle_thread s' = idle_thread s \<and> ticks s' = ticks s \<and>
    (\<forall>t. t \<notin> set xs \<longrightarrow> threads s' t = threads s t) \<and>
    (\<forall>t. t_state (threads s' t) = t_state (threads s t))"
proof -
  from select_next_ok [OF rep ne short] obtain th l us b vs where
    sel: "sched_select_next (threads s, ready_queue s) = Some (Some b, th, l)" and bs: "best_split th xs us b vs"
    and r: "tl_rep (th, l) (us @ vs)" and out: "\<And>t. t \<notin> set xs \<Longrightarrow> th t = threads s t"
    and st: "\<And>t. t_state (th t) = t_state (threads s t)" and pr: "\<And>t. t_process (th t) = t_process (threads s t)" by blast
  have xs: "xs = us @ b # vs" using bs by (simp add: best_split_def)
  let ?s = "s\<lparr>threads := th, ready_queue := l\<rparr>"
  show ?thesis
  proof (cases "b = c")
    case True
    have "sched_schedule s = Some ?s" using sel cur True by (simp add: sched_schedule_def)
    then show ?thesis
      using cur True bs r out st by (intro exI [of _ ?s] exI [of _ us] exI [of _ b] exI [of _ vs]) simp
  next
    case False
    let ?th = "upd_thread b (\<lambda>x. x\<lparr>t_wait := 0\<rparr>) th"
    have "b \<in> set xs" using xs by simp
    then obtain pd where pd: "proc_pd s (t_process (threads s b)) = Some pd" using pds by fastforce
    let ?s' = "?s\<lparr>threads := ?th, current_thread := Some b, current_process := t_process (?th b), loaded_pd := pd\<rparr>"
    have tp: "t_process (?th b) = t_process (threads s b)" by (simp add: upd_thread_def pr)
    have "sched_schedule s = Some ?s'"
      using sel cur False pd tp by (simp add: sched_schedule_def sched_determine_and_switch_def)
    moreover have "best_split ?th xs us b vs"
      using bs best_split_cong [of xs ?th th] by (simp add: upd_thread_def)
    moreover have "same_links th ?th" by (rule same_links_upd) simp
    then have "tl_rep (?th, l) (us @ vs)" using r same_links_rep(1) by blast
    moreover have "?th t = threads s t" if "t \<notin> set xs" for t
      using that out xs by (auto simp: upd_thread_def)
    moreover have "t_state (?th t) = t_state (threads s t)" for t using st by (simp add: upd_thread_def)
    ultimately show ?thesis
      using False pd tp by (intro exI [of _ ?s'] exI [of _ us] exI [of _ b] exI [of _ vs]) (simp add: upd_thread_def)
  qed
qed

lemma enqueue_ready_ok:
  assumes rep: "tl_rep (threads s, ready_queue s) xs" and t: "t \<notin> set xs"
  shows "\<exists>s'. enqueue_ready s t = Some s' \<and> tl_rep (threads s', ready_queue s') (xs @ [t]) \<and>
    same_data (threads s) (threads s') \<and> (\<forall>u. u \<noteq> t \<and> u \<notin> set xs \<longrightarrow> threads s' u = threads s u) \<and>
    s' = s\<lparr>threads := threads s', ready_queue := ready_queue s'\<rparr>"
proof -
  from tl_append_ok [OF rep t] obtain th l where
    a: "tl_append (threads s, ready_queue s) t = Some (th, l)" and "tl_rep (th, l) (xs @ [t])"
    and "same_data (threads s) th" and "\<forall>u. u \<noteq> t \<and> u \<notin> set xs \<longrightarrow> th u = threads s u" by blast
  then show ?thesis
    by (intro exI [of _ "s\<lparr>threads := th, ready_queue := l\<rparr>"]) (simp add: enqueue_ready_def sched_enqueue_def)
qed

text \<open>C5: When a thread other than the idle thread yields, and the process of every thread that may run next
  has an address space, no thread is lost: the next thread to run
  is the first of the most preferred among the ready ones and the yielding one (class first, then
  effective priority), and the others stay on the ready queue in their order, the yielding thread
  last. If that is another thread, its process is the current one and the page directory of that process is loaded.\<close>

theorem sched_yield_correct:
  assumes "current_thread s = Some c" and "idle_thread s \<noteq> Some c"
    and "tl_rep (threads s, ready_queue s) xs" and "c \<notin> set xs" and "length xs < 4294967295"
    and "\<forall>t\<in>insert c (set xs). proc_pd s (t_process (threads s t)) \<noteq> None"
  shows "\<exists>s' us b vs. sched_yield s = Some s' \<and> current_thread s' = Some b \<and>
    best_split (threads s') (xs @ [c]) us b vs \<and> tl_rep (threads s', ready_queue s') (us @ vs) \<and>
    (b \<noteq> c \<longrightarrow> current_process s' = t_process (threads s b) \<and> t_wait (threads s' b) = 0 \<and>
       Some (loaded_pd s') = proc_pd s (t_process (threads s b))) \<and>
    (b = c \<longrightarrow> current_process s' = current_process s \<and> loaded_pd s' = loaded_pd s) \<and>
    sleep_queue s' = sleep_queue s"
proof -
  from enqueue_ready_ok [OF assms(3,4)] obtain s1 where
    e: "enqueue_ready s c = Some s1" and r: "tl_rep (threads s1, ready_queue s1) (xs @ [c])"
    and sd: "same_data (threads s) (threads s1)"
    and s1: "s1 = s\<lparr>threads := threads s1, ready_queue := ready_queue s1\<rparr>" by blast
  have c1: "current_thread s1 = Some c" by (subst s1) (simp add: assms(1))
  have q1: "sleep_queue s1 = sleep_queue s" by (subst s1) simp
  have k1: "proc_pd s1 = proc_pd s" "current_process s1 = current_process s" "loaded_pd s1 = loaded_pd s" by (subst s1, simp)+
  have t1: "t_process (threads s1 t) = t_process (threads s t)" for t using same_dataD [OF sd, of t] by simp
  have pds: "proc_pd s1 (t_process (threads s1 t)) \<noteq> None" if "t \<in> set (xs @ [c])" for t
    using that assms(6) by (auto simp: k1 t1)
  have short: "length (xs @ [c]) < 4294967296" using assms(5) by simp
  have "sched_yield s = sched_schedule s1" using assms(1,2) e by (simp add: sched_yield_def)
  with schedule_ok [OF c1 r _ short pds] q1 show ?thesis unfolding k1 t1 by fastforce
qed

definition demo_sched :: scheduler where
  "demo_sched = \<lparr>threads = demo_threads, ready_queue = demo_queue,
     sleep_queue = \<lparr>tl_head = None, tl_tail = None, tl_count = 0, tl_lock = 0\<rparr>,
     kernel_threads = \<lparr>tl_head = None, tl_tail = None, tl_count = 0, tl_lock = 0\<rparr>,
     user_threads = \<lparr>tl_head = None, tl_tail = None, tl_count = 0, tl_lock = 0\<rparr>,
     next_tid = 5, idle_thread = Some 9, current_thread = Some 4, current_process = None, ticks = 100,
     proc_pd = (\<lambda>_. Some 0x2000), loaded_pd = 0x1000\<rparr>"

lemma demo_sched_reps:
  "tl_rep (threads demo_sched, ready_queue demo_sched) [1, 2, 3]"
  "tl_rep (threads demo_sched, sleep_queue demo_sched) []"
  using demo_queue_rep by (simp_all add: demo_sched_def tl_rep_def tl_shape_def)

theorem sched_yield_correct_witness:
  "\<exists>s' b. sched_yield demo_sched = Some s' \<and> current_thread s' = Some b \<and>
    sleep_queue s' = sleep_queue demo_sched"
  using sched_yield_correct [OF _ _ demo_sched_reps(1), of 4] by (auto simp: demo_sched_def)

section \<open>Sleeping\<close>

text \<open>A thread that goes to sleep stays runnable: \<open>sched_thread_sleep\<close> puts it on the sleep
  queue and then yields, which puts it on the ready queue too. When no other thread is ready, it is
  chosen again at once, so the call returns without having slept, although the thread is marked as
  sleeping and is the last of the sleep queue.\<close>

theorem sched_thread_sleep_stays_runnable:
  assumes "current_thread s = Some c" and "idle_thread s \<noteq> Some c" and "ms \<noteq> 0"
    and "tl_rep (threads s, ready_queue s) xs" and "tl_rep (threads s, sleep_queue s) ys"
    and "c \<notin> set xs" and "c \<notin> set ys" and "set xs \<inter> set ys = {}" and "length xs < 4294967295"
    and "\<forall>t\<in>insert c (set xs). proc_pd s (t_process (threads s t)) \<noteq> None"
  shows "\<exists>s' us b vs. sched_thread_sleep s ms = Some s' \<and> current_thread s' = Some b \<and>
    xs @ [c] = us @ b # vs \<and> tl_rep (threads s', ready_queue s') (us @ vs) \<and>
    t_state (threads s' c) = THREAD_SLEEPING \<and> tl_tail (sleep_queue s') = Some c \<and>
    (xs = [] \<longrightarrow> current_thread s' = Some c)"
proof -
  let ?th0 = "upd_thread c (\<lambda>x. x\<lparr>t_wake_time := ticks s + ucast ms, t_state := THREAD_SLEEPING\<rparr>) (threads s)"
  have sl: "same_links (threads s) ?th0" by (rule same_links_upd) simp
  have r0: "tl_rep (?th0, ready_queue s) xs" "tl_rep (?th0, sleep_queue s) ys"
    using assms(4,5) same_links_rep(1) [OF sl] by simp_all
  from tl_append_ok [OF r0(2) assms(7)] obtain th1 l1 where
    a: "tl_append (?th0, sleep_queue s) c = Some (th1, l1)" and r1: "tl_rep (th1, l1) (ys @ [c])"
    and sd: "same_data ?th0 th1" and o1: "\<forall>u. u \<noteq> c \<and> u \<notin> set ys \<longrightarrow> th1 u = ?th0 u" by blast
  let ?s1 = "s\<lparr>threads := th1, sleep_queue := l1\<rparr>"
  have "tl_rep (th1, ready_queue s) xs \<longleftrightarrow> tl_rep (?th0, ready_queue s) xs"
    by (rule tl_rep_cong) (use o1 assms(6,8) in force)
  then have r2: "tl_rep (threads ?s1, ready_queue ?s1) xs" using r0(1) by simp
  have sleeping: "t_state (th1 c) = THREAD_SLEEPING"
    using same_dataD(4) [OF sd, of c] by (simp add: upd_thread_def)
  from enqueue_ready_ok [OF r2 assms(6)] obtain s2 where
    e: "enqueue_ready ?s1 c = Some s2" and r3: "tl_rep (threads s2, ready_queue s2) (xs @ [c])"
    and sd2: "same_data (threads ?s1) (threads s2)"
    and s2: "s2 = ?s1\<lparr>threads := threads s2, ready_queue := ready_queue s2\<rparr>" by blast
  have c2: "current_thread s2 = Some c" by (subst s2) (simp add: assms(1))
  have q2: "sleep_queue s2 = l1" by (subst s2) simp
  have st2: "t_state (threads s2 c) = THREAD_SLEEPING" using same_dataD(4) [OF sd2, of c] sleeping by simp
  have short: "length (xs @ [c]) < 4294967296" using assms(9) by simp
  have k2: "proc_pd s2 = proc_pd s" by (subst s2) simp
  have t2: "t_process (threads s2 t) = t_process (threads s t)" for t
    using same_dataD [OF sd, of t] same_dataD [OF sd2, of t] by (simp add: upd_thread_def)
  have pds: "proc_pd s2 (t_process (threads s2 t)) \<noteq> None" if "t \<in> set (xs @ [c])" for t
    using that assms(10) by (auto simp: k2 t2)
  from schedule_ok [OF c2 r3 _ short pds] obtain s' us b vs where
    sc: "sched_schedule s2 = Some s'" "current_thread s' = Some b" "best_split (threads s') (xs @ [c]) us b vs"
    "tl_rep (threads s', ready_queue s') (us @ vs)" "sleep_queue s' = sleep_queue s2"
    "\<forall>t. t_state (threads s' t) = t_state (threads s2 t)" by auto
  have "sched_thread_sleep s ms = sched_yield ?s1"
    using assms(1,3) a by (simp add: sched_thread_sleep_def sched_enqueue_def Let_def)
  also have "\<dots> = Some s'" using assms(1,2) e sc(1) by (simp add: sched_yield_def)
  finally have ret: "sched_thread_sleep s ms = Some s'" .
  have sp: "xs @ [c] = us @ b # vs" using sc(3) by (simp add: best_split_def)
  have "tl_tail l1 = Some c" using r1 by (simp add: tl_rep_def tl_shape_def)
  moreover have "xs = [] \<longrightarrow> b = c" using sp by (auto simp: Cons_eq_append_conv)
  ultimately show ?thesis using ret sc sp st2 q2 by (intro exI [of _ s'] exI [of _ us] exI [of _ b] exI [of _ vs]) auto
qed

theorem sched_thread_sleep_stays_runnable_witness:
  "\<exists>s' us b vs. sched_thread_sleep demo_sched 50 = Some s' \<and> current_thread s' = Some b \<and>
    [1, 2, 3] @ [4] = us @ b # vs \<and> tl_rep (threads s', ready_queue s') (us @ vs) \<and>
    t_state (threads s' 4) = THREAD_SLEEPING \<and> tl_tail (sleep_queue s') = Some 4 \<and>
    ([1, 2, 3 :: nat] = [] \<longrightarrow> current_thread s' = Some 4)"
  by (rule sched_thread_sleep_stays_runnable [OF _ _ _ demo_sched_reps]) (simp_all add: demo_sched_def)


section \<open>The tick\<close>

text \<open>The state of the walk over the sleep queue: \<open>keep\<close> stays asleep, \<open>rest\<close> is still to be
  looked at; the lock of the sleep queue is held.\<close>

definition tick_state :: "scheduler \<Rightarrow> nat list \<Rightarrow> nat list \<Rightarrow> nat list \<Rightarrow> bool" where
  "tick_state s keep rest ready \<longleftrightarrow>
     tl_shape (threads s, sleep_queue s) (keep @ rest) \<and> tl_lock (sleep_queue s) = 1 \<and>
     tl_rep (threads s, ready_queue s) ready \<and> set (keep @ rest) \<inter> set ready = {} \<and>
     length (keep @ rest) < 4294967296"

definition due :: "scheduler \<Rightarrow> nat \<Rightarrow> bool" where
  "due s t \<longleftrightarrow> t_wake_time (threads s t) \<le> ticks s"

lemma shape_next:
  assumes "tl_shape (th, l) (keep @ rest)"
  shows "(case prev_of keep of Some p \<Rightarrow> thread_next th p | None \<Rightarrow> tl_head l) =
    (case rest of [] \<Rightarrow> None | r # _ \<Rightarrow> Some r)"
proof (cases keep rule: rev_cases)
  case Nil
  then show ?thesis using assms by (cases rest) (auto simp: tl_shape_def prev_of_def)
next
  case (snoc ks k)
  then have "llist (thread_next th) (tl_head l) (ks @ k # rest)" using assms by (simp add: tl_shape_def)
  from llist_next_split [OF this] show ?thesis using snoc by (simp add: prev_of_def)
qed

lemma process_sleep_wake:
  assumes st: "tick_state s keep (t # rest) ready" and due: "due s t"
  shows "\<exists>s'. sched_process_sleep_thread s t (prev_of keep) = Some (prev_of keep, s') \<and>
    tick_state s' keep rest (ready @ [t]) \<and> ticks s' = ticks s \<and>
    (\<forall>u. t_wake_time (threads s' u) = t_wake_time (threads s u)) \<and>
    t_state (threads s' t) = THREAD_READY \<and>
    (\<forall>u. u \<noteq> t \<longrightarrow> t_state (threads s' u) = t_state (threads s u))"
proof -
  have sh: "tl_shape (threads s, sleep_queue s) (keep @ t # rest)" and lk: "tl_lock (sleep_queue s) = 1"
    and rr: "tl_rep (threads s, ready_queue s) ready" and dis: "set (keep @ t # rest) \<inter> set ready = {}"
    and short: "length (keep @ t # rest) < 4294967296"
    using st by (simp_all add: tick_state_def)
  have dist: "distinct (keep @ t # rest)" using sh by (rule tl_shape_distinct)
  from sched_unlink_ok [OF sh short] obtain th1 l1 where
    ul: "sched_unlink_thread (threads s, sleep_queue s) t (prev_of keep) = (th1, l1)"
    and sh1: "tl_shape (th1, l1) (keep @ rest)" and sd: "same_data (threads s) th1"
    and lk1: "tl_lock l1 = 1" and o1: "\<forall>u. u \<noteq> t \<and> u \<notin> set keep \<longrightarrow> th1 u = threads s u"
    using lk by (auto simp: prev_of_def)
  let ?s1 = "set_state t THREAD_READY (s\<lparr>threads := th1, sleep_queue := l1\<rparr>)"
  have th1: "threads ?s1 = upd_thread t (\<lambda>x. x\<lparr>t_state := THREAD_READY\<rparr>) th1"
    "ready_queue ?s1 = ready_queue s" "sleep_queue ?s1 = l1" "ticks ?s1 = ticks s"
    by (simp_all add: set_state_def)
  have tr: "t \<notin> set ready" using dis by auto
  have sl: "same_links th1 (threads ?s1)" unfolding th1 by (rule same_links_upd) simp
  have "tl_rep (th1, ready_queue s) ready \<longleftrightarrow> tl_rep (threads s, ready_queue s) ready"
    by (rule tl_rep_cong) (use o1 dis in force)
  then have r1: "tl_rep (threads ?s1, ready_queue ?s1) ready"
    using rr same_links_rep(1) [OF sl] th1(2) by simp
  from enqueue_ready_ok [OF r1 tr] obtain s2 where
    e: "enqueue_ready ?s1 t = Some s2" and r2: "tl_rep (threads s2, ready_queue s2) (ready @ [t])"
    and sd2: "same_data (threads ?s1) (threads s2)"
    and o2: "\<forall>u. u \<noteq> t \<and> u \<notin> set ready \<longrightarrow> threads s2 u = threads ?s1 u"
    and s2: "s2 = ?s1\<lparr>threads := threads s2, ready_queue := ready_queue s2\<rparr>" by blast
  have f2: "sleep_queue s2 = l1" "ticks s2 = ticks s" by (subst s2, simp add: th1)+
  have "llist (thread_next (threads s2)) (tl_head l1) (keep @ rest) =
      llist (thread_next (threads ?s1)) (tl_head l1) (keep @ rest)"
    by (rule lseg_cong) (use o2 dis dist in force)
  moreover have "llist (thread_next (threads ?s1)) (tl_head l1) (keep @ rest)"
    using sh1 same_links_rep(3) [OF sl, of "tl_head l1" "keep @ rest"] unfolding tl_shape_def by blast
  ultimately have seg2: "llist (thread_next (threads s2)) (tl_head l1) (keep @ rest)" by blast
  have "tl_shape (threads s2, l1) (keep @ rest)"
    using sh1 seg2 unfolding tl_shape_def by blast
  then have st2: "tick_state s2 keep rest (ready @ [t])"
    using f2 lk1 r2 dis dist short by (auto simp: tick_state_def)
  have ret: "sched_process_sleep_thread s t (prev_of keep) = Some (prev_of keep, s2)"
    using due ul e by (simp add: sched_process_sleep_thread_def due_def)
  have w: "t_wake_time (threads s2 u) = t_wake_time (threads s u)" for u
    using same_dataD(6) [OF sd, of u] same_dataD(6) [OF sd2, of u] unfolding th1 by (simp add: upd_thread_def split: if_splits)
  have st_t: "t_state (threads s2 t) = THREAD_READY"
    using same_dataD(4) [OF sd2, of t] unfolding th1 by (simp add: upd_thread_def)
  have st_u: "t_state (threads s2 u) = t_state (threads s u)" if "u \<noteq> t" for u
    using same_dataD(4) [OF sd, of u] same_dataD(4) [OF sd2, of u] that unfolding th1 by (simp add: upd_thread_def)
  show ?thesis using ret st2 f2 w st_t st_u by blast
qed

lemma sched_tick_loop_ok:
  "tick_state s keep rest ready \<Longrightarrow>
   \<exists>s'. sched_tick_loop s (prev_of keep) (case rest of [] \<Rightarrow> None | r # _ \<Rightarrow> Some r) = Some s' \<and>
     tick_state s' (keep @ filter (\<lambda>t. \<not> due s t) rest) [] (ready @ filter (due s) rest) \<and>
     ticks s' = ticks s \<and>
     (\<forall>u. t_state (threads s' u) = (if u \<in> set rest \<and> due s u then THREAD_READY else t_state (threads s u)))"
proof (induction rest arbitrary: s keep ready)
  case Nil
  then show ?case by (subst sched_tick_loop.simps) simp
next
  case (Cons t rest)
  have nt: "t \<notin> set rest"
    using tl_shape_distinct [of "threads s" "sleep_queue s" "keep @ t # rest"] Cons.prems
    by (simp add: tick_state_def)
  show ?case
  proof (cases "due s t")
    case True
    from process_sleep_wake [OF Cons.prems True] obtain s1 where
      p: "sched_process_sleep_thread s t (prev_of keep) = Some (prev_of keep, s1)"
      and st: "tick_state s1 keep rest (ready @ [t])" and tk: "ticks s1 = ticks s"
      and w: "\<And>u. t_wake_time (threads s1 u) = t_wake_time (threads s u)"
      and st1: "t_state (threads s1 t) = THREAD_READY"
      and st2: "\<And>u. u \<noteq> t \<Longrightarrow> t_state (threads s1 u) = t_state (threads s u)" by blast
    have due1: "due s1 = due s" by (simp add: due_def tk w fun_eq_iff)
    have nx: "(case prev_of keep of Some p \<Rightarrow> thread_next (threads s1) p | None \<Rightarrow> tl_head (sleep_queue s1)) =
        (case rest of [] \<Rightarrow> None | r # _ \<Rightarrow> Some r)"
      using shape_next [of "threads s1" "sleep_queue s1" keep rest] st by (simp add: tick_state_def)
    from Cons.IH [OF st] obtain s' where
      lp: "sched_tick_loop s1 (prev_of keep) (case rest of [] \<Rightarrow> None | r # _ \<Rightarrow> Some r) = Some s'"
      and r: "tick_state s' (keep @ filter (\<lambda>t. \<not> due s t) rest) [] ((ready @ [t]) @ filter (due s) rest)"
      and tk': "ticks s' = ticks s1"
      and st': "\<And>u. t_state (threads s' u) = (if u \<in> set rest \<and> due s u then THREAD_READY else t_state (threads s1 u))"
      unfolding due1 by blast
    have "sched_tick_loop s (prev_of keep) (Some t) = Some s'"
      using p nx lp by (subst sched_tick_loop.simps) simp
    moreover have "t_state (threads s' u) =
        (if u \<in> set (t # rest) \<and> due s u then THREAD_READY else t_state (threads s u))" for u
      using st' [of u] st1 st2 [of u] True by (cases "u = t") simp_all
    ultimately show ?thesis using r tk tk' True by (intro exI [of _ s']) simp
  next
    case False
    have p: "sched_process_sleep_thread s t (prev_of keep) = Some (prev_of (keep @ [t]), s)"
      using False by (simp add: sched_process_sleep_thread_def due_def prev_of_def)
    have st: "tick_state s (keep @ [t]) rest ready" using Cons.prems by (simp add: tick_state_def)
    have nx: "(case prev_of (keep @ [t]) of Some p \<Rightarrow> thread_next (threads s) p | None \<Rightarrow> tl_head (sleep_queue s)) =
        (case rest of [] \<Rightarrow> None | r # _ \<Rightarrow> Some r)"
      using shape_next [of "threads s" "sleep_queue s" "keep @ [t]" rest] st by (simp add: tick_state_def)
    from Cons.IH [OF st] obtain s' where
      lp: "sched_tick_loop s (prev_of (keep @ [t])) (case rest of [] \<Rightarrow> None | r # _ \<Rightarrow> Some r) = Some s'"
      and r: "tick_state s' ((keep @ [t]) @ filter (\<lambda>t. \<not> due s t) rest) [] (ready @ filter (due s) rest)"
      and tk': "ticks s' = ticks s"
      and st': "\<And>u. t_state (threads s' u) = (if u \<in> set rest \<and> due s u then THREAD_READY else t_state (threads s u))"
      by blast
    have "sched_tick_loop s (prev_of keep) (Some t) = Some s'"
      using p nx lp by (subst sched_tick_loop.simps) simp
    then show ?thesis using r tk' st' False by (intro exI [of _ s']) auto
  qed
qed

text \<open>C6: A timer tick advances the clock by one and moves exactly the sleeping threads whose wake
  time has come from the sleep queue to the end of the ready queue, in their order, marked as ready;
  the others stay asleep in their order.\<close>

theorem sched_tick_correct:
  assumes "tl_rep (threads s, sleep_queue s) ys" and "tl_rep (threads s, ready_queue s) xs"
    and "set ys \<inter> set xs = {}" and "length ys < 4294967296"
  defines "woken \<equiv> \<lambda>t. t_wake_time (threads s t) \<le> ticks s + 1"
  shows "\<exists>s'. sched_tick s = Some s' \<and> ticks s' = ticks s + 1 \<and>
    tl_rep (threads s', sleep_queue s') (filter (\<lambda>t. \<not> woken t) ys) \<and>
    tl_rep (threads s', ready_queue s') (xs @ filter woken ys) \<and>
    (\<forall>t. t_state (threads s' t) = (if t \<in> set ys \<and> woken t then THREAD_READY else t_state (threads s t)))"
proof -
  let ?s1 = "s\<lparr>ticks := ticks s + 1, sleep_queue := (sleep_queue s)\<lparr>tl_lock := 1\<rparr>\<rparr>"
  have lk: "tl_lock (sleep_queue s) = 0" and sh: "tl_shape (threads s, sleep_queue s) ys"
    using assms(1) by (simp_all add: tl_rep_def)
  have st: "tick_state ?s1 [] ys xs" using sh assms(2-4) by (simp add: tick_state_def)
  have d: "due ?s1 = woken" by (simp add: due_def woken_def fun_eq_iff)
  have hd: "tl_head (sleep_queue s) = (case ys of [] \<Rightarrow> None | r # _ \<Rightarrow> Some r)"
    using assms(1) by (rule tl_rep_head)
  from sched_tick_loop_ok [OF st] obtain s2 where
    lp: "sched_tick_loop ?s1 None (tl_head (sleep_queue s)) = Some s2"
    and st2: "tick_state s2 (filter (\<lambda>t. \<not> woken t) ys) [] (xs @ filter woken ys)"
    and tk: "ticks s2 = ticks s + 1"
    and f: "\<forall>u. t_state (threads s2 u) = (if u \<in> set ys \<and> woken u then THREAD_READY else t_state (threads s u))"
    unfolding d hd prev_of_def by auto
  let ?s' = "s2\<lparr>sleep_queue := (sleep_queue s2)\<lparr>tl_lock := 0\<rparr>\<rparr>"
  have "sched_tick s = Some ?s'" using lk lp by (simp add: sched_tick_def Let_def)
  moreover have "tl_rep (threads ?s', sleep_queue ?s') (filter (\<lambda>t. \<not> woken t) ys)"
    using st2 by (simp add: tick_state_def tl_rep_def)
  moreover have "tl_rep (threads ?s', ready_queue ?s') (xs @ filter woken ys)"
    using st2 by (simp add: tick_state_def)
  ultimately show ?thesis using tk f by (intro exI [of _ ?s']) simp
qed

text \<open>Threads 5, 6 and 7 asleep until ticks 50, 200 and 101, with the clock at 100.\<close>

definition demo_asleep :: scheduler where
  "demo_asleep = demo_sched
     \<lparr>threads := demo_threads(5 := demo_thread\<lparr>t_next := Some 6, t_wake_time := 50\<rparr>,
        6 := demo_thread\<lparr>t_next := Some 7, t_wake_time := 200\<rparr>, 7 := demo_thread\<lparr>t_wake_time := 101\<rparr>),
      sleep_queue := \<lparr>tl_head = Some 5, tl_tail = Some 7, tl_count = 3, tl_lock = 0\<rparr>\<rparr>"

lemma demo_asleep_reps:
  "tl_rep (threads demo_asleep, sleep_queue demo_asleep) [5, 6, 7]"
  "tl_rep (threads demo_asleep, ready_queue demo_asleep) [1, 2, 3]"
  by (simp_all add: demo_asleep_def demo_sched_def demo_threads_def demo_thread_def demo_queue_def
      tl_rep_def tl_shape_def)

theorem sched_tick_correct_witness:
  "\<exists>s'. sched_tick demo_asleep = Some s' \<and> ticks s' = ticks demo_asleep + 1 \<and>
    tl_rep (threads s', sleep_queue s') (filter (\<lambda>t. \<not> t_wake_time (threads demo_asleep t) \<le> ticks demo_asleep + 1) [5, 6, 7]) \<and>
    tl_rep (threads s', ready_queue s')
      ([1, 2, 3] @ filter (\<lambda>t. t_wake_time (threads demo_asleep t) \<le> ticks demo_asleep + 1) [5, 6, 7]) \<and>
    (\<forall>t. t_state (threads s' t) =
      (if t \<in> set [5, 6, 7] \<and> t_wake_time (threads demo_asleep t) \<le> ticks demo_asleep + 1 then THREAD_READY
       else t_state (threads demo_asleep t)))"
  by (rule sched_tick_correct [OF demo_asleep_reps]) simp_all

section \<open>One link for two lists\<close>

text \<open>A thread has one \<open>next\<close> link, but \<open>sched_create_user_thread\<close> puts it on two lists,
  that of its process and that of all user threads. When the last thread \<open>a\<close> of a process's list
  \<open>p\<close> is also the last of the list of all user threads, adding a thread \<open>t\<close> of another process to
  the latter makes \<open>t\<close> reachable from the list of the first process as well.\<close>

theorem shared_link_leaks_thread:
  assumes "tl_rep (th, p) (us @ [a])" and "tl_rep (th, all) (ws @ [a])" and "t \<notin> set (us @ [a])" and "t \<notin> set (ws @ [a])"
  shows "\<exists>th' all'. sched_thread_list_add (th, all) (Some t) = Some (th', all') \<and>
    tl_rep (th', all') (ws @ [a, t]) \<and>
    llist (thread_next th') (tl_head p) (us @ [a, t])"
proof -
  from tl_append_ok [OF assms(2,4)] obtain th' all' where
    a: "tl_append (th, all) t = Some (th', all')" and r: "tl_rep (th', all') ((ws @ [a]) @ [t])" by blast
  have lk: "tl_lock all = 0" "tl_tail all = Some a" and hd: "llist (thread_next th) (tl_head all) (ws @ [a])"
    using assms(2) by (simp_all add: tl_rep_def tl_shape_def)
  have "tl_head all \<noteq> None" using hd by (intro notI) (cases ws; simp)
  then have th': "th' = set_next a (Some t) (set_next t None th)"
    using a lk by (auto simp: tl_append_def)
  have ta: "t \<noteq> a" using assms(3) by auto
  have "llist (thread_next th) (tl_head p) (us @ [a])" using assms(1) by (simp add: tl_rep_def tl_shape_def)
  then have "llist ((thread_next th)(last (us @ [a]) := Some t, t := None)) (tl_head p) ((us @ [a]) @ [t])"
    using assms(3) by (intro llist_append_node) simp_all
  then have "llist (thread_next th') (tl_head p) (us @ [a, t])"
    using ta unfolding th' next_set_next by (simp add: fun_upd_twist)
  then show ?thesis using a r by (auto simp: sched_thread_list_add_def)
qed

definition demo_one :: thread_list where
  "demo_one = \<lparr>tl_head = Some 8, tl_tail = Some 8, tl_count = 1, tl_lock = 0\<rparr>"

lemma demo_one_rep: "tl_rep (demo_threads, demo_one) ([] @ [8])"
  by (simp add: tl_rep_def tl_shape_def demo_threads_def demo_one_def demo_thread_def)

theorem shared_link_leaks_thread_witness:
  "\<exists>th' all'. sched_thread_list_add (demo_threads, demo_one) (Some 9) = Some (th', all') \<and>
    tl_rep (th', all') ([] @ [8, 9]) \<and> llist (thread_next th') (tl_head demo_one) ([] @ [8, 9])"
  by (rule shared_link_leaks_thread [OF demo_one_rep demo_one_rep]) simp_all

end
