(* ===== verification/Pipe.thy ===== *)
theory Pipe
  imports Spinlock
begin

text \<open>
  task/ipc/pipe.c: a pipe is a ring of 512 bytes between two free-running 32-bit counters, guarded
  by a spinlock. The bodies of the read and write loops are the atomic actions, and the two
  loops repeat them, yielding to the other threads of the system when they cannot move a byte. The
  second half interleaves any number of readers and writers and shows that a pipe is a queue.
\<close>

section \<open>The pipe and its operations\<close>

record pipe =
  lock :: spinlock_t
  read_bytes :: u32
  write_bytes :: u32
  read_refs :: refcount_t
  write_refs :: refcount_t
  read_fd_open :: bool
  write_fd_open :: bool
  data :: "u8 list"

abbreviation PIPE_DATA :: u32 where "PIPE_DATA \<equiv> 512"

definition pipe_init :: "pipe \<Rightarrow> pipe" where
  "pipe_init p = p\<lparr>lock := spinlock_init (lock p),
     read_refs := refcount_init (read_refs p), write_refs := refcount_init (write_refs p),
     read_bytes := 0, write_bytes := 0, read_fd_open := True, write_fd_open := True\<rparr>"

text \<open>The result says whether the pipe was handed to \<open>kfree\<close>.\<close>

definition pipe_close :: "pipe \<Rightarrow> bool \<Rightarrow> (bool \<times> pipe) option" where
  "pipe_close p write = do {
     l \<leftarrow> lock_acquire (lock p);
     let p = p\<lparr>lock := l\<rparr>;
     let p = (if write
       then p\<lparr>write_fd_open := False, write_refs := snd (refcount_dec_and_test (write_refs p))\<rparr>
       else p\<lparr>read_fd_open := False, read_refs := snd (refcount_dec_and_test (read_refs p))\<rparr>);
     let free = (\<not> read_fd_open p \<and> \<not> write_fd_open p \<and> read_refs p = 0 \<and> write_refs p = 0);
     Some (free, p\<lparr>lock := lock_release (lock p)\<rparr>)
   }"

definition pipe_dup_read :: "pipe \<Rightarrow> bool \<times> pipe" where
  "pipe_dup_read p =
     (let (ok, r) = refcount_inc_not_zero (read_refs p) in (ok, p\<lparr>read_refs := r\<rparr>))"

definition pipe_dup_write :: "pipe \<Rightarrow> bool \<times> pipe" where
  "pipe_dup_write p =
     (let (ok, r) = refcount_inc_not_zero (write_refs p) in (ok, p\<lparr>write_refs := r\<rparr>))"

text \<open>
  One turn of the write loop: it moved a byte, has to wait, or returns from the loop because
  nobody will read. \<open>dead\<close> is \<open>proc_get_current()->state == TERMINATED\<close>.
\<close>

datatype 'a turn = Moved 'a | Wait | Gone

definition pipe_full :: "pipe \<Rightarrow> bool" where
  "pipe_full p \<longleftrightarrow> (write_bytes p mod PIPE_DATA + 1) mod PIPE_DATA = read_bytes p mod PIPE_DATA"

definition pipe_write_turn :: "bool \<Rightarrow> u8 \<Rightarrow> pipe \<Rightarrow> (unit turn \<times> pipe) option" where
  "pipe_write_turn dead b p = do {
     l \<leftarrow> lock_acquire (lock p);
     let p = p\<lparr>lock := l\<rparr>;
     let w = write_bytes p mod PIPE_DATA;
     if pipe_full p then
       if \<not> read_fd_open p \<or> read_refs p = 0 \<or> dead
       then Some (Gone, p\<lparr>lock := lock_release (lock p)\<rparr>)
       else Some (Wait, p\<lparr>lock := lock_release (lock p)\<rparr>)
     else do {
       let p = p\<lparr>data := (data p)[unat w := b], write_bytes := write_bytes p + 1\<rparr>;
       Some (Moved (), p\<lparr>lock := lock_release (lock p)\<rparr>)
     }
   }"

definition pipe_read_turn :: "bool \<Rightarrow> pipe \<Rightarrow> (u8 turn \<times> bool \<times> pipe) option" where
  "pipe_read_turn dead p = do {
     l \<leftarrow> lock_acquire (lock p);
     let p = p\<lparr>lock := l\<rparr>;
     if read_bytes p = write_bytes p \<and> write_refs p > 0 then
       if dead then Some (Gone, True, p\<lparr>lock := lock_release (lock p)\<rparr>)
       else Some (Wait, False, p\<lparr>lock := lock_release (lock p)\<rparr>)
     else if read_bytes p = write_bytes p \<and> write_refs p = 0 then
       Some (Gone, False, p\<lparr>lock := lock_release (lock p)\<rparr>)
     else do {
       let b = data p ! unat (read_bytes p mod PIPE_DATA);
       let p = p\<lparr>read_bytes := read_bytes p + 1\<rparr>;
       Some (Moved b, False, p\<lparr>lock := lock_release (lock p)\<rparr>)
     }
   }"

text \<open>
  The loops. \<open>yield\<close> is what the rest of the system does to the pipe while the caller sits in
  \<open>sched_yield\<close>, with a state of its own, and \<open>dead\<close> reads the caller's process state there.
  The caller's buffer is a byte list; leaving it is a fault. A loop whose peer never moves does not
  return.
\<close>

partial_function (option) pipe_write_loop ::
  "('e \<Rightarrow> pipe \<Rightarrow> 'e \<times> pipe) \<Rightarrow> ('e \<Rightarrow> bool) \<Rightarrow> u8 list \<Rightarrow> nat \<Rightarrow> nat \<Rightarrow> 'e \<Rightarrow> pipe
     \<Rightarrow> (int \<times> 'e \<times> pipe) option" where
  "pipe_write_loop yield dead addr len written e p =
     (if written < len then do {
        guard (written < length addr);
        (t, p) \<leftarrow> pipe_write_turn (dead e) (addr ! written) p;
        (case t of
           Gone \<Rightarrow> Some (if written \<noteq> 0 then int written else -1, e, p)
         | Wait \<Rightarrow> pipe_write_loop yield dead addr len written (fst (yield e p)) (snd (yield e p))
         | Moved u \<Rightarrow> pipe_write_loop yield dead addr len (written + 1) e p)
      } else Some (int written, e, p))"

definition pipe_write ::
  "('e \<Rightarrow> pipe \<Rightarrow> 'e \<times> pipe) \<Rightarrow> ('e \<Rightarrow> bool) \<Rightarrow> 'e \<Rightarrow> pipe \<Rightarrow> u8 list \<Rightarrow> int
     \<Rightarrow> (int \<times> 'e \<times> pipe) option" where
  "pipe_write yield dead e p addr len = pipe_write_loop yield dead addr (nat len) 0 e p"

partial_function (option) pipe_read_loop ::
  "('e \<Rightarrow> pipe \<Rightarrow> 'e \<times> pipe) \<Rightarrow> ('e \<Rightarrow> bool) \<Rightarrow> u8 list \<Rightarrow> nat \<Rightarrow> nat \<Rightarrow> 'e \<Rightarrow> pipe
     \<Rightarrow> (int \<times> u8 list \<times> 'e \<times> pipe) option" where
  "pipe_read_loop yield dead addr len n e p =
     (if n < len then do {
        (t, killed, p) \<leftarrow> pipe_read_turn (dead e) p;
        (case t of
           Gone \<Rightarrow> Some (if killed \<and> n = 0 then -1 else int n, addr, e, p)
         | Wait \<Rightarrow> pipe_read_loop yield dead addr len n (fst (yield e p)) (snd (yield e p))
         | Moved b \<Rightarrow>
             if n < length addr then pipe_read_loop yield dead (addr[n := b]) len (n + 1) e p
             else None)
      } else Some (int n, addr, e, p))"

definition pipe_read ::
  "('e \<Rightarrow> pipe \<Rightarrow> 'e \<times> pipe) \<Rightarrow> ('e \<Rightarrow> bool) \<Rightarrow> 'e \<Rightarrow> pipe \<Rightarrow> u8 list \<Rightarrow> int
     \<Rightarrow> (int \<times> u8 list \<times> 'e \<times> pipe) option" where
  "pipe_read yield dead e p addr len = pipe_read_loop yield dead addr (nat len) 0 e p"

section \<open>The bytes in the ring\<close>

lemma unat_mod_512: "unat ((x :: u32) mod 512) = unat x mod 512"
  by (simp add: unat_mod)

lemma unat_add_mod_512: "unat ((x :: u32) + y) mod 512 = (unat x + unat y) mod 512"
proof -
  have "unat (x + y) = (unat x + unat y) mod 4294967296" by (simp add: unat_word_ariths)
  then show ?thesis by (simp add: mod_mod_cancel)
qed

text \<open>The slot of the \<open>i\<close>-th unread byte, and the unread bytes in order.\<close>

definition slot :: "u32 \<Rightarrow> nat \<Rightarrow> nat" where
  "slot r i = (unat r + i) mod 512"

definition unread :: "pipe \<Rightarrow> nat" where
  "unread p = unat (write_bytes p - read_bytes p)"

definition buffered :: "pipe \<Rightarrow> u8 list" where
  "buffered p = map (\<lambda>i. data p ! slot (read_bytes p) i) [0..<unread p]"

definition pipe_ok :: "pipe \<Rightarrow> bool" where
  "pipe_ok p \<longleftrightarrow> lock p = 0 \<and> length (data p) = 512 \<and> unread p \<le> 511"

lemma length_buffered [simp]: "length (buffered p) = unread p"
  by (simp add: buffered_def)

lemma write_slot: "unat (write_bytes p mod 512) = slot (read_bytes p) (unread p)"
proof -
  have "unat (write_bytes p) mod 512 = unat (read_bytes p + (write_bytes p - read_bytes p)) mod 512"
    by simp
  also have "\<dots> = slot (read_bytes p) (unread p)"
    unfolding unat_add_mod_512 slot_def unread_def by (rule refl)
  finally show ?thesis by (simp add: unat_mod_512)
qed

lemma slot_less [simp]: "slot r i < 512"
  by (simp add: slot_def)

lemma mod_512_close:
  assumes "i \<le> j" and "j < i + 512" and eq: "(a + i) mod 512 = (a + j) mod 512"
  shows "i = (j :: nat)"
proof -
  from \<open>i \<le> j\<close> obtain d where d: "j = i + d" using le_Suc_ex by blast
  from assms(2) d have small: "d < 512" by simp
  from eq have "(a + j) mod 512 = (a + i) mod 512" by (rule sym)
  moreover have "a + i \<le> a + j" using \<open>i \<le> j\<close> by simp
  ultimately have "512 dvd (a + j) - (a + i)" by (simp only: mod_eq_dvd_iff_nat)
  then have "512 dvd d" unfolding d by simp
  with small have "d = 0" by (cases d) (auto dest: dvd_imp_le)
  with d show ?thesis by simp
qed

lemma slot_inj:
  assumes "i < 512" and "j < 512" and "slot r i = slot r j"
  shows "i = j"
proof (cases "i \<le> j")
  case True
  then show ?thesis using assms mod_512_close [of i j "unat r"] by (simp add: slot_def)
next
  case False
  then have "j \<le> i" by simp
  moreover have "slot r j = slot r i" using assms(3) by (rule sym)
  ultimately have "j = i" using assms mod_512_close [of j i "unat r"] by (simp add: slot_def)
  then show ?thesis by (rule sym)
qed

lemma pipe_full_iff: "pipe_ok p \<Longrightarrow> pipe_full p \<longleftrightarrow> unread p = 511"
proof -
  assume ok: "pipe_ok p"
  have "unat ((write_bytes p mod 512 + 1) mod 512) = (unat (write_bytes p mod 512) + 1) mod 512"
    unfolding unat_mod_512 unat_add_mod_512 by simp
  also have "\<dots> = slot (read_bytes p) (unread p + 1)"
    unfolding write_slot slot_def by (simp add: mod_Suc_eq)
  finally have "unat ((write_bytes p mod 512 + 1) mod 512) = slot (read_bytes p) (unread p + 1)" .
  moreover have "unat (read_bytes p mod 512) = slot (read_bytes p) 0"
    by (simp add: slot_def unat_mod_512)
  ultimately have "pipe_full p \<longleftrightarrow> slot (read_bytes p) (unread p + 1) = slot (read_bytes p) 0"
    unfolding pipe_full_def by (metis word_unat_eq_iff)
  also have "\<dots> \<longleftrightarrow> unread p = 511"
  proof (cases "unread p = 511")
    case True
    then show ?thesis by (simp add: slot_def)
  next
    case False
    with ok have "unread p + 1 < 512" by (simp add: pipe_ok_def)
    then show ?thesis using False slot_inj [of "unread p + 1" 0] by auto
  qed
  finally show ?thesis .
qed


lemma unread_minus_one: "unread p \<noteq> 0 \<Longrightarrow> unat (write_bytes p - (read_bytes p + 1)) = unread p - 1"
proof -
  assume "unread p \<noteq> 0"
  then have "write_bytes p - read_bytes p \<noteq> 0" by (auto simp: unread_def)
  then have "unat (write_bytes p - read_bytes p - 1) = unread p - 1"
    unfolding unread_def by (rule unat_minus_one)
  then show ?thesis by (simp add: algebra_simps)
qed

lemma unread_plus_one:
  "unread p \<le> 511 \<Longrightarrow> unat (write_bytes p + 1 - read_bytes p) = unread p + 1"
proof -
  assume le: "unread p \<le> 511"
  have "unat (write_bytes p - read_bytes p + 1) = unat (write_bytes p - read_bytes p) + unat (1 :: u32)"
    using le by (intro unat_plus_u32) (simp add: unread_def)
  then show ?thesis by (simp add: unread_def algebra_simps)
qed

lemma unread_zero_iff: "unread p = 0 \<longleftrightarrow> read_bytes p = write_bytes p"
  by (auto simp: unread_def unat_eq_0)

lemma slot_Suc: "slot (r + 1) i = slot r (Suc i)"
proof -
  have "(unat (r + 1) + i) mod 512 = (unat (r + 1) mod 512 + i) mod 512" by (simp add: mod_add_left_eq)
  also have "\<dots> = ((unat r + 1) mod 512 + i) mod 512" unfolding unat_add_mod_512 by simp
  also have "\<dots> = (unat r + Suc i) mod 512" by (simp add: mod_add_left_eq)
  finally show ?thesis by (simp add: slot_def)
qed

text \<open>Each turn, completely: what it returns and what it leaves in the ring.\<close>

lemma pipe_write_turn_full:
  "pipe_ok p \<Longrightarrow> unread p = 511 \<Longrightarrow>
   pipe_write_turn dead b p =
     Some (if \<not> read_fd_open p \<or> read_refs p = 0 \<or> dead then Gone else Wait, p)"
  using pipe_full_iff [of p] by (auto simp: pipe_write_turn_def pipe_ok_def pipe_full_def Let_def)

lemma pipe_write_turn_moves:
  assumes ok: "pipe_ok p" and room: "unread p \<noteq> 511"
  shows "\<exists>p'. pipe_write_turn dead b p = Some (Moved (), p') \<and> pipe_ok p' \<and>
     buffered p' = buffered p @ [b] \<and> read_bytes p' = read_bytes p \<and>
     read_refs p' = read_refs p \<and> write_refs p' = write_refs p \<and>
     read_fd_open p' = read_fd_open p \<and> write_fd_open p' = write_fd_open p"
proof -
  let ?w = "slot (read_bytes p) (unread p)"
  let ?p' = "p\<lparr>data := (data p)[?w := b], write_bytes := write_bytes p + 1\<rparr>"
  from ok have l: "lock p = 0" and len: "length (data p) = 512" and le: "unread p \<le> 511"
    by (simp_all add: pipe_ok_def)
  from pipe_full_iff [OF ok] room have nf: "\<not> pipe_full (p\<lparr>lock := 1\<rparr>)"
    by (simp add: pipe_full_def)
  have ret: "pipe_write_turn dead b p = Some (Moved (), ?p')"
    using l nf by (simp add: pipe_write_turn_def Let_def write_slot)
  have u: "unread ?p' = unread p + 1"
    using unread_plus_one [OF le] by (simp add: unread_def)
  have b: "buffered ?p' = buffered p @ [b]"
  proof (rule nth_equalityI)
    show "length (buffered ?p') = length (buffered p @ [b])" using u by simp
    fix i assume "i < length (buffered ?p')"
    then have i: "i < unread p + 1" using u by simp
    have "buffered ?p' ! i = (data p)[?w := b] ! slot (read_bytes p) i"
      using i u by (simp add: buffered_def del: upt_Suc)
    also have "\<dots> = (buffered p @ [b]) ! i"
    proof (cases "i = unread p")
      case True
      then show ?thesis using len by (simp add: nth_append)
    next
      case False
      with i have lt: "i < unread p" by simp
      with le have "slot (read_bytes p) i \<noteq> ?w" using slot_inj [of i "unread p"] by auto
      with lt show ?thesis by (simp add: nth_append buffered_def)
    qed
    finally show "buffered ?p' ! i = (buffered p @ [b]) ! i" .
  qed
  from room le u have "pipe_ok ?p'" using l len by (simp add: pipe_ok_def)
  with ret b show ?thesis by simp
qed

lemma pipe_read_turn_empty:
  "pipe_ok p \<Longrightarrow> unread p = 0 \<Longrightarrow>
   pipe_read_turn dead p =
     Some (if write_refs p > 0 \<and> \<not> dead then Wait else Gone, write_refs p > 0 \<and> dead, p)"
  unfolding unread_zero_iff
  by (auto simp: pipe_read_turn_def pipe_ok_def Let_def word_gt_0)

lemma pipe_read_turn_moves:
  assumes ok: "pipe_ok p" and some: "unread p \<noteq> 0"
  shows "\<exists>p'. pipe_read_turn dead p = Some (Moved (hd (buffered p)), False, p') \<and> pipe_ok p' \<and>
     buffered p' = tl (buffered p) \<and>
     read_refs p' = read_refs p \<and> write_refs p' = write_refs p \<and>
     read_fd_open p' = read_fd_open p \<and> write_fd_open p' = write_fd_open p"
proof -
  let ?p' = "p\<lparr>read_bytes := read_bytes p + 1\<rparr>"
  from ok have l: "lock p = 0" and len: "length (data p) = 512" and le: "unread p \<le> 511"
    by (simp_all add: pipe_ok_def)
  from some have ne: "read_bytes p \<noteq> write_bytes p" by (simp add: unread_zero_iff)
  have upt: "[0..<unread p] = 0 # map Suc [0..<unread p - 1]"
    using some by (metis Suc_pred' gr0I upt_conv_Cons map_Suc_upt)
  have b: "buffered p = data p ! slot (read_bytes p) 0 #
      map (\<lambda>i. data p ! slot (read_bytes p) (Suc i)) [0..<unread p - 1]"
    unfolding buffered_def upt by simp
  have s0: "unat (read_bytes p mod 512) = slot (read_bytes p) 0"
    by (simp add: slot_def unat_mod_512)
  have ret: "pipe_read_turn dead p = Some (Moved (data p ! slot (read_bytes p) 0), False, ?p')"
    using l ne by (simp add: pipe_read_turn_def Let_def s0)
  have u: "unread ?p' = unread p - 1"
    using unread_minus_one [OF some] by (simp add: unread_def)
  have b': "buffered ?p' = map (\<lambda>i. data p ! slot (read_bytes p) (Suc i)) [0..<unread p - 1]"
    using u by (simp add: buffered_def slot_Suc)
  from le u have "pipe_ok ?p'" using l len by (simp add: pipe_ok_def)
  with ret b b' show ?thesis by simp
qed


lemma pipe_close_ring:
  assumes "pipe_ok p" and "pipe_close p w = Some (f, p')"
  shows "pipe_ok p' \<and> buffered p' = buffered p"
  using assms by (cases w) (auto simp: pipe_close_def pipe_ok_def buffered_def unread_def Let_def)

lemma pipe_dup_ring:
  "pipe_ok (snd (pipe_dup_read p)) = pipe_ok p" "buffered (snd (pipe_dup_read p)) = buffered p"
  "pipe_ok (snd (pipe_dup_write p)) = pipe_ok p" "buffered (snd (pipe_dup_write p)) = buffered p"
  by (auto simp: pipe_dup_read_def pipe_dup_write_def pipe_ok_def buffered_def unread_def
      split: prod.splits)

lemma pipe_init_ring:
  "length (data p) = 512 \<Longrightarrow> pipe_ok (pipe_init p) \<and> buffered (pipe_init p) = []"
  by (simp add: pipe_init_def pipe_ok_def buffered_def unread_def spinlock_init_def)

section \<open>Any number of readers and writers\<close>

text \<open>
  The spinlock makes the turns atomic. A system is the ring with two history variables: the bytes
  all writers have put in, and the bytes all readers have taken out, in the order of the turns.
\<close>

record pipe_sys =
  ring :: pipe
  sent :: "u8 list"
  got :: "u8 list"

inductive pipe_step :: "pipe_sys \<Rightarrow> pipe_sys \<Rightarrow> bool" where
  wrote: "pipe_write_turn dead b (ring s) = Some (Moved (), p) \<Longrightarrow>
     pipe_step s (s\<lparr>ring := p, sent := sent s @ [b]\<rparr>)"
| write_stays: "pipe_write_turn dead b (ring s) = Some (t, p) \<Longrightarrow> t \<in> {Wait, Gone} \<Longrightarrow>
     pipe_step s (s\<lparr>ring := p\<rparr>)"
| took: "pipe_read_turn dead (ring s) = Some (Moved b, k, p) \<Longrightarrow>
     pipe_step s (s\<lparr>ring := p, got := got s @ [b]\<rparr>)"
| read_stays: "pipe_read_turn dead (ring s) = Some (u, k, p) \<Longrightarrow> u \<in> {Wait, Gone} \<Longrightarrow>
     pipe_step s (s\<lparr>ring := p\<rparr>)"
| dup_read: "pipe_step s (s\<lparr>ring := snd (pipe_dup_read (ring s))\<rparr>)"
| dup_write: "pipe_step s (s\<lparr>ring := snd (pipe_dup_write (ring s))\<rparr>)"
| closed: "pipe_close (ring s) w = Some (False, p) \<Longrightarrow> pipe_step s (s\<lparr>ring := p\<rparr>)"

inductive pipe_reachable :: "pipe_sys \<Rightarrow> bool" where
  start: "length (data p) = 512 \<Longrightarrow> pipe_reachable \<lparr>ring = pipe_init p, sent = [], got = []\<rparr>"
| step: "pipe_reachable s \<Longrightarrow> pipe_step s t \<Longrightarrow> pipe_reachable t"

definition stream_inv :: "pipe_sys \<Rightarrow> bool" where
  "stream_inv s \<longleftrightarrow> pipe_ok (ring s) \<and> sent s = got s @ buffered (ring s)"

lemma pipe_write_turn_keeps:
  assumes "pipe_ok p" and "pipe_write_turn dead b p = Some (t, p')"
  shows "pipe_ok p' \<and> buffered p' = buffered p @ (if t = Moved () then [b] else [])"
proof (cases "unread p = 511")
  case True
  with assms show ?thesis by (auto simp: pipe_write_turn_full split: if_splits)
next
  case False
  with assms pipe_write_turn_moves [of p dead b] show ?thesis by auto
qed

lemma pipe_read_turn_keeps:
  assumes "pipe_ok p" and "pipe_read_turn dead p = Some (t, k, p')"
  shows "pipe_ok p' \<and> buffered p = (case t of Moved b \<Rightarrow> [b] | _ \<Rightarrow> []) @ buffered p'"
proof (cases "unread p = 0")
  case True
  with assms show ?thesis by (auto simp: pipe_read_turn_empty split: if_splits)
next
  case False
  then have "buffered p \<noteq> []" by (metis length_0_conv length_buffered)
  with False assms pipe_read_turn_moves [of p dead] show ?thesis by auto
qed

lemma pipe_step_inv: "pipe_step s t \<Longrightarrow> stream_inv s \<Longrightarrow> stream_inv t"
proof (induction rule: pipe_step.induct)
  case (wrote dead b s p)
  then show ?case using pipe_write_turn_keeps [of "ring s" dead b] by (simp add: stream_inv_def)
next
  case (write_stays dead b s t p)
  then show ?case using pipe_write_turn_keeps [of "ring s" dead b] by (auto simp: stream_inv_def)
next
  case (took dead s b k p)
  then show ?case using pipe_read_turn_keeps [of "ring s" dead] by (simp add: stream_inv_def)
next
  case (read_stays dead s u k p)
  then show ?case using pipe_read_turn_keeps [of "ring s" dead] by (auto simp: stream_inv_def)
next
  case (closed s w p)
  then show ?case using pipe_close_ring [of "ring s" w False p] by (simp add: stream_inv_def)
qed (simp_all add: stream_inv_def pipe_dup_ring)

lemma pipe_reachable_inv: "pipe_reachable s \<Longrightarrow> stream_inv s"
proof (induction rule: pipe_reachable.induct)
  case (start p)
  then show ?case using pipe_init_ring [of p] by (simp add: stream_inv_def)
next
  case (step s t)
  then show ?case by (blast intro: pipe_step_inv)
qed

text \<open>C4: A pipe is a byte stream. However the turns of any number of readers and writers, the
  duplications and the closings are interleaved, and however often the two 32-bit counters have
  wrapped around, the bytes taken out followed by the bytes in the ring are the bytes put in, in
  order: none is lost, invented, repeated or overtaken. The ring never holds more than 511 bytes, and
  no turn blocks on the lock or leaves the array.\<close>
theorem pipe_is_a_stream:
  assumes "pipe_reachable s"
  shows "sent s = got s @ buffered (ring s) \<and> length (buffered (ring s)) \<le> 511 \<and>
         pipe_write_turn dead b (ring s) \<noteq> None \<and> pipe_read_turn dead (ring s) \<noteq> None"
proof -
  from pipe_reachable_inv [OF assms] have ok: "pipe_ok (ring s)"
    and st: "sent s = got s @ buffered (ring s)" by (simp_all add: stream_inv_def)
  have "pipe_write_turn dead b (ring s) \<noteq> None"
    by (cases "unread (ring s) = 511")
      (use ok pipe_write_turn_moves [of "ring s" dead b] in \<open>auto simp: pipe_write_turn_full\<close>)
  moreover have "pipe_read_turn dead (ring s) \<noteq> None"
    by (cases "unread (ring s) = 0")
      (use ok pipe_read_turn_moves [of "ring s" dead] in \<open>auto simp: pipe_read_turn_empty\<close>)
  ultimately show ?thesis using ok st by (simp add: pipe_ok_def)
qed

definition sample_pipe :: pipe where
  "sample_pipe = \<lparr>lock = 0, read_bytes = 0, write_bytes = 0, read_refs = 1, write_refs = 1,
     read_fd_open = True, write_fd_open = True, data = replicate 512 0\<rparr>"

lemma sample_pipe_init: "pipe_init sample_pipe = sample_pipe"
  by (simp add: sample_pipe_def pipe_init_def spinlock_init_def refcount_init_def)

lemma sample_pipe_ok: "pipe_ok sample_pipe" "unread sample_pipe = 0"
  by (simp_all add: sample_pipe_def pipe_ok_def unread_def)

theorem pipe_is_a_stream_witness:
  "\<exists>s :: pipe_sys. sent s = [7] \<and> sent s = got s @ buffered (ring s)"
proof -
  let ?s0 = "\<lparr>ring = pipe_init sample_pipe, sent = [], got = []\<rparr>"
  have start: "pipe_reachable ?s0"
    by (rule pipe_reachable.start) (simp add: sample_pipe_def)
  obtain p' where "pipe_write_turn False 7 sample_pipe = Some (Moved (), p')"
    using pipe_write_turn_moves [OF sample_pipe_ok(1)] sample_pipe_ok(2) by auto
  then have "pipe_step ?s0 (?s0\<lparr>ring := p', sent := sent ?s0 @ [7]\<rparr>)"
    by (intro pipe_step.wrote) (simp add: sample_pipe_init)
  with start have "pipe_reachable (?s0\<lparr>ring := p', sent := sent ?s0 @ [7]\<rparr>)"
    by (rule pipe_reachable.step)
  then obtain s where s: "pipe_reachable s" "sent s = [7]" by fastforce
  from s(2) pipe_is_a_stream [OF s(1), THEN conjunct1] show ?thesis by blast
qed

section \<open>The read and write calls\<close>

lemma pipe_write_loop_room:
  assumes "pipe_ok p" and "len \<le> length addr" and "written \<le> len"
    and "unread p + (len - written) \<le> 511"
  shows "\<exists>p'. pipe_write_loop yield dead addr len written e p = Some (int len, e, p') \<and> pipe_ok p' \<and>
     buffered p' = buffered p @ take (len - written) (drop written addr) \<and>
     write_refs p' = write_refs p \<and> read_refs p' = read_refs p"
  using assms
proof (induction "len - written" arbitrary: written p)
  case 0
  then show ?case by (subst pipe_write_loop.simps) simp
next
  case (Suc k)
  then have lt: "written < len" by simp
  with Suc have room: "unread p \<noteq> 511" by simp
  from pipe_write_turn_moves [OF Suc.prems(1) room, of "dead e" "addr ! written"]
  obtain q where q: "pipe_write_turn (dead e) (addr ! written) p = Some (Moved (), q)" "pipe_ok q"
    "buffered q = buffered p @ [addr ! written]"
    "write_refs q = write_refs p" "read_refs q = read_refs p" by blast
  from arg_cong [OF q(3), of length] have u: "unread q = unread p + 1" by simp
  from Suc.hyps(2) lt have k: "k = len - (written + 1)" by simp
  have "\<exists>p'. pipe_write_loop yield dead addr len (written + 1) e q = Some (int len, e, p') \<and> pipe_ok p' \<and>
     buffered p' = buffered q @ take (len - (written + 1)) (drop (written + 1) addr) \<and>
     write_refs p' = write_refs q \<and> read_refs p' = read_refs q"
    by (rule Suc.hyps(1) [OF k]) (use q(2) Suc.prems lt u in auto)
  then obtain p' where p': "pipe_write_loop yield dead addr len (written + 1) e q = Some (int len, e, p')"
    "pipe_ok p'" "buffered p' = buffered q @ take (len - (written + 1)) (drop (written + 1) addr)"
    "write_refs p' = write_refs q" "read_refs p' = read_refs q" by blast
  have "pipe_write_loop yield dead addr len written e p = Some (int len, e, p')"
    by (subst pipe_write_loop.simps) (use lt Suc.prems(2) q(1) p'(1) in simp)
  moreover have "take (len - written) (drop written addr) =
      addr ! written # take (len - (written + 1)) (drop (written + 1) addr)"
    using lt Suc.prems(2) by (simp add: Suc_diff_Suc Cons_nth_drop_Suc [symmetric] take_Suc_Cons
        flip: Suc_diff_Suc)
  ultimately show ?case using p' q by (intro exI [of _ p']) simp
qed


lemma pipe_read_loop_takes:
  assumes "pipe_ok p" and "len \<le> length addr" and "n \<le> len" and "len - n \<le> unread p"
  shows "\<exists>p'. pipe_read_loop yield dead addr len n e p =
       Some (int len, take n addr @ take (len - n) (buffered p) @ drop len addr, e, p') \<and>
     pipe_ok p' \<and> buffered p' = drop (len - n) (buffered p) \<and>
     write_refs p' = write_refs p \<and> read_refs p' = read_refs p"
  using assms
proof (induction "len - n" arbitrary: n p addr)
  case 0
  then show ?case by (subst pipe_read_loop.simps) simp
next
  case (Suc k)
  then have lt: "n < len" and some: "unread p \<noteq> 0" by simp_all
  from pipe_read_turn_moves [OF Suc.prems(1) some, of "dead e"]
  obtain q where q: "pipe_read_turn (dead e) p = Some (Moved (hd (buffered p)), False, q)" "pipe_ok q"
    "buffered q = tl (buffered p)" "write_refs q = write_refs p" "read_refs q = read_refs p" by blast
  let ?addr = "addr[n := hd (buffered p)]"
  from arg_cong [OF q(3), of length] have u: "unread q = unread p - 1" by simp
  from Suc.hyps(2) lt have k: "k = len - (n + 1)" by simp
  have "\<exists>p'. pipe_read_loop yield dead ?addr len (n + 1) e q =
       Some (int len, take (n + 1) ?addr @ take (len - (n + 1)) (buffered q) @ drop len ?addr, e, p') \<and>
     pipe_ok p' \<and> buffered p' = drop (len - (n + 1)) (buffered q) \<and>
     write_refs p' = write_refs q \<and> read_refs p' = read_refs q"
    by (rule Suc.hyps(1) [OF k]) (use q(2) Suc.prems lt u in auto)
  then obtain p' where p': "pipe_read_loop yield dead ?addr len (n + 1) e q =
       Some (int len, take (n + 1) ?addr @ take (len - (n + 1)) (buffered q) @ drop len ?addr, e, p')"
    "pipe_ok p'" "buffered p' = drop (len - (n + 1)) (buffered q)"
    "write_refs p' = write_refs q" "read_refs p' = read_refs q" by blast
  have step: "pipe_read_loop yield dead addr len n e p = pipe_read_loop yield dead ?addr len (n + 1) e q"
    by (subst pipe_read_loop.simps) (use lt Suc.prems(2) q(1) in simp)
  from some have "buffered p \<noteq> []" by (metis length_0_conv length_buffered)
  then obtain b bs where bs: "buffered p = b # bs" by (cases "buffered p") auto
  from lt Suc.prems(2) have addr: "take (n + 1) ?addr = take n addr @ [b]" "drop len ?addr = drop len addr"
    using bs by (simp_all add: take_Suc_conv_app_nth)
  from lt have "len - n = Suc (len - (n + 1))" by simp
  then have tk: "take (len - n) (buffered p) = b # take (len - (n + 1)) bs"
    "drop (len - n) (buffered p) = drop (len - (n + 1)) bs" using bs by simp_all
  have "pipe_read_loop yield dead addr len n e p =
       Some (int len, take n addr @ take (len - n) (buffered p) @ drop len addr, e, p')"
    unfolding step p'(1) addr tk(1) by (simp add: q(3) bs)
  then show ?case using p' q tk bs by (intro exI [of _ p']) simp
qed

text \<open>What is written is read back. On a pipe in any good state with an empty ring,
  \<open>pipe_write\<close> of up to 511 bytes returns their number without ever yielding, and a
  \<open>pipe_read\<close> of that many bytes then returns that number, puts exactly those bytes at the
  start of the caller's buffer, leaves the rest of it alone and the ring empty again.\<close>
theorem pipe_roundtrip:
  assumes "pipe_ok p" and "unread p = 0" and "length xs \<le> 511" and "length xs \<le> length buf"
  shows "\<exists>p1 p2. pipe_write yield dead e p xs (int (length xs)) = Some (int (length xs), e, p1) \<and>
           pipe_read yield dead e p1 buf (int (length xs)) =
             Some (int (length xs), xs @ drop (length xs) buf, e, p2) \<and>
           pipe_ok p2 \<and> unread p2 = 0"
proof -
  from assms(2) have empty: "buffered p = []" by (simp add: buffered_def)
  from pipe_write_loop_room [OF assms(1), of "length xs" xs 0 yield dead e] assms empty
  obtain p1 where p1: "pipe_write_loop yield dead xs (length xs) 0 e p = Some (int (length xs), e, p1)"
    "pipe_ok p1" "buffered p1 = xs" by auto
  from arg_cong [OF p1(3), of length] have u: "unread p1 = length xs" by simp
  from pipe_read_loop_takes [OF p1(2), of "length xs" buf 0 yield dead e] assms(4) u p1(3)
  obtain p2 where p2: "pipe_read_loop yield dead buf (length xs) 0 e p1 =
      Some (int (length xs), xs @ drop (length xs) buf, e, p2)" "pipe_ok p2" "buffered p2 = []" by auto
  from arg_cong [OF p2(3), of length] have "unread p2 = 0" by simp
  with p1 p2 show ?thesis by (auto simp: pipe_write_def pipe_read_def)
qed

theorem pipe_roundtrip_witness:
  "\<exists>p1 p2. pipe_write Pair (\<lambda>_. False) () sample_pipe [1, 2, 3] 3 = Some (3, (), p1) \<and>
     pipe_read Pair (\<lambda>_. False) () p1 [0, 0, 0, 9] 3 = Some (3, [1, 2, 3, 9], (), p2)"
  using pipe_roundtrip [OF sample_pipe_ok, of "[1, 2, 3]" "[0, 0, 0, 9]" Pair "\<lambda>_. False" "()"] by auto

text \<open>
  The end of the stream: once the last writer's reference is gone, a read returns what is left.
\<close>

lemma pipe_read_loop_drains:
  assumes "pipe_ok p" and "write_refs p = 0" and "n \<le> len" and "len \<le> length addr"
  shows "\<exists>p' addr'. pipe_read_loop yield dead addr len n e p =
       Some (int (min len (n + unread p)), addr', e, p')"
  using assms
proof (induction "len - n" arbitrary: n p addr)
  case 0
  then show ?case by (subst pipe_read_loop.simps) simp
next
  case (Suc k)
  then have lt: "n < len" by simp
  show ?case
  proof (cases "unread p = 0")
    case True
    with Suc.prems lt show ?thesis
      by (subst pipe_read_loop.simps) (simp add: pipe_read_turn_empty)
  next
    case False
    from pipe_read_turn_moves [OF Suc.prems(1) False, of "dead e"]
    obtain q where q: "pipe_read_turn (dead e) p = Some (Moved (hd (buffered p)), False, q)" "pipe_ok q"
      "buffered q = tl (buffered p)" "write_refs q = write_refs p" by blast
    from arg_cong [OF q(3), of length] have u: "unread q = unread p - 1" by simp
    from Suc.hyps(2) lt have k: "k = len - (n + 1)" by simp
    have "\<exists>p' addr'. pipe_read_loop yield dead (addr[n := hd (buffered p)]) len (n + 1) e q =
       Some (int (min len (n + 1 + unread q)), addr', e, p')"
      by (rule Suc.hyps(1) [OF k]) (use q(2,4) Suc.prems lt in auto)
    then have "\<exists>p' addr'. pipe_read_loop yield dead (addr[n := hd (buffered p)]) len (n + 1) e q =
       Some (int (min len (n + unread p)), addr', e, p')" using u False by (simp del: One_nat_def)
    then show ?thesis
      by (subst pipe_read_loop.simps) (use lt Suc.prems(4) q(1) in simp)
  qed
qed

text \<open>End of file. When no writer reference is left, \<open>pipe_read\<close> returns at once, for every
  yield function and even in a terminated process, with the smaller of the requested length and
  what the ring holds; so it returns 0 exactly on an empty ring (for a positive length).\<close>
theorem pipe_read_eof:
  assumes "pipe_ok p" and "write_refs p = 0" and "len \<le> length addr"
  shows "\<exists>p' addr'. pipe_read yield dead e p addr (int len) = Some (int (min len (unread p)), addr', e, p')"
  using pipe_read_loop_drains [OF assms(1,2) _ assms(3), of 0 yield dead e] by (simp add: pipe_read_def)

theorem pipe_read_eof_witness:
  "\<exists>p' addr'. pipe_read Pair (\<lambda>_. True) () (sample_pipe\<lparr>write_refs := 0\<rparr>) [5] 1 = Some (0, addr', (), p')"
proof -
  have "pipe_ok (sample_pipe\<lparr>write_refs := 0\<rparr>)" "unread (sample_pipe\<lparr>write_refs := 0\<rparr>) = 0"
    by (simp_all add: sample_pipe_def pipe_ok_def unread_def)
  then show ?thesis
    using pipe_read_eof [of "sample_pipe\<lparr>write_refs := 0\<rparr>" 1 "[5]" Pair "\<lambda>_. True" "()"] by simp
qed

text \<open>Closing one of two read ends shuts the pipe. After \<open>pipe_dup_read\<close> and one
  \<open>pipe_close(p, 0)\<close> a reader reference remains and the pipe is not freed, but
  \<open>read_fd_open\<close> is already false, so a writer that finds the ring full gets -1 instead of
  waiting for the remaining reader.\<close>
theorem pipe_close_ignores_other_reader:
  assumes "pipe_ok p" and "read_refs p = 1" and "unread p = 511" and "0 < len" and "addr \<noteq> []"
  shows "\<exists>p'. pipe_close (snd (pipe_dup_read p)) False = Some (False, p') \<and> read_refs p' = 1 \<and>
           pipe_write yield dead e p' addr len = Some (-1, e, p')"
proof -
  let ?p' = "p\<lparr>read_fd_open := False\<rparr>"
  have "(1 :: u32) + 1 \<noteq> 0" by simp
  then have close: "pipe_close (snd (pipe_dup_read p)) False = Some (False, ?p')"
    using assms(1,2) by (simp add: pipe_close_def pipe_dup_read_def pipe_ok_def Let_def
        refcount_inc_not_zero_def refcount_dec_and_test_def)
  have ok: "pipe_ok ?p'" "unread ?p' = 511" using assms by (simp_all add: pipe_ok_def unread_def)
  from assms(4) have "0 < nat len" by simp
  then have "pipe_write_loop yield dead addr (nat len) 0 e ?p' = Some (-1, e, ?p')"
    by (subst pipe_write_loop.simps) (use assms(5) pipe_write_turn_full [OF ok] in simp)
  with close assms(2) show ?thesis by (simp add: pipe_write_def)
qed

theorem pipe_close_ignores_other_reader_witness:
  "\<exists>p'. pipe_close (snd (pipe_dup_read (sample_pipe\<lparr>write_bytes := 511\<rparr>))) False = Some (False, p') \<and>
     pipe_write Pair (\<lambda>_. False) () p' [5] 1 = Some (-1, (), p')"
proof -
  have "pipe_ok (sample_pipe\<lparr>write_bytes := 511\<rparr>)" "unread (sample_pipe\<lparr>write_bytes := 511\<rparr>) = 511"
    "read_refs (sample_pipe\<lparr>write_bytes := 511\<rparr>) = 1"
    by (simp_all add: sample_pipe_def pipe_ok_def unread_def)
  then show ?thesis
    using pipe_close_ignores_other_reader [of "sample_pipe\<lparr>write_bytes := 511\<rparr>" 1 "[5]" Pair "\<lambda>_. False" "()"]
    by auto
qed

end
