(* ===== verification/Mutex.thy ===== *)
theory Mutex
  imports SchedQueue
begin

text \<open>
  task/sync/mutex.h: the blocking mutex. The acquiring loop is cut where another thread can act: the
  compare-and-swap, the section under \<open>wait_lock\<close>, and \<open>sched_block\<close>. The step relation lets
  any number of threads take these steps in any order while the rest of the kernel changes the
  scheduler at will.
\<close>

section \<open>The mutex and its operations\<close>

abbreviation MUTEX_UNLOCKED :: int where "MUTEX_UNLOCKED \<equiv> 0"
abbreviation MUTEX_LOCKED :: int where "MUTEX_LOCKED \<equiv> 1"

record mutex =
  m_state :: int
  m_owner :: "nat option"
  m_wait_queue :: thread_list
  m_wait_lock :: spinlock_t

definition empty_thread_list :: thread_list where
  "empty_thread_list = \<lparr>tl_head = None, tl_tail = None, tl_count = 0, tl_lock = spinlock_init 0\<rparr>"

definition mutex_init :: "mutex \<Rightarrow> mutex" where
  "mutex_init m = m\<lparr>m_state := MUTEX_UNLOCKED, m_owner := None, m_wait_queue := empty_thread_list,
     m_wait_lock := spinlock_init (m_wait_lock m)\<rparr>"

text \<open>
  The compare-and-swap, and the owner that is stored when it succeeds. The store follows the compare-and-swap without anything
  in between; the two are one step here. (The state decides who holds the mutex; \<open>mutex_lock\<close> never reads the owner.)
\<close>

definition mutex_cas :: "mutex \<Rightarrow> nat \<Rightarrow> bool \<times> mutex" where
  "mutex_cas m owner =
     (if m_state m = MUTEX_UNLOCKED
      then (True, m\<lparr>m_state := MUTEX_LOCKED, m_owner := Some owner\<rparr>) else (False, m))"

text \<open>The section under \<open>wait_lock\<close>: true when the thread has queued itself and goes on to
  \<open>sched_block\<close>, false when it starts over.\<close>

definition mutex_enqueue ::
  "threads \<times> mutex \<Rightarrow> nat \<Rightarrow> (bool \<times> threads \<times> mutex) option" where
  "mutex_enqueue = (\<lambda>(th, m) current. do {
     lk \<leftarrow> lock_acquire (m_wait_lock m);
     if m_state m = MUTEX_UNLOCKED then Some (False, th, m\<lparr>m_wait_lock := lock_release lk\<rparr>)
     else do {
       (th, q) \<leftarrow> sched_thread_list_add (th, m_wait_queue m) (Some current);
       Some (True, th, m\<lparr>m_wait_queue := q, m_wait_lock := lock_release lk\<rparr>)
     }
   })"

text \<open>One pass of the loop when nobody interferes; true when the mutex is held.\<close>

definition mutex_lock_pass :: "scheduler \<times> mutex \<Rightarrow> nat \<Rightarrow> (bool \<times> scheduler \<times> mutex) option" where
  "mutex_lock_pass = (\<lambda>(s, m) owner. do {
     current \<leftarrow> current_thread s;
     let (got, m) = mutex_cas m owner;
     if got then Some (True, s, m)
     else do {
       (queued, th, m) \<leftarrow> mutex_enqueue (threads s, m) current;
       let s = s\<lparr>threads := th\<rparr>;
       if queued then do { s \<leftarrow> sched_block s; Some (False, s, m) } else Some (False, s, m)
     }
   })"

definition mutex_unlock :: "scheduler \<times> mutex \<Rightarrow> (scheduler \<times> mutex) option" where
  "mutex_unlock = (\<lambda>(s, m).
     (case current_thread s of
        None \<Rightarrow> Some (s, m)
      | Some c \<Rightarrow>
          if m_owner m \<noteq> Some c then Some (s, m)
          else do {
            lk \<leftarrow> lock_acquire (m_wait_lock m);
            (next, th, q) \<leftarrow> sched_dequeue (threads s, m_wait_queue m);
            let (s, m) = (s\<lparr>threads := th\<rparr>, m\<lparr>m_wait_queue := q, m_wait_lock := lk\<rparr>);
            (case next of
               Some n \<Rightarrow> do {
                 s \<leftarrow> sched_unblock s (Some n);
                 Some (s, m\<lparr>m_owner := Some n, m_wait_lock := lock_release lk\<rparr>)
               }
             | None \<Rightarrow>
                 Some (s, m\<lparr>m_owner := None, m_state := MUTEX_UNLOCKED, m_wait_lock := lock_release lk\<rparr>))
          }))"

section \<open>Threads at a mutex\<close>

text \<open>
  A thread is elsewhere, about to try the compare-and-swap, about to enter the waiting section, parked
  in \<open>sched_block\<close>, or has returned from \<open>mutex_lock\<close>. A parked thread may return from
  \<open>sched_block\<close> at any time: the scheduler decides. Only a thread that has returned from
  \<open>mutex_lock\<close> calls \<open>mutex_unlock\<close>.
\<close>

datatype mutex_pc = Elsewhere | Trying | Contended | Parked | Holding

record mutex_sys =
  sys_sched :: scheduler
  sys_mutex :: mutex
  sys_pcs :: "nat \<Rightarrow> mutex_pc"

inductive mutex_step :: "mutex_sys \<Rightarrow> mutex_sys \<Rightarrow> bool" where
  call: "sys_pcs x t = Elsewhere \<Longrightarrow> mutex_step x (x\<lparr>sys_pcs := (sys_pcs x)(t := Trying)\<rparr>)"
| cas_ok: "sys_pcs x t = Trying \<Longrightarrow> mutex_cas (sys_mutex x) t = (True, m) \<Longrightarrow>
     mutex_step x (x\<lparr>sys_mutex := m, sys_pcs := (sys_pcs x)(t := Holding)\<rparr>)"
| cas_fail: "sys_pcs x t = Trying \<Longrightarrow> mutex_cas (sys_mutex x) t = (False, m) \<Longrightarrow>
     mutex_step x (x\<lparr>sys_mutex := m, sys_pcs := (sys_pcs x)(t := Contended)\<rparr>)"
| queue: "sys_pcs x t = Contended \<Longrightarrow>
     mutex_enqueue (threads (sys_sched x), sys_mutex x) t = Some (q, th, m) \<Longrightarrow>
     mutex_step x (x\<lparr>sys_sched := (sys_sched x)\<lparr>threads := th\<rparr>, sys_mutex := m,
                     sys_pcs := (sys_pcs x)(t := (if q then Parked else Trying))\<rparr>)"
| woken: "sys_pcs x t = Parked \<Longrightarrow> mutex_step x (x\<lparr>sys_pcs := (sys_pcs x)(t := Trying)\<rparr>)"
| unlock: "sys_pcs x t = Holding \<Longrightarrow>
     mutex_unlock ((sys_sched x)\<lparr>current_thread := Some t\<rparr>, sys_mutex x) = Some (s, m) \<Longrightarrow>
     mutex_step x (x\<lparr>sys_sched := s, sys_mutex := m, sys_pcs := (sys_pcs x)(t := Elsewhere)\<rparr>)"
| others: "mutex_step x (x\<lparr>sys_sched := s\<rparr>)"

inductive mutex_reachable :: "mutex_sys \<Rightarrow> bool" where
  start: "mutex_reachable \<lparr>sys_sched = s, sys_mutex = mutex_init m, sys_pcs = (\<lambda>_. Elsewhere)\<rparr>"
| step: "mutex_reachable x \<Longrightarrow> mutex_step x y \<Longrightarrow> mutex_reachable y"

definition mutex_sys_inv :: "mutex_sys \<Rightarrow> bool" where
  "mutex_sys_inv x \<longleftrightarrow> m_state (sys_mutex x) \<in> {MUTEX_UNLOCKED, MUTEX_LOCKED} \<and>
     (\<forall>t. sys_pcs x t = Holding \<longrightarrow>
        m_state (sys_mutex x) = MUTEX_LOCKED \<and> m_owner (sys_mutex x) = Some t)"

lemma holding_unique:
  assumes "mutex_sys_inv x" and "sys_pcs x t = Holding" and "sys_pcs x u = Holding"
  shows "u = t"
proof -
  from assms have "m_owner (sys_mutex x) = Some t" and "m_owner (sys_mutex x) = Some u"
    unfolding mutex_sys_inv_def by blast+
  then show ?thesis by simp
qed

lemma mutex_enqueue_keeps:
  "mutex_enqueue (th, m) t = Some (q, th', m') \<Longrightarrow> m_state m' = m_state m \<and> m_owner m' = m_owner m"
  by (auto simp: mutex_enqueue_def bind_eq_Some_conv split: if_splits)

text \<open>The two outcomes of an unlocking by the owner.\<close>

lemma mutex_unlock_cases:
  assumes "mutex_unlock (s, m) = Some (s', m')" and "current_thread s = Some t" and "m_owner m = Some t"
  shows "(m_owner m' = None \<and> m_state m' = MUTEX_UNLOCKED) \<or>
         (\<exists>n. m_owner m' = Some n \<and> m_state m' = m_state m)"
  using assms by (auto simp: mutex_unlock_def bind_eq_Some_conv split: option.splits)

lemma mutex_step_inv: "mutex_step x y \<Longrightarrow> mutex_sys_inv x \<Longrightarrow> mutex_sys_inv y"
proof (induction rule: mutex_step.induct)
  case (cas_ok x t m)
  then show ?case by (auto simp: mutex_sys_inv_def mutex_cas_def split: if_splits)
next
  case (cas_fail x t m)
  then show ?case by (auto simp: mutex_sys_inv_def mutex_cas_def split: if_splits)
next
  case (queue x t q th m)
  from mutex_enqueue_keeps [OF queue.hyps(2)] queue.prems show ?case
    by (auto simp: mutex_sys_inv_def split: if_splits)
next
  case (unlock x t s m)
  from unlock have own: "m_owner (sys_mutex x) = Some t" by (simp add: mutex_sys_inv_def)
  with unlock.prems have alone: "sys_pcs x u \<noteq> Holding" if "u \<noteq> t" for u
    using that by (auto simp: mutex_sys_inv_def)
  have "m_state m \<in> {MUTEX_UNLOCKED, MUTEX_LOCKED}"
    using mutex_unlock_cases [OF unlock.hyps(2) _ own] unlock.prems by (auto simp: mutex_sys_inv_def)
  with alone show ?case by (simp add: mutex_sys_inv_def)
qed (simp_all add: mutex_sys_inv_def)

lemma mutex_reachable_inv: "mutex_reachable x \<Longrightarrow> mutex_sys_inv x"
proof (induction rule: mutex_reachable.induct)
  case (start s m)
  show ?case by (simp add: mutex_sys_inv_def mutex_init_def)
next
  case (step x y)
  then show ?case by (blast intro: mutex_step_inv)
qed

text \<open>C9: The mutex excludes. Whatever the interleaving of the compare-and-swaps, the waiting sections,
  wake-ups (spurious ones included), unlockings and the rest of the scheduler, at most one thread is
  between the return of \<open>mutex_lock\<close> and \<open>mutex_unlock\<close>; the mutex then is locked, names that
  thread as its owner, and every compare-and-swap fails.\<close>
theorem mutex_mutual_exclusion:
  assumes "mutex_reachable x" and "sys_pcs x t = Holding"
  shows "(\<forall>u. sys_pcs x u = Holding \<longrightarrow> u = t) \<and> m_state (sys_mutex x) = MUTEX_LOCKED \<and>
         m_owner (sys_mutex x) = Some t \<and> mutex_cas (sys_mutex x) u = (False, sys_mutex x)"
proof -
  from mutex_reachable_inv [OF assms(1)] have inv: "mutex_sys_inv x" .
  then have "m_state (sys_mutex x) = MUTEX_LOCKED" "m_owner (sys_mutex x) = Some t"
    using assms(2) by (auto simp: mutex_sys_inv_def)
  then show ?thesis using holding_unique [OF inv assms(2)] by (simp add: mutex_cas_def)
qed

section \<open>Handing the mutex over\<close>

text \<open>
  An unlocking with a waiter stores the waiter as the owner and leaves the state locked. The waiter,
  back from \<open>sched_block\<close>, goes round its loop: it has no branch for having been made the owner.
\<close>

definition orphaned :: "mutex_sys \<Rightarrow> bool" where
  "orphaned x \<longleftrightarrow> m_state (sys_mutex x) = MUTEX_LOCKED \<and> (\<forall>t. sys_pcs x t \<noteq> Holding)"

lemma orphaned_step: "mutex_step x y \<Longrightarrow> orphaned x \<Longrightarrow> orphaned y"
proof (induction rule: mutex_step.induct)
  case (queue x t q th m)
  with mutex_enqueue_keeps [OF queue.hyps(2)] show ?case by (simp add: orphaned_def)
next
  case (cas_ok x t m)
  then show ?case by (simp add: orphaned_def mutex_cas_def)
next
  case (cas_fail x t m)
  then show ?case by (simp add: orphaned_def mutex_cas_def split: if_splits)
next
  case (unlock x t s m)
  then show ?case by (simp add: orphaned_def)
qed (simp_all add: orphaned_def)

lemma orphaned_steps: "mutex_step\<^sup>*\<^sup>* x y \<Longrightarrow> orphaned x \<Longrightarrow> orphaned y"
  by (induction rule: rtranclp_induct) (auto intro: orphaned_step)

lemma handover_orphans:
  assumes reach: "mutex_reachable x" and hold: "sys_pcs x t = Holding"
    and unl: "mutex_unlock ((sys_sched x)\<lparr>current_thread := Some t\<rparr>, sys_mutex x) = Some (s, m)"
    and handed: "m_owner m = Some n"
  shows "orphaned (x\<lparr>sys_sched := s, sys_mutex := m, sys_pcs := (sys_pcs x)(t := Elsewhere)\<rparr>)"
proof -
  from mutex_reachable_inv [OF reach] hold have own: "m_owner (sys_mutex x) = Some t"
    and locked: "m_state (sys_mutex x) = MUTEX_LOCKED"
    by (auto simp: mutex_sys_inv_def)
  note alone = holding_unique [OF mutex_reachable_inv [OF reach] hold]
  from mutex_unlock_cases [OF unl _ own] handed locked have "m_state m = MUTEX_LOCKED" by auto
  with alone show ?thesis by (auto simp: orphaned_def)
qed

text \<open>A contended mutex is never acquired again. If a thread unlocks the mutex while another
  one waits, ownership passes to the waiter with the state left locked, and from then on, in
  every continuation, no thread ever returns from \<open>mutex_lock\<close>: not the new owner, which fails its
  compare-and-swap and queues itself again, and nobody else.\<close>
theorem mutex_handover_deadlocks:
  assumes "mutex_reachable x" and "sys_pcs x t = Holding"
    and "mutex_unlock ((sys_sched x)\<lparr>current_thread := Some t\<rparr>, sys_mutex x) = Some (s, m)"
    and "m_owner m = Some n"
    and "mutex_step\<^sup>*\<^sup>* (x\<lparr>sys_sched := s, sys_mutex := m, sys_pcs := (sys_pcs x)(t := Elsewhere)\<rparr>) y"
  shows "sys_pcs y u \<noteq> Holding \<and> mutex_cas (sys_mutex y) u = (False, sys_mutex y)"
  using orphaned_steps [OF assms(5) handover_orphans [OF assms(1-4)]]
  by (simp add: orphaned_def mutex_cas_def)

text \<open>A run that gets there: thread 0 takes the mutex, thread 1 fails and queues itself.\<close>

definition idle_sched :: scheduler where
  "idle_sched = \<lparr>threads = (\<lambda>_. \<lparr>t_next = None, t_cls = SCHED_CLASS_NORMAL, t_base = 10,
       t_effective = 10, t_state = THREAD_RUNNING, t_process = None, t_user = False, t_id = 0,
       t_uptime = 0, t_wait = 0, t_time_slice = 0, t_wake_time = 0, t_ts_next = None,
       t_blocked_lock = 0, t_pi_owner = None\<rparr>),
     ready_queue = empty_thread_list, sleep_queue = empty_thread_list,
     kernel_threads = empty_thread_list, user_threads = empty_thread_list, next_tid = 2,
     idle_thread = None, current_thread = Some 0, current_process = None, ticks = 0,
     proc_pd = (\<lambda>_. Some 0x1000), loaded_pd = 0x1000\<rparr>"

definition held_mutex :: mutex where
  "held_mutex = \<lparr>m_state = MUTEX_LOCKED, m_owner = Some 0,
     m_wait_queue = \<lparr>tl_head = Some 1, tl_tail = Some 1, tl_count = 1, tl_lock = 0\<rparr>, m_wait_lock = 0\<rparr>"

definition contended_sys :: mutex_sys where
  "contended_sys = \<lparr>sys_sched = idle_sched, sys_mutex = held_mutex,
     sys_pcs = (\<lambda>_. Elsewhere)(0 := Holding, 1 := Parked)\<rparr>"

lemma contended_reachable: "mutex_reachable contended_sys"
proof -
  obtain m where m: "mutex_init held_mutex = m" by blast
  obtain m1 where m1: "m\<lparr>m_state := MUTEX_LOCKED, m_owner := Some 0\<rparr> = m1" by blast
  let ?pcs = "\<lambda>a b. (\<lambda>_. Elsewhere)(0 := a, Suc 0 := b)"
  let ?sys = "\<lambda>m a b. \<lparr>sys_sched = idle_sched, sys_mutex = m, sys_pcs = ?pcs a b\<rparr>"
  have 0: "mutex_reachable (?sys m Elsewhere Elsewhere)"
    using mutex_reachable.start [of idle_sched held_mutex] by (simp add: m fun_upd_idem)
  have 1: "mutex_step (?sys m Elsewhere Elsewhere) (?sys m Trying Elsewhere)"
    using mutex_step.call [of "?sys m Elsewhere Elsewhere" 0] by (simp add: fun_upd_twist)
  have 2: "mutex_step (?sys m Trying Elsewhere) (?sys m1 Holding Elsewhere)"
    using mutex_step.cas_ok [of "?sys m Trying Elsewhere" 0 m1]
    by (simp add: fun_upd_twist mutex_cas_def m1 [symmetric] m [symmetric] mutex_init_def)
  have 3: "mutex_step (?sys m1 Holding Elsewhere) (?sys m1 Holding Trying)"
    using mutex_step.call [of "?sys m1 Holding Elsewhere" 1] by simp
  have 4: "mutex_step (?sys m1 Holding Trying) (?sys m1 Holding Contended)"
    using mutex_step.cas_fail [of "?sys m1 Holding Trying" 1 m1]
    by (simp add: mutex_cas_def m1 [symmetric])
  have enq: "mutex_enqueue (threads idle_sched, m1) 1 = Some (True, threads idle_sched, held_mutex)"
    by (simp add: mutex_enqueue_def m1 [symmetric] m [symmetric] mutex_init_def held_mutex_def
        sched_thread_list_add_def tl_append_def empty_thread_list_def spinlock_init_def Let_def
        set_next_def upd_thread_def idle_sched_def fun_upd_idem)
  have 5: "mutex_step (?sys m1 Holding Contended) (?sys held_mutex Holding Parked)"
    using mutex_step.queue [of "?sys m1 Holding Contended" 1 True "threads idle_sched" held_mutex] enq
    by simp
  have "mutex_reachable (?sys held_mutex Holding Parked)"
    by (rule mutex_reachable.step [OF _ 5], rule mutex_reachable.step [OF _ 4],
        rule mutex_reachable.step [OF _ 3], rule mutex_reachable.step [OF _ 2],
        rule mutex_reachable.step [OF 0 1])
  then show ?thesis by (simp add: contended_sys_def)
qed

theorem mutex_mutual_exclusion_witness:
  "sys_pcs contended_sys 0 = Holding \<and> mutex_cas (sys_mutex contended_sys) 1 = (False, sys_mutex contended_sys)"
  using mutex_mutual_exclusion [OF contended_reachable, of 0 1] by (simp add: contended_sys_def)

theorem mutex_handover_deadlocks_witness:
  "\<exists>y :: mutex_sys. sys_pcs y 1 \<noteq> Holding \<and> mutex_cas (sys_mutex y) 1 = (False, sys_mutex y)"
proof -
  have "\<exists>s m. mutex_unlock ((sys_sched contended_sys)\<lparr>current_thread := Some 0\<rparr>, sys_mutex contended_sys)
      = Some (s, m) \<and> m_owner m = Some 1"
    by (simp add: contended_sys_def mutex_unlock_def held_mutex_def idle_sched_def sched_dequeue_def
        sched_unblock_def enqueue_ready_def sched_enqueue_def tl_append_def set_state_def upd_thread_def
        set_next_def empty_thread_list_def spinlock_init_def Let_def)
  then obtain s m where sm:
    "mutex_unlock ((sys_sched contended_sys)\<lparr>current_thread := Some 0\<rparr>, sys_mutex contended_sys) = Some (s, m)"
    "m_owner m = Some 1" by blast
  have "sys_pcs contended_sys 0 = Holding" by (simp add: contended_sys_def)
  from mutex_handover_deadlocks [OF contended_reachable this sm rtranclp.rtrancl_refl]
  show ?thesis by blast
qed

end
