(* ===== verification/Pushlock.thy ===== *)
theory Pushlock
  imports Mutex
begin

text \<open>
  task/sync/pushlock.h: the push lock, a mutex with a fast path and a waiters bit. Unlike the mutex it
  calls \<open>sched_block\<close> with the spinlock of its wait queue held.
\<close>

section \<open>The push lock and its operations\<close>

abbreviation PUSHLOCK_LOCKED :: u32 where "PUSHLOCK_LOCKED \<equiv> 1"
abbreviation PUSHLOCK_WAITERS :: u32 where "PUSHLOCK_WAITERS \<equiv> 2"

record pushlock =
  pl_state :: u32
  pl_owner :: "nat option"
  pl_wait_queue :: thread_list
  pl_wait_lock :: spinlock_t

definition pushlock_init :: "pushlock \<Rightarrow> pushlock" where
  "pushlock_init pl = pl\<lparr>pl_state := 0, pl_owner := None, pl_wait_queue := empty_thread_list,
     pl_wait_lock := spinlock_init (pl_wait_lock pl)\<rparr>"

definition pushlock_destroy :: "pushlock \<Rightarrow> pushlock" where
  "pushlock_destroy pl = pl\<lparr>pl_wait_lock := spinlock_destroy (pl_wait_lock pl),
     pl_wait_queue := (pl_wait_queue pl)\<lparr>tl_lock := spinlock_destroy (tl_lock (pl_wait_queue pl))\<rparr>\<rparr>"

text \<open>The compare-and-swap and the store of the owner that follows it are one step. (Locking never reads the owner.)\<close>

definition pushlock_fast_path :: "pushlock \<Rightarrow> nat option \<Rightarrow> bool \<times> pushlock" where
  "pushlock_fast_path pl owner =
     (if pl_state pl = 0 then (True, pl\<lparr>pl_state := PUSHLOCK_LOCKED, pl_owner := owner\<rparr>)
      else (False, pl))"

text \<open>
  The slow path up to \<open>sched_block\<close>: true when the thread is queued and about to block, and then
  \<open>wait_lock\<close> is still held; \<open>pushlock_resume\<close> is what follows when \<open>sched_block\<close> returns.
\<close>

definition pushlock_enqueue ::
  "threads \<times> pushlock \<Rightarrow> nat \<Rightarrow> (bool \<times> threads \<times> pushlock) option" where
  "pushlock_enqueue = (\<lambda>(th, pl) t. do {
     lk \<leftarrow> lock_acquire (pl_wait_lock pl);
     if pl_state pl AND PUSHLOCK_LOCKED = 0
     then Some (False, th, pl\<lparr>pl_wait_lock := lock_release lk\<rparr>)
     else do {
       let pl = pl\<lparr>pl_state := pl_state pl OR PUSHLOCK_WAITERS, pl_wait_lock := lk\<rparr>;
       (th, q) \<leftarrow> sched_thread_list_add (th, pl_wait_queue pl) (Some t);
       Some (True, th, pl\<lparr>pl_wait_queue := q\<rparr>)
     }
   })"

definition pushlock_resume :: "pushlock \<Rightarrow> pushlock" where
  "pushlock_resume pl = pl\<lparr>pl_wait_lock := lock_release (pl_wait_lock pl)\<rparr>"

text \<open>The result names the thread it has unblocked.\<close>

definition pushlock_unlock :: "scheduler \<times> pushlock \<Rightarrow> (nat option \<times> scheduler \<times> pushlock) option" where
  "pushlock_unlock = (\<lambda>(s, pl).
     (case current_thread s of
        None \<Rightarrow> Some (None, s, pl)
      | Some c \<Rightarrow>
          if pl_owner pl \<noteq> t_process (threads s c) then Some (None, s, pl)
          else do {
            lk \<leftarrow> lock_acquire (pl_wait_lock pl);
            (next, th, q) \<leftarrow> sched_dequeue (threads s, pl_wait_queue pl);
            let (s, pl) = (s\<lparr>threads := th\<rparr>, pl\<lparr>pl_wait_queue := q, pl_wait_lock := lk\<rparr>);
            (case next of
               Some n \<Rightarrow> do {
                 let pl = pl\<lparr>pl_owner := None, pl_state := PUSHLOCK_WAITERS\<rparr>;
                 s \<leftarrow> sched_unblock s (Some n);
                 Some (Some n, s, pl\<lparr>pl_wait_lock := lock_release lk\<rparr>)
               }
             | None \<Rightarrow>
                 Some (None, s, pl\<lparr>pl_owner := None, pl_state := 0, pl_wait_lock := lock_release lk\<rparr>))
          }))"

section \<open>Threads at a push lock\<close>

text \<open>
  A parked thread sits in \<open>sched_block\<close> and is on no ready queue, so it runs again only after it has
  been unblocked, which the unlocking thread does.
\<close>

datatype push_pc = Idle | Attempting | Slow | Asleep | Unblocked | Owning

record push_sys =
  ps_sched :: scheduler
  ps_lock :: pushlock
  ps_pcs :: "nat \<Rightarrow> push_pc"

definition wake_pc :: "nat option \<Rightarrow> (nat \<Rightarrow> push_pc) \<Rightarrow> nat \<Rightarrow> push_pc" where
  "wake_pc n pcs = (case n of None \<Rightarrow> pcs
     | Some u \<Rightarrow> if pcs u = Asleep then pcs(u := Unblocked) else pcs)"

inductive push_step :: "push_sys \<Rightarrow> push_sys \<Rightarrow> bool" where
  call: "ps_pcs x t = Idle \<Longrightarrow> push_step x (x\<lparr>ps_pcs := (ps_pcs x)(t := Attempting)\<rparr>)"
| fast_ok: "ps_pcs x t = Attempting \<Longrightarrow> pushlock_fast_path (ps_lock x) owner = (True, pl) \<Longrightarrow>
     push_step x (x\<lparr>ps_lock := pl, ps_pcs := (ps_pcs x)(t := Owning)\<rparr>)"
| fast_fail: "ps_pcs x t = Attempting \<Longrightarrow> pushlock_fast_path (ps_lock x) owner = (False, pl) \<Longrightarrow>
     push_step x (x\<lparr>ps_lock := pl, ps_pcs := (ps_pcs x)(t := Slow)\<rparr>)"
| queue: "ps_pcs x t = Slow \<Longrightarrow>
     pushlock_enqueue (threads (ps_sched x), ps_lock x) t = Some (q, th, pl) \<Longrightarrow>
     push_step x (x\<lparr>ps_sched := (ps_sched x)\<lparr>threads := th\<rparr>, ps_lock := pl,
                    ps_pcs := (ps_pcs x)(t := (if q then Asleep else Attempting))\<rparr>)"
| resume: "ps_pcs x t = Unblocked \<Longrightarrow>
     push_step x (x\<lparr>ps_lock := pushlock_resume (ps_lock x), ps_pcs := (ps_pcs x)(t := Attempting)\<rparr>)"
| unlock: "ps_pcs x t = Owning \<Longrightarrow>
     pushlock_unlock ((ps_sched x)\<lparr>current_thread := Some t\<rparr>, ps_lock x) = Some (n, s, pl) \<Longrightarrow>
     push_step x (x\<lparr>ps_sched := s, ps_lock := pl, ps_pcs := (wake_pc n (ps_pcs x))(t := Idle)\<rparr>)"
| others: "push_step x (x\<lparr>ps_sched := s\<rparr>)"

inductive push_reachable :: "push_sys \<Rightarrow> bool" where
  start: "push_reachable \<lparr>ps_sched = s, ps_lock = pushlock_init pl, ps_pcs = (\<lambda>_. Idle)\<rparr>"
| step: "push_reachable x \<Longrightarrow> push_step x y \<Longrightarrow> push_reachable y"

section \<open>A waiter shuts the lock for ever\<close>

text \<open>
  \<open>shut w x\<close>: the thread \<open>w\<close> sleeps with the wait lock held and the lock is taken. Nothing can change
  that: taking the wait lock is what unlocking, and so waking \<open>w\<close>, would need.
\<close>

definition shut :: "nat \<Rightarrow> push_sys \<Rightarrow> bool" where
  "shut w x \<longleftrightarrow> ps_pcs x w = Asleep \<and> pl_wait_lock (ps_lock x) = 1 \<and> pl_state (ps_lock x) \<noteq> 0 \<and>
     (\<forall>t. ps_pcs x t \<noteq> Unblocked)"

definition push_inv :: "push_sys \<Rightarrow> bool" where
  "push_inv x \<longleftrightarrow>
     (\<forall>t. ps_pcs x t \<noteq> Unblocked) \<and>
     (pl_wait_lock (ps_lock x) = 0 \<and> (\<forall>t. ps_pcs x t \<noteq> Asleep) \<or>
      pl_wait_lock (ps_lock x) = 1 \<and> pl_state (ps_lock x) \<noteq> 0) \<and>
     (\<forall>t. ps_pcs x t = Owning \<longrightarrow> pl_state (ps_lock x) \<noteq> 0 \<and> (\<forall>u. ps_pcs x u = Owning \<longrightarrow> u = t))"

lemma pushlock_enqueue_cases:
  assumes "pushlock_enqueue (th, pl) t = Some (q, th', pl')"
  shows "pl_wait_lock pl = 0 \<and>
    (\<not> q \<and> pl' = pl\<lparr>pl_wait_lock := 0\<rparr> \<or>
     q \<and> pl_wait_lock pl' = 1 \<and> pl_state pl' \<noteq> 0)"
proof -
  have "x OR 2 \<noteq> 0" if "x AND 1 \<noteq> 0" for x :: u32
  proof
    assume "x OR 2 = 0"
    then have "(x OR 2) AND 1 = 0" by simp
    then have "x AND 1 = 0" by (simp add: bit.conj_disj_distrib2)
    with that show False by simp
  qed
  with assms show ?thesis
    by (auto simp: pushlock_enqueue_def bind_eq_Some_conv Let_def split: if_splits)
qed

text \<open>Unlocking either finds another owner and does nothing, or needs the wait lock.\<close>

lemma pushlock_unlock_cases:
  assumes "pushlock_unlock (s, pl) = Some (n, s', pl')"
  shows "n = None \<and> pl' = pl \<or> pl_wait_lock pl = 0 \<and> pl_wait_lock pl' = 0"
  using assms
  by (auto simp: pushlock_unlock_def bind_eq_Some_conv Let_def split: option.splits if_splits)

lemma pushlock_unlock_stuck:
  assumes "pl_wait_lock pl = 1" and "current_thread s = Some c"
    and "pl_owner pl = t_process (threads s c)"
  shows "pushlock_unlock (s, pl) = None"
  using assms by (simp add: pushlock_unlock_def)

lemma push_step_inv: "push_step x y \<Longrightarrow> push_inv x \<Longrightarrow> push_inv y"
proof (induction rule: push_step.induct)
  case (fast_ok x t owner pl)
  then have "pl_state (ps_lock x) = 0"
    by (auto simp: pushlock_fast_path_def split: if_splits)
  with fast_ok show ?case by (auto simp: push_inv_def pushlock_fast_path_def)
next
  case (fast_fail x t owner pl)
  then have "pl = ps_lock x" by (auto simp: pushlock_fast_path_def split: if_splits)
  with fast_fail show ?case by (auto simp: push_inv_def)
next
  case (queue x t q th pl)
  from pushlock_enqueue_cases [OF queue.hyps(2)] queue show ?case
    by (cases q) (auto simp: push_inv_def)
next
  case (unlock x t n s pl)
  from unlock have alone: "ps_pcs x u \<noteq> Owning" if "u \<noteq> t" for u
    using that unfolding push_inv_def by blast
  from pushlock_unlock_cases [OF unlock.hyps(2)] show ?case
  proof
    assume "n = None \<and> pl = ps_lock x"
    with unlock show ?thesis by (auto simp: push_inv_def wake_pc_def)
  next
    assume free: "pl_wait_lock (ps_lock x) = 0 \<and> pl_wait_lock pl = 0"
    with unlock have none: "\<forall>u. ps_pcs x u \<noteq> Asleep" by (auto simp: push_inv_def)
    then have "wake_pc n (ps_pcs x) = ps_pcs x" by (simp add: wake_pc_def split: option.splits)
    with free none alone unlock show ?thesis by (simp add: push_inv_def)
  qed
next
  case (resume x t)
  then show ?case by (auto simp: push_inv_def)
qed (auto simp: push_inv_def)

lemma push_reachable_inv: "push_reachable x \<Longrightarrow> push_inv x"
proof (induction rule: push_reachable.induct)
  case (start s pl)
  show ?case by (simp add: push_inv_def pushlock_init_def spinlock_init_def)
next
  case (step x y)
  then show ?case by (blast intro: push_step_inv)
qed

lemma shut_step: "push_step x y \<Longrightarrow> shut w x \<Longrightarrow> shut w y"
proof (induction rule: push_step.induct)
  case (fast_ok x t owner pl)
  then show ?case by (simp add: shut_def pushlock_fast_path_def split: if_splits)
next
  case (fast_fail x t owner pl)
  then have "pl = ps_lock x" by (auto simp: pushlock_fast_path_def split: if_splits)
  with fast_fail show ?case by (auto simp: shut_def)
next
  case (queue x t q th pl)
  from pushlock_enqueue_cases [OF queue.hyps(2)] queue.prems show ?case by (simp add: shut_def)
next
  case (unlock x t n s pl)
  from pushlock_unlock_cases [OF unlock.hyps(2)] unlock show ?case
    by (auto simp: shut_def wake_pc_def)
qed (auto simp: shut_def)

lemma shut_steps: "push_step\<^sup>*\<^sup>* x y \<Longrightarrow> shut w x \<Longrightarrow> shut w y"
  by (induction rule: rtranclp_induct) (auto intro: shut_step)

lemma shut_no_new_owner:
  assumes "push_step\<^sup>*\<^sup>* x y" and "shut w x" and "ps_pcs y u = Owning"
  shows "ps_pcs x u = Owning"
  using assms
proof (induction rule: converse_rtranclp_induct)
  case (step x z)
  then have own: "ps_pcs z u = Owning" using shut_step by blast
  from step.hyps(1) step.prems(1) own show ?case
    by (cases rule: push_step.cases)
      (auto simp: shut_def pushlock_fast_path_def wake_pc_def split: if_splits option.splits)
qed simp

lemma asleep_shuts: "push_reachable x \<Longrightarrow> ps_pcs x w = Asleep \<Longrightarrow> shut w x"
  using push_reachable_inv [of x] unfolding push_inv_def shut_def by blast

text \<open>C10: The push lock excludes. In every interleaving at most one thread is between the return of
  \<open>pushlock_lock\<close> and \<open>pushlock_unlock\<close>, and while one is, the fast path fails for everybody.\<close>
theorem pushlock_mutual_exclusion:
  assumes "push_reachable x" and "ps_pcs x t = Owning"
  shows "(\<forall>u. ps_pcs x u = Owning \<longrightarrow> u = t) \<and>
         pushlock_fast_path (ps_lock x) owner = (False, ps_lock x)"
proof -
  from push_reachable_inv [OF assms(1)] assms(2)
  have "pl_state (ps_lock x) \<noteq> 0" and "\<forall>u. ps_pcs x u = Owning \<longrightarrow> u = t"
    unfolding push_inv_def by blast+
  then show ?thesis by (simp add: pushlock_fast_path_def)
qed

text \<open>A push lock with a waiter is never released. As soon as one thread waits in
  \<open>pushlock_lock\<close> it sleeps with the spinlock of the wait queue held; from then on, in every
  continuation, it stays asleep, the owner's \<open>pushlock_unlock\<close> spins on that spinlock for
  ever, no thread acquires the lock that did not own it already, and every fast path fails.\<close>
theorem pushlock_waiter_deadlocks:
  assumes "push_reachable x" and "ps_pcs x w = Asleep" and "push_step\<^sup>*\<^sup>* x y"
  shows "ps_pcs y w = Asleep \<and>
         (\<forall>s c. current_thread s = Some c \<longrightarrow> pl_owner (ps_lock y) = t_process (threads s c) \<longrightarrow>
            pushlock_unlock (s, ps_lock y) = None) \<and>
         (\<forall>u. ps_pcs y u = Owning \<longrightarrow> ps_pcs x u = Owning) \<and>
         fst (pushlock_fast_path (ps_lock y) owner) = False"
proof -
  note sx = asleep_shuts [OF assms(1,2)]
  note sy = shut_steps [OF assms(3) sx]
  show ?thesis
    using sy shut_no_new_owner [OF assms(3) sx] pushlock_unlock_stuck [of "ps_lock y"]
    by (auto simp: shut_def pushlock_fast_path_def)
qed

text \<open>Even a hand-over would not work: with the waiters bit left as the whole state the fast path
  fails, and the recheck, which looks at the locked bit, sends every thread round again.\<close>

lemma pushlock_waiters_only_livelock:
  assumes "pl_state pl = PUSHLOCK_WAITERS" and "pl_wait_lock pl = 0"
  shows "pushlock_fast_path pl owner = (False, pl) \<and> pushlock_enqueue (th, pl) t = Some (False, th, pl)"
  using assms by (simp add: pushlock_fast_path_def pushlock_enqueue_def)

definition held_pushlock :: pushlock where
  "held_pushlock = \<lparr>pl_state = 3, pl_owner = None,
     pl_wait_queue = \<lparr>tl_head = Some 1, tl_tail = Some 1, tl_count = 1, tl_lock = 0\<rparr>, pl_wait_lock = 1\<rparr>"

definition asleep_sys :: push_sys where
  "asleep_sys = \<lparr>ps_sched = idle_sched, ps_lock = held_pushlock,
     ps_pcs = (\<lambda>_. Idle)(0 := Owning, 1 := Asleep)\<rparr>"

lemma asleep_reachable: "push_reachable asleep_sys"
proof -
  obtain m where m: "pushlock_init held_pushlock = m" by blast
  obtain m1 where m1: "m\<lparr>pl_state := PUSHLOCK_LOCKED, pl_owner := None\<rparr> = m1" by blast
  let ?pcs = "\<lambda>a b. (\<lambda>_. Idle)(0 := a, Suc 0 := b)"
  let ?sys = "\<lambda>m a b. \<lparr>ps_sched = idle_sched, ps_lock = m, ps_pcs = ?pcs a b\<rparr>"
  have 0: "push_reachable (?sys m Idle Idle)"
    using push_reachable.start [of idle_sched held_pushlock] by (simp add: m fun_upd_idem)
  have 1: "push_step (?sys m Idle Idle) (?sys m Attempting Idle)"
    using push_step.call [of "?sys m Idle Idle" 0] by (simp add: fun_upd_twist)
  have 2: "push_step (?sys m Attempting Idle) (?sys m1 Owning Idle)"
    using push_step.fast_ok [of "?sys m Attempting Idle" 0 None m1]
    by (simp add: fun_upd_twist pushlock_fast_path_def m1 [symmetric] m [symmetric] pushlock_init_def)
  have 3: "push_step (?sys m1 Owning Idle) (?sys m1 Owning Attempting)"
    using push_step.call [of "?sys m1 Owning Idle" 1] by simp
  have 4: "push_step (?sys m1 Owning Attempting) (?sys m1 Owning Slow)"
    using push_step.fast_fail [of "?sys m1 Owning Attempting" 1 None m1]
    by (simp add: pushlock_fast_path_def m1 [symmetric])
  have enq: "pushlock_enqueue (threads idle_sched, m1) 1 = Some (True, threads idle_sched, held_pushlock)"
    by (simp add: pushlock_enqueue_def m1 [symmetric] m [symmetric] pushlock_init_def held_pushlock_def
        sched_thread_list_add_def tl_append_def empty_thread_list_def spinlock_init_def Let_def
        set_next_def upd_thread_def idle_sched_def fun_upd_idem)
  have 5: "push_step (?sys m1 Owning Slow) (?sys held_pushlock Owning Asleep)"
    using push_step.queue [of "?sys m1 Owning Slow" 1 True "threads idle_sched" held_pushlock] enq
    by simp
  have "push_reachable (?sys held_pushlock Owning Asleep)"
    by (rule push_reachable.step [OF _ 5], rule push_reachable.step [OF _ 4],
        rule push_reachable.step [OF _ 3], rule push_reachable.step [OF _ 2],
        rule push_reachable.step [OF 0 1])
  then show ?thesis by (simp add: asleep_sys_def)
qed

theorem pushlock_mutual_exclusion_witness:
  "ps_pcs asleep_sys 0 = Owning \<and> fst (pushlock_fast_path (ps_lock asleep_sys) None) = False"
  using pushlock_mutual_exclusion [OF asleep_reachable, of 0 None] by (simp add: asleep_sys_def)

theorem pushlock_waiter_deadlocks_witness:
  "ps_pcs asleep_sys 0 = Owning \<and> pushlock_unlock (idle_sched, ps_lock asleep_sys) = None"
  using pushlock_waiter_deadlocks [OF asleep_reachable, of 1 asleep_sys None]
  by (simp add: asleep_sys_def held_pushlock_def idle_sched_def)

end
