(* ===== verification/PrioQueue.thy ===== *)
theory PrioQueue
  imports Prelude "HOL-Library.Multiset"
begin

text \<open>
  The interface of a stable priority queue: an entry is inserted behind all entries of at least its own
  key, and the first one is taken. Everything the turnstiles promise about the order in which
  waiters are served follows from the four laws.
\<close>

definition stable_insert :: "('e \<Rightarrow> 'k :: linorder) \<Rightarrow> 'e \<Rightarrow> 'e list \<Rightarrow> 'e list" where
  "stable_insert key t xs = takeWhile (\<lambda>x. key t \<le> key x) xs @ t # dropWhile (\<lambda>x. key t \<le> key x) xs"

abbreviation descending :: "('e \<Rightarrow> 'k :: linorder) \<Rightarrow> 'e list \<Rightarrow> bool" where
  "descending key xs \<equiv> sorted_wrt (\<lambda>a b. key b \<le> key a) xs"

lemma set_stable_insert [simp]: "set (stable_insert key t xs) = insert t (set xs)"
  unfolding stable_insert_def by (metis insert_is_Un set_append Un_insert_right list.simps(15)
      takeWhile_dropWhile_id)

lemma mset_stable_insert [simp]: "mset (stable_insert key t xs) = add_mset t (mset xs)"
  unfolding stable_insert_def
  by (metis mset.simps(2) mset_append takeWhile_dropWhile_id union_mset_add_mset_right)

lemma descending_stable_insert:
  assumes "descending key xs" shows "descending key (stable_insert key t xs)"
  using assms
proof (induction xs)
  case (Cons x xs)
  show ?case
  proof (cases "key t \<le> key x")
    case True
    then have "stable_insert key t (x # xs) = x # stable_insert key t xs"
      by (simp add: stable_insert_def)
    with True Cons show ?thesis by simp
  next
    case False
    then have "stable_insert key t (x # xs) = t # x # xs" by (simp add: stable_insert_def)
    with False Cons.prems show ?thesis by fastforce
  qed
qed (simp add: stable_insert_def)

text \<open>Entries of one key keep their order of arrival.\<close>

lemma stable_insert_same_key:
  assumes "descending key xs"
  shows "filter (\<lambda>x. key x = k) (stable_insert key t xs) =
         filter (\<lambda>x. key x = k) xs @ (if key t = k then [t] else [])"
  using assms
proof (induction xs)
  case (Cons x xs)
  show ?case
  proof (cases "key t \<le> key x")
    case True
    then have "stable_insert key t (x # xs) = x # stable_insert key t xs"
      by (simp add: stable_insert_def)
    with Cons show ?thesis by simp
  next
    case False
    then have ins: "stable_insert key t (x # xs) = t # x # xs" by (simp add: stable_insert_def)
    from False Cons.prems have "\<forall>y\<in>set (x # xs). key y \<noteq> key t" by force
    then have "key t = k \<Longrightarrow> filter (\<lambda>x. key x = k) (x # xs) = []"
      by (auto simp: filter_empty_conv)
    with ins show ?thesis by auto
  qed
qed (simp add: stable_insert_def)

text \<open>
  What a client sees: entries arrive and are served. In the specification the waiting entries are a list in the order
  of their arrival, and the one that is served is the first of those with the greatest key.
\<close>

datatype 'e pq_op = Arrive 'e | Serve

fun pq_run :: "('s \<Rightarrow> 'e \<Rightarrow> 's option) \<Rightarrow> ('s \<Rightarrow> 'e option \<times> 's) \<Rightarrow> 'e pq_op list \<Rightarrow> 's \<Rightarrow> 'e option list option" where
  "pq_run ins pop [] s = Some []"
| "pq_run ins pop (Arrive t # ops) s = do { s \<leftarrow> ins s t; pq_run ins pop ops s }"
| "pq_run ins pop (Serve # ops) s = (case pop s of (r, s) \<Rightarrow> do { rs \<leftarrow> pq_run ins pop ops s; Some (r # rs) })"

definition first_greatest :: "('e \<Rightarrow> 'k :: linorder) \<Rightarrow> 'e list \<Rightarrow> 'e" where
  "first_greatest key ws = hd (filter (\<lambda>x. list_all (\<lambda>y. key y \<le> key x) ws) ws)"

fun pq_spec :: "('e \<Rightarrow> 'k :: linorder) \<Rightarrow> 'e pq_op list \<Rightarrow> 'e list \<Rightarrow> 'e option list" where
  "pq_spec key [] ws = []"
| "pq_spec key (Arrive t # ops) ws = pq_spec key ops (ws @ [t])"
| "pq_spec key (Serve # ops) ws =
     (if ws = [] then None # pq_spec key ops []
      else Some (first_greatest key ws) # pq_spec key ops (remove1 (first_greatest key ws) ws))"

text \<open>No entry arrives while it is waiting.\<close>

fun pq_fresh :: "('e \<Rightarrow> 'k :: linorder) \<Rightarrow> 'e pq_op list \<Rightarrow> 'e list \<Rightarrow> bool" where
  "pq_fresh key [] ws = True"
| "pq_fresh key (Arrive t # ops) ws = (t \<notin> set ws \<and> pq_fresh key ops (ws @ [t]))"
| "pq_fresh key (Serve # ops) ws =
     (if ws = [] then pq_fresh key ops [] else pq_fresh key ops (remove1 (first_greatest key ws) ws))"

text \<open>\<open>xs\<close> holds the entries of \<open>ws\<close> by key, and by arrival among equals.\<close>

definition sorts_arrivals :: "('e \<Rightarrow> 'k :: linorder) \<Rightarrow> 'e list \<Rightarrow> 'e list \<Rightarrow> bool" where
  "sorts_arrivals key ws xs \<longleftrightarrow> descending key xs \<and> mset xs = mset ws \<and>
     (\<forall>k. filter (\<lambda>x. key x = k) xs = filter (\<lambda>x. key x = k) ws)"

lemma sorts_arrivals_first:
  assumes "sorts_arrivals key ws (x # xs)"
  shows "first_greatest key ws = x" "sorts_arrivals key (remove1 x ws) xs"
proof -
  have d: "descending key (x # xs)" and m: "mset (x # xs) = mset ws"
    and f: "\<And>k. filter (\<lambda>y. key y = k) (x # xs) = filter (\<lambda>y. key y = k) ws"
    using assms by (simp_all add: sorts_arrivals_def)
  have sets: "set ws = insert x (set xs)" using mset_eq_setD [OF m] by simp
  have "list_all (\<lambda>z. key z \<le> key y) ws \<longleftrightarrow> key y = key x" if "y \<in> set ws" for y
    using that d by (auto simp: sets list_all_iff)
  then have "filter (\<lambda>y. list_all (\<lambda>z. key z \<le> key y) ws) ws = filter (\<lambda>y. key y = key x) ws"
    by (rule filter_cong [OF refl])
  then show "first_greatest key ws = x" using f [of "key x"] by (simp add: first_greatest_def flip: f)
  have "filter (\<lambda>y. key y = k) xs = filter (\<lambda>y. key y = k) (remove1 x ws)" for k
    using f [of k] by (auto simp: filter_remove1 remove1_filter_not split: if_splits) (metis remove1.simps(2))
  moreover have "mset xs = mset (remove1 x ws)" using m by (metis add_mset_remove_trivial mset.simps(2) mset_remove1)
  ultimately show "sorts_arrivals key (remove1 x ws) xs" using d by (simp add: sorts_arrivals_def)
qed

lemma sorts_arrivals_insert:
  assumes "sorts_arrivals key ws xs"
  shows "sorts_arrivals key (ws @ [t]) (stable_insert key t xs)"
  using assms descending_stable_insert stable_insert_same_key [of key xs _ t]
  by (auto simp: sorts_arrivals_def)

locale prio_queue =
  fixes ins :: "'s \<Rightarrow> 'e \<Rightarrow> 's option"
    and pop :: "'s \<Rightarrow> 'e option \<times> 's"
    and key :: "'e \<Rightarrow> 'k :: linorder"
    and rep :: "'s \<Rightarrow> 'e list \<Rightarrow> bool"
  assumes ins_law: "rep s xs \<Longrightarrow> t \<notin> set xs \<Longrightarrow> \<exists>s'. ins s t = Some s' \<and> rep s' (stable_insert key t xs)"
    and pop_none: "rep s [] \<Longrightarrow> pop s = (None, s)"
    and pop_some: "rep s (x # xs) \<Longrightarrow> \<exists>s'. pop s = (Some x, s') \<and> rep s' xs"
begin

text \<open>The contract: served by key, and by arrival among equals.\<close>

lemma serves_arrivals:
  "rep s xs \<Longrightarrow> sorts_arrivals key ws xs \<Longrightarrow> pq_fresh key ops ws \<Longrightarrow> pq_run ins pop ops s = Some (pq_spec key ops ws)"
proof (induction ops arbitrary: s xs ws)
  case (Cons op ops)
  show ?case
  proof (cases op)
    case (Arrive t)
    have "set xs = set ws" using Cons.prems(2) by (auto simp: sorts_arrivals_def dest: mset_eq_setD)
    then have "t \<notin> set xs" using Cons.prems(3) Arrive by simp
    with Cons.prems(1) ins_law obtain s' where "ins s t = Some s'" "rep s' (stable_insert key t xs)" by blast
    moreover have "pq_run ins pop ops s' = Some (pq_spec key ops (ws @ [t]))"
      using \<open>rep s' _\<close> sorts_arrivals_insert [OF Cons.prems(2)] Cons.prems(3) Arrive by (intro Cons.IH) simp_all
    ultimately show ?thesis using Arrive by simp
  next
    case Serve
    show ?thesis
    proof (cases xs)
      case Nil
      then have "ws = []" using Cons.prems(2) by (simp add: sorts_arrivals_def)
      then show ?thesis using Cons Nil pop_none Serve by simp
    next
      case xs: (Cons x ys)
      then have ne: "ws \<noteq> []" using Cons.prems(2) by (auto simp: sorts_arrivals_def)
      from xs Cons.prems(1) pop_some obtain s' where "pop s = (Some x, s')" "rep s' ys" by blast
      then show ?thesis using Cons.IH Cons.prems ne xs Serve sorts_arrivals_first [of key ws x ys] by simp
    qed
  qed
qed simp

end

end
