(* ===== verification/Turnstile.thy ===== *)
theory Turnstile
  imports SchedQueue PrioQueue
begin

text \<open>
  task/sync/turnstile.h: threads that wait for a lock, kept in a fixed table of buckets by the address of
  the lock and in the order of their effective priority, with priority inheritance. The waiters of
  a bucket are linked through \<open>ts_next\<close>; a thread that waits remembers the lock and its owner,
  which makes the inheritance chain.
\<close>

section \<open>State\<close>

record turnstile =
  ts_lock_addr :: u32
  ts_owner :: "nat option"
  ts_waiters :: "nat option"

record turnstile_bucket =
  b_lock :: spinlock_t
  b_initialized :: bool
  b_ts :: turnstile

type_synonym turnstile_table = "nat \<Rightarrow> turnstile_bucket"

definition TURNSTILE_HASH_INDEX :: "u32 \<Rightarrow> nat" where
  "TURNSTILE_HASH_INDEX lock_addr = unat (drop_bit 3 lock_addr AND 127)"

abbreviation ts_link :: "threads \<Rightarrow> nat \<Rightarrow> nat option" where
  "ts_link th \<equiv> \<lambda>t. t_ts_next (th t)"

definition set_ts_next :: "nat \<Rightarrow> nat option \<Rightarrow> threads \<Rightarrow> threads" where
  "set_ts_next t p th = upd_thread t (\<lambda>x. x\<lparr>t_ts_next := p\<rparr>) th"

section \<open>The waiters of a turnstile\<close>

text \<open>
  The loop keeps a pointer to the link it has reached: the head of the list, \<open>None\<close> here, or the
  \<open>ts_next\<close> field of the thread before.
\<close>

partial_function (option) ts_insert_loop ::
  "(nat \<Rightarrow> u32) \<Rightarrow> (nat \<Rightarrow> nat option) \<Rightarrow> u32 \<Rightarrow> nat option \<Rightarrow> nat option
     \<Rightarrow> (nat option \<times> nat option) option" where
  "ts_insert_loop eff nx pri link cur =
     (case cur of
        None \<Rightarrow> Some (link, None)
      | Some c \<Rightarrow>
          if eff c \<ge> pri then ts_insert_loop eff nx pri (Some c) (nx c) else Some (link, Some c))"

definition turnstile_waiters_insert :: "threads \<times> turnstile \<Rightarrow> nat \<Rightarrow> (threads \<times> turnstile) option" where
  "turnstile_waiters_insert = (\<lambda>(th, ts) t. do {
     (link, cur) \<leftarrow> ts_insert_loop (\<lambda>u. t_effective (th u)) (ts_link th) (t_effective (th t)) None
       (ts_waiters ts);
     let th = set_ts_next t cur th;
     Some (case link of
         None \<Rightarrow> (th, ts\<lparr>ts_waiters := Some t\<rparr>)
       | Some p \<Rightarrow> (set_ts_next p (Some t) th, ts))
   })"

definition turnstile_waiters_pop :: "threads \<times> turnstile \<Rightarrow> nat option \<times> threads \<times> turnstile" where
  "turnstile_waiters_pop = (\<lambda>(th, ts).
     (case ts_waiters ts of
        None \<Rightarrow> (None, th, ts)
      | Some t \<Rightarrow> (Some t, set_ts_next t None th, ts\<lparr>ts_waiters := ts_link th t\<rparr>)))"

section \<open>Buckets\<close>

definition turnstile_get_locked :: "turnstile_table \<Rightarrow> u32 \<Rightarrow> (nat \<times> turnstile_table) option" where
  "turnstile_get_locked tbl lock_addr = do {
     let idx = TURNSTILE_HASH_INDEX lock_addr;
     let b = tbl idx;
     lk \<leftarrow> lock_acquire (b_lock b);
     let b = b\<lparr>b_lock := lk\<rparr>;
     let b = (if b_initialized b then b
              else b\<lparr>b_initialized := True,
                     b_ts := \<lparr>ts_lock_addr = lock_addr, ts_owner = None, ts_waiters = None\<rparr>\<rparr>);
     Some (idx, tbl(idx := b))
   }"

definition turnstile_unlock_bucket :: "turnstile_table \<Rightarrow> u32 \<Rightarrow> turnstile_table" where
  "turnstile_unlock_bucket tbl lock_addr =
     (let idx = TURNSTILE_HASH_INDEX lock_addr;
          b = tbl idx
      in tbl(idx := b\<lparr>b_lock := lock_release (b_lock b)\<rparr>))"

section \<open>Priority inheritance\<close>

partial_function (option) priority_inheritance_raise :: "threads \<Rightarrow> nat option \<Rightarrow> u32 \<Rightarrow> threads option" where
  "priority_inheritance_raise th owner pri =
     (case owner of
        None \<Rightarrow> Some th
      | Some p \<Rightarrow>
          if t_effective (th p) < pri
          then priority_inheritance_raise (upd_thread p (\<lambda>x. x\<lparr>t_effective := pri\<rparr>) th)
                 (t_pi_owner (th p)) pri
          else Some th)"

definition priority_inheritance_max_donation ::
  "threads \<Rightarrow> turnstile_table \<Rightarrow> nat option \<Rightarrow> (u32 \<times> turnstile_table) option" where
  "priority_inheritance_max_donation th tbl owner =
     (case owner of
        None \<Rightarrow> Some (0, tbl)
      | Some p \<Rightarrow>
          let mx = t_base (th p);
              lock_addr = t_blocked_lock (th p)
          in if lock_addr = 0 then Some (mx, tbl)
             else do {
               (idx, tbl) \<leftarrow> turnstile_get_locked tbl lock_addr;
               let mx = (case ts_waiters (b_ts (tbl idx)) of
                      Some w \<Rightarrow> if t_effective (th w) > mx then t_effective (th w) else mx
                    | None \<Rightarrow> mx);
               Some (mx, turnstile_unlock_bucket tbl lock_addr)
             })"

partial_function (option) priority_inheritance_unwind ::
  "threads \<Rightarrow> turnstile_table \<Rightarrow> nat option \<Rightarrow> (threads \<times> turnstile_table) option" where
  "priority_inheritance_unwind th tbl owner =
     (case owner of
        None \<Rightarrow> Some (th, tbl)
      | Some p \<Rightarrow> do {
          (mx, tbl) \<leftarrow> priority_inheritance_max_donation th tbl owner;
          if t_effective (th p) = mx then Some (th, tbl)
          else priority_inheritance_unwind (upd_thread p (\<lambda>x. x\<lparr>t_effective := mx\<rparr>) th) tbl
                 (t_pi_owner (th p))
        })"

section \<open>Blocking and unblocking\<close>

definition set_bucket_ts :: "nat \<Rightarrow> turnstile \<Rightarrow> turnstile_table \<Rightarrow> turnstile_table" where
  "set_bucket_ts idx ts tbl = tbl(idx := (tbl idx)\<lparr>b_ts := ts\<rparr>)"

text \<open>What \<open>turnstile_block\<close> does before it calls \<open>sched_block\<close>.\<close>

definition turnstile_enqueue ::
  "threads \<times> turnstile_table \<Rightarrow> u32 \<Rightarrow> nat \<Rightarrow> nat option \<Rightarrow> (threads \<times> turnstile_table) option" where
  "turnstile_enqueue = (\<lambda>(th, tbl) lock_addr cur owner. do {
     (idx, tbl) \<leftarrow> turnstile_get_locked tbl lock_addr;
     let ts = (b_ts (tbl idx))\<lparr>ts_owner := owner\<rparr>;
     (th, ts) \<leftarrow> turnstile_waiters_insert (th, ts) cur;
     let tbl = set_bucket_ts idx ts tbl;
     let th = upd_thread cur (\<lambda>x. x\<lparr>t_pi_owner := owner, t_blocked_lock := lock_addr\<rparr>) th;
     th \<leftarrow> (case owner of
        Some p \<Rightarrow>
          if t_effective (th cur) > t_effective (th p)
          then priority_inheritance_raise th owner (t_effective (th cur)) else Some th
      | None \<Rightarrow> Some th);
     Some (th, turnstile_unlock_bucket tbl lock_addr)
   })"

definition turnstile_block ::
  "scheduler \<times> turnstile_table \<Rightarrow> u32 \<Rightarrow> nat \<Rightarrow> nat option \<Rightarrow> (scheduler \<times> turnstile_table) option" where
  "turnstile_block = (\<lambda>(s, tbl) lock_addr cur owner. do {
     (th, tbl) \<leftarrow> turnstile_enqueue (threads s, tbl) lock_addr cur owner;
     s \<leftarrow> sched_block (s\<lparr>threads := th\<rparr>);
     Some (s, tbl)
   })"

definition turnstile_unblock ::
  "scheduler \<times> turnstile_table \<Rightarrow> u32 \<Rightarrow> (nat option \<times> scheduler \<times> turnstile_table) option" where
  "turnstile_unblock = (\<lambda>(s, tbl) lock_addr. do {
     (idx, tbl) \<leftarrow> turnstile_get_locked tbl lock_addr;
     let (next, th, ts) = turnstile_waiters_pop (threads s, b_ts (tbl idx));
     (case next of
        None \<Rightarrow>
          Some (None, s\<lparr>threads := th\<rparr>,
                turnstile_unlock_bucket (set_bucket_ts idx (ts\<lparr>ts_owner := None\<rparr>) tbl) lock_addr)
      | Some n \<Rightarrow> do {
          let tbl = set_bucket_ts idx (ts\<lparr>ts_owner := Some n\<rparr>) tbl;
          let th = upd_thread n (\<lambda>x. x\<lparr>t_pi_owner := None, t_blocked_lock := 0\<rparr>) th;
          let tbl = turnstile_unlock_bucket tbl lock_addr;
          (th, tbl) \<leftarrow> priority_inheritance_unwind th tbl (current_thread s);
          s \<leftarrow> sched_unblock (s\<lparr>threads := th\<rparr>) (Some n);
          Some (Some n, s, tbl)
        })
   })"

definition turnstile_has_waiters :: "turnstile_table \<Rightarrow> u32 \<Rightarrow> (bool \<times> turnstile_table) option" where
  "turnstile_has_waiters tbl lock_addr = do {
     (idx, tbl) \<leftarrow> turnstile_get_locked tbl lock_addr;
     Some (ts_waiters (b_ts (tbl idx)) \<noteq> None, turnstile_unlock_bucket tbl lock_addr)
   }"

definition turnstile_lock ::
  "scheduler \<times> turnstile_table \<Rightarrow> u32 \<Rightarrow> nat option \<Rightarrow> (scheduler \<times> turnstile_table) option" where
  "turnstile_lock = (\<lambda>(s, tbl) lock_addr owner.
     (case current_thread s of None \<Rightarrow> None | Some c \<Rightarrow> turnstile_block (s, tbl) lock_addr c owner))"

definition turnstile_unlock :: "scheduler \<times> turnstile_table \<Rightarrow> u32 \<Rightarrow> (scheduler \<times> turnstile_table) option" where
  "turnstile_unlock x lock_addr = map_option snd (turnstile_unblock x lock_addr)"


section \<open>The order of the waiters\<close>

definition ts_rep :: "(nat \<Rightarrow> u32) \<Rightarrow> threads \<times> turnstile \<Rightarrow> nat list \<Rightarrow> bool" where
  "ts_rep key = (\<lambda>(th, ts) xs. llist (ts_link th) (ts_waiters ts) xs \<and> (\<forall>t. t_effective (th t) = key t))"

definition head_of :: "'a list \<Rightarrow> 'a option" where
  "head_of xs = (case xs of [] \<Rightarrow> None | x # _ \<Rightarrow> Some x)"

lemma head_of_simps [simp]: "head_of [] = None" "head_of (x # xs) = Some x"
  by (simp_all add: head_of_def)

lemma llist_head_of: "llist nx a xs \<Longrightarrow> a = head_of xs"
  by (cases xs) auto

lemma ts_insert_loop_ok:
  "llist nx a xs \<Longrightarrow>
   ts_insert_loop eff nx pri link a =
     Some (let us = takeWhile (\<lambda>x. pri \<le> eff x) xs in if us = [] then link else Some (last us),
           head_of (dropWhile (\<lambda>x. pri \<le> eff x) xs))"
proof (induction xs arbitrary: a link)
  case Nil
  then show ?case by (simp add: ts_insert_loop.simps)
next
  case (Cons x xs)
  then have a: "a = Some x" and seg: "llist nx (nx x) xs" by simp_all
  show ?case
    unfolding a by (subst ts_insert_loop.simps) (simp add: Cons.IH [OF seg] Let_def)
qed

lemma llist_splice:
  assumes ll: "llist nx a (us @ vs)" and t: "t \<notin> set (us @ vs)"
  shows "if us = [] then llist (nx(t := head_of vs)) (Some t) (t # vs)
         else llist (nx(t := head_of vs, last us := Some t)) a (us @ t # vs)"
proof (cases us rule: rev_cases)
  case Nil
  with ll t show ?thesis using llist_head_of [of nx a vs] by simp
next
  case (snoc us' p)
  from ll have d: "distinct (us @ vs)" by (rule llist_distinct)
  from ll snoc have "lseg nx a us' (Some p)" and "llist nx (nx p) vs" by auto
  moreover from this(2) have "nx p = head_of vs" by (rule llist_head_of)
  ultimately show ?thesis using snoc d t by auto
qed

lemma ts_link_set [simp]: "ts_link (set_ts_next t p th) = (ts_link th)(t := p)"
  by (auto simp: set_ts_next_def upd_thread_def fun_eq_iff)

lemma set_ts_next_same [simp]: "t_ts_next (set_ts_next t p th t) = p"
  by (simp add: set_ts_next_def upd_thread_def)

lemma set_ts_next_other [simp]: "u \<noteq> t \<Longrightarrow> set_ts_next t p th u = th u"
  by (simp add: set_ts_next_def upd_thread_def)

lemma set_ts_next_eff [simp]: "t_effective (set_ts_next t p th u) = t_effective (th u)"
  by (simp add: set_ts_next_def upd_thread_def)

lemma turnstile_insert_rep:
  assumes rep: "ts_rep key (th, ts) xs" and t: "t \<notin> set xs"
  shows "\<exists>th' ts'. turnstile_waiters_insert (th, ts) t = Some (th', ts') \<and>
           ts_rep key (th', ts') (stable_insert key t xs) \<and> ts_owner ts' = ts_owner ts"
proof -
  let ?P = "\<lambda>x. key t \<le> key x"
  obtain us where us: "takeWhile ?P xs = us" by blast
  obtain vs where vs: "dropWhile ?P xs = vs" by blast
  have xs: "xs = us @ vs" using us vs takeWhile_dropWhile_id [of ?P xs] by simp
  from rep have ll: "llist (ts_link th) (ts_waiters ts) xs" and key: "\<And>u. t_effective (th u) = key u"
    by (simp_all add: ts_rep_def)
  have loop: "ts_insert_loop (\<lambda>u. t_effective (th u)) (ts_link th) (t_effective (th t)) None (ts_waiters ts)
      = Some (if us = [] then None else Some (last us), head_of vs)"
    by (simp add: ts_insert_loop_ok [OF ll] key us vs Let_def)
  note sp = llist_splice [of "ts_link th" "ts_waiters ts" us vs t]
  from t xs have "t \<notin> set (us @ vs)" by simp
  with sp ll xs have sp: "if us = [] then llist ((ts_link th)(t := head_of vs)) (Some t) (t # vs)
      else llist ((ts_link th)(t := head_of vs, last us := Some t)) (ts_waiters ts) (us @ t # vs)" by blast
  have si: "stable_insert key t xs = us @ t # vs" by (simp add: stable_insert_def us vs)
  show ?thesis
  proof (cases "us = []")
    case True
    with sp loop key show ?thesis unfolding si
      by (simp add: turnstile_waiters_insert_def ts_rep_def)
  next
    case False
    then have "t \<noteq> last us" using t xs by auto
    with False sp loop key show ?thesis unfolding si
      by (simp add: turnstile_waiters_insert_def ts_rep_def)
  qed
qed

lemma turnstile_pop_rep:
  assumes "ts_rep key (th, ts) (x # xs)"
  shows "\<exists>th' ts'. turnstile_waiters_pop (th, ts) = (Some x, th', ts') \<and> ts_rep key (th', ts') xs"
proof -
  from assms have ll: "llist (ts_link th) (Some x) (x # xs)" and w: "ts_waiters ts = Some x"
    and key: "\<And>u. t_effective (th u) = key u" by (simp_all add: ts_rep_def)
  from llist_unlink_head [OF ll] w key show ?thesis
    by (simp add: turnstile_waiters_pop_def ts_rep_def)
qed

interpretation tsq: prio_queue turnstile_waiters_insert turnstile_waiters_pop key "ts_rep key" for key
proof unfold_locales
  fix s xs t assume "ts_rep key s xs" and "t \<notin> set xs"
  then show "\<exists>s'. turnstile_waiters_insert s t = Some s' \<and> ts_rep key s' (stable_insert key t xs)"
    using turnstile_insert_rep [of key "fst s" "snd s" xs t] by auto
next
  fix s assume "ts_rep key s []"
  then show "turnstile_waiters_pop s = (None, s)"
    by (cases s) (simp add: ts_rep_def turnstile_waiters_pop_def)
next
  fix s x xs assume "ts_rep key s (x # xs)"
  then show "\<exists>s'. turnstile_waiters_pop s = (Some x, s') \<and> ts_rep key s' xs"
    using turnstile_pop_rep [of key "fst s" "snd s" x xs] by auto
qed

text \<open>C25: Waiters are served by priority, and by arrival among equals. Let threads be queued on an empty turnstile and waiters
  be popped, in any order of the calls, where no thread is queued again while it waits and no effective priority changes in between:
  every pop returns, among the threads that wait, the one that was queued first of those with the highest effective
  priority, and a pop returns no thread only when none waits.\<close>
theorem turnstile_serves_by_priority:
  assumes "ts_waiters ts = None" and "pq_fresh (\<lambda>t. t_effective (th t)) ops []"
  shows "pq_run turnstile_waiters_insert turnstile_waiters_pop ops (th, ts) =
    Some (pq_spec (\<lambda>t. t_effective (th t)) ops [])"
  by (rule tsq.serves_arrivals [where xs = "[]"]) (use assms in \<open>simp_all add: ts_rep_def sorts_arrivals_def\<close>)

definition three_threads :: threads where
  "three_threads = (\<lambda>t. \<lparr>t_next = None, t_cls = SCHED_CLASS_NORMAL, t_base = 10,
     t_effective = (if t = 2 then 20 else 10), t_state = THREAD_BLOCKED, t_process = None,
     t_user = False, t_id = of_nat t, t_uptime = 0, t_wait = 0, t_time_slice = 0, t_wake_time = 0,
     t_ts_next = None, t_blocked_lock = 0, t_pi_owner = None\<rparr>)"

definition no_waiters :: turnstile where
  "no_waiters = \<lparr>ts_lock_addr = 0x1000, ts_owner = None, ts_waiters = None\<rparr>"

theorem turnstile_serves_by_priority_witness:
  "pq_run turnstile_waiters_insert turnstile_waiters_pop [Arrive 1, Arrive 2, Serve, Arrive 3, Serve, Serve, Serve]
     (three_threads, no_waiters) = Some [Some 2, Some 1, Some 3, None]"
proof -
  have k: "t_effective (three_threads t) = (if t = 2 then 20 else 10)" for t by (simp add: three_threads_def)
  have e: "ts_waiters no_waiters = None" by (simp add: no_waiters_def)
  show ?thesis
    by (subst turnstile_serves_by_priority [OF e]) (simp_all add: k first_greatest_def)
qed

text \<open>
  Without the last condition this fails: \<open>priority_inheritance_raise\<close> leaves a waiter where it is in the queue. Thread 3
  waits behind thread 1, its priority is raised above that of thread 1, and still thread 1 is served first.
\<close>

lemma raised_waiter_keeps_its_place:
  "do { s \<leftarrow> turnstile_waiters_insert (three_threads, no_waiters) 1;
        (th, ts) \<leftarrow> turnstile_waiters_insert s 3;
        th \<leftarrow> priority_inheritance_raise th (Some 3) 15;
        Some (t_effective (th 1), t_effective (th 3), fst (turnstile_waiters_pop (th, ts))) } = Some (10, 15, Some 1)"
  by (simp add: turnstile_waiters_insert_def turnstile_waiters_pop_def ts_insert_loop.simps priority_inheritance_raise.simps
      set_ts_next_def upd_thread_def three_threads_def no_waiters_def)

section \<open>Inheritance\<close>

text \<open>The chain of owners from \<open>p\<close> on, and the part of it that a donation of \<open>pri\<close> reaches.\<close>

lemma raise_chain:
  "llist (\<lambda>t. t_pi_owner (th t)) p os \<Longrightarrow>
   priority_inheritance_raise th p pri =
     Some (\<lambda>t. if t \<in> set (takeWhile (\<lambda>q. t_effective (th q) < pri) os)
               then (th t)\<lparr>t_effective := pri\<rparr> else th t)"
proof (induction os arbitrary: p th)
  case Nil
  then show ?case by (simp add: priority_inheritance_raise.simps)
next
  case (Cons x xs)
  then have p: "p = Some x" and seg: "llist (\<lambda>t. t_pi_owner (th t)) (t_pi_owner (th x)) xs"
    and d: "distinct (x # xs)" using llist_distinct by fastforce+
  show ?case
  proof (cases "t_effective (th x) < pri")
    case False
    then show ?thesis unfolding p by (subst priority_inheritance_raise.simps) simp
  next
    case True
    let ?th = "upd_thread x (\<lambda>x. x\<lparr>t_effective := pri\<rparr>) th"
    have "(\<lambda>t. t_pi_owner (?th t)) = (\<lambda>t. t_pi_owner (th t))" by (auto simp: upd_thread_def)
    with seg have seg': "llist (\<lambda>t. t_pi_owner (?th t)) (t_pi_owner (th x)) xs" by simp
    have tw: "takeWhile (\<lambda>q. t_effective (?th q) < pri) xs = takeWhile (\<lambda>q. t_effective (th q) < pri) xs"
      using d by (intro takeWhile_cong) (auto simp: upd_thread_def)
    have notin: "x \<notin> set (takeWhile (\<lambda>q. t_effective (th q) < pri) xs)"
      using d set_takeWhileD by fastforce
    have "priority_inheritance_raise th p pri = priority_inheritance_raise ?th (t_pi_owner (th x)) pri"
      unfolding p using True by (subst priority_inheritance_raise.simps) simp
    also have "\<dots> = Some (\<lambda>t. if t \<in> set (takeWhile (\<lambda>q. t_effective (th q) < pri) xs)
        then (?th t)\<lparr>t_effective := pri\<rparr> else ?th t)"
      unfolding Cons.IH [OF seg'] tw by (rule refl)
    also have "\<dots> = Some (\<lambda>t. if t \<in> set (takeWhile (\<lambda>q. t_effective (th q) < pri) (x # xs))
        then (th t)\<lparr>t_effective := pri\<rparr> else th t)"
      using True notin by (auto simp: upd_thread_def fun_eq_iff)
    finally show ?thesis .
  qed
qed

text \<open>Priority inheritance. If the chain of owners from a lock's owner is finite and no thread on
  it has a higher priority than the thread it waits for, a donation terminates, raises every
  thread of the chain to at least the donated priority, lowers nobody, changes no thread outside
  the chain, and leaves the chain and that ordering as they were.\<close>
theorem priority_inheritance_raises_chain:
  assumes "llist (\<lambda>t. t_pi_owner (th t)) p os" and "sorted_wrt (\<lambda>a b. t_effective (th a) \<le> t_effective (th b)) os"
  shows "\<exists>th'. priority_inheritance_raise th p pri = Some th' \<and>
     (\<forall>t\<in>set os. t_effective (th' t) = max pri (t_effective (th t))) \<and>
     (\<forall>t. t \<notin> set os \<longrightarrow> th' t = th t) \<and>
     llist (\<lambda>t. t_pi_owner (th' t)) p os \<and>
     sorted_wrt (\<lambda>a b. t_effective (th' a) \<le> t_effective (th' b)) os"
proof -
  let ?low = "takeWhile (\<lambda>q. t_effective (th q) < pri) os"
  let ?th' = "\<lambda>t. if t \<in> set ?low then (th t)\<lparr>t_effective := pri\<rparr> else th t"
  have low: "t \<in> set ?low \<longleftrightarrow> t_effective (th t) < pri" if "t \<in> set os" for t
    using assms(2) that
  proof (induction os)
    case (Cons x xs)
    then show ?case by (fastforce dest: set_takeWhileD)
  qed simp
  have eff: "\<forall>t\<in>set os. t_effective (?th' t) = max pri (t_effective (th t))"
    using low by (auto simp: max_def)
  have out: "\<forall>t. t \<notin> set os \<longrightarrow> ?th' t = th t" by (auto dest: set_takeWhileD)
  have "(\<lambda>t. t_pi_owner (?th' t)) = (\<lambda>t. t_pi_owner (th t))" by auto
  moreover have "sorted_wrt (\<lambda>a b. t_effective (?th' a) \<le> t_effective (?th' b)) os"
  proof (rule sorted_wrt_mono_rel [OF _ assms(2)])
    fix x y assume "x \<in> set os" and "y \<in> set os" and "t_effective (th x) \<le> t_effective (th y)"
    moreover from this have "max pri (t_effective (th x)) \<le> max pri (t_effective (th y))"
      by (intro max.mono) simp_all
    ultimately show "t_effective (?th' x) \<le> t_effective (?th' y)" by (simp only: eff)
  qed
  ultimately show ?thesis
    using raise_chain [OF assms(1), of pri] eff out assms(1) by (intro exI [of _ ?th']) simp
qed

theorem priority_inheritance_raises_chain_witness:
  "\<exists>th'. priority_inheritance_raise (three_threads(1 := (three_threads 1)\<lparr>t_pi_owner := Some 3\<rparr>)) (Some 1) 15
     = Some th' \<and> t_effective (th' 1) = 15 \<and> t_effective (th' 3) = 15"
  using priority_inheritance_raises_chain
    [of "three_threads(1 := (three_threads 1)\<lparr>t_pi_owner := Some 3\<rparr>)" "Some 1" "[1, 3]" 15]
  by (auto simp: three_threads_def max_def)


section \<open>Two locks in one bucket\<close>

text \<open>
  A bucket holds one turnstile, and neither \<open>turnstile_get_locked\<close> nor its callers compare
  \<open>lock_addr\<close>.
\<close>

text \<open>Locks that share a bucket wake each other's waiters. If a thread blocks on the lock at
  \<open>a\<close> and the bucket was free, then unblocking a different lock \<open>b\<close> with the same hash index pops
  that thread, makes it the owner of the turnstile and puts it on the ready queue, although
  nobody has released \<open>a\<close>.\<close>
theorem turnstile_collision_wakes:
  assumes "TURNSTILE_HASH_INDEX b = TURNSTILE_HASH_INDEX a" and "a \<noteq> b"
    and "\<not> b_initialized (tbl (TURNSTILE_HASH_INDEX a))" and "b_lock (tbl (TURNSTILE_HASH_INDEX a)) = 0"
    and "current_thread s = None" and "tl_head (ready_queue s) = None" and "tl_lock (ready_queue s) = 0"
  shows "\<exists>th' tbl' s' tbl''. turnstile_enqueue (th, tbl) a t None = Some (th', tbl') \<and>
           turnstile_unblock (s\<lparr>threads := th'\<rparr>, tbl') b = Some (Some t, s', tbl'') \<and>
           t_state (threads s' t) = THREAD_READY \<and> tl_head (ready_queue s') = Some t"
proof -
  have unwind: "priority_inheritance_unwind x y None = Some (x, y)" for x y
    by (simp add: priority_inheritance_unwind.simps)
  have loop: "ts_insert_loop eff nx pri link None = Some (link, None)" for eff nx pri link
    by (simp add: ts_insert_loop.simps)
  show ?thesis
    using assms
    by (simp add: turnstile_enqueue_def turnstile_get_locked_def turnstile_waiters_insert_def loop unwind
        set_bucket_ts_def turnstile_unlock_bucket_def turnstile_unblock_def turnstile_waiters_pop_def
        sched_unblock_def enqueue_ready_def sched_enqueue_def tl_append_def set_state_def upd_thread_def
        set_next_def Let_def set_ts_next_def)
qed

definition fresh_table :: turnstile_table where
  "fresh_table = (\<lambda>_. \<lparr>b_lock = 0, b_initialized = False, b_ts = no_waiters\<rparr>)"

definition quiet_sched :: scheduler where
  "quiet_sched = (let l = \<lparr>tl_head = None, tl_tail = None, tl_count = 0, tl_lock = 0\<rparr> in
     \<lparr>threads = three_threads, ready_queue = l, sleep_queue = l, kernel_threads = l, user_threads = l,
      next_tid = 4, idle_thread = None, current_thread = None, current_process = None, ticks = 0,
     proc_pd = (\<lambda>_. Some 0x1000), loaded_pd = 0x1000\<rparr>)"

theorem turnstile_collision_wakes_witness:
  "\<exists>th' tbl' s' tbl''. turnstile_enqueue (three_threads, fresh_table) 0x1000 1 None = Some (th', tbl') \<and>
     turnstile_unblock (quiet_sched\<lparr>threads := th'\<rparr>, tbl') 0x1400 = Some (Some 1, s', tbl'')"
proof -
  have "TURNSTILE_HASH_INDEX 0x1400 = TURNSTILE_HASH_INDEX 0x1000"
    by (simp add: TURNSTILE_HASH_INDEX_def)
  from turnstile_collision_wakes [OF this, of fresh_table quiet_sched three_threads 1]
  show ?thesis by (simp add: fresh_table_def quiet_sched_def Let_def) blast
qed

end
