(* ===== verification/Signal.thy ===== *)
theory Signal
  imports Spinlock
begin

text \<open>
  task/ipc/signal.c, and from task/process.c the process structure and the calls that a default action
  makes. A process is named by a number, the address of its \<open>process_t\<close>; handlers are numbers too,
  and what a handler does when it is called is a parameter, because handlers are code of the user.
  Signals are their numbers. The thread list, the region, the working directory and the name of a
  process are kept as addresses, 0 for null.
\<close>

section \<open>Processes\<close>

datatype process_state = RUNNING | RUNNABLE | SLEEPING | STOPPED | EMBRYO | ZOMBIE | TERMINATED

type_synonym pid_t = "32 word"

record process =
  p_parent :: "nat option"
  p_children :: "nat option"
  p_siblings :: "nat option"
  p_pid :: pid_t
  p_sid :: pid_t
  p_pgid :: pid_t
  p_rgid :: pid_t
  p_gid :: pid_t
  p_ruid :: u32
  p_uid :: u32
  p_state :: process_state
  p_mem_usage :: u32
  p_threads :: u32
  p_region :: u32
  p_cwd :: u32
  p_name :: u32
  p_exit_status :: int
  p_sig_handlers :: "nat option list"
  p_sig_mask :: u32
  p_sig_pending :: u32
  p_sig_lock :: spinlock_t

type_synonym processes = "nat \<Rightarrow> process"

definition upd_process :: "nat \<Rightarrow> (process \<Rightarrow> process) \<Rightarrow> processes \<Rightarrow> processes" where
  "upd_process p f ps = ps(p := f (ps p))"

lemma upd_process_same [simp]: "upd_process p f ps p = f (ps p)"
  by (simp add: upd_process_def)

lemma upd_process_other [simp]: "q \<noteq> p \<Longrightarrow> upd_process p f ps q = ps q"
  by (simp add: upd_process_def)

section \<open>Signals\<close>

abbreviation SIGINT :: nat where "SIGINT \<equiv> 2"
abbreviation SIGKILL :: nat where "SIGKILL \<equiv> 9"
abbreviation SIGSEGV :: nat where "SIGSEGV \<equiv> 11"
abbreviation SIGTERM :: nat where "SIGTERM \<equiv> 15"
abbreviation SIGUSR1 :: nat where "SIGUSR1 \<equiv> 16"
abbreviation SIGUSR2 :: nat where "SIGUSR2 \<equiv> 17"
abbreviation SIGCONT :: nat where "SIGCONT \<equiv> 18"
abbreviation SIGSTOP :: nat where "SIGSTOP \<equiv> 19"
abbreviation SIGMAX :: nat where "SIGMAX \<equiv> 32"

datatype signal_action = SIGACT_IGNORE | SIGACT_TERMINATE | SIGACT_CORE | SIGACT_STOP
  | SIGACT_CONTINUE | SIGACT_HANDLER

text \<open>The table of default actions; the entries it does not name are zero, which is
  \<open>SIGACT_IGNORE\<close>.\<close>

definition default_actions :: "nat \<Rightarrow> signal_action" where
  "default_actions sig =
     (if sig = SIGINT \<or> sig = SIGKILL \<or> sig = SIGTERM then SIGACT_TERMINATE
      else if sig = SIGSEGV then SIGACT_CORE
      else if sig = SIGSTOP then SIGACT_STOP
      else if sig = SIGCONT then SIGACT_CONTINUE
      else SIGACT_IGNORE)"

text \<open>\<open>1u << sig\<close>\<close>

definition sig_bit :: "nat \<Rightarrow> u32" where
  "sig_bit sig = push_bit sig 1"

definition signal_init_process :: "processes \<Rightarrow> nat option \<Rightarrow> processes option" where
  "signal_init_process ps process =
     (case process of
        None \<Rightarrow> Some ps
      | Some p \<Rightarrow> do {
          let ps = upd_process p (\<lambda>x. x\<lparr>p_sig_lock := spinlock_init (p_sig_lock x)\<rparr>) ps;
          lk \<leftarrow> lock_acquire (p_sig_lock (ps p));
          let ps = upd_process p (\<lambda>x. x\<lparr>p_sig_lock := lk, p_sig_pending := 0, p_sig_mask := 0,
             p_sig_handlers := replicate SIGMAX None\<rparr>) ps;
          Some (upd_process p (\<lambda>x. x\<lparr>p_sig_lock := lock_release (p_sig_lock x)\<rparr>) ps)
        })"

definition signal_set_handler ::
  "processes \<Rightarrow> nat option \<Rightarrow> int \<Rightarrow> nat option \<Rightarrow> (int \<times> processes) option" where
  "signal_set_handler ps process sig handler =
     (case process of
        None \<Rightarrow> Some (-1, ps)
      | Some p \<Rightarrow>
          if sig \<le> 0 \<or> sig \<ge> int SIGMAX then Some (-1, ps)
          else if sig = int SIGKILL \<or> sig = int SIGSTOP then Some (-1, ps)
          else do {
            lk \<leftarrow> lock_acquire (p_sig_lock (ps p));
            Some (0, upd_process p (\<lambda>x. x\<lparr>p_sig_handlers := (p_sig_handlers x)[nat sig := handler],
                                        p_sig_lock := lock_release lk\<rparr>) ps)
          })"

definition signal_send :: "processes \<Rightarrow> nat option \<Rightarrow> int \<Rightarrow> (int \<times> processes) option" where
  "signal_send ps target sig =
     (case target of
        None \<Rightarrow> Some (-1, ps)
      | Some p \<Rightarrow>
          if sig \<le> 0 \<or> sig \<ge> int SIGMAX then Some (-1, ps)
          else do {
            lk \<leftarrow> lock_acquire (p_sig_lock (ps p));
            Some (0, upd_process p (\<lambda>x. x\<lparr>p_sig_pending := p_sig_pending x OR sig_bit (nat sig),
                                        p_sig_lock := lock_release lk\<rparr>) ps)
          })"

text \<open>The four calls of process.c that a default action ends in.\<close>

definition proc_kill :: "processes \<Rightarrow> nat option \<Rightarrow> (int \<times> processes) option" where
  "proc_kill ps process = (if process = None then Some (-1, ps) else signal_send ps process (int SIGKILL))"

definition proc_exit_all_threads :: "processes \<Rightarrow> nat option \<Rightarrow> (int \<times> processes) option" where
  "proc_exit_all_threads ps process =
     (if process = None then Some (-1, ps) else signal_send ps process (int SIGTERM))"

definition proc_exit :: "processes \<Rightarrow> nat option \<Rightarrow> int \<Rightarrow> (int \<times> processes) option" where
  "proc_exit ps process status =
     (case process of
        None \<Rightarrow> Some (-1, ps)
      | Some p \<Rightarrow>
          signal_send (upd_process p (\<lambda>x. x\<lparr>p_exit_status := status\<rparr>) ps) process (int SIGTERM))"

definition proc_stop :: "processes \<Rightarrow> nat option \<Rightarrow> (int \<times> processes) option" where
  "proc_stop ps process = (if process = None then Some (-1, ps) else signal_send ps process (int SIGSTOP))"

definition proc_continue :: "processes \<Rightarrow> nat option \<Rightarrow> (int \<times> processes) option" where
  "proc_continue ps process =
     (if process = None then Some (-1, ps) else signal_send ps process (int SIGCONT))"

definition signal_default_action :: "processes \<Rightarrow> nat \<Rightarrow> nat \<Rightarrow> processes option" where
  "signal_default_action ps p sig =
     (case default_actions sig of
        SIGACT_IGNORE \<Rightarrow> Some ps
      | SIGACT_TERMINATE \<Rightarrow> map_option snd (proc_exit ps (Some p) (128 + int sig))
      | SIGACT_CORE \<Rightarrow> map_option snd (proc_exit ps (Some p) (128 + int sig))
      | SIGACT_STOP \<Rightarrow> map_option snd (proc_stop ps (Some p))
      | SIGACT_CONTINUE \<Rightarrow> map_option snd (proc_continue ps (Some p))
      | SIGACT_HANDLER \<Rightarrow> Some ps)"

text \<open>
  Dispatching. The loop also reports what it did, in order: the signals it delivered, each with the
  handler it called, or with no handler where it took the default action. The lock is held on
  entry to and exit from a turn.
\<close>

type_synonym handler_code = "nat \<Rightarrow> nat \<Rightarrow> processes \<Rightarrow> processes option"

definition signal_dispatch_turn ::
  "handler_code \<Rightarrow> nat \<Rightarrow> u32 \<Rightarrow> nat \<Rightarrow> processes \<Rightarrow> ((nat \<times> nat option) list \<times> processes) option" where
  "signal_dispatch_turn run p pending sig ps =
     (let b = sig_bit sig in
      if pending AND b = 0 then Some ([], ps)
      else if p_sig_mask (ps p) AND b \<noteq> 0 \<and> sig \<noteq> SIGKILL \<and> sig \<noteq> SIGSTOP then Some ([], ps)
      else do {
        let ps = upd_process p (\<lambda>x. x\<lparr>p_sig_pending := p_sig_pending x AND NOT b\<rparr>) ps;
        let handler = p_sig_handlers (ps p) ! sig;
        let action = default_actions sig;
        let ps = upd_process p (\<lambda>x. x\<lparr>p_sig_lock := lock_release (p_sig_lock x)\<rparr>) ps;
        (ev, ps) \<leftarrow> (if handler \<noteq> None \<and> sig \<noteq> SIGKILL \<and> sig \<noteq> SIGSTOP
            then do { ps \<leftarrow> run (the handler) sig ps; Some ([(sig, handler)], ps) }
            else if action \<noteq> SIGACT_HANDLER
            then do { ps \<leftarrow> signal_default_action ps p sig; Some ([(sig, None)], ps) }
            else Some ([], ps));
        lk \<leftarrow> lock_acquire (p_sig_lock (ps p));
        Some (ev, upd_process p (\<lambda>x. x\<lparr>p_sig_lock := lk\<rparr>) ps)
      })"

primrec signal_dispatch_loop ::
  "handler_code \<Rightarrow> nat \<Rightarrow> u32 \<Rightarrow> nat list \<Rightarrow> processes \<Rightarrow> ((nat \<times> nat option) list \<times> processes) option" where
  "signal_dispatch_loop run p pending [] ps = Some ([], ps)"
| "signal_dispatch_loop run p pending (sig # sigs) ps = do {
     (ev, ps) \<leftarrow> signal_dispatch_turn run p pending sig ps;
     (evs, ps) \<leftarrow> signal_dispatch_loop run p pending sigs ps;
     Some (ev @ evs, ps)
   }"

definition signal_dispatch ::
  "handler_code \<Rightarrow> processes \<Rightarrow> nat option \<Rightarrow> ((nat \<times> nat option) list \<times> processes) option" where
  "signal_dispatch run ps process =
     (case process of
        None \<Rightarrow> Some ([], ps)
      | Some p \<Rightarrow> do {
          lk \<leftarrow> lock_acquire (p_sig_lock (ps p));
          let ps = upd_process p (\<lambda>x. x\<lparr>p_sig_lock := lk\<rparr>) ps;
          let pending = p_sig_pending (ps p);
          if pending = 0 then Some ([], upd_process p (\<lambda>x. x\<lparr>p_sig_lock := lock_release (p_sig_lock x)\<rparr>) ps)
          else do {
            (evs, ps) \<leftarrow> signal_dispatch_loop run p pending [1..<SIGMAX] ps;
            Some (evs, upd_process p (\<lambda>x. x\<lparr>p_sig_lock := lock_release (p_sig_lock x)\<rparr>) ps)
          }
        })"

section \<open>What a turn does\<close>

lemma and_sig_bit_eq_0: "w AND sig_bit s = 0 \<longleftrightarrow> \<not> bit w s"
  unfolding sig_bit_def push_bit_of_1 by (rule and_exp_eq_0_iff_not_bit)

lemma bit_sig_bit: "n < 32 \<Longrightarrow> bit (sig_bit s) n \<longleftrightarrow> n = s"
  by (auto simp: sig_bit_def bit_simps)

lemma bit_clear_sig: "n < 32 \<Longrightarrow> bit (w AND NOT (sig_bit s)) n \<longleftrightarrow> bit w n \<and> n \<noteq> s"
  by (auto simp: sig_bit_def bit_simps)

lemma bit_set_sig: "n < 32 \<Longrightarrow> bit (w OR sig_bit s) n \<longleftrightarrow> bit w n \<or> n = s"
  by (auto simp: sig_bit_def bit_simps)

text \<open>The signals a dispatch delivers, and how.\<close>

definition deliverable :: "process \<Rightarrow> nat \<Rightarrow> bool" where
  "deliverable x sig \<longleftrightarrow> bit (p_sig_pending x) sig \<and>
     (\<not> bit (p_sig_mask x) sig \<or> sig = SIGKILL \<or> sig = SIGSTOP)"

definition catcher :: "process \<Rightarrow> nat \<Rightarrow> nat option" where
  "catcher x sig = (if sig = SIGKILL \<or> sig = SIGSTOP then None else p_sig_handlers x ! sig)"

definition resent :: "nat \<Rightarrow> u32" where
  "resent sig = (case default_actions sig of
       SIGACT_TERMINATE \<Rightarrow> sig_bit SIGTERM | SIGACT_CORE \<Rightarrow> sig_bit SIGTERM
     | SIGACT_STOP \<Rightarrow> sig_bit SIGSTOP | SIGACT_CONTINUE \<Rightarrow> sig_bit SIGCONT | _ \<Rightarrow> 0)"

definition pending_after :: "process \<Rightarrow> nat \<Rightarrow> u32 \<Rightarrow> u32" where
  "pending_after x sig w =
     (if deliverable x sig then
        (w AND NOT (sig_bit sig)) OR (if catcher x sig = None then resent sig else 0)
      else w)"

text \<open>Everything of a process but what signals change of it.\<close>

definition same_but_signals :: "process \<Rightarrow> process \<Rightarrow> bool" where
  "same_but_signals x y \<longleftrightarrow>
     y\<lparr>p_sig_pending := 0, p_exit_status := 0, p_sig_lock := 0\<rparr> =
     x\<lparr>p_sig_pending := 0, p_exit_status := 0, p_sig_lock := 0\<rparr>"

lemma same_but_signalsD:
  assumes "same_but_signals x y"
  shows "p_sig_mask y = p_sig_mask x" "p_sig_handlers y = p_sig_handlers x" "p_state y = p_state x"
proof -
  let ?f = "\<lambda>x. x\<lparr>p_sig_pending := 0, p_exit_status := 0, p_sig_lock := 0\<rparr>"
  from assms have eq: "?f y = ?f x" by (simp add: same_but_signals_def)
  from arg_cong [OF eq, of p_sig_mask] show "p_sig_mask y = p_sig_mask x" by simp
  from arg_cong [OF eq, of p_sig_handlers] show "p_sig_handlers y = p_sig_handlers x" by simp
  from arg_cong [OF eq, of p_state] show "p_state y = p_state x" by simp
qed

lemma same_but_signals_refl [simp]: "same_but_signals x x"
  by (simp add: same_but_signals_def)

lemma same_but_signals_trans: "same_but_signals x y \<Longrightarrow> same_but_signals y z \<Longrightarrow> same_but_signals x z"
  by (simp add: same_but_signals_def)

lemma same_but_signals_upd [simp]:
  "same_but_signals x (y\<lparr>p_sig_pending := w\<rparr>) \<longleftrightarrow> same_but_signals x y"
  "same_but_signals x (y\<lparr>p_exit_status := e\<rparr>) \<longleftrightarrow> same_but_signals x y"
  "same_but_signals x (y\<lparr>p_sig_lock := l\<rparr>) \<longleftrightarrow> same_but_signals x y"
  by (simp_all add: same_but_signals_def)

lemma default_action_ok:
  assumes "p_sig_lock (ps p) = 0"
  shows "\<exists>ps'. signal_default_action ps p sig = Some ps' \<and> same_but_signals (ps p) (ps' p) \<and>
     p_sig_pending (ps' p) = p_sig_pending (ps p) OR resent sig \<and> p_sig_lock (ps' p) = 0"
  using assms
  by (cases "default_actions sig")
    (auto simp: signal_default_action_def resent_def proc_exit_def proc_stop_def proc_continue_def
      signal_send_def)

lemma default_not_handler [simp]: "default_actions sig \<noteq> SIGACT_HANDLER"
  by (simp add: default_actions_def)

text \<open>Handlers that leave this process alone; what they do to the rest of the system is their own.\<close>

definition well_behaved :: "handler_code \<Rightarrow> nat \<Rightarrow> bool" where
  "well_behaved run p \<longleftrightarrow> (\<forall>h sig ps. \<exists>ps'. run h sig ps = Some ps' \<and> ps' p = ps p)"

lemma dispatch_turn_ok:
  assumes run: "well_behaved run p" and lk: "p_sig_lock (ps p) = 1" and same: "same_but_signals x (ps p)"
    and pend: "pending = p_sig_pending x"
  shows "\<exists>ps'. signal_dispatch_turn run p pending sig ps =
       Some (if deliverable x sig then [(sig, catcher x sig)] else [], ps') \<and>
     same_but_signals x (ps' p) \<and> p_sig_lock (ps' p) = 1 \<and>
     p_sig_pending (ps' p) = pending_after x sig (p_sig_pending (ps p))"
proof (cases "deliverable x sig")
  case False
  with pend same_but_signalsD(1) [OF same]
  have "signal_dispatch_turn run p pending sig ps = Some ([], ps)"
    by (auto simp: signal_dispatch_turn_def deliverable_def and_sig_bit_eq_0 Let_def)
  with False lk same show ?thesis by (simp add: pending_after_def)
next
  case True
  note eqs = same_but_signalsD [OF same]
  let ?ps = "upd_process p (\<lambda>y. y\<lparr>p_sig_lock := lock_release (p_sig_lock y)\<rparr>)
    (upd_process p (\<lambda>y. y\<lparr>p_sig_pending := p_sig_pending y AND NOT (sig_bit sig)\<rparr>) ps)"
  have l0: "p_sig_lock (?ps p) = 0" using lk by simp
  have w: "p_sig_pending (?ps p) = p_sig_pending (ps p) AND NOT (sig_bit sig)" by simp
  have s0: "same_but_signals x (?ps p)" using same by simp
  have body: "signal_dispatch_turn run p pending sig ps = do {
       (ev, ps) \<leftarrow> (case catcher x sig of
          Some h \<Rightarrow> do { ps \<leftarrow> run h sig ?ps; Some ([(sig, Some h)], ps) }
        | None \<Rightarrow> do { ps \<leftarrow> signal_default_action ?ps p sig; Some ([(sig, None)], ps) });
       lk \<leftarrow> lock_acquire (p_sig_lock (ps p));
       Some (ev, upd_process p (\<lambda>x. x\<lparr>p_sig_lock := lk\<rparr>) ps) }"
    using True pend eqs
    by (cases "p_sig_handlers x ! sig")
      (auto simp: signal_dispatch_turn_def deliverable_def catcher_def and_sig_bit_eq_0 Let_def)
  show ?thesis
  proof (cases "catcher x sig")
    case None
    from default_action_ok [where ps = ?ps and p = p and sig = sig, OF l0] obtain ps' where ps':
      "signal_default_action ?ps p sig = Some ps'" "same_but_signals (?ps p) (ps' p)"
      "p_sig_pending (ps' p) = p_sig_pending (?ps p) OR resent sig" "p_sig_lock (ps' p) = 0" by blast
    from same_but_signals_trans [OF s0 ps'(2)] True None ps' w show ?thesis
      unfolding body by (simp add: pending_after_def)
  next
    case (Some h)
    from run obtain ps' where ps': "run h sig ?ps = Some ps'" "ps' p = ?ps p"
      unfolding well_behaved_def by blast
    from True Some ps' w s0 l0 show ?thesis unfolding body by (simp add: pending_after_def)
  qed
qed

lemma dispatch_loop_ok:
  assumes run: "well_behaved run p" and pend: "pending = p_sig_pending x"
  shows "p_sig_lock (ps p) = 1 \<Longrightarrow> same_but_signals x (ps p) \<Longrightarrow>
   \<exists>ps'. signal_dispatch_loop run p pending sigs ps =
       Some (map (\<lambda>sig. (sig, catcher x sig)) (filter (deliverable x) sigs), ps') \<and>
     same_but_signals x (ps' p) \<and> p_sig_lock (ps' p) = 1 \<and>
     p_sig_pending (ps' p) = fold (pending_after x) sigs (p_sig_pending (ps p))"
proof (induction sigs arbitrary: ps)
  case (Cons sig sigs)
  from dispatch_turn_ok [where ps = ps and x = x and sig = sig, OF run Cons.prems pend] obtain ps1 where ps1:
    "signal_dispatch_turn run p pending sig ps =
       Some (if deliverable x sig then [(sig, catcher x sig)] else [], ps1)"
    "same_but_signals x (ps1 p)" "p_sig_lock (ps1 p) = 1"
    "p_sig_pending (ps1 p) = pending_after x sig (p_sig_pending (ps p))" by blast
  from Cons.IH [where ps = ps1, OF ps1(3,2)] ps1 show ?case by auto
qed simp

lemma resent_bits: "n < 32 \<Longrightarrow> bit (resent sig) n \<Longrightarrow> n \<in> {SIGTERM, SIGSTOP, SIGCONT}"
  unfolding resent_def by (auto simp: bit_sig_bit split: signal_action.splits)

text \<open>
  A signal is pending after the turns when it was before and was not delivered, or when a default action has sent it again
  in its own turn or later, or at any time if its own turn has not delivered it.
\<close>

lemma pending_after_fold:
  "n < 32 \<Longrightarrow> sorted_wrt (<) sigs \<Longrightarrow>
   bit (fold (pending_after x) sigs w) n \<longleftrightarrow>
     bit w n \<and> \<not> (n \<in> set sigs \<and> deliverable x n) \<or>
     (\<exists>s\<in>set sigs. deliverable x s \<and> catcher x s = None \<and> bit (resent s) n \<and> (n \<in> set sigs \<and> deliverable x n \<longrightarrow> n \<le> s))"
proof (induction sigs rule: rev_induct)
  case (snoc s sigs)
  let ?F = "fold (pending_after x) sigs w"
  have lt: "\<forall>r\<in>set sigs. r < s" using snoc.prems(2) by (simp add: sorted_wrt_append)
  have step: "bit (pending_after x s ?F) n \<longleftrightarrow>
      (if deliverable x s then bit ?F n \<and> n \<noteq> s \<or> catcher x s = None \<and> bit (resent s) n else bit ?F n)"
    using snoc.prems(1) by (cases "catcher x s") (simp_all add: pending_after_def bit_or_iff bit_clear_sig)
  have IH: "bit ?F n \<longleftrightarrow> bit w n \<and> \<not> (n \<in> set sigs \<and> deliverable x n) \<or>
     (\<exists>s\<in>set sigs. deliverable x s \<and> catcher x s = None \<and> bit (resent s) n \<and> (n \<in> set sigs \<and> deliverable x n \<longrightarrow> n \<le> s))"
    using snoc by (simp add: sorted_wrt_append)
  show ?case
  proof (cases "n = s")
    case True
    then have "n \<notin> set sigs" using lt by blast
    then show ?thesis using True lt step IH by (auto simp: not_le)
  next
    case False
    then have "n \<in> set (sigs @ [s]) \<longleftrightarrow> n \<in> set sigs" by simp
    moreover have "n \<in> set sigs \<Longrightarrow> n \<le> s" using lt by force
    ultimately show ?thesis using False step IH by auto
  qed
qed simp

lemma signal_dispatch_runs:
  assumes run: "well_behaved run p" and lk: "p_sig_lock (ps p) = 0"
  shows "\<exists>ps'. signal_dispatch run ps (Some p) =
       Some (map (\<lambda>sig. (sig, catcher (ps p) sig)) (filter (deliverable (ps p)) [1..<SIGMAX]), ps') \<and>
     same_but_signals (ps p) (ps' p) \<and> p_sig_lock (ps' p) = 0 \<and>
     p_sig_pending (ps' p) = fold (pending_after (ps p)) [1..<SIGMAX] (p_sig_pending (ps p))"
proof (cases "p_sig_pending (ps p) = 0")
  case True
  then have none: "\<not> deliverable (ps p) sig" for sig by (simp add: deliverable_def)
  then have "fold (pending_after (ps p)) sigs w = w" for sigs w
    by (induction sigs arbitrary: w) (simp_all add: pending_after_def)
  moreover from none have "filter (deliverable (ps p)) [1..<SIGMAX] = []"
    by (simp add: filter_empty_conv del: upt_rec_numeral)
  ultimately show ?thesis
    using True lk by (simp add: signal_dispatch_def del: upt_rec_numeral)
next
  case False
  let ?ps = "upd_process p (\<lambda>x. x\<lparr>p_sig_lock := 1\<rparr>) ps"
  from dispatch_loop_ok [OF run refl, of ?ps "ps p" "[1..<SIGMAX]"] obtain ps' where ps':
    "signal_dispatch_loop run p (p_sig_pending (ps p)) [1..<SIGMAX] ?ps =
       Some (map (\<lambda>sig. (sig, catcher (ps p) sig)) (filter (deliverable (ps p)) [1..<SIGMAX]), ps')"
    "same_but_signals (ps p) (ps' p)" "p_sig_lock (ps' p) = 1"
    "p_sig_pending (ps' p) = fold (pending_after (ps p)) [1..<SIGMAX] (p_sig_pending (ps p))"
    by (auto simp del: upt_rec_numeral)
  with False lk show ?thesis by (simp add: signal_dispatch_def del: upt_rec_numeral)
qed


section \<open>Properties\<close>

text \<open>C11: A dispatch delivers exactly the right signals. If every handler returns and leaves the process itself
  alone, \<open>signal_dispatch\<close> returns; it delivers, once each and in ascending order, the pending signals
  that are not masked, and SIGKILL and SIGSTOP even if they are; each goes to its handler if it has
  one and may be caught, and to the default action otherwise. The lock is free again, mask, handlers
  and process state are unchanged. A signal is pending afterwards if and only if it was pending and was not delivered, or
  the default action of a delivered signal sent it again and it was not delivered after that (default actions send SIGTERM,
  SIGSTOP or SIGCONT).\<close>
theorem signal_dispatch_delivers:
  assumes "well_behaved run p" and "p_sig_lock (ps p) = 0"
  shows "\<exists>ps'. signal_dispatch run ps (Some p) =
       Some (map (\<lambda>sig. (sig, catcher (ps p) sig)) (filter (deliverable (ps p)) [1..<SIGMAX]), ps') \<and>
     p_sig_lock (ps' p) = 0 \<and> p_sig_mask (ps' p) = p_sig_mask (ps p) \<and>
     p_sig_handlers (ps' p) = p_sig_handlers (ps p) \<and> p_state (ps' p) = p_state (ps p) \<and>
     (\<forall>n\<in>{1..<SIGMAX}. bit (p_sig_pending (ps' p)) n \<longleftrightarrow>
        bit (p_sig_pending (ps p)) n \<and> \<not> deliverable (ps p) n \<or>
        (\<exists>sig\<in>{1..<SIGMAX}. deliverable (ps p) sig \<and> catcher (ps p) sig = None \<and> bit (resent sig) n \<and>
           (deliverable (ps p) n \<longrightarrow> n \<le> sig)))"
proof -
  from signal_dispatch_runs [where ps = ps and p = p, OF assms] obtain ps' where ps':
    "signal_dispatch run ps (Some p) =
       Some (map (\<lambda>sig. (sig, catcher (ps p) sig)) (filter (deliverable (ps p)) [1..<SIGMAX]), ps')"
    "same_but_signals (ps p) (ps' p)" "p_sig_lock (ps' p) = 0"
    "p_sig_pending (ps' p) = fold (pending_after (ps p)) [1..<SIGMAX] (p_sig_pending (ps p))" by blast
  have "\<forall>n\<in>{1..<SIGMAX}. bit (p_sig_pending (ps' p)) n \<longleftrightarrow>
        bit (p_sig_pending (ps p)) n \<and> \<not> deliverable (ps p) n \<or>
        (\<exists>sig\<in>{1..<SIGMAX}. deliverable (ps p) sig \<and> catcher (ps p) sig = None \<and> bit (resent sig) n \<and>
           (deliverable (ps p) n \<longrightarrow> n \<le> sig))"
  proof
    fix n assume n: "n \<in> {1..<SIGMAX}"
    have "n < 32" "sorted_wrt (<) [1..<SIGMAX]" using n by simp_all
    from pending_after_fold [OF this] n show "bit (p_sig_pending (ps' p)) n \<longleftrightarrow>
        bit (p_sig_pending (ps p)) n \<and> \<not> deliverable (ps p) n \<or>
        (\<exists>sig\<in>{1..<SIGMAX}. deliverable (ps p) sig \<and> catcher (ps p) sig = None \<and> bit (resent sig) n \<and>
           (deliverable (ps p) n \<longrightarrow> n \<le> sig))"
      unfolding ps'(4) set_upt by simp
  qed
  then show ?thesis using ps'(1,3) same_but_signalsD [OF ps'(2)] by (intro exI [of _ ps'] conjI)
qed

definition sample_process :: process where
  "sample_process = \<lparr>p_parent = None, p_children = None, p_siblings = None, p_pid = 1, p_sid = 0,
     p_pgid = 0, p_rgid = 0, p_gid = 0, p_ruid = 0, p_uid = 0, p_state = RUNNING, p_mem_usage = 0,
     p_threads = 0, p_region = 0, p_cwd = 0, p_name = 0, p_exit_status = 0, p_sig_handlers = replicate 32 None, p_sig_mask = 0, p_sig_pending = 0,
     p_sig_lock = 0\<rparr>"

theorem signal_dispatch_delivers_witness:
  "\<exists>ps' :: processes. p_sig_lock (ps' 0) = 0 \<and> \<not> bit (p_sig_pending (ps' 0)) SIGUSR1"
proof -
  let ?x = "sample_process\<lparr>p_sig_pending := 0x10000\<rparr>"
  have w: "well_behaved (\<lambda>_ _ ps. Some ps) 0" by (simp add: well_behaved_def)
  have l: "p_sig_lock ((\<lambda>_. ?x) 0) = 0" by (simp add: sample_process_def)
  have d: "deliverable ?x SIGUSR1" by (simp add: deliverable_def sample_process_def)
  have r: "\<not> bit (resent sig) SIGUSR1" for sig using resent_bits [of SIGUSR1 sig] by auto
  from signal_dispatch_delivers [OF w l] obtain ps' :: processes where
    "p_sig_lock (ps' 0) = 0" and p: "\<forall>n\<in>{1..<SIGMAX}. bit (p_sig_pending (ps' 0)) n \<longleftrightarrow>
        bit (p_sig_pending ?x) n \<and> \<not> deliverable ?x n \<or>
        (\<exists>sig\<in>{1..<SIGMAX}. deliverable ?x sig \<and> catcher ?x sig = None \<and> bit (resent sig) n \<and> (deliverable ?x n \<longrightarrow> n \<le> sig))"
    by blast
  moreover have "\<not> bit (p_sig_pending (ps' 0)) SIGUSR1" using bspec [OF p, of SIGUSR1] d r by auto
  ultimately show ?thesis by blast
qed

text \<open>SIGKILL and SIGSTOP can be neither caught nor blocked. \<open>signal_set_handler\<close> refuses them
  and changes nothing, and when one of them is pending, a dispatch takes its default action whatever
  the mask says and even if the handler table had an entry for it.\<close>
theorem sigkill_uncatchable:
  assumes "sig = SIGKILL \<or> sig = SIGSTOP" and "well_behaved run p" and "p_sig_lock (ps p) = 0"
    and "bit (p_sig_pending (ps p)) sig"
  shows "signal_set_handler ps (Some p) (int sig) h = Some (-1, ps) \<and>
     (\<exists>evs ps'. signal_dispatch run ps (Some p) = Some (evs, ps') \<and> (sig, None) \<in> set evs \<and>
        (\<forall>h. (sig, Some h) \<notin> set evs))"
proof -
  have "deliverable (ps p) sig" "catcher (ps p) sig = None" "sig \<in> set [1..<SIGMAX]"
    using assms(1,4) by (auto simp: deliverable_def catcher_def simp del: upt_rec_numeral)
  then have "(sig, None) \<in> set (map (\<lambda>s. (s, catcher (ps p) s)) (filter (deliverable (ps p)) [1..<SIGMAX]))"
    and "\<forall>h. (sig, Some h) \<notin> set (map (\<lambda>s. (s, catcher (ps p) s)) (filter (deliverable (ps p)) [1..<SIGMAX]))"
    by (auto simp del: upt_rec_numeral intro!: image_eqI [of _ _ sig])
  moreover have "signal_set_handler ps (Some p) (int sig) h = Some (-1, ps)"
    using assms(1) by (auto simp: signal_set_handler_def)
  ultimately show ?thesis using signal_dispatch_runs [where ps = ps and p = p, OF assms(2,3)] by blast
qed

theorem sigkill_uncatchable_witness:
  "\<exists>evs ps'. signal_dispatch (\<lambda>_ _ ps. Some ps)
       (\<lambda>_. sample_process\<lparr>p_sig_pending := 0x200, p_sig_mask := 0xFFFFFFFF\<rparr>) (Some 0) = Some (evs, ps') \<and>
     (SIGKILL, None) \<in> set evs"
  using sigkill_uncatchable [of SIGKILL "\<lambda>_ _ ps. Some ps" 0
      "\<lambda>_. sample_process\<lparr>p_sig_pending := 0x200, p_sig_mask := 0xFFFFFFFF\<rparr>" "Some 5"]
  by (auto simp: well_behaved_def sample_process_def)

text \<open>
  What the default actions achieve. \<open>dispatch_rounds\<close> repeats the dispatch.
\<close>

primrec dispatch_rounds :: "handler_code \<Rightarrow> nat \<Rightarrow> nat \<Rightarrow> processes \<Rightarrow> processes option" where
  "dispatch_rounds run p 0 ps = Some ps"
| "dispatch_rounds run p (Suc n) ps = do {
     (_, ps) \<leftarrow> signal_dispatch run ps (Some p);
     dispatch_rounds run p n ps
   }"

lemma fold_pending_only_term:
  assumes "p_sig_pending x = sig_bit s" and "s \<in> {SIGKILL, SIGTERM}" and "catcher x s = None"
    and "\<not> bit (p_sig_mask x) s"
  shows "fold (pending_after x) [1..<SIGMAX] (sig_bit s) = sig_bit SIGTERM"
proof -
  have skip: "fold (pending_after x) sigs w = w" if "s \<notin> set sigs" "set sigs \<subseteq> {1..<SIGMAX}" for sigs w
    using that
  proof (induction sigs)
    case (Cons n sigs)
    then have "\<not> deliverable x n" using assms(1) bit_sig_bit [of n s] by (auto simp: deliverable_def)
    with Cons show ?case by (simp add: pending_after_def)
  qed simp
  have s: "1 \<le> s" "s < SIGMAX" using assms(2) by auto
  then have split: "[1..<SIGMAX] = [1..<s] @ s # [Suc s..<SIGMAX]"
    using upt_add_eq_append [of 1 s "SIGMAX - s"] upt_conv_Cons [of s SIGMAX]
    by (simp del: upt_rec_numeral)
  have "bit (p_sig_pending x) s" using assms(1) bit_sig_bit [of s s] s by simp
  with assms have "pending_after x s (sig_bit s) = (sig_bit s AND NOT (sig_bit s)) OR resent s"
    by (simp add: pending_after_def deliverable_def)
  also have "\<dots> = sig_bit SIGTERM" using assms(2) by (auto simp: resent_def default_actions_def)
  finally have mid: "pending_after x s (sig_bit s) = sig_bit SIGTERM" .
  show ?thesis unfolding split fold_append fold_simps comp_def
    using skip [of "[1..<s]"] skip [of "[Suc s..<SIGMAX]"] mid s by auto
qed


lemma default_dispatch_round:
  assumes "well_behaved run p" and "p_sig_lock (ps p) = 0" and "p_sig_pending (ps p) = sig_bit s"
    and "s \<in> {SIGKILL, SIGTERM}" and "p_sig_handlers (ps p) ! SIGTERM = None" and "p_sig_mask (ps p) = 0"
  shows "\<exists>evs ps'. signal_dispatch run ps (Some p) = Some (evs, ps') \<and> p_sig_lock (ps' p) = 0 \<and>
     p_sig_pending (ps' p) = sig_bit SIGTERM \<and> p_state (ps' p) = p_state (ps p) \<and>
     p_sig_handlers (ps' p) = p_sig_handlers (ps p) \<and> p_sig_mask (ps' p) = 0"
proof -
  have "catcher (ps p) s = None" "\<not> bit (p_sig_mask (ps p)) s"
    using assms(4-6) by (auto simp: catcher_def)
  from fold_pending_only_term [OF assms(3,4) this] signal_dispatch_runs [where ps = ps and p = p, OF assms(1,2)]
  obtain evs ps' where ps': "signal_dispatch run ps (Some p) = Some (evs, ps')"
    "same_but_signals (ps p) (ps' p)" "p_sig_lock (ps' p) = 0" "p_sig_pending (ps' p) = sig_bit SIGTERM"
    unfolding assms(3) by auto
  from ps' same_but_signalsD [OF ps'(2)] assms(6) show ?thesis by auto
qed

text \<open>A killed process is never terminated. When SIGKILL or SIGTERM is pending for a process with
  no SIGTERM handler and an empty mask, every dispatch, however often it is repeated, leaves the
  process in the state it was in (running, say) with SIGTERM pending: the default action of
  termination is \<open>proc_exit\<close>, which only sends SIGTERM.\<close>
theorem killed_process_keeps_running:
  assumes "well_behaved run p" and "p_sig_lock (ps p) = 0" and "p_sig_pending (ps p) = sig_bit s"
    and "s \<in> {SIGKILL, SIGTERM}" and "p_sig_handlers (ps p) ! SIGTERM = None" and "p_sig_mask (ps p) = 0"
  shows "\<exists>ps'. dispatch_rounds run p (Suc n) ps = Some ps' \<and> p_state (ps' p) = p_state (ps p) \<and>
           p_sig_pending (ps' p) = sig_bit SIGTERM"
  using assms(2-6)
proof (induction n arbitrary: ps s)
  case 0
  from default_dispatch_round [where ps = ps and p = p, OF assms(1) 0] show ?case by auto
next
  case (Suc n)
  from default_dispatch_round [where ps = ps and p = p, OF assms(1) Suc.prems] obtain evs ps1 where ps1:
    "signal_dispatch run ps (Some p) = Some (evs, ps1)" "p_sig_lock (ps1 p) = 0"
    "p_sig_pending (ps1 p) = sig_bit SIGTERM" "p_state (ps1 p) = p_state (ps p)"
    "p_sig_handlers (ps1 p) = p_sig_handlers (ps p)" "p_sig_mask (ps1 p) = 0" by blast
  have "p_sig_handlers (ps1 p) ! SIGTERM = None" using ps1(5) Suc.prems(4) by simp
  from Suc.IH [where ps = ps1 and s = SIGTERM, OF ps1(2,3) _ this ps1(6)] ps1(1,4) show ?case by auto
qed

theorem killed_process_keeps_running_witness:
  "\<exists>ps'. dispatch_rounds (\<lambda>_ _ ps. Some ps) 0 (Suc 7) (\<lambda>_. sample_process\<lparr>p_sig_pending := sig_bit SIGKILL\<rparr>)
     = Some ps' \<and> p_state (ps' 0) = RUNNING"
  using killed_process_keeps_running [of "\<lambda>_ _ ps. Some ps" 0
      "\<lambda>_. sample_process\<lparr>p_sig_pending := sig_bit SIGKILL\<rparr>" SIGKILL 7]
  by (auto simp: well_behaved_def sample_process_def)

end
