(* ===== verification/Process.thy ===== *)
theory Process
  imports Signal
begin

text \<open>
  task/process.c: the process tree, identifiers, the search for a process by its number, duplication,
  waiting for a child, and the release of what a process owns. The children of a process are linked
  through \<open>siblings\<close>.
\<close>

section \<open>The family tree\<close>

abbreviation sib :: "processes \<Rightarrow> nat \<Rightarrow> nat option" where
  "sib ps \<equiv> \<lambda>p. p_siblings (ps p)"

definition set_parent :: "nat \<Rightarrow> nat option \<Rightarrow> processes \<Rightarrow> processes" where
  "set_parent c p ps = upd_process c (\<lambda>x. x\<lparr>p_parent := p\<rparr>) ps"

definition set_siblings :: "nat \<Rightarrow> nat option \<Rightarrow> processes \<Rightarrow> processes" where
  "set_siblings c p ps = upd_process c (\<lambda>x. x\<lparr>p_siblings := p\<rparr>) ps"

definition set_children :: "nat \<Rightarrow> nat option \<Rightarrow> processes \<Rightarrow> processes" where
  "set_children p c ps = upd_process p (\<lambda>x. x\<lparr>p_children := c\<rparr>) ps"

definition proc_family_init :: "processes \<Rightarrow> nat \<Rightarrow> processes" where
  "proc_family_init ps p = set_parent p None (set_siblings p None (set_children p None ps))"

definition proc_family_add_child :: "processes \<Rightarrow> nat option \<Rightarrow> nat option \<Rightarrow> processes" where
  "proc_family_add_child ps parent child =
     (case (parent, child) of
        (Some p, Some c) \<Rightarrow>
          let ps = set_parent c (Some p) ps;
              ps = set_siblings c (p_children (ps p)) ps
          in set_children p (Some c) ps
      | _ \<Rightarrow> ps)"

definition proc_twin_child_add :: "processes \<Rightarrow> nat option \<Rightarrow> nat option \<Rightarrow> nat option \<Rightarrow> processes" where
  "proc_twin_child_add ps parent child1 child2 =
     (case (parent, child1, child2) of
        (Some p, Some c, Some d) \<Rightarrow>
          let ps = set_parent c (Some p) ps;
              ps = set_parent d (Some p) ps;
              ps = set_siblings c (Some d) ps;
              ps = set_siblings d (p_children (ps p)) ps
          in set_children p (Some c) ps
      | _ \<Rightarrow> ps)"

definition proc_family_remove_child :: "processes \<Rightarrow> nat option \<Rightarrow> nat option \<Rightarrow> processes option" where
  "proc_family_remove_child ps parent child =
     (case (parent, child) of
        (Some p, Some c) \<Rightarrow> do {
          (prev, cur) \<leftarrow> ll_walk (sib ps) c None (p_children (ps p));
          (case cur of
             None \<Rightarrow> Some ps
           | Some k \<Rightarrow>
               let ps = (case prev of
                      Some q \<Rightarrow> set_siblings q (sib ps k) ps
                    | None \<Rightarrow> set_children p (sib ps k) ps);
                   ps = set_parent c None ps
               in Some (set_siblings c None ps))
        }
      | _ \<Rightarrow> Some ps)"

partial_function (option) orphan_loop :: "processes \<Rightarrow> nat option \<Rightarrow> processes option" where
  "orphan_loop ps cur =
     (case cur of
        None \<Rightarrow> Some ps
      | Some c \<Rightarrow>
          let next_child = p_siblings (ps c)
          in orphan_loop (set_siblings c None (set_parent c None ps)) next_child)"

definition proc_family_remove_all_children :: "processes \<Rightarrow> nat option \<Rightarrow> processes option" where
  "proc_family_remove_all_children ps parent =
     (case parent of
        None \<Rightarrow> Some ps
      | Some p \<Rightarrow> map_option (set_children p None) (orphan_loop ps (p_children (ps p))))"

text \<open>The loop of \<open>proc_family_transfer_children\<close> and of \<open>proc_reparent_children\<close>.\<close>

partial_function (option) transfer_loop :: "processes \<Rightarrow> nat \<Rightarrow> nat option \<Rightarrow> processes option" where
  "transfer_loop ps new_parent cur =
     (case cur of
        None \<Rightarrow> Some ps
      | Some c \<Rightarrow>
          let next_child = p_siblings (ps c)
          in transfer_loop (proc_family_add_child ps (Some new_parent) (Some c)) new_parent next_child)"

definition proc_family_transfer_children :: "processes \<Rightarrow> nat option \<Rightarrow> nat option \<Rightarrow> processes option" where
  "proc_family_transfer_children ps old_parent new_parent =
     (case (old_parent, new_parent) of
        (Some p, Some q) \<Rightarrow> map_option (set_children p None) (transfer_loop ps q (p_children (ps p)))
      | _ \<Rightarrow> Some ps)"

definition proc_reparent_children :: "processes \<Rightarrow> nat option \<Rightarrow> nat option \<Rightarrow> processes option" where
  "proc_reparent_children ps old_parent new_parent =
     (case (old_parent, new_parent) of
        (Some p, Some q) \<Rightarrow> map_option (set_children p None) (transfer_loop ps q (p_children (ps p)))
      | _ \<Rightarrow> Some ps)"

definition proc_set_parent_process :: "processes \<Rightarrow> nat option \<Rightarrow> nat option \<Rightarrow> int \<times> processes" where
  "proc_set_parent_process ps process parent =
     (case process of
        None \<Rightarrow> (-1, ps)
      | Some c \<Rightarrow>
          let ps = set_parent c parent ps
          in (0, if parent \<noteq> None then proc_family_add_child ps parent process else ps))"

section \<open>Identifiers and the process table\<close>

record proc_table =
  tbl_lock :: spinlock_t
  tbl_processes :: "nat option"

record proc_info =
  next_pid :: pid_t
  process_count :: u32

definition proc_info_init :: "proc_info \<Rightarrow> proc_info" where
  "proc_info_init i = i\<lparr>next_pid := 1, process_count := 0\<rparr>"

definition proc_table_init :: "proc_table \<Rightarrow> proc_table" where
  "proc_table_init t = t\<lparr>tbl_processes := None, tbl_lock := spinlock_init (tbl_lock t)\<rparr>"

definition proc_alloc_assign_ids :: "process \<Rightarrow> process" where
  "proc_alloc_assign_ids x = x\<lparr>p_pid := -1, p_sid := -1, p_pgid := -1, p_rgid := 0, p_gid := 0,
     p_ruid := 0, p_uid := 0\<rparr>"

definition proc_init_process_zero_ids :: "process \<Rightarrow> process" where
  "proc_init_process_zero_ids x = x\<lparr>p_pid := 0, p_sid := 0, p_pgid := 0, p_rgid := 0, p_gid := 0,
     p_ruid := 0, p_uid := 0\<rparr>"

definition proc_init_process_family_create :: "processes \<times> proc_info \<Rightarrow> nat \<Rightarrow> processes \<times> proc_info" where
  "proc_init_process_family_create = (\<lambda>(ps, i) p.
     (upd_process p (\<lambda>x. x\<lparr>p_parent := None, p_children := None, p_siblings := None, p_pid := next_pid i\<rparr>) ps,
      i\<lparr>next_pid := next_pid i + 1, process_count := process_count i + 1\<rparr>))"

definition proc_assign_child_ids ::
  "processes \<times> proc_info \<Rightarrow> nat option \<Rightarrow> nat option \<Rightarrow> int \<times> processes \<times> proc_info" where
  "proc_assign_child_ids = (\<lambda>(ps, i) parent child.
     (case (parent, child) of
        (Some p, Some c) \<Rightarrow>
          let ps = upd_process c (\<lambda>x. x\<lparr>p_pid := next_pid i, p_sid := p_sid (ps p), p_pgid := p_pgid (ps p),
                     p_rgid := p_rgid (ps p), p_gid := p_gid (ps p), p_ruid := p_ruid (ps p),
                     p_uid := p_uid (ps p)\<rparr>) ps;
              i = i\<lparr>next_pid := next_pid i + 1, process_count := process_count i + 1\<rparr>;
              ps = set_siblings c (p_children (ps p)) ps
          in (0, set_children p (Some c) ps, i)
      | _ \<Rightarrow> (-1, ps, i)))"

definition proc_getpid :: "processes \<Rightarrow> nat option \<Rightarrow> pid_t" where
  "proc_getpid ps process = (case process of None \<Rightarrow> -1 | Some p \<Rightarrow> p_pid (ps p))"

definition proc_get_process_by_pid ::
  "processes \<times> proc_table \<Rightarrow> pid_t \<Rightarrow> (nat option \<times> proc_table) option" where
  "proc_get_process_by_pid = (\<lambda>(ps, t) pid. do {
     lk \<leftarrow> lock_acquire (tbl_lock t);
     r \<leftarrow> find_loop (\<lambda>c. p_pid (ps c) = pid) (sib ps) (tbl_processes t);
     Some (r, t\<lparr>tbl_lock := lock_release lk\<rparr>)
   })"

definition proc_remove_process_from_table ::
  "processes \<times> proc_table \<Rightarrow> nat option \<Rightarrow> (int \<times> processes \<times> proc_table) option" where
  "proc_remove_process_from_table = (\<lambda>(ps, t) process.
     (case process of
        None \<Rightarrow> Some (-1, ps, t)
      | Some p \<Rightarrow>
          if tbl_processes t = None then Some (-1, ps, t)
          else do {
            lk \<leftarrow> lock_acquire (tbl_lock t);
            (prev, cur) \<leftarrow> ll_walk (sib ps) p None (tbl_processes t);
            (case cur of
               None \<Rightarrow> Some (-1, ps, t\<lparr>tbl_lock := lock_release lk\<rparr>)
             | Some c \<Rightarrow> (case prev of
                   Some q \<Rightarrow> Some (0, set_siblings q (sib ps c) ps, t\<lparr>tbl_lock := lock_release lk\<rparr>)
                 | None \<Rightarrow> Some (0, ps, t\<lparr>tbl_processes := sib ps c, tbl_lock := lock_release lk\<rparr>)))
          }))"

section \<open>What a process owns\<close>

text \<open>
  \<open>proc_clean\<close> hands each resource it finds to the component that releases it and clears the pointer.
  The result lists the resources released, in order.
\<close>

datatype resource = Cwd u32 | Region u32 | Name u32 | Threads u32

definition release :: "(u32 \<Rightarrow> resource) \<Rightarrow> u32 \<Rightarrow> resource list" where
  "release c a = (if a \<noteq> 0 then [c a] else [])"

definition owned_by :: "process \<Rightarrow> resource list" where
  "owned_by p = release Cwd (p_cwd p) @ release Region (p_region p) @ release Name (p_name p) @ release Threads (p_threads p)"

definition proc_clean :: "processes \<Rightarrow> nat option \<Rightarrow> int \<times> resource list \<times> processes" where
  "proc_clean ps process =
     (case process of
        None \<Rightarrow> (-1, [], ps)
      | Some p \<Rightarrow>
          (0, owned_by (ps p),
           upd_process p (\<lambda>x. x\<lparr>p_cwd := 0, p_region := 0, p_name := 0, p_threads := 0\<rparr>) ps))"

section \<open>Waiting for a child\<close>

text \<open>The scan of the children: whether one matched, and the first zombie among those that do.\<close>

partial_function (option) wait_scan_loop ::
  "(nat \<Rightarrow> bool) \<Rightarrow> (nat \<Rightarrow> bool) \<Rightarrow> (nat \<Rightarrow> nat option) \<Rightarrow> nat option \<Rightarrow> bool
     \<Rightarrow> (bool \<times> nat option) option" where
  "wait_scan_loop matches zombie nx child found =
     (case child of
        None \<Rightarrow> Some (found, None)
      | Some c \<Rightarrow>
          if matches c then
            if zombie c then Some (True, Some c) else wait_scan_loop matches zombie nx (nx c) True
          else wait_scan_loop matches zombie nx (nx c) found)"

text \<open>
  \<open>yield\<close> is what the rest of the system does to the processes while the caller sits in
  \<open>sched_yield\<close>, with a state of its own. The second component of the result is what was stored
  through \<open>status\<close>.
\<close>

definition WNOHANG :: u32 where "WNOHANG = 1"

partial_function (option) proc_waitpid ::
  "('e \<Rightarrow> processes \<Rightarrow> 'e \<times> processes) \<Rightarrow> nat option \<Rightarrow> pid_t \<Rightarrow> u32 \<Rightarrow> 'e \<Rightarrow> processes \<times> proc_table
     \<Rightarrow> (pid_t \<times> (int \<times> resource list) option \<times> 'e \<times> processes \<times> proc_table) option" where
  "proc_waitpid yield current_process pid options e s =
     (case current_process of
        None \<Rightarrow> Some (-1, None, e, s)
      | Some self \<Rightarrow> do {
          let ps = fst s;
          let t = snd s;
          lk \<leftarrow> lock_acquire (tbl_lock t);
          (found, target) \<leftarrow> wait_scan_loop (\<lambda>c. pid = -1 \<or> p_pid (ps c) = pid)
             (\<lambda>c. p_state (ps c) = ZOMBIE) (sib ps) (p_children (ps self)) False;
          let t = t\<lparr>tbl_lock := lock_release lk\<rparr>;
          (case target of
             Some z \<Rightarrow> do {
               let status = p_exit_status (ps z);
               let child_pid = p_pid (ps z);
               ps \<leftarrow> proc_family_remove_child ps (Some self) (Some z);
               let (_, released, ps) = proc_clean ps (Some z);
               Some (child_pid, Some (status, released), e, ps, t)
             }
           | None \<Rightarrow>
               if \<not> found then Some (-1, None, e, ps, t)
               else if options AND WNOHANG \<noteq> 0 then Some (0, None, e, ps, t)
               else proc_waitpid yield current_process pid options (fst (yield e ps)) (snd (yield e ps), t))
        })"


section \<open>Duplicating a process\<close>

text \<open>
  \<open>proc_alloc\<close> returns a zeroed structure with a thread list of its own; the outcomes of the
  allocations and copies made by other components (the structure and its thread list, the page map,
  the descriptors, the space for the name) are arguments.
\<close>

definition proc_alloc :: "u32 \<Rightarrow> process" where
  "proc_alloc thread_list_addr = proc_alloc_assign_ids
     \<lparr>p_parent = None, p_children = None, p_siblings = None, p_pid = 0, p_sid = 0, p_pgid = 0, p_rgid = 0,
      p_gid = 0, p_ruid = 0, p_uid = 0, p_state = RUNNING, p_mem_usage = 0, p_threads = thread_list_addr,
      p_region = 0, p_cwd = 0, p_name = 0, p_exit_status = 0, p_sig_handlers = replicate SIGMAX None,
      p_sig_mask = 0, p_sig_pending = 0, p_sig_lock = 0\<rparr>"

definition proc_copy_child_pagemap :: "u32 \<Rightarrow> processes \<Rightarrow> nat \<Rightarrow> nat \<Rightarrow> int \<times> processes" where
  "proc_copy_child_pagemap region_copy ps parent child =
     (let ps = upd_process child (\<lambda>x. x\<lparr>p_region := region_copy\<rparr>) ps
      in if p_region (ps child) = 0 then (-1, ps)
         else (0, upd_process child (\<lambda>x. x\<lparr>p_mem_usage := p_mem_usage (ps parent)\<rparr>) ps))"

text \<open>
  The previous directory, if there is one, is closed: it is reported as released. The directory is a handle here; the
  count of its references, which the code raises at the end, belongs to the node and is modelled in \<open>Kproc\<close>.
\<close>

definition proc_cwd_assign :: "processes \<Rightarrow> nat \<Rightarrow> u32 \<Rightarrow> int \<times> resource list \<times> processes" where
  "proc_cwd_assign ps p cwd =
     (if cwd = 0 then (-1, [], ps)
      else (0, release Cwd (p_cwd (ps p)), upd_process p (\<lambda>x. x\<lparr>p_cwd := cwd\<rparr>) ps))"

definition proc_copy_signal_state :: "processes \<Rightarrow> nat \<Rightarrow> nat \<Rightarrow> processes option" where
  "proc_copy_signal_state ps parent child = do {
     lk \<leftarrow> lock_acquire (p_sig_lock (ps parent));
     let ps = upd_process parent (\<lambda>x. x\<lparr>p_sig_lock := lk\<rparr>) ps;
     lk \<leftarrow> lock_acquire (p_sig_lock (ps child));
     let ps = upd_process child (\<lambda>x. x\<lparr>p_sig_lock := lk, p_sig_mask := p_sig_mask (ps parent),
        p_sig_pending := 0, p_sig_handlers := p_sig_handlers (ps parent)\<rparr>) ps;
     let ps = upd_process child (\<lambda>x. x\<lparr>p_sig_lock := lock_release (p_sig_lock x)\<rparr>) ps;
     Some (upd_process parent (\<lambda>x. x\<lparr>p_sig_lock := lock_release (p_sig_lock x)\<rparr>) ps)
   }"

text \<open>Giving back what a failed duplication had obtained; the structure itself is freed as well.\<close>

definition proc_fork_failed_child_data_structures :: "processes \<Rightarrow> nat \<Rightarrow> resource list" where
  "proc_fork_failed_child_data_structures ps c =
     release Cwd (p_cwd (ps c)) @ release Region (p_region (ps c)) @ release Name (p_name (ps c)) @
     release Threads (p_threads (ps c))"

record fork_outcomes =
  fo_child :: "nat option"
  fo_threads :: u32
  fo_region :: u32
  fo_fds :: bool
  fo_name :: u32

definition proc_fork ::
  "fork_outcomes \<Rightarrow> processes \<times> proc_info \<times> proc_table \<Rightarrow> nat option
     \<Rightarrow> (pid_t \<times> resource list \<times> processes \<times> proc_info \<times> proc_table) option" where
  "proc_fork fo = (\<lambda>(ps, i, t) parent.
     (case (parent, fo_child fo) of
        (Some p, Some c) \<Rightarrow>
          let ps = upd_process c (\<lambda>_. proc_alloc (fo_threads fo)) ps;
              (r1, ps) = proc_copy_child_pagemap (fo_region fo) ps p c
          in if r1 < 0 then Some (-1, proc_fork_failed_child_data_structures ps c, ps, i, t)
             else
               let (r2, out, ps) = proc_cwd_assign ps c (p_cwd (ps p))
               in if r2 < 0 then Some (-1, out @ proc_fork_failed_child_data_structures ps c, ps, i, t)
                  else if \<not> fo_fds fo then Some (-1, proc_fork_failed_child_data_structures ps c, ps, i, t)
                  else
                    let ps = upd_process c (\<lambda>x. x\<lparr>p_name := fo_name fo\<rparr>) ps
                    in if p_name (ps c) = 0
                       then Some (-1, proc_fork_failed_child_data_structures ps c, ps, i, t)
                       else do {
                         lk \<leftarrow> lock_acquire (tbl_lock t);
                         let (_, ps, i) = proc_assign_child_ids (ps, i) (Some p) (Some c);
                         let ps = upd_process c (\<lambda>x. x\<lparr>p_parent := Some p, p_state := RUNNABLE\<rparr>) ps;
                         let t = t\<lparr>tbl_lock := lock_release lk\<rparr>;
                         ps \<leftarrow> proc_copy_signal_state ps p c;
                         Some (p_pid (ps c), [], ps, i, t)
                       }
      | _ \<Rightarrow> Some (-1, [], ps, i, t)))"

section \<open>Children of a process\<close>

text \<open>\<open>children_rep ps p cs\<close>: the children of \<open>p\<close> are \<open>cs\<close>, newest first.\<close>

definition children_rep :: "processes \<Rightarrow> nat \<Rightarrow> nat list \<Rightarrow> bool" where
  "children_rep ps p cs \<longleftrightarrow> llist (sib ps) (p_children (ps p)) cs \<and> (\<forall>c\<in>set cs. p_parent (ps c) = Some p)"

lemma children_rep_distinct: "children_rep ps p cs \<Longrightarrow> distinct cs"
  unfolding children_rep_def using llist_distinct by blast

lemma process_setters [simp]:
  "p_siblings (set_siblings c s ps q) = (if q = c then s else p_siblings (ps q))"
  "p_siblings (set_parent c s ps q) = p_siblings (ps q)"
  "p_siblings (set_children c s ps q) = p_siblings (ps q)"
  "p_parent (set_parent c s ps q) = (if q = c then s else p_parent (ps q))"
  "p_parent (set_siblings c s ps q) = p_parent (ps q)"
  "p_parent (set_children c s ps q) = p_parent (ps q)"
  "p_children (set_children c s ps q) = (if q = c then s else p_children (ps q))"
  "p_children (set_siblings c s ps q) = p_children (ps q)"
  "p_children (set_parent c s ps q) = p_children (ps q)"
  by (simp_all add: set_siblings_def set_parent_def set_children_def upd_process_def)

lemma lseg_sib_cong:
  assumes "\<And>c. c \<in> set cs \<Longrightarrow> p_siblings (ps' c) = p_siblings (ps c)"
  shows "lseg (sib ps') a cs b = lseg (sib ps) a cs b"
  by (rule lseg_cong) (rule assms)

lemma add_child_rep:
  assumes rep: "children_rep ps p cs" and c: "c \<notin> set cs" "c \<noteq> p"
  shows "children_rep (proc_family_add_child ps (Some p) (Some c)) p (c # cs)"
proof -
  let ?ps = "proc_family_add_child ps (Some p) (Some c)"
  have "llist (sib ?ps) (p_children (ps p)) cs = llist (sib ps) (p_children (ps p)) cs"
    by (rule lseg_sib_cong) (use c in \<open>auto simp: proc_family_add_child_def Let_def\<close>)
  with rep c show ?thesis
    by (auto simp: children_rep_def proc_family_add_child_def Let_def)
qed

lemma add_child_other:
  assumes "q \<noteq> p" and "q \<noteq> c"
  shows "proc_family_add_child ps (Some p) (Some c) q = ps q"
  using assms by (simp add: proc_family_add_child_def Let_def set_children_def set_siblings_def set_parent_def)

lemma remove_child_rep:
  assumes rep: "children_rep ps p (us @ c # vs)"
  shows "\<exists>ps'. proc_family_remove_child ps (Some p) (Some c) = Some ps' \<and> children_rep ps' p (us @ vs) \<and>
     p_parent (ps' c) = None \<and> p_siblings (ps' c) = None"
proof -
  from rep have ll: "llist (sib ps) (p_children (ps p)) (us @ c # vs)"
    and par: "\<forall>d\<in>set (us @ c # vs). p_parent (ps d) = Some p" by (simp_all add: children_rep_def)
  have d: "distinct (us @ c # vs)" by (rule children_rep_distinct [OF rep])
  from ll have after: "llist (sib ps) (sib ps c) vs" by auto
  show ?thesis
  proof (cases us rule: rev_cases)
    case Nil
    let ?ps = "set_siblings c None (set_parent c None (set_children p (sib ps c) ps))"
    have "proc_family_remove_child ps (Some p) (Some c) = Some ?ps"
      using ll_walk_found [OF ll, of None] Nil by (simp add: proc_family_remove_child_def Let_def)
    moreover have "llist (sib ?ps) (sib ps c) vs = llist (sib ps) (sib ps c) vs"
      by (rule lseg_sib_cong) (use d in auto)
    ultimately show ?thesis using after par d Nil by (auto simp: children_rep_def)
  next
    case (snoc us' q)
    let ?ps = "set_siblings c None (set_parent c None (set_siblings q (sib ps c) ps))"
    have "proc_family_remove_child ps (Some p) (Some c) = Some ?ps"
      using ll_walk_found [OF ll, of None] snoc by (simp add: proc_family_remove_child_def Let_def)
    moreover from ll snoc have head: "lseg (sib ps) (p_children (ps p)) us' (Some q)" by auto
    moreover have "llist (sib ?ps) (sib ps c) vs = llist (sib ps) (sib ps c) vs"
      by (rule lseg_sib_cong) (use d snoc in auto)
    moreover have "lseg (sib ?ps) (p_children (ps p)) us' (Some q) = lseg (sib ps) (p_children (ps p)) us' (Some q)"
      by (rule lseg_sib_cong) (use d snoc in auto)
    ultimately show ?thesis using after par d snoc by (auto simp: children_rep_def)
  qed
qed


lemma transfer_loop_ok:
  "llist (sib ps) cur cs \<Longrightarrow> children_rep ps q ds \<Longrightarrow> set cs \<inter> set ds = {} \<Longrightarrow> q \<notin> set cs \<Longrightarrow>
   \<exists>ps'. transfer_loop ps q cur = Some ps' \<and> children_rep ps' q (rev cs @ ds) \<and>
     (\<forall>r. r \<notin> set cs \<and> r \<noteq> q \<longrightarrow> ps' r = ps r)"
proof (induction cs arbitrary: ps cur ds)
  case Nil
  then show ?case by (simp add: transfer_loop.simps)
next
  case (Cons c cs)
  then have cur: "cur = Some c" and seg: "llist (sib ps) (p_siblings (ps c)) cs" by simp_all
  from llist_distinct [OF Cons.prems(1)] have d: "c \<notin> set cs" by simp
  let ?ps = "proc_family_add_child ps (Some q) (Some c)"
  have "llist (sib ?ps) (p_siblings (ps c)) cs = llist (sib ps) (p_siblings (ps c)) cs"
    by (rule lseg_sib_cong) (use d Cons.prems(4) in \<open>auto simp: proc_family_add_child_def Let_def\<close>)
  with seg have seg': "llist (sib ?ps) (p_siblings (ps c)) cs" by simp
  have rep: "children_rep ?ps q (c # ds)" using Cons.prems by (intro add_child_rep) auto
  have disj: "set cs \<inter> set (c # ds) = {}" "q \<notin> set cs" using Cons.prems d by auto
  from Cons.IH [OF seg' rep disj] obtain ps' where ps': "transfer_loop ?ps q (p_siblings (ps c)) = Some ps'"
    "children_rep ps' q (rev cs @ c # ds)" "\<forall>r. r \<notin> set cs \<and> r \<noteq> q \<longrightarrow> ps' r = ?ps r" by blast
  have "transfer_loop ps q cur = transfer_loop ?ps q (p_siblings (ps c))"
    unfolding cur by (subst transfer_loop.simps) (simp add: Let_def)
  with ps' show ?case using add_child_other [of _ q c ps] by (intro exI [of _ ps']) simp
qed

text \<open>Handing over the children. If the children of \<open>p\<close> and of \<open>q\<close> are disjoint and \<open>q\<close> is not
  itself a child of \<open>p\<close>, then transferring (or reparenting) ends, \<open>p\<close> has no children, \<open>q\<close> has
  all of them in reverse order before its own, each with \<open>q\<close> as its parent, and no other process
  changes.\<close>
theorem proc_transfer_children_correct:
  assumes "children_rep ps p cs" and "children_rep ps q ds" and "set cs \<inter> set ds = {}"
    and "q \<notin> set cs" and "p \<noteq> q" and "p \<notin> set cs"
  shows "\<exists>ps'. proc_family_transfer_children ps (Some p) (Some q) = Some ps' \<and>
     proc_reparent_children ps (Some p) (Some q) = Some ps' \<and>
     children_rep ps' p [] \<and> children_rep ps' q (rev cs @ ds) \<and>
     (\<forall>r. r \<notin> set cs \<and> r \<noteq> p \<and> r \<noteq> q \<longrightarrow> ps' r = ps r)"
proof -
  from assms(1) have "llist (sib ps) (p_children (ps p)) cs" by (simp add: children_rep_def)
  from transfer_loop_ok [OF this assms(2-4)] obtain ps1 where ps1:
    "transfer_loop ps q (p_children (ps p)) = Some ps1" "children_rep ps1 q (rev cs @ ds)"
    "\<forall>r. r \<notin> set cs \<and> r \<noteq> q \<longrightarrow> ps1 r = ps r" by blast
  let ?ps = "set_children p None ps1"
  have "llist (sib ?ps) (p_children (ps1 q)) (rev cs @ ds) = llist (sib ps1) (p_children (ps1 q)) (rev cs @ ds)"
    by (rule lseg_sib_cong) simp
  with ps1(2) assms(5) have "children_rep ?ps q (rev cs @ ds)" by (simp add: children_rep_def)
  moreover have "children_rep ?ps p []" by (simp add: children_rep_def)
  moreover have "\<forall>r. r \<notin> set cs \<and> r \<noteq> p \<and> r \<noteq> q \<longrightarrow> ?ps r = ps r"
    using ps1(3) by (simp add: set_children_def)
  ultimately show ?thesis using ps1(1)
    by (simp add: proc_family_transfer_children_def proc_reparent_children_def)
qed

definition small_family :: processes where
  "small_family = (\<lambda>_. sample_process)
     (1 := sample_process\<lparr>p_children := Some 3\<rparr>,
      3 := sample_process\<lparr>p_parent := Some 1, p_siblings := Some 4, p_pid := 30\<rparr>,
      4 := sample_process\<lparr>p_parent := Some 1, p_pid := 40, p_state := ZOMBIE, p_exit_status := 7\<rparr>)"

lemma small_family_rep: "children_rep small_family 1 [3, 4]" "children_rep small_family 2 []"
  by (simp_all add: children_rep_def small_family_def sample_process_def)

theorem proc_transfer_children_correct_witness:
  "\<exists>ps'. proc_family_transfer_children small_family (Some 1) (Some 2) = Some ps' \<and>
     children_rep ps' 1 [] \<and> children_rep ps' 2 [4, 3]"
  using proc_transfer_children_correct [OF small_family_rep] by auto

section \<open>Waiting\<close>

definition wait_hit :: "pid_t \<Rightarrow> processes \<Rightarrow> nat \<Rightarrow> bool" where
  "wait_hit pid ps c \<longleftrightarrow> pid = -1 \<or> p_pid (ps c) = pid"

lemma wait_scan_ok:
  "llist nx child cs \<Longrightarrow>
   wait_scan_loop matches zombie nx child found =
     Some (found \<or> (\<exists>c\<in>set cs. matches c), find (\<lambda>c. matches c \<and> zombie c) cs)"
proof (induction cs arbitrary: child found)
  case Nil
  then show ?case by (simp add: wait_scan_loop.simps)
next
  case (Cons c cs)
  then have child: "child = Some c" and seg: "llist nx (nx c) cs" by simp_all
  show ?case unfolding child by (subst wait_scan_loop.simps) (simp add: Cons.IH [OF seg])
qed

lemma find_Some_split:
  "find P xs = Some x \<Longrightarrow> \<exists>us vs. xs = us @ x # vs \<and> P x \<and> (\<forall>u\<in>set us. \<not> P u)"
proof (induction xs)
  case (Cons y ys)
  show ?case
  proof (cases "P y")
    case True
    with Cons.prems show ?thesis by (intro exI [of _ "[]"] exI [of _ ys]) simp
  next
    case False
    with Cons obtain us vs where "ys = us @ x # vs" "P x" "\<forall>u\<in>set us. \<not> P u" by auto
    with False show ?thesis by (intro exI [of _ "y # us"] exI [of _ vs]) simp
  qed
qed simp

lemma clean_children_rep:
  "children_rep (snd (snd (proc_clean ps (Some z)))) p cs \<longleftrightarrow> children_rep ps p cs"
proof -
  let ?ps = "snd (snd (proc_clean ps (Some z)))"
  have s: "p_siblings (?ps q) = p_siblings (ps q)" "p_children (?ps q) = p_children (ps q)"
    "p_parent (?ps q) = p_parent (ps q)" for q
    by (simp_all add: proc_clean_def upd_process_def)
  have "llist (sib ?ps) (p_children (ps p)) cs = llist (sib ps) (p_children (ps p)) cs"
    by (rule lseg_sib_cong) (simp add: s)
  with s show ?thesis by (simp add: children_rep_def)
qed

lemma owned_by_links [simp]:
  "owned_by (set_parent p v ps q) = owned_by (ps q)" "owned_by (set_siblings p v ps q) = owned_by (ps q)"
  "owned_by (set_children p v ps q) = owned_by (ps q)"
  by (simp_all add: owned_by_def upd_process_def set_children_def set_siblings_def set_parent_def)

lemma remove_child_owned: "proc_family_remove_child ps p c = Some ps' \<Longrightarrow> owned_by (ps' q) = owned_by (ps q)"
  by (clarsimp simp: proc_family_remove_child_def bind_eq_Some_conv split: option.splits; elim disjE conjE; fastforce)

text \<open>Reaping. If among the children of the caller some child that matches (any of them, or the one
  with the given number) is a zombie, \<open>proc_waitpid\<close> returns at once, whatever the options: it
  returns the number of the first such child, stores that child's exit status, releases everything
  the child owned, takes exactly it off the list of children, and leaves the table lock free.\<close>
theorem proc_waitpid_reaps:
  assumes "children_rep ps self cs" and "tbl_lock t = 0"
    and "z \<in> set cs" and "wait_hit pid ps z" and "p_state (ps z) = ZOMBIE"
  shows "\<exists>us c vs ps'. cs = us @ c # vs \<and> wait_hit pid ps c \<and> p_state (ps c) = ZOMBIE \<and>
     proc_waitpid yield (Some self) pid options e (ps, t) =
       Some (p_pid (ps c), Some (p_exit_status (ps c), owned_by (ps c)), e, ps', t) \<and>
     children_rep ps' self (us @ vs) \<and> p_parent (ps' c) = None"
proof -
  let ?P = "\<lambda>c. wait_hit pid ps c \<and> p_state (ps c) = ZOMBIE"
  have "find ?P cs \<noteq> None" using assms(3-5) by (auto simp: find_None_iff)
  then obtain c where c: "find ?P cs = Some c" by blast
  from find_Some_split [OF this] obtain us vs where cs: "cs = us @ c # vs" and P: "?P c" by blast
  from assms(1) have ll: "llist (sib ps) (p_children (ps self)) cs" by (simp add: children_rep_def)
  from remove_child_rep [of ps self us c vs] assms(1) cs obtain ps1 where ps1:
    "proc_family_remove_child ps (Some self) (Some c) = Some ps1" "children_rep ps1 self (us @ vs)"
    "p_parent (ps1 c) = None" by auto
  have f: "find (\<lambda>c. (pid = -1 \<or> p_pid (ps c) = pid) \<and> p_state (ps c) = ZOMBIE) cs = Some c"
    using c by (simp add: wait_hit_def)
  let ?ps = "snd (snd (proc_clean ps1 (Some c)))"
  have "proc_waitpid yield (Some self) pid options e (ps, t) =
      Some (p_pid (ps c), Some (p_exit_status (ps c), owned_by (ps c)), e, ?ps, t)"
    by (subst proc_waitpid.simps)
      (simp add: assms(2) wait_scan_ok [OF ll] f ps1(1) Let_def proc_clean_def remove_child_owned [OF ps1(1)])
  moreover have "p_parent (?ps c) = None" using ps1(3) by (simp add: proc_clean_def)
  ultimately show ?thesis using cs P ps1(2) clean_children_rep by blast
qed

theorem proc_waitpid_reaps_witness:
  "\<exists>us c vs ps'. [3, 4] = us @ c # vs \<and> p_state (small_family c) = ZOMBIE \<and>
     proc_waitpid Pair (Some 1) (-1) 0 () (small_family, \<lparr>tbl_lock = 0, tbl_processes = None\<rparr>) =
       Some (p_pid (small_family c), Some (p_exit_status (small_family c), owned_by (small_family c)), (), ps',
             \<lparr>tbl_lock = 0, tbl_processes = None\<rparr>)"
proof -
  have "tbl_lock \<lparr>tbl_lock = 0, tbl_processes = None\<rparr> = 0" "(4 :: nat) \<in> set [3, 4]"
    "wait_hit (-1) small_family 4" "p_state (small_family 4) = ZOMBIE"
    by (simp_all add: wait_hit_def small_family_def)
  from proc_waitpid_reaps [OF small_family_rep(1) this, of Pair 0 "()"] show ?thesis by blast
qed

text \<open>
  No statement of the kernel ever stores \<open>ZOMBIE\<close> into \<open>state\<close>. What that makes of a wait:
\<close>

lemma waitpid_spins:
  fixes yield :: "'e \<Rightarrow> processes \<Rightarrow> 'e \<times> processes"
  assumes keep: "\<And>e ps. I ps \<Longrightarrow> I (snd (yield e ps))"
    and I: "\<And>ps. I ps \<Longrightarrow> \<exists>cs. children_rep ps self cs \<and> (\<exists>c\<in>set cs. wait_hit pid ps c) \<and>
              (\<forall>c\<in>set cs. p_state (ps c) \<noteq> ZOMBIE)"
    and opt: "options AND WNOHANG = 0" and ret: "proc_waitpid yield (Some self) pid options e s = Some r"
  shows "\<not> I (fst s)"
proof -
  have "cp = Some self \<longrightarrow> pd = pid \<longrightarrow> op = options \<longrightarrow> yd = yield \<longrightarrow> \<not> I (fst s)"
    if "proc_waitpid yd cp pd op e s = Some r" for yd cp pd op e s r
  proof (rule proc_waitpid.raw_induct [where P = "\<lambda>yd cp pd op e s r.
      cp = Some self \<longrightarrow> pd = pid \<longrightarrow> op = options \<longrightarrow> yd = yield \<longrightarrow> \<not> I (fst s)", OF _ that])
    fix f :: "('e \<Rightarrow> processes \<Rightarrow> 'e \<times> processes) \<Rightarrow> nat option \<Rightarrow> pid_t \<Rightarrow> u32 \<Rightarrow> 'e \<Rightarrow> processes \<times> proc_table
     \<Rightarrow> (pid_t \<times> (int \<times> resource list) option \<times> 'e \<times> processes \<times> proc_table) option" and yd cp pd op e s r
    assume IH: "\<And>yd cp pd op e s r. f yd cp pd op e s = Some r \<Longrightarrow>
        cp = Some self \<longrightarrow> pd = pid \<longrightarrow> op = options \<longrightarrow> yd = yield \<longrightarrow> \<not> I (fst s)"
      and eq: "(case cp of None \<Rightarrow> Some (-1, None, e, s)
      | Some self \<Rightarrow> (let ps = fst s; t = snd s in do {
          lk \<leftarrow> lock_acquire (tbl_lock t);
          (found, target) \<leftarrow> wait_scan_loop (\<lambda>c. pd = -1 \<or> p_pid (ps c) = pd)
             (\<lambda>c. p_state (ps c) = ZOMBIE) (sib ps) (p_children (ps self)) False;
          let t = t\<lparr>tbl_lock := lock_release lk\<rparr>;
          (case target of
             Some z \<Rightarrow> do {
               let status = p_exit_status (ps z);
               let child_pid = p_pid (ps z);
               ps \<leftarrow> proc_family_remove_child ps (Some self) (Some z);
               let (_, released, ps) = proc_clean ps (Some z);
               Some (child_pid, Some (status, released), e, ps, t)
             }
           | None \<Rightarrow>
               if \<not> found then Some (-1, None, e, ps, t)
               else if op AND WNOHANG \<noteq> 0 then Some (0, None, e, ps, t)
               else f yd cp pd op (fst (yd e ps)) (snd (yd e ps), t))
        })) = Some r"
    show "cp = Some self \<longrightarrow> pd = pid \<longrightarrow> op = options \<longrightarrow> yd = yield \<longrightarrow> \<not> I (fst s)"
    proof (intro impI notI)
      assume a: "cp = Some self" "pd = pid" "op = options" "yd = yield" and inv: "I (fst s)"
      from I [OF inv] obtain cs where cs: "llist (sib (fst s)) (p_children (fst s self)) cs"
        "\<exists>c\<in>set cs. wait_hit pid (fst s) c" "\<forall>c\<in>set cs. p_state (fst s c) \<noteq> ZOMBIE"
        by (auto simp: children_rep_def)
      have none: "find (\<lambda>c. (pid = -1 \<or> p_pid (fst s c) = pid) \<and> p_state (fst s c) = ZOMBIE) cs = None"
        using cs(3) by (auto simp: find_None_iff)
      have "\<exists>c\<in>set cs. pid = -1 \<or> p_pid (fst s c) = pid" using cs(2) by (simp add: wait_hit_def)
      with eq a opt none wait_scan_ok [OF cs(1)]
      have "f yield (Some self) pid options (fst (yield e (fst s))) (snd (yield e (fst s)), snd s\<lparr>tbl_lock := 0\<rparr>)
          = Some r"
        by (auto simp: Let_def bind_eq_Some_conv split: if_splits)
      from IH [OF this] have "\<not> I (snd (yield e (fst s)))" by simp
      with keep [OF inv] show False by blast
    qed
  qed
  with ret show ?thesis by blast
qed


text \<open>Waiting for a child that has not become a zombie does not return. If, whatever the other
  threads do during a yield, the caller keeps a matching child and none of its children is a
  zombie, then \<open>proc_waitpid\<close> without WNOHANG never returns (and, since no code stores ZOMBIE,
  this is every wait for an existing child).\<close>
theorem proc_waitpid_hangs:
  assumes "\<And>e ps. I ps \<Longrightarrow> I (snd (yield e ps))"
    and "\<And>ps. I ps \<Longrightarrow> \<exists>cs. children_rep ps self cs \<and> (\<exists>c\<in>set cs. wait_hit pid ps c) \<and>
           (\<forall>c\<in>set cs. p_state (ps c) \<noteq> ZOMBIE)"
    and "options AND WNOHANG = 0" and "I ps"
  shows "proc_waitpid yield (Some self) pid options e (ps, t) = None"
proof (cases "proc_waitpid yield (Some self) pid options e (ps, t)")
  case (Some r)
  with waitpid_spins [of I yield self pid options e "(ps, t)" r, OF assms(1,2,3)] assms(4)
  show ?thesis by simp
qed simp

definition living_family :: processes where
  "living_family = small_family(4 := (small_family 4)\<lparr>p_state := RUNNING\<rparr>)"

theorem proc_waitpid_hangs_witness:
  "proc_waitpid Pair (Some 1) 40 0 () (living_family, \<lparr>tbl_lock = 0, tbl_processes = None\<rparr>) = None"
proof (rule proc_waitpid_hangs [where I = "\<lambda>ps. ps = living_family"])
  fix ps assume "ps = living_family"
  moreover have "children_rep living_family 1 [3, 4]"
    by (simp add: children_rep_def living_family_def small_family_def sample_process_def)
  moreover have "\<exists>c\<in>set [3, 4]. wait_hit 40 living_family c"
    "\<forall>c\<in>set [3, 4]. p_state (living_family c) \<noteq> ZOMBIE"
    by (simp_all add: wait_hit_def living_family_def small_family_def sample_process_def)
  ultimately show "\<exists>cs. children_rep ps 1 cs \<and> (\<exists>c\<in>set cs. wait_hit 40 ps c) \<and>
     (\<forall>c\<in>set cs. p_state (ps c) \<noteq> ZOMBIE)" by blast
qed (simp_all add: WNOHANG_def)

section \<open>Forking\<close>

text \<open>The child that a successful duplication of \<open>x\<close> makes.\<close>

definition forked_child :: "fork_outcomes \<Rightarrow> nat \<Rightarrow> pid_t \<Rightarrow> process \<Rightarrow> process" where
  "forked_child fo p pid x =
     \<lparr>p_parent = Some p, p_children = None, p_siblings = p_children x, p_pid = pid, p_sid = p_sid x,
      p_pgid = p_pgid x, p_rgid = p_rgid x, p_gid = p_gid x, p_ruid = p_ruid x, p_uid = p_uid x,
      p_state = RUNNABLE, p_mem_usage = p_mem_usage x, p_threads = fo_threads fo, p_region = fo_region fo,
      p_cwd = p_cwd x, p_name = fo_name fo, p_exit_status = 0, p_sig_handlers = p_sig_handlers x,
      p_sig_mask = p_sig_mask x, p_sig_pending = 0, p_sig_lock = 0\<rparr>"

text \<open>C24: A successful fork. If every allocation and copy succeeds, the parent has a working directory
  and the locks are free, \<open>proc_fork\<close> returns the next process number and uses it up. The child is the
  newest of the parent's children, runnable, with the identifiers, directory, signal mask and handlers
  of the parent, nothing pending and no children; the rest of the parent and every other
  process are unchanged.\<close>
theorem proc_fork_correct:
  assumes "children_rep ps p cs" and "fo_child fo = Some c" and "c \<notin> set cs" and "c \<noteq> p" and "p \<notin> set cs"
    and "fo_region fo \<noteq> 0" and "fo_fds fo" and "fo_name fo \<noteq> 0" and "p_cwd (ps p) \<noteq> 0"
    and "tbl_lock t = 0" and "p_sig_lock (ps p) = 0"
  shows "\<exists>ps'. proc_fork fo (ps, i, t) (Some p) =
       Some (next_pid i, [], ps', i\<lparr>next_pid := next_pid i + 1, process_count := process_count i + 1\<rparr>, t) \<and>
     children_rep ps' p (c # cs) \<and> ps' c = forked_child fo p (next_pid i) (ps p) \<and>
     ps' p = (ps p)\<lparr>p_children := Some c\<rparr> \<and> (\<forall>q. q \<noteq> p \<and> q \<noteq> c \<longrightarrow> ps' q = ps q)"
proof -
  let ?ps = "ps(c := forked_child fo p (next_pid i) (ps p), p := (ps p)\<lparr>p_children := Some c\<rparr>)"
  have unlocked: "(ps p)\<lparr>p_children := Some c, p_sig_lock := 0\<rparr> = (ps p)\<lparr>p_children := Some c\<rparr>"
    using assms(11) by (cases "ps p") simp
  have fork: "proc_fork fo (ps, i, t) (Some p) =
     Some (next_pid i, [], ?ps, i\<lparr>next_pid := next_pid i + 1, process_count := process_count i + 1\<rparr>, t)"
    using assms(2,4,6-11)
    by (simp add: proc_fork_def proc_copy_child_pagemap_def proc_cwd_assign_def proc_alloc_def
        proc_alloc_assign_ids_def proc_assign_child_ids_def proc_copy_signal_state_def release_def
        set_siblings_def set_children_def upd_process_def forked_child_def Let_def fun_upd_twist unlocked)
  from assms(1) have ll: "llist (sib ps) (p_children (ps p)) cs" by (simp add: children_rep_def)
  have "llist (sib ?ps) (p_children (ps p)) cs = llist (sib ps) (p_children (ps p)) cs"
    by (rule lseg_sib_cong) (use assms(3,5) in auto)
  then have "children_rep ?ps p (c # cs)"
    using ll assms(1,3,4,5) by (auto simp: children_rep_def forked_child_def)
  with fork assms(4) show ?thesis by (intro exI [of _ ?ps]) simp
qed

definition good_fork :: fork_outcomes where
  "good_fork = \<lparr>fo_child = Some 5, fo_threads = 0x100, fo_region = 0x200, fo_fds = True, fo_name = 0x300\<rparr>"

definition cwd_family :: processes where
  "cwd_family = small_family(1 := (small_family 1)\<lparr>p_cwd := 0x400\<rparr>)"

theorem proc_fork_correct_witness:
  "\<exists>ps'. proc_fork good_fork (cwd_family, \<lparr>next_pid = 9, process_count = 3\<rparr>, \<lparr>tbl_lock = 0, tbl_processes = None\<rparr>)
       (Some 1) = Some (9, [], ps', \<lparr>next_pid = 10, process_count = 4\<rparr>, \<lparr>tbl_lock = 0, tbl_processes = None\<rparr>) \<and>
     children_rep ps' 1 [5, 3, 4]"
proof -
  have "children_rep cwd_family 1 [3, 4]"
    by (simp add: children_rep_def cwd_family_def small_family_def sample_process_def)
  from proc_fork_correct [OF this, of good_fork 5 "\<lparr>tbl_lock = 0, tbl_processes = None\<rparr>"
      "\<lparr>next_pid = 9, process_count = 3\<rparr>"]
  show ?thesis by (auto simp: good_fork_def cwd_family_def small_family_def sample_process_def)
qed

text \<open>
  The init process is created with a null working directory, and children inherit it: such a process
  cannot fork. What had been obtained for the child is given back, once each.
\<close>

lemma proc_fork_without_cwd:
  assumes "fo_child fo = Some c" and "c \<noteq> p" and "fo_region fo \<noteq> 0" and "p_cwd (ps p) = 0"
  shows "\<exists>ps'. proc_fork fo (ps, i, t) (Some p) =
           Some (-1, Region (fo_region fo) # release Threads (fo_threads fo), ps', i, t) \<and>
         (\<forall>q. q \<noteq> c \<longrightarrow> ps' q = ps q)"
  using assms
  by (simp add: proc_fork_def proc_copy_child_pagemap_def proc_cwd_assign_def proc_alloc_def
      proc_alloc_assign_ids_def proc_fork_failed_child_data_structures_def release_def upd_process_def Let_def)

text \<open>Cleaning a process twice releases nothing twice.\<close>

lemma proc_clean_twice:
  "fst (snd (proc_clean (snd (snd (proc_clean ps p))) p)) = []"
  by (cases p) (simp_all add: proc_clean_def owned_by_def release_def)


section \<open>The table of processes\<close>

text \<open>On a well-formed table the search finds the first process with the number.\<close>

lemma proc_get_process_by_pid_ok:
  assumes "llist (sib ps) (tbl_processes t) qs" and "tbl_lock t = 0"
  shows "proc_get_process_by_pid (ps, t) pid = Some (find (\<lambda>q. p_pid (ps q) = pid) qs, t)"
  using assms by (simp add: proc_get_process_by_pid_def find_loop_ok)

end
