(* ===== verification/Str.thy ===== *)
theory Str
  imports Memory
begin

text \<open>
  lib/str.c: the C string functions. A string is an address in byte memory; the loops walk the memory
  as the source does, so a scan of a string without a terminator goes on until it meets a zero byte
  somewhere. Numeric conversions work on 32-bit words, with the scratch arrays of the source kept
  at their length.
\<close>

section \<open>Length, comparison, search\<close>

partial_function (option) strlen_loop :: "mem \<Rightarrow> u32 \<Rightarrow> u32 option" where
  "strlen_loop m s = (if m s \<noteq> 0 then strlen_loop m (s + 1) else Some s)"

definition flopstrlen :: "mem \<Rightarrow> u32 \<Rightarrow> u32 option" where
  "flopstrlen m str = map_option (\<lambda>s. s - str) (strlen_loop m str)"

fun strnlen_loop :: "mem \<Rightarrow> u32 \<Rightarrow> nat \<Rightarrow> u32" where
  "strnlen_loop m s 0 = s"
| "strnlen_loop m s (Suc maxlen) = (if m s \<noteq> 0 then strnlen_loop m (s + 1) maxlen else s)"

definition flopstrnlen :: "mem \<Rightarrow> u32 \<Rightarrow> u32 \<Rightarrow> u32" where
  "flopstrnlen m str maxlen = strnlen_loop m str (unat maxlen) - str"

partial_function (option) flopstrcmp :: "mem \<Rightarrow> u32 \<Rightarrow> u32 \<Rightarrow> int option" where
  "flopstrcmp m s1 s2 =
     (if m s1 \<noteq> 0 \<and> m s1 = m s2 then flopstrcmp m (s1 + 1) (s2 + 1)
      else Some (uint (m s1) - uint (m s2)))"

fun strncmp_loop :: "mem \<Rightarrow> u32 \<Rightarrow> u32 \<Rightarrow> nat \<Rightarrow> int" where
  "strncmp_loop m s1 s2 0 = 0"
| "strncmp_loop m s1 s2 (Suc n) =
     (if m s1 \<noteq> 0 \<and> m s1 = m s2 then strncmp_loop m (s1 + 1) (s2 + 1) n
      else uint (m s1) - uint (m s2))"

definition flopstrncmp :: "mem \<Rightarrow> u32 \<Rightarrow> u32 \<Rightarrow> u32 \<Rightarrow> int" where
  "flopstrncmp m s1 s2 n = strncmp_loop m s1 s2 (unat n)"

text \<open>The character argument is an \<open>int\<close> that is narrowed; the result is null, 0, when it is not
  found.\<close>

partial_function (option) strchr_loop :: "mem \<Rightarrow> u32 \<Rightarrow> u8 \<Rightarrow> u32 option" where
  "strchr_loop m str c =
     (if m str \<noteq> 0 then if m str = c then Some str else strchr_loop m (str + 1) c else Some 0)"

definition flopstrchr :: "mem \<Rightarrow> u32 \<Rightarrow> u32 \<Rightarrow> u32 option" where
  "flopstrchr m str c = strchr_loop m str (ucast c)"

partial_function (option) strrchr_loop :: "mem \<Rightarrow> u32 \<Rightarrow> u8 \<Rightarrow> u32 \<Rightarrow> u32 option" where
  "strrchr_loop m str c res =
     (if m str \<noteq> 0 then strrchr_loop m (str + 1) c (if m str = c then str else res) else Some res)"

definition flopstrrchr :: "mem \<Rightarrow> u32 \<Rightarrow> u32 \<Rightarrow> u32 option" where
  "flopstrrchr m str c = strrchr_loop m str (ucast c) 0"

partial_function (option) strstr_match :: "mem \<Rightarrow> u32 \<Rightarrow> u32 \<Rightarrow> u32 option" where
  "strstr_match m h n =
     (if m h \<noteq> 0 \<and> m n \<noteq> 0 \<and> m h = m n then strstr_match m (h + 1) (n + 1) else Some n)"

partial_function (option) strstr_loop :: "mem \<Rightarrow> u32 \<Rightarrow> u32 \<Rightarrow> u32 option" where
  "strstr_loop m h needle =
     (if m h \<noteq> 0 then do {
        n \<leftarrow> strstr_match m h needle;
        if m n = 0 then Some h else strstr_loop m (h + 1) needle
      } else Some 0)"

definition flopstrstr :: "mem \<Rightarrow> u32 \<Rightarrow> u32 \<Rightarrow> u32 option" where
  "flopstrstr m haystack needle = (if m needle = 0 then Some haystack else strstr_loop m haystack needle)"

section \<open>Copying\<close>

text \<open>
  The shared loop: copy bytes until \<open>k\<close> of them are copied or the source ends; it returns the index
  it stopped at. The limits of the callers are unsigned: a size of 0 makes \<open>len - 1\<close> the largest
  word.
\<close>

fun strcopy_loop :: "mem \<Rightarrow> u32 \<Rightarrow> u32 \<Rightarrow> nat \<Rightarrow> u32 \<Rightarrow> mem \<times> u32" where
  "strcopy_loop m dst src 0 i = (m, i)"
| "strcopy_loop m dst src (Suc k) i =
     (if m (src + i) \<noteq> 0 then strcopy_loop (m(dst + i := m (src + i))) dst src k (i + 1) else (m, i))"

definition flopstrcopy :: "mem \<Rightarrow> u32 \<Rightarrow> u32 \<Rightarrow> u32 \<Rightarrow> mem" where
  "flopstrcopy m dst src len =
     (let (m, i) = strcopy_loop m dst src (unat (len - 1)) 0 in m(dst + i := 0))"

definition flopstrlcpy :: "mem \<Rightarrow> u32 \<Rightarrow> u32 \<Rightarrow> u32 \<Rightarrow> (mem \<times> u32) option" where
  "flopstrlcpy m dst src sz = do {
     let (m, i) = strcopy_loop m dst src (unat (sz - 1)) 0;
     let m = (if sz > 0 then m(dst + i := 0) else m);
     len \<leftarrow> flopstrlen m src;
     Some (m, len)
   }"

fun zero_fill :: "mem \<Rightarrow> u32 \<Rightarrow> nat \<Rightarrow> mem" where
  "zero_fill m a 0 = m"
| "zero_fill m a (Suc k) = zero_fill (m(a := 0)) (a + 1) k"

definition flopstrncpy :: "mem \<Rightarrow> u32 \<Rightarrow> u32 \<Rightarrow> u32 \<Rightarrow> mem" where
  "flopstrncpy m dst src n =
     (let (m, i) = strcopy_loop m dst src (unat n) 0 in zero_fill m (dst + i) (unat n - unat i))"

partial_function (option) strcat_loop :: "mem \<Rightarrow> u32 \<Rightarrow> u32 \<Rightarrow> mem option" where
  "strcat_loop m dst src =
     (if m src \<noteq> 0 then strcat_loop (m(dst := m src)) (dst + 1) (src + 1) else Some (m(dst := 0)))"

definition flopstrcat :: "mem \<Rightarrow> u32 \<Rightarrow> u32 \<Rightarrow> mem option" where
  "flopstrcat m dst src = do { dst \<leftarrow> strlen_loop m dst; strcat_loop m dst src }"

definition flopstrlcat :: "mem \<Rightarrow> u32 \<Rightarrow> u32 \<Rightarrow> u32 \<Rightarrow> (mem \<times> u32) option" where
  "flopstrlcat m dst src sz = do {
     dst_len \<leftarrow> flopstrlen m dst;
     let m = (if dst_len < sz - 1 then
                let (m, i) = strcopy_loop m (dst + dst_len) src (unat (sz - dst_len - 1)) 0
                in m(dst + dst_len + i := 0)
              else m);
     src_len \<leftarrow> flopstrlen m src;
     Some (m, dst_len + src_len)
   }"

definition flopstrncat_safe :: "mem \<Rightarrow> u32 \<Rightarrow> u32 \<Rightarrow> u32 \<Rightarrow> (mem \<times> int) option" where
  "flopstrncat_safe m dst src sz = do {
     dst_len \<leftarrow> flopstrlen m dst;
     src_len \<leftarrow> flopstrlen m src;
     if dst_len + src_len + 1 > sz then Some (m, -1)
     else do { m \<leftarrow> flopstrcat m dst src; Some (m, 0) }
   }"

section \<open>In-place changes\<close>

fun strrev_loop :: "mem \<Rightarrow> u32 \<Rightarrow> u32 \<Rightarrow> nat \<Rightarrow> nat \<Rightarrow> mem" where
  "strrev_loop m str len i 0 = m"
| "strrev_loop m str len i (Suc k) =
     (let temp = m (str + of_nat i);
          m = m(str + of_nat i := m (str + (len - 1 - of_nat i)));
          m = m(str + (len - 1 - of_nat i) := temp)
      in strrev_loop m str len (Suc i) k)"

definition flopstrrev :: "mem \<Rightarrow> u32 \<Rightarrow> mem option" where
  "flopstrrev m str = do {
     len \<leftarrow> flopstrlen m str;
     Some (strrev_loop m str len 0 (unat (len div 2)))
   }"

text \<open>A loop that rewrites every character, shared by the case conversions and \<open>replace_char\<close>.\<close>

partial_function (option) strmap_loop :: "(u8 \<Rightarrow> u8) \<Rightarrow> mem \<Rightarrow> u32 \<Rightarrow> mem option" where
  "strmap_loop f m str = (if m str \<noteq> 0 then strmap_loop f (m(str := f (m str))) (str + 1) else Some m)"

definition lower_char :: "u8 \<Rightarrow> u8" where
  "lower_char c = (if 65 \<le> c \<and> c \<le> 90 then c + (97 - 65) else c)"

definition upper_char :: "u8 \<Rightarrow> u8" where
  "upper_char c = (if 97 \<le> c \<and> c \<le> 122 then c - (97 - 65) else c)"

definition flopstrtolower :: "mem \<Rightarrow> u32 \<Rightarrow> mem option" where
  "flopstrtolower m str = strmap_loop lower_char m str"

definition flopstrtoupper :: "mem \<Rightarrow> u32 \<Rightarrow> mem option" where
  "flopstrtoupper m str = strmap_loop upper_char m str"

definition flopstrreplace_char :: "mem \<Rightarrow> u32 \<Rightarrow> u8 \<Rightarrow> u8 \<Rightarrow> mem option" where
  "flopstrreplace_char m str old_char new_char =
     strmap_loop (\<lambda>c. if c = old_char then new_char else c) m str"

partial_function (option) strskip_loop :: "(u8 \<Rightarrow> bool) \<Rightarrow> mem \<Rightarrow> u32 \<Rightarrow> u32 option" where
  "strskip_loop P m str = (if P (m str) then strskip_loop P m (str + 1) else Some str)"

abbreviation trim_char :: "u8 \<Rightarrow> bool" where "trim_char c \<equiv> c = 32 \<or> c = 9 \<or> c = 10"

definition flopstrlskip :: "mem \<Rightarrow> u32 \<Rightarrow> u32 option" where
  "flopstrlskip m str = strskip_loop (\<lambda>c. c = 32 \<or> c = 9 \<or> c = 10 \<or> c = 13) m str"

partial_function (option) trim_back_loop :: "mem \<Rightarrow> u32 \<Rightarrow> u32 \<Rightarrow> u32 option" where
  "trim_back_loop m start end =
     (if end > start \<and> trim_char (m end) then trim_back_loop m start (end - 1) else Some end)"

definition flopstrtrim :: "mem \<Rightarrow> u32 \<Rightarrow> (mem \<times> u32) option" where
  "flopstrtrim m str = do {
     start \<leftarrow> strskip_loop trim_char m str;
     len \<leftarrow> flopstrlen m start;
     last_char \<leftarrow> trim_back_loop m start (start + len - 1);
     Some (m(last_char + 1 := 0), start)
   }"


section \<open>Tokens\<close>

text \<open>Skipping while the character is, or is not, one of the delimiters.\<close>

definition is_delim :: "mem \<Rightarrow> u32 \<Rightarrow> u8 \<Rightarrow> bool option" where
  "is_delim m delim c = map_option (\<lambda>r. r \<noteq> 0) (flopstrchr m delim (ucast c))"

partial_function (option) tok_skip_loop :: "bool \<Rightarrow> mem \<Rightarrow> u32 \<Rightarrow> u32 \<Rightarrow> u32 option" where
  "tok_skip_loop want m str delim =
     (if m str \<noteq> 0 then do {
        d \<leftarrow> is_delim m delim (m str);
        if d = want then tok_skip_loop want m (str + 1) delim else Some str
      } else Some str)"

text \<open>The result is the token, 0 when there is none, and the new position, 0 at the end.\<close>

definition strtok_from :: "mem \<Rightarrow> u32 \<Rightarrow> u32 \<Rightarrow> (u32 \<times> u32 \<times> mem) option" where
  "strtok_from m str delim = do {
     str \<leftarrow> tok_skip_loop True m str delim;
     if m str = 0 then Some (0, 0, m)
     else do {
       let token_start = str;
       str \<leftarrow> tok_skip_loop False m str delim;
       if m str \<noteq> 0 then Some (token_start, str + 1, m(str := 0)) else Some (token_start, str, m)
     }
   }"

text \<open>\<open>flopstrtok\<close> keeps the position in a static variable, \<open>flopstrtok_r\<close> in the caller's, and does
  not test it for null.\<close>

definition flopstrtok :: "mem \<Rightarrow> u32 \<Rightarrow> u32 \<Rightarrow> u32 \<Rightarrow> (u32 \<times> u32 \<times> mem) option" where
  "flopstrtok m tok_next str delim =
     (let tok_next = (if str \<noteq> 0 then str else tok_next)
      in if tok_next = 0 then Some (0, 0, m) else strtok_from m tok_next delim)"

definition flopstrtok_r :: "mem \<Rightarrow> u32 \<Rightarrow> u32 \<Rightarrow> u32 \<Rightarrow> (u32 \<times> u32 \<times> mem) option" where
  "flopstrtok_r m saveptr str delim = strtok_from m (if str = 0 then saveptr else str) delim"

definition flopstrwordlen :: "mem \<Rightarrow> u32 \<Rightarrow> u32 \<Rightarrow> u32 option" where
  "flopstrwordlen m str delim = map_option (\<lambda>e. e - str) (tok_skip_loop False m str delim)"

section \<open>Numbers\<close>

type_synonym s32 = "32 word"

definition digit_char :: "u8 \<Rightarrow> bool" where
  "digit_char c \<longleftrightarrow> 48 \<le> c \<and> c \<le> 57"

text \<open>The accumulation wraps at 32 bits.\<close>

partial_function (option) atoi_loop :: "mem \<Rightarrow> u32 \<Rightarrow> s32 \<Rightarrow> s32 option" where
  "atoi_loop m str res =
     (if digit_char (m str) then atoi_loop m (str + 1) (res * 10 + (ucast (m str) - 48)) else Some res)"

definition flopatoi :: "mem \<Rightarrow> u32 \<Rightarrow> s32 option" where
  "flopatoi m str =
     (if str = 0 then Some 0
      else do {
        str \<leftarrow> strskip_loop (\<lambda>c. c = 32 \<or> c = 9 \<or> c = 10 \<or> c = 13 \<or> c = 11 \<or> c = 12) m str;
        let (sign, str) = (if m str = 45 then (-1, str + 1) else if m str = 43 then (1, str + 1) else (1, str));
        res \<leftarrow> atoi_loop m str 0;
        Some (res * sign)
      })"

partial_function (option) isnum_loop :: "mem \<Rightarrow> u32 \<Rightarrow> bool option" where
  "isnum_loop m str =
     (if m str \<noteq> 0 then if \<not> digit_char (m str) then Some False else isnum_loop m (str + 1)
      else Some True)"

definition flopstrisnum :: "mem \<Rightarrow> u32 \<Rightarrow> bool option" where
  "flopstrisnum m str = isnum_loop m (if m str = 45 \<or> m str = 43 then str + 1 else str)"

text \<open>
  The digits of a number, least significant first, as they are put into the scratch array; the
  number is the magnitude, an unsigned value below $2^{31}$ in \<open>flopitoa\<close>.
\<close>

fun digits :: "nat \<Rightarrow> nat \<Rightarrow> nat list" where
  "digits b n = (if b < 2 \<or> n = 0 then [] else (n mod b) # digits b (n div b))"

declare digits.simps [simp del]

text \<open>Writing the bytes of a list, and the reversed scratch array, into the caller's buffer.\<close>

fun put_bytes :: "mem \<Rightarrow> u32 \<Rightarrow> u8 list \<Rightarrow> mem" where
  "put_bytes m a [] = m"
| "put_bytes m a (b # bs) = put_bytes (m(a := b)) (a + 1) bs"

text \<open>
  \<open>temp\<close> has 12 places; a width that fills more is out of bounds. \<open>value\<close> is the 32-bit pattern of the
  \<open>int\<close>.
\<close>

definition flopitoa :: "mem \<Rightarrow> s32 \<Rightarrow> u32 \<Rightarrow> int \<Rightarrow> (mem \<times> int) option" where
  "flopitoa m value buffer width =
     (if value = 0x80000000 then
        (let s = [45, 50, 49, 52, 55, 52, 56, 51, 54, 52, 56]
         in Some (put_bytes m buffer (s @ [0]), int (length s)))
      else do {
        let negative = (sint value < 0);
        let v = nat \<bar>sint value\<bar>;
        let temp = map (\<lambda>d. 48 + of_nat d) (if v = 0 then [0] else digits 10 v);
        let padding = width - int (length temp) - (if negative then 1 else 0);
        let temp = temp @ replicate (nat padding) 48;
        guard (length temp \<le> 12);
        let out = (if negative then [45] else []) @ rev temp;
        Some (put_bytes m buffer (out @ [0]), int (length out))
      })"

definition hex_digit :: "bool \<Rightarrow> nat \<Rightarrow> u8" where
  "hex_digit upper d = (if d < 10 then 48 + of_nat d else (if upper then 65 else 97) + of_nat (d - 10))"

text \<open>
  For a zero value the source advances the output index before anything has been written there.
\<close>

definition flopitoa_hex :: "mem \<Rightarrow> u32 \<Rightarrow> u32 \<Rightarrow> int \<Rightarrow> bool \<Rightarrow> (mem \<times> int) option" where
  "flopitoa_hex m value buffer width is_upper = do {
     let len = (if value = 0 then 1 else 0 :: nat);
     let temp = map (hex_digit is_upper) (digits 16 (unat value));
     let temp = temp @ replicate (nat (width - int (length temp))) 48;
     guard (length temp \<le> 9);
     Some (put_bytes m (buffer + of_nat len) (rev temp @ [0]), int (len + length temp))
   }"

definition flopitoa_bin :: "mem \<Rightarrow> u32 \<Rightarrow> u32 \<Rightarrow> int \<Rightarrow> mem option" where
  "flopitoa_bin m value buffer width = do {
     let (m, len) = (if value = 0 then (m(buffer := 48), 1) else (m, 0 :: nat));
     let temp = map (\<lambda>d. 48 + of_nat d) (digits 2 (unat value));
     let temp = temp @ replicate (nat (width - int (length temp))) 48;
     guard (length temp \<le> 33);
     Some (put_bytes m (buffer + of_nat len) (rev temp @ [0]))
   }"

definition flopintlen :: "s32 \<Rightarrow> nat" where
  "flopintlen value = (if sint value \<le> 0 then 1 else 0) + length (digits 10 (nat \<bar>sint value\<bar>))"

text \<open>The generator: the new seed and the number.\<close>

definition floprand :: "u32 \<Rightarrow> u32 \<times> u32" where
  "floprand seed = (let seed = seed * 1103515245 + 12345 in (seed, (seed div 65536) mod 32768))"

end
