(* ===== verification/StrProps.thy ===== *)
theory StrProps
  imports Str
begin

text \<open>
  What the string functions do: strings as lists of nonzero bytes (\<open>cstr\<close>), and the correctness of
  length, comparison, copying and of the conversions between numbers and text.
\<close>

section \<open>Strings in memory\<close>

primrec cstr :: "mem \<Rightarrow> u32 \<Rightarrow> u8 list \<Rightarrow> bool" where
  "cstr m a [] \<longleftrightarrow> m a = 0"
| "cstr m a (c # s) \<longleftrightarrow> c \<noteq> 0 \<and> m a = c \<and> cstr m (a + 1) s"

lemma cstr_append: "cstr m a (s @ t) \<longleftrightarrow> (\<forall>c\<in>set s. c \<noteq> 0) \<and>
    (\<forall>i<length s. m (a + of_nat i) = s ! i) \<and> cstr m (a + of_nat (length s)) t"
proof (induction s arbitrary: a)
  case (Cons c s)
  have "(\<forall>i<length (c # s). m (a + of_nat i) = (c # s) ! i) \<longleftrightarrow>
      m a = c \<and> (\<forall>i<length s. m (a + 1 + of_nat i) = s ! i)"
    unfolding length_Cons All_less_Suc2 by (simp add: add.assoc)
  then show ?case by (auto simp: Cons.IH add.assoc)
qed simp

lemma cstr_iff: "cstr m a s \<longleftrightarrow> 0 \<notin> set s \<and> (\<forall>i<length s. m (a + of_nat i) = s ! i) \<and>
    m (a + of_nat (length s)) = 0"
  using cstr_append [of m a s "[]"] by auto

lemma cstr_det: "cstr m a s \<Longrightarrow> cstr m a t \<Longrightarrow> s = t"
proof (induction s arbitrary: a t)
  case Nil
  then show ?case by (cases t) auto
next
  case (Cons c s)
  then show ?case by (cases t) auto
qed

lemma cstr_cong:
  "(\<And>i. i \<le> length s \<Longrightarrow> m' (a + of_nat i) = m (a + of_nat i)) \<Longrightarrow> cstr m' a s = cstr m a s"
  by (auto simp: cstr_iff)

lemma strlen_loop_cstr: "cstr m a s \<Longrightarrow> strlen_loop m a = Some (a + of_nat (length s))"
proof (induction s arbitrary: a)
  case Nil
  then show ?case by (simp add: strlen_loop.simps)
next
  case (Cons c s)
  then show ?case by (subst strlen_loop.simps) (simp add: add.assoc)
qed

lemma flopstrlen_cstr: "cstr m a s \<Longrightarrow> flopstrlen m a = Some (of_nat (length s))"
  by (simp add: flopstrlen_def strlen_loop_cstr)

section \<open>Writing bytes\<close>

lemma put_bytes_append:
  "put_bytes m a (xs @ ys) = put_bytes (put_bytes m a xs) (a + of_nat (length xs)) ys"
  by (induction xs arbitrary: m a) (simp_all add: add.assoc)

lemma put_bytes_other: "(\<And>i. i < length bs \<Longrightarrow> x \<noteq> a + of_nat i) \<Longrightarrow> put_bytes m a bs x = m x"
proof (induction bs arbitrary: m a)
  case (Cons b bs)
  have "x \<noteq> a + 1 + of_nat i" if "i < length bs" for i
    using Cons.prems [of "Suc i"] that by (simp add: add.assoc)
  then have "put_bytes (m(a := b)) (a + 1) bs x = (m(a := b)) x" by (rule Cons.IH)
  also have "\<dots> = m x" using Cons.prems [of 0] by simp
  finally show ?case by simp
qed simp

lemma addr_shift_neq: "i < j \<Longrightarrow> j < 4294967296 \<Longrightarrow> (a :: u32) + of_nat i \<noteq> a + of_nat j"
  using of_nat_u32_inj [of i j] by simp

lemma put_bytes_nth:
  "length bs \<le> 4294967296 \<Longrightarrow> i < length bs \<Longrightarrow> put_bytes m a bs (a + of_nat i) = bs ! i"
proof (induction bs arbitrary: m a i)
  case (Cons b bs)
  show ?case
  proof (cases i)
    case 0
    have "a \<noteq> a + 1 + of_nat j" if "j < length bs" for j
      using addr_shift_neq [of 0 "Suc j" a] Cons.prems(1) that by (simp add: add.assoc)
    then have "put_bytes (m(a := b)) (a + 1) bs a = (m(a := b)) a" by (rule put_bytes_other)
    with 0 show ?thesis by simp
  next
    case (Suc j)
    have "put_bytes (m(a := b)) (a + 1) bs (a + 1 + of_nat j) = bs ! j"
      by (rule Cons.IH) (use Cons.prems Suc in simp_all)
    with Suc show ?thesis by (simp add: add.assoc)
  qed
qed simp

lemma put_bytes_cstr:
  assumes "length s < 4294967296" and "0 \<notin> set s"
  shows "cstr (put_bytes m a (s @ [0])) a s"
  unfolding cstr_iff
proof (intro conjI allI impI)
  fix i assume i: "i < length s"
  with assms(1) have "put_bytes m a (s @ [0]) (a + of_nat i) = (s @ [0]) ! i"
    by (intro put_bytes_nth) simp_all
  with i show "put_bytes m a (s @ [0]) (a + of_nat i) = s ! i" by (simp add: nth_append)
next
  have "put_bytes m a (s @ [0]) (a + of_nat (length s)) = (s @ [0]) ! length s"
    using assms(1) by (intro put_bytes_nth) simp_all
  then show "put_bytes m a (s @ [0]) (a + of_nat (length s)) = 0" by simp
qed (rule assms(2))

section \<open>Copying\<close>

text \<open>The first \<open>n\<close> bytes at \<open>d\<close> and the string \<open>s\<close> with its terminator at \<open>a\<close> do not overlap.\<close>

definition apart :: "u32 \<Rightarrow> nat \<Rightarrow> u32 \<Rightarrow> nat \<Rightarrow> bool" where
  "apart d n a k \<longleftrightarrow> (\<forall>i<n. \<forall>j<k. d + of_nat i \<noteq> a + of_nat j)"

lemma apart_Suc: "apart d (Suc n) a (Suc k) \<Longrightarrow> apart (d + 1) n (a + 1) k"
  unfolding apart_def
proof (intro allI impI)
  fix i j assume "\<forall>i<Suc n. \<forall>j<Suc k. d + of_nat i \<noteq> a + of_nat j" and "i < n" and "j < k"
  then have "d + of_nat (Suc i) \<noteq> a + of_nat (Suc j)" by blast
  then show "d + 1 + of_nat i \<noteq> a + 1 + of_nat j" by (simp add: add.assoc)
qed

lemma strcopy_loop_cstr:
  "cstr m (src + i) s \<Longrightarrow> apart (dst + i) (min k (length s)) (src + i) (Suc (length s)) \<Longrightarrow>
   strcopy_loop m dst src k i = (put_bytes m (dst + i) (take k s), i + of_nat (min k (length s)))"
proof (induction k arbitrary: m i s)
  case (Suc k)
  show ?case
  proof (cases s)
    case Nil
    with Suc.prems show ?thesis by simp
  next
    case (Cons c t)
    let ?m = "m(dst + i := c)"
    from Cons Suc.prems(2) have ap: "apart (dst + i) (Suc (min k (length t))) (src + i) (Suc (Suc (length t)))"
      by simp
    have "dst + i \<noteq> src + i + 1 + of_nat j" if "j \<le> length t" for j
    proof -
      from ap that have "dst + i + of_nat 0 \<noteq> src + i + of_nat (Suc j)"
        unfolding apart_def by (meson less_Suc_eq_le not_less_eq zero_less_Suc)
      then show ?thesis by (simp add: add.assoc)
    qed
    then have "cstr ?m (src + i + 1) t = cstr m (src + i + 1) t" by (intro cstr_cong) auto
    with Cons Suc.prems(1) have "cstr ?m (src + (i + 1)) t" by (simp add: add.assoc)
    moreover have "apart (dst + (i + 1)) (min k (length t)) (src + (i + 1)) (Suc (length t))"
      using apart_Suc [OF ap] by (simp add: add.assoc)
    ultimately have "strcopy_loop ?m dst src k (i + 1) =
        (put_bytes ?m (dst + (i + 1)) (take k t), (i + 1) + of_nat (min k (length t)))" by (rule Suc.IH)
    with Cons Suc.prems(1) show ?thesis by (simp add: add.assoc)
  qed
qed simp

lemma flopstrcopy_puts:
  assumes "cstr m src s" and "0 < len" and "apart dst (min (unat len - 1) (length s)) src (Suc (length s))"
  shows "flopstrcopy m dst src len = put_bytes m dst (take (unat len - 1) s @ [0])"
proof -
  have u: "unat (len - 1) = unat len - 1" using assms(2) by (simp add: unat_minus_one word_gt_0)
  have "strcopy_loop m dst src (unat (len - 1)) 0 =
      (put_bytes m dst (take (unat len - 1) s), of_nat (min (unat len - 1) (length s)))"
    using strcopy_loop_cstr [of m src 0 s dst "unat len - 1"] assms(1,3) unfolding u by simp
  then show ?thesis by (simp add: flopstrcopy_def put_bytes_append min.commute)
qed

text \<open>\<open>flopstrcopy\<close> copies a string with truncation. For a positive buffer size and a destination
  that does not overlap the source, the destination afterwards holds the longest prefix of the source
  that fits with its terminator, and no byte outside that many bytes and the terminator
  changes.\<close>
theorem flopstrcopy_correct:
  assumes "cstr m src s" and "0 < len" and "apart dst (min (unat len - 1) (length s)) src (Suc (length s))"
  shows "cstr (flopstrcopy m dst src len) dst (take (unat len - 1) s) \<and>
     (\<forall>x. (\<forall>i\<le>min (unat len - 1) (length s). x \<noteq> dst + of_nat i) \<longrightarrow> flopstrcopy m dst src len x = m x)"
proof -
  let ?t = "take (unat len - 1) s"
  have "length ?t \<le> unat len - 1" by simp
  also have "\<dots> < 4294967296" using unat_less_2p32 [of len] by linarith
  finally have len: "length ?t < 4294967296" .
  have "0 \<notin> set ?t" using assms(1) by (auto simp: cstr_iff dest: in_set_takeD)
  note c = put_bytes_cstr [OF len this, of m dst]
  have "put_bytes m dst (?t @ [0]) x = m x"
    if "\<forall>i\<le>min (unat len - 1) (length s). x \<noteq> dst + of_nat i" for x
  proof (rule put_bytes_other)
    fix i assume "i < length (?t @ [0])"
    moreover have "length (?t @ [0]) = Suc (min (unat len - 1) (length s))" by (simp add: min.commute)
    ultimately have "i \<le> min (unat len - 1) (length s)" by (simp only: less_Suc_eq_le)
    with that show "x \<noteq> dst + of_nat i" by blast
  qed
  with c show ?thesis unfolding flopstrcopy_puts [OF assms] by blast
qed


text \<open>The memory with the string \<open>s\<close> at \<open>a\<close> and zeros elsewhere, for examples.\<close>

definition mem_of :: "u32 \<Rightarrow> u8 list \<Rightarrow> mem" where
  "mem_of a s = put_bytes (\<lambda>_. 0) a (s @ [0])"

lemma mem_of_cstr: "length s < 4294967296 \<Longrightarrow> 0 \<notin> set s \<Longrightarrow> cstr (mem_of a s) a s"
  unfolding mem_of_def by (rule put_bytes_cstr)

theorem flopstrcopy_correct_witness:
  "cstr (flopstrcopy (mem_of 0x1000 [104, 105, 33]) 0x2000 0x1000 3) 0x2000 [104, 105]"
proof -
  have "cstr (mem_of 0x1000 [104, 105, 33]) 0x1000 [104, 105, 33]" by (rule mem_of_cstr) simp_all
  moreover have "(0 :: u32) < 3" by simp
  moreover have "apart 0x2000 (min (unat (3 :: u32) - 1) (length [104, 105, 33 :: u8])) 0x1000 (Suc (length [104, 105, 33 :: u8]))"
    unfolding apart_def by (simp add: All_less_Suc2 All_less_Suc)
  ultimately have "cstr (flopstrcopy (mem_of 0x1000 [104, 105, 33]) 0x2000 0x1000 3) 0x2000
      (take (unat (3 :: u32) - 1) [104, 105, 33])"
    by (rule flopstrcopy_correct [THEN conjunct1])
  then show ?thesis by simp
qed

section \<open>Comparison\<close>

text \<open>The character in which two strings first differ, the terminator counting as one.\<close>

fun first_diff :: "u8 list \<Rightarrow> u8 list \<Rightarrow> u8 \<times> u8" where
  "first_diff [] [] = (0, 0)"
| "first_diff [] (d # t) = (0, d)"
| "first_diff (c # s) [] = (c, 0)"
| "first_diff (c # s) (d # t) = (if c = d then first_diff s t else (c, d))"

lemma first_diff_eq:
  "0 \<notin> set s \<Longrightarrow> 0 \<notin> set t \<Longrightarrow> fst (first_diff s t) = snd (first_diff s t) \<longleftrightarrow> s = t"
  by (induction s t rule: first_diff.induct) auto

lemma flopstrcmp_cstr:
  "cstr m a s \<Longrightarrow> cstr m b t \<Longrightarrow>
   flopstrcmp m a b = Some (uint (fst (first_diff s t)) - uint (snd (first_diff s t)))"
proof (induction s t arbitrary: a b rule: first_diff.induct)
  case (4 c s d t)
  then show ?case by (subst flopstrcmp.simps) auto
qed (subst flopstrcmp.simps, auto)+

text \<open>\<open>flopstrcmp\<close> compares. On two strings it returns the difference of the first pair of
  characters (as unsigned bytes, the terminator included) in which they differ, and 0 if and
  only if they are equal.\<close>
theorem flopstrcmp_correct:
  assumes "cstr m a s" and "cstr m b t"
  shows "flopstrcmp m a b = Some (uint (fst (first_diff s t)) - uint (snd (first_diff s t))) \<and>
     (flopstrcmp m a b = Some 0 \<longleftrightarrow> s = t)"
proof -
  have "fst (first_diff s t) = snd (first_diff s t) \<longleftrightarrow> s = t"
    using assms by (intro first_diff_eq) (auto simp: cstr_iff)
  then show ?thesis using flopstrcmp_cstr [OF assms] by (simp add: word_uint_eq_iff [symmetric])
qed

theorem flopstrcmp_correct_witness:
  "flopstrcmp (mem_of 0x1000 [97, 98]) 0x1000 0x1001 = Some (-1)"
proof -
  have s: "cstr (mem_of 0x1000 [97, 98]) 0x1000 [97, 98]" by (rule mem_of_cstr) simp_all
  then have t: "cstr (mem_of 0x1000 [97, 98]) 0x1001 [98]" by simp
  from flopstrcmp_correct [OF s t] show ?thesis by simp
qed


section \<open>Numbers to text and back\<close>

lemma digits_step: "1 < b \<Longrightarrow> 0 < n \<Longrightarrow> digits b n = n mod b # digits b (n div b)"
  by (subst digits.simps) simp

lemma digits_0 [simp]: "digits b 0 = []"
  by (subst digits.simps) simp

lemma digits_less: "1 < b \<Longrightarrow> d \<in> set (digits b n) \<Longrightarrow> d < b"
proof (induction b n rule: digits.induct)
  case (1 b n)
  show ?case
  proof (cases "n = 0")
    case False
    with 1 show ?thesis by (auto simp: digits_step)
  qed (use 1 in simp)
qed

lemma length_digits: "1 < b \<Longrightarrow> n < b ^ k \<Longrightarrow> length (digits b n) \<le> k"
proof (induction k arbitrary: n)
  case (Suc k)
  show ?case
  proof (cases "n = 0")
    case False
    from Suc.prems have "n div b < b ^ k" by (simp add: less_mult_imp_div_less mult.commute)
    with Suc False show ?thesis by (simp add: digits_step)
  qed simp
qed simp

text \<open>The value that a list of decimal digits denotes to the accumulating loop.\<close>

definition accumulate :: "s32 \<Rightarrow> nat list \<Rightarrow> s32" where
  "accumulate r ds = foldl (\<lambda>r d. r * 10 + of_nat d) r ds"

lemma accumulate_digits: "0 < n \<Longrightarrow> accumulate 0 (rev (digits 10 n)) = of_nat n"
proof (induction "10 :: nat" n rule: digits.induct)
  case (1 n)
  show ?case
  proof (cases "n div 10 = 0")
    case True
    with 1 have "digits 10 n = [n mod 10]" "n mod 10 = n" by (simp_all add: digits_step)
    then show ?thesis by (simp add: accumulate_def)
  next
    case False
    with 1 have IH: "accumulate 0 (rev (digits 10 (n div 10))) = of_nat (n div 10)" by simp
    have "accumulate 0 (rev (digits 10 n)) = accumulate 0 (rev (digits 10 (n div 10))) * 10 + of_nat (n mod 10)"
      using 1(2) by (simp add: digits_step accumulate_def)
    also have "\<dots> = of_nat (n div 10 * 10 + n mod 10)" unfolding IH by (simp only: of_nat_add of_nat_mult of_nat_numeral)
    finally show ?thesis by simp
  qed
qed

definition dec_char :: "nat \<Rightarrow> u8" where
  "dec_char d = 48 + of_nat d"

lemma dec_char_props:
  assumes "d < 10"
  shows "digit_char (dec_char d)" "ucast (dec_char d) - 48 = (of_nat d :: s32)" "dec_char d \<noteq> 0"
    "dec_char d \<noteq> 45" "dec_char d \<noteq> 43" "dec_char d \<notin> {32, 9, 10, 13, 11, 12}"
proof -
  have "d \<in> {0, 1, 2, 3, 4, 5, 6, 7, 8, 9}" using assms by auto
  then show "digit_char (dec_char d)" "ucast (dec_char d) - 48 = (of_nat d :: s32)" "dec_char d \<noteq> 0"
    "dec_char d \<noteq> 45" "dec_char d \<noteq> 43" "dec_char d \<notin> {32, 9, 10, 13, 11, 12}"
    by (auto simp: dec_char_def digit_char_def)
qed

lemma atoi_loop_digits:
  "cstr m a (map dec_char ds) \<Longrightarrow> \<forall>d\<in>set ds. d < 10 \<Longrightarrow> atoi_loop m a r = Some (accumulate r ds)"
proof (induction ds arbitrary: a r)
  case Nil
  then show ?case by (subst atoi_loop.simps) (simp add: digit_char_def accumulate_def)
next
  case (Cons d ds)
  from Cons.prems have d: "d < 10" and md: "m a = dec_char d" and rest: "cstr m (a + 1) (map dec_char ds)"
    by simp_all
  have "atoi_loop m a r = atoi_loop m (a + 1) (r * 10 + of_nat d)"
    by (subst atoi_loop.simps) (simp add: md dec_char_props [OF d])
  also have "\<dots> = Some (accumulate (r * 10 + of_nat d) ds)"
    by (rule Cons.IH [OF rest]) (use Cons.prems in simp)
  finally show ?case by (simp add: accumulate_def)
qed

lemma strskip_loop_stop: "\<not> P (m a) \<Longrightarrow> strskip_loop P m a = Some a"
  by (subst strskip_loop.simps) simp

lemma flopatoi_digits:
  assumes "cstr m a ((if neg then [45] else []) @ map dec_char (d # ds))" and "\<forall>e\<in>set (d # ds). e < 10"
    and "a \<noteq> 0"
  shows "flopatoi m a = Some (accumulate 0 (d # ds) * (if neg then -1 else 1))"
proof -
  from assms(2) have d: "d < 10" by simp
  show ?thesis
  proof (cases neg)
    case True
    with assms(1) have m: "m a = 45" and rest: "cstr m (a + 1) (map dec_char (d # ds))" by simp_all
    have "strskip_loop (\<lambda>c. c = 32 \<or> c = 9 \<or> c = 10 \<or> c = 13 \<or> c = 11 \<or> c = 12) m a = Some a"
      by (rule strskip_loop_stop) (simp add: m)
    with True m assms(3) atoi_loop_digits [OF rest assms(2)] show ?thesis by (simp add: flopatoi_def)
  next
    case False
    with assms(1) have m: "m a = dec_char d" and rest: "cstr m a (map dec_char (d # ds))" by simp_all
    have "strskip_loop (\<lambda>c. c = 32 \<or> c = 9 \<or> c = 10 \<or> c = 13 \<or> c = 11 \<or> c = 12) m a = Some a"
      by (rule strskip_loop_stop) (use dec_char_props(6) [OF d] m in auto)
    with False m assms(3) atoi_loop_digits [OF rest assms(2)] dec_char_props(4,5) [OF d]
    show ?thesis by (simp add: flopatoi_def)
  qed
qed


lemma signed_magnitude:
  fixes v :: s32
  shows "of_nat (nat \<bar>sint v\<bar>) * (if sint v < 0 then -1 else 1) = v"
proof (cases "sint v < 0")
  case True
  then have "(of_nat (nat \<bar>sint v\<bar>) :: s32) = of_int (- sint v)" by simp
  also have "\<dots> = - v" by simp
  finally show ?thesis using True by simp
qed simp

lemma magnitude_bound:
  fixes v :: s32
  shows "nat \<bar>sint v\<bar> \<le> 2147483648"
  using sint_range_size [of v] by (auto simp: word_size abs_if)

text \<open>The digits \<open>flopitoa\<close> writes, most significant first.\<close>

definition dec_digits :: "nat \<Rightarrow> nat list" where
  "dec_digits n = (if n = 0 then [0] else rev (digits 10 n))"

lemma dec_digits_props:
  shows "dec_digits n \<noteq> []" "\<forall>d\<in>set (dec_digits n). d < 10" "accumulate 0 (dec_digits n) = of_nat n"
proof -
  show "dec_digits n \<noteq> []" by (simp add: dec_digits_def digits_step)
  show "\<forall>d\<in>set (dec_digits n). d < 10" using digits_less [of 10 _ n] by (auto simp: dec_digits_def)
  show "accumulate 0 (dec_digits n) = of_nat n"
    using accumulate_digits [of n] by (simp add: dec_digits_def accumulate_def)
qed

lemma length_dec_digits: "n \<le> 2147483648 \<Longrightarrow> length (dec_digits n) \<le> 10"
  using length_digits [of 10 n 10] by (simp add: dec_digits_def)

lemma flopitoa_text:
  assumes "v \<noteq> 0x80000000"
  shows "\<exists>s. flopitoa m v buf 0 = Some (put_bytes m buf (s @ [0]), int (length s)) \<and>
     s = (if sint v < 0 then [45] else []) @ map dec_char (dec_digits (nat \<bar>sint v\<bar>))"
proof -
  let ?n = "nat \<bar>sint v\<bar>"
  let ?temp = "map (\<lambda>d. 48 + of_nat d) (if ?n = 0 then [0] else digits 10 ?n) :: u8 list"
  have t: "rev ?temp = map dec_char (dec_digits ?n)"
    by (simp add: dec_digits_def dec_char_def rev_map)
  have "length ?temp = length (dec_digits ?n)" by (simp add: dec_digits_def)
  with length_dec_digits [OF magnitude_bound [of v]] have len: "length ?temp \<le> 10" by simp
  have pad: "nat (0 - int (length ?temp) - (if sint v < 0 then 1 else 0)) = 0" by simp
  have "flopitoa m v buf 0 =
     (let out = (if sint v < 0 then [45] else []) @ rev ?temp
      in Some (put_bytes m buf (out @ [0]), int (length out)))"
    unfolding flopitoa_def Let_def pad using assms len by (simp add: rev_map)
  then show ?thesis unfolding t Let_def by blast
qed

text \<open>The smallest value, which the source prints from a constant, follows the same rule.\<close>

definition int_text :: "s32 \<Rightarrow> u8 list" where
  "int_text v = (if sint v < 0 then [45] else []) @ map dec_char (dec_digits (nat \<bar>sint v\<bar>))"

lemma flopitoa_puts: "flopitoa m v buf 0 = Some (put_bytes m buf (int_text v @ [0]), int (length (int_text v)))"
proof (cases "v = 0x80000000")
  case True
  have "sint v = -2147483648" unfolding True by simp
  moreover have "dec_digits 2147483648 = [2, 1, 4, 7, 4, 8, 3, 6, 4, 8]"
    by (simp add: dec_digits_def digits_step)
  ultimately have "int_text v = [45, 50, 49, 52, 55, 52, 56, 51, 54, 52, 56]"
    by (simp add: int_text_def dec_char_def)
  with True show ?thesis by (simp add: flopitoa_def)
next
  case False
  from flopitoa_text [OF this, of m buf] show ?thesis by (auto simp: int_text_def)
qed

lemma length_int_text: "1 \<le> length (int_text v)" "length (int_text v) \<le> 11"
proof -
  have "length (dec_digits (nat \<bar>sint v\<bar>)) \<le> 10" by (rule length_dec_digits) (rule magnitude_bound)
  then show "length (int_text v) \<le> 11" unfolding int_text_def length_append length_map by (cases "sint v < 0") simp_all
  show "1 \<le> length (int_text v)"
    using dec_digits_props(1) [of "nat \<bar>sint v\<bar>"] by (cases "dec_digits (nat \<bar>sint v\<bar>)") (simp_all add: int_text_def)
qed

lemma int_text_nonzero: "0 \<notin> set (int_text v)"
  using dec_digits_props(2) [of "nat \<bar>sint v\<bar>"] dec_char_props(3) by (fastforce simp: int_text_def)

text \<open>C26: Printing and parsing a number are inverse. For every 32-bit value, the smallest included,
  \<open>flopitoa\<close> (with no minimum width) stays within its scratch array and returns the length of the
  string it has written into the buffer, and \<open>flopatoi\<close> of that string is the value again.\<close>
theorem flopitoa_atoi_roundtrip:
  assumes "buf \<noteq> 0"
  shows "\<exists>m' len. flopitoa m v buf 0 = Some (m', len) \<and> flopatoi m' buf = Some v \<and>
     map_option uint (flopstrlen m' buf) = Some len \<and> 1 \<le> len \<and> len \<le> 11"
proof -
  let ?n = "nat \<bar>sint v\<bar>"
  let ?s = "int_text v"
  have len: "length ?s \<le> 11" and "1 \<le> length ?s" by (rule length_int_text)+
  have "0 \<notin> set ?s" by (rule int_text_nonzero)
  with len have c: "cstr (put_bytes m buf (?s @ [0])) buf ?s" by (intro put_bytes_cstr) simp_all
  obtain d ds where dd: "dec_digits ?n = d # ds" using dec_digits_props(1) [of ?n] by (cases "dec_digits ?n") auto
  from c have "cstr (put_bytes m buf (?s @ [0])) buf ((if sint v < 0 then [45] else []) @ map dec_char (d # ds))"
    using dd by (simp add: int_text_def)
  moreover have "\<forall>e\<in>set (d # ds). e < 10" using dec_digits_props(2) [of ?n] dd by simp
  ultimately have "flopatoi (put_bytes m buf (?s @ [0])) buf =
      Some (accumulate 0 (d # ds) * (if sint v < 0 then -1 else 1))"
    using assms by (rule flopatoi_digits)
  also have "\<dots> = Some v"
    unfolding dd [symmetric] dec_digits_props(3) signed_magnitude by (rule refl)
  finally have atoi: "flopatoi (put_bytes m buf (?s @ [0])) buf = Some v" .
  have "uint (of_nat (length ?s) :: u32) = int (length ?s)"
    using len unat_of_nat_u32 [of "length ?s"] by (simp add: uint_nat)
  with flopstrlen_cstr [OF c] have "map_option uint (flopstrlen (put_bytes m buf (?s @ [0])) buf) = Some (int (length ?s))"
    by simp
  with flopitoa_puts [of m v buf] atoi len \<open>1 \<le> length ?s\<close> show ?thesis by (intro exI conjI) auto
qed

theorem flopitoa_atoi_roundtrip_witness:
  "\<exists>m' len. flopitoa (\<lambda>_. 0) 0x80000000 0x1000 0 = Some (m', len) \<and> flopatoi m' 0x1000 = Some 0x80000000"
  using flopitoa_atoi_roundtrip [where buf = "0x1000" and v = "0x80000000" and m = "\<lambda>_. 0"] by auto

text \<open>
  Hexadecimal: a zero value advances the output index without writing, so the first character of the
  buffer stays what it was, and with no width nothing but the terminator is written.
\<close>

text \<open>\<open>flopitoa_hex\<close> does not print zero. For a zero value it reports one character more than the
  width asks for, and leaves the first byte of the buffer untouched.\<close>
theorem flopitoa_hex_zero:
  assumes "0 \<le> width" and "width \<le> 9"
  shows "\<exists>m'. flopitoa_hex m 0 buf width up = Some (m', 1 + width) \<and> m' buf = m buf"
proof -
  let ?z = "replicate (nat width) 48 :: u8 list"
  have "flopitoa_hex m 0 buf width up = Some (put_bytes m (buf + 1) (?z @ [0]), 1 + width)"
    using assms by (simp add: flopitoa_hex_def Let_def nat_le_iff)
  moreover have "put_bytes m (buf + 1) (?z @ [0]) buf = m buf"
  proof (rule put_bytes_other)
    fix i assume "i < length (?z @ [0])"
    with assms have "Suc i < 4294967296" by simp
    from addr_shift_neq [of 0 "Suc i" buf, OF _ this] show "buf \<noteq> buf + 1 + of_nat i" by (simp add: add.assoc)
  qed
  ultimately show ?thesis by simp
qed

theorem flopitoa_hex_zero_witness:
  "\<exists>m'. flopitoa_hex (\<lambda>_. 255) 0 0x1000 0 False = Some (m', 1) \<and> m' 0x1000 = 255"
  using flopitoa_hex_zero [where width = 0 and m = "\<lambda>_. 255" and buf = "0x1000" and up = False] by simp

end
