(* ===== verification/Paging.thy ===== *)
theory Paging
  imports Prelude
begin

text \<open>
  The constants of mem/paging.h and mem/vmm.h, how an address splits into indices (mem/vmm.c),
  and facts about addresses, pages and entries.
\<close>

unbundle bit_operations_syntax

section \<open>Constants\<close>

definition PAGE_PRESENT :: u32 where "PAGE_PRESENT = 1"
definition PAGE_RW :: u32 where "PAGE_RW = 2"
definition PAGE_USER :: u32 where "PAGE_USER = 4"
definition PAGE_MASK :: u32 where "PAGE_MASK = 0xFFFFF000"
definition PAGE_ENTRIES :: nat where "PAGE_ENTRIES = 1024"
definition RECURSIVE_PDE :: nat where "RECURSIVE_PDE = 1023"
definition RECURSIVE_ADDR :: u32 where "RECURSIVE_ADDR = 0xFFC00000"
definition USER_SPACE_START :: u32 where "USER_SPACE_START = 0x00100000"
definition USER_SPACE_END :: u32 where "USER_SPACE_END = 0xBFFFFFFF"
definition KERNEL_VIRT_BASE :: u32 where "KERNEL_VIRT_BASE = 0xC0000000"

section \<open>Parts of an address\<close>

definition pd_index :: "u32 \<Rightarrow> nat" where
  "pd_index va = unat (drop_bit 22 va AND 0x3FF)"

definition pt_index :: "u32 \<Rightarrow> nat" where
  "pt_index va = unat (drop_bit 12 va AND 0x3FF)"

definition page_offset :: "u32 \<Rightarrow> u32" where
  "page_offset va = va AND 0xFFF"

definition word_index :: "u32 \<Rightarrow> nat" where
  "word_index va = unat (page_offset va div 4)"

text \<open>\<open>RECURSIVE_PT(pdi)\<close>: where the recursive slot shows a page table.\<close>

definition RECURSIVE_PT :: "nat \<Rightarrow> u32" where
  "RECURSIVE_PT pdi = RECURSIVE_ADDR + of_nat pdi * PAGE_SIZE"

section \<open>Indices of addresses\<close>

lemma pd_index_nat: "pd_index va = unat va div 4194304 mod 1024"
proof -
  have "drop_bit 22 va AND 0x3FF = take_bit 10 (drop_bit 22 va)" by (simp add: take_bit_eq_mask mask_eq_exp_minus_1)
  then show ?thesis unfolding pd_index_def
    by (simp add: drop_bit_eq_div take_bit_eq_mod unat_div unat_mod)
qed

lemma pt_index_nat: "pt_index va = unat va div 4096 mod 1024"
proof -
  have "drop_bit 12 va AND 0x3FF = take_bit 10 (drop_bit 12 va)" by (simp add: take_bit_eq_mask mask_eq_exp_minus_1)
  then show ?thesis unfolding pt_index_def
    by (simp add: drop_bit_eq_div take_bit_eq_mod unat_div unat_mod)
qed

lemma page_offset_nat: "unat (page_offset va) = unat va mod 4096"
proof -
  have "page_offset va = take_bit 12 va" unfolding page_offset_def by (simp add: take_bit_eq_mask mask_eq_exp_minus_1)
  then show ?thesis by (simp add: take_bit_eq_mod unat_mod)
qed

lemma word_index_nat: "word_index va = unat va mod 4096 div 4"
  by (simp add: word_index_def unat_div page_offset_nat)

lemma index_bounds [simp]: "pd_index va < 1024" "pt_index va < 1024" "word_index va < 1024"
  by (simp_all add: pd_index_nat pt_index_nat word_index_nat)

lemma pd_index_eq: "pd_index va = unat va div 4194304"
proof -
  have "unat va div 4194304 < 1024" using unat_less_2p32 [of va] by (intro less_mult_imp_div_less) simp
  then show ?thesis by (simp add: pd_index_nat)
qed

text \<open>Two addresses on the same page.\<close>

definition same_page :: "u32 \<Rightarrow> u32 \<Rightarrow> bool" where
  "same_page a b \<longleftrightarrow> unat a div 4096 = unat b div 4096"

lemma same_page_refl [simp]: "same_page a a"
  by (simp add: same_page_def)

lemma same_page_sym: "same_page a b \<Longrightarrow> same_page b a"
  by (simp add: same_page_def)

lemma same_page_iff: "same_page a b \<longleftrightarrow> pd_index a = pd_index b \<and> pt_index a = pt_index b"
proof -
  have pd: "pd_index x = unat x div 4096 div 1024" for x
    unfolding pd_index_eq by (simp add: div_mult2_eq [symmetric])
  show ?thesis unfolding same_page_def pd pt_index_nat by (metis div_mult_mod_eq)
qed

text \<open>Words of a page that starts on a page boundary.\<close>

lemma add_in_page:
  assumes "page_offset p = 0" and "i < 1024"
  shows "unat (p + 4 * of_nat i) = unat p + 4 * i" "same_page (p + 4 * of_nat i) p" "word_index (p + 4 * of_nat i) = i"
proof -
  from assms(1) have p: "unat p mod 4096 = 0" using page_offset_nat [of p] by simp
  have "unat p \<le> 4294963200"
  proof -
    from p obtain k where k: "unat p = 4096 * k" by (auto simp: mod_eq_0_iff_dvd elim: dvdE)
    with unat_less_2p32 [of p] show ?thesis by simp
  qed
  moreover have four: "unat (4 * of_nat i :: u32) = 4 * i" using assms(2) by (simp add: unat_word_ariths unat_of_nat_u32)
  ultimately show u: "unat (p + 4 * of_nat i) = unat p + 4 * i" using assms(2) by (subst unat_plus_u32) auto
  from p obtain k where k: "unat p = 4096 * k" by (auto simp: mod_eq_0_iff_dvd elim: dvdE)
  show "same_page (p + 4 * of_nat i) p" "word_index (p + 4 * of_nat i) = i"
    using assms(2) unfolding same_page_def word_index_nat u k by simp_all
qed

lemma recursive_pt:
  assumes "pdi < 1024"
  shows "page_offset (RECURSIVE_PT pdi) = 0" "pd_index (RECURSIVE_PT pdi) = 1023" "pt_index (RECURSIVE_PT pdi) = pdi"
proof -
  have "unat (of_nat pdi * 4096 :: u32) = pdi * 4096" using assms by (simp add: unat_word_ariths unat_of_nat_u32)
  then have u: "unat (RECURSIVE_PT pdi) = 4290772992 + pdi * 4096"
    unfolding RECURSIVE_PT_def RECURSIVE_ADDR_def using assms by (subst unat_plus_u32) auto
  show "pd_index (RECURSIVE_PT pdi) = 1023" "pt_index (RECURSIVE_PT pdi) = pdi"
    unfolding pd_index_nat pt_index_nat u using assms by (simp_all add: mod_add_left_eq [of 1047552 1024, symmetric])
  have "unat (page_offset (RECURSIVE_PT pdi)) = 0" unfolding page_offset_nat u by simp
  then show "page_offset (RECURSIVE_PT pdi) = 0" by (simp only: unat_eq_0)
qed

section \<open>Entries\<close>

lemma mask_idem [simp]: "(x AND PAGE_MASK) AND PAGE_MASK = x AND PAGE_MASK"
  by (simp add: PAGE_MASK_def and.assoc)

lemma present_bit: "(x :: u32) AND PAGE_PRESENT = 0 \<longleftrightarrow> \<not> bit x 0"
  unfolding PAGE_PRESENT_def by (simp add: and_one_eq bit_0 even_iff_mod_2_eq_zero)

lemma present_set [simp]: "(x OR flags OR PAGE_PRESENT) AND PAGE_PRESENT \<noteq> (0 :: u32)"
proof -
  have "bit ((x OR flags OR PAGE_PRESENT) AND PAGE_PRESENT) 0" by (simp add: bit_simps PAGE_PRESENT_def)
  then show ?thesis by auto
qed

text \<open>An address the page allocator gives out is the frame field of the entry made from it.\<close>

lemma aligned_mask:
  assumes "a mod PAGE_SIZE = 0"
  shows "a AND PAGE_MASK = a" and "page_offset a = 0"
proof -
  have "page_offset a = take_bit 12 a" unfolding page_offset_def by (simp add: take_bit_eq_mask mask_eq_exp_minus_1)
  also have "\<dots> = 0" using assms by (simp add: take_bit_eq_mod)
  finally show po: "page_offset a = 0" .
  have "(0xFFFFF000 OR 0xFFF :: u32) = - 1" by simp
  then have "a = (a AND PAGE_MASK) OR page_offset a"
    unfolding page_offset_def PAGE_MASK_def by (simp only: bit.conj_disj_distrib [symmetric]) simp
  then show "a AND PAGE_MASK = a" using po by simp
qed

lemma entry_of_page:
  assumes "a mod PAGE_SIZE = 0"
  shows "((a AND PAGE_MASK) OR PAGE_PRESENT OR PAGE_RW OR PAGE_USER) AND PAGE_MASK = a"
    and "((a AND PAGE_MASK) OR PAGE_PRESENT OR PAGE_RW OR PAGE_USER) AND PAGE_PRESENT \<noteq> 0"
proof -
  have "((a AND PAGE_MASK) OR PAGE_PRESENT OR PAGE_RW OR PAGE_USER) AND PAGE_MASK = a AND PAGE_MASK"
    by (simp add: PAGE_MASK_def PAGE_PRESENT_def PAGE_RW_def PAGE_USER_def bit.conj_disj_distrib2 and.assoc)
  then show "((a AND PAGE_MASK) OR PAGE_PRESENT OR PAGE_RW OR PAGE_USER) AND PAGE_MASK = a"
    by (simp add: aligned_mask assms)
  have "bit (((a AND PAGE_MASK) OR PAGE_PRESENT OR PAGE_RW OR PAGE_USER) AND PAGE_PRESENT) 0"
    by (simp add: bit_simps PAGE_PRESENT_def)
  then show "((a AND PAGE_MASK) OR PAGE_PRESENT OR PAGE_RW OR PAGE_USER) AND PAGE_PRESENT \<noteq> 0" by auto
qed

end
