(* ===== verification/AddressSpace.thy ===== *)
theory AddressSpace
  imports Paging
begin

text \<open>
  The contract between the page tables and the code that works on ranges of pages: pages are mapped
  and unmapped one at a time, and looked up. What the tables hold is a function from addresses to
  entries. The loops over ranges are proved once, over the contract.
\<close>

unbundle bit_operations_syntax

section \<open>Loops over pages\<close>

text \<open>
  \<open>for (i = 0; i < pages; i++)\<close> with a body that may leave the function: \<open>for_pages f i n s\<close> has
  \<open>n\<close> iterations left, the next one with index \<open>i\<close>, and a negative result of the body ends it.
\<close>

fun for_pages :: "(nat \<Rightarrow> 's \<Rightarrow> (int \<times> 's) option) \<Rightarrow> nat \<Rightarrow> nat \<Rightarrow> 's \<Rightarrow> (int \<times> 's) option" where
  "for_pages f i 0 s = Some (0, s)"
| "for_pages f i (Suc n) s = do {
     (r, s) \<leftarrow> f i s;
     if r < 0 then Some (r, s) else for_pages f (i + 1) n s
   }"

text \<open>The address of the page with index \<open>i\<close> of a range.\<close>

definition page_at :: "u32 \<Rightarrow> nat \<Rightarrow> u32" where
  "page_at va i = va + of_nat i * PAGE_SIZE"

lemma for_pages_rule:
  assumes "I i s" and "\<And>j s. I j s \<Longrightarrow> i \<le> j \<Longrightarrow> j < i + n \<Longrightarrow>
      \<exists>r s'. f j s = Some (r, s') \<and> (if r < 0 then Q j r s' else I (Suc j) s')"
  shows "\<exists>r s'. for_pages f i n s = Some (r, s') \<and>
     (if r < 0 then \<exists>j. i \<le> j \<and> j < i + n \<and> Q j r s' else r = 0 \<and> I (i + n) s')"
  using assms
proof (induction n arbitrary: i s)
  case (Suc n)
  from Suc.prems(2) [of i s] Suc.prems(1) obtain r s1 where
    f: "f i s = Some (r, s1)" and c: "if r < 0 then Q i r s1 else I (Suc i) s1" by auto
  show ?case
  proof (cases "r < 0")
    case True
    then show ?thesis using f c by (auto intro!: exI [of _ i])
  next
    case False
    have "\<exists>r s'. for_pages f (Suc i) n s1 = Some (r, s') \<and>
       (if r < 0 then \<exists>j. Suc i \<le> j \<and> j < Suc i + n \<and> Q j r s' else r = 0 \<and> I (Suc i + n) s')"
    proof (rule Suc.IH)
      show "I (Suc i) s1" using c False by simp
      show "\<exists>r s'. f j s = Some (r, s') \<and> (if r < 0 then Q j r s' else I (Suc j) s')"
        if "I j s" "Suc i \<le> j" "j < Suc i + n" for j s
        using Suc.prems(2) [OF that(1)] that by simp
    qed
    then obtain r' s' where g: "for_pages f (Suc i) n s1 = Some (r', s')"
      "if r' < 0 then \<exists>j. Suc i \<le> j \<and> j < Suc i + n \<and> Q j r' s' else r' = 0 \<and> I (Suc i + n) s'" by auto
    then show ?thesis using f False by (cases "r' < 0") (auto intro: Suc_leD)
  qed
qed simp

text \<open>The pages of a range are different pages, even across the end of the address space.\<close>

lemma page_at_0 [simp]: "page_at va 0 = va"
  by (simp add: page_at_def)

lemma page_at_offset_nat: "unat (page_at va k) mod 4096 = unat va mod 4096"
proof -
  have "4096 dvd unat (of_nat k * PAGE_SIZE :: u32)" by (simp add: unat_word_ariths dvd_mod)
  then obtain m where "unat (of_nat k * PAGE_SIZE :: u32) = 4096 * m" by (rule dvdE)
  then show ?thesis unfolding page_at_def by (simp add: unat_word_ariths(1) mod_mod_cancel)
qed

lemma page_at_offset [simp]: "page_offset (page_at va k) = page_offset va"
  using page_at_offset_nat page_offset_nat by (metis word_unat_eq_iff)

lemma page_at_same:
  assumes "i < 1048576" and "j < 1048576"
  shows "same_page (page_at va i) (page_at va j) \<longleftrightarrow> i = j"
proof
  assume same: "same_page (page_at va i) (page_at va j)"
  note off = page_at_offset_nat [of va]
  have "unat (page_at va i) = unat (page_at va j)"
    using same off [of i] off [of j] unfolding same_page_def by (metis div_mult_mod_eq)
  then have "va + of_nat i * PAGE_SIZE = va + of_nat j * PAGE_SIZE"
    unfolding page_at_def by (simp only: word_unat_eq_iff)
  then have "of_nat i * PAGE_SIZE = of_nat j * PAGE_SIZE" by simp
  then have "unat (of_nat i * PAGE_SIZE) = unat (of_nat j * PAGE_SIZE)" by simp
  moreover have "unat (of_nat k * PAGE_SIZE :: u32) = k * 4096" if "k < 1048576" for k
    using that by (simp add: unat_word_ariths unat_of_nat_u32)
  ultimately show "i = j" using assms by simp
qed simp

section \<open>The contract\<close>

text \<open>
  \<open>view s a\<close> is the entry of the page of \<open>a\<close>, \<open>ready s a\<close> says that mapping that page needs no
  further memory, and \<open>ok s P\<close> that the state is consistent and the client holds the page frames
  \<open>P\<close>.
\<close>

definition entry :: "u32 \<Rightarrow> u32 \<Rightarrow> u32" where
  "entry pa flags = (pa AND PAGE_MASK) OR flags OR PAGE_PRESENT"

definition on_page :: "u32 \<Rightarrow> 'a \<Rightarrow> (u32 \<Rightarrow> 'a) \<Rightarrow> u32 \<Rightarrow> 'a" where
  "on_page va w f = (\<lambda>a. if same_page a va then w else f a)"

definition target :: "u32 \<Rightarrow> u32 \<Rightarrow> u32" where
  "target e va = (if e AND PAGE_PRESENT = 0 then 0 else (e AND PAGE_MASK) OR (va AND NOT PAGE_MASK))"

text \<open>Writing the entries of the first \<open>i\<close> pages of a range.\<close>

primrec over :: "u32 \<Rightarrow> (nat \<Rightarrow> u32) \<Rightarrow> nat \<Rightarrow> (u32 \<Rightarrow> u32) \<Rightarrow> u32 \<Rightarrow> u32" where
  "over va w 0 f = f"
| "over va w (Suc i) f = on_page (page_at va i) (w i) (over va w i f)"

lemma over_at:
  assumes "n \<le> 1048576" and "j < n"
  shows "over va w n f (page_at va j) = w j"
  using assms
proof (induction n)
  case (Suc n)
  then show ?case by (cases "j = n") (auto simp: on_page_def page_at_same)
qed simp

lemma over_else: "\<forall>i<n. \<not> same_page a (page_at va i) \<Longrightarrow> over va w n f a = f a"
  by (induction n) (auto simp: on_page_def)

lemma over_in: "\<exists>j<n. same_page a (page_at va j) \<Longrightarrow> over va w n f a = over va w n g a"
  by (induction n) (auto simp: on_page_def less_Suc_eq)

lemma over_over: "over va w n (over va v n f) = over va w n f"
proof
  fix a
  show "over va w n (over va v n f) a = over va w n f a"
  proof (cases "\<exists>j<n. same_page a (page_at va j)")
    case True
    then show ?thesis by (rule over_in)
  qed (simp add: over_else)
qed

lemma over_cong: "(\<And>i. i < n \<Longrightarrow> v i = w i) \<Longrightarrow> over va v n f = over va w n f"
  by (induction n) (auto simp: on_page_def)

lemma over_id:
  assumes "\<And>i. i < n \<Longrightarrow> w i = f (page_at va i)" and "\<And>a b. same_page a b \<Longrightarrow> f a = f b"
  shows "over va w n f = f"
  using assms(1) by (induction n) (auto simp: on_page_def fun_eq_iff dest: assms(2))

lemma over_page_at_above:
  "n \<le> j \<Longrightarrow> j < 1048576 \<Longrightarrow> over va w n f (page_at va j) = f (page_at va j)"
  by (rule over_else) (auto simp: page_at_same)

lemma not_page_mask: "va AND NOT PAGE_MASK = page_offset va"
proof -
  have "NOT (0xFFFFF000 :: u32) = 0xFFF" by simp
  then show ?thesis unfolding PAGE_MASK_def page_offset_def by (simp only:)
qed

lemma entry_parts:
  assumes "flags AND PAGE_MASK = 0"
  shows "entry pa flags AND PAGE_MASK = pa AND PAGE_MASK" and "entry pa flags AND PAGE_PRESENT \<noteq> 0"
proof -
  have "(PAGE_PRESENT AND PAGE_MASK) = 0" by (simp add: PAGE_PRESENT_def PAGE_MASK_def)
  then show "entry pa flags AND PAGE_MASK = pa AND PAGE_MASK"
    unfolding entry_def using assms by (simp add: bit.conj_disj_distrib2)
  show "entry pa flags AND PAGE_PRESENT \<noteq> 0" unfolding entry_def by (rule present_set)
qed

lemma target_0 [simp]: "target 0 va = 0"
  by (simp add: target_def)

lemma target_entry:
  "flags AND PAGE_MASK = 0 \<Longrightarrow> target (entry pa flags) va = (pa AND PAGE_MASK) OR page_offset va"
  unfolding target_def using entry_parts by (simp add: not_page_mask)

locale address_space =
  fixes mp :: "'s \<Rightarrow> u32 \<Rightarrow> u32 \<Rightarrow> u32 \<Rightarrow> (int \<times> 's) option"
    and um :: "'s \<Rightarrow> u32 \<Rightarrow> (int \<times> 's) option"
    and lookup :: "'s \<Rightarrow> u32 \<Rightarrow> u32 option"
    and get :: "'s \<Rightarrow> (u32 \<times> 's) option"
    and put :: "'s \<Rightarrow> u32 \<Rightarrow> 's option"
    and view :: "'s \<Rightarrow> u32 \<Rightarrow> u32"
    and ready :: "'s \<Rightarrow> u32 \<Rightarrow> bool"
    and ok :: "'s \<Rightarrow> u32 set \<Rightarrow> bool"
    and usable :: "u32 \<Rightarrow> bool"
    and flags_of :: "'s \<Rightarrow> u32 \<Rightarrow> u32 option"
  assumes mp_ok: "ok s P \<Longrightarrow> usable va \<Longrightarrow> \<exists>r s'. mp s va pa flags = Some (r, s') \<and> ok s' P \<and> ready s \<le> ready s' \<and>
      (r = 0 \<and> ready s' va \<and> view s' = on_page va (entry pa flags) (view s) \<or>
       r = -1 \<and> \<not> ready s va \<and> view s' = view s)"
    and um_ok: "ok s P \<Longrightarrow> usable va \<Longrightarrow> \<exists>r s'. um s va = Some (r, s') \<and> ok s' P \<and> ready s' = ready s \<and>
      view s' = on_page va 0 (view s) \<and> r = (if ready s va then 0 else -1)"
    and lookup_ok: "ok s P \<Longrightarrow> usable va \<Longrightarrow> lookup s va = Some (target (view s va) va)"
    and get_ok: "ok s P \<Longrightarrow> \<exists>a s'. get s = Some (a, s') \<and> view s' = view s \<and> ready s' = ready s \<and>
      (if a = 0 then ok s' P else a mod PAGE_SIZE = 0 \<and> a \<notin> P \<and> ok s' (insert a P))"
    and put_ok: "ok s P \<Longrightarrow> a \<in> P \<Longrightarrow> \<exists>s'. put s a = Some s' \<and> view s' = view s \<and> ready s' = ready s \<and> ok s' (P - {a})"
    and flags_ok: "ok s P \<Longrightarrow> usable va \<Longrightarrow> ready s va \<Longrightarrow> flags_of s va = Some (view s va AND 0xFFF)"
    and view_page: "ok s P \<Longrightarrow> same_page a b \<Longrightarrow> view s a = view s b"
begin

lemma map_range:
  assumes "ok s P" and "\<And>i. i < n \<Longrightarrow> usable (page_at va i)"
  shows "\<exists>r s'. for_pages (\<lambda>i s. mp s (page_at va i) (pa i) (fl i)) 0 n s = Some (r, s') \<and> ok s' P \<and>
    (r = 0 \<and> view s' = over va (\<lambda>i. entry (pa i) (fl i)) n (view s) \<and> (\<forall>i<n. ready s' (page_at va i)) \<or>
     r = -1 \<and> (\<exists>k<n. \<not> ready s (page_at va k) \<and> view s' = over va (\<lambda>i. entry (pa i) (fl i)) k (view s)))"
proof -
  let ?I = "\<lambda>i t. ok t P \<and> ready s \<le> ready t \<and> view t = over va (\<lambda>i. entry (pa i) (fl i)) i (view s) \<and>
     (\<forall>j<i. ready t (page_at va j))"
  let ?Q = "\<lambda>k r t. ok t P \<and> r = -1 \<and> \<not> ready s (page_at va k) \<and> view t = over va (\<lambda>i. entry (pa i) (fl i)) k (view s)"
  have "\<exists>r s'. for_pages (\<lambda>i s. mp s (page_at va i) (pa i) (fl i)) 0 n s = Some (r, s') \<and>
     (if r < 0 then \<exists>j. 0 \<le> j \<and> j < 0 + n \<and> ?Q j r s' else r = 0 \<and> ?I (0 + n) s')"
  proof (rule for_pages_rule)
    show "?I 0 s" using assms(1) by simp
    fix j t assume I: "?I j t" and "0 \<le> j" "j < 0 + n"
    then have "usable (page_at va j)" using assms(2) by simp
    with I mp_ok [of t P "page_at va j" "pa j" "fl j"] obtain r t' where
      m: "mp t (page_at va j) (pa j) (fl j) = Some (r, t')" "ok t' P" "ready t \<le> ready t'"
      "r = 0 \<and> ready t' (page_at va j) \<and> view t' = on_page (page_at va j) (entry (pa j) (fl j)) (view t) \<or>
       r = -1 \<and> \<not> ready t (page_at va j) \<and> view t' = view t" by blast
    then show "\<exists>r t'. mp t (page_at va j) (pa j) (fl j) = Some (r, t') \<and> (if r < 0 then ?Q j r t' else ?I (Suc j) t')"
      using I by (auto simp: less_Suc_eq le_fun_def)
  qed
  then obtain r s' where l: "for_pages (\<lambda>i s. mp s (page_at va i) (pa i) (fl i)) 0 n s = Some (r, s')"
    and c: "if r < 0 then \<exists>j. 0 \<le> j \<and> j < 0 + n \<and> ?Q j r s' else r = 0 \<and> ?I (0 + n) s'" by blast
  show ?thesis using c by (intro exI [of _ r] exI [of _ s'] conjI l) (auto split: if_splits)
qed

lemma unmap_range:
  assumes "ok s P" and "\<And>i. i < n \<Longrightarrow> usable (page_at va i)" and "\<And>i. i < n \<Longrightarrow> ready s (page_at va i)"
  shows "\<exists>s'. for_pages (\<lambda>i s. um s (page_at va i)) 0 n s = Some (0, s') \<and> ok s' P \<and> ready s' = ready s \<and>
    view s' = over va (\<lambda>_. 0) n (view s)"
proof -
  let ?I = "\<lambda>i t. ok t P \<and> ready t = ready s \<and> view t = over va (\<lambda>_. 0) i (view s)"
  have "\<exists>r s'. for_pages (\<lambda>i s. um s (page_at va i)) 0 n s = Some (r, s') \<and>
     (if r < 0 then \<exists>j. 0 \<le> j \<and> j < 0 + n \<and> False else r = 0 \<and> ?I (0 + n) s')"
  proof (rule for_pages_rule [where Q = "\<lambda>_ _ _. False"])
    show "?I 0 s" using assms(1) by simp
    fix j t assume I: "?I j t" and "0 \<le> j" "j < 0 + n"
    then have u: "usable (page_at va j)" "ready t (page_at va j)" using assms(2,3) by simp_all
    with I um_ok [of t P "page_at va j"] show "\<exists>r t'. um t (page_at va j) = Some (r, t') \<and> (if r < 0 then False else ?I (Suc j) t')"
      by auto
  qed
  then show ?thesis by (auto split: if_splits)
qed

text \<open>
  Backing a range with fresh pages. If the memory runs out the pages done so far are unmapped, but
  not given back.
\<close>

definition back_page :: "u32 \<Rightarrow> u32 \<Rightarrow> nat \<Rightarrow> 's \<Rightarrow> (int \<times> 's) option" where
  "back_page va fl i s = do {
     (pa, s) \<leftarrow> get s;
     if pa = 0 then do { (_, s) \<leftarrow> for_pages (\<lambda>j s. um s (page_at va j)) 0 i s; Some (-1, s) }
     else do { (_, s) \<leftarrow> mp s (page_at va i) pa fl; Some (0, s) }
   }"

lemma back_range:
  assumes "ok s P" and "\<And>i. i < n \<Longrightarrow> usable (page_at va i)" and "\<And>i. i < n \<Longrightarrow> ready s (page_at va i)"
  shows "\<exists>r s' fs. for_pages (back_page va fl) 0 n s = Some (r, s') \<and> distinct fs \<and> set fs \<inter> P = {} \<and>
    (\<forall>a\<in>set fs. a \<noteq> 0 \<and> a mod PAGE_SIZE = 0) \<and> ok s' (P \<union> set fs) \<and>
    (r = 0 \<and> length fs = n \<and> view s' = over va (\<lambda>i. entry (fs ! i) fl) n (view s) \<and> (\<forall>i<n. ready s' (page_at va i)) \<or>
     r = -1 \<and> length fs < n \<and> view s' = over va (\<lambda>_. 0) (length fs) (view s))"
proof -
  let ?F = "\<lambda>fs t. distinct fs \<and> set fs \<inter> P = {} \<and> (\<forall>a\<in>set fs. a \<noteq> 0 \<and> a mod PAGE_SIZE = 0) \<and> ok t (P \<union> set fs)"
  let ?I = "\<lambda>i t. ready s \<le> ready t \<and> (\<exists>fs. ?F fs t \<and> length fs = i \<and> view t = over va (\<lambda>i. entry (fs ! i) fl) i (view s))"
  let ?Q = "\<lambda>i r t. r = -1 \<and> (\<exists>fs. ?F fs t \<and> length fs = i \<and> view t = over va (\<lambda>_. 0) i (view s))"
  have "\<exists>r s'. for_pages (back_page va fl) 0 n s = Some (r, s') \<and>
     (if r < 0 then \<exists>j. 0 \<le> j \<and> j < 0 + n \<and> ?Q j r s' else r = 0 \<and> ?I (0 + n) s')"
  proof (rule for_pages_rule)
    show "?I 0 s" using assms(1) by simp
    fix j t assume I: "?I j t" and "0 \<le> j" "j < 0 + n"
    from I obtain fs where fs: "?F fs t" "length fs = j" "view t = over va (\<lambda>i. entry (fs ! i) fl) j (view s)"
      and rd: "ready s \<le> ready t" by blast
    from \<open>j < 0 + n\<close> assms(2,3) rd have u: "\<And>i. i \<le> j \<Longrightarrow> usable (page_at va i)" "\<And>i. i \<le> j \<Longrightarrow> ready t (page_at va i)"
      by (auto simp: le_fun_def)
    from fs get_ok [of t "P \<union> set fs"] obtain a t1 where g: "get t = Some (a, t1)" "view t1 = view t" "ready t1 = ready t"
      "if a = 0 then ok t1 (P \<union> set fs) else a mod PAGE_SIZE = 0 \<and> a \<notin> P \<union> set fs \<and> ok t1 (insert a (P \<union> set fs))" by blast
    show "\<exists>r t'. back_page va fl j t = Some (r, t') \<and> (if r < 0 then ?Q j r t' else ?I (Suc j) t')"
    proof (cases "a = 0")
      case True
      with g u unmap_range [of t1 "P \<union> set fs" j va] obtain t2 where
        "for_pages (\<lambda>j s. um s (page_at va j)) 0 j t1 = Some (0, t2)" "ok t2 (P \<union> set fs)"
        "view t2 = over va (\<lambda>_. 0) j (view t1)" by auto
      then show ?thesis using g fs True by (auto simp: back_page_def over_over intro!: exI [of _ fs])
    next
      case False
      with g u mp_ok [of t1 "insert a (P \<union> set fs)" "page_at va j" a fl] obtain t2 where m:
        "mp t1 (page_at va j) a fl = Some (0, t2)" "ok t2 (insert a (P \<union> set fs))" "ready t1 \<le> ready t2"
        "view t2 = on_page (page_at va j) (entry a fl) (view t1)" by fastforce
      have "over va (\<lambda>i. entry ((fs @ [a]) ! i) fl) j (view s) = over va (\<lambda>i. entry (fs ! i) fl) j (view s)"
        by (rule over_cong) (simp add: nth_append fs(2))
      then have "view t2 = over va (\<lambda>i. entry ((fs @ [a]) ! i) fl) (Suc j) (view s)"
        using m g fs by (simp add: nth_append)
      moreover have "?F (fs @ [a]) t2" using fs g False m by auto
      moreover have "back_page va fl j t = Some (0, t2)" using g m False by (simp add: back_page_def)
      moreover have "ready s \<le> ready t2" using rd m g by simp
      moreover have "length (fs @ [a]) = Suc j" using fs(2) by simp
      ultimately have "?I (Suc j) t2" by blast
      then show ?thesis using \<open>back_page va fl j t = Some (0, t2)\<close> by simp
    qed
  qed
  then obtain r s' where l: "for_pages (back_page va fl) 0 n s = Some (r, s')"
    and c: "if r < 0 then \<exists>j. 0 \<le> j \<and> j < 0 + n \<and> ?Q j r s' else r = 0 \<and> ?I (0 + n) s'" by blast
  show ?thesis
  proof (cases "r < 0")
    case True
    with c obtain j fs where "j < n" "r = -1" "?F fs s'" "length fs = j" "view s' = over va (\<lambda>_. 0) j (view s)" by auto
    then show ?thesis using l by blast
  next
    case False
    with c obtain fs where *: "r = 0" "ready s \<le> ready s'" "?F fs s'" "length fs = n"
      "view s' = over va (\<lambda>i. entry (fs ! i) fl) n (view s)" by auto
    moreover have "\<forall>i<n. ready s' (page_at va i)" using assms(3) *(2) by (auto simp: le_fun_def)
    ultimately show ?thesis using l by blast
  qed
qed

text \<open>Giving a range back: each page is looked up, freed and unmapped.\<close>

definition drop_page :: "u32 \<Rightarrow> nat \<Rightarrow> 's \<Rightarrow> (int \<times> 's) option" where
  "drop_page va i s = do {
     pa \<leftarrow> lookup s (page_at va i);
     s \<leftarrow> (if pa \<noteq> 0 then put s pa else Some s);
     (_, s) \<leftarrow> um s (page_at va i);
     Some (0, s)
   }"

text \<open>Any body that takes a page out of the range and gives its frame back does.\<close>

lemma drop_range_by:
  assumes "ok s P" and n: "n \<le> 1048576"
    and fs: "distinct fs" "set fs \<subseteq> P" "length fs = n"
    and m: "\<And>i. i < n \<Longrightarrow> target (view s (page_at va i)) (page_at va i) = fs ! i"
    and step: "\<And>j t Q. j < n \<Longrightarrow> ok t Q \<Longrightarrow> fs ! j \<in> Q \<Longrightarrow> target (view t (page_at va j)) (page_at va j) = fs ! j \<Longrightarrow>
      \<exists>t'. f j t = Some (0, t') \<and> ok t' (Q - {fs ! j}) \<and> ready t' = ready t \<and> view t' = on_page (page_at va j) 0 (view t)"
  shows "\<exists>s'. for_pages f 0 n s = Some (0, s') \<and> ok s' (P - set fs) \<and> ready s' = ready s \<and>
    view s' = over va (\<lambda>_. 0) n (view s)"
proof -
  let ?I = "\<lambda>i t. ok t (P - set (take i fs)) \<and> ready t = ready s \<and> view t = over va (\<lambda>_. 0) i (view s)"
  have "\<exists>r s'. for_pages f 0 n s = Some (r, s') \<and>
     (if r < 0 then \<exists>j. 0 \<le> j \<and> j < 0 + n \<and> False else r = 0 \<and> ?I (0 + n) s')"
  proof (rule for_pages_rule [where Q = "\<lambda>_ _ _. False"])
    show "?I 0 s" using assms(1) by simp
    fix j t assume I: "?I j t" and "0 \<le> j" "j < 0 + n"
    then have j: "j < n" by simp
    have tk: "set (take (Suc j) fs) = insert (fs ! j) (set (take j fs))" "fs ! j \<notin> set (take j fs)"
    proof -
      have "take (Suc j) fs = take j fs @ [fs ! j]" using j fs(3) by (simp add: take_Suc_conv_app_nth)
      moreover have "distinct (take (Suc j) fs)" using fs(1) by (rule distinct_take)
      ultimately show "set (take (Suc j) fs) = insert (fs ! j) (set (take j fs))" "fs ! j \<notin> set (take j fs)" by auto
    qed
    have "fs ! j \<in> set fs" using j fs(3) by simp
    then have "fs ! j \<in> P - set (take j fs)" using fs tk(2) by auto
    moreover have "view t (page_at va j) = view s (page_at va j)" using I j n by (simp add: over_page_at_above)
    ultimately obtain t' where t': "f j t = Some (0, t')" "ok t' (P - set (take j fs) - {fs ! j})" "ready t' = ready t"
      "view t' = on_page (page_at va j) 0 (view t)" using step [OF j, of t "P - set (take j fs)"] I m [OF j] by auto
    moreover have "P - set (take j fs) - {fs ! j} = P - set (take (Suc j) fs)" using tk(1) by auto
    ultimately show "\<exists>r t'. f j t = Some (r, t') \<and> (if r < 0 then False else ?I (Suc j) t')"
      using I by simp
  qed
  then show ?thesis using fs(3) by (auto split: if_splits)
qed

lemma drop_range:
  assumes "ok s P" and us: "\<And>i. i < n \<Longrightarrow> usable (page_at va i)" and n: "n \<le> 1048576"
    and fs: "distinct fs" "set fs \<subseteq> P" "length fs = n" "0 \<notin> set fs"
    and m: "\<And>i. i < n \<Longrightarrow> target (view s (page_at va i)) (page_at va i) = fs ! i"
  shows "\<exists>s'. for_pages (drop_page va) 0 n s = Some (0, s') \<and> ok s' (P - set fs) \<and> ready s' = ready s \<and>
    view s' = over va (\<lambda>_. 0) n (view s)"
proof (rule drop_range_by [OF assms(1) n fs(1-3) m])
  fix j t Q assume j: "j < n" and ok: "ok t Q" and q: "fs ! j \<in> Q"
    and v: "target (view t (page_at va j)) (page_at va j) = fs ! j"
  have nz: "fs ! j \<noteq> 0" using j fs(3,4) by (metis nth_mem)
  obtain t1 where p: "put t (fs ! j) = Some t1" "view t1 = view t" "ready t1 = ready t" "ok t1 (Q - {fs ! j})"
    using put_ok [OF ok q] by blast
  from um_ok [OF p(4) us [OF j]] obtain r t2 where "um t1 (page_at va j) = Some (r, t2)" "ok t2 (Q - {fs ! j})"
    "ready t2 = ready t1" "view t2 = on_page (page_at va j) 0 (view t1)" by blast
  then show "\<exists>t'. drop_page va j t = Some (0, t') \<and> ok t' (Q - {fs ! j}) \<and> ready t' = ready t \<and>
      view t' = on_page (page_at va j) 0 (view t)"
    using lookup_ok [OF ok us [OF j]] v nz p by (simp add: drop_page_def)
qed

text \<open>The other order: a page that is there is unmapped first, then freed.\<close>

definition release_page :: "u32 \<Rightarrow> nat \<Rightarrow> 's \<Rightarrow> (int \<times> 's) option" where
  "release_page va i s = do {
     pa \<leftarrow> lookup s (page_at va i);
     if pa \<noteq> 0 then do { (_, s) \<leftarrow> um s (page_at va i); s \<leftarrow> put s pa; Some (0, s) } else Some (0, s)
   }"

lemma release_range:
  assumes "ok s P" and us: "\<And>i. i < n \<Longrightarrow> usable (page_at va i)" and n: "n \<le> 1048576"
    and fs: "distinct fs" "set fs \<subseteq> P" "length fs = n" "0 \<notin> set fs"
    and m: "\<And>i. i < n \<Longrightarrow> target (view s (page_at va i)) (page_at va i) = fs ! i"
  shows "\<exists>s'. for_pages (release_page va) 0 n s = Some (0, s') \<and> ok s' (P - set fs) \<and> ready s' = ready s \<and>
    view s' = over va (\<lambda>_. 0) n (view s)"
proof (rule drop_range_by [OF assms(1) n fs(1-3) m])
  fix j t Q assume j: "j < n" and ok: "ok t Q" and q: "fs ! j \<in> Q"
    and v: "target (view t (page_at va j)) (page_at va j) = fs ! j"
  have nz: "fs ! j \<noteq> 0" using j fs(3,4) by (metis nth_mem)
  from um_ok [OF ok us [OF j]] obtain r t1 where u: "um t (page_at va j) = Some (r, t1)" "ok t1 Q" "ready t1 = ready t"
    "view t1 = on_page (page_at va j) 0 (view t)" by blast
  from put_ok [OF u(2) q] obtain t2 where "put t1 (fs ! j) = Some t2" "view t2 = view t1" "ready t2 = ready t1"
    "ok t2 (Q - {fs ! j})" by blast
  then show "\<exists>t'. release_page va j t = Some (0, t') \<and> ok t' (Q - {fs ! j}) \<and> ready t' = ready t \<and>
      view t' = on_page (page_at va j) 0 (view t)"
    using lookup_ok [OF ok us [OF j]] v nz u by (simp add: release_page_def)
qed

text \<open>Backing a range as far as the memory goes.\<close>

definition fill_page :: "u32 \<Rightarrow> u32 \<Rightarrow> nat \<Rightarrow> 's \<Rightarrow> (int \<times> 's) option" where
  "fill_page va fl i s = do {
     (pa, s) \<leftarrow> get s;
     if pa = 0 then Some (-1, s) else do { (_, s) \<leftarrow> mp s (page_at va i) pa fl; Some (0, s) }
   }"

text \<open>The pages \<open>fs\<close>, fresh and in order, lie behind the first pages of the range.\<close>

definition filled :: "u32 \<Rightarrow> u32 \<Rightarrow> 's \<Rightarrow> u32 set \<Rightarrow> u32 list \<Rightarrow> 's \<Rightarrow> bool" where
  "filled va fl s P fs t \<longleftrightarrow> distinct fs \<and> set fs \<inter> P = {} \<and> (\<forall>a\<in>set fs. a \<noteq> 0 \<and> a mod PAGE_SIZE = 0) \<and>
     ok t (P \<union> set fs) \<and> ready s \<le> ready t \<and> view t = over va (\<lambda>i. entry (fs ! i) fl) (length fs) (view s)"

lemma fill_step:
  assumes "filled va fl s P fs t" and "usable (page_at va (length fs))" and "ready s (page_at va (length fs))"
  shows "\<exists>r t'. fill_page va fl (length fs) t = Some (r, t') \<and>
    (r = 0 \<and> (\<exists>a t1. get t = Some (a, t1) \<and> filled va fl s P (fs @ [a]) t') \<or> r = -1 \<and> filled va fl s P fs t')"
proof -
  let ?j = "length fs"
  have F: "distinct fs" "set fs \<inter> P = {}" "\<forall>a\<in>set fs. a \<noteq> 0 \<and> a mod PAGE_SIZE = 0" "ok t (P \<union> set fs)"
    "ready s \<le> ready t" "view t = over va (\<lambda>i. entry (fs ! i) fl) ?j (view s)"
    using assms(1) by (simp_all add: filled_def)
  have rd: "ready t (page_at va ?j)" using F(5) assms(3) by (auto simp: le_fun_def)
  from get_ok [OF F(4)] obtain a t1 where g: "get t = Some (a, t1)" "view t1 = view t" "ready t1 = ready t"
    "if a = 0 then ok t1 (P \<union> set fs) else a mod PAGE_SIZE = 0 \<and> a \<notin> P \<union> set fs \<and> ok t1 (insert a (P \<union> set fs))" by blast
  show ?thesis
  proof (cases "a = 0")
    case True
    then show ?thesis using g F by (simp add: fill_page_def filled_def)
  next
    case False
    with g assms(2) rd mp_ok [of t1 "insert a (P \<union> set fs)" "page_at va ?j" a fl] obtain t2 where m:
      "mp t1 (page_at va ?j) a fl = Some (0, t2)" "ok t2 (insert a (P \<union> set fs))" "ready t1 \<le> ready t2"
      "view t2 = on_page (page_at va ?j) (entry a fl) (view t1)" by fastforce
    have "over va (\<lambda>i. entry ((fs @ [a]) ! i) fl) ?j (view s) = over va (\<lambda>i. entry (fs ! i) fl) ?j (view s)"
      by (rule over_cong) (simp add: nth_append)
    then have "view t2 = over va (\<lambda>i. entry ((fs @ [a]) ! i) fl) (length (fs @ [a])) (view s)"
      using m g F by (simp add: nth_append)
    moreover have "P \<union> set (fs @ [a]) = insert a (P \<union> set fs)" by auto
    moreover have "ready s \<le> ready t2" using F(5) m(3) g(3) by (metis order_trans)
    ultimately have "filled va fl s P (fs @ [a]) t2" using F g False m by (simp add: filled_def Int_insert_left)
    then show ?thesis using g m False by (auto simp: fill_page_def)
  qed
qed

text \<open>Redirecting the pages of a range to other frames, with the flags they have.\<close>

definition remap_page :: "u32 \<Rightarrow> u32 list \<Rightarrow> nat \<Rightarrow> 's \<Rightarrow> (int \<times> 's) option" where
  "remap_page va pas i s = do {
     fl \<leftarrow> flags_of s (page_at va i);
     (_, s) \<leftarrow> um s (page_at va i);
     (_, s) \<leftarrow> mp s (page_at va i) (pas ! i) fl;
     Some (0, s)
   }"

lemma remap_range:
  assumes "ok s P" and "\<And>i. i < n \<Longrightarrow> usable (page_at va i)" and "\<And>i. i < n \<Longrightarrow> ready s (page_at va i)"
    and n: "n \<le> 1048576"
  shows "\<exists>s'. for_pages (remap_page va pas) 0 n s = Some (0, s') \<and> ok s' P \<and> ready s \<le> ready s' \<and>
    view s' = over va (\<lambda>i. entry (pas ! i) (view s (page_at va i) AND 0xFFF)) n (view s)"
proof -
  let ?w = "\<lambda>i. entry (pas ! i) (view s (page_at va i) AND 0xFFF)"
  let ?I = "\<lambda>i t. ok t P \<and> ready s \<le> ready t \<and> view t = over va ?w i (view s)"
  have "\<exists>r s'. for_pages (remap_page va pas) 0 n s = Some (r, s') \<and>
     (if r < 0 then \<exists>j. 0 \<le> j \<and> j < 0 + n \<and> False else r = 0 \<and> ?I (0 + n) s')"
  proof (rule for_pages_rule [where Q = "\<lambda>_ _ _. False"])
    show "?I 0 s" using assms(1) by simp
    fix j t assume I: "?I j t" and "0 \<le> j" "j < 0 + n"
    then have j: "j < n" and u: "usable (page_at va j)" and rd: "ready t (page_at va j)"
      using assms(2,3) by (auto simp: le_fun_def)
    have v: "view t (page_at va j) = view s (page_at va j)" using I j n by (simp add: over_page_at_above)
    have f: "flags_of t (page_at va j) = Some (view s (page_at va j) AND 0xFFF)"
      using flags_ok [of t P "page_at va j"] I u rd v by simp
    from um_ok [of t P "page_at va j"] I u rd obtain t1 where q: "um t (page_at va j) = Some (0, t1)" "ok t1 P"
      "ready t1 = ready t" "view t1 = on_page (page_at va j) 0 (view t)" by auto
    with mp_ok [of t1 P "page_at va j" "pas ! j" "view s (page_at va j) AND 0xFFF"] u rd obtain t2 where
      p: "mp t1 (page_at va j) (pas ! j) (view s (page_at va j) AND 0xFFF) = Some (0, t2)" "ok t2 P" "ready t1 \<le> ready t2"
      "view t2 = on_page (page_at va j) (?w j) (view t1)" by fastforce
    have "remap_page va pas j t = Some (0, t2)" unfolding remap_page_def using f q p by simp
    moreover have "view t2 = on_page (page_at va j) (?w j) (view t)" using p(4) q(4) by (auto simp: on_page_def)
    moreover have "ready s \<le> ready t2" using I p(3) q(3) by (metis order_trans)
    ultimately show "\<exists>r t'. remap_page va pas j t = Some (r, t') \<and> (if r < 0 then False else ?I (Suc j) t')"
      using p I by simp
  qed
  then show ?thesis by (auto split: if_splits)
qed

end

end
