(* ===== verification/Vmm.thy ===== *)
theory Vmm
  imports Heap AddressSpace
begin

text \<open>
  mem/vmm.c, first part: the processor's address translation, regions, and the operations on one
  page. Memory is the words of the page frames, by the physical address of the frame and the index
  of the word in it. The kernel reaches page directories and page tables through virtual addresses
  (\<open>region->pg_dir\<close>, and the recursive slot 1023 of the directory that is loaded), so every
  access here goes through the translation \<open>mmu\<close>, and an access to a page that is not present
  is \<open>None\<close>. A pointer to a region is its address, and null is 0. Invalidating the cached
  translation of a page has no effect on this state.
\<close>

unbundle bit_operations_syntax

section \<open>State\<close>

text \<open>The initial value of the global \<open>pg_dir\<close>, in mem/paging.c.\<close>

definition kernel_pg_dir :: u32 where "kernel_pg_dir = 0xFFFFF000"

record vmm_region_t =
  rg_pg_dir :: u32
  rg_next :: u32
  rg_base_va :: u32
  rg_next_free_va :: u32
  rg_class_list :: u32

text \<open>The sizes of the structures that are allocated.\<close>

definition SIZEOF_REGION :: u32 where "SIZEOF_REGION = 20"

record vm =
  vm_frames :: "u32 \<Rightarrow> nat \<Rightarrow> u32"
  vm_cr3 :: u32
  vm_paging :: bool
  vm_heap :: heap
  vm_region :: "u32 \<Rightarrow> vmm_region_t"
  vm_region_list :: u32
  vm_list_lock :: spinlock_t
  vm_current_region :: u32

definition upd_region :: "u32 \<Rightarrow> (vmm_region_t \<Rightarrow> vmm_region_t) \<Rightarrow> vm \<Rightarrow> vm" where
  "upd_region r f s = s\<lparr>vm_region := (vm_region s)(r := f (vm_region s r))\<rparr>"

abbreviation region_next :: "vm \<Rightarrow> u32 \<Rightarrow> u32 option" where
  "region_next s \<equiv> \<lambda>r. box_ptr (rg_next (vm_region s r))"

section \<open>Address translation\<close>

text \<open>
  The page table entry of an address under the loaded directory (0 when there is no table), the
  frame it designates, and loads and stores of words. Until paging is switched on an address is
  its own translation.
\<close>

definition pte :: "vm \<Rightarrow> u32 \<Rightarrow> u32" where
  "pte s va =
     (let e = vm_frames s (vm_cr3 s) (pd_index va)
      in if e AND PAGE_PRESENT = 0 then 0 else vm_frames s (e AND PAGE_MASK) (pt_index va))"

definition mmu :: "vm \<Rightarrow> u32 \<Rightarrow> u32 option" where
  "mmu s va =
     (if \<not> vm_paging s then Some (va AND PAGE_MASK)
      else if pte s va AND PAGE_PRESENT = 0 then None
      else Some (pte s va AND PAGE_MASK))"

definition set_word :: "u32 \<Rightarrow> nat \<Rightarrow> u32 \<Rightarrow> vm \<Rightarrow> vm" where
  "set_word f i w s = s\<lparr>vm_frames := (vm_frames s)(f := (vm_frames s f)(i := w))\<rparr>"

definition set_frame :: "u32 \<Rightarrow> (nat \<Rightarrow> u32) \<Rightarrow> vm \<Rightarrow> vm" where
  "set_frame f p s = s\<lparr>vm_frames := (vm_frames s)(f := p)\<rparr>"

definition vload :: "vm \<Rightarrow> u32 \<Rightarrow> u32 option" where
  "vload s va = do { f \<leftarrow> mmu s va; Some (vm_frames s f (word_index va)) }"

definition vstore :: "vm \<Rightarrow> u32 \<Rightarrow> u32 \<Rightarrow> vm option" where
  "vstore s va w = do { f \<leftarrow> mmu s va; Some (set_word f (word_index va) w s) }"

text \<open>
  Clearing and copying a whole page: the calls of \<open>flop_memset\<close> and \<open>flop_memcpy\<close> with
  \<open>PAGE_SIZE\<close>, on page boundaries (elsewhere they are outside the model). A null pointer makes
  \<open>flop_memcpy\<close> do nothing.
\<close>

definition clear_page :: "vm \<Rightarrow> u32 \<Rightarrow> vm option" where
  "clear_page s va = do { guard (page_offset va = 0); f \<leftarrow> mmu s va; Some (set_frame f (\<lambda>_. 0) s) }"

definition copy_page :: "vm \<Rightarrow> u32 \<Rightarrow> u32 \<Rightarrow> vm option" where
  "copy_page s dst src =
     (if dst = 0 \<or> src = 0 then Some s
      else do { guard (page_offset dst = 0 \<and> page_offset src = 0); d \<leftarrow> mmu s dst; f \<leftarrow> mmu s src; Some (set_frame d (vm_frames s f) s) })"

text \<open>The entries of a region's directory, and of the tables in the recursive window.\<close>

definition dir_get :: "vm \<Rightarrow> u32 \<Rightarrow> nat \<Rightarrow> u32 option" where
  "dir_get s region pdi = do {
     guard (region \<noteq> 0);
     vload s (rg_pg_dir (vm_region s region) + 4 * of_nat pdi)
   }"

definition dir_set :: "vm \<Rightarrow> u32 \<Rightarrow> nat \<Rightarrow> u32 \<Rightarrow> vm option" where
  "dir_set s region pdi w = do {
     guard (region \<noteq> 0);
     vstore s (rg_pg_dir (vm_region s region) + 4 * of_nat pdi) w
   }"

definition pt_get :: "vm \<Rightarrow> nat \<Rightarrow> nat \<Rightarrow> u32 option" where
  "pt_get s pdi pti = vload s (RECURSIVE_PT pdi + 4 * of_nat pti)"

definition pt_set :: "vm \<Rightarrow> nat \<Rightarrow> nat \<Rightarrow> u32 \<Rightarrow> vm option" where
  "pt_set s pdi pti w = vstore s (RECURSIVE_PT pdi + 4 * of_nat pti) w"

section \<open>Pages of the page allocator\<close>

text \<open>\<open>(uintptr_t) pmm_alloc_page()\<close>, with 0 for the null pointer, and \<open>pmm_free_page\<close>.\<close>

definition set_pmm :: "buddy_allocator \<Rightarrow> vm \<Rightarrow> vm" where
  "set_pmm b s = s\<lparr>vm_heap := (vm_heap s)\<lparr>hp_pmm := b\<rparr>\<rparr>"

definition page_alloc :: "vm \<Rightarrow> (u32 \<times> vm) option" where
  "page_alloc s = do {
     (p, b) \<leftarrow> pmm_alloc_page (hp_pmm (vm_heap s));
     Some (case p of None \<Rightarrow> 0 | Some a \<Rightarrow> a, set_pmm b s)
   }"

definition page_free :: "vm \<Rightarrow> u32 \<Rightarrow> vm option" where
  "page_free s a = do {
     b \<leftarrow> pmm_free_page (hp_pmm (vm_heap s)) a;
     Some (set_pmm b s)
   }"

definition vm_kmalloc :: "vm \<Rightarrow> u32 \<Rightarrow> (u32 \<times> vm) option" where
  "vm_kmalloc s n = do { (p, h) \<leftarrow> kmalloc (vm_heap s) n; Some (p, s\<lparr>vm_heap := h\<rparr>) }"

definition vm_kfree :: "vm \<Rightarrow> u32 \<Rightarrow> u32 \<Rightarrow> vm option" where
  "vm_kfree s p n = do { h \<leftarrow> kfree (vm_heap s) p n; Some (s\<lparr>vm_heap := h\<rparr>) }"

section \<open>One page\<close>

definition vmm_map :: "vm \<Rightarrow> u32 \<Rightarrow> u32 \<Rightarrow> u32 \<Rightarrow> u32 \<Rightarrow> (int \<times> vm) option" where
  "vmm_map s region va pa flags = do {
     let pdi = pd_index va;
     let pti = pt_index va;
     e \<leftarrow> dir_get s region pdi;
     (r, s) \<leftarrow>
       (if e AND PAGE_PRESENT = 0 then do {
          (pt_phys, s) \<leftarrow> page_alloc s;
          if pt_phys = 0 then Some (-1, s)
          else do {
            s \<leftarrow> dir_set s region pdi ((pt_phys AND PAGE_MASK) OR PAGE_PRESENT OR PAGE_RW OR PAGE_USER);
            s \<leftarrow> clear_page s (RECURSIVE_PT pdi);
            Some (0, s)
          }
        } else Some (0, s));
     if r < 0 then Some (r, s)
     else do {
       s \<leftarrow> pt_set s pdi pti ((pa AND PAGE_MASK) OR flags OR PAGE_PRESENT);
       Some (0, s)
     }
   }"

definition vmm_unmap :: "vm \<Rightarrow> u32 \<Rightarrow> u32 \<Rightarrow> (int \<times> vm) option" where
  "vmm_unmap s region va = do {
     let pdi = pd_index va;
     let pti = pt_index va;
     e \<leftarrow> dir_get s region pdi;
     if e AND PAGE_PRESENT = 0 then Some (-1, s)
     else do { s \<leftarrow> pt_set s pdi pti 0; Some (0, s) }
   }"

definition vmm_is_mapped :: "vm \<Rightarrow> u32 \<Rightarrow> u32 \<Rightarrow> int option" where
  "vmm_is_mapped s region va =
     (if region = 0 then Some 0
      else do {
        e \<leftarrow> dir_get s region (pd_index va);
        if e AND PAGE_PRESENT = 0 then Some 0
        else do {
          t \<leftarrow> pt_get s (pd_index va) (pt_index va);
          if t AND PAGE_PRESENT = 0 then Some 0 else Some 1
        }
      })"

definition vmm_is_user_mapped :: "vm \<Rightarrow> u32 \<Rightarrow> u32 \<Rightarrow> int option" where
  "vmm_is_user_mapped s region va =
     (if region = 0 then Some 0
      else do {
        e \<leftarrow> dir_get s region (pd_index va);
        if e AND PAGE_PRESENT = 0 then Some 0
        else if e AND PAGE_USER = 0 then Some 0
        else do {
          t \<leftarrow> pt_get s (pd_index va) (pt_index va);
          if t AND PAGE_PRESENT = 0 then Some 0
          else if t AND PAGE_USER = 0 then Some 0
          else Some 1
        }
      })"

definition vmm_is_kernel_mapped :: "vm \<Rightarrow> u32 \<Rightarrow> u32 \<Rightarrow> int option" where
  "vmm_is_kernel_mapped s region va =
     (if region = 0 then Some 0
      else do {
        e \<leftarrow> dir_get s region (pd_index va);
        if e AND PAGE_PRESENT = 0 then Some 0
        else if e AND PAGE_USER = 0 then Some 1
        else do {
          t \<leftarrow> pt_get s (pd_index va) (pt_index va);
          if t AND PAGE_PRESENT = 0 then Some 0
          else Some (if t AND PAGE_USER = 0 then 1 else 0)
        }
      })"

definition vmm_resolve :: "vm \<Rightarrow> u32 \<Rightarrow> u32 \<Rightarrow> u32 option" where
  "vmm_resolve s region va = do {
     e \<leftarrow> dir_get s region (pd_index va);
     if e AND PAGE_PRESENT = 0 then Some 0
     else do {
       t \<leftarrow> pt_get s (pd_index va) (pt_index va);
       if t AND PAGE_PRESENT = 0 then Some 0
       else Some ((t AND PAGE_MASK) OR (va AND NOT PAGE_MASK))
     }
   }"

definition vmm_protect :: "vm \<Rightarrow> u32 \<Rightarrow> u32 \<Rightarrow> u32 \<Rightarrow> (int \<times> vm) option" where
  "vmm_protect s region va flags = do {
     let pdi = pd_index va;
     let pti = pt_index va;
     e \<leftarrow> dir_get s region pdi;
     if e AND PAGE_PRESENT = 0 then Some (-1, s)
     else do {
       t \<leftarrow> pt_get s pdi pti;
       if t AND PAGE_PRESENT = 0 then Some (-1, s)
       else do {
         s \<leftarrow> pt_set s pdi pti ((t AND PAGE_MASK) OR flags OR PAGE_PRESENT);
         Some (0, s)
       }
     }
   }"

text \<open>\<open>vmm_get_pt\<close>: the address of the table, or null.\<close>

definition vmm_get_pt :: "vm \<Rightarrow> u32 \<Rightarrow> u32 \<Rightarrow> u32 option" where
  "vmm_get_pt s region va = do {
     e \<leftarrow> dir_get s region (pd_index va);
     Some (if e AND PAGE_PRESENT = 0 then 0 else RECURSIVE_PT (pd_index va))
   }"

definition vmm_get_pde :: "vm \<Rightarrow> u32 \<Rightarrow> u32 \<Rightarrow> u32 option" where
  "vmm_get_pde s region va = dir_get s region (pd_index va)"

definition vmm_get_flags :: "vm \<Rightarrow> u32 \<Rightarrow> u32 \<Rightarrow> u32 option" where
  "vmm_get_flags s region va = do {
     pt \<leftarrow> vmm_get_pt s region va;
     if pt = 0 then Some 0
     else do {
       entry \<leftarrow> vload s (pt + 4 * of_nat (pt_index va));
       Some (if entry AND PAGE_PRESENT = 0 then 0 else entry AND 0xFFF)
     }
   }"

definition vmm_get_entry_flags :: "vm \<Rightarrow> u32 \<Rightarrow> u32 option" where
  "vmm_get_entry_flags s va = do { t \<leftarrow> pt_get s (pd_index va) (pt_index va); Some (t AND 0xFFF) }"

definition vmm_duplicate_page :: "vm \<Rightarrow> u32 \<Rightarrow> u32 \<Rightarrow> (u32 \<times> vm) option" where
  "vmm_duplicate_page s region va = do {
     old_pa \<leftarrow> vmm_resolve s region va;
     if old_pa = 0 then Some (0, s)
     else do {
       (new_pa, s) \<leftarrow> page_alloc s;
       if new_pa = 0 then Some (0, s)
       else do {
         s \<leftarrow> copy_page s new_pa old_pa;
         pt \<leftarrow> vmm_get_pt s region va;
         flags \<leftarrow> (if pt = 0 then Some 0 else do { t \<leftarrow> vload s (pt + 4 * of_nat (pt_index va)); Some (t AND 0xFFF) });
         (_, s) \<leftarrow> vmm_map s region va new_pa flags;
         Some (new_pa, s)
       }
     }
   }"

section \<open>The list of regions\<close>

definition vmm_region_insert :: "vm \<Rightarrow> u32 \<Rightarrow> vm option" where
  "vmm_region_insert s region = do {
     l \<leftarrow> lock_acquire (vm_list_lock s);
     guard (region \<noteq> 0);
     let s = upd_region region (\<lambda>r. r\<lparr>rg_next := vm_region_list s\<rparr>) s;
     Some (s\<lparr>vm_region_list := region, vm_list_lock := lock_release l\<rparr>)
   }"

definition vmm_region_remove :: "vm \<Rightarrow> u32 \<Rightarrow> vm option" where
  "vmm_region_remove s region = do {
     l \<leftarrow> lock_acquire (vm_list_lock s);
     (prev, hit) \<leftarrow> ll_walk (region_next s) region None (box_ptr (vm_region_list s));
     let s = (case hit of
                None \<Rightarrow> s
              | Some _ \<Rightarrow>
                  (case prev of
                     None \<Rightarrow> s\<lparr>vm_region_list := rg_next (vm_region s region)\<rparr>
                   | Some p \<Rightarrow> upd_region p (\<lambda>r. r\<lparr>rg_next := rg_next (vm_region s region)\<rparr>) s));
     Some (s\<lparr>vm_list_lock := lock_release l\<rparr>)
   }"

definition vmm_count_regions :: "vm \<Rightarrow> nat option" where
  "vmm_count_regions s = ll_count (region_next s) (box_ptr (vm_region_list s)) 0"

text \<open>The first node of a linked list on which a test succeeds; the test may fault.\<close>

partial_function (option) ll_first ::
  "('p \<Rightarrow> 'p option) \<Rightarrow> ('p \<Rightarrow> bool option) \<Rightarrow> 'p option \<Rightarrow> 'p option option" where
  "ll_first nx P cur =
     (case cur of
        None \<Rightarrow> Some None
      | Some c \<Rightarrow> do { h \<leftarrow> P c; if h then Some (Some c) else ll_first nx P (nx c) })"

definition vmm_find_region :: "vm \<Rightarrow> u32 \<Rightarrow> u32 option" where
  "vmm_find_region s va = do {
     r \<leftarrow> ll_first (region_next s) (\<lambda>r. do { pa \<leftarrow> vmm_resolve s r va; Some (pa \<noteq> 0) }) (box_ptr (vm_region_list s));
     Some (case r of None \<Rightarrow> 0 | Some p \<Rightarrow> p)
   }"

definition vmm_switch :: "vm \<Rightarrow> u32 \<Rightarrow> vm" where
  "vmm_switch s region =
     (if region = 0 then s
      else s\<lparr>vm_current_region := region, vm_cr3 := rg_pg_dir (vm_region s region)\<rparr>)"

text \<open>
  \<open>vmm_init\<close>, with the address of the global \<open>kernel_region\<close> as an argument. The directory
  is written through the recursive slot, and its entry gets the virtual address \<open>pg_dir\<close>.
\<close>

definition vmm_init :: "vm \<Rightarrow> u32 \<Rightarrow> vm option" where
  "vmm_init s kernel_region = do {
     let s = upd_region kernel_region (\<lambda>r. r\<lparr>rg_pg_dir := kernel_pg_dir, rg_next := 0\<rparr>) s;
     s \<leftarrow> vstore s (kernel_pg_dir + 4 * of_nat RECURSIVE_PDE)
            ((kernel_pg_dir AND PAGE_MASK) OR PAGE_PRESENT OR PAGE_RW);
     vmm_region_insert s kernel_region
   }"

definition vmm_get_current :: "vm \<Rightarrow> u32" where
  "vmm_get_current s = vm_current_region s"

end
