(* ===== verification/VmmTables.thy ===== *)
theory VmmTables
  imports Vmm
begin

text \<open>
  The page tables as a map from addresses to entries: when the loaded directory maps itself in its
  slot 1023, and its tables are distinct frames, the operations of \<open>Vmm\<close> on one page read and
  write exactly the entry of that page.
\<close>

unbundle bit_operations_syntax

section \<open>Translation\<close>

lemma pte_same_page: "same_page a b \<Longrightarrow> pte s a = pte s b"
  unfolding pte_def by (simp add: same_page_iff Let_def)

lemma mmu_same_page:
  "same_page a b \<Longrightarrow> vm_paging s \<Longrightarrow> mmu s a = mmu s b"
  by (simp add: mmu_def pte_same_page)

section \<open>The recursive slot\<close>

text \<open>
  The loaded directory maps itself in its last slot; the frames of its tables; and a region whose
  directory is the loaded one, reachable at the address the region keeps.
\<close>

definition present :: "u32 \<Rightarrow> bool" where
  "present e \<longleftrightarrow> e AND PAGE_PRESENT \<noteq> 0"

abbreviation pde :: "vm \<Rightarrow> nat \<Rightarrow> u32" where
  "pde s i \<equiv> vm_frames s (vm_cr3 s) i"

definition recursive :: "vm \<Rightarrow> bool" where
  "recursive s \<longleftrightarrow> vm_paging s \<and> present (pde s 1023) \<and> pde s 1023 AND PAGE_MASK = vm_cr3 s"

definition slots :: "vm \<Rightarrow> nat set" where
  "slots s = {i. i < 1024 \<and> present (pde s i)}"

definition tables :: "vm \<Rightarrow> u32 set" where
  "tables s = (\<lambda>i. pde s i AND PAGE_MASK) ` slots s"

definition active :: "vm \<Rightarrow> u32 \<Rightarrow> bool" where
  "active s region \<longleftrightarrow> region \<noteq> 0 \<and> page_offset (rg_pg_dir (vm_region s region)) = 0 \<and>
     mmu s (rg_pg_dir (vm_region s region)) = Some (vm_cr3 s)"

lemma mmu_recursive:
  "recursive s \<Longrightarrow> i < 1024 \<Longrightarrow> mmu s (RECURSIVE_PT i) = (if present (pde s i) then Some (pde s i AND PAGE_MASK) else None)"
  unfolding mmu_def pte_def by (simp add: recursive_def recursive_pt present_def)

lemma mmu_in_page:
  "page_offset p = 0 \<Longrightarrow> i < 1024 \<Longrightarrow> vm_paging s \<Longrightarrow> mmu s (p + 4 * of_nat i) = mmu s p"
  by (simp add: mmu_same_page add_in_page)

lemma dir_get_active:
  "recursive s \<Longrightarrow> active s region \<Longrightarrow> i < 1024 \<Longrightarrow> dir_get s region i = Some (pde s i)"
  unfolding dir_get_def vload_def active_def recursive_def by (simp add: mmu_in_page add_in_page)

lemma dir_set_active:
  "recursive s \<Longrightarrow> active s region \<Longrightarrow> i < 1024 \<Longrightarrow> dir_set s region i w = Some (set_word (vm_cr3 s) i w s)"
  unfolding dir_set_def vstore_def active_def recursive_def by (simp add: mmu_in_page add_in_page)

lemma pt_get_recursive:
  assumes "recursive s" and "i < 1024" and "j < 1024" and "present (pde s i)"
  shows "pt_get s i j = Some (vm_frames s (pde s i AND PAGE_MASK) j)"
proof -
  have "vm_paging s" using assms(1) by (simp add: recursive_def)
  then show ?thesis unfolding pt_get_def vload_def
    using assms by (simp add: mmu_in_page recursive_pt mmu_recursive add_in_page)
qed

lemma pt_set_recursive:
  assumes "recursive s" and "i < 1024" and "j < 1024" and "present (pde s i)"
  shows "pt_set s i j w = Some (set_word (pde s i AND PAGE_MASK) j w s)"
proof -
  have "vm_paging s" using assms(1) by (simp add: recursive_def)
  then show ?thesis unfolding pt_set_def vstore_def
    using assms by (simp add: mmu_in_page recursive_pt mmu_recursive add_in_page)
qed

lemma clear_recursive:
  "recursive s \<Longrightarrow> i < 1024 \<Longrightarrow> present (pde s i) \<Longrightarrow>
   clear_page s (RECURSIVE_PT i) = Some (set_frame (pde s i AND PAGE_MASK) (\<lambda>_. 0) s)"
  unfolding clear_page_def by (simp add: recursive_pt mmu_recursive)

section \<open>The invariant\<close>

text \<open>
  \<open>vmm_wf R s P\<close>: paging is on, the loaded directory is recursive, its tables are distinct
  frames, and the page allocator knows that exactly the pages \<open>P\<close> (a client's) and the tables
  are out (\<open>R\<close> are the pages it never manages).
\<close>

definition vmm_wf :: "nat set \<Rightarrow> vm \<Rightarrow> u32 set \<Rightarrow> bool" where
  "vmm_wf R s P \<longleftrightarrow> recursive s \<and> inj_on (\<lambda>i. pde s i AND PAGE_MASK) (slots s) \<and>
     P \<inter> tables s = {} \<and> pmm_owns R (hp_pmm (vm_heap s)) (P \<union> tables s)"

text \<open>The address space: the entry of every address outside the recursive window.\<close>

definition view :: "vm \<Rightarrow> u32 \<Rightarrow> u32" where
  "view s va = (if pd_index va = 1023 then 0 else pte s va)"

definition vm_same :: "vm \<Rightarrow> vm \<Rightarrow> bool" where
  "vm_same s s' \<longleftrightarrow> vm_cr3 s' = vm_cr3 s \<and> vm_paging s' = vm_paging s \<and> vm_region s' = vm_region s \<and>
     vm_region_list s' = vm_region_list s \<and> vm_list_lock s' = vm_list_lock s \<and>
     vm_current_region s' = vm_current_region s \<and> tables s \<subseteq> tables s' \<and>
     (\<forall>f. f \<notin> tables s' \<longrightarrow> vm_frames s' f = vm_frames s f)"

lemma vm_same_refl [simp]: "vm_same s s"
  by (simp add: vm_same_def)

lemma vm_same_trans: "vm_same s t \<Longrightarrow> vm_same t u \<Longrightarrow> vm_same s u"
  unfolding vm_same_def by (metis subset_iff)

text \<open>Writing an entry of a table that is not the directory.\<close>

lemma table_not_dir:
  assumes "vmm_wf R s P" and "i < 1023" and "present (pde s i)"
  shows "pde s i AND PAGE_MASK \<noteq> vm_cr3 s"
proof
  assume e: "pde s i AND PAGE_MASK = vm_cr3 s"
  from assms have "i \<in> slots s" "1023 \<in> slots s" by (auto simp: slots_def vmm_wf_def recursive_def)
  moreover have "pde s 1023 AND PAGE_MASK = vm_cr3 s" using assms(1) by (simp add: vmm_wf_def recursive_def)
  ultimately have "i = 1023" using assms(1) e unfolding vmm_wf_def by (metis (no_types, lifting) inj_onD)
  with assms(2) show False by simp
qed

lemma set_word_other: "f \<noteq> g \<Longrightarrow> vm_frames (set_word f i w s) g = vm_frames s g"
  by (simp add: set_word_def)

lemma set_word_same: "vm_frames (set_word f i w s) f = (vm_frames s f)(i := w)"
  by (simp add: set_word_def)

lemma set_word_rest [simp]:
  "vm_cr3 (set_word f i w s) = vm_cr3 s" "vm_paging (set_word f i w s) = vm_paging s"
  "vm_heap (set_word f i w s) = vm_heap s" "vm_region (set_word f i w s) = vm_region s"
  "vm_region_list (set_word f i w s) = vm_region_list s" "vm_list_lock (set_word f i w s) = vm_list_lock s"
  "vm_current_region (set_word f i w s) = vm_current_region s"
  by (simp_all add: set_word_def)

lemma same_dir:
  assumes "vm_cr3 s' = vm_cr3 s" and "vm_paging s' = vm_paging s" and "vm_frames s' (vm_cr3 s) = vm_frames s (vm_cr3 s)"
  shows "recursive s' = recursive s" "slots s' = slots s" "tables s' = tables s"
  using assms by (simp_all add: recursive_def slots_def tables_def)

lemma pde_slot_inj:
  "vmm_wf R s P \<Longrightarrow> i < 1024 \<Longrightarrow> j < 1024 \<Longrightarrow> present (pde s i) \<Longrightarrow> present (pde s j) \<Longrightarrow>
   pde s i AND PAGE_MASK = pde s j AND PAGE_MASK \<Longrightarrow> i = j"
  by (auto simp: vmm_wf_def slots_def dest: inj_onD)

lemma write_entry:
  assumes wf: "vmm_wf R s P" and p: "present (pde s (pd_index va))" and ne: "pd_index va \<noteq> 1023"
  defines "t \<equiv> pde s (pd_index va) AND PAGE_MASK"
  shows "vmm_wf R (set_word t (pt_index va) w s) P"
    and "pte (set_word t (pt_index va) w s) = (\<lambda>a. if same_page a va then w else pte s a)"
    and "vm_same s (set_word t (pt_index va) w s)"
proof -
  let ?s = "set_word t (pt_index va) w s"
  have "pd_index va < 1023" using ne index_bounds(1) [of va] by linarith
  then have nd: "t \<noteq> vm_cr3 s" unfolding t_def using table_not_dir wf p by blast
  then have dir: "vm_frames ?s (vm_cr3 s) = vm_frames s (vm_cr3 s)" by (simp add: set_word_other)
  note same = same_dir [OF set_word_rest(1) set_word_rest(2) dir]
  have "recursive ?s = recursive s" "tables ?s = tables s" by (rule same)+
  then show wf': "vmm_wf R ?s P" using wf dir same(2) by (simp add: vmm_wf_def)
  have "t \<in> tables s" using p by (auto simp: tables_def slots_def t_def)
  then show "vm_same s ?s" using \<open>tables ?s = tables s\<close> by (auto simp: vm_same_def intro!: set_word_other)
  show "pte ?s = (\<lambda>a. if same_page a va then w else pte s a)"
  proof
    fix a
    show "pte ?s a = (if same_page a va then w else pte s a)"
    proof (cases "present (pde s (pd_index a)) \<and> pde s (pd_index a) AND PAGE_MASK = t")
      case True
      then have "pd_index a = pd_index va" using pde_slot_inj [OF wf _ _ _ p] unfolding t_def by auto
      moreover have "present (pde ?s (pd_index a))" "pde ?s (pd_index a) AND PAGE_MASK = t" using True dir by simp_all
      moreover have "vm_frames ?s t = (vm_frames s t)(pt_index va := w)" by (rule set_word_same)
      ultimately show ?thesis using True unfolding pte_def same_page_iff Let_def present_def by simp
    next
      case False
      then have "\<not> same_page a va" using p by (auto simp: same_page_iff t_def)
      moreover from False have "present (pde s (pd_index a)) \<Longrightarrow> t \<noteq> pde s (pd_index a) AND PAGE_MASK" by auto
      ultimately show ?thesis
        unfolding pte_def using dir by (simp add: Let_def set_word_other present_def)
    qed
  qed
qed

text \<open>A fresh page becomes an empty table.\<close>

lemma new_table:
  assumes wf: "vmm_wf R s P" and np: "\<not> present (pde s i)" and i: "i < 1024"
    and a: "a mod PAGE_SIZE = 0" "a \<notin> P \<union> tables s" and own: "pmm_owns R b (insert a (P \<union> tables s))"
  defines "e \<equiv> (a AND PAGE_MASK) OR PAGE_PRESENT OR PAGE_RW OR PAGE_USER"
  defines "s' \<equiv> set_frame a (\<lambda>_. 0) (set_word (vm_cr3 s) i e (set_pmm b s))"
  shows "vmm_wf R s' P" and "pte s' = (\<lambda>x. if pd_index x = 1023 \<and> pt_index x = i then e else pte s x)"
    and "vm_same s s'" and "pde s' = (pde s)(i := e)"
proof -
  note e = entry_of_page [OF a(1), folded e_def]
  have rec: "recursive s" using wf by (simp add: vmm_wf_def)
  then have i1: "i \<noteq> 1023" using np by (auto simp: recursive_def)
  have cr3: "vm_cr3 s \<in> tables s" using rec unfolding tables_def slots_def recursive_def
    by (auto intro!: image_eqI [of _ _ 1023])
  then have ac: "a \<noteq> vm_cr3 s" using a(2) by auto
  have pde: "vm_frames s' (vm_cr3 s) = (pde s)(i := e)" using ac by (auto simp: s'_def set_frame_def set_word_def set_pmm_def)
  have rest: "vm_cr3 s' = vm_cr3 s" "vm_paging s' = vm_paging s" "vm_region s' = vm_region s"
    "vm_region_list s' = vm_region_list s" "vm_list_lock s' = vm_list_lock s"
    "vm_current_region s' = vm_current_region s" "hp_pmm (vm_heap s') = b"
    by (simp_all add: s'_def set_frame_def set_word_def set_pmm_def)
  show "pde s' = (pde s)(i := e)" unfolding rest by (rule pde)
  have rec': "recursive s'" using rec i1 unfolding recursive_def rest pde by simp
  have sl: "slots s' = insert i (slots s)" using i e(2) unfolding slots_def rest pde by (auto simp: present_def)
  have im: "(\<lambda>j. pde s' j AND PAGE_MASK) j = (if j = i then a else pde s j AND PAGE_MASK)" for j
    unfolding rest pde using e(1) by simp
  have ni: "i \<notin> slots s" using np by (simp add: slots_def)
  have tb: "tables s' = insert a (tables s)"
  proof -
    have "tables s' = insert a ((\<lambda>j. if j = i then a else pde s j AND PAGE_MASK) ` slots s)"
      unfolding tables_def im sl image_insert by (simp only: if_True refl)
    also have "(\<lambda>j. if j = i then a else pde s j AND PAGE_MASK) ` slots s = tables s"
      unfolding tables_def using ni by (intro image_cong) auto
    finally show ?thesis .
  qed
  have inj: "inj_on (\<lambda>j. pde s' j AND PAGE_MASK) (slots s')"
  proof -
    have "inj_on (\<lambda>j. pde s j AND PAGE_MASK) (slots s)" using wf by (simp add: vmm_wf_def)
    then have "inj_on (\<lambda>j. pde s' j AND PAGE_MASK) (slots s)"
      using ni unfolding im by (subst inj_on_cong [of _ _ "\<lambda>j. pde s j AND PAGE_MASK"]) auto
    moreover have "a \<notin> (\<lambda>j. pde s' j AND PAGE_MASK) ` slots s"
    proof -
      have "(\<lambda>j. pde s' j AND PAGE_MASK) ` slots s = tables s"
        unfolding tables_def im using ni by (intro image_cong) auto
      then show ?thesis using a(2) by simp
    qed
    ultimately show ?thesis unfolding sl using ni im [of i] by (auto simp: inj_on_insert)
  qed
  have "P \<inter> tables s' = {}" using wf a(2) by (auto simp: vmm_wf_def tb)
  then show "vmm_wf R s' P" using rec' inj own unfolding vmm_wf_def rest tb by simp
  have fr: "vm_frames s' f = vm_frames s f" if "f \<noteq> a" "f \<noteq> vm_cr3 s" for f
    using that by (simp add: s'_def set_frame_def set_word_def set_pmm_def)
  then show "vm_same s s'" using cr3 unfolding vm_same_def rest tb by auto
  have fa: "vm_frames s' a = (\<lambda>_. 0)" by (simp add: s'_def set_frame_def)
  show "pte s' = (\<lambda>x. if pd_index x = 1023 \<and> pt_index x = i then e else pte s x)"
  proof
    fix x
    consider "pd_index x = i" | "pd_index x = 1023" | "pd_index x \<noteq> i" "pd_index x \<noteq> 1023" by blast
    then show "pte s' x = (if pd_index x = 1023 \<and> pt_index x = i then e else pte s x)"
    proof cases
      case 1
      then show ?thesis using np i1 e fa unfolding pte_def rest pde by (simp add: present_def Let_def)
    next
      case 2
      then show ?thesis using rec i1 pde unfolding pte_def recursive_def rest by (simp add: present_def Let_def)
    next
      case 3
      show ?thesis
      proof (cases "present (pde s (pd_index x))")
        case True
        then have "pde s (pd_index x) AND PAGE_MASK \<in> tables s" by (auto simp: tables_def slots_def)
        then have "pde s (pd_index x) AND PAGE_MASK \<noteq> a" using a(2) by auto
        moreover have "pde s (pd_index x) AND PAGE_MASK \<noteq> vm_cr3 s"
          using table_not_dir [OF wf _ True] 3 index_bounds(1) [of x] by linarith
        ultimately show ?thesis using 3 fr unfolding pte_def rest pde by (simp add: Let_def)
      next
        case False
        then show ?thesis using 3 unfolding pte_def rest pde by (simp add: Let_def present_def)
      qed
    qed
  qed
qed

section \<open>The operations on one page\<close>

text \<open>
  \<open>vmm_ok R r d s P\<close>: the invariant, for the region \<open>r\<close> that is loaded and whose directory is
  reached at the address \<open>d\<close>. A client may use every address outside the recursive window and the
  page at which the directory is reached.
\<close>

definition vmm_ok :: "nat set \<Rightarrow> u32 \<Rightarrow> u32 \<Rightarrow> vm \<Rightarrow> u32 set \<Rightarrow> bool" where
  "vmm_ok R r d s P \<longleftrightarrow> vmm_wf R s P \<and> active s r \<and> rg_pg_dir (vm_region s r) = d"

definition client_va :: "u32 \<Rightarrow> u32 \<Rightarrow> bool" where
  "client_va d va \<longleftrightarrow> pd_index va \<noteq> 1023 \<and> \<not> same_page va d"

lemma vmm_okD:
  assumes "vmm_ok R r d s P"
  shows "vmm_wf R s P" "active s r" "recursive s" "vm_paging s" "rg_pg_dir (vm_region s r) = d"
  using assms by (simp_all add: vmm_ok_def vmm_wf_def recursive_def)

lemma active_cong:
  assumes "active s r" and "vm_paging s" and "vm_same s s'" and "pte s' (rg_pg_dir (vm_region s r)) = pte s (rg_pg_dir (vm_region s r))"
  shows "active s' r" "rg_pg_dir (vm_region s' r) = rg_pg_dir (vm_region s r)"
  using assms by (auto simp: active_def mmu_def vm_same_def split: if_splits)

text \<open>What does not depend on the page allocator.\<close>

lemma set_pmm_rest [simp]:
  "vm_frames (set_pmm b s) = vm_frames s" "vm_cr3 (set_pmm b s) = vm_cr3 s" "vm_paging (set_pmm b s) = vm_paging s"
  "vm_region (set_pmm b s) = vm_region s" "vm_region_list (set_pmm b s) = vm_region_list s"
  "vm_list_lock (set_pmm b s) = vm_list_lock s" "vm_current_region (set_pmm b s) = vm_current_region s"
  "hp_pmm (vm_heap (set_pmm b s)) = b"
  by (simp_all add: set_pmm_def)

lemma set_pmm_tables [simp]:
  "recursive (set_pmm b s) = recursive s" "slots (set_pmm b s) = slots s" "tables (set_pmm b s) = tables s"
  "pte (set_pmm b s) = pte s" "view (set_pmm b s) = view s" "mmu (set_pmm b s) = mmu s"
  "active (set_pmm b s) r = active s r" "vm_same s (set_pmm b s)"
proof -
  show "recursive (set_pmm b s) = recursive s" by (simp add: recursive_def)
  show sl: "slots (set_pmm b s) = slots s" by (simp add: slots_def)
  show tb: "tables (set_pmm b s) = tables s" by (simp add: tables_def sl)
  show p: "pte (set_pmm b s) = pte s" by (rule ext) (simp add: pte_def Let_def)
  show "view (set_pmm b s) = view s" by (rule ext) (simp add: view_def p)
  show m: "mmu (set_pmm b s) = mmu s" by (rule ext) (simp add: mmu_def p)
  show "active (set_pmm b s) r = active s r" by (simp add: active_def m)
  show "vm_same s (set_pmm b s)" by (simp add: vm_same_def tb)
qed

lemma pt_set_ok:
  assumes ok: "vmm_ok R r d s P" and va: "client_va d va" and p: "present (pde s (pd_index va))"
  obtains s' where "pt_set s (pd_index va) (pt_index va) w = Some s'" "vmm_ok R r d s' P" "vm_same s s'"
    "view s' = (\<lambda>a. if same_page a va then w else view s a)" "pde s' = pde s"
proof -
  let ?s = "set_word (pde s (pd_index va) AND PAGE_MASK) (pt_index va) w s"
  note okD = vmm_okD [OF ok]
  have ne: "pd_index va \<noteq> 1023" using va by (simp add: client_va_def)
  note we = write_entry [OF okD(1) p ne, of w]
  have "\<not> same_page d va" using va same_page_sym by (auto simp: client_va_def)
  then have "pte ?s d = pte s d" using we(2) by simp
  with okD we(3) have "active ?s r \<and> rg_pg_dir (vm_region ?s r) = d" by (metis active_cong)
  then have "vmm_ok R r d ?s P" using we(1) by (simp add: vmm_ok_def)
  moreover have "view ?s = (\<lambda>a. if same_page a va then w else view s a)"
    unfolding view_def we(2) using ne by (auto simp: same_page_iff)
  moreover have "pd_index va < 1023" using ne index_bounds(1) [of va] by linarith
  then have "pde ?s = pde s" using table_not_dir [OF okD(1) _ p] by (simp add: set_word_other)
  ultimately show ?thesis using that we(3) pt_set_recursive [OF okD(3) _ _ p] by simp
qed

lemma view_page: "same_page a b \<Longrightarrow> view s a = view s b"
  using pte_same_page [of a b s] by (simp add: view_def same_page_iff)

lemma view_pde: "client_va d va \<Longrightarrow> \<not> present (pde s (pd_index va)) \<Longrightarrow> view s va = 0"
  unfolding view_def pte_def present_def by simp

lemma page_alloc_cases:
  assumes "vmm_ok R r d s P"
  obtains (none) s' where "page_alloc s = Some (0, s')" "vmm_ok R r d s' P" "vm_same s s'" "view s' = view s" "pde s' = pde s"
  | (page) a s' b where "page_alloc s = Some (a, s')" "s' = set_pmm b s" "a \<noteq> 0" "a mod PAGE_SIZE = 0" "a \<notin> P \<union> tables s"
      "vmm_ok R r d s' (insert a P)" "pmm_owns R b (insert a (P \<union> tables s))" "vm_same s s'" "view s' = view s" "pde s' = pde s"
proof -
  note okD = vmm_okD [OF assms]
  have own: "pmm_owns R (hp_pmm (vm_heap s)) (P \<union> tables s)" using okD(1) by (simp add: vmm_wf_def)
  from own show ?thesis
  proof (cases rule: pmm.get_cases)
    case (none b)
    then show ?thesis using assms
      by (intro that(1) [of "set_pmm b s"]) (simp_all add: page_alloc_def vmm_ok_def vmm_wf_def)
  next
    case (page a b)
    have "vmm_ok R r d (set_pmm b s) (insert a P)"
      using assms page by (simp add: vmm_ok_def vmm_wf_def)
    then show ?thesis using page
      by (intro that(2) [of a "set_pmm b s" b]) (simp_all add: page_alloc_def)
  qed
qed

lemma page_free_ok:
  assumes "vmm_ok R r d s P" and "a \<in> P"
  obtains s' where "page_free s a = Some s'" "vmm_ok R r d s' (P - {a})" "view s' = view s" "pde s' = pde s"
proof -
  note okD = vmm_okD [OF assms(1)]
  have own: "pmm_owns R (hp_pmm (vm_heap s)) (P \<union> tables s)" and dis: "P \<inter> tables s = {}"
    using okD(1) by (simp_all add: vmm_wf_def)
  from pmm.put_ok [OF own, of a] assms(2) obtain b where
    b: "pmm_free_page (hp_pmm (vm_heap s)) a = Some b" "pmm_owns R b (P \<union> tables s - {a})" by auto
  have "P \<union> tables s - {a} = (P - {a}) \<union> tables s" using dis assms(2) by auto
  with b(2) have "pmm_owns R b ((P - {a}) \<union> tables s)" by simp
  moreover have "(P - {a}) \<inter> tables s = {}" using dis by auto
  ultimately have "vmm_ok R r d (set_pmm b s) (P - {a})" using assms(1) by (simp add: vmm_ok_def vmm_wf_def)
  then show ?thesis using that b(1) by (simp add: page_free_def)
qed

definition ready :: "vm \<Rightarrow> u32 \<Rightarrow> bool" where
  "ready s va \<longleftrightarrow> present (pde s (pd_index va))"

lemma dir_get_ok: "vmm_ok R r d s P \<Longrightarrow> i < 1024 \<Longrightarrow> dir_get s r i = Some (pde s i)"
  using vmm_okD [of R r d s P] dir_get_active by blast

lemma vmm_map_ok:
  assumes ok: "vmm_ok R r d s P" and va: "client_va d va"
  shows "\<exists>x s'. vmm_map s r va pa flags = Some (x, s') \<and> vmm_ok R r d s' P \<and> vm_same s s' \<and> ready s \<le> ready s' \<and>
      (x = 0 \<and> ready s' va \<and> view s' = on_page va (entry pa flags) (view s) \<or>
       x = -1 \<and> \<not> ready s va \<and> page_alloc s = Some (0, s') \<and> view s' = view s)"
proof (cases "present (pde s (pd_index va))")
  case True
  from pt_set_ok [OF ok va True, of "entry pa flags"] obtain s' where
    s': "pt_set s (pd_index va) (pt_index va) (entry pa flags) = Some s'" "vmm_ok R r d s' P" "vm_same s s'"
    "view s' = (\<lambda>a. if same_page a va then entry pa flags else view s a)" "pde s' = pde s" by blast
  then have "vmm_map s r va pa flags = Some (0, s')"
    using dir_get_ok [OF ok] True unfolding vmm_map_def present_def entry_def by simp
  moreover have "ready s = ready s'" using s'(5) by (intro ext) (simp add: ready_def fun_eq_iff)
  ultimately show ?thesis using s' True by (auto simp: on_page_def ready_def)
next
  case False
  note okD = vmm_okD [OF ok]
  have ne: "pd_index va \<noteq> 1023" using va by (simp add: client_va_def)
  let ?i = "pd_index va"
  show ?thesis using ok
  proof (cases rule: page_alloc_cases)
    case (none s')
    then have "vmm_map s r va pa flags = Some (-1, s')"
      using dir_get_ok [OF ok] False unfolding vmm_map_def present_def by simp
    moreover have "ready s = ready s'" using none(5) by (intro ext) (simp add: ready_def fun_eq_iff)
    ultimately show ?thesis using none False by (auto simp: ready_def)
  next
    case (page a s1 b)
    let ?e = "(a AND PAGE_MASK) OR PAGE_PRESENT OR PAGE_RW OR PAGE_USER"
    let ?t = "set_frame a (\<lambda>_. 0) (set_word (vm_cr3 s) ?i ?e (set_pmm b s))"
    note e = entry_of_page [OF page(4)]
    note nt = new_table [OF okD(1) False index_bounds(1) page(4) page(5) page(7)]
    have s1: "recursive s1" "active s1 r" using page(2) okD by simp_all
    have d1: "dir_set s1 r ?i ?e = Some (set_word (vm_cr3 s) ?i ?e s1)"
      using dir_set_active [OF s1] page(2) by simp
    let ?u = "set_word (vm_cr3 s) ?i ?e s1"
    have "pde ?u 1023 = pde s 1023" "pde ?u ?i = ?e" using page(2) ne by (simp_all add: set_word_same)
    then have u: "recursive ?u" "present (pde ?u ?i)" "pde ?u ?i AND PAGE_MASK = a"
      using okD(3) e page(2) by (simp_all add: recursive_def present_def)
    have d2: "clear_page ?u (RECURSIVE_PT ?i) = Some ?t"
      using clear_recursive [OF u(1) index_bounds(1) u(2)] u(3) page(2) by simp
    have "pte ?t d = pte s d"
    proof -
      have "\<not> (pd_index d = 1023 \<and> pt_index d = ?i)"
      proof
        assume *: "pd_index d = 1023 \<and> pt_index d = ?i"
        have "mmu s d = Some (vm_cr3 s)" using okD by (simp add: active_def)
        moreover have "pte s d = pde s ?i" using * okD(3) by (simp add: pte_def recursive_def present_def)
        ultimately show False using False okD(4) by (simp add: mmu_def present_def)
      qed
      then show ?thesis using nt(2) by auto
    qed
    then have act: "active ?t r \<and> rg_pg_dir (vm_region ?t r) = d"
      using active_cong [OF okD(2,4) nt(3)] okD(5) by simp
    then have okt: "vmm_ok R r d ?t P" using nt(1) by (simp add: vmm_ok_def)
    have vt: "view ?t = view s" unfolding view_def nt(2) by auto
    have pt: "present (pde ?t ?i)" using nt(4) e by (simp add: present_def)
    from pt_set_ok [OF okt va pt, of "entry pa flags"] obtain s' where
      s': "pt_set ?t ?i (pt_index va) (entry pa flags) = Some s'" "vmm_ok R r d s' P" "vm_same ?t s'"
      "view s' = (\<lambda>x. if same_page x va then entry pa flags else view ?t x)" "pde s' = pde ?t" by blast
    have "vmm_map s r va pa flags = Some (0, s')"
      using dir_get_ok [OF ok] False page(1,3) d1 d2 s'(1) unfolding vmm_map_def present_def entry_def by simp
    moreover have "ready s \<le> ready s'" "ready s' va"
      using nt(4) s'(5) e by (auto simp: ready_def le_fun_def present_def)
    ultimately show ?thesis using s' vt vm_same_trans [OF nt(3) s'(3)] by (auto simp: on_page_def)
  qed
qed

lemma vmm_unmap_ok:
  assumes ok: "vmm_ok R r d s P" and va: "client_va d va"
  shows "\<exists>x s'. vmm_unmap s r va = Some (x, s') \<and> vmm_ok R r d s' P \<and> vm_same s s' \<and> ready s' = ready s \<and>
      view s' = on_page va 0 (view s) \<and> x = (if ready s va then 0 else -1)"
proof (cases "present (pde s (pd_index va))")
  case True
  from pt_set_ok [OF ok va True, of 0] obtain s' where
    s': "pt_set s (pd_index va) (pt_index va) 0 = Some s'" "vmm_ok R r d s' P" "vm_same s s'"
    "view s' = (\<lambda>a. if same_page a va then 0 else view s a)" "pde s' = pde s" by blast
  then have "vmm_unmap s r va = Some (0, s')"
    using dir_get_ok [OF ok] True unfolding vmm_unmap_def present_def by simp
  moreover have "ready s = ready s'" using s'(5) by (intro ext) (simp add: ready_def fun_eq_iff)
  ultimately show ?thesis using s' True by (auto simp: on_page_def ready_def)
next
  case False
  then have "view s = on_page va 0 (view s)"
    unfolding on_page_def using view_pde [OF va] view_page by (intro ext) (metis (full_types))
  moreover have "vmm_unmap s r va = Some (-1, s)"
    using dir_get_ok [OF ok] False unfolding vmm_unmap_def present_def by simp
  ultimately show ?thesis using ok False by (auto simp: ready_def)
qed

text \<open>Reading: what the functions without effect return, from the entry of the page.\<close>

lemma pt_get_ok:
  assumes ok: "vmm_ok R r d s P" and "pd_index va \<noteq> 1023" and p: "present (pde s (pd_index va))"
  shows "pt_get s (pd_index va) (pt_index va) = Some (view s va)"
  using pt_get_recursive [OF vmm_okD(3) [OF ok] index_bounds(1) index_bounds(2) p] assms(2) p
  unfolding view_def pte_def present_def by simp

lemma vmm_resolve_ok:
  assumes ok: "vmm_ok R r d s P" and ne: "pd_index va \<noteq> 1023"
  shows "vmm_resolve s r va = Some (target (view s va) va)"
proof (cases "present (pde s (pd_index va))")
  case True
  then show ?thesis using dir_get_ok [OF ok] pt_get_ok [OF ok ne True]
    unfolding vmm_resolve_def target_def present_def by simp
next
  case False
  then have "view s va = 0" unfolding view_def pte_def present_def by simp
  then show ?thesis using False dir_get_ok [OF ok] unfolding vmm_resolve_def target_def present_def by simp
qed

lemma vmm_entry_flags_ok:
  assumes "vmm_ok R r d s P" and "pd_index va \<noteq> 1023" and "ready s va"
  shows "vmm_get_entry_flags s va = Some (view s va AND 0xFFF)"
  using pt_get_ok [OF assms(1,2)] assms(3) unfolding vmm_get_entry_flags_def ready_def by simp

section \<open>The page tables keep the contract\<close>

interpretation vas: address_space "\<lambda>s. vmm_map s r" "\<lambda>s. vmm_unmap s r" "\<lambda>s. vmm_resolve s r"
    page_alloc page_free view ready "vmm_ok R r d" "client_va d" vmm_get_entry_flags
  for R r d
proof
  fix s P va pa flags a
  assume ok: "vmm_ok R r d s P"
  show "\<exists>x s'. vmm_map s r va pa flags = Some (x, s') \<and> vmm_ok R r d s' P \<and> ready s \<le> ready s' \<and>
      (x = 0 \<and> ready s' va \<and> view s' = on_page va (entry pa flags) (view s) \<or>
       x = -1 \<and> \<not> ready s va \<and> view s' = view s)" if "client_va d va"
    using vmm_map_ok [OF ok that, of pa flags] by blast
  show "\<exists>x s'. vmm_unmap s r va = Some (x, s') \<and> vmm_ok R r d s' P \<and> ready s' = ready s \<and>
      view s' = on_page va 0 (view s) \<and> x = (if ready s va then 0 else -1)" if "client_va d va"
    using vmm_unmap_ok [OF ok that] by blast
  show "vmm_resolve s r va = Some (target (view s va) va)" if "client_va d va"
    using vmm_resolve_ok [OF ok] that by (simp add: client_va_def)
  show "\<exists>a s'. page_alloc s = Some (a, s') \<and> view s' = view s \<and> ready s' = ready s \<and>
      (if a = 0 then vmm_ok R r d s' P else a mod PAGE_SIZE = 0 \<and> a \<notin> P \<and> vmm_ok R r d s' (insert a P))"
    using ok
  proof (cases rule: page_alloc_cases)
    case (none s')
    then show ?thesis by (auto simp: ready_def fun_eq_iff)
  next
    case (page a s' b)
    then show ?thesis by (intro exI [of _ a] exI [of _ s']) (auto simp: ready_def fun_eq_iff)
  qed
  show "\<exists>s'. page_free s a = Some s' \<and> view s' = view s \<and> ready s' = ready s \<and> vmm_ok R r d s' (P - {a})" if "a \<in> P"
  proof -
    from page_free_ok [OF ok that] obtain s' where
      "page_free s a = Some s'" "vmm_ok R r d s' (P - {a})" "view s' = view s" "pde s' = pde s" .
    then show ?thesis by (auto simp: ready_def fun_eq_iff)
  qed
  show "vmm_get_entry_flags s va = Some (view s va AND 0xFFF)" if "client_va d va" "ready s va"
    using vmm_entry_flags_ok [OF ok _ that(2)] that(1) by (simp add: client_va_def)
next
  fix s :: vm and a b :: u32
  assume "same_page a b"
  then show "view s a = view s b" by (rule view_page)
qed

end
