(* ===== verification/VmmRange.thy ===== *)
theory VmmRange
  imports Vmm
begin

text \<open>
  mem/vmm.c, second part: ranges of pages, making, copying and destroying address spaces, searching
  free addresses, and checking the buffers of user programs. A \<open>size_t\<close> loop over pages is
  \<open>for_pages\<close>; the loops over addresses can run for ever and are partial functions.
\<close>

unbundle bit_operations_syntax

section \<open>Ranges\<close>

definition vmm_map_range :: "vm \<Rightarrow> u32 \<Rightarrow> u32 \<Rightarrow> u32 \<Rightarrow> u32 \<Rightarrow> u32 \<Rightarrow> (int \<times> vm) option" where
  "vmm_map_range s region va pa pages flags =
     for_pages (\<lambda>i s. vmm_map s region (page_at va i) (page_at pa i) flags) 0 (unat pages) s"

definition vmm_unmap_range :: "vm \<Rightarrow> u32 \<Rightarrow> u32 \<Rightarrow> u32 \<Rightarrow> (int \<times> vm) option" where
  "vmm_unmap_range s region va pages =
     for_pages (\<lambda>i s. vmm_unmap s region (page_at va i)) 0 (unat pages) s"

definition vmm_protect_range :: "vm \<Rightarrow> u32 \<Rightarrow> u32 \<Rightarrow> u32 \<Rightarrow> u32 \<Rightarrow> (int \<times> vm) option" where
  "vmm_protect_range s region va pages flags =
     for_pages (\<lambda>i s. vmm_protect s region (page_at va i) flags) 0 (unat pages) s"

text \<open>
  The loop of \<open>vmm_alloc\<close>, \<open>vmm_alloc_stack\<close> and \<open>vmm_alloc_aligned\<close>: a fresh page for each
  address; the result of \<open>vmm_map\<close> is not looked at.
\<close>

definition alloc_page_at :: "u32 \<Rightarrow> u32 \<Rightarrow> u32 \<Rightarrow> nat \<Rightarrow> vm \<Rightarrow> (int \<times> vm) option" where
  "alloc_page_at region va flags i s = do {
     (pa, s) \<leftarrow> page_alloc s;
     if pa = 0 then do { (_, s) \<leftarrow> vmm_unmap_range s region va (of_nat i); Some (-1, s) }
     else do { (_, s) \<leftarrow> vmm_map s region (page_at va i) pa flags; Some (0, s) }
   }"

definition vmm_alloc :: "vm \<Rightarrow> u32 \<Rightarrow> u32 \<Rightarrow> u32 \<Rightarrow> (u32 \<times> vm) option" where
  "vmm_alloc s region pages flags =
     (if region = 0 \<or> pages = 0 then Some (-1, s)
      else
        let g = vm_region s region;
            va = (if rg_next_free_va g \<noteq> 0 then rg_next_free_va g else rg_base_va g)
        in do {
          (r, s) \<leftarrow> for_pages (alloc_page_at region va flags) 0 (unat pages) s;
          if r < 0 then Some (-1, s)
          else Some (va, upd_region region (\<lambda>g. g\<lparr>rg_next_free_va := va + pages * PAGE_SIZE\<rparr>) s)
        })"

definition vmm_free :: "vm \<Rightarrow> u32 \<Rightarrow> u32 \<Rightarrow> u32 \<Rightarrow> vm option" where
  "vmm_free s region va pages = do {
     (_, s) \<leftarrow> for_pages (\<lambda>i s. do {
         pa \<leftarrow> vmm_resolve s region (page_at va i);
         s \<leftarrow> (if pa \<noteq> 0 then page_free s pa else Some s);
         (_, s) \<leftarrow> vmm_unmap s region (page_at va i);
         Some (0, s)
       }) 0 (unat pages) s;
     Some s
   }"

definition vmm_map_shared ::
  "vm \<Rightarrow> u32 \<Rightarrow> u32 \<Rightarrow> u32 \<Rightarrow> u32 \<Rightarrow> u32 \<Rightarrow> u32 \<Rightarrow> u32 \<Rightarrow> (int \<times> vm) option" where
  "vmm_map_shared s a b va_a va_b pa pages flags =
     for_pages (\<lambda>i s. do {
         (r, s) \<leftarrow> vmm_map s a (page_at va_a i) (page_at pa i) flags;
         if r < 0 then Some (-1, s)
         else vmm_map s b (page_at va_b i) (page_at pa i) flags
       }) 0 (unat pages) s"

definition vmm_identity_map :: "vm \<Rightarrow> u32 \<Rightarrow> u32 \<Rightarrow> u32 \<Rightarrow> u32 \<Rightarrow> (int \<times> vm) option" where
  "vmm_identity_map s region base pages flags = vmm_map_range s region base base pages flags"

definition vmm_map_direct :: "vm \<Rightarrow> u32 \<Rightarrow> u32 \<Rightarrow> u32 \<Rightarrow> u32 \<Rightarrow> (int \<times> vm) option" where
  "vmm_map_direct s region phys pages flags =
     for_pages (\<lambda>i s. vmm_map s region (page_at phys i) (page_at phys i) flags) 0 (unat pages) s"

text \<open>A loop that tests the pages of a range and stops at the first failure.\<close>

fun all_pages :: "(nat \<Rightarrow> bool option) \<Rightarrow> nat \<Rightarrow> nat \<Rightarrow> bool option" where
  "all_pages P i 0 = Some True"
| "all_pages P i (Suc n) = do { h \<leftarrow> P i; if h then all_pages P (i + 1) n else Some False }"

definition vmm_is_range_mapped :: "vm \<Rightarrow> u32 \<Rightarrow> u32 \<Rightarrow> u32 \<Rightarrow> int option" where
  "vmm_is_range_mapped s region va pages = do {
     h \<leftarrow> all_pages (\<lambda>i. do { pa \<leftarrow> vmm_resolve s region (page_at va i); Some (pa \<noteq> 0) }) 0 (unat pages);
     Some (if h then 1 else 0)
   }"

text \<open>\<open>phys_pages\<close> is an array of at least \<open>pages\<close> addresses, \<open>None\<close> for a null pointer.\<close>

definition vmm_map_scatter ::
  "vm \<Rightarrow> u32 \<Rightarrow> u32 \<Rightarrow> u32 list option \<Rightarrow> u32 \<Rightarrow> u32 \<Rightarrow> (int \<times> vm) option" where
  "vmm_map_scatter s region va phys_pages pages flags =
     (case phys_pages of
        None \<Rightarrow> Some (-1, s)
      | Some ps \<Rightarrow>
          if region = 0 then Some (-1, s)
          else do {
            m \<leftarrow> vmm_is_range_mapped s region va pages;
            if m \<noteq> 0 then Some (-1, s)
            else for_pages (\<lambda>i s. do {
                guard (i < length ps);
                (r, s) \<leftarrow> vmm_map s region (page_at va i) (ps ! i) flags;
                if r < 0 then do { (_, s) \<leftarrow> vmm_unmap_range s region va (of_nat i); Some (-1, s) }
                else Some (0, s)
              }) 0 (unat pages) s
          })"

text \<open>\<open>vmm_get_phys_list\<close> fills an array; the value is what it has written.\<close>

fun phys_list_loop :: "(nat \<Rightarrow> u32 option) \<Rightarrow> nat \<Rightarrow> nat \<Rightarrow> u32 list \<Rightarrow> (int \<times> u32 list) option" where
  "phys_list_loop f i 0 acc = Some (0, acc)"
| "phys_list_loop f i (Suc n) acc = do {
     pa \<leftarrow> f i;
     if pa = 0 then Some (-1, acc) else phys_list_loop f (i + 1) n (acc @ [pa])
   }"

definition vmm_get_phys_list :: "vm \<Rightarrow> u32 \<Rightarrow> u32 \<Rightarrow> u32 \<Rightarrow> bool \<Rightarrow> (int \<times> u32 list) option" where
  "vmm_get_phys_list s region va pages out =
     (if \<not> out then Some (-1, [])
      else phys_list_loop (\<lambda>i. vmm_resolve s region (page_at va i)) 0 (unat pages) [])"

fun contiguous_loop :: "(nat \<Rightarrow> u32 option) \<Rightarrow> nat \<Rightarrow> nat \<Rightarrow> u32 \<Rightarrow> int option" where
  "contiguous_loop f i 0 prev = Some 1"
| "contiguous_loop f i (Suc n) prev = do {
     pa \<leftarrow> f i;
     if pa = 0 then Some 0
     else if pa \<noteq> prev + PAGE_SIZE then Some 0
     else contiguous_loop f (i + 1) n pa
   }"

definition vmm_is_phys_contiguous :: "vm \<Rightarrow> u32 \<Rightarrow> u32 \<Rightarrow> u32 \<Rightarrow> int option" where
  "vmm_is_phys_contiguous s region va pages = do {
     prev \<leftarrow> vmm_resolve s region va;
     if prev = 0 then Some 0
     else contiguous_loop (\<lambda>i. vmm_resolve s region (page_at va i)) 1 (unat pages - 1) prev
   }"

fun count_mapped_loop :: "(nat \<Rightarrow> int option) \<Rightarrow> nat \<Rightarrow> nat \<Rightarrow> u32 option" where
  "count_mapped_loop f i 0 = Some 0"
| "count_mapped_loop f i (Suc n) = do {
     m \<leftarrow> f i;
     k \<leftarrow> count_mapped_loop f (i + 1) n;
     Some (if m \<noteq> 0 then k + 1 else k)
   }"

definition vmm_count_mapped :: "vm \<Rightarrow> u32 \<Rightarrow> u32 option" where
  "vmm_count_mapped s region =
     count_mapped_loop (\<lambda>i. vmm_is_mapped s region (page_at 0 i)) 0 (unat (KERNEL_VIRT_BASE div PAGE_SIZE))"

section \<open>Making, destroying and copying address spaces\<close>

text \<open>
  \<open>vmm_region_create\<close>. A page address is used as a pointer to the new directory. The field
  \<open>class_list\<close> is not initialised. The value is the region (0 on failure), what is stored through
  \<open>out_va\<close>, and the state.
\<close>

definition vmm_region_create :: "vm \<Rightarrow> u32 \<Rightarrow> u32 \<Rightarrow> bool \<Rightarrow> (u32 \<times> u32 option \<times> vm) option" where
  "vmm_region_create s initial_pages flags out_va = do {
     (dir, s) \<leftarrow> page_alloc s;
     if dir = 0 then Some (0, None, s)
     else do {
       s \<leftarrow> clear_page s dir;
       s \<leftarrow> vstore s (dir + 4 * of_nat RECURSIVE_PDE) ((dir AND PAGE_MASK) OR PAGE_PRESENT OR PAGE_RW OR PAGE_USER);
       (region, s) \<leftarrow> vm_kmalloc s SIZEOF_REGION;
       if region = 0 then do { s \<leftarrow> page_free s dir; Some (0, None, s) }
       else do {
         let s = upd_region region (\<lambda>g. g\<lparr>rg_pg_dir := dir, rg_next := 0, rg_base_va := USER_SPACE_START,
                   rg_next_free_va := USER_SPACE_START\<rparr>) s;
         s \<leftarrow> vmm_region_insert s region;
         if initial_pages > 0 \<and> out_va then do {
           (va, s) \<leftarrow> vmm_alloc s region initial_pages flags;
           if va = -1 then do {
             s \<leftarrow> vmm_region_remove s region;
             s \<leftarrow> vm_kfree s region SIZEOF_REGION;
             s \<leftarrow> page_free s dir;
             Some (0, None, s)
           }
           else Some (region, Some va, s)
         }
         else Some (region, None, s)
       }
     }
   }"

definition vmm_region_destroy :: "vm \<Rightarrow> u32 \<Rightarrow> vm option" where
  "vmm_region_destroy s region =
     (if region = 0 then Some s
      else do {
        s \<leftarrow> vmm_region_remove s region;
        s \<leftarrow> page_free s (rg_pg_dir (vm_region s region));
        vm_kfree s region SIZEOF_REGION
      })"

definition vmm_new_copied_pgdir :: "vm \<Rightarrow> (u32 \<times> vm) option" where
  "vmm_new_copied_pgdir s = do {
     (dir, s) \<leftarrow> page_alloc s;
     if dir = 0 then Some (0, s)
     else do { s \<leftarrow> clear_page s dir; Some (dir, s) }
   }"

text \<open>\<open>vmm_copy_frames\<close>, with the addresses of the two tables; the frames are copied too.\<close>

definition vmm_copy_frames :: "vm \<Rightarrow> u32 \<Rightarrow> u32 \<Rightarrow> (int \<times> vm) option" where
  "vmm_copy_frames s src_pt dst_pt =
     for_pages (\<lambda>pti s. do {
         e \<leftarrow> vload s (src_pt + 4 * of_nat pti);
         if e AND PAGE_PRESENT = 0 then Some (0, s)
         else do {
           (new_page, s) \<leftarrow> page_alloc s;
           if new_page = 0 then Some (-1, s)
           else do {
             s \<leftarrow> copy_page s new_page (e AND PAGE_MASK);
             e \<leftarrow> vload s (src_pt + 4 * of_nat pti);
             s \<leftarrow> vstore s (dst_pt + 4 * of_nat pti) ((new_page AND PAGE_MASK) OR (e AND NOT PAGE_MASK));
             Some (0, s)
           }
         }
       }) 0 PAGE_ENTRIES s"

definition vmm_iterate_and_copy_page_tables :: "vm \<Rightarrow> u32 \<Rightarrow> u32 \<Rightarrow> (int \<times> vm) option" where
  "vmm_iterate_and_copy_page_tables s src dst =
     for_pages (\<lambda>pdi s. do {
         e \<leftarrow> dir_get s src pdi;
         if e AND PAGE_PRESENT = 0 then Some (0, s)
         else do {
           (pt_phys, s) \<leftarrow> page_alloc s;
           if pt_phys = 0 then Some (-1, s)
           else do {
             s \<leftarrow> clear_page s pt_phys;
             (r, s) \<leftarrow> vmm_copy_frames s (RECURSIVE_PT pdi) pt_phys;
             if r < 0 then do { s \<leftarrow> page_free s pt_phys; Some (-1, s) }
             else do {
               e \<leftarrow> dir_get s src pdi;
               s \<leftarrow> dir_set s dst pdi ((pt_phys AND PAGE_MASK) OR (e AND NOT PAGE_MASK));
               Some (0, s)
             }
           }
         }
       }) 0 1024 s"

definition vmm_copy_pagemap :: "vm \<Rightarrow> u32 \<Rightarrow> (u32 \<times> vm) option" where
  "vmm_copy_pagemap s src = do {
     (new_dir, s) \<leftarrow> vmm_new_copied_pgdir s;
     if new_dir = 0 then Some (0, s)
     else do {
       (dst, s) \<leftarrow> vm_kmalloc s SIZEOF_REGION;
       if dst = 0 then do { s \<leftarrow> vm_kfree s dst SIZEOF_REGION; Some (0, s) }
       else do {
         guard (src \<noteq> 0);
         let g = vm_region s src;
         let s = upd_region dst (\<lambda>d. d\<lparr>rg_pg_dir := new_dir, rg_next := 0, rg_base_va := rg_base_va g,
                   rg_next_free_va := rg_next_free_va g\<rparr>) s;
         (r, s) \<leftarrow> vmm_iterate_and_copy_page_tables s src dst;
         if r < 0 then do { s \<leftarrow> vmm_region_destroy s dst; Some (0, s) }
         else do {
           s \<leftarrow> vstore s (new_dir + 4 * of_nat RECURSIVE_PDE) ((new_dir AND PAGE_MASK) OR PAGE_PRESENT OR PAGE_RW);
           s \<leftarrow> vmm_region_insert s dst;
           Some (dst, s)
         }
       }
     }
   }"

definition vmm_free_physical_frames :: "vm \<Rightarrow> u32 \<Rightarrow> vm option" where
  "vmm_free_physical_frames s pt = do {
     (_, s) \<leftarrow> for_pages (\<lambda>pti s. do {
         e \<leftarrow> vload s (pt + 4 * of_nat pti);
         s \<leftarrow> (if e AND PAGE_PRESENT \<noteq> 0 then page_free s (e AND PAGE_MASK) else Some s);
         Some (0, s)
       }) 0 PAGE_ENTRIES s;
     Some s
   }"

definition vmm_iterate_through_page_tables :: "vm \<Rightarrow> u32 \<Rightarrow> vm option" where
  "vmm_iterate_through_page_tables s region = do {
     (_, s) \<leftarrow> for_pages (\<lambda>pdi s. do {
         e \<leftarrow> dir_get s region pdi;
         if e AND PAGE_PRESENT = 0 then Some (0, s)
         else do {
           s \<leftarrow> vmm_free_physical_frames s (RECURSIVE_PT pdi);
           e \<leftarrow> dir_get s region pdi;
           s \<leftarrow> page_free s (e AND PAGE_MASK);
           Some (0, s)
         }
       }) 0 1024 s;
     Some s
   }"

definition vmm_nuke_pagemap :: "vm \<Rightarrow> u32 \<Rightarrow> vm option" where
  "vmm_nuke_pagemap s region = do {
     s \<leftarrow> vmm_iterate_through_page_tables s region;
     s \<leftarrow> page_free s (rg_pg_dir (vm_region s region));
     s \<leftarrow> vmm_region_remove s region;
     vm_kfree s region SIZEOF_REGION
   }"

section \<open>Searching free addresses\<close>

text \<open>The test both searches make of an address.\<close>

definition va_used :: "vm \<Rightarrow> u32 \<Rightarrow> u32 \<Rightarrow> bool option" where
  "va_used s region va = do {
     pt \<leftarrow> vmm_get_pt s region va;
     pde \<leftarrow> vmm_get_pde s region va;
     if pde AND PAGE_PRESENT \<noteq> 0 then
       (if pt \<noteq> 0 then do { t \<leftarrow> vload s (pt + 4 * of_nat (pt_index va)); Some (t AND PAGE_PRESENT \<noteq> 0) }
        else Some False)
     else Some False
   }"

text \<open>The loop of \<open>vmm_find_free_range\<close>: the address wraps round to 0 at the end.\<close>

partial_function (option) find_free_loop ::
  "(u32 \<Rightarrow> bool option) \<Rightarrow> u32 \<Rightarrow> u32 \<Rightarrow> u32 \<Rightarrow> u32 \<Rightarrow> u32 option" where
  "find_free_loop used pages va run start =
     (if va < 0xFFFFFFFF then do {
        u \<leftarrow> used va;
        if \<not> u then
          (let start = (if run = 0 then va else start); run = run + 1
           in if run \<ge> pages then Some start else find_free_loop used pages (va + PAGE_SIZE) run start)
        else find_free_loop used pages (va + PAGE_SIZE) 0 start
      } else Some 0)"

definition vmm_find_free_range :: "vm \<Rightarrow> u32 \<Rightarrow> u32 \<Rightarrow> u32 option" where
  "vmm_find_free_range s region pages = find_free_loop (va_used s region) pages 0 0 0"

text \<open>\<open>vmm_find_free_range_aligned\<close>; division by an alignment of 0 faults.\<close>

definition round_up :: "u32 \<Rightarrow> u32 \<Rightarrow> u32" where
  "round_up va alignment = (va + alignment - 1) AND NOT (alignment - 1)"

partial_function (option) find_aligned_loop ::
  "(u32 \<Rightarrow> bool option) \<Rightarrow> u32 \<Rightarrow> u32 \<Rightarrow> u32 \<Rightarrow> u32 \<Rightarrow> u32 \<Rightarrow> u32 option" where
  "find_aligned_loop used pages alignment va run start =
     (if va < 0xFFFFF000 then
        (if run = 0 \<and> va mod alignment \<noteq> 0
         then find_aligned_loop used pages alignment (va + PAGE_SIZE) run start
         else do {
           let start = (if run = 0 then va else start);
           u \<leftarrow> used va;
           if \<not> u then
             (if run + 1 \<ge> pages then Some start
              else find_aligned_loop used pages alignment (va + PAGE_SIZE) (run + 1) start)
           else
             (let va = (if va mod alignment \<noteq> 0 then round_up va alignment - PAGE_SIZE else va)
              in find_aligned_loop used pages alignment (va + PAGE_SIZE) 0 start)
         })
      else Some 0)"

definition vmm_find_free_range_aligned :: "vm \<Rightarrow> u32 \<Rightarrow> u32 \<Rightarrow> u32 \<Rightarrow> u32 option" where
  "vmm_find_free_range_aligned s region pages alignment = do {
     guard (region \<noteq> 0 \<and> alignment \<noteq> 0);
     let g = vm_region s region;
     let va = (if rg_next_free_va g \<noteq> 0
               then (if rg_next_free_va g mod alignment \<noteq> 0 then round_up (rg_next_free_va g) alignment
                     else rg_next_free_va g)
               else rg_base_va g);
     find_aligned_loop (va_used s region) pages alignment va 0 0
   }"

definition vmm_alloc_aligned :: "vm \<Rightarrow> u32 \<Rightarrow> u32 \<Rightarrow> u32 \<Rightarrow> u32 \<Rightarrow> (u32 \<times> vm) option" where
  "vmm_alloc_aligned s region pages alignment flags = do {
     let alignment = (if alignment < PAGE_SIZE then PAGE_SIZE else alignment);
     va \<leftarrow> vmm_find_free_range_aligned s region pages alignment;
     if va = 0 then Some (0, s)
     else do {
       (r, s) \<leftarrow> for_pages (alloc_page_at region va flags) 0 (unat pages) s;
       if r < 0 then Some (0, s)
       else Some (va, if va + pages * PAGE_SIZE > rg_next_free_va (vm_region s region)
                      then upd_region region (\<lambda>g. g\<lparr>rg_next_free_va := va + pages * PAGE_SIZE\<rparr>) s else s)
     }
   }"

definition vmm_alloc_stack :: "vm \<Rightarrow> u32 \<Rightarrow> u32 \<Rightarrow> u32 \<Rightarrow> (u32 \<times> vm) option" where
  "vmm_alloc_stack s region pages flags =
     (if region = 0 \<or> pages = 0 then Some (0, s)
      else do {
        let total_pages = pages + 2;
        va_base \<leftarrow> vmm_find_free_range s region total_pages;
        if va_base = 0 then Some (0, s)
        else do {
          let stack_start = va_base + PAGE_SIZE;
          (r, s) \<leftarrow> for_pages (alloc_page_at region stack_start flags) 0 (unat pages) s;
          if r < 0 then Some (0, s)
          else Some (stack_start, if rg_next_free_va (vm_region s region) < va_base + total_pages * PAGE_SIZE
                 then upd_region region (\<lambda>g. g\<lparr>rg_next_free_va := va_base + total_pages * PAGE_SIZE\<rparr>) s else s)
        }
      })"

text \<open>The rollback loops of \<open>vmm_map_anonymous\<close> unmap, ignoring the results.\<close>

definition unmap_all :: "u32 \<Rightarrow> u32 \<Rightarrow> nat \<Rightarrow> vm \<Rightarrow> vm option" where
  "unmap_all region va n s = do {
     (_, s) \<leftarrow> for_pages (\<lambda>j s. do { (_, s) \<leftarrow> vmm_unmap s region (page_at va j); Some (0, s) }) 0 n s;
     Some s
   }"

definition vmm_map_anonymous :: "vm \<Rightarrow> u32 \<Rightarrow> u32 \<Rightarrow> u32 \<Rightarrow> (u32 \<times> vm) option" where
  "vmm_map_anonymous s region pages flags = do {
     va \<leftarrow> vmm_find_free_range s region pages;
     if va = 0 then Some (0, s)
     else do {
       (r, s) \<leftarrow> for_pages (\<lambda>i s. do {
           (pa, s) \<leftarrow> page_alloc s;
           if pa = 0 then do { s \<leftarrow> unmap_all region va i s; Some (-1, s) }
           else do {
             (r, s) \<leftarrow> vmm_map s region (page_at va i) pa flags;
             if r < 0 then do { s \<leftarrow> unmap_all region va (i + 1) s; s \<leftarrow> page_free s pa; Some (-1, s) }
             else Some (0, s)
           }
         }) 0 (unat pages) s;
       Some (if r < 0 then 0 else va, s)
     }
   }"

text \<open>\<open>vmm_calloc\<close> clears the pages at the addresses it got.\<close>

definition vmm_calloc :: "vm \<Rightarrow> u32 \<Rightarrow> u32 \<Rightarrow> u32 \<Rightarrow> (u32 \<times> vm) option" where
  "vmm_calloc s region pages flags = do {
     (va, s) \<leftarrow> vmm_alloc s region pages flags;
     if va = -1 then Some (-1, s)
     else do {
       (_, s) \<leftarrow> for_pages (\<lambda>i s. do { s \<leftarrow> clear_page s (page_at va i); Some (0, s) }) 0 (unat pages) s;
       Some (va, s)
     }
   }"

section \<open>Buffers of user programs\<close>

definition vmm_check_buffer :: "vm \<Rightarrow> u32 \<Rightarrow> u32 \<Rightarrow> u32 \<Rightarrow> bool \<Rightarrow> int option" where
  "vmm_check_buffer s region va sz write = do {
     let start_page = va AND NOT (PAGE_SIZE - 1);
     let end_page = (va + sz + PAGE_SIZE - 1) AND NOT (PAGE_SIZE - 1);
     let pages = (end_page - start_page) div PAGE_SIZE;
     h \<leftarrow> all_pages (\<lambda>i. do {
         let cur = page_at start_page i;
         pt \<leftarrow> vmm_get_pt s region cur;
         if pt = 0 then Some False
         else do {
           e \<leftarrow> vload s (pt + 4 * of_nat (pt_index cur));
           Some (e AND PAGE_PRESENT \<noteq> 0 \<and> e AND PAGE_USER \<noteq> 0 \<and> \<not> (write \<and> e AND PAGE_RW = 0))
         }
       }) 0 (unat pages);
     Some (if h then 1 else 0)
   }"

partial_function (option) verify_loop :: "(u32 \<Rightarrow> int option) \<Rightarrow> u32 \<Rightarrow> u32 \<Rightarrow> int option" where
  "verify_loop mapped pg last_page =
     (if pg \<le> last_page then do {
        m \<leftarrow> mapped pg;
        if m = 0 then Some (-1) else verify_loop mapped (pg + PAGE_SIZE) last_page
      } else Some 0)"

definition vmm_verify_buffer :: "vm \<Rightarrow> u32 \<Rightarrow> u32 \<Rightarrow> u32 \<Rightarrow> int option" where
  "vmm_verify_buffer s region addr sz =
     (if sz = 0 then Some 0
      else
        let end_addr = addr + sz in
        if end_addr < addr then Some (-1)
        else verify_loop (vmm_is_user_mapped s region) (addr AND PAGE_MASK) ((end_addr - 1) AND PAGE_MASK))"

text \<open>
  Copying between the kernel and a user program. The bytes are those of the address space that is
  loaded; the null checks are those of \<open>flop_memcpy\<close>.
\<close>

definition vmm_copy_from_user :: "vm \<Rightarrow> mem \<Rightarrow> u32 \<Rightarrow> u32 \<Rightarrow> u32 \<Rightarrow> (int \<times> mem) option" where
  "vmm_copy_from_user s m kdest usrc len = do {
     v \<leftarrow> vmm_verify_buffer s (vmm_get_current s) usrc len;
     Some (if v \<noteq> 0 then (-1, m) else (0, fst (flop_memcpy m kdest usrc len)))
   }"

definition vmm_copy_to_user :: "vm \<Rightarrow> mem \<Rightarrow> u32 \<Rightarrow> u32 \<Rightarrow> u32 \<Rightarrow> (int \<times> mem) option" where
  "vmm_copy_to_user s m udest ksrc len = do {
     v \<leftarrow> vmm_verify_buffer s (vmm_get_current s) udest len;
     Some (if v \<noteq> 0 then (-1, m) else (0, fst (flop_memcpy m udest ksrc len)))
   }"

fun strncpy_user_loop ::
  "(u32 \<Rightarrow> int option) \<Rightarrow> mem \<Rightarrow> u32 \<Rightarrow> u32 \<Rightarrow> u32 \<Rightarrow> nat \<Rightarrow> (int \<times> mem) option" where
  "strncpy_user_loop mapped m kdest cur n 0 =
     Some (sint n, if n > 0 then m(kdest + n - 1 := 0) else m)"
| "strncpy_user_loop mapped m kdest cur n (Suc k) = do {
     ok \<leftarrow> (if cur AND 0xFFF = 0 \<or> n = 0 then mapped cur else Some 1);
     if ok = 0 then Some (-1, m)
     else
       let c = m cur; m = m(kdest + n := c)
       in if c = 0 then Some (sint n, m)
          else strncpy_user_loop mapped m kdest (cur + 1) (n + 1) k
   }"

definition vmm_strncpy_from_user :: "vm \<Rightarrow> mem \<Rightarrow> u32 \<Rightarrow> u32 \<Rightarrow> u32 \<Rightarrow> (int \<times> mem) option" where
  "vmm_strncpy_from_user s m kdest usrc max_len =
     strncpy_user_loop (vmm_is_user_mapped s (vmm_get_current s)) m kdest usrc 0 (unat max_len)"

end
