(* ===== verification/VmmProps.thy ===== *)
theory VmmProps
  imports VmmTables VmmRange HeapInv
begin

text \<open>
  What the operations of mem/vmm.c on pages and ranges do to an address space that is loaded:
  mapping and lookup, allocation and release of ranges, the search for free addresses, and the
  checks of user buffers.
\<close>

unbundle bit_operations_syntax

section \<open>A concrete address space\<close>

text \<open>
  Four pages from 1 MiB on: pages 0 and 1 free, page 2 the directory, page 3 a table for the
  addresses from 4 MiB on. The region's directory pointer is the recursive address.
\<close>

definition demo4_pmm :: buddy_allocator where
  "demo4_pmm = demo_pmm\<lparr>total_pages := 4, memory_end := 0x104000\<rparr>"

definition demo_vm :: vm where
  "demo_vm = \<lparr>vm_frames = (\<lambda>_ _. 0)(0x102000 := (\<lambda>_. 0)(1 := 0x103007, 1023 := 0x102007)),
     vm_cr3 = 0x102000, vm_paging = True, vm_heap = demo_heap\<lparr>hp_pmm := demo4_pmm\<rparr>,
     vm_region = (\<lambda>_. \<lparr>rg_pg_dir = 0xFFFFF000, rg_next = 0, rg_base_va = 0x400000,
                      rg_next_free_va = 0x400000, rg_class_list = 0\<rparr>),
     vm_region_list = 0, vm_list_lock = 0, vm_current_region = 0x5000\<rparr>"

lemma demo4_owns: "pmm_owns {} demo4_pmm {0x102000, 0x103000}"
proof -
  have bf: "base_frame demo4_pmm = 256" by (simp add: base_frame_def demo4_pmm_def demo_pmm_def)
  have pa: "page_addr demo4_pmm i = 0x100000 + of_nat i * 0x1000" for i
    by (simp add: page_addr_def frame_addr_def bf algebra_simps)
  have g: "geometry demo4_pmm" by (simp add: geometry_def demo4_pmm_def demo_pmm_def)
  have "pmm_wf demo4_pmm {2, 3} (\<lambda>p. if p = 0 then [0, 1] else [])"
    using g unfolding pmm_wf_def lists_ok_def used_ok_def flag_ok_def flagged_def pa
    by (auto simp: demo4_pmm_def demo_pmm_def Let_def fits_def blk_def)
  moreover have "buddy_lock demo4_pmm = 0" by (simp add: demo4_pmm_def demo_pmm_def)
  ultimately have "pmm_inv demo4_pmm {2, 3}" by (auto simp: pmm_inv_def)
  moreover have "no_huge_hole demo4_pmm {}" by (rule no_huge_hole_small) (simp add: demo4_pmm_def)
  ultimately show ?thesis unfolding pmm_owns_def by (intro exI [of _ "{2, 3}"]) (simp add: pa)
qed

lemma demo_pde: "pde demo_vm i = (if i = 1023 then 0x102007 else if i = 1 then 0x103007 else 0)"
  by (simp add: demo_vm_def)

lemma demo_vm_ok: "vmm_ok {} 0x5000 0xFFFFF000 demo_vm {}"
proof -
  have pr: "present (pde demo_vm i) \<longleftrightarrow> i = 1 \<or> i = 1023" for i
    unfolding demo_pde by (simp add: present_def PAGE_PRESENT_def)
  have mask: "pde demo_vm 1 AND PAGE_MASK = 0x103000" "pde demo_vm 1023 AND PAGE_MASK = 0x102000"
    unfolding demo_pde by (simp_all add: PAGE_MASK_def)
  have cr3: "vm_cr3 demo_vm = 0x102000" "vm_paging demo_vm" by (simp_all add: demo_vm_def)
  have sl: "slots demo_vm = {1, 1023}" unfolding slots_def pr by auto
  have tb: "tables demo_vm = {0x102000, 0x103000}" unfolding tables_def sl using mask by auto
  have rec: "recursive demo_vm" unfolding recursive_def pr mask using cr3 by simp
  have inj: "inj_on (\<lambda>i. pde demo_vm i AND PAGE_MASK) (slots demo_vm)" unfolding sl inj_on_def using mask by auto
  have own: "pmm_owns {} (hp_pmm (vm_heap demo_vm)) (tables demo_vm)"
    unfolding tb using demo4_owns by (simp add: demo_vm_def)
  have ix: "pd_index 0xFFFFF000 = 1023" "pt_index 0xFFFFF000 = 1023"
    by (simp_all add: pd_index_nat pt_index_nat)
  have "pte demo_vm 0xFFFFF000 = 0x102007"
    unfolding pte_def ix using mask(2) cr3 demo_pde [of 1023] by (simp add: PAGE_PRESENT_def)
  then have "mmu demo_vm 0xFFFFF000 = Some (vm_cr3 demo_vm)"
    unfolding mmu_def using cr3 by (simp add: PAGE_PRESENT_def PAGE_MASK_def)
  moreover have "rg_pg_dir (vm_region demo_vm 0x5000) = 0xFFFFF000" by (simp add: demo_vm_def)
  ultimately show ?thesis using rec inj own
    by (simp add: vmm_ok_def vmm_wf_def active_def page_offset_def)
qed

section \<open>Mapping a page\<close>

lemma resolve_view: "vmm_ok R r d s P \<Longrightarrow> pd_index a \<noteq> 1023 \<Longrightarrow> vmm_resolve s r a = Some (target (view s a) a)"
  by (rule vmm_resolve_ok)

text \<open>C12: In the address space that is loaded, mapping a page succeeds, and then exactly the addresses
  of that page resolve to the frame; or it fails, because a table is missing and the page allocator
  has no page for it, and then nothing is mapped differently. No memory but that of page tables is
  touched, and the tables stay consistent.\<close>

theorem vmm_map_correct:
  assumes ok: "vmm_ok R r d s P" and va: "client_va d va" and fl: "flags AND PAGE_MASK = 0"
  shows "\<exists>x s'. vmm_map s r va pa flags = Some (x, s') \<and> vmm_ok R r d s' P \<and>
    (x = 0 \<and> vmm_resolve s' r va = Some ((pa AND PAGE_MASK) OR page_offset va) \<or>
     x = -1 \<and> \<not> present (pde s (pd_index va)) \<and> page_alloc s = Some (0, s') \<and>
       vmm_resolve s' r va = vmm_resolve s r va) \<and>
    (\<forall>a. pd_index a \<noteq> 1023 \<and> \<not> same_page a va \<longrightarrow> vmm_resolve s' r a = vmm_resolve s r a) \<and>
    (\<forall>f. f \<notin> tables s' \<longrightarrow> vm_frames s' f = vm_frames s f)"
proof -
  from vmm_map_ok [OF ok va, of pa flags] obtain x s' where
    m: "vmm_map s r va pa flags = Some (x, s')" "vmm_ok R r d s' P" "vm_same s s'"
    and c: "x = 0 \<and> ready s' va \<and> view s' = on_page va (entry pa flags) (view s) \<or>
       x = -1 \<and> \<not> ready s va \<and> page_alloc s = Some (0, s') \<and> view s' = view s" by blast
  have ne: "pd_index va \<noteq> 1023" using va by (simp add: client_va_def)
  note res = resolve_view [OF m(2)] resolve_view [OF ok]
  have "\<forall>a. pd_index a \<noteq> 1023 \<and> \<not> same_page a va \<longrightarrow> vmm_resolve s' r a = vmm_resolve s r a"
    using c by (auto simp: res on_page_def)
  moreover have "\<forall>f. f \<notin> tables s' \<longrightarrow> vm_frames s' f = vm_frames s f" using m(3) by (simp add: vm_same_def)
  moreover have "x = 0 \<and> vmm_resolve s' r va = Some ((pa AND PAGE_MASK) OR page_offset va) \<or>
     x = -1 \<and> \<not> present (pde s (pd_index va)) \<and> page_alloc s = Some (0, s') \<and>
       vmm_resolve s' r va = vmm_resolve s r va"
    using c ne by (auto simp: res on_page_def target_entry fl ready_def)
  ultimately show ?thesis using m by blast
qed

theorem vmm_map_correct_witness:
  "\<exists>x s'. vmm_map demo_vm 0x5000 0x402000 0x7000 6 = Some (x, s') \<and> vmm_ok {} 0x5000 0xFFFFF000 s' {} \<and>
    x = 0 \<and> vmm_resolve s' 0x5000 0x402000 = Some 0x7000"
proof -
  have "client_va 0xFFFFF000 0x402000" by (simp add: client_va_def same_page_def pd_index_nat)
  moreover have "present (pde demo_vm (pd_index 0x402000))"
    unfolding demo_pde by (simp add: pd_index_nat present_def PAGE_PRESENT_def)
  ultimately show ?thesis using vmm_map_correct [OF demo_vm_ok, of "0x402000" 6 "0x7000"]
    by (fastforce simp: PAGE_MASK_def page_offset_def)
qed

section \<open>Allocating and freeing a range\<close>

lemma upd_region_ok:
  assumes "vmm_ok R r d s P" and "\<And>g. rg_pg_dir (f g) = rg_pg_dir g"
  shows "vmm_ok R r d (upd_region q f s) P" "view (upd_region q f s) = view s" "ready (upd_region q f s) = ready s"
proof -
  let ?s = "upd_region q f s"
  have e: "vm_frames ?s = vm_frames s" "vm_cr3 ?s = vm_cr3 s" "vm_paging ?s = vm_paging s" "vm_heap ?s = vm_heap s"
    "rg_pg_dir (vm_region ?s r) = rg_pg_dir (vm_region s r)"
    using assms(2) by (simp_all add: upd_region_def)
  have sl: "slots ?s = slots s" by (simp add: slots_def e)
  then have tb: "tables ?s = tables s" by (simp add: tables_def e)
  have p: "pte ?s = pte s" by (rule ext) (simp add: pte_def e Let_def)
  have m: "mmu ?s = mmu s" by (rule ext) (simp add: mmu_def p e)
  have "active ?s r = active s r" by (simp add: active_def m e)
  then show "vmm_ok R r d ?s P" using assms(1) by (simp add: vmm_ok_def vmm_wf_def recursive_def e tb sl)
  show "view ?s = view s" by (rule ext) (simp add: view_def p)
  show "ready ?s = ready s" by (rule ext) (simp add: ready_def e)
qed

lemma alloc_page_back:
  "i < 1048576 \<Longrightarrow> alloc_page_at r va flags i s = address_space.back_page (\<lambda>s. vmm_map s r) (\<lambda>s. vmm_unmap s r) page_alloc va flags i s"
proof -
  assume "i < 1048576"
  then have "unat (of_nat i :: u32) = i" by (simp add: unat_of_nat_u32)
  then show ?thesis unfolding alloc_page_at_def vas.back_page_def vmm_unmap_range_def by (simp only:)
qed

lemma for_pages_cong:
  "(\<And>j s. i \<le> j \<Longrightarrow> j < i + n \<Longrightarrow> f j s = g j s) \<Longrightarrow> for_pages f i n s = for_pages g i n s"
proof (induction n arbitrary: i s)
  case (Suc n)
  have "for_pages f (i + 1) n = for_pages g (i + 1) n" by (rule ext, rule Suc.IH) (simp add: Suc.prems)
  moreover have "f i s = g i s" by (rule Suc.prems) simp_all
  ultimately show ?case by (simp only: for_pages.simps)
qed simp

text \<open>The addresses of a range that a client may use, with their tables in place.\<close>

definition range_ready :: "u32 \<Rightarrow> vm \<Rightarrow> u32 \<Rightarrow> nat \<Rightarrow> bool" where
  "range_ready d s va n \<longleftrightarrow> n \<le> 1048576 \<and> (\<forall>i<n. client_va d (page_at va i) \<and> ready s (page_at va i))"

lemma alloc_pages_ok:
  assumes ok: "vmm_ok R r d s P" and rr: "range_ready d s va n"
  shows "\<exists>x s' fs. for_pages (alloc_page_at r va flags) 0 n s = Some (x, s') \<and> distinct fs \<and> set fs \<inter> P = {} \<and>
    (\<forall>a\<in>set fs. a \<noteq> 0 \<and> a mod PAGE_SIZE = 0) \<and> vmm_ok R r d s' (P \<union> set fs) \<and>
    (x = 0 \<and> length fs = n \<and> view s' = over va (\<lambda>i. entry (fs ! i) flags) n (view s) \<and> (\<forall>i<n. ready s' (page_at va i)) \<or>
     x = -1 \<and> length fs < n \<and> view s' = over va (\<lambda>_. 0) (length fs) (view s))"
proof -
  have "for_pages (alloc_page_at r va flags) 0 n s =
      for_pages (address_space.back_page (\<lambda>s. vmm_map s r) (\<lambda>s. vmm_unmap s r) page_alloc va flags) 0 n s"
    using rr by (intro for_pages_cong alloc_page_back) (simp add: range_ready_def)
  then show ?thesis using vas.back_range [OF ok, of n va flags] rr by (simp add: range_ready_def)
qed

definition region_va :: "vm \<Rightarrow> u32 \<Rightarrow> u32" where
  "region_va s r = (if rg_next_free_va (vm_region s r) \<noteq> 0 then rg_next_free_va (vm_region s r) else rg_base_va (vm_region s r))"

lemma resolve_over:
  assumes "vmm_ok R r d s P" and "view s = over va w n f" and "n \<le> 1048576" and "i < n" and "client_va d (page_at va i)"
  shows "vmm_resolve s r (page_at va i) = Some (target (w i) (page_at va i))"
  using resolve_view [OF assms(1), of "page_at va i"] assms(2-5) by (simp add: client_va_def over_at)

lemma target_page:
  assumes "a mod PAGE_SIZE = 0" and "flags AND PAGE_MASK = 0" and "page_offset va = 0"
  shows "target (entry a flags) va = a"
  using target_entry [OF assms(2)] aligned_mask(1) [OF assms(1)] assms(3) by simp

lemma vmm_alloc_cases:
  assumes ok: "vmm_ok R r d s P" and va: "va = region_va s r"
    and n: "pages \<noteq> 0" and rr: "range_ready d s va (unat pages)"
  obtains (backed) t fs where "vmm_alloc s r pages flags = Some (va, t)" "vmm_ok R r d t (P \<union> set fs)"
      "distinct fs" "set fs \<inter> P = {}" "\<forall>a\<in>set fs. a \<noteq> 0 \<and> a mod PAGE_SIZE = 0" "length fs = unat pages"
      "view t = over va (\<lambda>i. entry (fs ! i) flags) (unat pages) (view s)" "range_ready d t va (unat pages)"
      "rg_next_free_va (vm_region t r) = va + pages * PAGE_SIZE"
  | (full) t fs where "vmm_alloc s r pages flags = Some (-1, t)" "vmm_ok R r d t (P \<union> set fs)"
      "distinct fs" "set fs \<inter> P = {}" "\<forall>a\<in>set fs. a \<noteq> 0 \<and> a mod PAGE_SIZE = 0" "length fs < unat pages"
      "view t = over va (\<lambda>_. 0) (length fs) (view s)"
proof -
  let ?n = "unat pages"
  have r0: "r \<noteq> 0" using vmm_okD(2) [OF ok] by (simp add: active_def)
  from alloc_pages_ok [OF ok rr, of flags] obtain x t fs where
    f: "for_pages (alloc_page_at r va flags) 0 ?n s = Some (x, t)" "distinct fs" "set fs \<inter> P = {}"
      "\<forall>a\<in>set fs. a \<noteq> 0 \<and> a mod PAGE_SIZE = 0" "vmm_ok R r d t (P \<union> set fs)"
    and c: "x = 0 \<and> length fs = ?n \<and> view t = over va (\<lambda>i. entry (fs ! i) flags) ?n (view s) \<and> (\<forall>i<?n. ready t (page_at va i)) \<or>
     x = -1 \<and> length fs < ?n \<and> view t = over va (\<lambda>_. 0) (length fs) (view s)" by blast
  from c show ?thesis
  proof
    assume s: "x = 0 \<and> length fs = ?n \<and> view t = over va (\<lambda>i. entry (fs ! i) flags) ?n (view s) \<and> (\<forall>i<?n. ready t (page_at va i))"
    let ?t = "upd_region r (\<lambda>g. g\<lparr>rg_next_free_va := va + pages * PAGE_SIZE\<rparr>) t"
    have t: "vmm_ok R r d ?t (P \<union> set fs)" "view ?t = view t" "ready ?t = ready t" using upd_region_ok [OF f(5)] by simp_all
    have "range_ready d ?t va ?n" using rr s t(3) by (simp add: range_ready_def)
    moreover have "rg_next_free_va (vm_region ?t r) = va + pages * PAGE_SIZE" by (simp add: upd_region_def)
    moreover have "vmm_alloc s r pages flags = Some (va, ?t)"
      unfolding vmm_alloc_def using r0 n f(1) s va by (simp add: region_va_def Let_def)
    ultimately show ?thesis using s t f by (intro that(1) [of ?t fs]) simp_all
  next
    assume s: "x = -1 \<and> length fs < ?n \<and> view t = over va (\<lambda>_. 0) (length fs) (view s)"
    have "vmm_alloc s r pages flags = Some (-1, t)"
      unfolding vmm_alloc_def using r0 n f(1) s va by (simp add: region_va_def Let_def)
    then show ?thesis using s f by (intro that(2) [of t fs]) simp_all
  qed
qed

lemma resolve_frames:
  assumes t: "vmm_ok R r d t Q" and v: "view t = over va (\<lambda>i. entry (fs ! i) flags) n f" and rr: "range_ready d t' va n"
    and fs: "\<forall>a\<in>set fs. a \<noteq> 0 \<and> a mod PAGE_SIZE = 0" "length fs = n"
    and off: "page_offset va = 0" and fl: "flags AND PAGE_MASK = 0" and i: "i < n"
  shows "target (view t (page_at va i)) (page_at va i) = fs ! i" "vmm_resolve t r (page_at va i) = Some (fs ! i)"
proof -
  have n1: "n \<le> 1048576" and cl: "client_va d (page_at va i)" using rr i by (auto simp: range_ready_def)
  have "fs ! i \<in> set fs" using i fs by simp
  then have e: "target (entry (fs ! i) flags) (page_at va i) = fs ! i"
    using fs(1) off by (intro target_page [OF _ fl]) auto
  then show "target (view t (page_at va i)) (page_at va i) = fs ! i" using v over_at [OF n1 i] by simp
  show "vmm_resolve t r (page_at va i) = Some (fs ! i)" using resolve_over [OF t v n1 i cl] e by simp
qed

lemma resolve_outside:
  assumes "vmm_ok R r d s P" and "vmm_ok R r d t Q" and "view t = over va w k (view s)" and "k \<le> n"
    and "pd_index a \<noteq> 1023" and "\<forall>i<n. \<not> same_page a (page_at va i)"
  shows "vmm_resolve t r a = vmm_resolve s r a"
proof -
  have "\<forall>i<k. \<not> same_page a (page_at va i)" using assms(4,6) by auto
  then have "view t a = view s a" using assms(3) by (simp add: over_else)
  then show ?thesis using resolve_view [OF assms(1) assms(5)] resolve_view [OF assms(2) assms(5)] by simp
qed

text \<open>C13: In a loaded address space whose page tables for the range are all in place (the code does not look at what
  \<open>vmm_map\<close> returns, so without them it could report pages that are not mapped), \<open>vmm_alloc\<close> backs the
  range at the region's allocation pointer with distinct pages nobody holds, in order, and moves the
  pointer behind it; if the memory runs out it returns -1, the pages it had mapped are unmapped, the rest of the range is as it
  was, and the frames it had taken stay out. No other address changes its meaning.\<close>

theorem vmm_alloc_correct:
  assumes ok: "vmm_ok R r d s P" and va: "va = region_va s r" and off: "page_offset va = 0"
    and n: "pages \<noteq> 0" and rr: "range_ready d s va (unat pages)" and fl: "flags AND PAGE_MASK = 0"
  shows "\<exists>v s' fs. vmm_alloc s r pages flags = Some (v, s') \<and> vmm_ok R r d s' (P \<union> set fs) \<and>
    distinct fs \<and> set fs \<inter> P = {} \<and> 0 \<notin> set fs \<and>
    (v = va \<and> map (\<lambda>i. vmm_resolve s' r (page_at va i)) [0..<unat pages] = map Some fs \<and>
       rg_next_free_va (vm_region s' r) = va + pages * PAGE_SIZE \<or>
     v = -1 \<and> length fs < unat pages \<and>
       (\<forall>i<unat pages. vmm_resolve s' r (page_at va i) = (if i < length fs then Some 0 else vmm_resolve s r (page_at va i)))) \<and>
    (\<forall>a. pd_index a \<noteq> 1023 \<and> (\<forall>i<unat pages. \<not> same_page a (page_at va i)) \<longrightarrow> vmm_resolve s' r a = vmm_resolve s r a)"
  using ok va n rr
proof (cases rule: vmm_alloc_cases [where flags = flags])
  case (backed t fs)
  have "map (\<lambda>i. vmm_resolve t r (page_at va i)) [0..<unat pages] = map Some fs"
    using resolve_frames(2) [OF backed(2) backed(7) rr backed(5) backed(6) off fl] backed(6) by (intro nth_equalityI) simp_all
  moreover have "\<forall>a. pd_index a \<noteq> 1023 \<and> (\<forall>i<unat pages. \<not> same_page a (page_at va i)) \<longrightarrow> vmm_resolve t r a = vmm_resolve s r a"
    using resolve_outside [OF ok backed(2) backed(7) order_refl] by blast
  moreover have "0 \<notin> set fs" using backed(5) by auto
  ultimately show ?thesis using backed by blast
next
  case (full t fs)
  have n1: "length fs \<le> 1048576" and cl: "\<And>i. i < length fs \<Longrightarrow> client_va d (page_at va i)"
    using rr full(6) by (auto simp: range_ready_def)
  have "vmm_resolve t r (page_at va i) = Some 0" if "i < length fs" for i
    using resolve_over [OF full(2) full(7) n1 that cl [OF that]] by simp
  moreover have "vmm_resolve t r (page_at va i) = vmm_resolve s r (page_at va i)" if "\<not> i < length fs" "i < unat pages" for i
  proof (rule resolve_outside [OF ok full(2) full(7) order_refl])
    show "pd_index (page_at va i) \<noteq> 1023" using rr that by (auto simp: range_ready_def client_va_def)
    show "\<forall>j<length fs. \<not> same_page (page_at va i) (page_at va j)"
      using page_at_same that rr by (auto simp: range_ready_def)
  qed
  ultimately have "\<forall>i<unat pages. vmm_resolve t r (page_at va i) = (if i < length fs then Some 0 else vmm_resolve s r (page_at va i))"
    by simp
  moreover have "\<forall>a. pd_index a \<noteq> 1023 \<and> (\<forall>i<unat pages. \<not> same_page a (page_at va i)) \<longrightarrow> vmm_resolve t r a = vmm_resolve s r a"
    using resolve_outside [OF ok full(2) full(7) less_imp_le [OF full(6)]] by blast
  moreover have "0 \<notin> set fs" using full(5) by auto
  ultimately show ?thesis using full by blast
qed

lemma range_ready_mono: "range_ready d s va n \<Longrightarrow> m \<le> n \<Longrightarrow> range_ready d s va m"
  by (simp add: range_ready_def)

lemma demo_range: "range_ready 0xFFFFF000 demo_vm 0x400000 2"
proof -
  have "pd_index (page_at 0x400000 i) = 1 \<and> \<not> same_page (page_at 0x400000 i) 0xFFFFF000" if "i < 2" for i
  proof -
    from that consider "i = 0" | "i = 1" by linarith
    then show ?thesis by cases (simp_all add: page_at_def pd_index_nat same_page_def)
  qed
  moreover have "present (pde demo_vm 1)" unfolding demo_pde by (simp add: present_def PAGE_PRESENT_def)
  ultimately show ?thesis unfolding range_ready_def client_va_def ready_def by simp
qed

lemma demo_region_va: "region_va demo_vm 0x5000 = 0x400000"
  by (simp add: region_va_def demo_vm_def)

theorem vmm_alloc_correct_witness:
  "\<exists>v s' fs. vmm_alloc demo_vm 0x5000 2 6 = Some (v, s') \<and> vmm_ok {} 0x5000 0xFFFFF000 s' ({} \<union> set fs) \<and>
    distinct fs \<and> 0 \<notin> set fs \<and> (v = 0x400000 \<or> v = -1)"
proof -
  have "range_ready 0xFFFFF000 demo_vm 0x400000 (unat (2 :: u32))" using demo_range by simp
  with vmm_alloc_correct [OF demo_vm_ok demo_region_va [symmetric], of 2 6] show ?thesis
    by (fastforce simp: page_offset_def PAGE_MASK_def)
qed

lemma vmm_free_ok:
  assumes ok: "vmm_ok R r d s P" and rr: "range_ready d s va (unat pages)"
    and fs: "distinct fs" "set fs \<subseteq> P" "length fs = unat pages" "0 \<notin> set fs"
    and m: "\<And>i. i < unat pages \<Longrightarrow> target (view s (page_at va i)) (page_at va i) = fs ! i"
  obtains s' where "vmm_free s r va pages = Some s'" "vmm_ok R r d s' (P - set fs)"
    "view s' = over va (\<lambda>_. 0) (unat pages) (view s)"
proof -
  from rr have "unat pages \<le> 1048576" "\<And>i. i < unat pages \<Longrightarrow> client_va d (page_at va i)"
    by (simp_all add: range_ready_def)
  from vas.drop_range [OF ok this(2,1) fs m] obtain s' where
    "for_pages (address_space.drop_page (\<lambda>s. vmm_unmap s r) (\<lambda>s. vmm_resolve s r) page_free va) 0 (unat pages) s = Some (0, s')"
    "vmm_ok R r d s' (P - set fs)" "view s' = over va (\<lambda>_. 0) (unat pages) (view s)" by blast
  then show ?thesis using that unfolding vmm_free_def vas.drop_page_def by simp
qed

text \<open>What vmm_alloc has allocated vmm_free gives back completely: afterwards the page
  allocator has every page again, no address of the range is mapped, and the rest of the address
  space is as it was before the allocation.\<close>

theorem vmm_alloc_free_roundtrip:
  assumes ok: "vmm_ok R r d s P" and off: "page_offset (region_va s r) = 0"
    and n: "pages \<noteq> 0" and rr: "range_ready d s (region_va s r) (unat pages)" and fl: "flags AND PAGE_MASK = 0"
    and alloc: "vmm_alloc s r pages flags = Some (v, s')" and v: "v \<noteq> -1"
  shows "\<exists>s''. vmm_free s' r v pages = Some s'' \<and> vmm_ok R r d s'' P \<and>
    (\<forall>i<unat pages. vmm_resolve s'' r (page_at v i) = Some 0) \<and>
    (\<forall>a. pd_index a \<noteq> 1023 \<and> (\<forall>i<unat pages. \<not> same_page a (page_at v i)) \<longrightarrow> vmm_resolve s'' r a = vmm_resolve s r a)"
  using ok refl n rr
proof (cases rule: vmm_alloc_cases [where flags = flags])
  case (backed t fs)
  have t: "s' = t" "v = region_va s r" using backed(1) alloc by simp_all
  have "set fs \<subseteq> P \<union> set fs" "0 \<notin> set fs" using backed(5) by auto
  from vmm_free_ok [OF backed(2) backed(8) backed(3) this(1) backed(6) this(2)
      resolve_frames(1) [OF backed(2) backed(7) rr backed(5) backed(6) off fl]]
  obtain u where u: "vmm_free t r (region_va s r) pages = Some u" "vmm_ok R r d u (P \<union> set fs - set fs)"
    "view u = over (region_va s r) (\<lambda>_. 0) (unat pages) (view t)" .
  have "P \<union> set fs - set fs = P" using backed(4) by auto
  with u(2) have ok': "vmm_ok R r d u P" by simp
  have vu: "view u = over (region_va s r) (\<lambda>_. 0) (unat pages) (view s)" using u(3) backed(7) by (simp add: over_over)
  have n1: "unat pages \<le> 1048576" and cl: "\<And>i. i < unat pages \<Longrightarrow> client_va d (page_at (region_va s r) i)"
    using rr by (auto simp: range_ready_def)
  have "\<forall>i<unat pages. vmm_resolve u r (page_at (region_va s r) i) = Some 0"
    using resolve_over [OF ok' vu n1 _ cl] by simp
  moreover have "\<forall>a. pd_index a \<noteq> 1023 \<and> (\<forall>i<unat pages. \<not> same_page a (page_at (region_va s r) i)) \<longrightarrow>
      vmm_resolve u r a = vmm_resolve s r a"
    using resolve_outside [OF ok ok' vu order_refl] by blast
  ultimately show ?thesis using u(1) ok' t by blast
next
  case (full t fs)
  then show ?thesis using alloc v by simp
qed

lemma demo_page_alloc: "\<exists>s'. page_alloc demo_vm = Some (0x100000, s')"
proof -
  have l: "buddy_lock demo4_pmm = 0" by (simp add: demo4_pmm_def demo_pmm_def)
  have "pmm_fetch_order_block (demo4_pmm\<lparr>buddy_lock := 1\<rparr>) 0 =
      (Some 0, set_free_list 0 (Some 1) (demo4_pmm\<lparr>buddy_lock := 1\<rparr>))"
    by (subst pmm_fetch_order_block.simps) (simp add: demo4_pmm_def demo_pmm_def)
  then have "\<exists>p. pmm_alloc_page demo4_pmm = Some (Some 0x100000, p)"
    unfolding pmm_alloc_page_unfold [OF l] pmm_alloc_block_def
    by (simp add: Let_def) (simp add: demo4_pmm_def demo_pmm_def upd_page_def set_free_list_def)
  then show ?thesis by (auto simp: page_alloc_def demo_vm_def)
qed

theorem vmm_alloc_free_roundtrip_witness:
  "\<exists>v s' s''. vmm_alloc demo_vm 0x5000 1 6 = Some (v, s') \<and> v \<noteq> -1 \<and> vmm_free s' 0x5000 v 1 = Some s'' \<and>
    vmm_ok {} 0x5000 0xFFFFF000 s'' {}"
proof -
  have rr: "range_ready 0xFFFFF000 demo_vm 0x400000 (unat (1 :: u32))" using range_ready_mono [OF demo_range, of 1] by simp
  have n: "(1 :: u32) \<noteq> 0" by simp
  have "\<exists>t. vmm_alloc demo_vm 0x5000 1 6 = Some (0x400000, t)"
    using demo_vm_ok demo_region_va [symmetric] n rr
  proof (cases rule: vmm_alloc_cases [where flags = 6])
    case (full t fs)
    from demo_page_alloc obtain s1 where s1: "page_alloc demo_vm = Some (0x100000, s1)" by blast
    have "vmm_alloc demo_vm 0x5000 1 6 \<noteq> Some (-1, t)"
      using demo_region_va unfolding vmm_alloc_def alloc_page_at_def region_va_def
      by (auto simp: Let_def s1 split: bind_splits)
    with full(1) show ?thesis by simp
  qed blast
  then obtain t where t: "vmm_alloc demo_vm 0x5000 1 6 = Some (0x400000, t)" by blast
  obtain s'' where "vmm_free t 0x5000 0x400000 1 = Some s''" "vmm_ok {} 0x5000 0xFFFFF000 s'' {}"
    using vmm_alloc_free_roundtrip [OF demo_vm_ok _ n _ _ t] demo_region_va rr
    by (auto simp: page_offset_def PAGE_MASK_def)
  with t show ?thesis by (intro exI [of _ "0x400000"] exI [of _ t] exI [of _ s'']) auto
qed

section \<open>Searching free addresses\<close>

lemma unat_page_at0: "k < 1048576 \<Longrightarrow> unat (page_at 0 k) = k * 4096"
  by (simp add: page_at_def unat_word_ariths unat_of_nat_u32)

lemma page_at_Suc: "page_at va (Suc i) = page_at va i + PAGE_SIZE"
  by (simp add: page_at_def algebra_simps)

lemma unat_Suc_u32: "(r :: u32) < p \<Longrightarrow> unat (r + 1) = Suc (unat r)"
proof -
  assume "r < p"
  then have "unat r + 1 < 4294967296" using unat_less_2p32 [of p] unfolding word_less_nat_alt by linarith
  then show ?thesis by (simp add: unat_plus_u32)
qed

text \<open>What the search returns is a run of unused pages, wherever it started.\<close>

lemma find_free_sound:
  assumes "find_free_loop used pages va run start = Some v"
    and "page_offset va = 0" and "run < pages" and "run > 0 \<Longrightarrow> start = va - run * PAGE_SIZE"
    and "\<And>i. i < unat run \<Longrightarrow> used (page_at (va - run * PAGE_SIZE) i) = Some False"
  shows "page_offset v = 0 \<and> (\<forall>i<unat pages. used (page_at v i) = Some False)"
proof -
  let ?Q = "\<lambda>va run start v. page_offset va = 0 \<longrightarrow> run < pages \<longrightarrow> (run > 0 \<longrightarrow> start = va - run * PAGE_SIZE) \<longrightarrow>
     (\<forall>i<unat run. used (page_at (va - run * PAGE_SIZE) i) = Some False) \<longrightarrow>
     page_offset v = 0 \<and> (\<forall>i<unat pages. used (page_at v i) = Some False)"
  have "used = used \<longrightarrow> pages = pages \<longrightarrow> ?Q va run start v"
  proof (rule find_free_loop.raw_induct [where P = "\<lambda>u p va run start v. u = used \<longrightarrow> p = pages \<longrightarrow> ?Q va run start v", OF _ assms(1)])
    fix loop u p va run start v
    assume IH: "\<And>u p va run start v. loop u p va run start = Some v \<Longrightarrow> u = used \<longrightarrow> p = pages \<longrightarrow> ?Q va run start v"
      and res: "(if va < 0xFFFFFFFF then do {
        x \<leftarrow> u va;
        if \<not> x then
          (let start = (if run = 0 then va else start); run = run + 1
           in if run \<ge> p then Some start else loop u p (va + PAGE_SIZE) run start)
        else loop u p (va + PAGE_SIZE) 0 start
      } else Some 0) = Some v"
    show "u = used \<longrightarrow> p = pages \<longrightarrow> ?Q va run start v"
    proof (intro impI)
      assume eq: "u = used" "p = pages" and off: "page_offset va = 0" and lt: "run < pages"
        and st: "run > 0 \<longrightarrow> start = va - run * PAGE_SIZE"
        and free: "\<forall>i<unat run. used (page_at (va - run * PAGE_SIZE) i) = Some False"
      let ?st = "if run = 0 then va else start"
      have st': "?st = va - run * PAGE_SIZE" using st by (auto simp: word_gt_0)
      have va: "va < 0xFFFFFFFF"
      proof (rule ccontr)
        assume "\<not> va < 0xFFFFFFFF"
        then have "\<not> unat va < 4294967295" by (simp add: word_less_nat_alt)
        then have "unat va = 4294967295" using unat_less_2p32 [of va] by linarith
        then have "unat (page_offset va) = 4095" by (simp add: page_offset_nat)
        then show False using off by simp
      qed
      have off': "page_offset (va + PAGE_SIZE) = 0" using off page_at_offset [of va 1] by (simp add: page_at_def)
      have run': "unat (run + 1) = Suc (unat run)" using lt by (rule unat_Suc_u32)
      from res va obtain x where x: "used va = Some x" by (auto simp: eq split: bind_splits)
      show "page_offset v = 0 \<and> (\<forall>i<unat pages. used (page_at v i) = Some False)"
      proof (cases x)
        case True
        with res va x have "loop used pages (va + PAGE_SIZE) 0 start = Some v" by (simp add: eq)
        from IH [OF this] off' lt show ?thesis by (auto simp: word_gt_0)
      next
        case False
        have base: "va + PAGE_SIZE - (run + 1) * PAGE_SIZE = va - run * PAGE_SIZE" by (simp add: algebra_simps)
        have free': "used (page_at (va - run * PAGE_SIZE) i) = Some False" if "i < Suc (unat run)" for i
        proof (cases "i = unat run")
          case True
          then have "page_at (va - run * PAGE_SIZE) i = va" by (simp add: page_at_def)
          then show ?thesis using x False by simp
        next
          case False
          then show ?thesis using that free by simp
        qed
        show ?thesis
        proof (cases "run + 1 \<ge> pages")
          case True
          then have "v = va - run * PAGE_SIZE" using res va x False st' by (simp add: eq Let_def)
          moreover have "page_offset (va - run * PAGE_SIZE) = 0"
            using off page_at_offset [of "va - run * PAGE_SIZE" "unat run"] by (simp add: page_at_def)
          moreover have "unat pages \<le> Suc (unat run)" using True run' by (simp add: word_le_nat_alt)
          ultimately show ?thesis using free' by simp
        next
          case nd: False
          then have "loop used pages (va + PAGE_SIZE) (run + 1) ?st = Some v"
            using res va x False by (simp add: eq Let_def)
          from IH [OF this] off' nd base st' free' run' show ?thesis by simp
        qed
      qed
    qed
  qed
  then show ?thesis using assms(2-5) by simp
qed

text \<open>If there is a run of unused pages the search reaches it.\<close>

lemma find_free_in_run:
  assumes run: "\<And>i. k \<le> i \<Longrightarrow> i < k + unat pages \<Longrightarrow> used (page_at 0 i) = Some False"
    and "k + unat pages \<le> 1048576" and "k \<le> j" and "j < k + unat pages" and "j - k \<le> unat r" and "r < pages"
  shows "\<exists>v. find_free_loop used pages (page_at 0 j) r start = Some v"
  using assms(3-6)
proof (induction "k + unat pages - j" arbitrary: j r start)
  case (Suc m)
  have va: "page_at 0 j < 0xFFFFFFFF"
    using unat_page_at0 [of j] Suc.prems(2) assms(2) by (simp add: word_less_nat_alt)
  have r': "unat (r + 1) = Suc (unat r)" using Suc.prems(4) by (rule unat_Suc_u32)
  have u: "used (page_at 0 j) = Some False" using run Suc.prems by simp
  show ?case
  proof (cases "r + 1 \<ge> pages")
    case True
    then show ?thesis using va u by (subst find_free_loop.simps) (simp add: Let_def)
  next
    case False
    then have lt: "unat r + 1 < unat pages" using r' by (simp add: word_le_nat_alt)
    have "\<exists>v. find_free_loop used pages (page_at 0 (Suc j)) (r + 1) (if r = 0 then page_at 0 j else start) = Some v"
    proof (rule Suc.hyps)
      show "m = k + unat pages - Suc j" using Suc.hyps(2) by simp
      show "Suc j < k + unat pages" "Suc j - k \<le> unat (r + 1)" using lt r' Suc.prems by simp_all
    qed (use False Suc.prems in auto)
    then show ?thesis using va u False
      by (subst find_free_loop.simps) (simp add: Let_def page_at_Suc)
  qed
qed simp

lemma find_free_reaches:
  assumes run: "\<And>i. k \<le> i \<Longrightarrow> i < k + unat pages \<Longrightarrow> used (page_at 0 i) = Some False"
    and k: "k + unat pages \<le> 1048576" and def: "\<And>va. used va \<noteq> None" and "j \<le> k" and "r < pages"
  shows "\<exists>v. find_free_loop used pages (page_at 0 j) r start = Some v"
  using assms(4-)
proof (induction "k - j" arbitrary: j r start)
  case 0
  then have "j = k" by simp
  moreover have "k < k + unat pages" using 0 by (auto simp: word_less_nat_alt)
  ultimately show ?case using find_free_in_run [where k = k and used = used and pages = pages and j = k and r = r, OF run k] \<open>r < pages\<close> by simp
next
  case (Suc m)
  have pos: "0 < pages" using Suc.prems(2) by (metis word_gt_0 word_not_simps(1))
  have "j < 1048576" using Suc k by (auto simp: word_less_nat_alt)
  then have va: "page_at 0 j < 0xFFFFFFFF" using unat_page_at0 [of j] by (simp add: word_less_nat_alt)
  from def [of "page_at 0 j"] obtain x where x: "used (page_at 0 j) = Some x" by blast
  have IH: "\<exists>v. find_free_loop used pages (page_at 0 (Suc j)) r' start' = Some v" if "r' < pages" for r' start'
    by (rule Suc.hyps) (use Suc that in auto)
  show ?case
  proof (cases "\<not> x \<and> \<not> r + 1 \<ge> pages")
    case True
    then have "r + 1 < pages" by (metis linorder_not_le)
    then show ?thesis using va x True IH [of "r + 1" "if r = 0 then page_at 0 j else start"]
      by (subst find_free_loop.simps) (simp add: Let_def page_at_Suc)
  next
    case False
    then show ?thesis using va x IH [of 0] pos by (subst find_free_loop.simps) (auto simp: Let_def page_at_Suc)
  qed
qed

text \<open>If the first pages are unused, the search returns 0, which its callers take for failure.\<close>

lemma find_free_first:
  assumes "\<And>i. i < unat pages \<Longrightarrow> used (page_at 0 i) = Some False" and "unat pages \<le> 1048576" and "j < unat pages"
  shows "find_free_loop used pages (page_at 0 j) (of_nat j) 0 = Some 0"
  using assms(3)
proof (induction "unat pages - j" arbitrary: j)
  case (Suc m)
  have j: "j < 1048576" using Suc.prems assms(2) by simp
  have va: "page_at 0 j < 0xFFFFFFFF" using unat_page_at0 [OF j] j by (simp add: word_less_nat_alt)
  have u: "used (page_at 0 j) = Some False" using assms(1) Suc.prems .
  have st: "(if of_nat j = (0 :: u32) then page_at 0 j else 0) = 0"
    using j of_nat_u32_inj [of j 0] by auto
  have nj: "unat (of_nat j + 1 :: u32) = Suc j" using j unat_of_nat_u32 [of "Suc j"] by (simp add: add.commute)
  show ?case
  proof (cases "(of_nat j + 1 :: u32) \<ge> pages")
    case True
    then show ?thesis using va u st by (subst find_free_loop.simps) (simp add: Let_def)
  next
    case False
    then have "Suc j < unat pages" using nj by (simp add: word_le_nat_alt)
    then have "find_free_loop used pages (page_at 0 (Suc j)) (of_nat (Suc j)) 0 = Some 0"
      using Suc.hyps(1) [of "Suc j"] Suc.hyps(2) by (simp del: of_nat_Suc)
    then show ?thesis using va u st False
      by (subst find_free_loop.simps) (simp add: Let_def page_at_Suc add.commute)
  qed
qed simp

lemma va_used_ok:
  assumes ok: "vmm_ok R r d s P"
  shows "va_used s r va = Some (present (pte s va))"
proof (cases "present (pde s (pd_index va))")
  case True
  have g: "vload s (RECURSIVE_PT (pd_index va) + 4 * of_nat (pt_index va)) =
      Some (vm_frames s (pde s (pd_index va) AND PAGE_MASK) (pt_index va))"
    using pt_get_recursive [OF vmm_okD(3) [OF ok] index_bounds(1) index_bounds(2) True] by (simp add: pt_get_def)
  have "RECURSIVE_PT (pd_index va) \<noteq> 0"
    using recursive_pt(2) [OF index_bounds(1)] by (metis zero_neq_numeral pd_index_nat unat_0 div_0 mod_0)
  then show ?thesis using True g dir_get_ok [OF ok index_bounds(1)]
    unfolding va_used_def vmm_get_pt_def vmm_get_pde_def pte_def present_def by simp
next
  case False
  then show ?thesis using dir_get_ok [OF ok index_bounds(1)]
    unfolding va_used_def vmm_get_pt_def vmm_get_pde_def pte_def present_def by simp
qed

lemma top_page_used:
  assumes ok: "vmm_ok R r d s P"
  shows "present (pte s (page_at 0 1048575))"
proof -
  have "unat (page_at 0 1048575) = 4294963200" using unat_page_at0 [of 1048575] by simp
  then have "pd_index (page_at 0 1048575) = 1023" "pt_index (page_at 0 1048575) = 1023"
    by (simp_all add: pd_index_nat pt_index_nat)
  then show ?thesis using vmm_okD(3) [OF ok] by (simp add: pte_def recursive_def present_def)
qed

text \<open>C14: The search for free addresses returns exactly when there is a run of that many pages that
  are not mapped (otherwise it wraps round the address space for ever), and what it returns is the
  page-aligned start of such a run that does not run over the end of the address space.\<close>

theorem vmm_find_free_range_correct:
  assumes ok: "vmm_ok R r d s P" and pos: "pages \<noteq> 0"
  shows "((\<exists>v. vmm_find_free_range s r pages = Some v) \<longleftrightarrow>
      (\<exists>k. k + unat pages \<le> 1048576 \<and> (\<forall>i<unat pages. \<not> present (pte s (page_at 0 (k + i)))))) \<and>
    (\<forall>v. vmm_find_free_range s r pages = Some v \<longrightarrow> page_offset v = 0 \<and>
      unat v + unat pages * 4096 \<le> 4294967296 \<and> (\<forall>i<unat pages. \<not> present (pte s (page_at v i))))"
proof -
  have used: "va_used s r = (\<lambda>va. Some (present (pte s va)))" by (rule ext) (rule va_used_ok [OF ok])
  have sound: "page_offset v = 0 \<and> unat v + unat pages * 4096 \<le> 4294967296 \<and>
      v = page_at 0 (unat v div 4096) \<and> unat v div 4096 + unat pages \<le> 1048576 \<and>
      (\<forall>i<unat pages. \<not> present (pte s (page_at v i)))"
    if res: "vmm_find_free_range s r pages = Some v" for v
  proof -
    have "page_offset v = 0 \<and> (\<forall>i<unat pages. va_used s r (page_at v i) = Some False)"
      using res pos unfolding vmm_find_free_range_def
      by (rule_tac find_free_sound [of _ _ 0 0 0]) (auto simp: page_offset_def word_gt_0)
    then have off: "page_offset v = 0" and free: "\<forall>i<unat pages. \<not> present (pte s (page_at v i))"
      by (simp_all add: used)
    have "unat v mod 4096 = 0" using off page_offset_nat [of v] by simp
    then have v4: "unat v = unat v div 4096 * 4096" by (metis div_mult_mod_eq add_0_right)
    have k: "unat v div 4096 < 1048576" using unat_less_2p32 [of v] v4 by linarith
    have v: "v = page_at 0 (unat v div 4096)"
    proof -
      have "unat (page_at 0 (unat v div 4096)) = unat v" using unat_page_at0 [OF k] v4 by simp
      then show ?thesis by (simp only: word_unat_eq_iff)
    qed
    have "unat v div 4096 + unat pages \<le> 1048576"
    proof (rule ccontr)
      assume "\<not> unat v div 4096 + unat pages \<le> 1048576"
      then have i: "1048575 - unat v div 4096 < unat pages" using k by linarith
      have "page_at v (1048575 - unat v div 4096) = page_at 0 (unat v div 4096 + (1048575 - unat v div 4096))"
        by (subst v) (simp add: page_at_def algebra_simps)
      also have "\<dots> = page_at 0 1048575" using k by simp
      finally show False using free i top_page_used [OF ok] by auto
    qed
    moreover from this v4 have "unat v + unat pages * 4096 \<le> 4294967296" by linarith
    ultimately show ?thesis using off free v by blast
  qed
  have reach: "\<exists>v. vmm_find_free_range s r pages = Some v"
    if k: "k + unat pages \<le> 1048576" "\<forall>i<unat pages. \<not> present (pte s (page_at 0 (k + i)))" for k
  proof -
    have run: "va_used s r (page_at 0 i) = Some False" if "k \<le> i" "i < k + unat pages" for i
      using k(2) that by (auto simp: used dest: spec [of _ "i - k"])
    have "0 < pages" using pos by (simp add: word_gt_0)
    from find_free_reaches [where k = k and pages = pages and used = "va_used s r" and j = 0 and r = 0 and start = 0,
        OF run k(1) _ _ this]
    show ?thesis unfolding vmm_find_free_range_def by (simp add: used)
  qed
  show ?thesis
  proof (intro conjI iffI allI impI)
    assume "\<exists>v. vmm_find_free_range s r pages = Some v"
    then obtain v where "vmm_find_free_range s r pages = Some v" by blast
    from sound [OF this] have v: "v = page_at 0 (unat v div 4096)" "unat v div 4096 + unat pages \<le> 1048576"
      "\<forall>i<unat pages. \<not> present (pte s (page_at v i))" by blast+
    have "page_at 0 (unat v div 4096 + i) = page_at v i" for i
      by (subst (2) v(1)) (simp add: page_at_def algebra_simps)
    then show "\<exists>k. k + unat pages \<le> 1048576 \<and> (\<forall>i<unat pages. \<not> present (pte s (page_at 0 (k + i))))"
      using v by (intro exI [of _ "unat v div 4096"]) simp
  qed (use sound reach in blast)+
qed

theorem vmm_find_free_range_correct_witness:
  "\<exists>v. vmm_find_free_range demo_vm 0x5000 3 = Some v \<and> page_offset v = 0 \<and> unat v + 12288 \<le> 4294967296"
proof -
  have "\<not> present (pte demo_vm (page_at 0 (0 + i)))" if "i < unat (3 :: u32)" for i
  proof -
    have "unat (page_at 0 i) = i * 4096" using that by (intro unat_page_at0) simp
    then have "pd_index (page_at 0 i) = 0" using that by (simp add: pd_index_nat)
    then show ?thesis unfolding pte_def using demo_pde [of 0] by (simp add: present_def PAGE_PRESENT_def)
  qed
  then have "\<exists>k. k + unat (3 :: u32) \<le> 1048576 \<and> (\<forall>i<unat (3 :: u32). \<not> present (pte demo_vm (page_at 0 (k + i))))"
    by (intro exI [of _ 0]) simp
  with vmm_find_free_range_correct [OF demo_vm_ok, of 3] show ?thesis by auto
qed

text \<open>While the lowest pages are not mapped (nothing maps page 0), the search returns address 0,
  which every caller takes for failure: vmm_map_anonymous and vmm_alloc_stack fail at once, however
  much memory and address space is free.\<close>

theorem vmm_map_anonymous_fails_low:
  assumes ok: "vmm_ok R r d s P" and pos: "pages \<noteq> 0" and n: "unat pages \<le> 1048574"
    and low: "\<And>i. i < unat pages + 2 \<Longrightarrow> \<not> present (pte s (page_at 0 i))"
  shows "vmm_map_anonymous s r pages flags = Some (0, s) \<and> vmm_alloc_stack s r pages flags = Some (0, s)"
proof -
  have z: "vmm_find_free_range s r k = Some 0" if "k \<noteq> 0" "unat k \<le> unat pages + 2" for k
  proof -
    have free: "va_used s r (page_at 0 i) = Some False" if "i < unat k" for i
      using low [of i] that \<open>unat k \<le> unat pages + 2\<close> by (simp add: va_used_ok [OF ok])
    have "unat k \<noteq> 0" using that(1) by (simp add: unat_eq_zero)
    then show ?thesis using find_free_first [where pages = k and j = 0 and used = "va_used s r", OF free] that(2) n
      by (simp add: vmm_find_free_range_def)
  qed
  have two: "unat (pages + 2) = unat pages + 2" using n by (simp add: unat_plus_u32)
  have "pages + 2 \<noteq> 0"
  proof
    assume "pages + 2 = 0"
    then have "unat (pages + 2) = 0" by simp
    then show False using two by simp
  qed
  then have "vmm_find_free_range s r (pages + 2) = Some 0" using z two by simp
  moreover have "vmm_find_free_range s r pages = Some 0" using z pos by simp
  moreover have "r \<noteq> 0" using vmm_okD(2) [OF ok] by (simp add: active_def)
  ultimately show ?thesis using pos unfolding vmm_map_anonymous_def vmm_alloc_stack_def by simp
qed

theorem vmm_map_anonymous_fails_low_witness:
  "vmm_map_anonymous demo_vm 0x5000 3 6 = Some (0, demo_vm) \<and> vmm_alloc_stack demo_vm 0x5000 3 6 = Some (0, demo_vm)"
proof (rule vmm_map_anonymous_fails_low [OF demo_vm_ok])
  fix i assume "i < unat (3 :: u32) + 2"
  then have i: "i < 5" by simp
  then have "unat (page_at 0 i) = i * 4096" by (intro unat_page_at0) simp
  then have "pd_index (page_at 0 i) = 0" using i by (simp add: pd_index_nat)
  then show "\<not> present (pte demo_vm (page_at 0 i))"
    unfolding pte_def using demo_pde [of 0] by (simp add: present_def PAGE_PRESENT_def)
qed simp_all

section \<open>Buffers of user programs\<close>

definition user_page :: "vm \<Rightarrow> u32 \<Rightarrow> bool" where
  "user_page s va \<longleftrightarrow> present (pde s (pd_index va)) \<and> pde s (pd_index va) AND PAGE_USER \<noteq> 0 \<and>
     present (pte s va) \<and> pte s va AND PAGE_USER \<noteq> 0"

lemma user_page_same: "same_page a b \<Longrightarrow> user_page s a = user_page s b"
  unfolding user_page_def using pte_same_page [of a b s] by (simp add: same_page_iff)

lemma user_mapped_ok:
  assumes ok: "vmm_ok R r d s P"
  shows "vmm_is_user_mapped s r va = Some (if user_page s va then 1 else 0)"
proof -
  have r0: "r \<noteq> 0" using vmm_okD(2) [OF ok] by (simp add: active_def)
  show ?thesis
  proof (cases "present (pde s (pd_index va))")
    case True
    have "pt_get s (pd_index va) (pt_index va) = Some (pte s va)"
      using pt_get_recursive [OF vmm_okD(3) [OF ok] index_bounds(1) index_bounds(2) True] True
      by (simp add: pte_def present_def)
    then show ?thesis using True r0 dir_get_ok [OF ok index_bounds(1)]
      unfolding vmm_is_user_mapped_def user_page_def by (simp add: present_def)
  next
    case False
    then show ?thesis using r0 dir_get_ok [OF ok index_bounds(1)]
      unfolding vmm_is_user_mapped_def user_page_def by (simp add: present_def)
  qed
qed

lemma verify_loop_pages:
  assumes mp: "\<And>va. mapped va = Some (if U va then 1 else 0)" and m: "m < 1048575"
  shows "k \<le> Suc m \<Longrightarrow> verify_loop mapped (page_at 0 k) (page_at 0 m) =
    Some (if \<forall>j. k \<le> j \<and> j \<le> m \<longrightarrow> U (page_at 0 j) then 0 else -1)"
proof (induction "Suc m - k" arbitrary: k)
  case 0
  then have k: "k = Suc m" by simp
  have "\<not> page_at 0 (Suc m) \<le> page_at 0 m"
    using unat_page_at0 [of m] unat_page_at0 [of "Suc m"] m by (simp add: word_le_nat_alt)
  then show ?case unfolding k by (subst verify_loop.simps) auto
next
  case (Suc x)
  then have k: "k \<le> m" by simp
  then have le: "page_at 0 k \<le> page_at 0 m" using unat_page_at0 [of m] unat_page_at0 [of k] m by (simp add: word_le_nat_alt)
  show ?case
  proof (cases "U (page_at 0 k)")
    case True
    have "verify_loop mapped (page_at 0 (Suc k)) (page_at 0 m) =
      Some (if \<forall>j. Suc k \<le> j \<and> j \<le> m \<longrightarrow> U (page_at 0 j) then 0 else -1)"
      using Suc.hyps(1) [of "Suc k"] Suc.hyps(2) k by simp
    moreover have "(\<forall>j. Suc k \<le> j \<and> j \<le> m \<longrightarrow> U (page_at 0 j)) = (\<forall>j. k \<le> j \<and> j \<le> m \<longrightarrow> U (page_at 0 j))"
      using True by (metis Suc_le_eq le_neq_implies_less less_imp_le)
    moreover have "verify_loop mapped (page_at 0 k) (page_at 0 m) = verify_loop mapped (page_at 0 (Suc k)) (page_at 0 m)"
      using le mp [of "page_at 0 k"] True by (subst verify_loop.simps) (simp add: page_at_Suc)
    ultimately show ?thesis by simp
  next
    case False
    then show ?thesis using le mp [of "page_at 0 k"] k by (subst verify_loop.simps) auto
  qed
qed

lemma mask_page: "a AND PAGE_MASK = page_at 0 (unat a div 4096)"
proof -
  have k: "unat a div 4096 < 1048576" using unat_less_2p32 [of a] by (intro less_mult_imp_div_less) simp
  have e: "(a AND PAGE_MASK) + page_offset a = a"
  proof -
    have "(a AND m) AND (a AND n) = a AND (m AND n)" for m n by (rule bit_word_eqI) (auto simp: bit_simps)
    then have "(a AND PAGE_MASK) AND page_offset a = 0" unfolding PAGE_MASK_def page_offset_def by simp
    then have "(a AND PAGE_MASK) + page_offset a = (a AND PAGE_MASK) OR page_offset a"
      using word_plus_and_or [of "a AND PAGE_MASK" "page_offset a"] by simp
    also have "\<dots> = a"
    proof -
      have "(0xFFFFF000 OR 0xFFF :: u32) = - 1" by simp
      then show ?thesis unfolding page_offset_def PAGE_MASK_def by (simp only: bit.conj_disj_distrib [symmetric]) simp
    qed
    finally show ?thesis .
  qed
  then have "a AND PAGE_MASK = a - page_offset a" by (simp add: eq_diff_eq)
  moreover have "page_offset a \<le> a" unfolding word_le_nat_alt page_offset_nat by simp
  ultimately have "unat (a AND PAGE_MASK) = unat a - unat a mod 4096" by (simp add: unat_minus_u32 page_offset_nat)
  also have "\<dots> = unat (page_at 0 (unat a div 4096))" using unat_page_at0 [OF k] by (simp add: minus_mod_eq_div_mult)
  finally show ?thesis by (simp only: word_unat_eq_iff)
qed

lemma verify_buffer_pages:
  assumes ok: "vmm_ok R r d s P" and top: "unat addr + unat sz \<le> 4294963200" and sz: "sz \<noteq> 0"
  shows "vmm_verify_buffer s r addr sz =
    Some (if \<forall>i<unat sz. user_page s (addr + of_nat i) then 0 else -1)"
proof -
  let ?k = "unat addr div 4096" and ?m = "(unat addr + unat sz - 1) div 4096"
  have sz1: "0 < unat sz" using sz by (simp add: unat_gt_0)
  have e: "unat (addr + sz) = unat addr + unat sz" using top by (simp add: unat_plus_u32)
  have "(1 :: u32) \<le> addr + sz" using e sz1 by (simp add: word_le_nat_alt)
  then have e1: "unat (addr + sz - 1) = unat addr + unat sz - 1" using e by (simp add: unat_minus_u32)
  have nw: "\<not> addr + sz < addr" using e by (simp add: word_less_nat_alt)
  have m: "?m < 1048575" using top sz1 by (intro less_mult_imp_div_less) simp
  have km: "?k \<le> Suc ?m" using sz1 by (intro le_SucI div_le_mono) simp
  have all: "(\<forall>j. ?k \<le> j \<and> j \<le> ?m \<longrightarrow> user_page s (page_at 0 j)) \<longleftrightarrow> (\<forall>i<unat sz. user_page s (addr + of_nat i))"
  proof
    assume L: "\<forall>j. ?k \<le> j \<and> j \<le> ?m \<longrightarrow> user_page s (page_at 0 j)"
    show "\<forall>i<unat sz. user_page s (addr + of_nat i)"
    proof (intro allI impI)
      fix i assume i: "i < unat sz"
      have u: "unat (addr + of_nat i) = unat addr + i"
        using i top by (subst unat_plus_u32) (simp_all add: unat_of_nat_u32)
      let ?j = "(unat addr + i) div 4096"
      have "?k \<le> ?j" "?j \<le> ?m" using i by (auto intro: div_le_mono)
      then have "user_page s (page_at 0 ?j)" using L by blast
      moreover have "same_page (page_at 0 ?j) (addr + of_nat i)"
        unfolding same_page_def u using \<open>?j \<le> ?m\<close> m by (simp add: unat_page_at0)
      ultimately show "user_page s (addr + of_nat i)" using user_page_same by blast
    qed
  next
    assume R: "\<forall>i<unat sz. user_page s (addr + of_nat i)"
    show "\<forall>j. ?k \<le> j \<and> j \<le> ?m \<longrightarrow> user_page s (page_at 0 j)"
    proof (intro allI impI)
      fix j assume j: "?k \<le> j \<and> j \<le> ?m"
      define i where "i = j * 4096 - unat addr"
      have "j * 4096 \<le> unat addr + unat sz - 1" using j by (metis div_times_less_eq_dividend le_trans mult_le_mono1)
      then have i: "i < unat sz" using sz1 by (auto simp: i_def)
      have u: "unat (addr + of_nat i) = unat addr + i"
        using i top by (subst unat_plus_u32) (simp_all add: unat_of_nat_u32)
      have "(unat addr + i) div 4096 = j"
      proof (cases "unat addr \<le> j * 4096")
        case True then show ?thesis by (simp add: i_def)
      next
        case False
        then have "j \<le> ?k" by (simp add: less_eq_div_iff_mult_less_eq)
        then show ?thesis using j False by (simp add: i_def)
      qed
      then have "same_page (addr + of_nat i) (page_at 0 j)"
        unfolding same_page_def u using j m by (simp add: unat_page_at0)
      then show "user_page s (page_at 0 j)" using R i user_page_same by blast
    qed
  qed
  have "addr AND PAGE_MASK = page_at 0 ?k" "(addr + sz - 1) AND PAGE_MASK = page_at 0 ?m"
    unfolding mask_page e1 by simp_all
  then have "vmm_verify_buffer s r addr sz = verify_loop (vmm_is_user_mapped s r) (page_at 0 ?k) (page_at 0 ?m)"
    unfolding vmm_verify_buffer_def Let_def using sz nw by simp
  also have "\<dots> = Some (if \<forall>j. ?k \<le> j \<and> j \<le> ?m \<longrightarrow> user_page s (page_at 0 j) then 0 else -1)"
    by (rule verify_loop_pages [OF user_mapped_ok [OF ok] m km])
  finally show ?thesis using all by simp
qed

text \<open>A buffer that ends in the last page: the counter of the loop wraps to 0 and never passes the last page.\<close>

lemma page_at0_le_top: "page_at 0 k \<le> 0xFFFFF000"
proof -
  have "unat (page_at 0 k) mod 4096 = 0" using page_offset_nat [of "page_at 0 k"] page_at_offset [of 0 k] by (simp add: page_offset_def)
  moreover have "unat (page_at 0 k) < 4294967296" by (rule unat_less_2p32)
  ultimately obtain q where "unat (page_at 0 k) = 4096 * q" "4096 * q < 4294967296" by (auto simp: mod_eq_0_iff_dvd elim!: dvdE)
  then show ?thesis unfolding word_le_nat_alt by simp
qed

lemma verify_loop_wraps:
  assumes mp: "\<And>a. mapped a = Some (if U a then 1 else 0)"
  shows "(\<And>j. j < n \<Longrightarrow> U (page_at 0 (k + j))) \<Longrightarrow> \<not> U (page_at 0 (k + n)) \<Longrightarrow> verify_loop mapped (page_at 0 k) 0xFFFFF000 = Some (-1)"
proof (induction n arbitrary: k)
  case 0
  then show ?case using page_at0_le_top [of k] mp by (subst verify_loop.simps) simp
next
  case (Suc n)
  have "verify_loop mapped (page_at 0 (Suc k)) 0xFFFFF000 = Some (-1)"
    using Suc.prems(1) [of "Suc _"] Suc.prems(2) by (intro Suc.IH) simp_all
  then show ?case
    using page_at0_le_top [of k] mp [of "page_at 0 k"] Suc.prems(1) [of 0] by (subst verify_loop.simps) (simp add: page_at_Suc)
qed

lemma verify_loop_stays:
  assumes all: "\<And>a. mapped a = Some 1" and v: "verify_loop mapped (page_at 0 k) 0xFFFFF000 = Some x"
  shows False
proof -
  have "mapped = mapped \<longrightarrow> (0xFFFFF000 :: u32) = 0xFFFFF000 \<longrightarrow> (\<exists>j. page_at 0 k = page_at 0 j) \<longrightarrow> False"
  proof (rule verify_loop.raw_induct
      [where P = "\<lambda>mp pg l x. mp = mapped \<longrightarrow> l = 0xFFFFF000 \<longrightarrow> (\<exists>j. pg = page_at 0 j) \<longrightarrow> False", OF _ v])
    fix loop mp pg l x
    assume IH: "\<And>mp pg l x. loop mp pg l = Some x \<Longrightarrow> mp = mapped \<longrightarrow> l = 0xFFFFF000 \<longrightarrow> (\<exists>j. pg = page_at 0 j) \<longrightarrow> False"
      and body: "(if pg \<le> l then do { m \<leftarrow> mp pg; if m = 0 then Some (-1) else loop mp (pg + PAGE_SIZE) l } else Some 0) = Some x"
    show "mp = mapped \<longrightarrow> l = 0xFFFFF000 \<longrightarrow> (\<exists>j. pg = page_at 0 j) \<longrightarrow> False"
    proof (intro impI, elim exE)
      fix j assume eq: "mp = mapped" "l = 0xFFFFF000" "pg = page_at 0 j"
      then have "loop mapped (page_at 0 (Suc j)) 0xFFFFF000 = Some x"
        using body all page_at0_le_top [of j] by (simp add: page_at_Suc)
      then show False using IH by blast
    qed
  qed
  then show False by blast
qed

lemma verify_buffer_last_page:
  assumes ok: "vmm_ok R r d s P" and sz: "sz \<noteq> 0"
    and top: "4294963200 < unat addr + unat sz" "unat addr + unat sz < 4294967296"
  shows "vmm_verify_buffer s r addr sz = (if \<exists>a. \<not> user_page s a then Some (-1) else None)"
proof -
  let ?k = "unat addr div 4096" and ?mp = "vmm_is_user_mapped s r"
  have sz1: "0 < unat sz" using sz by (simp add: unat_gt_0)
  have e: "unat (addr + sz) = unat addr + unat sz" using top by (simp add: unat_plus_u32)
  have "(1 :: u32) \<le> addr + sz" using e sz1 by (simp add: word_le_nat_alt)
  then have e1: "unat (addr + sz - 1) = unat addr + unat sz - 1" using e by (simp add: unat_minus_u32)
  have nw: "\<not> addr + sz < addr" using e by (simp add: word_less_nat_alt)
  have "(unat addr + unat sz - 1) div 4096 = 1048575" using top by (intro div_nat_eqI) simp_all
  then have last: "(addr + sz - 1) AND PAGE_MASK = 0xFFFFF000" unfolding mask_page e1 by (simp add: page_at_def)
  have v: "vmm_verify_buffer s r addr sz = verify_loop ?mp (page_at 0 ?k) 0xFFFFF000"
    unfolding vmm_verify_buffer_def Let_def last mask_page [of addr] using sz nw by simp
  note mp = user_mapped_ok [OF ok]
  show ?thesis
  proof (cases "\<exists>a. \<not> user_page s a")
    case True
    then obtain a where a: "\<not> user_page s a" by blast
    let ?q = "unat a div 4096"
    have "?k < 1048576" "?q < 1048576" using unat_less_2p32 [of addr] unat_less_2p32 [of a] by (simp_all add: less_mult_imp_div_less)
    then have "?k + (?q + 1048576 - ?k) = ?q + 1048576" by simp
    moreover have "page_at 0 (?q + 1048576) = page_at 0 ?q" by (simp add: page_at_def)
    moreover have "same_page (page_at 0 ?q) a" using \<open>?q < 1048576\<close> by (simp add: same_page_def unat_page_at0)
    then have "\<not> user_page s (page_at 0 ?q)" using a user_page_same by blast
    ultimately have ex: "\<exists>n. \<not> user_page s (page_at 0 (?k + n))" by metis
    define n where "n = (LEAST n. \<not> user_page s (page_at 0 (?k + n)))"
    have "\<not> user_page s (page_at 0 (?k + n))" using LeastI_ex [OF ex] unfolding n_def .
    moreover have "user_page s (page_at 0 (?k + j))" if "j < n" for j using not_less_Least [of j] that unfolding n_def by blast
    ultimately show ?thesis using True verify_loop_wraps [where U = "user_page s" and mapped = ?mp and n = n and k = ?k] mp v by simp
  next
    case False
    then have "?mp a = Some 1" for a using mp by simp
    then show ?thesis using False verify_loop_stays [of ?mp ?k] unfolding v by (cases "verify_loop ?mp (page_at 0 ?k) 0xFFFFF000") auto
  qed
qed

text \<open>C15: what \<open>vmm_verify_buffer\<close> answers, for every buffer. An empty one is accepted, and one that runs over the end of the
  address space is refused. A buffer that ends below the last page is accepted exactly when every one of its bytes lies on a page
  that a user program may access. For a buffer that ends in the last page the loop wraps round to address 0: it is
  refused, whatever its pages are, if any page of the whole address space may not be accessed, and otherwise the loop never
  ends.\<close>

theorem vmm_verify_buffer_correct:
  assumes ok: "vmm_ok R r d s P"
  shows "vmm_verify_buffer s r addr sz =
    (if sz = 0 then Some 0
     else if 4294967296 \<le> unat addr + unat sz then Some (-1)
     else if unat addr + unat sz \<le> 4294963200 then
       Some (if \<forall>i<unat sz. vmm_is_user_mapped s r (addr + of_nat i) = Some 1 then 0 else -1)
     else if \<exists>a. vmm_is_user_mapped s r a \<noteq> Some 1 then Some (-1) else None)"
proof -
  have u: "vmm_is_user_mapped s r a = Some 1 \<longleftrightarrow> user_page s a" for a using user_mapped_ok [OF ok] by simp
  consider "sz = 0" | "sz \<noteq> 0" "4294967296 \<le> unat addr + unat sz" | "sz \<noteq> 0" "unat addr + unat sz \<le> 4294963200"
    | "sz \<noteq> 0" "4294963200 < unat addr + unat sz" "unat addr + unat sz < 4294967296" by linarith
  then show ?thesis
  proof cases
    case 1
    then show ?thesis by (simp add: vmm_verify_buffer_def)
  next
    case 2
    have "unat addr + unat sz - 4294967296 < 4294967296"
      using unat_less_2p32 [of addr] unat_less_2p32 [of sz] by linarith
    then have "unat (addr + sz) = unat addr + unat sz - 4294967296" using 2 by (simp add: unat_word_ariths le_mod_geq)
    then have "addr + sz < addr" using unat_less_2p32 [of sz] 2 unfolding word_less_nat_alt by linarith
    then show ?thesis using 2 by (simp add: vmm_verify_buffer_def Let_def)
  next
    case 3
    then show ?thesis using verify_buffer_pages [OF ok 3(2,1)] by (simp add: u)
  next
    case 4
    then show ?thesis using verify_buffer_last_page [OF ok 4] by (simp add: u)
  qed
qed

theorem vmm_verify_buffer_correct_witness:
  "vmm_verify_buffer demo_vm 0x5000 0x400FF0 32 = Some (-1)"
proof -
  have "pd_index 0x400FF0 = 1" "pt_index 0x400FF0 = 0" by (simp_all add: pd_index_nat pt_index_nat)
  then have "pte demo_vm 0x400FF0 = 0"
    unfolding pte_def using demo_pde [of 1] by (simp add: demo_vm_def PAGE_MASK_def)
  then have "\<not> user_page demo_vm 0x400FF0" by (simp add: user_page_def present_def)
  then have "vmm_is_user_mapped demo_vm 0x5000 (0x400FF0 + of_nat 0) \<noteq> Some 1"
    using user_mapped_ok [OF demo_vm_ok] by simp
  then have "\<not> (\<forall>i<unat (32 :: u32). vmm_is_user_mapped demo_vm 0x5000 (0x400FF0 + of_nat i) = Some 1)"
    by (intro notI) (auto dest: spec [of _ 0])
  with vmm_verify_buffer_correct [OF demo_vm_ok, of "0x400FF0" 32] show ?thesis by simp
qed

text \<open>The recursive slot and every directory entry are made with the user flag, so a page table of
  the running program is itself a buffer that vmm_verify_buffer accepts, wherever the table is in
  place: system calls write page table entries on request.\<close>

theorem page_tables_pass_as_user_buffer:
  assumes ok: "vmm_ok R r d s P" and rec: "pde s 1023 AND PAGE_USER \<noteq> 0"
    and i: "i < 1023" "present (pde s i)" "pde s i AND PAGE_USER \<noteq> 0"
  shows "vmm_verify_buffer s r (RECURSIVE_PT i) 4 = Some 0"
proof -
  have i1: "i < 1024" using i by simp
  note rp = recursive_pt [OF i1]
  have "unat (of_nat i * 4096 :: u32) = i * 4096" using i by (simp add: unat_word_ariths unat_of_nat_u32)
  then have u: "unat (RECURSIVE_PT i) = 4290772992 + i * 4096"
    unfolding RECURSIVE_PT_def RECURSIVE_ADDR_def using i by (subst unat_plus_u32) auto
  have top: "unat (RECURSIVE_PT i) + unat (4 :: u32) \<le> 4294963200" unfolding u using i by simp
  have pu: "user_page s (RECURSIVE_PT i)"
    using vmm_okD(3) [OF ok] rec i unfolding user_page_def pte_def rp by (simp add: recursive_def present_def)
  have "user_page s (RECURSIVE_PT i + of_nat j)" if "j < 4" for j
  proof -
    have "unat (RECURSIVE_PT i + of_nat j) = unat (RECURSIVE_PT i) + j"
      using that i u by (subst unat_plus_u32) (simp_all add: unat_of_nat_u32)
    then have "unat (RECURSIVE_PT i + of_nat j) = (1047552 + i) * 4096 + j" unfolding u by simp
    then have "same_page (RECURSIVE_PT i + of_nat j) (RECURSIVE_PT i)"
      unfolding same_page_def u using that by simp
    then show ?thesis using pu user_page_same by blast
  qed
  then show ?thesis using verify_buffer_pages [OF ok top] by simp
qed

theorem page_tables_pass_as_user_buffer_witness:
  "vmm_verify_buffer demo_vm 0x5000 (RECURSIVE_PT 1) 4 = Some 0"
  by (rule page_tables_pass_as_user_buffer [OF demo_vm_ok])
    (simp_all add: demo_pde present_def PAGE_PRESENT_def PAGE_USER_def)

section \<open>Initialisation\<close>

text \<open>vmm_init writes the virtual address of the directory into its recursive slot, where a
  physical address belongs: whatever was there, afterwards the directory does not map itself and
  the page tables cannot be reached any more.\<close>

theorem vmm_init_breaks_recursion:
  assumes "recursive s" and "vm_list_lock s = 0" and "kernel_region \<noteq> 0" and "vm_cr3 s \<noteq> kernel_pg_dir"
  shows "\<exists>s'. vmm_init s kernel_region = Some s' \<and> \<not> recursive s' \<and> vm_region_list s' = kernel_region \<and>
    (\<forall>i<1023. pde s' i = pde s i) \<and> pde s' 1023 = 0xFFFFF003"
proof -
  let ?s = "upd_region kernel_region (\<lambda>r. r\<lparr>rg_pg_dir := kernel_pg_dir, rg_next := 0\<rparr>) s"
  have rw: "kernel_pg_dir = RECURSIVE_PT 1023"
    by (simp add: kernel_pg_dir_def RECURSIVE_PT_def RECURSIVE_ADDR_def)
  have r: "recursive ?s" "vm_cr3 ?s = vm_cr3 s" "vm_frames ?s = vm_frames s"
    using assms(1) by (simp_all add: recursive_def upd_region_def)
  have p: "present (pde ?s 1023)" "pde ?s 1023 AND PAGE_MASK = vm_cr3 s" using r by (auto simp: recursive_def)
  let ?e = "(kernel_pg_dir AND PAGE_MASK) OR PAGE_PRESENT OR PAGE_RW"
  have e: "?e = 0xFFFFF003" by (simp add: kernel_pg_dir_def PAGE_MASK_def PAGE_PRESENT_def PAGE_RW_def)
  let ?t = "set_word (vm_cr3 s) 1023 ?e ?s"
  have st: "vstore ?s (kernel_pg_dir + 4 * of_nat RECURSIVE_PDE) ?e = Some ?t"
    using pt_set_recursive [OF r(1) _ _ p(1), of 1023] p(2) unfolding pt_set_def rw RECURSIVE_PDE_def by simp
  let ?u = "(upd_region kernel_region (\<lambda>r. r\<lparr>rg_next := vm_region_list ?t\<rparr>) ?t)\<lparr>vm_region_list := kernel_region, vm_list_lock := 0\<rparr>"
  have "vm_list_lock ?t = 0" using assms(2) by (simp add: upd_region_def)
  then have "vmm_init s kernel_region = Some ?u"
    unfolding vmm_init_def vmm_region_insert_def using st assms(3) by (simp add: Let_def)
  moreover have fr: "vm_frames ?u (vm_cr3 s) = (vm_frames s (vm_cr3 s))(1023 := 0xFFFFF003)" "vm_cr3 ?u = vm_cr3 s"
    using r e by (simp_all add: upd_region_def set_word_def)
  moreover have "\<not> recursive ?u"
    using assms(4) unfolding recursive_def fr by (simp add: kernel_pg_dir_def PAGE_MASK_def)
  ultimately show ?thesis by (intro exI [of _ ?u]) simp
qed

theorem vmm_init_breaks_recursion_witness:
  "\<exists>s'. vmm_init demo_vm 0x5000 = Some s' \<and> \<not> recursive s'"
proof -
  have "recursive demo_vm" by (rule vmm_okD(3) [OF demo_vm_ok])
  moreover have "vm_list_lock demo_vm = 0" "vm_cr3 demo_vm \<noteq> kernel_pg_dir"
    by (simp_all add: demo_vm_def kernel_pg_dir_def)
  ultimately show ?thesis using vmm_init_breaks_recursion [of demo_vm "0x5000"] by auto
qed

end
