(* ===== verification/VmmClass.thy ===== *)
theory VmmClass
  imports VmmRange
begin

text \<open>
  mem/vmm.c, third part: allocation classes. A region has a list of classes, each with a range of
  addresses and a doubly-linked list of the areas in use, in the order of their addresses.
\<close>

unbundle bit_operations_syntax

section \<open>State\<close>

datatype vm_class_type_t =
  VM_CLASS_KERNEL | VM_CLASS_USER | VM_CLASS_MMIO | VM_CLASS_DMA | VM_CLASS_STACK | VM_CLASS_CUSTOM

record vmm_class_config =
  cf_type :: vm_class_type_t
  cf_name :: string
  cf_start :: u32
  cf_end :: u32
  cf_flags :: u32
  cf_align :: u32
  cf_validator :: "(u32 \<Rightarrow> u32 \<Rightarrow> bool) option"

record vmm_area =
  ar_start :: u32
  ar_size :: u32
  ar_next :: u32
  ar_prev :: u32

record vmm_alloc_class =
  cl_config :: vmm_class_config
  cl_lock :: spinlock_t
  cl_vma_head :: u32
  cl_hint_ptr :: u32
  cl_next :: u32

definition SIZEOF_AREA :: u32 where "SIZEOF_AREA = 16"
definition SIZEOF_CLASS :: u32 where "SIZEOF_CLASS = 44"

text \<open>The address spaces together with the classes and areas, by their addresses.\<close>

record vmc =
  vc_vm :: vm
  vc_class :: "u32 \<Rightarrow> vmm_alloc_class"
  vc_area :: "u32 \<Rightarrow> vmm_area"

definition upd_area :: "u32 \<Rightarrow> (vmm_area \<Rightarrow> vmm_area) \<Rightarrow> vmc \<Rightarrow> vmc" where
  "upd_area a f s = s\<lparr>vc_area := (vc_area s)(a := f (vc_area s a))\<rparr>"

definition upd_class :: "u32 \<Rightarrow> (vmm_alloc_class \<Rightarrow> vmm_alloc_class) \<Rightarrow> vmc \<Rightarrow> vmc" where
  "upd_class c f s = s\<lparr>vc_class := (vc_class s)(c := f (vc_class s c))\<rparr>"

abbreviation area_next :: "vmc \<Rightarrow> u32 \<Rightarrow> u32 option" where
  "area_next s \<equiv> \<lambda>a. box_ptr (ar_next (vc_area s a))"

abbreviation class_next :: "vmc \<Rightarrow> u32 \<Rightarrow> u32 option" where
  "class_next s \<equiv> \<lambda>c. box_ptr (cl_next (vc_class s c))"

section \<open>Validators\<close>

definition vmm_internal_validator_dma :: "u32 \<Rightarrow> u32 \<Rightarrow> bool" where
  "vmm_internal_validator_dma base sz = (if base + sz > 0x01000000 then False else True)"

definition vmm_internal_validator_kernel :: "u32 \<Rightarrow> u32 \<Rightarrow> bool" where
  "vmm_internal_validator_kernel base sz =
     (if base < USER_SPACE_END + 1 then False
      else if base + sz > RECURSIVE_ADDR then False
      else True)"

section \<open>Areas\<close>

text \<open>The loop \<open>while (iter->next && iter->next->start < start) iter = iter->next\<close>.\<close>

partial_function (option) area_before :: "(u32 \<Rightarrow> u32 option) \<Rightarrow> (u32 \<Rightarrow> bool) \<Rightarrow> u32 \<Rightarrow> u32 option" where
  "area_before nx lower iter =
     (case nx iter of
        None \<Rightarrow> Some iter
      | Some n \<Rightarrow> if lower n then area_before nx lower n else Some iter)"

definition vmm_insert_area :: "vmc \<Rightarrow> u32 \<Rightarrow> u32 \<Rightarrow> u32 \<Rightarrow> (int \<times> vmc) option" where
  "vmm_insert_area s cls start sz = do {
     (new_area, v) \<leftarrow> vm_kmalloc (vc_vm s) SIZEOF_AREA;
     let s = s\<lparr>vc_vm := v\<rparr>;
     if new_area = 0 then Some (-1, s)
     else do {
       let s = upd_area new_area (\<lambda>a. a\<lparr>ar_start := start, ar_size := sz, ar_next := 0, ar_prev := 0\<rparr>) s;
       let head = cl_vma_head (vc_class s cls);
       if head = 0 then Some (0, upd_class cls (\<lambda>c. c\<lparr>cl_vma_head := new_area\<rparr>) s)
       else if start < ar_start (vc_area s head) then
         (let s = upd_area new_area (\<lambda>a. a\<lparr>ar_next := head\<rparr>) s;
              s = upd_area head (\<lambda>a. a\<lparr>ar_prev := new_area\<rparr>) s
          in Some (0, upd_class cls (\<lambda>c. c\<lparr>cl_vma_head := new_area\<rparr>) s))
       else do {
         iter \<leftarrow> area_before (area_next s) (\<lambda>a. ar_start (vc_area s a) < start) head;
         let nxt = ar_next (vc_area s iter);
         let s = upd_area new_area (\<lambda>a. a\<lparr>ar_next := nxt, ar_prev := iter\<rparr>) s;
         let s = (if nxt \<noteq> 0 then upd_area nxt (\<lambda>a. a\<lparr>ar_prev := new_area\<rparr>) s else s);
         Some (0, upd_area iter (\<lambda>a. a\<lparr>ar_next := new_area\<rparr>) s)
       }
     }
   }"

definition vmm_remove_area :: "vmc \<Rightarrow> u32 \<Rightarrow> u32 \<Rightarrow> vmc option" where
  "vmm_remove_area s cls start =
     (if cls = 0 \<or> cl_vma_head (vc_class s cls) = 0 then Some s
      else do {
        hit \<leftarrow> ll_first (area_next s) (\<lambda>a. Some (ar_start (vc_area s a) = start)) (box_ptr (cl_vma_head (vc_class s cls)));
        (case hit of
           None \<Rightarrow> Some s
         | Some iter \<Rightarrow>
             let nxt = ar_next (vc_area s iter); prev = ar_prev (vc_area s iter);
                 s = (if prev \<noteq> 0 then upd_area prev (\<lambda>a. a\<lparr>ar_next := nxt\<rparr>) s
                      else upd_class cls (\<lambda>c. c\<lparr>cl_vma_head := nxt\<rparr>) s);
                 nxt' = ar_next (vc_area s iter);
                 s = (if nxt' \<noteq> 0 then upd_area nxt' (\<lambda>a. a\<lparr>ar_prev := ar_prev (vc_area s iter)\<rparr>) s else s)
             in do { v \<leftarrow> vm_kfree (vc_vm s) iter SIZEOF_AREA; Some (s\<lparr>vc_vm := v\<rparr>) })
      })"

section \<open>Classes\<close>

definition vmm_class_get :: "vmc \<Rightarrow> u32 \<Rightarrow> vm_class_type_t \<Rightarrow> u32 option" where
  "vmm_class_get s region ty = do {
     guard (region \<noteq> 0);
     hit \<leftarrow> ll_first (class_next s) (\<lambda>c. Some (cf_type (cl_config (vc_class s c)) = ty))
              (box_ptr (rg_class_list (vm_region (vc_vm s) region)));
     Some (case hit of None \<Rightarrow> 0 | Some c \<Rightarrow> c)
   }"

text \<open>\<open>config\<close> is \<open>None\<close> for a null pointer.\<close>

definition vmm_class_register :: "vmc \<Rightarrow> u32 \<Rightarrow> vmm_class_config option \<Rightarrow> (int \<times> vmc) option" where
  "vmm_class_register s region config =
     (case config of
        None \<Rightarrow> Some (-1, s)
      | Some cf \<Rightarrow>
          if region = 0 then Some (-1, s)
          else do {
            c \<leftarrow> vmm_class_get s region (cf_type cf);
            if c \<noteq> 0 then Some (-1, s)
            else do {
              (new_class, v) \<leftarrow> vm_kmalloc (vc_vm s) SIZEOF_CLASS;
              let s = s\<lparr>vc_vm := v\<rparr>;
              if new_class = 0 then Some (-1, s)
              else
                let s = upd_class new_class (\<lambda>c. c\<lparr>cl_config := cf, cl_lock := spinlock_init (cl_lock c), cl_vma_head := 0,
                          cl_hint_ptr := cf_start cf, cl_next := rg_class_list (vm_region (vc_vm s) region)\<rparr>) s
                in Some (0, s\<lparr>vc_vm := upd_region region (\<lambda>g. g\<lparr>rg_class_list := new_class\<rparr>) (vc_vm s)\<rparr>)
            }
          })"

definition class_configs :: "vmm_class_config list" where
  "class_configs =
     [\<lparr>cf_type = VM_CLASS_KERNEL, cf_name = ''kern'', cf_start = 0xC0000000, cf_end = 0xFFFFFFFF,
       cf_flags = PAGE_PRESENT OR PAGE_RW, cf_align = PAGE_SIZE, cf_validator = Some vmm_internal_validator_kernel\<rparr>,
      \<lparr>cf_type = VM_CLASS_USER, cf_name = ''usr'', cf_start = USER_SPACE_START, cf_end = USER_SPACE_END,
       cf_flags = PAGE_PRESENT OR PAGE_RW OR PAGE_USER, cf_align = PAGE_SIZE, cf_validator = None\<rparr>,
      \<lparr>cf_type = VM_CLASS_DMA, cf_name = ''dma'', cf_start = 0x1000, cf_end = 0x01000000,
       cf_flags = PAGE_PRESENT OR PAGE_RW, cf_align = 0x10000, cf_validator = Some vmm_internal_validator_dma\<rparr>,
      \<lparr>cf_type = VM_CLASS_MMIO, cf_name = ''mmio'', cf_start = 0xF0000000, cf_end = 0xF8000000,
       cf_flags = PAGE_PRESENT OR PAGE_RW, cf_align = PAGE_SIZE, cf_validator = None\<rparr>]"

definition vmm_classes_init :: "vmc \<Rightarrow> u32 \<Rightarrow> vmc option" where
  "vmm_classes_init s region =
     (if region = 0 then Some s
      else do {
        let s = s\<lparr>vc_vm := upd_region region (\<lambda>g. g\<lparr>rg_class_list := 0\<rparr>) (vc_vm s)\<rparr>;
        (_, s) \<leftarrow> for_pages (\<lambda>i s. do {
            (_, s) \<leftarrow> vmm_class_register s region (Some (class_configs ! i));
            Some (0, s)
          }) 0 4 s;
        Some s
      })"

definition vmm_align_address :: "u32 \<Rightarrow> u32 \<Rightarrow> u32" where
  "vmm_align_address addr align =
     (if align \<le> PAGE_SIZE then addr
      else let mask = align - 1 in (addr + mask) AND NOT mask)"

text \<open>
  \<open>vmm_find_fit\<close>: the loop that skips the areas below the candidate, and the main loop, over the
  links and fields of the areas (\<open>nx\<close>, \<open>st\<close>, \<open>sz\<close>), the validator and the alignment.
\<close>

partial_function (option) skip_areas ::
  "(u32 \<Rightarrow> u32 option) \<Rightarrow> (u32 \<Rightarrow> bool) \<Rightarrow> u32 option \<Rightarrow> u32 option option" where
  "skip_areas nx below cur =
     (case cur of
        None \<Rightarrow> Some None
      | Some c \<Rightarrow> if below c then skip_areas nx below (nx c) else Some (Some c))"

partial_function (option) find_fit_loop ::
  "(u32 \<Rightarrow> u32 option) \<Rightarrow> (u32 \<Rightarrow> u32) \<Rightarrow> (u32 \<Rightarrow> u32) \<Rightarrow> (u32 \<Rightarrow> bool) \<Rightarrow> (u32 \<Rightarrow> u32) \<Rightarrow>
   u32 \<Rightarrow> u32 \<Rightarrow> u32 option \<Rightarrow> u32 \<Rightarrow> u32 \<Rightarrow> u32 option \<Rightarrow> bool \<Rightarrow> u32 option" where
  "find_fit_loop nx st sz valid aln cstart cend head len candidate cur wrapped =
     (let gap_end = (case cur of Some c \<Rightarrow> st c | None \<Rightarrow> cend) in
      if candidate + len \<le> gap_end then
        (if valid candidate then Some candidate
         else find_fit_loop nx st sz valid aln cstart cend head len (aln (candidate + PAGE_SIZE)) cur wrapped)
      else
        (case cur of
           Some c \<Rightarrow> find_fit_loop nx st sz valid aln cstart cend head len (aln (st c + sz c)) (nx c) wrapped
         | None \<Rightarrow>
             if \<not> wrapped then find_fit_loop nx st sz valid aln cstart cend head len (aln cstart) head True
             else Some 0))"

definition vmm_find_fit :: "vmc \<Rightarrow> u32 \<Rightarrow> u32 \<Rightarrow> u32 option" where
  "vmm_find_fit s cls sz = do {
     let c = vc_class s cls;
     let cf = cl_config c;
     let aln = (\<lambda>a. vmm_align_address a (cf_align cf));
     let candidate = aln (cl_hint_ptr c);
     let candidate = (if candidate < cf_start cf \<or> candidate + sz > cf_end cf then aln (cf_start cf) else candidate);
     cur \<leftarrow> skip_areas (area_next s) (\<lambda>a. ar_start (vc_area s a) + ar_size (vc_area s a) \<le> candidate)
              (box_ptr (cl_vma_head c));
     find_fit_loop (area_next s) (\<lambda>a. ar_start (vc_area s a)) (\<lambda>a. ar_size (vc_area s a))
       (\<lambda>a. case cf_validator cf of None \<Rightarrow> True | Some v \<Rightarrow> v a sz) aln
       (cf_start cf) (cf_end cf) (box_ptr (cl_vma_head c)) sz candidate cur False
   }"

definition vmm_map_pages :: "vm \<Rightarrow> u32 \<Rightarrow> vmm_class_config \<Rightarrow> u32 \<Rightarrow> u32 \<Rightarrow> (int \<times> vm) option" where
  "vmm_map_pages s region cf base pages =
     for_pages (\<lambda>i s. do {
         (pa, s) \<leftarrow> page_alloc s;
         if pa = 0 then do { (_, s) \<leftarrow> vmm_unmap_range s region base (of_nat i); Some (-1, s) }
         else do {
           (r, s) \<leftarrow> vmm_map s region (page_at base i) pa (cf_flags cf);
           if r \<noteq> 0 then do {
             s \<leftarrow> page_free s pa;
             (_, s) \<leftarrow> vmm_unmap_range s region base (of_nat i);
             Some (-1, s)
           }
           else Some (0, s)
         }
       }) 0 (unat pages) s"

definition vmm_unmap_pages :: "vm \<Rightarrow> u32 \<Rightarrow> u32 \<Rightarrow> u32 \<Rightarrow> (int \<times> vm) option" where
  "vmm_unmap_pages s region base pages =
     for_pages (\<lambda>i s. do {
         pa \<leftarrow> vmm_resolve s region (page_at base i);
         if pa = 0 then do { (_, s) \<leftarrow> vmm_unmap_range s region base (of_nat i); Some (-1, s) }
         else do {
           (r, s) \<leftarrow> vmm_unmap s region (page_at base i);
           if r \<noteq> 0 then do {
             s \<leftarrow> page_free s pa;
             (_, s) \<leftarrow> vmm_unmap_range s region base (of_nat i);
             Some (-1, s)
           }
           else Some (0, s)
         }
       }) 0 (unat pages) s"

definition vmm_class_alloc :: "vmc \<Rightarrow> u32 \<Rightarrow> vm_class_type_t \<Rightarrow> u32 \<Rightarrow> (u32 \<times> vmc) option" where
  "vmm_class_alloc s region ty pages = do {
     cls \<leftarrow> vmm_class_get s region ty;
     if cls = 0 then Some (0, s)
     else do {
       l \<leftarrow> lock_acquire (cl_lock (vc_class s cls));
       let s = upd_class cls (\<lambda>c. c\<lparr>cl_lock := l\<rparr>) s;
       let unlock = upd_class cls (\<lambda>c. c\<lparr>cl_lock := lock_release (cl_lock c)\<rparr>);
       let sz = pages * PAGE_SIZE;
       va \<leftarrow> vmm_find_fit s cls sz;
       if va = 0 then Some (0, unlock s)
       else do {
         (r, s) \<leftarrow> vmm_insert_area s cls va sz;
         if r \<noteq> 0 then Some (0, unlock s)
         else do {
           (r, v) \<leftarrow> vmm_map_pages (vc_vm s) region (cl_config (vc_class s cls)) va pages;
           let s = s\<lparr>vc_vm := v\<rparr>;
           if r \<noteq> 0 then do { s \<leftarrow> vmm_remove_area s cls va; Some (0, unlock s) }
           else Some (va, unlock (upd_class cls (\<lambda>c. c\<lparr>cl_hint_ptr := va + sz\<rparr>) s))
         }
       }
     }
   }"

definition vmm_alloc_kernel :: "vmc \<Rightarrow> u32 \<Rightarrow> u32 \<Rightarrow> (u32 \<times> vmc) option" where
  "vmm_alloc_kernel s region pages = vmm_class_alloc s region VM_CLASS_KERNEL pages"

definition vmm_alloc_user :: "vmc \<Rightarrow> u32 \<Rightarrow> u32 \<Rightarrow> (u32 \<times> vmc) option" where
  "vmm_alloc_user s region pages = vmm_class_alloc s region VM_CLASS_USER pages"

definition vmm_alloc_dma :: "vmc \<Rightarrow> u32 \<Rightarrow> u32 \<Rightarrow> (u32 \<times> vmc) option" where
  "vmm_alloc_dma s region pages = vmm_class_alloc s region VM_CLASS_DMA pages"

definition vmm_alloc_mmio :: "vmc \<Rightarrow> u32 \<Rightarrow> u32 \<Rightarrow> (u32 \<times> vmc) option" where
  "vmm_alloc_mmio s region pages = vmm_class_alloc s region VM_CLASS_MMIO pages"

end
