(* ===== verification/VmmClassProps.thy ===== *)
theory VmmClassProps
  imports VmmClass VmmProps
begin

text \<open>
  The allocation classes of mem/vmm.c: the list of areas as a sorted list of disjoint intervals, the
  search for a place between them, insertion and removal.
\<close>

unbundle bit_operations_syntax

section \<open>The list of areas\<close>

definition area_end :: "(u32 \<Rightarrow> u32) \<Rightarrow> (u32 \<Rightarrow> u32) \<Rightarrow> u32 \<Rightarrow> nat" where
  "area_end st sz a = unat (st a) + unat (sz a)"

text \<open>Intervals in ascending order that do not overlap, all between \<open>lo\<close> and \<open>hi\<close>.\<close>

definition intervals :: "(u32 \<Rightarrow> u32) \<Rightarrow> (u32 \<Rightarrow> u32) \<Rightarrow> nat \<Rightarrow> nat \<Rightarrow> u32 list \<Rightarrow> bool" where
  "intervals st sz lo hi as \<longleftrightarrow> (\<forall>a\<in>set as. lo \<le> unat (st a) \<and> area_end st sz a \<le> hi) \<and>
     sorted_wrt (\<lambda>a b. area_end st sz a \<le> unat (st b)) as"

text \<open>A place of \<open>n\<close> bytes in the range of a class that touches no area.\<close>

definition fits_at :: "(u32 \<Rightarrow> u32) \<Rightarrow> (u32 \<Rightarrow> u32) \<Rightarrow> nat \<Rightarrow> nat \<Rightarrow> u32 list \<Rightarrow> nat \<Rightarrow> nat \<Rightarrow> bool" where
  "fits_at st sz lo hi as n v \<longleftrightarrow> lo \<le> v \<and> v + n \<le> hi \<and>
     (\<forall>a\<in>set as. v + n \<le> unat (st a) \<or> area_end st sz a \<le> v)"

lemma add_u32: "unat a + unat b < 4294967296 \<Longrightarrow> unat (a + b :: u32) = unat a + unat b"
  by (rule unat_plus_u32)

section \<open>The search\<close>

lemma find_fit_sound:
  assumes res: "find_fit_loop nx st sz valid aln cstart cend head len cand cur wrapped = Some v"
    and as: "llist nx head as" "intervals st sz (unat cstart) (unat cend) as"
    and aln: "\<And>a. unat a \<le> unat cend + 4096 \<Longrightarrow> a \<le> aln a \<and> unat (aln a) \<le> unat a + slack"
    and room: "unat cend + 4096 + slack + unat len < 4294967296" and cs: "cstart \<le> cend"
    and inv: "as = pre @ suf" "llist nx cur suf" "\<forall>a\<in>set pre. area_end st sz a \<le> unat cand"
      "cstart \<le> cand" "unat cand \<le> unat cend + 4096 + slack"
  shows "v = 0 \<or> fits_at st sz (unat cstart) (unat cend) as (unat len) (unat v) \<and> valid v"
proof -
  let ?G = "\<lambda>v. v = 0 \<or> fits_at st sz (unat cstart) (unat cend) as (unat len) (unat v) \<and> valid v"
  let ?I = "\<lambda>cand cur. \<exists>pre suf. as = pre @ suf \<and> llist nx cur suf \<and> (\<forall>a\<in>set pre. area_end st sz a \<le> unat cand) \<and>
     cstart \<le> cand \<and> unat cand \<le> unat cend + 4096 + slack"
  let ?P = "\<lambda>nx0 st0 sz0 va0 al0 cs0 ce0 hd0 ln0 cand cur wr v.
     (nx0, st0, sz0, va0, al0, cs0, ce0, hd0, ln0) = (nx, st, sz, valid, aln, cstart, cend, head, len) \<longrightarrow> ?I cand cur \<longrightarrow> ?G v"
  have "?P nx st sz valid aln cstart cend head len cand cur wrapped v"
  proof (rule find_fit_loop.raw_induct [where P = ?P, OF _ res])
    fix loop nx0 st0 sz0 va0 al0 cs0 ce0 hd0 ln0 cand cur wr v
    assume IH: "\<And>nx0 st0 sz0 va0 al0 cs0 ce0 hd0 ln0 cand cur wr v.
        loop nx0 st0 sz0 va0 al0 cs0 ce0 hd0 ln0 cand cur wr = Some v \<Longrightarrow> ?P nx0 st0 sz0 va0 al0 cs0 ce0 hd0 ln0 cand cur wr v"
      and r: "(let gap_end = (case cur of Some c \<Rightarrow> st0 c | None \<Rightarrow> ce0) in
        if cand + ln0 \<le> gap_end then
          (if va0 cand then Some cand
           else loop nx0 st0 sz0 va0 al0 cs0 ce0 hd0 ln0 (al0 (cand + PAGE_SIZE)) cur wr)
        else
          (case cur of
             Some c \<Rightarrow> loop nx0 st0 sz0 va0 al0 cs0 ce0 hd0 ln0 (al0 (st0 c + sz0 c)) (nx0 c) wr
           | None \<Rightarrow>
               if \<not> wr then loop nx0 st0 sz0 va0 al0 cs0 ce0 hd0 ln0 (al0 cs0) hd0 True
               else Some 0)) = Some v"
    show "?P nx0 st0 sz0 va0 al0 cs0 ce0 hd0 ln0 cand cur wr v"
    proof (intro impI)
      assume eq: "(nx0, st0, sz0, va0, al0, cs0, ce0, hd0, ln0) = (nx, st, sz, valid, aln, cstart, cend, head, len)" and I: "?I cand cur"
      from eq have eqs: "nx0 = nx" "st0 = st" "sz0 = sz" "va0 = valid" "al0 = aln" "cs0 = cstart" "ce0 = cend"
        "hd0 = head" "ln0 = len" by simp_all
      note r = r [unfolded eqs]
      from I obtain pre suf where i: "as = pre @ suf" "llist nx cur suf" "\<forall>a\<in>set pre. area_end st sz a \<le> unat cand"
        "cstart \<le> cand" "unat cand \<le> unat cend + 4096 + slack" by blast
      have sum: "unat (cand + len) = unat cand + unat len" using i(5) room by (intro add_u32) linarith
      have ivs: "\<forall>a\<in>set as. unat cstart \<le> unat (st a) \<and> area_end st sz a \<le> unat cend" "sorted_wrt (\<lambda>a b. area_end st sz a \<le> unat (st b)) as"
        using as(2) by (simp_all add: intervals_def)
      let ?g = "case cur of Some c \<Rightarrow> st c | None \<Rightarrow> cend"
      have gap: "unat ?g \<le> unat cend"
      proof (cases suf)
        case (Cons c cs)
        then have "area_end st sz c \<le> unat cend" using i(1) ivs(1) by simp
        then show ?thesis using Cons i(2) by (auto simp: area_end_def)
      qed (use i(2) in simp)
      show "?G v"
      proof (cases "cand + len \<le> ?g")
        case fit: True
        then have fit': "unat cand + unat len \<le> unat ?g" using sum by (simp add: word_le_nat_alt)
        show ?thesis
        proof (cases "valid cand")
          case True
          then have v: "v = cand" using r fit by (simp add: Let_def)
          have "unat cand + unat len \<le> unat (st a) \<or> area_end st sz a \<le> unat cand" if "a \<in> set as" for a
          proof (cases "a \<in> set pre")
            case False
            then have a: "a \<in> set suf" using that i(1) by simp
            then obtain c cs where c: "suf = c # cs" by (cases suf) auto
            then have "cur = Some c" using i(2) by simp
            then have le: "unat cand + unat len \<le> unat (st c)" using fit' by simp
            show ?thesis
            proof (cases "a = c")
              case False
              then have "area_end st sz c \<le> unat (st a)" using ivs(2) i(1) c a by (auto simp: sorted_wrt_append)
              then show ?thesis using le by (simp add: area_end_def)
            qed (use le in simp)
          qed (use i(3) in simp)
          then show ?thesis using v True fit' gap i(4) by (simp add: fits_at_def word_le_nat_alt)
        next
          case False
          then have l: "loop nx st sz valid aln cstart cend head len (aln (cand + PAGE_SIZE)) cur wr = Some v"
            using r fit by (simp add: Let_def)
          have c4: "unat (cand + PAGE_SIZE) = unat cand + 4096" using i(5) fit' gap room by (subst add_u32) simp_all
          have "unat (cand + PAGE_SIZE) \<le> unat cend + 4096" using c4 fit' gap by simp
          note a = aln [OF this]
          have "?I (aln (cand + PAGE_SIZE)) cur"
          proof (intro exI conjI)
            show "\<forall>a\<in>set pre. area_end st sz a \<le> unat (aln (cand + PAGE_SIZE))"
              using i(3) a c4 by (fastforce simp: word_le_nat_alt)
            show "cstart \<le> aln (cand + PAGE_SIZE)" using i(4) a c4 by (simp add: word_le_nat_alt)
            show "unat (aln (cand + PAGE_SIZE)) \<le> unat cend + 4096 + slack" using a c4 fit' gap by linarith
          qed (use i in auto)
          then show ?thesis using IH [OF l] by simp
        qed
      next
        case nofit: False
        show ?thesis
        proof (cases suf)
          case (Cons c cs)
          then have cur: "cur = Some c" and seg: "llist nx (nx c) cs" using i(2) by simp_all
          then have l: "loop nx st sz valid aln cstart cend head len (aln (st c + sz c)) (nx c) wr = Some v"
            using r nofit by (simp add: Let_def)
          have ce: "area_end st sz c \<le> unat cend" using ivs(1) i(1) Cons by simp
          then have e: "unat (st c + sz c) = area_end st sz c"
            unfolding area_end_def using room by (intro add_u32) linarith
          then have "unat (st c + sz c) \<le> unat cend + 4096" using ce by simp
          note a = aln [OF this]
          have "?I (aln (st c + sz c)) (nx c)"
          proof (intro exI conjI)
            show "as = (pre @ [c]) @ cs" using i(1) Cons by simp
            show "\<forall>a\<in>set (pre @ [c]). area_end st sz a \<le> unat (aln (st c + sz c))"
            proof
              fix b assume b: "b \<in> set (pre @ [c])"
              have "area_end st sz b \<le> area_end st sz c"
              proof (cases "b = c")
                case False
                then have "area_end st sz b \<le> unat (st c)" using b ivs(2) i(1) Cons by (auto simp: sorted_wrt_append)
                then show ?thesis by (simp add: area_end_def)
              qed simp
              then show "area_end st sz b \<le> unat (aln (st c + sz c))" using a e by (simp add: word_le_nat_alt)
            qed
            have "unat cstart \<le> area_end st sz c" using ivs(1) i(1) Cons by (auto simp: area_end_def)
            then show "cstart \<le> aln (st c + sz c)" using a e by (simp add: word_le_nat_alt)
            show "unat (aln (st c + sz c)) \<le> unat cend + 4096 + slack" using a e ce by linarith
          qed (rule seg)
          then show ?thesis using IH [OF l] by simp
        next
          case Nil
          then have cur: "cur = None" using i(2) by simp
          show ?thesis
          proof (cases wr)
            case True
            then show ?thesis using r nofit cur by (simp add: Let_def)
          next
            case False
            then have l: "loop nx st sz valid aln cstart cend head len (aln cstart) head True = Some v"
              using r nofit cur by (simp add: Let_def)
            have "unat cstart \<le> unat cend + 4096" using cs by (simp add: word_le_nat_alt)
            note a = aln [OF this]
            have "?I (aln cstart) head"
              using a as(1) cs by (intro exI [of _ "[]"] exI [of _ as]) (auto simp: word_le_nat_alt)
            then show ?thesis using IH [OF l] by simp
          qed
        qed
      qed
    qed
  qed
  then show ?thesis using inv by blast
qed

lemma skip_areas_ok:
  "llist nx cur as \<Longrightarrow> skip_areas nx below cur = Some (case dropWhile below as of [] \<Rightarrow> None | c # _ \<Rightarrow> Some c) \<and>
     llist nx (case dropWhile below as of [] \<Rightarrow> None | c # _ \<Rightarrow> Some c) (dropWhile below as)"
proof (induction as arbitrary: cur)
  case Nil
  then show ?case by (subst skip_areas.simps) simp
next
  case (Cons a as)
  then have cur: "cur = Some a" "llist nx (nx a) as" by simp_all
  show ?case
  proof (cases "below a")
    case True
    then show ?thesis using Cons.IH [OF cur(2)] cur(1) by (subst skip_areas.simps) simp
  next
    case False
    then show ?thesis using cur by (subst skip_areas.simps) simp
  qed
qed

text \<open>Without a validator and with page alignment the search ends, and if it finds nothing there is
  no place at or above the candidate that the remaining areas leave free.\<close>

lemma find_fit_wrapped:
  assumes "llist nx cur suf" and room: "unat cend + unat len < 4294967296"
    and "\<forall>a\<in>set suf. 0 < area_end st sz a \<and> area_end st sz a \<le> unat cend" and "0 < unat cand" and "unat cand \<le> unat cend"
  shows "\<exists>v. find_fit_loop nx st sz (\<lambda>_. True) (\<lambda>a. a) cstart cend head len cand cur True = Some v \<and>
     (v = 0 \<longrightarrow> (\<forall>x. \<not> fits_at st sz (unat cand) (unat cend) suf (unat len) x))"
  using assms(1,3-)
proof (induction suf arbitrary: cand cur)
  case Nil
  then have cur: "cur = None" by simp
  have sum: "unat (cand + len) = unat cand + unat len" using Nil room by (intro add_u32) simp
  show ?case
  proof (cases "cand + len \<le> cend")
    case True
    then show ?thesis using cur Nil by (subst find_fit_loop.simps) auto
  next
    case False
    then have "find_fit_loop nx st sz (\<lambda>_. True) (\<lambda>a. a) cstart cend head len cand cur True = Some 0"
      using cur by (subst find_fit_loop.simps) simp
    then show ?thesis using False sum by (auto simp: fits_at_def word_le_nat_alt)
  qed
next
  case (Cons c cs)
  then have cur: "cur = Some c" and seg: "llist nx (nx c) cs" by simp_all
  have ce: "0 < area_end st sz c" "area_end st sz c \<le> unat cend" using Cons.prems by simp_all
  then have e: "unat (st c + sz c) = area_end st sz c" unfolding area_end_def using room by (intro add_u32) linarith
  have sum: "unat (cand + len) = unat cand + unat len" using Cons.prems room by (intro add_u32) simp
  show ?case
  proof (cases "cand + len \<le> st c")
    case True
    then show ?thesis using cur Cons.prems by (subst find_fit_loop.simps) auto
  next
    case False
    have "find_fit_loop nx st sz (\<lambda>_. True) (\<lambda>a. a) cstart cend head len cand cur True =
        find_fit_loop nx st sz (\<lambda>_. True) (\<lambda>a. a) cstart cend head len (st c + sz c) (nx c) True"
      using cur False by (subst find_fit_loop.simps) simp
    moreover have "\<forall>a\<in>set cs. 0 < area_end st sz a \<and> area_end st sz a \<le> unat cend" using Cons.prems(2) by simp
    with Cons.IH [OF seg, of "st c + sz c"] e ce obtain v where
      v: "find_fit_loop nx st sz (\<lambda>_. True) (\<lambda>a. a) cstart cend head len (st c + sz c) (nx c) True = Some v"
      "v = 0 \<longrightarrow> (\<forall>x. \<not> fits_at st sz (area_end st sz c) (unat cend) cs (unat len) x)" by auto
    moreover have "\<not> fits_at st sz (unat cand) (unat cend) (c # cs) (unat len) x" if "v = 0" for x
    proof
      assume f: "fits_at st sz (unat cand) (unat cend) (c # cs) (unat len) x"
      then have "x + unat len \<le> unat (st c) \<or> area_end st sz c \<le> x" by (simp add: fits_at_def)
      moreover have "\<not> x + unat len \<le> unat (st c)"
        using f False sum by (auto simp: fits_at_def word_le_nat_alt)
      ultimately have "fits_at st sz (area_end st sz c) (unat cend) cs (unat len) x" using f by (simp add: fits_at_def)
      then show False using v(2) that by blast
    qed
    ultimately show ?thesis by auto
  qed
qed

lemma find_fit_total:
  assumes "llist nx cur suf" and all: "llist nx head as" and room: "unat cend + unat len < 4294967296"
    and as: "\<forall>a\<in>set as. 0 < area_end st sz a \<and> area_end st sz a \<le> unat cend" and cs: "0 < unat cstart" "unat cstart \<le> unat cend"
    and "set suf \<subseteq> set as" and "0 < unat cand" and "unat cand \<le> unat cend"
  shows "\<exists>v. find_fit_loop nx st sz (\<lambda>_. True) (\<lambda>a. a) cstart cend head len cand cur False = Some v \<and>
     (v = 0 \<longrightarrow> (\<forall>x. \<not> fits_at st sz (unat cstart) (unat cend) as (unat len) x))"
  using assms(1,7-)
proof (induction suf arbitrary: cand cur)
  case Nil
  then have cur: "cur = None" by simp
  show ?case
  proof (cases "cand + len \<le> cend")
    case True
    then show ?thesis using cur Nil by (subst find_fit_loop.simps) auto
  next
    case False
    then have "find_fit_loop nx st sz (\<lambda>_. True) (\<lambda>a. a) cstart cend head len cand cur False =
        find_fit_loop nx st sz (\<lambda>_. True) (\<lambda>a. a) cstart cend head len cstart head True"
      using cur by (subst find_fit_loop.simps) simp
    then show ?thesis using find_fit_wrapped [OF all room as cs] by simp
  qed
next
  case (Cons c cs)
  then have cur: "cur = Some c" and seg: "llist nx (nx c) cs" by simp_all
  have ce: "0 < area_end st sz c" "area_end st sz c \<le> unat cend" using Cons.prems as by auto
  then have e: "unat (st c + sz c) = area_end st sz c" unfolding area_end_def using room by (intro add_u32) linarith
  show ?case
  proof (cases "cand + len \<le> st c")
    case True
    then show ?thesis using cur Cons.prems by (subst find_fit_loop.simps) auto
  next
    case False
    then have "find_fit_loop nx st sz (\<lambda>_. True) (\<lambda>a. a) cstart cend head len cand cur False =
        find_fit_loop nx st sz (\<lambda>_. True) (\<lambda>a. a) cstart cend head len (st c + sz c) (nx c) False"
      using cur by (subst find_fit_loop.simps) simp
    then show ?thesis using Cons.IH [OF seg, of "st c + sz c"] Cons.prems(2) e ce by simp
  qed
qed

section \<open>vmm_find_fit\<close>

abbreviation area_st :: "vmc \<Rightarrow> u32 \<Rightarrow> u32" where "area_st s \<equiv> \<lambda>a. ar_start (vc_area s a)"
abbreviation area_sz :: "vmc \<Rightarrow> u32 \<Rightarrow> u32" where "area_sz s \<equiv> \<lambda>a. ar_size (vc_area s a)"

text \<open>The backward links of a doubly-linked list.\<close>

primrec prevs :: "(u32 \<Rightarrow> u32) \<Rightarrow> u32 \<Rightarrow> u32 list \<Rightarrow> bool" where
  "prevs pv b [] \<longleftrightarrow> True"
| "prevs pv b (x # xs) \<longleftrightarrow> pv x = b \<and> prevs pv x xs"

lemma prevs_append: "prevs pv b (xs @ ys) \<longleftrightarrow> prevs pv b xs \<and> prevs pv (last (b # xs)) ys"
  by (induction xs arbitrary: b) auto

lemma prevs_cong: "(\<And>x. x \<in> set xs \<Longrightarrow> pv x = pv' x) \<Longrightarrow> prevs pv b xs = prevs pv' b xs"
  by (induction xs arbitrary: b) auto

lemma box_ptr_case:
  "box_ptr x = (case vs of [] \<Rightarrow> None | c # _ \<Rightarrow> Some c) \<Longrightarrow> x = (case vs of [] \<Rightarrow> 0 | c # _ \<Rightarrow> c)"
  by (cases vs) (auto simp: box_ptr_def split: if_splits)

lemma head_or_0_ne: "p \<noteq> 0 \<Longrightarrow> p \<notin> set vs \<Longrightarrow> (case vs of [] \<Rightarrow> 0 | c # _ \<Rightarrow> c) \<noteq> p"
  by (cases vs) auto

lemma llist_box_0: "llist (\<lambda>a. box_ptr (f a)) (box_ptr h) as \<Longrightarrow> 0 \<notin> set as"
proof (induction as arbitrary: h)
  case (Cons a as)
  from Cons.prems have "box_ptr h = Some a" and seg: "llist (\<lambda>a. box_ptr (f a)) (box_ptr (f a)) as" by simp_all
  then have "a \<noteq> 0" by (auto simp: box_ptr_def split: if_splits)
  then show ?case using Cons.IH [OF seg] by simp
qed simp

text \<open>
  The areas of a class: linked both ways in the order of their addresses, not empty, disjoint, inside
  its range.
\<close>

definition class_areas :: "vmc \<Rightarrow> u32 \<Rightarrow> u32 list \<Rightarrow> bool" where
  "class_areas s cls as \<longleftrightarrow> llist (area_next s) (box_ptr (cl_vma_head (vc_class s cls))) as \<and>
     prevs (\<lambda>a. ar_prev (vc_area s a)) 0 as \<and> (\<forall>a\<in>set as. area_sz s a \<noteq> 0) \<and>
     intervals (area_st s) (area_sz s) (unat (cf_start (cl_config (vc_class s cls))))
       (unat (cf_end (cl_config (vc_class s cls)))) as"

text \<open>For a class with page alignment and without a validator (the user and the device classes)
  the search always ends. It returns 0 exactly when no place of that size is left anywhere in the
  range of the class, and otherwise a place in the range that overlaps no area.\<close>

theorem vmm_find_fit_correct:
  assumes areas: "class_areas s cls as" and cf: "cf = cl_config (vc_class s cls)"
    and cls: "cf_validator cf = None" "cf_align cf \<le> PAGE_SIZE" "cf_start cf \<noteq> 0" "cf_start cf \<le> cf_end cf"
    and hint: "cl_hint_ptr (vc_class s cls) \<le> cf_end cf"
    and room: "unat (cf_end cf) + 4096 + unat sz < 4294967296"
  shows "\<exists>v. vmm_find_fit s cls sz = Some v \<and>
    (v = 0 \<longleftrightarrow> (\<forall>x. \<not> fits_at (area_st s) (area_sz s) (unat (cf_start cf)) (unat (cf_end cf)) as (unat sz) x)) \<and>
    (v \<noteq> 0 \<longrightarrow> fits_at (area_st s) (area_sz s) (unat (cf_start cf)) (unat (cf_end cf)) as (unat sz) (unat v))"
proof -
  let ?nx = "area_next s" and ?st = "area_st s" and ?sz = "area_sz s" and ?c = "vc_class s cls"
  let ?head = "box_ptr (cl_vma_head ?c)"
  let ?cand = "if cl_hint_ptr ?c < cf_start cf \<or> cl_hint_ptr ?c + sz > cf_end cf then cf_start cf else cl_hint_ptr ?c"
  let ?below = "\<lambda>a. ?st a + ?sz a \<le> ?cand"
  have aln: "vmm_align_address a (cf_align cf) = a" for a using cls(2) by (simp add: vmm_align_address_def)
  have ll: "llist ?nx ?head as" and iv: "intervals ?st ?sz (unat (cf_start cf)) (unat (cf_end cf)) as"
    using areas cf by (simp_all add: class_areas_def)
  have cand: "cf_start cf \<le> ?cand" "?cand \<le> cf_end cf" using cls hint by auto
  have start0: "0 < unat (cf_start cf)" using cls(3) by (simp add: unat_gt_0)
  let ?suf = "dropWhile ?below as"
  let ?cur = "case ?suf of [] \<Rightarrow> None | c # _ \<Rightarrow> Some c"
  note sk = skip_areas_ok [OF ll, of ?below]
  have ends: "\<forall>a\<in>set as. 0 < area_end ?st ?sz a \<and> area_end ?st ?sz a \<le> unat (cf_end cf)"
    using iv start0 by (auto simp: intervals_def area_end_def)
  have find: "vmm_find_fit s cls sz = find_fit_loop ?nx ?st ?sz (\<lambda>_. True) (\<lambda>a. a) (cf_start cf) (cf_end cf) ?head sz ?cand ?cur False"
  proof -
    have "skip_areas ?nx ?below ?head = Some ?cur" using sk by blast
    then show ?thesis
      unfolding vmm_find_fit_def Let_def cf [symmetric] aln cls(1) by (simp only: bind.bind_lunit option.case)
  qed
  have sub: "set ?suf \<subseteq> set as" by (auto dest: set_dropWhileD)
  have "0 < unat ?cand" "unat ?cand \<le> unat (cf_end cf)" "unat (cf_start cf) \<le> unat (cf_end cf)"
    using cand start0 cls(4) by (simp_all only: word_le_nat_alt)
  note pos = this
  have "unat (cf_end cf) + unat sz < 4294967296" using room by simp
  from find_fit_total [OF conjunct2 [OF sk] ll this ends start0 pos(3) sub pos(1,2)] obtain v where
    v: "vmm_find_fit s cls sz = Some v"
    "v = 0 \<longrightarrow> (\<forall>x. \<not> fits_at ?st ?sz (unat (cf_start cf)) (unat (cf_end cf)) as (unat sz) x)"
    unfolding find by blast
  have "v = 0 \<or> fits_at ?st ?sz (unat (cf_start cf)) (unat (cf_end cf)) as (unat sz) (unat v) \<and> True"
  proof (rule find_fit_sound [where slack = 0 and pre = "takeWhile ?below as" and suf = ?suf and valid = "\<lambda>_. True"])
    show "find_fit_loop ?nx ?st ?sz (\<lambda>_. True) (\<lambda>a. a) (cf_start cf) (cf_end cf) ?head sz ?cand ?cur False = Some v"
      using v(1) find by simp
    show "\<forall>a\<in>set (takeWhile ?below as). area_end ?st ?sz a \<le> unat ?cand"
    proof
      fix a assume a: "a \<in> set (takeWhile ?below as)"
      then have "?below a" "a \<in> set as" by (auto dest: set_takeWhileD)
      moreover have "unat (?st a + ?sz a) = area_end ?st ?sz a"
        using ends \<open>a \<in> set as\<close> room unfolding area_end_def by (intro add_u32) fastforce
      ultimately show "area_end ?st ?sz a \<le> unat ?cand" by (simp add: word_le_nat_alt)
    qed
  qed (use ll iv room cls sk cand in \<open>auto simp: word_le_nat_alt\<close>)
  with v show ?thesis using start0 by (intro exI [of _ v]) (auto simp: fits_at_def)
qed

text \<open>A class of eight pages with one area in the middle.\<close>

definition demo_class :: "vmm_class_config \<Rightarrow> u32 \<Rightarrow> u32 \<Rightarrow> u32 \<Rightarrow> vm \<Rightarrow> vmc" where
  "demo_class cf hint start sz v = \<lparr>vc_vm = v,
     vc_class = (\<lambda>_. \<lparr>cl_config = cf, cl_lock = 0, cl_vma_head = 0x8000, cl_hint_ptr = hint, cl_next = 0\<rparr>),
     vc_area = (\<lambda>_. \<lparr>ar_start = start, ar_size = sz, ar_next = 0, ar_prev = 0\<rparr>)\<rparr>"

lemma demo_class_areas:
  "sz \<noteq> 0 \<Longrightarrow> unat (cf_start cf) \<le> unat start \<Longrightarrow> unat start + unat sz \<le> unat (cf_end cf) \<Longrightarrow>
   class_areas (demo_class cf hint start sz v) cls [0x8000]"
  by (simp add: class_areas_def demo_class_def intervals_def area_end_def box_ptr_def)

definition demo_mmio :: "vm \<Rightarrow> vmc" where
  "demo_mmio = demo_class (class_configs ! 3) 0xF0002000 0xF0001000 0x1000"

theorem vmm_find_fit_correct_witness:
  "\<exists>v. vmm_find_fit (demo_mmio demo_vm) 0x9000 0x2000 = Some v \<and>
    (v = 0 \<or> fits_at (\<lambda>_. 0xF0001000) (\<lambda>_. 0x1000) 0xF0000000 0xF8000000 [0x8000] 0x2000 (unat v))"
proof -
  let ?s = "demo_mmio demo_vm"
  have "class_areas ?s 0x9000 [0x8000]"
    unfolding demo_mmio_def by (rule demo_class_areas) (simp_all add: class_configs_def)
  from vmm_find_fit_correct [OF this refl, of "0x2000"]
  show ?thesis
    by (auto simp: demo_mmio_def demo_class_def class_configs_def word_le_nat_alt)
qed

section \<open>The kernel class\<close>

lemma kernel_tail:
  assumes "k \<le> 1023"
  shows "find_fit_loop nx st sz (\<lambda>a. vmm_internal_validator_kernel a 0x1000) (\<lambda>a. a) 0xC0000000 0xFFFFFFFF head 0x1000
    (page_at 0xFFC00000 k) None False = Some 0xFFFFF000"
  using assms
proof (induction "1023 - k" arbitrary: k)
  case 0
  then have k: "k = 1023" by simp
  have p: "page_at 0xFFC00000 1023 = 0xFFFFF000" by (simp add: page_at_def)
  show ?case unfolding k p
    by (subst find_fit_loop.simps) (simp add: vmm_internal_validator_kernel_def USER_SPACE_END_def RECURSIVE_ADDR_def)
next
  case (Suc x)
  then have k: "k < 1023" by simp
  have u: "unat (page_at 0xFFC00000 k) = 4290772992 + k * 4096"
  proof -
    have "unat (of_nat k * 4096 :: u32) = k * 4096" using k by (simp add: unat_word_ariths unat_of_nat_u32)
    then show ?thesis using k unfolding page_at_def by (subst unat_plus_u32) simp_all
  qed
  have s: "unat (page_at 0xFFC00000 k + 0x1000) = 4290772992 + k * 4096 + 4096" using u k by (subst unat_plus_u32) simp_all
  then have "page_at 0xFFC00000 k + 0x1000 \<le> 0xFFFFFFFF" using k by (simp add: word_le_nat_alt)
  moreover have "page_at 0xFFC00000 k + 0x1000 > RECURSIVE_ADDR" using s by (simp add: word_less_nat_alt RECURSIVE_ADDR_def)
  ultimately have "find_fit_loop nx st sz (\<lambda>a. vmm_internal_validator_kernel a 0x1000) (\<lambda>a. a) 0xC0000000 0xFFFFFFFF head 0x1000
      (page_at 0xFFC00000 k) None False =
    find_fit_loop nx st sz (\<lambda>a. vmm_internal_validator_kernel a 0x1000) (\<lambda>a. a) 0xC0000000 0xFFFFFFFF head 0x1000
      (page_at 0xFFC00000 (Suc k)) None False"
    by (subst find_fit_loop.simps) (simp add: vmm_internal_validator_kernel_def page_at_def algebra_simps)
  also have "\<dots> = Some 0xFFFFF000" using Suc k by simp
  finally show ?case .
qed

text \<open>The kernel class ends at 0xFFFFFFFF, so base + size wraps round in its validator: once the
  class is in use up to the recursive window, a request for one page is answered with the last page
  of the address space, at which the directory itself is mapped.\<close>

theorem kernel_class_hands_out_directory:
  assumes areas: "class_areas s cls as" and cf: "cl_config (vc_class s cls) = class_configs ! 0"
    and hint: "cl_hint_ptr (vc_class s cls) = RECURSIVE_ADDR"
    and full: "\<forall>a\<in>set as. area_end (area_st s) (area_sz s) a \<le> unat RECURSIVE_ADDR"
  shows "vmm_find_fit s cls PAGE_SIZE = Some (RECURSIVE_PT RECURSIVE_PDE)"
proof -
  have ll: "llist (area_next s) (box_ptr (cl_vma_head (vc_class s cls))) as" using areas by (simp add: class_areas_def)
  have "area_st s a + area_sz s a \<le> 0xFFC00000" if "a \<in> set as" for a
  proof -
    have b: "area_end (area_st s) (area_sz s) a \<le> 4290772992" using full that by (simp add: RECURSIVE_ADDR_def)
    then have "unat (area_st s a + area_sz s a) = area_end (area_st s) (area_sz s) a"
      unfolding area_end_def by (intro add_u32) simp
    then show ?thesis using b by (simp add: word_le_nat_alt)
  qed
  then have "dropWhile (\<lambda>a. area_st s a + area_sz s a \<le> 0xFFC00000) as = []" by simp
  then have "skip_areas (area_next s) (\<lambda>a. area_st s a + area_sz s a \<le> 0xFFC00000) (box_ptr (cl_vma_head (vc_class s cls))) = Some None"
    using skip_areas_ok [OF ll, of "\<lambda>a. area_st s a + area_sz s a \<le> 0xFFC00000"] by (simp only: list.case)
  moreover have "RECURSIVE_PT RECURSIVE_PDE = 0xFFFFF000"
    by (simp add: RECURSIVE_PT_def RECURSIVE_ADDR_def RECURSIVE_PDE_def)
  ultimately show ?thesis using kernel_tail [of 0]
    unfolding vmm_find_fit_def Let_def cf hint RECURSIVE_ADDR_def
    by (simp add: class_configs_def vmm_align_address_def)
qed

theorem kernel_class_hands_out_directory_witness:
  "vmm_find_fit (demo_class (class_configs ! 0) RECURSIVE_ADDR 0xC0000000 0x3FC00000 demo_vm) 0x9000 PAGE_SIZE =
    Some (RECURSIVE_PT RECURSIVE_PDE)"
proof (rule kernel_class_hands_out_directory)
  show "class_areas (demo_class (class_configs ! 0) RECURSIVE_ADDR 0xC0000000 0x3FC00000 demo_vm) 0x9000 [0x8000]"
    by (rule demo_class_areas) (simp_all add: class_configs_def)
qed (simp_all add: demo_class_def area_end_def RECURSIVE_ADDR_def)

section \<open>Insertion\<close>

lemma area_before_ok:
  "llist nx (nx h) xs \<Longrightarrow> area_before nx lower h = Some (last (h # takeWhile lower xs))"
proof (induction xs arbitrary: h)
  case Nil
  then show ?case by (subst area_before.simps) simp
next
  case (Cons x xs)
  then have h: "nx h = Some x" "llist nx (nx x) xs" by simp_all
  show ?case
  proof (cases "lower x")
    case True
    then show ?thesis using Cons.IH [OF h(2)] h(1) by (subst area_before.simps) simp
  next
    case False
    then show ?thesis using h by (subst area_before.simps) simp
  qed
qed

lemma llist_insert_after:
  assumes "llist nx a (us @ i # vs)" and "p \<notin> set (us @ i # vs)"
  shows "llist (nx(p := nx i, i := Some p)) a (us @ i # p # vs)"
proof -
  have "distinct (us @ i # vs)" using assms(1) by (rule llist_distinct)
  then show ?thesis using assms by auto
qed

lemma prevs_insert_after:
  assumes pv: "prevs pv 0 (us @ i # vs)" and d: "distinct (us @ i # vs)" "0 \<notin> set (us @ i # vs)" "p \<notin> set (us @ i # vs)"
    and n: "n = (case vs of [] \<Rightarrow> 0 | c # _ \<Rightarrow> c)"
    and pv': "\<And>a. pv' a = (if a = p then i else if a = n \<and> n \<noteq> 0 then p else pv a)"
  shows "prevs pv' 0 (us @ i # p # vs)"
proof -
  have "prevs pv' 0 (us @ [i]) = prevs pv 0 (us @ [i])"
    using d n by (intro prevs_cong) (auto simp: pv' split: list.splits)
  moreover have "prevs pv' p vs"
  proof (cases vs)
    case (Cons c cs)
    then have c: "n = c" "c \<noteq> 0" "c \<noteq> p" using n d by auto
    have "prevs pv' c cs = prevs pv c cs"
    proof (rule prevs_cong)
      fix x assume "x \<in> set cs"
      then have "x \<noteq> p" "x \<noteq> c" using d Cons by auto
      then show "pv' x = pv x" using c by (simp add: pv')
    qed
    then show ?thesis using pv Cons c by (simp add: prevs_append pv')
  qed simp
  moreover have "pv' p = i" by (simp add: pv')
  ultimately show ?thesis using pv by (simp add: prevs_append)
qed

text \<open>Where the new area goes keeps the intervals in order.\<close>

lemma intervals_insert:
  assumes iv: "intervals st sz lo hi (us @ vs)" and f: "fits_at st sz lo hi (us @ vs) (unat n) (unat v)"
    and pos: "n \<noteq> 0" "\<forall>a\<in>set (us @ vs). sz a \<noteq> 0"
    and us: "\<forall>a\<in>set us. st a \<le> v" and vs: "\<forall>a\<in>set vs. v \<le> st a"
    and new: "st' p = v" "sz' p = n" "\<forall>a\<in>set (us @ vs). st' a = st a \<and> sz' a = sz a"
  shows "intervals st' sz' lo hi (us @ p # vs)"
proof -
  have p0: "0 < unat n" using pos(1) by (simp add: unat_gt_0)
  have e: "area_end st' sz' a = area_end st sz a" if "a \<in> set (us @ vs)" for a using new(3) that by (simp add: area_end_def)
  have ep: "area_end st' sz' p = unat v + unat n" using new by (simp add: area_end_def)
  have so: "sorted_wrt (\<lambda>a b. area_end st' sz' a \<le> unat (st' b)) (us @ vs)"
  proof (rule sorted_wrt_mono_rel)
    show "sorted_wrt (\<lambda>a b. area_end st sz a \<le> unat (st b)) (us @ vs)" using iv by (simp add: intervals_def)
    show "area_end st' sz' a \<le> unat (st' b)" if "a \<in> set (us @ vs)" "b \<in> set (us @ vs)" "area_end st sz a \<le> unat (st b)" for a b
      using e [OF that(1)] new(3) that(2,3) by simp
  qed
  have "area_end st' sz' a \<le> unat (st' p)" if a: "a \<in> set us" for a
  proof -
    have "unat v + unat n \<le> unat (st a) \<or> area_end st sz a \<le> unat v" using f a by (simp add: fits_at_def)
    moreover have "unat (st a) \<le> unat v" using us a by (simp add: word_le_nat_alt)
    ultimately show ?thesis using p0 e [of a] a new(1) by auto
  qed
  moreover have "area_end st' sz' p \<le> unat (st' b)" if b: "b \<in> set vs" for b
  proof -
    have "unat v + unat n \<le> unat (st b) \<or> area_end st sz b \<le> unat v" using f b by (simp add: fits_at_def)
    moreover have "unat v \<le> unat (st b)" using vs b by (simp add: word_le_nat_alt)
    moreover have "0 < unat (sz b)" using pos(2) b by (simp add: unat_gt_0)
    ultimately show ?thesis using ep new(3) b unfolding area_end_def by auto
  qed
  moreover have "lo \<le> unat (st' a) \<and> area_end st' sz' a \<le> hi" if "a \<in> set (us @ vs)" for a
    using iv e [OF that] new(3) that by (auto simp: intervals_def)
  moreover have "lo \<le> unat (st' p) \<and> area_end st' sz' p \<le> hi" using f new(1) ep by (simp add: fits_at_def)
  ultimately show ?thesis using so by (auto simp: intervals_def sorted_wrt_append)
qed

lemma sorted_starts:
  assumes "intervals st sz lo hi (h # xs)" and "h' \<in> set xs"
  shows "st h \<le> st h'"
  using assms by (auto simp: intervals_def area_end_def word_le_nat_alt)

lemma dropWhile_above:
  assumes iv: "intervals st sz lo hi xs" and b: "b \<in> set (dropWhile (\<lambda>a. st a < v) xs)"
  shows "v \<le> st b"
proof -
  obtain c cs where c: "dropWhile (\<lambda>a. st a < v) xs = c # cs" using b by (cases "dropWhile (\<lambda>a. st a < v) xs") auto
  then have nc: "\<not> st c < v" using hd_dropWhile [of "\<lambda>a. st a < v" xs] by simp
  have "xs = takeWhile (\<lambda>a. st a < v) xs @ c # cs" using c takeWhile_dropWhile_id [of "\<lambda>a. st a < v" xs] by simp
  then have "intervals st sz lo hi (c # cs)" using iv unfolding intervals_def by (metis UnCI set_append sorted_wrt_append)
  then have "b = c \<or> st c \<le> st b" using b c sorted_starts by fastforce
  then show ?thesis using nc by auto
qed

text \<open>The backward links after an area \<open>p\<close> has been linked in between \<open>i\<close> and \<open>n\<close>.\<close>

lemma relink_prev:
  fixes s :: vmc and v va sz
  assumes "i \<noteq> p" and "n \<noteq> p"
  defines "s2 \<equiv> upd_area p (\<lambda>a. a\<lparr>ar_next := n, ar_prev := i\<rparr>)
    (upd_area p (\<lambda>a. a\<lparr>ar_start := va, ar_size := sz, ar_next := 0, ar_prev := 0\<rparr>) (s\<lparr>vc_vm := v\<rparr>))"
  shows "ar_prev (vc_area (upd_area i (\<lambda>a. a\<lparr>ar_next := p\<rparr>) (if n \<noteq> 0 then upd_area n (\<lambda>a. a\<lparr>ar_prev := p\<rparr>) s2 else s2)) a) =
    (if a = p then i else if a = n \<and> n \<noteq> 0 then p else ar_prev (vc_area s a))"
  using assms(1,2) by (cases "a = i"; cases "n = 0") (auto simp: upd_area_def s2_def)

lemma relink_fields:
  fixes s :: vmc and v va sz n i p
  defines "s2 \<equiv> upd_area p (\<lambda>a. a\<lparr>ar_next := n, ar_prev := i\<rparr>)
    (upd_area p (\<lambda>a. a\<lparr>ar_start := va, ar_size := sz, ar_next := 0, ar_prev := 0\<rparr>) (s\<lparr>vc_vm := v\<rparr>))"
  defines "t \<equiv> upd_area i (\<lambda>a. a\<lparr>ar_next := p\<rparr>) (if n \<noteq> 0 then upd_area n (\<lambda>a. a\<lparr>ar_prev := p\<rparr>) s2 else s2)"
  shows "area_st t a = (if a = p then va else area_st s a)" "area_sz t a = (if a = p then sz else area_sz s a)"
    "vc_vm t = v" "vc_class t = vc_class s"
  by (simp_all add: upd_area_def s2_def t_def)

lemma class_areas_insert:
  assumes areas: "class_areas s cls as" and cf: "cf = cl_config (vc_class s cls)"
    and fit: "fits_at (area_st s) (area_sz s) (unat (cf_start cf)) (unat (cf_end cf)) as (unat sz) (unat va)" and sz: "sz \<noteq> 0"
    and p: "p \<notin> set as" and spl: "as = us @ vs"
    and us: "\<forall>a\<in>set us. area_st s a \<le> va" and vs: "\<forall>a\<in>set vs. va \<le> area_st s a"
    and t: "area_st t p = va" "area_sz t p = sz" "\<forall>a\<in>set as. area_st t a = area_st s a \<and> area_sz t a = area_sz s a"
    and l: "llist (area_next t) (box_ptr (cl_vma_head (vc_class t cls))) (us @ p # vs)"
      "prevs (\<lambda>a. ar_prev (vc_area t a)) 0 (us @ p # vs)" "cl_config (vc_class t cls) = cf"
  shows "class_areas t cls (us @ p # vs) \<and> area_st t p = va \<and> area_sz t p = sz \<and>
      (\<forall>a\<in>set as. area_st t a = area_st s a \<and> area_sz t a = area_sz s a)"
proof -
  have pos: "\<forall>a\<in>set as. area_sz s a \<noteq> 0" and iv: "intervals (area_st s) (area_sz s) (unat (cf_start cf)) (unat (cf_end cf)) as"
    using areas cf by (simp_all add: class_areas_def)
  have "intervals (area_st t) (area_sz t) (unat (cf_start cf)) (unat (cf_end cf)) (us @ p # vs)"
    using iv fit pos sz us vs t unfolding spl by (intro intervals_insert [where st = "area_st s" and sz = "area_sz s"]) auto
  moreover have "\<forall>a\<in>set (us @ p # vs). area_sz t a \<noteq> 0" using pos t sz spl by auto
  ultimately show ?thesis using l t by (simp add: class_areas_def)
qed

text \<open>Recording a place that was found free, with an area structure that is not in the list yet,
  keeps the areas of the class linked both ways, in the order of their addresses and disjoint, and
  adds exactly that place.\<close>

theorem vmm_insert_area_correct:
  assumes areas: "class_areas s cls as" and cf: "cf = cl_config (vc_class s cls)"
    and fit: "fits_at (area_st s) (area_sz s) (unat (cf_start cf)) (unat (cf_end cf)) as (unat sz) (unat va)" and sz: "sz \<noteq> 0"
    and m: "vm_kmalloc (vc_vm s) SIZEOF_AREA = Some (p, v)" "p \<noteq> 0" "p \<notin> set as"
  shows "\<exists>s' us vs. vmm_insert_area s cls va sz = Some (0, s') \<and> as = us @ vs \<and> class_areas s' cls (us @ p # vs) \<and>
    area_st s' p = va \<and> area_sz s' p = sz \<and> (\<forall>a\<in>set as. area_st s' a = area_st s a \<and> area_sz s' a = area_sz s a) \<and>
    vc_vm s' = v \<and> cl_config (vc_class s' cls) = cf"
proof -
  let ?h = "cl_vma_head (vc_class s cls)"
  let ?s1 = "upd_area p (\<lambda>a. a\<lparr>ar_start := va, ar_size := sz, ar_next := 0, ar_prev := 0\<rparr>) (s\<lparr>vc_vm := v\<rparr>)"
  have ll: "llist (area_next s) (box_ptr ?h) as" and bk: "prevs (\<lambda>a. ar_prev (vc_area s a)) 0 as"
    and pos: "\<forall>a\<in>set as. area_sz s a \<noteq> 0" and iv: "intervals (area_st s) (area_sz s) (unat (cf_start cf)) (unat (cf_end cf)) as"
    using areas cf by (simp_all add: class_areas_def)
  have dist: "distinct as" using ll by (rule llist_distinct)
  have nz: "0 \<notin> set as" using ll by (rule llist_box_0)
  have pn: "a \<noteq> p" if "a \<in> set as" for a using that m(3) by blast
  have k: "vm_kmalloc (vc_vm s) SIZEOF_AREA = Some (p, v)" by (rule m(1))
  note fin = class_areas_insert [OF areas cf fit sz m(3)]
  show ?thesis
  proof (cases as)
    case Nil
    then have h: "?h = 0" using ll by (simp add: box_ptr_def split: if_splits)
    let ?t = "upd_class cls (\<lambda>c. c\<lparr>cl_vma_head := p\<rparr>) ?s1"
    have "vmm_insert_area s cls va sz = Some (0, ?t)"
      unfolding vmm_insert_area_def using k m(2) h by (simp add: upd_area_def)
    moreover have "class_areas ?t cls ([] @ p # []) \<and> area_st ?t p = va \<and> area_sz ?t p = sz \<and>
      (\<forall>a\<in>set as. area_st ?t a = area_st s a \<and> area_sz ?t a = area_sz s a)"
      using Nil m(2) cf by (intro fin) (simp_all add: upd_class_def upd_area_def box_ptr_def)
    ultimately show ?thesis using Nil cf
      by (intro exI [of _ ?t] exI [of _ "[]"]) (simp add: upd_class_def upd_area_def)
  next
    case (Cons h xs)
    then have h: "?h = h" "h \<noteq> 0" "llist (area_next s) (area_next s h) xs" using ll by (auto simp: box_ptr_def split: if_splits)
    have hp: "h \<noteq> p" using pn Cons by simp
    show ?thesis
    proof (cases "va < area_st s h")
      case True
      let ?t = "upd_class cls (\<lambda>c. c\<lparr>cl_vma_head := p\<rparr>) (upd_area h (\<lambda>a. a\<lparr>ar_prev := p\<rparr>) (upd_area p (\<lambda>a. a\<lparr>ar_next := h\<rparr>) ?s1))"
      have "vmm_insert_area s cls va sz = Some (0, ?t)"
        unfolding vmm_insert_area_def using k m(2) h True hp by (simp add: upd_area_def)
      moreover have "class_areas ?t cls ([] @ p # as) \<and> area_st ?t p = va \<and> area_sz ?t p = sz \<and>
        (\<forall>a\<in>set as. area_st ?t a = area_st s a \<and> area_sz ?t a = area_sz s a)"
      proof (rule fin)
        have "va \<le> area_st s a" if "a \<in> set as" for a
        proof (cases "a = h")
          case False
          then have "a \<in> set xs" using that Cons by simp
          from sorted_starts [OF iv [unfolded Cons] this] show ?thesis using True by simp
        qed (use True in simp)
        then show "\<forall>a\<in>set as. va \<le> area_st s a" by blast
        have nx: "area_next ?t a = area_next s a" if "a \<in> set as" for a
          using pn [OF that] hp by (simp add: upd_class_def upd_area_def)
        have "llist (area_next ?t) (Some h) as = llist (area_next s) (Some h) as" by (rule lseg_cong) (rule nx)
        then have "llist (area_next ?t) (Some h) as" using ll h by (simp add: box_ptr_def)
        then show "llist (area_next ?t) (box_ptr (cl_vma_head (vc_class ?t cls))) ([] @ p # as)"
          using m(2) h hp by (simp add: upd_class_def upd_area_def box_ptr_def)
        have "prevs (\<lambda>a. ar_prev (vc_area ?t a)) h xs = prevs (\<lambda>a. ar_prev (vc_area s a)) h xs"
          using dist pn Cons by (intro prevs_cong) (auto simp: upd_class_def upd_area_def)
        then show "prevs (\<lambda>a. ar_prev (vc_area ?t a)) 0 ([] @ p # as)"
          using bk Cons hp by (simp add: upd_class_def upd_area_def)
      qed (use pn hp cf in \<open>auto simp: upd_class_def upd_area_def\<close>)
      ultimately show ?thesis using cf
        by (intro exI [of _ ?t] exI [of _ "[]"] exI [of _ as]) (simp add: upd_class_def upd_area_def)
    next
      case False
      let ?low = "\<lambda>a. area_st s a < va"
      let ?us = "h # takeWhile ?low xs" and ?vs = "dropWhile ?low xs"
      let ?i = "last ?us"
      let ?n = "ar_next (vc_area s ?i)"
      let ?s2 = "upd_area p (\<lambda>a. a\<lparr>ar_next := ?n, ar_prev := ?i\<rparr>) ?s1"
      let ?t = "upd_area ?i (\<lambda>a. a\<lparr>ar_next := p\<rparr>) (if ?n \<noteq> 0 then upd_area ?n (\<lambda>a. a\<lparr>ar_prev := p\<rparr>) ?s2 else ?s2)"
      have spl: "as = ?us @ ?vs" using Cons by simp
      have "?i \<in> set ?us" by (rule last_in_set) simp
      then have iin: "?i \<in> set as" using spl by (metis UnI1 set_append)
      have i: "?i \<noteq> p" using pn [OF iin] .
      have split: "butlast ?us @ ?i # ?vs = as" using spl append_butlast_last_id [of ?us] by (metis append.assoc append_Cons append_Nil list.distinct(1))
      have n: "?n = (case ?vs of [] \<Rightarrow> 0 | c # _ \<Rightarrow> c)"
      proof -
        have "area_next s ?i = (case ?vs of [] \<Rightarrow> None | c # _ \<Rightarrow> Some c)"
          using llist_next_split [of "area_next s" "box_ptr ?h" "butlast ?us" ?i ?vs] ll unfolding split by blast
        then show ?thesis by (rule box_ptr_case)
      qed
      have "p \<notin> set ?vs" using m(3) spl by (metis UnI2 set_append)
      then have np: "?n \<noteq> p" unfolding n using m(2) by (intro head_or_0_ne)
      have walk: "area_before (area_next ?s1) (\<lambda>a. area_st ?s1 a < va) h = Some ?i"
      proof -
        have nx1: "area_next ?s1 a = area_next s a" if "a \<in> set as" for a using pn [OF that] by (simp add: upd_area_def)
        have "llist (area_next ?s1) (area_next s h) xs = llist (area_next s) (area_next s h) xs"
          by (rule lseg_cong) (simp add: nx1 Cons)
        then have "llist (area_next ?s1) (area_next s h) xs" using h(3) by simp
        then have "area_before (area_next ?s1) (\<lambda>a. area_st ?s1 a < va) h = Some (last (h # takeWhile (\<lambda>a. area_st ?s1 a < va) xs))"
          using nx1 [of h] Cons by (intro area_before_ok) simp
        moreover have "takeWhile (\<lambda>a. area_st ?s1 a < va) xs = takeWhile ?low xs"
          using pn Cons by (intro takeWhile_cong) (auto simp: upd_area_def)
        ultimately show ?thesis by (simp only:)
      qed
      have "vmm_insert_area s cls va sz = Some (0, ?t)"
        unfolding vmm_insert_area_def using k m(2) h False hp walk i by (simp add: upd_area_def Let_def)
      moreover have "class_areas ?t cls (?us @ p # ?vs) \<and> area_st ?t p = va \<and> area_sz ?t p = sz \<and>
        (\<forall>a\<in>set as. area_st ?t a = area_st s a \<and> area_sz ?t a = area_sz s a)"
      proof (rule fin [OF spl])
        show "\<forall>a\<in>set ?us. area_st s a \<le> va" using False by (auto dest: set_takeWhileD)
        have "intervals (area_st s) (area_sz s) (unat (cf_start cf)) (unat (cf_end cf)) xs"
          using iv Cons by (simp add: intervals_def)
        then show "\<forall>a\<in>set ?vs. va \<le> area_st s a" using dropWhile_above by blast
        have "area_next ?t = (area_next s)(p := area_next s ?i, ?i := Some p)"
          using i m(2) np by (auto simp: upd_area_def box_ptr_def fun_eq_iff)
        moreover have "cl_vma_head (vc_class ?t cls) = ?h" by (simp add: upd_area_def)
        moreover have "llist ((area_next s)(p := area_next s ?i, ?i := Some p)) (box_ptr ?h) (butlast ?us @ ?i # p # ?vs)"
          using ll m(3) unfolding split [symmetric] by (rule llist_insert_after)
        moreover have re: "butlast ?us @ ?i # p # ?vs = ?us @ p # ?vs"
          using append_butlast_last_id [of ?us] by (metis append.assoc append_Cons append_Nil list.distinct(1))
        ultimately show "llist (area_next ?t) (box_ptr (cl_vma_head (vc_class ?t cls))) (?us @ p # ?vs)" by (simp only:)
        let ?pv = "\<lambda>a. ar_prev (vc_area s a)" and ?pv' = "\<lambda>a. ar_prev (vc_area ?t a)"
        have pv': "?pv' a = (if a = p then ?i else if a = ?n \<and> ?n \<noteq> 0 then p else ?pv a)" for a
          by (rule relink_prev [OF i np])
        have "prevs ?pv' 0 (butlast ?us @ ?i # p # ?vs)"
          by (rule prevs_insert_after [OF _ _ _ _ n pv'], unfold split) (rule bk dist nz m(3))+
        then show "prevs ?pv' 0 (?us @ p # ?vs)" by (simp only: re)
        show "area_st ?t p = va" "area_sz ?t p = sz" unfolding relink_fields by simp_all
        show "\<forall>a\<in>set as. area_st ?t a = area_st s a \<and> area_sz ?t a = area_sz s a"
          unfolding relink_fields using pn by simp
        show "cl_config (vc_class ?t cls) = cf" unfolding relink_fields using cf by simp
      qed
      moreover have "vc_vm ?t = v" "cl_config (vc_class ?t cls) = cf" unfolding relink_fields using cf by simp_all
      ultimately show ?thesis using spl by blast
    qed
  qed
qed

lemma demo_kmalloc: "\<exists>h. kmalloc (demo_heap\<lparr>hp_pmm := b\<rparr>) 16 = Some (0x100030, h)"
  unfolding kmalloc_def heap_box_iterate_def
  apply (subst heap_box_iterate_loop.simps)
  apply (simp add: demo_heap_def box_ptr_def heap_box_alloc_def heap_map_find_free_def BLOCKS_PER_BOX_def
      Let_def blocks_needed_def upd_box_def)
  apply (simp add: heap_map_find_loop.simps map_bit_def)
  done

theorem vmm_insert_area_correct_witness:
  "\<exists>p s' us vs. vmm_insert_area (demo_mmio demo_vm) 0x9000 0xF0004000 0x2000 = Some (0, s') \<and>
    [0x8000] = us @ vs \<and> class_areas s' 0x9000 (us @ p # vs)"
proof -
  let ?s = "demo_mmio demo_vm"
  from demo_kmalloc obtain h where "kmalloc (vm_heap demo_vm) 16 = Some (0x100030, h)"
    by (auto simp: demo_vm_def)
  then have k: "vm_kmalloc (vc_vm ?s) SIZEOF_AREA = Some (0x100030, demo_vm\<lparr>vm_heap := h\<rparr>)"
    by (simp add: vm_kmalloc_def SIZEOF_AREA_def demo_mmio_def demo_class_def)
  have "class_areas ?s 0x9000 [0x8000]"
    unfolding demo_mmio_def by (rule demo_class_areas) (simp_all add: class_configs_def)
  moreover have "fits_at (area_st ?s) (area_sz ?s) (unat (cf_start (cl_config (vc_class ?s 0x9000))))
      (unat (cf_end (cl_config (vc_class ?s 0x9000)))) [0x8000] (unat (0x2000 :: u32)) (unat (0xF0004000 :: u32))"
    by (simp add: fits_at_def area_end_def demo_mmio_def demo_class_def class_configs_def)
  ultimately show ?thesis using vmm_insert_area_correct [OF _ refl _ _ k] by fastforce
qed

end
