(* ===== verification/VmmPager.thy ===== *)
theory VmmPager
  imports VmmClass
begin

text \<open>
  mem/vmm.c, last part: pagers, which serve requests about one region, and the shuffling of the
  frames behind a range of addresses.
\<close>

unbundle bit_operations_syntax

section \<open>State\<close>

datatype vmm_pager_request_type_t =
  VMM_PAGER_REQ_ALLOC | VMM_PAGER_REQ_FREE | VMM_PAGER_REQ_MAP_PHYSICAL | VMM_PAGER_REQ_UNMAP_PHYSICAL
| VMM_PAGER_REQ_PROTECT | VMM_PAGER_REQ_QUERY | VMM_PAGER_REQ_COPY | VMM_PAGER_REQ_MAP_SHARED
| VMM_PAGER_REQ_IDENTITY | VMM_PAGER_REQ_MAP_DIRECT | VMM_PAGER_REQ_MAP_ANON | VMM_PAGER_REQ_NUKE

text \<open>
  A request. The three response pointers are flags that say whether they are given; what is stored
  through them is part of the outcome.
\<close>

record vmm_pager_request_t =
  rq_type :: vmm_pager_request_type_t
  rq_page_count :: u32
  rq_flags :: u32
  rq_virtual_offset :: u32
  rq_target_pa :: u32
  rq_target_region :: u32
  rq_target_virtual_offset :: u32
  rq_response_pa :: bool
  rq_response_flags :: bool
  rq_response_ptr :: bool

record vmm_response =
  rs_pa :: "u32 option"
  rs_flags :: "u32 option"
  rs_ptr :: "u32 option"

definition no_response :: vmm_response where
  "no_response = \<lparr>rs_pa = None, rs_flags = None, rs_ptr = None\<rparr>"

record vmm_pager_desc_t =
  pg_base_va :: u32
  pg_size_pages :: u32
  pg_default_flags :: u32
  pg_region :: u32
  pg_lock :: spinlock_t
  pg_next_desc :: u32

definition SIZEOF_PAGER :: u32 where "SIZEOF_PAGER = 24"

text \<open>A handler gives its status, the responses, the pager and the state.\<close>

type_synonym handled = "(int \<times> vmm_response \<times> vmm_pager_desc_t \<times> vm) option"

section \<open>Creation and destruction\<close>

definition vmm_pager_create :: "vm \<Rightarrow> u32 \<Rightarrow> (u32 \<times> vmm_pager_desc_t \<times> vm) option" where
  "vmm_pager_create s region =
     (let d = \<lparr>pg_base_va = 0, pg_size_pages = 0, pg_default_flags = 0, pg_region = region,
               pg_lock = spinlock_init 0, pg_next_desc = 0\<rparr>
      in if region = 0 then Some (0, d, s)
      else do {
        (desc, s) \<leftarrow> vm_kmalloc s SIZEOF_PAGER;
        Some (desc, d, s)
      })"

definition vmm_pager_destroy :: "vm \<Rightarrow> u32 \<Rightarrow> vmm_pager_desc_t \<Rightarrow> vm option" where
  "vmm_pager_destroy s ptr p =
     (if ptr = 0 then Some s
      else do {
        l \<leftarrow> lock_acquire (pg_lock p);
        s \<leftarrow> (if pg_base_va p \<noteq> 0 \<and> pg_size_pages p > 0
             then vmm_free s (pg_region p) (pg_base_va p) (pg_size_pages p) else Some s);
        vm_kfree s ptr SIZEOF_PAGER
      })"

section \<open>Requests\<close>

definition vmm_pager_handle_alloc :: "vm \<Rightarrow> vmm_pager_desc_t \<Rightarrow> vmm_pager_request_t \<Rightarrow> handled" where
  "vmm_pager_handle_alloc s p q = do {
     (va, s) \<leftarrow> vmm_alloc s (pg_region p) (rq_page_count q) (rq_flags q);
     if va = -1 then Some (-1, no_response, p, s)
     else
       let p = (if pg_size_pages p = 0 then p\<lparr>pg_base_va := va\<rparr> else p) in
       Some (0, no_response, p\<lparr>pg_size_pages := pg_size_pages p + rq_page_count q, pg_default_flags := rq_flags q\<rparr>, s)
   }"

definition vmm_pager_handle_free :: "vm \<Rightarrow> vmm_pager_desc_t \<Rightarrow> vmm_pager_request_t \<Rightarrow> handled" where
  "vmm_pager_handle_free s p q =
     (if pg_size_pages p < rq_page_count q then Some (-1, no_response, p, s)
      else do {
        let target_va = pg_base_va p + rq_virtual_offset q * PAGE_SIZE;
        s \<leftarrow> vmm_free s (pg_region p) target_va (rq_page_count q);
        Some (0, no_response, p\<lparr>pg_size_pages := pg_size_pages p - rq_page_count q\<rparr>, s)
      })"

definition vmm_pager_handle_map_physical :: "vm \<Rightarrow> vmm_pager_desc_t \<Rightarrow> vmm_pager_request_t \<Rightarrow> handled" where
  "vmm_pager_handle_map_physical s p q = do {
     let target_va = pg_base_va p + rq_virtual_offset q * PAGE_SIZE;
     let r = pg_region p;
     if target_va < pg_base_va p \<or> target_va \<ge> pg_base_va p + pg_size_pages p * PAGE_SIZE then do {
       let g = vm_region s r;
       let va = (if rg_next_free_va g \<noteq> 0 then rg_next_free_va g else rg_base_va g);
       (x, s) \<leftarrow> for_pages (\<lambda>i s. do {
           (x, s) \<leftarrow> vmm_map s r (page_at va i) (page_at (rq_target_pa q) i) (rq_flags q);
           Some (if x \<noteq> 0 then -1 else 0, s)
         }) 0 (unat (rq_page_count q)) s;
       if x < 0 then Some (-1, no_response, p, s)
       else
         let s = upd_region r (\<lambda>g. g\<lparr>rg_next_free_va := va + rq_page_count q * PAGE_SIZE\<rparr>) s;
             p = (if pg_size_pages p = 0 then p\<lparr>pg_base_va := va\<rparr> else p)
         in Some (0, no_response, p\<lparr>pg_size_pages := pg_size_pages p + rq_page_count q\<rparr>, s)
     }
     else do {
       (x, s) \<leftarrow> for_pages (\<lambda>i s. do {
           (_, s) \<leftarrow> vmm_unmap s r (page_at target_va i);
           (x, s) \<leftarrow> vmm_map s r (page_at target_va i) (page_at (rq_target_pa q) i) (rq_flags q);
           Some (if x \<noteq> 0 then -1 else 0, s)
         }) 0 (unat (rq_page_count q)) s;
       Some (if x < 0 then -1 else 0, no_response, p, s)
     }
   }"

text \<open>The range check of the two handlers that follow.\<close>

definition outside_pager :: "vmm_pager_desc_t \<Rightarrow> u32 \<Rightarrow> u32 \<Rightarrow> bool" where
  "outside_pager p start_va count \<longleftrightarrow> start_va < pg_base_va p \<or>
     start_va + count * PAGE_SIZE > pg_base_va p + pg_size_pages p * PAGE_SIZE"

definition vmm_pager_handle_unmap_physical :: "vm \<Rightarrow> vmm_pager_desc_t \<Rightarrow> vmm_pager_request_t \<Rightarrow> handled" where
  "vmm_pager_handle_unmap_physical s p q = do {
     let start_va = pg_base_va p + rq_virtual_offset q * PAGE_SIZE;
     if outside_pager p start_va (rq_page_count q) then Some (-1, no_response, p, s)
     else do {
       (_, s) \<leftarrow> for_pages (\<lambda>i s. do {
           pa \<leftarrow> vmm_resolve s (pg_region p) (page_at start_va i);
           if pa \<noteq> 0 then do { (_, s) \<leftarrow> vmm_unmap s (pg_region p) (page_at start_va i); Some (0, s) }
           else Some (0, s)
         }) 0 (unat (rq_page_count q)) s;
       Some (0, no_response, p, s)
     }
   }"

definition vmm_pager_handle_protect :: "vm \<Rightarrow> vmm_pager_desc_t \<Rightarrow> vmm_pager_request_t \<Rightarrow> handled" where
  "vmm_pager_handle_protect s p q = do {
     let start_va = pg_base_va p + rq_virtual_offset q * PAGE_SIZE;
     if outside_pager p start_va (rq_page_count q) then Some (-1, no_response, p, s)
     else do {
       (_, s) \<leftarrow> for_pages (\<lambda>i s. do {
           pa \<leftarrow> vmm_resolve s (pg_region p) (page_at start_va i);
           if pa \<noteq> 0 then do { (_, s) \<leftarrow> vmm_map s (pg_region p) (page_at start_va i) pa (rq_flags q); Some (0, s) }
           else Some (0, s)
         }) 0 (unat (rq_page_count q)) s;
       Some (0, no_response, p, s)
     }
   }"

definition vmm_pager_handle_query :: "vm \<Rightarrow> vmm_pager_desc_t \<Rightarrow> vmm_pager_request_t \<Rightarrow> handled" where
  "vmm_pager_handle_query s p q = do {
     let target_va = pg_base_va p + rq_virtual_offset q * PAGE_SIZE;
     if target_va < pg_base_va p \<or> target_va \<ge> pg_base_va p + pg_size_pages p * PAGE_SIZE
     then Some (-1, no_response, p, s)
     else do {
       e \<leftarrow> dir_get s (pg_region p) (pd_index target_va);
       if e AND PAGE_PRESENT = 0 then Some (-1, no_response, p, s)
       else do {
         t \<leftarrow> pt_get s (pd_index target_va) (pt_index target_va);
         if t AND PAGE_PRESENT = 0 then Some (-1, no_response, p, s)
         else Some (0, \<lparr>rs_pa = (if rq_response_pa q then Some (t AND PAGE_MASK) else None),
                        rs_flags = (if rq_response_flags q then Some (t AND 0xFFF) else None),
                        rs_ptr = None\<rparr>, p, s)
       }
     }
   }"

definition vmm_pager_handle_copy :: "vm \<Rightarrow> vmm_pager_desc_t \<Rightarrow> vmm_pager_request_t \<Rightarrow> handled" where
  "vmm_pager_handle_copy s p q = do {
     (new_region, s) \<leftarrow> vmm_copy_pagemap s (pg_region p);
     if new_region = 0 then Some (-1, no_response, p, s)
     else Some (0, no_response\<lparr>rs_ptr := (if rq_response_ptr q then Some new_region else None)\<rparr>, p, s)
   }"

definition vmm_pager_handle_map_shared :: "vm \<Rightarrow> vmm_pager_desc_t \<Rightarrow> vmm_pager_request_t \<Rightarrow> handled" where
  "vmm_pager_handle_map_shared s p q =
     (if rq_target_region q = 0 then Some (-1, no_response, p, s)
      else do {
        let va_a = pg_base_va p + rq_virtual_offset q * PAGE_SIZE;
        let va_b = rg_base_va (vm_region s (rq_target_region q)) + rq_target_virtual_offset q * PAGE_SIZE;
        (x, s) \<leftarrow> vmm_map_shared s (pg_region p) (rq_target_region q) va_a va_b (rq_target_pa q) (rq_page_count q) (rq_flags q);
        if x < 0 then Some (-1, no_response, p, s)
        else
          let p = (if pg_size_pages p = 0 then p\<lparr>pg_base_va := va_a\<rparr> else p)
          in Some (0, no_response, p\<lparr>pg_size_pages := pg_size_pages p + rq_page_count q\<rparr>, s)
      })"

definition vmm_pager_handle_identity :: "vm \<Rightarrow> vmm_pager_desc_t \<Rightarrow> vmm_pager_request_t \<Rightarrow> handled" where
  "vmm_pager_handle_identity s p q = do {
     (x, s) \<leftarrow> vmm_identity_map s (pg_region p) (rq_target_pa q) (rq_page_count q) (rq_flags q);
     Some (if x < 0 then -1 else 0, no_response, p, s)
   }"

definition vmm_pager_handle_map_direct :: "vm \<Rightarrow> vmm_pager_desc_t \<Rightarrow> vmm_pager_request_t \<Rightarrow> handled" where
  "vmm_pager_handle_map_direct s p q = do {
     (x, s) \<leftarrow> vmm_map_direct s (pg_region p) (rq_target_pa q) (rq_page_count q) (rq_flags q);
     Some (if x < 0 then -1 else 0, no_response, p, s)
   }"

definition vmm_pager_handle_map_anon :: "vm \<Rightarrow> vmm_pager_desc_t \<Rightarrow> vmm_pager_request_t \<Rightarrow> handled" where
  "vmm_pager_handle_map_anon s p q = do {
     (va, s) \<leftarrow> vmm_map_anonymous s (pg_region p) (rq_page_count q) (rq_flags q);
     if va = 0 then Some (-1, no_response, p, s)
     else
       let p = (if pg_size_pages p = 0 then p\<lparr>pg_base_va := va\<rparr> else p)
       in Some (0, no_response\<lparr>rs_pa := (if rq_response_pa q then Some va else None)\<rparr>,
                p\<lparr>pg_size_pages := pg_size_pages p + rq_page_count q\<rparr>, s)
   }"

definition vmm_pager_handle_nuke :: "vm \<Rightarrow> vmm_pager_desc_t \<Rightarrow> vmm_pager_request_t \<Rightarrow> handled" where
  "vmm_pager_handle_nuke s p q = do {
     s \<leftarrow> vmm_nuke_pagemap s (pg_region p);
     Some (0, no_response, p\<lparr>pg_region := 0, pg_base_va := 0, pg_size_pages := 0\<rparr>, s)
   }"

definition vmm_pager_dispatch :: "vm \<Rightarrow> vmm_pager_desc_t \<Rightarrow> vmm_pager_request_t \<Rightarrow> handled" where
  "vmm_pager_dispatch s p q =
     (case rq_type q of
        VMM_PAGER_REQ_ALLOC \<Rightarrow> vmm_pager_handle_alloc s p q
      | VMM_PAGER_REQ_FREE \<Rightarrow> vmm_pager_handle_free s p q
      | VMM_PAGER_REQ_MAP_PHYSICAL \<Rightarrow> vmm_pager_handle_map_physical s p q
      | VMM_PAGER_REQ_UNMAP_PHYSICAL \<Rightarrow> vmm_pager_handle_unmap_physical s p q
      | VMM_PAGER_REQ_PROTECT \<Rightarrow> vmm_pager_handle_protect s p q
      | VMM_PAGER_REQ_QUERY \<Rightarrow> vmm_pager_handle_query s p q
      | VMM_PAGER_REQ_COPY \<Rightarrow> vmm_pager_handle_copy s p q
      | VMM_PAGER_REQ_MAP_SHARED \<Rightarrow> vmm_pager_handle_map_shared s p q
      | VMM_PAGER_REQ_IDENTITY \<Rightarrow> vmm_pager_handle_identity s p q
      | VMM_PAGER_REQ_MAP_DIRECT \<Rightarrow> vmm_pager_handle_map_direct s p q
      | VMM_PAGER_REQ_MAP_ANON \<Rightarrow> vmm_pager_handle_map_anon s p q
      | VMM_PAGER_REQ_NUKE \<Rightarrow> vmm_pager_handle_nuke s p q)"

text \<open>\<open>vmm_pager_handle_request\<close>; a null pager or request is \<open>None\<close>.\<close>

definition vmm_pager_handle_request ::
  "vm \<Rightarrow> vmm_pager_desc_t option \<Rightarrow> vmm_pager_request_t option \<Rightarrow> (int \<times> vmm_response \<times> vmm_pager_desc_t option \<times> vm) option" where
  "vmm_pager_handle_request s pager req =
     (case (pager, req) of
        (Some p, Some q) \<Rightarrow>
          if pg_region p = 0 then Some (-1, no_response, pager, s)
          else do {
            l \<leftarrow> lock_acquire (pg_lock p);
            (status, rs, p, s) \<leftarrow> vmm_pager_dispatch s (p\<lparr>pg_lock := l\<rparr>) q;
            Some (status, rs, Some (p\<lparr>pg_lock := lock_release (pg_lock p)\<rparr>), s)
          }
      | _ \<Rightarrow> Some (-1, no_response, pager, s))"

section \<open>Shuffling\<close>

text \<open>The generator, with the 64-bit state \<open>vmm_rng_state\<close>.\<close>

definition vmm_rand :: "u64 \<Rightarrow> u32 \<times> u64" where
  "vmm_rand st = (let st = st * 1103515245 + 12345 in (ucast (st div 65536 mod 32768), st))"

text \<open>The Fisher-Yates loop, for \<open>i = n\<close> down to 1.\<close>

fun vmm_fisher_yates :: "nat \<Rightarrow> u64 \<Rightarrow> u32 list \<Rightarrow> u64 \<times> u32 list" where
  "vmm_fisher_yates 0 g pas = (g, pas)"
| "vmm_fisher_yates (Suc i) g pas =
     (let (r, g) = vmm_rand g;
          j = unat (r mod (of_nat (Suc i) + 1));
          temp = pas ! Suc i;
          pas = pas[Suc i := pas ! j];
          pas = pas[j := temp]
      in vmm_fisher_yates i g pas)"

text \<open>Putting a list of frames behind a range of addresses, keeping the flags of each page.\<close>

definition vmm_remap :: "vm \<Rightarrow> u32 \<Rightarrow> u32 \<Rightarrow> u32 \<Rightarrow> u32 list \<Rightarrow> vm option" where
  "vmm_remap s region base_va pages pas = do {
     (_, s) \<leftarrow> for_pages (\<lambda>i s. do {
         flags \<leftarrow> vmm_get_entry_flags s (page_at base_va i);
         (_, s) \<leftarrow> vmm_unmap s region (page_at base_va i);
         (_, s) \<leftarrow> vmm_map s region (page_at base_va i) (pas ! i) flags;
         Some (0, s)
       }) 0 (unat pages) s;
     Some s
   }"

text \<open>
  \<open>vmm_shuffle\<close>. The key is an array of the heap; the value is its address (0 on failure) and its
  contents.
\<close>

definition vmm_shuffle :: "vm \<Rightarrow> u64 \<Rightarrow> u32 \<Rightarrow> u32 \<Rightarrow> u32 \<Rightarrow> (u32 \<times> u32 list \<times> u64 \<times> vm) option" where
  "vmm_shuffle s g region base_va pages =
     (if region = 0 \<or> pages = 0 then Some (0, [], g, s)
      else do {
        (key, s) \<leftarrow> vm_kmalloc s (4 * pages);
        if key = 0 then Some (0, [], g, s)
        else do {
          (shuffled, s) \<leftarrow> vm_kmalloc s (4 * pages);
          if shuffled = 0 then do { s \<leftarrow> vm_kfree s key (4 * pages); Some (0, [], g, s) }
          else do {
            (r, pas) \<leftarrow> phys_list_loop (\<lambda>i. vmm_resolve s region (page_at base_va i)) 0 (unat pages) [];
            if r < 0 then do {
              s \<leftarrow> vm_kfree s key (4 * pages);
              s \<leftarrow> vm_kfree s shuffled (4 * pages);
              Some (0, [], g, s)
            }
            else do {
              let (g, perm) = vmm_fisher_yates (unat pages - 1) g pas;
              s \<leftarrow> vmm_remap s region base_va pages perm;
              s \<leftarrow> vm_kfree s shuffled (4 * pages);
              Some (key, pas, g, s)
            }
          }
        }
      })"

definition vmm_unshuffle :: "vm \<Rightarrow> u32 \<Rightarrow> u32 \<Rightarrow> u32 \<Rightarrow> u32 \<Rightarrow> u32 list \<Rightarrow> vm option" where
  "vmm_unshuffle s region base_va pages key pas =
     (if region = 0 \<or> key = 0 \<or> pages = 0 then Some s
      else do {
        s \<leftarrow> vmm_remap s region base_va pages pas;
        vm_kfree s key (4 * pages)
      })"

end
