(* ===== verification/VmmPagerProps.thy ===== *)
theory VmmPagerProps
  imports VmmPager VmmProps "HOL-Library.Multiset"
begin

text \<open>Shuffling the frames behind a range of addresses, and undoing it; bounds of pager requests.\<close>

unbundle bit_operations_syntax

section \<open>Shuffling\<close>

lemma fisher_yates_perm:
  "n < length pas \<Longrightarrow> length pas \<le> 1048576 \<Longrightarrow> vmm_fisher_yates n g pas = (g', perm) \<Longrightarrow>
   mset perm = mset pas \<and> length perm = length pas"
proof (induction n arbitrary: g pas)
  case (Suc n)
  obtain r g1 where r: "vmm_rand g = (r, g1)" by force
  let ?m = "of_nat (Suc n) + 1 :: u32"
  let ?j = "unat (r mod ?m)"
  let ?p = "pas[Suc n := pas ! ?j, ?j := pas ! Suc n]"
  have m: "unat ?m = Suc (Suc n)" using Suc.prems(1,2) unat_of_nat_u32 [of "Suc (Suc n)"] by (simp add: add.commute)
  have "?j = unat r mod Suc (Suc n)" by (simp only: unat_mod m)
  then have "?j < length pas" using mod_less_divisor [of "Suc (Suc n)" "unat r"] Suc.prems(1) by linarith
  then have "mset ?p = mset pas" using Suc.prems(1) by (rule mset_swap)
  moreover have "vmm_fisher_yates n g1 ?p = (g', perm)" using Suc.prems(3) r by (simp add: Let_def)
  with Suc.IH [of ?p g1] Suc.prems(1,2) have "mset perm = mset ?p \<and> length perm = length ?p" by simp
  ultimately show ?case by simp
qed simp

lemma phys_list_loop_ok:
  "(\<And>j. i \<le> j \<Longrightarrow> j < i + n \<Longrightarrow> f j = Some (w j) \<and> w j \<noteq> 0) \<Longrightarrow>
   phys_list_loop f i n acc = Some (0, acc @ map w [i..<i + n])"
proof (induction n arbitrary: i acc)
  case (Suc n)
  have "f i = Some (w i)" "w i \<noteq> 0" using Suc.prems [of i] by simp_all
  moreover have "phys_list_loop f (i + 1) n (acc @ [w i]) = Some (0, (acc @ [w i]) @ map w [i + 1..<i + 1 + n])"
    by (rule Suc.IH) (simp add: Suc.prems)
  moreover have "[i..<i + Suc n] = i # [i + 1..<i + 1 + n]" by (simp add: upt_conv_Cons)
  ultimately show ?case by simp
qed simp

text \<open>An entry is made of its frame and its flags.\<close>

lemma entry_split:
  assumes "present e"
  shows "entry ((e AND PAGE_MASK) OR page_offset va) ((entry pa (e AND 0xFFF)) AND 0xFFF) = e"
    and "entry ((e AND PAGE_MASK) OR page_offset va) (e AND 0xFFF) = e"
proof -
  have b: "bit e 0" using assms present_bit [of e] by (simp add: present_def)
  have t: "(0xFFF :: u32) = mask 12" "PAGE_MASK = NOT (mask 12)" by (simp_all add: PAGE_MASK_def mask_eq_exp_minus_1)
  show "entry ((e AND PAGE_MASK) OR page_offset va) ((entry pa (e AND 0xFFF)) AND 0xFFF) = e"
    unfolding entry_def page_offset_def PAGE_PRESENT_def t
    by (rule bit_word_eqI) (auto simp: bit_simps b)
  show "entry ((e AND PAGE_MASK) OR page_offset va) (e AND 0xFFF) = e"
    unfolding entry_def page_offset_def PAGE_PRESENT_def t
    by (rule bit_word_eqI) (auto simp: bit_simps b)
qed

lemma vmm_remap_ok:
  assumes ok: "vmm_ok R r d s P" and rr: "range_ready d s va (unat pages)"
  obtains s' where "vmm_remap s r va pages pas = Some s'" "vmm_ok R r d s' P" "range_ready d s' va (unat pages)"
    "view s' = over va (\<lambda>i. entry (pas ! i) (view s (page_at va i) AND 0xFFF)) (unat pages) (view s)"
proof -
  from rr have h: "unat pages \<le> 1048576" "\<And>i. i < unat pages \<Longrightarrow> client_va d (page_at va i)"
    "\<And>i. i < unat pages \<Longrightarrow> ready s (page_at va i)" by (simp_all add: range_ready_def)
  from vas.remap_range [OF ok h(2,3,1), where pas = pas] obtain s' where
    s': "for_pages (address_space.remap_page (\<lambda>s. vmm_map s r) (\<lambda>s. vmm_unmap s r) vmm_get_entry_flags va pas) 0 (unat pages) s = Some (0, s')"
    "vmm_ok R r d s' P" "ready s \<le> ready s'"
    "view s' = over va (\<lambda>i. entry (pas ! i) (view s (page_at va i) AND 0xFFF)) (unat pages) (view s)" by blast
  then have "range_ready d s' va (unat pages)" using rr by (auto simp: range_ready_def le_fun_def)
  then show ?thesis using that s' unfolding vmm_remap_def vas.remap_page_def by simp
qed

text \<open>The shuffle redirects the pages of a range to the same frames in another order, and undoing
  it with the recorded addresses restores every entry of the address space, flags included.\<close>

theorem vmm_shuffle_roundtrip:
  assumes ok: "vmm_ok R r d s P" and rr: "range_ready d s va (unat pages)" and n: "pages \<noteq> 0"
    and mapped: "\<And>i. i < unat pages \<Longrightarrow> present (view s (page_at va i)) \<and> view s (page_at va i) AND PAGE_MASK \<noteq> 0"
  shows "\<exists>pas g' perm s1 s2.
    phys_list_loop (\<lambda>i. vmm_resolve s r (page_at va i)) 0 (unat pages) [] = Some (0, pas) \<and>
    vmm_fisher_yates (unat pages - 1) g pas = (g', perm) \<and> mset perm = mset pas \<and>
    vmm_remap s r va pages perm = Some s1 \<and> vmm_ok R r d s1 P \<and>
    vmm_remap s1 r va pages pas = Some s2 \<and> vmm_ok R r d s2 P \<and> view s2 = view s"
proof -
  let ?n = "unat pages" and ?e = "\<lambda>i. view s (page_at va i)"
  let ?w = "\<lambda>i. (?e i AND PAGE_MASK) OR page_offset (page_at va i)"
  let ?pas = "map ?w [0..<?n]"
  have n1: "?n \<le> 1048576" and cl: "\<And>i. i < ?n \<Longrightarrow> pd_index (page_at va i) \<noteq> 1023"
    using rr by (auto simp: range_ready_def client_va_def)
  have w: "vmm_resolve s r (page_at va i) = Some (?w i) \<and> ?w i \<noteq> 0" if "i < ?n" for i
  proof
    show "vmm_resolve s r (page_at va i) = Some (?w i)"
      using resolve_view [OF ok cl [OF that]] mapped [OF that] by (simp add: target_def present_def not_page_mask)
    show "?w i \<noteq> 0" using mapped [OF that] by (metis or_eq_0_iff)
  qed
  have list: "phys_list_loop (\<lambda>i. vmm_resolve s r (page_at va i)) 0 ?n [] = Some (0, ?pas)"
    using phys_list_loop_ok [of 0 ?n "\<lambda>i. vmm_resolve s r (page_at va i)" ?w "[]"] w by simp
  obtain g' perm where fy: "vmm_fisher_yates (?n - 1) g ?pas = (g', perm)" by force
  have "?n - 1 < length ?pas" using n by (simp add: unat_gt_0)
  with fisher_yates_perm [OF this _ fy] n1 have perm: "mset perm = mset ?pas" "length perm = ?n" by simp_all
  from vmm_remap_ok [OF ok rr, of perm] obtain s1 where
    s1: "vmm_remap s r va pages perm = Some s1" "vmm_ok R r d s1 P" "range_ready d s1 va ?n"
    "view s1 = over va (\<lambda>i. entry (perm ! i) (?e i AND 0xFFF)) ?n (view s)" .
  from vmm_remap_ok [OF s1(2,3), of ?pas] obtain s2 where
    s2: "vmm_remap s1 r va pages ?pas = Some s2" "vmm_ok R r d s2 P"
    "view s2 = over va (\<lambda>i. entry (?pas ! i) (view s1 (page_at va i) AND 0xFFF)) ?n (view s1)" .
  have "view s2 = over va (\<lambda>i. entry (?pas ! i) (view s1 (page_at va i) AND 0xFFF)) ?n (view s)"
    unfolding s2(3) s1(4) by (simp add: over_over over_at [OF n1] cong: over_cong)
  also have "\<dots> = over va ?e ?n (view s)"
  proof (rule over_cong)
    fix i assume i: "i < ?n"
    have "view s1 (page_at va i) = entry (perm ! i) (?e i AND 0xFFF)" using s1(4) over_at [OF n1 i] by simp
    then show "entry (?pas ! i) (view s1 (page_at va i) AND 0xFFF) = ?e i"
      using i entry_split(1) mapped [OF i] by simp
  qed
  also have "\<dots> = view s" by (rule over_id) (auto intro: view_page)
  finally show ?thesis using list fy perm s1 s2 by blast
qed

theorem vmm_shuffle_roundtrip_witness:
  "\<exists>s s1 s2 pas perm. vmm_map demo_vm 0x5000 0x400000 0x7000 6 = Some (0, s) \<and>
    vmm_remap s 0x5000 0x400000 1 perm = Some s1 \<and> vmm_remap s1 0x5000 0x400000 1 pas = Some s2 \<and> view s2 = view s"
proof -
  have rr: "range_ready 0xFFFFF000 demo_vm 0x400000 1" using range_ready_mono [OF demo_range, of 1] by simp
  then have va: "client_va 0xFFFFF000 0x400000" "ready demo_vm 0x400000"
    by (simp_all add: range_ready_def)
  from vmm_map_ok [OF demo_vm_ok va(1), of "0x7000" 6] va(2) obtain s where
    s: "vmm_map demo_vm 0x5000 0x400000 0x7000 6 = Some (0, s)" "vmm_ok {} 0x5000 0xFFFFF000 s {}" "ready s 0x400000"
    "view s = on_page 0x400000 (entry 0x7000 6) (view demo_vm)" by fastforce
  have rs: "range_ready 0xFFFFF000 s 0x400000 (unat (1 :: u32))" using va s(3) by (simp add: range_ready_def)
  have v: "view s 0x400000 = entry 0x7000 6" using s(4) by (simp add: on_page_def)
  have e: "present (view s 0x400000) \<and> view s 0x400000 AND PAGE_MASK \<noteq> 0"
    unfolding v by (simp add: entry_def present_def PAGE_MASK_def PAGE_PRESENT_def)
  have m: "present (view s (page_at 0x400000 i)) \<and> view s (page_at 0x400000 i) AND PAGE_MASK \<noteq> 0" if "i < unat (1 :: u32)" for i
    using that e by simp
  have "(1 :: u32) \<noteq> 0" by simp
  from vmm_shuffle_roundtrip [OF s(2) rs this m, of 0] s(1) show ?thesis by blast
qed

section \<open>Pager requests\<close>

text \<open>A request to free pages is checked against the number of pages of the pager, not against its
  range: with an offset behind its last page it unmaps and frees pages that belong to somebody else.\<close>

theorem pager_frees_foreign_pages:
  assumes ok: "vmm_ok R r d s P" and p: "pg_region p = r" "rq_page_count q \<le> pg_size_pages p"
    and va: "va = pg_base_va p + rq_virtual_offset q * PAGE_SIZE"
    and outside: "unat (pg_base_va p) + unat (pg_size_pages p) * 4096 \<le> unat va" and off: "page_offset va = 0"
    and rr: "range_ready d s va (unat (rq_page_count q))" and fl: "flags AND PAGE_MASK = 0"
    and fs: "distinct fs" "set fs \<subseteq> P" "length fs = unat (rq_page_count q)" "\<forall>a\<in>set fs. a \<noteq> 0 \<and> a mod PAGE_SIZE = 0"
    and foreign: "\<And>i. i < unat (rq_page_count q) \<Longrightarrow> view s (page_at va i) = entry (fs ! i) flags"
  shows "\<exists>s'. vmm_pager_handle_free s p q = Some (0, no_response, p\<lparr>pg_size_pages := pg_size_pages p - rq_page_count q\<rparr>, s') \<and>
    vmm_ok R r d s' (P - set fs) \<and> (\<forall>i<unat (rq_page_count q). vmm_resolve s' r (page_at va i) = Some 0)"
proof -
  let ?n = "unat (rq_page_count q)"
  have t: "target (view s (page_at va i)) (page_at va i) = fs ! i" if i: "i < ?n" for i
  proof -
    have "fs ! i \<in> set fs" using i fs(3) by simp
    then show ?thesis using foreign [OF i] fs(4) off by (simp add: target_page [OF _ fl])
  qed
  have "0 \<notin> set fs" using fs(4) by auto
  from vmm_free_ok [OF ok rr fs(1-3) this t] obtain s' where
    s': "vmm_free s r va (rq_page_count q) = Some s'" "vmm_ok R r d s' (P - set fs)"
    "view s' = over va (\<lambda>_. 0) ?n (view s)" by blast
  have n1: "?n \<le> 1048576" and cl: "\<And>i. i < ?n \<Longrightarrow> client_va d (page_at va i)" using rr by (auto simp: range_ready_def)
  have "\<forall>i<?n. vmm_resolve s' r (page_at va i) = Some 0" using resolve_over [OF s'(2,3) n1 _ cl] by simp
  moreover have "vmm_pager_handle_free s p q = Some (0, no_response, p\<lparr>pg_size_pages := pg_size_pages p - rq_page_count q\<rparr>, s')"
    unfolding vmm_pager_handle_free_def using p s'(1) va by (simp add: Let_def not_less)
  ultimately show ?thesis using s'(2) by blast
qed

end
