(* ===== verification/PagingInit.thy ===== *)
theory PagingInit
  imports Vmm
begin

text \<open>
  mem/paging.c: switching paging on. The functions declare local variables with the names of the
  globals \<open>pd\<close>, \<open>pd_phys\<close>, \<open>pt0\<close>, \<open>pt0_phys\<close> and \<open>pt1022_phys\<close>, so the globals that the later
  steps use keep the 0 they have at the start; they are a record that no step changes.
\<close>

unbundle bit_operations_syntax

record paging_globals =
  gl_pd :: u32
  gl_pd_phys :: u32
  gl_pt1022_phys :: u32

definition paging_bss :: paging_globals where
  "paging_bss = \<lparr>gl_pd = 0, gl_pd_phys = 0, gl_pt1022_phys = 0\<rparr>"

definition KERNEL_STACK_PAGING_ADDR :: u32 where "KERNEL_STACK_PAGING_ADDR = 0xFF000000"

definition kvirt_to_phys :: "u32 \<Rightarrow> u32" where
  "kvirt_to_phys va = (if va \<ge> KERNEL_VIRT_BASE then va - KERNEL_VIRT_BASE else va)"

definition kphys_to_virt :: "u32 \<Rightarrow> u32" where
  "kphys_to_virt p = p + KERNEL_VIRT_BASE"

definition page_dir_index_from_va :: "u32 \<Rightarrow> nat" where
  "page_dir_index_from_va va = unat (drop_bit 22 va AND 0x3FF)"

definition load_pd :: "vm \<Rightarrow> u32 \<Rightarrow> vm" where
  "load_pd s pd = s\<lparr>vm_cr3 := pd\<rparr>"

text \<open>Both branches of \<open>enable_paging\<close> set the paging bit.\<close>

definition enable_paging :: "vm \<Rightarrow> vm" where
  "enable_paging s = s\<lparr>vm_paging := True\<rparr>"

definition paging_init_page_directory :: "vm \<Rightarrow> (int \<times> vm) option" where
  "paging_init_page_directory s = do {
     (pd_phys, s) \<leftarrow> page_alloc s;
     if pd_phys = 0 then Some (-1, s)
     else do { s \<leftarrow> clear_page s (kphys_to_virt pd_phys); Some (0, s) }
   }"

definition paging_alloc_and_zero_pt :: "vm \<Rightarrow> (int \<times> u32 \<times> u32 \<times> vm) option" where
  "paging_alloc_and_zero_pt s = do {
     (out_phys, s) \<leftarrow> page_alloc s;
     if out_phys = 0 then Some (-1, 0, 0, s)
     else do {
       s \<leftarrow> clear_page s (kphys_to_virt out_phys);
       Some (0, out_phys, kphys_to_virt out_phys, s)
     }
   }"

fun paging_fill_loop :: "u32 \<Rightarrow> nat \<Rightarrow> nat \<Rightarrow> vm \<Rightarrow> vm option" where
  "paging_fill_loop pt i 0 s = Some s"
| "paging_fill_loop pt i (Suc n) s = do {
     s \<leftarrow> vstore s (pt + 4 * of_nat i) (((of_nat i * 0x1000) AND PAGE_MASK) OR PAGE_PRESENT OR PAGE_RW);
     paging_fill_loop pt (i + 1) n s
   }"

definition paging_fill_identity_mapping :: "vm \<Rightarrow> u32 \<Rightarrow> vm option" where
  "paging_fill_identity_mapping s pt = paging_fill_loop pt 0 PAGE_ENTRIES s"

definition paging_init_first_page_table :: "vm \<Rightarrow> (int \<times> vm) option" where
  "paging_init_first_page_table s = do {
     (r, _, pt0, s) \<leftarrow> paging_alloc_and_zero_pt s;
     if r < 0 then Some (-1, s)
     else do { s \<leftarrow> paging_fill_identity_mapping s pt0; Some (0, s) }
   }"

definition paging_init_recursive_page_table_slot :: "vm \<Rightarrow> (int \<times> vm) option" where
  "paging_init_recursive_page_table_slot s = do {
     (r, _, _, s) \<leftarrow> paging_alloc_and_zero_pt s;
     Some (if r < 0 then -1 else 0, s)
   }"

definition paging_init_page_tables :: "vm \<Rightarrow> (int \<times> vm) option" where
  "paging_init_page_tables s = do {
     (r, s) \<leftarrow> paging_init_first_page_table s;
     if r < 0 then Some (-1, s)
     else do {
       (r, s) \<leftarrow> paging_init_recursive_page_table_slot s;
       Some (if r < 0 then -1 else 0, s)
     }
   }"

definition paging_init_recursive_mapping :: "paging_globals \<Rightarrow> vm \<Rightarrow> (int \<times> vm) option" where
  "paging_init_recursive_mapping g s = do {
     s \<leftarrow> vstore s (gl_pd g + 4 * 1022) ((gl_pt1022_phys g AND PAGE_MASK) OR PAGE_PRESENT OR PAGE_RW);
     let pt1022 = kphys_to_virt (gl_pt1022_phys g);
     s \<leftarrow> clear_page s pt1022;
     s \<leftarrow> vstore s (gl_pd g + 4 * 1023) ((gl_pd_phys g AND PAGE_MASK) OR PAGE_PRESENT OR PAGE_RW);
     s \<leftarrow> vstore s (pt1022 + 4 * 1023) ((gl_pd_phys g AND PAGE_MASK) OR PAGE_PRESENT OR PAGE_RW);
     Some (0, s)
   }"

definition paging_init_paging_stack :: "vm \<Rightarrow> (int \<times> vm) option" where
  "paging_init_paging_stack s = do {
     let pt_idx = page_dir_index_from_va KERNEL_STACK_PAGING_ADDR;
     (new_pt_phys, s) \<leftarrow> page_alloc s;
     if new_pt_phys = 0 then Some (-1, s)
     else do {
       s \<leftarrow> vstore s (kernel_pg_dir + 4 * of_nat pt_idx) ((new_pt_phys AND PAGE_MASK) OR PAGE_PRESENT OR PAGE_RW);
       s \<leftarrow> clear_page s (RECURSIVE_PT pt_idx);
       Some (0, s)
     }
   }"

definition paging_init :: "vm \<Rightarrow> vm option" where
  "paging_init s = do {
     (r, s) \<leftarrow> paging_init_page_directory s;
     if r < 0 then Some s
     else do {
       (r, s) \<leftarrow> paging_init_page_tables s;
       if r < 0 then Some s
       else do {
         (r, s) \<leftarrow> paging_init_recursive_mapping paging_bss s;
         if r < 0 then Some s
         else do {
           let s = load_pd s (gl_pd paging_bss);
           let s = enable_paging s;
           (_, s) \<leftarrow> paging_init_paging_stack s;
           Some s
         }
       }
     }
   }"

section \<open>What it loads\<close>

text \<open>Loads, stores and allocations leave the control registers alone.\<close>

definition same_cr :: "vm \<Rightarrow> vm \<Rightarrow> bool" where
  "same_cr s t \<longleftrightarrow> vm_cr3 t = vm_cr3 s \<and> vm_paging t = vm_paging s"

lemma same_cr_refl [simp]: "same_cr s s"
  by (simp add: same_cr_def)

lemma same_cr_trans: "same_cr s t \<Longrightarrow> same_cr t u \<Longrightarrow> same_cr s u"
  by (simp add: same_cr_def)

lemma same_cr_steps:
  "vstore s a w = Some t \<Longrightarrow> same_cr s t"
  "clear_page s a = Some t \<Longrightarrow> same_cr s t"
  "page_alloc s = Some (x, t) \<Longrightarrow> same_cr s t"
  by (auto simp: vstore_def clear_page_def page_alloc_def same_cr_def set_word_def set_frame_def set_pmm_def
      split: bind_splits)

lemma same_cr_fill: "paging_fill_loop pt i n s = Some t \<Longrightarrow> same_cr s t"
proof (induction n arbitrary: i s)
  case (Suc n)
  then obtain u where "vstore s (pt + 4 * of_nat i) (((of_nat i * 0x1000) AND PAGE_MASK) OR PAGE_PRESENT OR PAGE_RW) = Some u"
    "paging_fill_loop pt (i + 1) n u = Some t" by (auto split: bind_splits)
  then show ?case using Suc.IH same_cr_steps(1) same_cr_trans by blast
qed simp

lemma same_cr_directory: "paging_init_page_directory s = Some (r, t) \<Longrightarrow> same_cr s t"
  unfolding paging_init_page_directory_def
  by (auto split: bind_splits if_splits dest!: same_cr_steps intro: same_cr_trans)

lemma same_cr_pt: "paging_alloc_and_zero_pt s = Some (r, a, b, t) \<Longrightarrow> same_cr s t"
  unfolding paging_alloc_and_zero_pt_def
  by (auto split: bind_splits if_splits dest!: same_cr_steps intro: same_cr_trans)

lemma same_cr_tables: "paging_init_page_tables s = Some (r, t) \<Longrightarrow> same_cr s t"
  unfolding paging_init_page_tables_def paging_init_first_page_table_def paging_init_recursive_page_table_slot_def
    paging_fill_identity_mapping_def
  by (auto split: bind_splits if_splits dest!: same_cr_pt same_cr_fill) (simp_all add: same_cr_def)

lemma same_cr_recursive: "paging_init_recursive_mapping g s = Some (r, t) \<Longrightarrow> r = 0 \<and> same_cr s t"
  unfolding paging_init_recursive_mapping_def
  by (auto simp: Let_def split: bind_splits if_splits dest!: same_cr_steps intro: same_cr_trans)

lemma same_cr_stack: "paging_init_paging_stack s = Some (r, t) \<Longrightarrow> same_cr s t"
  unfolding paging_init_paging_stack_def
  by (auto simp: Let_def split: bind_splits if_splits dest!: same_cr_steps) (simp_all add: same_cr_def)

text \<open>Whenever paging is switched on, the directory that is loaded is the null pointer, not the page
  that was allocated and cleared for it.\<close>

theorem paging_init_loads_null:
  "case paging_init s of
     None \<Rightarrow> True
   | Some t \<Rightarrow> same_cr s t \<or> vm_paging t \<and> vm_cr3 t = 0"
proof (cases "paging_init s")
  case (Some t)
  then have "same_cr s t \<or> vm_paging t \<and> vm_cr3 t = 0"
    unfolding paging_init_def
    by (auto simp: Let_def load_pd_def enable_paging_def paging_bss_def same_cr_def split: bind_splits if_splits
        dest!: same_cr_directory same_cr_tables same_cr_recursive same_cr_stack)
  then show ?thesis using Some by simp
qed simp

end
