(* ===== verification/Vfs.thy ===== *)
theory Vfs
  imports Heap
begin

text \<open>
  fs/vfs/vfs.c: the virtual file system. Mount points, open nodes and directory lists are structures
  at addresses from \<open>kmalloc\<close>; strings that the code copies to the heap are kept by their
  address. A path argument is its characters. The file system drivers are tables of functions,
  \<open>struct vfs_op_tbl\<close>, with a null pointer as \<open>None\<close>; the table of a registered file system is
  given by \<open>T\<close>, from the address of its \<open>struct vfs_fs\<close>. A driver works on the whole state, of
  which the part below belongs to the virtual file system.
\<close>

unbundle bit_operations_syntax

section \<open>State\<close>

abbreviation VFS_MAX_FILE_NAME :: nat where "VFS_MAX_FILE_NAME \<equiv> 256"

definition VFS_FILE :: u32 where "VFS_FILE = 0"
definition VFS_DIR :: u32 where "VFS_DIR = 1"

definition VFS_MODE_R :: u32 where "VFS_MODE_R = 0x1"
definition VFS_MODE_W :: u32 where "VFS_MODE_W = 0x2"
definition VFS_MODE_RW :: u32 where "VFS_MODE_RW = VFS_MODE_R OR VFS_MODE_W"
definition VFS_MODE_CREATE :: u32 where "VFS_MODE_CREATE = 0x4"
definition VFS_MODE_TRUNCATE :: u32 where "VFS_MODE_TRUNCATE = 0x8"
definition VFS_MODE_APPEND :: u32 where "VFS_MODE_APPEND = 0x9"

definition VFS_SEEK_STRT :: u8 where "VFS_SEEK_STRT = 0"
definition VFS_SEEK_CUR :: u8 where "VFS_SEEK_CUR = 1"
definition VFS_SEEK_END :: u8 where "VFS_SEEK_END = 2"

definition VFS_FS_TMPFS :: u32 where "VFS_FS_TMPFS = 1"
definition VFS_FS_PROCFS :: u32 where "VFS_FS_PROCFS = 4"

record stat_t =
  st_mode :: u32
  st_uid :: u32
  st_gid :: u32
  st_size :: u64
  st_atime :: u64
  st_mtime :: u64
  st_ctime :: u64
  st_nlink :: u32
  st_ino :: u32
  st_dev :: u32

record vfs_mountpoint =
  mp_filesystem :: u32
  mp_next :: u32
  mp_mount_point :: u32
  mp_device_name :: u32
  mp_data_pointer :: u32
  mp_refcount :: refcount_t

record vfs_node =
  vn_mountpoint :: u32
  vn_data :: u32
  vn_mode :: u32
  vn_refcount :: refcount_t
  vn_stat :: stat_t
  vn_ops :: u32
  vn_name :: u32

record vfs_directory_entry =
  de_name :: string
  de_type :: u32
  de_next :: u32

record vfs_directory_list =
  dl_head :: u32
  dl_tail :: u32

record vfs_fs =
  fs_type :: u32
  fs_previous :: u32

text \<open>
  \<open>vf_stale\<close> is what is found in the dead stack frame that a path was left in, see
  \<open>vfs_get_mountpoint_for_create\<close>.
\<close>

record vfs =
  vf_heap :: heap
  vf_fs :: "u32 \<Rightarrow> vfs_fs"
  vf_fs_list :: u32
  vf_mp :: "u32 \<Rightarrow> vfs_mountpoint"
  vf_mp_head :: u32
  vf_mp_tail :: u32
  vf_mp_lock :: spinlock_t
  vf_node :: "u32 \<Rightarrow> vfs_node"
  vf_str :: "u32 \<Rightarrow> string"
  vf_list :: "u32 \<Rightarrow> vfs_directory_list"
  vf_entry :: "u32 \<Rightarrow> vfs_directory_entry"
  vf_stale :: "string \<Rightarrow> string"

text \<open>The sizes of the structures.\<close>

definition SIZEOF_MOUNTPOINT :: u32 where "SIZEOF_MOUNTPOINT = 24"
definition SIZEOF_NODE :: u32 where "SIZEOF_NODE = 616"
definition SIZEOF_DIRENT :: u32 where "SIZEOF_DIRENT = 264"
definition SIZEOF_DIRLIST :: u32 where "SIZEOF_DIRLIST = 8"

record 's vfs_op_tbl =
  op_open :: "('s \<Rightarrow> u32 \<Rightarrow> string \<Rightarrow> (u32 \<times> 's) option) option"
  op_close :: "('s \<Rightarrow> u32 \<Rightarrow> (int \<times> 's) option) option"
  op_read :: "('s \<Rightarrow> u32 \<Rightarrow> u32 \<Rightarrow> u32 \<Rightarrow> (int \<times> 's) option) option"
  op_write :: "('s \<Rightarrow> u32 \<Rightarrow> u32 \<Rightarrow> u32 \<Rightarrow> (int \<times> 's) option) option"
  op_mount :: "('s \<Rightarrow> string \<Rightarrow> string \<Rightarrow> u32 \<Rightarrow> (u32 \<times> 's) option) option"
  op_unmount :: "('s \<Rightarrow> u32 \<Rightarrow> string \<Rightarrow> (int \<times> 's) option) option"
  op_create :: "('s \<Rightarrow> u32 \<Rightarrow> string \<Rightarrow> (int \<times> 's) option) option"
  op_delete :: "('s \<Rightarrow> u32 \<Rightarrow> string \<Rightarrow> (int \<times> 's) option) option"
  op_unlink :: "('s \<Rightarrow> u32 \<Rightarrow> string \<Rightarrow> (int \<times> 's) option) option"
  op_mkdir :: "('s \<Rightarrow> u32 \<Rightarrow> string \<Rightarrow> u32 \<Rightarrow> (int \<times> 's) option) option"
  op_rmdir :: "('s \<Rightarrow> u32 \<Rightarrow> string \<Rightarrow> (int \<times> 's) option) option"
  op_rename :: "('s \<Rightarrow> u32 \<Rightarrow> string \<Rightarrow> string \<Rightarrow> (int \<times> 's) option) option"
  op_ctrl :: "('s \<Rightarrow> u32 \<Rightarrow> u32 \<Rightarrow> u32 \<Rightarrow> (int \<times> 's) option) option"
  op_seek :: "('s \<Rightarrow> u32 \<Rightarrow> u32 \<Rightarrow> u8 \<Rightarrow> (int \<times> 's) option) option"
  op_listdir :: "('s \<Rightarrow> u32 \<Rightarrow> string \<Rightarrow> (u32 \<times> 's) option) option"
  op_stat :: "('s \<Rightarrow> string \<Rightarrow> stat_t \<Rightarrow> (int \<times> stat_t \<times> 's) option) option"
  op_fstat :: "('s \<Rightarrow> u32 \<Rightarrow> stat_t \<Rightarrow> (int \<times> stat_t \<times> 's) option) option"
  op_lstat :: "('s \<Rightarrow> string \<Rightarrow> stat_t \<Rightarrow> (int \<times> stat_t \<times> 's) option) option"
  op_truncate :: "('s \<Rightarrow> u32 \<Rightarrow> u64 \<Rightarrow> (int \<times> 's) option) option"
  op_ioctl :: "('s \<Rightarrow> u32 \<Rightarrow> u32 \<Rightarrow> u32 \<Rightarrow> (int \<times> 's) option) option"
  op_link :: "('s \<Rightarrow> u32 \<Rightarrow> string \<Rightarrow> string \<Rightarrow> (int \<times> 's) option) option"
  op_getdents :: "('s \<Rightarrow> u32 \<Rightarrow> u32 \<Rightarrow> u32 \<Rightarrow> (int \<times> 's) option) option"

definition no_ops :: "'s vfs_op_tbl" where
  "no_ops = \<lparr>op_open = None, op_close = None, op_read = None, op_write = None, op_mount = None,
     op_unmount = None, op_create = None, op_delete = None, op_unlink = None, op_mkdir = None,
     op_rmdir = None, op_rename = None, op_ctrl = None, op_seek = None, op_listdir = None,
     op_stat = None, op_fstat = None, op_lstat = None, op_truncate = None, op_ioctl = None,
     op_link = None, op_getdents = None\<rparr>"

definition upd_mp :: "u32 \<Rightarrow> (vfs_mountpoint \<Rightarrow> vfs_mountpoint) \<Rightarrow> 'a vfs_scheme \<Rightarrow> 'a vfs_scheme" where
  "upd_mp p f s = s\<lparr>vf_mp := (vf_mp s)(p := f (vf_mp s p))\<rparr>"

definition upd_node :: "u32 \<Rightarrow> (vfs_node \<Rightarrow> vfs_node) \<Rightarrow> 'a vfs_scheme \<Rightarrow> 'a vfs_scheme" where
  "upd_node p f s = s\<lparr>vf_node := (vf_node s)(p := f (vf_node s p))\<rparr>"

definition upd_entry :: "u32 \<Rightarrow> (vfs_directory_entry \<Rightarrow> vfs_directory_entry) \<Rightarrow> 'a vfs_scheme \<Rightarrow> 'a vfs_scheme" where
  "upd_entry p f s = s\<lparr>vf_entry := (vf_entry s)(p := f (vf_entry s p))\<rparr>"

definition upd_list :: "u32 \<Rightarrow> (vfs_directory_list \<Rightarrow> vfs_directory_list) \<Rightarrow> 'a vfs_scheme \<Rightarrow> 'a vfs_scheme" where
  "upd_list p f s = s\<lparr>vf_list := (vf_list s)(p := f (vf_list s p))\<rparr>"

definition set_str :: "u32 \<Rightarrow> string \<Rightarrow> 'a vfs_scheme \<Rightarrow> 'a vfs_scheme" where
  "set_str p x s = s\<lparr>vf_str := (vf_str s)(p := x)\<rparr>"

definition fs_kmalloc :: "'a vfs_scheme \<Rightarrow> u32 \<Rightarrow> (u32 \<times> 'a vfs_scheme) option" where
  "fs_kmalloc s n = do { (p, h) \<leftarrow> kmalloc (vf_heap s) n; Some (p, s\<lparr>vf_heap := h\<rparr>) }"

definition fs_kfree :: "'a vfs_scheme \<Rightarrow> u32 \<Rightarrow> u32 \<Rightarrow> 'a vfs_scheme option" where
  "fs_kfree s p n = do { h \<leftarrow> kfree (vf_heap s) p n; Some (s\<lparr>vf_heap := h\<rparr>) }"

text \<open>\<open>flopstrlen (x) + 1\<close>\<close>

definition str_size :: "string \<Rightarrow> u32" where
  "str_size x = of_nat (length x) + 1"

abbreviation mp_succ :: "'a vfs_scheme \<Rightarrow> u32 \<Rightarrow> u32 option" where
  "mp_succ s \<equiv> \<lambda>p. box_ptr (mp_next (vf_mp s p))"

text \<open>The operations of the file system a mount point belongs to.\<close>

definition ops_of :: "(u32 \<Rightarrow> 's vfs_op_tbl) \<Rightarrow> 'a vfs_scheme \<Rightarrow> u32 \<Rightarrow> 's vfs_op_tbl option" where
  "ops_of T s mp = (if mp_filesystem (vf_mp s mp) = 0 then None else Some (T (mp_filesystem (vf_mp s mp))))"

section \<open>Registered file systems and mount points\<close>

definition vfs_init :: "'a vfs_scheme \<Rightarrow> int \<times> 'a vfs_scheme" where
  "vfs_init s = (0, s\<lparr>vf_mp_lock := spinlock_init 0\<rparr>)"

definition vfs_acknowledge_fs :: "'a vfs_scheme \<Rightarrow> u32 \<Rightarrow> int \<times> 'a vfs_scheme" where
  "vfs_acknowledge_fs s fs =
     (if fs = 0 then (-1, s)
      else (0, s\<lparr>vf_fs := (vf_fs s)(fs := (vf_fs s fs)\<lparr>fs_previous := vf_fs_list s\<rparr>), vf_fs_list := fs\<rparr>))"

definition vfs_unacknowledge_fs :: "'a vfs_scheme \<Rightarrow> u32 \<Rightarrow> int \<times> 'a vfs_scheme" where
  "vfs_unacknowledge_fs s fs = (0, s)"

definition vfs_find_fs :: "'a vfs_scheme \<Rightarrow> u32 \<Rightarrow> u32 option" where
  "vfs_find_fs s type = do {
     r \<leftarrow> find_loop (\<lambda>f. fs_type (vf_fs s f) = type) (\<lambda>f. box_ptr (fs_previous (vf_fs s f))) (box_ptr (vf_fs_list s));
     Some (case r of None \<Rightarrow> 0 | Some f \<Rightarrow> f)
   }"

text \<open>\<open>flopstrncmp (mount_point, name, flopstrlen (mount_point)) == 0\<close>\<close>

definition strncmp_eq :: "string \<Rightarrow> string \<Rightarrow> nat \<Rightarrow> bool" where
  "strncmp_eq a b n \<longleftrightarrow> take n a = take n b"

definition vfs_file_to_mountpoint :: "'a vfs_scheme \<Rightarrow> string \<Rightarrow> u32 option" where
  "vfs_file_to_mountpoint s name = do {
     r \<leftarrow> find_loop (\<lambda>p. let m = vf_str s (mp_mount_point (vf_mp s p)) in strncmp_eq m name (length m))
            (mp_succ s) (box_ptr (vf_mp_tail s));
     Some (case r of None \<Rightarrow> 0 | Some p \<Rightarrow> p)
   }"

definition vfs_mp_struc_alloc :: "'a vfs_scheme \<Rightarrow> (u32 \<times> 'a vfs_scheme) option" where
  "vfs_mp_struc_alloc s = do {
     (mp, s) \<leftarrow> fs_kmalloc s SIZEOF_MOUNTPOINT;
     if mp = 0 then Some (0, s)
     else Some (mp, upd_mp mp (\<lambda>m. \<lparr>mp_filesystem = 0, mp_next = 0, mp_mount_point = 0, mp_device_name = 0,
        mp_data_pointer = 0, mp_refcount = refcount_init (mp_refcount m)\<rparr>) s)
   }"

definition vfs_assign_mp_fs :: "'a vfs_scheme \<Rightarrow> u32 \<Rightarrow> u32 \<Rightarrow> (int \<times> 'a vfs_scheme) option" where
  "vfs_assign_mp_fs s mp type = do {
     f \<leftarrow> vfs_find_fs s type;
     let s = upd_mp mp (\<lambda>m. m\<lparr>mp_filesystem := f\<rparr>) s;
     Some (if f = 0 then -1 else 0, s)
   }"

definition vfs_mp_path_alloc :: "'a vfs_scheme \<Rightarrow> u32 \<Rightarrow> string \<Rightarrow> (int \<times> 'a vfs_scheme) option" where
  "vfs_mp_path_alloc s mp mount_point = do {
     (p, s) \<leftarrow> fs_kmalloc s (str_size mount_point);
     let s = upd_mp mp (\<lambda>m. m\<lparr>mp_mount_point := p\<rparr>) s;
     if p = 0 then Some (-1, s) else Some (0, set_str p mount_point s)
   }"

definition vfs_mp_dev_alloc :: "'a vfs_scheme \<Rightarrow> u32 \<Rightarrow> string \<Rightarrow> (int \<times> 'a vfs_scheme) option" where
  "vfs_mp_dev_alloc s mp device = do {
     (p, s) \<leftarrow> fs_kmalloc s (str_size device);
     let s = upd_mp mp (\<lambda>m. m\<lparr>mp_device_name := p\<rparr>) s;
     if p = 0 then Some (-1, s) else Some (0, set_str p device s)
   }"

definition vfs_create_mountpoint :: "'a vfs_scheme \<Rightarrow> string \<Rightarrow> string \<Rightarrow> u32 \<Rightarrow> (u32 \<times> 'a vfs_scheme) option" where
  "vfs_create_mountpoint s device mount_point type = do {
     (mp, s) \<leftarrow> vfs_mp_struc_alloc s;
     if mp = 0 then Some (0, s)
     else do {
       (r, s) \<leftarrow> vfs_assign_mp_fs s mp type;
       if r \<noteq> 0 then do { s \<leftarrow> fs_kfree s mp SIZEOF_MOUNTPOINT; Some (0, s) }
       else do {
         (r, s) \<leftarrow> vfs_mp_path_alloc s mp mount_point;
         if r \<noteq> 0 then do { s \<leftarrow> fs_kfree s mp SIZEOF_MOUNTPOINT; Some (0, s) }
         else do {
           (r, s) \<leftarrow> vfs_mp_dev_alloc s mp device;
           if r \<noteq> 0 then do {
             let path = mp_mount_point (vf_mp s mp);
             s \<leftarrow> fs_kfree s path (str_size (vf_str s path));
             s \<leftarrow> fs_kfree s mp SIZEOF_MOUNTPOINT;
             Some (0, s)
           }
           else Some (mp, s)
         }
       }
     }
   }"

text \<open>Taking and dropping a reference to a mount point.\<close>

definition mp_get :: "u32 \<Rightarrow> 'a vfs_scheme \<Rightarrow> 'a vfs_scheme" where
  "mp_get mp s = upd_mp mp (\<lambda>m. m\<lparr>mp_refcount := snd (refcount_inc_not_zero (mp_refcount m))\<rparr>) s"

definition mp_drop :: "u32 \<Rightarrow> 'a vfs_scheme \<Rightarrow> bool \<times> 'a vfs_scheme" where
  "mp_drop mp s =
     (let (last, r) = refcount_dec_and_test (mp_refcount (vf_mp s mp))
      in (last, upd_mp mp (\<lambda>m. m\<lparr>mp_refcount := r\<rparr>) s))"

definition vfs_add_mountpoint :: "'a vfs_scheme \<Rightarrow> u32 \<Rightarrow> 'a vfs_scheme option" where
  "vfs_add_mountpoint s mp = do {
     lk \<leftarrow> lock_acquire (vf_mp_lock s);
     let s = (if vf_mp_tail s = 0 then s\<lparr>vf_mp_tail := mp, vf_mp_head := mp\<rparr>
              else (upd_mp (vf_mp_tail s) (\<lambda>m. m\<lparr>mp_next := mp\<rparr>) s)\<lparr>vf_mp_tail := mp\<rparr>);
     Some ((mp_get mp s)\<lparr>vf_mp_lock := lock_release lk\<rparr>)
   }"

definition vfs_free_mountpoint :: "'a vfs_scheme \<Rightarrow> u32 \<Rightarrow> 'a vfs_scheme option" where
  "vfs_free_mountpoint s mp =
     (if mp = 0 then Some s
      else do {
        let path = mp_mount_point (vf_mp s mp);
        s \<leftarrow> (if path \<noteq> 0 then fs_kfree s path (str_size (vf_str s path)) else Some s);
        let dev = mp_device_name (vf_mp s mp);
        s \<leftarrow> (if dev \<noteq> 0 then fs_kfree s dev (str_size (vf_str s dev)) else Some s);
        fs_kfree s mp SIZEOF_MOUNTPOINT
      })"

definition vfs_remove_mountpoint :: "'a vfs_scheme \<Rightarrow> u32 \<Rightarrow> 'a vfs_scheme option" where
  "vfs_remove_mountpoint s mp = do {
     lk \<leftarrow> lock_acquire (vf_mp_lock s);
     (prev, m) \<leftarrow> ll_walk (mp_succ s) mp None (box_ptr (vf_mp_head s));
     let s = (if m = Some mp then
                let s = (case prev of
                       Some q \<Rightarrow> upd_mp q (\<lambda>x. x\<lparr>mp_next := mp_next (vf_mp s mp)\<rparr>) s
                     | None \<Rightarrow> s\<lparr>vf_mp_head := mp_next (vf_mp s mp)\<rparr>)
                in if mp = vf_mp_tail s then s\<lparr>vf_mp_tail := (case prev of Some q \<Rightarrow> q | None \<Rightarrow> 0)\<rparr> else s
              else s);
     let (last, s) = mp_drop mp s;
     let s = s\<lparr>vf_mp_lock := lock_release lk\<rparr>;
     if last then vfs_free_mountpoint s mp else Some s
   }"

text \<open>The pattern that ends most operations: drop the reference, and free the mount point when it
  was the last one.\<close>

definition mp_put :: "'a vfs_scheme \<Rightarrow> u32 \<Rightarrow> 'a vfs_scheme option" where
  "mp_put s mp = (let (last, s) = mp_drop mp s in if last then vfs_free_mountpoint s mp else Some s)"

definition vfs_mount :: "(u32 \<Rightarrow> 'a vfs_scheme vfs_op_tbl) \<Rightarrow> 'a vfs_scheme \<Rightarrow> string \<Rightarrow> string \<Rightarrow> u32
    \<Rightarrow> (int \<times> 'a vfs_scheme) option" where
  "vfs_mount T s device mount_point type = do {
     (mp, s) \<leftarrow> vfs_create_mountpoint s device mount_point type;
     if mp = 0 then Some (-1, s)
     else do {
       s \<leftarrow> vfs_add_mountpoint s mp;
       ops \<leftarrow> ops_of T s mp;
       (case op_mount ops of
          None \<Rightarrow> do { s \<leftarrow> vfs_remove_mountpoint s mp; Some (-1, s) }
        | Some f \<Rightarrow> do {
            (d, s) \<leftarrow> f s device mount_point type;
            let s = upd_mp mp (\<lambda>m. m\<lparr>mp_data_pointer := d\<rparr>) s;
            if d = 0 then do { s \<leftarrow> vfs_remove_mountpoint s mp; Some (-1, s) }
            else Some (0, s)
          })
     }
   }"

definition vfs_unmount :: "(u32 \<Rightarrow> 'a vfs_scheme vfs_op_tbl) \<Rightarrow> 'a vfs_scheme \<Rightarrow> string
    \<Rightarrow> (int \<times> 'a vfs_scheme) option" where
  "vfs_unmount T s mount_point = do {
     guard (length mount_point < 256);
     r \<leftarrow> find_loop (\<lambda>p. vf_str s (mp_mount_point (vf_mp s p)) = mount_point) (mp_succ s) (box_ptr (vf_mp_tail s));
     (case r of
        None \<Rightarrow> Some (-1, s)
      | Some mp \<Rightarrow> do {
          ops \<leftarrow> ops_of T s mp;
          (case op_unmount ops of
             None \<Rightarrow> Some (-1, s)
           | Some f \<Rightarrow> do {
               (_, s) \<leftarrow> f s mp mount_point;
               s \<leftarrow> vfs_remove_mountpoint s mp;
               Some (0, s)
             })
        })
   }"

end
