(* ===== verification/VfsNode.thy ===== *)
theory VfsNode
  imports Vfs
begin

text \<open>
  fs/vfs/vfs.c, second part: open nodes and the operations on paths. A node that \<open>vfs_stat\<close> keeps on
  its stack is given by its address.
\<close>

type_synonym 'a op_table = "u32 \<Rightarrow> 'a vfs_scheme vfs_op_tbl"

section \<open>Opening and closing\<close>

definition vfs_node_alloc :: "'a vfs_scheme \<Rightarrow> u32 \<Rightarrow> u32 \<Rightarrow> (int \<times> u32 \<times> 'a vfs_scheme) option" where
  "vfs_node_alloc s mp mode = do {
     (n, s) \<leftarrow> fs_kmalloc s SIZEOF_NODE;
     if n = 0 then Some (-1, 0, s)
     else do {
       let s = upd_node n (\<lambda>x. x\<lparr>vn_mountpoint := mp, vn_mode := mode, vn_refcount := refcount_init (vn_refcount x)\<rparr>) s;
       let s = mp_get mp s;
       Some (0, n, upd_node n (\<lambda>x. x\<lparr>vn_stat := \<lparr>st_mode = 0, st_uid = 0, st_gid = 0, st_size = 0, st_atime = 0,
          st_mtime = 0, st_ctime = 0, st_nlink = 1, st_ino = 0, st_dev = 0\<rparr>\<rparr>) s)
     }
   }"

definition vfs_seek :: "'a op_table \<Rightarrow> 'a vfs_scheme \<Rightarrow> u32 \<Rightarrow> u32 \<Rightarrow> u8 \<Rightarrow> (int \<times> 'a vfs_scheme) option" where
  "vfs_seek T s node offset whence =
     (if node = 0 then Some (-1, s)
      else do {
        ops \<leftarrow> ops_of T s (vn_mountpoint (vf_node s node));
        (case op_seek ops of Some f \<Rightarrow> f s node offset whence | None \<Rightarrow> Some (-1, s))
      })"

definition vfs_create_file_if_needed :: "'a op_table \<Rightarrow> 'a vfs_scheme \<Rightarrow> u32 \<Rightarrow> string \<Rightarrow> u32 \<Rightarrow> (int \<times> 'a vfs_scheme) option" where
  "vfs_create_file_if_needed T s mp path mode =
     (if mode AND VFS_MODE_CREATE \<noteq> VFS_MODE_CREATE then Some (0, s)
      else do {
        ops \<leftarrow> ops_of T s mp;
        (case op_create ops of None \<Rightarrow> Some (-1, s) | Some f \<Rightarrow> f s mp path)
      })"

definition vfs_seek_if_append :: "'a op_table \<Rightarrow> 'a vfs_scheme \<Rightarrow> u32 \<Rightarrow> (int \<times> 'a vfs_scheme) option" where
  "vfs_seek_if_append T s n =
     (if vn_mode (vf_node s n) AND VFS_MODE_APPEND = VFS_MODE_APPEND then vfs_seek T s n 0 VFS_SEEK_END
      else Some (0, s))"

text \<open>The copy of the path on the heap is not freed when a mount point is found.\<close>

definition vfs_resolve_mountpoint_and_path :: "'a vfs_scheme \<Rightarrow> string \<Rightarrow> (u32 \<times> string \<times> 'a vfs_scheme) option" where
  "vfs_resolve_mountpoint_and_path s name = do {
     (filename, s) \<leftarrow> fs_kmalloc s (str_size name);
     if filename = 0 then Some (0, [], s)
     else do {
       let s = set_str filename name s;
       mp \<leftarrow> vfs_file_to_mountpoint s name;
       if mp = 0 then do { s \<leftarrow> fs_kfree s filename 4; Some (0, [], s) }
       else Some (mp, drop (length (vf_str s (mp_mount_point (vf_mp s mp)))) name, s)
     }
   }"

definition vfs_try_open :: "'a op_table \<Rightarrow> 'a vfs_scheme \<Rightarrow> u32 \<Rightarrow> u32 \<Rightarrow> string \<Rightarrow> (int \<times> 'a vfs_scheme) option" where
  "vfs_try_open T s h mp path = do {
     ops \<leftarrow> ops_of T s mp;
     (case op_open ops of
        None \<Rightarrow> Some (-1, s)
      | Some f \<Rightarrow> do { (n, s) \<leftarrow> f s h path; Some (if n \<noteq> 0 then 0 else -1, s) })
   }"

text \<open>
  The path handed on points into the array \<open>filename\<close> of this function's own frame, which no longer
  exists when a driver reads it. What is found there is \<open>vf_stale\<close> of what was.
\<close>

definition vfs_get_mountpoint_for_create :: "'a vfs_scheme \<Rightarrow> string \<Rightarrow> (u32 \<times> string \<times> 'a vfs_scheme) option" where
  "vfs_get_mountpoint_for_create s name = do {
     guard (length name < 256);
     mp \<leftarrow> vfs_file_to_mountpoint s name;
     if mp = 0 then Some (0, [], s)
     else Some (mp, vf_stale s (drop (length (vf_str s (mp_mount_point (vf_mp s mp)))) name), mp_get mp s)
   }"

definition vfs_internal_create :: "'a op_table \<Rightarrow> 'a vfs_scheme \<Rightarrow> u32 \<Rightarrow> string \<Rightarrow> (int \<times> 'a vfs_scheme) option" where
  "vfs_internal_create T s mp relative_path = do {
     ops \<leftarrow> ops_of T s mp;
     (case op_create ops of Some f \<Rightarrow> f s mp relative_path | None \<Rightarrow> Some (-1, s))
   }"

definition vfs_free_node :: "'a op_table \<Rightarrow> 'a vfs_scheme \<Rightarrow> u32 \<Rightarrow> (int \<times> 'a vfs_scheme) option" where
  "vfs_free_node T s node = do {
     ops \<leftarrow> ops_of T s (vn_mountpoint (vf_node s node));
     (errcode, s) \<leftarrow> (case op_close ops of Some f \<Rightarrow> f s node | None \<Rightarrow> Some (0, s));
     s \<leftarrow> mp_put s (vn_mountpoint (vf_node s node));
     s \<leftarrow> fs_kfree s node SIZEOF_NODE;
     Some (if errcode \<noteq> 0 then errcode else -1, s)
   }"

definition vfs_close :: "'a op_table \<Rightarrow> 'a vfs_scheme \<Rightarrow> u32 \<Rightarrow> (int \<times> 'a vfs_scheme) option" where
  "vfs_close T s node =
     (if node = 0 then Some (-1, s) else do { (_, s) \<leftarrow> vfs_free_node T s node; Some (0, s) })"

text \<open>When no memory is left for the node, \<open>vfs_open\<close> returns null at once.\<close>

definition vfs_open :: "'a op_table \<Rightarrow> 'a vfs_scheme \<Rightarrow> string \<Rightarrow> u32 \<Rightarrow> (u32 \<times> 'a vfs_scheme) option" where
  "vfs_open T s name mode = do {
     (mp, relative_path, s) \<leftarrow> vfs_resolve_mountpoint_and_path s name;
     if mp = 0 then Some (0, s)
     else do {
       (r, n, s) \<leftarrow> vfs_node_alloc s mp mode;
       if r \<noteq> 0 then Some (0, s)
       else do {
         (r, s) \<leftarrow> vfs_try_open T s n mp relative_path;
         if r = 0 then do { (_, s) \<leftarrow> vfs_seek_if_append T s n; Some (n, s) }
         else do {
           (r, s) \<leftarrow> vfs_create_file_if_needed T s mp relative_path mode;
           (r, s) \<leftarrow> (if r = 0 then vfs_try_open T s n mp relative_path else Some (-1, s));
           if r = 0 then do { (_, s) \<leftarrow> vfs_seek_if_append T s n; Some (n, s) }
           else do {
             s \<leftarrow> mp_put s mp;
             s \<leftarrow> fs_kfree s n SIZEOF_NODE;
             Some (0, s)
           }
         }
       }
     }
   }"

section \<open>Reading and writing\<close>

definition vfs_read :: "'a op_table \<Rightarrow> 'a vfs_scheme \<Rightarrow> u32 \<Rightarrow> u32 \<Rightarrow> u32 \<Rightarrow> (int \<times> 'a vfs_scheme) option" where
  "vfs_read T s node buffer sz =
     (if node = 0 then Some (-1, s)
      else if vn_mode (vf_node s node) AND VFS_MODE_R \<noteq> VFS_MODE_R then Some (-1, s)
      else do {
        ops \<leftarrow> ops_of T s (vn_mountpoint (vf_node s node));
        (case op_read ops of Some f \<Rightarrow> f s node buffer sz | None \<Rightarrow> Some (-1, s))
      })"

definition vfs_check_write_permissions :: "'a vfs_scheme \<Rightarrow> u32 \<Rightarrow> int" where
  "vfs_check_write_permissions s node =
     (if node = 0 then -1
      else if vn_mode (vf_node s node) AND VFS_MODE_W \<noteq> VFS_MODE_W then -1
      else 0)"

definition vfs_internal_write :: "'a op_table \<Rightarrow> 'a vfs_scheme \<Rightarrow> u32 \<Rightarrow> u32 \<Rightarrow> u32 \<Rightarrow> (int \<times> 'a vfs_scheme) option" where
  "vfs_internal_write T s node buffer sz = do {
     ops \<leftarrow> ops_of T s (vn_mountpoint (vf_node s node));
     (case op_write ops of
        Some f \<Rightarrow> do {
          (ret, s) \<leftarrow> f (mp_get (vn_mountpoint (vf_node s node)) s) node buffer sz;
          s \<leftarrow> mp_put s (vn_mountpoint (vf_node s node));
          Some (ret, s)
        }
      | None \<Rightarrow> Some (-1, s))
   }"

definition vfs_seek_if_append_after_write :: "'a op_table \<Rightarrow> 'a vfs_scheme \<Rightarrow> u32 \<Rightarrow> 'a vfs_scheme option" where
  "vfs_seek_if_append_after_write T s node =
     (if vn_mode (vf_node s node) AND VFS_MODE_APPEND = VFS_MODE_APPEND then do {
        (_, s) \<leftarrow> vfs_seek T s node 0 VFS_SEEK_END;
        Some s
      } else Some s)"

definition vfs_write :: "'a op_table \<Rightarrow> 'a vfs_scheme \<Rightarrow> u32 \<Rightarrow> u32 \<Rightarrow> u32 \<Rightarrow> (int \<times> 'a vfs_scheme) option" where
  "vfs_write T s node buffer sz =
     (if vfs_check_write_permissions s node \<noteq> 0 then Some (-1, s)
      else do {
        (errcode, s) \<leftarrow> vfs_internal_write T s node buffer sz;
        if errcode \<noteq> -1 then do { s \<leftarrow> vfs_seek_if_append_after_write T s node; Some (errcode, s) }
        else Some (-1, s)
      })"

definition vfs_ctrl :: "'a op_table \<Rightarrow> 'a vfs_scheme \<Rightarrow> u32 \<Rightarrow> u32 \<Rightarrow> u32 \<Rightarrow> (int \<times> 'a vfs_scheme) option" where
  "vfs_ctrl T s node command arg =
     (if node = 0 then Some (-1, s)
      else do {
        ops \<leftarrow> ops_of T s (vn_mountpoint (vf_node s node));
        (case op_ctrl ops of Some f \<Rightarrow> f s node command arg | None \<Rightarrow> Some (-1, s))
      })"

definition vfs_ioctl :: "'a op_table \<Rightarrow> 'a vfs_scheme \<Rightarrow> u32 \<Rightarrow> u32 \<Rightarrow> u32 \<Rightarrow> (int \<times> 'a vfs_scheme) option" where
  "vfs_ioctl T s node cmd arg = vfs_ctrl T s node cmd arg"

definition vfs_getdents :: "'a op_table \<Rightarrow> 'a vfs_scheme \<Rightarrow> u32 \<Rightarrow> u32 \<Rightarrow> u32 \<Rightarrow> (int \<times> 'a vfs_scheme) option" where
  "vfs_getdents T s node dirp count =
     (if node = 0 then Some (-1, s)
      else do {
        ops \<leftarrow> ops_of T s (vn_mountpoint (vf_node s node));
        (case op_getdents ops of Some f \<Rightarrow> f s node dirp count | None \<Rightarrow> Some (-1, s))
      })"

text \<open>Truncation by node takes the operations from the node, by path from the mount point.\<close>

definition vfs_truncate :: "'a op_table \<Rightarrow> 'a vfs_scheme \<Rightarrow> u32 \<Rightarrow> u32 \<Rightarrow> (int \<times> 'a vfs_scheme) option" where
  "vfs_truncate T s node new_size =
     (if node = 0 then Some (-1, s)
      else if vn_ops (vf_node s node) = 0 then Some (-1, s)
      else (case op_truncate (T (vn_ops (vf_node s node))) of
          None \<Rightarrow> Some (-1, s)
        | Some f \<Rightarrow> do {
            (r, s) \<leftarrow> f s node (ucast new_size);
            if r < 0 then Some (-1, s)
            else Some (0, upd_node node (\<lambda>x. x\<lparr>vn_stat := (vn_stat x)\<lparr>st_size := ucast new_size\<rparr>\<rparr>) s)
          }))"

definition vfs_ftruncate :: "'a op_table \<Rightarrow> 'a vfs_scheme \<Rightarrow> u32 \<Rightarrow> u32 \<Rightarrow> (int \<times> 'a vfs_scheme) option" where
  "vfs_ftruncate T s node len = vfs_truncate T s node len"

definition vfs_truncate_path :: "'a op_table \<Rightarrow> 'a vfs_scheme \<Rightarrow> string \<Rightarrow> u64 \<Rightarrow> (int \<times> 'a vfs_scheme) option" where
  "vfs_truncate_path T s path len = do {
     (n, s) \<leftarrow> vfs_open T s path VFS_MODE_W;
     if n = 0 then Some (-1, s)
     else do {
       ops \<leftarrow> ops_of T s (vn_mountpoint (vf_node s n));
       (case op_truncate ops of
          None \<Rightarrow> do { (_, s) \<leftarrow> vfs_close T s n; Some (-1, s) }
        | Some f \<Rightarrow> do {
            (r, s) \<leftarrow> f s n len;
            (_, s) \<leftarrow> vfs_close T s n;
            Some (r, s)
          })
     }
   }"

section \<open>Status\<close>

text \<open>The place for the result: \<open>None\<close> is a null pointer.\<close>

definition vfs_internal_stat :: "'a op_table \<Rightarrow> 'a vfs_scheme \<Rightarrow> u32 \<Rightarrow> stat_t option
    \<Rightarrow> (int \<times> stat_t option \<times> 'a vfs_scheme) option" where
  "vfs_internal_stat T s node st =
     (case st of
        None \<Rightarrow> Some (-1, st, s)
      | Some old \<Rightarrow>
          if node = 0 then Some (-1, st, s)
          else do {
            ops \<leftarrow> ops_of T s (vn_mountpoint (vf_node s node));
            (case op_stat ops of
               Some f \<Rightarrow> do { (r, new, s) \<leftarrow> f s (vf_str s (vn_name (vf_node s node))) old; Some (r, Some new, s) }
             | None \<Rightarrow> Some (0, Some (vn_stat (vf_node s node)), s))
          })"

definition vfs_fstat :: "'a op_table \<Rightarrow> 'a vfs_scheme \<Rightarrow> u32 \<Rightarrow> stat_t option
    \<Rightarrow> (int \<times> stat_t option \<times> 'a vfs_scheme) option" where
  "vfs_fstat T s node st =
     (if node = 0 \<or> st = None then Some (-1, st, s) else vfs_internal_stat T s node st)"

definition vfs_stat :: "'a op_table \<Rightarrow> u32 \<Rightarrow> 'a vfs_scheme \<Rightarrow> string \<Rightarrow> stat_t option
    \<Rightarrow> (int \<times> stat_t option \<times> 'a vfs_scheme) option" where
  "vfs_stat T temp s path st =
     (if st = None then Some (-1, st, s)
      else do {
        (mp, rel, s) \<leftarrow> vfs_resolve_mountpoint_and_path s path;
        if mp = 0 then Some (-1, st, s)
        else do {
          let s = upd_node temp (\<lambda>_. \<lparr>vn_mountpoint = mp, vn_data = 0, vn_mode = VFS_MODE_R, vn_refcount = 0,
            vn_stat = \<lparr>st_mode = 0, st_uid = 0, st_gid = 0, st_size = 0, st_atime = 0, st_mtime = 0, st_ctime = 0,
              st_nlink = 0, st_ino = 0, st_dev = 0\<rparr>, vn_ops = 0, vn_name = 0\<rparr>) s;
          (r, s) \<leftarrow> vfs_try_open T s temp mp rel;
          if r \<noteq> 0 then Some (-1, st, s) else vfs_internal_stat T s temp st
        }
      })"

section \<open>Names\<close>

definition vfs_create :: "'a op_table \<Rightarrow> 'a vfs_scheme \<Rightarrow> string \<Rightarrow> (int \<times> 'a vfs_scheme) option" where
  "vfs_create T s name = do {
     (mp, rel, s) \<leftarrow> vfs_get_mountpoint_for_create s name;
     if mp = 0 then Some (-1, s)
     else do {
       (ret, s) \<leftarrow> vfs_internal_create T s mp rel;
       s \<leftarrow> mp_put s mp;
       Some (ret, s)
     }
   }"

definition vfs_unlink :: "'a op_table \<Rightarrow> 'a vfs_scheme \<Rightarrow> string \<Rightarrow> (int \<times> 'a vfs_scheme) option" where
  "vfs_unlink T s path = do {
     (mp, rel, s) \<leftarrow> vfs_get_mountpoint_for_create s path;
     if mp = 0 then Some (-1, s)
     else do {
       ops \<leftarrow> ops_of T s mp;
       (case op_unlink ops of
          None \<Rightarrow> do { s \<leftarrow> mp_put s mp; Some (-1, s) }
        | Some f \<Rightarrow> do { (r, s) \<leftarrow> f s mp rel; s \<leftarrow> mp_put s mp; Some (r, s) })
     }
   }"

definition vfs_mkdir :: "'a op_table \<Rightarrow> 'a vfs_scheme \<Rightarrow> string \<Rightarrow> u32 \<Rightarrow> (int \<times> 'a vfs_scheme) option" where
  "vfs_mkdir T s path mode = do {
     (mp, rel, s) \<leftarrow> vfs_get_mountpoint_for_create s path;
     if mp = 0 then Some (-1, s)
     else do {
       ops \<leftarrow> ops_of T s mp;
       (case op_mkdir ops of
          None \<Rightarrow> do { s \<leftarrow> mp_put s mp; Some (-1, s) }
        | Some f \<Rightarrow> do { (r, s) \<leftarrow> f s mp rel mode; s \<leftarrow> mp_put s mp; Some (r, s) })
     }
   }"

definition vfs_rmdir :: "'a op_table \<Rightarrow> 'a vfs_scheme \<Rightarrow> string \<Rightarrow> (int \<times> 'a vfs_scheme) option" where
  "vfs_rmdir T s path = do {
     (mp, rel, s) \<leftarrow> vfs_get_mountpoint_for_create s path;
     if mp = 0 then Some (-1, s)
     else do {
       ops \<leftarrow> ops_of T s mp;
       (case op_rmdir ops of
          None \<Rightarrow> do { s \<leftarrow> mp_put s mp; Some (-1, s) }
        | Some f \<Rightarrow> do { (r, s) \<leftarrow> f s mp rel; s \<leftarrow> mp_put s mp; Some (r, s) })
     }
   }"

text \<open>Two paths on the same mount point.\<close>

definition vfs_link :: "'a op_table \<Rightarrow> 'a vfs_scheme \<Rightarrow> string \<Rightarrow> string \<Rightarrow> (int \<times> 'a vfs_scheme) option" where
  "vfs_link T s oldpath newpath = do {
     mp_old \<leftarrow> vfs_file_to_mountpoint s oldpath;
     mp_new \<leftarrow> vfs_file_to_mountpoint s newpath;
     if mp_old = 0 \<or> mp_new = 0 then Some (-1, s)
     else if mp_old \<noteq> mp_new then Some (-1, s)
     else do {
       let k = length (vf_str s (mp_mount_point (vf_mp s mp_old)));
       ops \<leftarrow> ops_of T s mp_old;
       (case op_link ops of None \<Rightarrow> Some (-1, s) | Some f \<Rightarrow> f s mp_old (drop k oldpath) (drop k newpath))
     }
   }"

definition vfs_rename :: "'a op_table \<Rightarrow> 'a vfs_scheme \<Rightarrow> string \<Rightarrow> string \<Rightarrow> (int \<times> 'a vfs_scheme) option" where
  "vfs_rename T s oldpath newpath = do {
     mp_old \<leftarrow> vfs_file_to_mountpoint s oldpath;
     mp_new \<leftarrow> vfs_file_to_mountpoint s newpath;
     if mp_old = 0 \<or> mp_new = 0 then Some (-1, s)
     else if mp_old \<noteq> mp_new then Some (-1, s)
     else do {
       let k = length (vf_str s (mp_mount_point (vf_mp s mp_old)));
       ops \<leftarrow> ops_of T s mp_old;
       (case op_rename ops of None \<Rightarrow> Some (-1, s) | Some f \<Rightarrow> f s mp_old (drop k oldpath) (drop k newpath))
     }
   }"

section \<open>Directory lists\<close>

definition vfs_listdir :: "'a op_table \<Rightarrow> 'a vfs_scheme \<Rightarrow> u32 \<Rightarrow> string \<Rightarrow> (u32 \<times> 'a vfs_scheme) option" where
  "vfs_listdir T s mp path =
     (if mp = 0 then Some (0, s)
      else do {
        ops \<leftarrow> ops_of T s mp;
        (case op_listdir ops of None \<Rightarrow> Some (0, s) | Some f \<Rightarrow> f s mp path)
      })"

definition vfs_readdir_path :: "'a op_table \<Rightarrow> 'a vfs_scheme \<Rightarrow> string \<Rightarrow> (u32 \<times> 'a vfs_scheme) option" where
  "vfs_readdir_path T s path = do {
     mp \<leftarrow> vfs_file_to_mountpoint s path;
     if mp = 0 then Some (0, s)
     else do {
       ops \<leftarrow> ops_of T s mp;
       (case op_listdir ops of
          None \<Rightarrow> Some (0, s)
        | Some f \<Rightarrow> f s mp (drop (length (vf_str s (mp_mount_point (vf_mp s mp)))) path))
     }
   }"

definition vfs_directory_list_create :: "'a vfs_scheme \<Rightarrow> (u32 \<times> 'a vfs_scheme) option" where
  "vfs_directory_list_create s = do {
     (l, s) \<leftarrow> fs_kmalloc s SIZEOF_DIRLIST;
     if l = 0 then Some (0, s) else Some (l, upd_list l (\<lambda>x. x\<lparr>dl_head := 0, dl_tail := 0\<rparr>) s)
   }"

text \<open>Appending an entry, shared with the drivers.\<close>

definition dirlist_append :: "'a vfs_scheme \<Rightarrow> u32 \<Rightarrow> u32 \<Rightarrow> 'a vfs_scheme" where
  "dirlist_append s l e =
     (if dl_head (vf_list s l) = 0 then upd_list l (\<lambda>x. x\<lparr>dl_head := e, dl_tail := e\<rparr>) s
      else upd_list l (\<lambda>x. x\<lparr>dl_tail := e\<rparr>) (upd_entry (dl_tail (vf_list s l)) (\<lambda>x. x\<lparr>de_next := e\<rparr>) s))"

definition vfs_directory_list_add :: "'a vfs_scheme \<Rightarrow> u32 \<Rightarrow> string \<Rightarrow> u32 \<Rightarrow> 'a vfs_scheme option" where
  "vfs_directory_list_add s l name type = do {
     (e, s) \<leftarrow> fs_kmalloc s SIZEOF_DIRENT;
     if e = 0 then Some s
     else do {
       guard (length name < VFS_MAX_FILE_NAME);
       Some (dirlist_append (upd_entry e (\<lambda>_. \<lparr>de_name = name, de_type = type, de_next = 0\<rparr>) s) l e)
     }
   }"

partial_function (option) free_entries_loop :: "'a vfs_scheme \<Rightarrow> u32 option \<Rightarrow> 'a vfs_scheme option" where
  "free_entries_loop s cur =
     (case cur of
        None \<Rightarrow> Some s
      | Some e \<Rightarrow> do {
          let nxt = box_ptr (de_next (vf_entry s e));
          s \<leftarrow> fs_kfree s e SIZEOF_DIRENT;
          free_entries_loop s nxt
        })"

definition vfs_directory_list_free :: "'a vfs_scheme \<Rightarrow> u32 \<Rightarrow> 'a vfs_scheme option" where
  "vfs_directory_list_free s l = do {
     s \<leftarrow> free_entries_loop s (box_ptr (dl_head (vf_list s l)));
     fs_kfree s l SIZEOF_DIRLIST
   }"

end
