(* ===== verification/Tmpfs.thy ===== *)
theory Tmpfs
  imports VfsNode
begin

text \<open>
  fs/tmpflopfs/tmpflopfs.c: the file system in memory. A node is a file or a directory; the children of
  a directory are linked through \<open>next_sibling\<close>, newest first. The bytes of a file lie in pages from
  the page allocator, whose addresses are in an array on the heap, kept here as a list by its address.
  The position in the file belongs to the file, not to the open node.
\<close>

section \<open>State\<close>

record tmpfs_node =
  tn_name :: string
  tn_type :: u32
  tn_mode :: u32
  tn_uid :: u32
  tn_gid :: u32
  tn_size :: u64
  tn_offset :: u64
  tn_nlink :: u32
  tn_ino :: u32
  tn_pages :: u32
  tn_page_count :: u32
  tn_parent :: u32
  tn_children :: u32
  tn_sibling :: u32

record tmpfs = vfs +
  tf_node :: "u32 \<Rightarrow> tmpfs_node"
  tf_array :: "u32 \<Rightarrow> u32 list"

definition SIZEOF_TMPFS_NODE :: u32 where "SIZEOF_TMPFS_NODE = 316"

definition upd_tnode :: "u32 \<Rightarrow> (tmpfs_node \<Rightarrow> tmpfs_node) \<Rightarrow> 'a tmpfs_scheme \<Rightarrow> 'a tmpfs_scheme" where
  "upd_tnode p f s = s\<lparr>tf_node := (tf_node s)(p := f (tf_node s p))\<rparr>"

definition set_mem :: "mem \<Rightarrow> 'a vfs_scheme \<Rightarrow> 'a vfs_scheme" where
  "set_mem m s = s\<lparr>vf_heap := (vf_heap s)\<lparr>hp_mem := m\<rparr>\<rparr>"

abbreviation fs_mem :: "'a vfs_scheme \<Rightarrow> mem" where
  "fs_mem s \<equiv> hp_mem (vf_heap s)"

abbreviation tn_next :: "'a tmpfs_scheme \<Rightarrow> u32 \<Rightarrow> u32 option" where
  "tn_next s \<equiv> \<lambda>c. box_ptr (tn_sibling (tf_node s c))"

section \<open>Nodes and paths\<close>

definition tmpfs_node_internal_create :: "'a tmpfs_scheme \<Rightarrow> string \<Rightarrow> u32 \<Rightarrow> (u32 \<times> 'a tmpfs_scheme) option" where
  "tmpfs_node_internal_create s name type = do {
     (n, s) \<leftarrow> fs_kmalloc s SIZEOF_TMPFS_NODE;
     if n = 0 then Some (0, s)
     else do {
       guard (length name < VFS_MAX_FILE_NAME);
       Some (n, upd_tnode n (\<lambda>_. \<lparr>tn_name = name, tn_type = type, tn_mode = 0x1FF, tn_uid = 0, tn_gid = 0,
          tn_size = 0, tn_offset = 0, tn_nlink = 0, tn_ino = 0, tn_pages = 0, tn_page_count = 0,
          tn_parent = 0, tn_children = 0, tn_sibling = 0\<rparr>) s)
     }
   }"

text \<open>The loop over the segments of a path.\<close>

partial_function (option) tmpfs_walk_loop ::
  "(u32 \<Rightarrow> string \<Rightarrow> u32 option option) \<Rightarrow> u32 \<Rightarrow> string \<Rightarrow> u32 option" where
  "tmpfs_walk_loop child cur segment =
     (if segment = [] then Some cur
      else do {
        found \<leftarrow> child cur (takeWhile (\<lambda>c. c \<noteq> CHR ''/'') segment);
        (case found of
           None \<Rightarrow> Some 0
         | Some c \<Rightarrow>
             (case dropWhile (\<lambda>c. c \<noteq> CHR ''/'') segment of
                [] \<Rightarrow> Some c
              | _ # rest \<Rightarrow> tmpfs_walk_loop child c rest))
      })"

text \<open>The search for a child by name.\<close>

definition tmpfs_child :: "'a tmpfs_scheme \<Rightarrow> u32 \<Rightarrow> string \<Rightarrow> u32 option option" where
  "tmpfs_child s cur name = do {
     guard (cur \<noteq> 0);
     find_loop (\<lambda>c. tn_name (tf_node s c) = name) (tn_next s) (box_ptr (tn_children (tf_node s cur)))
   }"

definition tmpfs_walk_path :: "'a tmpfs_scheme \<Rightarrow> u32 \<Rightarrow> string \<Rightarrow> u32 option" where
  "tmpfs_walk_path s root path =
     (if path = [] \<or> path = ''/'' then Some root
      else do {
        guard (length path < VFS_MAX_FILE_NAME);
        tmpfs_walk_loop (tmpfs_child s) root (if hd path = CHR ''/'' then tl path else path)
      })"

section \<open>Mounting and opening\<close>

definition tmpfs_op_mount :: "'a tmpfs_scheme \<Rightarrow> string \<Rightarrow> string \<Rightarrow> u32 \<Rightarrow> (u32 \<times> 'a tmpfs_scheme) option" where
  "tmpfs_op_mount s device mount_point type = tmpfs_node_internal_create s ''/'' VFS_DIR"

definition tmpfs_op_unmount :: "'a tmpfs_scheme \<Rightarrow> u32 \<Rightarrow> string \<Rightarrow> (int \<times> 'a tmpfs_scheme) option" where
  "tmpfs_op_unmount s mp path = do {
     let root = mp_data_pointer (vf_mp s mp);
     s \<leftarrow> (if root \<noteq> 0 then fs_kfree s root SIZEOF_TMPFS_NODE else Some s);
     Some (0, s)
   }"

definition tmpfs_op_open :: "'a tmpfs_scheme \<Rightarrow> u32 \<Rightarrow> string \<Rightarrow> (u32 \<times> 'a tmpfs_scheme) option" where
  "tmpfs_op_open s node name = do {
     let root = mp_data_pointer (vf_mp s (vn_mountpoint (vf_node s node)));
     target \<leftarrow> tmpfs_walk_path s root name;
     if target = 0 then Some (0, s)
     else
       let t = tf_node s target
       in Some (node, upd_node node (\<lambda>x. x\<lparr>vn_data := target, vn_stat := (vn_stat x)\<lparr>st_size := tn_size t,
            st_mode := tn_mode t, st_uid := tn_uid t, st_gid := tn_gid t\<rparr>\<rparr>) s)
   }"

definition tmpfs_op_close :: "'a tmpfs_scheme \<Rightarrow> u32 \<Rightarrow> (int \<times> 'a tmpfs_scheme) option" where
  "tmpfs_op_close s node = Some (0, s)"

section \<open>Reading and writing\<close>

text \<open>\<open>t->pages[i]\<close>, within the array.\<close>

definition page_slot :: "u32 list \<Rightarrow> u32 \<Rightarrow> u32 option" where
  "page_slot pages i = (if unat i < length pages then Some (pages ! unat i) else None)"

text \<open>The array of a node; there is none while \<open>pages\<close> is null.\<close>

definition node_pages :: "'a tmpfs_scheme \<Rightarrow> u32 \<Rightarrow> u32 list" where
  "node_pages s t = (if tn_pages (tf_node s t) = 0 then [] else tf_array s (tn_pages (tf_node s t)))"

text \<open>
  The loop that \<open>tmpfs_op_read\<close> and \<open>tmpfs_op_write\<close> share: a chunk at a time, each within one page.
  \<open>cp\<close> copies a chunk between its place in the page and its place in the buffer; \<open>count\<close> is the number of
  bytes done so far.
\<close>

partial_function (option) tmpfs_chunk_loop ::
  "(mem \<Rightarrow> u32 \<Rightarrow> u32 \<Rightarrow> u32 \<Rightarrow> mem) \<Rightarrow> u32 list \<Rightarrow> u32 \<Rightarrow> u32 \<Rightarrow> mem \<Rightarrow> u64 \<Rightarrow> u32 \<Rightarrow> (mem \<times> u64 \<times> u32) option" where
  "tmpfs_chunk_loop cp pages buffer sz m offset count =
     (if count < sz then do {
        let p_idx = ucast (offset div 4096);
        let p_off = ucast (offset mod 4096);
        let chunk = PAGE_SIZE - p_off;
        let chunk = (if chunk > sz - count then sz - count else chunk);
        page \<leftarrow> page_slot pages p_idx;
        let m = cp m (page + p_off) (buffer + count) chunk;
        tmpfs_chunk_loop cp pages buffer sz m (offset + ucast chunk) (count + chunk)
      } else Some (m, offset, count))"

definition tmpfs_read_loop :: "u32 list \<Rightarrow> u32 \<Rightarrow> u32 \<Rightarrow> mem \<Rightarrow> u64 \<Rightarrow> (mem \<times> u64 \<times> u32) option" where
  "tmpfs_read_loop pages buffer sz m offset =
     tmpfs_chunk_loop (\<lambda>m page buf n. fst (flop_memcpy m buf page n)) pages buffer sz m offset 0"

definition tmpfs_write_loop :: "u32 list \<Rightarrow> u32 \<Rightarrow> u32 \<Rightarrow> mem \<Rightarrow> u64 \<Rightarrow> (mem \<times> u64 \<times> u32) option" where
  "tmpfs_write_loop pages buffer sz m offset =
     tmpfs_chunk_loop (\<lambda>m page buf n. fst (flop_memcpy m page buf n)) pages buffer sz m offset 0"

definition tmpfs_op_read :: "'a tmpfs_scheme \<Rightarrow> u32 \<Rightarrow> u32 \<Rightarrow> u32 \<Rightarrow> (int \<times> 'a tmpfs_scheme) option" where
  "tmpfs_op_read s node buffer sz = do {
     let t = vn_data (vf_node s node);
     guard (t \<noteq> 0);
     let off = tn_offset (tf_node s t);
     let fsize = tn_size (tf_node s t);
     if off \<ge> fsize then Some (0, s)
     else do {
       let sz = (if off + ucast sz > fsize then ucast (fsize - off) else sz);
       (m, off, n) \<leftarrow> tmpfs_read_loop (node_pages s t) buffer sz (fs_mem s) off;
       Some (sint n, upd_tnode t (\<lambda>x. x\<lparr>tn_offset := off\<rparr>) (set_mem m s))
     }
   }"

text \<open>Fresh pages, each cleared. A null result of the allocator is not noticed.\<close>

fun tmpfs_grow :: "nat \<Rightarrow> heap \<Rightarrow> (u32 list \<times> heap) option" where
  "tmpfs_grow 0 h = Some ([], h)"
| "tmpfs_grow (Suc n) h = do {
     (p, b) \<leftarrow> pmm_alloc_pages (hp_pmm h) 0 1;
     let pg = (case p of None \<Rightarrow> 0 | Some a \<Rightarrow> a);
     let h = h\<lparr>hp_pmm := b, hp_mem := fst (flop_memset (hp_mem h) pg 0 PAGE_SIZE)\<rparr>;
     (ps, h) \<leftarrow> tmpfs_grow n h;
     Some (pg # ps, h)
   }"

text \<open>The larger array: the old entries are copied when there was an array, otherwise their places keep
  what the heap memory held.\<close>

definition tmpfs_enlarge :: "'a tmpfs_scheme \<Rightarrow> u32 \<Rightarrow> u32 \<Rightarrow> 'a tmpfs_scheme option" where
  "tmpfs_enlarge s t needed = do {
     let pages = tn_pages (tf_node s t);
     let count = tn_page_count (tf_node s t);
     (new_pages, s) \<leftarrow> fs_kmalloc s (needed * 4);
     guard (new_pages \<noteq> 0);
     old \<leftarrow> (if pages \<noteq> 0 then do {
               guard (unat count \<le> length (tf_array s pages));
               Some (take (unat count) (tf_array s pages))
             } else Some (map (\<lambda>i. load32 (fs_mem s) (new_pages + 4 * of_nat i)) [0..<unat count]));
     s \<leftarrow> (if pages \<noteq> 0 then fs_kfree s pages (count * 4) else Some s);
     (fresh, h) \<leftarrow> tmpfs_grow (unat needed - unat count) (vf_heap s);
     let s = s\<lparr>vf_heap := h, tf_array := (tf_array s)(new_pages := old @ fresh)\<rparr>;
     Some (upd_tnode t (\<lambda>x. x\<lparr>tn_pages := new_pages, tn_page_count := needed\<rparr>) s)
   }"

text \<open>\<open>(n + PAGE_SIZE - 1) / PAGE_SIZE\<close>, computed in 32 bits.\<close>

definition pages_for :: "u32 \<Rightarrow> u32" where
  "pages_for n = (n + 4096 - 1) div 4096"

definition tmpfs_op_write :: "'a tmpfs_scheme \<Rightarrow> u32 \<Rightarrow> u32 \<Rightarrow> u32 \<Rightarrow> (int \<times> 'a tmpfs_scheme) option" where
  "tmpfs_op_write s node buffer sz = do {
     let t = vn_data (vf_node s node);
     guard (t \<noteq> 0);
     let end_off = ucast (tn_offset (tf_node s t) + ucast sz);
     let needed = pages_for end_off;
     s \<leftarrow> (if needed > tn_page_count (tf_node s t) then tmpfs_enlarge s t needed else Some s);
     (m, off, n) \<leftarrow> tmpfs_write_loop (node_pages s t) buffer sz (fs_mem s) (tn_offset (tf_node s t));
     let s = upd_tnode t (\<lambda>x. x\<lparr>tn_offset := off, tn_size := (if off > tn_size x then off else tn_size x)\<rparr>) (set_mem m s);
     Some (sint n, upd_node node (\<lambda>x. x\<lparr>vn_stat := (vn_stat x)\<lparr>st_size := tn_size (tf_node s t)\<rparr>\<rparr>) s)
   }"

definition tmpfs_op_seek :: "'a tmpfs_scheme \<Rightarrow> u32 \<Rightarrow> u32 \<Rightarrow> u8 \<Rightarrow> (int \<times> 'a tmpfs_scheme) option" where
  "tmpfs_op_seek s node offset whence = do {
     let t = vn_data (vf_node s node);
     guard (t \<noteq> 0);
     Some (0, upd_tnode t (\<lambda>x.
       if whence = VFS_SEEK_STRT then x\<lparr>tn_offset := ucast offset\<rparr>
       else if whence = VFS_SEEK_CUR then x\<lparr>tn_offset := tn_offset x + ucast offset\<rparr>
       else if whence = VFS_SEEK_END then x\<lparr>tn_offset := tn_size x + ucast offset\<rparr>
       else x) s)
   }"

text \<open>Giving back the pages of an array from index \<open>i\<close> up to \<open>n\<close>.\<close>

fun free_slots :: "u32 list \<Rightarrow> nat \<Rightarrow> nat \<Rightarrow> heap \<Rightarrow> heap option" where
  "free_slots pages i 0 h = Some h"
| "free_slots pages i (Suc n) h = do {
     guard (i < length pages);
     b \<leftarrow> pmm_free_pages (hp_pmm h) (pages ! i) 0 1;
     free_slots pages (Suc i) n (h\<lparr>hp_pmm := b\<rparr>)
   }"

definition tmpfs_op_truncate :: "'a tmpfs_scheme \<Rightarrow> u32 \<Rightarrow> u64 \<Rightarrow> (int \<times> 'a tmpfs_scheme) option" where
  "tmpfs_op_truncate s node len = do {
     let t = vn_data (vf_node s node);
     guard (t \<noteq> 0);
     let needed = ucast ((len + 4096 - 1) div 4096);
     let count = tn_page_count (tf_node s t);
     h \<leftarrow> (if needed < count then free_slots (node_pages s t) (unat needed) (unat count - unat needed) (vf_heap s)
           else Some (vf_heap s));
     let s = upd_tnode t (\<lambda>x. x\<lparr>tn_size := len, tn_page_count := needed\<rparr>) (s\<lparr>vf_heap := h\<rparr>);
     Some (0, upd_node node (\<lambda>x. x\<lparr>vn_stat := (vn_stat x)\<lparr>st_size := len\<rparr>\<rparr>) s)
   }"

section \<open>Names\<close>

fun last_slash_loop :: "string \<Rightarrow> nat \<Rightarrow> nat option \<Rightarrow> nat option" where
  "last_slash_loop [] i k = k"
| "last_slash_loop (c # cs) i k = last_slash_loop cs (Suc i) (if c = CHR ''/'' then Some i else k)"

text \<open>The directory a new name belongs in, and the name itself.\<close>

definition tmpfs_parent_of :: "'a tmpfs_scheme \<Rightarrow> u32 \<Rightarrow> string \<Rightarrow> (u32 \<times> string) option" where
  "tmpfs_parent_of s root name =
     (case last_slash_loop name 0 None of
        Some k \<Rightarrow> do {
          guard (k < VFS_MAX_FILE_NAME);
          parent \<leftarrow> tmpfs_walk_path s root (take k name);
          guard (length (drop (k + 1) name) < VFS_MAX_FILE_NAME);
          Some (parent, drop (k + 1) name)
        }
      | None \<Rightarrow> do { guard (length name < VFS_MAX_FILE_NAME); Some (root, name) })"

text \<open>Putting a new node in front of the children.\<close>

definition tmpfs_add_child :: "'a tmpfs_scheme \<Rightarrow> u32 \<Rightarrow> u32 \<Rightarrow> 'a tmpfs_scheme" where
  "tmpfs_add_child s parent n =
     upd_tnode parent (\<lambda>x. x\<lparr>tn_children := n\<rparr>)
       (upd_tnode n (\<lambda>x. x\<lparr>tn_parent := parent, tn_sibling := tn_children (tf_node s parent)\<rparr>) s)"

definition tmpfs_op_create :: "'a tmpfs_scheme \<Rightarrow> u32 \<Rightarrow> string \<Rightarrow> (int \<times> 'a tmpfs_scheme) option" where
  "tmpfs_op_create s mp name = do {
     let root = mp_data_pointer (vf_mp s mp);
     (parent, file_name) \<leftarrow> tmpfs_parent_of s root name;
     if parent = 0 then Some (-1, s)
     else do {
       (n, s) \<leftarrow> tmpfs_node_internal_create s file_name VFS_FILE;
       guard (n \<noteq> 0);
       Some (0, tmpfs_add_child s parent n)
     }
   }"

definition tmpfs_op_mkdir :: "'a tmpfs_scheme \<Rightarrow> u32 \<Rightarrow> string \<Rightarrow> u32 \<Rightarrow> (int \<times> 'a tmpfs_scheme) option" where
  "tmpfs_op_mkdir s mp name mode = do {
     let root = mp_data_pointer (vf_mp s mp);
     (parent, new_dir_name) \<leftarrow> tmpfs_parent_of s root name;
     if parent = 0 then Some (-1, s)
     else do {
       (n, s) \<leftarrow> tmpfs_node_internal_create s new_dir_name VFS_DIR;
       guard (n \<noteq> 0);
       Some (0, tmpfs_add_child (upd_tnode n (\<lambda>x. x\<lparr>tn_mode := mode\<rparr>) s) parent n)
     }
   }"

definition tmpfs_op_unlink :: "'a tmpfs_scheme \<Rightarrow> u32 \<Rightarrow> string \<Rightarrow> (int \<times> 'a tmpfs_scheme) option" where
  "tmpfs_op_unlink s mp name = do {
     let root = mp_data_pointer (vf_mp s mp);
     target \<leftarrow> tmpfs_walk_path s root name;
     if target = 0 \<or> tn_parent (tf_node s target) = 0 then Some (-1, s)
     else do {
       let parent = tn_parent (tf_node s target);
       (prev, cur) \<leftarrow> ll_walk (tn_next s) target None (box_ptr (tn_children (tf_node s parent)));
       (case cur of
          None \<Rightarrow> Some (-1, s)
        | Some c \<Rightarrow> do {
            let s = (case prev of
                   Some q \<Rightarrow> upd_tnode q (\<lambda>x. x\<lparr>tn_sibling := tn_sibling (tf_node s c)\<rparr>) s
                 | None \<Rightarrow> upd_tnode parent (\<lambda>x. x\<lparr>tn_children := tn_sibling (tf_node s c)\<rparr>) s);
            h \<leftarrow> free_slots (node_pages s c) 0 (unat (tn_page_count (tf_node s c))) (vf_heap s);
            let s = s\<lparr>vf_heap := h\<rparr>;
            s \<leftarrow> (if tn_pages (tf_node s c) \<noteq> 0
                  then fs_kfree s (tn_pages (tf_node s c)) (tn_page_count (tf_node s c) * 4) else Some s);
            s \<leftarrow> fs_kfree s c SIZEOF_TMPFS_NODE;
            Some (0, s)
          })
     }
   }"

definition tmpfs_op_rename :: "'a tmpfs_scheme \<Rightarrow> u32 \<Rightarrow> string \<Rightarrow> string \<Rightarrow> (int \<times> 'a tmpfs_scheme) option" where
  "tmpfs_op_rename s mp old new = do {
     let root = mp_data_pointer (vf_mp s mp);
     target \<leftarrow> tmpfs_walk_path s root old;
     if target = 0 then Some (-1, s)
     else do {
       guard (length new < VFS_MAX_FILE_NAME);
       Some (0, upd_tnode target (\<lambda>x. x\<lparr>tn_name := new\<rparr>) s)
     }
   }"

definition tmpfs_op_fstat :: "'a tmpfs_scheme \<Rightarrow> u32 \<Rightarrow> stat_t \<Rightarrow> (int \<times> stat_t \<times> 'a tmpfs_scheme) option" where
  "tmpfs_op_fstat s node st = do {
     let t = vn_data (vf_node s node);
     guard (t \<noteq> 0);
     let x = tf_node s t;
     Some (0, st\<lparr>st_size := tn_size x, st_mode := tn_mode x, st_uid := tn_uid x, st_gid := tn_gid x,
       st_nlink := tn_nlink x, st_ino := tn_ino x\<rparr>, s)
   }"

partial_function (option) tmpfs_list_loop :: "'a tmpfs_scheme \<Rightarrow> u32 \<Rightarrow> u32 option \<Rightarrow> 'a tmpfs_scheme option" where
  "tmpfs_list_loop s l cur =
     (case cur of
        None \<Rightarrow> Some s
      | Some c \<Rightarrow> do {
          r \<leftarrow> fs_kmalloc s SIZEOF_DIRENT;
          let e = fst r;
          let s = snd r;
          guard (e \<noteq> 0);
          guard (length (tn_name (tf_node s c)) < VFS_MAX_FILE_NAME);
          let s = upd_entry e (\<lambda>_. \<lparr>de_name = tn_name (tf_node s c), de_type = tn_type (tf_node s c), de_next = 0\<rparr>) s;
          let s = dirlist_append s l e;
          tmpfs_list_loop s l (tn_next s c)
        })"

definition tmpfs_op_listdir :: "'a tmpfs_scheme \<Rightarrow> u32 \<Rightarrow> string \<Rightarrow> (u32 \<times> 'a tmpfs_scheme) option" where
  "tmpfs_op_listdir s mp path = do {
     let root = mp_data_pointer (vf_mp s mp);
     dir \<leftarrow> tmpfs_walk_path s root path;
     if dir = 0 \<or> tn_type (tf_node s dir) \<noteq> VFS_DIR then Some (0, s)
     else do {
       (l, s) \<leftarrow> fs_kmalloc s SIZEOF_DIRLIST;
       guard (l \<noteq> 0);
       let s = upd_list l (\<lambda>x. x\<lparr>dl_head := 0, dl_tail := 0\<rparr>) s;
       s \<leftarrow> tmpfs_list_loop s l (box_ptr (tn_children (tf_node s dir)));
       Some (l, s)
     }
   }"

section \<open>Registration\<close>

definition tmpfs_ops :: "'a tmpfs_scheme vfs_op_tbl" where
  "tmpfs_ops = no_ops\<lparr>op_mount := Some tmpfs_op_mount, op_unmount := Some tmpfs_op_unmount,
     op_open := Some tmpfs_op_open, op_close := Some tmpfs_op_close, op_read := Some tmpfs_op_read,
     op_write := Some tmpfs_op_write, op_seek := Some tmpfs_op_seek, op_truncate := Some tmpfs_op_truncate,
     op_create := Some tmpfs_op_create, op_mkdir := Some tmpfs_op_mkdir, op_unlink := Some tmpfs_op_unlink,
     op_rename := Some tmpfs_op_rename, op_fstat := Some tmpfs_op_fstat, op_listdir := Some tmpfs_op_listdir\<rparr>"

text \<open>\<open>tmpflopfs\<close> is the address of the static structure.\<close>

definition tmpfs_init :: "'a tmpfs_scheme \<Rightarrow> u32 \<Rightarrow> 'a tmpfs_scheme" where
  "tmpfs_init s tmpflopfs =
     snd (vfs_acknowledge_fs (s\<lparr>vf_fs := (vf_fs s)(tmpflopfs := \<lparr>fs_type = VFS_FS_TMPFS, fs_previous = 0\<rparr>)\<rparr>) tmpflopfs)"

end
