(* ===== verification/TmpfsData.thy ===== *)
theory TmpfsData
  imports Tmpfs StrProps
begin

text \<open>
  The bytes of a file: reading and writing as transfers between the pages of the file and a buffer,
  against the abstract file, a list of bytes with a position.
\<close>

section \<open>Transfers\<close>

text \<open>\<open>n\<close> bytes have been copied from the addresses \<open>S\<close> to the addresses \<open>D\<close>, and nothing else has changed.\<close>

definition copied :: "mem \<Rightarrow> mem \<Rightarrow> (nat \<Rightarrow> u32) \<Rightarrow> (nat \<Rightarrow> u32) \<Rightarrow> nat \<Rightarrow> bool" where
  "copied m m' D S n \<longleftrightarrow> (\<forall>i<n. m' (D i) = m (S i)) \<and> (\<forall>x. x \<notin> D ` {..<n} \<longrightarrow> m' x = m x)"

lemma copied_0 [simp]: "copied m m' D S 0 \<longleftrightarrow> m' = m"
  by (auto simp: copied_def)

lemma copied_trans:
  assumes one: "copied m m1 D S k" and two: "copied m1 m2 (\<lambda>i. D (k + i)) (\<lambda>i. S (k + i)) n"
    and inj: "inj_on D {..<k + n}" and apart: "\<And>i j. i < k + n \<Longrightarrow> j < k + n \<Longrightarrow> D i \<noteq> S j"
  shows "copied m m2 D S (k + n)"
  unfolding copied_def
proof (intro conjI allI impI)
  fix i assume i: "i < k + n"
  show "m2 (D i) = m (S i)"
  proof (cases "i < k")
    case True
    have "D i \<noteq> D (k + j)" if "j < n" for j
      using inj_onD [OF inj, of i "k + j"] that True by auto
    then have "D i \<notin> (\<lambda>j. D (k + j)) ` {..<n}" by auto
    with one two True show ?thesis by (simp add: copied_def)
  next
    case False
    then obtain j where j: "i = k + j" "j < n" using i by (metis add_diff_inverse_nat nat_add_left_cancel_less)
    have "S i \<notin> D ` {..<k}"
    proof
      assume "S i \<in> D ` {..<k}"
      then obtain j where "j < k" "D j = S i" by auto
      then show False using apart [of j i] i by simp
    qed
    with one two j show ?thesis by (simp add: copied_def)
  qed
next
  fix x assume x: "x \<notin> D ` {..<k + n}"
  then have "x \<notin> D ` {..<k}" "x \<notin> (\<lambda>j. D (k + j)) ` {..<n}" by auto
  with one two show "m2 x = m x" by (simp add: copied_def)
qed

lemma flop_memcpy_copied:
  assumes nz: "d \<noteq> 0" "s \<noteq> 0"
    and apart: "\<And>i j. i < unat n \<Longrightarrow> j < unat n \<Longrightarrow> s + of_nat i \<noteq> d + of_nat j"
  shows "copied m (fst (flop_memcpy m d s n)) (\<lambda>i. d + of_nat i) (\<lambda>i. s + of_nat i) (unat n)"
proof -
  have len: "unat n \<le> 4294967296" by (simp add: less_imp_le)
  have "fst (flop_memcpy m d s n) x = (if x \<in> block d (unat n) then m (s + (x - d)) else m x)" for x
    unfolding flop_memcpy_def using nz rep_movsb_up_fst [OF len, of s d m x] apart by simp
  then show ?thesis unfolding copied_def by (auto simp: block_def image_def)
qed

section \<open>The pages of a file\<close>

text \<open>Distinct page frames: nonzero and aligned.\<close>

definition page_frames :: "u32 list \<Rightarrow> bool" where
  "page_frames ps \<longleftrightarrow> distinct ps \<and> length ps \<le> 1048576 \<and> (\<forall>p\<in>set ps. p \<noteq> 0 \<and> 4096 dvd unat p)"

definition page_byte :: "u32 list \<Rightarrow> nat \<Rightarrow> u32" where
  "page_byte ps i = ps ! (i div 4096) + of_nat (i mod 4096)"

lemma page_split:
  fixes q r :: nat
  assumes "r < 4096"
  shows "(4096 * q + r) div 4096 = q" "(4096 * q + r) mod 4096 = r"
  using assms by simp_all

lemma unat_page_byte:
  assumes "page_frames ps" and "i < 4096 * length ps"
  shows "unat (page_byte ps i) = unat (ps ! (i div 4096)) + i mod 4096"
proof -
  have "ps ! (i div 4096) \<in> set ps" using assms(2) by (intro nth_mem) (simp add: less_mult_imp_div_less mult.commute)
  then have "4096 dvd unat (ps ! (i div 4096))" using assms(1) by (simp add: page_frames_def)
  then obtain q where q: "unat (ps ! (i div 4096)) = 4096 * q" by blast
  moreover have "unat (ps ! (i div 4096)) < 4096 * 1048576" using unat_less_2p32 [of "ps ! (i div 4096)"] by simp
  ultimately have "q < 1048576" by simp
  then have "unat (ps ! (i div 4096)) + i mod 4096 < 4294967296" unfolding q
    using mod_less_divisor [of 4096 i] by linarith
  then show ?thesis unfolding page_byte_def by (subst unat_plus_u32) (simp_all add: unat_of_nat_u32)
qed

lemma page_byte_inj:
  assumes "page_frames ps" and "i < 4096 * length ps" and "j < 4096 * length ps" and "page_byte ps i = page_byte ps j"
  shows "i = j"
proof -
  have in_range: "k div 4096 < length ps" if "k < 4096 * length ps" for k
    using that by (simp add: less_mult_imp_div_less mult.commute)
  have dv: "4096 dvd unat (ps ! (k div 4096))" if "k < 4096 * length ps" for k
    using assms(1) nth_mem [OF in_range [OF that]] by (simp add: page_frames_def)
  from assms have e: "unat (ps ! (i div 4096)) + i mod 4096 = unat (ps ! (j div 4096)) + j mod 4096"
    using unat_page_byte by metis
  from dv [OF assms(2)] dv [OF assms(3)] obtain a b where
    ab: "unat (ps ! (i div 4096)) = 4096 * a" "unat (ps ! (j div 4096)) = 4096 * b" by (auto elim!: dvdE)
  define r r' where "r = i mod 4096" and "r' = j mod 4096"
  have "r < 4096" "r' < 4096" "4096 * a + r = 4096 * b + r'"
    using e unfolding ab r_def r'_def by simp_all
  then have "r = r' \<and> a = b" using page_split [of r a] page_split [of r' b] by (metis (no_types))
  then have "i mod 4096 = j mod 4096 \<and> a = b" unfolding r_def r'_def .
  with ab have "i mod 4096 = j mod 4096" "ps ! (i div 4096) = ps ! (j div 4096)"
    by (simp_all add: word_unat_eq_iff)
  moreover from this assms(1) in_range [OF assms(2)] in_range [OF assms(3)] have "i div 4096 = j div 4096"
    by (simp add: page_frames_def nth_eq_iff_index_eq)
  ultimately show "i = j" using div_mult_mod_eq [of i 4096] div_mult_mod_eq [of j 4096] by metis
qed

lemma page_byte_step:
  assumes "i mod 4096 + j < 4096"
  shows "page_byte ps (i + j) = page_byte ps i + of_nat j"
proof -
  have "i + j = 4096 * (i div 4096) + (i mod 4096 + j)" using mult_div_mod_eq [of 4096 i] by linarith
  with page_split [OF assms, of "i div 4096"] have "(i + j) div 4096 = i div 4096" "(i + j) mod 4096 = i mod 4096 + j"
    by (metis (no_types))+
  then show ?thesis by (simp add: page_byte_def add.assoc)
qed

lemma page_byte_nonzero:
  assumes "page_frames ps" and "i < 4096 * length ps"
  shows "page_byte ps i \<noteq> 0"
proof
  assume "page_byte ps i = 0"
  then have "unat (ps ! (i div 4096)) = 0" using unat_page_byte [OF assms] by simp
  moreover have "ps ! (i div 4096) \<in> set ps" using assms(2) by (intro nth_mem) (simp add: less_mult_imp_div_less mult.commute)
  ultimately show False using assms(1) by (auto simp: page_frames_def unat_eq_0)
qed

section \<open>The loop\<close>

lemma unat_ucast_u64: "unat (ucast (x :: u32) :: u64) = unat x"
proof -
  have "unat x < 18446744073709551616" using unat_less_2p32 [of x] by linarith
  then show ?thesis by (simp add: unsigned_ucast_eq take_bit_nat_eq_self)
qed


text \<open>
  The loop copies \<open>sz\<close> bytes between the file, from position \<open>pos\<close> on, and the buffer. \<open>D\<close> and \<open>S\<close> are the
  destination and source of byte \<open>i\<close>, of which one is in the file and the other in the buffer.
\<close>

lemma chunk_loop_ok:
  fixes offset :: u64 and count sz :: u32
  assumes cp: "\<And>m k n. 0 < unat n \<Longrightarrow> k + unat n \<le> unat sz \<Longrightarrow> (pos + k) mod 4096 + unat n \<le> 4096 \<Longrightarrow>
      copied m (cp m (page_byte ps (pos + k)) (buffer + of_nat k) n) (\<lambda>i. D (k + i)) (\<lambda>i. S (k + i)) (unat n)"
    and inj: "inj_on D {..<unat sz}" and apart: "\<And>i j. i < unat sz \<Longrightarrow> j < unat sz \<Longrightarrow> D i \<noteq> S j"
    and fits: "pos + unat sz \<le> 4096 * length ps" and len: "length ps \<le> 1048576"
  shows "unat count \<le> unat sz \<Longrightarrow> unat offset = pos + unat count \<Longrightarrow> copied m0 m D S (unat count) \<Longrightarrow>
    \<exists>m' off'. tmpfs_chunk_loop cp ps buffer sz m offset count = Some (m', off', sz) \<and>
      unat off' = pos + unat sz \<and> copied m0 m' D S (unat sz)"
proof (induction "unat sz - unat count" arbitrary: m offset count rule: less_induct)
  case less
  show ?case
  proof (cases "count < sz")
    case False
    with less.prems have "count = sz" by (simp add: word_less_nat_alt word_unat_eq_iff)
    with less.prems show ?thesis by (subst tmpfs_chunk_loop.simps) simp
  next
    case True
    then have lt: "unat count < unat sz" by (simp add: word_less_nat_alt)
    let ?p = "pos + unat count"
    define p_off where "p_off = (ucast (offset mod 4096) :: u32)"
    define chunk where "chunk = (if PAGE_SIZE - p_off > sz - count then sz - count else PAGE_SIZE - p_off)"
    have p: "?p < 4096 * length ps" using fits lt by simp
    then have pl: "?p < 4294967296" using len by simp
    have off: "unat p_off = ?p mod 4096" unfolding p_off_def using less.prems(2)
      by (simp add: unsigned_ucast_eq unat_mod take_bit_eq_mod)
    have "unat (offset div 4096) = ?p div 4096" using less.prems(2) by (simp add: unat_div)
    moreover have pd: "?p div 4096 < length ps" using p by (simp add: less_mult_imp_div_less mult.commute)
    ultimately have idx: "unat (ucast (offset div 4096) :: u32) = ?p div 4096"
      using len by (simp add: unsigned_ucast_eq take_bit_nat_eq_self)
    have slot: "page_slot ps (ucast (offset div 4096)) = Some (ps ! (?p div 4096))"
      using pd by (simp add: page_slot_def idx)
    have addr: "ps ! (?p div 4096) + p_off = page_byte ps ?p"
      unfolding page_byte_def off [symmetric] by simp
    have md: "?p mod 4096 < 4096" by simp
    with off have "unat (PAGE_SIZE - p_off) = 4096 - ?p mod 4096"
      by (subst unat_minus_u32) (simp_all add: word_le_nat_alt)
    note pg = this md [THEN zero_less_diff [THEN iffD2]]
    have sub: "unat (sz - count) = unat sz - unat count" using lt by (simp add: unat_minus_u32 word_le_nat_alt)
    have ch: "unat chunk = min (unat sz - unat count) (4096 - ?p mod 4096)"
      unfolding chunk_def using pg sub by (simp add: word_less_nat_alt min_def)
    then have c0: "0 < unat chunk" and c1: "unat count + unat chunk \<le> unat sz" and c2: "?p mod 4096 + unat chunk \<le> 4096"
      using lt md by linarith+
    let ?m = "cp m (page_byte ps ?p) (buffer + count) chunk"
    have step: "tmpfs_chunk_loop cp ps buffer sz m offset count =
        tmpfs_chunk_loop cp ps buffer sz ?m (offset + ucast chunk) (count + chunk)"
      by (subst tmpfs_chunk_loop.simps) (simp add: True slot p_off_def [symmetric] chunk_def [symmetric] addr Let_def)
    have ccount: "unat (count + chunk) = unat count + unat chunk"
      using c1 unat_less_2p32 [of sz] by (intro unat_plus_u32) linarith
    have uc: "unat (ucast chunk :: u64) = unat chunk" by (rule unat_ucast_u64)
    have coff: "unat (offset + ucast chunk) = pos + unat (count + chunk)"
    proof -
      have "unat offset + unat (ucast chunk :: u64) < 18446744073709551616"
        using less.prems(2) pl uc unat_less_2p32 [of chunk] by linarith
      then have "unat (offset + ucast chunk) = unat offset + unat (ucast chunk :: u64)"
        by (simp add: unat_word_ariths)
      then show ?thesis using less.prems(2) uc ccount by simp
    qed
    have "copied m ?m (\<lambda>i. D (unat count + i)) (\<lambda>i. S (unat count + i)) (unat chunk)"
      using cp [OF c0 c1 c2, of m] by simp
    moreover have "inj_on D {..<unat count + unat chunk}" using inj by (rule inj_on_subset) (use c1 in auto)
    moreover have "D i \<noteq> S j" if "i < unat count + unat chunk" "j < unat count + unat chunk" for i j
      by (rule apart) (use that c1 in linarith)+
    ultimately have "copied m0 ?m D S (unat (count + chunk))"
      unfolding ccount by (rule copied_trans [OF less.prems(3)])
    then show ?thesis unfolding step
      by (intro less.hyps) (use lt c0 c1 ccount coff in simp_all)
  qed
qed


section \<open>Files\<close>

text \<open>The bytes \<open>bs\<close> of a file, in distinct pages that have room for them.\<close>

definition file_rep :: "'a tmpfs_scheme \<Rightarrow> u32 \<Rightarrow> u8 list \<Rightarrow> bool" where
  "file_rep s t bs \<longleftrightarrow> t \<noteq> 0 \<and> unat (tn_size (tf_node s t)) = length bs \<and> page_frames (node_pages s t) \<and>
     unat (tn_page_count (tf_node s t)) = length (node_pages s t) \<and> length bs \<le> 4096 * length (node_pages s t) \<and>
     (\<forall>i<length bs. fs_mem s (page_byte (node_pages s t) i) = bs ! i)"

text \<open>A buffer of \<open>n\<close> bytes that does not wrap around and lies outside the pages \<open>ps\<close>.\<close>

definition buffer_apart :: "u32 list \<Rightarrow> u32 \<Rightarrow> nat \<Rightarrow> bool" where
  "buffer_apart ps buf n \<longleftrightarrow> buf \<noteq> 0 \<and> unat buf + n \<le> 4294967296 \<and>
     (\<forall>i<n. \<forall>j<4096 * length ps. buf + of_nat i \<noteq> page_byte ps j)"

lemma buffer_apart_mono: "buffer_apart ps buf n \<Longrightarrow> k \<le> n \<Longrightarrow> buffer_apart ps buf k"
  by (auto simp: buffer_apart_def)

lemma buffer_apart_ne:
  "buffer_apart ps buf n \<Longrightarrow> i < n \<Longrightarrow> j < 4096 * length ps \<Longrightarrow> buf + of_nat i \<noteq> page_byte ps j"
  by (simp add: buffer_apart_def)

lemma unat_buffer: "buffer_apart ps buf n \<Longrightarrow> i < n \<Longrightarrow> unat (buf + of_nat i) = unat buf + i"
  by (subst unat_plus_u32) (simp_all add: buffer_apart_def unat_of_nat_u32)

lemma buffer_nonzero: "buffer_apart ps buf n \<Longrightarrow> i < n \<Longrightarrow> buf + of_nat i \<noteq> 0"
  using unat_buffer [of ps buf n i] by (auto simp: buffer_apart_def unat_eq_0)

lemma buffer_inj: "buffer_apart ps buf n \<Longrightarrow> inj_on (\<lambda>i. buf + of_nat i) {..<n}"
  by (rule inj_onI) (metis unat_buffer add_left_cancel lessThan_iff)

text \<open>One chunk, in either direction.\<close>

lemma chunk_copies:
  assumes ps: "page_frames ps" and buf: "buffer_apart ps buf (unat sz)" and fits: "pos + unat sz \<le> 4096 * length ps"
    and n: "0 < unat n" "k + unat n \<le> unat sz" "(pos + k) mod 4096 + unat n \<le> 4096"
  shows "copied m (fst (flop_memcpy m (buf + of_nat k) (page_byte ps (pos + k)) n))
      (\<lambda>i. buf + of_nat (k + i)) (\<lambda>i. page_byte ps (pos + (k + i))) (unat n)"
    and "copied m (fst (flop_memcpy m (page_byte ps (pos + k)) (buf + of_nat k) n))
      (\<lambda>i. page_byte ps (pos + (k + i))) (\<lambda>i. buf + of_nat (k + i)) (unat n)"
proof -
  have pb: "page_byte ps (pos + (k + i)) = page_byte ps (pos + k) + of_nat i" if "i < unat n" for i
    using page_byte_step [of "pos + k" i ps] that n(3) by (simp add: add.assoc)
  have k: "k < unat sz" using n by linarith
  have "buf + of_nat k + of_nat i \<noteq> page_byte ps (pos + k) + of_nat j" if "i < unat n" "j < unat n" for i j
  proof -
    have "buf + of_nat (k + i) \<noteq> page_byte ps (pos + (k + j))"
      by (rule buffer_apart_ne [OF buf]) (use that n fits in linarith)+
    then show ?thesis using pb [OF that(2)] by (simp add: add.assoc)
  qed
  note ap = this
  have nz: "page_byte ps (pos + k) \<noteq> 0" "buf + of_nat k \<noteq> 0"
    using page_byte_nonzero [OF ps] buffer_nonzero [OF buf k] k fits by auto
  have c: "copied m m' D S q = copied m m' D' S' q" if "\<And>i. i < q \<Longrightarrow> D i = D' i" "\<And>i. i < q \<Longrightarrow> S i = S' i"
    for m m' q and D D' S S' :: "nat \<Rightarrow> u32"
    using that by (auto simp: copied_def image_def)
  show "copied m (fst (flop_memcpy m (buf + of_nat k) (page_byte ps (pos + k)) n))
      (\<lambda>i. buf + of_nat (k + i)) (\<lambda>i. page_byte ps (pos + (k + i))) (unat n)"
    using flop_memcpy_copied [of "buf + of_nat k" "page_byte ps (pos + k)" n m] nz ap
    by (subst c [where D' = "\<lambda>i. buf + of_nat k + of_nat i" and S' = "\<lambda>i. page_byte ps (pos + k) + of_nat i"])
      (auto simp: pb add.assoc dest: sym)
  show "copied m (fst (flop_memcpy m (page_byte ps (pos + k)) (buf + of_nat k) n))
      (\<lambda>i. page_byte ps (pos + (k + i))) (\<lambda>i. buf + of_nat (k + i)) (unat n)"
    using flop_memcpy_copied [of "page_byte ps (pos + k)" "buf + of_nat k" n m] nz ap
    by (subst c [where S' = "\<lambda>i. buf + of_nat k + of_nat i" and D' = "\<lambda>i. page_byte ps (pos + k) + of_nat i"])
      (auto simp: pb add.assoc)
qed

lemma transfer_sides:
  assumes ps: "page_frames ps" and buf: "buffer_apart ps buf n" and fits: "pos + n \<le> 4096 * length ps"
  shows "inj_on (\<lambda>i. page_byte ps (pos + i)) {..<n}"
    and "i < n \<Longrightarrow> j < n \<Longrightarrow> page_byte ps (pos + i) \<noteq> buf + of_nat j"
proof -
  show "inj_on (\<lambda>i. page_byte ps (pos + i)) {..<n}"
  proof (rule inj_onI)
    fix i j assume "i \<in> {..<n}" "j \<in> {..<n}" "page_byte ps (pos + i) = page_byte ps (pos + j)"
    then have "pos + i = pos + j" using fits by (intro page_byte_inj [OF ps]) auto
    then show "i = j" by simp
  qed
  show "page_byte ps (pos + i) \<noteq> buf + of_nat j" if "i < n" "j < n"
    using buffer_apart_ne [OF buf that(2), of "pos + i"] fits that by simp
qed

lemma read_loop_ok:
  assumes ps: "page_frames ps" and buf: "buffer_apart ps buf (unat sz)" and off: "unat (offset :: u64) = pos"
    and fits: "pos + unat sz \<le> 4096 * length ps"
  obtains m' off' where "tmpfs_read_loop ps buf sz m offset = Some (m', off', sz)" "unat off' = pos + unat sz"
    "copied m m' (\<lambda>i. buf + of_nat i) (\<lambda>i. page_byte ps (pos + i)) (unat sz)"
proof -
  have "\<exists>m' off'. tmpfs_chunk_loop (\<lambda>m page buf n. fst (flop_memcpy m buf page n)) ps buf sz m offset 0 = Some (m', off', sz) \<and>
      unat off' = pos + unat sz \<and> copied m m' (\<lambda>i. buf + of_nat i) (\<lambda>i. page_byte ps (pos + i)) (unat sz)"
  proof (rule chunk_loop_ok [where pos = pos])
    fix m :: mem and k and n :: u32
    assume "0 < unat n" "k + unat n \<le> unat sz" "(pos + k) mod 4096 + unat n \<le> 4096"
    then show "copied m (fst (flop_memcpy m (buf + of_nat k) (page_byte ps (pos + k)) n))
        (\<lambda>i. buf + of_nat (k + i)) (\<lambda>i. page_byte ps (pos + (k + i))) (unat n)" by (rule chunk_copies(1) [OF ps buf fits])
  qed (use ps off fits transfer_sides(2) [OF ps buf fits, THEN not_sym] buffer_inj [OF buf] in \<open>simp_all add: page_frames_def\<close>)
  then show ?thesis using that unfolding tmpfs_read_loop_def by blast
qed

lemma write_loop_ok:
  assumes ps: "page_frames ps" and buf: "buffer_apart ps buf (unat sz)" and off: "unat (offset :: u64) = pos"
    and fits: "pos + unat sz \<le> 4096 * length ps"
  obtains m' off' where "tmpfs_write_loop ps buf sz m offset = Some (m', off', sz)" "unat off' = pos + unat sz"
    "copied m m' (\<lambda>i. page_byte ps (pos + i)) (\<lambda>i. buf + of_nat i) (unat sz)"
proof -
  have "\<exists>m' off'. tmpfs_chunk_loop (\<lambda>m page buf n. fst (flop_memcpy m page buf n)) ps buf sz m offset 0 = Some (m', off', sz) \<and>
      unat off' = pos + unat sz \<and> copied m m' (\<lambda>i. page_byte ps (pos + i)) (\<lambda>i. buf + of_nat i) (unat sz)"
  proof (rule chunk_loop_ok [where pos = pos])
    fix m :: mem and k and n :: u32
    assume "0 < unat n" "k + unat n \<le> unat sz" "(pos + k) mod 4096 + unat n \<le> 4096"
    then show "copied m (fst (flop_memcpy m (page_byte ps (pos + k)) (buf + of_nat k) n))
        (\<lambda>i. page_byte ps (pos + (k + i))) (\<lambda>i. buf + of_nat (k + i)) (unat n)" by (rule chunk_copies(2) [OF ps buf fits])
  qed (use ps off fits transfer_sides [OF ps buf fits] in \<open>simp_all add: page_frames_def\<close>)
  then show ?thesis using that unfolding tmpfs_write_loop_def by blast
qed

section \<open>Reading and writing a file\<close>

lemma sint_small: "unat (w :: u32) < 2147483648 \<Longrightarrow> sint w = int (unat w)"
proof -
  assume w: "unat w < 2147483648"
  have u: "uint w = int (unat w)" by simp
  have "int (unat w) < 2147483648" "- 2147483648 \<le> int (unat w)" using w by linarith+
  then show "sint w = int (unat w)" unfolding sint_uint u by (intro signed_take_bit_int_eq_self) simp_all
qed

lemma bytes_at_map: "bytes_at m a n = map (\<lambda>i. m (a + of_nat i)) [0..<n]"
  by (simp add: bytes_at_def)

text \<open>A file is found as before when its pages still hold the same bytes.\<close>

lemma file_rep_cong:
  assumes "file_rep s t bs" and "tn_size (tf_node s' t) = tn_size (tf_node s t)"
    and "tn_pages (tf_node s' t) = tn_pages (tf_node s t)" and "tn_page_count (tf_node s' t) = tn_page_count (tf_node s t)"
    and "tf_array s' = tf_array s"
    and "\<And>i. i < length bs \<Longrightarrow> fs_mem s' (page_byte (node_pages s t) i) = fs_mem s (page_byte (node_pages s t) i)"
  shows "file_rep s' t bs"
proof -
  have "node_pages s' t = node_pages s t" using assms by (simp add: node_pages_def)
  then show ?thesis using assms by (simp add: file_rep_def)
qed

lemma read_ok:
  assumes rep: "file_rep s t bs" and t: "vn_data (vf_node s node) = t" and pos: "unat (tn_offset (tf_node s t)) = pos"
    and buf: "buffer_apart (node_pages s t) buf (unat sz)" and small: "unat sz < 2147483648"
    and n: "n = min (unat sz) (length bs - pos)"
  shows "\<exists>s'. tmpfs_op_read s node buf sz = Some (int n, s') \<and> bytes_at (fs_mem s') buf n = take n (drop pos bs) \<and>
    file_rep s' t bs \<and> unat (tn_offset (tf_node s' t)) = pos + n \<and>
    (\<forall>x. x \<notin> block buf n \<longrightarrow> fs_mem s' x = fs_mem s x)"
proof -
  let ?x = "tf_node s t"
  have r: "t \<noteq> 0" "unat (tn_size ?x) = length bs" "page_frames (node_pages s t)"
    "length bs \<le> 4096 * length (node_pages s t)" "\<forall>i<length bs. fs_mem s (page_byte (node_pages s t) i) = bs ! i"
    using rep by (simp_all add: file_rep_def)
  have le: "length bs \<le> 4294967296" using r(3,4) by (simp add: page_frames_def)
  show ?thesis
  proof (cases "pos < length bs")
    case False
    then have "tn_size ?x \<le> tn_offset ?x" using pos r(2) by (simp add: word_le_nat_alt)
    moreover have "n = 0" using False n by simp
    ultimately show ?thesis using t r(1) rep pos by (simp add: tmpfs_op_read_def Let_def bytes_at_def)
  next
    case True
    then have lt: "\<not> tn_offset ?x \<ge> tn_size ?x" using pos r(2) by (simp add: word_le_nat_alt)
    define k where "k = (if tn_offset ?x + ucast sz > tn_size ?x then ucast (tn_size ?x - tn_offset ?x) else sz)"
    have "pos + unat sz < 18446744073709551616" using True le unat_less_2p32 [of sz] by linarith
    then have "unat (tn_offset ?x + ucast sz) = pos + unat sz"
      using pos unat_ucast_u64 [of sz] by (simp add: unat_word_ariths)
    moreover have "unat (tn_size ?x - tn_offset ?x) = length bs - pos"
      using lt pos r(2) by (simp add: unat_sub)
    ultimately have k: "unat k = n"
      unfolding k_def n using r(2) small by (auto simp: word_less_nat_alt unsigned_ucast_eq take_bit_nat_eq_self min_def)
    have "pos + unat k \<le> 4096 * length (node_pages s t)" using k n True r(4) by simp
    moreover have "buffer_apart (node_pages s t) buf (unat k)" using buf by (rule buffer_apart_mono) (simp add: k n)
    ultimately obtain m' off' where
      res: "tmpfs_read_loop (node_pages s t) buf k (fs_mem s) (tn_offset ?x) = Some (m', off', k)" "unat off' = pos + unat k"
      and c: "copied (fs_mem s) m' (\<lambda>i. buf + of_nat i) (\<lambda>i. page_byte (node_pages s t) (pos + i)) (unat k)"
      using read_loop_ok [OF r(3) _ pos] by metis
    let ?s = "upd_tnode t (\<lambda>x. x\<lparr>tn_offset := off'\<rparr>) (set_mem m' s)"
    have "tmpfs_op_read s node buf sz = Some (sint k, ?s)"
      unfolding tmpfs_op_read_def Let_def t using r(1) lt res(1) by (simp add: k_def [symmetric])
    moreover have "sint k = int n" using k small n by (subst sint_small) simp_all
    moreover have mem: "fs_mem ?s = m'" by (simp add: upd_tnode_def set_mem_def)
    moreover have "bytes_at m' buf n = take n (drop pos bs)"
    proof (rule nth_equalityI)
      show "length (bytes_at m' buf n) = length (take n (drop pos bs))" using n by (simp add: bytes_at_def)
    next
      fix i assume "i < length (bytes_at m' buf n)"
      then have i: "i < n" by (simp add: bytes_at_def)
      then have "m' (buf + of_nat i) = fs_mem s (page_byte (node_pages s t) (pos + i))" using c k by (simp add: copied_def)
      moreover have "pos + i < length bs" using i n True by linarith
      ultimately have "m' (buf + of_nat i) = bs ! (pos + i)" using r(5) by simp
      then show "bytes_at m' buf n ! i = take n (drop pos bs) ! i" using i n True by (simp add: bytes_at_def)
    qed
    moreover have out: "\<forall>x. x \<notin> block buf n \<longrightarrow> m' x = fs_mem s x" using c k by (auto simp: copied_def block_def image_def)
    moreover have "file_rep ?s t bs"
    proof (rule file_rep_cong [OF rep])
      fix i assume i: "i < length bs"
      have "page_byte (node_pages s t) i \<noteq> buf + of_nat j" if "j < n" for j
        using buffer_apart_ne [OF buf, of j i] that n i r(4) by auto
      then have "page_byte (node_pages s t) i \<notin> block buf n" by (auto simp: block_def)
      with out show "fs_mem ?s (page_byte (node_pages s t) i) = fs_mem s (page_byte (node_pages s t) i)"
        unfolding mem by blast
    qed (simp_all add: upd_tnode_def set_mem_def)
    moreover have "unat (tn_offset (tf_node ?s t)) = pos + n" using res(2) k by (simp add: upd_tnode_def)
    ultimately show ?thesis by (metis (no_types, lifting))
  qed
qed

text \<open>The abstract write: the bytes from \<open>pos\<close> on are replaced, and the file grows when they reach
  beyond its end.\<close>

definition overwrite :: "'a list \<Rightarrow> nat \<Rightarrow> 'a list \<Rightarrow> 'a list" where
  "overwrite bs pos d = take pos bs @ d @ drop (pos + length d) bs"

lemma length_overwrite: "pos \<le> length bs \<Longrightarrow> length (overwrite bs pos d) = max (length bs) (pos + length d)"
  by (simp add: overwrite_def)

lemma nth_overwrite:
  "pos \<le> length bs \<Longrightarrow> i < length (overwrite bs pos d) \<Longrightarrow>
   overwrite bs pos d ! i = (if pos \<le> i \<and> i < pos + length d then d ! (i - pos) else bs ! i)"
  by (auto simp: overwrite_def nth_append)

lemma nth_bytes_at [simp]: "i < n \<Longrightarrow> bytes_at m a n ! i = m (a + of_nat i)"
  by (simp add: bytes_at_def)

lemma length_bytes_at [simp]: "length (bytes_at m a n) = n"
  by (simp add: bytes_at_def)

text \<open>Writing within the pages the file has.\<close>

lemma write_in_place:
  assumes rep: "file_rep s t bs" and pos: "unat (tn_offset (tf_node s t)) = pos" and le: "pos \<le> length bs"
    and buf: "buffer_apart (node_pages s t) buf (unat sz)"
    and fits: "pos + unat sz \<le> 4096 * length (node_pages s t)"
  obtains m' off' where "tmpfs_write_loop (node_pages s t) buf sz (fs_mem s) (tn_offset (tf_node s t)) = Some (m', off', sz)"
    "unat off' = pos + unat sz"
    "\<And>s'. tn_pages (tf_node s' t) = tn_pages (tf_node s t) \<Longrightarrow> tn_page_count (tf_node s' t) = tn_page_count (tf_node s t) \<Longrightarrow>
      tf_array s' = tf_array s \<Longrightarrow> fs_mem s' = m' \<Longrightarrow>
      tn_size (tf_node s' t) = (if off' > tn_size (tf_node s t) then off' else tn_size (tf_node s t)) \<Longrightarrow>
      file_rep s' t (overwrite bs pos (bytes_at (fs_mem s) buf (unat sz)))"
    "\<And>x. x \<notin> page_byte (node_pages s t) ` {pos..<pos + unat sz} \<Longrightarrow> m' x = fs_mem s x"
proof -
  let ?x = "tf_node s t" and ?ps = "node_pages s t" and ?d = "bytes_at (fs_mem s) buf (unat sz)"
  have r: "t \<noteq> 0" "unat (tn_size ?x) = length bs" "page_frames ?ps" "unat (tn_page_count ?x) = length ?ps"
    "length bs \<le> 4096 * length ?ps" "\<forall>i<length bs. fs_mem s (page_byte ?ps i) = bs ! i"
    using rep by (simp_all add: file_rep_def)
  from write_loop_ok [OF r(3) buf pos fits] obtain m' off' where
    res: "tmpfs_write_loop ?ps buf sz (fs_mem s) (tn_offset ?x) = Some (m', off', sz)" "unat off' = pos + unat sz"
    and c: "copied (fs_mem s) m' (\<lambda>i. page_byte ?ps (pos + i)) (\<lambda>i. buf + of_nat i) (unat sz)" by blast
  have im: "(\<lambda>i. page_byte ?ps (pos + i)) ` {..<unat sz} = page_byte ?ps ` {pos..<pos + unat sz}"
  proof -
    have "{pos..<pos + unat sz} = (\<lambda>i. pos + i) ` {..<unat sz}"
      by (simp add: lessThan_atLeast0 image_add_atLeastLessThan add.commute)
    then show ?thesis by (simp add: image_image)
  qed
  have out: "m' x = fs_mem s x" if "x \<notin> page_byte ?ps ` {pos..<pos + unat sz}" for x
    using c that by (simp add: copied_def im)
  have byte: "m' (page_byte ?ps i) = overwrite bs pos ?d ! i" if i: "i < length (overwrite bs pos ?d)" for i
  proof (cases "pos \<le> i \<and> i < pos + unat sz")
    case True
    then obtain j where j: "i = pos + j" "j < unat sz" by (metis le_Suc_ex nat_add_left_cancel_less)
    then have "m' (page_byte ?ps i) = fs_mem s (buf + of_nat j)" using c by (simp add: copied_def)
    then show ?thesis using j i le by (simp add: nth_overwrite)
  next
    case False
    have lt: "i < length bs" using i False le by (auto simp: length_overwrite)
    have "page_byte ?ps i \<notin> page_byte ?ps ` {pos..<pos + unat sz}"
    proof
      assume "page_byte ?ps i \<in> page_byte ?ps ` {pos..<pos + unat sz}"
      then obtain j where j: "page_byte ?ps i = page_byte ?ps j" "pos \<le> j" "j < pos + unat sz" by auto
      have "i = j" by (rule page_byte_inj [OF r(3) _ _ j(1)]) (use lt r(5) j fits in linarith)+
      then show False using False j by simp
    qed
    then have "m' (page_byte ?ps i) = bs ! i" using out r(6) lt by simp
    then show ?thesis using False i le by (auto simp: nth_overwrite)
  qed
  have "file_rep s' t (overwrite bs pos ?d)"
    if same: "tn_pages (tf_node s' t) = tn_pages ?x" "tn_page_count (tf_node s' t) = tn_page_count ?x" "tf_array s' = tf_array s"
      "fs_mem s' = m'" and size: "tn_size (tf_node s' t) = (if off' > tn_size ?x then off' else tn_size ?x)" for s'
  proof -
    have "node_pages s' t = ?ps" using same by (simp add: node_pages_def)
    moreover have "unat (tn_size (tf_node s' t)) = length (overwrite bs pos ?d)"
      unfolding size using r(2) res(2) le by (auto simp: length_overwrite word_less_nat_alt)
    moreover have "length (overwrite bs pos ?d) \<le> 4096 * length ?ps" using r(5) fits le by (simp add: length_overwrite)
    ultimately show ?thesis unfolding file_rep_def using r(1,3,4) same byte by simp
  qed
  with res out show ?thesis using that by blast
qed

lemma pages_for_le:
  assumes "k \<le> 4096 * n" and "unat w = k mod 4294967296"
  shows "unat (pages_for w) \<le> n"
proof (cases "unat w + 4095 < 4294967296")
  case True
  have "unat w \<le> k" using assms(2) by simp
  have "unat (w + 4096 - 1) = unat w + 4095"
  proof -
    have "w + 4096 - 1 = w + 4095" by simp
    then show ?thesis using True by (simp only:) (subst unat_plus_u32, simp_all)
  qed
  then have "unat (pages_for w) = (unat w + 4095) div 4096" by (simp add: pages_for_def unat_div)
  also have "\<dots> \<le> n" using \<open>unat w \<le> k\<close> assms(1) by (simp add: less_mult_imp_div_less less_Suc_eq_le [symmetric])
  finally show ?thesis .
next
  case False
  then have ge: "4294967296 \<le> unat w + 4095" by linarith
  have e: "w + 4096 - 1 = w + 4095" by simp
  have "unat (w + 4095) = (unat w + 4095) mod 4294967296" by (simp add: unat_word_ariths)
  also have "\<dots> = (unat w + 4095 - 4294967296) mod 4294967296" using ge by (rule le_mod_geq)
  also have "\<dots> \<le> unat w + 4095 - 4294967296" by (rule mod_less_eq_dividend)
  also have "\<dots> < 4096" using unat_less_2p32 [of w] by linarith
  finally have "unat (w + 4096 - 1) < 4096" unfolding e .
  then have "unat (pages_for w) = 0" by (simp add: pages_for_def unat_div)
  then show ?thesis by simp
qed

section \<open>More pages for a file\<close>

definition in_pages :: "u32 set \<Rightarrow> u32 \<Rightarrow> bool" where
  "in_pages U x \<longleftrightarrow> (\<exists>p\<in>U. 4096 dvd unat p \<and> x \<in> block p 4096)"

lemma block_page_start:
  assumes "4096 dvd unat p" and "x \<in> block p 4096"
  shows "unat p = unat x div 4096 * 4096"
proof -
  from assms(1) obtain q where q: "unat p = 4096 * q" by blast
  from assms(2) obtain i where i: "i < 4096" "x = p + of_nat i" by (auto simp: block_def)
  have "q < 1048576" using unat_less_2p32 [of p] q by simp
  then have "unat x = 4096 * q + i" using i q by (simp, subst unat_plus_u32) (simp_all add: unat_of_nat_u32)
  then show ?thesis using i q by simp
qed

lemma block_pages_apart:
  "4096 dvd unat p \<Longrightarrow> 4096 dvd unat q \<Longrightarrow> p \<noteq> q \<Longrightarrow> x \<in> block p 4096 \<Longrightarrow> x \<notin> block q 4096"
  using block_page_start [of p x] block_page_start [of q x] by (auto simp: word_unat_eq_iff)

lemma page_byte_block: "i < 4096 * length ps \<Longrightarrow> page_byte ps i \<in> block (ps ! (i div 4096)) 4096"
  unfolding page_byte_def block_def by (auto intro!: exI [of _ "i mod 4096"])

lemma page_byte_in_pages:
  "page_frames ps \<Longrightarrow> set ps \<subseteq> U \<Longrightarrow> i < 4096 * length ps \<Longrightarrow> in_pages U (page_byte ps i)"
  unfolding in_pages_def page_frames_def
  by (rule bexI [of _ "ps ! (i div 4096)"])
    (auto simp: page_byte_block less_mult_imp_div_less mult.commute intro!: nth_mem)

lemma aligned_dvd:
  assumes "a mod PAGE_SIZE = 0"
  shows "4096 dvd unat a"
proof -
  have "unat a mod unat PAGE_SIZE = unat (a mod PAGE_SIZE)" by (rule unat_mod [symmetric])
  also have "\<dots> = 0" unfolding assms by simp
  finally show ?thesis by (simp add: dvd_eq_mod_eq_0)
qed

lemma grow_ok:
  "pmm_owns R (hp_pmm h) U \<Longrightarrow> \<exists>ps h'. tmpfs_grow n h = Some (ps, h') \<and> length ps = n \<and>
     (0 \<notin> set ps \<longrightarrow> distinct ps \<and> set ps \<inter> U = {} \<and> (\<forall>p\<in>set ps. 4096 dvd unat p) \<and>
       (\<forall>x. (\<forall>p\<in>set ps. x \<notin> block p 4096) \<longrightarrow> hp_mem h' x = hp_mem h x))"
proof (induction n arbitrary: h U)
  case (Suc n)
  let ?h = "\<lambda>b a. h\<lparr>hp_pmm := b, hp_mem := fst (flop_memset (hp_mem h) a 0 PAGE_SIZE)\<rparr>"
  from Suc.prems show ?case
  proof (cases rule: pmm.get_cases)
    case (none b)
    then have "pmm_owns R (hp_pmm (?h b 0)) U" by simp
    from Suc.IH [OF this] obtain ps h' where "tmpfs_grow n (?h b 0) = Some (ps, h')" "length ps = n" by blast
    then show ?thesis using none(1) by (simp add: pmm_alloc_page_def [symmetric])
  next
    case (page a b)
    then have "pmm_owns R (hp_pmm (?h b a)) (insert a U)" by simp
    from Suc.IH [OF this] obtain ps h' where g: "tmpfs_grow n (?h b a) = Some (ps, h')" "length ps = n" and
      r: "0 \<notin> set ps \<longrightarrow> distinct ps \<and> set ps \<inter> insert a U = {} \<and> (\<forall>p\<in>set ps. 4096 dvd unat p) \<and>
       (\<forall>x. (\<forall>p\<in>set ps. x \<notin> block p 4096) \<longrightarrow> hp_mem h' x = hp_mem (?h b a) x)" by blast
    have "4096 dvd unat a" using page(3) by (rule aligned_dvd)
    moreover have "hp_mem (?h b a) x = hp_mem h x" if "x \<notin> block a 4096" for x
      using that by (simp add: flop_memset_def rep_stosb_fst)
    ultimately show ?thesis using page g r by (auto simp: pmm_alloc_page_def [symmetric])
  qed
qed simp

text \<open>
  The heap calls of an enlargement succeed and leave the pages of \<open>U\<close> alone, and the page allocator has
  the pages.
\<close>

definition room_for :: "nat set \<Rightarrow> u32 set \<Rightarrow> 'a tmpfs_scheme \<Rightarrow> u32 \<Rightarrow> u32 \<Rightarrow> bool" where
  "room_for R U s t needed \<longleftrightarrow>
     (\<exists>np h1 h2 fresh h3. kmalloc (vf_heap s) (needed * 4) = Some (np, h1) \<and> np \<noteq> 0 \<and>
        (if tn_pages (tf_node s t) = 0 then h2 = h1
         else kfree h1 (tn_pages (tf_node s t)) (tn_page_count (tf_node s t) * 4) = Some h2) \<and>
        (\<forall>x. in_pages U x \<longrightarrow> hp_mem h2 x = fs_mem s x) \<and> pmm_owns R (hp_pmm h2) U \<and>
        tmpfs_grow (unat needed - unat (tn_page_count (tf_node s t))) h2 = Some (fresh, h3) \<and> 0 \<notin> set fresh)"

lemma enlarge_ok:
  assumes rep: "file_rep s t bs" and room: "room_for R U s t needed" and ps: "set (node_pages s t) \<subseteq> U"
    and more: "unat (tn_page_count (tf_node s t)) \<le> unat needed" and small: "unat needed \<le> 1048576"
  obtains s' where "tmpfs_enlarge s t needed = Some s'" "file_rep s' t bs" "length (node_pages s' t) = unat needed"
    "tn_offset (tf_node s' t) = tn_offset (tf_node s t)" "tn_size (tf_node s' t) = tn_size (tf_node s t)"
    "vf_node s' = vf_node s" "0 \<notin> set (node_pages s' t)"
    "\<And>x. in_pages U x \<Longrightarrow> fs_mem s' x = fs_mem s x"
    "\<And>x. in_pages U x \<Longrightarrow> x \<notin> page_byte (node_pages s t) ` {..<4096 * length (node_pages s t)} \<Longrightarrow>
      x \<notin> page_byte (node_pages s' t) ` {..<4096 * length (node_pages s' t)}"
proof -
  let ?x = "tf_node s t" and ?ps = "node_pages s t"
  have r: "page_frames ?ps" "unat (tn_page_count ?x) = length ?ps" "length bs \<le> 4096 * length ?ps"
    "\<forall>i<length bs. fs_mem s (page_byte ?ps i) = bs ! i" "t \<noteq> 0" "unat (tn_size ?x) = length bs"
    using rep by (simp_all add: file_rep_def)
  from room obtain np h1 h2 fresh h3 where k: "kmalloc (vf_heap s) (needed * 4) = Some (np, h1)" "np \<noteq> 0"
    and f: "if tn_pages ?x = 0 then h2 = h1 else kfree h1 (tn_pages ?x) (tn_page_count ?x * 4) = Some h2"
    and fr: "\<forall>x. in_pages U x \<longrightarrow> hp_mem h2 x = fs_mem s x" and own: "pmm_owns R (hp_pmm h2) U"
    and g: "tmpfs_grow (unat needed - unat (tn_page_count ?x)) h2 = Some (fresh, h3)" "0 \<notin> set fresh"
    unfolding room_for_def by blast
  from grow_ok [OF own, of "unat needed - unat (tn_page_count ?x)"] g have
    new: "length fresh = unat needed - unat (tn_page_count ?x)" "distinct fresh" "set fresh \<inter> U = {}"
      "\<forall>p\<in>set fresh. 4096 dvd unat p" "\<And>x. \<forall>p\<in>set fresh. x \<notin> block p 4096 \<Longrightarrow> hp_mem h3 x = hp_mem h2 x" by auto
  define s' where "s' = upd_tnode t (\<lambda>x. x\<lparr>tn_pages := np, tn_page_count := needed\<rparr>)
     (s\<lparr>vf_heap := h3, tf_array := (tf_array s)(np := ?ps @ fresh)\<rparr>)"
  have s': "node_pages s' t = ?ps @ fresh" "fs_mem s' = hp_mem h3" "vf_node s' = vf_node s"
    "tn_offset (tf_node s' t) = tn_offset ?x" "tn_size (tf_node s' t) = tn_size ?x" "tn_page_count (tf_node s' t) = needed"
    using k(2) by (simp_all add: s'_def upd_tnode_def node_pages_def)
  have "tmpfs_enlarge s t needed = Some s'"
  proof (cases "tn_pages ?x = 0")
    case True
    then have "?ps = []" by (simp add: node_pages_def)
    with r(2) have "tn_page_count ?x = 0" by (simp add: unat_eq_0)
    with True f g k \<open>?ps = []\<close> show ?thesis
      by (simp add: tmpfs_enlarge_def fs_kmalloc_def Let_def s'_def upd_tnode_def)
  next
    case False
    then have "?ps = tf_array s (tn_pages ?x)" by (simp add: node_pages_def)
    with False f g k r(2) show ?thesis
      by (simp add: tmpfs_enlarge_def fs_kmalloc_def fs_kfree_def Let_def s'_def upd_tnode_def)
  qed
  moreover have frames: "page_frames (?ps @ fresh)"
    using r(1) new(1,2,3,4) ps more small g(2) r(2) unfolding page_frames_def by auto
  moreover have keep: "hp_mem h3 x = fs_mem s x" if "in_pages U x" for x
  proof -
    have "x \<notin> block p 4096" if "p \<in> set fresh" for p
      using \<open>in_pages U x\<close> that new(3,4) block_pages_apart unfolding in_pages_def by (metis disjoint_iff)
    then show ?thesis using new(5) fr that by simp
  qed
  moreover have "file_rep s' t bs" unfolding file_rep_def s'
  proof (intro conjI allI impI)
    fix i assume i: "i < length bs"
    have "page_byte (?ps @ fresh) i = page_byte ?ps i"
      unfolding page_byte_def using i r(3) by (simp add: nth_append less_mult_imp_div_less mult.commute)
    moreover have "in_pages U (page_byte ?ps i)" using page_byte_in_pages [OF r(1) ps] i r(3) by simp
    ultimately show "hp_mem h3 (page_byte (?ps @ fresh) i) = bs ! i" using keep r(4) i by simp
  qed (use r frames new(1) more in simp_all)
  moreover have "x \<notin> page_byte (?ps @ fresh) ` {..<4096 * length (?ps @ fresh)}"
    if x: "in_pages U x" "x \<notin> page_byte ?ps ` {..<4096 * length ?ps}" for x
  proof
    assume "x \<in> page_byte (?ps @ fresh) ` {..<4096 * length (?ps @ fresh)}"
    then obtain i where i: "i < 4096 * length (?ps @ fresh)" "x = page_byte (?ps @ fresh) i" by auto
    show False
    proof (cases "i < 4096 * length ?ps")
      case True
      then have "page_byte (?ps @ fresh) i = page_byte ?ps i"
        unfolding page_byte_def by (simp add: nth_append less_mult_imp_div_less mult.commute)
      then show ?thesis using True x(2) i by auto
    next
      case False
      then have "length ?ps \<le> i div 4096" by (simp add: le_div_geq div_le_mono [of "4096 * length ?ps" i 4096, simplified])
      moreover have "i div 4096 < length (?ps @ fresh)" using i(1) by (simp add: less_mult_imp_div_less mult.commute)
      ultimately have p: "(?ps @ fresh) ! (i div 4096) \<in> set fresh" by (auto simp: nth_append)
      have "x \<in> block ((?ps @ fresh) ! (i div 4096)) 4096" unfolding i(2) by (rule page_byte_block) (rule i(1))
      with p x(1) new(3,4) block_pages_apart show ?thesis unfolding in_pages_def by (metis disjoint_iff)
    qed
  qed
  moreover have "0 \<notin> set (node_pages s' t)" using frames unfolding s' by (auto simp: page_frames_def)
  ultimately show ?thesis using that [of s'] s' new(1) more r(2) by simp
qed

lemma unat_pages_for:
  assumes "n \<le> 4294963200"
  shows "unat (pages_for (of_nat n)) = (n + 4095) div 4096"
proof -
  have u: "unat (of_nat n :: u32) = n" by (rule unat_of_nat_u32) (use assms in simp)
  have e: "(of_nat n :: u32) + 4096 - 1 = of_nat n + 4095" by simp
  have "unat (of_nat n + 4096 - 1 :: u32) = n + 4095"
    unfolding e by (subst unat_plus_u32) (use u assms in simp_all)
  then show ?thesis by (simp add: pages_for_def unat_div)
qed

text \<open>A buffer for a transfer: inside the pages \<open>U\<close>, and apart from the pages of the file.\<close>

definition user_buffer :: "u32 set \<Rightarrow> 'a tmpfs_scheme \<Rightarrow> u32 \<Rightarrow> u32 \<Rightarrow> nat \<Rightarrow> bool" where
  "user_buffer U s t buf n \<longleftrightarrow> buffer_apart (node_pages s t) buf n \<and> (\<forall>i<n. in_pages U (buf + of_nat i))"

lemma user_buffer_bytes:
  assumes "user_buffer U s t buf n" and "\<And>x. in_pages U x \<Longrightarrow> fs_mem s' x = fs_mem s x"
  shows "bytes_at (fs_mem s') buf n = bytes_at (fs_mem s) buf n"
  using assms by (simp add: user_buffer_def bytes_at_def)

lemma user_buffer_apart:
  assumes "user_buffer U s t buf n"
    and "\<And>x. in_pages U x \<Longrightarrow> x \<notin> page_byte (node_pages s t) ` {..<4096 * length (node_pages s t)} \<Longrightarrow>
      x \<notin> page_byte ps ` {..<4096 * length ps}"
  shows "buffer_apart ps buf n"
proof -
  have "buf + of_nat i \<noteq> page_byte ps j" if "i < n" "j < 4096 * length ps" for i j
  proof -
    have "buf + of_nat i \<notin> page_byte (node_pages s t) ` {..<4096 * length (node_pages s t)}"
      using assms(1) that(1) unfolding user_buffer_def buffer_apart_def by blast
    with assms that(1) have "buf + of_nat i \<notin> page_byte ps ` {..<4096 * length ps}" by (simp add: user_buffer_def)
    then show ?thesis using that(2) by blast
  qed
  then show ?thesis using assms(1) by (simp add: user_buffer_def buffer_apart_def)
qed

lemma write_ok:
  fixes s :: "'a tmpfs_scheme"
  assumes rep: "file_rep s t bs" and t: "vn_data (vf_node s node) = t" and pos: "unat (tn_offset (tf_node s t)) = pos"
    and le: "pos \<le> length bs" and ps: "set (node_pages s t) \<subseteq> U" and buf: "user_buffer U s t buf (unat sz)"
    and small: "unat sz < 2147483648" and top: "pos + unat sz \<le> 4294963200"
    and room: "unat (tn_page_count (tf_node s t)) < (pos + unat sz + 4095) div 4096 \<Longrightarrow> room_for R U s t (pages_for (of_nat (pos + unat sz)))"
  obtains s' where "tmpfs_op_write s node buf sz = Some (int (unat sz), s')"
    "file_rep s' t (overwrite bs pos (bytes_at (fs_mem s) buf (unat sz)))"
    "unat (tn_offset (tf_node s' t)) = pos + unat sz" "vn_data (vf_node s' node) = t"
    "st_size (vn_stat (vf_node s' node)) = tn_size (tf_node s' t)"
    "\<And>b k. user_buffer U s t b k \<Longrightarrow> buffer_apart (node_pages s' t) b k"
proof -
  let ?x = "tf_node s t" and ?k = "pos + unat sz" and ?d = "bytes_at (fs_mem s) buf (unat sz)"
  define needed where "needed = pages_for (of_nat ?k)"
  have n: "unat needed = (?k + 4095) div 4096" unfolding needed_def by (rule unat_pages_for) (rule top)
  have "unat (tn_offset ?x + ucast sz) = ?k"
    using pos top unat_ucast_u64 [of sz] by (simp add: unat_word_ariths)
  then have "unat (ucast (tn_offset ?x + ucast sz) :: u32) = ?k"
    using top by (simp add: unsigned_ucast_eq take_bit_nat_eq_self)
  moreover have "unat (of_nat ?k :: u32) = ?k" by (rule unat_of_nat_u32) (use top in linarith)
  ultimately have "ucast (tn_offset ?x + ucast sz) = (of_nat ?k :: u32)" by (simp only: word_unat_eq_iff)
  then have ne: "pages_for (ucast (tn_offset ?x + ucast sz)) = needed" by (simp only: needed_def)
  have cap: "?k \<le> 4096 * unat needed"
    using n mult_div_mod_eq [of 4096 "?k + 4095"] mod_less_divisor [of 4096 "?k + 4095"] by linarith
  have n20: "unat needed \<le> 1048576" using n top by simp
  obtain s1 where s1: "(if needed > tn_page_count ?x then tmpfs_enlarge s t needed else Some s) = Some s1"
    and rep1: "file_rep s1 t bs" and fits: "?k \<le> 4096 * length (node_pages s1 t)"
    and same: "tn_offset (tf_node s1 t) = tn_offset ?x" "tn_size (tf_node s1 t) = tn_size ?x" "vf_node s1 = vf_node s"
    and mem1: "\<And>x. in_pages U x \<Longrightarrow> fs_mem s1 x = fs_mem s x"
    and apart: "\<And>x. in_pages U x \<Longrightarrow> x \<notin> page_byte (node_pages s t) ` {..<4096 * length (node_pages s t)} \<Longrightarrow>
      x \<notin> page_byte (node_pages s1 t) ` {..<4096 * length (node_pages s1 t)}"
  proof (cases "needed > tn_page_count ?x")
    case True
    then have lt: "unat (tn_page_count ?x) < unat needed" by (simp add: word_less_nat_alt)
    then have "room_for R U s t needed" using room n unfolding needed_def by simp
    from enlarge_ok [OF rep this ps less_imp_le [OF lt] n20] that True cap show ?thesis by metis
  next
    case False
    then have "unat needed \<le> length (node_pages s t)" using rep by (simp add: file_rep_def word_less_nat_alt)
    with cap have "?k \<le> 4096 * length (node_pages s t)" by linarith
    with False rep that [of s] show ?thesis by simp
  qed
  have ap: "buffer_apart (node_pages s1 t) b k" if "user_buffer U s t b k" for b k
    by (rule user_buffer_apart [OF that apart])
  have data: "bytes_at (fs_mem s1) buf (unat sz) = ?d" using buf mem1 by (rule user_buffer_bytes)
  have pos1: "unat (tn_offset (tf_node s1 t)) = pos" using same pos by simp
  from write_in_place [OF rep1 pos1 le ap [OF buf] fits] obtain m' off' where
    w: "tmpfs_write_loop (node_pages s1 t) buf sz (fs_mem s1) (tn_offset (tf_node s1 t)) = Some (m', off', sz)"
      "unat off' = ?k"
    and fr: "\<And>s' :: 'a tmpfs_scheme. tn_pages (tf_node s' t) = tn_pages (tf_node s1 t) \<Longrightarrow> tn_page_count (tf_node s' t) = tn_page_count (tf_node s1 t) \<Longrightarrow>
      tf_array s' = tf_array s1 \<Longrightarrow> fs_mem s' = m' \<Longrightarrow>
      tn_size (tf_node s' t) = (if off' > tn_size (tf_node s1 t) then off' else tn_size (tf_node s1 t)) \<Longrightarrow>
      file_rep s' t (overwrite bs pos ?d)" unfolding data by metis
  define s2 where "s2 = upd_tnode t (\<lambda>x. x\<lparr>tn_offset := off', tn_size := (if off' > tn_size x then off' else tn_size x)\<rparr>) (set_mem m' s1)"
  define s3 where "s3 = upd_node node (\<lambda>x. x\<lparr>vn_stat := (vn_stat x)\<lparr>st_size := tn_size (tf_node s2 t)\<rparr>\<rparr>) s2"
  have tn0: "t \<noteq> 0" using rep by (simp add: file_rep_def)
  have res: "tmpfs_op_write s node buf sz = Some (sint sz, s3)"
    unfolding tmpfs_op_write_def Let_def t ne s1 s2_def s3_def using tn0 w(1) same(1) by (simp add: t)
  have f3: "tf_node s3 t = (tf_node s1 t)\<lparr>tn_offset := off', tn_size := (if off' > tn_size (tf_node s1 t) then off' else tn_size (tf_node s1 t))\<rparr>"
    "tf_array s3 = tf_array s1" "fs_mem s3 = m'" "vn_data (vf_node s3 node) = t"
    "st_size (vn_stat (vf_node s3 node)) = tn_size (tf_node s3 t)"
    using t same(3) by (simp_all add: s3_def s2_def upd_node_def upd_tnode_def set_mem_def)
  have "file_rep s3 t (overwrite bs pos ?d)" using fr [of s3] by (simp add: f3)
  moreover have "node_pages s3 t = node_pages s1 t" by (simp add: node_pages_def f3)
  ultimately show ?thesis using that [of s3] res sint_small [OF small] w(2) f3 ap by simp
qed

end
