(* ===== verification/TmpfsProps.thy ===== *)
theory TmpfsProps
  imports TmpfsData VmmProps
begin

text \<open>
  What the file system in memory does: the bytes of files, and the tree of names.
\<close>

section \<open>A concrete file system\<close>

text \<open>
  Page 0 of the memory at 1 MiB is the heap's, page 1 is free, and pages 2 and 3 belong to programs. The
  file at \<open>0x8000\<close> is empty and open as the node \<open>0x9000\<close>; the buffer at \<open>0x102000\<close> holds three bytes.
\<close>

definition demo5_pmm :: buddy_allocator where
  "demo5_pmm = demo4_pmm\<lparr>free_list := (\<lambda>p. if p = 0 then Some 1 else None),
     page_info := (\<lambda>i. \<lparr>pg_address = 0x100000 + of_nat i * 0x1000, pg_order = 0, pg_is_free = (i = 1), pg_next = None\<rparr>)\<rparr>"

definition demo_mem :: mem where
  "demo_mem = (\<lambda>_. 0)(0x102000 := 104, 0x102001 := 105, 0x102002 := 33)"

definition no_mp :: vfs_mountpoint where
  "no_mp = \<lparr>mp_filesystem = 0, mp_next = 0, mp_mount_point = 0, mp_device_name = 0, mp_data_pointer = 0, mp_refcount = 0\<rparr>"

definition no_stat :: stat_t where
  "no_stat = \<lparr>st_mode = 0, st_uid = 0, st_gid = 0, st_size = 0, st_atime = 0, st_mtime = 0, st_ctime = 0, st_nlink = 0,
     st_ino = 0, st_dev = 0\<rparr>"

definition no_tnode :: tmpfs_node where
  "no_tnode = \<lparr>tn_name = [], tn_type = VFS_FILE, tn_mode = 0, tn_uid = 0, tn_gid = 0, tn_size = 0, tn_offset = 0,
     tn_nlink = 0, tn_ino = 0, tn_pages = 0, tn_page_count = 0, tn_parent = 0, tn_children = 0, tn_sibling = 0\<rparr>"

definition demo_fs :: tmpfs where
  "demo_fs = \<lparr>vf_heap = demo_heap\<lparr>hp_mem := demo_mem, hp_pmm := demo5_pmm\<rparr>,
     vf_fs = (\<lambda>_. \<lparr>fs_type = VFS_FS_TMPFS, fs_previous = 0\<rparr>), vf_fs_list = 0, vf_mp = (\<lambda>_. no_mp),
     vf_mp_head = 0, vf_mp_tail = 0, vf_mp_lock = 0,
     vf_node = (\<lambda>_. \<lparr>vn_mountpoint = 0, vn_data = 0x8000, vn_mode = VFS_MODE_RW, vn_refcount = 1, vn_stat = no_stat,
       vn_ops = 0, vn_name = 0\<rparr>), vf_str = (\<lambda>_. []), vf_list = (\<lambda>_. \<lparr>dl_head = 0, dl_tail = 0\<rparr>),
     vf_entry = (\<lambda>_. \<lparr>de_name = [], de_type = VFS_FILE, de_next = 0\<rparr>), vf_stale = (\<lambda>x. x),
     tf_node = (\<lambda>_. no_tnode), tf_array = (\<lambda>_. [])\<rparr>"

lemma demo5_owns: "pmm_owns {0} demo5_pmm {0x102000, 0x103000}"
proof -
  have bf: "base_frame demo5_pmm = 256" by (simp add: base_frame_def demo5_pmm_def demo4_pmm_def demo_pmm_def)
  have pa: "page_addr demo5_pmm i = 0x100000 + of_nat i * 0x1000" for i
    by (simp add: page_addr_def frame_addr_def bf algebra_simps)
  have g: "geometry demo5_pmm" by (simp add: geometry_def demo5_pmm_def demo4_pmm_def demo_pmm_def)
  have "pmm_wf demo5_pmm {0, 2, 3} (\<lambda>p. if p = 0 then [1] else [])"
    using g unfolding pmm_wf_def lists_ok_def used_ok_def flag_ok_def flagged_def pa
    by (auto simp: demo5_pmm_def demo4_pmm_def demo_pmm_def Let_def fits_def blk_def)
  moreover have "buddy_lock demo5_pmm = 0" by (simp add: demo5_pmm_def demo4_pmm_def demo_pmm_def)
  ultimately have "pmm_inv demo5_pmm {0, 2, 3}" by (auto simp: pmm_inv_def)
  moreover have "no_huge_hole demo5_pmm {0}" by (rule no_huge_hole_small) (simp add: demo5_pmm_def demo4_pmm_def)
  ultimately show ?thesis unfolding pmm_owns_def by (intro exI [of _ "{0, 2, 3}"]) (simp add: pa)
qed

lemma demo_page: "\<exists>b. pmm_alloc_page demo5_pmm = Some (Some 0x101000, b)"
  unfolding pmm_alloc_page_def pmm_alloc_pages_def
  by (simp add: demo5_pmm_def demo4_pmm_def demo_pmm_def pmm_alloc_block_def pmm_fetch_order_block.simps pmm_determine_split.simps set_free_list_def upd_page_def)

lemma demo_enlarge_kmalloc:
  "\<exists>h. kmalloc (vf_heap demo_fs) 4 = Some (0x100030, h) \<and> hp_pmm h = demo5_pmm \<and>
     (\<forall>x. x \<notin> block 0x100000 4096 \<longrightarrow> hp_mem h x = demo_mem x)"
proof -
  let ?m = "store32 (store32 (heap_map_set demo_mem 0x10001C 0 1 True) 0x10002C 0x100000) 0x100030 4"
  obtain h where h: "kmalloc (vf_heap demo_fs) 4 = Some (0x100030, h)" "hp_pmm h = demo5_pmm" "hp_mem h = ?m"
  proof -
    have "\<exists>h. kmalloc (vf_heap demo_fs) 4 = Some (0x100030, h) \<and> hp_pmm h = demo5_pmm \<and> hp_mem h = ?m"
    unfolding kmalloc_def heap_box_iterate_def
    apply (subst heap_box_iterate_loop.simps)
    apply (simp add: demo_fs_def demo_heap_def box_ptr_def heap_box_alloc_def heap_map_find_free_def BLOCKS_PER_BOX_def
        Let_def blocks_needed_def upd_box_def)
    apply (simp add: heap_map_find_loop.simps map_bit_def demo_mem_def upd_box_def)
    done
    then show ?thesis using that by blast
  qed
  have "?m x = demo_mem x" if x: "x \<notin> block 0x100000 4096" for x
  proof -
    have "x \<noteq> 0x100000 + of_nat i" if "i < 4096" for i using x that by (auto simp: block_def)
    from this [of 28] this [of 44] this [of 45] this [of 46] this [of 47] this [of 48] this [of 49] this [of 50] this [of 51]
    have ne: "x \<noteq> 0x10001C" "x \<noteq> 0x10002C" "x \<noteq> 0x10002C + 1" "x \<noteq> 0x10002C + 2" "x \<noteq> 0x10002C + 3"
      "x \<noteq> 0x100030" "x \<noteq> 0x100030 + 1" "x \<noteq> 0x100030 + 2" "x \<noteq> 0x100030 + 3" by simp_all
    have "?m x = heap_map_set demo_mem 0x10001C 0 1 True x"
      by (simp only: store32_other [OF ne(6) ne(7) ne(8) ne(9)] store32_other [OF ne(2) ne(3) ne(4) ne(5)])
    also have "\<dots> = demo_mem x" using ne(1) by (simp add: Let_def)
    finally show ?thesis .
  qed
  then show ?thesis using h(1,2) by (intro exI [of _ h]) (simp only: h(3), blast)
qed

section \<open>Bytes of files\<close>

text \<open>Writing to a file in memory. The position lies inside the file or at its end, and the heap and
  the page allocator have what is needed for the pages the file lacks. Then \<open>tmpfs_op_write\<close> writes
  all bytes: the file holds what it held, with the bytes from the position on replaced by those of the
  buffer, extended where they reach beyond its end; the position moves behind them; and the size that
  the open node reports is the new one.\<close>

theorem tmpfs_write_correct:
  assumes "file_rep s t bs" and "vn_data (vf_node s node) = t" and "unat (tn_offset (tf_node s t)) = pos"
    and "pos \<le> length bs" and "set (node_pages s t) \<subseteq> U" and "user_buffer U s t buf (unat sz)"
    and "unat sz < 2147483648" and "pos + unat sz \<le> 4294963200"
    and "unat (tn_page_count (tf_node s t)) < (pos + unat sz + 4095) div 4096 \<Longrightarrow> room_for R U s t (pages_for (of_nat (pos + unat sz)))"
  shows "\<exists>s'. tmpfs_op_write s node buf sz = Some (int (unat sz), s') \<and>
    file_rep s' t (overwrite bs pos (bytes_at (fs_mem s) buf (unat sz))) \<and>
    unat (tn_offset (tf_node s' t)) = pos + unat sz \<and>
    st_size (vn_stat (vf_node s' node)) = tn_size (tf_node s' t)"
  using assms by (rule write_ok) blast+

lemma demo_file: "file_rep demo_fs 0x8000 []"
  by (simp add: file_rep_def demo_fs_def no_tnode_def node_pages_def page_frames_def)

lemma demo_buffer: "user_buffer {0x102000, 0x103000} demo_fs 0x8000 0x102000 3"
proof -
  have "in_pages {0x102000, 0x103000} (0x102000 + of_nat i)" if "i < 3" for i
    unfolding in_pages_def block_def using that by (intro bexI [of _ "0x102000"]) auto
  then show ?thesis
    by (simp add: user_buffer_def buffer_apart_def node_pages_def demo_fs_def no_tnode_def)
qed

lemma demo_room: "room_for {0} {0x102000, 0x103000} demo_fs 0x8000 1"
proof -
  obtain h where h: "kmalloc (vf_heap demo_fs) 4 = Some (0x100030, h)" "hp_pmm h = demo5_pmm"
    "\<And>x. x \<notin> block 0x100000 4096 \<Longrightarrow> hp_mem h x = demo_mem x" using demo_enlarge_kmalloc by blast
  obtain b where b: "pmm_alloc_page demo5_pmm = Some (Some 0x101000, b)" using demo_page by blast
  have "hp_mem h x = fs_mem demo_fs x" if "in_pages {0x102000, 0x103000} x" for x
  proof -
    have "x \<notin> block 0x100000 4096"
      using that block_pages_apart [of "0x102000" "0x100000" x] block_pages_apart [of "0x103000" "0x100000" x]
      by (auto simp: in_pages_def)
    then show ?thesis using h(3) by (simp add: demo_fs_def)
  qed
  moreover have "\<exists>h3. tmpfs_grow (Suc 0) h = Some ([0x101000], h3)"
    using b h(2) by (simp add: pmm_alloc_page_def)
  ultimately show ?thesis
    unfolding room_for_def using h(1,2) demo5_owns
    by (auto simp: demo_fs_def no_tnode_def intro!: exI)
qed

theorem tmpfs_write_correct_witness:
  "\<exists>s'. tmpfs_op_write demo_fs 0x9000 0x102000 3 = Some (3, s') \<and> file_rep s' 0x8000 [104, 105, 33]"
proof -
  have "bytes_at (fs_mem demo_fs) 0x102000 (unat (3 :: u32)) = [104, 105, 33]"
    by (simp add: bytes_at_def demo_fs_def demo_mem_def upt_rec)
  then show ?thesis
    using tmpfs_write_correct [OF demo_file, of "0x9000" 0 "{0x102000, 0x103000}" "0x102000" 3 "{0}"] demo_buffer demo_room
    by (auto simp: demo_fs_def no_tnode_def node_pages_def overwrite_def pages_for_def)
qed

text \<open>C21: What is written is read back. After a write, a seek to where it began and a read of as many
  bytes into a second buffer give the bytes of the first buffer.\<close>

theorem tmpfs_write_read_roundtrip:
  assumes "file_rep s t bs" and "vn_data (vf_node s node) = t" and "unat (tn_offset (tf_node s t)) = pos"
    and "pos \<le> length bs" and "set (node_pages s t) \<subseteq> U" and "user_buffer U s t buf (unat sz)"
    and "unat sz < 2147483648" and "pos + unat sz \<le> 4294963200"
    and "unat (tn_page_count (tf_node s t)) < (pos + unat sz + 4095) div 4096 \<Longrightarrow> room_for R U s t (pages_for (of_nat (pos + unat sz)))"
    and buf2: "user_buffer U s t buf2 (unat sz)"
  shows "\<exists>s1 s2 s3. tmpfs_op_write s node buf sz = Some (int (unat sz), s1) \<and>
    tmpfs_op_seek s1 node (of_nat pos) VFS_SEEK_STRT = Some (0, s2) \<and>
    tmpfs_op_read s2 node buf2 sz = Some (int (unat sz), s3) \<and>
    bytes_at (fs_mem s3) buf2 (unat sz) = bytes_at (fs_mem s) buf (unat sz)"
proof -
  let ?d = "bytes_at (fs_mem s) buf (unat sz)"
  from assms(1-9) obtain s1 where w: "tmpfs_op_write s node buf sz = Some (int (unat sz), s1)"
    "file_rep s1 t (overwrite bs pos ?d)" "vn_data (vf_node s1 node) = t"
    "\<And>b k. user_buffer U s t b k \<Longrightarrow> buffer_apart (node_pages s1 t) b k" by (rule write_ok) blast+
  define s2 where "s2 = upd_tnode t (\<lambda>x. x\<lparr>tn_offset := ucast (of_nat pos :: u32)\<rparr>) s1"
  have s2: "tf_node s2 t = (tf_node s1 t)\<lparr>tn_offset := ucast (of_nat pos :: u32)\<rparr>" "fs_mem s2 = fs_mem s1"
    "vn_data (vf_node s2 node) = t" "node_pages s2 t = node_pages s1 t" "tf_array s2 = tf_array s1"
    using w(3) by (simp_all add: s2_def upd_tnode_def node_pages_def)
  have seek: "tmpfs_op_seek s1 node (of_nat pos) VFS_SEEK_STRT = Some (0, s2)"
    using w(2,3) by (simp add: tmpfs_op_seek_def Let_def s2_def file_rep_def)
  have rep: "file_rep s2 t (overwrite bs pos ?d)" by (rule file_rep_cong [OF w(2)]) (simp_all add: s2)
  have pos: "unat (tn_offset (tf_node s2 t)) = pos"
    using assms(8) unat_of_nat_u32 [of pos] by (simp add: s2 unat_ucast_u64)
  have "unat sz = min (unat sz) (length (overwrite bs pos ?d) - pos)" using assms(4) by (simp add: length_overwrite)
  from read_ok [OF rep s2(3) pos _ assms(7) this] w(4) [OF buf2] obtain s3 where
    "tmpfs_op_read s2 node buf2 sz = Some (int (unat sz), s3)"
    "bytes_at (fs_mem s3) buf2 (unat sz) = take (unat sz) (drop pos (overwrite bs pos ?d))" by (auto simp: s2(4))
  moreover have "take (unat sz) (drop pos (overwrite bs pos ?d)) = ?d" using assms(4) by (simp add: overwrite_def)
  ultimately show ?thesis using w(1) seek by auto
qed

theorem tmpfs_write_read_roundtrip_witness:
  "\<exists>s1 s2 s3. tmpfs_op_write demo_fs 0x9000 0x102000 3 = Some (3, s1) \<and>
    tmpfs_op_seek s1 0x9000 0 VFS_SEEK_STRT = Some (0, s2) \<and>
    tmpfs_op_read s2 0x9000 0x103000 3 = Some (3, s3) \<and> bytes_at (fs_mem s3) 0x103000 3 = [104, 105, 33]"
proof -
  have "bytes_at (fs_mem demo_fs) 0x102000 (unat (3 :: u32)) = [104, 105, 33]"
    by (simp add: bytes_at_def demo_fs_def demo_mem_def upt_rec)
  moreover have "user_buffer {0x102000, 0x103000} demo_fs 0x8000 0x103000 3"
  proof -
    have "in_pages {0x102000, 0x103000} (0x103000 + of_nat i)" if "i < 3" for i
      unfolding in_pages_def block_def using that by (intro bexI [of _ "0x103000"]) auto
    then show ?thesis by (simp add: user_buffer_def buffer_apart_def node_pages_def demo_fs_def no_tnode_def)
  qed
  ultimately show ?thesis
    using tmpfs_write_read_roundtrip [OF demo_file, of "0x9000" 0 "{0x102000, 0x103000}" "0x102000" 3 "{0}" "0x103000"]
      demo_buffer demo_room
    by (auto simp: demo_fs_def no_tnode_def node_pages_def overwrite_def pages_for_def)
qed

text \<open>\<open>tmpfs_op_truncate\<close> does not provide pages when it makes a file longer, but counts them as
  present: it returns 0, and the next read in the new part indexes the page array behind its
  end.\<close>

theorem tmpfs_truncate_grow_faults:
  assumes rep: "file_rep s t bs" and t: "vn_data (vf_node s node) = t"
    and pos: "unat (tn_offset (tf_node s t)) = pos" "4096 * length (node_pages s t) \<le> pos" "pos < unat len"
    and len: "unat len < 4294967296" and sz: "sz \<noteq> 0"
  shows "\<exists>s'. tmpfs_op_truncate s node len = Some (0, s') \<and> tn_size (tf_node s' t) = len \<and>
    tn_page_count (tf_node s' t) = ucast ((len + 4095) div 4096) \<and> tmpfs_op_read s' node buf sz = None"
proof -
  let ?x = "tf_node s t" and ?needed = "ucast ((len + 4095) div 4096) :: u32"
  have r: "t \<noteq> 0" "unat (tn_page_count ?x) = length (node_pages s t)" using rep by (simp_all add: file_rep_def)
  have "unat (len + 4095) = unat len + 4095" using len by (simp add: unat_word_ariths)
  then have "unat ((len + 4095) div 4096) = (unat len + 4095) div 4096" by (simp add: unat_div)
  moreover have "(unat len + 4095) div 4096 < 4294967296" using len by simp
  ultimately have "unat ?needed = (unat len + 4095) div 4096" by (simp add: unsigned_ucast_eq take_bit_nat_eq_self)
  moreover have "length (node_pages s t) \<le> (unat len + 4095) div 4096" using pos(2,3) by simp
  ultimately have nl: "\<not> ?needed < tn_page_count ?x" using r(2) by (simp add: word_less_nat_alt)
  define s' where "s' = upd_node node (\<lambda>x. x\<lparr>vn_stat := (vn_stat x)\<lparr>st_size := len\<rparr>\<rparr>)
     (upd_tnode t (\<lambda>x. x\<lparr>tn_size := len, tn_page_count := ?needed\<rparr>) s)"
  have e: "len + 4096 - 1 = len + 4095" by simp
  have tr: "tmpfs_op_truncate s node len = Some (0, s')"
    unfolding tmpfs_op_truncate_def Let_def t e using r(1) nl by (simp add: s'_def)
  have s': "tf_node s' t = ?x\<lparr>tn_size := len, tn_page_count := ?needed\<rparr>" "vn_data (vf_node s' node) = t"
    "node_pages s' t = node_pages s t"
    using t by (simp_all add: s'_def upd_node_def upd_tnode_def node_pages_def)
  have lt: "\<not> len \<le> tn_offset ?x" using pos by (simp add: word_le_nat_alt)
  define k where "k = (if tn_offset ?x + ucast sz > len then ucast (len - tn_offset ?x) else sz)"
  have "unat (len - tn_offset ?x) = unat len - pos" using lt pos(1) by (simp add: unat_sub)
  moreover have "unat len - pos < 4294967296" using len by linarith
  ultimately have "unat (ucast (len - tn_offset ?x) :: u32) = unat len - pos"
    by (simp add: unsigned_ucast_eq take_bit_nat_eq_self)
  with pos(3) have "unat (ucast (len - tn_offset ?x) :: u32) \<noteq> 0" by linarith
  then have k: "0 < k" unfolding k_def using sz by (auto simp: unat_eq_0 word_gt_0)
  have "page_slot (node_pages s t) (ucast (tn_offset ?x div 4096)) = None"
  proof -
    have "unat (tn_offset ?x div 4096) = pos div 4096" using pos(1) by (simp add: unat_div)
    moreover have "pos div 4096 < 4294967296" using pos(3) len by simp
    ultimately have "unat (ucast (tn_offset ?x div 4096) :: u32) = pos div 4096"
      by (simp add: unsigned_ucast_eq take_bit_nat_eq_self)
    moreover have "length (node_pages s t) \<le> pos div 4096" using pos(2) by simp
    ultimately show ?thesis by (simp add: page_slot_def)
  qed
  then have "tmpfs_read_loop (node_pages s t) buf k (fs_mem s') (tn_offset ?x) = None"
    unfolding tmpfs_read_loop_def using k by (subst tmpfs_chunk_loop.simps) (simp add: Let_def)
  then have "tmpfs_op_read s' node buf sz = None"
    unfolding tmpfs_op_read_def Let_def s' k_def using r(1) lt by (simp split: if_splits)
  with tr show ?thesis by (simp add: s'(1))
qed

theorem tmpfs_truncate_grow_faults_witness:
  "\<exists>s'. tmpfs_op_truncate demo_fs 0x9000 10 = Some (0, s') \<and> tmpfs_op_read s' 0x9000 0x102000 3 = None"
  using tmpfs_truncate_grow_faults [OF demo_file, of "0x9000" 0 10 3 "0x102000"]
  by (auto simp: demo_fs_def no_tnode_def node_pages_def)

end
