(* ===== verification/TmpfsTree.thy ===== *)
theory TmpfsTree
  imports TmpfsProps
begin

text \<open>
  The tree of names of the file system in memory: walking a path is following its segments through
  the directories, and creating a file or directory is an update of the tree.
\<close>

section \<open>The tree\<close>

text \<open>
  \<open>K p\<close> are the children of \<open>p\<close>, newest first, for the nodes \<open>N\<close>. A node knows its parent, so it is in
  one list only.
\<close>

definition tree_ok :: "'a tmpfs_scheme \<Rightarrow> u32 set \<Rightarrow> (u32 \<Rightarrow> u32 list) \<Rightarrow> bool" where
  "tree_ok s N K \<longleftrightarrow> 0 \<notin> N \<and>
     (\<forall>p\<in>N. llist (tn_next s) (box_ptr (tn_children (tf_node s p))) (K p) \<and> set (K p) \<subseteq> N \<and>
        (\<forall>c\<in>set (K p). tn_parent (tf_node s c) = p))"

text \<open>Following the segments of a path. The first child with the name is taken.\<close>

fun resolve :: "(u32 \<Rightarrow> string) \<Rightarrow> (u32 \<Rightarrow> u32 list) \<Rightarrow> u32 \<Rightarrow> string list \<Rightarrow> u32 option" where
  "resolve nm K p [] = Some p"
| "resolve nm K p (x # xs) = (case find (\<lambda>c. nm c = x) (K p) of None \<Rightarrow> None | Some c \<Rightarrow> resolve nm K c xs)"

abbreviation names :: "'a tmpfs_scheme \<Rightarrow> u32 \<Rightarrow> string" where
  "names s \<equiv> \<lambda>c. tn_name (tf_node s c)"

fun join_path :: "string list \<Rightarrow> string" where
  "join_path [] = []"
| "join_path [x] = x"
| "join_path (x # y # ys) = x @ ''/'' @ join_path (y # ys)"

definition segment :: "string \<Rightarrow> bool" where
  "segment x \<longleftrightarrow> x \<noteq> [] \<and> CHR ''/'' \<notin> set x"

lemma find_in: "find P xs = Some x \<Longrightarrow> x \<in> set xs \<and> P x"
  by (induction xs) (auto split: if_splits)

lemma tree_child:
  assumes "tree_ok s N K" and "p \<in> N"
  shows "tmpfs_child s p x = Some (find (\<lambda>c. tn_name (tf_node s c) = x) (K p))"
proof -
  from assms have "p \<noteq> 0" "llist (tn_next s) (box_ptr (tn_children (tf_node s p))) (K p)"
    unfolding tree_ok_def by auto
  then show ?thesis by (simp add: tmpfs_child_def find_loop_ok)
qed

lemma split_segment:
  assumes "CHR ''/'' \<notin> set x"
  shows "takeWhile (\<lambda>c. c \<noteq> CHR ''/'') (x @ CHR ''/'' # r) = x" "dropWhile (\<lambda>c. c \<noteq> CHR ''/'') (x @ CHR ''/'' # r) = CHR ''/'' # r"
    "takeWhile (\<lambda>c. c \<noteq> CHR ''/'') x = x" "dropWhile (\<lambda>c. c \<noteq> CHR ''/'') x = []"
  using assms by (induction x) auto

lemma walk_step:
  "seg \<noteq> [] \<Longrightarrow> child p (takeWhile (\<lambda>c. c \<noteq> CHR ''/'') seg) = Some r \<Longrightarrow>
   tmpfs_walk_loop child p seg = (case r of None \<Rightarrow> Some 0 | Some c \<Rightarrow>
      (case dropWhile (\<lambda>c. c \<noteq> CHR ''/'') seg of [] \<Rightarrow> Some c | _ # rest \<Rightarrow> tmpfs_walk_loop child c rest))"
  by (subst tmpfs_walk_loop.simps) simp

definition ptr_or_null :: "u32 option \<Rightarrow> u32" where
  "ptr_or_null r = (case r of None \<Rightarrow> 0 | Some p \<Rightarrow> p)"

lemma walk_loop_resolve:
  assumes ok: "tree_ok s N K"
  shows "p \<in> N \<Longrightarrow> xs \<noteq> [] \<Longrightarrow> \<forall>x\<in>set xs. segment x \<Longrightarrow>
    tmpfs_walk_loop (tmpfs_child s) p (join_path xs) = Some (ptr_or_null (resolve (names s) K p xs))"
proof (induction xs arbitrary: p rule: join_path.induct)
  case (2 x)
  then have x: "x \<noteq> []" "CHR ''/'' \<notin> set x" by (simp_all add: segment_def)
  then show ?case
    unfolding join_path.simps
    by (subst walk_step [where child = "tmpfs_child s", OF x(1) tree_child [OF ok 2(1)]])
      (simp add: split_segment(3,4) [OF x(2)] ptr_or_null_def split: option.splits)
next
  case (3 x y ys)
  have j: "join_path (x # y # ys) = x @ CHR ''/'' # join_path (y # ys)" by simp
  from 3 have x: "x @ CHR ''/'' # join_path (y # ys) \<noteq> []" "CHR ''/'' \<notin> set x" by (simp_all add: segment_def)
  have w: "tmpfs_walk_loop (tmpfs_child s) p (x @ CHR ''/'' # join_path (y # ys)) =
      (case find (\<lambda>c. names s c = x) (K p) of None \<Rightarrow> Some 0
       | Some c \<Rightarrow> tmpfs_walk_loop (tmpfs_child s) c (join_path (y # ys)))"
    by (subst walk_step [where child = "tmpfs_child s", OF x(1) tree_child [OF ok 3(2)]]) (simp add: split_segment(1,2) [OF x(2)] split: option.split)
  show ?case
  proof (cases "find (\<lambda>c. names s c = x) (K p)")
    case None
    then show ?thesis unfolding j w by (simp add: ptr_or_null_def)
  next
    case (Some c)
    then have "c \<in> N" using find_in [OF Some] ok 3(2) unfolding tree_ok_def by blast
    with 3 Some show ?thesis unfolding j w by simp
  qed
qed simp

lemma segment_hd: "segment x \<Longrightarrow> hd x \<noteq> CHR ''/''"
  by (metis segment_def hd_in_set)

lemma join_path_nonempty: "xs \<noteq> [] \<Longrightarrow> \<forall>x\<in>set xs. segment x \<Longrightarrow> join_path xs \<noteq> [] \<and> hd (join_path xs) \<noteq> CHR ''/''"
  by (induction xs rule: join_path.induct) (auto simp: hd_append segment_hd segment_def)

lemma walk_path_resolve:
  assumes ok: "tree_ok s N K" and root: "root \<in> N" and xs: "\<forall>x\<in>set xs. segment x"
    and len: "length (join_path xs) < 255"
  shows "tmpfs_walk_path s root (CHR ''/'' # join_path xs) = Some (ptr_or_null (resolve (names s) K root xs))"
    and "tmpfs_walk_path s root (join_path xs) = Some (ptr_or_null (resolve (names s) K root xs))"
proof -
  have "tmpfs_walk_path s root (CHR ''/'' # join_path xs) = Some (ptr_or_null (resolve (names s) K root xs)) \<and>
    tmpfs_walk_path s root (join_path xs) = Some (ptr_or_null (resolve (names s) K root xs))"
  proof (cases "xs = []")
    case True
    then show ?thesis by (simp add: tmpfs_walk_path_def ptr_or_null_def)
  next
    case False
    note ne = join_path_nonempty [OF False xs]
    then have "join_path xs \<noteq> ''/''" by auto
    with ne len walk_loop_resolve [OF ok root False xs] show ?thesis by (simp add: tmpfs_walk_path_def)
  qed
  then show "tmpfs_walk_path s root (CHR ''/'' # join_path xs) = Some (ptr_or_null (resolve (names s) K root xs))"
    and "tmpfs_walk_path s root (join_path xs) = Some (ptr_or_null (resolve (names s) K root xs))" by simp_all
qed

section \<open>New names\<close>

lemma last_slash_none: "CHR ''/'' \<notin> set x \<Longrightarrow> last_slash_loop x i k = k"
  by (induction x arbitrary: i) auto

lemma last_slash_app: "last_slash_loop (a @ b) i k = last_slash_loop b (i + length a) (last_slash_loop a i k)"
  by (induction a arbitrary: i k) auto

lemma last_slash_split:
  "CHR ''/'' \<notin> set x \<Longrightarrow> last_slash_loop (a @ CHR ''/'' # x) 0 None = Some (length a)"
  by (simp add: last_slash_app last_slash_none)

lemma join_path_snoc: "xs \<noteq> [] \<Longrightarrow> join_path (xs @ [x]) = join_path xs @ CHR ''/'' # x"
proof (induction xs rule: join_path.induct)
  case (3 a b xs)
  then show ?case by simp
qed simp_all

text \<open>The parent of a new name, with or without a slash in front.\<close>

lemma parent_of_resolve:
  assumes ok: "tree_ok s N K" and root: "root \<in> N" and xs: "\<forall>x\<in>set xs. segment x" and x: "segment x"
    and len: "length (join_path (xs @ [x])) < 255"
  shows "tmpfs_parent_of s root (CHR ''/'' # join_path (xs @ [x])) = Some (ptr_or_null (resolve (names s) K root xs), x)"
proof -
  have sl: "CHR ''/'' \<notin> set x" using x by (simp add: segment_def)
  show ?thesis
  proof (cases "xs = []")
    case True
    have "last_slash_loop (CHR ''/'' # x) 0 None = Some 0" using last_slash_split [OF sl, of "[]"] by simp
    with True len show ?thesis
      by (simp add: tmpfs_parent_of_def tmpfs_walk_path_def ptr_or_null_def del: last_slash_loop.simps)
  next
    case False
    let ?p = "CHR ''/'' # join_path xs"
    have e: "CHR ''/'' # join_path (xs @ [x]) = ?p @ CHR ''/'' # x" by (simp add: join_path_snoc [OF False])
    have l: "length (join_path xs) < 255" "length x < 256" using len by (simp_all add: join_path_snoc [OF False])
    have "last_slash_loop (?p @ CHR ''/'' # x) 0 None = Some (length ?p)" by (rule last_slash_split) (rule sl)
    then show ?thesis
      unfolding e tmpfs_parent_of_def using l walk_path_resolve(1) [OF ok root xs l(1)]
      by (simp del: last_slash_loop.simps)
  qed
qed

text \<open>Adding a node to the tree.\<close>

lemma add_child_tree:
  assumes ok: "tree_ok s N K" and d: "d \<in> N" and n: "n \<notin> N" "n \<noteq> 0" and new: "tn_children (tf_node s n) = 0"
  shows "tree_ok (tmpfs_add_child s d n) (insert n N) (K(d := n # K d, n := []))"
    and "names (tmpfs_add_child s d n) = names s"
proof -
  let ?s = "tmpfs_add_child s d n"
  have dn: "d \<noteq> n" "d \<noteq> 0" using d n ok by (auto simp: tree_ok_def)
  have nodes: "tf_node ?s n = (tf_node s n)\<lparr>tn_parent := d, tn_sibling := tn_children (tf_node s d)\<rparr>"
    "tf_node ?s d = (tf_node s d)\<lparr>tn_children := n\<rparr>"
    "\<And>q. q \<noteq> d \<Longrightarrow> q \<noteq> n \<Longrightarrow> tf_node ?s q = tf_node s q"
    using dn by (simp_all add: tmpfs_add_child_def upd_tnode_def)
  show "names ?s = names s"
  proof (rule ext)
    fix q
    show "names ?s q = names s q" by (cases "q = n"; cases "q = d") (use dn in \<open>simp_all add: nodes\<close>)
  qed
  have sib: "tn_next ?s c = tn_next s c" if "c \<noteq> n" for c using nodes that by (cases "c = d") simp_all
  have par: "tn_parent (tf_node ?s c) = tn_parent (tf_node s c)" if "c \<noteq> n" for c using nodes that by (cases "c = d") simp_all
  have old: "llist (tn_next ?s) a cs = llist (tn_next s) a cs" if "n \<notin> set cs" for a cs
  proof (rule lseg_cong)
    fix c assume "c \<in> set cs"
    then have "c \<noteq> n" using that by blast
    then show "tn_next ?s c = tn_next s c" by (rule sib)
  qed
  have notin: "n \<notin> set (K p)" if "p \<in> N" for p using ok that n unfolding tree_ok_def by blast
  show "tree_ok ?s (insert n N) (K(d := n # K d, n := []))"
    unfolding tree_ok_def
  proof (intro conjI ballI)
    show "0 \<notin> insert n N" using ok n by (auto simp: tree_ok_def)
  next
    fix p assume p: "p \<in> insert n N"
    consider "p = n" | "p = d" | "p \<in> N" "p \<noteq> n" "p \<noteq> d" using p by blast
    then show "llist (tn_next ?s) (box_ptr (tn_children (tf_node ?s p))) ((K(d := n # K d, n := [])) p)"
    proof cases
      case 1
      then show ?thesis using nodes new by (simp add: box_ptr_def)
    next
      case 2
      have "llist (tn_next s) (box_ptr (tn_children (tf_node s d))) (K d)" using ok d by (simp add: tree_ok_def)
      then have "llist (tn_next ?s) (tn_next ?s n) (K d)" by (simp add: old [OF notin [OF d]] nodes(1))
      moreover have "box_ptr n = Some n" using n(2) by (simp add: box_ptr_def)
      ultimately show ?thesis using 2 nodes(2) dn(1) by simp
    next
      case 3
      then show ?thesis using nodes ok old [OF notin [OF 3(1)]] by (simp add: tree_ok_def)
    qed
  next
    fix p assume "p \<in> insert n N"
    then show "set ((K(d := n # K d, n := [])) p) \<subseteq> insert n N" using ok d unfolding tree_ok_def by auto
  next
    fix p c assume pc: "p \<in> insert n N" "c \<in> set ((K(d := n # K d, n := [])) p)"
    then consider "p = d" "c = n" | "p \<in> N" "c \<in> set (K p)" "c \<noteq> n" using notin by (auto split: if_splits)
    then show "tn_parent (tf_node ?s c) = p"
    proof cases
      case 1
      then show ?thesis using nodes by simp
    next
      case 2
      then show ?thesis using par ok unfolding tree_ok_def by auto
    qed
  qed
qed

lemma tree_ok_cong:
  assumes "tree_ok s N K" and "\<And>p. p \<in> N \<Longrightarrow> tf_node s' p = tf_node s p"
  shows "tree_ok s' N K"
proof -
  have "llist (tn_next s') a (K p) = llist (tn_next s) a (K p)" if "p \<in> N" for a p
  proof (rule lseg_cong)
    fix c assume "c \<in> set (K p)"
    then have "c \<in> N" using assms(1) that unfolding tree_ok_def by blast
    then show "tn_next s' c = tn_next s c" using assms(2) by simp
  qed
  note same = this
  show ?thesis unfolding tree_ok_def
  proof (intro conjI ballI)
    fix p assume p: "p \<in> N"
    then show "llist (tn_next s') (box_ptr (tn_children (tf_node s' p))) (K p)"
      using assms same [OF p] unfolding tree_ok_def by simp
    fix c assume c: "c \<in> set (K p)"
    with p assms(1) have "c \<in> N" unfolding tree_ok_def by blast
    then show "tn_parent (tf_node s' c) = p" using assms p c unfolding tree_ok_def by simp
  qed (use assms in \<open>auto simp: tree_ok_def\<close>)
qed

text \<open>Walking a path in the file system in memory is following its segments from the root: on a
  well-formed tree \<open>tmpfs_walk_path\<close> returns, with the node that the segments lead to, or null when
  one of them does not exist, whether or not the path starts with a slash.\<close>

theorem tmpfs_walk_resolves:
  assumes "tree_ok s N K" and "root \<in> N" and "\<forall>x\<in>set xs. segment x" and "length (join_path xs) < 255"
  shows "tmpfs_walk_path s root (CHR ''/'' # join_path xs) = Some (ptr_or_null (resolve (names s) K root xs)) \<and>
    tmpfs_walk_path s root (join_path xs) = Some (ptr_or_null (resolve (names s) K root xs))"
  using walk_path_resolve [OF assms] by blast

text \<open>A root with a directory \<open>a\<close> in which there is a file \<open>b\<close>.\<close>

definition demo_tree :: tmpfs where
  "demo_tree = demo_fs\<lparr>vf_mp := (\<lambda>_. no_mp\<lparr>mp_data_pointer := 0x7000\<rparr>), tf_node := (tf_node demo_fs)(
     0x7000 := no_tnode\<lparr>tn_name := ''/'', tn_type := VFS_DIR, tn_children := 0x7100\<rparr>,
     0x7100 := no_tnode\<lparr>tn_name := ''a'', tn_type := VFS_DIR, tn_parent := 0x7000, tn_children := 0x8000\<rparr>,
     0x8000 := no_tnode\<lparr>tn_name := ''b'', tn_parent := 0x7100\<rparr>)\<rparr>"

lemma demo_tree_ok:
  "tree_ok demo_tree {0x7000, 0x7100, 0x8000} ((\<lambda>_. [])(0x7000 := [0x7100], 0x7100 := [0x8000]))"
  by (simp add: tree_ok_def demo_tree_def demo_fs_def no_tnode_def box_ptr_def)

theorem tmpfs_walk_resolves_witness:
  "tmpfs_walk_path demo_tree 0x7000 ''/a/b'' = Some 0x8000"
  using tmpfs_walk_resolves [OF demo_tree_ok, of "0x7000" "[''a'', ''b'']"]
  by (simp add: segment_def demo_tree_def no_tnode_def ptr_or_null_def)

text \<open>C22: Creating a file adds exactly one node to the tree. When the directory of the new path exists
  and \<open>kmalloc\<close> delivers a node that is not in the tree yet, \<open>tmpfs_op_create\<close> returns 0, the new node is
  the first child of the directory, with the last segment as its name, and the rest of the tree is as
  before; in that directory the name then leads to the new node, whatever was found under it before. When the
  directory does not exist the call returns -1 and changes nothing.\<close>

theorem tmpfs_create_correct:
  assumes ok: "tree_ok s N K" and root: "mp_data_pointer (vf_mp s mp) = root" "root \<in> N"
    and xs: "\<forall>x\<in>set xs. segment x" and x: "segment x" and len: "length (join_path (xs @ [x])) < 255"
    and k: "kmalloc (vf_heap s) SIZEOF_TMPFS_NODE = Some (n, h)" "n \<noteq> 0" "n \<notin> N"
  shows "case resolve (names s) K root xs of
      None \<Rightarrow> tmpfs_op_create s mp (CHR ''/'' # join_path (xs @ [x])) = Some (-1, s)
    | Some d \<Rightarrow> \<exists>s'. tmpfs_op_create s mp (CHR ''/'' # join_path (xs @ [x])) = Some (0, s') \<and>
        tree_ok s' (insert n N) (K(d := n # K d, n := [])) \<and> names s' = (names s)(n := x) \<and>
        resolve (names s') (K(d := n # K d, n := [])) d [x] = Some n"
proof -
  let ?name = "CHR ''/'' # join_path (xs @ [x])"
  note par = parent_of_resolve [OF ok root(2) xs x len]
  have lx: "length x < 256"
    using len by (cases "xs = []") (simp_all add: join_path_snoc)
  show ?thesis
  proof (cases "resolve (names s) K root xs")
    case None
    then show ?thesis using par root(1) by (simp add: tmpfs_op_create_def ptr_or_null_def)
  next
    case (Some d)
    have dN: "d \<in> N" using Some root(2) ok
    proof (induction xs arbitrary: root)
      case (Cons y ys)
      from Cons.prems(1) obtain c where "find (\<lambda>c. names s c = y) (K root) = Some c" "resolve (names s) K c ys = Some d"
        by (auto split: option.splits)
      moreover from find_in [OF this(1)] have "c \<in> N" using Cons.prems(2) ok unfolding tree_ok_def by blast
      ultimately show ?case using Cons.IH [of c] ok by blast
    qed simp
    let ?new = "\<lparr>tn_name = x, tn_type = VFS_FILE, tn_mode = 0x1FF, tn_uid = 0, tn_gid = 0,
          tn_size = 0, tn_offset = 0, tn_nlink = 0, tn_ino = 0, tn_pages = 0, tn_page_count = 0,
          tn_parent = 0, tn_children = 0, tn_sibling = 0\<rparr>"
    define s1 where "s1 = upd_tnode n (\<lambda>_. ?new) (s\<lparr>vf_heap := h\<rparr>)"
    have c: "tmpfs_node_internal_create s x VFS_FILE = Some (n, s1)"
      using k lx by (simp add: tmpfs_node_internal_create_def fs_kmalloc_def s1_def)
    have "d \<noteq> 0" using dN ok by (auto simp: tree_ok_def)
    then have res: "tmpfs_op_create s mp ?name = Some (0, tmpfs_add_child s1 d n)"
      using par Some root(1) c k(2) by (simp add: tmpfs_op_create_def ptr_or_null_def)
    have ok1: "tree_ok s1 N K" by (rule tree_ok_cong [OF ok]) (use k(3) in \<open>auto simp: s1_def upd_tnode_def\<close>)
    have n1: "tn_children (tf_node s1 n) = 0" "names s1 = (names s)(n := x)"
      by (auto simp: s1_def upd_tnode_def)
    note t = add_child_tree [OF ok1 dN k(3,2) n1(1)]
    have "\<exists>s'. tmpfs_op_create s mp ?name = Some (0, s') \<and> tree_ok s' (insert n N) (K(d := n # K d, n := [])) \<and>
        names s' = (names s)(n := x) \<and> resolve (names s') (K(d := n # K d, n := [])) d [x] = Some n"
      using res t dN k(3) n1(2) by (intro exI [of _ "tmpfs_add_child s1 d n"]) auto
    then show ?thesis using Some by simp
  qed
qed

lemma demo_node_kmalloc: "\<exists>h. kmalloc (vf_heap demo_tree) SIZEOF_TMPFS_NODE = Some (0x100030, h)"
  unfolding kmalloc_def heap_box_iterate_def SIZEOF_TMPFS_NODE_def
  apply (subst heap_box_iterate_loop.simps)
  apply (simp add: demo_tree_def demo_fs_def demo_heap_def box_ptr_def heap_box_alloc_def heap_map_find_free_def
      BLOCKS_PER_BOX_def Let_def blocks_needed_def upd_box_def)
  apply (simp add: heap_map_find_loop.simps map_bit_def demo_mem_def)
  done

theorem tmpfs_create_correct_witness:
  "\<exists>s'. tmpfs_op_create demo_tree 0x6000 ''/a/c'' = Some (0, s') \<and>
    tree_ok s' {0x7000, 0x7100, 0x8000, 0x100030} ((\<lambda>_. [])(0x7000 := [0x7100], 0x7100 := [0x100030, 0x8000]))"
proof -
  obtain h where "kmalloc (vf_heap demo_tree) SIZEOF_TMPFS_NODE = Some (0x100030, h)" using demo_node_kmalloc by blast
  moreover have "((\<lambda>_. [])(0x7000 := [0x7100], 0x7100 := [0x8000]))((0x7100 :: u32) := 0x100030 # [0x8000], 0x100030 := []) =
      (\<lambda>_. [])(0x7000 := [0x7100], 0x7100 := [0x100030, 0x8000 :: u32])" by (auto simp: fun_eq_iff)
  moreover have "insert 0x100030 {0x7000, 0x7100, 0x8000} = {0x7000, 0x7100, 0x8000, 0x100030 :: u32}" by auto
  ultimately show ?thesis
    using tmpfs_create_correct [OF demo_tree_ok, of "0x6000" "0x7000" "[''a'']" "''c''" "0x100030" h]
    by (auto simp: demo_tree_def no_mp_def no_tnode_def segment_def)
qed

end
