(* ===== verification/Procfs.thy ===== *)
theory Procfs
  imports Tmpfs Str
begin

text \<open>
  fs/procfs/procfs.c: the file system that lists kernel entries, and the table of all file systems. The
  entries are one list that every directory listing shares. A handler that the source leaves without a
  body of its own returns -1.
\<close>

section \<open>State\<close>

record procfs = tmpfs +
  pf_count :: u32
  pf_fs :: u32
  pf_lock :: spinlock_t
  pf_entries :: u32

definition SIZEOF_FS :: u32 where "SIZEOF_FS = 104"

abbreviation entry_next :: "'a vfs_scheme \<Rightarrow> u32 \<Rightarrow> u32 option" where
  "entry_next s \<equiv> \<lambda>e. box_ptr (de_next (vf_entry s e))"

text \<open>The last node of a list, and \<open>last\<close> when there is none.\<close>

partial_function (option) list_end_loop :: "('p \<Rightarrow> 'p option) \<Rightarrow> 'p option \<Rightarrow> 'p option \<Rightarrow> 'p option option" where
  "list_end_loop nx prev cur = (case cur of None \<Rightarrow> Some prev | Some c \<Rightarrow> list_end_loop nx (Some c) (nx c))"

section \<open>Entries\<close>

definition procfs_build_dirlist :: "'a procfs_scheme \<Rightarrow> (u32 \<times> 'a procfs_scheme) option" where
  "procfs_build_dirlist s = do {
     (l, s) \<leftarrow> fs_kmalloc s SIZEOF_DIRLIST;
     if l = 0 then Some (0, s)
     else do {
       t \<leftarrow> list_end_loop (entry_next s) None (box_ptr (pf_entries s));
       Some (l, upd_list l (\<lambda>x. x\<lparr>dl_head := pf_entries s, dl_tail := (case t of None \<Rightarrow> 0 | Some e \<Rightarrow> e)\<rparr>) s)
     }
   }"

text \<open>The name is cut to the size of its array.\<close>

definition procfs_add_entry :: "'a procfs_scheme \<Rightarrow> string \<Rightarrow> u32 \<Rightarrow> 'a procfs_scheme option" where
  "procfs_add_entry s name type = do {
     (e, s) \<leftarrow> fs_kmalloc s SIZEOF_DIRENT;
     if e = 0 then Some s
     else do {
       let s = upd_entry e (\<lambda>_. \<lparr>de_name = take (VFS_MAX_FILE_NAME - 1) name, de_type = type, de_next = 0\<rparr>) s;
       lk \<leftarrow> lock_acquire (pf_lock s);
       s \<leftarrow> (if pf_entries s = 0 then Some (s\<lparr>pf_entries := e\<rparr>)
             else do {
               t \<leftarrow> list_end_loop (entry_next s) None (box_ptr (pf_entries s));
               (case t of None \<Rightarrow> None | Some q \<Rightarrow> Some (upd_entry q (\<lambda>x. x\<lparr>de_next := e\<rparr>) s))
             });
       Some (s\<lparr>pf_count := pf_count s + 1, pf_lock := lock_release lk\<rparr>)
     }
   }"

section \<open>Handlers\<close>

definition procfs_open :: "'a procfs_scheme \<Rightarrow> u32 \<Rightarrow> string \<Rightarrow> (u32 \<times> 'a procfs_scheme) option" where
  "procfs_open s node path = Some (node, s)"

definition procfs_close :: "'a procfs_scheme \<Rightarrow> u32 \<Rightarrow> (int \<times> 'a procfs_scheme) option" where
  "procfs_close s node = Some (0, s)"

text \<open>\<open>flopstrcopy\<close> with the length as the size of the destination: the last character is replaced by
  the terminator.\<close>

definition procfs_read :: "'a procfs_scheme \<Rightarrow> u32 \<Rightarrow> u32 \<Rightarrow> u32 \<Rightarrow> (int \<times> 'a procfs_scheme) option" where
  "procfs_read s node buf sz =
     (if node = 0 \<or> buf = 0 \<or> sz = 0 then Some (0, s)
      else
        let name = vf_str s (vn_name (vf_node s node));
            len = of_nat (length name);
            len = (if len > sz then sz else len);
            m = put_bytes (fs_mem s) buf (map of_char (take (unat (len - 1)) name) @ [0])
        in Some (sint len, set_mem m s))"

definition procfs_write :: "'a procfs_scheme \<Rightarrow> u32 \<Rightarrow> u32 \<Rightarrow> u32 \<Rightarrow> (int \<times> 'a procfs_scheme) option" where
  "procfs_write s node buf sz = Some (-1, s)"

definition procfs_mount :: "'a procfs_scheme \<Rightarrow> string \<Rightarrow> string \<Rightarrow> u32 \<Rightarrow> (u32 \<times> 'a procfs_scheme) option" where
  "procfs_mount s dev path flags =
     (if pf_fs s = 0 then do {
        (p, s) \<leftarrow> fs_kmalloc s SIZEOF_FS;
        let s = s\<lparr>pf_fs := p\<rparr>;
        if p = 0 then Some (0, s)
        else Some (p, s\<lparr>vf_fs := (vf_fs s)(p := \<lparr>fs_type = VFS_FS_PROCFS, fs_previous = 0\<rparr>)\<rparr>)
      } else Some (pf_fs s, s))"

definition procfs_unmount :: "'a procfs_scheme \<Rightarrow> u32 \<Rightarrow> string \<Rightarrow> (int \<times> 'a procfs_scheme) option" where
  "procfs_unmount s mp path = Some (0, s)"

definition procfs_create :: "'a procfs_scheme \<Rightarrow> u32 \<Rightarrow> string \<Rightarrow> (int \<times> 'a procfs_scheme) option" where
  "procfs_create s mp name = Some (-1, s)"

definition procfs_delete :: "'a procfs_scheme \<Rightarrow> u32 \<Rightarrow> string \<Rightarrow> (int \<times> 'a procfs_scheme) option" where
  "procfs_delete s mp name = Some (-1, s)"

definition procfs_unlink :: "'a procfs_scheme \<Rightarrow> u32 \<Rightarrow> string \<Rightarrow> (int \<times> 'a procfs_scheme) option" where
  "procfs_unlink s mp name = Some (-1, s)"

definition procfs_mkdir :: "'a procfs_scheme \<Rightarrow> u32 \<Rightarrow> string \<Rightarrow> u32 \<Rightarrow> (int \<times> 'a procfs_scheme) option" where
  "procfs_mkdir s mp name flags = Some (-1, s)"

definition procfs_rmdir :: "'a procfs_scheme \<Rightarrow> u32 \<Rightarrow> string \<Rightarrow> (int \<times> 'a procfs_scheme) option" where
  "procfs_rmdir s mp name = Some (-1, s)"

definition procfs_rename :: "'a procfs_scheme \<Rightarrow> u32 \<Rightarrow> string \<Rightarrow> string \<Rightarrow> (int \<times> 'a procfs_scheme) option" where
  "procfs_rename s mp oldname newname = Some (-1, s)"

definition procfs_ctrl :: "'a procfs_scheme \<Rightarrow> u32 \<Rightarrow> u32 \<Rightarrow> u32 \<Rightarrow> (int \<times> 'a procfs_scheme) option" where
  "procfs_ctrl s node cmd arg = Some (-1, s)"

definition procfs_seek :: "'a procfs_scheme \<Rightarrow> u32 \<Rightarrow> u32 \<Rightarrow> u8 \<Rightarrow> (int \<times> 'a procfs_scheme) option" where
  "procfs_seek s node offset whence = Some (-1, s)"

definition procfs_listdir :: "'a procfs_scheme \<Rightarrow> u32 \<Rightarrow> string \<Rightarrow> (u32 \<times> 'a procfs_scheme) option" where
  "procfs_listdir s mp path = procfs_build_dirlist s"

definition procfs_stat :: "'a procfs_scheme \<Rightarrow> string \<Rightarrow> stat_t \<Rightarrow> (int \<times> stat_t \<times> 'a procfs_scheme) option" where
  "procfs_stat s path st = Some (0, \<lparr>st_mode = 0x4000, st_uid = 0, st_gid = 0, st_size = 0, st_atime = 0,
     st_mtime = 0, st_ctime = 0, st_nlink = 0, st_ino = 0, st_dev = 0\<rparr>, s)"

definition procfs_fstat :: "'a procfs_scheme \<Rightarrow> u32 \<Rightarrow> stat_t \<Rightarrow> (int \<times> stat_t \<times> 'a procfs_scheme) option" where
  "procfs_fstat s node st = procfs_stat s (if node \<noteq> 0 then vf_str s (vn_name (vf_node s node)) else []) st"

definition procfs_lstat :: "'a procfs_scheme \<Rightarrow> string \<Rightarrow> stat_t \<Rightarrow> (int \<times> stat_t \<times> 'a procfs_scheme) option" where
  "procfs_lstat s path st = procfs_stat s path st"

definition procfs_truncate :: "'a procfs_scheme \<Rightarrow> u32 \<Rightarrow> u64 \<Rightarrow> (int \<times> 'a procfs_scheme) option" where
  "procfs_truncate s node len = Some (-1, s)"

definition procfs_ioctl :: "'a procfs_scheme \<Rightarrow> u32 \<Rightarrow> u32 \<Rightarrow> u32 \<Rightarrow> (int \<times> 'a procfs_scheme) option" where
  "procfs_ioctl s node cmd arg = Some (-1, s)"

definition procfs_link :: "'a procfs_scheme \<Rightarrow> u32 \<Rightarrow> string \<Rightarrow> string \<Rightarrow> (int \<times> 'a procfs_scheme) option" where
  "procfs_link s mp oldname newname = Some (-1, s)"

definition procfs_ops :: "'a procfs_scheme vfs_op_tbl" where
  "procfs_ops = no_ops\<lparr>op_open := Some procfs_open, op_close := Some procfs_close, op_read := Some procfs_read,
     op_write := Some procfs_write, op_mount := Some procfs_mount, op_unmount := Some procfs_unmount,
     op_create := Some procfs_create, op_delete := Some procfs_delete, op_unlink := Some procfs_unlink,
     op_mkdir := Some procfs_mkdir, op_rmdir := Some procfs_rmdir, op_rename := Some procfs_rename,
     op_ctrl := Some procfs_ctrl, op_seek := Some procfs_seek, op_listdir := Some procfs_listdir,
     op_stat := Some procfs_stat, op_fstat := Some procfs_fstat, op_lstat := Some procfs_lstat,
     op_truncate := Some procfs_truncate, op_ioctl := Some procfs_ioctl, op_link := Some procfs_link\<rparr>"

section \<open>All file systems\<close>

text \<open>The operations by the address of the file system: \<open>tmpflopfs\<close> is the static structure of tmpflopfs.c,
  any other structure is the one of procfs.\<close>

definition flop_ops :: "u32 \<Rightarrow> u32 \<Rightarrow> 'a procfs_scheme vfs_op_tbl" where
  "flop_ops tmpflopfs fs = (if fs = tmpflopfs then tmpfs_ops else procfs_ops)"

definition procfs_init :: "(u32 \<Rightarrow> 'a procfs_scheme vfs_op_tbl) \<Rightarrow> 'a procfs_scheme \<Rightarrow> 'a procfs_scheme option" where
  "procfs_init T s = do {
     let s = s\<lparr>pf_lock := spinlock_init (pf_lock s), pf_count := 0, pf_entries := 0\<rparr>;
     s \<leftarrow> procfs_add_entry s ''cpuinfo'' VFS_FILE;
     s \<leftarrow> procfs_add_entry s ''meminfo'' VFS_FILE;
     (_, s) \<leftarrow> vfs_mount T s ''/'' ''/proc/'' VFS_FS_PROCFS;
     Some s
   }"

end
