(* ===== verification/VfsProps.thy ===== *)
theory VfsProps
  imports TmpfsTree Procfs
begin

text \<open>
  The mount table, and opening files through it. The drivers are those of the repository: \<open>flop_ops\<close>.
\<close>

section \<open>The mount table\<close>

text \<open>The mount points \<open>ms\<close>, oldest first.\<close>

definition mounts :: "'a vfs_scheme \<Rightarrow> u32 list \<Rightarrow> bool" where
  "mounts s ms \<longleftrightarrow> llist (mp_succ s) (box_ptr (vf_mp_head s)) ms \<and> 0 \<notin> set ms \<and>
     vf_mp_tail s = (if ms = [] then 0 else last ms) \<and> vf_mp_lock s = 0"

abbreviation mount_path :: "'a vfs_scheme \<Rightarrow> u32 \<Rightarrow> string" where
  "mount_path s mp \<equiv> vf_str s (mp_mount_point (vf_mp s mp))"

definition starts_with :: "string \<Rightarrow> string \<Rightarrow> bool" where
  "starts_with name p \<longleftrightarrow> take (length p) name = p"

lemma strncmp_eq_prefix: "strncmp_eq p name (length p) \<longleftrightarrow> starts_with name p"
  by (auto simp: strncmp_eq_def starts_with_def)

lemma mounts_last_next:
  assumes "mounts s (ms @ [mp])"
  shows "mp_next (vf_mp s mp) = 0" and "mp \<noteq> 0"
proof -
  from assms have "llist (mp_succ s) (box_ptr (vf_mp_head s)) (ms @ mp # [])" and "mp \<noteq> 0" by (auto simp: mounts_def)
  from llist_next_split [OF this(1)] show "mp_next (vf_mp s mp) = 0" by (simp add: box_ptr_def split: if_splits)
  show "mp \<noteq> 0" by fact
qed

lemma lookup_last:
  assumes "mounts s (ms @ [mp])"
  shows "vfs_file_to_mountpoint s name = Some (if starts_with name (mount_path s mp) then mp else 0)"
proof -
  have "llist (mp_succ s) (Some mp) [mp]" using mounts_last_next [OF assms] by (simp add: box_ptr_def)
  moreover have "box_ptr (vf_mp_tail s) = Some mp" using assms mounts_last_next [OF assms] by (simp add: mounts_def box_ptr_def)
  ultimately show ?thesis
    by (simp only: vfs_file_to_mountpoint_def find_loop_ok) (simp add: strncmp_eq_prefix)
qed

lemma lookup_empty: "mounts s [] \<Longrightarrow> vfs_file_to_mountpoint s name = Some 0"
  by (simp add: vfs_file_to_mountpoint_def mounts_def box_ptr_def find_loop.simps)

text \<open>A path is only ever looked up in the mount point that was added last: the search starts at the
  tail of the list, which has no successor. As soon as a second file system is mounted, the files of
  the first one cannot be opened any more.\<close>

theorem vfs_sees_only_last_mount:
  assumes "mounts s (ms @ [mp])"
  shows "vfs_file_to_mountpoint s name = Some (if starts_with name (mount_path s mp) then mp else 0) \<and>
    (vfs_file_to_mountpoint s name = Some other \<longrightarrow> other = 0 \<or> other \<notin> set ms)"
proof -
  have "distinct (ms @ [mp])" using assms unfolding mounts_def by (blast intro: llist_distinct)
  then have "mp \<notin> set ms" by simp
  then show ?thesis using lookup_last [OF assms] by auto
qed

text \<open>Adding and removing a mount point.\<close>

lemma add_mount:
  assumes m: "mounts s ms" and mp: "mp \<noteq> 0" "mp \<notin> set ms" "mp_next (vf_mp s mp) = 0"
  obtains s' where "vfs_add_mountpoint s mp = Some s'" "mounts s' (ms @ [mp])"
    "vf_mp s' mp = (vf_mp s mp)\<lparr>mp_refcount := snd (refcount_inc_not_zero (mp_refcount (vf_mp s mp)))\<rparr>"
    "vf_heap s' = vf_heap s" "vf_str s' = vf_str s" "vf_node s' = vf_node s" "vf_fs s' = vf_fs s" "vfs.more s' = vfs.more s"
    "\<And>q. q \<noteq> mp \<Longrightarrow> mp_filesystem (vf_mp s' q) = mp_filesystem (vf_mp s q)"
proof -
  let ?l = "if vf_mp_tail s = 0 then s\<lparr>vf_mp_tail := mp, vf_mp_head := mp\<rparr>
     else (upd_mp (vf_mp_tail s) (\<lambda>m. m\<lparr>mp_next := mp\<rparr>) s)\<lparr>vf_mp_tail := mp\<rparr>"
  let ?s = "(mp_get mp ?l)\<lparr>vf_mp_lock := 0\<rparr>"
  have add: "vfs_add_mountpoint s mp = Some ?s"
    using m by (simp add: vfs_add_mountpoint_def mounts_def)
  show ?thesis
  proof (cases "ms = []")
    case True
    have "mounts ?s (ms @ [mp])"
      using m mp True by (simp add: mounts_def mp_get_def upd_mp_def box_ptr_def)
    with add show ?thesis using that m True by (simp add: mounts_def mp_get_def upd_mp_def)
  next
    case False
    then have tl: "vf_mp_tail s = last ms" "last ms \<in> set ms" using m by (simp_all add: mounts_def)
    then have nz: "last ms \<noteq> 0" "last ms \<noteq> mp" using m mp(2) by (auto simp: mounts_def)
    have nx: "mp_succ ?s = (mp_succ s)(last ms := Some mp, mp := None)"
      using tl(1) nz mp by (auto simp: fun_eq_iff mp_get_def upd_mp_def box_ptr_def)
    have "llist (mp_succ s) (box_ptr (vf_mp_head s)) ms" using m by (simp add: mounts_def)
    from llist_append_node [OF this False mp(2)] have "llist (mp_succ ?s) (box_ptr (vf_mp_head ?s)) (ms @ [mp])"
      unfolding nx using tl(1) nz by (simp add: mp_get_def upd_mp_def)
    then have "mounts ?s (ms @ [mp])" using m mp tl(1) nz by (simp add: mounts_def mp_get_def upd_mp_def)
    with add show ?thesis using that tl(1) nz by (simp add: mp_get_def upd_mp_def)
  qed
qed

lemma remove_mount:
  assumes m: "mounts s (ms @ [mp])" and r: "mp_refcount (vf_mp s mp) = 2"
  obtains s' where "vfs_remove_mountpoint s mp = Some s'" "mounts s' ms"
    "mp_refcount (vf_mp s' mp) = 1" "vf_heap s' = vf_heap s" "vfs.more s' = vfs.more s"
proof -
  have ll: "llist (mp_succ s) (box_ptr (vf_mp_head s)) (ms @ mp # [])" using m by (simp add: mounts_def)
  have dist: "mp \<notin> set ms" using llist_distinct [OF ll] by simp
  note nx = mounts_last_next [OF m]
  have tl: "vf_mp_tail s = mp" using m by (simp add: mounts_def)
  note w = ll_walk_found [OF ll, of None]
  show ?thesis
  proof (cases "ms = []")
    case True
    then have "box_ptr (vf_mp_head s) = Some mp" using ll by simp
    let ?s = "(snd (mp_drop mp (s\<lparr>vf_mp_lock := 0, vf_mp_head := 0, vf_mp_tail := 0\<rparr>)))\<lparr>vf_mp_lock := 0\<rparr>"
    have "vfs_remove_mountpoint s mp = Some ?s"
      using m w True nx tl r
      by (simp add: vfs_remove_mountpoint_def mounts_def mp_drop_def refcount_dec_and_test_def upd_mp_def)
    moreover have "mounts ?s ms"
      using True r by (simp add: mounts_def mp_drop_def upd_mp_def box_ptr_def refcount_dec_and_test_def)
    ultimately show ?thesis using that r
      by (simp add: mp_drop_def refcount_dec_and_test_def upd_mp_def)
  next
    case False
    define q where "q = last ms"
    obtain us where us: "ms = us @ [q]" using False unfolding q_def by (metis append_butlast_last_id)
    then have qn: "q \<noteq> mp" "q \<noteq> 0" using dist m by (auto simp: mounts_def)
    let ?s = "(snd (mp_drop mp ((upd_mp q (\<lambda>x. x\<lparr>mp_next := 0\<rparr>) s)\<lparr>vf_mp_tail := q\<rparr>)))\<lparr>vf_mp_lock := 0\<rparr>"
    have rem: "vfs_remove_mountpoint s mp = Some ?s"
      using m w False nx tl r qn
      by (simp add: vfs_remove_mountpoint_def mounts_def mp_drop_def refcount_dec_and_test_def upd_mp_def q_def)
    have s: "mp_succ ?s = (mp_succ s)(q := mp_succ s mp)"
      using qn nx by (simp add: r refcount_dec_and_test_def fun_eq_iff mp_drop_def upd_mp_def box_ptr_def Let_def)
    have "llist (mp_succ s) (box_ptr (vf_mp_head s)) (us @ q # mp # [])" using ll us by simp
    from llist_unlink_mid [OF this] have "llist (mp_succ ?s) (box_ptr (vf_mp_head ?s)) ms"
      unfolding s us by (clarsimp simp: r refcount_dec_and_test_def mp_drop_def upd_mp_def Let_def)
    then have "mounts ?s ms" using m us False qn by (simp add: r refcount_dec_and_test_def mounts_def mp_drop_def upd_mp_def Let_def)
    then show ?thesis using rem that r qn
      by (simp add: mp_drop_def refcount_dec_and_test_def upd_mp_def)
  qed
qed

section \<open>Mounting\<close>

text \<open>A sequence of allocations.\<close>

fun kmallocs :: "heap \<Rightarrow> u32 list \<Rightarrow> (u32 list \<times> heap) option" where
  "kmallocs h [] = Some ([], h)"
| "kmallocs h (n # ns) = do { (p, h) \<leftarrow> kmalloc h n; (ps, h) \<leftarrow> kmallocs h ns; Some (p # ps, h) }"

lemma kmallocs_Cons:
  assumes "kmallocs h (n # ns) = Some (p # ps, h')"
  obtains h1 where "kmalloc h n = Some (p, h1)" "kmallocs h1 ns = Some (ps, h')"
  using assms by (auto simp: bind_eq_Some_conv)

lemma find_fs_frame [simp]:
  "vfs_find_fs (s\<lparr>vf_heap := h\<rparr>) type = vfs_find_fs s type"
  "vfs_find_fs (s\<lparr>vf_mp := m\<rparr>) type = vfs_find_fs s type"
  by (simp_all add: vfs_find_fs_def)

lemma create_mountpoint:
  assumes fs: "vfs_find_fs s type = Some f" "f \<noteq> 0"
    and k: "kmallocs (vf_heap s) (SIZEOF_MOUNTPOINT # str_size path # str_size dev # ns) = Some (mp # p # d # qs, h)"
    and nz: "mp \<noteq> 0" "p \<noteq> 0" "d \<noteq> 0" "p \<noteq> d"
  obtains s' where "vfs_create_mountpoint s dev path type = Some (mp, s')"
    "kmallocs (vf_heap s') ns = Some (qs, h)"
    "vf_mp s' = (vf_mp s)(mp := \<lparr>mp_filesystem = f, mp_next = 0, mp_mount_point = p, mp_device_name = d,
       mp_data_pointer = 0, mp_refcount = 1\<rparr>)"
    "vf_str s' = (vf_str s)(p := path, d := dev)" "vf_mp_head s' = vf_mp_head s" "vf_mp_tail s' = vf_mp_tail s"
    "vf_mp_lock s' = vf_mp_lock s" "vfs.more s' = vfs.more s"
proof -
  from k obtain h1 h2 h3 where h: "kmalloc (vf_heap s) SIZEOF_MOUNTPOINT = Some (mp, h1)"
    "kmalloc h1 (str_size path) = Some (p, h2)" "kmalloc h2 (str_size dev) = Some (d, h3)"
    "kmallocs h3 ns = Some (qs, h)" by (elim kmallocs_Cons) blast
  let ?s = "set_str d dev (upd_mp mp (\<lambda>m. m\<lparr>mp_device_name := d\<rparr>)
     ((set_str p path (upd_mp mp (\<lambda>_. \<lparr>mp_filesystem = f, mp_next = 0, mp_mount_point = p, mp_device_name = 0,
       mp_data_pointer = 0, mp_refcount = 1\<rparr>) (s\<lparr>vf_heap := h2\<rparr>)))\<lparr>vf_heap := h3\<rparr>))"
  have "vfs_create_mountpoint s dev path type = Some (mp, ?s)"
    using nz fs(2) h(2,3)
    by (simp add: vfs_create_mountpoint_def vfs_mp_struc_alloc_def fs_kmalloc_def h(1) vfs_assign_mp_fs_def fs(1)
        vfs_mp_path_alloc_def vfs_mp_dev_alloc_def refcount_init_def upd_mp_def set_str_def)
  then show ?thesis using that [of ?s] h(4) by (simp add: upd_mp_def set_str_def)
qed

section \<open>What mounting does\<close>

lemma root_node_create:
  assumes "kmalloc (vf_heap s) SIZEOF_TMPFS_NODE = Some (r, h)" and "r \<noteq> 0"
  shows "tmpfs_op_mount s dev path type = Some (r, upd_tnode r (\<lambda>_. \<lparr>tn_name = ''/'', tn_type = VFS_DIR, tn_mode = 0x1FF, tn_uid = 0, tn_gid = 0,
          tn_size = 0, tn_offset = 0, tn_nlink = 0, tn_ino = 0, tn_pages = 0, tn_page_count = 0,
          tn_parent = 0, tn_children = 0, tn_sibling = 0\<rparr>) (s\<lparr>vf_heap := h\<rparr>))"
  using assms by (simp add: tmpfs_op_mount_def tmpfs_node_internal_create_def fs_kmalloc_def)

text \<open>A mount table does not depend on the heap and the nodes.\<close>

lemma mounts_data:
  assumes "mounts s ms" and "mp_succ s' = mp_succ s" "vf_mp_head s' = vf_mp_head s" "vf_mp_tail s' = vf_mp_tail s" "vf_mp_lock s' = vf_mp_lock s"
  shows "mounts s' ms"
  using assms by (simp add: mounts_def)

lemma mount_tmpfs:
  fixes s :: "'a procfs_scheme"
  assumes m: "mounts s ms" and fs: "vfs_find_fs s type = Some tmpflopfs" "tmpflopfs \<noteq> 0"
    and k: "kmallocs (vf_heap s) [SIZEOF_MOUNTPOINT, str_size path, str_size dev, SIZEOF_TMPFS_NODE] = Some ([mp, p, d, r], h)"
    and nz: "mp \<noteq> 0" "p \<noteq> 0" "d \<noteq> 0" "p \<noteq> d" "r \<noteq> 0" "mp \<notin> set ms"
  obtains s' where "vfs_mount (flop_ops tmpflopfs) s dev path type = Some (0, s')" "mounts s' (ms @ [mp])"
    "mp_filesystem (vf_mp s' mp) = tmpflopfs" "mp_data_pointer (vf_mp s' mp) = r" "mount_path s' mp = path"
    "mp_refcount (vf_mp s' mp) = 2" "tree_ok s' {r} (\<lambda>_. [])"
proof -
  obtain s1 where s1: "vfs_create_mountpoint s dev path type = Some (mp, s1)"
    "kmallocs (vf_heap s1) [SIZEOF_TMPFS_NODE] = Some ([r], h)"
    "vf_mp s1 = (vf_mp s)(mp := \<lparr>mp_filesystem = tmpflopfs, mp_next = 0, mp_mount_point = p, mp_device_name = d,
       mp_data_pointer = 0, mp_refcount = 1\<rparr>)"
    "vf_str s1 = (vf_str s)(p := path, d := dev)" "vf_mp_head s1 = vf_mp_head s" "vf_mp_tail s1 = vf_mp_tail s"
    "vf_mp_lock s1 = vf_mp_lock s"
    using create_mountpoint [OF fs k nz(1-4)] by metis
  have "llist (mp_succ s1) (box_ptr (vf_mp_head s1)) ms = llist (mp_succ s) (box_ptr (vf_mp_head s)) ms"
    unfolding s1(5) by (rule lseg_cong) (use nz(6) s1(3) in \<open>auto\<close>)
  with m s1 have "mounts s1 ms" by (simp add: mounts_def)
  from add_mount [OF this nz(1,6)] s1(3) obtain s2 where s2: "vfs_add_mountpoint s1 mp = Some s2" "mounts s2 (ms @ [mp])"
    "vf_mp s2 mp = (vf_mp s1 mp)\<lparr>mp_refcount := snd (refcount_inc_not_zero (mp_refcount (vf_mp s1 mp)))\<rparr>"
    "vf_heap s2 = vf_heap s1" "vf_str s2 = vf_str s1" by auto
  have r: "kmalloc (vf_heap s2) SIZEOF_TMPFS_NODE = Some (r, h)"
    using s1(2) s2(4) by (auto simp: bind_eq_Some_conv)
  note root = root_node_create [OF r nz(5)]
  have mp: "vf_mp s2 mp = \<lparr>mp_filesystem = tmpflopfs, mp_next = 0, mp_mount_point = p, mp_device_name = d,
       mp_data_pointer = 0, mp_refcount = 2\<rparr>"
    using s2(3) s1(3) by (simp add: refcount_inc_not_zero_def)
  define s3 where "s3 = upd_mp mp (\<lambda>m. m\<lparr>mp_data_pointer := r\<rparr>) (upd_tnode r (\<lambda>_. \<lparr>tn_name = ''/'', tn_type = VFS_DIR,
          tn_mode = 0x1FF, tn_uid = 0, tn_gid = 0,
          tn_size = 0, tn_offset = 0, tn_nlink = 0, tn_ino = 0, tn_pages = 0, tn_page_count = 0,
          tn_parent = 0, tn_children = 0, tn_sibling = 0\<rparr>) (s2\<lparr>vf_heap := h\<rparr>))"
  have "vfs_mount (flop_ops tmpflopfs) s dev path type = Some (0, s3)"
    using s1(1) s2(1) mp fs(2) nz(1,5) root
    by (simp add: vfs_mount_def ops_of_def flop_ops_def tmpfs_ops_def s3_def)
  moreover have "mounts s3 (ms @ [mp])"
    by (rule mounts_data [OF s2(2)]) (auto simp: s3_def upd_mp_def upd_tnode_def fun_eq_iff)
  moreover have "mp_filesystem (vf_mp s3 mp) = tmpflopfs" "mp_data_pointer (vf_mp s3 mp) = r" "mount_path s3 mp = path"
    "mp_refcount (vf_mp s3 mp) = 2"
    using mp s2(5) s1(4) nz(4) by (simp_all add: s3_def upd_mp_def upd_tnode_def)
  moreover have "tree_ok s3 {r} (\<lambda>_. [])" using nz(5) by (simp add: tree_ok_def s3_def upd_mp_def upd_tnode_def box_ptr_def)
  ultimately show ?thesis by (rule that)
qed

text \<open>Mounting the file system in memory. When the file system is registered and the allocations
  succeed, \<open>vfs_mount\<close> returns 0, the new mount point is the last of the table, with the path and a
  fresh empty root directory, and holds two references: the one it is created with and the one of the
  table.\<close>

theorem vfs_mount_correct:
  assumes "mounts s ms" and "vfs_find_fs s type = Some tmpflopfs" and "tmpflopfs \<noteq> 0"
    and "kmallocs (vf_heap s) [SIZEOF_MOUNTPOINT, str_size path, str_size dev, SIZEOF_TMPFS_NODE] = Some ([mp, p, d, r], h)"
    and "0 \<notin> {mp, p, d, r}" and "p \<noteq> d" and "mp \<notin> set ms"
  shows "\<exists>s'. vfs_mount (flop_ops tmpflopfs) s dev path type = Some (0, s') \<and> mounts s' (ms @ [mp]) \<and>
    mp_filesystem (vf_mp s' mp) = tmpflopfs \<and> mount_path s' mp = path \<and> mp_refcount (vf_mp s' mp) = 2 \<and>
    mp_data_pointer (vf_mp s' mp) = r \<and> tree_ok s' {r} (\<lambda>_. [])"
proof -
  from assms(5) have nz: "mp \<noteq> 0" "p \<noteq> 0" "d \<noteq> 0" "r \<noteq> 0" by auto
  show ?thesis
    by (rule mount_tmpfs [OF assms(1-4) nz(1-3) assms(6) nz(4) assms(7)]) blast
qed

section \<open>Unmounting\<close>

lemma unmount_found:
  assumes m: "mounts s (ms @ [mp])" and len: "length (mount_path s mp) < 256"
  shows "find_loop (\<lambda>p. mount_path s p = name) (mp_succ s) (box_ptr (vf_mp_tail s)) =
     Some (if mount_path s mp = name then Some mp else None)"
proof -
  have "llist (mp_succ s) (Some mp) [mp]" using mounts_last_next [OF m] by (simp add: box_ptr_def)
  moreover have "box_ptr (vf_mp_tail s) = Some mp" using m mounts_last_next [OF m] by (simp add: mounts_def box_ptr_def)
  ultimately show ?thesis by (simp only: find_loop_ok) simp
qed

text \<open>Unmounting. Only the mount point that was added last can be unmounted: for any other name the
  call returns -1 and nothing changes. For the last one it returns 0 and takes it off the table; its
  root is freed, but the mount point keeps one of its two references, so that neither it nor its strings
  are ever given back to the heap.\<close>

theorem vfs_unmount_correct:
  fixes s :: "'a procfs_scheme"
  assumes m: "mounts s (ms @ [mp])" and len: "length name < 256" "length (mount_path s mp) < 256"
    and fs: "mp_filesystem (vf_mp s mp) = tmpflopfs" "tmpflopfs \<noteq> 0" and ref: "mp_refcount (vf_mp s mp) = 2"
    and root: "mp_data_pointer (vf_mp s mp) = r" "r \<noteq> 0" and k: "kfree (vf_heap s) r SIZEOF_TMPFS_NODE = Some h"
  shows "if name = mount_path s mp
    then \<exists>s'. vfs_unmount (flop_ops tmpflopfs) s name = Some (0, s') \<and> mounts s' ms \<and> vf_heap s' = h \<and>
      mp_refcount (vf_mp s' mp) = 1
    else vfs_unmount (flop_ops tmpflopfs) s name = Some (-1, s)"
proof (cases "name = mount_path s mp")
  case True
  have f: "find_loop (\<lambda>p. mount_path s p = name) (mp_succ s) (box_ptr (vf_mp_tail s)) = Some (Some mp)"
    using unmount_found [OF m len(2)] True by simp
  let ?s = "s\<lparr>vf_heap := h\<rparr>"
  have "mounts ?s (ms @ [mp])" by (rule mounts_data [OF m]) simp_all
  from remove_mount [OF this] ref obtain s' where s': "vfs_remove_mountpoint ?s mp = Some s'" "mounts s' ms"
    "mp_refcount (vf_mp s' mp) = 1" "vf_heap s' = h" by auto
  have "vfs_unmount (flop_ops tmpflopfs) s name = Some (0, s')"
    using len f fs s'(1) root k
    by (simp add: vfs_unmount_def ops_of_def flop_ops_def tmpfs_ops_def tmpfs_op_unmount_def fs_kfree_def)
  with s' True show ?thesis by auto
next
  case False
  then show ?thesis using unmount_found [OF m len(2), of name] len by (simp add: vfs_unmount_def)
qed

section \<open>Opening\<close>

lemma open_resolved:
  fixes s :: "'a procfs_scheme"
  assumes m: "mounts s (ms @ [mp])" and fs: "mp_filesystem (vf_mp s mp) = tmpflopfs" "tmpflopfs \<noteq> 0"
    and ok: "tree_ok s N K" and root: "mp_data_pointer (vf_mp s mp) \<in> N"
    and xs: "\<forall>x\<in>set xs. segment x" and len: "length (join_path xs) < 255"
    and t: "resolve (names s) K (mp_data_pointer (vf_mp s mp)) xs = Some t" and tz: "t \<noteq> 0"
    and k: "kmallocs (vf_heap s) [str_size (mount_path s mp @ join_path xs), SIZEOF_NODE] = Some ([f, n], h)"
    and nz: "f \<noteq> 0" "n \<noteq> 0" "f \<noteq> mp_mount_point (vf_mp s mp)" and mode: "mode AND VFS_MODE_APPEND \<noteq> VFS_MODE_APPEND"
  shows "\<exists>s'. vfs_open (flop_ops tmpflopfs) s (mount_path s mp @ join_path xs) mode = Some (n, s') \<and>
    vn_data (vf_node s' n) = t \<and> vn_mode (vf_node s' n) = mode \<and> vn_mountpoint (vf_node s' n) = mp \<and>
    mp_refcount (vf_mp s' mp) = snd (refcount_inc_not_zero (mp_refcount (vf_mp s mp))) \<and> tree_ok s' N K \<and>
    mp_filesystem (vf_mp s' mp) = tmpflopfs \<and> procfs.more s' = procfs.more s"
proof -
  let ?name = "mount_path s mp @ join_path xs"
  from k obtain h1 where h: "kmalloc (vf_heap s) (str_size ?name) = Some (f, h1)" "kmalloc h1 SIZEOF_NODE = Some (n, h)"
    by (auto simp: bind_eq_Some_conv)
  let ?s1 = "set_str f ?name (s\<lparr>vf_heap := h1\<rparr>)"
  have "mounts ?s1 (ms @ [mp])" by (rule mounts_data [OF m]) (auto simp: set_str_def)
  from lookup_last [OF this, of ?name] have l: "vfs_file_to_mountpoint ?s1 ?name = Some mp"
    using nz(3) by (simp add: set_str_def starts_with_def)
  have rel: "vfs_resolve_mountpoint_and_path s ?name = Some (mp, join_path xs, ?s1)"
    using h(1) nz l mounts_last_next [OF m] by (simp add: vfs_resolve_mountpoint_and_path_def fs_kmalloc_def) (simp add: set_str_def)
  let ?s2 = "?s1\<lparr>vf_heap := h\<rparr>"
  let ?st = "\<lparr>st_mode = 0, st_uid = 0, st_gid = 0, st_size = 0, st_atime = 0,
          st_mtime = 0, st_ctime = 0, st_nlink = 1, st_ino = 0, st_dev = 0\<rparr>"
  define s3 where "s3 = upd_node n (\<lambda>x. x\<lparr>vn_stat := ?st\<rparr>) (mp_get mp (upd_node n (\<lambda>x. x\<lparr>vn_mountpoint := mp, vn_mode := mode,
      vn_refcount := refcount_init (vn_refcount x)\<rparr>) ?s2))"
  have alloc: "vfs_node_alloc ?s1 mp mode = Some (0, n, s3)"
    using h(2) nz(2) by (simp add: vfs_node_alloc_def fs_kmalloc_def s3_def set_str_def)
  have keep: "tf_node s3 = tf_node s" "vn_mountpoint (vf_node s3 n) = mp" "vn_mode (vf_node s3 n) = mode"
    "mp_data_pointer (vf_mp s3 mp) = mp_data_pointer (vf_mp s mp)" "mp_filesystem (vf_mp s3 mp) = tmpflopfs"
    "mp_refcount (vf_mp s3 mp) = snd (refcount_inc_not_zero (mp_refcount (vf_mp s mp)))"
    "procfs.more s3 = procfs.more s"
    using fs(1) by (simp_all add: s3_def upd_node_def mp_get_def upd_mp_def set_str_def)
  have ok3: "tree_ok s3 N K" by (rule tree_ok_cong [OF ok]) (simp add: keep)
  have walk: "tmpfs_walk_path s3 (mp_data_pointer (vf_mp s mp)) (join_path xs) = Some t"
    using walk_path_resolve(2) [OF ok3 root xs len] t by (simp add: keep ptr_or_null_def)
  obtain s4 where o: "tmpfs_op_open s3 n (join_path xs) = Some (n, s4)" "vn_data (vf_node s4 n) = t"
      "vn_mode (vf_node s4 n) = mode" "vn_mountpoint (vf_node s4 n) = mp" "vf_mp s4 = vf_mp s3" "tf_node s4 = tf_node s3"
      "procfs.more s4 = procfs.more s3"
    using walk tz keep by (simp add: tmpfs_op_open_def Let_def upd_node_def)
  have "vfs_try_open (flop_ops tmpflopfs) s3 n mp (join_path xs) = Some (0, s4)"
    using o(1) nz(2) fs(2) keep(5) by (simp add: vfs_try_open_def ops_of_def flop_ops_def tmpfs_ops_def)
  then have "vfs_open (flop_ops tmpflopfs) s ?name mode = Some (n, s4)"
    using rel alloc mode o(3) mounts_last_next(2) [OF m] by (simp add: vfs_open_def vfs_seek_if_append_def)
  moreover have "tree_ok s4 N K" by (rule tree_ok_cong [OF ok3]) (simp add: o(6))
  ultimately show ?thesis using o keep by auto
qed

text \<open>Opening an existing file by its path. In the file system mounted last, \<open>vfs_open\<close> of the mount
  path followed by the segments of the file returns a fresh node for exactly the file that the segments
  lead to, with the mode asked for; the tree is not changed and the mount point gains a reference.\<close>

theorem vfs_open_correct:
  fixes s :: "'a procfs_scheme"
  assumes m: "mounts s (ms @ [mp])" and fs: "mp_filesystem (vf_mp s mp) = tmpflopfs" "tmpflopfs \<noteq> 0"
    and ok: "tree_ok s N K" and root: "mp_data_pointer (vf_mp s mp) \<in> N"
    and xs: "\<forall>x\<in>set xs. segment x" and len: "length (join_path xs) < 255"
    and t: "resolve (names s) K (mp_data_pointer (vf_mp s mp)) xs = Some t" and tz: "t \<noteq> 0"
    and k: "kmallocs (vf_heap s) [str_size (mount_path s mp @ join_path xs), SIZEOF_NODE] = Some ([f, n], h)"
    and nz: "f \<noteq> 0" "n \<noteq> 0" "f \<noteq> mp_mount_point (vf_mp s mp)" and mode: "mode AND VFS_MODE_APPEND \<noteq> VFS_MODE_APPEND"
  shows "\<exists>s'. vfs_open (flop_ops tmpflopfs) s (mount_path s mp @ join_path xs) mode = Some (n, s') \<and>
    vn_data (vf_node s' n) = t \<and> vn_mode (vf_node s' n) = mode \<and> vn_mountpoint (vf_node s' n) = mp \<and>
    mp_refcount (vf_mp s' mp) = snd (refcount_inc_not_zero (mp_refcount (vf_mp s mp))) \<and> tree_ok s' N K"
  using open_resolved [OF assms] by blast

section \<open>Concrete runs\<close>

text \<open>
  The tree of \<open>demo_tree\<close>, mounted on \<open>/\<close> as the only file system. \<open>demo_next\<close> evaluates one allocation of
  a sequence, from the first box of the heap.
\<close>

definition demo_vfs :: procfs where
  "demo_vfs = \<lparr>vf_heap = vf_heap demo_tree, vf_fs = vf_fs demo_tree, vf_fs_list = 0x5000,
     vf_mp = (\<lambda>_. no_mp)(0x6000 := no_mp\<lparr>mp_filesystem := 0x5000, mp_mount_point := 0x6100, mp_data_pointer := 0x7000,
       mp_refcount := 2\<rparr>),
     vf_mp_head = 0x6000, vf_mp_tail = 0x6000, vf_mp_lock = 0, vf_node = vf_node demo_tree, vf_str = (\<lambda>_. [])(0x6100 := ''/''),
     vf_list = vf_list demo_tree, vf_entry = vf_entry demo_tree, vf_stale = vf_stale demo_tree,
     tf_node = tf_node demo_tree, tf_array = tf_array demo_tree, pf_count = 0, pf_fs = 0, pf_lock = 0, pf_entries = 0\<rparr>"

lemma demo_mounts: "mounts demo_vfs ([] @ [0x6000])"
  by (simp add: mounts_def demo_vfs_def box_ptr_def no_mp_def)

lemma demo_vfs_tree:
  "tree_ok demo_vfs {0x7000, 0x7100, 0x8000} ((\<lambda>_. [])(0x7000 := [0x7100], 0x7100 := [0x8000]))"
  by (simp add: tree_ok_def demo_vfs_def demo_tree_def demo_fs_def no_tnode_def box_ptr_def)

lemma demo_next:
  "n \<noteq> 0 \<and> n \<le> PAGE_SIZE \<and> hp_initialized h \<and> hp_boxes h = 0x100000 \<and> hp_lock h = 0 \<Longrightarrow>
   heap_box_alloc (h\<lparr>hp_lock := 1\<rparr>) 0x100000 n = Some (r, h') \<Longrightarrow> r \<noteq> 0 \<Longrightarrow>
   kmallocs (h'\<lparr>hp_lock := lock_release (hp_lock h')\<rparr>) ns = Some (ps, h'') \<Longrightarrow> kmallocs h (n # ns) = Some (r # ps, h'')"
  unfolding kmalloc_def heap_box_iterate_def kmallocs.simps
  by (subst heap_box_iterate_loop.simps) (simp add: box_ptr_def not_less [symmetric])

lemmas demo_alloc_simps = heap_box_alloc_def heap_map_find_free_def BLOCKS_PER_BOX_def Let_def blocks_needed_def upd_box_def

lemma demo_open_kmallocs: "\<exists>p h. kmallocs (vf_heap demo_vfs) [5, SIZEOF_NODE] = Some ([0x100030, p], h) \<and> p \<noteq> 0"
  apply (intro exI conjI)
   apply (rule demo_next)
      apply (simp add: demo_vfs_def demo_tree_def demo_fs_def demo_heap_def)
     apply (simp add: demo_vfs_def demo_tree_def demo_fs_def demo_heap_def demo_alloc_simps)
     apply (simp add: heap_map_find_loop.simps map_bit_def demo_mem_def)
    apply simp
   apply (rule demo_next)
      apply (simp add: SIZEOF_NODE_def upd_box_def)
     apply (simp add: demo_alloc_simps SIZEOF_NODE_def)
     apply (simp add: heap_map_find_loop.simps map_bit_def store32_def)
    apply simp
   apply simp
  apply simp
  done

theorem vfs_sees_only_last_mount_witness:
  "vfs_file_to_mountpoint demo_vfs ''/a'' = Some 0x6000"
  using vfs_sees_only_last_mount [OF demo_mounts, of "''/a''"] by (simp add: demo_vfs_def no_mp_def starts_with_def)

theorem vfs_open_correct_witness:
  "\<exists>n s'. vfs_open (flop_ops 0x5000) demo_vfs ''/a/b'' VFS_MODE_R = Some (n, s') \<and> vn_data (vf_node s' n) = 0x8000"
proof -
  obtain p h where k: "kmallocs (vf_heap demo_vfs) [5, SIZEOF_NODE] = Some ([0x100030, p], h)" "p \<noteq> 0"
    using demo_open_kmallocs by blast
  have "mount_path demo_vfs 0x6000 = ''/''" "mp_data_pointer (vf_mp demo_vfs 0x6000) = 0x7000"
    by (simp_all add: demo_vfs_def no_mp_def)
  moreover have "resolve (names demo_vfs) ((\<lambda>_. [])(0x7000 := [0x7100], 0x7100 := [0x8000])) 0x7000 [''a'', ''b''] = Some 0x8000"
    by (simp add: demo_vfs_def demo_tree_def no_tnode_def)
  moreover have "mp_filesystem (vf_mp demo_vfs 0x6000) = 0x5000" "mp_mount_point (vf_mp demo_vfs 0x6000) = 0x6100"
    by (simp_all add: demo_vfs_def)
  ultimately show ?thesis
    using vfs_open_correct [OF demo_mounts _ _ demo_vfs_tree, of "0x5000" "[''a'', ''b'']" "0x8000" "0x100030" p h VFS_MODE_R] k
    by (auto simp: segment_def str_size_def VFS_MODE_R_def VFS_MODE_APPEND_def)
qed

text \<open>Mounting a second time, on the path \<open>/m\<close>, from the empty table and heap.\<close>

definition demo_vfs0 :: procfs where
  "demo_vfs0 = demo_vfs\<lparr>vf_mp := (\<lambda>_. no_mp), vf_mp_head := 0, vf_mp_tail := 0\<rparr>"

lemma demo_mount_kmallocs:
  "\<exists>p d r h. kmallocs (vf_heap demo_vfs0) [SIZEOF_MOUNTPOINT, 3, 2, SIZEOF_TMPFS_NODE] = Some ([0x100030, p, d, r], h) \<and>
     p \<noteq> 0 \<and> d \<noteq> 0 \<and> r \<noteq> 0 \<and> p \<noteq> d"
  apply (intro exI conjI)
      apply (rule demo_next)
         apply (simp add: demo_vfs0_def demo_vfs_def demo_tree_def demo_fs_def demo_heap_def SIZEOF_MOUNTPOINT_def)
        apply (simp add: demo_vfs0_def demo_vfs_def demo_tree_def demo_fs_def demo_heap_def demo_alloc_simps SIZEOF_MOUNTPOINT_def)
        apply (simp add: heap_map_find_loop.simps map_bit_def demo_mem_def)
       apply simp
      apply (rule demo_next)
         apply (simp add: upd_box_def)
        apply (simp add: demo_alloc_simps)
        apply (simp add: heap_map_find_loop.simps map_bit_def store32_def)
       apply simp
      apply (rule demo_next)
         apply (simp add: upd_box_def)
        apply (simp add: demo_alloc_simps)
        apply (simp add: heap_map_find_loop.simps map_bit_def store32_def)
       apply simp
      apply (rule demo_next)
         apply (simp add: SIZEOF_TMPFS_NODE_def upd_box_def)
        apply (simp add: demo_alloc_simps SIZEOF_TMPFS_NODE_def)
        apply (simp add: heap_map_find_loop.simps map_bit_def store32_def)
       apply simp
      apply simp
     apply simp_all
  done

theorem vfs_mount_correct_witness:
  "\<exists>s'. vfs_mount (flop_ops 0x5000) demo_vfs0 ''d'' ''/m'' VFS_FS_TMPFS = Some (0, s') \<and> mounts s' [0x100030] \<and>
     mount_path s' 0x100030 = ''/m''"
proof -
  obtain p d r h where k: "kmallocs (vf_heap demo_vfs0) [SIZEOF_MOUNTPOINT, 3, 2, SIZEOF_TMPFS_NODE] = Some ([0x100030, p, d, r], h)"
    "p \<noteq> 0" "d \<noteq> 0" "r \<noteq> 0" "p \<noteq> d" using demo_mount_kmallocs by blast
  have "mounts demo_vfs0 []" by (simp add: mounts_def demo_vfs0_def demo_vfs_def box_ptr_def)
  moreover have "vfs_find_fs demo_vfs0 VFS_FS_TMPFS = Some 0x5000"
    by (simp add: vfs_find_fs_def demo_vfs0_def demo_vfs_def demo_tree_def demo_fs_def box_ptr_def find_loop.simps)
  ultimately show ?thesis
    using vfs_mount_correct [of demo_vfs0 "[]" VFS_FS_TMPFS "0x5000" "''/m''" "''d''" "0x100030" p d r h] k
    by (auto simp: str_size_def)
qed

text \<open>Unmounting a file system whose root is the first of the two objects of a box.\<close>

definition demo_vfs2 :: procfs where
  "demo_vfs2 = demo_vfs\<lparr>vf_heap := demo_two, vf_mp := (vf_mp demo_vfs)(0x6000 := (vf_mp demo_vfs 0x6000)\<lparr>mp_data_pointer := 0x100030\<rparr>)\<rparr>"

theorem vfs_unmount_correct_witness:
  "(\<exists>s'. vfs_unmount (flop_ops 0x5000) demo_vfs2 ''/'' = Some (0, s') \<and> mounts s' []) \<and>
   vfs_unmount (flop_ops 0x5000) demo_vfs2 ''/x'' = Some (-1, demo_vfs2)"
proof -
  have 1: "load32 (hp_mem demo_two) (0x100000 + 44 + of_nat (32 * 0)) = 0x100000"
    by (simp add: demo_two_def load32_def store32_def)
  have 2: "blocks_needed (load32 (hp_mem demo_two) (0x100000 + 44 + of_nat (32 * 0) + 4)) = 3"
    by (simp add: demo_two_def load32_def store32_def blocks_needed_def)
  have 3: "(0, 3) \<in> {(0, 3), (3, 1)}" "{(0 :: nat, 3 :: nat), (3, 1)} - {(0, 3)} \<noteq> {}" by auto
  from kfree_ok [OF demo_two_ok 3 1 2, of SIZEOF_TMPFS_NODE] obtain h
    where h: "kfree (vf_heap demo_vfs2) 0x100030 SIZEOF_TMPFS_NODE = Some h" by (auto simp: demo_vfs2_def)
  have m: "mounts demo_vfs2 ([] @ [0x6000])"
    by (rule mounts_data [OF demo_mounts]) (auto simp: demo_vfs2_def fun_eq_iff)
  have mp: "mp_filesystem (vf_mp demo_vfs2 0x6000) = 0x5000" "mp_refcount (vf_mp demo_vfs2 0x6000) = 2"
    "mp_data_pointer (vf_mp demo_vfs2 0x6000) = 0x100030" "mount_path demo_vfs2 0x6000 = ''/''"
    by (simp_all add: demo_vfs2_def demo_vfs_def)
  show ?thesis
    using vfs_unmount_correct [OF m _ _ mp(1) _ mp(2,3) _ h, of "''/''"]
      vfs_unmount_correct [OF m _ _ mp(1) _ mp(2,3) _ h, of "''/x''"] mp(4) by auto
qed

end
