(* ===== verification/Kernel.thy ===== *)
theory Kernel
  imports Procfs Process Sched Pipe VmmRange
begin

text \<open>
  The state of the whole kernel, for the code that works on several components at once: the rest of
  task/sched.c and task/process.c (creating threads and processes) and the system calls. There is one
  heap, that of the file systems; the state of virtual memory works on it through \<open>kernel_vm\<close>.
  Addresses of threads and processes are the numbers that task/sched.c and task/process.c are
  modelled with. The bytes of user memory are those of the address space that is loaded.
\<close>

section \<open>State\<close>

record file_descriptor =
  fd_node :: u32
  fd_pipe :: u32
  fd_refcount :: refcount_t

record cpu_ctx =
  cx_edi :: u32
  cx_esi :: u32
  cx_ebx :: u32
  cx_ebp :: u32
  cx_eip :: u32

abbreviation MAX_PROC_FDS :: nat where "MAX_PROC_FDS \<equiv> 128"

text \<open>
  \<open>k_fds p i\<close> is the descriptor \<open>i\<close> of process \<open>p\<close>; \<open>k_tlist\<close> the thread lists of processes by address;
  \<open>k_kstack\<close>, \<open>k_context\<close> and \<open>k_tname\<close> the fields of a thread that its creation sets; \<open>k_stat\<close> the places
  of user programs for the results of \<open>stat\<close>; \<open>k_console\<close> what has been printed, oldest first.
\<close>

record kernel = procfs +
  k_procs :: processes
  k_fds :: "nat \<Rightarrow> nat \<Rightarrow> file_descriptor"
  k_info :: proc_info
  k_tbl :: proc_table
  k_init_process :: "nat option"
  k_sched :: scheduler
  k_stealer :: "nat option"
  k_tlist :: "u32 \<Rightarrow> thread_list"
  k_kstack :: "nat \<Rightarrow> u32"
  k_context :: "nat \<Rightarrow> cpu_ctx"
  k_tname :: "nat \<Rightarrow> u32"
  k_pipe :: "u32 \<Rightarrow> pipe"
  k_vm :: vm
  k_stat :: "u32 \<Rightarrow> stat_t"
  k_console :: "string list"

section \<open>Components\<close>

definition kernel_vm :: "'a kernel_scheme \<Rightarrow> vm" where
  "kernel_vm s = (k_vm s)\<lparr>vm_heap := vf_heap s\<rparr>"

definition set_vm :: "vm \<Rightarrow> 'a kernel_scheme \<Rightarrow> 'a kernel_scheme" where
  "set_vm v s = s\<lparr>k_vm := v, vf_heap := vm_heap v\<rparr>"

definition on_vm :: "(vm \<Rightarrow> ('r \<times> vm) option) \<Rightarrow> 'a kernel_scheme \<Rightarrow> ('r \<times> 'a kernel_scheme) option" where
  "on_vm f s = do { (r, v) \<leftarrow> f (kernel_vm s); Some (r, set_vm v s) }"

definition upd_pmm :: "buddy_allocator \<Rightarrow> 'a vfs_scheme \<Rightarrow> 'a vfs_scheme" where
  "upd_pmm b s = s\<lparr>vf_heap := (vf_heap s)\<lparr>hp_pmm := b\<rparr>\<rparr>"

definition proc_get_current :: "'a kernel_scheme \<Rightarrow> nat option" where
  "proc_get_current s = current_process (k_sched s)"

definition upd_fd :: "nat \<Rightarrow> nat \<Rightarrow> (file_descriptor \<Rightarrow> file_descriptor) \<Rightarrow> 'a kernel_scheme \<Rightarrow> 'a kernel_scheme" where
  "upd_fd p i f s = s\<lparr>k_fds := (k_fds s)(p := (k_fds s p)(i := f (k_fds s p i)))\<rparr>"

definition upd_proc :: "nat \<Rightarrow> (process \<Rightarrow> process) \<Rightarrow> 'a kernel_scheme \<Rightarrow> 'a kernel_scheme" where
  "upd_proc p f s = s\<lparr>k_procs := upd_process p f (k_procs s)\<rparr>"

text \<open>A string in memory, and storing one with its terminator.\<close>

definition string_at :: "mem \<Rightarrow> u32 \<Rightarrow> string option" where
  "string_at m p = map_option (\<lambda>n. map (\<lambda>i. char_of (unat (m (p + of_nat i)))) [0..<unat n]) (flopstrlen m p)"

fun store_string :: "mem \<Rightarrow> u32 \<Rightarrow> string \<Rightarrow> mem" where
  "store_string m p [] = m(p := 0)"
| "store_string m p (c # cs) = store_string (m(p := of_char c)) (p + 1) cs"

lemma kernel_vm_set_vm [simp]: "kernel_vm (set_vm v s) = v"
  by (simp add: kernel_vm_def set_vm_def)

lemma set_vm_heap [simp]: "vf_heap (set_vm v s) = vm_heap v" "vm_heap (kernel_vm s) = vf_heap s"
  by (simp_all add: kernel_vm_def set_vm_def)

text \<open>Sizes of structures on this machine.\<close>

definition SIZEOF_THREAD :: u32 where "SIZEOF_THREAD = 96"
definition SIZEOF_THREAD_LIST :: u32 where "SIZEOF_THREAD_LIST = 20"
definition SIZEOF_FD :: u32 where "SIZEOF_FD = 12"
definition SIZEOF_PROCESS :: u32 where "SIZEOF_PROCESS = 1748"
definition SIZEOF_PIPE :: u32 where "SIZEOF_PIPE = 536"

text \<open>The descriptors are 16 bytes from the start of a process.\<close>

definition FDS_OFFSET :: u32 where "FDS_OFFSET = 16"

definition fd_address :: "nat \<Rightarrow> nat \<Rightarrow> u32" where
  "fd_address p i = of_nat p + FDS_OFFSET + of_nat i * SIZEOF_FD"

end
