(* ===== verification/Kthread.thy ===== *)
theory Kthread
  imports Kernel
begin

text \<open>
  task/sched.c, creating threads: kernel and user stacks, the thread structure, the lists it goes on,
  and the start of the scheduler. Entry points and names are addresses.
\<close>

section \<open>Stacks\<close>

abbreviation USER_STACK_TOP :: u32 where "USER_STACK_TOP \<equiv> 0xC0000000"
abbreviation USER_STACK_SIZE :: u32 where "USER_STACK_SIZE \<equiv> 0x1000"
abbreviation KERNEL_STACK_PAGES :: u32 where "KERNEL_STACK_PAGES \<equiv> 1"

text \<open>
  sched.c declares \<open>kernel_region\<close> as a pointer, while mem/vmm.c defines it as a structure: what the
  scheduler takes for the pointer is the first word of the structure, the address of the directory.
  \<open>K\<close> is the address of the structure.
\<close>

definition kernel_region_pointer :: "'a kernel_scheme \<Rightarrow> u32 \<Rightarrow> u32" where
  "kernel_region_pointer s K = rg_pg_dir (vm_region (kernel_vm s) K)"

text \<open>The page directory that \<open>sched_determine_and_switch\<close> reaches from a process, or from \<open>kernel_region\<close>.\<close>

definition region_pd :: "'a kernel_scheme \<Rightarrow> u32 \<Rightarrow> nat option \<Rightarrow> u32 option" where
  "region_pd s K process =
     (let r = (case process of Some p \<Rightarrow> p_region (k_procs s p) | None \<Rightarrow> kernel_region_pointer s K)
      in if r = 0 then None else Some (rg_pg_dir (vm_region (kernel_vm s) r)))"

definition sched_internal_alloc_user_stack :: "'a kernel_scheme \<Rightarrow> nat \<Rightarrow> u32 \<Rightarrow> (u32 \<times> 'a kernel_scheme) option" where
  "sched_internal_alloc_user_stack s process stack_index = do {
     let user_stack_top = USER_STACK_TOP - stack_index * USER_STACK_SIZE;
     (phys, s) \<leftarrow> on_vm page_alloc s;
     if phys = 0 then Some (0, s)
     else do {
       (r, s) \<leftarrow> on_vm (\<lambda>v. vmm_map v (p_region (k_procs s process)) (user_stack_top - USER_STACK_SIZE) phys
          (PAGE_RW OR PAGE_USER)) s;
       if r < 0 then do {
         v \<leftarrow> page_free (kernel_vm s) phys;
         Some (0, set_vm v s)
       } else Some (user_stack_top, s)
     }
   }"

text \<open>\<open>routine\<close> is the address of \<open>usermode_entry_routine\<close>.\<close>

definition sched_internal_setup_thread_stack :: "u32 \<Rightarrow> 'a kernel_scheme \<Rightarrow> nat \<Rightarrow> u32 \<Rightarrow> u32 \<Rightarrow> 'a kernel_scheme" where
  "sched_internal_setup_thread_stack routine s t start user_stack_top =
     (let kstack = k_kstack s t + 4096;
          kstack = kstack - 4; m = store32 (fs_mem s) kstack start;
          kstack = kstack - 4; m = store32 m kstack user_stack_top
      in (set_mem m s)\<lparr>k_context := (k_context s)(t := (k_context s t)\<lparr>cx_eip := routine\<rparr>),
           k_kstack := (k_kstack s)(t := kstack)\<rparr>)"

definition sched_internal_fetch_next_stack_index :: "'a kernel_scheme \<Rightarrow> nat \<Rightarrow> u32" where
  "sched_internal_fetch_next_stack_index s process =
     (let l = p_threads (k_procs s process) in if l \<noteq> 0 then tl_count (k_tlist s l) else 0)"

definition sched_internal_init_thread_stack_alloc ::
  "u32 \<Rightarrow> 'a kernel_scheme \<Rightarrow> nat \<Rightarrow> (u32 \<times> 'a kernel_scheme) option" where
  "sched_internal_init_thread_stack_alloc K s t = do {
     (pa, b) \<leftarrow> pmm_alloc_pages (hp_pmm (vf_heap s)) 0 KERNEL_STACK_PAGES;
     let s = upd_pmm b s;
     (case pa of
        None \<Rightarrow> Some (0, s)
      | Some pa \<Rightarrow> do {
          (va, s) \<leftarrow> on_vm (\<lambda>v. vmm_alloc v (kernel_region_pointer s K) KERNEL_STACK_PAGES (PAGE_PRESENT OR PAGE_RW)) s;
          if va = -1 then do {
            b \<leftarrow> pmm_free_pages (hp_pmm (vf_heap s)) pa 0 KERNEL_STACK_PAGES;
            Some (0, upd_pmm b s)
          } else do {
            (_, s) \<leftarrow> on_vm (\<lambda>v. vmm_map v (kernel_region_pointer s K) va pa (PAGE_PRESENT OR PAGE_RW)) s;
            let stack = va + KERNEL_STACK_PAGES * PAGE_SIZE;
            Some (stack, s\<lparr>k_kstack := (k_kstack s)(t := stack)\<rparr>)
          }
        })
   }"

section \<open>Threads\<close>

definition zero_thread :: thread where
  "zero_thread = \<lparr>t_next = None, t_cls = SCHED_CLASS_REALTIME, t_base = 0, t_effective = 0, t_state = THREAD_READY,
     t_process = None, t_user = False, t_id = 0, t_uptime = 0, t_wait = 0, t_time_slice = 0, t_wake_time = 0,
     t_ts_next = None, t_blocked_lock = 0, t_pi_owner = None\<rparr>"

definition upd_k_thread :: "nat \<Rightarrow> (thread \<Rightarrow> thread) \<Rightarrow> 'a kernel_scheme \<Rightarrow> 'a kernel_scheme" where
  "upd_k_thread t f s = s\<lparr>k_sched := (k_sched s)\<lparr>threads := upd_thread t f (threads (k_sched s))\<rparr>\<rparr>"

definition sched_init_thread_kernel_or_user_list_insert ::
  "'a kernel_scheme \<Rightarrow> nat \<Rightarrow> nat option \<Rightarrow> bool \<Rightarrow> int \<times> 'a kernel_scheme" where
  "sched_init_thread_kernel_or_user_list_insert s t process user =
     (if user then
        let s = upd_k_thread t (\<lambda>x. x\<lparr>t_user := True\<rparr>) s
        in if process = None then (-1, s) else (0, upd_k_thread t (\<lambda>x. x\<lparr>t_process := process\<rparr>) s)
      else
        let s = upd_k_thread t (\<lambda>x. x\<lparr>t_user := False\<rparr>) s
        in if process \<noteq> None then (-1, s) else (0, upd_k_thread t (\<lambda>x. x\<lparr>t_process := None\<rparr>) s))"

definition sched_internal_init_thread ::
  "u32 \<Rightarrow> 'a kernel_scheme \<Rightarrow> u32 \<Rightarrow> u32 \<Rightarrow> u32 \<Rightarrow> bool \<Rightarrow> nat option \<Rightarrow> (nat option \<times> 'a kernel_scheme) option" where
  "sched_internal_init_thread K s start priority name user process = do {
     (a, s) \<leftarrow> fs_kmalloc s SIZEOF_THREAD;
     if a = 0 then Some (None, s)
     else do {
       let t = unat a;
       let s = upd_k_thread t (\<lambda>_. zero_thread) s;
       (stack, s) \<leftarrow> sched_internal_init_thread_stack_alloc K s t;
       let s = s\<lparr>k_kstack := (k_kstack s)(t := stack)\<rparr>;
       let s = upd_k_thread t (\<lambda>x. x\<lparr>t_base := priority, t_effective := priority\<rparr>) s;
       let s = s\<lparr>k_context := (k_context s)(t := \<lparr>cx_edi = 0, cx_esi = 0, cx_ebx = 0, cx_ebp = 0, cx_eip = start\<rparr>)\<rparr>;
       let s = upd_k_thread t (\<lambda>x. x\<lparr>t_cls := SCHED_CLASS_NORMAL\<rparr>) s;
       let (r, s) = sched_init_thread_kernel_or_user_list_insert s t process user;
       if r < 0 then do {
         s \<leftarrow> fs_kfree s (k_kstack s t) 4096;
         s \<leftarrow> fs_kfree s a SIZEOF_THREAD;
         Some (None, s)
       } else do {
         let tid = next_tid (k_sched s);
         let s = s\<lparr>k_sched := (k_sched s)\<lparr>next_tid := tid + 1\<rparr>, k_tname := (k_tname s)(t := name)\<rparr>;
         Some (Some t, upd_k_thread t (\<lambda>x. x\<lparr>t_id := tid, t_uptime := 0, t_wait := 0, t_time_slice := priority * 2\<rparr>) s)
       }
     }
   }"

section \<open>Lists\<close>

text \<open>\<open>sched_thread_list_add\<close> on a list of a process and on the two lists of the scheduler.\<close>

definition process_list_add :: "'a kernel_scheme \<Rightarrow> nat \<Rightarrow> u32 \<Rightarrow> 'a kernel_scheme option" where
  "process_list_add s t l =
     (if l = 0 then Some s
      else do {
        (th, x) \<leftarrow> sched_thread_list_add (threads (k_sched s), k_tlist s l) (Some t);
        Some (s\<lparr>k_sched := (k_sched s)\<lparr>threads := th\<rparr>, k_tlist := (k_tlist s)(l := x)\<rparr>)
      })"

definition user_threads_add :: "'a kernel_scheme \<Rightarrow> nat \<Rightarrow> 'a kernel_scheme option" where
  "user_threads_add s t = do {
     (th, x) \<leftarrow> sched_thread_list_add (threads (k_sched s), user_threads (k_sched s)) (Some t);
     Some (s\<lparr>k_sched := (k_sched s)\<lparr>threads := th, user_threads := x\<rparr>\<rparr>)
   }"

definition kernel_threads_add :: "'a kernel_scheme \<Rightarrow> nat \<Rightarrow> 'a kernel_scheme option" where
  "kernel_threads_add s t = do {
     (th, x) \<leftarrow> sched_thread_list_add (threads (k_sched s), kernel_threads (k_sched s)) (Some t);
     Some (s\<lparr>k_sched := (k_sched s)\<lparr>threads := th, kernel_threads := x\<rparr>\<rparr>)
   }"

definition ready_queue_add :: "'a kernel_scheme \<Rightarrow> nat \<Rightarrow> 'a kernel_scheme option" where
  "ready_queue_add s t = do {
     (th, x) \<leftarrow> sched_thread_list_add (threads (k_sched s), ready_queue (k_sched s)) (Some t);
     Some (s\<lparr>k_sched := (k_sched s)\<lparr>threads := th, ready_queue := x\<rparr>\<rparr>)
   }"

section \<open>Creation\<close>

definition sched_create_user_thread ::
  "u32 \<Rightarrow> u32 \<Rightarrow> 'a kernel_scheme \<Rightarrow> u32 \<Rightarrow> u32 \<Rightarrow> u32 \<Rightarrow> nat option \<Rightarrow> (nat option \<times> 'a kernel_scheme) option" where
  "sched_create_user_thread K routine s start priority name process =
     (case process of
        None \<Rightarrow> Some (None, s)
      | Some p \<Rightarrow> do {
          (ok, s) \<leftarrow>
            (if p_threads (k_procs s p) = 0 then do {
               (l, s) \<leftarrow> fs_kmalloc s SIZEOF_THREAD_LIST;
               let s = upd_proc p (\<lambda>x. x\<lparr>p_threads := l\<rparr>) s;
               if l = 0 then Some (False, s)
               else Some (True, s\<lparr>k_tlist := (k_tlist s)(l :=
                      \<lparr>tl_head = None, tl_tail = None, tl_count = 0, tl_lock = spinlock_init 0\<rparr>)\<rparr>)
             } else Some (True, s));
          if \<not> ok then Some (None, s)
          else do {
            (new, s) \<leftarrow> sched_internal_init_thread K s routine priority name True (Some p);
            (case new of
               None \<Rightarrow> Some (None, s)
             | Some t \<Rightarrow> do {
                 let s = upd_k_thread t (\<lambda>x. x\<lparr>t_cls := SCHED_CLASS_NORMAL\<rparr>) s;
                 let stack_index = sched_internal_fetch_next_stack_index s p;
                 (user_stack_top, s) \<leftarrow> sched_internal_alloc_user_stack s p stack_index;
                 if user_stack_top = 0 then do {
                   s \<leftarrow> fs_kfree s (k_kstack s t) 4096;
                   s \<leftarrow> fs_kfree s (of_nat t) SIZEOF_THREAD;
                   Some (None, s)
                 } else do {
                   let s = sched_internal_setup_thread_stack routine s t start user_stack_top;
                   s \<leftarrow> process_list_add s t (p_threads (k_procs s p));
                   s \<leftarrow> user_threads_add s t;
                   Some (Some t, s)
                 }
               })
          }
        })"

definition sched_create_kernel_thread ::
  "u32 \<Rightarrow> 'a kernel_scheme \<Rightarrow> u32 \<Rightarrow> u32 \<Rightarrow> u32 \<Rightarrow> (nat option \<times> 'a kernel_scheme) option" where
  "sched_create_kernel_thread K s start priority name = do {
     (new, s) \<leftarrow> sched_internal_init_thread K s start priority name False None;
     (case new of
        None \<Rightarrow> None
      | Some t \<Rightarrow> do {
          let s = upd_k_thread t (\<lambda>x. x\<lparr>t_cls := SCHED_CLASS_REALTIME\<rparr>) s;
          s \<leftarrow> kernel_threads_add s t;
          Some (Some t, s)
        })
   }"

text \<open>The start points and names of the two threads are \<open>idle\<close> and \<open>reaper\<close>.\<close>

definition sched_init :: "u32 \<Rightarrow> 'a kernel_scheme \<Rightarrow> u32 \<times> u32 \<Rightarrow> u32 \<times> u32 \<Rightarrow> 'a kernel_scheme option" where
  "sched_init K s idle reaper = do {
     (t, s) \<leftarrow> sched_internal_init_thread K s (fst idle) 0 (snd idle) False None;
     let s = s\<lparr>k_sched := (k_sched s)\<lparr>idle_thread := t\<rparr>\<rparr>;
     (case t of
        None \<Rightarrow> None
      | Some i \<Rightarrow> do {
          let s = upd_k_thread i (\<lambda>x. x\<lparr>t_cls := SCHED_CLASS_IDLE\<rparr>) s;
          (r, s) \<leftarrow> sched_internal_init_thread K s (fst reaper) 0 (snd reaper) False None;
          let s = s\<lparr>k_stealer := r\<rparr>;
          (case r of
             None \<Rightarrow> None
           | Some x \<Rightarrow> ready_queue_add (upd_k_thread x (\<lambda>x. x\<lparr>t_cls := SCHED_CLASS_REALTIME\<rparr>) s) i)
        })
   }"

end
