(* ===== verification/Kproc.thy ===== *)
theory Kproc
  imports Kthread
begin

text \<open>
  task/process.c on the state of the whole kernel: allocating and freeing what a process owns, copying
  descriptors, duplicating and terminating processes, memory inside a process, and the first process.
  The steps on the process structures alone are those of \<open>Process\<close>.
\<close>

type_synonym 'a kernel_ops = "u32 \<Rightarrow> 'a kernel_scheme vfs_op_tbl"

text \<open>Addresses of code and constants that the linker fixes.\<close>

record code_addresses =
  ca_kernel_region :: u32
  ca_user_routine :: u32
  ca_init_entry :: u32
  ca_init_name :: u32
  ca_init_thread_name :: u32

section \<open>Structures\<close>

definition proc_alloc_process_struct :: "'a kernel_scheme \<Rightarrow> (u32 \<times> 'a kernel_scheme) option" where
  "proc_alloc_process_struct s = do {
     (a, s) \<leftarrow> fs_kmalloc s SIZEOF_PROCESS;
     if a = 0 then Some (0, s)
     else Some (a, s\<lparr>k_fds := (k_fds s)(unat a := (\<lambda>_. \<lparr>fd_node = 0, fd_pipe = 0, fd_refcount = 0\<rparr>))\<rparr>)
   }"

definition proc_alloc_thread_list :: "'a kernel_scheme \<Rightarrow> (u32 \<times> 'a kernel_scheme) option" where
  "proc_alloc_thread_list s = do {
     (l, s) \<leftarrow> fs_kmalloc s SIZEOF_THREAD_LIST;
     if l = 0 then Some (0, s)
     else Some (l, s\<lparr>k_tlist := (k_tlist s)(l := \<lparr>tl_head = None, tl_tail = None, tl_count = 0, tl_lock = 0\<rparr>)\<rparr>)
   }"

definition proc_free_process_struct :: "'a kernel_scheme \<Rightarrow> u32 \<Rightarrow> 'a kernel_scheme option" where
  "proc_free_process_struct s a = (if a \<noteq> 0 then fs_kfree s a SIZEOF_PROCESS else Some s)"

definition proc_free_thread_list :: "'a kernel_scheme \<Rightarrow> u32 \<Rightarrow> 'a kernel_scheme option" where
  "proc_free_thread_list s l = (if l \<noteq> 0 then fs_kfree s l SIZEOF_THREAD_LIST else Some s)"

text \<open>\<open>proc_alloc\<close>: the address of the new process and of its thread list, 0 and 0 when there is no memory.\<close>

definition kproc_alloc :: "'a kernel_scheme \<Rightarrow> (u32 \<times> u32 \<times> 'a kernel_scheme) option" where
  "kproc_alloc s = do {
     (a, s) \<leftarrow> proc_alloc_process_struct s;
     if a = 0 then Some (0, 0, s)
     else do {
       (l, s) \<leftarrow> proc_alloc_thread_list s;
       if l = 0 then do { s \<leftarrow> fs_kfree s a SIZEOF_PROCESS; Some (0, 0, s) }
       else Some (a, l, upd_proc (unat a) (\<lambda>_. proc_alloc l) s)
     }
   }"

text \<open>Giving back one thing a process owned, and all of them in order.\<close>

fun release_one :: "'a kernel_ops \<Rightarrow> resource \<Rightarrow> 'a kernel_scheme \<Rightarrow> 'a kernel_scheme option" where
  "release_one T (Cwd n) s = map_option snd (vfs_close T s n)"
| "release_one T (Region r) s = map_option (\<lambda>v. set_vm v s) (vmm_region_destroy (kernel_vm s) r)"
| "release_one T (Name a) s = do { n \<leftarrow> flopstrlen (fs_mem s) a; fs_kfree s a (n + 1) }"
| "release_one T (Threads l) s = fs_kfree s l SIZEOF_THREAD_LIST"

fun release_all :: "'a kernel_ops \<Rightarrow> resource list \<Rightarrow> 'a kernel_scheme \<Rightarrow> 'a kernel_scheme option" where
  "release_all T [] s = Some s"
| "release_all T (r # rs) s = do { s \<leftarrow> release_one T r s; release_all T rs s }"

definition proc_init_process_free_data_structures :: "'a kernel_ops \<Rightarrow> 'a kernel_scheme \<Rightarrow> nat option \<Rightarrow> 'a kernel_scheme option" where
  "proc_init_process_free_data_structures T s process =
     (case process of
        None \<Rightarrow> Some s
      | Some p \<Rightarrow> do {
          s \<leftarrow> release_all T (owned_by (k_procs s p)) s;
          fs_kfree s (of_nat p) SIZEOF_PROCESS
        })"

section \<open>Descriptors\<close>

text \<open>
  The test for a pipe compares the address of the array in a node with the address of the node itself,
  22 bytes before it, so that it never holds; what it guards treats the node as a pipe.
\<close>

definition PIPE_DATA_OFFSET :: u32 where "PIPE_DATA_OFFSET = 22"

definition fd_share :: "'a kernel_scheme \<Rightarrow> u32 \<Rightarrow> int \<times> 'a kernel_scheme" where
  "fd_share s n =
     (if n + PIPE_DATA_OFFSET = n then
        let flags = vn_mode (vf_node s n);
            (r, s) = (if flags AND VFS_MODE_R \<noteq> 0 \<or> flags AND VFS_MODE_RW \<noteq> 0
                      then let (ok, p) = pipe_dup_read (k_pipe s n) in (ok, s\<lparr>k_pipe := (k_pipe s)(n := p)\<rparr>)
                      else (True, s))
        in if \<not> r then (-1, s)
           else
             let (w, s) = (if flags AND VFS_MODE_W \<noteq> 0 \<or> flags AND VFS_MODE_RW \<noteq> 0
                           then let (ok, p) = pipe_dup_write (k_pipe s n) in (ok, s\<lparr>k_pipe := (k_pipe s)(n := p)\<rparr>)
                           else (True, s))
             in if \<not> w then (-1, s) else (0, s)
      else (0, upd_node n (\<lambda>x. x\<lparr>vn_refcount := snd (refcount_inc_not_zero (vn_refcount x))\<rparr>) s))"

fun copy_fds_loop :: "nat \<Rightarrow> nat \<Rightarrow> nat \<Rightarrow> nat \<Rightarrow> 'a kernel_scheme \<Rightarrow> int \<times> 'a kernel_scheme" where
  "copy_fds_loop dest src i 0 s = (0, s)"
| "copy_fds_loop dest src i (Suc n) s =
     (let s = upd_fd dest i (\<lambda>_. k_fds s src i) s;
          node = fd_node (k_fds s dest i)
      in if node = 0 then copy_fds_loop dest src (Suc i) n s
         else
           let (r, s) = fd_share s node
           in if r < 0 then (-1, s) else copy_fds_loop dest src (Suc i) n s)"

definition proc_copy_fds :: "'a kernel_scheme \<Rightarrow> nat option \<Rightarrow> nat option \<Rightarrow> int \<times> 'a kernel_scheme" where
  "proc_copy_fds s dest src =
     (case (dest, src) of
        (Some d, Some p) \<Rightarrow> copy_fds_loop d p 0 MAX_PROC_FDS s
      | _ \<Rightarrow> (-1, s))"

fun duplicate_fds_loop :: "nat \<Rightarrow> nat \<Rightarrow> nat \<Rightarrow> nat \<Rightarrow> 'a kernel_scheme \<Rightarrow> 'a kernel_scheme" where
  "duplicate_fds_loop dest source i 0 s = s"
| "duplicate_fds_loop dest source i (Suc n) s =
     (let s = upd_fd dest i (\<lambda>_. k_fds s source i) s;
          node = fd_node (k_fds s dest i);
          s = (if node \<noteq> 0 then upd_node node (\<lambda>x. x\<lparr>vn_refcount := snd (refcount_inc_not_zero (vn_refcount x))\<rparr>) s else s)
      in duplicate_fds_loop dest source (Suc i) n s)"

definition proc_duplicate_process_fds :: "'a kernel_scheme \<Rightarrow> nat option \<Rightarrow> nat option \<Rightarrow> int \<times> 'a kernel_scheme" where
  "proc_duplicate_process_fds s source dest =
     (case (source, dest) of
        (Some p, Some q) \<Rightarrow> (0, duplicate_fds_loop q p 0 MAX_PROC_FDS s)
      | _ \<Rightarrow> (-1, s))"

section \<open>Duplicating a process\<close>

text \<open>
  What the other components contribute to \<open>proc_fork\<close>, in its order and up to the first failure: the
  structure, the copy of the address space, the reference to the working directory, the descriptors
  and the space for the name. The name starts as that of the parent.
\<close>

definition no_fork :: fork_outcomes where
  "no_fork = \<lparr>fo_child = None, fo_threads = 0, fo_region = 0, fo_fds = False, fo_name = 0\<rparr>"

definition fork_name :: "'a kernel_scheme \<Rightarrow> u32 \<Rightarrow> (u32 \<times> 'a kernel_scheme) option" where
  "fork_name s parent_name = do {
     len \<leftarrow> (if parent_name \<noteq> 0 then flopstrlen (fs_mem s) parent_name else Some (of_nat (length ''__embryo_process'')));
     let name_len = len + 1;
     (a, s) \<leftarrow> fs_kmalloc s name_len;
     if a = 0 then Some (0, s)
     else Some (a, set_mem (if parent_name \<noteq> 0 then flopstrcopy (fs_mem s) a parent_name name_len
                            else store_string (fs_mem s) a ''__embryo_process'') s)
   }"

definition fork_work :: "'a kernel_scheme \<Rightarrow> nat \<Rightarrow> (fork_outcomes \<times> 'a kernel_scheme) option" where
  "fork_work s parent = do {
     (a, l, s) \<leftarrow> kproc_alloc s;
     if a = 0 then Some (no_fork, s)
     else do {
       let child = unat a;
       let fo = no_fork\<lparr>fo_child := Some child, fo_threads := l\<rparr>;
       (region, s) \<leftarrow> on_vm (\<lambda>v. vmm_copy_pagemap v (p_region (k_procs s parent))) s;
       let fo = fo\<lparr>fo_region := region\<rparr>;
       let cwd = p_cwd (k_procs s parent);
       if region = 0 \<or> cwd = 0 then Some (fo, s)
       else do {
         let s = upd_node cwd (\<lambda>x. x\<lparr>vn_refcount := snd (refcount_inc_not_zero (vn_refcount x))\<rparr>) s;
         let (r, s) = proc_copy_fds s (Some child) (Some parent);
         let fo = fo\<lparr>fo_fds := (r \<ge> 0)\<rparr>;
         if r < 0 then Some (fo, s)
         else do {
           (name, s) \<leftarrow> fork_name s (p_name (k_procs s parent));
           Some (fo\<lparr>fo_name := name\<rparr>, s)
         }
       }
     }
   }"

text \<open>A failed duplication gives back what it had obtained, at least the list of threads, and the structure.\<close>

definition kproc_fork :: "'a kernel_ops \<Rightarrow> 'a kernel_scheme \<Rightarrow> nat option \<Rightarrow> (pid_t \<times> 'a kernel_scheme) option" where
  "kproc_fork T s parent =
     (case parent of
        None \<Rightarrow> Some (-1, s)
      | Some p \<Rightarrow> do {
          (fo, s) \<leftarrow> fork_work s p;
          (pid, released, ps, i, t) \<leftarrow> proc_fork fo (k_procs s, k_info s, k_tbl s) (Some p);
          let s = s\<lparr>k_procs := ps, k_info := i, k_tbl := t\<rparr>;
          s \<leftarrow> release_all T released s;
          s \<leftarrow> (case fo_child fo of
                 Some c \<Rightarrow> if released \<noteq> [] then fs_kfree s (of_nat c) SIZEOF_PROCESS else Some s
               | None \<Rightarrow> Some s);
          Some (pid, s)
        })"

definition proc_dup :: "'a kernel_ops \<Rightarrow> 'a kernel_scheme \<Rightarrow> pid_t \<Rightarrow> (pid_t \<times> 'a kernel_scheme) option" where
  "proc_dup T s pid = do {
     lk \<leftarrow> lock_acquire (tbl_lock (k_tbl s));
     parent \<leftarrow> find_loop (\<lambda>p. p_pid (k_procs s p) = pid) (sib (k_procs s)) (tbl_processes (k_tbl s));
     let s = s\<lparr>k_tbl := (k_tbl s)\<lparr>tbl_lock := lock_release lk\<rparr>\<rparr>;
     (case parent of
        None \<Rightarrow> Some (-1, s)
      | Some p \<Rightarrow> do {
          (child_pid, s) \<leftarrow> kproc_fork T s (Some p);
          Some (if sint child_pid < 0 then -1 else child_pid, s)
        })
   }"

section \<open>Memory inside a process\<close>

definition pages_of :: "u32 \<Rightarrow> u32" where
  "pages_of n = (if n mod PAGE_SIZE \<noteq> 0 then n div PAGE_SIZE + 1 else n div PAGE_SIZE)"

definition proc_alloc_within_process :: "'a kernel_scheme \<Rightarrow> nat option \<Rightarrow> u32 \<Rightarrow> (u32 \<times> 'a kernel_scheme) option" where
  "proc_alloc_within_process s process sz =
     (case process of
        None \<Rightarrow> Some (0, s)
      | Some p \<Rightarrow>
          if sz = 0 then Some (0, s)
          else do {
            let pages = pages_of sz;
            (a, s) \<leftarrow> on_vm (\<lambda>v. vmm_alloc v (p_region (k_procs s p)) pages (PAGE_USER OR PAGE_RW)) s;
            if a = 0 then Some (0, s)
            else Some (a, upd_proc p (\<lambda>x. x\<lparr>p_mem_usage := p_mem_usage x + pages * PAGE_SIZE\<rparr>) s)
          })"

definition proc_free_within_process :: "'a kernel_scheme \<Rightarrow> nat option \<Rightarrow> u32 \<Rightarrow> u32 \<Rightarrow> 'a kernel_scheme option" where
  "proc_free_within_process s process addr sz =
     (case process of
        None \<Rightarrow> Some s
      | Some p \<Rightarrow>
          if addr = 0 \<or> sz = 0 then Some s
          else do {
            (_, s) \<leftarrow> on_vm (\<lambda>v. vmm_unmap v (p_region (k_procs s p)) addr) s;
            Some (upd_proc p (\<lambda>x. x\<lparr>p_mem_usage := p_mem_usage x - pages_of sz * PAGE_SIZE\<rparr>) s)
          })"

definition proc_zero_process_memory :: "'a kernel_scheme \<Rightarrow> nat option \<Rightarrow> u32 \<Rightarrow> (u32 \<times> 'a kernel_scheme) option" where
  "proc_zero_process_memory s process sz =
     (if process = None \<or> sz = 0 then Some (0, s)
      else do {
        (a, s) \<leftarrow> proc_alloc_within_process s process sz;
        if a = 0 then Some (0, s) else Some (a, set_mem (fst (flop_memset (fs_mem s) a 0 sz)) s)
      })"

definition proc_copy_process_memory :: "'a kernel_scheme \<Rightarrow> nat option \<Rightarrow> nat option \<Rightarrow> (int \<times> 'a kernel_scheme) option" where
  "proc_copy_process_memory s source dest =
     (case (source, dest) of
        (Some p, Some q) \<Rightarrow>
          if p_region (k_procs s p) = 0 then Some (-1, s)
          else do {
            (r, s) \<leftarrow> on_vm (\<lambda>v. vmm_copy_pagemap v (p_region (k_procs s p))) s;
            let s = upd_proc q (\<lambda>x. x\<lparr>p_region := r\<rparr>) s;
            if r = 0 then Some (-1, s)
            else Some (0, upd_proc q (\<lambda>x. x\<lparr>p_mem_usage := p_mem_usage (k_procs s p)\<rparr>) s)
          }
      | _ \<Rightarrow> Some (-1, s))"

text \<open>The sum that \<open>proc_fetch_mem_usage_all_processes\<close> prints.\<close>

partial_function (option) mem_usage_loop :: "processes \<Rightarrow> nat option \<Rightarrow> u32 \<Rightarrow> u32 option" where
  "mem_usage_loop ps cur acc =
     (case cur of None \<Rightarrow> Some acc | Some p \<Rightarrow> mem_usage_loop ps (p_siblings (ps p)) (acc + p_mem_usage (ps p)))"

definition proc_fetch_mem_usage_all_processes :: "'a kernel_scheme \<Rightarrow> (u32 \<times> 'a kernel_scheme) option" where
  "proc_fetch_mem_usage_all_processes s = do {
     lk \<leftarrow> lock_acquire (tbl_lock (k_tbl s));
     n \<leftarrow> mem_usage_loop (k_procs s) (tbl_processes (k_tbl s)) 0;
     Some (n, s\<lparr>k_tbl := (k_tbl s)\<lparr>tbl_lock := lock_release lk\<rparr>\<rparr>)
   }"

section \<open>Termination\<close>

partial_function (option) remove_threads_loop ::
  "(nat option \<Rightarrow> scheduler \<Rightarrow> scheduler option) \<Rightarrow> nat option \<Rightarrow> scheduler \<Rightarrow> scheduler option" where
  "remove_threads_loop rm cur s =
     (case cur of
        None \<Rightarrow> Some s
      | Some t \<Rightarrow> do {
          let next_thread = thread_next (threads s) t;
          s \<leftarrow> rm (Some t) s;
          remove_threads_loop rm next_thread s
        })"

definition remove_from_queues :: "nat option \<Rightarrow> scheduler \<Rightarrow> scheduler option" where
  "remove_from_queues t s = do {
     (_, th, q) \<leftarrow> sched_remove (threads s, ready_queue s) t;
     let s = s\<lparr>threads := th, ready_queue := q\<rparr>;
     (_, th, q) \<leftarrow> sched_remove (threads s, sleep_queue s) t;
     Some (s\<lparr>threads := th, sleep_queue := q\<rparr>)
   }"

definition proc_terminate_all_threads :: "'a kernel_scheme \<Rightarrow> nat option \<Rightarrow> (int \<times> 'a kernel_scheme) option" where
  "proc_terminate_all_threads s process =
     (case process of
        None \<Rightarrow> Some (-1, s)
      | Some p \<Rightarrow>
          let l = p_threads (k_procs s p)
          in if l = 0 then Some (-1, s)
             else do {
               d \<leftarrow> remove_threads_loop remove_from_queues (tl_head (k_tlist s l)) (k_sched s);
               Some (0, s\<lparr>k_sched := d, k_tlist := (k_tlist s)(l := (k_tlist s l)\<lparr>tl_head := None, tl_tail := None\<rparr>)\<rparr>)
             })"

definition proc_terminate_process :: "'a kernel_ops \<Rightarrow> 'a kernel_scheme \<Rightarrow> nat option \<Rightarrow> (int \<times> 'a kernel_scheme) option" where
  "proc_terminate_process T s process =
     (case process of
        None \<Rightarrow> Some (-1, s)
      | Some p \<Rightarrow> do {
          (_, s) \<leftarrow> proc_terminate_all_threads s (Some p);
          let (_, released, ps) = proc_clean (k_procs s) (Some p);
          s \<leftarrow> release_all T released (s\<lparr>k_procs := ps\<rparr>);
          (_, ps, t) \<leftarrow> proc_remove_process_from_table (k_procs s, k_tbl s) (Some p);
          lk \<leftarrow> lock_acquire (tbl_lock t);
          let s = s\<lparr>k_procs := ps, k_tbl := t\<lparr>tbl_lock := lock_release lk\<rparr>\<rparr>;
          let n = process_count (k_info s);
          let s = (if sint n > 0 then s\<lparr>k_info := (k_info s)\<lparr>process_count := n - 1\<rparr>\<rparr> else s);
          s \<leftarrow> fs_kfree s (of_nat p) SIZEOF_PROCESS;
          Some (0, s)
        })"

partial_function (option) kill_children_loop ::
  "(nat option \<Rightarrow> 'a kernel_scheme \<Rightarrow> (int \<times> 'a kernel_scheme) option) \<Rightarrow> nat option \<Rightarrow> 'a kernel_scheme \<Rightarrow> 'a kernel_scheme option" where
  "kill_children_loop term cur s =
     (case cur of
        None \<Rightarrow> Some s
      | Some c \<Rightarrow> do {
          let next_child = p_siblings (k_procs s c);
          r \<leftarrow> term (Some c) s;
          kill_children_loop term next_child (snd r)
        })"

definition proc_kill_all_children :: "'a kernel_ops \<Rightarrow> 'a kernel_scheme \<Rightarrow> nat option \<Rightarrow> (int \<times> 'a kernel_scheme) option" where
  "proc_kill_all_children T s parent =
     (case parent of
        None \<Rightarrow> Some (-1, s)
      | Some p \<Rightarrow> do {
          s \<leftarrow> kill_children_loop (\<lambda>c s. proc_terminate_process T s c) (p_children (k_procs s p)) s;
          Some (0, upd_proc p (\<lambda>x. x\<lparr>p_children := None\<rparr>) s)
        })"

section \<open>The first process\<close>

definition proc_init_process_create_region :: "'a kernel_scheme \<Rightarrow> nat option \<Rightarrow> u32 \<Rightarrow> (int \<times> 'a kernel_scheme) option" where
  "proc_init_process_create_region s process initial_pages =
     (case process of
        None \<Rightarrow> Some (-1, s)
      | Some p \<Rightarrow> do {
          (r, _, v) \<leftarrow> vmm_region_create (kernel_vm s) initial_pages (PAGE_USER OR PAGE_RW) True;
          let s = upd_proc p (\<lambda>x. x\<lparr>p_region := r\<rparr>) (set_vm v s);
          if r = 0 then Some (-1, s)
          else Some (0, upd_proc p (\<lambda>x. x\<lparr>p_mem_usage := initial_pages * PAGE_SIZE\<rparr>) s)
        })"

definition proc_init_process_create_thread ::
  "code_addresses \<Rightarrow> 'a kernel_scheme \<Rightarrow> nat option \<Rightarrow> u32 \<Rightarrow> u32 \<Rightarrow> u32 \<Rightarrow> (int \<times> 'a kernel_scheme) option" where
  "proc_init_process_create_thread ca s process start priority thread_name =
     (case process of
        None \<Rightarrow> Some (-1, s)
      | Some p \<Rightarrow>
          if start = 0 \<or> thread_name = 0 then Some (-1, s)
          else do {
            (t, s) \<leftarrow> sched_create_user_thread (ca_kernel_region ca) (ca_user_routine ca) s start priority thread_name (Some p);
            (case t of
               None \<Rightarrow> Some (-1, s)
             | Some t \<Rightarrow> do { s \<leftarrow> process_list_add s t (p_threads (k_procs s p)); Some (0, s) })
          })"

definition proc_init_process_assign_name :: "code_addresses \<Rightarrow> 'a kernel_scheme \<Rightarrow> nat \<Rightarrow> int \<times> 'a kernel_scheme" where
  "proc_init_process_assign_name ca s p = (0, upd_proc p (\<lambda>x. x\<lparr>p_name := ca_init_name ca\<rparr>) s)"

definition proc_signal_init_process_init :: "'a kernel_scheme \<Rightarrow> nat option \<Rightarrow> 'a kernel_scheme option" where
  "proc_signal_init_process_init s process = map_option (\<lambda>ps. s\<lparr>k_procs := ps\<rparr>) (signal_init_process (k_procs s) process)"

definition proc_init_process_dummy_entry :: "bool \<Rightarrow> 'a kernel_scheme \<Rightarrow> (bool \<times> 'a kernel_scheme) option" where
  "proc_init_process_dummy_entry has_run s =
     (if \<not> has_run then Some (True, s)
      else do { (_, ps) \<leftarrow> proc_kill (k_procs s) (k_init_process s); Some (True, s\<lparr>k_procs := ps\<rparr>) })"

definition proc_create_init_process ::
  "'a kernel_ops \<Rightarrow> code_addresses \<Rightarrow> 'a kernel_scheme \<Rightarrow> (int \<times> 'a kernel_scheme) option" where
  "proc_create_init_process T ca s = do {
     lk \<leftarrow> lock_acquire (tbl_lock (k_tbl s));
     (a, l, s) \<leftarrow> kproc_alloc s;
     let s = s\<lparr>k_tbl := (k_tbl s)\<lparr>tbl_lock := lock_release lk\<rparr>\<rparr>;
     let p = unat a;
     let s = s\<lparr>k_init_process := (if a = 0 then None else Some p)\<rparr>;
     if a = 0 then Some (-1, s)
     else do {
       let s = upd_proc p (\<lambda>x. x\<lparr>p_state := EMBRYO\<rparr>) s;
       s \<leftarrow> proc_signal_init_process_init s (Some p);
       let s = upd_proc p proc_init_process_zero_ids s;
       let s = snd (proc_init_process_assign_name ca s p);
       (r, s) \<leftarrow> proc_init_process_create_region s (Some p) 4;
       if r < 0 then do { s \<leftarrow> proc_init_process_free_data_structures T s (Some p); Some (-1, s) }
       else do {
         let s = upd_proc p (\<lambda>x. x\<lparr>p_mem_usage := 4 * PAGE_SIZE\<rparr>) s;
         let (ps, i) = proc_init_process_family_create (k_procs s, k_info s) p;
         let s = upd_proc p (\<lambda>x. x\<lparr>p_cwd := 0\<rparr>) (s\<lparr>k_procs := ps, k_info := i\<rparr>);
         s \<leftarrow> procfs_init T s;
         s \<leftarrow> procfs_add_entry s ''init_process'' VFS_FS_PROCFS;
         (r, s) \<leftarrow> proc_init_process_create_thread ca s (Some p) (ca_init_entry ca) 0 (ca_init_thread_name ca);
         if r < 0 then do { s \<leftarrow> proc_init_process_free_data_structures T s (Some p); Some (-1, s) }
         else do {
           lk \<leftarrow> lock_acquire (tbl_lock (k_tbl s));
           let s = upd_proc p (\<lambda>x. x\<lparr>p_state := RUNNING\<rparr>) s;
           Some (0, s\<lparr>k_tbl := (k_tbl s)\<lparr>tbl_lock := lock_release lk\<rparr>\<rparr>)
         }
       }
     }
   }"

definition kproc_init :: "'a kernel_ops \<Rightarrow> code_addresses \<Rightarrow> 'a kernel_scheme \<Rightarrow> (int \<times> 'a kernel_scheme) option" where
  "kproc_init T ca s = do {
     let s = s\<lparr>k_info := proc_info_init (k_info s), k_tbl := proc_table_init (k_tbl s)\<rparr>;
     (r, s) \<leftarrow> proc_create_init_process T ca s;
     Some (if r < 0 then -1 else 0, s)
   }"

end
