(* ===== verification/Syscall.thy ===== *)
theory Syscall
  imports Kproc
begin

text \<open>
  sys/syscall.c: the system calls on files, processes and identifiers, and the dispatch table. A call
  takes its five arguments from registers and returns the contents of a register, -1 for an error.
  Pointers to user memory are used as the kernel uses them, without a check. The calls on memory are
  in \<open>SyscallMem\<close>.
\<close>

section \<open>Arguments and surroundings\<close>

record syscall_args =
  sc_a1 :: u32
  sc_a2 :: u32
  sc_a3 :: u32
  sc_a4 :: u32
  sc_a5 :: u32

text \<open>
  The operation tables of the file systems, the address of the temporary node of \<open>vfs_stat\<close> and of
  the global \<open>kernel_region\<close>, and what the rest of the system does while a caller of \<open>waitpid\<close> yields.
\<close>

record 'k sys_env =
  se_ops :: "u32 \<Rightarrow> 'k vfs_op_tbl"
  se_stack_node :: u32
  se_kernel_region :: u32
  se_yield :: "'k \<Rightarrow> processes \<Rightarrow> 'k \<times> processes"

type_synonym 'a sys_call = "'a kernel_scheme sys_env \<Rightarrow> syscall_args \<Rightarrow> 'a kernel_scheme \<Rightarrow> (u32 \<times> 'a kernel_scheme) option"

definition reg :: "int \<Rightarrow> u32" where
  "reg r = word_of_int r"

definition as_result :: "(int \<times> 's) option \<Rightarrow> (u32 \<times> 's) option" where
  "as_result r = map_option (\<lambda>(x, s). (reg x, s)) r"

definition fd_ok :: "u32 \<Rightarrow> bool" where
  "fd_ok fd \<longleftrightarrow> 0 \<le> sint fd \<and> sint fd < int MAX_PROC_FDS"

definition fd_of :: "'a kernel_scheme \<Rightarrow> nat \<Rightarrow> u32 \<Rightarrow> file_descriptor" where
  "fd_of s p fd = k_fds s p (unat fd)"

definition free_fds :: "'a kernel_scheme \<Rightarrow> nat \<Rightarrow> nat list" where
  "free_fds s p = filter (\<lambda>i. fd_node (k_fds s p i) = 0) [0..<MAX_PROC_FDS]"

section \<open>Processes\<close>

definition sys_fork :: "'a sys_call" where
  "sys_fork E a s =
     (if sc_a1 a \<noteq> 0 \<or> sc_a2 a \<noteq> 0 \<or> sc_a3 a \<noteq> 0 \<or> sc_a4 a \<noteq> 0 \<or> sc_a5 a \<noteq> 0 then Some (-1, s)
      else do {
        (pid, s) \<leftarrow> kproc_fork (se_ops E) s (proc_get_current s);
        Some (if sint pid < 0 then -1 else pid, s)
      })"

definition sys_dup :: "'a sys_call" where
  "sys_dup E a s =
     (if sc_a1 a = 0 then Some (-1, s)
      else if sc_a2 a \<noteq> 0 \<or> sc_a3 a \<noteq> 0 \<or> sc_a4 a \<noteq> 0 \<or> sc_a5 a \<noteq> 0 then Some (-1, s)
      else proc_dup (se_ops E) s (sc_a1 a))"

definition sys_clone :: "'a sys_call" where
  "sys_clone E a s =
     (if sc_a3 a \<noteq> 0 \<or> sc_a4 a \<noteq> 0 \<or> sc_a5 a \<noteq> 0 then Some (-1, s)
      else if proc_get_current s = None then Some (-1, s)
      else do {
        (pid, s) \<leftarrow> kproc_fork (se_ops E) s (proc_get_current s);
        Some (if sint pid < 0 then -1 else pid, s)
      })"

section \<open>Files\<close>

definition sys_open :: "'a sys_call" where
  "sys_open E a s =
     (if sc_a1 a = 0 \<or> sc_a2 a = 0 then Some (-1, s)
      else if sc_a3 a \<noteq> 0 \<or> sc_a4 a \<noteq> 0 \<or> sc_a5 a \<noteq> 0 then Some (-1, s)
      else do {
        p \<leftarrow> proc_get_current s;
        (case free_fds s p of
           [] \<Rightarrow> Some (-1, s)
         | fd # _ \<Rightarrow> do {
             path \<leftarrow> string_at (fs_mem s) (sc_a1 a);
             (file, s) \<leftarrow> vfs_open (se_ops E) s path (sc_a2 a);
             if file = 0 then Some (-1, s)
             else Some (of_nat fd, upd_fd p fd (\<lambda>d. d\<lparr>fd_node := file\<rparr>) s)
           })
      })"

text \<open>
  The descriptor itself is passed to \<open>kfree\<close>, although it is a part of the process structure. \<open>kfree\<close>
  reads the words around its address; they are the word before the descriptor (the working directory
  or the counter of the descriptor before it) and its first field.
\<close>

definition fd_memory :: "'a kernel_scheme \<Rightarrow> nat \<Rightarrow> nat \<Rightarrow> mem" where
  "fd_memory s p i =
     (let before = (if i = 0 then p_cwd (k_procs s p) else fd_refcount (k_fds s p (i - 1)))
      in store32 (store32 (fs_mem s) (fd_address p i - 4) before) (fd_address p i) (fd_node (k_fds s p i)))"

definition sys_close :: "'a sys_call" where
  "sys_close E a s =
     (if sc_a1 a = 0 then Some (-1, s)
      else if sc_a2 a \<noteq> 0 \<or> sc_a3 a \<noteq> 0 \<or> sc_a4 a \<noteq> 0 \<or> sc_a5 a \<noteq> 0 then Some (-1, s)
      else do {
        p \<leftarrow> proc_get_current s;
        if \<not> fd_ok (sc_a1 a) then Some (-1, s)
        else do {
          let fd = unat (sc_a1 a);
          (_, s) \<leftarrow> vfs_close (se_ops E) s (fd_node (k_fds s p fd));
          s \<leftarrow> fs_kfree (set_mem (fd_memory s p fd) s) (fd_address p fd) SIZEOF_FD;
          Some (0, upd_fd p fd (\<lambda>d. d\<lparr>fd_node := 0\<rparr>) s)
        }
      })"

definition sys_read :: "'a sys_call" where
  "sys_read E a s =
     (if sc_a1 a = 0 \<or> sc_a2 a = 0 \<or> sc_a3 a = 0 then Some (-1, s)
      else if sc_a4 a \<noteq> 0 \<or> sc_a5 a \<noteq> 0 then Some (-1, s)
      else do {
        p \<leftarrow> proc_get_current s;
        if \<not> fd_ok (sc_a1 a) then Some (-1, s)
        else as_result (vfs_read (se_ops E) s (fd_node (fd_of s p (sc_a1 a))) (sc_a2 a) (sc_a3 a))
      })"

text \<open>Copying in chunks, with the calls that read and write a chunk.\<close>

partial_function (option) copy_range_loop ::
  "(u32 \<Rightarrow> 's \<Rightarrow> (int \<times> 's) option) \<Rightarrow> (u32 \<Rightarrow> 's \<Rightarrow> (int \<times> 's) option) \<Rightarrow> u32 \<Rightarrow> u32 \<Rightarrow> u32 \<Rightarrow> 's \<Rightarrow> (u32 \<times> 's) option" where
  "copy_range_loop rd wr count chunk acc s =
     (if acc < count then do {
        let to_read = count - acc;
        let to_read = (if to_read > chunk then chunk else to_read);
        x \<leftarrow> rd to_read s;
        let r = fst x;
        let s = snd x;
        if r \<le> 0 then Some (acc, s)
        else do {
          y \<leftarrow> wr (reg r) s;
          let w = fst y;
          let s = snd y;
          if w \<le> 0 then Some (acc, s)
          else
            let acc = acc + reg w
            in if reg r < to_read then Some (acc, s) else copy_range_loop rd wr count chunk acc s
        }
      } else Some (acc, s))"

definition sys_copy_file_range :: "'a sys_call" where
  "sys_copy_file_range E a s =
     (if sc_a1 a = 0 \<or> sc_a2 a = 0 then Some (-1, s)
      else if sc_a4 a \<noteq> 0 \<or> sc_a5 a \<noteq> 0 then Some (-1, s)
      else do {
        p \<leftarrow> proc_get_current s;
        if \<not> fd_ok (sc_a1 a) \<or> \<not> fd_ok (sc_a2 a) then Some (-1, s)
        else
          let src = fd_node (fd_of s p (sc_a1 a)); dst = fd_node (fd_of s p (sc_a2 a))
          in if src = 0 \<or> dst = 0 then Some (-1, s)
             else do {
               let count = sc_a3 a;
               let chunk = (if count < 256 then count else 256);
               (buffer, s) \<leftarrow> fs_kmalloc s chunk;
               if buffer = 0 then Some (-1, s)
               else do {
                 (n, s) \<leftarrow> copy_range_loop (\<lambda>n s. vfs_read (se_ops E) s src buffer n)
                    (\<lambda>n s. vfs_write (se_ops E) s dst buffer n) count chunk 0 s;
                 s \<leftarrow> fs_kfree s buffer chunk;
                 Some (n, s)
               }
             }
      })"

definition sys_seek :: "'a sys_call" where
  "sys_seek E a s =
     (if sc_a1 a = 0 \<or> sc_a2 a = 0 \<or> sc_a3 a = 0 then Some (-1, s)
      else if sc_a4 a \<noteq> 0 \<or> sc_a5 a \<noteq> 0 then Some (-1, s)
      else do {
        p \<leftarrow> proc_get_current s;
        if \<not> fd_ok (sc_a1 a) then Some (-1, s)
        else
          let node = fd_node (fd_of s p (sc_a1 a))
          in if node = 0 then Some (-1, s)
             else as_result (vfs_seek (se_ops E) s node (sc_a2 a) (ucast (sc_a3 a)))
      })"

text \<open>Wrong arguments are only logged.\<close>

definition sys_write :: "'a sys_call" where
  "sys_write E a s = do {
     p \<leftarrow> proc_get_current s;
     if \<not> fd_ok (sc_a1 a) then Some (-1, s)
     else if sc_a2 a = 0 then Some (-1, s)
     else if sc_a1 a = 1 then do {
       text \<leftarrow> string_at (fs_mem s) (sc_a2 a);
       Some (0, s\<lparr>k_console := k_console s @ [text]\<rparr>)
     }
     else
       let node = fd_node (fd_of s p (sc_a1 a))
       in if node = 0 then Some (-1, s) else as_result (vfs_write (se_ops E) s node (sc_a2 a) (sc_a3 a))
   }"

definition sys_print :: "'a sys_call" where
  "sys_print E a s =
     (if sc_a1 a = 0 then Some (-1, s)
      else if sc_a2 a \<noteq> 0 \<or> sc_a3 a \<noteq> 0 \<or> sc_a4 a \<noteq> 0 \<or> sc_a5 a \<noteq> 0 then Some (-1, s)
      else do {
        len \<leftarrow> flopstrlen (fs_mem s) (sc_a1 a);
        if len = 0 then Some (0, s)
        else sys_write E \<lparr>sc_a1 = 1, sc_a2 = sc_a1 a, sc_a3 = len, sc_a4 = 0, sc_a5 = 0\<rparr> s
      })"

section \<open>Names\<close>

definition sys_stat :: "'a sys_call" where
  "sys_stat E a s =
     (if sc_a1 a = 0 \<or> sc_a2 a = 0 then Some (-1, s)
      else if sc_a3 a \<noteq> 0 \<or> sc_a4 a \<noteq> 0 \<or> sc_a5 a \<noteq> 0 then Some (-1, s)
      else do {
        path \<leftarrow> string_at (fs_mem s) (sc_a1 a);
        (r, st, s) \<leftarrow> vfs_stat (se_ops E) (se_stack_node E) s path (Some (k_stat s (sc_a2 a)));
        Some (reg r, case st of None \<Rightarrow> s | Some x \<Rightarrow> s\<lparr>k_stat := (k_stat s)(sc_a2 a := x)\<rparr>)
      })"

definition sys_fstat :: "'a sys_call" where
  "sys_fstat E a s =
     (if sc_a1 a = 0 \<or> sc_a2 a = 0 then Some (-1, s)
      else if sc_a3 a \<noteq> 0 \<or> sc_a4 a \<noteq> 0 \<or> sc_a5 a \<noteq> 0 then Some (-1, s)
      else do {
        p \<leftarrow> proc_get_current s;
        if \<not> fd_ok (sc_a1 a) then Some (-1, s)
        else
          let node = fd_node (fd_of s p (sc_a1 a))
          in if node = 0 then Some (-1, s)
             else do {
               (r, st, s) \<leftarrow> vfs_fstat (se_ops E) s node (Some (k_stat s (sc_a2 a)));
               Some (reg r, case st of None \<Rightarrow> s | Some x \<Rightarrow> s\<lparr>k_stat := (k_stat s)(sc_a2 a := x)\<rparr>)
             }
      })"

definition sys_unlink :: "'a sys_call" where
  "sys_unlink E a s =
     (if sc_a1 a = 0 then Some (-1, s)
      else if sc_a2 a \<noteq> 0 \<or> sc_a3 a \<noteq> 0 \<or> sc_a4 a \<noteq> 0 \<or> sc_a5 a \<noteq> 0 then Some (-1, s)
      else do {
        path \<leftarrow> string_at (fs_mem s) (sc_a1 a);
        as_result (vfs_unlink (se_ops E) s path)
      })"

definition sys_mkdir :: "'a sys_call" where
  "sys_mkdir E a s =
     (if sc_a1 a = 0 \<or> sc_a2 a = 0 then Some (-1, s)
      else if sc_a3 a \<noteq> 0 \<or> sc_a4 a \<noteq> 0 \<or> sc_a5 a \<noteq> 0 then Some (-1, s)
      else do {
        path \<leftarrow> string_at (fs_mem s) (sc_a1 a);
        as_result (vfs_mkdir (se_ops E) s path (sc_a2 a))
      })"

definition sys_rmdir :: "'a sys_call" where
  "sys_rmdir E a s =
     (if sc_a1 a = 0 then Some (-1, s)
      else if sc_a2 a \<noteq> 0 \<or> sc_a3 a \<noteq> 0 \<or> sc_a4 a \<noteq> 0 \<or> sc_a5 a \<noteq> 0 then Some (-1, s)
      else do {
        path \<leftarrow> string_at (fs_mem s) (sc_a1 a);
        as_result (vfs_rmdir (se_ops E) s path)
      })"

definition sys_truncate :: "'a sys_call" where
  "sys_truncate E a s =
     (if sc_a1 a = 0 \<or> sc_a2 a = 0 then Some (-1, s)
      else if sc_a3 a \<noteq> 0 \<or> sc_a4 a \<noteq> 0 \<or> sc_a5 a \<noteq> 0 then Some (-1, s)
      else do {
        path \<leftarrow> string_at (fs_mem s) (sc_a1 a);
        as_result (vfs_truncate_path (se_ops E) s path (ucast (sc_a2 a)))
      })"

definition sys_ftruncate :: "'a sys_call" where
  "sys_ftruncate E a s =
     (if sc_a1 a = 0 \<or> sc_a2 a = 0 then Some (-1, s)
      else if sc_a3 a \<noteq> 0 \<or> sc_a4 a \<noteq> 0 \<or> sc_a5 a \<noteq> 0 then Some (-1, s)
      else do {
        p \<leftarrow> proc_get_current s;
        if \<not> fd_ok (sc_a1 a) then Some (-1, s)
        else
          let node = fd_node (fd_of s p (sc_a1 a))
          in if node = 0 then Some (-1, s) else as_result (vfs_ftruncate (se_ops E) s node (sc_a2 a))
      })"

definition sys_rename :: "'a sys_call" where
  "sys_rename E a s =
     (if sc_a1 a = 0 \<or> sc_a2 a = 0 then Some (-1, s)
      else if sc_a3 a \<noteq> 0 \<or> sc_a4 a \<noteq> 0 \<or> sc_a5 a \<noteq> 0 then Some (-1, s)
      else do {
        oldpath \<leftarrow> string_at (fs_mem s) (sc_a1 a);
        newpath \<leftarrow> string_at (fs_mem s) (sc_a2 a);
        as_result (vfs_rename (se_ops E) s oldpath newpath)
      })"

definition sys_creat :: "'a sys_call" where
  "sys_creat E a s =
     (if sc_a1 a = 0 then Some (-1, s)
      else if sc_a3 a \<noteq> 0 \<or> sc_a4 a \<noteq> 0 \<or> sc_a5 a \<noteq> 0 then Some (-1, s)
      else do {
        path \<leftarrow> string_at (fs_mem s) (sc_a1 a);
        (n, s) \<leftarrow> vfs_open (se_ops E) s path (VFS_MODE_CREATE OR VFS_MODE_TRUNCATE OR VFS_MODE_RW OR sc_a2 a);
        Some (if n \<noteq> 0 then 0 else -1, s)
      })"

definition sys_link :: "'a sys_call" where
  "sys_link E a s =
     (if sc_a1 a = 0 \<or> sc_a2 a = 0 then Some (-1, s)
      else if sc_a3 a \<noteq> 0 \<or> sc_a4 a \<noteq> 0 \<or> sc_a5 a \<noteq> 0 then Some (-1, s)
      else do {
        oldpath \<leftarrow> string_at (fs_mem s) (sc_a1 a);
        newpath \<leftarrow> string_at (fs_mem s) (sc_a2 a);
        as_result (vfs_link (se_ops E) s oldpath newpath)
      })"

definition sys_fsmount :: "'a sys_call" where
  "sys_fsmount E a s =
     (if sc_a1 a = 0 \<or> sc_a2 a = 0 then Some (-1, s)
      else if sc_a4 a \<noteq> 0 \<or> sc_a5 a \<noteq> 0 then Some (-1, s)
      else do {
        source \<leftarrow> string_at (fs_mem s) (sc_a1 a);
        dest \<leftarrow> string_at (fs_mem s) (sc_a2 a);
        as_result (vfs_mount (se_ops E) s source dest (sc_a3 a))
      })"

definition sys_chdir :: "'a sys_call" where
  "sys_chdir E a s =
     (if sc_a1 a = 0 then Some (-1, s)
      else if sc_a2 a \<noteq> 0 \<or> sc_a3 a \<noteq> 0 \<or> sc_a4 a \<noteq> 0 \<or> sc_a5 a \<noteq> 0 then Some (-1, s)
      else (case proc_get_current s of
          None \<Rightarrow> Some (-1, s)
        | Some p \<Rightarrow> do {
            path \<leftarrow> string_at (fs_mem s) (sc_a1 a);
            (new_directory, s) \<leftarrow> vfs_open (se_ops E) s path 0;
            if new_directory = 0 then Some (-1, s)
            else do {
              s \<leftarrow> (if p_cwd (k_procs s p) \<noteq> 0
                    then do { (_, s) \<leftarrow> vfs_close (se_ops E) s (p_cwd (k_procs s p)); Some s } else Some s);
              Some (0, upd_proc p (\<lambda>x. x\<lparr>p_cwd := new_directory\<rparr>) s)
            }
          }))"

definition sys_getcwd :: "'a sys_call" where
  "sys_getcwd E a s =
     (case proc_get_current s of None \<Rightarrow> Some (0, s) | Some p \<Rightarrow> Some (p_cwd (k_procs s p), s))"

text \<open>The descriptor is not compared with the size of the table.\<close>

definition sys_getdents :: "'a sys_call" where
  "sys_getdents E a s =
     (if sc_a1 a = 0 \<or> sc_a2 a = 0 \<or> sc_a3 a = 0 then Some (-1, s)
      else do {
        p \<leftarrow> proc_get_current s;
        guard (fd_ok (sc_a1 a));
        let node = fd_node (fd_of s p (sc_a1 a));
        if node = 0 then Some (-1, s) else as_result (vfs_getdents (se_ops E) s node (sc_a2 a) (sc_a3 a))
      })"

text \<open>The operations are looked for in the \<open>ops\<close> field of the node.\<close>

definition sys_ioctl :: "'a sys_call" where
  "sys_ioctl E a s =
     (if sc_a1 a = 0 \<or> sc_a2 a = 0 then Some (-1, s)
      else if sc_a4 a \<noteq> 0 \<or> sc_a5 a \<noteq> 0 then Some (-1, s)
      else (case proc_get_current s of
          None \<Rightarrow> Some (-1, s)
        | Some p \<Rightarrow>
            if \<not> fd_ok (sc_a1 a) then Some (-1, s)
            else
              let node = fd_node (fd_of s p (sc_a1 a))
              in if node = 0 then Some (-1, s)
                 else do {
                   let ops = vn_ops (vf_node s node);
                   guard (ops \<noteq> 0);
                   (case op_ioctl (se_ops E ops) of
                      Some f \<Rightarrow> as_result (f s node (sc_a2 a) (sc_a3 a))
                    | None \<Rightarrow> Some (-1, s))
                 }))"

section \<open>Pipes\<close>

definition sys_pipe :: "'a sys_call" where
  "sys_pipe E a s =
     (if sc_a1 a = 0 then Some (-1, s)
      else if sc_a2 a \<noteq> 0 \<or> sc_a3 a \<noteq> 0 \<or> sc_a4 a \<noteq> 0 \<or> sc_a5 a \<noteq> 0 then Some (-1, s)
      else do {
        (pipe, s) \<leftarrow> fs_kmalloc s SIZEOF_PIPE;
        if pipe = 0 then Some (-1, s)
        else do {
          let s = s\<lparr>k_pipe := (k_pipe s)(pipe := pipe_init (k_pipe s pipe))\<rparr>;
          (case proc_get_current s of
             None \<Rightarrow> do { s \<leftarrow> fs_kfree s pipe SIZEOF_PIPE; Some (-1, s) }
           | Some p \<Rightarrow> (case free_fds s p of
                 read_fd # write_fd # _ \<Rightarrow>
                   let s = upd_fd p write_fd (\<lambda>d. d\<lparr>fd_pipe := pipe\<rparr>) (upd_fd p read_fd (\<lambda>d. d\<lparr>fd_pipe := pipe\<rparr>) s);
                       m = store32 (fs_mem s) (sc_a1 a) (of_nat read_fd);
                       m = store32 m (sc_a1 a + 4) (of_nat write_fd)
                   in Some (0, set_mem m s)
               | _ \<Rightarrow> do { s \<leftarrow> fs_kfree s pipe SIZEOF_PIPE; Some (-1, s) }))
        }
      })"

section \<open>Identifiers\<close>

definition sys_getpid :: "'a sys_call" where
  "sys_getpid E a s = Some (case proc_get_current s of None \<Rightarrow> -1 | Some p \<Rightarrow> p_pid (k_procs s p), s)"

definition sys_getuid :: "'a sys_call" where
  "sys_getuid E a s = Some (case proc_get_current s of None \<Rightarrow> -1 | Some p \<Rightarrow> p_uid (k_procs s p), s)"

definition sys_getgid :: "'a sys_call" where
  "sys_getgid E a s = Some (case proc_get_current s of None \<Rightarrow> -1 | Some p \<Rightarrow> p_gid (k_procs s p), s)"

definition sys_geteuid :: "'a sys_call" where
  "sys_geteuid E a s = Some (case proc_get_current s of None \<Rightarrow> -1 | Some p \<Rightarrow> p_ruid (k_procs s p), s)"

definition sys_getsid :: "'a sys_call" where
  "sys_getsid E a s = Some (case proc_get_current s of None \<Rightarrow> -1 | Some p \<Rightarrow> p_sid (k_procs s p), s)"

definition sys_setsid :: "'a sys_call" where
  "sys_setsid E a s =
     (if sc_a2 a \<noteq> 0 \<or> sc_a3 a \<noteq> 0 \<or> sc_a4 a \<noteq> 0 \<or> sc_a5 a \<noteq> 0 then Some (-1, s)
      else (case proc_get_current s of
          None \<Rightarrow> Some (-1, s)
        | Some p \<Rightarrow> Some (0, upd_proc p (\<lambda>x. x\<lparr>p_sid := sc_a1 a\<rparr>) s)))"

text \<open>\<open>sys_regidt\<close> and \<open>sys_setgid\<close> have the same body; -1 leaves an identifier alone.\<close>

definition set_groups :: "'a kernel_scheme \<Rightarrow> syscall_args \<Rightarrow> (u32 \<times> 'a kernel_scheme) option" where
  "set_groups s a =
     (if sc_a3 a \<noteq> 0 \<or> sc_a4 a \<noteq> 0 \<or> sc_a5 a \<noteq> 0 then Some (-1, s)
      else (case proc_get_current s of
          None \<Rightarrow> Some (-1, s)
        | Some p \<Rightarrow>
            let s = (if sc_a1 a \<noteq> -1 then upd_proc p (\<lambda>x. x\<lparr>p_rgid := sc_a1 a\<rparr>) s else s);
                s = (if sc_a2 a \<noteq> -1 then upd_proc p (\<lambda>x. x\<lparr>p_gid := sc_a2 a\<rparr>) s else s)
            in Some (0, s)))"

definition sys_regidt :: "'a sys_call" where
  "sys_regidt E a s = set_groups s a"

definition sys_setgid :: "'a sys_call" where
  "sys_setgid E a s = set_groups s a"

definition sys_setuid :: "'a sys_call" where
  "sys_setuid E a s =
     (if sc_a3 a \<noteq> 0 \<or> sc_a4 a \<noteq> 0 \<or> sc_a5 a \<noteq> 0 then Some (-1, s)
      else (case proc_get_current s of
          None \<Rightarrow> Some (-1, s)
        | Some p \<Rightarrow>
            let s = (if sc_a1 a \<noteq> -1 then upd_proc p (\<lambda>x. x\<lparr>p_ruid := sc_a1 a\<rparr>) s else s);
                s = (if sc_a2 a \<noteq> -1 then upd_proc p (\<lambda>x. x\<lparr>p_uid := sc_a2 a\<rparr>) s else s)
            in Some (0, s)))"

section \<open>Scheduling, signals and the end of a process\<close>

definition sys_sched_yield :: "'a sys_call" where
  "sys_sched_yield E a s = do {
     d \<leftarrow> sched_yield ((k_sched s)\<lparr>proc_pd := region_pd s (se_kernel_region E), loaded_pd := vm_cr3 (k_vm s)\<rparr>);
     Some (0, s\<lparr>k_sched := d, k_vm := (k_vm s)\<lparr>vm_cr3 := loaded_pd d\<rparr>\<rparr>)
   }"

definition sys_get_priority_max :: "'a sys_call" where
  "sys_get_priority_max E a s = Some (MAX_PRIORITY, s)"

definition sys_get_priority_min :: "'a sys_call" where
  "sys_get_priority_min E a s = Some (0, s)"

definition sys_kill :: "'a sys_call" where
  "sys_kill E a s =
     (if sc_a1 a = 0 then Some (-1, s)
      else if sc_a2 a \<noteq> 0 \<or> sc_a3 a \<noteq> 0 \<or> sc_a4 a \<noteq> 0 \<or> sc_a5 a \<noteq> 0 then Some (-1, s)
      else (case proc_get_current s of
          None \<Rightarrow> Some (-1, s)
        | Some p \<Rightarrow> do {
            (found, t) \<leftarrow> proc_get_process_by_pid (k_procs s, k_tbl s) (sc_a1 a);
            let s = s\<lparr>k_tbl := t\<rparr>;
            (case found of
               None \<Rightarrow> Some (-1, s)
             | Some q \<Rightarrow>
                 if p_parent (k_procs s q) \<noteq> Some p then Some (-1, s)
                 else do {
                   lk \<leftarrow> lock_acquire (tbl_lock (k_tbl s));
                   let s = upd_proc q (\<lambda>x. x\<lparr>p_state := TERMINATED\<rparr>) s;
                   Some (0, s\<lparr>k_tbl := (k_tbl s)\<lparr>tbl_lock := lock_release lk\<rparr>\<rparr>)
                 })
          }))"

fun close_all :: "'a kernel_scheme sys_env \<Rightarrow> nat \<Rightarrow> nat list \<Rightarrow> 'a kernel_scheme \<Rightarrow> 'a kernel_scheme option" where
  "close_all E p [] s = Some s"
| "close_all E p (fd # fds) s = do {
     s \<leftarrow> (if fd_node (k_fds s p fd) \<noteq> 0
           then map_option snd (sys_close E \<lparr>sc_a1 = of_nat fd, sc_a2 = 0, sc_a3 = 0, sc_a4 = 0, sc_a5 = 0\<rparr> s)
           else Some s);
     close_all E p fds s
   }"

definition sys_exit_group :: "'a sys_call" where
  "sys_exit_group E a s =
     (if sc_a2 a \<noteq> 0 \<or> sc_a3 a \<noteq> 0 \<or> sc_a4 a \<noteq> 0 \<or> sc_a5 a \<noteq> 0 then Some (-1, s)
      else (case proc_get_current s of
          None \<Rightarrow> Some (-1, s)
        | Some p \<Rightarrow> do {
            s \<leftarrow> close_all E p [0..<MAX_PROC_FDS] s;
            (_, ps) \<leftarrow> proc_exit_all_threads (k_procs s) (Some p);
            Some (0, s\<lparr>k_procs := ps\<rparr>)
          }))"

text \<open>The machine is switched off: the call does not return.\<close>

definition sys_reboot :: "'a sys_call" where
  "sys_reboot E a s = None"

definition sys_waitpid :: "'a sys_call" where
  "sys_waitpid E a s = do {
     let status = sc_a2 a;
     bad \<leftarrow> (if status \<noteq> 0
             then map_option (\<lambda>r. r = 0) (vmm_is_user_mapped (kernel_vm s) (vmm_get_current (kernel_vm s)) status)
             else Some False);
     if bad then Some (-1, s)
     else do {
       (pid, reaped, s, ps, t) \<leftarrow> proc_waitpid (se_yield E) (proc_get_current s) (sc_a1 a) (sc_a3 a) s (k_procs s, k_tbl s);
       let s = s\<lparr>k_procs := ps, k_tbl := t\<rparr>;
       (case reaped of
          None \<Rightarrow> Some (pid, s)
        | Some (code, released) \<Rightarrow> do {
            let s = (if status \<noteq> 0 then set_mem (store32 (fs_mem s) status (reg code)) s else s);
            s \<leftarrow> release_all (se_ops E) released s;
            Some (pid, s)
          })
     }
   }"

end
