(* ===== verification/SyscallMem.thy ===== *)
theory SyscallMem
  imports Syscall
begin

text \<open>
  sys/syscall.c, second part: the calls that change the address space of the caller, and the dispatch
  table. Every loop runs over the addresses of pages with 32-bit arithmetic.
\<close>

section \<open>Loops over pages\<close>

partial_function (option) va_loop :: "(u32 \<Rightarrow> 's \<Rightarrow> 's option) \<Rightarrow> u32 \<Rightarrow> u32 \<Rightarrow> 's \<Rightarrow> 's option" where
  "va_loop step va stop s =
     (if va < stop then do { s \<leftarrow> step va s; va_loop step (va + PAGE_SIZE) stop s } else Some s)"

text \<open>Stops at the first page for which the step fails, and says which.\<close>

partial_function (option) va_try_loop ::
  "(u32 \<Rightarrow> 's \<Rightarrow> (bool \<times> 's) option) \<Rightarrow> u32 \<Rightarrow> u32 \<Rightarrow> 's \<Rightarrow> (u32 option \<times> 's) option" where
  "va_try_loop step va stop s =
     (if va < stop then do {
        r \<leftarrow> step va s;
        if fst r then va_try_loop step (va + PAGE_SIZE) stop (snd r) else Some (Some va, snd r)
      } else Some (None, s))"

partial_function (option) va_all_loop :: "(u32 \<Rightarrow> bool option) \<Rightarrow> u32 \<Rightarrow> u32 \<Rightarrow> bool option" where
  "va_all_loop test va stop =
     (if va < stop then do { ok \<leftarrow> test va; if ok then va_all_loop test (va + PAGE_SIZE) stop else Some False }
      else Some True)"

definition page_up :: "u32 \<Rightarrow> u32" where
  "page_up n = (n + (PAGE_SIZE - 1)) AND NOT (PAGE_SIZE - 1)"

text \<open>Unmapping a page and giving its frame back, if there is one.\<close>

definition unmap_and_free :: "u32 \<Rightarrow> u32 \<Rightarrow> vm \<Rightarrow> vm option" where
  "unmap_and_free region va v = do {
     phys \<leftarrow> vmm_resolve v region va;
     if phys \<noteq> 0 then do { (_, v) \<leftarrow> vmm_unmap v region va; page_free v phys } else Some v
   }"

text \<open>The bytes of a page from an index on, cleared one after the other.\<close>

definition clear_from :: "mem \<Rightarrow> u32 \<Rightarrow> nat \<Rightarrow> mem" where
  "clear_from m page i = fold (\<lambda>k m. m(page + of_nat k := 0)) [i..<4096] m"

section \<open>mmap\<close>

definition sys_mmap_internal_rb :: "vm \<Rightarrow> u32 \<Rightarrow> u32 \<Rightarrow> u32 \<Rightarrow> vm option" where
  "sys_mmap_internal_rb v region start_va end_va = va_loop (unmap_and_free region) start_va end_va v"

definition mmap_page :: "'a kernel_ops \<Rightarrow> u32 \<Rightarrow> u32 \<Rightarrow> u32 \<Rightarrow> u32 \<Rightarrow> 'a kernel_scheme \<Rightarrow> (bool \<times> 'a kernel_scheme) option" where
  "mmap_page T region flags node va s = do {
     (phys, s) \<leftarrow> on_vm page_alloc s;
     if phys = 0 then Some (False, s)
     else do {
       s \<leftarrow> (if node \<noteq> 0 then do {
               (read_bytes, s) \<leftarrow> vfs_read T s node phys PAGE_SIZE;
               Some (if read_bytes < 0 then set_mem (clear_from (fs_mem s) phys 0) s
                     else if read_bytes < 4096 then set_mem (clear_from (fs_mem s) phys (nat read_bytes)) s
                     else s)
             } else Some (set_mem (clear_from (fs_mem s) phys 0) s));
       (_, s) \<leftarrow> on_vm (\<lambda>v. vmm_map v region va phys flags) s;
       Some (True, s)
     }
   }"

definition sys_mmap_internal_alloc ::
  "'a kernel_ops \<Rightarrow> 'a kernel_scheme \<Rightarrow> u32 \<Rightarrow> u32 \<Rightarrow> u32 \<Rightarrow> u32 \<Rightarrow> u32 \<Rightarrow> (int \<times> 'a kernel_scheme) option" where
  "sys_mmap_internal_alloc T s region base_vaddr len flags node = do {
     (failed, s) \<leftarrow> va_try_loop (mmap_page T region flags node) base_vaddr (base_vaddr + len) s;
     (case failed of
        None \<Rightarrow> Some (0, s)
      | Some va \<Rightarrow> do {
          v \<leftarrow> sys_mmap_internal_rb (kernel_vm s) region base_vaddr va;
          Some (-1, set_vm v s)
        })
   }"

definition sys_mmap_internal_get_va :: "vm \<Rightarrow> u32 \<Rightarrow> u32 \<Rightarrow> u32 \<Rightarrow> (int \<times> u32) option" where
  "sys_mmap_internal_get_va v region requested_va len =
     (if region = 0 then Some (-1, 0)
      else if requested_va = 0 then do {
        found_va \<leftarrow> vmm_find_free_range v region len;
        Some (if found_va = 0 then (-1, 0) else (0, found_va))
      }
      else if requested_va AND (PAGE_SIZE - 1) \<noteq> 0 then Some (-1, 0)
      else Some (0, requested_va))"

definition sys_mmap_internal_find_and_seek ::
  "'a kernel_ops \<Rightarrow> 'a kernel_scheme \<Rightarrow> u32 \<Rightarrow> u32 \<Rightarrow> (int \<times> u32 \<times> 'a kernel_scheme) option" where
  "sys_mmap_internal_find_and_seek T s fd offset = do {
     p \<leftarrow> proc_get_current s;
     if \<not> fd_ok fd then Some (-1, 0, s)
     else
       let node = fd_node (fd_of s p fd)
       in if node = 0 then Some (-1, 0, s)
          else do {
            (r, s) \<leftarrow> vfs_seek T s node offset VFS_SEEK_STRT;
            Some (if r < 0 then -1 else 0, node, s)
          }
   }"

definition sys_mmap :: "'a sys_call" where
  "sys_mmap E a s =
     (if sc_a1 a = 0 \<or> sc_a2 a = 0 \<or> sc_a3 a = 0 \<or> sc_a4 a = 0 \<or> sc_a5 a = 0 then Some (-1, s)
      else do {
        let len = page_up (sc_a2 a);
        p \<leftarrow> proc_get_current s;
        let region = p_region (k_procs s p);
        if region = 0 then Some (-1, s)
        else do {
          (r, node, s) \<leftarrow> (if sint (sc_a4 a) \<ge> 0 then sys_mmap_internal_find_and_seek (se_ops E) s (sc_a4 a) (sc_a5 a)
                          else Some (0, 0, s));
          if r < 0 then Some (-1, s)
          else do {
            (r, start_va) \<leftarrow> sys_mmap_internal_get_va (kernel_vm s) region (sc_a1 a) len;
            if r < 0 then Some (-1, s)
            else do {
              (r, s) \<leftarrow> sys_mmap_internal_alloc (se_ops E) s region start_va len (sc_a3 a) node;
              Some (if r < 0 then -1 else start_va, s)
            }
          }
        }
      })"

section \<open>mremap\<close>

definition sys_internal_mremap_validate :: "syscall_args \<Rightarrow> int" where
  "sys_internal_mremap_validate a =
     (if sc_a1 a = 0 \<or> sc_a2 a = 0 \<or> sc_a3 a = 0 \<or> sc_a4 a = 0 then -1 else if sc_a5 a \<noteq> 0 then -1 else 0)"

definition sys_internal_mremap_shrink :: "'a kernel_scheme \<Rightarrow> u32 \<Rightarrow> u32 \<Rightarrow> u32 \<Rightarrow> u32 \<Rightarrow> (u32 \<times> 'a kernel_scheme) option" where
  "sys_internal_mremap_shrink s region addr old_len new_len = do {
     v \<leftarrow> sys_mmap_internal_rb (kernel_vm s) region (addr + new_len) (addr + old_len);
     Some (addr, set_vm v s)
   }"

definition expand_page :: "u32 \<Rightarrow> u32 \<Rightarrow> u32 \<Rightarrow> 'a kernel_scheme \<Rightarrow> (bool \<times> 'a kernel_scheme) option" where
  "expand_page region flags va s = do {
     (phys, s) \<leftarrow> on_vm page_alloc s;
     if phys = 0 then Some (False, s)
     else do {
       let s = set_mem (clear_from (fs_mem s) phys 0) s;
       (_, s) \<leftarrow> on_vm (\<lambda>v. vmm_map v region va phys flags) s;
       Some (True, s)
     }
   }"

definition sys_internal_mremap_expand ::
  "'a kernel_scheme \<Rightarrow> u32 \<Rightarrow> u32 \<Rightarrow> u32 \<Rightarrow> u32 \<Rightarrow> u32 \<Rightarrow> (u32 \<times> 'a kernel_scheme) option" where
  "sys_internal_mremap_expand s region addr old_len new_len flags = do {
     (failed, s) \<leftarrow> va_try_loop (expand_page region flags) (addr + old_len) (addr + new_len) s;
     (case failed of
        None \<Rightarrow> Some (addr, s)
      | Some va \<Rightarrow> do {
          v \<leftarrow> sys_mmap_internal_rb (kernel_vm s) region (addr + old_len) va;
          Some (-1, set_vm v s)
        })
   }"

definition sys_mremap :: "'a sys_call" where
  "sys_mremap E a s =
     (if sys_internal_mremap_validate a < 0 then Some (-1, s)
      else
        let addr = sc_a1 a; old_len = page_up (sc_a2 a); new_len = page_up (sc_a3 a)
        in (case proc_get_current s of
              None \<Rightarrow> Some (-1, s)
            | Some p \<Rightarrow>
                let region = p_region (k_procs s p)
                in if region = 0 then Some (-1, s)
                   else if new_len = old_len then Some (addr, s)
                   else if new_len < old_len then sys_internal_mremap_shrink s region addr old_len new_len
                   else sys_internal_mremap_expand s region addr old_len new_len (sc_a4 a)))"

section \<open>munmap and mprotect\<close>

definition sys_munmap_internal_validate :: "u32 \<Rightarrow> u32 \<Rightarrow> u32 \<Rightarrow> int" where
  "sys_munmap_internal_validate region addr len =
     (if region = 0 then -1 else if len = 0 then -1 else if addr AND (PAGE_SIZE - 1) \<noteq> 0 then -1 else 0)"

definition sys_munmap_internal_free_phys :: "vm \<Rightarrow> u32 \<Rightarrow> u32 \<Rightarrow> u32 \<Rightarrow> vm option" where
  "sys_munmap_internal_free_phys v region start_va end_va = va_loop (unmap_and_free region) start_va end_va v"

definition page_present :: "vm \<Rightarrow> u32 \<Rightarrow> u32 \<Rightarrow> bool option" where
  "page_present v region va = map_option (\<lambda>phys. phys \<noteq> 0) (vmm_resolve v region va)"

definition sys_munmap_internal_unmap_range :: "vm \<Rightarrow> u32 \<Rightarrow> u32 \<Rightarrow> u32 \<Rightarrow> (int \<times> vm) option" where
  "sys_munmap_internal_unmap_range v region addr len = do {
     ok \<leftarrow> va_all_loop (page_present v region) addr (addr + len);
     if \<not> ok then Some (-1, v)
     else do { v \<leftarrow> sys_munmap_internal_free_phys v region addr (addr + len); Some (0, v) }
   }"

definition sys_munmap_internal :: "'a kernel_scheme \<Rightarrow> nat option \<Rightarrow> u32 \<Rightarrow> u32 \<Rightarrow> (int \<times> 'a kernel_scheme) option" where
  "sys_munmap_internal s proc addr len =
     (case proc of
        None \<Rightarrow> Some (-1, s)
      | Some p \<Rightarrow>
          let region = p_region (k_procs s p)
          in if region = 0 then Some (-1, s)
             else if sys_munmap_internal_validate region addr len < 0 then Some (-1, s)
             else on_vm (\<lambda>v. sys_munmap_internal_unmap_range v region addr (page_up len)) s)"

definition sys_munmap :: "'a sys_call" where
  "sys_munmap E a s =
     (if sc_a1 a = 0 \<or> sc_a2 a = 0 then Some (-1, s)
      else if sc_a3 a \<noteq> 0 \<or> sc_a4 a \<noteq> 0 \<or> sc_a5 a \<noteq> 0 then Some (-1, s)
      else (case proc_get_current s of
          None \<Rightarrow> Some (-1, s)
        | Some p \<Rightarrow> as_result (sys_munmap_internal s (Some p) (sc_a1 a) (sc_a2 a))))"

definition protect_pages :: "u32 \<Rightarrow> u32 \<Rightarrow> u32 \<Rightarrow> u32 \<Rightarrow> vm \<Rightarrow> (int \<times> vm) option" where
  "protect_pages region flags addr stop v = do {
     ok \<leftarrow> va_all_loop (page_present v region) addr stop;
     if \<not> ok then Some (-1, v)
     else do {
       v \<leftarrow> va_loop (\<lambda>va v. map_option snd (vmm_protect v region va flags)) addr stop v;
       Some (0, v)
     }
   }"

definition sys_mprotect :: "'a sys_call" where
  "sys_mprotect E a s =
     (if sc_a1 a = 0 \<or> sc_a2 a = 0 \<or> sc_a3 a = 0 then Some (-1, s)
      else if sc_a4 a \<noteq> 0 \<or> sc_a5 a \<noteq> 0 then Some (-1, s)
      else (case proc_get_current s of
          None \<Rightarrow> Some (-1, s)
        | Some p \<Rightarrow>
            let region = p_region (k_procs s p)
            in if region = 0 then Some (-1, s)
               else if sc_a1 a AND (PAGE_SIZE - 1) \<noteq> 0 then Some (-1, s)
               else as_result (on_vm (protect_pages region (sc_a3 a) (sc_a1 a) (sc_a1 a + page_up (sc_a2 a))) s)))"

section \<open>The dispatch table\<close>

text \<open>The calls by their number; the entry \<open>SYSCALL_NUM\<close> is null.\<close>

definition SYSCALL_NUM :: nat where "SYSCALL_NUM = 44"

definition sys_init_tbl :: "'a sys_call list" where
  "sys_init_tbl =
     [sys_read, sys_write, sys_fork, sys_open, sys_close, sys_mmap, sys_seek, sys_stat, sys_fstat, sys_unlink,
      sys_mkdir, sys_rmdir, sys_truncate, sys_ftruncate, sys_rename, sys_getpid, sys_chdir, sys_dup, sys_pipe,
      sys_clone, sys_ioctl, sys_print, sys_reboot, sys_munmap, sys_creat, sys_sched_yield, sys_kill, sys_link,
      sys_getuid, sys_getgid, sys_geteuid, sys_getsid, sys_setuid, sys_setgid, sys_regidt, sys_get_priority_max,
      sys_get_priority_min, sys_fsmount, sys_copy_file_range, sys_getcwd, sys_mprotect, sys_mremap, sys_getdents,
      sys_waitpid]"

text \<open>A number beyond the table is an access outside of it.\<close>

definition c_syscall_routine ::
  "'a kernel_scheme sys_env \<Rightarrow> u32 \<Rightarrow> syscall_args \<Rightarrow> 'a kernel_scheme \<Rightarrow> (u32 \<times> 'a kernel_scheme) option" where
  "c_syscall_routine E num a s =
     (if unat num = SYSCALL_NUM then Some (-1, s)
      else if unat num < length (sys_init_tbl :: 'a sys_call list) then (sys_init_tbl ! unat num) E a s
      else None)"

end
