(* ===== verification/SyscallMemProps.thy ===== *)
theory SyscallMemProps
  imports SyscallMem VmmProps VfsProps Turnstile TmpfsData
begin

text \<open>
  What the system calls on memory do to the address space of the caller. The loops over addresses are
  loops over pages, to which the contract of the page tables applies.
\<close>

section \<open>Loops over addresses and over pages\<close>

lemma for_pages_shift: "for_pages f (Suc i) n s = for_pages (\<lambda>j. f (Suc j)) i n s"
proof (induction n arbitrary: i s)
  case (Suc n)
  have "for_pages f (Suc i + 1) n = for_pages (\<lambda>j. f (Suc j)) (i + 1) n" by (rule ext) (simp add: Suc.IH)
  then show ?case by (simp only: for_pages.simps)
qed simp

lemma page_at_next: "page_at (va + PAGE_SIZE) i = page_at va (Suc i)"
  by (simp add: page_at_def algebra_simps)

lemma va_below:
  assumes "unat va + Suc n * 4096 < 4294967296"
  shows "va < va + of_nat (Suc n) * PAGE_SIZE" and "unat (va + PAGE_SIZE) + n * 4096 < 4294967296"
proof -
  have k: "unat (of_nat (Suc n) * PAGE_SIZE :: u32) = Suc n * 4096"
    using assms by (simp add: unat_word_ariths unat_of_nat_u32 del: of_nat_Suc)
  show "va < va + of_nat (Suc n) * PAGE_SIZE"
  proof -
    have "unat (va + of_nat (Suc n) * PAGE_SIZE) = unat va + Suc n * 4096"
      using assms k by (subst unat_plus_u32) (simp_all del: of_nat_Suc)
    moreover have "unat va < unat va + Suc n * 4096" by simp
    ultimately show ?thesis unfolding word_less_nat_alt by (simp only:)
  qed
  have "unat (va + PAGE_SIZE) = unat va + 4096" using assms by (subst unat_plus_u32) simp_all
  then show "unat (va + PAGE_SIZE) + n * 4096 < 4294967296" using assms by simp
qed

lemma va_stop: "va + of_nat (Suc n) * PAGE_SIZE = (va + PAGE_SIZE) + of_nat n * PAGE_SIZE"
  by (simp add: algebra_simps)

lemma va_loop_pages:
  assumes "unat va + n * 4096 < 4294967296"
  shows "va_loop step va (va + of_nat n * PAGE_SIZE) s =
    map_option snd (for_pages (\<lambda>i s. map_option (Pair 0) (step (page_at va i) s)) 0 n s)"
  using assms
proof (induction n arbitrary: va s)
  case 0
  then show ?case by (simp add: va_loop.simps)
next
  case (Suc n)
  note b = va_below [OF Suc.prems]
  have IH: "va_loop step (va + PAGE_SIZE) (va + of_nat (Suc n) * PAGE_SIZE) t =
     map_option snd (for_pages (\<lambda>i s. map_option (Pair 0) (step (page_at va i) s)) (Suc 0) n t)" for t
    unfolding va_stop for_pages_shift Suc.IH [OF b(2)] by (simp only: page_at_next)
  have "va_loop step va (va + of_nat (Suc n) * PAGE_SIZE) s =
      do { t \<leftarrow> step va s; va_loop step (va + PAGE_SIZE) (va + of_nat (Suc n) * PAGE_SIZE) t }"
    using b(1) by (subst va_loop.simps) simp
  then show ?case unfolding IH by (cases "step va s") (simp_all del: of_nat_Suc)
qed

lemma va_all_pages:
  assumes "unat va + n * 4096 < 4294967296" and "\<And>i. i < n \<Longrightarrow> test (page_at va i) = Some (f i)"
  shows "va_all_loop test va (va + of_nat n * PAGE_SIZE) = Some (\<forall>i<n. f i)"
  using assms
proof (induction n arbitrary: va f)
  case 0
  then show ?case by (simp add: va_all_loop.simps)
next
  case (Suc n)
  note b = va_below [OF Suc.prems(1)]
  have IH: "va_all_loop test (va + PAGE_SIZE) (va + of_nat (Suc n) * PAGE_SIZE) = Some (\<forall>i<n. f (Suc i))"
    unfolding va_stop using Suc.prems(2) by (intro Suc.IH [OF b(2)]) (simp add: page_at_next)
  have "test va = Some (f 0)" using Suc.prems(2) [of 0] by simp
  then show ?case
    using b(1) by (subst va_all_loop.simps) (simp add: IH All_less_Suc2 del: of_nat_Suc)
qed

lemma va_try_rule:
  assumes "unat va + n * 4096 < 4294967296" and "I i s"
    and "\<And>j t. I j t \<Longrightarrow> i \<le> j \<Longrightarrow> j < i + n \<Longrightarrow> \<exists>ok t'. step (page_at va (j - i)) t = Some (ok, t') \<and>
      (if ok then I (Suc j) t' else Q j t')"
  shows "\<exists>r t. va_try_loop step va (va + of_nat n * PAGE_SIZE) s = Some (r, t) \<and>
    (case r of None \<Rightarrow> I (i + n) t | Some a \<Rightarrow> \<exists>j<n. a = page_at va j \<and> Q (i + j) t)"
  using assms
proof (induction n arbitrary: va i s)
  case 0
  then show ?case by (simp add: va_try_loop.simps)
next
  case (Suc n)
  note b = va_below [OF Suc.prems(1)]
  from Suc.prems(3) [OF Suc.prems(2)] obtain ok t where t: "step va s = Some (ok, t)" "if ok then I (Suc i) t else Q i t" by auto
  show ?case
  proof (cases ok)
    case False
    then show ?thesis using t b(1) by (subst va_try_loop.simps) (auto intro!: exI [of _ 0])
  next
    case True
    have "\<exists>r t'. va_try_loop step (va + PAGE_SIZE) (va + PAGE_SIZE + of_nat n * PAGE_SIZE) t = Some (r, t') \<and>
      (case r of None \<Rightarrow> I (Suc i + n) t' | Some a \<Rightarrow> \<exists>j<n. a = page_at (va + PAGE_SIZE) j \<and> Q (Suc i + j) t')"
    proof (rule Suc.IH [OF b(2)])
      show "I (Suc i) t" using t True by simp
      show "\<exists>ok t''. step (page_at (va + PAGE_SIZE) (j - Suc i)) t' = Some (ok, t'') \<and> (if ok then I (Suc j) t'' else Q j t'')"
        if "I j t'" "Suc i \<le> j" "j < Suc i + n" for j t'
        using Suc.prems(3) [OF that(1)] that(2,3) by (simp add: page_at_next Suc_diff_Suc)
    qed
    then obtain r t' where r: "va_try_loop step (va + PAGE_SIZE) (va + of_nat (Suc n) * PAGE_SIZE) t = Some (r, t')"
      "case r of None \<Rightarrow> I (Suc i + n) t' | Some a \<Rightarrow> \<exists>j<n. a = page_at (va + PAGE_SIZE) j \<and> Q (Suc i + j) t'"
      unfolding va_stop by blast
    have "va_try_loop step va (va + of_nat (Suc n) * PAGE_SIZE) s = Some (r, t')"
      using t(1) True b(1) r(1) by (subst va_try_loop.simps) (simp del: of_nat_Suc)
    moreover have "case r of None \<Rightarrow> I (i + Suc n) t' | Some a \<Rightarrow> \<exists>j<Suc n. a = page_at va j \<and> Q (i + j) t'"
      using r(2) by (cases r) (auto simp: page_at_next)
    ultimately show ?thesis by blast
  qed
qed


section \<open>Lengths in pages\<close>

definition page_span :: "u32 \<Rightarrow> nat" where
  "page_span len = (unat len + 4095) div 4096"

lemma page_up_pages:
  assumes "unat len + 4095 < 4294967296"
  shows "page_up len = of_nat (page_span len) * PAGE_SIZE"
proof -
  have u: "unat (len + 4095) = unat len + 4095" using assms by (subst unat_plus_u32) simp_all
  have "page_up len = (len + 4095) AND NOT (mask 12)" by (simp add: page_up_def mask_eq_exp_minus_1)
  also have "\<dots> = push_bit 12 (drop_bit 12 (len + 4095))" by (rule bit_word_eqI) (auto simp: bit_simps)
  also have "drop_bit 12 (len + 4095) = of_nat (page_span len)"
    unfolding word_unat_eq_iff unat_drop_bit_eq u using assms
    by (simp add: page_span_def drop_bit_eq_div unat_of_nat_u32)
  finally show ?thesis by (simp add: push_bit_eq_mult)
qed

lemma page_offset_and: "va AND (PAGE_SIZE - 1) = page_offset va" "va AND 4095 = page_offset va"
  by (simp_all add: page_offset_def)

section \<open>Giving back a range\<close>

lemma va_release:
  assumes ok: "vmm_ok R r d v P" and cl: "\<And>i. i < n \<Longrightarrow> client_va d (page_at va i)" and b: "unat va + n * 4096 < 4294967296"
    and fs: "distinct fs" "set fs \<subseteq> P" "length fs = n" "0 \<notin> set fs"
    and m: "\<And>i. i < n \<Longrightarrow> target (view v (page_at va i)) (page_at va i) = fs ! i"
  shows "\<exists>v'. va_loop (unmap_and_free r) va (va + of_nat n * PAGE_SIZE) v = Some v' \<and> vmm_ok R r d v' (P - set fs) \<and>
    ready v' = ready v \<and> view v' = over va (\<lambda>_. 0) n (view v)"
proof -
  have n: "n \<le> 1048576" using b by linarith
  have "map_option (Pair 0) (unmap_and_free r (page_at va i) s) = vas.release_page r va i s" for i s
    unfolding unmap_and_free_def vas.release_page_def by (cases "vmm_resolve s r (page_at va i)") (simp_all split: bind_splits)
  then show ?thesis using vas.release_range [OF ok cl n fs m] unfolding va_loop_pages [OF b] by fastforce
qed

lemma resolved_target:
  assumes ok: "vmm_ok R r d v P" and cl: "client_va d (page_at va i)"
    and m: "map (\<lambda>i. vmm_resolve v r (page_at va i)) [0..<n] = map Some fs" and i: "i < n"
  shows "target (view v (page_at va i)) (page_at va i) = fs ! i" "length fs = n"
proof -
  show l: "length fs = n" using arg_cong [OF m, of length] by simp
  have "map (\<lambda>i. vmm_resolve v r (page_at va i)) [0..<n] ! i = map Some fs ! i" by (simp only: m)
  then have "vmm_resolve v r (page_at va i) = Some (fs ! i)" using i l by simp
  then show "target (view v (page_at va i)) (page_at va i) = fs ! i"
    using vas.lookup_ok [OF ok cl] by simp
qed


lemma pages_present:
  assumes ok: "vmm_ok R r d v P" and cl: "\<And>i. i < n \<Longrightarrow> client_va d (page_at va i)" and b: "unat va + n * 4096 < 4294967296"
    and m: "map (\<lambda>i. vmm_resolve v r (page_at va i)) [0..<n] = map Some fs"
  shows "va_all_loop (page_present v r) va (va + of_nat n * PAGE_SIZE) = Some (0 \<notin> set fs)"
proof -
  have l: "length fs = n" using arg_cong [OF m, of length] by simp
  have "page_present v r (page_at va i) = Some (fs ! i \<noteq> 0)" if i: "i < n" for i
    using resolved_target [OF ok cl [OF i] m i] vas.lookup_ok [OF ok cl [OF i]] by (simp add: page_present_def)
  from va_all_pages [where f = "\<lambda>i. fs ! i \<noteq> 0", OF b this] show ?thesis using l by (simp add: in_set_conv_nth)
qed

definition mem_call :: "u32 \<Rightarrow> u32 \<Rightarrow> u32 \<Rightarrow> u32 \<Rightarrow> u32 \<Rightarrow> syscall_args" where
  "mem_call a1 a2 a3 a4 a5 = \<lparr>sc_a1 = a1, sc_a2 = a2, sc_a3 = a3, sc_a4 = a4, sc_a5 = a5\<rparr>"

text \<open>A process runs in the address space \<open>r\<close>, which is loaded, and may use the pages of the range.\<close>

definition runs_in :: "nat set \<Rightarrow> u32 \<Rightarrow> u32 \<Rightarrow> 'a kernel_scheme \<Rightarrow> u32 set \<Rightarrow> bool" where
  "runs_in R r d s P \<longleftrightarrow> (\<exists>p. proc_get_current s = Some p \<and> p_region (k_procs s p) = r) \<and> vmm_ok R r d (kernel_vm s) P"

definition user_range :: "u32 \<Rightarrow> u32 \<Rightarrow> u32 \<Rightarrow> bool" where
  "user_range d va len \<longleftrightarrow> va \<noteq> 0 \<and> len \<noteq> 0 \<and> page_offset va = 0 \<and> unat va + unat len + 4095 < 4294967296 \<and>
     (\<forall>i<page_span len. client_va d (page_at va i))"

lemma user_rangeD:
  assumes "user_range d va len"
  shows "va \<noteq> 0" "len \<noteq> 0" "page_offset va = 0" "page_up len = of_nat (page_span len) * PAGE_SIZE"
    "unat va + page_span len * 4096 < 4294967296" "\<And>i. i < page_span len \<Longrightarrow> client_va d (page_at va i)"
proof -
  show "va \<noteq> 0" "len \<noteq> 0" "page_offset va = 0" "\<And>i. i < page_span len \<Longrightarrow> client_va d (page_at va i)"
    using assms by (simp_all add: user_range_def)
  have "unat va + unat len + 4095 < 4294967296" using assms by (simp add: user_range_def)
  moreover have "page_span len * 4096 \<le> unat len + 4095" by (simp add: page_span_def)
  ultimately show "unat va + page_span len * 4096 < 4294967296" by linarith
  show "page_up len = of_nat (page_span len) * PAGE_SIZE"
    using \<open>unat va + unat len + 4095 < 4294967296\<close> by (intro page_up_pages) linarith
qed

lemma runs_inD:
  assumes "runs_in R r d s P"
  obtains p where "proc_get_current s = Some p" "p_region (k_procs s p) = r" "vmm_ok R r d (kernel_vm s) P" "r \<noteq> 0"
  using assms vmm_okD(2) unfolding runs_in_def by (auto simp: active_def)

text \<open>C17: munmap is all or nothing. If every page of the range is mapped, to different frames that the
  process holds, it returns 0, none of them is mapped any more and every frame is back with the page
  allocator; if a page is missing it returns -1 and the address space is what it was. No address
  outside of the range changes its meaning.\<close>

theorem sys_munmap_correct:
  assumes run: "runs_in R r d s P" and ur: "user_range d va len"
    and m: "map (\<lambda>i. vmm_resolve (kernel_vm s) r (page_at va i)) [0..<page_span len] = map Some fs"
    and own: "0 \<notin> set fs \<longrightarrow> distinct fs \<and> set fs \<subseteq> P"
  shows "if 0 \<in> set fs then sys_munmap E (mem_call va len 0 0 0) s = Some (-1, set_vm (kernel_vm s) s)
    else \<exists>v. sys_munmap E (mem_call va len 0 0 0) s = Some (0, set_vm v s) \<and> vmm_ok R r d v (P - set fs) \<and>
      (\<forall>i<page_span len. vmm_resolve v r (page_at va i) = Some 0) \<and>
      (\<forall>a. pd_index a \<noteq> 1023 \<and> (\<forall>i<page_span len. \<not> same_page a (page_at va i)) \<longrightarrow>
         vmm_resolve v r a = vmm_resolve (kernel_vm s) r a)"
proof -
  from run obtain p where p: "proc_get_current s = Some p" "p_region (k_procs s p) = r"
    "vmm_ok R r d (kernel_vm s) P" "r \<noteq> 0" by (rule runs_inD)
  note U = user_rangeD [OF ur]
  have e: "sys_munmap E (mem_call va len 0 0 0) s =
      as_result (on_vm (\<lambda>v. sys_munmap_internal_unmap_range v r va (of_nat (page_span len) * PAGE_SIZE)) s)"
    using p U by (simp add: sys_munmap_def mem_call_def sys_munmap_internal_def sys_munmap_internal_validate_def page_offset_and)
  note pr = pages_present [OF p(3) U(6) U(5) m]
  show ?thesis
  proof (cases "0 \<in> set fs")
    case True
    then show ?thesis unfolding e by (simp add: on_vm_def sys_munmap_internal_unmap_range_def pr as_result_def reg_def)
  next
    case False
    then have fs: "distinct fs" "set fs \<subseteq> P" "length fs = page_span len" "0 \<notin> set fs"
      using own arg_cong [OF m, of length] by simp_all
    from va_release [OF p(3) U(6) U(5) fs resolved_target(1) [OF p(3) U(6) m]] obtain v where
      v: "va_loop (unmap_and_free r) va (va + of_nat (page_span len) * PAGE_SIZE) (kernel_vm s) = Some v"
      "vmm_ok R r d v (P - set fs)" "view v = over va (\<lambda>_. 0) (page_span len) (view (kernel_vm s))" by blast
    have "page_span len \<le> 1048576" using U(5) by linarith
    then have "\<forall>i<page_span len. vmm_resolve v r (page_at va i) = Some 0"
      using resolve_over [OF v(2,3) _ _ U(6)] by simp
    moreover have "\<forall>a. pd_index a \<noteq> 1023 \<and> (\<forall>i<page_span len. \<not> same_page a (page_at va i)) \<longrightarrow>
         vmm_resolve v r a = vmm_resolve (kernel_vm s) r a"
      using resolve_outside [OF p(3) v(2,3) order_refl] by blast
    moreover have "sys_munmap E (mem_call va len 0 0 0) s = Some (0, set_vm v s)"
      using False v(1) unfolding e
      by (simp add: on_vm_def sys_munmap_internal_unmap_range_def sys_munmap_internal_free_phys_def pr as_result_def reg_def)
    ultimately show ?thesis using False v(2) by auto
  qed
qed


section \<open>Changing the protection of a range\<close>

lemma mapped_ready: "client_va d va \<Longrightarrow> target (view s va) va \<noteq> 0 \<Longrightarrow> ready s va"
  using view_pde [of d va s] by (cases "present (pde s (pd_index va))") (auto simp: ready_def target_def)

lemma entry_flags:
  assumes "flags AND PAGE_MASK = 0"
  shows "entry pa flags AND 0xFFF = flags OR PAGE_PRESENT"
proof -
  have "flags = (flags AND PAGE_MASK) OR (flags AND 0xFFF)"
  proof -
    have "(0xFFFFF000 OR 0xFFF :: u32) = - 1" by simp
    then show ?thesis unfolding PAGE_MASK_def bit.conj_disj_distrib [symmetric] by (simp only: and.right_neutral)
  qed
  then have "flags AND 0xFFF = flags" using assms by simp
  moreover have "PAGE_MASK AND 0xFFF = 0" "PAGE_PRESENT AND 0xFFF = PAGE_PRESENT" by (simp_all add: PAGE_MASK_def PAGE_PRESENT_def)
  ultimately show ?thesis unfolding entry_def by (simp add: bit.conj_disj_distrib2 and.assoc)
qed

lemma vmm_protect_ok:
  assumes ok: "vmm_ok R r d s P" and cl: "client_va d va" and nz: "target (view s va) va \<noteq> 0"
  obtains s' where "vmm_protect s r va flags = Some (0, s')" "vmm_ok R r d s' P" "ready s' = ready s"
    "view s' = on_page va (entry (view s va) flags) (view s)"
proof -
  have pr: "view s va AND PAGE_PRESENT \<noteq> 0" using nz by (auto simp: target_def)
  have p: "present (pde s (pd_index va))" using mapped_ready [OF cl nz] by (simp add: ready_def)
  have ne: "pd_index va \<noteq> 1023" using cl by (simp add: client_va_def)
  from pt_set_ok [OF ok cl p, of "entry (view s va) flags"] obtain s' where
    s': "pt_set s (pd_index va) (pt_index va) (entry (view s va) flags) = Some s'" "vmm_ok R r d s' P"
    "view s' = (\<lambda>a. if same_page a va then entry (view s va) flags else view s a)" "pde s' = pde s" by blast
  then have "vmm_protect s r va flags = Some (0, s')"
    using dir_get_ok [OF ok] p pr pt_get_ok [OF ok ne p] unfolding vmm_protect_def present_def entry_def by (simp add: Let_def)
  moreover have "ready s' = ready s" using s'(4) by (intro ext) (simp add: ready_def fun_eq_iff)
  ultimately show ?thesis using that s' by (simp add: on_page_def)
qed

lemma va_protect:
  assumes ok: "vmm_ok R r d v P" and cl: "\<And>i. i < n \<Longrightarrow> client_va d (page_at va i)" and b: "unat va + n * 4096 < 4294967296"
    and m: "\<And>i. i < n \<Longrightarrow> target (view v (page_at va i)) (page_at va i) \<noteq> 0"
  shows "\<exists>v'. va_loop (\<lambda>va v. map_option snd (vmm_protect v r va flags)) va (va + of_nat n * PAGE_SIZE) v = Some v' \<and>
    vmm_ok R r d v' P \<and> ready v' = ready v \<and> view v' = over va (\<lambda>i. entry (view v (page_at va i)) flags) n (view v)"
proof -
  have n: "n \<le> 1048576" using b by linarith
  let ?f = "\<lambda>i s. map_option (Pair (0::int)) (map_option snd (vmm_protect s r (page_at va i) flags))"
  let ?I = "\<lambda>i t. vmm_ok R r d t P \<and> ready t = ready v \<and> view t = over va (\<lambda>i. entry (view v (page_at va i)) flags) i (view v)"
  have "\<exists>x v'. for_pages ?f 0 n v = Some (x, v') \<and>
     (if x < 0 then \<exists>j. 0 \<le> j \<and> j < 0 + n \<and> False else x = 0 \<and> ?I (0 + n) v')"
  proof (rule for_pages_rule [where Q = "\<lambda>_ _ _. False"])
    show "?I 0 v" using ok by simp
    fix j t assume I: "?I j t" and "0 \<le> j" "j < 0 + n"
    then have j: "j < n" and vj: "view t (page_at va j) = view v (page_at va j)" using n by (simp_all add: over_page_at_above)
    from vmm_protect_ok [of R r d t P "page_at va j" flags] I cl [OF j] m [OF j] obtain t' where
      "vmm_protect t r (page_at va j) flags = Some (0, t')" "vmm_ok R r d t' P" "ready t' = ready t"
      "view t' = on_page (page_at va j) (entry (view t (page_at va j)) flags) (view t)" unfolding vj by metis
    then show "\<exists>x t'. ?f j t = Some (x, t') \<and> (if x < 0 then False else ?I (Suc j) t')" using I vj by simp
  qed
  then show ?thesis unfolding va_loop_pages [OF b] by (auto split: if_splits)
qed

text \<open>mprotect is all or nothing. If every page of the range is mapped it returns 0, every page
  keeps its frame and has exactly the flags that were asked for and the present bit; if one is missing
  it returns -1 and the address space is what it was. The entry of no other page changes.\<close>

theorem sys_mprotect_correct:
  assumes run: "runs_in R r d s P" and ur: "user_range d va len" and fl: "flags \<noteq> 0" "flags AND PAGE_MASK = 0"
    and m: "map (\<lambda>i. vmm_resolve (kernel_vm s) r (page_at va i)) [0..<page_span len] = map Some fs"
  shows "if 0 \<in> set fs then sys_mprotect E (mem_call va len flags 0 0) s = Some (-1, set_vm (kernel_vm s) s)
    else \<exists>v. sys_mprotect E (mem_call va len flags 0 0) s = Some (0, set_vm v s) \<and> vmm_ok R r d v P \<and>
      map (\<lambda>i. vmm_resolve v r (page_at va i)) [0..<page_span len] = map Some fs \<and>
      (\<forall>i<page_span len. vmm_get_entry_flags v (page_at va i) = Some (flags OR PAGE_PRESENT)) \<and>
      (\<forall>a. (\<forall>i<page_span len. \<not> same_page a (page_at va i)) \<longrightarrow> view v a = view (kernel_vm s) a)"
proof -
  from run obtain p where p: "proc_get_current s = Some p" "p_region (k_procs s p) = r"
    "vmm_ok R r d (kernel_vm s) P" "r \<noteq> 0" by (rule runs_inD)
  note U = user_rangeD [OF ur]
  let ?n = "page_span len" and ?e = "\<lambda>i. entry (view (kernel_vm s) (page_at va i)) flags"
  have e: "sys_mprotect E (mem_call va len flags 0 0) s =
      as_result (on_vm (protect_pages r flags va (va + of_nat ?n * PAGE_SIZE)) s)"
    using p U fl(1) by (simp add: sys_mprotect_def mem_call_def page_offset_and)
  note pr = pages_present [OF p(3) U(6) U(5) m]
  note T = resolved_target [OF p(3) U(6) m]
  have n: "?n \<le> 1048576" using U(5) by linarith
  show ?thesis
  proof (cases "0 \<in> set fs")
    case True
    then show ?thesis unfolding e by (simp add: on_vm_def protect_pages_def pr as_result_def reg_def)
  next
    case False
    have nz: "target (view (kernel_vm s) (page_at va i)) (page_at va i) \<noteq> 0" if "i < ?n" for i
      using T [OF that that] False that by (metis nth_mem)
    from va_protect [OF p(3) U(6) U(5) nz, where flags = flags] obtain v where
      v: "va_loop (\<lambda>va v. map_option snd (vmm_protect v r va flags)) va (va + of_nat ?n * PAGE_SIZE) (kernel_vm s) = Some v"
      "vmm_ok R r d v P" "ready v = ready (kernel_vm s)" "view v = over va ?e ?n (view (kernel_vm s))" by blast
    have vi: "view v (page_at va i) = ?e i" if "i < ?n" for i unfolding v(4) by (rule over_at [OF n that])
    have "vmm_resolve v r (page_at va i) = Some (fs ! i)" if i: "i < ?n" for i
    proof -
      have "target (?e i) (page_at va i) = fs ! i"
        using T(1) [OF i i] nz [OF i] entry_parts [OF fl(2)] by (auto simp: target_def split: if_splits)
      then show ?thesis using vas.lookup_ok [OF v(2) U(6) [OF i]] vi [OF i] by simp
    qed
    then have "map (\<lambda>i. vmm_resolve v r (page_at va i)) [0..<?n] = map Some fs"
      using arg_cong [OF m, of length] by (intro nth_equalityI) simp_all
    moreover have "vmm_get_entry_flags v (page_at va i) = Some (flags OR PAGE_PRESENT)" if i: "i < ?n" for i
    proof -
      have "ready v (page_at va i)" using mapped_ready [OF U(6) [OF i] nz [OF i]] v(3) by simp
      then show ?thesis using vas.flags_ok [OF v(2) U(6) [OF i]] entry_flags [OF fl(2)] vi [OF i] by simp
    qed
    moreover have "\<forall>a. (\<forall>i<?n. \<not> same_page a (page_at va i)) \<longrightarrow> view v a = view (kernel_vm s) a"
      unfolding v(4) by (simp add: over_else)
    moreover have "sys_mprotect E (mem_call va len flags 0 0) s = Some (0, set_vm v s)"
      using False v(1) unfolding e by (simp add: on_vm_def protect_pages_def pr as_result_def reg_def)
    ultimately show ?thesis using False v(2) by auto
  qed
qed


section \<open>A concrete process\<close>

text \<open>
  The process 2 runs on the thread 1 in the address space of \<open>demo_vm\<close>, in which the page at 4 MiB has
  been mapped to the first page of memory.
\<close>

definition demo_kernel :: "vm \<Rightarrow> kernel" where
  "demo_kernel v = set_vm v (procfs.extend demo_vfs (kernel.fields
     (\<lambda>_. (proc_alloc 0)\<lparr>p_region := 0x5000\<rparr>) (\<lambda>_ _. \<lparr>fd_node = 0, fd_pipe = 0, fd_refcount = 0\<rparr>)
     \<lparr>next_pid = 1, process_count = 1\<rparr> \<lparr>tbl_lock = 0, tbl_processes = None\<rparr> (Some 2)
     (quiet_sched\<lparr>current_thread := Some 1, current_process := Some 2\<rparr>)
     None (\<lambda>_. ready_queue quiet_sched) (\<lambda>_. 0) (\<lambda>_. \<lparr>cx_edi = 0, cx_esi = 0, cx_ebx = 0, cx_ebp = 0, cx_eip = 0\<rparr>) (\<lambda>_. 0)
     (\<lambda>_. \<lparr>lock = 0, read_bytes = 0, write_bytes = 0, read_refs = 0, write_refs = 0, read_fd_open = False,
        write_fd_open = False, data = []\<rparr>) v (\<lambda>_. no_stat) []))"

lemma demo_kernel_vm [simp]: "kernel_vm (demo_kernel v) = v"
  by (simp add: demo_kernel_def)

lemma demo_kernel_process: "proc_get_current (demo_kernel v) = Some 2" "k_procs (demo_kernel v) = (\<lambda>_. (proc_alloc 0)\<lparr>p_region := 0x5000\<rparr>)"
  by (simp_all add: proc_get_current_def demo_kernel_def set_vm_def procfs.extend_def kernel.fields_def)

lemma demo_kernel_runs: "vmm_ok R 0x5000 d v P \<Longrightarrow> runs_in R 0x5000 d (demo_kernel v) P"
  unfolding runs_in_def by (simp add: demo_kernel_process)

lemma demo_mapped:
  "\<exists>v. vmm_ok {} 0x5000 0xFFFFF000 v {0x100000} \<and> vmm_resolve v 0x5000 0x400000 = Some 0x100000"
proof -
  have cl: "client_va 0xFFFFF000 0x400000" and rd: "ready demo_vm 0x400000"
    using demo_range by (auto simp: range_ready_def dest!: spec [of _ 0])
  from demo_page_alloc obtain v1 where a: "page_alloc demo_vm = Some (0x100000, v1)" by blast
  from demo_vm_ok have ok: "vmm_ok {} 0x5000 0xFFFFF000 v1 {0x100000}" and pd: "pde v1 = pde demo_vm"
    by (cases rule: page_alloc_cases; use a in simp)+
  then have "ready v1 0x400000" using rd by (simp add: ready_def)
  with vmm_map_ok [OF ok cl, of "0x100000" 6] obtain v where
    v: "vmm_ok {} 0x5000 0xFFFFF000 v {0x100000}" "view v = on_page 0x400000 (entry 0x100000 6) (view v1)" by blast
  have "target (entry 0x100000 6) 0x400000 = 0x100000"
    by (rule target_page) (simp_all add: PAGE_MASK_def page_offset_def)
  then have "vmm_resolve v 0x5000 0x400000 = Some 0x100000"
    using vas.lookup_ok [OF v(1) cl] v(2) by (simp add: on_page_def)
  with v(1) show ?thesis by blast
qed

lemma demo_user_range: "user_range 0xFFFFF000 0x400000 0x1000"
  using demo_range by (auto simp: user_range_def range_ready_def page_span_def page_offset_def dest!: spec [of _ 0])

lemma demo_span: "[0..<page_span 0x1000] = [0]"
  by (simp add: page_span_def)

theorem sys_munmap_correct_witness:
  "\<exists>(v::vm) w E. vmm_resolve v 0x5000 0x400000 = Some 0x100000 \<and>
     sys_munmap E (mem_call 0x400000 0x1000 0 0 0) (demo_kernel v) = Some (0, set_vm w (demo_kernel v)) \<and>
     vmm_ok {} 0x5000 0xFFFFF000 w {} \<and> vmm_resolve w 0x5000 0x400000 = Some 0"
proof -
  from demo_mapped obtain v where v: "vmm_ok {} 0x5000 0xFFFFF000 v {0x100000}" "vmm_resolve v 0x5000 0x400000 = Some 0x100000"
    by blast
  from sys_munmap_correct [OF demo_kernel_runs [OF v(1)] demo_user_range, of "[0x100000]"] v(2)
  show ?thesis by (fastforce simp: demo_span page_span_def)
qed

theorem sys_mprotect_correct_witness:
  "\<exists>(v::vm) w E. vmm_resolve v 0x5000 0x400000 = Some 0x100000 \<and>
     sys_mprotect E (mem_call 0x400000 0x1000 4 0 0) (demo_kernel v) = Some (0, set_vm w (demo_kernel v)) \<and>
     vmm_resolve w 0x5000 0x400000 = Some 0x100000 \<and> vmm_get_entry_flags w 0x400000 = Some 5"
proof -
  from demo_mapped obtain v where v: "vmm_ok {} 0x5000 0xFFFFF000 v {0x100000}" "vmm_resolve v 0x5000 0x400000 = Some 0x100000"
    by blast
  from sys_mprotect_correct [OF demo_kernel_runs [OF v(1)] demo_user_range, of 4 "[0x100000]"] v(2)
  show ?thesis by (fastforce simp: demo_span page_span_def PAGE_MASK_def PAGE_PRESENT_def)
qed

end
