(* ===== verification/MmapProps.thy ===== *)
theory MmapProps
  imports SyscallMemProps
begin

text \<open>
  Backing a range with fresh pages: the anonymous case of mmap, and growing a mapping with mremap. The
  state of the kernel keeps the contract of the page tables as well, with a page that is cleared when
  it is taken.
\<close>

section \<open>The contract on the state of the kernel\<close>

lemma view_same: "vm_frames t = vm_frames s \<Longrightarrow> vm_cr3 t = vm_cr3 s \<Longrightarrow> vm_paging t = vm_paging s \<Longrightarrow> vm_region t = vm_region s \<Longrightarrow>
    hp_pmm (vm_heap t) = hp_pmm (vm_heap s) \<Longrightarrow> vmm_ok R r d t P = vmm_ok R r d s P \<and> view t = view s \<and> ready t = ready s"
proof -
  assume e: "vm_frames t = vm_frames s" "vm_cr3 t = vm_cr3 s" "vm_paging t = vm_paging s" "vm_region t = vm_region s"
    "hp_pmm (vm_heap t) = hp_pmm (vm_heap s)"
  have sl: "slots t = slots s" by (simp add: slots_def e)
  then have tb: "tables t = tables s" by (simp add: tables_def e)
  have p: "pte t = pte s" by (rule ext) (simp add: pte_def e Let_def)
  have m: "mmu t = mmu s" by (rule ext) (simp add: mmu_def p e)
  have "active t r = active s r" by (simp add: active_def m e)
  then have "vmm_ok R r d t P = vmm_ok R r d s P" by (simp add: vmm_ok_def vmm_wf_def recursive_def e tb sl)
  moreover have "view t = view s" by (rule ext) (simp add: view_def p)
  moreover have "ready t = ready s" by (rule ext) (simp add: ready_def e)
  ultimately show ?thesis by blast
qed

lemma set_mem_vm [simp]:
  "vmm_ok R r d (kernel_vm (set_mem m s)) P = vmm_ok R r d (kernel_vm s) P" "view (kernel_vm (set_mem m s)) = view (kernel_vm s)"
  "ready (kernel_vm (set_mem m s)) = ready (kernel_vm s)"
  using view_same [of "kernel_vm (set_mem m s)" "kernel_vm s"] by (simp_all add: kernel_vm_def set_mem_def)

definition take_clear :: "'a kernel_scheme \<Rightarrow> (u32 \<times> 'a kernel_scheme) option" where
  "take_clear s = do {
     (a, s) \<leftarrow> on_vm page_alloc s;
     Some (a, if a = 0 then s else set_mem (clear_from (fs_mem s) a 0) s)
   }"

lemma on_vm_some: "on_vm f s = Some (x, t) \<longleftrightarrow> (\<exists>v. f (kernel_vm s) = Some (x, v) \<and> t = set_vm v s)"
  by (auto simp: on_vm_def split: bind_splits)

interpretation kas: address_space "\<lambda>s va pa fl. on_vm (\<lambda>v. vmm_map v r va pa fl) s" "\<lambda>s va. on_vm (\<lambda>v. vmm_unmap v r va) s"
    "\<lambda>s. vmm_resolve (kernel_vm s) r" take_clear "\<lambda>s a. map_option (\<lambda>v. set_vm v s) (page_free (kernel_vm s) a)"
    "\<lambda>s. view (kernel_vm s)" "\<lambda>s. ready (kernel_vm s)" "\<lambda>s. vmm_ok R r d (kernel_vm s)" "client_va d"
    "\<lambda>s. vmm_get_entry_flags (kernel_vm s)"
  for R r d
proof
  fix s :: "'a kernel_scheme" and P va pa fl a b
  assume ok: "vmm_ok R r d (kernel_vm s) P"
  show "\<exists>x s'. on_vm (\<lambda>v. vmm_map v r va pa fl) s = Some (x, s') \<and> vmm_ok R r d (kernel_vm s') P \<and>
      ready (kernel_vm s) \<le> ready (kernel_vm s') \<and>
      (x = 0 \<and> ready (kernel_vm s') va \<and> view (kernel_vm s') = on_page va (entry pa fl) (view (kernel_vm s)) \<or>
       x = -1 \<and> \<not> ready (kernel_vm s) va \<and> view (kernel_vm s') = view (kernel_vm s))" if "client_va d va"
    using vas.mp_ok [OF ok that, of pa fl] by (auto simp: on_vm_some)
  show "\<exists>x s'. on_vm (\<lambda>v. vmm_unmap v r va) s = Some (x, s') \<and> vmm_ok R r d (kernel_vm s') P \<and>
      ready (kernel_vm s') = ready (kernel_vm s) \<and> view (kernel_vm s') = on_page va 0 (view (kernel_vm s)) \<and>
      x = (if ready (kernel_vm s) va then 0 else -1)" if "client_va d va"
    using vas.um_ok [OF ok that] by (auto simp: on_vm_some)
  show "vmm_resolve (kernel_vm s) r va = Some (target (view (kernel_vm s) va) va)" if "client_va d va"
    by (rule vas.lookup_ok [OF ok that])
  show "\<exists>a s'. take_clear s = Some (a, s') \<and> view (kernel_vm s') = view (kernel_vm s) \<and> ready (kernel_vm s') = ready (kernel_vm s) \<and>
      (if a = 0 then vmm_ok R r d (kernel_vm s') P
       else a mod PAGE_SIZE = 0 \<and> a \<notin> P \<and> vmm_ok R r d (kernel_vm s') (insert a P))"
  proof -
    from vas.get_ok [OF ok] obtain a v where "page_alloc (kernel_vm s) = Some (a, v)" "view v = view (kernel_vm s)"
      "ready v = ready (kernel_vm s)" "if a = 0 then vmm_ok R r d v P else a mod PAGE_SIZE = 0 \<and> a \<notin> P \<and> vmm_ok R r d v (insert a P)"
      by blast
    then show ?thesis unfolding take_clear_def on_vm_def by (intro exI [of _ a]) simp
  qed
  show "\<exists>s'. map_option (\<lambda>v. set_vm v s) (page_free (kernel_vm s) a) = Some s' \<and> view (kernel_vm s') = view (kernel_vm s) \<and>
      ready (kernel_vm s') = ready (kernel_vm s) \<and> vmm_ok R r d (kernel_vm s') (P - {a})" if "a \<in> P"
    using vas.put_ok [OF ok that] by auto
  show "vmm_get_entry_flags (kernel_vm s) va = Some (view (kernel_vm s) va AND 0xFFF)" if "client_va d va" "ready (kernel_vm s) va"
    by (rule vas.flags_ok [OF ok that])
  show "view (kernel_vm s) a = view (kernel_vm s) b" if "same_page a b"
    by (rule vas.view_page [OF ok that])
qed

section \<open>What is written to memory\<close>

lemma fold_clear:
  "fold (\<lambda>k m. m(page + of_nat k := (0 :: u8))) ks m x = (if \<exists>k\<in>set ks. x = page + of_nat k then 0 else m x)"
  by (induction ks arbitrary: m) auto

lemma clear_from_at: "k < 4096 \<Longrightarrow> clear_from m page 0 (page + of_nat k) = 0"
  unfolding clear_from_def fold_clear by auto

lemma clear_from_keeps: "m x = 0 \<Longrightarrow> clear_from m page 0 x = 0"
  unfolding clear_from_def fold_clear by simp

lemma vm_heap_mem:
  "page_alloc v = Some (a, v') \<Longrightarrow> hp_mem (vm_heap v') = hp_mem (vm_heap v)"
  "vmm_map v r va pa fl = Some (x, v') \<Longrightarrow> hp_mem (vm_heap v') = hp_mem (vm_heap v)"
  by (auto simp: page_alloc_def set_pmm_def vmm_map_def dir_set_def vstore_def clear_page_def pt_set_def set_word_def set_frame_def
      Let_def split: bind_splits if_splits prod.splits)


text \<open>One page of the range: of the anonymous mmap and of mremap.\<close>

lemma mmap_page_fill:
  "mmap_page T r fl 0 (page_at va i) s = map_option (\<lambda>(x, s). (x = 0, s)) (kas.fill_page r va fl i s)"
  unfolding mmap_page_def kas.fill_page_def take_clear_def by (auto split: bind_splits)

lemma expand_page_fill: "expand_page r fl a s = mmap_page T r fl 0 a s"
  unfolding expand_page_def mmap_page_def by (cases "on_vm page_alloc s") (auto simp: Let_def)

definition cleared :: "'a kernel_scheme \<Rightarrow> u32 list \<Rightarrow> bool" where
  "cleared s fs \<longleftrightarrow> (\<forall>f\<in>set fs. \<forall>k<4096. fs_mem s (f + of_nat k) = 0)"

lemma take_clear_cleared:
  assumes "take_clear s = Some (a, t)" and "cleared s fs"
  shows "cleared t (if a = 0 then fs else fs @ [a])"
proof -
  from assms(1) obtain v where v: "page_alloc (kernel_vm s) = Some (a, v)"
    "t = (if a = 0 then set_vm v s else set_mem (clear_from (fs_mem (set_vm v s)) a 0) (set_vm v s))"
    by (auto simp: take_clear_def on_vm_def split: bind_splits)
  have "fs_mem (set_vm v s) = fs_mem s" using vm_heap_mem(1) [OF v(1)] by simp
  then show ?thesis using assms(2) v(2) by (auto simp: cleared_def set_mem_def clear_from_at clear_from_keeps)
qed

lemma fill_page_clears:
  assumes f: "kas.fill_page r va fl i s = Some (x, s')" and c: "cleared s fs"
  shows "\<exists>a t. take_clear s = Some (a, t) \<and> (x = 0 \<longleftrightarrow> a \<noteq> 0) \<and> cleared s' (if a = 0 then fs else fs @ [a])"
proof -
  from f obtain a t where t: "take_clear s = Some (a, t)" by (auto simp: kas.fill_page_def split: bind_splits)
  note ct = take_clear_cleared [OF t c]
  show ?thesis
  proof (cases "a = 0")
    case True
    then show ?thesis using f t ct by (auto simp: kas.fill_page_def)
  next
    case False
    with f t obtain y where y: "on_vm (\<lambda>v. vmm_map v r (page_at va i) a fl) t = Some (y, s')" "x = 0"
      by (auto simp: kas.fill_page_def split: bind_splits)
    then obtain v where "vmm_map (kernel_vm t) r (page_at va i) a fl = Some (y, v)" "s' = set_vm v t"
      by (auto simp: on_vm_some)
    then have "fs_mem s' = fs_mem t" using vm_heap_mem(2) by fastforce
    then show ?thesis using t ct y False by (simp add: cleared_def)
  qed
qed

lemma fill_range:
  assumes ok: "vmm_ok R r d (kernel_vm s) P" and cl: "\<And>i. i < n \<Longrightarrow> client_va d (page_at va i)"
    and rd: "\<And>i. i < n \<Longrightarrow> ready (kernel_vm s) (page_at va i)" and b: "unat va + n * 4096 < 4294967296"
  shows "\<exists>x s' fs. va_try_loop (mmap_page T r fl 0) va (va + of_nat n * PAGE_SIZE) s = Some (x, s') \<and>
     kas.filled R r d va fl s P fs s' \<and> cleared s' fs \<and>
     (x = None \<and> length fs = n \<or> length fs < n \<and> x = Some (page_at va (length fs)))"
proof -
  let ?I = "\<lambda>i t. \<exists>fs. length fs = i \<and> kas.filled R r d va fl s P fs t \<and> cleared t fs"
  have "kas.filled R r d va fl s P [] s" using ok by (simp add: kas.filled_def)
  then have "?I 0 s" by (intro exI [of _ "[]"]) (simp add: cleared_def)
  have "\<exists>x t. va_try_loop (mmap_page T r fl 0) va (va + of_nat n * PAGE_SIZE) s = Some (x, t) \<and>
      (case x of None \<Rightarrow> ?I (0 + n) t | Some a \<Rightarrow> \<exists>j<n. a = page_at va j \<and> ?I (0 + j) t)"
  proof (rule va_try_rule [OF b, where Q = ?I])
    show "?I 0 s" by fact
    fix j t assume "?I j t" and "0 \<le> j" and j: "j < 0 + n"
    then obtain fs where fs: "length fs = j" "kas.filled R r d va fl s P fs t" "cleared t fs" by blast
    with kas.fill_step [OF fs(2)] cl rd j obtain x t' where f: "kas.fill_page r va fl j t = Some (x, t')"
      and c: "x = 0 \<and> (\<exists>a t1. take_clear t = Some (a, t1) \<and> kas.filled R r d va fl s P (fs @ [a]) t') \<or>
        x = -1 \<and> kas.filled R r d va fl s P fs t'" by fastforce
    have "mmap_page T r fl 0 (page_at va (j - 0)) t = Some (x = 0, t')" using f by (simp add: mmap_page_fill)
    moreover have "if x = 0 then ?I (Suc j) t' else ?I j t'"
      using c
    proof
      assume *: "x = 0 \<and> (\<exists>a t1. take_clear t = Some (a, t1) \<and> kas.filled R r d va fl s P (fs @ [a]) t')"
      then obtain a t1 where a: "take_clear t = Some (a, t1)" "kas.filled R r d va fl s P (fs @ [a]) t'" by blast
      with fill_page_clears [OF f fs(3)] * have "cleared t' (fs @ [a])" by auto
      then have "?I (Suc j) t'" using a(2) fs(1) by (intro exI [of _ "fs @ [a]"]) simp
      then show ?thesis using * by simp
    next
      assume *: "x = -1 \<and> kas.filled R r d va fl s P fs t'"
      with fill_page_clears [OF f fs(3)] have "cleared t' fs" by (auto split: if_splits)
      with * fs(1) have "?I j t'" by blast
      then show ?thesis using * by simp
    qed
    ultimately show "\<exists>ok t'. mmap_page T r fl 0 (page_at va (j - 0)) t = Some (ok, t') \<and> (if ok then ?I (Suc j) t' else ?I j t')"
      by blast
  qed
  then obtain x t where l: "va_try_loop (mmap_page T r fl 0) va (va + of_nat n * PAGE_SIZE) s = Some (x, t)"
    and c: "case x of None \<Rightarrow> ?I (0 + n) t | Some a \<Rightarrow> \<exists>j<n. a = page_at va j \<and> ?I (0 + j) t" by blast
  show ?thesis
  proof (cases x)
    case None
    with c obtain fs where "length fs = n" "kas.filled R r d va fl s P fs t" "cleared t fs" by auto
    then show ?thesis using l None by blast
  next
    case (Some a)
    with c obtain fs where "length fs < n" "a = page_at va (length fs)" "kas.filled R r d va fl s P fs t" "cleared t fs" by auto
    then show ?thesis using l Some by blast
  qed
qed

section \<open>Filling a range or giving everything back\<close>

text \<open>An unused range whose page tables are there.\<close>

definition free_range :: "u32 \<Rightarrow> vm \<Rightarrow> u32 \<Rightarrow> nat \<Rightarrow> bool" where
  "free_range d v va n \<longleftrightarrow> page_offset va = 0 \<and> unat va + n * 4096 < 4294967296 \<and> range_ready d v va n \<and>
     (\<forall>i<n. view v (page_at va i) = 0)"

text \<open>The frames \<open>fs\<close>, fresh and cleared, lie behind the range; nothing else has changed.\<close>

definition backed :: "nat set \<Rightarrow> u32 \<Rightarrow> u32 \<Rightarrow> 'a kernel_scheme \<Rightarrow> u32 set \<Rightarrow> u32 \<Rightarrow> nat \<Rightarrow> u32 list \<Rightarrow> 'a kernel_scheme \<Rightarrow> bool" where
  "backed R r d s P va n fs t \<longleftrightarrow> distinct fs \<and> set fs \<inter> P = {} \<and> vmm_ok R r d (kernel_vm t) (P \<union> set fs) \<and>
     map (\<lambda>i. vmm_resolve (kernel_vm t) r (page_at va i)) [0..<n] = map Some fs \<and> cleared t fs \<and>
     (\<forall>a. pd_index a \<noteq> 1023 \<and> (\<forall>i<n. \<not> same_page a (page_at va i)) \<longrightarrow>
        vmm_resolve (kernel_vm t) r a = vmm_resolve (kernel_vm s) r a)"

lemma fill_or_undo:
  assumes ok: "vmm_ok R r d (kernel_vm s) P" and fr: "free_range d (kernel_vm s) va n" and fl: "fl AND PAGE_MASK = 0"
  obtains (filled) t fs where "va_try_loop (mmap_page T r fl 0) va (va + of_nat n * PAGE_SIZE) s = Some (None, t)"
      "backed R r d s P va n fs t"
  | (undone) j t v where "va_try_loop (mmap_page T r fl 0) va (va + of_nat n * PAGE_SIZE) s = Some (Some (page_at va j), t)"
      "sys_mmap_internal_rb (kernel_vm t) r va (page_at va j) = Some v" "vmm_ok R r d v P" "view v = view (kernel_vm s)"
proof -
  have off: "page_offset va = 0" and b: "unat va + n * 4096 < 4294967296" and rr: "range_ready d (kernel_vm s) va n"
    and free: "\<And>i. i < n \<Longrightarrow> view (kernel_vm s) (page_at va i) = 0" using fr by (simp_all add: free_range_def)
  have cl: "\<And>i. i < n \<Longrightarrow> client_va d (page_at va i)" and rd: "\<And>i. i < n \<Longrightarrow> ready (kernel_vm s) (page_at va i)"
    using rr by (simp_all add: range_ready_def)
  from fill_range [OF ok cl rd b, of T fl] obtain x t fs where
    l: "va_try_loop (mmap_page T r fl 0) va (va + of_nat n * PAGE_SIZE) s = Some (x, t)"
    and F: "kas.filled R r d va fl s P fs t" and z: "cleared t fs"
    and c: "x = None \<and> length fs = n \<or> length fs < n \<and> x = Some (page_at va (length fs))" by blast
  have fs: "distinct fs" "set fs \<inter> P = {}" "\<forall>a\<in>set fs. a \<noteq> 0 \<and> a mod PAGE_SIZE = 0" "vmm_ok R r d (kernel_vm t) (P \<union> set fs)"
    "view (kernel_vm t) = over va (\<lambda>i. entry (fs ! i) fl) (length fs) (view (kernel_vm s))" using F by (simp_all add: kas.filled_def)
  have len: "length fs \<le> n" using c by auto
  note res = resolve_frames [OF fs(4) fs(5) range_ready_mono [OF rr len] fs(3) refl off fl]
  from c show ?thesis
  proof
    assume *: "x = None \<and> length fs = n"
    have "map (\<lambda>i. vmm_resolve (kernel_vm t) r (page_at va i)) [0..<n] = map Some fs"
      using res(2) * by (intro nth_equalityI) simp_all
    moreover have "\<forall>a. pd_index a \<noteq> 1023 \<and> (\<forall>i<n. \<not> same_page a (page_at va i)) \<longrightarrow>
        vmm_resolve (kernel_vm t) r a = vmm_resolve (kernel_vm s) r a"
      using resolve_outside [OF ok fs(4) fs(5) len] by blast
    ultimately show ?thesis using filled [of t fs] * l fs(1,2,4) z by (simp add: backed_def)
  next
    assume *: "length fs < n \<and> x = Some (page_at va (length fs))"
    have b': "unat va + length fs * 4096 < 4294967296" using b len by linarith
    have "set fs \<subseteq> P \<union> set fs" "0 \<notin> set fs" using fs(3) by auto
    from va_release [OF fs(4) cl b' fs(1) this(1) refl this(2) res(1)] len obtain v where
      v: "va_loop (unmap_and_free r) va (va + of_nat (length fs) * PAGE_SIZE) (kernel_vm t) = Some v"
      "vmm_ok R r d v (P \<union> set fs - set fs)" "view v = over va (\<lambda>_. 0) (length fs) (view (kernel_vm t))" by force
    have "P \<union> set fs - set fs = P" using fs(2) by auto
    moreover have "view v = view (kernel_vm s)"
      unfolding v(3) fs(5) over_over using len free by (intro over_id) (auto intro: vas.view_page [OF ok])
    ultimately show ?thesis using undone [of "length fs" t v] * l v
      by (simp add: sys_mmap_internal_rb_def page_at_def)
  qed
qed

text \<open>C16: An anonymous mmap of a range of the caller that is unused and whose page tables are all in place
  (\<open>free_range\<close>) is all or nothing. It returns the address, and every page of the range lies on a
  frame of its own that nobody held and that is full of zeros; or it returns -1, every frame it had taken is back
  with the page allocator, and the address space is what it was. No address outside of the range changes its meaning.
  (The page tables are a condition because the code ignores the result of \<open>vmm_map\<close>, which fails when a table is
  missing and no frame is left for it, and because the frames of the tables it makes are not given back.)\<close>

theorem sys_mmap_anonymous_correct:
  assumes run: "runs_in R r d s P" and ur: "user_range d va len"
    and fr: "free_range d (kernel_vm s) va (page_span len)"
    and fl: "flags \<noteq> 0" "flags AND PAGE_MASK = 0" and fd: "sint fd < 0" and off: "offset \<noteq> 0"
  shows "\<exists>x t. sys_mmap E (mem_call va len flags fd offset) s = Some (x, t) \<and>
    (x = va \<and> (\<exists>fs. backed R r d s P va (page_span len) fs t) \<or>
     x = -1 \<and> vmm_ok R r d (kernel_vm t) P \<and> view (kernel_vm t) = view (kernel_vm s))"
proof -
  from run obtain p where p: "proc_get_current s = Some p" "p_region (k_procs s p) = r"
    "vmm_ok R r d (kernel_vm s) P" "r \<noteq> 0" by (rule runs_inD)
  note U = user_rangeD [OF ur]
  have "fd \<noteq> 0" using fd by auto
  then have e: "sys_mmap E (mem_call va len flags fd offset) s = do {
      (x, t) \<leftarrow> sys_mmap_internal_alloc (se_ops E) s r va (of_nat (page_span len) * PAGE_SIZE) flags 0;
      Some (if x < 0 then -1 else va, t) }"
    using p U fl(1) fd off
    by (simp add: sys_mmap_def mem_call_def sys_mmap_internal_get_va_def page_offset_and Let_def)
  from p(3) fr fl(2) show ?thesis
  proof (cases rule: fill_or_undo [where T = "se_ops E"])
    case (filled t fs)
    then show ?thesis unfolding e sys_mmap_internal_alloc_def by auto
  next
    case (undone j t v)
    then show ?thesis unfolding e sys_mmap_internal_alloc_def by simp
  qed
qed


lemma unat_pages: "k * 4096 < 4294967296 \<Longrightarrow> unat (of_nat k * PAGE_SIZE :: u32) = k * 4096"
  by (simp add: unat_word_ariths unat_of_nat_u32)

text \<open>Growing a mapping in place with mremap. If the addresses behind it are unused, it returns the
  address of the mapping, with every new page on a frame of its own that nobody held and that is full
  of zeros; or it returns -1 and everything is what it was.\<close>

theorem sys_mremap_grow_correct:
  assumes run: "runs_in R r d s P" and va: "va \<noteq> 0" and old: "old \<noteq> 0" and b: "unat va + unat new + 4095 < 4294967296"
    and grow: "page_span old < page_span new" and fl: "flags \<noteq> 0" "flags AND PAGE_MASK = 0"
    and fr: "free_range d (kernel_vm s) (page_at va (page_span old)) (page_span new - page_span old)"
  shows "\<exists>x t. sys_mremap E (mem_call va old new flags 0) s = Some (x, t) \<and>
    (x = va \<and> (\<exists>fs. backed R r d s P (page_at va (page_span old)) (page_span new - page_span old) fs t) \<or>
     x = -1 \<and> vmm_ok R r d (kernel_vm t) P \<and> view (kernel_vm t) = view (kernel_vm s))"
proof -
  let ?m = "page_span old" and ?n = "page_span new"
  from run obtain p where p: "proc_get_current s = Some p" "p_region (k_procs s p) = r"
    "vmm_ok R r d (kernel_vm s) P" "r \<noteq> 0" by (rule runs_inD)
  have "?n * 4096 \<le> unat new + 4095" by (simp add: page_span_def)
  then have n: "?n * 4096 < 4294967296" using b by linarith
  have o: "unat old + 4095 < 4294967296"
  proof -
    have "unat old + 4095 < Suc ?m * 4096" by (simp add: page_span_def)
    moreover have "Suc ?m * 4096 \<le> ?n * 4096" using grow by simp
    ultimately show ?thesis using n by linarith
  qed
  have new: "new \<noteq> 0" using grow by (auto simp: page_span_def)
  have up: "page_up old = of_nat ?m * PAGE_SIZE" "page_up new = of_nat ?n * PAGE_SIZE"
    using o b by (intro page_up_pages; linarith)+
  have "unat (page_up old) < unat (page_up new)" using grow n unfolding up by (simp add: unat_pages)
  then have lt: "page_up old < page_up new" by (simp add: word_less_nat_alt)
  have stop: "va + page_up new = page_at va ?m + of_nat (?n - ?m) * PAGE_SIZE"
    using grow unfolding up page_at_def by (simp add: of_nat_diff algebra_simps)
  have start: "va + page_up old = page_at va ?m" unfolding up page_at_def by simp
  have e: "sys_mremap E (mem_call va old new flags 0) s =
      sys_internal_mremap_expand s r va (page_up old) (page_up new) flags"
    using p va old new fl(1) lt
    by (auto simp: sys_mremap_def mem_call_def sys_internal_mremap_validate_def Let_def)
  have ex: "expand_page r flags = mmap_page (se_ops E) r flags 0"
    by (intro ext) (rule expand_page_fill)
  from p(3) fr fl(2) show ?thesis
  proof (cases rule: fill_or_undo [where T = "se_ops E"])
    case (filled t fs)
    then show ?thesis unfolding e sys_internal_mremap_expand_def start stop ex by auto
  next
    case (undone j t v)
    then show ?thesis unfolding e sys_internal_mremap_expand_def start stop ex by simp
  qed
qed

lemma demo_free:
  assumes "va \<in> {0x400000, 0x401000}"
  shows "free_range 0xFFFFF000 demo_vm va 1"
proof -
  have ix: "pd_index va = 1" "\<not> same_page va 0xFFFFF000" "page_offset va = 0" "unat va < 0x402000"
    using assms by (auto simp: pd_index_nat same_page_def page_offset_def)
  have "present (pde demo_vm 1)" "pde demo_vm 1 AND PAGE_MASK = 0x103000"
    unfolding demo_pde by (simp_all add: present_def PAGE_PRESENT_def PAGE_MASK_def)
  then have "ready demo_vm va" "view demo_vm va = 0"
    using ix(1) by (simp_all add: ready_def view_def pte_def present_def Let_def) (simp add: demo_vm_def)
  then show ?thesis using ix by (simp add: free_range_def range_ready_def client_va_def)
qed

theorem sys_mmap_anonymous_correct_witness:
  "\<exists>x t E. sys_mmap E (mem_call 0x400000 0x1000 6 (-1) 1) (demo_kernel demo_vm) = Some (x, t) \<and>
     (x = 0x400000 \<and> (\<exists>fs. backed {} 0x5000 0xFFFFF000 (demo_kernel demo_vm) {} 0x400000 1 fs t) \<or>
      x = -1 \<and> vmm_ok {} 0x5000 0xFFFFF000 (kernel_vm t) {})"
proof -
  have "free_range 0xFFFFF000 demo_vm 0x400000 1" by (rule demo_free) simp
  with sys_mmap_anonymous_correct [OF demo_kernel_runs [OF demo_vm_ok] demo_user_range, of 6 "-1" 1] show ?thesis
    by (fastforce simp: page_span_def PAGE_MASK_def)
qed

theorem sys_mremap_grow_correct_witness:
  "\<exists>x t E. sys_mremap E (mem_call 0x400000 0x1000 0x2000 6 0) (demo_kernel demo_vm) = Some (x, t) \<and>
     (x = 0x400000 \<and> (\<exists>fs. backed {} 0x5000 0xFFFFF000 (demo_kernel demo_vm) {} 0x401000 1 fs t) \<or>
      x = -1 \<and> vmm_ok {} 0x5000 0xFFFFF000 (kernel_vm t) {})"
proof -
  have "free_range 0xFFFFF000 demo_vm 0x401000 1" by (rule demo_free) simp
  with sys_mremap_grow_correct [OF demo_kernel_runs [OF demo_vm_ok], of "0x400000" "0x1000" "0x2000" 6] show ?thesis
    by (fastforce simp: page_span_def PAGE_MASK_def page_at_def)
qed

end
