(* ===== verification/SyscallProps.thy ===== *)
theory SyscallProps
  imports SyscallMemProps TmpfsProps
begin

text \<open>
  What the system calls on descriptors do: reading, writing and seeking in files of the memory file
  system through the whole way from the registers to the pages of the file, duplicating descriptors,
  and pipes.
\<close>

section \<open>Descriptors\<close>

text \<open>Descriptor \<open>fd\<close> of the running process is an open node of a file in memory.\<close>

definition open_file :: "'a kernel_scheme sys_env \<Rightarrow> 'a kernel_scheme \<Rightarrow> u32 \<Rightarrow> u32 \<Rightarrow> u32 \<Rightarrow> bool" where
  "open_file E s fd node t \<longleftrightarrow> fd \<noteq> 0 \<and> fd_ok fd \<and> node \<noteq> 0 \<and> t \<noteq> 0 \<and> vn_data (vf_node s node) = t \<and>
     (\<exists>p. proc_get_current s = Some p \<and> fd_node (fd_of s p fd) = node) \<and>
     (let fs = mp_filesystem (vf_mp s (vn_mountpoint (vf_node s node))) in fs \<noteq> 0 \<and> se_ops E = flop_ops fs)"

lemma open_fileD:
  assumes "open_file E s fd node t"
  obtains p fs where "fd \<noteq> 0" "fd_ok fd" "node \<noteq> 0" "t \<noteq> 0" "vn_data (vf_node s node) = t" "proc_get_current s = Some p"
    "fd_node (fd_of s p fd) = node" "mp_filesystem (vf_mp s (vn_mountpoint (vf_node s node))) = fs" "fs \<noteq> 0" "se_ops E = flop_ops fs"
  using assms by (auto simp: open_file_def Let_def)

lemma open_file_ops:
  assumes "open_file E s fd node t"
  shows "ops_of (se_ops E) s (vn_mountpoint (vf_node s node)) = Some tmpfs_ops"
  using assms by (auto simp: open_file_def Let_def ops_of_def flop_ops_def)

lemma tmpfs_ops_fields [simp]:
  "op_seek tmpfs_ops = Some tmpfs_op_seek" "op_read tmpfs_ops = Some tmpfs_op_read" "op_write tmpfs_ops = Some tmpfs_op_write"
  by (simp_all add: tmpfs_ops_def)

section \<open>Reading behind the end\<close>

lemma sys_seek_open:
  assumes o: "open_file E s fd node t"
  shows "sys_seek E (mem_call fd offset whence 0 0) s =
    (if offset = 0 \<or> whence = 0 then Some (-1, s) else as_result (tmpfs_op_seek s node offset (ucast whence)))"
  using o open_file_ops [OF o] by (auto simp: sys_seek_def mem_call_def open_file_def Let_def vfs_seek_def)

lemma sys_read_open:
  assumes o: "open_file E s fd node t" and "vn_mode (vf_node s node) AND VFS_MODE_R = VFS_MODE_R"
    and "buf \<noteq> 0" and "n \<noteq> 0"
  shows "sys_read E (mem_call fd buf n 0 0) s = as_result (tmpfs_op_read s node buf n)"
  using assms open_file_ops [OF o] by (auto simp: sys_read_def mem_call_def open_file_def Let_def vfs_read_def)

lemma seek_forward:
  assumes le: "tn_size x \<le> tn_offset x" and small: "unat (tn_offset x) < 9223372036854775808" and w: "whence \<noteq> VFS_SEEK_STRT"
    and x': "x' = (if whence = VFS_SEEK_STRT then x\<lparr>tn_offset := ucast offset\<rparr>
       else if whence = VFS_SEEK_CUR then x\<lparr>tn_offset := tn_offset x + ucast (offset :: u32)\<rparr>
       else if whence = VFS_SEEK_END then x\<lparr>tn_offset := tn_size x + ucast offset\<rparr>
       else x)"
  shows "tn_size x' = tn_size x" "tn_size x' \<le> tn_offset x'"
proof -
  have u: "a \<le> a + ucast offset" if "unat a < 9223372036854775808" for a :: u64
  proof -
    have "unat (ucast offset :: u64) < 4294967296" using unat_ucast_u64 [of offset] unat_less_2p32 [of offset] by simp
    then have "unat (a + ucast offset) = unat a + unat (ucast offset :: u64)"
      using that by (simp add: unat_word_ariths)
    then show ?thesis by (simp add: word_le_nat_alt)
  qed
  have "unat (tn_size x) < 9223372036854775808" using le small by (simp add: word_le_nat_alt)
  then show "tn_size x' = tn_size x" "tn_size x' \<le> tn_offset x'"
    using u [of "tn_size x"] u [of "tn_offset x"] small le w unfolding x' by (auto intro: order_trans)
qed

text \<open>A program cannot read back what it has written to the end of a file. \<open>sys_seek\<close> refuses the
  offset 0 and the whence \<open>SEEK_STRT\<close>, whose number is 0, and the other two only move forward: when the
  position is at or behind the end of the file, it still is after any call of \<open>sys_seek\<close>, and every read
  then finds the end of the file.\<close>

theorem sys_seek_never_back:
  assumes o: "open_file E s fd node t" and mode: "vn_mode (vf_node s node) AND VFS_MODE_R = VFS_MODE_R"
    and at_end: "tn_size (tf_node s t) \<le> tn_offset (tf_node s t)" and small: "unat (tn_offset (tf_node s t)) < 9223372036854775808"
    and w: "unat whence < 256" and buf: "buf \<noteq> 0" "n \<noteq> 0"
  shows "\<exists>r s'. sys_seek E (mem_call fd offset whence 0 0) s = Some (r, s') \<and>
    tn_size (tf_node s' t) \<le> tn_offset (tf_node s' t) \<and> sys_read E (mem_call fd buf n 0 0) s' = Some (0, s')"
proof -
  have eof: "sys_read E (mem_call fd buf n 0 0) u = Some (0, u)"
    if "open_file E u fd node t" "vn_mode (vf_node u node) AND VFS_MODE_R = VFS_MODE_R" "tn_size (tf_node u t) \<le> tn_offset (tf_node u t)" for u
  proof -
    have "vn_data (vf_node u node) = t" "t \<noteq> 0" using that(1) by (simp_all add: open_file_def)
    then show ?thesis using sys_read_open [OF that(1,2) buf] that(3)
      by (simp add: tmpfs_op_read_def Let_def as_result_def reg_def)
  qed
  show ?thesis
  proof (cases "offset = 0 \<or> whence = 0")
    case True
    then show ?thesis using sys_seek_open [OF o] eof [OF o mode at_end] at_end by simp
  next
    case False
    let ?w = "ucast whence :: u8"
    have "unat ?w = unat whence" using w by (simp add: unsigned_ucast_eq take_bit_nat_eq_self)
    moreover have "unat whence \<noteq> 0" using False by (simp add: unat_eq_0)
    ultimately have nz: "?w \<noteq> VFS_SEEK_STRT" by (auto simp: VFS_SEEK_STRT_def)
    from o have t: "t \<noteq> 0" "vn_data (vf_node s node) = t" by (simp_all add: open_file_def)
    let ?s = "snd (the (tmpfs_op_seek s node offset ?w))"
    have e: "tmpfs_op_seek s node offset ?w = Some (0, ?s)" using t by (simp add: tmpfs_op_seek_def Let_def)
    have same: "vf_node ?s = vf_node s" "vf_mp ?s = vf_mp s" "k_sched ?s = k_sched s" "k_fds ?s = k_fds s"
      using t by (simp_all add: tmpfs_op_seek_def Let_def upd_tnode_def)
    have "tf_node ?s t = (if ?w = VFS_SEEK_STRT then (tf_node s t)\<lparr>tn_offset := ucast offset\<rparr>
       else if ?w = VFS_SEEK_CUR then (tf_node s t)\<lparr>tn_offset := tn_offset (tf_node s t) + ucast offset\<rparr>
       else if ?w = VFS_SEEK_END then (tf_node s t)\<lparr>tn_offset := tn_size (tf_node s t) + ucast offset\<rparr>
       else tf_node s t)"
      using t by (simp add: tmpfs_op_seek_def Let_def upd_tnode_def)
    from seek_forward(2) [OF at_end small nz this] have ae: "tn_size (tf_node ?s t) \<le> tn_offset (tf_node ?s t)" .
    have "open_file E ?s fd node t" using o same by (simp add: open_file_def proc_get_current_def fd_of_def)
    from eof [OF this _ ae] mode same have "sys_read E (mem_call fd buf n 0 0) ?s = Some (0, ?s)" by simp
    then show ?thesis using sys_seek_open [OF o] e False ae by (auto simp: as_result_def)
  qed
qed


section \<open>Writing\<close>

lemma write_frame:
  assumes "tmpfs_op_write s node buf sz = Some (r, s')"
  shows "vf_mp s' = vf_mp s" "vn_mountpoint (vf_node s' node) = vn_mountpoint (vf_node s node)"
    "vn_mode (vf_node s' node) = vn_mode (vf_node s node)"
  using assms
  by (auto simp: tmpfs_op_write_def tmpfs_enlarge_def fs_kmalloc_def fs_kfree_def upd_tnode_def upd_node_def set_mem_def Let_def
      split: bind_splits if_splits)

lemma mp_get_frame [simp]:
  "vf_heap (mp_get mp s) = vf_heap s" "tf_node (mp_get mp s) = tf_node s" "tf_array (mp_get mp s) = tf_array s"
  "vf_node (mp_get mp s) = vf_node s" "k_sched (mp_get mp s) = k_sched s" "k_fds (mp_get mp s) = k_fds s"
  for s :: "'a kernel_scheme"
  by (simp_all add: mp_get_def upd_mp_def)

lemma mp_get_rep [simp]:
  "file_rep (mp_get mp s) t bs = file_rep s t bs" "user_buffer U (mp_get mp s) t buf n = user_buffer U s t buf n"
  "room_for R U (mp_get mp s) t k = room_for R U s t k" "node_pages (mp_get mp s) t = node_pages s t"
  for s :: "'a kernel_scheme"
proof -
  show np: "node_pages (mp_get mp s) t = node_pages s t" by (simp add: node_pages_def)
  show "file_rep (mp_get mp s) t bs = file_rep s t bs" "user_buffer U (mp_get mp s) t buf n = user_buffer U s t buf n"
    "room_for R U (mp_get mp s) t k = room_for R U s t k"
    by (simp_all add: file_rep_def user_buffer_def room_for_def np)
qed

lemma mp_put_shared:
  assumes "mp_refcount (vf_mp s mp) = mp_refcount (vf_mp u mp) + 1" and "mp_refcount (vf_mp u mp) \<noteq> 0"
  shows "mp_put s mp = Some (upd_mp mp (\<lambda>m. m\<lparr>mp_refcount := snd (refcount_dec_and_test (mp_refcount m))\<rparr>) s)"
  using assms by (auto simp: mp_put_def mp_drop_def refcount_dec_and_test_def upd_mp_def Let_def)

text \<open>C19: A write through a descriptor. A call of \<open>sys_write\<close> on an open file in memory writes the bytes of
  the buffer into the file at its position and returns how many they are; the position is behind them
  afterwards and the node shows the new size. The file stays consistent.\<close>

theorem sys_write_correct:
  fixes s :: "'a kernel_scheme"
  assumes o: "open_file E s fd node t" and one: "fd \<noteq> 1"
    and mode: "vn_mode (vf_node s node) AND VFS_MODE_W = VFS_MODE_W" "vn_mode (vf_node s node) AND VFS_MODE_APPEND \<noteq> VFS_MODE_APPEND"
    and ref: "mp_refcount (vf_mp s (vn_mountpoint (vf_node s node))) \<noteq> 0"
    and rep: "file_rep s t bs" and pos: "unat (tn_offset (tf_node s t)) = pos" and le: "pos \<le> length bs"
    and ps: "set (node_pages s t) \<subseteq> U" and buf: "user_buffer U s t buf (unat n)"
    and small: "unat n < 2147483648" and top: "pos + unat n \<le> 4294963200"
    and room: "unat (tn_page_count (tf_node s t)) < (pos + unat n + 4095) div 4096 \<Longrightarrow> room_for R U s t (pages_for (of_nat (pos + unat n)))"
  shows "\<exists>s'. sys_write E (mem_call fd buf n 0 0) s = Some (n, s') \<and>
    file_rep s' t (overwrite bs pos (bytes_at (fs_mem s) buf (unat n))) \<and>
    unat (tn_offset (tf_node s' t)) = pos + unat n \<and> st_size (vn_stat (vf_node s' node)) = tn_size (tf_node s' t)"
proof -
  from open_fileD [OF o] obtain p where p: "fd \<noteq> 0" "fd_ok fd" "node \<noteq> 0" "t \<noteq> 0" "vn_data (vf_node s node) = t"
    "proc_get_current s = Some p" "fd_node (fd_of s p fd) = node" by metis
  let ?mp = "vn_mountpoint (vf_node s node)"
  let ?g = "mp_get ?mp s"
  have b: "buf \<noteq> 0" using buf by (simp add: user_buffer_def buffer_apart_def)
  have e: "sys_write E (mem_call fd buf n 0 0) s = as_result (vfs_write (se_ops E) s node buf n)"
    using p b one by (simp add: sys_write_def mem_call_def Let_def)
  obtain u where u: "tmpfs_op_write ?g node buf n = Some (int (unat n), u)"
    "file_rep u t (overwrite bs pos (bytes_at (fs_mem s) buf (unat n)))" "unat (tn_offset (tf_node u t)) = pos + unat n"
    "st_size (vn_stat (vf_node u node)) = tn_size (tf_node u t)"
    using write_ok [of ?g t bs node pos U buf n R] rep p(5) pos le ps buf small top room by (simp del: One_nat_def) metis
  note fr = write_frame [OF u(1)]
  let ?v = "upd_mp ?mp (\<lambda>m. m\<lparr>mp_refcount := snd (refcount_dec_and_test (mp_refcount m))\<rparr>) u"
  have "mp_refcount (vf_mp u ?mp) = mp_refcount (vf_mp s ?mp) + 1"
    using fr(1) ref by (simp add: mp_get_def upd_mp_def refcount_inc_not_zero_def)
  from mp_put_shared [OF this ref] have put: "mp_put u ?mp = Some ?v" .
  have vn: "vf_node ?v = vf_node u" "tf_node ?v = tf_node u" "tf_array ?v = tf_array u" "fs_mem ?v = fs_mem u"
    by (simp_all add: upd_mp_def)
  have "vfs_internal_write (se_ops E) s node buf n = Some (int (unat n), ?v)"
    using open_file_ops [OF o] u(1) put fr(2) by (simp add: vfs_internal_write_def)
  moreover have "vfs_check_write_permissions s node = 0" using p(3) mode(1) by (simp add: vfs_check_write_permissions_def)
  moreover have "vfs_seek_if_append_after_write (se_ops E) ?v node = Some ?v"
    using mode(2) fr(3) vn by (simp add: vfs_seek_if_append_after_write_def)
  ultimately have "vfs_write (se_ops E) s node buf n = Some (int (unat n), ?v)" by (simp add: vfs_write_def)
  then have "sys_write E (mem_call fd buf n 0 0) s = Some (n, ?v)" unfolding e by (simp add: as_result_def reg_def)
  moreover have "file_rep ?v t (overwrite bs pos (bytes_at (fs_mem s) buf (unat n)))"
    using u(2) by (rule file_rep_cong) (simp_all add: vn)
  ultimately show ?thesis using u(3,4) vn by auto
qed


text \<open>The process of \<open>demo_kernel\<close> with the file of \<open>demo_fs\<close> open as every descriptor.\<close>

definition demo_env :: "kernel sys_env" where
  "demo_env = \<lparr>se_ops = flop_ops 0x5000, se_stack_node = 0, se_kernel_region = 0x6000, se_yield = Pair\<rparr>"

definition demo_files :: kernel where
  "demo_files = (demo_kernel demo_vm)\<lparr>vf_heap := vf_heap demo_fs, vf_node := vf_node demo_fs, tf_node := tf_node demo_fs,
     tf_array := tf_array demo_fs, vf_mp := (\<lambda>_. no_mp\<lparr>mp_filesystem := 0x5000, mp_refcount := 1\<rparr>),
     k_fds := (\<lambda>_ _. \<lparr>fd_node = 0x9000, fd_pipe = 0, fd_refcount = 0\<rparr>)\<rparr>"

lemma demo_files_sched: "proc_get_current demo_files = Some 2" "k_procs demo_files = k_procs (demo_kernel demo_vm)"
proof -
  have "k_sched demo_files = k_sched (demo_kernel demo_vm)" by (simp add: demo_files_def)
  then show "proc_get_current demo_files = Some 2" using demo_kernel_process by (simp add: proc_get_current_def)
  show "k_procs demo_files = k_procs (demo_kernel demo_vm)" by (simp add: demo_files_def)
qed

lemma demo_files_open: "open_file demo_env demo_files 3 0x9000 0x8000"
  using demo_files_sched
  by (simp add: open_file_def fd_ok_def fd_of_def demo_env_def) (simp add: demo_files_def demo_fs_def no_mp_def)

lemma demo_files_rep:
  "file_rep demo_files t bs = file_rep demo_fs t bs" "user_buffer U demo_files t buf n = user_buffer U demo_fs t buf n"
  "room_for R U demo_files t k = room_for R U demo_fs t k" "node_pages demo_files t = node_pages demo_fs t"
  "vf_heap demo_files = vf_heap demo_fs" "tf_node demo_files = tf_node demo_fs"
proof -
  show f: "vf_heap demo_files = vf_heap demo_fs" "tf_node demo_files = tf_node demo_fs"
    by (simp_all add: demo_files_def)
  have "tf_array demo_files = tf_array demo_fs" by (simp add: demo_files_def)
  then show np: "node_pages demo_files t = node_pages demo_fs t" by (simp add: node_pages_def f)
  show "file_rep demo_files t bs = file_rep demo_fs t bs" "user_buffer U demo_files t buf n = user_buffer U demo_fs t buf n"
    "room_for R U demo_files t k = room_for R U demo_fs t k"
    by (simp_all add: file_rep_def user_buffer_def room_for_def np f)
qed

theorem sys_write_correct_witness:
  "\<exists>s'. sys_write demo_env (mem_call 3 0x102000 3 0 0) demo_files = Some (3, s') \<and> file_rep s' 0x8000 [104, 105, 33]"
proof -
  have d: "bytes_at (fs_mem demo_fs) 0x102000 (unat (3 :: u32)) = [104, 105, 33]"
    by (simp add: bytes_at_def demo_fs_def demo_mem_def upt_rec)
  have m: "vf_node demo_files = vf_node demo_fs" "vf_mp demo_files = (\<lambda>_. no_mp\<lparr>mp_filesystem := 0x5000, mp_refcount := 1\<rparr>)"
    by (simp_all add: demo_files_def)
  have n: "vn_mode (vf_node demo_fs 0x9000) = VFS_MODE_RW" "tn_offset (tf_node demo_fs 0x8000) = 0" "node_pages demo_fs 0x8000 = []"
    "tn_page_count (tf_node demo_fs 0x8000) = 0"
    by (simp_all add: demo_fs_def no_tnode_def node_pages_def)
  show ?thesis
    using sys_write_correct [OF demo_files_open, of "[]" 0 "{0x102000, 0x103000}" "0x102000" 3 "{0}"] demo_file demo_buffer demo_room d
    unfolding demo_files_rep m n
    by (simp add: overwrite_def pages_for_def VFS_MODE_RW_def VFS_MODE_R_def VFS_MODE_W_def VFS_MODE_APPEND_def) blast
qed

theorem sys_seek_never_back_witness:
  "\<exists>r s'. sys_seek demo_env (mem_call 3 0xFFFFFFF0 1 0 0) demo_files = Some (r, s') \<and>
    sys_read demo_env (mem_call 3 0x102000 3 0 0) s' = Some (0, s')"
proof -
  have m: "vf_node demo_files = vf_node demo_fs" by (simp add: demo_files_def)
  have n: "vn_mode (vf_node demo_fs 0x9000) = VFS_MODE_RW" "tn_offset (tf_node demo_fs 0x8000) = 0" "tn_size (tf_node demo_fs 0x8000) = 0"
    by (simp_all add: demo_fs_def no_tnode_def)
  show ?thesis
    using sys_seek_never_back [OF demo_files_open, of 1 "0x102000" 3 "0xFFFFFFF0"]
    unfolding demo_files_rep m n by (simp add: VFS_MODE_RW_def VFS_MODE_R_def) blast
qed


section \<open>Copying the descriptors of a process\<close>

text \<open>How many of the descriptors with the numbers \<open>is\<close> refer to a node.\<close>

definition refs_to :: "(nat \<Rightarrow> file_descriptor) \<Rightarrow> nat list \<Rightarrow> u32 \<Rightarrow> nat" where
  "refs_to fds is n = length (filter (\<lambda>i. fd_node (fds i) = n) is)"

lemma fd_share_node: "fd_share s n = (0, upd_node n (\<lambda>x. x\<lparr>vn_refcount := snd (refcount_inc_not_zero (vn_refcount x))\<rparr>) s)"
  by (simp add: fd_share_def PIPE_DATA_OFFSET_def)

lemma copy_fds_loop_ok:
  assumes "d \<noteq> p" and "n \<noteq> 0" and "vn_refcount (vf_node s n) \<noteq> 0" and "unat (vn_refcount (vf_node s n)) + m < 4294967296"
  shows "\<exists>s'. copy_fds_loop d p i m s = (0, s') \<and> (\<forall>q. q \<noteq> d \<longrightarrow> k_fds s' q = k_fds s q) \<and>
    (\<forall>j. k_fds s' d j = (if i \<le> j \<and> j < i + m then k_fds s p j else k_fds s d j)) \<and>
    vn_refcount (vf_node s' n) = vn_refcount (vf_node s n) + of_nat (refs_to (k_fds s p) [i..<i + m] n)"
  using assms(3,4)
proof (induction m arbitrary: i s)
  case 0
  then show ?case by (auto simp: refs_to_def)
next
  case (Suc m)
  let ?s = "upd_fd d i (\<lambda>_. k_fds s p i) s" and ?n = "fd_node (k_fds s p i)"
  let ?t = "if ?n = 0 then ?s else upd_node ?n (\<lambda>x. x\<lparr>vn_refcount := snd (refcount_inc_not_zero (vn_refcount x))\<rparr>) ?s"
  have step: "copy_fds_loop d p i (Suc m) s = copy_fds_loop d p (Suc i) m ?t"
    by (simp add: fd_share_node upd_fd_def Let_def)
  have f: "k_fds ?t = (k_fds s)(d := (k_fds s d)(i := k_fds s p i))" by (simp add: upd_fd_def upd_node_def)
  have fp: "k_fds ?t p = k_fds s p" using assms(1) by (simp add: f)
  have r: "vn_refcount (vf_node ?t n) = vn_refcount (vf_node s n) + (if ?n = n then 1 else 0)"
    using assms(2) Suc.prems(1) by (simp add: upd_fd_def upd_node_def refcount_inc_not_zero_def Let_def)
  have "unat (vn_refcount (vf_node s n) + 1) = unat (vn_refcount (vf_node s n)) + 1"
    using Suc.prems(2) by (subst unat_plus_u32) simp_all
  then have "vn_refcount (vf_node ?t n) \<noteq> 0" "unat (vn_refcount (vf_node ?t n)) + m < 4294967296"
    using Suc.prems unfolding r by (auto simp: word_unat_eq_iff)
  from Suc.IH [OF this, of "Suc i"] obtain s' where s': "copy_fds_loop d p (Suc i) m ?t = (0, s')"
    "\<forall>q. q \<noteq> d \<longrightarrow> k_fds s' q = k_fds ?t q"
    "\<forall>j. k_fds s' d j = (if Suc i \<le> j \<and> j < Suc i + m then k_fds ?t p j else k_fds ?t d j)"
    "vn_refcount (vf_node s' n) = vn_refcount (vf_node ?t n) + of_nat (refs_to (k_fds ?t p) [Suc i..<Suc i + m] n)" by blast
  have "refs_to (k_fds s p) [i..<i + Suc m] n = (if ?n = n then 1 else 0) + refs_to (k_fds s p) [Suc i..<Suc i + m] n"
  proof -
    have "[i..<i + Suc m] = i # [Suc i..<Suc i + m]" by (simp add: upt_conv_Cons del: upt_Suc)
    then show ?thesis by (simp add: refs_to_def del: upt_Suc)
  qed
  then have "vn_refcount (vf_node s' n) = vn_refcount (vf_node s n) + of_nat (refs_to (k_fds s p) [i..<i + Suc m] n)"
    using s'(4) unfolding r fp by (simp add: algebra_simps)
  moreover have "\<forall>j. k_fds s' d j = (if i \<le> j \<and> j < i + Suc m then k_fds s p j else k_fds s d j)"
    using s'(3) unfolding fp by (auto simp: f)
  moreover have "\<forall>q. q \<noteq> d \<longrightarrow> k_fds s' q = k_fds s q" using s'(2) by (simp add: f)
  ultimately show ?case unfolding step using s'(1) by blast
qed

text \<open>Forking copies the descriptors: afterwards the child has the descriptors of the parent, those of
  every other process are unchanged, and the counter of a node has grown by the number of descriptors
  that refer to it.\<close>

theorem proc_copy_fds_correct:
  assumes "child \<noteq> parent" and "n \<noteq> 0" and "vn_refcount (vf_node s n) \<noteq> 0" and "unat (vn_refcount (vf_node s n)) + MAX_PROC_FDS < 4294967296"
  shows "\<exists>s'. proc_copy_fds s (Some child) (Some parent) = (0, s') \<and>
    (\<forall>i<MAX_PROC_FDS. k_fds s' child i = k_fds s parent i) \<and> (\<forall>q. q \<noteq> child \<longrightarrow> k_fds s' q = k_fds s q) \<and>
    unat (vn_refcount (vf_node s' n)) = unat (vn_refcount (vf_node s n)) + card {i. i < MAX_PROC_FDS \<and> fd_node (k_fds s parent i) = n}"
proof -
  from copy_fds_loop_ok [OF assms, of 0] obtain s' where s': "proc_copy_fds s (Some child) (Some parent) = (0, s')"
    "\<forall>q. q \<noteq> child \<longrightarrow> k_fds s' q = k_fds s q" "\<forall>i<MAX_PROC_FDS. k_fds s' child i = k_fds s parent i"
    "vn_refcount (vf_node s' n) = vn_refcount (vf_node s n) + of_nat (refs_to (k_fds s parent) [0..<MAX_PROC_FDS] n)"
    by (auto simp: proc_copy_fds_def)
  let ?c = "refs_to (k_fds s parent) [0..<MAX_PROC_FDS] n"
  have "?c = card (set (filter (\<lambda>i. fd_node (k_fds s parent i) = n) [0..<MAX_PROC_FDS]))"
    unfolding refs_to_def by (rule distinct_card [symmetric]) simp
  also have "set (filter (\<lambda>i. fd_node (k_fds s parent i) = n) [0..<MAX_PROC_FDS]) = {i. i < MAX_PROC_FDS \<and> fd_node (k_fds s parent i) = n}"
    by auto
  finally have c: "?c = card {i. i < MAX_PROC_FDS \<and> fd_node (k_fds s parent i) = n}" .
  have "?c \<le> MAX_PROC_FDS" unfolding refs_to_def using length_filter_le [of _ "[0..<MAX_PROC_FDS]"] by simp
  then have "unat (vn_refcount (vf_node s' n)) = unat (vn_refcount (vf_node s n)) + ?c"
    unfolding s'(4) using assms(4) by (subst unat_plus_u32) (simp_all add: unat_of_nat_u32)
  then show ?thesis using s'(1-3) unfolding c by blast
qed

theorem proc_copy_fds_correct_witness:
  "\<exists>s'. proc_copy_fds demo_files (Some 3) (Some 2) = (0, s') \<and> k_fds s' 3 5 = k_fds demo_files 2 5 \<and>
    unat (vn_refcount (vf_node s' 0x9000)) = 129"
proof -
  have r: "vn_refcount (vf_node demo_files 0x9000) = 1" and f: "\<And>i. fd_node (k_fds demo_files 2 i) = 0x9000"
    by (simp_all add: demo_files_def demo_fs_def)
  have "card {i :: nat. i < 128} = 128" by simp
  then obtain s' where "proc_copy_fds demo_files (Some 3) (Some 2) = (0, s')" "unat (vn_refcount (vf_node s' 0x9000)) = 129"
    "\<forall>i<MAX_PROC_FDS. k_fds s' 3 i = k_fds demo_files 2 i"
    using proc_copy_fds_correct [of 3 2 "0x9000" demo_files] r unfolding f by auto
  then show ?thesis by (intro exI [of _ s']) simp
qed


section \<open>Opening\<close>

lemma same_more:
  fixes s u :: "'a kernel_scheme"
  assumes "procfs.more s = procfs.more u"
  shows "k_fds s = k_fds u" "k_sched s = k_sched u" "k_procs s = k_procs u"
  using assms by (cases s; cases u; simp)+

lemma free_fds_first:
  assumes "free_fds s p = fd # rest"
  shows "fd < MAX_PROC_FDS" "fd_node (k_fds s p fd) = 0" "\<forall>i<fd. fd_node (k_fds s p i) \<noteq> 0"
    "node \<noteq> 0 \<Longrightarrow> free_fds (upd_fd p fd (\<lambda>d. d\<lparr>fd_node := node\<rparr>) s) p = rest"
proof -
  let ?P = "\<lambda>i. fd_node (k_fds s p i) = 0"
  from assms have e: "filter ?P [0..<MAX_PROC_FDS] = fd # rest" by (simp add: free_fds_def)
  then obtain us vs where u: "[0..<MAX_PROC_FDS] = us @ fd # vs" "\<forall>i\<in>set us. \<not> ?P i" "?P fd" "rest = filter ?P vs"
    by (auto simp: filter_eq_Cons_iff)
  have s: "sorted_wrt (<) (us @ fd # vs)" using sorted_wrt_upt [of 0 MAX_PROC_FDS] u(1) by simp
  have m: "i \<in> set us \<longleftrightarrow> i < fd" if "i < MAX_PROC_FDS" for i
  proof -
    have "i \<in> set (us @ fd # vs)" using that unfolding u(1) [symmetric] by simp
    then show ?thesis using s by (auto simp: sorted_wrt_append)
  qed
  have "fd \<in> set [0..<MAX_PROC_FDS]" unfolding u(1) by simp
  then show f: "fd < MAX_PROC_FDS" by simp
  show "fd_node (k_fds s p fd) = 0" by (rule u(3))
  show "\<forall>i<fd. fd_node (k_fds s p i) \<noteq> 0" using m u(2) f by auto
  assume nz: "node \<noteq> 0"
  let ?s = "upd_fd p fd (\<lambda>d. d\<lparr>fd_node := node\<rparr>) s"
  have "fd \<notin> set us" "fd \<notin> set vs" using s by (auto simp: sorted_wrt_append)
  then have "filter (\<lambda>i. fd_node (k_fds ?s p i) = 0) us = []" "filter (\<lambda>i. fd_node (k_fds ?s p i) = 0) vs = rest"
    using u(2) unfolding u(4) by (auto simp: upd_fd_def filter_empty_conv intro!: filter_cong)
  then show "free_fds ?s p = rest" unfolding free_fds_def u(1) using nz by (simp add: upd_fd_def)
qed

text \<open>C18: Opening a file. Let the path be the mount path of the mount point that was added last (the only one the lookup
  finds), followed by the path of a file of the tmpfs there, the mode not be append, and the heap have room for the copy of
  the path and the node. Then \<open>sys_open\<close> returns the lowest descriptor \<open>fd\<close> of the process that was free, and
  binds it, the descriptor 0 too, to the node it has allocated: a node of the given mode for exactly that file on exactly
  that mount point. No other descriptor of any process changes. The other system calls can work on the file
  through \<open>fd\<close> (\<open>open_file\<close>) unless it is 0, which they refuse.\<close>

theorem sys_open_correct:
  fixes s :: "'a kernel_scheme"
  assumes p: "proc_get_current s = Some p" "free_fds s p = fd # rest" and ops: "se_ops E = flop_ops tmpflopfs"
    and path: "string_at (fs_mem s) ptr = Some (mount_path s mp @ join_path xs)" and arg: "ptr \<noteq> 0" "mode \<noteq> 0"
    and m: "mounts s (ms @ [mp])" and fs: "mp_filesystem (vf_mp s mp) = tmpflopfs" "tmpflopfs \<noteq> 0"
    and ok: "tree_ok s N K" and root: "mp_data_pointer (vf_mp s mp) \<in> N"
    and xs: "\<forall>x\<in>set xs. segment x" and len: "length (join_path xs) < 255"
    and t: "resolve (names s) K (mp_data_pointer (vf_mp s mp)) xs = Some t" and tz: "t \<noteq> 0"
    and k: "kmallocs (vf_heap s) [str_size (mount_path s mp @ join_path xs), SIZEOF_NODE] = Some ([f, n], h)"
    and nz: "f \<noteq> 0" "n \<noteq> 0" "f \<noteq> mp_mount_point (vf_mp s mp)" and md: "mode AND VFS_MODE_APPEND \<noteq> VFS_MODE_APPEND"
  shows "\<exists>s'. sys_open E (mem_call ptr mode 0 0 0) s = Some (of_nat fd, s') \<and> open_file E s' (of_nat fd) n t = (fd \<noteq> 0) \<and>
    fd_node (k_fds s' p fd) = n \<and> vn_data (vf_node s' n) = t \<and> vn_mode (vf_node s' n) = mode \<and>
    vn_mountpoint (vf_node s' n) = mp \<and> mp_filesystem (vf_mp s' mp) = tmpflopfs \<and>
    (\<forall>i<fd. fd_node (k_fds s p i) \<noteq> 0) \<and> free_fds s' p = rest \<and>
    (\<forall>q i. (q, i) \<noteq> (p, fd) \<longrightarrow> k_fds s' q i = k_fds s q i)"
proof -
  from open_resolved [OF m fs ok root xs len t tz k nz md] obtain u where
    u: "vfs_open (flop_ops tmpflopfs) s (mount_path s mp @ join_path xs) mode = Some (n, u)" "vn_data (vf_node u n) = t"
    "vn_mode (vf_node u n) = mode" "vn_mountpoint (vf_node u n) = mp" "procfs.more u = procfs.more s"
    "mp_filesystem (vf_mp u mp) = tmpflopfs" by blast
  note sm = same_more [OF u(5)]
  let ?s = "upd_fd p fd (\<lambda>d. d\<lparr>fd_node := n\<rparr>) u"
  have fu: "free_fds u p = fd # rest" using p(2) by (simp add: free_fds_def sm)
  note ff = free_fds_first [OF p(2)] free_fds_first(4) [OF fu nz(2)]
  have "sys_open E (mem_call ptr mode 0 0 0) s = Some (of_nat fd, ?s)"
    using p path arg u(1) nz(2) ops by (simp add: sys_open_def mem_call_def)
  moreover have "open_file E ?s (of_nat fd) n t = (fd \<noteq> 0)"
  proof -
    have "unat (of_nat fd :: u32) = fd" using ff(1) by (simp add: unat_of_nat_u32)
    moreover from this have "sint (of_nat fd :: u32) = int fd" "(of_nat fd :: u32) = 0 \<longleftrightarrow> fd = 0"
      using ff(1) sint_small [of "of_nat fd"] by (simp_all add: word_unat_eq_iff)
    ultimately show ?thesis
      using p(1) ff(1) u(2,4,6) nz(2) tz fs(2) ops
      by (simp add: open_file_def fd_ok_def fd_of_def upd_fd_def proc_get_current_def sm Let_def)
  qed
  moreover have "\<forall>q i. (q, i) \<noteq> (p, fd) \<longrightarrow> k_fds ?s q i = k_fds s q i" by (simp add: upd_fd_def sm)
  ultimately show ?thesis using ff u(2,3,4,6) by (intro exI [of _ ?s]) (simp add: upd_fd_def)
qed

section \<open>Pipes\<close>

lemma sys_read_closed:
  assumes "proc_get_current s = Some p" and "fd_node (fd_of s p fd) = 0"
  shows "sys_read E (mem_call fd buf n 0 0) s = Some (-1, s)"
  using assms by (simp add: sys_read_def mem_call_def vfs_read_def as_result_def reg_def)

text \<open>A pipe cannot be used. \<open>sys_pipe\<close> reports success and stores the numbers of the first two free
  descriptors, but leaves the \<open>node\<close> of both null: every read from them and every write to them (but on
  the number of the console) fails, both still count as free, and the next call of \<open>sys_pipe\<close> hands out
  the same two.\<close>

theorem sys_pipe_unusable:
  fixes s :: "'a kernel_scheme"
  assumes p: "proc_get_current s = Some p" "free_fds s p = r # w # rest" and ptr: "ptr \<noteq> 0"
    and k: "fs_kmalloc s SIZEOF_PIPE = Some (pipe, u)" "pipe \<noteq> 0" and fd: "fd \<in> {r, w}"
  shows "\<exists>t. sys_pipe E (mem_call ptr 0 0 0 0) s = Some (0, t) \<and> fd_pipe (k_fds t p fd) = pipe \<and> free_fds t p = r # w # rest \<and>
    sys_read E (mem_call (of_nat fd) buf n 0 0) t = Some (-1, t) \<and>
    (fd = 1 \<or> sys_write E (mem_call (of_nat fd) buf n 0 0) t = Some (-1, t))"
proof -
  from k(1) obtain h where u: "u = s\<lparr>vf_heap := h\<rparr>" by (auto simp: fs_kmalloc_def split: bind_splits)
  define v where "v = u\<lparr>k_pipe := (k_pipe u)(pipe := pipe_init (k_pipe u pipe))\<rparr>"
  define x where "x = upd_fd p w (\<lambda>d. d\<lparr>fd_pipe := pipe\<rparr>) (upd_fd p r (\<lambda>d. d\<lparr>fd_pipe := pipe\<rparr>) v)"
  define t where "t = set_mem (store32 (store32 (fs_mem x) ptr (of_nat r)) (ptr + 4) (of_nat w)) x"
  have v: "proc_get_current v = Some p" "free_fds v p = r # w # rest"
    using p by (simp_all add: v_def u proc_get_current_def free_fds_def)
  have res: "sys_pipe E (mem_call ptr 0 0 0 0) s = Some (0, t)"
    using k ptr v by (simp add: sys_pipe_def mem_call_def v_def [symmetric] x_def [symmetric] t_def Let_def)
  have nodes: "fd_node (k_fds t p i) = fd_node (k_fds s p i)" for i
    by (simp add: t_def set_mem_def x_def upd_fd_def v_def u)
  then have ft: "free_fds t p = r # w # rest" using p(2) by (simp add: free_fds_def)
  have ct: "proc_get_current t = Some p" using v(1) by (simp add: t_def set_mem_def x_def upd_fd_def proc_get_current_def)
  have "fd \<in> set (free_fds s p)" using fd p(2) by auto
  then have f: "fd < MAX_PROC_FDS" "fd_node (k_fds s p fd) = 0" by (auto simp: free_fds_def)
  then have n: "unat (of_nat fd :: u32) = fd" by (simp add: unat_of_nat_u32)
  then have z: "fd_node (fd_of t p (of_nat fd)) = 0" using f(2) nodes by (simp add: fd_of_def)
  have "fd_pipe (k_fds t p fd) = pipe" using fd by (auto simp: t_def set_mem_def x_def upd_fd_def)
  moreover have "fd = 1 \<or> sys_write E (mem_call (of_nat fd) buf n 0 0) t = Some (-1, t)"
  proof -
    have "(of_nat fd :: u32) = 1 \<Longrightarrow> fd = 1" using n by simp
    then show ?thesis using ct z by (auto simp: sys_write_def mem_call_def Let_def)
  qed
  ultimately show ?thesis using res ft sys_read_closed [OF ct z] by blast
qed


section \<open>Concrete descriptors\<close>

text \<open>A process with the descriptor 0 in use, and a file system mounted on \<open>h\<close> with the file \<open>i!\<close>.\<close>

definition demo_disk :: kernel where
  "demo_disk = demo_files\<lparr>vf_mp := vf_mp demo_vfs, vf_mp_head := 0x6000, vf_mp_tail := 0x6000, vf_mp_lock := 0, vf_str := (\<lambda>_. [])(0x6100 := ''h''),
     tf_node := (tf_node demo_fs)(0x7000 := no_tnode\<lparr>tn_type := VFS_DIR, tn_children := 0x8000\<rparr>,
       0x8000 := no_tnode\<lparr>tn_name := ''i!'', tn_parent := 0x7000\<rparr>),
     k_fds := (\<lambda>_ i. \<lparr>fd_node = (if i = 0 then 0x9000 else 0), fd_pipe = 0, fd_refcount = 0\<rparr>)\<rparr>"

lemma demo_disk_fields:
  "vf_heap demo_disk = demo_heap\<lparr>hp_mem := demo_mem, hp_pmm := demo5_pmm\<rparr>" "vf_mp demo_disk = vf_mp demo_vfs"
  "vf_mp_head demo_disk = 0x6000" "vf_mp_tail demo_disk = 0x6000" "vf_mp_lock demo_disk = 0" "vf_str demo_disk = (\<lambda>_. [])(0x6100 := ''h'')"
  "tf_node demo_disk = (tf_node demo_fs)(0x7000 := no_tnode\<lparr>tn_type := VFS_DIR, tn_children := 0x8000\<rparr>,
       0x8000 := no_tnode\<lparr>tn_name := ''i!'', tn_parent := 0x7000\<rparr>)"
  "k_fds demo_disk = (\<lambda>_ i. \<lparr>fd_node = (if i = 0 then 0x9000 else 0), fd_pipe = 0, fd_refcount = 0\<rparr>)"
  by (simp_all add: demo_disk_def demo_files_rep) (simp_all add: demo_files_def demo_fs_def)

lemma demo_disk_process: "proc_get_current demo_disk = Some 2" "free_fds demo_disk 2 = 1 # 2 # [3..<128]"
proof -
  have "k_sched demo_disk = k_sched demo_files" by (simp add: demo_disk_def)
  then show "proc_get_current demo_disk = Some 2" using demo_files_sched(1) by (simp add: proc_get_current_def)
  have "[0..<128] = 0 # 1 # 2 # [3..<128::nat]" by (simp add: upt_conv_Cons del: upt_Suc)
  moreover have "filter (\<lambda>i. i \<noteq> 0) [3..<128::nat] = [3..<128]" by (rule filter_True) auto
  ultimately show "free_fds demo_disk 2 = 1 # 2 # [3..<128]" by (simp add: free_fds_def demo_disk_fields)
qed

lemma demo_disk_kmallocs: "\<exists>p h. kmallocs (vf_heap demo_disk) [4, SIZEOF_NODE] = Some ([0x100030, p], h) \<and> p \<noteq> 0"
  apply (intro exI conjI)
   apply (rule demo_next)
      apply (simp add: demo_disk_fields demo_heap_def)
     apply (simp add: demo_disk_fields demo_heap_def demo_alloc_simps)
     apply (simp add: heap_map_find_loop.simps map_bit_def demo_mem_def)
    apply simp
   apply (rule demo_next)
      apply (simp add: SIZEOF_NODE_def upd_box_def)
     apply (simp add: demo_alloc_simps SIZEOF_NODE_def)
     apply (simp add: heap_map_find_loop.simps map_bit_def store32_def)
    apply simp
   apply simp
  apply simp
  done

lemma demo_disk_tree: "tree_ok demo_disk {0x7000, 0x8000} ((\<lambda>_. [])(0x7000 := [0x8000]))"
  by (simp add: tree_ok_def demo_disk_fields no_tnode_def box_ptr_def)

lemma demo_disk_string: "string_at (fs_mem demo_disk) 0x102000 = Some ''hi!''"
proof -
  have "cstr demo_mem 0x102000 [104, 105, 33]"
    by (simp add: cstr_def demo_mem_def less_Suc_eq)
  then have "flopstrlen demo_mem 0x102000 = Some 3" using flopstrlen_cstr by fastforce
  moreover have "char_of (104 :: nat) = CHR ''h''" "char_of (105 :: nat) = CHR ''i''" "char_of (33 :: nat) = CHR ''!''"
    by code_simp+
  ultimately show ?thesis by (simp add: string_at_def demo_disk_fields demo_mem_def upt_rec)
qed

theorem sys_open_correct_witness:
  "\<exists>n s'. sys_open demo_env (mem_call 0x102000 VFS_MODE_R 0 0 0) demo_disk = Some (1, s') \<and> open_file demo_env s' 1 n 0x8000"
proof -
  obtain p h where k: "kmallocs (vf_heap demo_disk) [4, SIZEOF_NODE] = Some ([0x100030, p], h)" "p \<noteq> 0"
    using demo_disk_kmallocs by blast
  have m: "mounts demo_disk ([] @ [0x6000])" "mount_path demo_disk 0x6000 = ''h''"
    "mp_filesystem (vf_mp demo_disk 0x6000) = 0x5000" "mp_mount_point (vf_mp demo_disk 0x6000) = 0x6100"
    "mp_data_pointer (vf_mp demo_disk 0x6000) = 0x7000"
    by (simp_all add: mounts_def demo_disk_fields demo_vfs_def box_ptr_def no_mp_def)
  have r: "resolve (names demo_disk) ((\<lambda>_. [])(0x7000 := [0x8000])) 0x7000 [''i!''] = Some 0x8000"
    by (simp add: demo_disk_fields no_tnode_def)
  show ?thesis
    using sys_open_correct [OF demo_disk_process _ _ _ _ m(1) _ _ demo_disk_tree, of demo_env "0x5000" "0x102000" "[''i!'']" VFS_MODE_R "0x8000" "0x100030" p h]
      k m(2-) r demo_disk_string
    by (simp add: demo_env_def segment_def str_size_def VFS_MODE_R_def VFS_MODE_APPEND_def) blast
qed

theorem sys_pipe_unusable_witness:
  "\<exists>t. sys_pipe demo_env (mem_call 0x103000 0 0 0 0) demo_disk = Some (0, t) \<and>
     sys_read demo_env (mem_call 2 0x102000 8 0 0) t = Some (-1, t) \<and> free_fds t 2 = 1 # 2 # [3..<128]"
proof -
  have "\<exists>h. kmallocs (vf_heap demo_disk) [SIZEOF_PIPE] = Some ([0x100030], h)"
    apply (intro exI)
    apply (rule demo_next)
       apply (simp add: demo_disk_fields demo_heap_def SIZEOF_PIPE_def)
      apply (simp add: demo_disk_fields demo_heap_def demo_alloc_simps SIZEOF_PIPE_def)
      apply (simp add: heap_map_find_loop.simps map_bit_def demo_mem_def)
     apply simp
    apply simp
    done
  then obtain u where "fs_kmalloc demo_disk SIZEOF_PIPE = Some (0x100030, u)"
    by (auto simp: fs_kmalloc_def split: bind_splits)
  from sys_pipe_unusable [OF demo_disk_process _ this, of "0x103000" 2 demo_env "0x102000" 8]
  show ?thesis by (auto simp del: upt_Suc)
qed

end
