(* ===== verification/SyscallLoops.thy ===== *)
theory SyscallLoops
  imports SyscallProps
begin

text \<open>
  More of the system calls on descriptors: the loop of \<open>copy_file_range\<close>, and what closing a descriptor
  does to the page allocator.
\<close>

section \<open>Copying a range\<close>

lemma unat_reg:
  assumes "0 < x" and "x \<le> int (unat (n :: u32))"
  shows "unat (reg x) = nat x" "nat x \<le> unat n"
proof -
  obtain k where k: "x = int k" using assms(1) zero_less_imp_eq_int by blast
  then have le: "k \<le> unat n" using assms(2) by (simp only: of_nat_le_iff)
  then have "k < 4294967296" using unat_less_2p32 [of n] by linarith
  then show "unat (reg x) = nat x" "nat x \<le> unat n" using k le by (simp_all add: reg_def unat_of_nat_u32)
qed

text \<open>\<open>copy_file_range\<close> ends. Whatever the files do, as long as a read returns at most as many bytes
  as were asked for and a write at most as many as it was given, the loop returns, and it never reports
  more bytes than the caller wanted to copy.\<close>

theorem copy_range_returns:
  fixes count chunk acc :: u32
  assumes rd: "\<And>n s. \<exists>r s'. rd n s = Some (r, s') \<and> r \<le> int (unat n)"
    and wr: "\<And>n s. \<exists>r s'. wr n s = Some (r, s') \<and> r \<le> int (unat n)" and le: "acc \<le> count"
  shows "\<exists>n s'. copy_range_loop rd wr count chunk acc s = Some (n, s') \<and> acc \<le> n \<and> n \<le> count"
  using le
proof (induction "unat (count - acc)" arbitrary: acc s rule: less_induct)
  case less
  show ?case
  proof (cases "acc < count")
    case False
    then show ?thesis using less.prems by (subst copy_range_loop.simps) auto
  next
    case True
    let ?m = "if count - acc > chunk then chunk else count - acc"
    from rd [of ?m s] obtain r u where r: "rd ?m s = Some (r, u)" "r \<le> int (unat ?m)" by blast
    show ?thesis
    proof (cases "r \<le> 0")
      case True
      then show ?thesis using \<open>acc < count\<close> less.prems r by (subst copy_range_loop.simps) (simp add: Let_def)
    next
      case False
      have ur: "unat (reg r) = nat r" "nat r \<le> unat ?m" using unat_reg [OF _ r(2)] False by simp_all
      from wr [of "reg r" u] obtain w v where w: "wr (reg r) u = Some (w, v)" "w \<le> int (unat (reg r))" by blast
      show ?thesis
      proof (cases "w \<le> 0")
        case True
        then show ?thesis using \<open>acc < count\<close> less.prems r w False by (subst copy_range_loop.simps) (simp add: Let_def)
      next
        case pos: False
        have uw: "unat (reg w) = nat w" "nat w \<le> unat (reg r)" using unat_reg [OF _ w(2)] pos by simp_all
        have "unat ?m \<le> unat (count - acc)" by (simp add: word_less_nat_alt)
        moreover have "unat (count - acc) = unat count - unat acc" using less.prems by (rule unat_minus_u32)
        moreover have "unat acc < unat count" using \<open>acc < count\<close> by (simp add: word_less_nat_alt)
        ultimately have b: "unat acc + unat (reg w) \<le> unat count" using uw ur by linarith
        have b0: "0 < unat (reg w)" using uw(1) pos by simp
        then have a: "unat (acc + reg w) = unat acc + unat (reg w)" using b unat_less_2p32 [of count] by (intro unat_plus_u32) linarith
        then have c: "acc + reg w \<le> count" "acc \<le> acc + reg w" using b by (simp_all add: word_le_nat_alt)
        have "unat (count - (acc + reg w)) < unat (count - acc)"
          using a b b0 less.prems c by (simp add: unat_minus_u32)
        from less.hyps [OF this c(1), of v] obtain n s' where
          "copy_range_loop rd wr count chunk (acc + reg w) v = Some (n, s')" "acc + reg w \<le> n" "n \<le> count" by blast
        moreover from this have "acc \<le> n" using c(2) by (metis order_trans)
        ultimately show ?thesis using \<open>acc < count\<close> r w False pos c
          by (subst copy_range_loop.simps) (simp add: Let_def)
      qed
    qed
  qed
qed

text \<open>A source with \<open>k\<close> bytes left and a sink that takes one byte at a time.\<close>

theorem copy_range_returns_witness:
  "\<exists>n s'. copy_range_loop (\<lambda>n k. Some (int (min (unat n) k), k - unat n)) (\<lambda>n k. Some (int (min (unat n) 1), k)) 100 16 0 (40 :: nat) = Some (n, s') \<and>
     n \<le> 100"
proof -
  let ?rd = "\<lambda>n k. Some (int (min (unat n) k), k - unat n)" and ?wr = "\<lambda>n k. Some (int (min (unat n) 1), k)"
  have "\<exists>n s'. copy_range_loop ?rd ?wr 100 16 0 (40 :: nat) = Some (n, s') \<and> 0 \<le> n \<and> n \<le> 100"
  proof (rule copy_range_returns)
    show "\<exists>r s'. ?rd n s = Some (r, s') \<and> r \<le> int (unat n)" for n s by (intro exI conjI, rule refl) linarith
    show "\<exists>r s'. ?wr n s = Some (r, s') \<and> r \<le> int (unat n)" for n s by (intro exI conjI, rule refl) linarith
  qed simp
  then show ?thesis by blast
qed

section \<open>Closing\<close>

lemma load32_before: "load32 (store32 m (c + 4) w) c = load32 m c"
  by (rule load32_cong) (rule store32_other; simp)+

text \<open>C20: Closing a descriptor gives pages in use back to the page allocator. The descriptor passed to
  \<open>kfree\<close> is a part of the process structure; what \<open>kfree\<close> reads as the header of the object is the
  counter of the descriptor before it, which is never set, and the pointer to the node. So it takes the
  descriptor for an object with pages of its own and frees, from the page of the descriptor on, as many
  pages as the address of the node says.\<close>

theorem sys_close_frees_process_pages:
  fixes s :: "'a kernel_scheme"
  assumes p: "proc_get_current s = Some p" and i: "0 < i" "i < MAX_PROC_FDS" and addr: "fd_address p i \<noteq> 0"
    and close: "vfs_close (se_ops E) s (fd_node (k_fds s p i)) = Some (r, u)" and same: "k_fds u = k_fds s"
    and before: "fd_refcount (k_fds s p (i - 1)) = 0"
    and free: "pmm_free_pages (hp_pmm (vf_heap u)) (fd_address p i - 4) 0 ((fd_node (k_fds s p i) + 4099) div 4096) = Some b"
  shows "\<exists>t. sys_close E (mem_call (of_nat i) 0 0 0 0) s = Some (0, t) \<and> hp_pmm (vf_heap t) = b"
proof -
  let ?a = "fd_address p i" and ?m = "fd_memory u p i" and ?node = "fd_node (k_fds s p i)"
  have n: "unat (of_nat i :: u32) = i" using i by (simp add: unat_of_nat_u32)
  then have f: "fd_ok (of_nat i)" "(of_nat i :: u32) \<noteq> 0"
    using i sint_small [of "of_nat i"] by (simp_all add: fd_ok_def word_unat_eq_iff)
  have m: "load32 ?m ?a = ?node" "load32 ?m (?a - 4) = 0"
  proof -
    show "load32 ?m ?a = ?node" by (simp add: fd_memory_def same)
    have "?m = store32 (store32 (fs_mem u) (?a - 4) 0) ?a ?node" using i(1) before by (simp add: fd_memory_def same)
    then show "load32 ?m (?a - 4) = 0" using load32_before [of "store32 (fs_mem u) (?a - 4) 0" "?a - 4" ?node] by simp
  qed
  have "kfree ((vf_heap u)\<lparr>hp_mem := ?m\<rparr>) ?a SIZEOF_FD = Some ((vf_heap u)\<lparr>hp_mem := ?m, hp_pmm := b\<rparr>)"
    using addr free m by (simp add: kfree_def Let_def add.commute [of 4099])
  then show ?thesis
    using p close f n by (simp add: sys_close_def mem_call_def fs_kfree_def set_mem_def upd_fd_def Let_def)
qed


definition demo_closing :: kernel where
  "demo_closing = demo_files\<lparr>vf_mp := (\<lambda>_. no_mp\<lparr>mp_filesystem := 0x5000, mp_refcount := 2\<rparr>)\<rparr>"

lemma free_below:
  "unat cur + 4096 * n \<le> unat (memory_base b) \<Longrightarrow> pmm_free_loop b cur 0 n = Some b"
proof (induction n arbitrary: cur)
  case (Suc n)
  have "4096 \<le> 4096 * Suc n" by simp
  then have "unat cur + 4096 < 4294967296" using Suc.prems unat_less_2p32 [of "memory_base b"] by linarith
  then have "unat (cur + 4096) = unat cur + 4096" by (subst unat_plus_u32) simp_all
  then have "pmm_free_loop b (cur + 4096) 0 n = Some b" using Suc.prems by (intro Suc.IH) simp
  moreover have "phys_to_page_index b cur = None"
    using Suc.prems by (simp add: phys_to_page_index_def word_less_nat_alt)
  ultimately show ?case by (simp add: pmm_free_block_def)
qed simp

lemma demo_free_below:
  assumes "a \<noteq> 0" and "n \<noteq> 0" and "unat a + 4096 * unat n \<le> 0x100000"
  shows "pmm_free_pages demo5_pmm a 0 n = Some demo5_pmm"
proof -
  have "pmm_free_loop (demo5_pmm\<lparr>buddy_lock := 1\<rparr>) a 0 (unat n) = Some (demo5_pmm\<lparr>buddy_lock := 1\<rparr>)"
    using assms(3) by (intro free_below) (simp add: demo5_pmm_def demo4_pmm_def demo_pmm_def)
  moreover have "buddy_lock demo5_pmm = 0" by (simp add: demo5_pmm_def demo4_pmm_def demo_pmm_def)
  ultimately show ?thesis using assms(1,2) by (simp add: pmm_free_pages_def)
qed

lemma demo_close: "\<exists>u. vfs_close (se_ops demo_env) demo_closing 0x9000 = Some (0, u) \<and> k_fds u = k_fds demo_closing \<and> hp_pmm (vf_heap u) = demo5_pmm"
proof -
  have h: "vf_heap demo_closing = demo_heap\<lparr>hp_mem := demo_mem, hp_pmm := demo5_pmm\<rparr>"
    by (simp add: demo_closing_def demo_files_rep) (simp add: demo_fs_def)
  have n: "vn_mountpoint (vf_node demo_closing 0x9000) = 0" "vf_mp demo_closing = (\<lambda>_. no_mp\<lparr>mp_filesystem := 0x5000, mp_refcount := 2\<rparr>)"
    by (simp_all add: demo_closing_def demo_files_def demo_fs_def)
  have k: "kfree (demo_heap\<lparr>hp_mem := demo_mem, hp_pmm := demo5_pmm\<rparr>) 0x9000 SIZEOF_NODE = Some (demo_heap\<lparr>hp_mem := demo_mem, hp_pmm := demo5_pmm\<rparr>)"
    using demo_free_below [of "0x8FFC" 1] by (simp add: kfree_def Let_def load32_def demo_mem_def)
  show ?thesis
    using h n k by (simp add: vfs_close_def vfs_free_node_def ops_of_def demo_env_def flop_ops_def tmpfs_ops_def tmpfs_op_close_def
      mp_put_def mp_drop_def refcount_dec_and_test_def upd_mp_def fs_kfree_def Let_def)
qed


theorem sys_close_frees_process_pages_witness:
  "\<exists>t. sys_close demo_env (mem_call 3 0 0 0 0) demo_closing = Some (0, t) \<and>
     pmm_free_pages demo5_pmm (fd_address 2 3 - 4) 0 ((0x9000 + 4099) div 4096) = Some (hp_pmm (vf_heap t))"
proof -
  from demo_close obtain u where u: "vfs_close (se_ops demo_env) demo_closing 0x9000 = Some (0, u)" "k_fds u = k_fds demo_closing"
    "hp_pmm (vf_heap u) = demo5_pmm" by blast
  have p: "proc_get_current demo_closing = Some 2" "k_fds demo_closing = (\<lambda>_ _. \<lparr>fd_node = 0x9000, fd_pipe = 0, fd_refcount = 0\<rparr>)"
    using demo_files_sched(1) by (simp_all add: demo_closing_def proc_get_current_def) (simp add: demo_files_def)
  have a: "fd_address 2 3 = 54" by (simp add: fd_address_def FDS_OFFSET_def SIZEOF_FD_def)
  have f: "pmm_free_pages demo5_pmm (54 - 4) 0 10 = Some demo5_pmm" by (rule demo_free_below) simp_all
  show ?thesis using sys_close_frees_process_pages [OF p(1), of 3 demo_env 0 u demo5_pmm] u f
    by (simp add: p(2) a eq_commute [of demo5_pmm])
qed

end
