(* ===== verification/Early.thy ===== *)
theory Early
  imports PmmInit
begin

text \<open>
  mem/early.c, the allocator the kernel uses before the page allocator exists: pages taken
  straight from the boot loader's memory map, and a first-fit allocator over the nine pages of its
  pool. Paging is off while it runs, so the null pointer is the ordinary address 0: a write through
  it goes to the real-mode vectors and does not fault. Pointers are therefore plain addresses, 0
  the null pointer; the chunk headers are kept in a store of their own, by the address they start
  at, beside the bytes of the memory.
\<close>

unbundle bit_operations_syntax

section \<open>State\<close>

record early_info =
  ei_pool_base :: u32
  ei_bitmap :: "u8 list"
  ei_blocks_total :: u32
  ei_blocks_free :: u32
  ei_initialized :: bool

record early_chunk =
  ec_size :: u32
  ec_free :: bool
  ec_next :: u32
  ec_prev :: u32

text \<open>The static variables of the file, and the memory.\<close>

record early_state =
  early :: early_info
  early_reserved :: "u32 list"
  early_reserved_count :: u32
  early_mb_info :: "multiboot_info_t option"
  early_head :: u32
  early_ram :: "u32 \<Rightarrow> u8"
  chunk_at :: "u32 \<Rightarrow> early_chunk"

definition EARLY_PAGES_TOTAL :: u32 where "EARLY_PAGES_TOTAL = 10"

definition EARLY_POOL_PAGES :: u32 where "EARLY_POOL_PAGES = 9"

definition CHUNK_HEADER_SIZE :: u32 where "CHUNK_HEADER_SIZE = 16"

definition MULTIBOOT_MEMORY_AVAILABLE :: u32 where "MULTIBOOT_MEMORY_AVAILABLE = 1"

text \<open>The boot state: everything static is zero.\<close>

definition early_boot :: "(u32 \<Rightarrow> u8) \<Rightarrow> (u32 \<Rightarrow> early_chunk) \<Rightarrow> early_state" where
  "early_boot ram ch =
     \<lparr>early = \<lparr>ei_pool_base = 0, ei_bitmap = replicate 64 0, ei_blocks_total = 0,
               ei_blocks_free = 0, ei_initialized = False\<rparr>,
      early_reserved = replicate 10 0, early_reserved_count = 0, early_mb_info = None,
      early_head = 0, early_ram = ram, chunk_at = ch\<rparr>"

section \<open>Pages from the memory map\<close>

definition early_bootstrap :: "multiboot_info_t option \<Rightarrow> early_state \<Rightarrow> early_state" where
  "early_bootstrap mb s = s\<lparr>early_mb_info := mb\<rparr>"

text \<open>
  The loop that zeroes a page. A header that starts in the page is erased with it.
\<close>

definition early_zero_page :: "u32 \<Rightarrow> early_state \<Rightarrow> early_state" where
  "early_zero_page p s =
     s\<lparr>early_ram := (\<lambda>a. if a - p < PAGE_SIZE then 0 else early_ram s a),
       chunk_at := (\<lambda>a. if a - p < PAGE_SIZE
                        then \<lparr>ec_size = 0, ec_free = False, ec_next = 0, ec_prev = 0\<rparr>
                        else chunk_at s a)\<rparr>"

text \<open>
  The walk through one region, from page \<open>p\<close>: the first page that is not taken, or none.
\<close>

partial_function (option) early_page_loop :: "u32 list \<Rightarrow> u32 \<Rightarrow> u32 \<Rightarrow> u32 option option" where
  "early_page_loop taken region_end p =
     (if p + PAGE_SIZE \<le> region_end then
        if p \<in> set taken then early_page_loop taken region_end (p + PAGE_SIZE) else Some (Some p)
      else Some None)"

text \<open>The walk through the map; the 64-bit fields are cast to the 32-bit \<open>uintptr_t\<close>.\<close>

definition early_region_start :: "multiboot_memory_map_t \<Rightarrow> u32" where
  "early_region_start mm = align_up (ucast (mm_addr mm)) PAGE_SIZE"

definition early_region_end :: "multiboot_memory_map_t \<Rightarrow> u32" where
  "early_region_end mm = ucast (mm_addr mm) + ucast (mm_len mm)"

fun early_map_loop :: "u32 list \<Rightarrow> multiboot_memory_map_t list \<Rightarrow> u32 option option" where
  "early_map_loop taken [] = Some None"
| "early_map_loop taken (mm # es) =
     (if mm_type mm = MULTIBOOT_MEMORY_AVAILABLE then do {
        r \<leftarrow> early_page_loop taken (early_region_end mm) (early_region_start mm);
        case r of Some p \<Rightarrow> Some (Some p) | None \<Rightarrow> early_map_loop taken es
      } else early_map_loop taken es)"

definition early_taken :: "early_state \<Rightarrow> u32 list" where
  "early_taken s = take (unat (early_reserved_count s)) (early_reserved s)"

definition early_reserve_page :: "early_state \<Rightarrow> (u32 \<times> early_state) option" where
  "early_reserve_page s =
     (case early_mb_info s of
        None \<Rightarrow> Some (0, s)
      | Some mb \<Rightarrow>
        if early_reserved_count s \<ge> EARLY_PAGES_TOTAL then Some (0, s)
        else do {
          r \<leftarrow> early_map_loop (early_taken s) (mb_mmap mb);
          case r of
            None \<Rightarrow> Some (0, s)
          | Some p \<Rightarrow> Some (p, early_zero_page p
              (s\<lparr>early_reserved := (early_reserved s)[unat (early_reserved_count s) := p],
                 early_reserved_count := early_reserved_count s + 1\<rparr>))
        })"

primrec early_index :: "u32 \<Rightarrow> u32 list \<Rightarrow> nat option" where
  "early_index p [] = None"
| "early_index p (x # xs) = (if x = p then Some 0 else map_option Suc (early_index p xs))"

definition early_release_page :: "u32 \<Rightarrow> early_state \<Rightarrow> early_state" where
  "early_release_page p s =
     (if p = 0 then s
      else case early_index p (early_taken s) of
        None \<Rightarrow> s
      | Some i \<Rightarrow>
        s\<lparr>early_reserved := (early_reserved s)[i := early_reserved s ! unat (early_reserved_count s - 1)],
          early_reserved_count := early_reserved_count s - 1\<rparr>)"

section \<open>Setting the pool up\<close>

function early_pool_loop :: "nat \<Rightarrow> u32 \<Rightarrow> early_state \<Rightarrow> (u32 \<times> early_state) option" where
  "early_pool_loop i first_pool s =
     (if i < unat EARLY_POOL_PAGES then do {
        (p, s) \<leftarrow> early_reserve_page s;
        early_pool_loop (Suc i) (if i = 0 then p else first_pool) s
      } else Some (first_pool, s))"
  by pat_completeness auto

termination
  by (relation "measure (\<lambda>(i, f, s). unat EARLY_POOL_PAGES - i)") auto

definition early_allocator_init :: "early_state \<Rightarrow> early_state option" where
  "early_allocator_init s =
     (if ei_initialized (early s) then Some s
      else do {
        (meta_page, s) \<leftarrow> early_reserve_page s;
        (first_pool, s) \<leftarrow> early_pool_loop 0 0 s;
        Some (s\<lparr>early := (early s)\<lparr>ei_pool_base := first_pool, ei_initialized := True\<rparr>,
                early_head := first_pool,
                chunk_at := (chunk_at s)(first_pool :=
                  \<lparr>ec_size = EARLY_POOL_PAGES * PAGE_SIZE - CHUNK_HEADER_SIZE, ec_free = True,
                   ec_next = 0, ec_prev = 0\<rparr>)\<rparr>)
      })"

section \<open>Allocating\<close>

text \<open>The split of a chunk that is too large, then the mark that it is in use.\<close>

definition early_take :: "u32 \<Rightarrow> u32 \<Rightarrow> (u32 \<Rightarrow> early_chunk) \<Rightarrow> (u32 \<Rightarrow> early_chunk)" where
  "early_take sz cur ch =
     (let remaining = ec_size (ch cur) - sz;
          ch = (if remaining > CHUNK_HEADER_SIZE + 8 then
                  let new_chunk = cur + CHUNK_HEADER_SIZE + sz;
                      nxt = ec_next (ch cur);
                      ch = ch(new_chunk := \<lparr>ec_size = remaining - CHUNK_HEADER_SIZE, ec_free = True,
                                             ec_next = nxt, ec_prev = cur\<rparr>);
                      ch = (if nxt \<noteq> 0 then ch(nxt := (ch nxt)\<lparr>ec_prev := new_chunk\<rparr>) else ch)
                  in ch(cur := (ch cur)\<lparr>ec_next := new_chunk, ec_size := sz\<rparr>)
                else ch)
      in ch(cur := (ch cur)\<lparr>ec_free := False\<rparr>))"

partial_function (option) early_alloc_loop ::
  "u32 \<Rightarrow> (u32 \<Rightarrow> early_chunk) \<Rightarrow> u32 \<Rightarrow> (u32 \<times> (u32 \<Rightarrow> early_chunk)) option" where
  "early_alloc_loop sz ch cur =
     (if cur = 0 then Some (0, ch)
      else if ec_free (ch cur) \<and> sz \<le> ec_size (ch cur)
      then Some (cur + CHUNK_HEADER_SIZE, early_take sz cur ch)
      else early_alloc_loop sz ch (ec_next (ch cur)))"

definition early_alloc :: "u32 \<Rightarrow> early_state \<Rightarrow> (u32 \<times> early_state) option" where
  "early_alloc sz s =
     (if \<not> ei_initialized (early s) \<or> sz = 0 then Some (0, s)
      else do {
        (p, ch) \<leftarrow> early_alloc_loop sz (chunk_at s) (early_head s);
        Some (p, s\<lparr>chunk_at := ch\<rparr>)
      })"

section \<open>Freeing\<close>

definition early_merge_next :: "u32 \<Rightarrow> (u32 \<Rightarrow> early_chunk) \<Rightarrow> (u32 \<Rightarrow> early_chunk)" where
  "early_merge_next chunk ch =
     (let nxt = ec_next (ch chunk) in
      if nxt \<noteq> 0 \<and> ec_free (ch nxt) then
        let ch = ch(chunk := (ch chunk)\<lparr>ec_size := ec_size (ch chunk) + (CHUNK_HEADER_SIZE + ec_size (ch nxt)),
                                          ec_next := ec_next (ch nxt)\<rparr>);
            nxt = ec_next (ch chunk)
        in if nxt \<noteq> 0 then ch(nxt := (ch nxt)\<lparr>ec_prev := chunk\<rparr>) else ch
      else ch)"

definition early_merge_prev :: "u32 \<Rightarrow> (u32 \<Rightarrow> early_chunk) \<Rightarrow> (u32 \<Rightarrow> early_chunk)" where
  "early_merge_prev chunk ch =
     (let prv = ec_prev (ch chunk) in
      if prv \<noteq> 0 \<and> ec_free (ch prv) then
        let ch = ch(prv := (ch prv)\<lparr>ec_size := ec_size (ch prv) + (CHUNK_HEADER_SIZE + ec_size (ch chunk)),
                                      ec_next := ec_next (ch chunk)\<rparr>);
            nxt = ec_next (ch chunk)
        in if nxt \<noteq> 0 then ch(nxt := (ch nxt)\<lparr>ec_prev := prv\<rparr>) else ch
      else ch)"

definition early_coalesce :: "u32 \<Rightarrow> (u32 \<Rightarrow> early_chunk) \<Rightarrow> (u32 \<Rightarrow> early_chunk)" where
  "early_coalesce chunk ch = early_merge_prev chunk (early_merge_next chunk ch)"

definition early_free :: "u32 \<Rightarrow> early_state \<Rightarrow> early_state" where
  "early_free ptr s =
     (if \<not> ei_initialized (early s) \<or> ptr = 0 then s
      else let chunk = ptr - CHUNK_HEADER_SIZE;
               ch = chunk_at s;
               ch = ch(chunk := (ch chunk)\<lparr>ec_free := True\<rparr>)
        in s\<lparr>chunk_at := early_coalesce chunk ch\<rparr>)"

section \<open>Tearing it down\<close>

function early_destroy_loop :: "nat \<Rightarrow> u32 \<Rightarrow> early_state \<Rightarrow> early_state" where
  "early_destroy_loop pg p s =
     (if pg < unat EARLY_POOL_PAGES
      then early_destroy_loop (Suc pg) (p + PAGE_SIZE) (early_release_page p (early_zero_page p s))
      else s)"
  by pat_completeness auto

termination
  by (relation "measure (\<lambda>(pg, p, s). unat EARLY_POOL_PAGES - pg)") auto

definition early_allocator_destroy :: "early_state \<Rightarrow> early_state" where
  "early_allocator_destroy s =
     (if \<not> ei_initialized (early s) then s
      else let s = s\<lparr>early := (early s)\<lparr>ei_bitmap := map (\<lambda>b. 0) (ei_bitmap (early s))\<rparr>\<rparr>;
               s = early_destroy_loop 0 (ei_pool_base (early s)) s
        in s\<lparr>early := (early s)\<lparr>ei_pool_base := 0, ei_blocks_total := 0, ei_blocks_free := 0,
                                ei_initialized := False\<rparr>\<rparr>)"

text \<open>The two calls of \<open>init_stage_early\<close>, in the order init/init.c makes them.\<close>

definition init_stage_early_mem :: "multiboot_info_t option \<Rightarrow> early_state \<Rightarrow> early_state option" where
  "init_stage_early_mem mb s = do { s \<leftarrow> early_allocator_init s; Some (early_bootstrap mb s) }"

declare early_pool_loop.simps [simp del] early_destroy_loop.simps [simp del]

end
