(* ===== verification/EarlyProps.thy ===== *)
theory EarlyProps
  imports Early "HOL-Library.Multiset"
begin

text \<open>
  What mem/early.c achieves: the chunk list tiles the pool and is doubly linked, \<open>early_alloc\<close>
  is first fit on it and \<open>early_free\<close> undoes it, reserving pages always returns and never
  hands a page out twice, and what the order of the calls in init/init.c makes of it.
\<close>

section \<open>Chunk lists\<close>

text \<open>
  \<open>chunks_at ch p n cs\<close>: from the address \<open>n\<close> on, the store holds the headers of the
  chunks \<open>cs\<close> (size, free), one after the other without a gap, each linked to its neighbours;
  \<open>p\<close> is the address of the chunk before.
\<close>

primrec chunks_at :: "(u32 \<Rightarrow> early_chunk) \<Rightarrow> u32 \<Rightarrow> nat \<Rightarrow> (nat \<times> bool) list \<Rightarrow> bool" where
  "chunks_at ch p n [] \<longleftrightarrow> True"
| "chunks_at ch p n (c # cs) \<longleftrightarrow>
     ch (of_nat n) = \<lparr>ec_size = of_nat (fst c), ec_free = snd c,
                      ec_next = (if cs = [] then 0 else of_nat (n + 16 + fst c)), ec_prev = p\<rparr> \<and>
     chunks_at ch (of_nat n) (n + 16 + fst c) cs"

text \<open>The bytes a chunk list spans, headers included.\<close>

primrec extent :: "(nat \<times> bool) list \<Rightarrow> nat" where
  "extent [] = 0"
| "extent (c # cs) = 16 + fst c + extent cs"

lemma extent_append [simp]: "extent (us @ vs) = extent us + extent vs"
  by (induction us) simp_all

text \<open>No two free chunks side by side.\<close>

fun coalesced :: "(nat \<times> bool) list \<Rightarrow> bool" where
  "coalesced (c # d # cs) \<longleftrightarrow> \<not> (snd c \<and> snd d) \<and> coalesced (d # cs)"
| "coalesced _ \<longleftrightarrow> True"

text \<open>First fit on the abstract list: the new list, and how far from its start the block lies.\<close>

primrec first_fit :: "nat \<Rightarrow> (nat \<times> bool) list \<Rightarrow> ((nat \<times> bool) list \<times> nat) option" where
  "first_fit k [] = None"
| "first_fit k (c # cs) =
     (if snd c \<and> k \<le> fst c then
        Some (if k + 24 < fst c then (k, False) # (fst c - k - 16, True) # cs
              else (fst c, False) # cs, 16)
      else map_option (\<lambda>(cs', d). (c # cs', 16 + fst c + d)) (first_fit k cs))"

text \<open>Freeing on the abstract list: the chunk between \<open>us\<close> and \<open>vs\<close>.\<close>

fun join_next :: "nat \<Rightarrow> (nat \<times> bool) list \<Rightarrow> (nat \<times> bool) list" where
  "join_next k ((m, True) # vs) = (k + (16 + m), True) # vs"
| "join_next k vs = (k, True) # vs"

fun join_prev :: "(nat \<times> bool) list \<Rightarrow> (nat \<times> bool) list \<Rightarrow> (nat \<times> bool) list" where
  "join_prev us [] = us"
| "join_prev us (c # vs) =
     (if us \<noteq> [] \<and> snd (last us) then butlast us @ (fst (last us) + (16 + fst c), True) # vs
      else us @ c # vs)"

definition free_between :: "(nat \<times> bool) list \<Rightarrow> nat \<Rightarrow> (nat \<times> bool) list \<Rightarrow> (nat \<times> bool) list" where
  "free_between us k vs = join_prev us (join_next k vs)"

section \<open>Addresses\<close>

lemma of_nat_u32_inject [simp]:
  "a < 4294967296 \<Longrightarrow> b < 4294967296 \<Longrightarrow> (of_nat a :: u32) = of_nat b \<longleftrightarrow> a = b"
  by (metis unat_of_nat_u32)

lemma of_nat_u32_eq_0 [simp]: "a < 4294967296 \<Longrightarrow> (of_nat a :: u32) = 0 \<longleftrightarrow> a = 0"
  using of_nat_u32_inject [of a 0] by simp

lemma of_nat_u32_le [simp]:
  "a < 4294967296 \<Longrightarrow> b < 4294967296 \<Longrightarrow> (of_nat a :: u32) \<le> of_nat b \<longleftrightarrow> a \<le> b"
  by (simp add: word_le_nat_alt unat_of_nat_u32)

lemma of_nat_u32_less [simp]:
  "a < 4294967296 \<Longrightarrow> b < 4294967296 \<Longrightarrow> (of_nat a :: u32) < of_nat b \<longleftrightarrow> a < b"
  by (simp add: word_less_nat_alt unat_of_nat_u32)

lemma of_nat_diff_u32: "b \<le> a \<Longrightarrow> (of_nat a :: u32) - of_nat b = of_nat (a - b)"
  by (simp add: of_nat_diff)

section \<open>Parts of a chunk list\<close>

text \<open>The pointer to the last chunk of a list, or \<open>p\<close> when it is empty.\<close>

primrec last_ptr :: "u32 \<Rightarrow> nat \<Rightarrow> (nat \<times> bool) list \<Rightarrow> u32" where
  "last_ptr p n [] = p"
| "last_ptr p n (c # cs) = last_ptr (of_nat n) (n + 16 + fst c) cs"

lemma chunks_at_suffix:
  "chunks_at ch p n (us @ vs) \<Longrightarrow> chunks_at ch (last_ptr p n us) (n + extent us) vs"
proof (induction us arbitrary: p n)
  case (Cons c us)
  from Cons.IH [of "of_nat n" "n + 16 + fst c"] Cons.prems show ?case by (simp add: add.assoc)
qed simp

lemma chunks_at_cong:
  "(\<And>b. n \<le> b \<Longrightarrow> b < n + extent cs \<Longrightarrow> ch' (of_nat b) = ch (of_nat b)) \<Longrightarrow>
   chunks_at ch' p n cs = chunks_at ch p n cs"
proof (induction cs arbitrary: p n)
  case (Cons c cs)
  have "chunks_at ch' (of_nat n) (n + 16 + fst c) cs = chunks_at ch (of_nat n) (n + 16 + fst c) cs"
    by (rule Cons.IH) (simp add: Cons.prems)
  then show ?case by (simp add: Cons.prems)
qed simp

lemma chunks_at_replace_suffix:
  assumes "chunks_at ch p n (us @ vs)" and "vs \<noteq> []" and "vs' \<noteq> []"
    and "\<And>b. b < n + extent us \<Longrightarrow> ch' (of_nat b) = ch (of_nat b)"
    and "chunks_at ch' (last_ptr p n us) (n + extent us) vs'"
  shows "chunks_at ch' p n (us @ vs')"
  using assms
proof (induction us arbitrary: p n)
  case (Cons c us)
  have "chunks_at ch' (of_nat n) (n + 16 + fst c) (us @ vs')"
    by (rule Cons.IH) (use Cons.prems in \<open>auto simp: add.assoc\<close>)
  with Cons.prems show ?case by simp
qed simp

text \<open>A change in front of the list does not touch it; nor does a new first \<open>prev\<close> field.\<close>

lemma chunks_at_other:
  "b < n \<Longrightarrow> n + extent cs \<le> 4294967296 \<Longrightarrow>
   chunks_at (ch(of_nat b := x)) p n cs = chunks_at ch p n cs"
  by (rule chunks_at_cong) auto

lemma chunks_at_set_prev:
  "chunks_at ch p n (c # cs) \<Longrightarrow> n + extent (c # cs) \<le> 4294967296 \<Longrightarrow>
   chunks_at (ch(of_nat n := (ch (of_nat n))\<lparr>ec_prev := q\<rparr>)) q n (c # cs)"
  using chunks_at_other [of n "n + 16 + fst c" cs ch] by simp

section \<open>Allocation is first fit\<close>

text \<open>What the code computes on addresses given as numbers.\<close>

lemma early_take_eq:
  assumes hd: "ch (of_nat n) = \<lparr>ec_size = of_nat m, ec_free = True, ec_next = nx, ec_prev = p\<rparr>"
    and fit: "k \<le> m" and m: "m < 4294967296" and x: "x = n + 16 + k"
  shows "early_take (of_nat k) (of_nat n) ch =
    (if k + 24 < m then
       let ch1 = ch(of_nat x := \<lparr>ec_size = of_nat (m - k - 16), ec_free = True, ec_next = nx,
                                  ec_prev = of_nat n\<rparr>);
           ch2 = (if nx \<noteq> 0 then ch1(nx := (ch1 nx)\<lparr>ec_prev := of_nat x\<rparr>) else ch1)
       in ch2(of_nat n := (ch2 (of_nat n))\<lparr>ec_next := of_nat x, ec_size := of_nat k, ec_free := False\<rparr>)
     else ch(of_nat n := \<lparr>ec_size = of_nat m, ec_free = False, ec_next = nx, ec_prev = p\<rparr>))"
proof -
  have sub: "(of_nat m :: u32) - of_nat k = of_nat (m - k)" by (rule of_nat_diff_u32) (rule fit)
  have more: "CHUNK_HEADER_SIZE + 8 < (of_nat (m - k) :: u32) \<longleftrightarrow> k + 24 < m"
    using m fit of_nat_u32_less [of 24 "m - k"] by (auto simp add: CHUNK_HEADER_SIZE_def)
  have new: "of_nat n + CHUNK_HEADER_SIZE + of_nat k = (of_nat x :: u32)"
    by (simp add: x CHUNK_HEADER_SIZE_def)
  have rest: "(of_nat (m - k) :: u32) - CHUNK_HEADER_SIZE = of_nat (m - k - 16)" if "k + 24 < m"
    using that of_nat_diff_u32 [of 16 "m - k"] by (simp add: CHUNK_HEADER_SIZE_def)
  show ?thesis
    by (simp add: early_take_def hd sub more new rest Let_def del: of_nat_diff)
qed

lemma early_take_split:
  assumes at: "chunks_at ch p n ((m, True) # cs)" and big: "k + 24 < m" and pos: "0 < n"
    and bnd: "n + extent ((m, True) # cs) \<le> 4294967296"
  defines "ch' \<equiv> early_take (of_nat k) (of_nat n) ch"
  shows "chunks_at ch' p n ((k, False) # (m - k - 16, True) # cs) \<and>
         (\<forall>b<n. ch' (of_nat b) = ch (of_nat b))"
proof -
  define x y where "x = n + 16 + k" and "y = n + 16 + m"
  define nx where "nx = (if cs = [] then 0 else of_nat y :: u32)"
  define N where "N = \<lparr>ec_size = of_nat (m - k - 16), ec_free = True, ec_next = nx, ec_prev = of_nat n\<rparr>"
  from at have hd: "ch (of_nat n) = \<lparr>ec_size = of_nat m, ec_free = True, ec_next = nx, ec_prev = p\<rparr>"
    and tl: "chunks_at ch (of_nat n) y cs" by (simp_all add: nx_def y_def add.assoc)
  from big bnd have ord: "n < x" "x < y" "x + 16 + (m - k - 16) = y" "y + extent cs \<le> 4294967296"
      "m < 4294967296" "x < 4294967296" "n < 4294967296"
    by (simp_all add: x_def y_def)
  have y: "y < 4294967296" if "cs \<noteq> []" using that ord(4) by (cases cs) simp_all
  have ch': "ch' = (let ch1 = ch(of_nat x := N);
           ch2 = (if nx \<noteq> 0 then ch1(nx := (ch1 nx)\<lparr>ec_prev := of_nat x\<rparr>) else ch1)
       in ch2(of_nat n := (ch2 (of_nat n))\<lparr>ec_next := of_nat x, ec_size := of_nat k, ec_free := False\<rparr>))"
    unfolding ch'_def N_def using early_take_eq [of ch n m nx p k x] hd ord(5) x_def big by simp
  have at_n: "ch' (of_nat n) = \<lparr>ec_size = of_nat k, ec_free = False, ec_next = of_nat x, ec_prev = p\<rparr>"
    using ord y hd by (simp add: ch' Let_def nx_def)
  have at_x: "ch' (of_nat x) = N"
    using ord y by (simp add: ch' Let_def nx_def)
  have low: "ch' (of_nat b) = ch (of_nat b)" if "b < n" for b
    using that ord y by (simp add: ch' Let_def nx_def)
  have "chunks_at ch' (of_nat x) y cs"
  proof (cases cs)
    case (Cons c ds)
    let ?ch = "ch(of_nat y := (ch (of_nat y))\<lparr>ec_prev := of_nat x\<rparr>)"
    have "chunks_at ?ch (of_nat x) y (c # ds)"
      by (rule chunks_at_set_prev) (use tl ord(4) Cons in simp_all)
    moreover have "chunks_at ch' (of_nat x) y (c # ds) = chunks_at ?ch (of_nat x) y (c # ds)"
    proof (rule chunks_at_cong)
      fix b assume "y \<le> b" and "b < y + extent (c # ds)"
      then have "b < 4294967296" "b \<noteq> x" "b \<noteq> n" using ord Cons by simp_all
      then show "ch' (of_nat b) = ?ch (of_nat b)"
        using ord y Cons by (simp add: ch' Let_def nx_def)
    qed
    ultimately show ?thesis by (simp only: Cons)
  qed simp
  with at_n at_x low show ?thesis
    using ord(3) by (simp add: N_def nx_def x_def [symmetric])
qed

lemma early_take_whole:
  assumes at: "chunks_at ch p n ((m, True) # cs)" and fit: "k \<le> m" "\<not> k + 24 < m" and pos: "0 < n"
    and bnd: "n + extent ((m, True) # cs) \<le> 4294967296"
  defines "ch' \<equiv> early_take (of_nat k) (of_nat n) ch"
  shows "chunks_at ch' p n ((m, False) # cs) \<and> (\<forall>b<n. ch' (of_nat b) = ch (of_nat b))"
proof -
  define y where "y = n + 16 + m"
  define nx where "nx = (if cs = [] then 0 else of_nat y :: u32)"
  from at have hd: "ch (of_nat n) = \<lparr>ec_size = of_nat m, ec_free = True, ec_next = nx, ec_prev = p\<rparr>"
    and tl: "chunks_at ch (of_nat n) y cs" by (simp_all add: nx_def y_def)
  have "m < 4294967296" "n < n + 16 + k" "n + 16 + k \<le> 4294967296" "y + extent cs \<le> 4294967296"
      "n < y" "n < 4294967296"
    using fit(1) bnd by (simp_all add: y_def)
  note ord = this
  have ch': "ch' = ch(of_nat n := \<lparr>ec_size = of_nat m, ec_free = False, ec_next = nx, ec_prev = p\<rparr>)"
    unfolding ch'_def using early_take_eq [of ch n m nx p k "n + 16 + k"] hd fit ord(1) by simp
  have "chunks_at ch' (of_nat n) y cs" 
    using tl chunks_at_other [of n y cs ch] ord by (simp add: ch')
  then show ?thesis using ord by (simp add: ch' nx_def y_def)
qed


lemma first_fit_nonempty: "first_fit k cs = Some (cs', d) \<Longrightarrow> cs \<noteq> [] \<and> cs' \<noteq> []"
  by (cases cs) (auto split: if_splits)

lemma first_fit_extent: "first_fit k cs = Some (cs', d) \<Longrightarrow> extent cs' = extent cs"
  by (induction cs arbitrary: cs' d) (auto split: if_splits)

lemma early_alloc_loop_correct:
  assumes "chunks_at ch p n cs" and "0 < n" and "n + extent cs \<le> 4294967296"
    and "k < 4294967296"
  shows "\<exists>r ch'. early_alloc_loop (of_nat k) ch (if cs = [] then 0 else of_nat n) = Some (r, ch') \<and>
      (\<forall>b<n. ch' (of_nat b) = ch (of_nat b)) \<and>
      (case first_fit k cs of None \<Rightarrow> r = 0 \<and> ch' = ch
       | Some (cs', d) \<Rightarrow> r = of_nat (n + d) \<and> chunks_at ch' p n cs')"
  using assms
proof (induction cs arbitrary: p n)
  case Nil
  show ?case by (simp add: early_alloc_loop.simps)
next
  case (Cons c cs)
  obtain m f where c: "c = (m, f)" by (cases c)
  let ?y = "n + 16 + m"
  have hd: "ch (of_nat n) = \<lparr>ec_size = of_nat m, ec_free = f,
      ec_next = (if cs = [] then 0 else of_nat ?y), ec_prev = p\<rparr>"
    and tl: "chunks_at ch (of_nat n) ?y cs" using Cons.prems(1) by (simp_all add: c)
  have b: "n < 4294967296" "m < 4294967296" "?y + extent cs \<le> 4294967296"
    using Cons.prems by (simp_all add: c)
  have unfold: "early_alloc_loop (of_nat k) ch (of_nat n) =
      (if f \<and> k \<le> m then Some (of_nat n + CHUNK_HEADER_SIZE, early_take (of_nat k) (of_nat n) ch)
       else early_alloc_loop (of_nat k) ch (if cs = [] then 0 else of_nat ?y))"
    using Cons.prems b by (subst early_alloc_loop.simps) (simp add: hd del: of_nat_add)
  show ?case
  proof (cases "f \<and> k \<le> m")
    case True
    with Cons.prems(1) c have at: "chunks_at ch p n ((m, True) # cs)" by simp
    have le: "n + extent ((m, True) # cs) \<le> 4294967296" using b by simp
    from early_take_split [OF at _ Cons.prems(2) le, of k]
      early_take_whole [OF at _ _ Cons.prems(2) le, of k] True
    show ?thesis by (cases "k + 24 < m") (simp_all add: unfold c CHUNK_HEADER_SIZE_def)
  next
    case False
    from Cons.IH [OF tl _ b(3) Cons.prems(4)] obtain r ch' where
      r: "early_alloc_loop (of_nat k) ch (if cs = [] then 0 else of_nat ?y) = Some (r, ch')"
      and low: "\<forall>b<?y. ch' (of_nat b) = ch (of_nat b)"
      and fits: "case first_fit k cs of None \<Rightarrow> r = 0 \<and> ch' = ch
          | Some (cs', d) \<Rightarrow> r = of_nat (?y + d) \<and> chunks_at ch' (of_nat n) ?y cs'" by auto
    have at_n: "ch' (of_nat n) = ch (of_nat n)" using low by simp
    show ?thesis
    proof (cases "first_fit k cs")
      case None
      with r fits False show ?thesis by (auto simp: unfold c)
    next
      case (Some q)
      obtain cs' d where q: "q = (cs', d)" by (cases q)
      from first_fit_nonempty [of k cs cs' d] Some q have "cs \<noteq> []" "cs' \<noteq> []" by simp_all
      with r fits low False at_n hd show ?thesis
        by (auto simp: unfold c Some q add.assoc)
    qed
  qed
qed

section \<open>Freeing merges neighbours\<close>

text \<open>Both merges absorb the chunk \<open>b\<close> into the chunk \<open>a\<close> in front of it.\<close>

definition absorb :: "u32 \<Rightarrow> u32 \<Rightarrow> (u32 \<Rightarrow> early_chunk) \<Rightarrow> (u32 \<Rightarrow> early_chunk)" where
  "absorb a b ch =
     (let nxt = ec_next (ch b);
          ch = ch(a := (ch a)\<lparr>ec_size := ec_size (ch a) + (CHUNK_HEADER_SIZE + ec_size (ch b)), ec_next := nxt\<rparr>)
      in if nxt \<noteq> 0 then ch(nxt := (ch nxt)\<lparr>ec_prev := a\<rparr>) else ch)"

lemma early_merge_next_absorb:
  "early_merge_next c ch =
     (if ec_next (ch c) \<noteq> 0 \<and> ec_free (ch (ec_next (ch c))) then absorb c (ec_next (ch c)) ch else ch)"
  by (simp add: early_merge_next_def absorb_def Let_def)

lemma early_merge_prev_absorb:
  "ec_prev (ch c) \<noteq> c \<Longrightarrow> early_merge_prev c ch =
     (if ec_prev (ch c) \<noteq> 0 \<and> ec_free (ch (ec_prev (ch c))) then absorb (ec_prev (ch c)) c ch else ch)"
  by (simp add: early_merge_prev_def absorb_def Let_def)

lemma absorb_correct:
  assumes at: "chunks_at ch p n ((m, True) # (k, f) # vs)" and pos: "0 < n"
    and bnd: "n + extent ((m, True) # (k, f) # vs) \<le> 4294967296"
  defines "ch' \<equiv> absorb (of_nat n) (of_nat (n + 16 + m)) ch"
  shows "chunks_at ch' p n ((m + (16 + k), True) # vs) \<and> (\<forall>b<n. ch' (of_nat b) = ch (of_nat b))"
proof -
  define x y where "x = n + 16 + m" and "y = x + 16 + k"
  define nx where "nx = (if vs = [] then 0 else of_nat y :: u32)"
  have at_n: "ch (of_nat n) = \<lparr>ec_size = of_nat m, ec_free = True, ec_next = of_nat x, ec_prev = p\<rparr>"
    and at_x: "ch (of_nat x) = \<lparr>ec_size = of_nat k, ec_free = f, ec_next = nx, ec_prev = of_nat n\<rparr>"
    and tl: "chunks_at ch (of_nat x) y vs"
    using at by (simp_all add: x_def y_def nx_def)
  have ord: "n < x" "x < y" "y + extent vs \<le> 4294967296" "x < 4294967296" "n < 4294967296"
    using bnd by (simp_all add: x_def y_def)
  have y: "y < 4294967296" if "vs \<noteq> []" using that ord(3) by (cases vs) simp_all
  have ch': "ch' = (let ch1 = ch(of_nat n := \<lparr>ec_size = of_nat (m + (16 + k)), ec_free = True,
                                               ec_next = nx, ec_prev = p\<rparr>)
      in if vs \<noteq> [] then ch1(of_nat y := (ch1 (of_nat y))\<lparr>ec_prev := of_nat n\<rparr>) else ch1)"
    unfolding ch'_def x_def [symmetric] using ord y
    by (simp add: absorb_def at_n at_x nx_def CHUNK_HEADER_SIZE_def Let_def del: of_nat_add)
       (simp add: ac_simps)
  have at_n': "ch' (of_nat n) = \<lparr>ec_size = of_nat (m + (16 + k)), ec_free = True, ec_next = nx, ec_prev = p\<rparr>"
    using ord y by (simp add: ch' Let_def del: of_nat_add)
  have low: "ch' (of_nat b) = ch (of_nat b)" if "b < n" for b
    using that ord y by (simp add: ch' Let_def)
  have "chunks_at ch' (of_nat n) y vs"
  proof (cases vs)
    case (Cons v ws)
    let ?ch = "ch(of_nat y := (ch (of_nat y))\<lparr>ec_prev := of_nat n\<rparr>)"
    have "chunks_at ?ch (of_nat n) y (v # ws)"
      by (rule chunks_at_set_prev) (use tl ord(3) Cons in simp_all)
    moreover have "chunks_at ch' (of_nat n) y (v # ws) = chunks_at ?ch (of_nat n) y (v # ws)"
    proof (rule chunks_at_cong)
      fix b assume "y \<le> b" and "b < y + extent (v # ws)"
      then have "b < 4294967296" "b \<noteq> n" using ord Cons by simp_all
      then show "ch' (of_nat b) = ?ch (of_nat b)" using ord y Cons by (simp add: ch' Let_def)
    qed
    ultimately show ?thesis by (simp only: Cons)
  qed simp
  with at_n' low show ?thesis by (simp add: nx_def y_def x_def ac_simps)
qed

lemma early_merge_next_correct:
  assumes at: "chunks_at ch p n ((k, True) # vs)" and pos: "0 < n"
    and bnd: "n + extent ((k, True) # vs) \<le> 4294967296"
  shows "chunks_at (early_merge_next (of_nat n) ch) p n (join_next k vs) \<and>
         (\<forall>b<n. early_merge_next (of_nat n) ch (of_nat b) = ch (of_nat b))"
proof (cases vs)
  case Nil
  with at show ?thesis by (simp add: early_merge_next_absorb)
next
  case (Cons v ws)
  obtain m f where v: "v = (m, f)" by (cases v)
  have nx: "(of_nat (n + 16 + k) :: u32) \<noteq> 0"
    using bnd Cons by (subst of_nat_u32_eq_0) simp_all
  have "early_merge_next (of_nat n) ch = (if f then absorb (of_nat n) (of_nat (n + 16 + k)) ch else ch)"
    using at nx by (simp add: early_merge_next_absorb Cons v del: of_nat_add)
  with absorb_correct [of ch p n k m f ws] assms show ?thesis
    by (cases f) (simp_all add: Cons v)
qed

lemma early_merge_prev_correct:
  assumes at: "chunks_at ch p n ((m, f) # (k, True) # vs)" and pos: "0 < n"
    and bnd: "n + extent ((m, f) # (k, True) # vs) \<le> 4294967296"
  defines "ch' \<equiv> early_merge_prev (of_nat (n + 16 + m)) ch"
  shows "chunks_at ch' p n (if f then (m + (16 + k), True) # vs else (m, f) # (k, True) # vs) \<and>
         (\<forall>b<n. ch' (of_nat b) = ch (of_nat b))"
proof -
  let ?x = "n + 16 + m"
  have prev: "ec_prev (ch (of_nat ?x)) = of_nat n" "ec_free (ch (of_nat n)) = f" using at by simp_all
  have ne: "(of_nat n :: u32) \<noteq> of_nat ?x" "(of_nat n :: u32) \<noteq> 0"
    using bnd pos by (simp_all del: of_nat_add)
  have "ch' = (if f then absorb (of_nat n) (of_nat ?x) ch else ch)"
    unfolding ch'_def using prev ne by (simp add: early_merge_prev_absorb del: of_nat_add)
  with absorb_correct [of ch p n m k True vs] assms show ?thesis by (cases f) simp_all
qed

lemma chunks_at_local:
  assumes "chunks_at ch p n (us @ vs)" and "vs \<noteq> []" and "vs' \<noteq> []"
    and "chunks_at ch (last_ptr p n us) (n + extent us) vs \<Longrightarrow>
         chunks_at ch' (last_ptr p n us) (n + extent us) vs' \<and> (\<forall>b<n + extent us. ch' (of_nat b) = ch (of_nat b))"
  shows "chunks_at ch' p n (us @ vs')"
  using assms chunks_at_suffix [OF assms(1)] chunks_at_replace_suffix [OF assms(1-3), of ch'] by blast

lemma early_mark_free_correct:
  assumes "chunks_at ch p n ((k, f) # vs)" and "n + extent ((k, f) # vs) \<le> 4294967296"
  defines "ch' \<equiv> ch(of_nat n := (ch (of_nat n))\<lparr>ec_free := True\<rparr>)"
  shows "chunks_at ch' p n ((k, True) # vs) \<and> (\<forall>b<n. ch' (of_nat b) = ch (of_nat b))"
  using assms chunks_at_other [of n "n + 16 + k" vs ch] by simp

lemma join_next_shape: "\<exists>k' vs'. join_next k vs = (k', True) # vs'"
  by (cases "(k, vs)" rule: join_next.cases) auto

lemma extent_join_next [simp]: "extent (join_next k vs) = 16 + k + extent vs"
  by (cases "(k, vs)" rule: join_next.cases) auto

lemma early_coalesce_correct:
  assumes at: "chunks_at ch 0 n (us @ (k, True) # vs)" and pos: "0 < n"
    and bnd: "n + extent (us @ (k, True) # vs) \<le> 4294967296"
  shows "chunks_at (early_coalesce (of_nat (n + extent us)) ch) 0 n (free_between us k vs)"
proof -
  let ?c = "of_nat (n + extent us) :: u32"
  obtain k' vs' where j: "join_next k vs = (k', True) # vs'" using join_next_shape by blast
  have at1: "chunks_at (early_merge_next ?c ch) 0 n (us @ (k', True) # vs')"
    by (rule chunks_at_local [OF at])
       (use early_merge_next_correct [of ch "last_ptr 0 n us" "n + extent us" k vs] bnd pos j in simp_all)
  have bnd1: "n + extent (us @ (k', True) # vs') \<le> 4294967296"
    using bnd extent_join_next [of k vs] j by simp
  show ?thesis
  proof (cases us rule: rev_cases)
    case Nil
    then have "ec_prev (early_merge_next ?c ch ?c) = 0" using at1 by simp
    moreover have "?c \<noteq> 0" using pos bnd Nil by simp
    ultimately show ?thesis
      using at1 by (simp add: early_coalesce_def early_merge_prev_def free_between_def j Nil)
  next
    case (snoc ts t)
    obtain m f where t: "t = (m, f)" by (cases t)
    from at1 have at2: "chunks_at (early_merge_next ?c ch) 0 n (ts @ (m, f) # (k', True) # vs')"
      by (simp add: snoc t)
    have c: "?c = of_nat (n + extent ts + 16 + m)" by (simp add: snoc t)
    have "chunks_at (early_merge_prev ?c (early_merge_next ?c ch)) 0 n
        (ts @ (if f then (m + (16 + k'), True) # vs' else (m, f) # (k', True) # vs'))"
      unfolding c
    proof (rule chunks_at_local [OF at2 [unfolded c]])
      assume "chunks_at (early_merge_next (of_nat (n + extent ts + 16 + m)) ch) (last_ptr 0 n ts)
                (n + extent ts) ((m, f) # (k', True) # vs')"
      then show "chunks_at (early_merge_prev (of_nat (n + extent ts + 16 + m))
                  (early_merge_next (of_nat (n + extent ts + 16 + m)) ch)) (last_ptr 0 n ts) (n + extent ts)
                (if f then (m + (16 + k'), True) # vs' else (m, f) # (k', True) # vs') \<and>
              (\<forall>b<n + extent ts. early_merge_prev (of_nat (n + extent ts + 16 + m))
                  (early_merge_next (of_nat (n + extent ts + 16 + m)) ch) (of_nat b) =
                early_merge_next (of_nat (n + extent ts + 16 + m)) ch (of_nat b))"
        by (rule early_merge_prev_correct) (use bnd1 pos in \<open>simp_all add: snoc t\<close>)
    qed simp_all
    then show ?thesis unfolding c early_coalesce_def
      by (cases f) (simp_all add: free_between_def j snoc t del: of_nat_add)
  qed
qed

section \<open>The pool\<close>

text \<open>
  The invariant of the initialised allocator: its chunks are linked one after the other from the
  head on, without a gap, and no two free ones are neighbours.
\<close>

definition early_pool :: "early_state \<Rightarrow> nat \<Rightarrow> (nat \<times> bool) list \<Rightarrow> bool" where
  "early_pool s n cs \<longleftrightarrow>
     ei_initialized (early s) \<and> early_head s = of_nat n \<and> 0 < n \<and> n + extent cs < 4294967296 \<and>
     cs \<noteq> [] \<and> chunks_at (chunk_at s) 0 n cs \<and> coalesced cs"

lemma coalesced_append_Cons:
  "coalesced (us @ c # vs) \<longleftrightarrow>
     coalesced us \<and> coalesced (c # vs) \<and> (us = [] \<or> \<not> (snd (last us) \<and> snd c))"
  by (induction us rule: coalesced.induct) auto

lemma coalesced_Cons:
  "coalesced (c # cs) \<longleftrightarrow> coalesced cs \<and> (cs = [] \<or> \<not> (snd c \<and> snd (hd cs)))"
  by (cases cs) auto

lemma first_fit_split:
  "first_fit k cs = Some (cs', d) \<Longrightarrow>
   \<exists>us m vs. cs = us @ (m, True) # vs \<and> k \<le> m \<and> d = extent us + 16 \<and>
     cs' = us @ (if k + 24 < m then (k, False) # (m - k - 16, True) # vs else (m, False) # vs)"
proof (induction cs arbitrary: cs' d)
  case (Cons c cs)
  show ?case
  proof (cases "snd c \<and> k \<le> fst c")
    case True
    with Cons.prems show ?thesis
      by (intro exI [of _ "[]"] exI [of _ "fst c"] exI [of _ cs]) (cases c, auto split: if_splits)
  next
    case False
    with Cons.prems obtain es e where e: "first_fit k cs = Some (es, e)" "cs' = c # es" "d = 16 + fst c + e"
      by auto
    with Cons.IH [OF e(1)] obtain us m vs where "cs = us @ (m, True) # vs" "k \<le> m" "e = extent us + 16"
        "es = us @ (if k + 24 < m then (k, False) # (m - k - 16, True) # vs else (m, False) # vs)"
      by blast
    with e show ?thesis by (intro exI [of _ "c # us"] exI [of _ m] exI [of _ vs]) simp
  qed
qed simp

lemma first_fit_coalesced: "first_fit k cs = Some (cs', d) \<Longrightarrow> coalesced cs \<Longrightarrow> coalesced cs'"
  using first_fit_split [of k cs cs' d]
  by (auto simp: coalesced_append_Cons coalesced_Cons split: if_splits)

lemma free_between_coalesced: "coalesced (us @ (k, False) # vs) \<Longrightarrow> coalesced (free_between us k vs)"
proof -
  assume *: "coalesced (us @ (k, False) # vs)"
  have joined: "coalesced (join_next k vs)"
    using * by (cases "(k, vs)" rule: join_next.cases) (auto simp: coalesced_append_Cons coalesced_Cons)
  obtain k' vs' where j: "join_next k vs = (k', True) # vs'" using join_next_shape by blast
  show ?thesis using * joined
    by (cases us rule: rev_cases) (auto simp: free_between_def j coalesced_append_Cons coalesced_Cons)
qed

lemma free_between_extent [simp]: "extent (free_between us k vs) = extent us + 16 + k + extent vs"
proof -
  obtain k' vs' where j: "join_next k vs = (k', True) # vs'" using join_next_shape by blast
  with extent_join_next [of k vs] show ?thesis
    by (cases us rule: rev_cases) (auto simp: free_between_def)
qed

lemma free_between_nonempty [simp]: "free_between us k vs \<noteq> []"
  using free_between_extent [of us k vs] by fastforce

text \<open>The blocks in use, by address, with the room each has.\<close>

primrec used :: "nat \<Rightarrow> (nat \<times> bool) list \<Rightarrow> (nat \<times> nat) set" where
  "used n [] = {}"
| "used n (c # cs) = (if snd c then {} else {(n + 16, fst c)}) \<union> used (n + 16 + fst c) cs"

lemma used_append [simp]: "used n (us @ vs) = used n us \<union> used (n + extent us) vs"
  by (induction us arbitrary: n) (auto simp: add.assoc)

lemma used_bounds: "(a, k) \<in> used n cs \<Longrightarrow> n + 16 \<le> a \<and> a + k \<le> n + extent cs"
  by (induction cs arbitrary: n) (fastforce split: if_splits)+

lemma used_disjoint:
  "(a, k) \<in> used n cs \<Longrightarrow> (b, m) \<in> used n cs \<Longrightarrow> (a, k) = (b, m) \<or> a + k < b \<or> b + m < a"
proof (induction cs arbitrary: n)
  case (Cons c cs)
  then show ?case
    using used_bounds [of a k "n + 16 + fst c" cs] used_bounds [of b m "n + 16 + fst c" cs]
    by (auto split: if_splits)
qed simp

lemma used_split: "(a, k) \<in> used n cs \<Longrightarrow> \<exists>us vs. cs = us @ (k, False) # vs \<and> a = n + extent us + 16"
proof (induction cs arbitrary: n)
  case (Cons c cs)
  show ?case
  proof (cases "(a, k) \<in> used (n + 16 + fst c) cs")
    case True
    from Cons.IH [OF this] obtain us vs where "cs = us @ (k, False) # vs"
        "a = n + 16 + fst c + extent us + 16" by blast
    then show ?thesis by (intro exI [of _ "c # us"] exI [of _ vs]) simp
  next
    case False
    with Cons.prems show ?thesis
      by (intro exI [of _ "[]"] exI [of _ cs]) (cases c, auto split: if_splits)
  qed
qed simp

lemma used_join_next: "used n (join_next k vs) = used (n + 16 + k) vs"
  by (cases "(k, vs)" rule: join_next.cases) (auto simp: add.assoc)

lemma used_free_between:
  "used n (free_between us k vs) = used n (us @ (k, False) # vs) - {(n + extent us + 16, k)}"
proof -
  obtain k' vs' where j: "join_next k vs = (k', True) # vs'" using join_next_shape by blast
  have "used n (free_between us k vs) = used n us \<union> used (n + extent us) (join_next k vs)"
    by (cases us rule: rev_cases) (auto simp: free_between_def j add.assoc)
  moreover have "(n + extent us + 16, k) \<notin> used n us" "(n + extent us + 16, k) \<notin> used (n + extent us + 16 + k) vs"
    using used_bounds [of "n + extent us + 16" k n us]
      used_bounds [of "n + extent us + 16" k "n + extent us + 16 + k" vs] by auto
  ultimately show ?thesis by (auto simp: used_join_next)
qed

lemma used_first_fit:
  assumes "first_fit k cs = Some (cs', d)" and "0 < k"
  shows "\<exists>m\<ge>k. used n cs' = insert (n + d, m) (used n cs) \<and> (n + d, m) \<notin> used n cs"
proof -
  from first_fit_split [OF assms(1)] obtain us m vs where cs: "cs = us @ (m, True) # vs" "k \<le> m"
      "d = extent us + 16"
      "cs' = us @ (if k + 24 < m then (k, False) # (m - k - 16, True) # vs else (m, False) # vs)" by blast
  let ?m = "if k + 24 < m then k else m"
  have "used n cs' = insert (n + d, ?m) (used n cs)"
    using cs by (auto simp: add.assoc)
  moreover have "(n + d, ?m) \<notin> used n cs"
    using cs used_bounds [of "n + d" ?m n us] used_bounds [of "n + d" ?m "n + extent us + 16 + m" vs] assms(2)
    by auto
  ultimately show ?thesis using cs(2) by (intro exI [of _ ?m]) simp
qed

text \<open>Freeing what was just allocated gives the list back.\<close>

lemma free_after_first_fit:
  assumes "coalesced (us @ (m, True) # vs)" and "k \<le> m"
  shows "(if k + 24 < m then free_between us k ((m - k - 16, True) # vs) else free_between us m vs)
           = us @ (m, True) # vs"
proof -
  have vs: "vs = [] \<or> \<not> snd (hd vs)" and us: "us = [] \<or> \<not> snd (last us)"
    using assms(1) by (auto simp: coalesced_append_Cons coalesced_Cons)
  then have "join_next m vs = (m, True) # vs" by (cases vs) auto
  with us show ?thesis by (auto simp: free_between_def)
qed

section \<open>The operations on the pool\<close>

lemma early_alloc_pool:
  assumes pool: "early_pool s n cs" and k: "k \<noteq> 0"
  shows "case first_fit (unat k) cs of
           None \<Rightarrow> early_alloc k s = Some (0, s)
         | Some (cs', d) \<Rightarrow> \<exists>ch. early_alloc k s = Some (of_nat (n + d), s\<lparr>chunk_at := ch\<rparr>) \<and>
             early_pool (s\<lparr>chunk_at := ch\<rparr>) n cs'"
proof -
  from pool have P: "ei_initialized (early s)" "early_head s = of_nat n" "0 < n" "n + extent cs < 4294967296"
    "cs \<noteq> []" "chunks_at (chunk_at s) 0 n cs" "coalesced cs" by (simp_all add: early_pool_def)
  have "\<exists>r ch'. early_alloc_loop k (chunk_at s) (early_head s) = Some (r, ch') \<and>
      (case first_fit (unat k) cs of None \<Rightarrow> r = 0 \<and> ch' = chunk_at s
       | Some (cs', d) \<Rightarrow> r = of_nat (n + d) \<and> chunks_at ch' 0 n cs')"
    using early_alloc_loop_correct [OF P(6,3), of "unat k"] P by auto
  then obtain r ch' where r: "early_alloc_loop k (chunk_at s) (early_head s) = Some (r, ch')"
      "case first_fit (unat k) cs of None \<Rightarrow> r = 0 \<and> ch' = chunk_at s
       | Some (cs', d) \<Rightarrow> r = of_nat (n + d) \<and> chunks_at ch' 0 n cs'" by blast
  show ?thesis
  proof (cases "first_fit (unat k) cs")
    case None
    with r P(1) k show ?thesis by (simp add: early_alloc_def)
  next
    case (Some q)
    obtain cs' d where q: "q = (cs', d)" by (cases q)
    with Some have ff: "first_fit (unat k) cs = Some (cs', d)" by simp
    show ?thesis
      using r P k ff first_fit_nonempty [OF ff] first_fit_extent [OF ff] first_fit_coalesced [OF ff P(7)]
      by (auto simp: early_alloc_def early_pool_def)
  qed
qed

lemma early_free_pool:
  assumes pool: "early_pool s n (us @ (k, False) # vs)"
  shows "\<exists>ch. early_free (of_nat (n + extent us + 16)) s = s\<lparr>chunk_at := ch\<rparr> \<and>
             early_pool (s\<lparr>chunk_at := ch\<rparr>) n (free_between us k vs)"
proof -
  let ?c = "of_nat (n + extent us) :: u32"
  let ?ch = "(chunk_at s)(?c := (chunk_at s ?c)\<lparr>ec_free := True\<rparr>)"
  from pool have P: "ei_initialized (early s)" "0 < n" "n + extent (us @ (k, False) # vs) < 4294967296"
    "chunks_at (chunk_at s) 0 n (us @ (k, False) # vs)" "coalesced (us @ (k, False) # vs)"
    by (simp_all add: early_pool_def)
  have "(of_nat (n + extent us + 16) :: u32) \<noteq> 0"
    using P(3) by (subst of_nat_u32_eq_0) simp_all
  moreover have "(of_nat (n + extent us + 16) :: u32) - CHUNK_HEADER_SIZE = ?c"
    by (simp add: CHUNK_HEADER_SIZE_def)
  ultimately have eq: "early_free (of_nat (n + extent us + 16)) s = s\<lparr>chunk_at := early_coalesce ?c ?ch\<rparr>"
    using P(1) by (simp add: early_free_def Let_def del: of_nat_add)
  have "chunks_at ?ch 0 n (us @ (k, True) # vs)"
  proof (rule chunks_at_local [OF P(4)])
    assume "chunks_at (chunk_at s) (last_ptr 0 n us) (n + extent us) ((k, False) # vs)"
    then show "chunks_at ?ch (last_ptr 0 n us) (n + extent us) ((k, True) # vs) \<and>
        (\<forall>b<n + extent us. ?ch (of_nat b) = chunk_at s (of_nat b))"
      by (rule early_mark_free_correct) (use P(3) in simp)
  qed simp_all
  then have "chunks_at (early_coalesce ?c ?ch) 0 n (free_between us k vs)"
    by (rule early_coalesce_correct) (use P(2,3) in simp_all)
  moreover have "coalesced (free_between us k vs)" using P(5) by (rule free_between_coalesced)
  ultimately have "early_pool (s\<lparr>chunk_at := early_coalesce ?c ?ch\<rparr>) n (free_between us k vs)"
    using pool by (simp add: early_pool_def)
  with eq show ?thesis by blast
qed

section \<open>Clients of the allocator\<close>

text \<open>
  What can happen to the allocator: a request that is served or refused, and the return of a block
  that is out. \<open>live\<close> is the set of blocks (address, requested size) the clients hold.
\<close>

inductive early_reach :: "early_state \<Rightarrow> early_state \<Rightarrow> (nat \<times> nat) set \<Rightarrow> bool" for s0 where
  start: "early_reach s0 s0 {}"
| served: "early_reach s0 s live \<Longrightarrow> early_alloc k s = Some (a, s') \<Longrightarrow> a \<noteq> 0 \<Longrightarrow>
    early_reach s0 s' (insert (unat a, unat k) live)"
| refused: "early_reach s0 s live \<Longrightarrow> early_alloc k s = Some (0, s') \<Longrightarrow> early_reach s0 s' live"
| returned: "early_reach s0 s live \<Longrightarrow> (a, k) \<in> live \<Longrightarrow>
    early_reach s0 (early_free (of_nat a) s) (live - {(a, k)})"

text \<open>The blocks the clients hold are the blocks in use, each with room enough.\<close>

definition held :: "(nat \<times> nat) set \<Rightarrow> (nat \<times> nat) set \<Rightarrow> bool" where
  "held live us \<longleftrightarrow> fst ` live = fst ` us \<and> inj_on fst live \<and>
     (\<forall>(a, k)\<in>live. \<exists>m\<ge>k. (a, m) \<in> us)"

lemma inj_on_used: "inj_on fst (used n cs)"
proof (rule inj_onI)
  fix x y assume "x \<in> used n cs" "y \<in> used n cs" "fst x = fst y"
  then show "x = y" using used_disjoint [of "fst x" "snd x" n cs "fst y" "snd y"]
    by (cases x, cases y) auto
qed

lemma held_insert:
  assumes "held live us" and "(a, m) \<notin> us" and "inj_on fst (insert (a, m) us)" and "k \<le> m"
  shows "held (insert (a, k) live) (insert (a, m) us)"
proof -
  have "a \<notin> fst ` us" using assms(2,3) by (force simp: inj_on_def)
  with assms(1) have "a \<notin> fst ` live" by (simp add: held_def)
  with assms(1,4) show ?thesis by (fastforce simp: held_def inj_on_def)
qed

lemma held_remove:
  assumes "held live us" and "(a, k) \<in> live" and "inj_on fst us"
  shows "\<exists>m\<ge>k. (a, m) \<in> us \<and> held (live - {(a, k)}) (us - {(a, m)})"
proof -
  from assms(1,2) obtain m where m: "k \<le> m" "(a, m) \<in> us" by (auto simp: held_def)
  from assms(1) have inj: "inj_on fst live" and im: "fst ` live = fst ` us"
    and room: "\<forall>(b, j)\<in>live. \<exists>m'\<ge>j. (b, m') \<in> us" by (simp_all add: held_def)
  have "fst ` (live - {(a, k)}) = fst ` live - {a}"
    using inj_on_image_set_diff [OF inj, of live "{(a, k)}"] assms(2) by simp
  moreover have "fst ` (us - {(a, m)}) = fst ` us - {a}"
    using inj_on_image_set_diff [OF assms(3), of us "{(a, m)}"] m(2) by simp
  moreover have "inj_on fst (live - {(a, k)})" using inj by (rule inj_on_subset) simp
  moreover have "\<forall>(b, j)\<in>live - {(a, k)}. \<exists>m'\<ge>j. (b, m') \<in> us - {(a, m)}"
  proof
    fix x assume x: "x \<in> live - {(a, k)}"
    obtain b j where bj: "x = (b, j)" by (cases x)
    with x have "(b, j) \<in> live" "b \<noteq> a" using inj_onD [OF inj, of x "(a, k)"] assms(2) by auto
    with room bj show "case x of (b, j) \<Rightarrow> \<exists>m'\<ge>j. (b, m') \<in> us - {(a, m)}" by fastforce
  qed
  ultimately have "held (live - {(a, k)}) (us - {(a, m)})"
    using im by (simp add: held_def)
  with m show ?thesis by blast
qed

lemma early_alloc_eq:
  assumes pool: "early_pool s n cs" and al: "early_alloc k s = Some (a, s')"
  shows "(a = 0 \<and> s' = s) \<or>
    (k \<noteq> 0 \<and> (\<exists>cs' d. first_fit (unat k) cs = Some (cs', d) \<and> unat a = n + d \<and> a \<noteq> 0 \<and>
       (\<exists>ch. s' = s\<lparr>chunk_at := ch\<rparr>) \<and> early_pool s' n cs'))"
proof (cases "k = 0")
  case True
  with al show ?thesis by (simp add: early_alloc_def)
next
  case False
  show ?thesis
  proof (cases "first_fit (unat k) cs")
    case None
    with early_alloc_pool [OF pool False] al show ?thesis by simp
  next
    case (Some q)
    obtain cs' d where q: "q = (cs', d)" by (cases q)
    from first_fit_split [of "unat k" cs cs' d] Some q obtain us m vs where
      "cs = us @ (m, True) # vs" "d = extent us + 16" by auto
    then have "0 < n + d" "n + d < 4294967296" using pool by (simp_all add: early_pool_def)
    moreover from this have "unat (of_nat (n + d) :: u32) = n + d" by (intro unat_of_nat_u32)
    ultimately show ?thesis
      using early_alloc_pool [OF pool False] al Some q False by (auto simp del: of_nat_add)
  qed
qed

lemma early_reach_invariant:
  assumes "early_reach s0 s live" and "early_pool s0 n [(m, True)]"
  shows "\<exists>cs. early_pool s n cs \<and> extent cs = 16 + m \<and> held live (used n cs)"
  using assms
proof (induction rule: early_reach.induct)
  case start
  then show ?case by (intro exI [of _ "[(m, True)]"]) (simp add: held_def)
next
  case (served s live k a s')
  then obtain cs where cs: "early_pool s n cs" "extent cs = 16 + m" "held live (used n cs)" by blast
  from early_alloc_eq [OF cs(1) served.hyps(2)] served.hyps(3) obtain cs' d where
    "k \<noteq> 0" and ff: "first_fit (unat k) cs = Some (cs', d)" and a: "unat a = n + d" and pool: "early_pool s' n cs'"
    by blast
  from \<open>k \<noteq> 0\<close> have "0 < unat k" by (simp add: unat_gt_0)
  from used_first_fit [OF ff this, of n] obtain j where
    j: "unat k \<le> j" "used n cs' = insert (n + d, j) (used n cs)" "(n + d, j) \<notin> used n cs" by blast
  have "held (insert (n + d, unat k) live) (used n cs')"
    unfolding j(2) by (rule held_insert) (use cs(3) j inj_on_used [of n cs'] in simp_all)
  with pool a first_fit_extent [OF ff] cs(2) show ?case by auto
next
  case (refused s live k s')
  then obtain cs where cs: "early_pool s n cs" "extent cs = 16 + m" "held live (used n cs)" by blast
  from early_alloc_eq [OF cs(1) refused.hyps(2)] have "s' = s" by auto
  with cs show ?case by blast
next
  case (returned s live a k)
  then obtain cs where cs: "early_pool s n cs" "extent cs = 16 + m" "held live (used n cs)" by blast
  from held_remove [OF cs(3) returned.hyps(2) inj_on_used] obtain j where
    j: "(a, j) \<in> used n cs" "held (live - {(a, k)}) (used n cs - {(a, j)})" by blast
  from used_split [OF j(1)] obtain us vs where us: "cs = us @ (j, False) # vs" "a = n + extent us + 16" by blast
  from early_free_pool [of s n us j vs] cs(1) us have
    "early_pool (early_free (of_nat a) s) n (free_between us j vs)" by auto
  then show ?case
    using j(2) us cs(2) by (intro exI [of _ "free_between us j vs"]) (simp add: used_free_between)
qed

text \<open>A coalesced list without a block in use is one chunk.\<close>

lemma coalesced_all_free:
  assumes "coalesced cs" and "cs \<noteq> []" and "used n cs = {}"
  shows "cs = [(extent cs - 16, True)]"
proof (cases cs)
  case (Cons c ds)
  have "ds = []"
    using assms Cons by (cases ds) (auto split: if_splits)
  with Cons assms show ?thesis by (cases c) (simp split: if_splits)
qed (use assms in simp)

text \<open>Returning a block right after it was handed out restores the pool, chunk by chunk.\<close>

lemma early_alloc_free_restores:
  assumes pool: "early_pool s n cs" and al: "early_alloc k s = Some (a, s')" and a: "a \<noteq> 0"
  shows "early_pool (early_free a s') n cs"
proof -
  from early_alloc_eq [OF pool al] a obtain cs' d where
    ff: "first_fit (unat k) cs = Some (cs', d)" and d: "unat a = n + d" and pool': "early_pool s' n cs'" by blast
  from first_fit_split [OF ff] obtain us m vs where cs: "cs = us @ (m, True) # vs" "unat k \<le> m"
    "d = extent us + 16" "cs' = us @ (if unat k + 24 < m then (unat k, False) # (m - unat k - 16, True) # vs
                                     else (m, False) # vs)" by blast
  have "a = of_nat (n + extent us + 16)" 
  proof -
    have "n + extent us + 16 = unat a" using d cs(3) by simp
    then show ?thesis by (simp only:) simp
  qed
  moreover have "coalesced (us @ (m, True) # vs)" using pool cs(1) by (simp add: early_pool_def)
  ultimately show ?thesis
    using early_free_pool [of s' n us "unat k" "(m - unat k - 16, True) # vs"] early_free_pool [of s' n us m vs]
      free_after_first_fit [of us m vs "unat k"] pool' cs by (auto split: if_splits)
qed

end
