(* ===== verification/EarlyInit.thy ===== *)
theory EarlyInit
  imports EarlyProps
begin

text \<open>
  The pages of mem/early.c: \<open>early_reserve_page\<close> always returns and never hands out a page
  twice, \<open>early_allocator_init\<close> builds the pool when the first available region can hold it,
  \<open>early_allocator_destroy\<close> gives back all pages but the one reserved for the bitmap, and the
  order of the two calls in \<open>init_stage_early\<close> leaves the kernel without a pool.
\<close>

unbundle bit_operations_syntax

section \<open>The walk through a region\<close>

lemma page_offset_inj:
  assumes "i < 1048576" and "j < 1048576" and "p + of_nat (4096 * i) = p + (of_nat (4096 * j) :: u32)"
  shows "i = j"
proof -
  from assms(3) have "(of_nat (4096 * i) :: u32) = of_nat (4096 * j)" by simp
  moreover have "4096 * i < 4294967296" "4096 * j < 4294967296" using assms(1,2) by simp_all
  ultimately show ?thesis by (metis of_nat_u32_inject mult_cancel1 zero_neq_numeral)
qed

text \<open>
  What the walk finds: a page that is not taken, page-aligned, and inside the region when the region
  stays below the last two pages of the address space (the comparison of the loop wraps there).
\<close>

definition page_found :: "u32 list \<Rightarrow> u32 \<Rightarrow> u32 \<Rightarrow> u32 \<Rightarrow> bool" where
  "page_found taken e p q \<longleftrightarrow> q \<notin> set taken \<and> (4096 dvd unat p \<longrightarrow> 4096 dvd unat q) \<and>
     (unat e \<le> 4294959104 \<longrightarrow> unat p \<le> 4294959104 \<longrightarrow> unat p \<le> unat q \<and> unat q + 4096 \<le> unat e)"

lemma unat_next_page: "unat p \<le> 4294959104 \<Longrightarrow> unat (p + 4096 :: u32) = unat p + 4096"
  using unat_plus_u32 [of p 4096] by simp

lemma dvd_unat_next_page: "4096 dvd unat (p + 4096 :: u32) \<longleftrightarrow> 4096 dvd unat p"
proof -
  have "4096 dvd (unat p + 4096) mod 4294967296 \<longleftrightarrow> 4096 dvd unat p + 4096"
    by (rule dvd_mod_iff) simp
  then show ?thesis by (simp add: unat_word_ariths)
qed

lemma early_page_loop_untaken:
  "p + of_nat (4096 * i) \<notin> set taken \<Longrightarrow>
   \<exists>r. early_page_loop taken e p = Some r \<and> (\<forall>q. r = Some q \<longrightarrow> page_found taken e p q)"
proof (induction i arbitrary: p)
  case 0
  then show ?case
    by (subst early_page_loop.simps) (auto simp: page_found_def word_le_nat_alt unat_next_page)
next
  case (Suc i)
  have "p + 4096 + of_nat (4096 * i) \<notin> set taken"
    using Suc.prems by (simp add: algebra_simps)
  from Suc.IH [OF this] obtain r where r: "early_page_loop taken e (p + 4096) = Some r"
    "\<forall>q. r = Some q \<longrightarrow> page_found taken e (p + 4096) q" by blast
  show ?case
  proof (cases "p + 4096 \<le> e")
    case True
    then have "page_found taken e p q" if "page_found taken e (p + 4096) q" for q
      using that by (auto simp: page_found_def word_le_nat_alt unat_next_page dvd_unat_next_page)
    moreover have "page_found taken e p p" if "p \<notin> set taken"
      using that True by (auto simp: page_found_def word_le_nat_alt unat_next_page)
    ultimately show ?thesis using r True by (subst early_page_loop.simps) auto
  qed (subst early_page_loop.simps, simp)
qed

text \<open>The taken pages are few, so the walk meets a free one or the end of the region.\<close>

lemma early_page_loop_returns:
  assumes "length taken < 1048576"
  shows "\<exists>r. early_page_loop taken e p = Some r \<and> (\<forall>q. r = Some q \<longrightarrow> page_found taken e p q)"
proof -
  let ?f = "\<lambda>i. p + of_nat (4096 * i) :: u32"
  have "inj_on ?f {0..length taken}"
    by (rule inj_onI) (rule page_offset_inj, use assms in auto)
  then have "card (?f ` {0..length taken}) = length taken + 1" by (simp add: card_image)
  moreover have "card (set taken) < length taken + 1" using card_length [of taken] by simp
  ultimately have "\<not> ?f ` {0..length taken} \<subseteq> set taken"
    using card_mono [of "set taken" "?f ` {0..length taken}"] by auto
  then obtain i where "?f i \<notin> set taken" by blast
  then show ?thesis by (rule early_page_loop_untaken)
qed

section \<open>Reserving a page\<close>

text \<open>The record of reserved pages is an array of ten, of which the first ones count.\<close>

definition reserved_ok :: "early_state \<Rightarrow> bool" where
  "reserved_ok s \<longleftrightarrow> length (early_reserved s) = 10 \<and> early_reserved_count s \<le> 10"

text \<open>The regions the boot loader calls available end below the last two 32-bit pages.\<close>

definition map_below_top :: "multiboot_info_t \<Rightarrow> bool" where
  "map_below_top mb \<longleftrightarrow> (\<forall>mm\<in>set (mb_mmap mb). mm_type mm = MULTIBOOT_MEMORY_AVAILABLE \<longrightarrow>
     unat (mm_addr mm) + unat (mm_len mm) \<le> 4294959104)"

lemma early_map_loop_returns:
  assumes "length taken < 1048576"
  shows "\<exists>r. early_map_loop taken es = Some r \<and>
    (\<forall>q. r = Some q \<longrightarrow> (\<exists>mm\<in>set es. mm_type mm = MULTIBOOT_MEMORY_AVAILABLE \<and>
        page_found taken (early_region_end mm) (early_region_start mm) q))"
proof (induction es)
  case (Cons mm es)
  from early_page_loop_returns [OF assms, of "early_region_end mm" "early_region_start mm"] obtain r where
    "early_page_loop taken (early_region_end mm) (early_region_start mm) = Some r"
    "\<forall>q. r = Some q \<longrightarrow> page_found taken (early_region_end mm) (early_region_start mm) q" by blast
  with Cons show ?case by (cases r) auto
qed simp

lemma unat_align_up:
  assumes "unat x + 4095 < 4294967296"
  shows "unat (align_up x PAGE_SIZE) = 4096 * ((unat x + 4095) div 4096)"
proof -
  have u: "unat (x + 4095) = unat x + 4095" using assms by (subst unat_plus_u32) simp_all
  have "align_up x PAGE_SIZE = (x + 4095) AND NOT (mask 12)" by (simp add: align_up_def mask_eq_exp_minus_1)
  also have "\<dots> = push_bit 12 (drop_bit 12 (x + 4095))" by (rule bit_word_eqI) (auto simp: bit_simps)
  also have "drop_bit 12 (x + 4095) = of_nat ((unat x + 4095) div 4096)"
    unfolding word_unat_eq_iff unat_drop_bit_eq u using assms
    by (simp add: drop_bit_eq_div unat_of_nat_u32)
  finally have "align_up x PAGE_SIZE = of_nat (4096 * ((unat x + 4095) div 4096))"
    by (simp add: push_bit_eq_mult)
  moreover have "4096 * ((unat x + 4095) div 4096) < 4294967296"
    using assms by (metis le_less_trans mult.commute div_times_less_eq_dividend)
  ultimately show ?thesis by (metis unat_of_nat_u32)
qed

lemma early_zero_page_simps [simp]:
  "early (early_zero_page p s) = early s"
  "early_reserved (early_zero_page p s) = early_reserved s"
  "early_reserved_count (early_zero_page p s) = early_reserved_count s"
  "early_mb_info (early_zero_page p s) = early_mb_info s"
  "early_head (early_zero_page p s) = early_head s"
  by (simp_all add: early_zero_page_def)

lemma early_taken_zero_page [simp]: "early_taken (early_zero_page p s) = early_taken s"
  by (simp add: early_taken_def)

lemma early_taken_push:
  fixes p :: u32
  assumes "reserved_ok s" and "early_reserved_count s < 10"
  defines "s' \<equiv> s\<lparr>early_reserved := (early_reserved s)[unat (early_reserved_count s) := p],
                 early_reserved_count := early_reserved_count s + 1\<rparr>"
  shows "reserved_ok s' \<and> early_taken s' = early_taken s @ [p]"
proof -
  have n: "unat (early_reserved_count s) < 10" using assms(2) by (simp add: word_less_nat_alt)
  then have "unat (early_reserved_count s + 1) = unat (early_reserved_count s) + 1"
    by (subst unat_plus_u32) simp_all
  with n assms(1) show ?thesis
    by (auto simp: reserved_ok_def early_taken_def s'_def word_le_nat_alt take_Suc_conv_app_nth)
qed

section \<open>Building the pool\<close>

text \<open>The first \<open>k\<close> pages from \<open>b\<close> on.\<close>

abbreviation early_pages :: "nat \<Rightarrow> nat \<Rightarrow> u32 list" where
  "early_pages b k \<equiv> map (\<lambda>i. of_nat (b + 4096 * i)) [0..<k]"

lemma early_page_loop_next:
  "j \<le> k \<Longrightarrow> b + 4096 * k + 4096 \<le> unat e \<Longrightarrow>
   early_page_loop (early_pages b k) e (of_nat (b + 4096 * j)) = Some (Some (of_nat (b + 4096 * k)))"
proof (induction "k - j" arbitrary: j)
  case 0
  then have j: "j = k" by simp
  have lt: "b + 4096 * k + 4096 < 4294967296" using 0(3) unat_less_2p32 [of e] by linarith
  have "(of_nat (b + 4096 * k) :: u32) \<notin> set (early_pages b k)"
    using lt by (auto simp del: of_nat_add)
  moreover have "of_nat (b + 4096 * k) + 4096 \<le> e"
    using 0(3) lt unat_of_nat_u32 [of "b + 4096 * k + 4096"] by (simp add: word_le_nat_alt)
  ultimately show ?case unfolding j by (subst early_page_loop.simps) (simp del: of_nat_add set_map set_upt)
next
  case (Suc d)
  have lt: "b + 4096 * k + 4096 < 4294967296" using Suc(4) unat_less_2p32 [of e] by linarith
  have j: "j < k" using Suc(2) by linarith
  have "of_nat (b + 4096 * j) + 4096 = (of_nat (b + 4096 * Suc j) :: u32)" by simp
  moreover have "of_nat (b + 4096 * Suc j) \<le> e"
    using Suc(4) j lt unat_of_nat_u32 [of "b + 4096 * Suc j"] by (simp add: word_le_nat_alt del: of_nat_add)
  moreover have "(of_nat (b + 4096 * j) :: u32) \<in> set (early_pages b k)" using j by auto
  ultimately have "early_page_loop (early_pages b k) e (of_nat (b + 4096 * j))
      = early_page_loop (early_pages b k) e (of_nat (b + 4096 * Suc j))"
    by (subst early_page_loop.simps) (simp only: if_True)
  also have "\<dots> = Some (Some (of_nat (b + 4096 * k)))"
    by (rule Suc(1)) (use Suc j in simp_all)
  finally show ?case .
qed

lemma early_map_loop_filter:
  "early_map_loop taken (filter (\<lambda>mm. mm_type mm = MULTIBOOT_MEMORY_AVAILABLE) es) = early_map_loop taken es"
  by (induction es) (auto split: bind_splits option.splits)

text \<open>\<open>k\<close> pages have been reserved, all from the start of the first available region.\<close>

definition reserving :: "nat \<Rightarrow> nat \<Rightarrow> early_state \<Rightarrow> bool" where
  "reserving b k s \<longleftrightarrow> reserved_ok s \<and> unat (early_reserved_count s) = k \<and> early_taken s = early_pages b k"

lemma early_reserve_next:
  assumes r: "reserving b k s" and k: "k < 10" and mb: "early_mb_info s = Some mb"
    and first: "filter (\<lambda>mm. mm_type mm = MULTIBOOT_MEMORY_AVAILABLE) (mb_mmap mb) = mm # es"
    and b: "unat (early_region_start mm) = b" and room: "b + 40960 \<le> unat (early_region_end mm)"
  shows "\<exists>s'. early_reserve_page s = Some (of_nat (b + 4096 * k), s') \<and> reserving b (Suc k) s' \<and>
           early s' = early s \<and> early_mb_info s' = Some mb"
proof -
  let ?p = "of_nat (b + 4096 * k) :: u32"
  let ?s = "s\<lparr>early_reserved := (early_reserved s)[unat (early_reserved_count s) := ?p],
                 early_reserved_count := early_reserved_count s + 1\<rparr>"
  have avail: "mm_type mm = MULTIBOOT_MEMORY_AVAILABLE" using arg_cong [OF first, of set] by auto
  have st: "early_region_start mm = of_nat (b + 4096 * 0)" by (simp add: b [symmetric])
  have room': "b + 4096 * k + 4096 \<le> unat (early_region_end mm)" using room k by simp
  have "early_page_loop (early_pages b k) (early_region_end mm) (early_region_start mm) = Some (Some ?p)"
    unfolding st by (rule early_page_loop_next [OF _ room']) simp
  then have "early_map_loop (early_taken s) (mb_mmap mb) = Some (Some ?p)"
    using r avail by (subst early_map_loop_filter [symmetric]) (simp add: first reserving_def)
  moreover have c: "early_reserved_count s < 10" using r k by (simp add: reserving_def word_less_nat_alt)
  ultimately have e: "early_reserve_page s = Some (?p, early_zero_page ?p ?s)"
    using mb by (auto simp: early_reserve_page_def EARLY_PAGES_TOTAL_def)
  have "unat (early_reserved_count s + 1) = Suc k"
    using r k by (subst unat_plus_u32) (simp_all add: reserving_def)
  moreover have "reserved_ok ?s" "early_taken ?s = early_taken s @ [?p]"
    using early_taken_push [of s ?p] r c by (simp_all add: reserving_def)
  ultimately have "reserving b (Suc k) (early_zero_page ?p ?s)"
    using r by (simp add: reserving_def reserved_ok_def)
  then show ?thesis using e mb by auto
qed

lemma early_pool_loop_pages:
  assumes "reserving b (Suc i) s" and "i \<le> 9" and "early_mb_info s = Some mb"
    and "filter (\<lambda>mm. mm_type mm = MULTIBOOT_MEMORY_AVAILABLE) (mb_mmap mb) = mm # es"
    and "unat (early_region_start mm) = b" and "b + 40960 \<le> unat (early_region_end mm)"
  shows "\<exists>s'. early_pool_loop i first s = Some (if i = 0 then of_nat (b + 4096) else first, s') \<and>
           reserving b 10 s' \<and> early s' = early s \<and> early_mb_info s' = Some mb"
  using assms(1-3)
proof (induction "9 - i" arbitrary: i s first)
  case 0
  then have i: "i = 9" by simp
  with 0(2) have "reserving b 10 s" by simp
  with 0(4) i show ?case by (subst early_pool_loop.simps) (simp add: EARLY_POOL_PAGES_def)
next
  case (Suc d)
  then have i: "i < 9" by simp
  from early_reserve_next [OF Suc(3) _ Suc(5) assms(4-6)] i obtain s' where
    s': "early_reserve_page s = Some (of_nat (b + 4096 * Suc i), s')" "reserving b (Suc (Suc i)) s'"
      "early s' = early s" "early_mb_info s' = Some mb" by auto
  have "d = 9 - Suc i" "Suc i \<le> 9" using Suc(2) i by simp_all
  from Suc(1) [OF this(1) s'(2) this(2) s'(4), of "if i = 0 then of_nat (b + 4096 * Suc i) else first"]
  obtain s'' where "early_pool_loop (Suc i) (if i = 0 then of_nat (b + 4096 * Suc i) else first) s' =
      Some (if i = 0 then of_nat (b + 4096 * Suc i) else first, s'')"
    "reserving b 10 s''" "early s'' = early s'" "early_mb_info s'' = Some mb" by auto
  with s' i show ?case
    by (subst early_pool_loop.simps) (auto simp: EARLY_POOL_PAGES_def simp del: of_nat_add)
qed

lemma early_allocator_init_pool:
  assumes fresh: "\<not> ei_initialized (early s)" "reserving b 0 s" and mb: "early_mb_info s = Some mb"
    and first: "filter (\<lambda>mm. mm_type mm = MULTIBOOT_MEMORY_AVAILABLE) (mb_mmap mb) = mm # es"
    and b: "unat (early_region_start mm) = b" and room: "b + 40960 \<le> unat (early_region_end mm)"
  shows "\<exists>s'. early_allocator_init s = Some s' \<and> early_pool s' (b + 4096) [(36848, True)] \<and>
           reserving b 10 s' \<and> ei_pool_base (early s') = of_nat (b + 4096)"
proof -
  from early_reserve_next [OF fresh(2) _ mb first b room] obtain s1 where
    s1: "early_reserve_page s = Some (of_nat b, s1)" "reserving b 1 s1" "early s1 = early s"
      "early_mb_info s1 = Some mb" by auto
  from early_pool_loop_pages [of b 0 s1 mb mm es 0, OF _ _ s1(4) first b room] s1(2) obtain s2 where
    s2: "early_pool_loop 0 0 s1 = Some (of_nat (b + 4096), s2)" "reserving b 10 s2" "early s2 = early s1" by auto
  have "b + 40960 < 4294967296" using room unat_less_2p32 [of "early_region_end mm"] by linarith
  with s1 s2 fresh(1) show ?thesis
    by (auto simp: early_allocator_init_def early_pool_def reserving_def reserved_ok_def early_taken_def
      EARLY_POOL_PAGES_def CHUNK_HEADER_SIZE_def simp del: of_nat_add)
qed

section \<open>Giving the pages back\<close>

lemma early_index_SomeD: "early_index p xs = Some i \<Longrightarrow> i < length xs \<and> xs ! i = p"
  by (induction xs arbitrary: i) (auto split: if_splits)

lemma early_index_None: "early_index p xs = None \<longleftrightarrow> p \<notin> set xs"
  by (induction xs) auto

text \<open>Swapping the last element down removes one element.\<close>

lemma mset_swap_last:
  assumes "i < length xs"
  shows "mset (butlast (xs[i := last xs])) = mset xs - {#xs ! i#}"
proof (cases xs rule: rev_cases)
  case (snoc ys y)
  with assms show ?thesis by (cases "i = length ys") (auto simp: butlast_list_update mset_update nth_append)
qed (use assms in simp)

lemma early_release_page_removes:
  assumes ok: "reserved_ok s" and p: "p \<noteq> 0"
  shows "reserved_ok (early_release_page p s) \<and>
         mset (early_taken (early_release_page p s)) = mset (early_taken s) - {#p#}"
proof (cases "early_index p (early_taken s)")
  case None
  then have "p \<notin> set (early_taken s)" by (simp add: early_index_None)
  with p ok None show ?thesis by (simp add: early_release_page_def)
next
  case (Some i)
  let ?n = "unat (early_reserved_count s)"
  from Some have i: "i < length (early_taken s)" "early_taken s ! i = p" using early_index_SomeD by blast+
  have n: "?n \<le> 10" "length (early_taken s) = ?n" "0 < ?n"
    using ok i(1) by (simp_all add: reserved_ok_def early_taken_def word_le_nat_alt)
  have n1: "unat (early_reserved_count s - 1) = ?n - 1"
    using n(3) by (subst unat_minus_u32) (simp_all add: word_le_nat_alt)
  have last: "last (early_taken s) = early_reserved s ! (?n - 1)"
    using n ok by (subst last_conv_nth) (auto simp: early_taken_def reserved_ok_def)
  have "early_taken (early_release_page p s) = butlast ((early_taken s)[i := last (early_taken s)])"
    using p Some n n1 last ok
    by (simp add: early_release_page_def early_taken_def butlast_conv_take take_update_swap reserved_ok_def min_def)
  moreover have "reserved_ok (early_release_page p s)"
    using p Some ok n n1 by (simp add: early_release_page_def reserved_ok_def word_le_nat_alt)
  ultimately show ?thesis using mset_swap_last [OF i(1)] i(2) by simp
qed

lemma early_destroy_loop_removes:
  assumes "reserved_ok s" and "\<And>i. i < n \<Longrightarrow> p + of_nat (4096 * i) \<noteq> 0" and "n \<le> 9"
  shows "reserved_ok (early_destroy_loop (9 - n) p s) \<and>
    mset (early_taken (early_destroy_loop (9 - n) p s)) =
      mset (early_taken s) - mset (map (\<lambda>i. p + of_nat (4096 * i)) [0..<n]) \<and>
    early_head (early_destroy_loop (9 - n) p s) = early_head s"
  using assms
proof (induction n arbitrary: p s)
  case 0
  then show ?case by (subst (1 2 3) early_destroy_loop.simps) (simp add: EARLY_POOL_PAGES_def)
next
  case (Suc n)
  let ?s = "early_release_page p (early_zero_page p s)"
  have p: "p \<noteq> 0" using Suc.prems(2) [of 0] by simp
  have ok: "reserved_ok (early_zero_page p s)" using Suc.prems(1) by (simp add: reserved_ok_def)
  have s: "reserved_ok ?s" "mset (early_taken ?s) = mset (early_taken s) - {#p#}"
    using early_release_page_removes [OF ok p] by simp_all
  have hd: "early_head ?s = early_head s"
    by (simp add: early_release_page_def split: option.split)
  have "Suc (8 - n) = 9 - n" "8 - n < 9" using Suc.prems(3) by simp_all
  then have step: "early_destroy_loop (9 - Suc n) p s = early_destroy_loop (9 - n) (p + 4096) ?s"
    by (subst early_destroy_loop.simps) (simp add: EARLY_POOL_PAGES_def)
  have "p + 4096 + of_nat (4096 * i) \<noteq> 0" if "i < n" for i
    using Suc.prems(2) [of "Suc i"] that by (simp add: algebra_simps)
  note IH = Suc.IH [OF s(1) this]
  have "map (\<lambda>i. p + of_nat (4096 * i)) [0..<Suc n] = p # map (\<lambda>i. p + 4096 + of_nat (4096 * i)) [0..<n]"
    by (simp add: upt_conv_Cons map_Suc_upt [symmetric] algebra_simps del: upt_Suc)
  with IH Suc.prems(3) s hd show ?case
    unfolding step by (simp add: diff_diff_add_mset ac_simps)
qed

lemma early_pages_shift: "map (\<lambda>i. of_nat (b + 4096) + of_nat (4096 * i)) [0..<k] = tl (early_pages b (Suc k))"
  by (simp add: upt_conv_Cons map_Suc_upt [symmetric] algebra_simps del: upt_Suc)

lemma early_allocator_destroy_taken:
  assumes r: "reserving b 10 s" and i: "ei_initialized (early s)" "ei_pool_base (early s) = of_nat (b + 4096)"
    and b: "b + 40960 < 4294967296"
  shows "early_taken (early_allocator_destroy s) = [of_nat b] \<and> \<not> ei_initialized (early (early_allocator_destroy s))"
proof -
  let ?s = "s\<lparr>early := (early s)\<lparr>ei_bitmap := map (\<lambda>b. 0) (ei_bitmap (early s))\<rparr>\<rparr>"
  let ?d = "early_destroy_loop 0 (of_nat (b + 4096)) ?s"
  have "early_taken ?s = early_taken s" by (simp add: early_taken_def)
  with r have ok: "reserved_ok ?s" "early_taken ?s = early_pages b 10"
    by (simp_all add: reserving_def reserved_ok_def)
  have nz: "(of_nat (b + 4096) + of_nat (4096 * i) :: u32) \<noteq> 0" if "i < 9" for i
  proof -
    have "b + 4096 + 4096 * i < 4294967296" using that b by simp
    then have "(of_nat (b + 4096 + 4096 * i) :: u32) \<noteq> 0" by (subst of_nat_u32_eq_0) simp_all
    then show ?thesis by simp
  qed
  have "mset (early_taken ?d) = mset (early_taken ?s) - mset (tl (early_pages b (Suc 9)))"
    using early_destroy_loop_removes [OF ok(1) nz, of 9] unfolding early_pages_shift by simp
  also have "\<dots> = mset (early_pages b 10) - mset (tl (early_pages b 10))"
    unfolding ok(2) by simp
  also have "early_pages b 10 = of_nat b # tl (early_pages b 10)"
    by (simp add: upt_conv_Cons)
  finally have "mset (early_taken ?d) = {#of_nat b#}" by simp
  moreover have "early_allocator_destroy s = (let t = ?d in t\<lparr>early := (early t)\<lparr>ei_pool_base := 0,
      ei_blocks_total := 0, ei_blocks_free := 0, ei_initialized := False\<rparr>\<rparr>)"
    using i by (simp add: early_allocator_destroy_def Let_def)
  ultimately show ?thesis by (simp add: Let_def early_taken_def)
qed

section \<open>Without a memory map\<close>

lemma early_reserve_page_no_map: "early_mb_info s = None \<Longrightarrow> early_reserve_page s = Some (0, s)"
  by (simp add: early_reserve_page_def)

lemma early_pool_loop_no_map: "early_mb_info s = None \<Longrightarrow> early_pool_loop i 0 s = Some (0, s)"
proof (induction "9 - i" arbitrary: i)
  case 0
  then show ?case by (subst early_pool_loop.simps) (simp add: EARLY_POOL_PAGES_def)
next
  case (Suc d)
  from Suc(1) [of "Suc i"] Suc(2,3) show ?case
    by (subst early_pool_loop.simps) (simp add: early_reserve_page_no_map)
qed

text \<open>The bytes the loop of \<open>early_allocator_destroy\<close> clears.\<close>

lemma page_window:
  fixes a p :: u32
  assumes "n \<le> 8"
  shows "a - p < of_nat (4096 * Suc n) \<longleftrightarrow> a - p < 4096 \<or> a - (p + 4096) < of_nat (4096 * n)"
proof -
  let ?d = "a - p"
  have u: "unat (of_nat (4096 * Suc n) :: u32) = 4096 * Suc n" "unat (of_nat (4096 * n) :: u32) = 4096 * n"
    using assms by (intro unat_of_nat_u32, simp)+
  have e: "a - (p + 4096) = ?d - 4096" by simp
  show ?thesis
  proof (cases "?d < 4096")
    case True
    then show ?thesis unfolding word_less_nat_alt u by simp
  next
    case False
    then have "unat (?d - 4096) = unat ?d - 4096" by (subst unat_minus_u32) simp_all
    with False show ?thesis unfolding e word_less_nat_alt u by auto
  qed
qed

lemma early_release_page_ram [simp]: "early_ram (early_release_page p s) = early_ram s"
  by (simp add: early_release_page_def split: option.split)

lemma early_destroy_loop_ram:
  "n \<le> 9 \<Longrightarrow> early_ram (early_destroy_loop (9 - n) p s) a =
     (if a - p < of_nat (4096 * n) then 0 else early_ram s a)"
proof (induction n arbitrary: p s)
  case 0
  then show ?case by (subst early_destroy_loop.simps) (simp add: EARLY_POOL_PAGES_def)
next
  case (Suc n)
  have "Suc (8 - n) = 9 - n" "8 - n < 9" using Suc.prems by simp_all
  then have "early_destroy_loop (9 - Suc n) p s
      = early_destroy_loop (9 - n) (p + 4096) (early_release_page p (early_zero_page p s))"
    by (subst early_destroy_loop.simps) (simp add: EARLY_POOL_PAGES_def)
  with Suc page_window [of n a p] show ?case
    by (auto simp: early_zero_page_def simp del: of_nat_mult of_nat_Suc)
qed

section \<open>The properties\<close>

text \<open>The headers of the chunks, from \<open>h\<close> along the links.\<close>

inductive on_chain :: "(u32 \<Rightarrow> early_chunk) \<Rightarrow> u32 \<Rightarrow> u32 \<Rightarrow> bool" for ch where
  here: "h \<noteq> 0 \<Longrightarrow> on_chain ch h h"
| further: "h \<noteq> 0 \<Longrightarrow> on_chain ch (ec_next (ch h)) c \<Longrightarrow> on_chain ch h c"

inductive_simps on_chain_null [simp]: "on_chain ch 0 c"

lemma on_chain_chunk:
  assumes "on_chain ch h c" "chunks_at ch p n cs" "cs \<noteq> []" "h = of_nat n" "n + extent cs < 4294967296"
  shows "\<exists>us k f vs. cs = us @ (k, f) # vs \<and> unat c = n + extent us \<and> ec_free (ch c) = f \<and> unat (ec_size (ch c)) = k"
  using assms
proof (induction arbitrary: p n cs)
  case (here h)
  then obtain k f vs where cs: "cs = (k, f) # vs" by (cases cs) auto
  with here show ?case by (intro exI [of _ "[]"]) (auto simp: unat_of_nat_u32)
next
  case (further h c)
  then obtain k f vs where cs: "cs = (k, f) # vs" by (cases cs) auto
  with further.prems have "vs \<noteq> []" and nx: "ec_next (ch h) = of_nat (n + 16 + k)"
    using further.hyps(2) by (auto split: if_splits)
  with further.IH [of "of_nat n" "n + 16 + k" vs] further.prems cs obtain us j g ws where
    "vs = us @ (j, g) # ws" "unat c = n + 16 + k + extent us" "ec_free (ch c) = g" "unat (ec_size (ch c)) = j"
    by auto
  with cs show ?case by (intro exI [of _ "(k, f) # us"]) auto
qed

text \<open>A block in use keeps clear of every header and, if that chunk is free, of the bytes of the chunk.\<close>

lemma used_clear:
  assumes "(a, j) \<in> used n (us @ (k, f) # vs)"
  shows "a + j \<le> n + extent us \<or> n + extent us + 16 + (if f then k else 0) \<le> a"
  using assms used_bounds [of a j n us] used_bounds [of a j "n + extent us + 16 + k" vs] by (auto split: if_splits)

text \<open>C27: The early allocator as its callers see it. Start from a pool of one free chunk; whatever
  sequence of requests and returns follows, the blocks that are out lie inside the pool, no two of
  them overlap, none of them overlaps the header of a chunk on the list (from \<open>head\<close> along \<open>next\<close>) or, where
  that chunk is free, any of its bytes, and once every block has been returned the pool is a single free chunk of the
  original size again.
\<close>

theorem early_client_exclusive:
  assumes pool: "early_pool s0 n [(m, True)]" and run: "early_reach s0 s live"
  shows "(\<forall>(a, k)\<in>live. n + 16 \<le> a \<and> a + k \<le> n + 16 + m) \<and>
    (\<forall>(a, k)\<in>live. \<forall>(b, j)\<in>live. (a, k) = (b, j) \<or> a + k < b \<or> b + j < a) \<and>
    (\<forall>(a, k)\<in>live. \<forall>c. on_chain (chunk_at s) (early_head s) c \<longrightarrow> a + k \<le> unat c \<or>
       unat c + 16 + (if ec_free (chunk_at s c) then unat (ec_size (chunk_at s c)) else 0) \<le> a) \<and>
    (live = {} \<longrightarrow> early_pool s n [(m, True)])"
proof -
  from early_reach_invariant [OF run pool] obtain cs where
    cs: "early_pool s n cs" "extent cs = 16 + m" "held live (used n cs)" by blast
  have room: "\<exists>j\<ge>k. (a, j) \<in> used n cs" if "(a, k) \<in> live" for a k
    using cs(3) that by (auto simp: held_def)
  have inside: "n + 16 \<le> a \<and> a + k \<le> n + 16 + m" if "(a, k) \<in> live" for a k
    using room [OF that] used_bounds [of a _ n cs] cs(2) by fastforce
  have apart: "(a, k) = (b, j) \<or> a + k < b \<or> b + j < a" if "(a, k) \<in> live" "(b, j) \<in> live" for a k b j
  proof -
    have "a \<noteq> b" if "(a, k) \<noteq> (b, j)"
      using that \<open>(a, k) \<in> live\<close> \<open>(b, j) \<in> live\<close> cs(3) inj_onD [of fst live "(a, k)" "(b, j)"]
      by (auto simp: held_def)
    with room [OF that(1)] room [OF that(2)] show ?thesis
      using used_disjoint [of a _ n cs b] by fastforce
  qed
  have clear: "a + k \<le> unat c \<or>
       unat c + 16 + (if ec_free (chunk_at s c) then unat (ec_size (chunk_at s c)) else 0) \<le> a"
    if "(a, k) \<in> live" "on_chain (chunk_at s) (early_head s) c" for a k c
  proof -
    have h: "chunks_at (chunk_at s) 0 n cs" "cs \<noteq> []" "early_head s = of_nat n" "n + extent cs < 4294967296"
      using cs(1) by (simp_all add: early_pool_def)
    from room [OF that(1)] obtain j where j: "k \<le> j" "(a, j) \<in> used n cs" by blast
    from on_chain_chunk [OF that(2) h] obtain us sz f vs where
      c: "cs = us @ (sz, f) # vs" "unat c = n + extent us" "ec_free (chunk_at s c) = f" "unat (ec_size (chunk_at s c)) = sz" by blast
    have "a + j \<le> n + extent us \<or> n + extent us + 16 + (if f then sz else 0) \<le> a"
      using j(2) unfolding c(1) by (rule used_clear)
    then show ?thesis unfolding c(2-4) using j(1) by linarith
  qed
  have whole: "early_pool s n [(m, True)]" if "live = {}"
  proof -
    have "used n cs = {}" using cs(3) that by (auto simp: held_def)
    with coalesced_all_free [of cs n] cs(1,2) have "cs = [(m, True)]" by (simp add: early_pool_def)
    with cs(1) show ?thesis by simp
  qed
  show ?thesis
  proof (intro conjI ballI impI)
    fix x assume "x \<in> live"
    then show "case x of (a, k) \<Rightarrow> n + 16 \<le> a \<and> a + k \<le> n + 16 + m" using inside by (cases x) simp
  next
    fix x assume "x \<in> live"
    then show "case x of (a, k) \<Rightarrow> \<forall>(b, j)\<in>live. (a, k) = (b, j) \<or> a + k < b \<or> b + j < a"
      using apart by (cases x) (auto simp del: prod.inject)
  next
    fix x assume "x \<in> live"
    then show "case x of (a, k) \<Rightarrow> \<forall>c. on_chain (chunk_at s) (early_head s) c \<longrightarrow> a + k \<le> unat c \<or>
        unat c + 16 + (if ec_free (chunk_at s c) then unat (ec_size (chunk_at s c)) else 0) \<le> a"
      using clear by (cases x) simp
  next
    assume "live = {}"
    then show "early_pool s n [(m, True)]" by (rule whole)
  qed
qed

text \<open>A machine with one available region, and the allocator told of it.\<close>

definition demo_early :: early_state where
  "demo_early = early_bootstrap
     (Some \<lparr>mb_flags = 0x40, mb_mods = [], mb_mmap_addr = 0, mb_mmap_length = 24,
            mb_mmap = [\<lparr>mm_size = 20, mm_addr = 0x100000, mm_len = 0x100000, mm_type = 1\<rparr>]\<rparr>)
     (early_boot (\<lambda>a. 0) (\<lambda>a. \<lparr>ec_size = 0, ec_free = False, ec_next = 0, ec_prev = 0\<rparr>))"

lemma demo_early_pool:
  "\<exists>s. early_allocator_init demo_early = Some s \<and> early_pool s 1052672 [(36848, True)]"
proof -
  let ?mm = "\<lparr>mm_size = 20, mm_addr = 0x100000, mm_len = 0x100000, mm_type = 1\<rparr>"
  let ?mb = "\<lparr>mb_flags = 0x40, mb_mods = [], mb_mmap_addr = 0, mb_mmap_length = 24, mb_mmap = [?mm]\<rparr>"
  have start: "unat (early_region_start ?mm) = 1048576"
    unfolding early_region_start_def by (subst unat_align_up) simp_all
  have "early_region_end ?mm = 0x200000" by (simp add: early_region_end_def)
  then have room: "1048576 + 40960 \<le> unat (early_region_end ?mm)" by simp
  have "reserving 1048576 0 demo_early"
    by (simp add: reserving_def reserved_ok_def early_taken_def demo_early_def early_bootstrap_def early_boot_def)
  moreover have "\<not> ei_initialized (early demo_early)"
    by (simp add: demo_early_def early_bootstrap_def early_boot_def)
  moreover have "early_mb_info demo_early = Some ?mb"
    by (simp add: demo_early_def early_bootstrap_def)
  moreover have "filter (\<lambda>mm. mm_type mm = MULTIBOOT_MEMORY_AVAILABLE) (mb_mmap ?mb) = ?mm # []"
    by (simp add: MULTIBOOT_MEMORY_AVAILABLE_def)
  ultimately show ?thesis using early_allocator_init_pool [OF _ _ _ _ start room] by fastforce
qed

theorem early_client_exclusive_witness:
  "\<exists>s0 s. early_allocator_init demo_early = Some s0 \<and> early_reach s0 s {(1052688, 100)} \<and>
     (1052688::nat) + 100 \<le> 1052672 + 16 + 36848"
proof -
  from demo_early_pool obtain s0 where s0: "early_allocator_init demo_early = Some s0"
    "early_pool s0 1052672 [(36848, True)]" by blast
  from early_alloc_pool [OF s0(2), of 100] obtain s where "early_alloc 100 s0 = Some (1052688, s)" by auto
  from early_reach.served [OF early_reach.start this] have r: "early_reach s0 s {(1052688, 100)}" by simp
  from early_client_exclusive [OF s0(2) r] s0(1) r show ?thesis by auto
qed

text \<open>
  The pages of the memory that the boot loader calls available, region after region in the order of the map and
  upwards in each: the addresses that are multiples of 4096 and whose page lies inside the region.
\<close>

definition region_pages :: "multiboot_memory_map_t \<Rightarrow> u32 list" where
  "region_pages mm = map (\<lambda>i. of_nat (4096 * i))
     [(unat (mm_addr mm) + 4095) div 4096 ..< (unat (mm_addr mm) + unat (mm_len mm)) div 4096]"

definition available_pages :: "early_state \<Rightarrow> u32 list" where
  "available_pages s = (case early_mb_info s of
     None \<Rightarrow> [] | Some mb \<Rightarrow> concat (map region_pages (filter (\<lambda>mm. mm_type mm = MULTIBOOT_MEMORY_AVAILABLE) (mb_mmap mb))))"

lemma unat_page_number:
  assumes "4096 * i \<le> 4294959104"
  shows "unat (of_nat (4096 * i) + 4096 :: u32) = 4096 * i + 4096"
proof -
  have "unat (of_nat (4096 * i) :: u32) = 4096 * i" by (rule unat_of_nat_u32) (use assms in simp)
  with assms unat_next_page [of "of_nat (4096 * i)"] show ?thesis by (simp only:)
qed

lemma early_page_loop_find:
  assumes "unat e \<le> 4294959104"
  shows "4096 * i \<le> 4294959104 \<Longrightarrow> early_page_loop taken e (of_nat (4096 * i)) =
    Some (find (\<lambda>p. p \<notin> set taken) (map (\<lambda>i. of_nat (4096 * i)) [i..<unat e div 4096]))"
proof (induction "unat e div 4096 - i" arbitrary: i)
  case 0
  have "unat (of_nat (4096 * i) + 4096 :: u32) = 4096 * i + 4096"
    using 0(2) by (rule unat_page_number)
  moreover have "unat e < 4096 * i + 4096" using 0(1) div_less_iff_less_mult [of 4096 "unat e" "Suc i"] by simp
  ultimately have "\<not> of_nat (4096 * i) + 4096 \<le> e" by (simp add: word_le_nat_alt)
  then show ?case using 0(1) by (subst early_page_loop.simps) simp
next
  case (Suc d)
  have i: "i < unat e div 4096" using Suc(2) by linarith
  then have le: "4096 * i + 4096 \<le> unat e" using less_eq_div_iff_mult_less_eq [of 4096 "Suc i" "unat e"] by simp
  have nx: "of_nat (4096 * i) + 4096 = (of_nat (4096 * Suc i) :: u32)" by simp
  have "unat (of_nat (4096 * i) + 4096 :: u32) = 4096 * i + 4096"
    using Suc(3) by (rule unat_page_number)
  with le have "of_nat (4096 * i) + 4096 \<le> e" by (simp add: word_le_nat_alt)
  then show ?case using Suc(1) [of "Suc i"] Suc(2) i le assms unfolding upt_conv_Cons [OF i]
    by (subst early_page_loop.simps) (simp add: nx del: of_nat_mult of_nat_Suc)
qed

lemma early_region_find:
  assumes "unat (mm_addr mm) + unat (mm_len mm) \<le> 4294959104"
  shows "early_page_loop taken (early_region_end mm) (early_region_start mm) = Some (find (\<lambda>p. p \<notin> set taken) (region_pages mm))"
proof -
  let ?a = "unat (mm_addr mm)" and ?l = "unat (mm_len mm)"
  have u: "unat (ucast (mm_addr mm) :: u32) = ?a" "unat (ucast (mm_len mm) :: u32) = ?l"
    using assms by (simp_all add: unsigned_ucast_eq take_bit_nat_eq_self)
  have e: "unat (early_region_end mm) = ?a + ?l"
    unfolding early_region_end_def using assms by (subst unat_plus_u32) (simp_all add: u)
  have "unat (early_region_start mm) = 4096 * ((?a + 4095) div 4096)"
    unfolding early_region_start_def using assms by (subst unat_align_up) (simp_all add: u)
  then have st: "early_region_start mm = of_nat (4096 * ((?a + 4095) div 4096))" by (metis of_nat_unat ucast_id unsigned_ucast_eq)
  have "(?a + 4095) div 4096 < 1048575" using assms by (intro less_mult_imp_div_less) simp
  then show ?thesis unfolding st using early_page_loop_find [of "early_region_end mm" "(?a + 4095) div 4096"] e assms
    by (simp add: region_pages_def del: of_nat_mult)
qed

lemma find_append: "find Q (xs @ ys) = (case find Q xs of None \<Rightarrow> find Q ys | Some x \<Rightarrow> Some x)"
  by (induction xs) simp_all

lemma early_map_loop_find:
  "(\<forall>mm\<in>set es. mm_type mm = MULTIBOOT_MEMORY_AVAILABLE \<longrightarrow> unat (mm_addr mm) + unat (mm_len mm) \<le> 4294959104) \<Longrightarrow>
   early_map_loop taken es = Some (find (\<lambda>p. p \<notin> set taken)
     (concat (map region_pages (filter (\<lambda>mm. mm_type mm = MULTIBOOT_MEMORY_AVAILABLE) es))))"
  by (induction es) (simp_all add: early_region_find find_append split: option.split)

text \<open>C28: Reserving a page always returns. While fewer than ten pages are reserved, it returns the first page of available
  memory, in the order of the map, that is not reserved, and that page is zeroed and recorded; if there is none, or
  ten pages are reserved, it returns the null pointer and nothing changes. (A map whose available memory starts
  at address 0 has the null pointer as its first page. The map is assumed to describe memory below the last two pages of
  the 32-bit address space: the code drops the upper halves of the 64-bit addresses.)
\<close>

theorem early_reserve_page_correct:
  assumes ok: "reserved_ok s" and low: "\<And>mb. early_mb_info s = Some mb \<Longrightarrow> map_below_top mb"
  shows "\<exists>p s'. early_reserve_page s = Some (p, s') \<and> reserved_ok s' \<and>
    (case if length (early_taken s) < 10 then find (\<lambda>p. p \<notin> set (early_taken s)) (available_pages s) else None of
       None \<Rightarrow> p = 0 \<and> s' = s
     | Some q \<Rightarrow> p = q \<and> early_taken s' = early_taken s @ [p] \<and>
         (\<forall>a. early_ram s' a = (if a - p < PAGE_SIZE then 0 else early_ram s a)))"
proof (cases "early_mb_info s")
  case None
  then show ?thesis using ok by (simp add: early_reserve_page_def available_pages_def)
next
  case (Some mb)
  have n: "length (early_taken s) < 10 \<longleftrightarrow> early_reserved_count s < 10"
    using ok by (auto simp: early_taken_def reserved_ok_def word_less_nat_alt word_le_nat_alt)
  show ?thesis
  proof (cases "early_reserved_count s < 10")
    case False
    with n Some ok show ?thesis by (simp add: early_reserve_page_def EARLY_PAGES_TOTAL_def not_less)
  next
    case True
    have "early_map_loop (early_taken s) (mb_mmap mb) = Some (find (\<lambda>p. p \<notin> set (early_taken s)) (available_pages s))"
      using early_map_loop_find [of "mb_mmap mb"] low [OF Some] Some by (simp add: map_below_top_def available_pages_def)
    then show ?thesis using True n Some ok early_taken_push [OF ok True]
      by (auto simp: early_reserve_page_def EARLY_PAGES_TOTAL_def early_zero_page_def early_taken_def reserved_ok_def split: option.split)
  qed
qed

theorem early_reserve_page_correct_witness:
  "\<exists>s'. early_reserve_page demo_early = Some (0x100000, s') \<and> early_taken s' = [0x100000]"
proof -
  have ok: "reserved_ok demo_early" "early_taken demo_early = []"
    by (simp_all add: reserved_ok_def demo_early_def early_bootstrap_def early_boot_def early_taken_def)
  have mb: "early_mb_info demo_early = Some \<lparr>mb_flags = 0x40, mb_mods = [], mb_mmap_addr = 0, mb_mmap_length = 24,
      mb_mmap = [\<lparr>mm_size = 20, mm_addr = 0x100000, mm_len = 0x100000, mm_type = 1\<rparr>]\<rparr>"
    by (simp add: demo_early_def early_bootstrap_def)
  have "\<exists>ps. available_pages demo_early = 0x100000 # ps"
    by (simp add: available_pages_def mb region_pages_def upt_conv_Cons MULTIBOOT_MEMORY_AVAILABLE_def)
  then show ?thesis using early_reserve_page_correct [OF ok(1)] ok(2) by (auto simp: mb map_below_top_def)
qed

text \<open>\<open>init_stage_early\<close> sets the allocator up before it hands it the memory map. So no page is
  reserved, the pool is based at the null pointer and its chunk list is empty: every request is
  refused for ever, and tearing the allocator down zeroes the first nine pages of physical memory,
  the real-mode interrupt vectors among them.
\<close>

theorem early_boot_order:
  "\<exists>s. init_stage_early_mem mb (early_boot ram ch) = Some s \<and>
     ei_initialized (early s) \<and> early_reserved_count s = 0 \<and> early_head s = 0 \<and>
     early_alloc k s = Some (0, s) \<and>
     early_ram (early_allocator_destroy s) a = (if a < 36864 then 0 else ram a)"
proof -
  let ?b = "early_boot ram ch"
  have none: "early_mb_info ?b = None" by (simp add: early_boot_def)
  have "early_allocator_init ?b = Some (?b\<lparr>early := (early ?b)\<lparr>ei_pool_base := 0, ei_initialized := True\<rparr>,
      early_head := 0, chunk_at := (chunk_at ?b)(0 := \<lparr>ec_size = 36848, ec_free = True, ec_next = 0, ec_prev = 0\<rparr>)\<rparr>)"
    using none by (simp add: early_allocator_init_def early_reserve_page_no_map early_pool_loop_no_map
      EARLY_POOL_PAGES_def CHUNK_HEADER_SIZE_def) (simp add: early_boot_def)
  moreover have "early_ram (early_destroy_loop 0 0 s) a = (if a < 36864 then 0 else early_ram s a)" for s
    using early_destroy_loop_ram [of 9 0 s a] by simp
  ultimately show ?thesis
    by (simp add: init_stage_early_mem_def early_bootstrap_def early_alloc_def early_alloc_loop.simps
      early_allocator_destroy_def Let_def early_boot_def)
qed

end
