(* ===== verification/Printf.thy ===== *)
theory Printf
  imports StrProps
begin

text \<open>
  The formatted output of lib/str.c: \<open>flopvsnprintf\<close> and \<open>flopsnprintf\<close> over byte memory. The
  variable arguments are the list of the 32-bit words on the stack; taking one more than there are
  has no defined value. Each conversion of a number has a scratch array on the stack; the address the
  compiler gives it is the parameter \<open>temp\<close>. \<open>lim\<close> is \<open>size - 1\<close>, which wraps for a size of 0.
\<close>

section \<open>The pieces of a conversion\<close>

text \<open>The loop that writes at most \<open>n\<close> spaces, while there is room.\<close>

fun fmt_pad :: "mem \<Rightarrow> u32 \<Rightarrow> u32 \<Rightarrow> u32 \<Rightarrow> nat \<Rightarrow> mem \<times> u32" where
  "fmt_pad m buffer lim pos 0 = (m, pos)"
| "fmt_pad m buffer lim pos (Suc n) =
     (if pos < lim then fmt_pad (m(buffer + pos := 32)) buffer lim (pos + 1) n else (m, pos))"

text \<open>The loop that copies at most \<open>n\<close> characters, while there is room.\<close>

fun fmt_copy :: "mem \<Rightarrow> u32 \<Rightarrow> u32 \<Rightarrow> u32 \<Rightarrow> u32 \<Rightarrow> nat \<Rightarrow> mem \<times> u32" where
  "fmt_copy m buffer lim pos src 0 = (m, pos)"
| "fmt_copy m buffer lim pos src (Suc n) =
     (if pos < lim then fmt_copy (m(buffer + pos := m src)) buffer lim (pos + 1) (src + 1) n
      else (m, pos))"

text \<open>
  Padding before or after the \<open>n\<close> characters at \<open>src\<close>; \<open>width\<close> and \<open>len\<close>, the number that is compared with
  it, are an \<open>int\<close>.
\<close>

definition fmt_field :: "mem \<Rightarrow> u32 \<Rightarrow> u32 \<Rightarrow> u32 \<Rightarrow> bool \<Rightarrow> s32 \<Rightarrow> u32 \<Rightarrow> int \<Rightarrow> nat \<Rightarrow> mem \<times> u32" where
  "fmt_field m buffer lim pos left_align width src len n =
     (let padding = (if sint width > len then nat (sint width - len) else 0);
          (m, pos) = (if left_align then (m, pos) else fmt_pad m buffer lim pos padding);
          (m, pos) = fmt_copy m buffer lim pos src n
      in if left_align then fmt_pad m buffer lim pos padding else (m, pos))"

text \<open>A character is written whether there is room or not.\<close>

definition fmt_char :: "mem \<Rightarrow> u32 \<Rightarrow> u32 \<Rightarrow> u32 \<Rightarrow> bool \<Rightarrow> s32 \<Rightarrow> u8 \<Rightarrow> mem \<times> u32" where
  "fmt_char m buffer lim pos left_align width ch =
     (let padding = (if sint width > 1 then nat (sint width - 1) else 0);
          (m, pos) = (if left_align then (m, pos) else fmt_pad m buffer lim pos padding);
          (m, pos) = (m(buffer + pos := ch), pos + 1)
      in if left_align then fmt_pad m buffer lim pos padding else (m, pos))"

partial_function (option) fmt_width_loop :: "mem \<Rightarrow> u32 \<Rightarrow> s32 \<Rightarrow> (s32 \<times> u32) option" where
  "fmt_width_loop m ptr width =
     (if digit_char (m ptr) then fmt_width_loop m (ptr + 1) (width * 10 + (ucast (m ptr) - 48))
      else Some (width, ptr))"

fun va_arg :: "u32 list \<Rightarrow> (u32 \<times> u32 list) option" where
  "va_arg [] = None"
| "va_arg (x # args) = Some (x, args)"

section \<open>The conversions\<close>

text \<open>One turn of the \<open>switch\<close>, for the conversion character at \<open>ptr\<close>.\<close>

definition fmt_switch ::
  "u32 \<Rightarrow> mem \<Rightarrow> u32 \<Rightarrow> u32 \<Rightarrow> u32 \<Rightarrow> bool \<Rightarrow> s32 \<Rightarrow> u8 \<Rightarrow> u32 list \<Rightarrow> (mem \<times> u32 \<times> u32 list) option" where
  "fmt_switch temp m buffer lim pos left_align width conv args =
     (if conv = 100 \<or> conv = 117 then do {
        (num, args) \<leftarrow> va_arg args;
        (m, len) \<leftarrow> flopitoa m num temp 0;
        let (m, pos) = fmt_field m buffer lim pos left_align width temp len (nat len);
        Some (m, pos, args)
      } else if conv = 120 \<or> conv = 88 \<or> conv = 112 then do {
        (num, args) \<leftarrow> va_arg args;
        (m, len) \<leftarrow> flopitoa_hex m num temp (sint width) (conv = 88);
        let (m, pos) = fmt_field m buffer lim pos left_align width temp len (nat len);
        Some (m, pos, args)
      } else if conv = 115 then do {
        (str, args) \<leftarrow> va_arg args;
        len \<leftarrow> flopstrlen m str;
        let (m, pos) = fmt_field m buffer lim pos left_align width str (sint len) (unat len);
        Some (m, pos, args)
      } else if conv = 99 then do {
        (ch, args) \<leftarrow> va_arg args;
        let (m, pos) = fmt_char m buffer lim pos left_align width (ucast ch);
        Some (m, pos, args)
      } else if conv = 37 then Some (m(buffer + pos := 37), pos + 1, args)
      else Some (m(buffer + pos := 37, buffer + (pos + 1) := conv), pos + 2, args))"

partial_function (option) fmt_loop ::
  "u32 \<Rightarrow> mem \<Rightarrow> u32 \<Rightarrow> u32 \<Rightarrow> u32 \<Rightarrow> u32 \<Rightarrow> u32 list \<Rightarrow> (mem \<times> u32) option" where
  "fmt_loop temp m buffer lim ptr pos args =
     (if m ptr \<noteq> 0 \<and> pos < lim then
        if m ptr = 37 \<and> m (ptr + 1) \<noteq> 0 then do {
          let left_align = (m (ptr + 1) = 45);
          let ptr = (if left_align then ptr + 2 else ptr + 1);
          (width, ptr) \<leftarrow> fmt_width_loop m ptr 0;
          (m, pos, args) \<leftarrow> fmt_switch temp m buffer lim pos left_align width (m ptr) args;
          fmt_loop temp m buffer lim (ptr + 1) pos args
        }
        else fmt_loop temp (m(buffer + pos := m ptr)) buffer lim (ptr + 1) (pos + 1) args
      else Some (m(buffer + pos := 0), pos))"

definition flopvsnprintf :: "u32 \<Rightarrow> mem \<Rightarrow> u32 \<Rightarrow> u32 \<Rightarrow> u32 \<Rightarrow> u32 list \<Rightarrow> (mem \<times> u32) option" where
  "flopvsnprintf temp m buffer sz format args = fmt_loop temp m buffer (sz - 1) format 0 args"

definition flopsnprintf :: "u32 \<Rightarrow> mem \<Rightarrow> u32 \<Rightarrow> u32 \<Rightarrow> u32 \<Rightarrow> u32 list \<Rightarrow> (mem \<times> u32) option" where
  "flopsnprintf temp m buffer sz format args = flopvsnprintf temp m buffer sz format args"

end
