(* ===== verification/PrintfProps.thy ===== *)
theory PrintfProps
  imports Printf
begin

text \<open>
  What \<open>flopvsnprintf\<close> prints: a format is a list of directives, each with a text and its arguments, and
  the output is what a reference function renders, cut to the size of the buffer. Two conversions
  escape this: a character that is padded on the left, and an unknown conversion, are written past
  the limit.
\<close>

section \<open>Regions of memory\<close>

definition region :: "u32 \<Rightarrow> nat \<Rightarrow> u32 set" where
  "region a n = {a + of_nat i | i. i < n}"

lemma in_region: "i < n \<Longrightarrow> a + of_nat i \<in> region a n"
  by (auto simp: region_def)

lemma put_bytes_outside: "x \<notin> region a n \<Longrightarrow> length bs \<le> n \<Longrightarrow> put_bytes m a bs x = m x"
  by (rule put_bytes_other) (auto simp: region_def)

section \<open>What has been printed so far\<close>

text \<open>
  Since the memory \<open>m0\<close> nothing has changed but the \<open>cap\<close> bytes of the buffer and the bytes in \<open>T\<close>,
  and the buffer begins with \<open>out\<close>, which leaves room for the terminator.
\<close>

definition printed :: "u32 set \<Rightarrow> u32 \<Rightarrow> nat \<Rightarrow> mem \<Rightarrow> mem \<Rightarrow> u8 list \<Rightarrow> bool" where
  "printed T buffer cap m0 m out \<longleftrightarrow>
     (\<forall>x. x \<notin> region buffer cap \<union> T \<longrightarrow> m x = m0 x) \<and>
     (\<forall>i<length out. m (buffer + of_nat i) = out ! i) \<and> length out < cap"

lemma take_take_append: "take n (take n xs @ ys) = take n (xs @ ys)"
  by (cases "length xs \<le> n") simp_all

lemma printed_take: "printed T buffer cap m0 m out \<Longrightarrow> take (cap - 1) out = out"
  by (auto simp: printed_def)

lemma printed_start: "printed T buffer cap m0 m out \<Longrightarrow> printed {} buffer cap m m out"
  by (simp add: printed_def)

lemma printed_trans:
  "printed T buffer cap m0 m out \<Longrightarrow> printed {} buffer cap m m' out' \<Longrightarrow> printed T buffer cap m0 m' out'"
  by (simp add: printed_def)

lemma printed_char:
  assumes p: "printed T buffer cap m0 m out" and room: "length out + 1 < cap" and cap: "cap < 4294967296"
  shows "printed T buffer cap m0 (m(buffer + of_nat (length out) := c)) (out @ [c])"
proof -
  have "buffer + of_nat (length out) \<in> region buffer cap" using room by (intro in_region) simp
  moreover have "buffer + of_nat i \<noteq> buffer + (of_nat (length out) :: u32)" if "i < length out" for i
    using addr_shift_neq [OF that] room cap by simp
  ultimately show ?thesis using p room by (auto simp: printed_def nth_append less_Suc_eq)
qed

lemma printed_scratch:
  assumes p: "printed T buffer cap m0 m out" and dis: "region buffer cap \<inter> region temp 12 = {}"
    and len: "length bs \<le> 12" and T: "region temp 12 \<subseteq> T"
  shows "printed T buffer cap m0 (put_bytes m temp bs) out"
proof -
  have "put_bytes m temp bs (buffer + of_nat i) = m (buffer + of_nat i)" if "i < length out" for i
    using in_region [of i cap buffer] that p dis len by (intro put_bytes_outside [of _ _ 12]) (auto simp: printed_def)
  moreover have "put_bytes m temp bs x = m0 x" if "x \<notin> region buffer cap \<union> T" for x
  proof -
    from that T have "x \<notin> region temp 12" by blast
    then have "put_bytes m temp bs x = m x" using len by (rule put_bytes_outside)
    with p that show ?thesis by (simp add: printed_def)
  qed
  ultimately show ?thesis using p by (simp add: printed_def)
qed

text \<open>The position and the limit as words.\<close>

lemma pos_less_lim:
  "cap < 4294967296 \<Longrightarrow> 0 < cap \<Longrightarrow> n < cap \<Longrightarrow> (of_nat n :: u32) < of_nat (cap - 1) \<longleftrightarrow> n + 1 < cap"
  using unat_of_nat_u32 [of n] unat_of_nat_u32 [of "cap - 1"] by (auto simp: word_less_nat_alt)

lemma fmt_pad_printed:
  assumes "printed T buffer cap m0 m out" and "cap < 4294967296"
  shows "\<exists>m'. fmt_pad m buffer (of_nat (cap - 1)) (of_nat (length out)) n =
            (m', of_nat (length (take (cap - 1) (out @ replicate n 32)))) \<and>
          printed T buffer cap m0 m' (take (cap - 1) (out @ replicate n 32))"
  using assms(1)
proof (induction n arbitrary: m out)
  case 0
  then show ?case by (simp add: printed_take [simplified])
next
  case (Suc n)
  have lt: "length out < cap" using Suc.prems by (simp add: printed_def)
  have w: "(of_nat (length out) :: u32) < of_nat (cap - 1) \<longleftrightarrow> length out + 1 < cap"
    by (rule pos_less_lim) (use assms(2) lt in simp_all)
  show ?case
  proof (cases "length out + 1 < cap")
    case True
    let ?m = "m(buffer + of_nat (length out) := 32)"
    have "fmt_pad m buffer (of_nat (cap - 1)) (of_nat (length out)) (Suc n)
        = fmt_pad ?m buffer (of_nat (cap - 1)) (of_nat (length (out @ [32]))) n"
      using True w by (simp add: add.commute)
    moreover have "out @ replicate (Suc n) 32 = (out @ [32]) @ replicate n 32" by simp
    ultimately show ?thesis using Suc.IH [OF printed_char [OF Suc.prems True assms(2), of 32]] by (simp only:)
  next
    case False
    with lt have "cap - 1 = length out" by simp
    with False w Suc.prems show ?thesis by simp
  qed
qed

lemma fmt_copy_printed:
  assumes "printed T buffer cap m0 m out" and "cap < 4294967296"
    and "\<forall>i<length s. m (src + of_nat i) = s ! i" and "region src (length s) \<inter> region buffer cap = {}"
  shows "\<exists>m'. fmt_copy m buffer (of_nat (cap - 1)) (of_nat (length out)) src (length s) =
            (m', of_nat (length (take (cap - 1) (out @ s)))) \<and>
          printed T buffer cap m0 m' (take (cap - 1) (out @ s))"
  using assms(1,3,4)
proof (induction s arbitrary: m out src)
  case Nil
  then show ?case by (simp add: printed_take [simplified])
next
  case (Cons c s)
  have lt: "length out < cap" using Cons.prems by (simp add: printed_def)
  have w: "(of_nat (length out) :: u32) < of_nat (cap - 1) \<longleftrightarrow> length out + 1 < cap"
    by (rule pos_less_lim) (use assms(2) lt in simp_all)
  show ?case
  proof (cases "length out + 1 < cap")
    case True
    have c: "m src = c" using Cons.prems(2) by (auto dest: spec [of _ 0])
    let ?m = "m(buffer + of_nat (length out) := c)"
    have sub: "region (src + 1) (length s) \<subseteq> region src (length (c # s))"
    proof
      fix x assume "x \<in> region (src + 1) (length s)"
      then obtain i where i: "i < length s" "x = src + 1 + of_nat i" by (auto simp: region_def)
      then have "x = src + of_nat (Suc i)" by (simp add: add.assoc)
      with i(1) show "x \<in> region src (length (c # s))" using in_region [of "Suc i" "length (c # s)" src] by simp
    qed
    have "buffer + of_nat (length out) \<in> region buffer cap" using lt by (rule in_region)
    then have out: "x \<noteq> buffer + of_nat (length out)" if "x \<in> region (src + 1) (length s)" for x
      using that sub Cons.prems(3) by blast
    have rd: "\<forall>i<length s. ?m (src + 1 + of_nat i) = s ! i"
    proof (intro allI impI)
      fix i assume i: "i < length s"
      have "m (src + of_nat (Suc i)) = (c # s) ! Suc i" using Cons.prems(2) i by (metis Suc_less_eq length_Cons)
      with out [OF in_region [OF i]] show "?m (src + 1 + of_nat i) = s ! i" by (simp add: add.assoc)
    qed
    have "region (src + 1) (length s) \<inter> region buffer cap = {}" using sub Cons.prems(3) by blast
    note IH = Cons.IH [OF printed_char [OF Cons.prems(1) True assms(2), of c], of "src + 1", OF _ this]
    have "fmt_copy m buffer (of_nat (cap - 1)) (of_nat (length out)) src (length (c # s))
        = fmt_copy ?m buffer (of_nat (cap - 1)) (of_nat (length (out @ [c]))) (src + 1) (length s)"
      using True w c by (simp add: add.commute)
    moreover have "out @ c # s = (out @ [c]) @ s" by simp
    ultimately show ?thesis using IH rd by (simp only:)
  next
    case False
    with lt have "cap - 1 = length out" by simp
    with False w Cons.prems show ?thesis by simp
  qed
qed

text \<open>A field: the text, padded on one side.\<close>

definition field :: "bool \<Rightarrow> nat \<Rightarrow> u8 list \<Rightarrow> u8 list" where
  "field left w s = (if left then s @ replicate (w - length s) 32 else replicate (w - length s) 32 @ s)"

lemma fmt_field_printed:
  assumes p: "printed T buffer cap m0 m out" and cap: "cap < 4294967296"
    and s: "\<forall>i<length s. m (src + of_nat i) = s ! i" "region src (length s) \<inter> region buffer cap = {}"
    and w: "sint width = int w"
  shows "\<exists>m'. fmt_field m buffer (of_nat (cap - 1)) (of_nat (length out)) left width src (int (length s)) (length s) =
            (m', of_nat (length (take (cap - 1) (out @ field left w s)))) \<and>
          printed T buffer cap m0 m' (take (cap - 1) (out @ field left w s))"
proof -
  let ?L = "cap - 1" and ?n = "w - length s"
  have pad: "(if sint width > int (length s) then nat (sint width - int (length s)) else 0) = ?n"
    unfolding w by (simp add: nat_diff_distrib)
  show ?thesis
  proof (cases left)
    case True
    from fmt_copy_printed [OF printed_start [OF p] cap s] obtain m1 where
      m1: "fmt_copy m buffer (of_nat ?L) (of_nat (length out)) src (length s) = (m1, of_nat (length (take ?L (out @ s))))"
      "printed {} buffer cap m m1 (take ?L (out @ s))" by blast
    from fmt_pad_printed [OF printed_trans [OF p m1(2)] cap, of ?n] m1(1) True show ?thesis
      unfolding fmt_field_def pad Let_def by (simp add: field_def take_take_append del: take_append)
  next
    case False
    from fmt_pad_printed [OF printed_start [OF p] cap, of ?n] obtain m1 where
      m1: "fmt_pad m buffer (of_nat ?L) (of_nat (length out)) ?n = (m1, of_nat (length (take ?L (out @ replicate ?n 32))))"
      "printed {} buffer cap m m1 (take ?L (out @ replicate ?n 32))" by blast
    have "m1 (src + of_nat i) = s ! i" if "i < length s" for i
      using m1(2) s that in_region [OF that, of src] by (auto simp: printed_def)
    with fmt_copy_printed [OF printed_trans [OF p m1(2)] cap _ s(2)] m1(1) False show ?thesis
      unfolding fmt_field_def pad Let_def by (simp add: field_def take_take_append del: take_append)
  qed
qed

section \<open>Directives\<close>

text \<open>The digits of a width in the format; no digits stand for a width of 0.\<close>

definition width_text :: "nat \<Rightarrow> u8 list" where
  "width_text w = map dec_char (rev (digits 10 w))"

lemma fmt_width_loop_digits:
  "(\<forall>i<length ds. m (a + of_nat i) = dec_char (ds ! i)) \<Longrightarrow> \<forall>d\<in>set ds. d < 10 \<Longrightarrow>
   \<not> digit_char (m (a + of_nat (length ds))) \<Longrightarrow>
   fmt_width_loop m a r = Some (accumulate r ds, a + of_nat (length ds))"
proof (induction ds arbitrary: a r)
  case Nil
  then show ?case by (subst fmt_width_loop.simps) (simp add: accumulate_def)
next
  case (Cons d ds)
  have d: "d < 10" and md: "m a = dec_char d" using Cons.prems by (auto dest: spec [of _ 0])
  have rest: "m (a + 1 + of_nat i) = dec_char (ds ! i)" if "i < length ds" for i
    using Cons.prems(1) [rule_format, of "Suc i"] that by (simp add: add.assoc)
  have "fmt_width_loop m a r = fmt_width_loop m (a + 1) (r * 10 + of_nat d)"
    by (subst fmt_width_loop.simps) (simp add: md dec_char_props [OF d])
  also have "\<dots> = Some (accumulate (r * 10 + of_nat d) ds, a + 1 + of_nat (length ds))"
    by (rule Cons.IH) (use rest Cons.prems in \<open>simp_all add: add.assoc\<close>)
  finally show ?case by (simp add: accumulate_def add.assoc)
qed

lemma accumulate_width: "accumulate 0 (rev (digits 10 w)) = of_nat w"
  using accumulate_digits [of w] by (cases "w = 0") (simp_all add: accumulate_def)

text \<open>A conversion: flag, width and the character that selects it.\<close>

definition conv_text :: "bool \<Rightarrow> nat \<Rightarrow> u8 \<Rightarrow> u8 list" where
  "conv_text left w c = 37 # (if left then [45] else []) @ width_text w @ [c]"

lemma digit_char_simps [simp]: "\<not> digit_char 45" "\<not> digit_char 37"
  by (simp_all add: digit_char_def)

lemma width_text_props: "c \<in> set (width_text w) \<Longrightarrow> digit_char c \<and> c \<noteq> 0 \<and> c \<noteq> 45"
  using digits_less [of 10 _ w] dec_char_props by (auto simp: width_text_def)

lemma conv_text_no_zero: "c \<noteq> 0 \<Longrightarrow> 0 \<notin> set (conv_text left w c)"
  using width_text_props by (fastforce simp: conv_text_def)

lemma fmt_loop_conv:
  assumes f: "cstr m ptr (conv_text left w c @ rest)" and c: "\<not> digit_char c" "c \<noteq> 45" and pos: "pos < lim"
  shows "fmt_loop temp m buffer lim ptr pos args = do {
           (m, pos, args) \<leftarrow> fmt_switch temp m buffer lim pos left (of_nat w) c args;
           fmt_loop temp m buffer lim (ptr + of_nat (length (conv_text left w c))) pos args
         }"
proof -
  let ?ds = "rev (digits 10 w)" and ?p = "if left then ptr + 2 else ptr + 1"
  have f1: "m ptr = 37" and f2: "cstr m (ptr + 1) ((if left then [45] else []) @ width_text w @ [c] @ rest)"
    using f by (simp_all add: conv_text_def)
  have f3: "cstr m ?p (width_text w @ [c] @ rest)" using f2 by (cases left) (simp_all add: add.assoc)
  have flag: "m (ptr + 1) = 45 \<longleftrightarrow> left" "m (ptr + 1) \<noteq> 0"
  proof -
    have "m (ptr + 1) \<noteq> 45 \<and> m (ptr + 1) \<noteq> 0" if "\<not> left"
    proof (cases "width_text w")
      case Nil
      with that f3 c show ?thesis by simp
    next
      case (Cons x xs)
      with that f3 width_text_props [of x w] show ?thesis by simp
    qed
    with f2 show "m (ptr + 1) = 45 \<longleftrightarrow> left" "m (ptr + 1) \<noteq> 0" by (auto split: if_splits)
  qed
  have "\<forall>i<length ?ds. m (?p + of_nat i) = dec_char (?ds ! i)"
    and end_char: "m (?p + of_nat (length ?ds)) = c"
    using f3 unfolding cstr_append by (auto simp: width_text_def)
  moreover have "\<forall>d\<in>set ?ds. d < 10" using digits_less [of 10 _ w] by simp
  ultimately have width: "fmt_width_loop m ?p 0 = Some (of_nat w, ?p + of_nat (length ?ds))"
    using fmt_width_loop_digits [of ?ds m ?p 0] c(1) by (simp add: accumulate_width)
  have len: "?p + of_nat (length ?ds) + 1 = ptr + of_nat (length (conv_text left w c))"
    by (simp add: conv_text_def width_text_def)
  have "fmt_loop temp m buffer lim ptr pos args = do {
           (m, pos, args) \<leftarrow> fmt_switch temp m buffer lim pos left (of_nat w) c args;
           fmt_loop temp m buffer lim (?p + of_nat (length ?ds) + 1) pos args
         }"
    by (subst fmt_loop.simps) (use f1 flag pos width end_char in \<open>simp add: Let_def\<close>)
  then show ?thesis unfolding len .
qed

lemma fmt_loop_lit:
  "m ptr = c \<Longrightarrow> c \<noteq> 0 \<Longrightarrow> c \<noteq> 37 \<Longrightarrow> pos < lim \<Longrightarrow>
   fmt_loop temp m buffer lim ptr pos args = fmt_loop temp (m(buffer + pos := c)) buffer lim (ptr + 1) (pos + 1) args"
  by (subst fmt_loop.simps) simp

lemma fmt_loop_end:
  "m ptr = 0 \<or> \<not> pos < lim \<Longrightarrow> fmt_loop temp m buffer lim ptr pos args = Some (m(buffer + pos := 0), pos)"
  by (subst fmt_loop.simps) auto

text \<open>
  The directives of a format with their arguments: a character, \<open>%%\<close>, a number (\<open>%u\<close> or \<open>%d\<close>, which
  print alike), a hexadecimal number (\<open>%x\<close>, \<open>%X\<close> or \<open>%p\<close>), a string at an address, a character
  argument.
\<close>

datatype directive =
    Lit u8
  | Percent
  | Num bool bool nat u32
  | Hex u8 bool nat u32
  | Str bool nat u32 "u8 list"
  | Chr bool nat u8

primrec dir_text :: "directive \<Rightarrow> u8 list" where
  "dir_text (Lit c) = [c]"
| "dir_text Percent = [37, 37]"
| "dir_text (Num uns left w v) = conv_text left w (if uns then 117 else 100)"
| "dir_text (Hex conv left w v) = conv_text left w conv"
| "dir_text (Str left w a s) = conv_text left w 115"
| "dir_text (Chr left w c) = conv_text left w 99"

primrec dir_args :: "directive \<Rightarrow> u32 list" where
  "dir_args (Lit c) = []"
| "dir_args Percent = []"
| "dir_args (Num uns left w v) = [v]"
| "dir_args (Hex conv left w v) = [v]"
| "dir_args (Str left w a s) = [a]"
| "dir_args (Chr left w c) = [ucast c]"

definition hex_text :: "bool \<Rightarrow> nat \<Rightarrow> u32 \<Rightarrow> u8 list" where
  "hex_text upper w v =
     (let ds = map (hex_digit upper) (rev (digits 16 (unat v))) in replicate (w - length ds) 48 @ ds)"

primrec render :: "directive \<Rightarrow> u8 list" where
  "render (Lit c) = [c]"
| "render Percent = [37]"
| "render (Num uns left w v) = field left w (int_text v)"
| "render (Hex conv left w v) = hex_text (conv = 88) w v"
| "render (Str left w a s) = field left w s"
| "render (Chr left w c) = field left w [c]"

text \<open>
  What the directives have to satisfy in a memory whose bytes in \<open>W\<close> will be overwritten. The limits on
  hexadecimal numbers are those of the code: for 0 it prints a byte that it has not written, and a width above 9 overflows
  the array of \<open>flopitoa_hex\<close>.
\<close>

primrec dir_ok :: "mem \<Rightarrow> u32 set \<Rightarrow> directive \<Rightarrow> bool" where
  "dir_ok m W (Lit c) \<longleftrightarrow> c \<noteq> 0 \<and> c \<noteq> 37"
| "dir_ok m W Percent \<longleftrightarrow> True"
| "dir_ok m W (Num uns left w v) \<longleftrightarrow> w < 2147483648"
| "dir_ok m W (Hex conv left w v) \<longleftrightarrow> conv \<in> {120, 88, 112} \<and> v \<noteq> 0 \<and> w \<le> 9"
| "dir_ok m W (Str left w a s) \<longleftrightarrow> w < 2147483648 \<and> length s < 2147483648 \<and> cstr m a s \<and>
     region a (length s + 1) \<inter> W = {}"
| "dir_ok m W (Chr left w c) \<longleftrightarrow> w < 2147483648 \<and> c \<noteq> 0"

text \<open>A character with blanks on its left is written without regard to the size.\<close>

primrec chr_right :: "directive \<Rightarrow> bool" where
  "chr_right (Lit c) \<longleftrightarrow> False"
| "chr_right Percent \<longleftrightarrow> False"
| "chr_right (Num uns left w v) \<longleftrightarrow> False"
| "chr_right (Hex conv left w v) \<longleftrightarrow> False"
| "chr_right (Str left w a s) \<longleftrightarrow> False"
| "chr_right (Chr left w c) \<longleftrightarrow> \<not> left \<and> 1 < w"

lemma sint_of_nat_u32: "w < 2147483648 \<Longrightarrow> sint (of_nat w :: s32) = int w"
proof -
  assume w: "w < 2147483648"
  have "uint (of_nat w :: s32) = int w" using w unat_of_nat_u32 [of w] by (simp add: uint_nat)
  moreover have "int w < 2147483648" "- 2147483648 \<le> int w" using w by linarith+
  ultimately show ?thesis unfolding sint_uint by (simp add: signed_take_bit_int_eq_self)
qed

lemma length_hex_digits: "length (digits 16 (unat (v :: u32))) \<le> 8"
  using length_digits [of 16 "unat v" 8] unat_less_2p32 [of v] by simp

lemma flopitoa_hex_puts:
  assumes "v \<noteq> 0" and "w \<le> 9"
  shows "flopitoa_hex m v buf (int w) upper =
           Some (put_bytes m buf (hex_text upper w v @ [0]), int (length (hex_text upper w v)))"
    and "w \<le> length (hex_text upper w v)" and "length (hex_text upper w v) \<le> 9"
proof -
  have l: "length (digits 16 (unat v)) \<le> 8" by (rule length_hex_digits)
  have "nat (int w - int (length (digits 16 (unat v)))) = w - length (digits 16 (unat v))" by simp
  with l assms show "flopitoa_hex m v buf (int w) upper =
           Some (put_bytes m buf (hex_text upper w v @ [0]), int (length (hex_text upper w v)))"
    by (simp add: flopitoa_hex_def hex_text_def Let_def rev_map)
  show "w \<le> length (hex_text upper w v)" "length (hex_text upper w v) \<le> 9"
    using l assms(2) by (simp_all add: hex_text_def Let_def)
qed

text \<open>A number that has been printed into the scratch array, and the field made of it.\<close>

lemma fmt_scratch_field:
  assumes p: "printed (region temp 12) buffer cap m0 m out" and cap: "cap < 4294967296"
    and dis: "region buffer cap \<inter> region temp 12 = {}" and t: "length t \<le> 11" and w: "sint width = int w"
  shows "\<exists>m'. fmt_field (put_bytes m temp (t @ [0])) buffer (of_nat (cap - 1)) (of_nat (length out)) left width
              temp (int (length t)) (length t) =
            (m', of_nat (length (take (cap - 1) (out @ field left w t)))) \<and>
          printed (region temp 12) buffer cap m0 m' (take (cap - 1) (out @ field left w t))"
proof (rule fmt_field_printed [OF _ cap _ _ w])
  show "printed (region temp 12) buffer cap m0 (put_bytes m temp (t @ [0])) out"
    by (rule printed_scratch [OF p dis]) (use t in simp_all)
  show "\<forall>i<length t. put_bytes m temp (t @ [0]) (temp + of_nat i) = t ! i"
    using put_bytes_nth [of "t @ [0]" _ m temp] t by (simp add: nth_append)
  have "region temp (length t) \<subseteq> region temp 12" using t by (auto simp: region_def)
  with dis show "region temp (length t) \<inter> region buffer cap = {}" by blast
qed

lemma fmt_char_printed:
  assumes p: "printed T buffer cap m0 m out" and room: "length out + 1 < cap" and cap: "cap < 4294967296"
    and w: "sint width = int w" "left \<or> w \<le> 1 \<or> length out + w < cap"
  shows "\<exists>m'. fmt_char m buffer (of_nat (cap - 1)) (of_nat (length out)) left width c =
            (m', of_nat (length (take (cap - 1) (out @ field left w [c])))) \<and>
          printed T buffer cap m0 m' (take (cap - 1) (out @ field left w [c]))"
proof -
  have pad: "(if sint width > 1 then nat (sint width - 1) else 0) = w - 1"
    unfolding w(1) by (simp add: nat_diff_distrib)
  note q = printed_char [OF p room cap, of c]
  show ?thesis
  proof (cases left)
    case True
    from fmt_pad_printed [OF q cap, of "w - 1"] True show ?thesis
      unfolding fmt_char_def pad Let_def by (simp add: field_def add.commute)
  next
    case False
    let ?s = "replicate (w - 1) 32 :: u8 list"
    have fits: "length out + (w - 1) + 1 < cap" using w(2) False room by linarith
    then have t: "take (cap - 1) (out @ ?s) = out @ ?s" "take (cap - 1) (out @ ?s @ [c]) = out @ ?s @ [c]" by simp_all
    from fmt_pad_printed [OF p cap, of "w - 1"] obtain m1 where
      m1: "fmt_pad m buffer (of_nat (cap - 1)) (of_nat (length out)) (w - 1) = (m1, of_nat (length (out @ ?s)))"
      "printed T buffer cap m0 m1 (out @ ?s)" unfolding t by blast
    have "printed T buffer cap m0 (m1(buffer + of_nat (length (out @ ?s)) := c)) (out @ ?s @ [c])"
      using printed_char [OF m1(2) _ cap, of c] fits by simp
    moreover have "field left w [c] = ?s @ [c]" using False by (simp add: field_def)
    ultimately show ?thesis using False m1(1) t(2) unfolding fmt_char_def pad Let_def
      by (simp add: add.commute add.left_commute)
  qed
qed

text \<open>The branches of the switch.\<close>

lemma fmt_switch_branches:
  "fmt_switch temp m buffer lim pos left width 37 args = Some (m(buffer + pos := 37), pos + 1, args)"
  "conv \<in> {100, 117} \<Longrightarrow> fmt_switch temp m buffer lim pos left width conv (v # args) =
     (let (m, pos) = fmt_field (put_bytes m temp (int_text v @ [0])) buffer lim pos left width temp
                       (int (length (int_text v))) (length (int_text v))
      in Some (m, pos, args))"
  "conv \<in> {120, 88, 112} \<Longrightarrow> fmt_switch temp m buffer lim pos left width conv (v # args) = do {
        (m, len) \<leftarrow> flopitoa_hex m v temp (sint width) (conv = 88);
        let (m, pos) = fmt_field m buffer lim pos left width temp len (nat len);
        Some (m, pos, args)
      }"
  "fmt_switch temp m buffer lim pos left width 115 (v # args) = do {
        len \<leftarrow> flopstrlen m v;
        let (m, pos) = fmt_field m buffer lim pos left width v (sint len) (unat len);
        Some (m, pos, args)
      }"
  "fmt_switch temp m buffer lim pos left width 99 (v # args) =
     (let (m, pos) = fmt_char m buffer lim pos left width (ucast v) in Some (m, pos, args))"
  by (auto simp: fmt_switch_def flopitoa_puts)

lemma fmt_loop_step:
  assumes ok: "dir_ok m0 (region buffer cap \<union> region temp 12) d" and f: "cstr m ptr (dir_text d @ rest)"
    and p: "printed (region temp 12) buffer cap m0 m out" and room: "length out + 1 < cap" and cap: "cap < 4294967296"
    and dis: "region buffer cap \<inter> region temp 12 = {}" and fits: "chr_right d \<Longrightarrow> length out + length (render d) < cap"
  shows "\<exists>m'. fmt_loop temp m buffer (of_nat (cap - 1)) ptr (of_nat (length out)) (dir_args d @ args) =
           fmt_loop temp m' buffer (of_nat (cap - 1)) (ptr + of_nat (length (dir_text d)))
             (of_nat (length (take (cap - 1) (out @ render d)))) args \<and>
         printed (region temp 12) buffer cap m0 m' (take (cap - 1) (out @ render d))"
proof -
  have lt: "(of_nat (length out) :: u32) < of_nat (cap - 1)"
    using pos_less_lim [of cap "length out"] room cap by simp
  have conv: ?thesis if "dir_text d = conv_text left w c" "\<not> digit_char c" "c \<noteq> 45"
    "fmt_switch temp m buffer (of_nat (cap - 1)) (of_nat (length out)) left (of_nat w) c (dir_args d @ args) =
       Some (m', of_nat (length (take (cap - 1) (out @ render d))), args)"
    "printed (region temp 12) buffer cap m0 m' (take (cap - 1) (out @ render d))" for left w c m'
    using fmt_loop_conv [OF f [unfolded that(1)] that(2,3) lt, of temp buffer "dir_args d @ args"] that(1,4,5)
    by auto
  show ?thesis
  proof (cases d)
    case (Lit c)
    note q = printed_char [OF p room cap, of c]
    from q printed_take [OF q] show ?thesis
      using fmt_loop_lit [of m ptr c "of_nat (length out)" "of_nat (cap - 1)" temp buffer args] f ok Lit lt
      by (auto simp: add.commute)
  next
    case Percent
    note q = printed_char [OF p room cap, of 37]
    have "(37 :: u8) \<noteq> 45" by simp
    with q printed_take [OF q] Percent show ?thesis
      by (intro conv [where left = False and w = 0 and c = 37 and m' = "m(buffer + of_nat (length out) := 37)"])
         (simp_all add: fmt_switch_branches conv_text_def width_text_def add.commute)
  next
    case (Num uns left w v)
    have w: "sint (of_nat w :: s32) = int w" using ok Num by (intro sint_of_nat_u32) simp
    from fmt_scratch_field [OF p cap dis length_int_text(2) w, of v left] obtain m' where
      m': "fmt_field (put_bytes m temp (int_text v @ [0])) buffer (of_nat (cap - 1)) (of_nat (length out)) left
             (of_nat w) temp (int (length (int_text v))) (length (int_text v)) =
            (m', of_nat (length (take (cap - 1) (out @ field left w (int_text v)))))"
        "printed (region temp 12) buffer cap m0 m' (take (cap - 1) (out @ field left w (int_text v)))" by blast
    with Num show ?thesis
      by (intro conv [where left = left and w = w and c = "if uns then 117 else 100" and m' = m'])
         (auto simp: fmt_switch_branches digit_char_def)
  next
    case (Hex c left w v)
    let ?t = "hex_text (c = 88) w v"
    from ok Hex have v: "c \<in> {120, 88, 112}" "v \<noteq> 0" "w \<le> 9" by simp_all
    note h = flopitoa_hex_puts [OF v(2,3), where upper = "c = 88"]
    have w: "sint (of_nat w :: s32) = int w" using v(3) by (intro sint_of_nat_u32) simp
    have "length ?t \<le> 11" using h(3) by linarith
    moreover have "field left w ?t = ?t" using h(2) by (simp add: field_def)
    ultimately obtain m' where m': "fmt_field (put_bytes m temp (?t @ [0])) buffer (of_nat (cap - 1)) (of_nat (length out))
          left (of_nat w) temp (int (length ?t)) (length ?t) = (m', of_nat (length (take (cap - 1) (out @ ?t))))"
        "printed (region temp 12) buffer cap m0 m' (take (cap - 1) (out @ ?t))"
      using fmt_scratch_field [OF p cap dis _ w, of ?t left] by auto
    have "fmt_switch temp m buffer (of_nat (cap - 1)) (of_nat (length out)) left (of_nat w) c (v # args) =
        Some (m', of_nat (length (take (cap - 1) (out @ ?t))), args)"
      unfolding fmt_switch_branches(3) [OF v(1)] w h(1) [of m temp] using m'(1) by simp
    with v(1) m'(2) Hex show ?thesis by (intro conv [where left = left and w = w and c = c and m' = m']) (auto simp: digit_char_def)
  next
    case (Str left w a s)
    from ok Str have s: "w < 2147483648" "length s < 2147483648" "cstr m0 a s"
      "region a (length s + 1) \<inter> (region buffer cap \<union> region temp 12) = {}" by simp_all
    have w: "sint (of_nat w :: s32) = int w" using s(1) by (rule sint_of_nat_u32)
    have same: "m (a + of_nat i) = m0 (a + of_nat i)" if "i \<le> length s" for i
      using in_region [of i "length s + 1" a] that s(4) p by (auto simp: printed_def)
    have str: "cstr m a s" using s(3) cstr_cong [of s m a m0] same by simp
    then have chars: "\<forall>i<length s. m (a + of_nat i) = s ! i" by (simp add: cstr_iff)
    have "region a (length s) \<subseteq> region a (length s + 1)" by (auto simp: region_def)
    with s(4) have apart: "region a (length s) \<inter> region buffer cap = {}" by blast
    have "unat (of_nat (length s) :: u32) = length s" "sint (of_nat (length s) :: u32) = int (length s)"
      using s(2) by (intro unat_of_nat_u32 sint_of_nat_u32, simp)+
    note len = this
    from fmt_field_printed [OF p cap chars apart w, of left] obtain m' where
      "fmt_field m buffer (of_nat (cap - 1)) (of_nat (length out)) left (of_nat w) a (int (length s)) (length s) =
            (m', of_nat (length (take (cap - 1) (out @ field left w s))))"
      "printed (region temp 12) buffer cap m0 m' (take (cap - 1) (out @ field left w s))" by blast
    with len flopstrlen_cstr [OF str] Str show ?thesis
      by (intro conv [where left = left and w = w and c = 115 and m' = m']) (auto simp: fmt_switch_branches digit_char_def)
  next
    case (Chr left w c)
    have "length (field left w [c]) = w" if "1 < w" using that by (simp add: field_def)
    moreover have "length out + length (field left w [c]) < cap" if "\<not> left" "1 < w" using fits that Chr by simp
    ultimately have w: "w < 2147483648" "left \<or> w \<le> 1 \<or> length out + w < cap" using ok Chr by (simp, fastforce simp: not_le)
    from fmt_char_printed [OF p room cap sint_of_nat_u32 [OF w(1)] w(2), of c] obtain m' where
      "fmt_char m buffer (of_nat (cap - 1)) (of_nat (length out)) left (of_nat w) c =
            (m', of_nat (length (take (cap - 1) (out @ field left w [c]))))"
      "printed (region temp 12) buffer cap m0 m' (take (cap - 1) (out @ field left w [c]))" by blast
    moreover have "ucast (ucast c :: u32) = c" by (rule ucast_up_ucast_id) (simp add: is_up)
    ultimately show ?thesis using Chr
      by (intro conv [where left = left and w = w and c = 99 and m' = m']) (auto simp: fmt_switch_branches digit_char_def)
  qed
qed

section \<open>The whole format\<close>

abbreviation format_text :: "directive list \<Rightarrow> u8 list" where
  "format_text ds \<equiv> concat (map dir_text ds)"

abbreviation format_args :: "directive list \<Rightarrow> u32 list" where
  "format_args ds \<equiv> concat (map dir_args ds)"

abbreviation rendered :: "directive list \<Rightarrow> u8 list" where
  "rendered ds \<equiv> concat (map render ds)"

lemma fmt_loop_printed:
  assumes "\<forall>d\<in>set ds. dir_ok m0 (region buffer cap \<union> region temp 12) d" and "cstr m0 ptr (format_text ds)"
    and "region ptr (length (format_text ds) + 1) \<inter> (region buffer cap \<union> region temp 12) = {}"
    and "printed (region temp 12) buffer cap m0 m out" and cap: "cap < 4294967296"
    and dis: "region buffer cap \<inter> region temp 12 = {}"
    and "\<exists>d\<in>set ds. chr_right d \<Longrightarrow> length out + length (rendered ds) < cap"
  shows "\<exists>m'. fmt_loop temp m buffer (of_nat (cap - 1)) ptr (of_nat (length out)) (format_args ds) =
           Some (m'(buffer + of_nat (length (take (cap - 1) (out @ rendered ds))) := 0),
                 of_nat (length (take (cap - 1) (out @ rendered ds)))) \<and>
         printed (region temp 12) buffer cap m0 m' (take (cap - 1) (out @ rendered ds))"
  using assms(1-4,7)
proof (induction ds arbitrary: m out ptr)
  case Nil
  have "ptr \<in> region ptr (length (format_text []) + 1)" using in_region [of 0 "0 + 1" ptr] by simp
  with Nil have "m ptr = 0" by (auto simp: printed_def)
  then show ?case using Nil(4) printed_take [OF Nil(4)] by (intro exI [of _ m]) (simp add: fmt_loop_end fun_upd_def)
next
  case (Cons d ds)
  let ?W = "region buffer cap \<union> region temp 12" and ?n = "length (dir_text d)"
  have lt: "length out < cap" using Cons.prems(4) by (simp add: printed_def)
  show ?case
  proof (cases "length out + 1 < cap")
    case False
    with lt have "cap - 1 = length out" by simp
    moreover have "\<not> (of_nat (length out) :: u32) < of_nat (cap - 1)"
      using pos_less_lim [of cap "length out"] False lt cap by simp
    ultimately show ?thesis using Cons.prems(4) by (intro exI [of _ m]) (simp add: fmt_loop_end fun_upd_def)
  next
    case True
    have "m (ptr + of_nat i) = m0 (ptr + of_nat i)" if "i \<le> length (format_text (d # ds))" for i
      using in_region [of i "length (format_text (d # ds)) + 1" ptr] that Cons.prems(3,4) by (auto simp: printed_def)
    with Cons.prems(2) have "cstr m ptr (format_text (d # ds))"
      using cstr_cong [of "format_text (d # ds)" m ptr m0] by simp
    then have f: "cstr m ptr (dir_text d @ format_text ds)" by simp
    from Cons.prems(1) have "dir_ok m0 ?W d" by simp
    moreover have "length out + length (render d) < cap" if "chr_right d" using Cons.prems(5) that by simp
    ultimately obtain m1 where
      m1: "fmt_loop temp m buffer (of_nat (cap - 1)) ptr (of_nat (length out)) (format_args (d # ds)) =
           fmt_loop temp m1 buffer (of_nat (cap - 1)) (ptr + of_nat ?n)
             (of_nat (length (take (cap - 1) (out @ render d)))) (format_args ds)"
      "printed (region temp 12) buffer cap m0 m1 (take (cap - 1) (out @ render d))"
      using fmt_loop_step [OF _ f Cons.prems(4) True cap dis, of "format_args ds"] by auto
    have sub: "region (ptr + of_nat ?n) (length (format_text ds) + 1) \<subseteq> region ptr (length (format_text (d # ds)) + 1)"
    proof
      fix x assume "x \<in> region (ptr + of_nat ?n) (length (format_text ds) + 1)"
      then obtain i where "i < length (format_text ds) + 1" "x = ptr + of_nat ?n + of_nat i"
        unfolding region_def by blast
      then have i: "i \<le> length (format_text ds)" "x = ptr + of_nat (?n + i)" by (simp_all add: add.assoc)
      then show "x \<in> region ptr (length (format_text (d # ds)) + 1)"
        using in_region [of "?n + i" "length (format_text (d # ds)) + 1" ptr] by simp
    qed
    have c: "cstr m0 (ptr + of_nat ?n) (format_text ds)" using Cons.prems(2) by (simp add: cstr_append)
    have oks: "\<forall>d\<in>set ds. dir_ok m0 ?W d" using Cons.prems(1) by simp
    have clear: "region (ptr + of_nat ?n) (length (format_text ds) + 1) \<inter> ?W = {}" using sub Cons.prems(3) by blast
    have "length (take (cap - 1) (out @ render d)) + length (rendered ds) < cap" if "\<exists>d\<in>set ds. chr_right d"
      using Cons.prems(5) that by auto
    from Cons.IH [OF oks c clear m1(2) this] m1(1) show ?thesis by (auto simp: take_take_append simp del: take_append)
  qed
qed

lemma hex_digit_nonzero: "d < 16 \<Longrightarrow> hex_digit upper d \<noteq> 0"
proof -
  assume "d < 16"
  then have "d \<in> {0, 1, 2, 3, 4, 5, 6, 7, 8, 9, 10, 11, 12, 13, 14, 15}" by simp presburger
  then show ?thesis by (cases upper) (auto simp: hex_digit_def)
qed

lemma render_nonzero: "dir_ok m W d \<Longrightarrow> 0 \<notin> set (render d)"
proof (cases d)
  case (Hex c left w v)
  show ?thesis using digits_less [of 16 _ "unat v"] hex_digit_nonzero
    by (fastforce simp: Hex hex_text_def Let_def)
qed (use int_text_nonzero in \<open>auto simp: field_def cstr_iff\<close>)

lemma flopsnprintf_renders:
  assumes ds: "\<forall>d\<in>set ds. dir_ok m (region buffer (unat sz) \<union> region temp 12) d"
    and f: "cstr m format (format_text ds)"
    and apart: "region format (length (format_text ds) + 1) \<inter> (region buffer (unat sz) \<union> region temp 12) = {}"
      "region buffer (unat sz) \<inter> region temp 12 = {}"
    and sz: "0 < sz" and fits: "\<exists>d\<in>set ds. chr_right d \<Longrightarrow> length (rendered ds) < unat sz"
  shows "\<exists>m' out. flopsnprintf temp m buffer sz format (format_args ds) = Some (m', of_nat (length out)) \<and>
     out = take (unat sz - 1) (rendered ds) \<and> cstr m' buffer out \<and>
     (\<forall>x. x \<notin> region buffer (unat sz) \<union> region temp 12 \<longrightarrow> m' x = m x)"
proof -
  let ?cap = "unat sz" and ?out = "take (unat sz - 1) (rendered ds)"
  have cap: "?cap < 4294967296" "0 < ?cap" using sz by (simp_all add: unat_gt_0)
  have "unat (sz - 1) = ?cap - 1" using cap(2) by (subst unat_minus_u32) (simp_all add: word_le_nat_alt)
  then have lim: "sz - 1 = of_nat (?cap - 1)"
    using unat_of_nat_u32 [of "?cap - 1"] cap(1) by (simp only: word_unat_eq_iff)
  have start: "printed (region temp 12) buffer ?cap m m []" using cap(2) by (simp add: printed_def)
  from fmt_loop_printed [OF ds f apart(1) start cap(1) apart(2)] fits obtain m1 where
    m1: "fmt_loop temp m buffer (of_nat (?cap - 1)) format (of_nat (length ([] :: u8 list))) (format_args ds) =
      Some (m1(buffer + of_nat (length ?out) := 0), of_nat (length ?out))"
    "printed (region temp 12) buffer ?cap m m1 ?out" by auto
  let ?m = "m1(buffer + of_nat (length ?out) := 0)"
  have len: "length ?out < ?cap" using m1(2) by (simp add: printed_def)
  have "0 \<notin> set ?out" using ds render_nonzero by (fastforce dest: in_set_takeD)
  moreover have "?m (buffer + of_nat i) = ?out ! i" if "i < length ?out" for i
  proof -
    have "length ?out < 4294967296" using len cap(1) by linarith
    from addr_shift_neq [OF that this, of buffer] m1(2) that show ?thesis
      unfolding printed_def by (simp only: fun_upd_apply if_False)
  qed
  ultimately have "cstr ?m buffer ?out" by (simp add: cstr_iff)
  moreover have "?m x = m x" if "x \<notin> region buffer ?cap \<union> region temp 12" for x
    using that in_region [OF len, of buffer] m1(2) by (auto simp: printed_def)
  moreover have "flopsnprintf temp m buffer sz format (format_args ds) = Some (?m, of_nat (length ?out))"
    using m1(1) unfolding flopsnprintf_def flopvsnprintf_def lim by simp
  ultimately show ?thesis by blast
qed

text \<open>
  The text that is meant: as rendered, but \<open>%u\<close> prints the unsigned number. The two agree below \<open>2^31\<close>.
\<close>

primrec meant :: "directive \<Rightarrow> u8 list" where
  "meant (Lit c) = [c]"
| "meant Percent = [37]"
| "meant (Num uns left w v) = field left w (if uns then map dec_char (dec_digits (unat v)) else int_text v)"
| "meant (Hex conv left w v) = hex_text (conv = 88) w v"
| "meant (Str left w a s) = field left w s"
| "meant (Chr left w c) = field left w [c]"

primrec small_unsigned :: "directive \<Rightarrow> bool" where
  "small_unsigned (Lit c) \<longleftrightarrow> True"
| "small_unsigned Percent \<longleftrightarrow> True"
| "small_unsigned (Num uns left w v) \<longleftrightarrow> (uns \<longrightarrow> v < 0x80000000)"
| "small_unsigned (Hex conv left w v) \<longleftrightarrow> True"
| "small_unsigned (Str left w a s) \<longleftrightarrow> True"
| "small_unsigned (Chr left w c) \<longleftrightarrow> True"

lemma int_text_small: "v < 0x80000000 \<Longrightarrow> int_text v = map dec_char (dec_digits (unat v))"
  using sint_of_nat_u32 [of "unat v"] by (simp add: int_text_def word_less_nat_alt)

lemma int_text_large:
  assumes "0x80000000 \<le> v"
  shows "int_text v = 45 # map dec_char (dec_digits (4294967296 - unat v))"
proof -
  define n where "n = unat v"
  have n: "2147483648 \<le> n" "n < 4294967296" using assms unat_less_2p32 [of v] by (simp_all add: n_def word_le_nat_alt)
  have "v = of_int (int n - 4294967296)" by (simp add: n_def)
  then have "sint v = sint (of_int (int n - 4294967296) :: s32)" by (rule arg_cong)
  also have "\<dots> = int n - 4294967296" using n by (subst sint_sbintrunc', subst signed_take_bit_int_eq_self) simp_all
  finally have s: "sint v = int n - 4294967296" .
  have "sint v < 0" "nat \<bar>sint v\<bar> = 4294967296 - n" using n unfolding s by (simp_all add: nat_diff_distrib)
  then show ?thesis unfolding int_text_def by (simp add: n_def)
qed

lemma rendered_meant: "\<forall>d\<in>set ds. small_unsigned d \<Longrightarrow> rendered ds = concat (map meant ds)"
proof (induction ds)
  case (Cons d ds)
  then show ?case by (cases d) (simp_all add: int_text_small)
qed simp

text \<open>C29: \<open>flopvsnprintf\<close> and \<open>flopsnprintf\<close> print what is meant. Take a format made of the directives above, a positive
  size, and memory regions of buffer, scratch array, format and string arguments that do not overlap. Let the arguments satisfy
  the conditions outside of which the code is wrong: no \<open>%u\<close> of \<open>2^31\<close> or more (it prints a negative number), no
  \<open>%x\<close>, \<open>%X\<close> or \<open>%p\<close> of 0 (it prints an unwritten byte) or of a width above 9 (it overflows an array), no
  \<open>%c\<close> of the character 0, widths and lengths of strings below \<open>2^31\<close>; and if a \<open>%c\<close> with blanks on its left is among them, let the
  whole text fit (it is written without regard to the size). Then the call returns; the buffer
  holds the text, cut to the size with room for the terminator, and the result is its length; no byte changes outside
  the buffer and the scratch array. Numbers, strings and characters are padded with blanks on the side that the flag says,
  hexadecimal numbers with zeros.
\<close>

theorem flopsnprintf_correct:
  assumes ds: "\<forall>d\<in>set ds. dir_ok m (region buffer (unat sz) \<union> region temp 12) d \<and> small_unsigned d"
    and f: "cstr m format (format_text ds)"
    and apart: "region format (length (format_text ds) + 1) \<inter> (region buffer (unat sz) \<union> region temp 12) = {}"
      "region buffer (unat sz) \<inter> region temp 12 = {}"
    and sz: "0 < sz" and fits: "\<exists>d\<in>set ds. chr_right d \<Longrightarrow> length (concat (map meant ds)) < unat sz"
  shows "\<exists>m' out. flopsnprintf temp m buffer sz format (format_args ds) = Some (m', of_nat (length out)) \<and>
     out = take (unat sz - 1) (concat (map meant ds)) \<and> cstr m' buffer out \<and>
     (\<forall>x. x \<notin> region buffer (unat sz) \<union> region temp 12 \<longrightarrow> m' x = m x)"
proof -
  have oks: "\<forall>d\<in>set ds. dir_ok m (region buffer (unat sz) \<union> region temp 12) d" and eq: "concat (map meant ds) = rendered ds"
    using ds by (auto simp: rendered_meant)
  show ?thesis unfolding eq by (rule flopsnprintf_renders [OF oks f apart sz fits [unfolded eq]])
qed

text \<open>\<open>%u\<close> of a number from \<open>2^31\<close> on prints a minus sign and the distance to \<open>2^32\<close>.\<close>

lemma unsigned_prints_negative:
  assumes "0x80000000 \<le> v" and f: "cstr m format [37, 117]" and "12 \<le> sz"
    and apart: "region format 3 \<inter> (region buffer (unat sz) \<union> region temp 12) = {}" "region buffer (unat sz) \<inter> region temp 12 = {}"
  shows "\<exists>m' n. flopsnprintf temp m buffer sz format [v] = Some (m', n) \<and>
    cstr m' buffer (45 # map dec_char (dec_digits (4294967296 - unat v)))"
proof -
  have t: "format_text [Num True False 0 v] = [37, 117]" by (simp add: conv_text_def width_text_def)
  have r: "rendered [Num True False 0 v] = int_text v" by (simp add: field_def)
  have sz: "12 \<le> unat sz" "0 < sz" using assms(3) by (auto simp: word_le_nat_alt word_less_nat_alt)
  have "\<exists>m' out. flopsnprintf temp m buffer sz format (format_args [Num True False 0 v]) = Some (m', of_nat (length out)) \<and>
     out = take (unat sz - 1) (rendered [Num True False 0 v]) \<and> cstr m' buffer out \<and>
     (\<forall>x. x \<notin> region buffer (unat sz) \<union> region temp 12 \<longrightarrow> m' x = m x)"
    by (rule flopsnprintf_renders) (use f apart sz(2) in \<open>simp_all only: t, simp_all add: numeral_3_eq_3\<close>)
  moreover have "take (unat sz - 1) (int_text v) = int_text v" using length_int_text(2) [of v] sz(1) by simp
  ultimately show ?thesis unfolding r int_text_large [OF assms(1)] by auto
qed

text \<open>The format \<open>n=%4d\<close>, and a buffer it does not quite fit.\<close>

lemma region_disjoint:
  assumes "unat a + n \<le> unat b" and "unat b + k \<le> 4294967296"
  shows "region a n \<inter> region b k = {}"
proof -
  have "a + of_nat i \<noteq> b + of_nat j" if "i < n" "j < k" for i j
  proof
    assume eq: "a + of_nat i = b + of_nat j"
    have "unat (a + of_nat i) = unat a + i" "unat (b + of_nat j) = unat b + j"
      using assms that by (subst unat_plus_u32; simp add: unat_of_nat_u32)+
    with eq assms that show False by simp
  qed
  then show ?thesis by (auto simp: region_def)
qed

theorem flopsnprintf_correct_witness:
  "\<exists>m'. flopsnprintf 0x3000 (mem_of 0x1000 [110, 61, 37, 52, 100]) 0x2000 6 0x1000 [42] = Some (m', 5) \<and>
     cstr m' 0x2000 [110, 61, 32, 32, 52]"
proof -
  let ?ds = "[Lit 110, Lit 61, Num False False 4 42]"
  let ?m = "mem_of 0x1000 [110, 61, 37, 52, 100]"
  have t: "format_text ?ds = [110, 61, 37, 52, 100]"
    by (simp add: conv_text_def width_text_def digits_step dec_char_def)
  have "sint (42 :: s32) = 42" by simp
  then have "int_text 42 = [52, 50]"
    by (simp add: int_text_def dec_digits_def digits_step dec_char_def)
  then have r: "concat (map meant ?ds) = [110, 61, 32, 32, 52, 50]" by (simp add: field_def numeral_eq_Suc)
  have f: "cstr ?m 0x1000 (format_text ?ds)" unfolding t by (rule mem_of_cstr) simp_all
  have apart: "region 0x1000 (length (format_text ?ds) + 1) \<inter> (region 0x2000 (unat (6 :: u32)) \<union> region 0x3000 12) = {}"
    "region 0x2000 (unat (6 :: u32)) \<inter> region 0x3000 12 = {}"
    unfolding t Int_Un_distrib by (simp_all add: region_disjoint)
  from flopsnprintf_correct [OF _ f apart] show ?thesis unfolding r by fastforce
qed

text \<open>An unknown conversion is written without regard to the size. Given two bytes, the format
  \<open>%c\<close> for a character \<open>c\<close> that selects no conversion makes \<open>flopsnprintf\<close> fill both and put the
  terminator behind the buffer.
\<close>

theorem flopsnprintf_overruns:
  assumes "cstr m format [37, c]" and "\<not> digit_char c" and "c \<notin> {45, 100, 117, 120, 88, 112, 115, 99, 37}"
  shows "flopsnprintf temp m buffer 2 format args = Some (m(buffer := 37, buffer + 1 := c, buffer + 2 := 0), 2)"
proof -
  have "cstr m format (conv_text False 0 c @ [])" using assms(1) by (simp add: conv_text_def width_text_def)
  moreover have "fmt_switch temp m buffer 1 0 False (of_nat 0) c args = Some (m(buffer := 37, buffer + 1 := c), 2, args)"
    using assms(3) by (simp add: fmt_switch_def)
  moreover have "\<not> (2 :: u32) < 1" by simp
  ultimately show ?thesis
    using fmt_loop_conv [of m format False 0 c "[]" 0 1 temp buffer args] assms(2,3)
    by (simp add: flopsnprintf_def flopvsnprintf_def fmt_loop_end)
qed

theorem flopsnprintf_overruns_witness:
  "flopsnprintf 0x3000 (mem_of 0x1000 [37, 122]) 0x2000 2 0x1000 [] =
     Some ((mem_of 0x1000 [37, 122])(0x2000 := 37, 0x2001 := 122, 0x2002 := 0), 2)"
proof -
  have "cstr (mem_of 0x1000 [37, 122]) 0x1000 [37, 122]" by (rule mem_of_cstr) simp_all
  from flopsnprintf_overruns [OF this, where temp = "0x3000" and buffer = "0x2000" and args = "[]"] show ?thesis by (simp add: digit_char_def)
qed

end
