(* ===== verification/StrHeap.thy ===== *)
theory StrHeap
  imports StrProps Heap
begin

text \<open>
  The functions of lib/str.c that take scratch memory from the kernel heap. They run on the state of
  the heap, whose memory holds the strings as well: what \<open>kmalloc\<close> and \<open>kfree\<close> do to it is
  mem/alloc.c.
\<close>

abbreviation upd_mem :: "(mem \<Rightarrow> mem) \<Rightarrow> heap \<Rightarrow> heap" where
  "upd_mem f h \<equiv> h\<lparr>hp_mem := f (hp_mem h)\<rparr>"

section \<open>Substrings\<close>

definition flopsubstr :: "heap \<Rightarrow> u32 \<Rightarrow> u32 \<Rightarrow> u32 \<Rightarrow> (u32 \<times> heap) option" where
  "flopsubstr h str start len = do {
     n \<leftarrow> flopstrlen (hp_mem h) str;
     if start \<ge> n then Some (0, h)
     else do {
       (sub, h) \<leftarrow> kmalloc h (len + 1);
       if sub = 0 then Some (0, h)
       else let (m, i) = strcopy_loop (hp_mem h) sub (str + start) (unat len) 0
         in Some (sub, h\<lparr>hp_mem := m(sub + i := 0)\<rparr>)
     }
   }"

section \<open>Searching without regard to case\<close>

text \<open>
  The search advances the pointer to the lowered copy itself; the result says whether it matched, and
  where the pointer stands.
\<close>

partial_function (option) stristr_loop :: "mem \<Rightarrow> u32 \<Rightarrow> u32 \<Rightarrow> (bool \<times> u32) option" where
  "stristr_loop m h_lower n_lower =
     (if m h_lower \<noteq> 0 then do {
        n_tmp \<leftarrow> strstr_match m h_lower n_lower;
        if m n_tmp = 0 then Some (True, h_lower) else stristr_loop m (h_lower + 1) n_lower
      } else Some (False, h_lower))"

definition free_string :: "heap \<Rightarrow> u32 \<Rightarrow> heap option" where
  "free_string h p = do { n \<leftarrow> flopstrlen (hp_mem h) p; kfree h p n }"

text \<open>The copy is bounded by the length of what the fresh buffer happens to hold.\<close>

definition copy_and_lower :: "heap \<Rightarrow> u32 \<Rightarrow> u32 \<Rightarrow> heap option" where
  "copy_and_lower h dst src = do {
     n \<leftarrow> flopstrlen (hp_mem h) dst;
     Some (upd_mem (\<lambda>m. flopstrcopy m dst src n) h)
   }"

definition flopstristr :: "heap \<Rightarrow> u32 \<Rightarrow> u32 \<Rightarrow> (u32 \<times> heap) option" where
  "flopstristr h haystack needle = do {
     hn \<leftarrow> flopstrlen (hp_mem h) haystack;
     (h_lower, h) \<leftarrow> kmalloc h (hn + 1);
     nn \<leftarrow> flopstrlen (hp_mem h) needle;
     (n_lower, h) \<leftarrow> kmalloc h (nn + 1);
     (found, h_lower, h) \<leftarrow>
       (if h_lower \<noteq> 0 \<and> n_lower \<noteq> 0 then do {
          h \<leftarrow> copy_and_lower h h_lower haystack;
          h \<leftarrow> copy_and_lower h n_lower needle;
          m \<leftarrow> flopstrtolower (hp_mem h) h_lower;
          m \<leftarrow> flopstrtolower m n_lower;
          (found, h_lower) \<leftarrow> stristr_loop m h_lower n_lower;
          Some (found, h_lower, h\<lparr>hp_mem := m\<rparr>)
        } else Some (False, h_lower, h));
     h \<leftarrow> free_string h h_lower;
     h \<leftarrow> free_string h n_lower;
     Some (if found then haystack else 0, h)
   }"

partial_function (option) strichr_loop :: "mem \<Rightarrow> u32 \<Rightarrow> u8 \<Rightarrow> u32 \<Rightarrow> u32 option option" where
  "strichr_loop m temp_str lower_c pos =
     (if m (temp_str + pos) \<noteq> 0 then
        if m (temp_str + pos) = lower_c then Some (Some pos) else strichr_loop m temp_str lower_c (pos + 1)
      else Some None)"

definition flopstrichr :: "heap \<Rightarrow> u32 \<Rightarrow> u8 \<Rightarrow> (s32 \<times> heap) option" where
  "flopstrichr h str c = do {
     let lower_c = lower_char c;
     n \<leftarrow> flopstrlen (hp_mem h) str;
     (temp_str, h) \<leftarrow> kmalloc h (n + 1);
     if temp_str = 0 then Some (-1, h)
     else do {
       n \<leftarrow> flopstrlen (hp_mem h) str;
       let m = flopstrcopy (hp_mem h) temp_str str n;
       m \<leftarrow> flopstrtolower m temp_str;
       r \<leftarrow> strichr_loop m temp_str lower_c 0;
       h \<leftarrow> free_string (h\<lparr>hp_mem := m\<rparr>) temp_str;
       Some (case r of Some pos \<Rightarrow> pos | None \<Rightarrow> -1, h)
     }
   }"

section \<open>Replacing and splitting\<close>

partial_function (option) strreplace_loop ::
  "mem \<Rightarrow> u32 \<Rightarrow> u32 \<Rightarrow> u32 \<Rightarrow> u32 \<Rightarrow> u32 \<Rightarrow> u32 \<Rightarrow> u32 \<Rightarrow> (mem \<times> u32 \<times> u32) option" where
  "strreplace_loop m temp pos str old old_len new_str new_len =
     (if m str \<noteq> 0 then
        if flopstrncmp m str old old_len = 0
        then strreplace_loop (flopstrcopy m (temp + pos) new_str new_len) temp (pos + new_len) (str + old_len)
               old old_len new_str new_len
        else strreplace_loop (m(temp + pos := m str)) temp (pos + 1) (str + 1) old old_len new_str new_len
      else Some (m, pos, str))"

definition flopstrreplace :: "heap \<Rightarrow> u32 \<Rightarrow> u32 \<Rightarrow> u32 \<Rightarrow> (u32 \<times> heap) option" where
  "flopstrreplace h str old new_str = do {
     let res = str;
     old_len \<leftarrow> flopstrlen (hp_mem h) old;
     new_len \<leftarrow> flopstrlen (hp_mem h) new_str;
     n \<leftarrow> flopstrlen (hp_mem h) str;
     (temp, h) \<leftarrow> kmalloc h (n + 1);
     if temp = 0 then Some (res, h)
     else do {
       (m, pos, str) \<leftarrow> strreplace_loop (hp_mem h) temp 0 str old old_len new_str new_len;
       let m = m(temp + pos := 0);
       let m = flopstrcopy m res temp (pos + 1);
       n \<leftarrow> flopstrlen m str;
       h \<leftarrow> kfree (h\<lparr>hp_mem := m\<rparr>) temp (n + 1);
       Some (res, h)
     }
   }"

partial_function (option) strsplit_count :: "mem \<Rightarrow> u32 \<Rightarrow> u32 \<Rightarrow> u32 \<Rightarrow> u32 option" where
  "strsplit_count m s delim token_count =
     (if m s \<noteq> 0 then do {
        d \<leftarrow> is_delim m delim (m s);
        strsplit_count m (s + 1) delim (if d then token_count + 1 else token_count)
      } else Some token_count)"

text \<open>One token after the other; a failed allocation of a token is not noticed.\<close>

partial_function (option) strsplit_loop :: "heap \<Rightarrow> u32 \<Rightarrow> u32 \<Rightarrow> u32 \<Rightarrow> u32 \<Rightarrow> (heap \<times> u32) option" where
  "strsplit_loop h tokens idx s delim =
     (if hp_mem h s \<noteq> 0 then do {
        e \<leftarrow> tok_skip_loop False (hp_mem h) s delim;
        let len = e - s;
        (p, h) \<leftarrow> kmalloc h (len + 1);
        let m = store32 (hp_mem h) (tokens + 4 * idx) p;
        let m = flopstrcopy m p s (len + 1);
        let e' = (if m e \<noteq> 0 then e + 1 else e);
        strsplit_loop (h\<lparr>hp_mem := m\<rparr>) tokens (idx + 1) e' delim
      } else Some (h, idx))"

definition flopstrsplit :: "heap \<Rightarrow> u32 \<Rightarrow> u32 \<Rightarrow> (u32 \<times> heap) option" where
  "flopstrsplit h str delim = do {
     token_count \<leftarrow> strsplit_count (hp_mem h) str delim 0;
     (tokens, h) \<leftarrow> kmalloc h ((token_count + 2) * 4);
     if tokens = 0 then Some (0, h)
     else do {
       (h, idx) \<leftarrow> strsplit_loop h tokens 0 str delim;
       Some (tokens, upd_mem (\<lambda>m. store32 m (tokens + 4 * idx) 0) h)
     }
   }"

section \<open>Reversing words\<close>

partial_function (option) revwords_loop :: "mem \<Rightarrow> u32 \<Rightarrow> u32 \<Rightarrow> mem option" where
  "revwords_loop m word_start p =
     (if m p \<noteq> 0 then
        if m p = 32 \<or> m (p + 1) = 0 then do {
          m \<leftarrow> flopstrrev (m(p := 0)) word_start;
          revwords_loop m (p + 1) (p + 1)
        } else revwords_loop m word_start (p + 1)
      else Some m)"

definition flopstrreverse_words :: "mem \<Rightarrow> u32 \<Rightarrow> mem option" where
  "flopstrreverse_words m str = do { m \<leftarrow> flopstrrev m str; revwords_loop m str str }"

end
