(* ===== verification/StrHeapProps.thy ===== *)
theory StrHeapProps
  imports StrHeap
begin

text \<open>
  Reversing strings in place (lib/str.c): \<open>flopstrrev\<close> reverses, and \<open>flopstrreverse_words\<close>, which
  is meant to reverse the order of the words, loses the first letter of a single word.
\<close>

section \<open>Reversing in place\<close>

text \<open>After \<open>i\<close> turns the outer \<open>i\<close> bytes on both sides have been exchanged.\<close>

definition exchanged :: "nat \<Rightarrow> u8 list \<Rightarrow> nat \<Rightarrow> u8" where
  "exchanged i s j = (if j < i \<or> length s - i \<le> j then s ! (length s - 1 - j) else s ! j)"

lemma strrev_loop_exchanged:
  assumes "length s < 4294967296" and "2 * (i + k) \<le> length s"
    and "\<And>j. j < length s \<Longrightarrow> m (a + of_nat j) = exchanged i s j"
  shows "(\<forall>j<length s. strrev_loop m a (of_nat (length s)) i k (a + of_nat j) = exchanged (i + k) s j) \<and>
         (\<forall>x. (\<forall>j<length s. x \<noteq> a + of_nat j) \<longrightarrow> strrev_loop m a (of_nat (length s)) i k x = m x)"
  using assms(2,3)
proof (induction k arbitrary: i m)
  case 0
  then show ?case by simp
next
  case (Suc k)
  let ?n = "length s"
  let ?l = "a + of_nat i" and ?r = "a + of_nat (?n - 1 - i)"
  define M where "M = m(?l := m ?r, ?r := m ?l)"
  have i: "2 * i + 2 \<le> ?n" using Suc.prems(1) by simp
  have r: "a + (of_nat ?n - 1 - of_nat i) = ?r"
  proof -
    have "(of_nat ?n :: u32) - 1 - of_nat i = of_nat (?n - 1 - i)" using i by (simp add: of_nat_diff)
    then show ?thesis by simp
  qed
  have inj: "a + of_nat p = a + (of_nat q :: u32) \<longleftrightarrow> p = q" if "p < ?n" "q < ?n" for p q
    using that assms(1) addr_shift_neq [of p q a] addr_shift_neq [of q p a] by (cases p q rule: linorder_cases) auto
  have "M (a + of_nat j) = exchanged (Suc i) s j" if "j < ?n" for j
  proof -
    have v: "m ?l = s ! i" "m ?r = s ! (?n - 1 - i)"
    proof -
      have "exchanged i s i = s ! i" "exchanged i s (?n - 1 - i) = s ! (?n - 1 - i)"
        using i by (auto simp: exchanged_def)
      then show "m ?l = s ! i" "m ?r = s ! (?n - 1 - i)"
        using Suc.prems(2) [of i] Suc.prems(2) [of "?n - 1 - i"] i by (simp_all del: of_nat_diff)
    qed
    have "M (a + of_nat j) = (if j = ?n - 1 - i then s ! i else if j = i then s ! (?n - 1 - i) else exchanged i s j)"
      using inj [OF that, of i] inj [OF that, of "?n - 1 - i"] i v Suc.prems(2) [OF that] by (simp add: M_def)
    also have "\<dots> = exchanged (Suc i) s j" using that i by (auto simp: exchanged_def)
    finally show ?thesis .
  qed
  note IH = Suc.IH [of "Suc i" M, OF _ this]
  have step: "strrev_loop m a (of_nat ?n) i (Suc k) = strrev_loop M a (of_nat ?n) (Suc i) k"
    by (simp add: Let_def r M_def del: of_nat_diff)
  have "x \<noteq> ?l \<and> x \<noteq> ?r" if "\<forall>j<?n. x \<noteq> a + of_nat j" for x
    using that [rule_format, of i] that [rule_format, of "?n - 1 - i"] i by (simp del: of_nat_diff)
  then have "M x = m x" if "\<forall>j<?n. x \<noteq> a + of_nat j" for x using that by (simp add: M_def)
  with IH Suc.prems(1) show ?case unfolding step by simp
qed

lemma exchanged_half:
  assumes "j < length s" shows "exchanged (length s div 2) s j = rev s ! j"
proof (cases "j < length s div 2 \<or> length s - length s div 2 \<le> j")
  case True
  with assms show ?thesis by (simp add: exchanged_def rev_nth)
next
  case False
  then have "j = length s div 2" "length s = 2 * j + 1" using assms by presburger+
  then have "length s - 1 - j = j" by simp
  with False assms show ?thesis by (simp add: exchanged_def rev_nth)
qed

lemma flopstrrev_correct:
  assumes "cstr m a s" and "length s < 4294967296"
  shows "\<exists>m'. flopstrrev m a = Some m' \<and> cstr m' a (rev s) \<and>
     (\<forall>x. (\<forall>j<length s. x \<noteq> a + of_nat j) \<longrightarrow> m' x = m x)"
proof -
  let ?n = "length s" and ?h = "length s div 2"
  let ?m = "strrev_loop m a (of_nat ?n) 0 ?h"
  have "unat ((of_nat ?n :: u32) div 2) = ?h" using assms(2) by (simp add: unat_div unat_of_nat_u32)
  then have eq: "flopstrrev m a = Some ?m" by (simp add: flopstrrev_def flopstrlen_cstr [OF assms(1)])
  have "m (a + of_nat j) = exchanged 0 s j" if "j < ?n" for j
    using assms(1) that by (simp add: exchanged_def cstr_iff)
  from strrev_loop_exchanged [OF assms(2) _ this, of ?h] have
    x: "\<forall>j<?n. ?m (a + of_nat j) = exchanged ?h s j" "\<forall>x. (\<forall>j<?n. x \<noteq> a + of_nat j) \<longrightarrow> ?m x = m x"
    by auto
  have "a + of_nat ?n \<noteq> a + (of_nat j :: u32)" if "j < ?n" for j
    using addr_shift_neq [OF that assms(2), of a] by simp
  with x(2) have "?m (a + of_nat ?n) = m (a + of_nat ?n)" by blast
  with x(1) exchanged_half assms(1) have "cstr ?m a (rev s)" by (simp add: cstr_iff)
  with eq x(2) show ?thesis by blast
qed

section \<open>Reversing words\<close>

text \<open>A word without a space or a terminator inside: the loop runs to its last letter.\<close>

lemma revwords_loop_word:
  "cstr m p (w @ [c]) \<Longrightarrow> 32 \<notin> set w \<Longrightarrow>
   revwords_loop m start p = do {
     m \<leftarrow> flopstrrev (m(p + of_nat (length w) := 0)) start;
     revwords_loop m (p + of_nat (length w) + 1) (p + of_nat (length w) + 1)
   }"
proof (induction w arbitrary: p)
  case Nil
  then show ?case by (subst revwords_loop.simps) simp
next
  case (Cons x w)
  have "m (p + 1) \<noteq> 0" using Cons.prems(1) by (cases w) auto
  with Cons.prems have "revwords_loop m start p = revwords_loop m start (p + 1)"
    by (subst revwords_loop.simps) auto
  with Cons.IH [of "p + 1"] Cons.prems show ?case by (simp add: add.assoc)
qed

text \<open>\<open>flopstrreverse_words\<close> does not keep a string of one word as it is: it returns, but the first letter
  is lost.
\<close>

theorem flopstrreverse_words_drops_letter:
  assumes "cstr m a (c # w)" and "32 \<notin> set (c # w)" and "length w + 1 < 4294967296"
  shows "\<exists>m'. flopstrreverse_words m a = Some m' \<and> cstr m' a w"
proof -
  from flopstrrev_correct [OF assms(1)] assms(3) obtain m1 where
    m1: "flopstrrev m a = Some m1" "cstr m1 a (rev w @ [c])" by auto
  let ?n = "length w"
  let ?m = "m1(a + of_nat ?n := 0)"
  have "a + of_nat i \<noteq> a + (of_nat ?n :: u32)" if "i < ?n" for i
    using addr_shift_neq [OF that, of a] assms(3) by simp
  with m1(2) have "cstr ?m a (rev w)" by (simp add: cstr_append cstr_iff nth_append)
  from flopstrrev_correct [OF this] assms(3) obtain m2 where
    m2: "flopstrrev ?m a = Some m2" "cstr m2 a w" "\<forall>x. (\<forall>j<?n. x \<noteq> a + of_nat j) \<longrightarrow> m2 x = ?m x" by auto
  have ne: "a + of_nat (Suc ?n) \<noteq> a + (of_nat i :: u32)" if "i \<le> ?n" for i
    using addr_shift_neq [of i "Suc ?n" a] that assms(3) by simp
  then have "m2 (a + of_nat (Suc ?n)) = m1 (a + of_nat (Suc ?n))" using m2(3) by simp
  also have "\<dots> = 0" using m1(2) by (simp add: cstr_append ac_simps)
  finally have "m2 (a + of_nat ?n + 1) = 0" by (simp add: ac_simps)
  then have "revwords_loop m2 (a + of_nat ?n + 1) (a + of_nat ?n + 1) = Some m2"
    by (subst revwords_loop.simps) simp
  with revwords_loop_word [OF m1(2), of a] assms(2) m1(1) m2 show ?thesis
    by (auto simp: flopstrreverse_words_def)
qed

theorem flopstrreverse_words_drops_letter_witness:
  "\<exists>m'. flopstrreverse_words (mem_of 0x1000 [97, 98]) 0x1000 = Some m' \<and> cstr m' 0x1000 [98]"
proof -
  have "cstr (mem_of 0x1000 [97, 98]) 0x1000 [97, 98]" by (rule mem_of_cstr) simp_all
  from flopstrreverse_words_drops_letter [OF this] show ?thesis by simp
qed

end
