(* ===== verification/Gdt.thy ===== *)
theory Gdt
  imports Memory
begin

text \<open>
  mem/gdt.c and task/tss.c: the descriptor table, the descriptor of the task state segment that is
  put into it at boot, and that segment. Loading the registers of the processor (\<open>lgdt\<close>, \<open>ltr\<close>) is
  the value of the selector that is loaded.
\<close>

unbundle bit_operations_syntax

section \<open>The table\<close>

definition our_gdt :: "u64 list" where
  "our_gdt = [0x0000000000000000, 0x00CF9A000000FFFF, 0x00CF92000000FFFF,
              0x00CFFA000000FFFF, 0x00CFF2000000FFFF, 0x0000000000000000]"

text \<open>The descriptor that \<open>gdt_set_gate\<close> composes; an index outside the table is a stray write.\<close>

definition gdt_desc :: "u32 \<Rightarrow> u32 \<Rightarrow> u8 \<Rightarrow> u8 \<Rightarrow> u64" where
  "gdt_desc base limit access gran =
     (let desc = 0 :: u64;
          desc = desc OR (ucast limit AND 0xFFFF);
          desc = desc OR push_bit 16 (ucast base AND 0xFFFFFF);
          desc = desc OR push_bit 40 (ucast access);
          desc = desc OR push_bit 48 (ucast (drop_bit 16 limit) AND 0x0F);
          desc = desc OR push_bit 48 (ucast (gran AND 0xF0));
          desc = desc OR push_bit 56 (ucast (drop_bit 24 base) AND 0xFF)
      in desc)"

definition gdt_set_gate :: "u64 list \<Rightarrow> nat \<Rightarrow> u32 \<Rightarrow> u32 \<Rightarrow> u8 \<Rightarrow> u8 \<Rightarrow> u64 list option" where
  "gdt_set_gate gdt idx base limit access gran =
     (if idx < length gdt then Some (gdt[idx := gdt_desc base limit access gran]) else None)"

section \<open>The task state segment\<close>

record tss_entry =
  tss_esp0 :: u32
  tss_ss0 :: u32
  tss_cs :: u32
  tss_ss :: u32
  tss_ds :: u32
  tss_es :: u32
  tss_fs :: u32
  tss_gs :: u32
  tss_iomap_base :: u16

text \<open>The fields the kernel sets; \<open>flop_memset\<close> zeroes all of them first.\<close>

definition SIZEOF_TSS :: u32 where "SIZEOF_TSS = 104"

definition tss_zero :: tss_entry where
  "tss_zero = \<lparr>tss_esp0 = 0, tss_ss0 = 0, tss_cs = 0, tss_ss = 0, tss_ds = 0, tss_es = 0, tss_fs = 0,
               tss_gs = 0, tss_iomap_base = 0\<rparr>"

record cpu_tables =
  ct_gdt :: "u64 list"
  ct_tss :: tss_entry
  ct_gdt_loaded :: bool
  ct_task_register :: u16

text \<open>\<open>addr\<close> is the address of the segment. The selector is loaded last.\<close>

definition tss_init :: "u32 \<Rightarrow> nat \<Rightarrow> u32 \<Rightarrow> u32 \<Rightarrow> cpu_tables \<Rightarrow> cpu_tables option" where
  "tss_init addr idx kss kesp c = do {
     let base = addr;
     let limit = base + SIZEOF_TSS;
     gdt \<leftarrow> gdt_set_gate (ct_gdt c) idx base limit 0x89 0x00;
     Some (c\<lparr>ct_gdt := gdt,
             ct_tss := tss_zero\<lparr>tss_ss0 := kss, tss_esp0 := kesp, tss_cs := 0x0b, tss_ss := 0x13, tss_ds := 0x13,
                                tss_es := 0x13, tss_fs := 0x13, tss_gs := 0x13,
                                tss_iomap_base := ucast SIZEOF_TSS\<rparr>,
             ct_task_register := of_nat idx * 8\<rparr>)
   }"

definition tss_set_kernel_stack :: "u32 \<Rightarrow> cpu_tables \<Rightarrow> cpu_tables" where
  "tss_set_kernel_stack stack c = c\<lparr>ct_tss := (ct_tss c)\<lparr>tss_esp0 := stack\<rparr>\<rparr>"

definition flush_gdt :: "cpu_tables \<Rightarrow> cpu_tables" where
  "flush_gdt c = c\<lparr>ct_gdt_loaded := True\<rparr>"

definition gdt_init :: "u32 \<Rightarrow> cpu_tables \<Rightarrow> cpu_tables option" where
  "gdt_init addr c = tss_init addr 3 0x10 0x0 (flush_gdt c)"

section \<open>What the processor reads out of a descriptor\<close>

definition desc_base :: "u64 \<Rightarrow> u32" where
  "desc_base d = ucast ((drop_bit 16 d AND 0xFFFFFF) OR (push_bit 24 (drop_bit 56 d AND 0xFF)))"

definition desc_limit :: "u64 \<Rightarrow> u32" where
  "desc_limit d = ucast ((d AND 0xFFFF) OR push_bit 16 (drop_bit 48 d AND 0x0F))"

definition desc_access :: "u64 \<Rightarrow> u8" where
  "desc_access d = ucast (drop_bit 40 d)"

definition desc_flags :: "u64 \<Rightarrow> u8" where
  "desc_flags d = ucast (drop_bit 48 d) AND 0xF0"

lemma gdt_masks:
  "(0xFFFF :: u64) = mask 16" "(0xFFFFFF :: u64) = mask 24" "(0x0F :: u64) = mask 4" "(0xFF :: u64) = mask 8"
  by (simp_all add: mask_eq_exp_minus_1)

lemma high_nibble:
  "bit (0xF0 :: u8) n \<longleftrightarrow> 4 \<le> n \<and> n < 8" "bit (0xF0 :: u64) n \<longleftrightarrow> 4 \<le> n \<and> n < 8"
proof -
  have eq: "(0xF0 :: u8) = push_bit 4 (mask 4)" "(0xF0 :: u64) = push_bit 4 (mask 4)"
    by (simp_all add: mask_eq_exp_minus_1 push_bit_eq_mult)
  show "bit (0xF0 :: u8) n \<longleftrightarrow> 4 \<le> n \<and> n < 8" by (subst eq) (auto simp: bit_simps)
  show "bit (0xF0 :: u64) n \<longleftrightarrow> 4 \<le> n \<and> n < 8" by (subst eq) (auto simp: bit_simps)
qed

lemma desc_pieces:
  fixes base limit :: u32 and access gran :: u8
  shows "bit (ucast limit AND 0xFFFF :: u64) n \<longleftrightarrow> n < 16 \<and> bit limit n"
    "bit (push_bit 16 (ucast base AND 0xFFFFFF) :: u64) n \<longleftrightarrow> 16 \<le> n \<and> n < 40 \<and> bit base (n - 16)"
    "bit (push_bit 40 (ucast access) :: u64) n \<longleftrightarrow> 40 \<le> n \<and> n < 48 \<and> bit access (n - 40)"
    "bit (push_bit 48 (ucast (drop_bit 16 limit) AND 0x0F) :: u64) n \<longleftrightarrow> 48 \<le> n \<and> n < 52 \<and> bit limit (n - 32)"
    "bit (push_bit 48 (ucast (gran AND 0xF0)) :: u64) n \<longleftrightarrow> 52 \<le> n \<and> n < 56 \<and> bit gran (n - 48)"
    "bit (push_bit 56 (ucast (drop_bit 24 base) AND 0xFF) :: u64) n \<longleftrightarrow> 56 \<le> n \<and> n < 64 \<and> bit base (n - 32)"
  unfolding gdt_masks by (auto simp: bit_simps high_nibble simp del: bit_numeral_word_iff dest: bit_imp_le_length)

lemma gdt_desc_bit:
  "bit (gdt_desc base limit access gran) n \<longleftrightarrow>
     (n < 16 \<and> bit limit n) \<or> (16 \<le> n \<and> n < 40 \<and> bit base (n - 16)) \<or>
     (40 \<le> n \<and> n < 48 \<and> bit access (n - 40)) \<or> (48 \<le> n \<and> n < 52 \<and> bit limit (n - 32)) \<or>
     (52 \<le> n \<and> n < 56 \<and> bit gran (n - 48)) \<or> (56 \<le> n \<and> n < 64 \<and> bit base (n - 32))"
  unfolding gdt_desc_def Let_def bit_or_iff desc_pieces by simp

lemma gdt_desc_fields:
  "desc_base (gdt_desc base limit access gran) = base"
  "desc_limit (gdt_desc base limit access gran) = limit AND 0xFFFFF"
  "desc_access (gdt_desc base limit access gran) = access"
  "desc_flags (gdt_desc base limit access gran) = gran AND 0xF0"
proof -
  have m: "(0xFFFFF :: u32) = mask 20" by (simp add: mask_eq_exp_minus_1)
  show "desc_base (gdt_desc base limit access gran) = base" unfolding desc_base_def gdt_masks
    by (rule bit_word_eqI) (auto simp: bit_simps gdt_desc_bit)
  show "desc_limit (gdt_desc base limit access gran) = limit AND 0xFFFFF" unfolding desc_limit_def gdt_masks m
    by (rule bit_word_eqI) (auto simp: bit_simps gdt_desc_bit)
  show "desc_access (gdt_desc base limit access gran) = access" unfolding desc_access_def
    by (rule bit_word_eqI) (auto simp: bit_simps gdt_desc_bit)
  show "desc_flags (gdt_desc base limit access gran) = gran AND 0xF0" unfolding desc_flags_def
    by (rule bit_word_eqI) (auto simp: bit_simps gdt_desc_bit high_nibble simp del: bit_numeral_word_iff)
qed

text \<open>C30: The descriptor \<open>gdt_set_gate\<close> writes means what was asked for: the processor reads from it the base,
  the low 20 bits of the limit, the access byte and the flags that were passed, and no other entry of
  the table changes.
\<close>

theorem gdt_set_gate_correct:
  assumes "idx < length gdt"
  shows "\<exists>gdt'. gdt_set_gate gdt idx base limit access gran = Some gdt' \<and>
     desc_base (gdt' ! idx) = base \<and> desc_limit (gdt' ! idx) = limit AND 0xFFFFF \<and>
     desc_access (gdt' ! idx) = access \<and> desc_flags (gdt' ! idx) = gran AND 0xF0 \<and>
     (\<forall>j. j \<noteq> idx \<longrightarrow> gdt' ! j = gdt ! j)"
  using assms by (simp add: gdt_set_gate_def gdt_desc_fields)

theorem gdt_set_gate_correct_witness:
  "\<exists>gdt'. gdt_set_gate our_gdt 5 0xC0123456 0x67 0x89 0x00 = Some gdt' \<and> desc_base (gdt' ! 5) = 0xC0123456"
  using gdt_set_gate_correct [of 5 our_gdt "0xC0123456" "0x67" "0x89" "0x00"] by (auto simp: our_gdt_def)

text \<open>C31: At boot the kernel puts its task state segment over the code segment of user programs. After
  \<open>gdt_init\<close> entry 3, which the selector 0x1B of every user thread names, is a system descriptor for
  the task state segment instead of user code, the entry reserved for the segment is still empty, and
  the limit stored with it is taken from its end address instead of its size.
\<close>

theorem gdt_init_clobbers_user_code:
  "\<exists>c'. gdt_init addr \<lparr>ct_gdt = our_gdt, ct_tss = tss, ct_gdt_loaded = False, ct_task_register = 0\<rparr> = Some c' \<and>
     desc_access (our_gdt ! 3) = 0xFA \<and> desc_access (ct_gdt c' ! 3) = 0x89 \<and>
     desc_base (ct_gdt c' ! 3) = addr \<and> desc_limit (ct_gdt c' ! 3) = (addr + 104) AND 0xFFFFF \<and>
     ct_gdt c' ! 5 = 0 \<and> ct_task_register c' = 24"
proof -
  have "desc_access (0x00CFFA000000FFFF) = 0xFA" by (simp add: desc_access_def)
  then show ?thesis
    by (simp add: gdt_init_def flush_gdt_def tss_init_def gdt_set_gate_def our_gdt_def gdt_desc_fields SIZEOF_TSS_def)
qed

end
