(* ===== verification/Ata.thy ===== *)
theory Ata
  imports Fifo Spinlock Memory
begin

text \<open>
  drivers/ata/ata.c: the queue of disk requests, the commands a request is started with, the transfer
  of sectors through the data port, and the interrupt that finishes the first request of the queue
  and starts the next one. The disk is not part of the kernel: what a port returns, what a write to a
  port does, and what the callback of a request does are the parameters collected in \<open>ata_env\<close>, over an
  arbitrary state of the machine outside the driver. The callback runs under the driver's lock, so it
  cannot use the queue.
\<close>

unbundle bit_operations_syntax

section \<open>Ports and constants\<close>

record 'd ata_env =
  io_inb :: "u16 \<Rightarrow> 'd \<Rightarrow> u8 \<times> 'd"
  io_inw :: "u16 \<Rightarrow> 'd \<Rightarrow> u16 \<times> 'd"
  io_outb :: "u16 \<Rightarrow> u8 \<Rightarrow> 'd \<Rightarrow> 'd"
  io_outw :: "u16 \<Rightarrow> u16 \<Rightarrow> 'd \<Rightarrow> 'd"
  io_complete :: "u32 \<Rightarrow> u32 \<Rightarrow> int \<Rightarrow> 'd \<Rightarrow> 'd"

definition ATA_PORT_DATA :: u16 where "ATA_PORT_DATA = 0x1F0"
definition ATA_PORT_ERROR :: u16 where "ATA_PORT_ERROR = 0x1F1"
definition ATA_PORT_SECTOR_COUNT :: u16 where "ATA_PORT_SECTOR_COUNT = 0x1F2"
definition ATA_PORT_LBA_LOW :: u16 where "ATA_PORT_LBA_LOW = 0x1F3"
definition ATA_PORT_LBA_MID :: u16 where "ATA_PORT_LBA_MID = 0x1F4"
definition ATA_PORT_LBA_HIGH :: u16 where "ATA_PORT_LBA_HIGH = 0x1F5"
definition ATA_PORT_DRIVE_HEAD :: u16 where "ATA_PORT_DRIVE_HEAD = 0x1F6"
definition ATA_PORT_STATUS :: u16 where "ATA_PORT_STATUS = 0x1F7"
definition ATA_PORT_COMMAND :: u16 where "ATA_PORT_COMMAND = 0x1F7"

definition ATA_CMD_READ :: u8 where "ATA_CMD_READ = 0x20"
definition ATA_CMD_WRITE :: u8 where "ATA_CMD_WRITE = 0x30"

definition ATA_ERR :: u8 where "ATA_ERR = 0x01"
definition ATA_BSY :: u8 where "ATA_BSY = 0x80"
definition ATA_DRQ :: u8 where "ATA_DRQ = 0x08"
definition ATA_RDY :: u8 where "ATA_RDY = 0x40"
definition MAX_SECTORS :: u16 where "MAX_SECTORS = 256"
definition ATA_SECTOR_SIZE :: nat where "ATA_SECTOR_SIZE = 512"

section \<open>State\<close>

text \<open>\<open>ATA_REQ_OTHER\<close> stands for a value of the enumeration's type outside it.\<close>

datatype ata_req_type_t = ATA_REQ_READ | ATA_REQ_WRITE | ATA_REQ_IDENTIFY | ATA_REQ_OTHER

record ata_request =
  rq_type :: ata_req_type_t
  rq_drive :: u8
  rq_lba :: u32
  rq_sector_count :: u16
  rq_buffer :: u32
  rq_completion :: u32
  rq_next :: "u32 option"

record ata_queue_t =
  aq_head :: "u32 option"
  aq_tail :: "u32 option"
  aq_length :: u32
  aq_lock :: spinlock_t

text \<open>\<open>ata_done\<close> records the requests that have been finished with their status, in order.\<close>

record 'd ata_state =
  ata_queue :: ata_queue_t
  ata_lock :: spinlock_t
  ata_reqs :: "u32 \<Rightarrow> ata_request"
  ata_mem :: mem
  ata_dev :: 'd
  ata_done :: "(u32 \<times> int) list"

definition upd_req :: "u32 \<Rightarrow> (ata_request \<Rightarrow> ata_request) \<Rightarrow> 'd ata_state \<Rightarrow> 'd ata_state" where
  "upd_req r f s = s\<lparr>ata_reqs := (ata_reqs s)(r := f (ata_reqs s r))\<rparr>"

definition upd_queue :: "(ata_queue_t \<Rightarrow> ata_queue_t) \<Rightarrow> 'd ata_state \<Rightarrow> 'd ata_state" where
  "upd_queue f s = s\<lparr>ata_queue := f (ata_queue s)\<rparr>"

abbreviation on_dev :: "('d \<Rightarrow> 'd) \<Rightarrow> 'd ata_state \<Rightarrow> 'd ata_state" where
  "on_dev f s \<equiv> s\<lparr>ata_dev := f (ata_dev s)\<rparr>"

section \<open>Talking to the disk\<close>

definition outbs :: "'d ata_env \<Rightarrow> (u16 \<times> u8) list \<Rightarrow> 'd \<Rightarrow> 'd" where
  "outbs env ws d = fold (\<lambda>(p, v). io_outb env p v) ws d"

definition ATA_DRIVE_INIT_PREPARE :: "u8 \<Rightarrow> (u16 \<times> u8) list" where
  "ATA_DRIVE_INIT_PREPARE drive_num =
     [(ATA_PORT_DRIVE_HEAD, drive_num), (ATA_PORT_SECTOR_COUNT, 0), (ATA_PORT_LBA_LOW, 0), (ATA_PORT_LBA_MID, 0),
      (ATA_PORT_LBA_HIGH, 0), (ATA_PORT_DRIVE_HEAD, 0), (ATA_PORT_COMMAND, 0xEC)]"

text \<open>The values are truncated to the 8 bits of a port; \<open>drive\<close> is promoted before it is shifted.\<close>

definition ATA_PREPARE_OP :: "u8 \<Rightarrow> u32 \<Rightarrow> u16 \<Rightarrow> u8 \<Rightarrow> (u16 \<times> u8) list" where
  "ATA_PREPARE_OP drive lba sectors cmd =
     [(ATA_PORT_DRIVE_HEAD, 0xE0 OR drop_bit 4 drive OR (ucast (drop_bit 24 lba) AND 0x0F)),
      (ATA_PORT_SECTOR_COUNT, ucast sectors),
      (ATA_PORT_LBA_LOW, ucast (drop_bit 8 lba)),
      (ATA_PORT_LBA_MID, ucast (drop_bit 16 lba)),
      (ATA_PORT_LBA_HIGH, ucast (drop_bit 16 lba)),
      (ATA_PORT_COMMAND, cmd)]"

definition ATA_IDENTIFY_DRIVE :: "u8 \<Rightarrow> (u16 \<times> u8) list" where
  "ATA_IDENTIFY_DRIVE drive =
     [(ATA_PORT_DRIVE_HEAD, drive), (ATA_PORT_SECTOR_COUNT, 0), (ATA_PORT_LBA_LOW, 0), (ATA_PORT_LBA_MID, 0),
      (ATA_PORT_LBA_HIGH, 0), (ATA_PORT_COMMAND, 0xEC)]"

partial_function (option) ata_bs_wait :: "'d ata_env \<Rightarrow> 'd \<Rightarrow> 'd option" where
  "ata_bs_wait env d =
     (case io_inb env ATA_PORT_STATUS d of
        (st, d) \<Rightarrow> if st AND ATA_BSY \<noteq> 0 then ata_bs_wait env d
          else (case io_inb env ATA_PORT_STATUS d of
                  (st, d) \<Rightarrow> if st AND ATA_RDY = 0 then ata_bs_wait env d else Some d))"

partial_function (option) ata_drq_wait :: "'d ata_env \<Rightarrow> 'd \<Rightarrow> 'd option" where
  "ata_drq_wait env d =
     (case io_inb env ATA_PORT_STATUS d of
        (st, d) \<Rightarrow> if st AND ATA_DRQ = 0 then ata_drq_wait env d else Some d)"

text \<open>The error register is read, for a message, when the status says so.\<close>

definition CATCH_DRIVE_ERR :: "'d ata_env \<Rightarrow> 'd \<Rightarrow> 'd" where
  "CATCH_DRIVE_ERR env d =
     (case io_inb env ATA_PORT_STATUS d of
        (st, d) \<Rightarrow> if st AND 0x01 \<noteq> 0 then snd (io_inb env ATA_PORT_ERROR d) else d)"

text \<open>The number of sectors is an 8-bit value, and so is the bound it is compared with.\<close>

definition ata_op_validate :: "u8 \<Rightarrow> u32 \<Rightarrow> int" where
  "ata_op_validate sectors buffer =
     (if buffer = 0 \<or> sectors = 0 then -1
      else if sectors > (ucast MAX_SECTORS :: u8) then -1
      else 0)"

partial_function (option) ata_init_drive_wait :: "'d ata_env \<Rightarrow> 'd \<Rightarrow> 'd option" where
  "ata_init_drive_wait env d =
     (case io_inb env ATA_PORT_STATUS d of
        (st, d) \<Rightarrow> if st AND ATA_BSY = 0 then ata_init_drive_wait env (snd (io_inb env ATA_PORT_STATUS d))
                   else Some d)"

definition ata_init_drive :: "'d ata_env \<Rightarrow> u8 \<Rightarrow> 'd \<Rightarrow> 'd option" where
  "ata_init_drive env drive_num d = ata_init_drive_wait env (outbs env (ATA_DRIVE_INIT_PREPARE drive_num) d)"

section \<open>Transfers\<close>

fun ata_read_words :: "'d ata_env \<Rightarrow> u32 \<Rightarrow> nat \<Rightarrow> mem \<times> 'd \<Rightarrow> mem \<times> 'd" where
  "ata_read_words env buffer 0 (m, d) = (m, d)"
| "ata_read_words env buffer (Suc n) (m, d) =
     (case io_inw env ATA_PORT_DATA d of
        (w, d) \<Rightarrow> ata_read_words env (buffer + 2) n (store16 m buffer w, d))"

fun ata_read_sectors :: "'d ata_env \<Rightarrow> u32 \<Rightarrow> nat \<Rightarrow> mem \<times> 'd \<Rightarrow> (mem \<times> 'd) option" where
  "ata_read_sectors env buffer 0 (m, d) = Some (m, d)"
| "ata_read_sectors env buffer (Suc n) (m, d) = do {
     d \<leftarrow> ata_bs_wait env d;
     d \<leftarrow> ata_drq_wait env (CATCH_DRIVE_ERR env d);
     ata_read_sectors env (buffer + of_nat ATA_SECTOR_SIZE) n
       (ata_read_words env buffer (ATA_SECTOR_SIZE div 2) (m, d))
   }"

definition ata_read :: "'d ata_env \<Rightarrow> u8 \<Rightarrow> u32 \<Rightarrow> u8 \<Rightarrow> u32 \<Rightarrow> bool \<Rightarrow> 'd ata_state \<Rightarrow> 'd ata_state option" where
  "ata_read env drive lba sectors buffer queued s =
     (if ata_op_validate sectors buffer \<noteq> 0 then Some s
      else do {
        let d = (if queued then ata_dev s else outbs env (ATA_PREPARE_OP drive lba (ucast sectors) ATA_CMD_READ) (ata_dev s));
        (m, d) \<leftarrow> ata_read_sectors env buffer (unat sectors) (ata_mem s, d);
        Some (s\<lparr>ata_mem := m, ata_dev := d\<rparr>)
      })"

fun ata_write_words :: "'d ata_env \<Rightarrow> u32 \<Rightarrow> nat \<Rightarrow> mem \<Rightarrow> 'd \<Rightarrow> 'd" where
  "ata_write_words env buffer 0 m d = d"
| "ata_write_words env buffer (Suc n) m d =
     ata_write_words env (buffer + 2) n m (io_outw env ATA_PORT_DATA (load16 m buffer) d)"

fun ata_write_sectors :: "'d ata_env \<Rightarrow> u32 \<Rightarrow> nat \<Rightarrow> mem \<Rightarrow> 'd \<Rightarrow> 'd option" where
  "ata_write_sectors env buffer 0 m d = Some d"
| "ata_write_sectors env buffer (Suc n) m d = do {
     d \<leftarrow> ata_bs_wait env d;
     d \<leftarrow> ata_drq_wait env (CATCH_DRIVE_ERR env d);
     ata_write_sectors env (buffer + of_nat ATA_SECTOR_SIZE) n m
       (ata_write_words env buffer (ATA_SECTOR_SIZE div 2) m d)
   }"

definition ata_write :: "'d ata_env \<Rightarrow> u8 \<Rightarrow> u32 \<Rightarrow> u8 \<Rightarrow> u32 \<Rightarrow> bool \<Rightarrow> 'd ata_state \<Rightarrow> 'd ata_state option" where
  "ata_write env drive lba sectors buffer queued s =
     (if ata_op_validate sectors buffer \<noteq> 0 then Some s
      else do {
        let d = (if queued then ata_dev s else outbs env (ATA_PREPARE_OP drive lba (ucast sectors) ATA_CMD_WRITE) (ata_dev s));
        d \<leftarrow> ata_write_sectors env buffer (unat sectors) (ata_mem s) d;
        Some (s\<lparr>ata_dev := d\<rparr>)
      })"

section \<open>The queue\<close>

definition ata_queue_init :: "'d ata_state \<Rightarrow> 'd ata_state" where
  "ata_queue_init s = upd_queue (\<lambda>q. \<lparr>aq_head = None, aq_tail = None, aq_length = 0, aq_lock = 0\<rparr>) s"

definition ata_queue_dequeue_unlocked :: "'d ata_state \<Rightarrow> u32 option \<times> 'd ata_state" where
  "ata_queue_dequeue_unlocked s =
     (case aq_head (ata_queue s) of
        None \<Rightarrow> (None, s)
      | Some r \<Rightarrow>
          let nx = rq_next (ata_reqs s r);
              s = upd_queue (\<lambda>q. q\<lparr>aq_head := nx\<rparr>) s;
              s = (if nx = None then upd_queue (\<lambda>q. q\<lparr>aq_tail := None\<rparr>) s else s);
              s = upd_req r (\<lambda>x. x\<lparr>rq_next := None\<rparr>) s
          in (Some r, upd_queue (\<lambda>q. q\<lparr>aq_length := aq_length q - 1\<rparr>) s))"

definition ata_queue_enqueue_unlocked :: "u32 \<Rightarrow> 'd ata_state \<Rightarrow> 'd ata_state" where
  "ata_queue_enqueue_unlocked req s =
     (let s = upd_req req (\<lambda>x. x\<lparr>rq_next := None\<rparr>) s;
          s = (case aq_tail (ata_queue s) of
                 None \<Rightarrow> upd_queue (\<lambda>q. q\<lparr>aq_head := Some req, aq_tail := Some req\<rparr>) s
               | Some t \<Rightarrow> upd_queue (\<lambda>q. q\<lparr>aq_tail := Some req\<rparr>) (upd_req t (\<lambda>x. x\<lparr>rq_next := Some req\<rparr>) s))
      in upd_queue (\<lambda>q. q\<lparr>aq_length := aq_length q + 1\<rparr>) s)"

section \<open>Requests\<close>

definition ata_start_request :: "'d ata_env \<Rightarrow> u32 \<Rightarrow> 'd ata_state \<Rightarrow> 'd ata_state" where
  "ata_start_request env req s =
     (let x = ata_reqs s req in
      case rq_type x of
        ATA_REQ_READ \<Rightarrow> on_dev (outbs env (ATA_PREPARE_OP (rq_drive x) (rq_lba x) (rq_sector_count x) ATA_CMD_READ)) s
      | ATA_REQ_WRITE \<Rightarrow> on_dev (outbs env (ATA_PREPARE_OP (rq_drive x) (rq_lba x) (rq_sector_count x) ATA_CMD_WRITE)) s
      | ATA_REQ_IDENTIFY \<Rightarrow> on_dev (outbs env (ATA_IDENTIFY_DRIVE (rq_drive x))) s
      | ATA_REQ_OTHER \<Rightarrow> s)"

fun ata_read_id :: "'d ata_env \<Rightarrow> nat \<Rightarrow> 'd \<Rightarrow> 'd" where
  "ata_read_id env 0 d = d"
| "ata_read_id env (Suc n) d = ata_read_id env n (snd (io_inw env ATA_PORT_DATA d))"

definition ata_finish_request :: "'d ata_env \<Rightarrow> u32 \<Rightarrow> 'd ata_state \<Rightarrow> (int \<times> 'd ata_state) option" where
  "ata_finish_request env req s =
     (let x = ata_reqs s req in
      case rq_type x of
        ATA_REQ_IDENTIFY \<Rightarrow> Some (0, on_dev (ata_read_id env 256) s)
      | ATA_REQ_READ \<Rightarrow> do {
          s \<leftarrow> ata_read env (rq_drive x) (rq_lba x) (ucast (rq_sector_count x)) (rq_buffer x) True s;
          Some (0, s)
        }
      | ATA_REQ_WRITE \<Rightarrow> do {
          s \<leftarrow> ata_write env (rq_drive x) (rq_lba x) (ucast (rq_sector_count x)) (rq_buffer x) True s;
          Some (0, s)
        }
      | ATA_REQ_OTHER \<Rightarrow> Some (-1, s))"

definition ata_submit :: "'d ata_env \<Rightarrow> u32 \<Rightarrow> 'd ata_state \<Rightarrow> 'd ata_state option" where
  "ata_submit env req s = do {
     l \<leftarrow> lock_acquire (ata_lock s);
     let s = s\<lparr>ata_lock := l\<rparr>;
     let was_empty = (aq_head (ata_queue s) = None);
     let s = ata_queue_enqueue_unlocked req s;
     let s = (if was_empty then ata_start_request env req s else s);
     Some (s\<lparr>ata_lock := lock_release (ata_lock s)\<rparr>)
   }"

definition ata_complete :: "'d ata_env \<Rightarrow> u32 \<Rightarrow> int \<Rightarrow> 'd ata_state \<Rightarrow> 'd ata_state" where
  "ata_complete env req st s =
     (let f = rq_completion (ata_reqs s req);
          s = s\<lparr>ata_done := ata_done s @ [(req, st)]\<rparr>
      in if f \<noteq> 0 then on_dev (io_complete env f req st) s else s)"

definition ata_irq_handler :: "'d ata_env \<Rightarrow> 'd ata_state \<Rightarrow> 'd ata_state option" where
  "ata_irq_handler env s = do {
     let s = on_dev (\<lambda>d. snd (io_inb env ATA_PORT_STATUS d)) s;
     l \<leftarrow> lock_acquire (ata_lock s);
     let s = s\<lparr>ata_lock := l\<rparr>;
     s \<leftarrow> (case aq_head (ata_queue s) of
            None \<Rightarrow> Some s
          | Some req \<Rightarrow> do {
              (st, s) \<leftarrow> ata_finish_request env req s;
              let s = snd (ata_queue_dequeue_unlocked s);
              let s = ata_complete env req st s;
              Some (case aq_head (ata_queue s) of None \<Rightarrow> s | Some nx \<Rightarrow> ata_start_request env nx s)
            });
     Some (s\<lparr>ata_lock := lock_release (ata_lock s)\<rparr>)
   }"

section \<open>Finding the drives\<close>

text \<open>Waiting with a timeout; the result is the number of turns left.\<close>

fun ata_busy_timeout :: "'d ata_env \<Rightarrow> nat \<Rightarrow> 'd \<Rightarrow> nat \<times> 'd" where
  "ata_busy_timeout env 0 d = (0, d)"
| "ata_busy_timeout env (Suc n) d =
     (if n = 0 then (0, d)
      else case io_inb env ATA_PORT_STATUS d of
        (st, d) \<Rightarrow> if st AND ATA_BSY \<noteq> 0 then ata_busy_timeout env n d else (n, d))"

fun ata_drq_timeout :: "'d ata_env \<Rightarrow> nat \<Rightarrow> 'd \<Rightarrow> nat \<times> 'd" where
  "ata_drq_timeout env 0 d = (0, d)"
| "ata_drq_timeout env (Suc n) d =
     (if n = 0 then (0, d)
      else case io_inb env ATA_PORT_STATUS d of
        (st, d) \<Rightarrow> if st AND ATA_DRQ \<noteq> 0 then (n, d)
          else (case io_inb env ATA_PORT_STATUS d of
                  (st, d) \<Rightarrow> if st AND ATA_ERR \<noteq> 0 then (n, d) else ata_drq_timeout env n d))"

text \<open>One drive of \<open>ata_init\<close>; the request that identifies it is finished in place.\<close>

definition ata_init_one :: "'d ata_env \<Rightarrow> u8 \<Rightarrow> 'd \<Rightarrow> 'd option" where
  "ata_init_one env drive d =
     (case io_inb env ATA_PORT_STATUS d of (st, d) \<Rightarrow>
      if st = 0xFF then Some d
      else case ata_busy_timeout env 100000 (outbs env (ATA_DRIVE_INIT_PREPARE drive) d) of (timeout, d) \<Rightarrow>
      if timeout = 0 then Some d
      else case ata_drq_timeout env 100000 (outbs env (ATA_IDENTIFY_DRIVE drive) d) of (timeout, d) \<Rightarrow>
      if timeout = 0 then Some d
      else case io_inb env ATA_PORT_STATUS d of (st, d) \<Rightarrow>
      if st AND ATA_ERR \<noteq> 0 then Some d
      else case io_inb env ATA_PORT_STATUS (ata_read_id env 256 d) of (st, d) \<Rightarrow>
      if st = 0 then Some d
      else ata_init_drive env drive d)"

definition ata_init :: "'d ata_env \<Rightarrow> 'd ata_state \<Rightarrow> 'd ata_state option" where
  "ata_init env s = do {
     let s = ata_queue_init s;
     d \<leftarrow> ata_init_one env 0 (ata_dev s);
     d \<leftarrow> ata_init_one env 1 d;
     Some (s\<lparr>ata_dev := d\<rparr>)
   }"

end
