(* ===== verification/AtaProps.thy ===== *)
theory AtaProps
  imports Ata
begin

text \<open>
  What drivers/ata/ata.c does: requests are finished in the order they are submitted (the queue contract
  \<open>fifo_queue\<close>, for the driver with its interrupt), but no sector is ever transferred, and the commands
  that start a request name the wrong sectors.
\<close>

unbundle bit_operations_syntax

section \<open>Transfers\<close>

lemma ata_op_validate_rejects: "ata_op_validate sectors buffer = -1"
proof -
  have "(ucast MAX_SECTORS :: u8) = 0" by (simp add: MAX_SECTORS_def)
  then show ?thesis by (simp add: ata_op_validate_def word_gt_0)
qed

lemma ata_read_nothing [simp]: "ata_read env drive lba sectors buffer queued s = Some s"
  by (simp add: ata_read_def ata_op_validate_rejects)

lemma ata_write_nothing [simp]: "ata_write env drive lba sectors buffer queued s = Some s"
  by (simp add: ata_write_def ata_op_validate_rejects)

text \<open>C33: No sector is ever transferred. The largest number of sectors, 256, is cast to 8 bits and becomes 0,
  so every request is turned down as too large: reading and writing return without touching memory or
  disk, and the interrupt nevertheless reports a read or write request as finished with success.
\<close>

theorem ata_transfers_nothing:
  "ata_read env drive lba sectors buffer queued s = Some s \<and>
   ata_write env drive lba sectors buffer queued s = Some s \<and>
   ata_finish_request env req (upd_req req (\<lambda>x. x\<lparr>rq_type := ATA_REQ_READ\<rparr>) s) =
     Some (0, upd_req req (\<lambda>x. x\<lparr>rq_type := ATA_REQ_READ\<rparr>) s) \<and>
   ata_finish_request env req (upd_req req (\<lambda>x. x\<lparr>rq_type := ATA_REQ_WRITE\<rparr>) s) =
     Some (0, upd_req req (\<lambda>x. x\<lparr>rq_type := ATA_REQ_WRITE\<rparr>) s)"
  by (simp add: ata_finish_request_def upd_req_def)

text \<open>The command block does not tell sectors apart. The low byte of the sector number is never sent, and of
  the drive only the upper half of its number: all 256 sectors that differ in the low byte, on both
  drives, are addressed by the same writes to the ports.
\<close>

theorem ata_command_aliases:
  assumes "drive < 16" and "drop_bit 8 lba = drop_bit 8 lba'"
  shows "ATA_PREPARE_OP drive lba sectors cmd = ATA_PREPARE_OP 0 lba' sectors cmd"
proof -
  have "drop_bit 4 drive = 0"
    using assms(1) by (simp add: word_unat_eq_iff drop_bit_eq_div unat_div word_less_nat_alt)
  moreover have "drop_bit (8 + k) lba = drop_bit (8 + k) lba'" for k
    using arg_cong [OF assms(2), of "drop_bit k"] by (simp add: add.commute)
  from this [of 8] this [of 16] have "drop_bit 16 lba = drop_bit 16 lba'" "drop_bit 24 lba = drop_bit 24 lba'"
    by simp_all
  ultimately show ?thesis using assms(2) by (simp add: ATA_PREPARE_OP_def)
qed

theorem ata_command_aliases_witness:
  "ATA_PREPARE_OP 1 0x12345 1 ATA_CMD_READ = ATA_PREPARE_OP 0 0x12300 1 ATA_CMD_READ"
  by (rule ata_command_aliases) simp_all

section \<open>The queue\<close>

text \<open>The requests \<open>xs\<close> are linked from the head on, and the last one is the tail.\<close>

definition ata_list :: "'d ata_state \<Rightarrow> u32 list \<Rightarrow> bool" where
  "ata_list s xs \<longleftrightarrow>
     llist (\<lambda>r. rq_next (ata_reqs s r)) (aq_head (ata_queue s)) xs \<and>
     aq_tail (ata_queue s) = (if xs = [] then None else Some (last xs)) \<and>
     aq_length (ata_queue s) = of_nat (length xs)"

definition ata_rep :: "'d ata_state \<Rightarrow> u32 list \<Rightarrow> bool" where
  "ata_rep s xs \<longleftrightarrow> ata_lock s = 0 \<and> ata_list s xs"

lemma ata_list_head: "ata_list s xs \<Longrightarrow> aq_head (ata_queue s) = (case xs of [] \<Rightarrow> None | x # _ \<Rightarrow> Some x)"
  by (cases xs) (auto simp: ata_list_def)

lemma ata_list_cong:
  "ata_queue s' = ata_queue s \<Longrightarrow> ata_reqs s' = ata_reqs s \<Longrightarrow> ata_list s' xs = ata_list s xs"
  by (simp add: ata_list_def)

text \<open>What starting and finishing a request leave alone.\<close>

definition same_queue :: "'d ata_state \<Rightarrow> 'd ata_state \<Rightarrow> bool" where
  "same_queue s s' \<longleftrightarrow> ata_queue s' = ata_queue s \<and> ata_reqs s' = ata_reqs s \<and>
     ata_lock s' = ata_lock s \<and> ata_done s' = ata_done s"

lemma ata_start_request_same: "same_queue s (ata_start_request env req s)"
  by (simp add: ata_start_request_def same_queue_def Let_def split: ata_req_type_t.split)

lemma ata_finish_request_same: "\<exists>st s'. ata_finish_request env req s = Some (st, s') \<and> same_queue s s'"
  by (cases "rq_type (ata_reqs s req)") (simp_all add: ata_finish_request_def same_queue_def)

text \<open>The links of a request store, after the two updates of an insertion.\<close>

lemma next_upd: "(\<lambda>r. rq_next (ata_reqs (upd_req q (\<lambda>x. x\<lparr>rq_next := v\<rparr>) s) r)) = (\<lambda>r. rq_next (ata_reqs s r))(q := v)"
  by (auto simp: upd_req_def)

lemma upd_simps [simp]:
  "ata_queue (upd_req q f s) = ata_queue s" "ata_lock (upd_req q f s) = ata_lock s" "ata_done (upd_req q f s) = ata_done s"
  "ata_dev (upd_req q f s) = ata_dev s"
  "ata_queue (upd_queue g s) = g (ata_queue s)" "ata_lock (upd_queue g s) = ata_lock s"
  "ata_done (upd_queue g s) = ata_done s" "ata_reqs (upd_queue g s) = ata_reqs s" "ata_dev (upd_queue g s) = ata_dev s"
  by (simp_all add: upd_req_def upd_queue_def)

lemma enqueue_list:
  assumes "ata_list s xs" and "x \<notin> set xs"
  shows "ata_list (ata_queue_enqueue_unlocked x s) (xs @ [x]) \<and>
    ata_lock (ata_queue_enqueue_unlocked x s) = ata_lock s \<and> ata_done (ata_queue_enqueue_unlocked x s) = ata_done s"
proof (cases "xs = []")
  case True
  with assms(1) show ?thesis
    by (simp add: ata_list_def ata_queue_enqueue_unlocked_def upd_req_def)
next
  case False
  let ?nx = "\<lambda>r. rq_next (ata_reqs s r)"
  have "llist (?nx(last xs := Some x, x := None)) (aq_head (ata_queue s)) (xs @ [x])"
    using assms False by (intro llist_append_node) (simp_all add: ata_list_def)
  moreover have "last xs \<noteq> x" using False assms(2) by auto
  ultimately have "llist (?nx(x := None, last xs := Some x)) (aq_head (ata_queue s)) (xs @ [x])"
    by (simp add: fun_upd_twist)
  with assms(1) False show ?thesis
    by (simp add: ata_list_def ata_queue_enqueue_unlocked_def next_upd)
qed

lemma dequeue_list:
  assumes "ata_list s (x # xs)"
  shows "\<exists>s'. ata_queue_dequeue_unlocked s = (Some x, s') \<and> ata_list s' xs \<and>
    ata_lock s' = ata_lock s \<and> ata_done s' = ata_done s"
proof -
  let ?nx = "\<lambda>r. rq_next (ata_reqs s r)"
  have hd: "aq_head (ata_queue s) = Some x" and l: "llist ?nx (Some x) (x # xs)"
    using assms by (auto simp: ata_list_def)
  have "llist (?nx(x := None)) (?nx x) xs" using l by (rule llist_unlink_head)
  moreover have "?nx x = None \<longleftrightarrow> xs = []" using l by (cases xs) auto
  ultimately show ?thesis
    using assms hd by (auto simp: ata_list_def ata_queue_dequeue_unlocked_def next_upd Let_def)
qed

section \<open>The driver as a queue\<close>

lemma same_queue_rep: "same_queue s s' \<Longrightarrow> ata_list s' xs = ata_list s xs"
  by (rule ata_list_cong) (simp_all add: same_queue_def)

lemma ata_submit_rep:
  assumes rep: "ata_rep s xs" and x: "x \<notin> set xs"
  shows "\<exists>s'. ata_submit env x s = Some s' \<and> ata_rep s' (xs @ [x]) \<and> ata_done s' = ata_done s"
proof -
  let ?l = "s\<lparr>ata_lock := 1\<rparr>"
  let ?e = "ata_queue_enqueue_unlocked x ?l"
  let ?s = "if aq_head (ata_queue s) = None then ata_start_request env x ?e else ?e"
  have "ata_list ?l xs" using rep ata_list_cong [of ?l s] by (simp add: ata_rep_def)
  from enqueue_list [OF this x] have e: "ata_list ?e (xs @ [x])" "ata_lock ?e = 1" "ata_done ?e = ata_done s" by simp_all
  have sq: "same_queue ?e ?s" using ata_start_request_same [of ?e env x] by (simp add: same_queue_def)
  have s: "ata_list ?s (xs @ [x])" "ata_lock ?s = 1" "ata_done ?s = ata_done s"
    using same_queue_rep [OF sq] sq [unfolded same_queue_def] e by (simp_all only:)
  have "ata_submit env x s = Some (?s\<lparr>ata_lock := 0\<rparr>)"
    using rep s(2) by (simp add: ata_submit_def ata_rep_def Let_def)
  moreover have "ata_rep (?s\<lparr>ata_lock := 0\<rparr>) (xs @ [x])"
    using s(1) ata_list_cong [of "?s\<lparr>ata_lock := 0\<rparr>" ?s] by (simp add: ata_rep_def)
  ultimately show ?thesis using s(3) by simp
qed

text \<open>The interrupt, together with the request it finishes.\<close>

definition ata_finished :: "'d ata_env \<Rightarrow> 'd ata_state \<Rightarrow> (u32 option \<times> 'd ata_state) option" where
  "ata_finished env s = map_option (Pair (aq_head (ata_queue s))) (ata_irq_handler env s)"

lemma ata_irq_rep:
  assumes rep: "ata_rep s xs"
  shows "\<exists>s'. ata_irq_handler env s = Some s' \<and> ata_rep s' (tl xs) \<and>
    map fst (ata_done s') = map fst (ata_done s) @ take 1 xs"
proof -
  let ?l = "on_dev (\<lambda>d. snd (io_inb env ATA_PORT_STATUS d)) s\<lparr>ata_lock := 1\<rparr>"
  have l: "ata_list ?l xs" "ata_lock ?l = 1" "ata_done ?l = ata_done s"
    using rep ata_list_cong [of ?l s] by (simp_all add: ata_rep_def)
  have hd: "aq_head (ata_queue s) = (case xs of [] \<Rightarrow> None | x # _ \<Rightarrow> Some x)"
    using rep ata_list_head [of s xs] by (simp add: ata_rep_def)
  show ?thesis
  proof (cases xs)
    case Nil
    then have "ata_irq_handler env s = Some (?l\<lparr>ata_lock := 0\<rparr>)"
      using rep hd by (simp add: ata_irq_handler_def ata_rep_def)
    moreover have "ata_rep (?l\<lparr>ata_lock := 0\<rparr>) []"
      using l(1) Nil ata_list_cong [of "?l\<lparr>ata_lock := 0\<rparr>" ?l] by (simp add: ata_rep_def)
    ultimately show ?thesis using Nil by simp
  next
    case (Cons x ys)
    from ata_finish_request_same [of env x ?l] obtain st s1 where
      s1: "ata_finish_request env x ?l = Some (st, s1)" "same_queue ?l s1" by blast
    from l(1) have "ata_list s1 (x # ys)" using same_queue_rep [OF s1(2)] Cons by simp
    from dequeue_list [OF this] obtain s2 where
      s2: "ata_queue_dequeue_unlocked s1 = (Some x, s2)" "ata_list s2 ys" "ata_lock s2 = ata_lock s1"
        "ata_done s2 = ata_done s1" by blast
    let ?c = "ata_complete env x st s2"
    have c: "ata_list ?c ys" "ata_lock ?c = 1" "ata_done ?c = ata_done s @ [(x, st)]"
      using s2 s1(2) l(2) ata_list_cong [of ?c s2] by (auto simp: ata_complete_def same_queue_def Let_def)
    let ?s = "case aq_head (ata_queue ?c) of None \<Rightarrow> ?c | Some nx \<Rightarrow> ata_start_request env nx ?c"
    have sq: "same_queue ?c ?s" using ata_start_request_same [of ?c env]
      by (simp add: same_queue_def split: option.split)
    have s: "ata_list ?s ys" "ata_lock ?s = 1" "ata_done ?s = ata_done s @ [(x, st)]"
      using same_queue_rep [OF sq] sq [unfolded same_queue_def] c by (simp_all only:)
    have "ata_irq_handler env s = Some (?s\<lparr>ata_lock := 0\<rparr>)"
      using rep hd Cons s1(1) s2(1) s(2) by (simp add: ata_irq_handler_def ata_rep_def Let_def cong: option.case_cong)
    moreover have "ata_rep (?s\<lparr>ata_lock := 0\<rparr>) ys"
      using s(1) ata_list_cong [of "?s\<lparr>ata_lock := 0\<rparr>" ?s] by (simp add: ata_rep_def)
    ultimately show ?thesis using s(3) Cons by simp
  qed
qed

interpretation aq: fifo_queue "\<lambda>s x. ata_submit env x s" "ata_finished env" ata_rep for env :: "'d ata_env"
proof unfold_locales
  fix s :: "'d ata_state" and xs x assume "ata_rep s xs" and "x \<notin> set xs"
  then show "\<exists>s'. ata_submit env x s = Some s' \<and> ata_rep s' (xs @ [x])" using ata_submit_rep by blast
next
  fix s :: "'d ata_state" assume "ata_rep s []"
  then show "\<exists>s'. ata_finished env s = Some (None, s') \<and> ata_rep s' []"
    using ata_irq_rep [of s "[]" env] ata_list_head [of s "[]"] by (auto simp: ata_finished_def ata_rep_def)
next
  fix s :: "'d ata_state" and x xs assume "ata_rep s (x # xs)"
  then show "\<exists>s'. ata_finished env s = Some (Some x, s') \<and> ata_rep s' xs"
    using ata_irq_rep [of s "x # xs" env] ata_list_head [of s "x # xs"] by (auto simp: ata_finished_def ata_rep_def)
qed

text \<open>The record of finished requests is what the interrupts have taken out.\<close>

lemma ata_finished_step:
  assumes "ata_rep s xs"
  shows "\<exists>s'. ata_finished env s = Some (case xs of [] \<Rightarrow> None | x # _ \<Rightarrow> Some x, s') \<and> ata_rep s' (tl xs) \<and>
    map fst (ata_done s') = map fst (ata_done s) @ take 1 xs"
  using ata_irq_rep [OF assms, of env] ata_list_head [of s xs] assms by (auto simp: ata_finished_def ata_rep_def)

lemma ata_done_run:
  "queue_run (\<lambda>s x. ata_submit env x s) (ata_finished env) s ops = Some (s', out) \<Longrightarrow> ata_rep s xs \<Longrightarrow> fresh_puts xs ops \<Longrightarrow>
   map fst (ata_done s') = map fst (ata_done s) @ [r. Some r \<leftarrow> out]"
proof (induction xs ops arbitrary: s s' out rule: queue_spec.induct)
  case (1 xs)
  then show ?case by simp
next
  case (2 xs x ops)
  then obtain s1 where "ata_submit env x s = Some s1" "ata_rep s1 (xs @ [x])" "ata_done s1 = ata_done s"
    using ata_submit_rep [of s xs x env] by auto
  with 2 show ?case by simp
next
  case (3 ops)
  from ata_finished_step [OF 3(3), of env] obtain s1 where
    s1: "ata_finished env s = Some (None, s1)" "ata_rep s1 []" "map fst (ata_done s1) = map fst (ata_done s)" by auto
  from 3(2) s1(1) obtain out' where "queue_run (\<lambda>s x. ata_submit env x s) (ata_finished env) s1 ops = Some (s', out')"
    "out = None # out'" by (auto split: bind_splits)
  with 3(1) [of s1 s' out'] 3(4) s1 show ?case by simp
next
  case (4 x xs ops)
  from ata_finished_step [OF 4(3), of env] obtain s1 where
    s1: "ata_finished env s = Some (Some x, s1)" "ata_rep s1 xs" "map fst (ata_done s1) = map fst (ata_done s) @ [x]" by auto
  from 4(2) s1(1) obtain out' where "queue_run (\<lambda>s x. ata_submit env x s) (ata_finished env) s1 ops = Some (s', out')"
    "out = Some x # out'" by (auto split: bind_splits)
  with 4(1) [of s1 s' out'] 4(4) s1 show ?case by simp
qed

text \<open>C32: Disk requests are served first come, first served. Whatever sequence of submissions and interrupts
  happens, as long as no request is submitted while it is waiting, the driver returns and behaves as
  a queue: each interrupt finishes the request that has waited longest, and the record of finished
  requests grows by exactly those, in that order.
\<close>

theorem ata_requests_in_order:
  assumes rep: "ata_rep s xs" and fresh: "fresh_puts xs ops"
  shows "\<exists>s' out. queue_run (\<lambda>s x. ata_submit env x s) (ata_finished env) s ops = Some (s', out) \<and>
     (fst (queue_spec xs ops), out) = queue_spec xs ops \<and> ata_rep s' (fst (queue_spec xs ops)) \<and>
     map fst (ata_done s') = map fst (ata_done s) @ [r. Some r \<leftarrow> out]"
proof -
  from aq.run_refines [OF rep fresh, of env] obtain s' where
    s': "queue_run (\<lambda>s x. ata_submit env x s) (ata_finished env) s ops = Some (s', snd (queue_spec xs ops))"
      "ata_rep s' (fst (queue_spec xs ops))" by blast
  with ata_done_run [OF s'(1) rep fresh] show ?thesis
    by (intro exI [of _ s'] exI [of _ "snd (queue_spec xs ops)"]) simp
qed

text \<open>A disk whose ports read 0, and an empty queue.\<close>

definition demo_ata_env :: "unit ata_env" where
  "demo_ata_env = \<lparr>io_inb = (\<lambda>p d. (0, d)), io_inw = (\<lambda>p d. (0, d)), io_outb = (\<lambda>p v d. d), io_outw = (\<lambda>p v d. d),
               io_complete = (\<lambda>f r st d. d)\<rparr>"

definition demo_ata :: "unit ata_state" where
  "demo_ata = ata_queue_init \<lparr>ata_queue = \<lparr>aq_head = None, aq_tail = None, aq_length = 0, aq_lock = 0\<rparr>, ata_lock = 0,
     ata_reqs = (\<lambda>r. \<lparr>rq_type = ATA_REQ_READ, rq_drive = 0, rq_lba = 0, rq_sector_count = 1, rq_buffer = 0x1000,
                      rq_completion = 0, rq_next = None\<rparr>),
     ata_mem = (\<lambda>a. 0), ata_dev = (), ata_done = []\<rparr>"

theorem ata_requests_in_order_witness:
  "\<exists>s' out. queue_run (\<lambda>s x. ata_submit demo_ata_env x s) (ata_finished demo_ata_env) demo_ata [Put 0x2000, Put 0x3000, Get, Get] =
      Some (s', out) \<and> out = [Some 0x2000, Some 0x3000] \<and> map fst (ata_done s') = [0x2000, 0x3000]"
proof -
  have "ata_rep demo_ata []" by (simp add: ata_rep_def ata_list_def demo_ata_def ata_queue_init_def upd_queue_def)
  from ata_requests_in_order [OF this, of "[Put 0x2000, Put 0x3000, Get, Get]" demo_ata_env] show ?thesis
    by (auto simp: demo_ata_def ata_queue_init_def upd_queue_def)
qed

end
