(* ===== verification/Ports.thy ===== *)
theory Ports
  imports Memory
begin

text \<open>
  The port instructions (drivers/io/io.c). What sits behind the ports is a device with a state of its own;
  the instructions are a record of functions on it, a parameter of the drivers.
\<close>

record 'd ports =
  p_inb :: "u16 \<Rightarrow> 'd \<Rightarrow> u8 \<times> 'd"
  p_outb :: "u16 \<Rightarrow> u8 \<Rightarrow> 'd \<Rightarrow> 'd"
  p_inw :: "u16 \<Rightarrow> 'd \<Rightarrow> u16 \<times> 'd"
  p_outw :: "u16 \<Rightarrow> u16 \<Rightarrow> 'd \<Rightarrow> 'd"

text \<open>Bytes written one after the other.\<close>

definition out_all :: "'d ports \<Rightarrow> (u16 \<times> u8) list \<Rightarrow> 'd \<Rightarrow> 'd" where
  "out_all P ws d = fold (\<lambda>(p, v). p_outb P p v) ws d"

lemma out_all_simps [simp]:
  "out_all P [] d = d"
  "out_all P ((p, v) # ws) d = out_all P ws (p_outb P p v d)"
  "out_all P (xs @ ys) d = out_all P ys (out_all P xs d)"
  by (simp_all add: out_all_def)

text \<open>
  A device that keeps what was written to it, newest last, and answers every read with a fixed byte or word: what
  a driver does is read off its log.
\<close>

datatype port_write = OutB u16 u8 | OutW u16 u16

definition log_ports :: "(u16 \<Rightarrow> u8) \<Rightarrow> (u16 \<Rightarrow> u16) \<Rightarrow> port_write list ports" where
  "log_ports b w = \<lparr>p_inb = (\<lambda>p d. (b p, d)), p_outb = (\<lambda>p v d. d @ [OutB p v]),
     p_inw = (\<lambda>p d. (w p, d)), p_outw = (\<lambda>p v d. d @ [OutW p v])\<rparr>"

lemma log_ports_simps [simp]:
  "p_inb (log_ports b w) p d = (b p, d)" "p_outb (log_ports b w) p v d = d @ [OutB p v]"
  "p_inw (log_ports b w) p d = (w p, d)" "p_outw (log_ports b w) p v' d = d @ [OutW p v']"
  by (simp_all add: log_ports_def)

lemma out_all_log [simp]: "out_all (log_ports b w) ws d = d @ map (\<lambda>(p, v). OutB p v) ws"
  by (induction ws arbitrary: d) auto

end
