(* ===== verification/Interrupts.thy ===== *)
theory Interrupts
  imports Ports SyscallMemProps
begin

text \<open>
  interrupts/interrupts.c: the interrupt descriptor table, the two interrupt controllers, the timer and the
  dispatch of an interrupt. The state of the machine is that of the kernel with the tick counter, the tables
  and the devices behind the ports. What the keyboard does with a key is a parameter; the stubs that save the
  registers (interrupts_asm.asm) are assembly and are the list of their addresses.
\<close>

section \<open>State\<close>

record idt_entry_t =
  ie_base_low :: u16
  ie_sel :: u16
  ie_always0 :: u8
  ie_flags :: u8
  ie_base_high :: u16

record idt_ptr_t =
  ip_limit :: u16
  ip_base :: u32

record int_frame =
  f_gs :: u32
  f_fs :: u32
  f_es :: u32
  f_ds :: u32
  f_edi :: u32
  f_esi :: u32
  f_ebp :: u32
  f_esp_dummy :: u32
  f_ebx :: u32
  f_edx :: u32
  f_ecx :: u32
  f_eax :: u32
  f_int_no :: u32
  f_err_code :: u32
  f_eip :: u32
  f_cs :: u32
  f_eflags :: u32
  f_useresp :: u32
  f_ss :: u32

text \<open>\<open>mc_if\<close> is the interrupt flag, \<open>mc_esp\<close> the stack pointer, \<open>mc_idtr\<close> what \<open>lidt\<close> has loaded.\<close>

record 'd machine = kernel +
  global_tick_count :: u32
  idt :: "idt_entry_t list"
  idtp :: idt_ptr_t
  mc_idtr :: "idt_ptr_t option"
  mc_if :: bool
  mc_esp :: u32
  mc_dev :: 'd

definition IDT_SIZE :: nat where "IDT_SIZE = 256"
definition ISR_STACK_SIZE :: u32 where "ISR_STACK_SIZE = 8192"
definition PIC1_COMMAND :: u16 where "PIC1_COMMAND = 0x20"
definition PIC1_DATA :: u16 where "PIC1_DATA = 0x21"
definition PIC2_COMMAND :: u16 where "PIC2_COMMAND = 0xA0"
definition PIC2_DATA :: u16 where "PIC2_DATA = 0xA1"
definition IDT_FLAGS :: u8 where "IDT_FLAGS = 0x8E"
definition ICW1_INIT :: u8 where "ICW1_INIT = 0x10"
definition ICW1_ICW4 :: u8 where "ICW1_ICW4 = 0x01"
definition ICW4_8086 :: u8 where "ICW4_8086 = 0x01"
definition PIC1_V_OFFSET :: u8 where "PIC1_V_OFFSET = 0x20"
definition PIC2_V_OFFSET :: u8 where "PIC2_V_OFFSET = 0x28"
definition PIC1_IRQ2 :: u8 where "PIC1_IRQ2 = 0x04"
definition PIC2_CSC_ID :: u8 where "PIC2_CSC_ID = 0x02"
definition PIC1_MASK :: u8 where "PIC1_MASK = 0xFC"
definition PIC2_MASK :: u8 where "PIC2_MASK = 0xFF"
definition PIC_EOI :: u8 where "PIC_EOI = 0x20"
definition PIT_FREQUENCY :: u32 where "PIT_FREQUENCY = 100"
definition PIT_COMMAND_PORT :: u16 where "PIT_COMMAND_PORT = 0x43"
definition PIT_CHANNEL0_PORT :: u16 where "PIT_CHANNEL0_PORT = 0x40"
definition PIT_BASE_FREQUENCY :: u32 where "PIT_BASE_FREQUENCY = 1193182"
definition PIT_COMMAND_MODE :: u8 where "PIT_COMMAND_MODE = 0x36"
definition PIT_DIVISOR_LSB_MASK :: u16 where "PIT_DIVISOR_LSB_MASK = 0xFF"
definition PIT_DIVISOR_MSB_SHIFT :: nat where "PIT_DIVISOR_MSB_SHIFT = 8"
definition KERNEL_CODE_SEGMENT :: u16 where "KERNEL_CODE_SEGMENT = 0x08"

definition INT_TYPE_PIT :: u32 where "INT_TYPE_PIT = 32"
definition INT_TYPE_KEYBOARD :: u32 where "INT_TYPE_KEYBOARD = 33"
definition INT_TYPE_SYSCALL :: u32 where "INT_TYPE_SYSCALL = 80"

section \<open>Dispatch\<close>

definition pic_eoi :: "'d ports \<Rightarrow> u8 \<Rightarrow> 'd \<Rightarrow> 'd" where
  "pic_eoi P irq d = out_all P ((if irq \<ge> 8 then [(PIC2_COMMAND, PIC_EOI)] else []) @ [(PIC1_COMMAND, PIC_EOI)]) d"

abbreviation on_machine_dev :: "('d \<Rightarrow> 'd) \<Rightarrow> 'd machine \<Rightarrow> 'd machine" where
  "on_machine_dev f s \<equiv> s\<lparr>mc_dev := f (mc_dev s)\<rparr>"

definition SYSCALL_ISR_DISPATCH ::
  "'d machine sys_env \<Rightarrow> int_frame \<Rightarrow> 'd machine \<Rightarrow> (int_frame \<times> 'd machine) option" where
  "SYSCALL_ISR_DISPATCH E frame s = do {
     (ret, s) \<leftarrow> c_syscall_routine E (f_eax frame)
        \<lparr>sc_a1 = f_ebx frame, sc_a2 = f_ecx frame, sc_a3 = f_edx frame, sc_a4 = f_esi frame, sc_a5 = f_edi frame\<rparr> s;
     Some (frame\<lparr>f_eax := ret\<rparr>, s)
   }"

text \<open>
  The third component says whether the processor is halted until the next interrupt. The exceptions that have a case of their own
  only differ in the message they print.
\<close>

definition isr_dispatch ::
  "'d ports \<Rightarrow> ('d machine \<Rightarrow> 'd machine option) \<Rightarrow> 'd machine sys_env \<Rightarrow> int_frame \<Rightarrow> 'd machine \<Rightarrow>
     (int_frame \<times> 'd machine \<times> bool) option" where
  "isr_dispatch P keyboard_handler E frame s =
     (if f_int_no frame = INT_TYPE_PIT then
        let s = s\<lparr>global_tick_count := global_tick_count s + 1\<rparr>
        in Some (frame, on_machine_dev (pic_eoi P 0) s, False)
      else if f_int_no frame = INT_TYPE_KEYBOARD then do {
        s \<leftarrow> keyboard_handler s;
        Some (frame, on_machine_dev (pic_eoi P 1) s, False)
      } else if f_int_no frame = INT_TYPE_SYSCALL then do {
        (frame, s) \<leftarrow> SYSCALL_ISR_DISPATCH E frame s;
        Some (frame, s, False)
      } else
        Some (frame,
          (if f_int_no frame \<ge> 32 then on_machine_dev (pic_eoi P (ucast (f_int_no frame - 32))) s else s), True))"

section \<open>Setting up\<close>

text \<open>
  The stack pointer is set inside of the function, so it is the one that the rest of the caller runs on. (The compiler may restore it
  when the function returns; C says nothing of it.)
\<close>

definition interrupts_stack_init :: "u32 \<Rightarrow> 'd machine \<Rightarrow> 'd machine" where
  "interrupts_stack_init interrupt_stack s = s\<lparr>mc_esp := interrupt_stack + ISR_STACK_SIZE\<rparr>"

definition idt_gate :: "u32 \<Rightarrow> idt_entry_t" where
  "idt_gate base = \<lparr>ie_base_low = ucast (base AND 0xFFFF), ie_sel = KERNEL_CODE_SEGMENT, ie_always0 = 0,
     ie_flags = IDT_FLAGS, ie_base_high = ucast (drop_bit 16 base AND 0xFFFF)\<rparr>"

definition idt_set_entry :: "nat \<Rightarrow> u32 \<Rightarrow> 'd machine \<Rightarrow> 'd machine option" where
  "idt_set_entry n base s =
     (if n < length (idt s) then Some (s\<lparr>idt := (idt s)[n := idt_gate base]\<rparr>) else None)"

definition pic_writes :: "(u16 \<times> u8) list" where
  "pic_writes =
     [(PIC1_COMMAND, ICW1_INIT OR ICW1_ICW4), (PIC2_COMMAND, ICW1_INIT OR ICW1_ICW4),
      (PIC1_DATA, PIC1_V_OFFSET), (PIC2_DATA, PIC2_V_OFFSET), (PIC1_DATA, PIC1_IRQ2), (PIC2_DATA, PIC2_CSC_ID),
      (PIC1_DATA, ICW4_8086), (PIC2_DATA, ICW4_8086), (PIC1_DATA, PIC1_MASK), (PIC2_DATA, PIC2_MASK)]"

definition pic_init :: "'d ports \<Rightarrow> 'd machine \<Rightarrow> 'd machine" where
  "pic_init P s = on_machine_dev (out_all P pic_writes) s"

definition pit_divisor :: u16 where
  "pit_divisor = ucast (PIT_BASE_FREQUENCY div PIT_FREQUENCY)"

definition pit_init :: "'d ports \<Rightarrow> 'd machine \<Rightarrow> 'd machine" where
  "pit_init P s = on_machine_dev (out_all P
     [(PIT_COMMAND_PORT, PIT_COMMAND_MODE),
      (PIT_CHANNEL0_PORT, ucast (pit_divisor AND PIT_DIVISOR_LSB_MASK)),
      (PIT_CHANNEL0_PORT, ucast (drop_bit PIT_DIVISOR_MSB_SHIFT pit_divisor AND PIT_DIVISOR_LSB_MASK))]) s"

function idt_set_stubs :: "(nat \<Rightarrow> u32) \<Rightarrow> nat \<Rightarrow> 'd machine \<Rightarrow> 'd machine option" where
  "idt_set_stubs isr_stub_table i s =
     (if i < IDT_SIZE then do {
        s \<leftarrow> idt_set_entry i (isr_stub_table i) s;
        idt_set_stubs isr_stub_table (Suc i) s
      } else Some s)"
  by pat_completeness auto

termination
  by (relation "measure (\<lambda>(t, i, s). IDT_SIZE - i)") auto

declare idt_set_stubs.simps [simp del]

text \<open>\<open>idt_addr\<close> is the address of the table; an entry takes 8 bytes.\<close>

definition idt_init :: "(nat \<Rightarrow> u32) \<Rightarrow> u32 \<Rightarrow> 'd machine \<Rightarrow> 'd machine option" where
  "idt_init isr_stub_table idt_addr s = do {
     let s = s\<lparr>idtp := \<lparr>ip_limit = of_nat (8 * length (idt s)) - 1, ip_base = idt_addr\<rparr>\<rparr>;
     s \<leftarrow> idt_set_stubs isr_stub_table 0 s;
     let s = s\<lparr>mc_idtr := Some (idtp s)\<rparr>;
     Some (s\<lparr>mc_if := True\<rparr>)
   }"

definition interrupts_init :: "'d ports \<Rightarrow> u32 \<Rightarrow> (nat \<Rightarrow> u32) \<Rightarrow> u32 \<Rightarrow> 'd machine \<Rightarrow> 'd machine option" where
  "interrupts_init P interrupt_stack isr_stub_table idt_addr s =
     (let s = interrupts_stack_init interrupt_stack s;
          s = pic_init P s;
          s = pit_init P s
      in idt_init isr_stub_table idt_addr s)"

section \<open>The tables\<close>

text \<open>Where the processor goes for an entry, and the privilege it asks for.\<close>

definition gate_base :: "idt_entry_t \<Rightarrow> u32" where
  "gate_base e = ucast (ie_base_low e) OR push_bit 16 (ucast (ie_base_high e))"

definition gate_dpl :: "idt_entry_t \<Rightarrow> u8" where
  "gate_dpl e = drop_bit 5 (ie_flags e) AND 3"

lemma gate_base_idt_gate [simp]: "gate_base (idt_gate base) = base"
proof (rule bit_word_eqI)
  fix n assume n: "n < LENGTH(32)"
  have m: "(0xFFFF :: u32) = mask 16" by (simp add: mask_eq_exp_minus_1)
  from n consider "n < 16" | "16 \<le> n" "n < 32" by fastforce
  then show "bit (gate_base (idt_gate base)) n = bit base n"
    unfolding gate_base_def idt_gate_def m by cases (auto simp: bit_simps)
qed

lemma idt_set_stubs_spec:
  assumes "length (idt s) = IDT_SIZE"
  shows "idt_set_stubs tbl i s =
     Some (s\<lparr>idt := map (\<lambda>n. if i \<le> n then idt_gate (tbl n) else idt s ! n) [0..<IDT_SIZE]\<rparr>)"
  using assms
proof (induction "IDT_SIZE - i" arbitrary: i s)
  case 0
  have "map (\<lambda>n. if i \<le> n then idt_gate (tbl n) else idt s ! n) [0..<IDT_SIZE] = map (\<lambda>n. idt s ! n) [0..<IDT_SIZE]"
    using 0(1) by (intro map_cong) auto
  also have "\<dots> = idt s" using 0(2) map_nth by metis
  finally show ?case using 0(1) by (subst idt_set_stubs.simps) simp
next
  case (Suc k)
  then have i: "i < IDT_SIZE" by simp
  define s' where "s' = s\<lparr>idt := (idt s)[i := idt_gate (tbl i)]\<rparr>"
  have "idt_set_stubs tbl i s = idt_set_stubs tbl (Suc i) s'"
    using i Suc.prems by (subst idt_set_stubs.simps) (simp add: idt_set_entry_def s'_def)
  also have "\<dots> = Some (s'\<lparr>idt := map (\<lambda>n. if Suc i \<le> n then idt_gate (tbl n) else idt s' ! n) [0..<IDT_SIZE]\<rparr>)"
    using Suc.hyps(2) Suc.prems by (intro Suc.hyps(1)) (simp_all add: s'_def)
  also have "map (\<lambda>n. if Suc i \<le> n then idt_gate (tbl n) else idt s' ! n) [0..<IDT_SIZE] =
      map (\<lambda>n. if i \<le> n then idt_gate (tbl n) else idt s ! n) [0..<IDT_SIZE]"
  proof (intro map_cong refl)
    fix n assume "n \<in> set [0..<IDT_SIZE]"
    then show "(if Suc i \<le> n then idt_gate (tbl n) else idt s' ! n) = (if i \<le> n then idt_gate (tbl n) else idt s ! n)"
      using Suc.prems by (cases "n = i") (auto simp: s'_def)
  qed
  finally show ?case by (simp add: s'_def)
qed

lemma kernel_unchanged [simp]:
  "kernel.truncate (s\<lparr>global_tick_count := a\<rparr>) = kernel.truncate s" "kernel.truncate (s\<lparr>idt := b\<rparr>) = kernel.truncate s"
  "kernel.truncate (s\<lparr>idtp := c\<rparr>) = kernel.truncate s" "kernel.truncate (s\<lparr>mc_idtr := d\<rparr>) = kernel.truncate s"
  "kernel.truncate (s\<lparr>mc_if := e\<rparr>) = kernel.truncate s" "kernel.truncate (s\<lparr>mc_esp := f\<rparr>) = kernel.truncate s"
  "kernel.truncate (s\<lparr>mc_dev := g\<rparr>) = kernel.truncate s"
  by (simp_all add: kernel.defs)

text \<open>C34: \<open>interrupts_init\<close> puts the address of every stub into its entry of the table, with the kernel's code segment 0x08, as an interrupt
  gate that only the kernel may call; it loads the table with its size and turns interrupts on, after the stack, the two
  controllers and the timer have been set up, and it changes nothing of the other components. The bytes that reach the ports are exactly these, in this
  order: 0x11 to both controllers; the vectors 32 and 40; the line 2 of the master and the number 2 of the slave; 8086 mode for
  both; the masks, which let only the timer and the keyboard through; then the mode and the two bytes of 11931, for the
  timer.
\<close>

theorem interrupts_init_correct:
  assumes "length (idt s) = IDT_SIZE"
  shows "\<exists>s'. interrupts_init P stk tbl a s = Some s' \<and>
     (\<forall>n < 256. gate_base (idt s' ! n) = tbl n \<and> ie_sel (idt s' ! n) = 0x08 \<and>
        ie_flags (idt s' ! n) = 0x8E \<and> gate_dpl (idt s' ! n) = 0) \<and>
     mc_idtr s' = Some \<lparr>ip_limit = 2047, ip_base = a\<rparr> \<and> mc_if s' \<and> mc_esp s' = stk + 8192 \<and>
     mc_dev s' = out_all P
       [(0x20, 0x11), (0xA0, 0x11), (0x21, 32), (0xA1, 40), (0x21, 4), (0xA1, 2), (0x21, 1), (0xA1, 1), (0x21, 0xFC), (0xA1, 0xFF),
        (0x43, 0x36), (0x40, 0x9B), (0x40, 0x2E)] (mc_dev s) \<and>
     kernel.truncate s' = kernel.truncate s \<and> global_tick_count s' = global_tick_count s"
proof -
  have div: "pit_divisor = 11931" by (simp add: pit_divisor_def PIT_BASE_FREQUENCY_def PIT_FREQUENCY_def)
  have pic: "pic_writes =
      [(0x20, 0x11), (0xA0, 0x11), (0x21, 32), (0xA1, 40), (0x21, 4), (0xA1, 2), (0x21, 1), (0xA1, 1), (0x21, 0xFC), (0xA1, 0xFF)]"
    by (simp add: pic_writes_def PIC1_COMMAND_def PIC2_COMMAND_def PIC1_DATA_def PIC2_DATA_def ICW1_INIT_def ICW1_ICW4_def
        ICW4_8086_def PIC1_V_OFFSET_def PIC2_V_OFFSET_def PIC1_IRQ2_def PIC2_CSC_ID_def PIC1_MASK_def PIC2_MASK_def)
  define s1 where "s1 = pit_init P (pic_init P (interrupts_stack_init stk s))"
  have s1: "idt s1 = idt s" "mc_esp s1 = stk + 8192" "kernel.truncate s1 = kernel.truncate s" "global_tick_count s1 = global_tick_count s"
    "mc_dev s1 = out_all P (pic_writes @ [(0x43, 0x36), (0x40, 0x9B), (0x40, 0x2E)]) (mc_dev s)"
    by (simp_all add: s1_def pit_init_def pic_init_def interrupts_stack_init_def div PIT_COMMAND_PORT_def PIT_CHANNEL0_PORT_def
        PIT_COMMAND_MODE_def PIT_DIVISOR_LSB_MASK_def PIT_DIVISOR_MSB_SHIFT_def ISR_STACK_SIZE_def)
  define s2 where "s2 = s1\<lparr>idtp := \<lparr>ip_limit = of_nat (8 * length (idt s1)) - 1, ip_base = a\<rparr>\<rparr>"
  have "idt_set_stubs tbl 0 s2 = Some (s2\<lparr>idt := map (\<lambda>n. idt_gate (tbl n)) [0..<IDT_SIZE]\<rparr>)"
    using assms by (subst idt_set_stubs_spec) (simp_all add: s2_def s1)
  then have "interrupts_init P stk tbl a s =
      Some (s2\<lparr>idt := map (\<lambda>n. idt_gate (tbl n)) [0..<IDT_SIZE], mc_idtr := Some (idtp s2), mc_if := True\<rparr>)"
    unfolding interrupts_init_def Let_def s1_def [symmetric] idt_init_def s2_def [symmetric] by simp
  then show ?thesis
    using assms by (simp add: s2_def s1 pic IDT_SIZE_def idt_gate_def gate_dpl_def IDT_FLAGS_def KERNEL_CODE_SEGMENT_def
        gate_base_idt_gate [unfolded idt_gate_def IDT_FLAGS_def KERNEL_CODE_SEGMENT_def])
qed

definition demo_machine :: "port_write list machine" where
  "demo_machine = kernel.extend (demo_kernel demo_vm)
     (machine.fields 0 (replicate 256 (idt_gate 0)) \<lparr>ip_limit = 0, ip_base = 0\<rparr> None False 0 [])"

lemma demo_machine_simps: "length (idt demo_machine) = IDT_SIZE" "mc_dev demo_machine = []"
  by (simp_all add: demo_machine_def IDT_SIZE_def kernel.defs machine.defs)

theorem interrupts_init_correct_witness:
  "\<exists>s'. interrupts_init (log_ports (\<lambda>_. 0) (\<lambda>_. 0)) 0x8000 (\<lambda>n. 0x100000 + 16 * of_nat n) 0x9000 demo_machine = Some s' \<and>
     gate_base (idt s' ! 33) = 0x100210 \<and> gate_dpl (idt s' ! 80) = 0 \<and> mc_if s' \<and> last (mc_dev s') = OutB 0x40 0x2E"
proof -
  have "(33 :: nat) < 256" "(80 :: nat) < 256" by simp_all
  with interrupts_init_correct [OF demo_machine_simps(1), of "log_ports (\<lambda>_. 0) (\<lambda>_. 0)" "0x8000" "\<lambda>n. 0x100000 + 16 * of_nat n" "0x9000"]
  show ?thesis by (auto simp: demo_machine_simps)
qed

section \<open>A sequence of interrupts\<close>

fun run_interrupts ::
  "'d ports \<Rightarrow> ('d machine \<Rightarrow> 'd machine option) \<Rightarrow> 'd machine sys_env \<Rightarrow> int_frame list \<Rightarrow> 'd machine \<Rightarrow> 'd machine option" where
  "run_interrupts P kbd E [] s = Some s"
| "run_interrupts P kbd E (f # fs) s = do {
     (f, s, halted) \<leftarrow> isr_dispatch P kbd E f s;
     run_interrupts P kbd E fs s
   }"

text \<open>The kernel after an interrupt: all that may have changed is the memory.\<close>

definition same_kernel :: "'d machine \<Rightarrow> 'd machine \<Rightarrow> bool" where
  "same_kernel s s' \<longleftrightarrow> (\<exists>m. kernel.truncate s' = set_mem m (kernel.truncate s))"

lemma same_kernel_refl [simp]: "same_kernel s s"
proof -
  have "set_mem (hp_mem (vf_heap k)) k = k" for k :: kernel by (simp add: set_mem_def)
  then have "kernel.truncate s = set_mem (hp_mem (vf_heap (kernel.truncate s))) (kernel.truncate s)" by simp
  then show ?thesis unfolding same_kernel_def by blast
qed

lemma same_kernel_trans: "same_kernel s t \<Longrightarrow> same_kernel t u \<Longrightarrow> same_kernel s u"
  unfolding same_kernel_def by (auto simp: set_mem_def)

lemma same_kernel_sched: "same_kernel s s' \<Longrightarrow> k_sched s' = k_sched s"
  unfolding same_kernel_def by (auto simp: set_mem_def kernel.defs)

lemma isr_dispatch_kernel:
  assumes "f_int_no f \<noteq> 80" and kbd: "\<And>s s'. kbd s = Some s' \<Longrightarrow> same_kernel s s' \<and> global_tick_count s' = global_tick_count s"
  shows "(isr_dispatch P kbd E f s = None \<longrightarrow> f_int_no f = 33 \<and> kbd s = None) \<and>
    (\<forall>f' s' h. isr_dispatch P kbd E f s = Some (f', s', h) \<longrightarrow> f' = f \<and> same_kernel s s' \<and>
       global_tick_count s' = global_tick_count s + of_nat (length (filter (\<lambda>f. f_int_no f = 32) [f])))"
proof -
  have dev: "same_kernel s (t\<lparr>mc_dev := d\<rparr>) = same_kernel s t" for t :: "'a machine" and d by (simp add: same_kernel_def)
  have tick: "same_kernel s (s\<lparr>global_tick_count := n\<rparr>)" for n
  proof -
    have "same_kernel s (s\<lparr>global_tick_count := n\<rparr>) = same_kernel s s" by (simp only: same_kernel_def kernel_unchanged)
    then show ?thesis by simp
  qed
  have k: "same_kernel s t" "global_tick_count t = global_tick_count s" if "kbd s = Some t" for t using kbd [OF that] by simp_all
  consider "f_int_no f = 32" | "f_int_no f = 33" | "f_int_no f \<noteq> 32" "f_int_no f \<noteq> 33" by blast
  then show ?thesis
  proof cases
    case 2
    then have e: "isr_dispatch P kbd E f s = do { t \<leftarrow> kbd s; Some (f, on_machine_dev (pic_eoi P 1) t, False) }"
      by (simp add: isr_dispatch_def INT_TYPE_PIT_def INT_TYPE_KEYBOARD_def)
    then show ?thesis using 2 k by (cases "kbd s") (simp_all add: dev)
  next
    case 1
    then have "isr_dispatch P kbd E f s = Some (f, (s\<lparr>global_tick_count := global_tick_count s + 1\<rparr>)\<lparr>mc_dev := pic_eoi P 0 (mc_dev s)\<rparr>, False)"
      by (simp add: isr_dispatch_def INT_TYPE_PIT_def)
    moreover have "same_kernel s ((s\<lparr>global_tick_count := global_tick_count s + 1\<rparr>)\<lparr>mc_dev := pic_eoi P 0 (mc_dev s)\<rparr>)"
      unfolding dev by (rule tick)
    ultimately show ?thesis using 1 by simp
  next
    case 3
    define t where "t = (if f_int_no f \<ge> 32 then on_machine_dev (pic_eoi P (ucast (f_int_no f - 32))) s else s)"
    have "same_kernel s t" "global_tick_count t = global_tick_count s" by (simp_all add: t_def dev)
    moreover have "isr_dispatch P kbd E f s = Some (f, t, True)"
      using 3 assms(1) by (simp add: isr_dispatch_def INT_TYPE_PIT_def INT_TYPE_KEYBOARD_def INT_TYPE_SYSCALL_def t_def)
    ultimately show ?thesis using 3 by simp
  qed
qed

text \<open>
  A sequence of interrupts without a system call, with any keyboard that leaves the kernel alone: it stops at a keyboard
  interrupt whose handler has no value, or all are handled.
\<close>

lemma run_interrupts_kernel:
  assumes kbd: "\<And>s s'. kbd s = Some s' \<Longrightarrow> same_kernel s s' \<and> global_tick_count s' = global_tick_count s"
  shows "list_all (\<lambda>f. f_int_no f \<noteq> 80) fs \<Longrightarrow> (case run_interrupts P kbd E fs s of
     None \<Rightarrow> \<exists>gs g hs u. fs = gs @ g # hs \<and> f_int_no g = 33 \<and> run_interrupts P kbd E gs s = Some u \<and> kbd u = None
   | Some s' \<Rightarrow> same_kernel s s' \<and>
       global_tick_count s' = global_tick_count s + of_nat (length (filter (\<lambda>f. f_int_no f = 32) fs)))"
proof (induction fs arbitrary: s)
  case (Cons f fs)
  have f: "f_int_no f \<noteq> 80" using Cons.prems by simp
  note i = isr_dispatch_kernel [OF f kbd, where P = P and E = E and s = s]
  show ?case
  proof (cases "isr_dispatch P kbd E f s")
    case None
    then have "f # fs = [] @ f # fs" "f_int_no f = 33" "run_interrupts P kbd E [] s = Some s" "kbd s = None" using i by simp_all
    then show ?thesis using None by fastforce
  next
    case (Some r)
    obtain f' t h where r: "r = (f', t, h)" by (cases r)
    have t: "same_kernel s t" "global_tick_count t = global_tick_count s + of_nat (length (filter (\<lambda>f. f_int_no f = 32) [f]))"
      using i Some r by simp_all
    have run: "run_interrupts P kbd E (f # gs) s = run_interrupts P kbd E gs t" for gs using Some r by simp
    have IH: "case run_interrupts P kbd E fs t of
        None \<Rightarrow> \<exists>gs g hs u. fs = gs @ g # hs \<and> f_int_no g = 33 \<and> run_interrupts P kbd E gs t = Some u \<and> kbd u = None
      | Some s' \<Rightarrow> same_kernel t s' \<and>
          global_tick_count s' = global_tick_count t + of_nat (length (filter (\<lambda>f. f_int_no f = 32) fs))"
      using Cons.prems by (intro Cons.IH) simp
    show ?thesis
    proof (cases "run_interrupts P kbd E fs t")
      case None
      then obtain gs g hs u where g: "fs = gs @ g # hs" "f_int_no g = 33" "run_interrupts P kbd E gs t = Some u" "kbd u = None"
        using IH by auto
      then show ?thesis unfolding run None option.case
        by (intro exI [of _ "f # gs"] exI [of _ g] exI [of _ hs] exI [of _ u]) (simp add: run del: run_interrupts.simps)
    next
      case (Some s')
      then show ?thesis unfolding run using IH t by (auto intro: same_kernel_trans)
    qed
  qed
qed simp

end
