(* ===== verification/VgaText.thy ===== *)
theory VgaText
  imports Ports Str
begin

text \<open>
  Text mode (drivers/vga/vgahandler.c): the screen is 25 rows of 80 cells, a character with its colour each,
  and the port writes of the cursor go to the device. The pointers \<open>terminal_buffer\<close> and \<open>terminal_buffer_saved\<close> only ever
  hold the address of the screen; of the second, \<open>tb_saved\<close> says whether it is set. The functions that use floating
  point (the diagonal line and the spinning cube) are left out.
\<close>

section \<open>State\<close>

definition VGA_WIDTH :: nat where "VGA_WIDTH = 80"
definition VGA_HEIGHT :: nat where "VGA_HEIGHT = 25"
definition VGA_CRTC_INDEX :: u16 where "VGA_CRTC_INDEX = 0x3D4"
definition VGA_CRTC_DATA :: u16 where "VGA_CRTC_DATA = 0x3D5"
definition VGA_CURSOR_HIGH_REGISTER :: u8 where "VGA_CURSOR_HIGH_REGISTER = 0x0E"
definition VGA_CURSOR_LOW_REGISTER :: u8 where "VGA_CURSOR_LOW_REGISTER = 0x0F"
definition VGA_CURSOR_COLOR_REGISTER :: u16 where "VGA_CURSOR_COLOR_REGISTER = 0x3D5"

type_synonym cells = "u16 list"

record 'd vga =
  tb_cells :: cells
  vga_index :: u32
  tb_saved :: bool
  terminal_color_saved :: u32
  terminal_x_saved :: u16
  terminal_y_saved :: u16
  vga_dev :: 'd

text \<open>A cell: the colour in the high byte, the character in the low one.\<close>

definition text_cell :: "u8 \<Rightarrow> u8 \<Rightarrow> u16" where
  "text_cell color c = push_bit 8 (ucast color) OR ucast c"

section \<open>Scrolling and placing characters\<close>

text \<open>The two loops that move the rows up by one and blank the last row.\<close>

definition text_scroll :: "u8 \<Rightarrow> cells \<Rightarrow> cells" where
  "text_scroll color b =
     fold (\<lambda>i b. b[i := text_cell color 32]) [VGA_WIDTH * (VGA_HEIGHT - 1)..<VGA_WIDTH * VGA_HEIGHT]
       (fold (\<lambda>i b. b[i := b ! (i + VGA_WIDTH)]) [0..<VGA_WIDTH * (VGA_HEIGHT - 1)] b)"

definition on_text_screen :: "u16 \<Rightarrow> u16 \<Rightarrow> bool" where
  "on_text_screen x y \<longleftrightarrow> unat x < VGA_WIDTH \<and> unat y < VGA_HEIGHT"

definition text_index :: "u16 \<Rightarrow> u16 \<Rightarrow> nat" where
  "text_index x y = unat y * VGA_WIDTH + unat x"

text \<open>The coordinates after a newline; the last row stays the last row, after a scroll.\<close>

definition text_newline :: "u16 \<Rightarrow> u8 \<Rightarrow> cells \<Rightarrow> u16 \<times> u16 \<times> cells" where
  "text_newline y color b =
     (let y = y + 1
      in if unat y \<ge> VGA_HEIGHT then (0, of_nat VGA_HEIGHT - 1, text_scroll color b) else (0, y, b))"

definition vga_place_char :: "u16 \<Rightarrow> u16 \<Rightarrow> u8 \<Rightarrow> u8 \<Rightarrow> cells \<Rightarrow> cells" where
  "vga_place_char x y c color b =
     (if on_text_screen x y then
        let index = text_index x y;
            (x, y, b) = (if c = 10 then text_newline y color b else (x, y, b));
            b = b[index := text_cell color c];
            (x, y) = (if unat x \<ge> VGA_WIDTH - 1 then (0, y + 1) else (x, y))
        in if unat y \<ge> VGA_HEIGHT then text_scroll color b else b
      else b)"

text \<open>A bold character is written twice; the second one can fall behind the screen.\<close>

definition vga_place_bold_char :: "u16 \<Rightarrow> u16 \<Rightarrow> u8 \<Rightarrow> u8 \<Rightarrow> cells \<Rightarrow> cells option" where
  "vga_place_bold_char x y c color b =
     (if on_text_screen x y then do {
        let index = text_index x y;
        let (x, y, b) = (if c = 10 then text_newline y color b else (x, y, b));
        let b = b[index := text_cell color c];
        b \<leftarrow> (if unat x + 1 < VGA_WIDTH then
                if index + 1 < length b then Some (b[index + 1 := text_cell color c]) else None
              else Some b);
        let (x, y) = (if unat x \<ge> VGA_WIDTH - 1 then (0, y + 1) else (x, y));
        Some (if unat y \<ge> VGA_HEIGHT then text_scroll color b else b)
      } else Some b)"

text \<open>The first \<open>n\<close> characters of the string at \<open>str\<close>, one cell each.\<close>

definition place_chars :: "mem \<Rightarrow> u16 \<Rightarrow> u16 \<Rightarrow> u32 \<Rightarrow> u8 \<Rightarrow> nat \<Rightarrow> cells \<Rightarrow> cells" where
  "place_chars m x y str color n b =
     fold (\<lambda>i. vga_place_char (x + of_nat i) y (m (str + of_nat i)) color) [0..<n] b"

definition vga_place_string :: "mem \<Rightarrow> u16 \<Rightarrow> u16 \<Rightarrow> u32 \<Rightarrow> u8 \<Rightarrow> cells \<Rightarrow> cells option" where
  "vga_place_string m x y str color b = do {
     n \<leftarrow> flopstrlen m str;
     Some (place_chars m x y str color (unat n) b)
   }"

section \<open>Cursor, clearing, saving\<close>

definition cursor_writes :: "u16 \<Rightarrow> (u16 \<times> u8) list" where
  "cursor_writes position =
     [(VGA_CRTC_INDEX, VGA_CURSOR_HIGH_REGISTER), (VGA_CRTC_DATA, ucast (drop_bit 8 position AND 0xFF)),
      (VGA_CRTC_INDEX, VGA_CURSOR_LOW_REGISTER), (VGA_CRTC_DATA, ucast (position AND 0xFF))]"

definition vga_set_cursor_position :: "'d ports \<Rightarrow> u16 \<Rightarrow> u16 \<Rightarrow> 'd vga \<Rightarrow> 'd vga" where
  "vga_set_cursor_position P x y s =
     (if on_text_screen x y
      then s\<lparr>vga_dev := out_all P (cursor_writes (y * of_nat VGA_WIDTH + x)) (vga_dev s)\<rparr>
      else s)"

text \<open>Negative coordinates pass the comparison.\<close>

definition vga_set_foreground_color :: "'d ports \<Rightarrow> s32 \<Rightarrow> s32 \<Rightarrow> u8 \<Rightarrow> 'd vga \<Rightarrow> 'd vga" where
  "vga_set_foreground_color P x y color s =
     (if sint x < int VGA_WIDTH \<and> sint y < int VGA_HEIGHT
      then s\<lparr>vga_dev := out_all P (cursor_writes (ucast (y * of_nat VGA_WIDTH + x)) @ [(VGA_CURSOR_COLOR_REGISTER, color)]) (vga_dev s)\<rparr>
      else s)"

definition vga_clear_terminal :: "'d ports \<Rightarrow> 'd vga \<Rightarrow> 'd vga" where
  "vga_clear_terminal P s =
     vga_set_cursor_position P 0 0
       (s\<lparr>tb_cells := fold (\<lambda>i b. b[i := text_cell 7 32]) [0..<VGA_WIDTH * VGA_HEIGHT] (tb_cells s), vga_index := 0\<rparr>)"

text \<open>The colour that is saved is a 32-bit load from the second byte of the screen on.\<close>

definition vga_save_terminal_state :: "'d vga \<Rightarrow> 'd vga" where
  "vga_save_terminal_state s =
     s\<lparr>tb_saved := True,
       terminal_color_saved := ucast (drop_bit 8 (tb_cells s ! 0)) OR push_bit 8 (ucast (tb_cells s ! 1)) OR
         push_bit 24 (ucast (tb_cells s ! 2)),
       terminal_x_saved := ucast (vga_index s mod of_nat VGA_WIDTH),
       terminal_y_saved := ucast (vga_index s div of_nat VGA_WIDTH)\<rparr>"

definition vga_restore_terminal_state :: "'d ports \<Rightarrow> 'd vga \<Rightarrow> 'd vga" where
  "vga_restore_terminal_state P s =
     (if tb_saved s then vga_set_cursor_position P (terminal_x_saved s) (terminal_y_saved s) s else s)"

section \<open>Lines and boxes\<close>

definition textmode_draw_hline :: "s32 \<Rightarrow> s32 \<Rightarrow> s32 \<Rightarrow> u32 \<Rightarrow> cells \<Rightarrow> cells" where
  "textmode_draw_hline x y len color b =
     fold (\<lambda>i. vga_place_char (ucast (x + of_nat i)) (ucast y) 45 (ucast color)) [0..<nat (sint len)] b"

definition textmode_draw_vline :: "s32 \<Rightarrow> s32 \<Rightarrow> s32 \<Rightarrow> u32 \<Rightarrow> cells \<Rightarrow> cells" where
  "textmode_draw_vline x y len color b =
     fold (\<lambda>i. vga_place_char (ucast x) (ucast (y + of_nat i)) 124 (ucast color)) [0..<nat (sint len)] b"

definition textmode_draw_filled_rectangle :: "s32 \<Rightarrow> s32 \<Rightarrow> s32 \<Rightarrow> s32 \<Rightarrow> u32 \<Rightarrow> u32 \<Rightarrow> cells \<Rightarrow> cells" where
  "textmode_draw_filled_rectangle x y width height border_color fill_color b =
     (let b = textmode_draw_hline x y width border_color b;
          b = textmode_draw_hline x (y + height - 1) width border_color b;
          b = textmode_draw_vline x y height border_color b;
          b = textmode_draw_vline (x + width - 1) y height border_color b
      in fold (\<lambda>i. fold (\<lambda>j. vga_place_char (ucast (x + of_nat j)) (ucast (y + of_nat i)) 32 (ucast fill_color))
             [1..<nat (sint (width - 1))]) [1..<nat (sint (height - 1))] b)"

definition textmode_draw_rectangle :: "s32 \<Rightarrow> s32 \<Rightarrow> s32 \<Rightarrow> s32 \<Rightarrow> u32 \<Rightarrow> cells \<Rightarrow> cells" where
  "textmode_draw_rectangle x y width height color b =
     (let b = textmode_draw_hline x y width color b;
          b = textmode_draw_hline x (y + height - 1) width color b;
          b = textmode_draw_vline x y height color b;
          b = textmode_draw_vline (x + width - 1) y height color b
      in fold (\<lambda>i. fold (\<lambda>j. vga_place_char (ucast (x + of_nat j)) (ucast (y + of_nat i)) 32 (ucast color))
             [1..<nat (sint (width - 1))]) [1..<nat (sint (height - 1))] b)"

text \<open>
  A row of spaces of \<open>draw_box\<close>. The counter has 16 bits and is compared with a sum that does not wrap, so a box that ends
  beyond 65535 never ends.
\<close>

partial_function (option) box_row_loop :: "u16 \<Rightarrow> nat \<Rightarrow> u16 \<Rightarrow> u8 \<Rightarrow> cells \<Rightarrow> cells option" where
  "box_row_loop x stop y color b =
     (if unat x < stop then box_row_loop (x + 1) stop y color (vga_place_char x y 32 color b) else Some b)"

fun box_rows :: "u16 \<Rightarrow> nat \<Rightarrow> u16 \<Rightarrow> u8 \<Rightarrow> nat \<Rightarrow> cells \<Rightarrow> cells option" where
  "box_rows x stop y color 0 b = Some b"
| "box_rows x stop y color (Suc n) b = do {
     b \<leftarrow> box_row_loop x stop y color b;
     box_rows x stop (y + 1) color n b
   }"

definition box_edge :: "u16 \<Rightarrow> u16 \<Rightarrow> u16 \<Rightarrow> u8 \<Rightarrow> u8 \<Rightarrow> u8 \<Rightarrow> cells \<Rightarrow> cells" where
  "box_edge x y width left right color b =
     (let b = vga_place_char x y left color b;
          b = fold (\<lambda>i. vga_place_char (x + of_nat i) y 0xC4 color) [1..<unat width - 1] b
      in vga_place_char (x + width - 1) y right color b)"

text \<open>The content goes into the second row; \<open>width - 2\<close> is converted to the unsigned type of the counter.\<close>

definition draw_box :: "mem \<Rightarrow> u16 \<Rightarrow> u16 \<Rightarrow> u16 \<Rightarrow> u16 \<Rightarrow> u32 \<Rightarrow> u8 \<Rightarrow> u8 \<Rightarrow> cells \<Rightarrow> cells option" where
  "draw_box m x_start y_start width height content border_color text_color b = do {
     b \<leftarrow> box_rows x_start (unat x_start + unat width) y_start border_color (unat height) b;
     let b = box_edge x_start y_start width 0xDA 0xBF border_color b;
     n \<leftarrow> (if content = 0 \<or> unat height < 3 then Some 0 else flopstrlen m content);
     let b = fold (\<lambda>y b.
         let b = vga_place_char x_start (y_start + of_nat y) 0xB3 border_color b;
             b = (if y = 1 \<and> content \<noteq> 0
                  then place_chars m (x_start + 1) (y_start + of_nat y) content text_color
                         (min (unat n) (unat (ucast width - 2 :: u32))) b
                  else b)
         in vga_place_char (x_start + width - 1) (y_start + of_nat y) 0xB3 border_color b) [1..<unat height - 1] b;
     Some (box_edge x_start (y_start + height - 1) width 0xC0 0xD9 border_color b)
   }"

section \<open>The screen keeps its size; what placing a character does\<close>

lemma copy_up:
  assumes "n + w \<le> length b"
  shows "fold (\<lambda>i b. b[i := b ! (i + w)]) [0..<n] b = take n (drop w b) @ drop n b" (is "?f n = _")
  using assms
proof (induction n)
  case (Suc n)
  then have IH: "?f n = take n (drop w b) @ drop n b" by simp
  have "(take n (drop w b) @ drop n b) ! (n + w) = b ! (n + w)" using Suc.prems by (simp add: nth_append)
  then have "?f (Suc n) = (take n (drop w b) @ drop n b)[n := b ! (n + w)]" using IH by simp
  also have "\<dots> = take n (drop w b) @ b ! (n + w) # drop (Suc n) b"
    using Suc.prems by (simp add: list_update_append upd_conv_take_nth_drop flip: Cons_nth_drop_Suc)
  also have "\<dots> = take (Suc n) (drop w b) @ drop (Suc n) b"
    using Suc.prems by (simp add: take_Suc_conv_app_nth add.commute)
  finally show ?case .
qed simp

lemma fill_cells:
  assumes "k \<le> n" "n \<le> length b"
  shows "fold (\<lambda>i b. b[i := v]) [k..<n] b = take k b @ replicate (n - k) v @ drop n b"
  using assms
proof (induction n)
  case (Suc n)
  show ?case
  proof (cases "k = Suc n")
    case False
    then have "fold (\<lambda>i b. b[i := v]) [k..<Suc n] b = (take k b @ replicate (n - k) v @ drop n b)[n := v]"
      using Suc by simp
    also have "\<dots> = take k b @ replicate (n - k) v @ v # drop (Suc n) b"
      using Suc.prems False by (simp add: list_update_append flip: Cons_nth_drop_Suc)
    finally show ?thesis using Suc.prems False by (simp add: Suc_diff_le replicate_app_Cons_same)
  qed simp
qed simp

lemma text_scroll_eq:
  assumes "length b = 2000"
  shows "text_scroll color b = drop 80 b @ replicate 80 (text_cell color 32)"
proof -
  have "fold (\<lambda>i b. b[i := b ! (i + VGA_WIDTH)]) [0..<VGA_WIDTH * (VGA_HEIGHT - 1)] b = take 1920 (drop 80 b) @ drop 1920 b"
    using copy_up [of 1920 80 b] assms by (simp add: VGA_WIDTH_def VGA_HEIGHT_def)
  then show ?thesis
    using fill_cells [of 1920 2000 "take 1920 (drop 80 b) @ drop 1920 b" "text_cell color 32"] assms
    by (simp add: text_scroll_def VGA_WIDTH_def VGA_HEIGHT_def)
qed

end
