(* ===== verification/Framebuffer.thy ===== *)
theory Framebuffer
  imports Str
begin

text \<open>
  drivers/vga/framebuffer.c and framebuffer.h: pixels in the memory of the display, at 8, 15, 16, 24
  and 32 bits per pixel, and the drawing functions over them. The terminal behind
  \<open>framebuffer_term_init\<close> and \<open>framebuffer_term_write\<close> is a library of its own (flanterm) and a
  parameter here. Coordinates are 32-bit signed words, as in the source.
\<close>

section \<open>State\<close>

record colors_t =
  c_black :: u32
  c_white :: u32
  c_red :: u32
  c_green :: u32
  c_blue :: u32
  c_yellow :: u32
  c_cyan :: u32
  c_magenta :: u32
  c_gray :: u32
  c_light_gray :: u32
  c_dark_gray :: u32
  c_brown :: u32

record framebuffer_t =
  fb_width :: u32
  fb_height :: u32
  fb_screen :: u32
  fb_pitch :: u32
  fb_bpp :: u32
  fb_type :: u32
  fb_palette :: u32
  fb_palette_num_colors :: u32
  fb_blue_mask_size :: u32
  fb_blue_field_position :: u32
  fb_red_mask_size :: u32
  fb_red_field_position :: u32
  fb_green_mask_size :: u32
  fb_green_field_position :: u32

text \<open>The part of the boot information that describes the display; the colour layout shares its bytes with the palette.\<close>

record multiboot_framebuffer =
  mbf_addr :: u64
  mbf_pitch :: u32
  mbf_width :: u32
  mbf_height :: u32
  mbf_bpp :: u8
  mbf_type :: u8
  mbf_palette_addr :: u32
  mbf_palette_num_colors :: u16

definition mbf_red_field_position :: "multiboot_framebuffer \<Rightarrow> u8" where
  "mbf_red_field_position b = ucast (mbf_palette_addr b)"

definition mbf_red_mask_size :: "multiboot_framebuffer \<Rightarrow> u8" where
  "mbf_red_mask_size b = ucast (drop_bit 8 (mbf_palette_addr b))"

definition mbf_green_field_position :: "multiboot_framebuffer \<Rightarrow> u8" where
  "mbf_green_field_position b = ucast (drop_bit 16 (mbf_palette_addr b))"

definition mbf_green_mask_size :: "multiboot_framebuffer \<Rightarrow> u8" where
  "mbf_green_mask_size b = ucast (drop_bit 24 (mbf_palette_addr b))"

definition mbf_blue_field_position :: "multiboot_framebuffer \<Rightarrow> u8" where
  "mbf_blue_field_position b = ucast (mbf_palette_num_colors b)"

definition mbf_blue_mask_size :: "multiboot_framebuffer \<Rightarrow> u8" where
  "mbf_blue_mask_size b = ucast (drop_bit 8 (mbf_palette_num_colors b))"

definition init_colors :: colors_t where
  "init_colors = \<lparr>c_black = 0x000000, c_white = 0xFFFFFF, c_red = 0xFF0000, c_green = 0x00FF00, c_blue = 0x0000FF,
     c_yellow = 0xFFFF00, c_cyan = 0x00FFFF, c_magenta = 0xFF00FF, c_gray = 0x808080, c_light_gray = 0xD3D3D3,
     c_dark_gray = 0xA9A9A9, c_brown = 0xA52A2A\<rparr>"

section \<open>One pixel\<close>

definition fb_at :: "framebuffer_t \<Rightarrow> u32 \<Rightarrow> s32 \<Rightarrow> s32 \<Rightarrow> u32" where
  "fb_at fb n x y = fb_screen fb + fb_pitch fb * y + n * x"

definition FB_PUT_PIXEL_8 :: "framebuffer_t \<Rightarrow> s32 \<Rightarrow> s32 \<Rightarrow> u32 \<Rightarrow> mem \<Rightarrow> mem" where
  "FB_PUT_PIXEL_8 fb x y color m = m(fb_at fb 1 x y := ucast (color AND 0xFF))"

definition FB_PUT_PIXEL_15 :: "framebuffer_t \<Rightarrow> s32 \<Rightarrow> s32 \<Rightarrow> u32 \<Rightarrow> mem \<Rightarrow> mem" where
  "FB_PUT_PIXEL_15 fb x y color m =
     (let r = ucast (drop_bit 16 color AND 0x1F) :: u16;
          g = ucast (drop_bit 8 color AND 0x1F);
          b = ucast (color AND 0x1F)
      in store16 m (fb_at fb 2 x y) (push_bit 10 r OR push_bit 5 g OR b))"

definition FB_PUT_PIXEL_16 :: "framebuffer_t \<Rightarrow> s32 \<Rightarrow> s32 \<Rightarrow> u32 \<Rightarrow> mem \<Rightarrow> mem" where
  "FB_PUT_PIXEL_16 fb x y color m =
     (let r = ucast (drop_bit 16 color AND 0x1F) :: u16;
          g = ucast (drop_bit 8 color AND 0x3F);
          b = ucast (color AND 0x1F)
      in store16 m (fb_at fb 2 x y) (push_bit 11 r OR push_bit 5 g OR b))"

definition FB_PUT_PIXEL_24 :: "framebuffer_t \<Rightarrow> s32 \<Rightarrow> s32 \<Rightarrow> u32 \<Rightarrow> mem \<Rightarrow> mem" where
  "FB_PUT_PIXEL_24 fb x y color m =
     (let p = fb_at fb 3 x y
      in m(p := ucast (color AND 0xFF), p + 1 := ucast (drop_bit 8 color AND 0xFF),
           p + 2 := ucast (drop_bit 16 color AND 0xFF)))"

definition FB_PUT_PIXEL_32 :: "framebuffer_t \<Rightarrow> s32 \<Rightarrow> s32 \<Rightarrow> u32 \<Rightarrow> mem \<Rightarrow> mem" where
  "FB_PUT_PIXEL_32 fb x y color m = store32 m (fb_at fb 4 x y) color"

definition FB_GET_PIXEL_8 :: "framebuffer_t \<Rightarrow> s32 \<Rightarrow> s32 \<Rightarrow> mem \<Rightarrow> u32" where
  "FB_GET_PIXEL_8 fb x y m = ucast (m (fb_at fb 1 x y))"

definition FB_GET_PIXEL_15 :: "framebuffer_t \<Rightarrow> s32 \<Rightarrow> s32 \<Rightarrow> mem \<Rightarrow> u32" where
  "FB_GET_PIXEL_15 fb x y m =
     (let v = load16 m (fb_at fb 2 x y);
          r = ucast (drop_bit 10 v AND 0x1F) :: u32;
          g = ucast (drop_bit 5 v AND 0x1F);
          b = ucast (v AND 0x1F)
      in push_bit 16 r OR push_bit 8 g OR b)"

definition FB_GET_PIXEL_16 :: "framebuffer_t \<Rightarrow> s32 \<Rightarrow> s32 \<Rightarrow> mem \<Rightarrow> u32" where
  "FB_GET_PIXEL_16 fb x y m =
     (let v = load16 m (fb_at fb 2 x y);
          r = ucast (drop_bit 11 v AND 0x1F) :: u32;
          g = ucast (drop_bit 5 v AND 0x3F);
          b = ucast (v AND 0x1F)
      in push_bit 16 r OR push_bit 8 g OR b)"

definition FB_GET_PIXEL_24 :: "framebuffer_t \<Rightarrow> s32 \<Rightarrow> s32 \<Rightarrow> mem \<Rightarrow> u32" where
  "FB_GET_PIXEL_24 fb x y m =
     (let p = fb_at fb 3 x y
      in ucast (m p) OR push_bit 8 (ucast (m (p + 1))) OR push_bit 16 (ucast (m (p + 2))))"

definition FB_GET_PIXEL_32 :: "framebuffer_t \<Rightarrow> s32 \<Rightarrow> s32 \<Rightarrow> mem \<Rightarrow> u32" where
  "FB_GET_PIXEL_32 fb x y m = load32 m (fb_at fb 4 x y)"

definition off_screen :: "framebuffer_t \<Rightarrow> s32 \<Rightarrow> s32 \<Rightarrow> bool" where
  "off_screen fb x y \<longleftrightarrow> sint x < 0 \<or> sint y < 0 \<or> x \<ge> fb_width fb \<or> y \<ge> fb_height fb"

definition framebuffer_set_pixel_buffer :: "framebuffer_t \<Rightarrow> s32 \<Rightarrow> s32 \<Rightarrow> u32 \<Rightarrow> mem \<Rightarrow> mem" where
  "framebuffer_set_pixel_buffer fb x y color m =
     (if off_screen fb x y then m
      else if fb_bpp fb = 8 then FB_PUT_PIXEL_8 fb x y color m
      else if fb_bpp fb = 15 then FB_PUT_PIXEL_15 fb x y color m
      else if fb_bpp fb = 16 then FB_PUT_PIXEL_16 fb x y color m
      else if fb_bpp fb = 24 then FB_PUT_PIXEL_24 fb x y color m
      else if fb_bpp fb = 32 then FB_PUT_PIXEL_32 fb x y color m
      else m)"

definition framebuffer_get_pixel_buffer :: "framebuffer_t \<Rightarrow> s32 \<Rightarrow> s32 \<Rightarrow> mem \<Rightarrow> u32" where
  "framebuffer_get_pixel_buffer fb x y m =
     (if off_screen fb x y then 0
      else if fb_bpp fb = 8 then FB_GET_PIXEL_8 fb x y m
      else if fb_bpp fb = 15 then FB_GET_PIXEL_15 fb x y m
      else if fb_bpp fb = 16 then FB_GET_PIXEL_16 fb x y m
      else if fb_bpp fb = 24 then FB_GET_PIXEL_24 fb x y m
      else if fb_bpp fb = 32 then FB_GET_PIXEL_32 fb x y m
      else 0)"

definition framebuffer_put_pixel :: "framebuffer_t \<Rightarrow> s32 \<Rightarrow> s32 \<Rightarrow> u32 \<Rightarrow> mem \<Rightarrow> mem" where
  "framebuffer_put_pixel fb x y color m =
     (if sint x < 0 \<or> x \<ge> fb_width fb \<or> sint y < 0 \<or> y \<ge> fb_height fb then m
      else framebuffer_set_pixel_buffer fb x y color m)"

section \<open>Setting up\<close>

definition fb_of_multiboot :: "multiboot_framebuffer \<Rightarrow> framebuffer_t" where
  "fb_of_multiboot mbi =
     \<lparr>fb_width = mbf_width mbi, fb_height = mbf_height mbi, fb_screen = ucast (mbf_addr mbi),
      fb_pitch = mbf_pitch mbi, fb_bpp = ucast (mbf_bpp mbi), fb_type = ucast (mbf_type mbi),
      fb_palette = mbf_palette_addr mbi, fb_palette_num_colors = ucast (mbf_palette_num_colors mbi),
      fb_blue_mask_size = ucast (mbf_blue_mask_size mbi), fb_blue_field_position = ucast (mbf_blue_field_position mbi),
      fb_red_mask_size = ucast (mbf_red_mask_size mbi), fb_red_field_position = ucast (mbf_red_field_position mbi),
      fb_green_mask_size = ucast (mbf_green_mask_size mbi), fb_green_field_position = ucast (mbf_green_field_position mbi)\<rparr>"

definition framebuffer_init :: "multiboot_framebuffer \<Rightarrow> mem \<Rightarrow> colors_t \<times> framebuffer_t \<times> mem" where
  "framebuffer_init mbi m =
     (let fb = fb_of_multiboot mbi
      in (init_colors, fb,
          fold (\<lambda>y. fold (\<lambda>x. framebuffer_set_pixel_buffer fb (of_nat x) (of_nat y) 0) [0..<unat (fb_width fb)])
            [0..<unat (fb_height fb)] m))"

section \<open>Lines\<close>

text \<open>\<open>abs\<close> of lib/flopmath.c, and division by 2, which truncates.\<close>

definition c_abs :: "s32 \<Rightarrow> s32" where
  "c_abs x = (if sint x < 0 then - x else x)"

definition c_half :: "s32 \<Rightarrow> s32" where
  "c_half x = (if sint x < 0 then - of_int (- sint x div 2) else of_int (sint x div 2))"

partial_function (option) line_loop ::
  "framebuffer_t \<Rightarrow> s32 \<Rightarrow> s32 \<Rightarrow> s32 \<Rightarrow> s32 \<Rightarrow> s32 \<Rightarrow> s32 \<Rightarrow> u32 \<Rightarrow> s32 \<Rightarrow> s32 \<Rightarrow> s32 \<Rightarrow> mem \<Rightarrow> mem option" where
  "line_loop fb dx dy sx sy x2 y2 color x1 y1 err m =
     (let m = framebuffer_put_pixel fb x1 y1 color m
      in if x1 = x2 \<and> y1 = y2 then Some m
         else let e2 = err;
                  (err, x1) = (if sint e2 > sint (- dx) then (err - dy, x1 + sx) else (err, x1));
                  (err, y1) = (if sint e2 < sint dy then (err + dx, y1 + sy) else (err, y1))
              in line_loop fb dx dy sx sy x2 y2 color x1 y1 err m)"

definition framebuffer_draw_line :: "framebuffer_t \<Rightarrow> s32 \<Rightarrow> s32 \<Rightarrow> s32 \<Rightarrow> s32 \<Rightarrow> u32 \<Rightarrow> mem \<Rightarrow> mem option" where
  "framebuffer_draw_line fb x1 y1 x2 y2 color m =
     (let dx = c_abs (x2 - x1);
          dy = c_abs (y2 - y1);
          sx = (if sint x1 < sint x2 then 1 else -1);
          sy = (if sint y1 < sint y2 then 1 else -1);
          err = c_half (if sint dx > sint dy then dx else - dy)
      in line_loop fb dx dy sx sy x2 y2 color x1 y1 err m)"

section \<open>Areas, circles, triangles\<close>

definition framebuffer_draw_rectangle :: "framebuffer_t \<Rightarrow> s32 \<Rightarrow> s32 \<Rightarrow> s32 \<Rightarrow> s32 \<Rightarrow> u32 \<Rightarrow> mem \<Rightarrow> mem" where
  "framebuffer_draw_rectangle fb x y width height color m =
     fold (\<lambda>i. fold (\<lambda>j. framebuffer_put_pixel fb (x + of_nat i) (y + of_nat j) color) [0..<nat (sint height)])
       [0..<nat (sint width)] m"

definition framebuffer_fill_screen :: "framebuffer_t \<Rightarrow> u32 \<Rightarrow> mem \<Rightarrow> mem" where
  "framebuffer_fill_screen fb color m =
     fold (\<lambda>i. fold (\<lambda>j. framebuffer_put_pixel fb (of_nat i) (of_nat j) color) [0..<unat (fb_height fb)])
       [0..<unat (fb_width fb)] m"

definition circle_octants :: "framebuffer_t \<Rightarrow> s32 \<Rightarrow> s32 \<Rightarrow> u32 \<Rightarrow> s32 \<Rightarrow> s32 \<Rightarrow> mem \<Rightarrow> mem" where
  "circle_octants fb x_center y_center color x y m =
     fold (\<lambda>(a, b). framebuffer_put_pixel fb a b color)
       [(x_center + x, y_center + y), (x_center + y, y_center + x), (x_center - y, y_center + x),
        (x_center - x, y_center + y), (x_center - x, y_center - y), (x_center - y, y_center - x),
        (x_center + y, y_center - x), (x_center + x, y_center - y)] m"

partial_function (option) circle_loop ::
  "framebuffer_t \<Rightarrow> s32 \<Rightarrow> s32 \<Rightarrow> u32 \<Rightarrow> s32 \<Rightarrow> s32 \<Rightarrow> s32 \<Rightarrow> mem \<Rightarrow> mem option" where
  "circle_loop fb x_center y_center color x y err m =
     (if sint x \<ge> sint y then
        let m = circle_octants fb x_center y_center color x y m;
            (y, err) = (if sint err \<le> 0 then (y + 1, err + (2 * (y + 1) + 1)) else (y, err));
            (x, err) = (if sint err > 0 then (x - 1, err - (2 * (x - 1) + 1)) else (x, err))
        in circle_loop fb x_center y_center color x y err m
      else Some m)"

definition framebuffer_draw_circle :: "framebuffer_t \<Rightarrow> s32 \<Rightarrow> s32 \<Rightarrow> s32 \<Rightarrow> u32 \<Rightarrow> mem \<Rightarrow> mem option" where
  "framebuffer_draw_circle fb x_center y_center radius color m = circle_loop fb x_center y_center color radius 0 0 m"

definition framebuffer_draw_triangle ::
  "framebuffer_t \<Rightarrow> s32 \<Rightarrow> s32 \<Rightarrow> s32 \<Rightarrow> s32 \<Rightarrow> s32 \<Rightarrow> s32 \<Rightarrow> u32 \<Rightarrow> mem \<Rightarrow> mem option" where
  "framebuffer_draw_triangle fb x1 y1 x2 y2 x3 y3 color m = do {
     m \<leftarrow> framebuffer_draw_line fb x1 y1 x2 y2 color m;
     m \<leftarrow> framebuffer_draw_line fb x2 y2 x3 y3 color m;
     framebuffer_draw_line fb x3 y3 x1 y1 color m
   }"

section \<open>The test pictures\<close>

definition framebuffer_test_rectangle :: "framebuffer_t \<Rightarrow> colors_t \<Rightarrow> mem \<Rightarrow> mem" where
  "framebuffer_test_rectangle fb c m =
     (let m = framebuffer_draw_rectangle fb 100 104 507 30 (c_red c) m;
          m = framebuffer_draw_rectangle fb 80 20 90 20 (c_green c) m
      in framebuffer_draw_rectangle fb 30 30 41 10 (c_blue c) m)"

definition framebuffer_test_circle :: "framebuffer_t \<Rightarrow> colors_t \<Rightarrow> mem \<Rightarrow> mem option" where
  "framebuffer_test_circle fb c m = do {
     m \<leftarrow> framebuffer_draw_circle fb 100 100 50 (c_red c) m;
     m \<leftarrow> framebuffer_draw_circle fb 200 200 40 (c_green c) m;
     framebuffer_draw_circle fb 300 300 30 (c_blue c) m
   }"

definition framebuffer_test_triangle :: "framebuffer_t \<Rightarrow> colors_t \<Rightarrow> mem \<Rightarrow> mem option" where
  "framebuffer_test_triangle fb c m = do {
     m \<leftarrow> framebuffer_draw_triangle fb 100 100 200 200 300 100 (c_red c) m;
     m \<leftarrow> framebuffer_draw_triangle fb 200 200 300 300 400 200 (c_green c) m;
     framebuffer_draw_triangle fb 300 300 400 400 500 300 (c_blue c) m
   }"

definition framebuffer_test_pattern :: "framebuffer_t \<Rightarrow> colors_t \<Rightarrow> mem \<Rightarrow> mem" where
  "framebuffer_test_pattern fb c m =
     (let checker_size = 100 :: s32
      in fold (\<lambda>row. fold (\<lambda>col. framebuffer_draw_rectangle fb (of_nat col * checker_size) (of_nat row * checker_size)
             checker_size checker_size (if (row + col) mod 2 = 0 then c_white c else c_brown c)) [0..<4]) [0..<4] m)"

section \<open>The terminal library\<close>

text \<open>
  The library takes the arguments of \<open>flanterm_fb_init\<close> in order and returns its context;
  \<open>flanterm_write\<close> takes a context, an address and a length.
\<close>

definition framebuffer_term_init :: "(u32 list \<Rightarrow> 'd \<Rightarrow> u32 \<times> 'd) \<Rightarrow> framebuffer_t \<Rightarrow> 'd \<Rightarrow> u32 \<times> 'd" where
  "framebuffer_term_init flanterm_fb_init fb d =
     flanterm_fb_init ([0, 0, fb_screen fb, fb_width fb, fb_height fb, fb_pitch fb,
        fb_red_mask_size fb, fb_red_field_position fb, fb_green_mask_size fb, fb_green_field_position fb,
        fb_blue_mask_size fb, fb_blue_field_position fb] @ replicate 8 0 @ [0, 0, 1, 0, 0, 0]) d"

definition framebuffer_term_write ::
  "(u32 \<Rightarrow> mem \<Rightarrow> u32 \<Rightarrow> u32 \<Rightarrow> 'd \<Rightarrow> 'd) \<Rightarrow> u32 \<Rightarrow> mem \<Rightarrow> u32 \<Rightarrow> 'd \<Rightarrow> 'd option" where
  "framebuffer_term_write flanterm_write ft_ctx m str d = do {
     n \<leftarrow> flopstrlen m str;
     Some (flanterm_write ft_ctx m str n d)
   }"

end
