(* ===== verification/Console.thy ===== *)
theory Console
  imports VgaText Framebuffer PrintfProps
begin

text \<open>
  The console (apps/echo.c, lib/logging.c). \<open>echo\<close> wraps a string into the escape sequence of its colour and passes it
  to the terminal library, which is a parameter, as in \<open>Framebuffer\<close>; \<open>put_char\<close> and \<open>echo_bold\<close> write to the text
  screen. String literals are at the addresses in \<open>literals\<close>; the scratch arrays on the stack at those given
  with each call.
\<close>

section \<open>Colours\<close>

definition BLACK :: u8 where "BLACK = 0"
definition BLUE :: u8 where "BLUE = 1"
definition GREEN :: u8 where "GREEN = 2"
definition CYAN :: u8 where "CYAN = 3"
definition RED :: u8 where "RED = 4"
definition MAGENTA :: u8 where "MAGENTA = 5"
definition BROWN :: u8 where "BROWN = 6"
definition LIGHT_GRAY :: u8 where "LIGHT_GRAY = 7"
definition DARK_GRAY :: u8 where "DARK_GRAY = 8"
definition LIGHT_BLUE :: u8 where "LIGHT_BLUE = 9"
definition LIGHT_GREEN :: u8 where "LIGHT_GREEN = 10"
definition LIGHT_CYAN :: u8 where "LIGHT_CYAN = 11"
definition LIGHT_RED :: u8 where "LIGHT_RED = 12"
definition LIGHT_MAGENTA :: u8 where "LIGHT_MAGENTA = 13"
definition WHITE :: u8 where "WHITE = 15"
definition YELLOW :: u8 where "YELLOW = 14"

lemmas colour_defs = BLACK_def BLUE_def GREEN_def CYAN_def RED_def MAGENTA_def BROWN_def LIGHT_GRAY_def DARK_GRAY_def
  LIGHT_BLUE_def LIGHT_GREEN_def LIGHT_CYAN_def LIGHT_RED_def LIGHT_MAGENTA_def WHITE_def YELLOW_def

text \<open>The \<open>switch\<close> of \<open>echo\<close>.\<close>

definition ansi_color :: "u8 \<Rightarrow> u8" where
  "ansi_color color =
     (if color = BLACK then 0 else if color = BLUE then 4 else if color = GREEN then 2 else if color = CYAN then 6
      else if color = RED then 1 else if color = MAGENTA then 5 else if color = BROWN then 3
      else if color = LIGHT_GRAY then 7 else if color = DARK_GRAY then 8 else if color = LIGHT_BLUE then 12
      else if color = LIGHT_GREEN then 10 else if color = LIGHT_CYAN then 14 else if color = LIGHT_RED then 9
      else if color = LIGHT_MAGENTA then 13 else if color = WHITE then 15 else if color = YELLOW then 3 else 7)"

section \<open>Through the terminal library\<close>

text \<open>
  The addresses of the string literals: the format of \<open>echo\<close>, the prefixes of the messages, and of
  the texts of \<open>log_error\<close>.
\<close>

record literals =
  l_echo :: u32
  l_log :: u32
  l_debug :: u32
  l_0x :: u32
  l_nl :: u32
  l_arrow :: u32
  l_error :: u32
  l_descr :: u32

text \<open>
  The terminal: the library's \<open>flanterm_write\<close> and its context, the literals, and where the stack frames of \<open>echo\<close>
  (\<open>t_buf\<close>) and of \<open>flopvsnprintf\<close> (\<open>t_temp\<close>) are.
\<close>

record 'd terminal =
  t_write :: "u32 \<Rightarrow> mem \<Rightarrow> u32 \<Rightarrow> u32 \<Rightarrow> 'd \<Rightarrow> 'd"
  t_ctx :: u32
  t_lits :: literals
  t_buf :: u32
  t_temp :: u32

definition echo :: "'d terminal \<Rightarrow> u32 \<Rightarrow> u8 \<Rightarrow> mem \<times> 'd \<Rightarrow> (mem \<times> 'd) option" where
  "echo T str color s = (case s of (m, d) \<Rightarrow> do {
     (m, len) \<leftarrow> flopsnprintf (t_temp T) m (t_buf T) 8192 (l_echo (t_lits T)) [ucast (ansi_color color), str];
     if sint len > 0 \<and> sint len < 8192 then do {
       d \<leftarrow> framebuffer_term_write (t_write T) (t_ctx T) m (t_buf T) d;
       Some (m, d)
     } else Some (m, d)
   })"

text \<open>
  The variable arguments are passed on as one argument, the \<open>va_list\<close>; what \<open>flopvsnprintf\<close> takes beyond it are the words that
  follow on the stack.
\<close>

definition echo_f :: "'d terminal \<Rightarrow> u32 \<Rightarrow> u32 \<Rightarrow> s32 \<Rightarrow> u32 \<Rightarrow> u32 list \<Rightarrow> mem \<times> 'd \<Rightarrow> (mem \<times> 'd) option" where
  "echo_f T buffer format color va stack s = (case s of (m, d) \<Rightarrow> do {
     (m, result) \<leftarrow> flopsnprintf (t_temp T) m buffer 256 format (va # stack);
     let m = (if sint result < 0 then m(buffer := 0) else if result \<ge> 256 then m(buffer + 255 := 0) else m);
     echo T buffer (ucast color) (m, d)
   })"

section \<open>On the text screen\<close>

definition put_char :: "u8 \<Rightarrow> u8 \<Rightarrow> 'd vga \<Rightarrow> 'd vga option" where
  "put_char c color s = do {
     s \<leftarrow> (if c = 10 then
             Some (s\<lparr>vga_index := vga_index s + (of_nat VGA_WIDTH - vga_index s mod of_nat VGA_WIDTH)\<rparr>)
           else if unat (vga_index s) < length (tb_cells s) then
             Some (s\<lparr>tb_cells := (tb_cells s)[unat (vga_index s) := text_cell color c], vga_index := vga_index s + 1\<rparr>)
           else None);
     Some (if vga_index s \<ge> of_nat (VGA_WIDTH * VGA_HEIGHT)
           then s\<lparr>tb_cells := text_scroll color (tb_cells s), vga_index := vga_index s - of_nat VGA_WIDTH\<rparr>
           else s)
   }"

partial_function (option) put_string_loop :: "mem \<Rightarrow> u32 \<Rightarrow> u8 \<Rightarrow> 'd vga \<Rightarrow> 'd vga option" where
  "put_string_loop m str color s =
     (if m str \<noteq> 0 then do {
        s \<leftarrow> put_char (m str) color s;
        put_string_loop m (str + 1) color s
      } else Some s)"

definition echo_bold :: "mem \<Rightarrow> u32 \<Rightarrow> u8 \<Rightarrow> 'd vga \<Rightarrow> 'd vga option" where
  "echo_bold m str color s = put_string_loop m str (color OR 0x08) s"

definition get_terminal_content :: "cells \<Rightarrow> u32 \<Rightarrow> u32 \<Rightarrow> mem \<Rightarrow> mem" where
  "get_terminal_content b buffer buffer_size m =
     (if unat buffer_size < VGA_WIDTH * VGA_HEIGHT + 1 then m
      else put_bytes m buffer (map (\<lambda>i. ucast (b ! i AND 0xFF)) [0..<VGA_WIDTH * VGA_HEIGHT] @ [0]))"

definition retrieve_terminal_buffer :: "cells \<Rightarrow> u32 \<Rightarrow> u32 \<Rightarrow> mem \<Rightarrow> mem" where
  "retrieve_terminal_buffer b buffer colors m =
     fold (\<lambda>i m. m(buffer + of_nat i := ucast (b ! i AND 0xFF), colors + of_nat i := ucast (drop_bit 8 (b ! i) AND 0xFF)))
       [0..<VGA_WIDTH * VGA_HEIGHT] m"

text \<open>A character of the buffer is signed: one above 127 fills the byte of the colour.\<close>

definition restore_terminal_buffer :: "mem \<Rightarrow> u32 \<Rightarrow> u32 \<Rightarrow> cells \<Rightarrow> cells" where
  "restore_terminal_buffer m buffer colors b =
     fold (\<lambda>i b. b[i := (if m (buffer + of_nat i) = 0 then text_cell (m (colors + of_nat i)) 32
                          else push_bit 8 (ucast (m (colors + of_nat i))) OR scast (m (buffer + of_nat i)))])
       [0..<VGA_WIDTH * VGA_HEIGHT] b"

section \<open>Messages\<close>

text \<open>The digits are written least significant first and then reversed in place.\<close>

function memflop_reverse :: "mem \<Rightarrow> u32 \<Rightarrow> u32 \<Rightarrow> mem" where
  "memflop_reverse m p e =
     (if p < e then
        let tmp = m p;
            m = m(p := m e);
            m = m(e := tmp)
        in memflop_reverse m (p + 1) (e - 1)
      else m)"
  by pat_completeness auto

termination
proof (relation "measure (\<lambda>(m, p, e). unat e - unat p)")
  fix m :: mem and p e :: u32 and x xa xb
  assume "p < e"
  then have "unat p < unat e" by (simp add: word_less_nat_alt)
  moreover have "unat (p + 1) = unat p + 1"
    using \<open>unat p < unat e\<close> unat_less_2p32 [of e] by (subst unat_plus_u32) (simp_all del: unat_less_2p32)
  moreover have "unat (e - 1) = unat e - 1"
    using \<open>unat p < unat e\<close> by (subst unat_minus_u32) (simp_all add: word_le_nat_alt)
  ultimately show "((xb, p + 1, e - 1), (m, p, e)) \<in> measure (\<lambda>(m, p, e). unat e - unat p)" by simp
qed simp

declare memflop_reverse.simps [simp del]

definition memflopitoa :: "mem \<Rightarrow> u32 \<Rightarrow> u32 \<Rightarrow> u32 \<Rightarrow> mem" where
  "memflopitoa m value buffer base =
     (if base < 2 \<or> base > 16 then m(buffer := 0)
      else if value = 0 then m(buffer := 48, buffer + 1 := 0)
      else let ds = map (hex_digit True) (digits (unat base) (unat value));
               m = put_bytes m buffer (ds @ [0])
        in memflop_reverse m buffer (buffer + of_nat (length ds) - 1))"

definition log_address :: "'d terminal \<Rightarrow> u32 \<Rightarrow> u32 \<Rightarrow> u32 \<Rightarrow> mem \<times> 'd \<Rightarrow> (mem \<times> 'd) option" where
  "log_address T buffer prefix address s = do {
     let s = (memflopitoa (fst s) address buffer 16, snd s);
     s \<leftarrow> echo T (l_debug (t_lits T)) LIGHT_GRAY s;
     s \<leftarrow> echo T prefix LIGHT_GRAY s;
     s \<leftarrow> echo T (l_0x (t_lits T)) CYAN s;
     s \<leftarrow> echo T buffer CYAN s;
     echo T (l_nl (t_lits T)) LIGHT_GRAY s
   }"

definition log_uint :: "'d terminal \<Rightarrow> u32 \<Rightarrow> u32 \<Rightarrow> u32 \<Rightarrow> mem \<times> 'd \<Rightarrow> (mem \<times> 'd) option" where
  "log_uint T buffer prefix value s = do {
     let s = (memflopitoa (fst s) value buffer 10, snd s);
     s \<leftarrow> echo T (l_debug (t_lits T)) LIGHT_GRAY s;
     s \<leftarrow> echo T prefix LIGHT_GRAY s;
     s \<leftarrow> echo T buffer CYAN s;
     echo T (l_nl (t_lits T)) LIGHT_GRAY s
   }"

definition klog :: "'d terminal \<Rightarrow> u32 \<Rightarrow> u8 \<Rightarrow> mem \<times> 'd \<Rightarrow> (mem \<times> 'd) option" where
  "klog T message color s = do {
     s \<leftarrow> echo T (l_log (t_lits T)) color s;
     echo T message color s
   }"

definition log_error :: "'d terminal \<Rightarrow> u32 \<Rightarrow> u8 \<Rightarrow> mem \<times> 'd \<Rightarrow> (mem \<times> 'd) option" where
  "log_error T message color s = do {
     s \<leftarrow> echo T (l_arrow (t_lits T)) LIGHT_GRAY s;
     s \<leftarrow> echo T (l_error (t_lits T)) RED s;
     s \<leftarrow> echo T (l_descr (t_lits T)) LIGHT_GRAY s;
     echo T message color s
   }"

definition log_f :: "'d terminal \<Rightarrow> u32 \<Rightarrow> u32 \<Rightarrow> u32 \<Rightarrow> u32 list \<Rightarrow> mem \<times> 'd \<Rightarrow> (mem \<times> 'd) option" where
  "log_f T buf format va stack s = (case s of (m, d) \<Rightarrow> do {
     (m, n) \<leftarrow> flopsnprintf (t_temp T) m buf 256 format (va # stack);
     klog T buf LIGHT_GRAY (m, d)
   })"

end
