(* ===== verification/Keyboard.thy ===== *)
theory Keyboard
  imports Console
begin

text \<open>
  drivers/keyboard/keyboard.c: from scan codes to strings. A string that \<open>key_to_char\<close> returns is the list of its characters;
  reading a map past its end has no value. The keyboard controller is behind the ports, the terminal of \<open>echo\<close> as in
  \<open>Console\<close>.
\<close>

section \<open>Scan codes\<close>

definition KEY_ESC :: u8 where "KEY_ESC = 0x01"
definition KEY_CTRL :: u8 where "KEY_CTRL = 0x1D"
definition KEY_CTRL_RELEASE :: u8 where "KEY_CTRL_RELEASE = 0x9D"
definition KEY_ALT :: u8 where "KEY_ALT = 0x38"
definition KEY_ALT_RELEASE :: u8 where "KEY_ALT_RELEASE = 0xB8"
definition KEY_LSHIFT :: u8 where "KEY_LSHIFT = 0x2A"
definition KEY_RSHIFT :: u8 where "KEY_RSHIFT = 0x36"
definition KEY_LSHIFT_RELEASE :: u8 where "KEY_LSHIFT_RELEASE = 0xAA"
definition KEY_RSHIFT_RELEASE :: u8 where "KEY_RSHIFT_RELEASE = 0xB6"
definition KEY_F1 :: u8 where "KEY_F1 = 0x3B"
definition KEY_F2 :: u8 where "KEY_F2 = 0x3C"
definition KEY_F3 :: u8 where "KEY_F3 = 0x3D"
definition KEY_F4 :: u8 where "KEY_F4 = 0x3E"
definition KEY_F5 :: u8 where "KEY_F5 = 0x3F"
definition KEY_F6 :: u8 where "KEY_F6 = 0x40"
definition KEY_F7 :: u8 where "KEY_F7 = 0x41"
definition KEY_F8 :: u8 where "KEY_F8 = 0x42"
definition KEY_F9 :: u8 where "KEY_F9 = 0x43"
definition KEY_F10 :: u8 where "KEY_F10 = 0x44"
definition KEY_F11 :: u8 where "KEY_F11 = 0x57"
definition KEY_F12 :: u8 where "KEY_F12 = 0x58"
definition KEY_ARROW_UP :: u8 where "KEY_ARROW_UP = 0x52"
definition KEY_ARROW_DOWN :: u8 where "KEY_ARROW_DOWN = 0x55"
definition KEY_ARROW_LEFT :: u8 where "KEY_ARROW_LEFT = 0x53"
definition KEY_ARROW_RIGHT :: u8 where "KEY_ARROW_RIGHT = 0x54"
definition KEY_DELETE :: u8 where "KEY_DELETE = 0x4D"

lemmas shift_key_defs = KEY_LSHIFT_def KEY_RSHIFT_def KEY_LSHIFT_RELEASE_def KEY_RSHIFT_RELEASE_def
lemmas modifier_key_defs = shift_key_defs KEY_CTRL_def KEY_CTRL_RELEASE_def KEY_ALT_def KEY_ALT_RELEASE_def
lemmas named_key_defs = KEY_ESC_def KEY_F1_def KEY_F2_def KEY_F3_def KEY_F4_def KEY_F5_def KEY_F6_def KEY_F7_def KEY_F8_def
  KEY_F9_def KEY_F10_def KEY_F11_def KEY_F12_def KEY_ARROW_UP_def KEY_ARROW_DOWN_def KEY_ARROW_LEFT_def KEY_ARROW_RIGHT_def
  KEY_DELETE_def

definition ascii :: "string \<Rightarrow> u8 list" where
  "ascii s = map of_char s"

definition kbd_map_normal :: "u8 list" where
  "kbd_map_normal =
     [0, 27] @ ascii ''1234567890-='' @ [8, 9] @ ascii ''qwertyuiop[]'' @ [10, 0] @ ascii ''asdfghjkl;'' @ [39, 96, 0, 92] @
     ascii ''zxcvbnm,./'' @ [0, 42, 0, 32] @ replicate 16 0 @ [45, 0, 0, 0, 43] @ replicate 11 0"

definition kbd_map_shifted :: "u8 list" where
  "kbd_map_shifted =
     [0, 27] @ ascii ''!@#$%^&*()_+'' @ [8, 9] @ ascii ''QWERTYUIOP{}'' @ [10, 0] @ ascii ''ASDFGHJKL:'' @ [34, 126, 0, 124] @
     ascii ''ZXCVBNM<>?'' @ [0, 42, 0, 32]"

section \<open>State\<close>

datatype keyboard_layout_t = QWERTY

record keyboard_t =
  k_layout :: keyboard_layout_t
  k_map_normal :: "u8 list"
  k_map_shifted :: "u8 list"

text \<open>The modifier keys that are down, and the one character of the static buffer.\<close>

record kbd_state =
  shift_pressed :: bool
  ctrl_pressed :: bool
  alt_pressed :: bool
  kbd_buf :: u8

section \<open>Translation\<close>

definition named_key :: "u8 \<Rightarrow> string option" where
  "named_key key =
     (if key = KEY_ESC then Some ''Esc''
      else if key = KEY_F1 then Some ''F1'' else if key = KEY_F2 then Some ''F2'' else if key = KEY_F3 then Some ''F3''
      else if key = KEY_F4 then Some ''F4'' else if key = KEY_F5 then Some ''F5'' else if key = KEY_F6 then Some ''F6''
      else if key = KEY_F7 then Some ''F7'' else if key = KEY_F8 then Some ''F8'' else if key = KEY_F9 then Some ''F9''
      else if key = KEY_F10 then Some ''F10'' else if key = KEY_F11 then Some ''F11'' else if key = KEY_F12 then Some ''F12''
      else if key = KEY_ARROW_UP then Some ''ArrowUp'' else if key = KEY_ARROW_LEFT then Some ''ArrowLeft''
      else if key = KEY_ARROW_RIGHT then Some ''ArrowRight'' else if key = KEY_ARROW_DOWN then Some ''ArrowDown''
      else if key = KEY_DELETE then Some ''Delete'' else None)"

definition key_to_char :: "u8 \<Rightarrow> kbd_state \<Rightarrow> (u8 list \<times> kbd_state) option" where
  "key_to_char key s =
     (if key = KEY_LSHIFT \<or> key = KEY_RSHIFT then Some ([], s\<lparr>shift_pressed := True\<rparr>)
      else if key = KEY_LSHIFT_RELEASE \<or> key = KEY_RSHIFT_RELEASE then Some ([], s\<lparr>shift_pressed := False\<rparr>)
      else if key = KEY_CTRL then Some ([], s\<lparr>ctrl_pressed := True\<rparr>)
      else if key = KEY_CTRL_RELEASE then Some ([], s\<lparr>ctrl_pressed := False\<rparr>)
      else if key = KEY_ALT then Some ([], s\<lparr>alt_pressed := True\<rparr>)
      else if key = KEY_ALT_RELEASE then Some ([], s\<lparr>alt_pressed := False\<rparr>)
      else case named_key key of
        Some name \<Rightarrow> Some (ascii name, s)
      | None \<Rightarrow>
        if unat key < length kbd_map_normal then do {
          let tab = (if shift_pressed s then kbd_map_shifted else kbd_map_normal);
          guard (unat key < length tab);
          let c = tab ! unat key;
          Some (if c \<noteq> 0 then ([c], s\<lparr>kbd_buf := c\<rparr>) else ([], s))
        } else Some ([], s))"

section \<open>The controller\<close>

definition try_read_key :: "'d ports \<Rightarrow> 'd \<Rightarrow> u8 \<times> 'd" where
  "try_read_key P d =
     (case p_inb P 0x64 d of (st, d) \<Rightarrow> if st AND 0x1 \<noteq> 0 then p_inb P 0x60 d else (0, d))"

definition first_char :: "u8 list \<Rightarrow> u8" where
  "first_char cs = (case cs of [] \<Rightarrow> 0 | c # _ \<Rightarrow> c)"

definition try_get_char :: "'d ports \<Rightarrow> kbd_state \<times> 'd \<Rightarrow> (u8 \<times> kbd_state \<times> 'd) option" where
  "try_get_char P s = (case s of (k, d) \<Rightarrow>
     (case try_read_key P d of (scancode, d) \<Rightarrow>
        if scancode \<noteq> 0 then do { (cs, k) \<leftarrow> key_to_char scancode k; Some (first_char cs, k, d) } else Some (0, k, d)))"

text \<open>
  The string is at \<open>addr\<close> when \<open>echo\<close> gets it: the static buffer or a literal. \<open>bs\<close> is the literal with the
  backspace.
\<close>

definition keyboard_handler ::
  "'d ports \<Rightarrow> 'd terminal \<Rightarrow> u32 \<Rightarrow> u32 \<Rightarrow> kbd_state \<times> mem \<times> 'd \<Rightarrow> (kbd_state \<times> mem \<times> 'd) option" where
  "keyboard_handler P T addr bs s = (case s of (k, m, d) \<Rightarrow>
     (case p_inb P 0x60 d of (scancode, d) \<Rightarrow> do {
        (cs, k) \<leftarrow> key_to_char scancode k;
        if first_char cs = 0 then Some (k, m, d)
        else if first_char cs = 8 then do { (m, d) \<leftarrow> echo T bs BLACK (m, d); Some (k, m, d) }
        else do { (m, d) \<leftarrow> echo T addr WHITE (put_bytes m addr (cs @ [0]), d); Some (k, m, d) }
      }))"

definition keyboard_init :: keyboard_t where
  "keyboard_init = \<lparr>k_layout = QWERTY, k_map_normal = kbd_map_normal, k_map_shifted = kbd_map_shifted\<rparr>"

section \<open>What the translation does\<close>

lemma kbd_map_lengths: "length kbd_map_normal = 90" "length kbd_map_shifted = 58"
  by (simp_all add: kbd_map_normal_def kbd_map_shifted_def ascii_def)

text \<open>Without shift every scan code has a translation.\<close>

lemma key_to_char_unshifted:
  assumes "\<not> shift_pressed s"
  shows "\<exists>cs s'. key_to_char key s = Some (cs, s')"
  using assms by (simp add: key_to_char_def Let_def split: option.split)

text \<open>The state of the shift keys after a scan code is that of the last shift key that was pressed or released.\<close>

lemma key_to_char_shift:
  assumes "key_to_char key s = Some (cs, s')"
  shows "shift_pressed s' = (if key = KEY_LSHIFT \<or> key = KEY_RSHIFT then True
    else if key = KEY_LSHIFT_RELEASE \<or> key = KEY_RSHIFT_RELEASE then False else shift_pressed s)"
  using assms by (auto simp: key_to_char_def Let_def modifier_key_defs guard_bind_Some split: if_splits option.splits)

text \<open>The bound of the translation is the length of the plain map, for the shifted map as well, which is shorter: with shift
  held, exactly the keys from 58 to 89 without a name of their own are looked up behind its end.
\<close>

theorem key_to_char_overruns_map:
  assumes "shift_pressed s"
  shows "key_to_char key s = None \<longleftrightarrow> 58 \<le> key \<and> key < 90 \<and> named_key key = None"
proof (cases "key \<in> {KEY_LSHIFT, KEY_RSHIFT, KEY_LSHIFT_RELEASE, KEY_RSHIFT_RELEASE, KEY_CTRL, KEY_CTRL_RELEASE, KEY_ALT, KEY_ALT_RELEASE}")
  case True
  then have "key_to_char key s \<noteq> None" "\<not> (58 \<le> key \<and> key < 90)"
    by (auto simp: key_to_char_def modifier_key_defs)
  then show ?thesis by blast
next
  case False
  then have "key_to_char key s = (case named_key key of Some name \<Rightarrow> Some (ascii name, s)
      | None \<Rightarrow> if unat key < 90 then do {
          guard (unat key < 58);
          let c = kbd_map_shifted ! unat key;
          Some (if c \<noteq> 0 then ([c], s\<lparr>kbd_buf := c\<rparr>) else ([], s)) } else Some ([], s))"
    using assms by (simp add: key_to_char_def kbd_map_lengths Let_def cong: option.case_cong)
  then show ?thesis
    by (auto simp: word_le_nat_alt word_less_nat_alt Let_def bind_eq_None_conv guard_def split: option.splits if_splits)
qed

definition demo_kbd :: kbd_state where
  "demo_kbd = \<lparr>shift_pressed = True, ctrl_pressed = False, alt_pressed = False, kbd_buf = 0\<rparr>"

theorem key_to_char_overruns_map_witness:
  "key_to_char 0x4A demo_kbd = None \<and> key_to_char 0x3B demo_kbd \<noteq> None"
proof -
  have "shift_pressed demo_kbd" by (simp add: demo_kbd_def)
  from key_to_char_overruns_map [OF this] show ?thesis
    by (simp add: named_key_def named_key_defs word_le_nat_alt word_less_nat_alt)
qed

end
