(* ===== verification/InterruptProps.thy ===== *)
theory InterruptProps
  imports Interrupts Keyboard
begin

text \<open>
  The interrupts of interrupts/interrupts.c together with the keyboard driver of drivers/keyboard/keyboard.c, which isr_dispatch
  calls: what a sequence of interrupts does to the kernel.
\<close>

section \<open>The keyboard interrupt\<close>

text \<open>The state of the keyboard driver is kept beside the devices; the ports only reach the devices.\<close>

definition beside :: "'d ports \<Rightarrow> ('k \<times> 'd) ports" where
  "beside P = \<lparr>p_inb = (\<lambda>p (k, d). case p_inb P p d of (v, d) \<Rightarrow> (v, (k, d))), p_outb = (\<lambda>p v (k, d). (k, p_outb P p v d)),
     p_inw = (\<lambda>p (k, d). case p_inw P p d of (v, d) \<Rightarrow> (v, (k, d))), p_outw = (\<lambda>p v (k, d). (k, p_outw P p v d))\<rparr>"

text \<open>\<open>keyboard_handler\<close> on the machine: it works on the memory, its own variables and the devices.\<close>

definition keyboard_interrupt ::
  "'d ports \<Rightarrow> 'd terminal \<Rightarrow> u32 \<Rightarrow> u32 \<Rightarrow> (kbd_state \<times> 'd) machine \<Rightarrow> (kbd_state \<times> 'd) machine option" where
  "keyboard_interrupt P T addr bs s = (case mc_dev s of (k, d) \<Rightarrow> do {
     (k, m, d) \<leftarrow> keyboard_handler P T addr bs (k, fs_mem s, d);
     Some (set_mem m (s\<lparr>mc_dev := (k, d)\<rparr>))
   })"

lemma set_mem_same_kernel: "same_kernel s (set_mem m (s\<lparr>mc_dev := d\<rparr>))"
  unfolding same_kernel_def by (intro exI [of _ m]) (simp add: set_mem_def kernel.defs)

lemma keyboard_interrupt_kernel:
  "keyboard_interrupt P T addr bs s = Some s' \<Longrightarrow> same_kernel s s' \<and> global_tick_count s' = global_tick_count s"
  unfolding keyboard_interrupt_def
  by (auto simp: set_mem_same_kernel split: bind_splits prod.splits) (simp add: set_mem_def)

section \<open>A sequence of interrupts\<close>

text \<open>C35: The clock of the machine never reaches the scheduler. Whatever timer and keyboard interrupts, other hardware interrupts and exceptions
  come in, however many and in whatever order, as long as no system call is among them: \<open>isr_dispatch\<close> handles all of them,
  or stops at a key for which \<open>keyboard_handler\<close> has no result (a read past the end of the shifted map, or an
  \<open>echo\<close> that does not return). When all are handled, the scheduler, its own tick count and its sleeping
  threads included, is what it was, and so is everything else of the kernel but the memory that \<open>echo\<close> writes;
  the tick counter of the interrupt code has gone up by the number of timer interrupts.
\<close>

theorem interrupts_never_schedule:
  fixes s :: "(kbd_state \<times> 'd) machine"
  assumes "list_all (\<lambda>f. f_int_no f \<noteq> 80) fs"
  shows "case run_interrupts (beside P) (keyboard_interrupt P T addr bs) E fs s of
     None \<Rightarrow> \<exists>gs g hs u. fs = gs @ g # hs \<and> f_int_no g = 33 \<and>
       run_interrupts (beside P) (keyboard_interrupt P T addr bs) E gs s = Some u \<and> keyboard_interrupt P T addr bs u = None
   | Some s' \<Rightarrow> k_sched s' = k_sched s \<and> (\<exists>m. kernel.truncate s' = set_mem m (kernel.truncate s)) \<and>
       global_tick_count s' = global_tick_count s + of_nat (length (filter (\<lambda>f. f_int_no f = 32) fs))"
proof -
  note r = run_interrupts_kernel [where kbd = "keyboard_interrupt P T addr bs", OF keyboard_interrupt_kernel assms, where P = "beside P" and E = E and s = s]
  then show ?thesis
    by (cases "run_interrupts (beside P) (keyboard_interrupt P T addr bs) E fs s")
      (simp_all add: same_kernel_sched same_kernel_def [symmetric])
qed

definition demo_frame :: "u32 \<Rightarrow> int_frame" where
  "demo_frame n = \<lparr>f_gs = 0, f_fs = 0, f_es = 0, f_ds = 0, f_edi = 0, f_esi = 0, f_ebp = 0, f_esp_dummy = 0, f_ebx = 0, f_edx = 0,
     f_ecx = 0, f_eax = 0, f_int_no = n, f_err_code = 0, f_eip = 0, f_cs = 0, f_eflags = 0, f_useresp = 0, f_ss = 0\<rparr>"

text \<open>A key that is pressed down: the controller answers with the code of the shift key.\<close>

definition demo_keys :: "(kbd_state \<times> port_write list) machine" where
  "demo_keys = kernel.extend (demo_kernel demo_vm) (machine.fields 0 (replicate 256 (idt_gate 0)) \<lparr>ip_limit = 0, ip_base = 0\<rparr> None True 0
     (\<lparr>shift_pressed = False, ctrl_pressed = False, alt_pressed = False, kbd_buf = 0\<rparr>, []))"

theorem interrupts_never_schedule_witness:
  "\<forall>T E. \<exists>s'. run_interrupts (beside (log_ports (\<lambda>_. 0x2A) (\<lambda>_. 0))) (keyboard_interrupt (log_ports (\<lambda>_. 0x2A) (\<lambda>_. 0)) T 0 0) E
      [demo_frame 32, demo_frame 33, demo_frame 32, demo_frame 14] demo_keys = Some s' \<and>
     k_sched s' = k_sched demo_keys \<and> global_tick_count s' = 2"
proof (intro allI)
  fix T :: "port_write list terminal" and E :: "(kbd_state \<times> port_write list) machine sys_env"
  let ?P = "log_ports (\<lambda>_. 0x2A) (\<lambda>_. 0)"
  define fs where "fs = [demo_frame 32, demo_frame 33, demo_frame 32, demo_frame 14]"
  have fs: "list_all (\<lambda>f. f_int_no f \<noteq> 80) fs" "length (filter (\<lambda>f. f_int_no f = 32) fs) = 2"
    "global_tick_count demo_keys = 0"
    by (simp_all add: fs_def demo_frame_def demo_keys_def kernel.defs machine.defs)
  have kbd: "keyboard_interrupt ?P T 0 0 u \<noteq> None" for u
    by (cases "mc_dev u") (simp add: keyboard_interrupt_def keyboard_handler_def log_ports_def key_to_char_def KEY_LSHIFT_def first_char_def)
  note r = interrupts_never_schedule [OF fs(1), where P = ?P and T = T and addr = 0 and bs = 0 and E = E and s = demo_keys]
  show "\<exists>s'. run_interrupts (beside ?P) (keyboard_interrupt ?P T 0 0) E [demo_frame 32, demo_frame 33, demo_frame 32, demo_frame 14]
      demo_keys = Some s' \<and> k_sched s' = k_sched demo_keys \<and> global_tick_count s' = 2"
    unfolding fs_def [symmetric]
  proof (cases "run_interrupts (beside ?P) (keyboard_interrupt ?P T 0 0) E fs demo_keys")
    case None
    then show "\<exists>s'. run_interrupts (beside ?P) (keyboard_interrupt ?P T 0 0) E fs demo_keys = Some s' \<and>
        k_sched s' = k_sched demo_keys \<and> global_tick_count s' = 2" using r kbd by (simp only: option.case) blast
  next
    case (Some s')
    then show "\<exists>s'. run_interrupts (beside ?P) (keyboard_interrupt ?P T 0 0) E fs demo_keys = Some s' \<and>
        k_sched s' = k_sched demo_keys \<and> global_tick_count s' = 2" using r fs(2,3) by simp
  qed
qed

end
