(* ===== verification/FramebufferShapes.thy ===== *)
theory FramebufferShapes
  imports FramebufferProps
begin

text \<open>
  The shapes: an area is the list of its points, a line is a connected path to its end point, a circle
  is eight reflections of an arc.
\<close>

section \<open>Areas\<close>

definition area_points :: "s32 \<Rightarrow> s32 \<Rightarrow> nat \<Rightarrow> nat \<Rightarrow> (s32 \<times> s32) list" where
  "area_points x y w h = concat (map (\<lambda>i. map (\<lambda>j. (x + of_nat i, y + of_nat j)) [0..<h]) [0..<w])"

lemma fold_plot: "fold (\<lambda>i. plot fb color (f i)) is m = plot fb color (concat (map f is)) m"
  by (induction "is" arbitrary: m) simp_all

lemma column_plot: "fold (\<lambda>j. framebuffer_put_pixel fb (a j) (b j) color) js = plot fb color (map (\<lambda>j. (a j, b j)) js)"
  by (rule ext, induction js) simp_all

lemma draw_rectangle_plot:
  "framebuffer_draw_rectangle fb x y w h color m = plot fb color (area_points x y (nat (sint w)) (nat (sint h))) m"
  by (simp add: framebuffer_draw_rectangle_def column_plot fold_plot area_points_def)

lemma fill_screen_plot:
  "framebuffer_fill_screen fb color m = plot fb color (area_points 0 0 (unat (fb_width fb)) (unat (fb_height fb))) m"
  by (simp add: framebuffer_fill_screen_def column_plot fold_plot area_points_def)

lemma in_area_points: "(a, b) \<in> set (area_points x y w h) \<longleftrightarrow> (\<exists>i < w. \<exists>j < h. a = x + of_nat i \<and> b = y + of_nat j)"
proof
  assume "\<exists>i < w. \<exists>j < h. a = x + of_nat i \<and> b = y + of_nat j"
  then obtain i j where "i < w" "j < h" "a = x + of_nat i" "b = y + of_nat j" by blast
  then have "(a, b) \<in> set (map (\<lambda>j. (x + of_nat i, y + of_nat j)) [0..<h])" "i \<in> set [0..<w]" by auto
  then show "(a, b) \<in> set (area_points x y w h)" unfolding area_points_def set_concat set_map [of _ "[0..<w]"] by blast
next
  assume "(a, b) \<in> set (area_points x y w h)"
  then obtain i where i: "i < w" "(a, b) \<in> (\<lambda>j. (x + of_nat i, y + of_nat j)) ` {0..<h}" by (auto simp: area_points_def)
  then obtain j where "j < h" "a = x + of_nat i" "b = y + of_nat j" by auto
  with i(1) show "\<exists>i < w. \<exists>j < h. a = x + of_nat i \<and> b = y + of_nat j" by blast
qed

lemma sint_of_int_s32: "- 2147483648 \<le> i \<Longrightarrow> i < 2147483648 \<Longrightarrow> sint (of_int i :: s32) = i"
  by (simp add: sint_sbintrunc' signed_take_bit_int_eq_self)

lemma of_int_eq_s32:
  "- 2147483648 \<le> i \<Longrightarrow> i < 2147483648 \<Longrightarrow> - 2147483648 \<le> j \<Longrightarrow> j < 2147483648 \<Longrightarrow> (of_int i :: s32) = of_int j \<longleftrightarrow> i = j"
  by (metis sint_of_int_s32)

lemma sint_bounds_s32: "- 2147483648 \<le> sint (a :: s32)" "sint (a :: s32) < 2147483648"
  using sint_ge [of a] sint_lt [of a] by simp_all

text \<open>A coordinate is hit when it lies in the interval, as long as the interval does not wrap.\<close>

lemma offset_hit:
  assumes "sint x + sint w \<le> 2147483648"
  shows "(\<exists>i < nat (sint w). (a :: s32) = x + of_nat i) \<longleftrightarrow> sint x \<le> sint a \<and> sint a < sint x + sint w"
proof
  assume "\<exists>i < nat (sint w). a = x + of_nat i"
  then obtain i where i: "i < nat (sint w)" "a = of_int (sint x + int i)" by auto
  then have "sint a = sint x + int i"
    using assms sint_bounds_s32 [of x] by (subst i(2), intro sint_of_int_s32) linarith+
  then show "sint x \<le> sint a \<and> sint a < sint x + sint w" using i(1) by linarith
next
  assume a: "sint x \<le> sint a \<and> sint a < sint x + sint w"
  have "a = x + of_nat (nat (sint a - sint x))"
    using a by simp
  then show "\<exists>i < nat (sint w). a = x + of_nat i" using a by (intro exI [of _ "nat (sint a - sint x)"]) simp
qed

section \<open>The choice of the steps of a line\<close>

text \<open>
  The longer direction advances in every turn; the other one advances when the error \<open>e\<close> is below its
  length \<open>b\<close>. \<open>True\<close> marks those turns.
\<close>

fun bres :: "int \<Rightarrow> int \<Rightarrow> nat \<Rightarrow> int \<Rightarrow> bool list" where
  "bres a b 0 e = []"
| "bres a b (Suc n) e = (if e < b then True # bres a b n (e - b + a) else False # bres a b n (e - b))"

fun bres_path :: "(int \<times> int) \<Rightarrow> (int \<times> int) \<Rightarrow> (int \<times> int) \<Rightarrow> bool list \<Rightarrow> (int \<times> int) list" where
  "bres_path s t p [] = [p]"
| "bres_path s t p (d # ds) =
     p # bres_path s t (fst p + fst s + (if d then fst t else 0), snd p + snd s + (if d then snd t else 0)) ds"

abbreviation minors :: "bool list \<Rightarrow> int" where
  "minors ds \<equiv> int (length (filter (\<lambda>d. d) ds))"

lemma bres_length [simp]: "length (bres a b n e) = n"
  by (induction a b n e rule: bres.induct) simp_all

lemma bres_error:
  assumes "0 \<le> b" "b \<le> a" "0 \<le> e" "e < a"
  shows "0 \<le> e - int n * b + minors (bres a b n e) * a \<and> e - int n * b + minors (bres a b n e) * a < a"
  using assms
proof (induction a b n e rule: bres.induct)
  case (2 a b n e)
  then show ?case by (cases "e < b") (auto simp: algebra_simps)
qed simp

text \<open>Taken from the middle, the shorter direction advances exactly by its length.\<close>

lemma bres_total:
  assumes "0 \<le> b" "b \<le> a" "0 < a"
  shows "minors (bres a b (nat a) (a div 2)) = b"
proof -
  let ?c = "minors (bres a b (nat a) (a div 2))"
  have "0 \<le> a div 2 - a * b + ?c * a" "a div 2 - a * b + ?c * a < a"
    using bres_error [OF assms(1,2), of "a div 2" "nat a"] assms(3) by simp_all
  then have "(?c - b) * a < 1 * a" "(- 1) * a < (?c - b) * a" using assms(3) by (simp_all add: algebra_simps)
  then have "?c - b < 1" "- 1 < ?c - b"
    using assms(3) mult_less_cancel_right [of "?c - b" a 1] mult_less_cancel_right [of "- 1" a "?c - b"] by linarith+
  then show ?thesis by simp
qed

lemma path_hd [simp]: "hd (bres_path s t p ds) = p"
  by (cases ds) simp_all

lemma path_ne [simp]: "bres_path s t p ds \<noteq> []"
  by (cases ds) simp_all

lemma path_length [simp]: "length (bres_path s t p ds) = Suc (length ds)"
  by (induction s t p ds rule: bres_path.induct) simp_all

lemma path_last:
  "last (bres_path s t p ds) = (fst p + int (length ds) * fst s + minors ds * fst t, snd p + int (length ds) * snd s + minors ds * snd t)"
  by (induction s t p ds rule: bres_path.induct) (auto simp: algebra_simps)

lemma path_steps:
  "successively (\<lambda>p q. q = (fst p + fst s, snd p + snd s) \<or> q = (fst p + fst s + fst t, snd p + snd s + snd t)) (bres_path s t p ds)"
  by (induction s t p ds rule: bres_path.induct) (auto simp: successively_Cons)

text \<open>Every point of the path is an initial part of the steps away from the start.\<close>

lemma bres_path_points:
  "bres_path s t p (bres a b n e) =
     map (\<lambda>k. (fst p + int k * fst s + minors (bres a b k e) * fst t, snd p + int k * snd s + minors (bres a b k e) * snd t)) [0..<Suc n]"
proof (induction a b n e arbitrary: p rule: bres.induct)
  case (2 a b n e)
  have "[0..<Suc (Suc n)] = 0 # map Suc [0..<Suc n]" by (simp add: map_Suc_upt upt_conv_Cons del: upt_Suc)
  then show ?case using 2 by (simp add: o_def algebra_simps del: upt_Suc)
qed simp

lemma path_points:
  assumes "q \<in> set (bres_path s t p (bres a b n e))"
  shows "\<exists>k. q = (fst p + int k * fst s + minors (bres a b k e) * fst t, snd p + int k * snd s + minors (bres a b k e) * snd t)"
  using assms unfolding bres_path_points set_map by blast

text \<open>How often the shorter direction has advanced after \<open>k\<close> turns: \<open>k * b / a\<close>, rounded to the nearest number.\<close>

lemma minors_closed:
  assumes "0 \<le> b" "b \<le> a" "0 < a"
  shows "minors (bres a b k (a div 2)) = - ((a div 2 - int k * b) div a)"
proof -
  let ?c = "minors (bres a b k (a div 2))"
  have "0 \<le> a div 2 - int k * b + ?c * a" "a div 2 - int k * b + ?c * a < a"
    using bres_error [OF assms(1,2), of "a div 2" k] assms(3) by simp_all
  moreover have "a div 2 - int k * b = a * (- ?c) + (a div 2 - int k * b + ?c * a)" by (simp add: algebra_simps)
  ultimately have "(a div 2 - int k * b) div a = - ?c" by (rule int_div_pos_eq [rotated])
  then show ?thesis by simp
qed

section \<open>The loop of a line\<close>

abbreviation wpt :: "int \<times> int \<Rightarrow> s32 \<times> s32" where
  "wpt p \<equiv> (of_int (fst p), of_int (snd p))"

lemma line_loop_x:
  assumes "0 \<le> dy" "dy \<le> dx" "dx \<le> 1073741824" "\<bar>sx\<bar> = 1" "\<bar>x2\<bar> \<le> 536870912"
    and "0 \<le> e" "e < dx" "int n \<le> dx" "x2 = x + int n * sx" "y2 = y + minors (bres dx dy n e) * sy"
  shows "line_loop fb (of_int dx) (of_int dy) (of_int sx) (of_int sy) (of_int x2) (of_int y2) color (of_int x) (of_int y) (of_int e) m =
     Some (plot fb color (map wpt (bres_path (sx, 0) (0, sy) (x, y) (bres dx dy n e))) m)"
  using assms
proof (induction n arbitrary: x y e m)
  case 0
  then show ?case by (subst line_loop.simps) simp
next
  case (Suc n)
  have ne: "(of_int x :: s32) \<noteq> of_int x2"
  proof -
    have "x \<noteq> x2" "\<bar>x2 - x\<bar> \<le> 1073741824" using Suc.prems(3,4,8,9) by (auto simp: abs_mult)
    then show ?thesis using Suc.prems(5) by (subst of_int_eq_s32) linarith+
  qed
  have cmp: "sint (of_int e :: s32) = e" "sint (- of_int dx :: s32) = - dx" "sint (of_int dy :: s32) = dy"
    using Suc.prems(1-3,6,7) sint_of_int_s32 [of "- dx"] by (simp_all add: sint_of_int_s32)
  show ?case
  proof (cases "e < dy")
    case True
    have "line_loop fb (of_int dx) (of_int dy) (of_int sx) (of_int sy) (of_int x2) (of_int y2) color
        (of_int (x + sx)) (of_int (y + sy)) (of_int (e - dy + dx)) (framebuffer_put_pixel fb (of_int x) (of_int y) color m) =
      Some (plot fb color (map wpt (bres_path (sx, 0) (0, sy) (x + sx, y + sy) (bres dx dy n (e - dy + dx))))
        (framebuffer_put_pixel fb (of_int x) (of_int y) color m))"
      using Suc.prems True by (intro Suc.IH) (auto simp: algebra_simps)
    then show ?thesis
      using True ne cmp Suc.prems(6,7) by (subst line_loop.simps) (simp add: Let_def)
  next
    case False
    have "line_loop fb (of_int dx) (of_int dy) (of_int sx) (of_int sy) (of_int x2) (of_int y2) color
        (of_int (x + sx)) (of_int y) (of_int (e - dy)) (framebuffer_put_pixel fb (of_int x) (of_int y) color m) =
      Some (plot fb color (map wpt (bres_path (sx, 0) (0, sy) (x + sx, y) (bres dx dy n (e - dy))))
        (framebuffer_put_pixel fb (of_int x) (of_int y) color m))"
      using Suc.prems False by (intro Suc.IH) (auto simp: algebra_simps)
    then show ?thesis
      using False ne cmp Suc.prems(6,7) by (subst line_loop.simps) (simp add: Let_def)
  qed
qed

lemma line_loop_y:
  assumes "0 \<le> dx" "dx \<le> dy" "dy \<le> 1073741824" "\<bar>sy\<bar> = 1" "\<bar>y2\<bar> \<le> 536870912"
    and "0 \<le> e" "e < dy" "int n \<le> dy" "y2 = y + int n * sy" "x2 = x + minors (bres dy dx n e) * sx"
  shows "line_loop fb (of_int dx) (of_int dy) (of_int sx) (of_int sy) (of_int x2) (of_int y2) color (of_int x) (of_int y) (of_int (- e)) m =
     Some (plot fb color (map wpt (bres_path (0, sy) (sx, 0) (x, y) (bres dy dx n e))) m)"
  using assms
proof (induction n arbitrary: x y e m)
  case 0
  then show ?case by (subst line_loop.simps) simp
next
  case (Suc n)
  have ne: "(of_int y :: s32) \<noteq> of_int y2"
  proof -
    have "y \<noteq> y2" "\<bar>y2 - y\<bar> \<le> 1073741824" using Suc.prems(3,4,8,9) by (auto simp: abs_mult)
    then show ?thesis using Suc.prems(5) by (subst of_int_eq_s32) linarith+
  qed
  have cmp: "sint (- of_int e :: s32) = - e" "sint (- of_int dx :: s32) = - dx" "sint (of_int dy :: s32) = dy"
    using Suc.prems(1-3,6,7) sint_of_int_s32 [of "- dx"] sint_of_int_s32 [of "- e"] by (simp_all add: sint_of_int_s32)
  show ?case
  proof (cases "e < dx")
    case True
    have "line_loop fb (of_int dx) (of_int dy) (of_int sx) (of_int sy) (of_int x2) (of_int y2) color
        (of_int (x + sx)) (of_int (y + sy)) (of_int (- (e - dx + dy))) (framebuffer_put_pixel fb (of_int x) (of_int y) color m) =
      Some (plot fb color (map wpt (bres_path (0, sy) (sx, 0) (x + sx, y + sy) (bres dy dx n (e - dx + dy))))
        (framebuffer_put_pixel fb (of_int x) (of_int y) color m))"
      using Suc.prems True by (intro Suc.IH) (auto simp: algebra_simps)
    then show ?thesis
      using True ne cmp Suc.prems(6,7) by (subst line_loop.simps) (simp add: Let_def algebra_simps)
  next
    case False
    have "line_loop fb (of_int dx) (of_int dy) (of_int sx) (of_int sy) (of_int x2) (of_int y2) color
        (of_int x) (of_int (y + sy)) (of_int (- (e - dx))) (framebuffer_put_pixel fb (of_int x) (of_int y) color m) =
      Some (plot fb color (map wpt (bres_path (0, sy) (sx, 0) (x, y + sy) (bres dy dx n (e - dx))))
        (framebuffer_put_pixel fb (of_int x) (of_int y) color m))"
      using Suc.prems False by (intro Suc.IH) (auto simp: algebra_simps)
    then show ?thesis
      using False ne cmp Suc.prems(6,7) by (subst line_loop.simps) (simp add: Let_def algebra_simps)
  qed
qed

lemma c_half_of_int: "0 \<le> i \<Longrightarrow> i \<le> 1073741824 \<Longrightarrow> c_half (of_int i) = of_int (i div 2) \<and> c_half (of_int (- i)) = of_int (- (i div 2))"
  using sint_of_int_s32 [of i] sint_of_int_s32 [of "- i"] by (auto simp: c_half_def)

lemma c_abs_of_int: "\<bar>i\<bar> \<le> 1073741824 \<Longrightarrow> c_abs (of_int i) = of_int \<bar>i\<bar>"
  using sint_of_int_s32 [of i] by (auto simp: c_abs_def)

text \<open>
  The points of a line from \<open>p\<close> to \<open>q\<close>: connected, from end to end, as many as the longer direction asks
  for, and nowhere further than one step from the straight line.
\<close>

definition near_line :: "int \<times> int \<Rightarrow> int \<times> int \<Rightarrow> int \<times> int \<Rightarrow> bool" where
  "near_line p q r \<longleftrightarrow>
     \<bar>(fst r - fst p) * (snd q - snd p) - (snd r - snd p) * (fst q - fst p)\<bar> \<le> max \<bar>fst q - fst p\<bar> \<bar>snd q - snd p\<bar>"

definition adjacent :: "int \<times> int \<Rightarrow> int \<times> int \<Rightarrow> bool" where
  "adjacent p q \<longleftrightarrow> p \<noteq> q \<and> \<bar>fst q - fst p\<bar> \<le> 1 \<and> \<bar>snd q - snd p\<bar> \<le> 1"

definition line_of :: "int \<times> int \<Rightarrow> int \<times> int \<Rightarrow> (int \<times> int) list \<Rightarrow> bool" where
  "line_of p q ps \<longleftrightarrow> ps \<noteq> [] \<and> hd ps = p \<and> last ps = q \<and>
     length ps = Suc (nat (max \<bar>fst q - fst p\<bar> \<bar>snd q - snd p\<bar>)) \<and> successively adjacent ps \<and> list_all (near_line p q) ps"

text \<open>The points themselves: \<open>k\<close> steps along the longer direction, and as many along the shorter one as the slope asks for.\<close>

definition line_points :: "int \<times> int \<Rightarrow> int \<times> int \<Rightarrow> (int \<times> int) list" where
  "line_points p q =
     (let dx = \<bar>fst q - fst p\<bar>; dy = \<bar>snd q - snd p\<bar>;
          sx = (if fst p < fst q then 1 else - 1); sy = (if snd p < snd q then 1 else - 1)
      in map (\<lambda>k. if dy < dx then (fst p + sx * int k, snd p - sy * ((dx div 2 - int k * dy) div dx))
                  else (fst p - sx * ((dy div 2 - int k * dx) div dy), snd p + sy * int k))
           [0..<Suc (nat (max dx dy))])"

lemma bres_near:
  assumes "0 \<le> b" "b \<le> a" "0 < a"
  shows "\<bar>int k * b - minors (bres a b k (a div 2)) * a\<bar> \<le> a"
proof -
  have "0 \<le> a div 2 - int k * b + minors (bres a b k (a div 2)) * a" "a div 2 - int k * b + minors (bres a b k (a div 2)) * a < a"
    using bres_error [OF assms(1,2), of "a div 2" k] assms(3) by simp_all
  moreover have "0 \<le> a div 2" "a div 2 \<le> a" using assms(3) by simp_all
  ultimately show ?thesis by linarith
qed

lemma sign_abs: "(if x < y then 1 else - 1) * \<bar>y - x\<bar> = y - (x :: int)" "\<bar>if x < y then 1 else - 1 :: int\<bar> = 1"
  by simp_all

text \<open>The path of the loop is such a line; the second lemma has the directions exchanged.\<close>

lemma line_of_x:
  assumes "\<bar>sx\<bar> = 1" "\<bar>sy\<bar> = 1" "0 \<le> dy" "dy \<le> dx" "0 < dx"
  shows "line_of (x, y) (x + sx * dx, y + sy * dy) (bres_path (sx, 0) (0, sy) (x, y) (bres dx dy (nat dx) (dx div 2)))"
    (is "line_of ?p ?q ?ps")
proof -
  have "successively adjacent ?ps"
    by (rule successively_mono [OF path_steps]) (use assms(1,2) in \<open>auto simp: adjacent_def\<close>)
  moreover have "list_all (near_line ?p ?q) ?ps"
    unfolding list_all_iff
  proof
    fix r assume "r \<in> set ?ps"
    then obtain k where "r = (x + int k * sx, y + minors (bres dx dy k (dx div 2)) * sy)"
      using path_points by fastforce
    then have "(fst r - x) * (sy * dy) - (snd r - y) * (sx * dx) = sx * sy * (int k * dy - minors (bres dx dy k (dx div 2)) * dx)"
      by (simp add: algebra_simps)
    then have "\<bar>(fst r - x) * (sy * dy) - (snd r - y) * (sx * dx)\<bar> \<le> dx"
      using bres_near [OF assms(3-5), of k] assms(1,2) by (simp add: abs_mult)
    then show "near_line ?p ?q r" using assms by (simp add: near_line_def abs_mult)
  qed
  ultimately show ?thesis
    using assms bres_total [OF assms(3-5)] by (simp add: line_of_def path_last abs_mult mult.commute)
qed

lemma line_of_y:
  assumes "\<bar>sx\<bar> = 1" "\<bar>sy\<bar> = 1" "0 \<le> dx" "dx \<le> dy" "0 < dy"
  shows "line_of (x, y) (x + sx * dx, y + sy * dy) (bres_path (0, sy) (sx, 0) (x, y) (bres dy dx (nat dy) (dy div 2)))"
    (is "line_of ?p ?q ?ps")
proof -
  have "successively adjacent ?ps"
    by (rule successively_mono [OF path_steps]) (use assms(1,2) in \<open>auto simp: adjacent_def\<close>)
  moreover have "list_all (near_line ?p ?q) ?ps"
    unfolding list_all_iff
  proof
    fix r assume "r \<in> set ?ps"
    then obtain k where "r = (x + minors (bres dy dx k (dy div 2)) * sx, y + int k * sy)"
      using path_points by fastforce
    then have "(snd r - y) * (sx * dx) - (fst r - x) * (sy * dy) = sx * sy * (int k * dx - minors (bres dy dx k (dy div 2)) * dy)"
      by (simp add: algebra_simps)
    then have "\<bar>(snd r - y) * (sx * dx) - (fst r - x) * (sy * dy)\<bar> \<le> dy"
      using bres_near [OF assms(3-5), of k] assms(1,2) by (simp add: abs_mult)
    then show "near_line ?p ?q r" using assms by (simp add: near_line_def abs_mult abs_minus_commute)
  qed
  ultimately show ?thesis
    using assms bres_total [OF assms(3-5)] by (simp add: line_of_def path_last abs_mult mult.commute)
qed

lemma draw_line_ints:
  assumes "\<bar>x1\<bar> \<le> 536870912" "\<bar>y1\<bar> \<le> 536870912" "\<bar>x2\<bar> \<le> 536870912" "\<bar>y2\<bar> \<le> 536870912"
  shows "\<exists>ps. framebuffer_draw_line fb (of_int x1) (of_int y1) (of_int x2) (of_int y2) color m = Some (plot fb color (map wpt ps) m) \<and>
     line_of (x1, y1) (x2, y2) ps \<and> ps = line_points (x1, y1) (x2, y2)"
proof -
  define sx sy dx dy where "sx = (if x1 < x2 then 1 else - 1 :: int)" "sy = (if y1 < y2 then 1 else - 1 :: int)"
    and "dx = \<bar>x2 - x1\<bar>" "dy = \<bar>y2 - y1\<bar>"
  note defs = this
  have s: "\<bar>sx\<bar> = 1" "\<bar>sy\<bar> = 1" "x1 + sx * dx = x2" "y1 + sy * dy = y2"
    unfolding defs sign_abs by simp_all
  have d: "0 \<le> dx" "dx \<le> 1073741824" "0 \<le> dy" "dy \<le> 1073741824" using assms unfolding defs by linarith+
  have sints: "sint (of_int x1 :: s32) = x1" "sint (of_int x2 :: s32) = x2" "sint (of_int y1 :: s32) = y1"
    "sint (of_int y2 :: s32) = y2" "sint (of_int dx :: s32) = dx" "sint (of_int dy :: s32) = dy"
    using assms d by (simp_all add: sint_of_int_s32)
  have diffs: "c_abs (of_int x2 - of_int x1) = of_int dx" "c_abs (of_int y2 - of_int y1) = of_int dy"
    using c_abs_of_int [of "x2 - x1"] c_abs_of_int [of "y2 - y1"] d unfolding defs by simp_all
  have signs: "(if x1 < x2 then 1 else - 1) = (of_int sx :: s32)" "(if y1 < y2 then 1 else - 1) = (of_int sy :: s32)"
    unfolding defs by simp_all
  have line: "framebuffer_draw_line fb (of_int x1) (of_int y1) (of_int x2) (of_int y2) color m =
     line_loop fb (of_int dx) (of_int dy) (of_int sx) (of_int sy) (of_int x2) (of_int y2) color (of_int x1) (of_int y1)
       (if dx > dy then of_int (dx div 2) else of_int (- (dy div 2))) m"
    unfolding framebuffer_draw_line_def Let_def sints signs diffs
    using conjunct1 [OF c_half_of_int [of dx]] conjunct2 [OF c_half_of_int [of dy]] d by (simp only: if_distrib of_int_minus simp_thms)
  consider "dy < dx" | "dx \<le> dy" "0 < dy" | "dx = 0" "dy = 0" using d by linarith
  then show ?thesis
  proof cases
    case 1
    have "framebuffer_draw_line fb (of_int x1) (of_int y1) (of_int x2) (of_int y2) color m =
        Some (plot fb color (map wpt (bres_path (sx, 0) (0, sy) (x1, y1) (bres dx dy (nat dx) (dx div 2)))) m)"
      unfolding line if_P [OF 1]
    proof (rule line_loop_x)
      show "x2 = x1 + int (nat dx) * sx" using s(3) 1 d by (simp add: mult.commute)
      show "y2 = y1 + minors (bres dx dy (nat dx) (dx div 2)) * sy"
        using s(4) 1 d bres_total [of dy dx] by (simp add: mult.commute)
    qed (use 1 d s(1) assms(3) in simp_all)
    moreover have "bres_path (sx, 0) (0, sy) (x1, y1) (bres dx dy (nat dx) (dx div 2)) = line_points (x1, y1) (x2, y2)"
      unfolding bres_path_points line_points_def Let_def fst_conv snd_conv defs [symmetric]
      using 1 d minors_closed [of dy dx] by (simp add: mult.commute max_def del: upt_Suc)
    ultimately show ?thesis using line_of_x [of sx sy dy dx x1 y1] s 1 d by auto
  next
    case 2
    have "framebuffer_draw_line fb (of_int x1) (of_int y1) (of_int x2) (of_int y2) color m =
        Some (plot fb color (map wpt (bres_path (0, sy) (sx, 0) (x1, y1) (bres dy dx (nat dy) (dy div 2)))) m)"
      unfolding line if_not_P [OF leD [OF 2(1)]]
    proof (rule line_loop_y)
      show "y2 = y1 + int (nat dy) * sy" using s(4) 2 d by (simp add: mult.commute)
      show "x2 = x1 + minors (bres dy dx (nat dy) (dy div 2)) * sx"
        using s(3) 2 d bres_total [of dx dy] by (simp add: mult.commute)
    qed (use 2 d s(2) assms(4) in simp_all)
    moreover have "bres_path (0, sy) (sx, 0) (x1, y1) (bres dy dx (nat dy) (dy div 2)) = line_points (x1, y1) (x2, y2)"
      unfolding bres_path_points line_points_def Let_def fst_conv snd_conv defs [symmetric]
      using 2 d minors_closed [of dx dy] by (simp add: mult.commute max_def del: upt_Suc)
    ultimately show ?thesis using line_of_y [of sx sy dx dy x1 y1] s 2 d by auto
  next
    case 3
    then have "x1 = x2" "y1 = y2" using s by simp_all
    then show ?thesis unfolding line using 3
      by (intro exI [of _ "[(x1, y1)]"]) (subst line_loop.simps, simp add: line_of_def near_line_def line_points_def Let_def)
  qed
qed

text \<open>C36: \<open>framebuffer_draw_line\<close> returns for all end points below \<open>2^29\<close> in magnitude, and it draws exactly the line of Bresenham's
  recursion: with \<open>dx\<close> and \<open>dy\<close> the distances in the two directions, the point number \<open>k\<close> lies \<open>k\<close> steps
  along the longer one and, along the shorter one, the nearest number of steps to \<open>k\<close> times the slope, where the
  halves are rounded as an error of \<open>dx / 2\<close> (or \<open>- dy / 2\<close>) at the start rounds them (\<open>line_points\<close>). These points form a connected line from the
  first end point to the second. Reading any pixel afterwards gives the colour on the line and what was there before elsewhere, and no byte
  outside the memory of the display changes.
\<close>

theorem framebuffer_draw_line_correct:
  assumes "fb_ok fb" and "\<bar>x1\<bar> \<le> 536870912" "\<bar>y1\<bar> \<le> 536870912" "\<bar>x2\<bar> \<le> 536870912" "\<bar>y2\<bar> \<le> 536870912"
  shows "\<exists>m'. framebuffer_draw_line fb (of_int x1) (of_int y1) (of_int x2) (of_int y2) color m = Some m' \<and>
     line_of (x1, y1) (x2, y2) (line_points (x1, y1) (x2, y2)) \<and>
     (\<forall>x y. framebuffer_get_pixel_buffer fb x y m' =
        (if (x, y) \<in> set (map wpt (line_points (x1, y1) (x2, y2))) \<and> \<not> off_screen fb x y then fb_shown fb color
         else framebuffer_get_pixel_buffer fb x y m)) \<and>
     {a. m' a \<noteq> m a} \<subseteq> display_of fb"
proof -
  let ?ps = "line_points (x1, y1) (x2, y2)"
  have "framebuffer_draw_line fb (of_int x1) (of_int y1) (of_int x2) (of_int y2) color m = Some (plot fb color (map wpt ?ps) m)"
    "line_of (x1, y1) (x2, y2) ?ps"
    using draw_line_ints [OF assms(2-5), of fb color m] by auto
  moreover have "{a. plot fb color (map wpt ?ps) m a \<noteq> m a} \<subseteq> display_of fb"
    using plot_display [OF assms(1)] by blast
  ultimately show ?thesis
    using plot_shows [OF assms(1)] by (intro exI [of _ "plot fb color (map wpt ?ps) m"] conjI) auto
qed

definition demo_fb :: framebuffer_t where
  "demo_fb = \<lparr>fb_width = 4, fb_height = 4, fb_screen = 0xA0000, fb_pitch = 16, fb_bpp = 32, fb_type = 1,
     fb_palette = 0, fb_palette_num_colors = 0, fb_blue_mask_size = 8, fb_blue_field_position = 0, fb_red_mask_size = 8,
     fb_red_field_position = 16, fb_green_mask_size = 8, fb_green_field_position = 8\<rparr>"

lemma demo_fb_ok: "fb_ok demo_fb"
  by (simp add: fb_ok_def demo_fb_def fb_bytes_def)

lemma demo_pixels: "\<not> off_screen demo_fb 3 1" "fb_shown demo_fb 0xFF0000 = 0xFF0000"
  by (simp_all add: off_screen_def fb_shown_def demo_fb_def word_le_nat_alt)

theorem framebuffer_draw_line_correct_witness:
  "\<exists>m'. framebuffer_draw_line demo_fb 0 0 3 1 0xFF0000 (\<lambda>_. 0) = Some m' \<and> line_points (0, 0) (3, 1) = [(0, 0), (1, 0), (2, 1), (3, 1)] \<and>
     framebuffer_get_pixel_buffer demo_fb 3 1 m' = 0xFF0000"
proof -
  have "\<bar>0 :: int\<bar> \<le> 536870912" "\<bar>3 :: int\<bar> \<le> 536870912" "\<bar>1 :: int\<bar> \<le> 536870912" by simp_all
  from framebuffer_draw_line_correct [OF demo_fb_ok this(1) this(1) this(2) this(3), of "0xFF0000" "\<lambda>_. 0"]
  obtain m' where m: "framebuffer_draw_line demo_fb 0 0 3 1 0xFF0000 (\<lambda>_. 0) = Some m'"
    "\<forall>x y. framebuffer_get_pixel_buffer demo_fb x y m' =
        (if (x, y) \<in> set (map wpt (line_points (0, 0) (3, 1))) \<and> \<not> off_screen demo_fb x y then fb_shown demo_fb 0xFF0000
         else framebuffer_get_pixel_buffer demo_fb x y (\<lambda>_. 0))"
    by auto
  have ps: "line_points (0, 0) (3, 1) = [(0, 0), (1, 0), (2, 1), (3, 1)]"
    by (simp add: line_points_def upt_rec [of _ 4] numeral_eq_Suc)
  then have "framebuffer_get_pixel_buffer demo_fb 3 1 m' = 0xFF0000"
    using m(2) demo_pixels by simp
  with m(1) ps show ?thesis by blast
qed

text \<open>Filling an area that does not reach past the largest coordinate colours exactly the pixels of the area that are on the
  screen, leaves all others as they were, and changes no byte outside the display.
\<close>

theorem framebuffer_draw_rectangle_correct:
  assumes "fb_ok fb" and "sint x + sint w \<le> 2147483648" and "sint y + sint h \<le> 2147483648"
  shows "(\<forall>a b. framebuffer_get_pixel_buffer fb a b (framebuffer_draw_rectangle fb x y w h color m) =
      (if sint x \<le> sint a \<and> sint a < sint x + sint w \<and> sint y \<le> sint b \<and> sint b < sint y + sint h \<and> \<not> off_screen fb a b
       then fb_shown fb color else framebuffer_get_pixel_buffer fb a b m)) \<and>
    {a. framebuffer_draw_rectangle fb x y w h color m a \<noteq> m a} \<subseteq> display_of fb"
proof -
  have "(a, b) \<in> set (area_points x y (nat (sint w)) (nat (sint h))) \<longleftrightarrow>
      (sint x \<le> sint a \<and> sint a < sint x + sint w) \<and> (sint y \<le> sint b \<and> sint b < sint y + sint h)" for a b
    unfolding offset_hit [OF assms(2), symmetric] offset_hit [OF assms(3), symmetric] in_area_points by blast
  then show ?thesis
    unfolding draw_rectangle_plot plot_shows [OF assms(1)] using plot_display [OF assms(1)] by (auto, blast)
qed

theorem framebuffer_draw_rectangle_correct_witness:
  "framebuffer_get_pixel_buffer demo_fb 2 2 (framebuffer_draw_rectangle demo_fb 1 1 2 9 0xFF (\<lambda>_. 0)) = 0xFF \<and>
   framebuffer_get_pixel_buffer demo_fb 3 2 (framebuffer_draw_rectangle demo_fb 1 1 2 9 0xFF (\<lambda>_. 0)) =
     framebuffer_get_pixel_buffer demo_fb 3 2 (\<lambda>_. 0)"
  using framebuffer_draw_rectangle_correct [OF demo_fb_ok, of 1 2 1 9 "0xFF" "\<lambda>_. 0"]
  by (simp add: off_screen_def demo_fb_def fb_shown_def)

section \<open>Circles\<close>

definition octants :: "int \<Rightarrow> int \<Rightarrow> int \<times> int \<Rightarrow> (int \<times> int) list" where
  "octants xc yc p = [(xc + fst p, yc + snd p), (xc + snd p, yc + fst p), (xc - snd p, yc + fst p), (xc - fst p, yc + snd p),
     (xc - fst p, yc - snd p), (xc - snd p, yc - fst p), (xc + snd p, yc - fst p), (xc + fst p, yc - snd p)]"

lemma circle_octants_plot:
  "circle_octants fb (of_int xc) (of_int yc) color (of_int x) (of_int y) m = plot fb color (map wpt (octants xc yc (x, y))) m"
  by (simp add: circle_octants_def octants_def)

text \<open>A point in the first octant that lies on the circle or less than two pixels inside it.\<close>

definition near_circle :: "int \<Rightarrow> int \<times> int \<Rightarrow> bool" where
  "near_circle r p \<longleftrightarrow> 0 \<le> snd p \<and> snd p \<le> fst p \<and>
     r * r - 2 * fst p - 2 * snd p \<le> fst p * fst p + snd p * snd p \<and> fst p * fst p + snd p * snd p \<le> r * r - 2 * snd p"

text \<open>The error of the loop is the distance of the square of the current point from that of the radius.\<close>

lemma circle_loop_arc:
  assumes "0 \<le> y" "y \<le> x + 2" "x \<le> r" "r \<le> 536870912" "y \<le> x \<longrightarrow> - 2 * x \<le> e \<and> e \<le> 0" "\<bar>e\<bar> \<le> 1073741830"
    and "e = y * y + 2 * y - (r * r - x * x)"
  shows "\<exists>arc. circle_loop fb (of_int xc) (of_int yc) color (of_int x) (of_int y) (of_int e) m =
       Some (plot fb color (map wpt (concat (map (octants xc yc) arc))) m) \<and>
     map snd arc = map int [nat y..<nat y + length arc] \<and> (y \<le> x \<longrightarrow> arc \<noteq> [] \<and> hd arc = (x, y)) \<and>
     list_all (near_circle r) arc"
  using assms
proof (induction "nat (x - y + 1)" arbitrary: x y e m rule: less_induct)
  case less
  have sints: "sint (of_int x :: s32) = x" "sint (of_int y :: s32) = y" "sint (of_int e :: s32) = e"
    using less.prems(1-4,6) by (simp_all add: sint_of_int_s32)
  show ?case
  proof (cases "y \<le> x")
    case False
    then show ?thesis by (subst circle_loop.simps) (auto simp: sints intro: exI [of _ "[]"])
  next
    case True
    then have e: "- 2 * x \<le> e" "e \<le> 0" using less.prems(5) by auto
    define m' where "m' = plot fb color (map wpt (octants xc yc (x, y))) m"
    define y' e1 where "y' = y + 1" "e1 = e + (2 * (y + 1) + 1)"
    define x' e' where "x' = (if e1 > 0 then x - 1 else x)" "e' = (if e1 > 0 then e1 - (2 * (x - 1) + 1) else e1)"
    note defs = y'_e1_def x'_e'_def
    have "- 2147483648 \<le> e1" using less.prems(1,3,4) True e unfolding defs by simp
    moreover have "e1 < 2147483648" using less.prems(1-4) True e unfolding defs by simp
    ultimately have e1: "sint (of_int e1 :: s32) = e1" by (rule sint_of_int_s32)
    have step: "circle_loop fb (of_int xc) (of_int yc) color (of_int x) (of_int y) (of_int e) m =
        circle_loop fb (of_int xc) (of_int yc) color (of_int x') (of_int y') (of_int e') m'"
    proof -
      have "(of_int e + (2 * (of_int y + 1) + 1) :: s32) = of_int e1" unfolding defs by simp
      then show ?thesis
        using True e e1 unfolding circle_loop.simps [of fb "of_int xc" "of_int yc" color "of_int x"] circle_octants_plot m'_def [symmetric]
        by (simp add: sints Let_def x'_e'_def y'_e1_def(1))
    qed
    have "\<exists>arc. circle_loop fb (of_int xc) (of_int yc) color (of_int x') (of_int y') (of_int e') m' =
        Some (plot fb color (map wpt (concat (map (octants xc yc) arc))) m') \<and>
      map snd arc = map int [nat y'..<nat y' + length arc] \<and> (y' \<le> x' \<longrightarrow> arc \<noteq> [] \<and> hd arc = (x', y')) \<and>
      list_all (near_circle r) arc"
    proof (rule less.hyps)
      show "e' = y' * y' + 2 * y' - (r * r - x' * x')" using less.prems(7) unfolding defs by (simp add: algebra_simps)
    qed (use less.prems(1-4) True e in \<open>auto simp: defs split: if_splits\<close>)
    then obtain arc where arc: "circle_loop fb (of_int xc) (of_int yc) color (of_int x') (of_int y') (of_int e') m' =
        Some (plot fb color (map wpt (concat (map (octants xc yc) arc))) m')"
      "map snd arc = map int [nat y'..<nat y' + length arc]"
      "list_all (near_circle r) arc"
      by blast
    show ?thesis
    proof (intro exI [of _ "(x, y) # arc"] conjI)
      show "map snd ((x, y) # arc) = map int [nat y..<nat y + length ((x, y) # arc)]"
      proof -
        have "nat y' = Suc (nat y)" using less.prems(1) unfolding defs by simp
        moreover have "[nat y..<nat y + Suc (length arc)] = nat y # [Suc (nat y)..<Suc (nat y) + length arc]"
          by (simp add: upt_conv_Cons del: upt_Suc)
        ultimately show ?thesis using arc(2) less.prems(1) by simp
      qed
      show "list_all (near_circle r) ((x, y) # arc)"
        using arc(3) less.prems(1,7) True e by (simp add: near_circle_def)
    qed (simp_all add: step arc(1) [unfolded m'_def] m'_def)
  qed
qed

text \<open>One point for every row, from the top of the octant on.\<close>

definition arc_of :: "int \<Rightarrow> (int \<times> int) list \<Rightarrow> bool" where
  "arc_of r arc \<longleftrightarrow> arc \<noteq> [] \<and> hd arc = (r, 0) \<and> map snd arc = map int [0..<length arc] \<and> list_all (near_circle r) arc"

text \<open>\<open>framebuffer_draw_circle\<close> returns for every radius. It colours the eight reflections, around the centre, of
  an arc with one point in each row that never leaves the circle by more than its last two pixels
  inwards, and nothing else on the screen or outside the display.
\<close>

theorem framebuffer_draw_circle_correct:
  assumes "fb_ok fb" and "0 \<le> r" "r \<le> 536870912"
  shows "\<exists>m' arc. framebuffer_draw_circle fb (of_int xc) (of_int yc) (of_int r) color m = Some m' \<and> arc_of r arc \<and>
     (\<forall>x y. framebuffer_get_pixel_buffer fb x y m' =
        (if (x, y) \<in> set (map wpt (concat (map (octants xc yc) arc))) \<and> \<not> off_screen fb x y then fb_shown fb color
         else framebuffer_get_pixel_buffer fb x y m)) \<and>
     {a. m' a \<noteq> m a} \<subseteq> display_of fb"
proof -
  obtain arc where arc: "circle_loop fb (of_int xc) (of_int yc) color (of_int r) (of_int 0) (of_int 0) m =
       Some (plot fb color (map wpt (concat (map (octants xc yc) arc))) m)" "map snd arc = map int [nat 0..<nat 0 + length arc]"
    "0 \<le> r \<longrightarrow> arc \<noteq> [] \<and> hd arc = (r, 0)" "list_all (near_circle r) arc"
    using circle_loop_arc [of 0 r r 0 fb xc yc color m] assms(2,3) by auto
  let ?m = "plot fb color (map wpt (concat (map (octants xc yc) arc))) m"
  have "{a. ?m a \<noteq> m a} \<subseteq> display_of fb"
    using plot_display [OF assms(1)] by blast
  moreover have "arc_of r arc" using arc(2-4) assms(2) by (simp add: arc_of_def)
  moreover have "framebuffer_draw_circle fb (of_int xc) (of_int yc) (of_int r) color m = Some ?m"
    using arc(1) by (simp add: framebuffer_draw_circle_def)
  ultimately show ?thesis
    unfolding plot_shows [OF assms(1), symmetric] by (intro exI [of _ ?m] exI [of _ arc] conjI) auto
qed

theorem framebuffer_draw_circle_correct_witness:
  "\<exists>m' arc. framebuffer_draw_circle demo_fb 0 0 3 0xFF0000 (\<lambda>_. 0) = Some m' \<and> arc_of 3 arc \<and> {a. m' a \<noteq> 0} \<subseteq> display_of demo_fb"
  using framebuffer_draw_circle_correct [OF demo_fb_ok, of 3 0 0 "0xFF0000" "\<lambda>_. 0"] by auto

section \<open>One pixel, and the cleared screen\<close>

text \<open>A pixel reads back as the colour that was put there, cut to the depth of the display, and every other pixel as
  before; putting a pixel off the screen changes nothing.
\<close>

theorem framebuffer_put_pixel_correct:
  assumes "fb_ok fb"
  shows "framebuffer_get_pixel_buffer fb x' y' (framebuffer_put_pixel fb x y color m) =
     (if (x', y') = (x, y) \<and> \<not> off_screen fb x y then fb_shown fb color else framebuffer_get_pixel_buffer fb x' y' m)"
  using plot_shows [OF assms, of x' y' color "[(x, y)]" m] by auto

theorem framebuffer_put_pixel_correct_witness:
  "framebuffer_get_pixel_buffer demo_fb 3 1 (framebuffer_put_pixel demo_fb 3 1 0xFF0000 (\<lambda>_. 7)) = 0xFF0000"
  using framebuffer_put_pixel_correct [OF demo_fb_ok, of 3 1 3 1 "0xFF0000" "\<lambda>_. 7"] demo_pixels by simp

lemma set_pixel_plot: "fold (\<lambda>x. framebuffer_set_pixel_buffer fb (of_nat x) b color) js = plot fb color (map (\<lambda>x. (of_nat x, b)) js)"
  by (rule ext, induction js) (simp_all add: put_pixel_eq)

lemma framebuffer_init_blank:
  assumes "fb_ok (fb_of_multiboot mbi)" and "framebuffer_init mbi m = (c, fb, m')"
  shows "framebuffer_get_pixel_buffer fb x y m' = 0"
proof -
  define ps where "ps = concat (map (\<lambda>y. map (\<lambda>x. (of_nat x :: s32, of_nat y :: s32)) [0..<unat (fb_width fb)]) [0..<unat (fb_height fb)])"
  have fb: "fb = fb_of_multiboot mbi" and m': "m' = plot fb 0 ps m"
    using assms(2) by (auto simp: framebuffer_init_def Let_def set_pixel_plot fold_plot ps_def)
  show ?thesis
  proof (cases "off_screen fb x y")
    case False
    then have xy: "unat x < unat (fb_width fb)" "unat y < unat (fb_height fb)"
      by (simp_all add: off_screen_def not_le word_less_nat_alt)
    have "(x, y) \<in> set (map (\<lambda>x. (of_nat x, of_nat (unat y))) [0..<unat (fb_width fb)])"
      using xy(1) image_eqI [of "(x, y)" "\<lambda>x. (of_nat x, of_nat (unat y))" "unat x"] by simp
    moreover have "unat y \<in> set [0..<unat (fb_height fb)]" using xy(2) by simp
    ultimately have "(x, y) \<in> set ps" unfolding ps_def set_concat set_map [of _ "[0..<unat (fb_height fb)]"] by blast
    then show ?thesis using plot_shows [OF assms(1)] unfolding fb m' by (simp add: fb_shown_def framebuffer_get_pixel_buffer_def)
  qed (simp add: framebuffer_get_pixel_buffer_def)
qed

end
