(* ===== verification/ConsoleProps.thy ===== *)
theory ConsoleProps
  imports Console
begin

text \<open>
  What the console shows: the text that \<open>echo\<close> passes to the terminal, the last characters on the text screen, the copies of
  the screen, and numbers in messages.
\<close>

section \<open>The text screen\<close>

text \<open>The screen has its 25 rows and the next character has its place on it.\<close>

definition text_ok :: "'d vga \<Rightarrow> bool" where
  "text_ok s \<longleftrightarrow> length (tb_cells s) = 2000 \<and> unat (vga_index s) < 2000"

text \<open>The cells before the cursor are \<open>cs\<close>.\<close>

definition shows_last :: "'d vga \<Rightarrow> u16 list \<Rightarrow> bool" where
  "shows_last s cs \<longleftrightarrow> length cs \<le> unat (vga_index s) \<and>
     take (length cs) (drop (unat (vga_index s) - length cs) (tb_cells s)) = cs"

lemma text_scroll_length: "length b = 2000 \<Longrightarrow> length (text_scroll color b) = 2000"
  by (simp add: text_scroll_eq)

text \<open>A newline moves to the start of the next row, and any other character one cell on; at the end the rows move up.\<close>

lemma put_char_plain:
  assumes "text_ok s" and "c \<noteq> 10"
  shows "put_char c color s = Some (let b = (tb_cells s)[unat (vga_index s) := text_cell color c]
     in if unat (vga_index s) = 1999 then s\<lparr>tb_cells := drop 80 b @ replicate 80 (text_cell color 32), vga_index := 1920\<rparr>
        else s\<lparr>tb_cells := b, vga_index := vga_index s + 1\<rparr>)"
proof -
  have i: "unat (vga_index s) < 2000" "length (tb_cells s) = 2000" using assms(1) by (simp_all add: text_ok_def)
  have n: "unat (vga_index s + 1) = unat (vga_index s) + 1" using i(1) by (subst unat_plus_u32) simp_all
  show ?thesis
  proof (cases "unat (vga_index s) = 1999")
    case True
    then have "vga_index s = 1999" by (simp add: word_unat_eq_iff)
    then show ?thesis using i assms(2)
      by (simp add: put_char_def VGA_WIDTH_def VGA_HEIGHT_def text_scroll_eq Let_def)
  next
    case False
    then have "\<not> vga_index s + 1 \<ge> 2000" using n i(1) by (simp add: word_le_nat_alt)
    then show ?thesis using i assms(2) False
      by (simp add: put_char_def VGA_WIDTH_def VGA_HEIGHT_def Let_def)
  qed
qed

lemma put_char_newline:
  assumes "text_ok s"
  shows "\<exists>s'. put_char 10 color s = Some s' \<and> (let k = unat (vga_index s) + (80 - unat (vga_index s) mod 80)
     in k \<le> 2000 \<and> (if k = 2000 then s' = s\<lparr>tb_cells := drop 80 (tb_cells s) @ replicate 80 (text_cell color 32), vga_index := 1920\<rparr>
        else s' = s\<lparr>vga_index := of_nat k\<rparr> \<and> unat (vga_index s') = k))"
proof -
  have i: "unat (vga_index s) < 2000" "length (tb_cells s) = 2000" using assms(1) by (simp_all add: text_ok_def)
  let ?j = "vga_index s + (80 - vga_index s mod 80)"
  have m: "unat (vga_index s mod 80) = unat (vga_index s) mod 80" by (simp add: unat_mod)
  have "unat (80 - vga_index s mod 80) = 80 - unat (vga_index s) mod 80"
    using m by (subst unat_minus_u32) (simp_all add: word_le_nat_alt)
  then have j: "unat ?j = unat (vga_index s) + (80 - unat (vga_index s) mod 80)"
    using i(1) by (subst unat_plus_u32) simp_all
  have "unat (vga_index s) + (80 - unat (vga_index s) mod 80) = 80 * (unat (vga_index s) div 80) + 80"
    using mult_div_mod_eq [of 80 "unat (vga_index s)"] mod_less_divisor [of 80 "unat (vga_index s)"] by linarith
  moreover have "unat (vga_index s) div 80 < 25" using i(1) by (simp add: div_less_iff_less_mult)
  ultimately have le: "unat ?j \<le> 2000" using j by linarith
  define k where "k = ?j"
  have step: "put_char 10 color s = Some (if k \<ge> 2000 then s\<lparr>tb_cells := text_scroll color (tb_cells s), vga_index := k - 80\<rparr>
      else s\<lparr>vga_index := k\<rparr>)"
    by (simp add: put_char_def VGA_WIDTH_def VGA_HEIGHT_def k_def)
  show ?thesis
  proof (cases "k \<ge> 2000")
    case True
    then have "k = 2000" using le by (simp add: k_def word_le_nat_alt word_unat_eq_iff)
    then show ?thesis using i step le j by (simp add: text_scroll_eq k_def [symmetric] Let_def)
  next
    case False
    define K where "K = unat (vga_index s) + (80 - unat (vga_index s) mod 80)"
    have "unat k = K" using j by (simp only: k_def K_def)
    moreover have "k = of_nat (unat k)" by simp
    moreover from calculation have "k = of_nat K" by simp
    ultimately show ?thesis using False step le by (simp add: k_def [symmetric] K_def [symmetric] word_le_nat_alt Let_def)
  qed
qed

lemma put_char_ok:
  assumes ok: "text_ok s"
  shows "\<exists>s'. put_char c color s = Some s' \<and> text_ok s'"
proof (cases "c = 10")
  case True
  from put_char_newline [OF ok, of color] ok show ?thesis unfolding True by (auto simp: text_ok_def Let_def split: if_splits)
next
  case False
  have "unat (vga_index s) \<noteq> 1999 \<Longrightarrow> unat (vga_index s + 1) = unat (vga_index s) + 1"
    using ok unfolding text_ok_def by (subst unat_plus_u32) simp_all
  then show ?thesis using ok put_char_plain [OF ok False, of color] by (auto simp: text_ok_def Let_def)
qed

lemma put_char_shows:
  assumes ok: "text_ok s" and c: "c \<noteq> 10" and last: "shows_last s cs" and room: "length cs < 1920"
  shows "\<exists>s'. put_char c color s = Some s' \<and> text_ok s' \<and> shows_last s' (cs @ [text_cell color c])"
proof -
  obtain s' where s': "put_char c color s = Some s'" "text_ok s'" using put_char_ok [OF ok] by blast
  define i n where "i = unat (vga_index s)" and "n = length cs"
  define b where "b = (tb_cells s)[i := text_cell color c]"
  have i: "i < 2000" "length (tb_cells s) = 2000" using ok by (simp_all add: text_ok_def i_def)
  have cs: "n \<le> i" "take n (drop (i - n) (tb_cells s)) = cs" using last by (simp_all add: shows_last_def i_def n_def)
  have b: "length b = 2000" "take (Suc n) (drop (i - n) b) = cs @ [text_cell color c]"
    using i cs by (simp_all add: b_def take_Suc_conv_app_nth drop_update_swap)
  show ?thesis
  proof (cases "i = 1999")
    case True
    then have eq: "s' = s\<lparr>tb_cells := drop 80 b @ replicate 80 (text_cell color 32), vga_index := 1920\<rparr>"
      using s'(1) put_char_plain [OF ok c, of color] by (simp add: i_def b_def Let_def)
    have "take (Suc n) (drop (1920 - Suc n) (drop 80 b @ replicate 80 (text_cell color 32))) = take (Suc n) (drop (i - n) b)"
      using True b(1) room by (simp add: n_def)
    then show ?thesis using s' b(2) room unfolding eq by (simp add: shows_last_def n_def)
  next
    case False
    then have eq: "s' = s\<lparr>tb_cells := b, vga_index := vga_index s + 1\<rparr>"
      using s'(1) put_char_plain [OF ok c, of color] by (simp add: i_def b_def Let_def)
    have "unat (vga_index s + 1) = i + 1" using i(1) unfolding i_def by (subst unat_plus_u32) simp_all
    then show ?thesis using s' b(2) cs(1) unfolding eq by (simp add: shows_last_def n_def)
  qed
qed

lemma put_string_shows:
  assumes "text_ok s" "shows_last s cs" "cstr m str t" "10 \<notin> set t" "length cs + length t \<le> 1920"
  shows "\<exists>s'. put_string_loop m str color s = Some s' \<and> text_ok s' \<and> shows_last s' (cs @ map (text_cell color) t)"
  using assms
proof (induction t arbitrary: s cs str)
  case Nil
  then show ?case by (subst put_string_loop.simps) simp
next
  case (Cons c t)
  obtain s1 where s1: "put_char c color s = Some s1" "text_ok s1" "shows_last s1 (cs @ [text_cell color c])"
    using put_char_shows [of s c cs color] Cons.prems by auto
  from Cons.IH [OF s1(2,3), of "str + 1"] Cons.prems obtain s2 where
    "put_string_loop m (str + 1) color s1 = Some s2" "text_ok s2" "shows_last s2 (cs @ map (text_cell color) (c # t))"
    by auto
  then show ?case using Cons.prems(3) s1(1) by (subst put_string_loop.simps) simp
qed

text \<open>
  The same text on paper that never ends: nothing moves up, a newline goes on to the start of the next row of 80 cells, and behind
  the last row a row of blanks in the current colour is added once the next character would be there. The screen is the
  last 25 rows.
\<close>

definition paper_char :: "u8 \<Rightarrow> u8 \<Rightarrow> u16 list \<times> nat \<Rightarrow> u16 list \<times> nat" where
  "paper_char color c q = (case q of (ps, p) \<Rightarrow>
     let (ps, p) = (if c = 10 then (ps, p + (80 - p mod 80)) else (ps[p := text_cell color c], p + 1))
     in if p < length ps then (ps, p) else (ps @ replicate 80 (text_cell color 32), p))"

definition on_paper :: "'d vga \<Rightarrow> u16 list \<times> nat \<Rightarrow> bool" where
  "on_paper s q \<longleftrightarrow> (case q of (ps, p) \<Rightarrow> 2000 \<le> length ps \<and> 80 dvd length ps \<and> length ps - 2000 \<le> p \<and> p < length ps \<and>
     tb_cells s = drop (length ps - 2000) ps \<and> unat (vga_index s) = p - (length ps - 2000))"

lemma on_paper_ok: "on_paper s q \<Longrightarrow> text_ok s"
  by (auto simp: on_paper_def text_ok_def split: prod.splits)

lemma put_char_paper:
  assumes on: "on_paper s q"
  shows "\<exists>s'. put_char c color s = Some s' \<and> on_paper s' (paper_char color c q)"
proof -
  obtain ps p where q: "q = (ps, p)" by (cases q)
  define k i where "k = length ps - 2000" and "i = unat (vga_index s)"
  have len: "2000 \<le> length ps" "80 dvd length ps" "p < length ps" "tb_cells s = drop k ps" "p = k + i" "length ps = k + 2000" "i < 2000"
    using on by (auto simp: on_paper_def q k_def i_def)
  have dvd: "80 dvd k" using len(2) unfolding len(6) using dvd_add_left_iff [of 80 2000 k] by simp
  note ok = on_paper_ok [OF on]
  show ?thesis
  proof (cases "c = 10")
    case True
    define j where "j = i + (80 - i mod 80)"
    from put_char_newline [OF ok, of color] obtain s' where s': "put_char 10 color s = Some s'" "j \<le> 2000"
      "if j = 2000 then s' = s\<lparr>tb_cells := drop 80 (tb_cells s) @ replicate 80 (text_cell color 32), vga_index := 1920\<rparr>
       else s' = s\<lparr>vga_index := of_nat j\<rparr> \<and> unat (vga_index s') = j"
      by (auto simp: Let_def i_def [symmetric] j_def [symmetric])
    have "p mod 80 = i mod 80" using dvd len(5) by (simp add: mod_add_left_eq [symmetric] dvd_imp_mod_0)
    then have "p + (80 - p mod 80) = k + j" using len(5) by (simp add: j_def)
    then have pc: "paper_char color c q = (if j < 2000 then (ps, k + j) else (ps @ replicate 80 (text_cell color 32), k + j))"
      using True len(6) by (simp add: paper_char_def q)
    show ?thesis
    proof (cases "j = 2000")
      case True
      then show ?thesis using s' len pc \<open>c = 10\<close> dvd by (simp add: on_paper_def)
    next
      case False
      then show ?thesis using s' len pc \<open>c = 10\<close> by (simp add: on_paper_def unat_of_nat_u32)
    qed
  next
    case False
    define x where "x = text_cell color c"
    have "(drop k ps)[i := x] = drop k (ps[p := x])" using len(5) drop_update_swap [of k p ps x] by simp
    then have e: "put_char c color s = Some (if i = 1999
        then s\<lparr>tb_cells := drop 80 (drop k (ps[p := x])) @ replicate 80 (text_cell color 32), vga_index := 1920\<rparr>
        else s\<lparr>tb_cells := drop k (ps[p := x]), vga_index := vga_index s + 1\<rparr>)"
      using put_char_plain [OF ok False, of color] len(4) by (simp add: i_def [symmetric] x_def [symmetric] Let_def)
    have pc: "paper_char color c q = (if i = 1999 then (ps[p := x] @ replicate 80 (text_cell color 32), k + 2000) else (ps[p := x], k + i + 1))"
      using False len by (auto simp: paper_char_def q x_def)
    have "unat (vga_index s + 1) = i + 1" using len(7) unfolding i_def by (subst unat_plus_u32) simp_all
    moreover have "unat (1920 :: u32) = 1920" by simp
    ultimately show ?thesis using e pc len dvd by (cases "i = 1999") (simp_all add: on_paper_def add.commute del: unat_numeral)
  qed
qed

lemma put_string_paper:
  assumes "on_paper s q" "cstr m str t"
  shows "\<exists>s'. put_string_loop m str color s = Some s' \<and> on_paper s' (fold (paper_char color) t q)"
  using assms
proof (induction t arbitrary: s q str)
  case Nil
  then show ?case by (subst put_string_loop.simps) simp
next
  case (Cons c t)
  obtain s1 where s1: "put_char c color s = Some s1" "on_paper s1 (paper_char color c q)"
    using put_char_paper [OF Cons.prems(1)] by blast
  from Cons.IH [OF s1(2), of "str + 1"] Cons.prems(2) obtain s2 where
    "put_string_loop m (str + 1) color s1 = Some s2" "on_paper s2 (fold (paper_char color) (c # t) q)" by auto
  then show ?case using Cons.prems(2) s1(1) by (subst put_string_loop.simps) simp
qed

text \<open>C38: On a consistent text screen \<open>echo_bold\<close> prints every string, of any length and with newlines: it returns, and the
  screen and the place of the next character are those of the last 25 rows of endless paper onto which the string has been
  written in the bold colour, from the place of the cursor on. So a string without newlines that fits in 24 rows is
  found whole in the cells before the cursor, whatever scrolling was needed.
\<close>

theorem echo_bold_shows_text:
  assumes "text_ok s" and "cstr m str t"
  shows "\<exists>s'. echo_bold m str color s = Some s' \<and> text_ok s' \<and>
    on_paper s' (fold (paper_char (color OR 8)) t (tb_cells s, unat (vga_index s))) \<and>
    (10 \<notin> set t \<and> length t \<le> 1920 \<longrightarrow> shows_last s' (map (text_cell (color OR 8)) t))"
proof -
  have "on_paper s (tb_cells s, unat (vga_index s))" using assms(1) by (simp add: on_paper_def text_ok_def)
  from put_string_paper [OF this assms(2), of "color OR 8"] obtain s' where
    s': "echo_bold m str color s = Some s'" "on_paper s' (fold (paper_char (color OR 8)) t (tb_cells s, unat (vga_index s)))"
    by (auto simp: echo_bold_def)
  moreover have "shows_last s' (map (text_cell (color OR 8)) t)" if "10 \<notin> set t \<and> length t \<le> 1920"
    using put_string_shows [of s "[]" m str t "color OR 8"] that assms s'(1) by (auto simp: echo_bold_def shows_last_def)
  ultimately show ?thesis using on_paper_ok by blast
qed

definition demo_screen :: "unit vga" where
  "demo_screen = \<lparr>tb_cells = replicate 2000 0x0720, vga_index = 1999, tb_saved = False, terminal_color_saved = 0,
     terminal_x_saved = 0, terminal_y_saved = 0, vga_dev = ()\<rparr>"

theorem echo_bold_shows_text_witness:
  "\<exists>s'. echo_bold (mem_of 0x1000 [104, 10, 105]) 0x1000 7 demo_screen = Some s' \<and> unat (vga_index s') = 1921 \<and>
     tb_cells s' ! 1920 = 0x0F69 \<and> tb_cells s' ! 1839 = 0x0F68"
proof -
  have "text_ok demo_screen" by (simp add: text_ok_def demo_screen_def)
  moreover have "cstr (mem_of 0x1000 [104, 10, 105]) 0x1000 [104, 10, 105]" by (rule mem_of_cstr) simp_all
  ultimately obtain s' where s': "echo_bold (mem_of 0x1000 [104, 10, 105]) 0x1000 7 demo_screen = Some s'"
    "on_paper s' (fold (paper_char (7 OR 8)) [104, 10, 105] (tb_cells demo_screen, unat (vga_index demo_screen)))"
    using echo_bold_shows_text [of demo_screen "mem_of 0x1000 [104, 10, 105]" "0x1000" "[104, 10, 105]" 7] by blast
  then show ?thesis by (intro exI [of _ s']) (simp add: demo_screen_def paper_char_def on_paper_def text_cell_def nth_append)
qed

section \<open>Copies of the screen\<close>

lemma cell_parts: "ucast (b AND 0xFF :: u16) = (ucast b :: u8)" "ucast (drop_bit 8 b AND 0xFF :: u16) = (ucast (drop_bit 8 b) :: u8)"
proof -
  have m: "(0xFF :: u16) = mask 8" by (simp add: mask_eq_exp_minus_1)
  show "ucast (b AND 0xFF :: u16) = (ucast b :: u8)" "ucast (drop_bit 8 b AND 0xFF :: u16) = (ucast (drop_bit 8 b) :: u8)"
    unfolding m by (rule bit_word_eqI, simp add: bit_simps)+
qed

lemma retrieve_fold:
  assumes "region buffer n \<inter> region colors n = {}" and "n < 4294967296" and "k \<le> n"
    and F: "F = (\<lambda>i m. m(buffer + of_nat i := f i, colors + of_nat i := g i))"
  shows "\<forall>i < k. fold F [0..<k] m (buffer + of_nat i) = f i \<and> fold F [0..<k] m (colors + of_nat i) = (g i :: u8)"
  using assms(3)
proof (induction k)
  case (Suc k)
  have ne: "buffer + of_nat i \<noteq> colors + of_nat j" if "i < n" "j < n" for i j
    using assms(1) in_region [OF that(1), of buffer] in_region [OF that(2), of colors] by auto
  have inj: "a + of_nat i \<noteq> a + (of_nat k :: u32)" if "i < k" for a i
    using addr_shift_neq [OF that] Suc.prems assms(2) by simp
  define m1 where "m1 = fold F [0..<k] m"
  have m1: "\<forall>i < k. m1 (buffer + of_nat i) = f i \<and> m1 (colors + of_nat i) = g i" using Suc by (simp add: m1_def)
  have "fold F [0..<Suc k] m = m1(buffer + of_nat k := f k, colors + of_nat k := g k)" by (simp add: m1_def) (simp add: F)
  moreover have "(m1(buffer + of_nat k := f k, colors + of_nat k := g k)) (buffer + of_nat i) = f i \<and>
      (m1(buffer + of_nat k := f k, colors + of_nat k := g k)) (colors + of_nat i) = g i" if "i < Suc k" for i
  proof (cases "i = k")
    case True
    then show ?thesis using Suc.prems ne [of k k] by simp
  next
    case False
    then have "i < k" using that by simp
    then show ?thesis using m1 Suc.prems ne [of i k] ne [of k i] inj [of i buffer] inj [of i colors] by simp
  qed
  ultimately show ?case by simp
qed simp

lemma restore_eq:
  assumes "length b = 2000"
  shows "restore_terminal_buffer m buffer colors b =
    map (\<lambda>i. if m (buffer + of_nat i) = 0 then text_cell (m (colors + of_nat i)) 32
             else push_bit 8 (ucast (m (colors + of_nat i))) OR scast (m (buffer + of_nat i))) [0..<2000]"
proof -
  have "fold (\<lambda>i b. b[i := F i]) [0..<n] b = map F [0..<n] @ drop n b" if "n \<le> 2000" for F :: "nat \<Rightarrow> u16" and n
    using that
  proof (induction n)
    case (Suc n)
    then show ?case using assms by (simp add: list_update_append flip: Cons_nth_drop_Suc)
  qed simp
  from this [of 2000] show ?thesis
    using assms by (simp add: restore_terminal_buffer_def VGA_WIDTH_def VGA_HEIGHT_def)
qed

lemma retrieved:
  assumes "region buffer 2000 \<inter> region colors 2000 = {}" and "i < 2000"
  shows "retrieve_terminal_buffer b buffer colors m (buffer + of_nat i) = ucast (b ! i)"
    and "retrieve_terminal_buffer b buffer colors m (colors + of_nat i) = ucast (drop_bit 8 (b ! i))"
  using retrieve_fold [OF assms(1) _ order_refl refl, of "\<lambda>i. ucast (b ! i AND 0xFF)" "\<lambda>i. ucast (drop_bit 8 (b ! i) AND 0xFF)" m] assms(2)
  by (simp_all add: retrieve_terminal_buffer_def VGA_WIDTH_def VGA_HEIGHT_def cell_parts)

lemma cell_join:
  fixes b :: u16
  assumes "\<not> bit b 7"
  shows "push_bit 8 (ucast (ucast (drop_bit 8 b) :: u8)) OR scast (ucast b :: u8) = b"
proof (rule bit_word_eqI)
  fix n assume n: "n < LENGTH(16)"
  then consider "n < 8" | "8 \<le> n" "n < 16" by fastforce
  then show "bit (push_bit 8 (ucast (ucast (drop_bit 8 b) :: u8)) OR scast (ucast b :: u8) :: u16) n = bit b n"
    using assms by cases (auto simp: bit_simps)
qed

text \<open>A copy of a screen of ASCII characters brings the screen back: restoring what was retrieved gives every cell its
  character and its colour, whatever was on the screen in between, as long as the two buffers do not overlap.
\<close>

theorem restore_retrieved_screen:
  assumes "length b = 2000" and "length b' = 2000" and "region buffer 2000 \<inter> region colors 2000 = {}"
    and "list_all (\<lambda>c. \<not> bit c 7 \<and> (ucast c :: u8) \<noteq> 0) b"
  shows "restore_terminal_buffer (retrieve_terminal_buffer b buffer colors m) buffer colors b' = b"
proof (rule nth_equalityI)
  show "length (restore_terminal_buffer (retrieve_terminal_buffer b buffer colors m) buffer colors b') = length b"
    using assms by (simp add: restore_eq)
  fix i assume "i < length (restore_terminal_buffer (retrieve_terminal_buffer b buffer colors m) buffer colors b')"
  then have i: "i < 2000" using assms by (simp add: restore_eq)
  then have "\<not> bit (b ! i) 7" "(ucast (b ! i) :: u8) \<noteq> 0" using assms(1,4) by (simp_all add: list_all_length)
  then show "restore_terminal_buffer (retrieve_terminal_buffer b buffer colors m) buffer colors b' ! i = b ! i"
    using i by (simp add: restore_eq [OF assms(2)] retrieved [OF assms(3) i] cell_join)
qed

theorem restore_retrieved_screen_witness:
  "restore_terminal_buffer (retrieve_terminal_buffer (replicate 2000 0x0741) 0x1000 0x2000 (\<lambda>_. 0)) 0x1000 0x2000 (replicate 2000 0) =
     replicate 2000 0x0741"
proof -
  have "region 0x1000 2000 \<inter> region 0x2000 2000 = {}" by (rule region_disjoint) simp_all
  then show ?thesis
    by (intro restore_retrieved_screen) (simp_all add: list_all_iff bit_simps)
qed

text \<open>A box-drawing character loses its colour: all bits of it are set.\<close>

lemma restore_loses_colour:
  assumes "length b = 2000" and "length b' = 2000" and "region buffer 2000 \<inter> region colors 2000 = {}" and "i < 2000" and "bit (b ! i) 7"
  shows "drop_bit 8 (restore_terminal_buffer (retrieve_terminal_buffer b buffer colors m) buffer colors b' ! i) = 0xFF"
proof -
  have ff: "(0xFF :: u16) = mask 8" by (simp add: mask_eq_exp_minus_1)
  have "(ucast (b ! i) :: u8) \<noteq> 0"
  proof
    assume "(ucast (b ! i) :: u8) = 0"
    then have "\<not> bit (ucast (b ! i) :: u8) 7" by simp
    then show False using assms(5) by (simp add: bit_simps)
  qed
  then have "restore_terminal_buffer (retrieve_terminal_buffer b buffer colors m) buffer colors b' ! i =
      push_bit 8 (ucast (ucast (drop_bit 8 (b ! i)) :: u8)) OR scast (ucast (b ! i) :: u8)"
    using assms(4) by (simp add: restore_eq [OF assms(2)] retrieved [OF assms(3,4)])
  then show ?thesis unfolding ff
    by (simp, intro bit_word_eqI) (use assms(5) in \<open>auto simp: bit_simps\<close>)
qed

end
