(* ===== verification/EchoProps.thy ===== *)
theory EchoProps
  imports ConsoleProps
begin

text \<open>
  What reaches the terminal library: the escape sequence of \<open>echo\<close>, and the digits in the messages of lib/logging.c.
\<close>

section \<open>Escape sequences\<close>

text \<open>The format of \<open>echo\<close>: escape, \<open>[38;5;%um%s\<close>, escape, \<open>[0m\<close>.\<close>

definition echo_format :: "u8 list" where
  "echo_format = [27, 91, 51, 56, 59, 53, 59, 37, 117, 109, 37, 115, 27, 91, 48, 109]"

lemma echo_format_length: "length echo_format + 1 = 17"
  by (simp add: echo_format_def)

definition escaped :: "u8 \<Rightarrow> u8 list \<Rightarrow> u8 list" where
  "escaped color s = [27, 91, 51, 56, 59, 53, 59] @ int_text (ucast (ansi_color color)) @ [109] @ s @ [27, 91, 48, 109]"

definition echo_directives :: "u8 \<Rightarrow> u32 \<Rightarrow> u8 list \<Rightarrow> directive list" where
  "echo_directives color str s =
     map Lit [27, 91, 51, 56, 59, 53, 59] @ [Num True False 0 (ucast (ansi_color color)), Lit 109, Str False 0 str s] @
     map Lit [27, 91, 48, 109]"

lemma echo_directives_text:
  "format_text (echo_directives color str s) = echo_format"
  "format_args (echo_directives color str s) = [ucast (ansi_color color), str]"
  "rendered (echo_directives color str s) = escaped color s"
  by (simp_all add: echo_directives_def echo_format_def escaped_def conv_text_def width_text_def field_def)

text \<open>C37: \<open>echo\<close> hands the terminal exactly the string between the escape sequences of its colour: it returns, passes on the buffer with
  the length of its text, and changes nothing but its own buffers. A string too long for the 8192 bytes of the
  buffer is cut, and so is the sequence that would end the colour.
\<close>

theorem echo_correct:
  assumes f: "cstr m (l_echo (t_lits T)) echo_format" and s: "cstr m str s" and len: "length s < 2147483648"
    and apart: "region (l_echo (t_lits T)) 17 \<inter> (region (t_buf T) 8192 \<union> region (t_temp T) 12) = {}"
      "region str (length s + 1) \<inter> (region (t_buf T) 8192 \<union> region (t_temp T) 12) = {}"
      "region (t_buf T) 8192 \<inter> region (t_temp T) 12 = {}"
  shows "\<exists>m' out. echo T str color (m, d) = Some (m', t_write T (t_ctx T) m' (t_buf T) (of_nat (length out)) d) \<and>
     out = take 8191 (escaped color s) \<and> cstr m' (t_buf T) out \<and>
     (\<forall>x. x \<notin> region (t_buf T) 8192 \<union> region (t_temp T) 12 \<longrightarrow> m' x = m x)"
proof -
  let ?ds = "echo_directives color str s"
  have ok: "\<forall>d\<in>set ?ds. dir_ok m (region (t_buf T) (unat (8192 :: u32)) \<union> region (t_temp T) 12) d"
    using s len apart(2) by (simp add: echo_directives_def)
  have ap: "region (l_echo (t_lits T)) (length (format_text ?ds) + 1) \<inter> (region (t_buf T) (unat (8192 :: u32)) \<union> region (t_temp T) 12) = {}"
    "region (t_buf T) (unat (8192 :: u32)) \<inter> region (t_temp T) 12 = {}"
    using apart unfolding echo_directives_text echo_format_length by simp_all
  have f': "cstr m (l_echo (t_lits T)) (format_text ?ds)" using f by (simp only: echo_directives_text)
  have pos: "(0 :: u32) < 8192" by simp
  have "\<not> (\<exists>d\<in>set ?ds. chr_right d)" by (auto simp: echo_directives_def)
  with flopsnprintf_renders [OF ok f' ap pos] obtain m' out where
    r: "flopsnprintf (t_temp T) m (t_buf T) 8192 (l_echo (t_lits T)) [ucast (ansi_color color), str] = Some (m', of_nat (length out))"
      "out = take 8191 (escaped color s)" "cstr m' (t_buf T) out"
      "\<forall>x. x \<notin> region (t_buf T) 8192 \<union> region (t_temp T) 12 \<longrightarrow> m' x = m x"
    unfolding echo_directives_text by auto
  have n: "0 < length out" "length out < 8192" using r(2) by (simp_all add: escaped_def)
  then have "sint (of_nat (length out) :: s32) = int (length out)" by (intro sint_of_nat_u32) simp
  then have "echo T str color (m, d) = Some (m', t_write T (t_ctx T) m' (t_buf T) (of_nat (length out)) d)"
    using r(1) n flopstrlen_cstr [OF r(3)] by (simp add: echo_def framebuffer_term_write_def)
  with r(2-4) show ?thesis by blast
qed

definition demo_terminal :: "u8 list terminal" where
  "demo_terminal = \<lparr>t_write = (\<lambda>ctx m a n d. d @ map (\<lambda>i. m (a + of_nat i)) [0..<unat n]), t_ctx = 0,
     t_lits = \<lparr>l_echo = 0x1000, l_log = 0, l_debug = 0, l_0x = 0, l_nl = 0, l_arrow = 0, l_error = 0, l_descr = 0\<rparr>,
     t_buf = 0x8000, t_temp = 0x7000\<rparr>"

definition demo_text :: mem where
  "demo_text a = (if a = 0x2000 then 72 else if a = 0x2001 then 105 else mem_of 0x1000 echo_format a)"

lemma demo_text_strings: "cstr demo_text 0x1000 echo_format" "cstr demo_text 0x2000 [72, 105]"
proof -
  have "cstr (mem_of 0x1000 echo_format) 0x1000 echo_format" by (rule mem_of_cstr) (simp_all add: echo_format_def)
  moreover have "demo_text (0x1000 + of_nat i) = mem_of 0x1000 echo_format (0x1000 + of_nat i)" if "i \<le> length echo_format" for i
  proof -
    have i: "i \<le> 16" using that by (simp add: echo_format_def)
    then have "unat (0x1000 + of_nat i :: u32) = 0x1000 + i" by (subst unat_plus_u32) (simp_all add: unat_of_nat_u32)
    then show ?thesis using i by (auto simp: demo_text_def word_unat_eq_iff)
  qed
  ultimately show "cstr demo_text 0x1000 echo_format" using cstr_cong [of echo_format demo_text "0x1000"] by simp
  show "cstr demo_text 0x2000 [72, 105]" by (simp add: demo_text_def mem_of_def echo_format_def)
qed

theorem echo_correct_witness:
  "\<exists>m' out. echo demo_terminal 0x2000 RED (demo_text, []) = Some (m', t_write demo_terminal 0 m' 0x8000 (of_nat (length out)) []) \<and>
     cstr m' 0x8000 out \<and> out = [27, 91, 51, 56, 59, 53, 59, 49, 109, 72, 105, 27, 91, 48, 109]"
proof -
  have d: "l_echo (t_lits demo_terminal) = 0x1000" "t_buf demo_terminal = 0x8000" "t_temp demo_terminal = 0x7000" "t_ctx demo_terminal = 0"
    by (simp_all add: demo_terminal_def)
  have a: "region (l_echo (t_lits demo_terminal)) 17 \<inter> (region (t_buf demo_terminal) 8192 \<union> region (t_temp demo_terminal) 12) = {}"
    "region 0x2000 (length [72, 105 :: u8] + 1) \<inter> (region (t_buf demo_terminal) 8192 \<union> region (t_temp demo_terminal) 12) = {}"
    "region (t_buf demo_terminal) 8192 \<inter> region (t_temp demo_terminal) 12 = {}"
    unfolding d Int_Un_distrib using region_disjoint [of "0x7000" 12 "0x8000" 8192] by (simp_all add: region_disjoint Int_commute)
  have "sint (1 :: s32) = 1" by simp
  then have "int_text 1 = [49]" by (simp add: int_text_def dec_digits_def digits_step dec_char_def)
  then have "escaped RED [72, 105] = [27, 91, 51, 56, 59, 53, 59, 49, 109, 72, 105, 27, 91, 48, 109]"
    by (simp add: escaped_def ansi_color_def colour_defs)
  with echo_correct [OF demo_text_strings(1) [folded d(1)] demo_text_strings(2) _ a, of RED "[]"] show ?thesis
    unfolding d by auto
qed

section \<open>Numbers in messages\<close>

lemma memflop_reverse_range:
  assumes "unat p + n < 4294967296"
  shows "(\<forall>j \<le> n. memflop_reverse m p (p + of_nat n) (p + of_nat j) = m (p + of_nat (n - j))) \<and>
     (\<forall>x. (\<forall>j \<le> n. x \<noteq> p + of_nat j) \<longrightarrow> memflop_reverse m p (p + of_nat n) x = m x)"
  using assms
proof (induction n arbitrary: p m rule: less_induct)
  case (less n)
  have un: "unat (p + of_nat j) = unat p + j" if "j \<le> n" for j
    using less.prems that by (subst unat_plus_u32) (simp_all add: unat_of_nat_u32)
  have inj: "p + of_nat i = p + of_nat j \<longleftrightarrow> i = j" if "i \<le> n" "j \<le> n" for i j
    using un [OF that(1)] un [OF that(2)] by (auto simp: word_unat_eq_iff)
  define m' where "m' = m(p := m (p + of_nat n), p + of_nat n := m p)"
  consider "n = 0" | "n = 1" | k where "n = Suc (Suc k)" by (metis One_nat_def not0_implies_Suc)
  then show ?case
  proof cases
    case 1
    then show ?thesis by (subst (1 2) memflop_reverse.simps) simp
  next
    case 2
    have "p < p + 1" "\<not> p + 1 < p" using un [of 1] 2 by (simp_all add: word_less_nat_alt)
    then have "memflop_reverse m p (p + of_nat n) = m'"
      using 2 by (subst memflop_reverse.simps) (subst memflop_reverse.simps, simp add: m'_def)
    then show ?thesis using 2 inj [of 0 1] by (auto simp: m'_def le_Suc_eq)
  next
    case 3
    have lt: "p < p + of_nat n" using un [of n] 3 by (simp add: word_less_nat_alt)
    have "p + of_nat n - 1 = (p + 1) + of_nat k" using 3 by simp
    then have step: "memflop_reverse m p (p + of_nat n) = memflop_reverse m' (p + 1) ((p + 1) + of_nat k)"
      using lt by (subst memflop_reverse.simps) (simp add: m'_def ac_simps)
    have "unat (p + 1) = unat p + 1" using un [of 1] 3 by simp
    then have IH: "\<forall>j \<le> k. memflop_reverse m' (p + 1) ((p + 1) + of_nat k) ((p + 1) + of_nat j) = m' ((p + 1) + of_nat (k - j))"
      "\<forall>x. (\<forall>j \<le> k. x \<noteq> (p + 1) + of_nat j) \<longrightarrow> memflop_reverse m' (p + 1) ((p + 1) + of_nat k) x = m' x"
      using less.IH [of k "p + 1" m'] less.prems 3 by auto
    have shift: "(p + 1) + of_nat j = p + of_nat (Suc j)" for j by simp
    have "p + of_nat 0 \<noteq> (p + 1) + of_nat j" "p + of_nat n \<noteq> (p + 1) + of_nat j" if "j \<le> k" for j
      unfolding shift using inj [of 0 "Suc j"] inj [of n "Suc j"] 3 that by simp_all
    then have ends: "\<forall>j \<le> k. p + of_nat 0 \<noteq> (p + 1) + of_nat j" "\<forall>j \<le> k. p + of_nat n \<noteq> (p + 1) + of_nat j" by blast+
    show ?thesis
    proof (intro conjI allI impI)
      fix j assume j: "j \<le> n"
      then consider "j = 0" | "j = n" | i where "j = Suc i" "i \<le> k" using 3 by (cases j) force+
      then show "memflop_reverse m p (p + of_nat n) (p + of_nat j) = m (p + of_nat (n - j))"
      proof cases
        case 1
        then have "memflop_reverse m p (p + of_nat n) (p + of_nat j) = m' (p + of_nat 0)"
          unfolding step using IH(2) ends(1) 1 by blast
        then show ?thesis using 1 inj [of 0 n] 3 by (simp add: m'_def)
      next
        case 2
        then have "memflop_reverse m p (p + of_nat n) (p + of_nat j) = m' (p + of_nat n)"
          unfolding step using IH(2) ends(2) 2 by blast
        then show ?thesis using 2 by (simp add: m'_def)
      next
        case (3 i)
        then have "memflop_reverse m p (p + of_nat n) (p + of_nat j) = m' (p + of_nat (Suc (k - i)))"
          unfolding step using IH(1) unfolding shift by simp
        then show ?thesis using 3 \<open>n = Suc (Suc k)\<close> inj [of "Suc (k - i)" 0] inj [of "Suc (k - i)" n]
          by (auto simp: m'_def Suc_diff_le)
      qed
    next
      fix x assume x: "\<forall>j \<le> n. x \<noteq> p + of_nat j"
      have "x \<noteq> p + of_nat (Suc j)" if "j \<le> k" for j
        using x [rule_format, of "Suc j"] 3 that by simp
      then have "\<forall>j \<le> k. x \<noteq> (p + 1) + of_nat j" unfolding shift by blast
      moreover have "x \<noteq> p" "x \<noteq> p + of_nat n" using x [rule_format, of 0] x [rule_format, of n] by simp_all
      ultimately show "memflop_reverse m p (p + of_nat n) x = m x" unfolding step using IH(2) by (simp add: m'_def)
    qed
  qed
qed

text \<open>The value of a list of digits, most significant first.\<close>

definition digits_value :: "nat \<Rightarrow> nat list \<Rightarrow> nat" where
  "digits_value b ds = foldl (\<lambda>a d. a * b + d) 0 ds"

lemma digits_value_digits: "1 < b \<Longrightarrow> digits_value b (rev (digits b n)) = n"
proof (induction b n rule: digits.induct)
  case (1 b n)
  then show ?case by (cases "n = 0") (simp_all add: digits.simps [of b n] digits_value_def mult.commute)
qed

lemma last_digit: "1 < b \<Longrightarrow> 0 < n \<Longrightarrow> last (digits b n) \<noteq> 0"
proof (induction b n rule: digits.induct)
  case (1 b n)
  note step = digits_step [OF 1(2,3)]
  show ?case
  proof (cases "n div b = 0")
    case True
    then show ?thesis using 1(2,3) unfolding step by (simp add: div_eq_0_iff)
  next
    case False
    then have pos: "0 < n div b" by simp
    then have "digits b (n div b) \<noteq> []" unfolding digits_step [OF 1(2) pos] by simp
    moreover have "last (digits b (n div b)) \<noteq> 0" using 1(2,3) pos by (intro 1(1)) auto
    ultimately show ?thesis unfolding step by simp
  qed
qed

lemma rev_put:
  assumes "unat a + length bs < 4294967296" and "bs \<noteq> []" and "0 \<notin> set bs"
  shows "cstr (memflop_reverse (put_bytes m a (bs @ [0])) a (a + of_nat (length bs) - 1)) a (rev bs)"
proof -
  let ?n = "length bs - 1" and ?m = "put_bytes m a (bs @ [0])"
  have n: "length bs = Suc ?n" using assms(2) by (cases bs) simp_all
  then have e: "a + of_nat (length bs) - 1 = a + of_nat ?n" by (simp add: of_nat_diff)
  have r: "\<forall>j \<le> ?n. memflop_reverse ?m a (a + of_nat ?n) (a + of_nat j) = ?m (a + of_nat (?n - j))"
    "\<forall>x. (\<forall>j \<le> ?n. x \<noteq> a + of_nat j) \<longrightarrow> memflop_reverse ?m a (a + of_nat ?n) x = ?m x"
    using memflop_reverse_range [of a ?n ?m] assms(1) n by auto
  have put: "?m (a + of_nat i) = (bs @ [0]) ! i" if "i \<le> length bs" for i
    using that assms(1) by (intro put_bytes_nth) simp_all
  have "a + of_nat (length bs) \<noteq> a + of_nat j" if "j \<le> ?n" for j
  proof -
    have "j < length bs" "length bs < 4294967296" using that n assms(1) by linarith+
    from addr_shift_neq [OF this, of a] show ?thesis by metis
  qed
  then have "memflop_reverse ?m a (a + of_nat ?n) (a + of_nat (length bs)) = 0"
    using r(2) put [of "length bs"] by simp
  moreover have "memflop_reverse ?m a (a + of_nat ?n) (a + of_nat i) = rev bs ! i" if "i < length bs" for i
  proof -
    have "length bs - Suc i < length bs" using that by linarith
    then show ?thesis using r(1) that n put [of "?n - i"] by (simp add: nth_append rev_nth)
  qed
  ultimately show ?thesis unfolding e cstr_iff using assms(3) by simp
qed

text \<open>\<open>memflopitoa\<close> writes every 32-bit number in every base from 2 to 16: the buffer holds a string of digits below the base, without leading
  zeros, whose value is the number.
\<close>

theorem memflopitoa_correct:
  assumes "2 \<le> base" "base \<le> 16" and "unat buffer + 33 \<le> 4294967296"
  shows "\<exists>ds. cstr (memflopitoa m num buffer base) buffer (map (hex_digit True) ds) \<and> ds \<noteq> [] \<and>
     list_all (\<lambda>d. d < unat base) ds \<and> digits_value (unat base) ds = unat num \<and> (hd ds = 0 \<longleftrightarrow> num = 0) \<and> length ds \<le> 32"
proof -
  have b: "2 \<le> unat base" "unat base \<le> 16" using assms(1,2) by (simp_all add: word_le_nat_alt)
  show ?thesis
  proof (cases "num = 0")
    case True
    then show ?thesis using assms(1,2) b
      by (intro exI [of _ "[0]"]) (simp add: memflopitoa_def digits_value_def hex_digit_def cstr_iff not_less)
  next
    case False
    let ?ds = "rev (digits (unat base) (unat num))"
    have v: "0 < unat num" using False by (simp add: unat_gt_0)
    have len: "length ?ds \<le> 32" 
      using length_digits [of "unat base" "unat num" 32] power_mono [of 2 "unat base" 32] b
        order.strict_trans2 [OF unat_less_2p32 [of num], of "unat base ^ 32"] by simp
    have ne: "digits (unat base) (unat num) \<noteq> []" using v b by (simp add: digits.simps [of "unat base"])
    have small: "d < unat base" if "d \<in> set ?ds" for d using digits_less [of "unat base" d "unat num"] that b by simp
    have "0 \<notin> set (map (hex_digit True) (digits (unat base) (unat num)))"
      using small b hex_digit_nonzero by fastforce
    then have "cstr (memflopitoa m num buffer base) buffer (rev (map (hex_digit True) (digits (unat base) (unat num))))"
      using rev_put [of buffer "map (hex_digit True) (digits (unat base) (unat num))" m] ne len assms(3) False leD [OF assms(1)] leD [OF assms(2)]
      by (simp add: memflopitoa_def Let_def)
    moreover have "last (digits (unat base) (unat num)) \<noteq> 0" using v b by (intro last_digit) simp_all
    ultimately show ?thesis
      using len ne small digits_value_digits [of "unat base" "unat num"] b False
      by (intro exI [of _ ?ds]) (simp add: rev_map list_all_iff hd_rev)
  qed
qed

theorem memflopitoa_correct_witness:
  "\<exists>ds. cstr (memflopitoa (\<lambda>_. 7) 2748 0x3000 16) 0x3000 (map (hex_digit True) ds) \<and> digits_value 16 ds = 2748"
proof -
  have "(2 :: u32) \<le> 16" "(16 :: u32) \<le> 16" "unat (0x3000 :: u32) + 33 \<le> 4294967296" by (simp_all add: word_le_nat_alt)
  from memflopitoa_correct [OF this, of "\<lambda>_. 7" 2748] show ?thesis by auto
qed

end
