(* ===== verification/Clock.thy ===== *)
theory Clock
  imports Console
begin

text \<open>
  drivers/time/floptime.c: the real-time clock behind its two ports, the time as text, and waiting. The clock answers in binary-coded
  decimal; waiting compares seconds of the minute.
\<close>

section \<open>Reading the clock\<close>

record Time =
  tm_hour :: u8
  tm_minute :: u8
  tm_second :: u8
  tm_day :: u8
  tm_month :: u8
  tm_year :: u32

definition read_cmos :: "'d ports \<Rightarrow> u8 \<Rightarrow> 'd \<Rightarrow> u8 \<times> 'd" where
  "read_cmos P reg d = p_inb P 0x71 (p_outb P 0x70 reg d)"

text \<open>The argument is a byte that has been promoted to \<open>int\<close>.\<close>

definition bcd_to_binary :: "u8 \<Rightarrow> nat" where
  "bcd_to_binary v = unat v div 16 * 10 + unat (v AND 0x0F)"

text \<open>Waiting until no update is in progress.\<close>

partial_function (option) cmos_ready :: "'d ports \<Rightarrow> 'd \<Rightarrow> 'd option" where
  "cmos_ready P d =
     (case read_cmos P 0x0A d of (v, d) \<Rightarrow> if v AND 0x80 \<noteq> 0 then cmos_ready P d else Some d)"

definition time_get_current :: "'d ports \<Rightarrow> 'd \<Rightarrow> (Time \<times> 'd) option" where
  "time_get_current P d = do {
     d \<leftarrow> cmos_ready P d;
     let (second, d) = read_cmos P 0x00 d;
     let (minute, d) = read_cmos P 0x02 d;
     let (hour, d) = read_cmos P 0x04 d;
     let (day, d) = read_cmos P 0x07 d;
     let (month, d) = read_cmos P 0x08 d;
     let (year, d) = read_cmos P 0x09 d;
     Some (\<lparr>tm_hour = of_nat (bcd_to_binary hour), tm_minute = of_nat (bcd_to_binary minute),
       tm_second = of_nat (bcd_to_binary second), tm_day = of_nat (bcd_to_binary day),
       tm_month = of_nat (bcd_to_binary month), tm_year = of_nat (bcd_to_binary year + 2000)\<rparr>, d)
   }"

section \<open>The time as text\<close>

definition time_args :: "Time \<Rightarrow> u32 list" where
  "time_args t = [ucast (tm_day t), ucast (tm_month t), tm_year t, ucast (tm_hour t), ucast (tm_minute t), ucast (tm_second t)]"

text \<open>\<open>fmt\<close> and \<open>invalid\<close> are the addresses of the two formats.\<close>

definition time_to_string :: "u32 \<Rightarrow> u32 \<Rightarrow> u32 \<Rightarrow> mem \<Rightarrow> Time option \<Rightarrow> u32 \<Rightarrow> u32 \<Rightarrow> mem option" where
  "time_to_string temp fmt invalid m time buffer sz =
     map_option fst (case time of
       Some t \<Rightarrow> flopsnprintf temp m buffer sz fmt (time_args t)
     | None \<Rightarrow> flopsnprintf temp m buffer sz invalid [])"

record time_box =
  last_time_string :: u32
  last_x_start :: u16
  last_time_length :: u16

text \<open>A box in the upper right corner; its left edge wraps when the text is longer than the screen is wide.\<close>

definition display_time_top_right :: "u32 \<Rightarrow> mem \<times> time_box \<times> cells \<Rightarrow> (mem \<times> time_box \<times> cells) option" where
  "display_time_top_right current_time_string s = (case s of (m, tb, b) \<Rightarrow> do {
     n \<leftarrow> flopstrlen m current_time_string;
     let time_length = (ucast n :: u16);
     let box_width = time_length + 4;
     let x_start = of_nat VGA_WIDTH - box_width;
     let b = fold (\<lambda>y. fold (\<lambda>x. vga_place_char (of_nat x) (of_nat y) 32 LIGHT_BLUE) [unat x_start..<VGA_WIDTH]) [0..<3] b;
     let b = vga_place_char x_start 0 0xDA LIGHT_BLUE b;
     let b = fold (\<lambda>i. vga_place_char (x_start + 1 + of_nat i) 0 0xC4 LIGHT_BLUE) [0..<unat time_length + 2] b;
     let b = vga_place_char (x_start + time_length + 3) 0 0xBF LIGHT_BLUE b;
     let b = vga_place_char x_start 1 0xB3 LIGHT_BLUE b;
     let b = place_chars m (x_start + 2) 1 current_time_string WHITE (unat time_length) b;
     let b = vga_place_char (x_start + time_length + 3) 1 0xB3 LIGHT_BLUE b;
     let b = vga_place_char x_start 2 0xC0 LIGHT_BLUE b;
     let b = fold (\<lambda>i. vga_place_char (x_start + 1 + of_nat i) 2 0xC4 LIGHT_BLUE) [0..<unat time_length + 2] b;
     let b = vga_place_char (x_start + time_length + 3) 2 0xD9 LIGHT_BLUE b;
     let m = flopstrcopy m (last_time_string tb) current_time_string 20;
     Some (m, tb\<lparr>last_x_start := x_start, last_time_length := time_length\<rparr>, b)
   })"

text \<open>\<open>cts\<close> is the address of \<open>current_time_string\<close>, which has 32 bytes.\<close>

definition time_task ::
  "'d ports \<Rightarrow> u32 \<Rightarrow> u32 \<Rightarrow> u32 \<Rightarrow> (mem \<times> time_box \<times> cells) \<times> 'd \<Rightarrow> (Time \<times> (mem \<times> time_box \<times> cells) \<times> 'd) option" where
  "time_task P temp fmt cts s = (case s of ((m, tb, b), d) \<Rightarrow> do {
     (t, d) \<leftarrow> time_get_current P d;
     (m, n) \<leftarrow> flopsnprintf temp m cts 32 fmt (time_args t);
     s \<leftarrow> display_time_top_right cts (m, tb, b);
     Some (t, s, d)
   })"

section \<open>Waiting\<close>

partial_function (option) sleep_loop :: "'d ports \<Rightarrow> Time \<Rightarrow> int \<Rightarrow> int \<Rightarrow> 'd \<Rightarrow> 'd option" where
  "sleep_loop io start_time seconds elapsed_seconds d =
     (if elapsed_seconds < seconds then do {
        (current_time, d) \<leftarrow> time_get_current io d;
        let e = int (unat (tm_second current_time)) - int (unat (tm_second start_time));
        sleep_loop io start_time seconds (if e < 0 then e + 60 else e) d
      } else Some d)"

definition sleep_seconds :: "'d ports \<Rightarrow> s32 \<Rightarrow> 'd \<Rightarrow> 'd option" where
  "sleep_seconds P seconds d = do {
     (start_time, d) \<leftarrow> time_get_current P d;
     sleep_loop P start_time (sint seconds) 0 d
   }"

section \<open>Binary-coded decimal\<close>

definition to_bcd :: "nat \<Rightarrow> u8" where
  "to_bcd n = of_nat (n div 10 * 16 + n mod 10)"

lemma bcd_roundtrip: "n < 100 \<Longrightarrow> bcd_to_binary (to_bcd n) = n"
proof -
  assume n: "n < 100"
  then have lt: "n div 10 * 16 + n mod 10 < 256" by linarith
  have f: "(0x0F :: u8) = mask 4" by (simp add: mask_eq_exp_minus_1)
  have "unat (to_bcd n) = n div 10 * 16 + n mod 10" using lt unfolding to_bcd_def unat_of_nat by (simp add: take_bit_nat_eq_self)
  moreover have "unat (to_bcd n AND 0x0F) = unat (to_bcd n) mod 16"
    unfolding f by (simp add: take_bit_eq_mask [symmetric] unsigned_take_bit_eq take_bit_eq_mod unat_mod)
  ultimately show ?thesis by (simp add: bcd_to_binary_def)
qed

section \<open>A wait of a minute never ends\<close>

text \<open>Both times are seconds of a minute, so the difference the loop computes stays below 60.\<close>

lemma sleep_loop_no_return:
  assumes "\<And>d t d'. time_get_current P d = Some (t, d') \<Longrightarrow> unat (tm_second t) < 60"
    and "60 \<le> seconds" "elapsed < 60" "unat (tm_second start_time) < 60"
  shows "sleep_loop P start_time seconds elapsed d \<noteq> Some r"
proof
  assume ret: "sleep_loop P start_time seconds elapsed d = Some r"
  have "P = P \<longrightarrow> start_time = start_time \<longrightarrow> seconds = seconds \<longrightarrow> elapsed < 60 \<longrightarrow> False"
  proof (rule sleep_loop.raw_induct [where P = "\<lambda>Q st n e d r. Q = P \<longrightarrow> st = start_time \<longrightarrow> n = seconds \<longrightarrow> e < 60 \<longrightarrow> False",
        OF _ ret])
    fix loop Q st n e d r
    assume IH: "\<And>Q st n e d r. loop Q st n e d = Some r \<Longrightarrow> Q = P \<longrightarrow> st = start_time \<longrightarrow> n = seconds \<longrightarrow> e < 60 \<longrightarrow> False"
      and body: "(if e < n then do {
        (current_time, d) \<leftarrow> time_get_current Q d;
        let e = int (unat (tm_second current_time)) - int (unat (tm_second st));
        loop Q st n (if e < 0 then e + 60 else e) d
      } else Some d) = Some r"
    show "Q = P \<longrightarrow> st = start_time \<longrightarrow> n = seconds \<longrightarrow> e < 60 \<longrightarrow> False"
    proof (intro impI)
      assume eq: "Q = P" "st = start_time" "n = seconds" "e < 60"
      then obtain t d' where t: "time_get_current P d = Some (t, d')"
        and rec: "loop P start_time seconds (let e = int (unat (tm_second t)) - int (unat (tm_second start_time)) in if e < 0 then e + 60 else e) d' = Some r"
        using body assms(2) by (auto simp: Let_def split: if_splits Option.bind_splits)
      have "unat (tm_second t) < 60" by (rule assms(1) [OF t])
      then have "int (unat (tm_second t)) - int (unat (tm_second start_time)) < 60" by linarith
      then show False using IH [OF rec] by (simp add: Let_def split: if_splits del: int_nat_eq of_nat_unat)
    qed
  qed
  then show False using assms(3) by simp
qed

text \<open>C40: Waiting for a minute or more never ends: as long as the clock reports seconds below 60, the time that \<open>sleep_seconds\<close> takes to
  have passed never reaches 60, whatever the clock shows and however often it is read.
\<close>

theorem sleep_seconds_never_returns:
  assumes "\<And>d t d'. time_get_current P d = Some (t, d') \<Longrightarrow> unat (tm_second t) < 60" and "60 \<le> sint seconds"
  shows "sleep_seconds P seconds d = None"
proof (cases "time_get_current P d")
  case (Some r)
  then obtain t d' where t: "time_get_current P d = Some (t, d')" by (cases r) auto
  have "sleep_loop P t (sint seconds) 0 d' = None"
    using sleep_loop_no_return [OF assms, where elapsed = 0 and start_time = t and d = d'] assms(1) [OF t] by (cases "sleep_loop P t (sint seconds) 0 d'") auto
  then show ?thesis using t by (simp add: sleep_seconds_def)
qed (simp add: sleep_seconds_def)

text \<open>A clock that is read once a second: its state is the register that is selected and the seconds since the start.\<close>

definition demo_clock :: "(u8 \<times> nat) ports" where
  "demo_clock = \<lparr>p_inb = (\<lambda>p (r, n). if r = 0 then (to_bcd (n mod 60), (r, Suc n)) else (0, (r, n))),
     p_outb = (\<lambda>p v (r, n). (v, n)), p_inw = (\<lambda>p d. (0, d)), p_outw = (\<lambda>p v d. d)\<rparr>"

lemma demo_clock_time: "time_get_current demo_clock (r, n) =
   Some (\<lparr>tm_hour = 0, tm_minute = 0, tm_second = of_nat (n mod 60), tm_day = 0, tm_month = 0, tm_year = 2000\<rparr>, (9, Suc n))"
proof -
  have "bcd_to_binary (to_bcd (n mod 60)) = n mod 60" by (rule bcd_roundtrip) (rule less_trans [of _ 60], simp_all)
  moreover have "bcd_to_binary 0 = 0" by (simp add: bcd_to_binary_def)
  moreover have "cmos_ready demo_clock (r, n) = Some (0x0A, n)"
    by (subst cmos_ready.simps) (simp add: read_cmos_def demo_clock_def)
  ultimately show ?thesis by (simp add: time_get_current_def read_cmos_def demo_clock_def)
qed

theorem sleep_seconds_never_returns_witness:
  "sleep_seconds demo_clock 60 (0, 0) = None"
proof (rule sleep_seconds_never_returns)
  fix d t d' assume "time_get_current demo_clock d = Some (t, d')"
  moreover obtain r n where "d = (r, n)" by (cases d)
  ultimately have "tm_second t = of_nat (n mod 60)" by (auto simp: demo_clock_time)
  moreover have "n mod 60 < 60" by simp
  ultimately show "unat (tm_second t) < 60" by (simp add: unat_of_nat take_bit_nat_eq_self)
qed simp

text \<open>A shorter wait on the same clock ends.\<close>

lemma sleep_two_seconds: "sleep_seconds demo_clock 2 (0, 0) \<noteq> None"
  unfolding sleep_seconds_def demo_clock_time
  by (simp, subst sleep_loop.simps, simp add: demo_clock_time, subst sleep_loop.simps, simp add: demo_clock_time, subst sleep_loop.simps, simp)

end
