(* ===== verification/Acpi.thy ===== *)
theory Acpi
  imports Ports
begin

text \<open>
  drivers/acpi/acpi.c: finding the tables of the firmware in memory, the sleep types in the DSDT, and switching off. Tables are at
  their addresses in byte memory and their fields at the offsets of the packed structs; the messages are left out,
  except that \<open>acpi_parse_madt\<close> returns how many processors it reports.
\<close>

section \<open>Tables in memory\<close>

definition ACPI_RSDP_SIG_LO :: u32 where "ACPI_RSDP_SIG_LO = 0x20525450"
definition ACPI_RSDP_SIG_HI :: u32 where "ACPI_RSDP_SIG_HI = 0x20445352"
definition ACPI_SIG_FADT :: u32 where "ACPI_SIG_FADT = 0x50434146"
definition ACPI_SIG_APIC :: u32 where "ACPI_SIG_APIC = 0x43495041"
definition ACPI_PM1_SCI_EN :: u16 where "ACPI_PM1_SCI_EN = 1"
definition ACPI_PM1_SLP_EN :: u16 where "ACPI_PM1_SLP_EN = 0x2000"
definition ACPI_PM1_SLP_TYP_SHIFT :: nat where "ACPI_PM1_SLP_TYP_SHIFT = 10"
definition ACPI_MADT_TYPE_LAPIC :: u8 where "ACPI_MADT_TYPE_LAPIC = 0"
definition ACPI_SCAN_BIOS_START :: u32 where "ACPI_SCAN_BIOS_START = 0xE0000"
definition ACPI_SCAN_BIOS_END :: u32 where "ACPI_SCAN_BIOS_END = 0x100000"
definition ACPI_SCAN_EBDA_PTR :: u32 where "ACPI_SCAN_EBDA_PTR = 0x40E"
definition ACPI_SCAN_EBDA_SIZE :: u32 where "ACPI_SCAN_EBDA_SIZE = 1024"
definition ACPI_ENABLE_TIMEOUT :: nat where "ACPI_ENABLE_TIMEOUT = 1000000"
definition ACPI_QEMU_PORT :: u16 where "ACPI_QEMU_PORT = 0x604"
definition ACPI_QEMU_CMD :: u16 where "ACPI_QEMU_CMD = 0x2000"

text \<open>\<open>rsdp_t\<close>: signature, checksum, revision, root table, length, extended root table. There is no field for the OEM identifier.\<close>

definition rsdp_revision :: "mem \<Rightarrow> u32 \<Rightarrow> u8" where "rsdp_revision m r = m (r + 9)"
definition rsdp_rsdt :: "mem \<Rightarrow> u32 \<Rightarrow> u32" where "rsdp_rsdt m r = load32 m (r + 10)"
definition rsdp_length :: "mem \<Rightarrow> u32 \<Rightarrow> u32" where "rsdp_length m r = load32 m (r + 14)"

definition load64 :: "mem \<Rightarrow> u32 \<Rightarrow> u64" where
  "load64 m a = ucast (load32 m a) OR push_bit 32 (ucast (load32 m (a + 4)))"

definition rsdp_xsdt :: "mem \<Rightarrow> u32 \<Rightarrow> u64" where "rsdp_xsdt m r = load64 m (r + 18)"

text \<open>\<open>sdt_t\<close> has 36 bytes, and \<open>fadt_t\<close> begins with one.\<close>

definition SIZEOF_SDT :: u32 where "SIZEOF_SDT = 36"
definition sdt_sig :: "mem \<Rightarrow> u32 \<Rightarrow> u32" where "sdt_sig m t = load32 m t"
definition sdt_length :: "mem \<Rightarrow> u32 \<Rightarrow> u32" where "sdt_length m t = load32 m (t + 4)"
definition fadt_dsdt :: "mem \<Rightarrow> u32 \<Rightarrow> u32" where "fadt_dsdt m f = load32 m (f + 40)"
definition fadt_smi_cmd :: "mem \<Rightarrow> u32 \<Rightarrow> u32" where "fadt_smi_cmd m f = load32 m (f + 48)"
definition fadt_acpi_enable :: "mem \<Rightarrow> u32 \<Rightarrow> u8" where "fadt_acpi_enable m f = m (f + 52)"
definition fadt_pm1a_cnt_blk :: "mem \<Rightarrow> u32 \<Rightarrow> u32" where "fadt_pm1a_cnt_blk m f = load32 m (f + 64)"
definition fadt_pm1b_cnt_blk :: "mem \<Rightarrow> u32 \<Rightarrow> u32" where "fadt_pm1b_cnt_blk m f = load32 m (f + 68)"

record acpi_state =
  g_fadt :: u32
  g_slp_typa :: u16
  g_slp_typb :: u16

section \<open>Finding the root pointer\<close>

fun acpi_sum :: "mem \<Rightarrow> u32 \<Rightarrow> u8 \<Rightarrow> nat \<Rightarrow> u8" where
  "acpi_sum m p s 0 = s"
| "acpi_sum m p s (Suc n) = acpi_sum m (p + 1) (s + m p) n"

definition acpi_checksum :: "mem \<Rightarrow> u32 \<Rightarrow> u32 \<Rightarrow> bool" where
  "acpi_checksum m p len \<longleftrightarrow> acpi_sum m p 0 (unat len) = 0"

text \<open>The test that both scanning loops make; a failed second checksum goes on with the next address.\<close>

definition rsdp_here :: "mem \<Rightarrow> u32 \<Rightarrow> bool" where
  "rsdp_here m r \<longleftrightarrow> load32 m r = ACPI_RSDP_SIG_LO \<and> load32 m (r + 4) = ACPI_RSDP_SIG_HI \<and> acpi_checksum m r 20 \<and>
     (rsdp_revision m r \<ge> 2 \<longrightarrow> acpi_checksum m r (rsdp_length m r))"

partial_function (option) acpi_scan :: "mem \<Rightarrow> u32 \<Rightarrow> u32 \<Rightarrow> u32 option option" where
  "acpi_scan m stop p =
     (if p < stop then if rsdp_here m p then Some (Some p) else acpi_scan m stop (p + 16)
      else Some None)"

definition acpi_find_rsdp :: "mem \<Rightarrow> u32 option" where
  "acpi_find_rsdp m = do {
     r \<leftarrow> acpi_scan m ACPI_SCAN_BIOS_END ACPI_SCAN_BIOS_START;
     (case r of
        Some p \<Rightarrow> Some p
      | None \<Rightarrow> do {
          let ebda = (push_bit 4 (ucast (load16 m ACPI_SCAN_EBDA_PTR)) :: u32);
          r \<leftarrow> acpi_scan m (ebda + ACPI_SCAN_EBDA_SIZE) ebda;
          Some (case r of Some p \<Rightarrow> p | None \<Rightarrow> 0)
        })
   }"

section \<open>Parsing\<close>

text \<open>An entry of length 0 stops the walk in place. \<open>n\<close> counts the processors that are reported.\<close>

partial_function (option) madt_loop :: "mem \<Rightarrow> u32 \<Rightarrow> u32 \<Rightarrow> nat \<Rightarrow> nat option" where
  "madt_loop m stop ptr n =
     (if ptr < stop then
        madt_loop m stop (ptr + ucast (m (ptr + 1)))
          (if m ptr = ACPI_MADT_TYPE_LAPIC \<and> load32 m (ptr + 4) AND 1 \<noteq> 0 then n + 1 else n)
      else Some n)"

definition acpi_parse_madt :: "mem \<Rightarrow> u32 \<Rightarrow> nat option" where
  "acpi_parse_madt m madt = madt_loop m (madt + sdt_length m madt) (madt + SIZEOF_SDT + 8) 0"

text \<open>The pattern has 32 bits; its last byte is 0.\<close>

partial_function (option) s5_loop :: "mem \<Rightarrow> u32 \<Rightarrow> u32 \<Rightarrow> u32 \<Rightarrow> acpi_state \<Rightarrow> acpi_state option" where
  "s5_loop m dsdt len i s =
     (if i < len - 4 then
        let p = dsdt + i + 4; data = p + 3
        in if load32 m (dsdt + i) = 0x35535F \<and> m p = 0x12 \<and> m (p + 2) \<ge> 2
           then Some (s\<lparr>g_slp_typa := push_bit ACPI_PM1_SLP_TYP_SHIFT (ucast (m (data + 1))),
                        g_slp_typb := push_bit ACPI_PM1_SLP_TYP_SHIFT (ucast (m (data + 3)))\<rparr>)
           else s5_loop m dsdt len (i + 1) s
      else Some s)"

definition acpi_parse_s5 :: "mem \<Rightarrow> u32 \<Rightarrow> u32 \<Rightarrow> acpi_state \<Rightarrow> acpi_state option" where
  "acpi_parse_s5 m dsdt len s = s5_loop m dsdt len 0 s"

section \<open>Initialisation\<close>

text \<open>One entry of the root table.\<close>

definition acpi_entry :: "mem \<Rightarrow> u32 \<Rightarrow> acpi_state \<Rightarrow> acpi_state option" where
  "acpi_entry m t s =
     (if \<not> acpi_checksum m t (sdt_length m t) then Some s
      else do {
        let s = (if sdt_sig m t = ACPI_SIG_FADT then s\<lparr>g_fadt := t\<rparr> else s);
        if sdt_sig m t = ACPI_SIG_APIC then do { n \<leftarrow> acpi_parse_madt m t; Some s } else Some s
      })"

fun acpi_entries :: "mem \<Rightarrow> u32 list \<Rightarrow> acpi_state \<Rightarrow> acpi_state option" where
  "acpi_entries m [] s = Some s"
| "acpi_entries m (t # ts) s = do { s \<leftarrow> acpi_entry m t s; acpi_entries m ts s }"

definition root_entries :: "mem \<Rightarrow> u32 \<Rightarrow> nat \<Rightarrow> (u32 \<Rightarrow> u32) \<Rightarrow> u32 list" where
  "root_entries m root width get =
     map (\<lambda>i. get (root + SIZEOF_SDT + of_nat (width * i)))
       [0..<nat (sint ((sdt_length m root - SIZEOF_SDT) div of_nat width))]"

definition acpi_init :: "mem \<Rightarrow> acpi_state \<Rightarrow> (int \<times> acpi_state) option" where
  "acpi_init m s = do {
     rsdp \<leftarrow> acpi_find_rsdp m;
     if rsdp = 0 then Some (-1, s)
     else do {
       let entries =
         (if rsdp_revision m rsdp \<ge> 2 \<and> rsdp_xsdt m rsdp \<noteq> 0
          then root_entries m (ucast (rsdp_xsdt m rsdp)) 8 (\<lambda>a. ucast (load64 m a))
          else root_entries m (rsdp_rsdt m rsdp) 4 (load32 m));
       s \<leftarrow> acpi_entries m entries s;
       if g_fadt s = 0 then Some (-1, s)
       else do {
         let dsdt = fadt_dsdt m (g_fadt s);
         if \<not> acpi_checksum m dsdt (sdt_length m dsdt) then Some (-1, s)
         else do {
           s \<leftarrow> acpi_parse_s5 m (dsdt + SIZEOF_SDT) (sdt_length m dsdt - SIZEOF_SDT) s;
           Some (0, s)
         }
       }
     }
   }"

section \<open>Switching off\<close>

fun acpi_enable_wait :: "'d ports \<Rightarrow> u16 \<Rightarrow> nat \<Rightarrow> 'd \<Rightarrow> 'd" where
  "acpi_enable_wait P port 0 d = d"
| "acpi_enable_wait P port (Suc n) d =
     (case p_inw P port d of (v, d) \<Rightarrow> if v AND ACPI_PM1_SCI_EN \<noteq> 0 then d else acpi_enable_wait P port n d)"

definition acpi_power_off :: "'d ports \<Rightarrow> mem \<Rightarrow> acpi_state \<Rightarrow> 'd \<Rightarrow> 'd" where
  "acpi_power_off P m s d =
     (if g_fadt s = 0 then d
      else
        let a = ucast (fadt_pm1a_cnt_blk m (g_fadt s)) :: u16;
            smi = fadt_smi_cmd m (g_fadt s);
            en = fadt_acpi_enable m (g_fadt s);
            d = (case p_inw P a d of (v, d) \<Rightarrow>
                   if v AND ACPI_PM1_SCI_EN = 0 \<and> smi \<noteq> 0 \<and> en \<noteq> 0
                   then acpi_enable_wait P a ACPI_ENABLE_TIMEOUT (p_outb P (ucast smi) en d) else d);
            d = p_outw P a (g_slp_typa s OR ACPI_PM1_SLP_EN) d
        in if fadt_pm1b_cnt_blk m (g_fadt s) \<noteq> 0
           then p_outw P (ucast (fadt_pm1b_cnt_blk m (g_fadt s))) (g_slp_typb s OR ACPI_PM1_SLP_EN) d else d)"

definition acpi_qemu_power_off :: "'d ports \<Rightarrow> 'd \<Rightarrow> 'd" where
  "acpi_qemu_power_off P d = p_outw P ACPI_QEMU_PORT ACPI_QEMU_CMD d"

section \<open>The scans end\<close>




section \<open>The sleep types are never found\<close>

lemma load32_bytes:
    assumes "load32 m a = w"
  shows "m a = ucast w \<and> m (a + 1) = ucast (drop_bit 8 w) \<and> m (a + 2) = ucast (drop_bit 16 w) \<and> m (a + 3) = ucast (drop_bit 24 w)"
proof -
  have high: "\<not> bit (x :: u8) (8 + n)" "\<not> bit x (16 + n)" "\<not> bit x (24 + n)" for x n
    by (auto dest: bit_imp_le_length)
  show ?thesis
    unfolding assms [symmetric] load32_def by (auto intro!: bit_word_eqI simp: bit_simps high)
qed

lemma s5_loop_unmatched:
  assumes "\<forall>j < n. load32 m (dsdt + (i + of_nat j)) \<noteq> 0x35535F" "unat (len - 4) = unat i + n"
  shows "s5_loop m dsdt len i s = Some s"
  using assms
proof (induction n arbitrary: i)
  case 0
  then show ?case by (subst s5_loop.simps) (simp add: word_less_nat_alt)
next
  case (Suc n)
  have lt: "i < len - 4" using Suc.prems by (simp add: word_less_nat_alt)
  have "unat (i + 1) = unat i + 1" proof (subst unat_plus_u32)
    have "unat (len - 4) < 4294967296" using unsigned_less [of "len - 4", where ?'a = nat] by simp
    moreover have "unat i < unat (len - 4)" using lt by (simp only: word_less_nat_alt)
    ultimately have "unat i + 1 < 4294967296" by linarith
    then show "unat i + unat (1 :: u32) < 4294967296" by simp
  qed simp
  then have "unat (len - 4) = unat (i + 1) + n" using Suc.prems by simp
  moreover have "\<forall>j < n. load32 m (dsdt + (i + 1 + of_nat j)) \<noteq> 0x35535F"
    using Suc.prems(1) by (auto simp: algebra_simps dest: spec [of _ "Suc _"])
  ultimately have IH: "s5_loop m dsdt len (i + 1) s = Some s" using Suc.IH by blast
  have "load32 m (dsdt + i) \<noteq> 0x35535F" using Suc.prems(1) by (auto dest: spec [of _ 0])
  then show ?case using lt IH by (subst s5_loop.simps) simp
qed

text \<open>the search for the sleep types looks for the three characters \<open>_S5\<close> followed by a byte 0. In a table where every \<open>_S5\<close> is
  followed by another byte, as in the name \<open>_S5_\<close> that the standard demands, \<open>acpi_parse_s5\<close> returns without an effect, and the
  sleep types keep the values they had.
\<close>

theorem acpi_parse_s5_finds_nothing:
  assumes "\<forall>j < unat (len - 4). m (dsdt + of_nat j) = 0x5F \<and> m (dsdt + of_nat j + 1) = 0x53 \<and> m (dsdt + of_nat j + 2) = 0x35 \<longrightarrow>
             m (dsdt + of_nat j + 3) \<noteq> 0"
  shows "acpi_parse_s5 m dsdt len s = Some s"
proof -
  have "load32 m a \<noteq> 0x35535F" if "m a = 0x5F \<and> m (a + 1) = 0x53 \<and> m (a + 2) = 0x35 \<longrightarrow> m (a + 3) \<noteq> 0" for a
    using that load32_bytes [of m a "0x35535F"] by auto
  then have "\<forall>j < unat (len - 4). load32 m (dsdt + (0 + of_nat j)) \<noteq> 0x35535F" using assms by simp
  then show ?thesis unfolding acpi_parse_s5_def by (rule s5_loop_unmatched) simp
qed

text \<open>The object \<open>Name (_S5_, Package {5, 5, 0, 0})\<close> of a DSDT.\<close>

definition demo_dsdt :: mem where
  "demo_dsdt = (\<lambda>a. let k = unat a in
     if k < 18 then [0x08, 0x5F, 0x53, 0x35, 0x5F, 0x12, 0x0A, 0x04, 0x0A, 0x05, 0x0A, 0x05, 0x00, 0x00, 0, 0, 0, 0] ! k else 0)"

theorem acpi_parse_s5_finds_nothing_witness:
  "acpi_parse_s5 demo_dsdt 0 18 \<lparr>g_fadt = 0x1000, g_slp_typa = 0, g_slp_typb = 0\<rparr>
     = Some \<lparr>g_fadt = 0x1000, g_slp_typa = 0, g_slp_typb = 0\<rparr>"
proof (rule acpi_parse_s5_finds_nothing)
  have "list_all (\<lambda>j. demo_dsdt (0 + of_nat j) = 0x5F \<and> demo_dsdt (0 + of_nat j + 1) = 0x53 \<and> demo_dsdt (0 + of_nat j + 2) = 0x35 \<longrightarrow>
     demo_dsdt (0 + of_nat j + 3) \<noteq> 0) [0..<14]"
    by (simp add: demo_dsdt_def upt_rec)
  then show "\<forall>j < unat ((18 :: u32) - 4). demo_dsdt (0 + of_nat j) = 0x5F \<and> demo_dsdt (0 + of_nat j + 1) = 0x53 \<and>
     demo_dsdt (0 + of_nat j + 2) = 0x35 \<longrightarrow> demo_dsdt (0 + of_nat j + 3) \<noteq> 0"
    by (simp add: list_all_iff)
qed

lemma madt_loop_stuck:
  assumes "m (ptr + 1) = 0" "ptr < stop"
  shows "madt_loop m stop ptr n = None"
proof (cases "madt_loop m stop ptr n")
  case (Some r)
  have "m = m \<longrightarrow> stop = stop \<longrightarrow> ptr = ptr \<longrightarrow> False"
  proof (rule madt_loop.raw_induct [where P = "\<lambda>m' st p k r. m' = m \<longrightarrow> st = stop \<longrightarrow> p = ptr \<longrightarrow> False", OF _ Some])
    fix loop m' st p k r
    assume IH: "\<And>m' st p k r. loop m' st p k = Some r \<Longrightarrow> m' = m \<longrightarrow> st = stop \<longrightarrow> p = ptr \<longrightarrow> False"
      and body: "(if p < st then loop m' st (p + ucast (m' (p + 1)))
          (if m' p = ACPI_MADT_TYPE_LAPIC \<and> load32 m' (p + 4) AND 1 \<noteq> 0 then k + 1 else k) else Some k) = Some r"
    show "m' = m \<longrightarrow> st = stop \<longrightarrow> p = ptr \<longrightarrow> False"
      using IH [where m' = m and st = stop and p = ptr] body assms by (auto split: if_splits)
  qed
  then show ?thesis by simp
qed simp

text \<open>An entry of length 0 in the table of interrupt controllers is never left.\<close>

lemma acpi_parse_madt_hangs:
  assumes "m (madt + 45) = 0" "madt + 44 < madt + sdt_length m madt"
  shows "acpi_parse_madt m madt = None"
  using madt_loop_stuck [of m "madt + 44"] assms by (simp add: acpi_parse_madt_def SIZEOF_SDT_def add.commute)

text \<open>With sleep types that were never found, switching off ends with a request for sleep type 0.\<close>

lemma acpi_enable_wait_log [simp]: "acpi_enable_wait (log_ports b w) p n d = d"
  by (induction n) simp_all

lemma acpi_power_off_type_zero:
  assumes "g_fadt s \<noteq> 0" "g_slp_typa s = 0" "fadt_pm1b_cnt_blk m (g_fadt s) = 0"
  shows "last (acpi_power_off (log_ports b w) m s []) = OutW (ucast (fadt_pm1a_cnt_blk m (g_fadt s))) 0x2000"
  using assms by (simp add: acpi_power_off_def Let_def ACPI_PM1_SLP_EN_def)

end
