(* ===== verification/Spec2Isabelle.thy ===== *)
theory Spec2Isabelle
  imports Spinlock PmmProps BoxHash HeapInv SchedProps Pipe Mutex Pushlock Turnstile Signal Process StrProps
    VmmProps VmmClassProps VmmPagerProps PagingInit VfsProps MmapProps SyscallLoops
    EarlyInit PrintfProps StrHeapProps Gdt AtaProps
    InterruptProps FramebufferShapes ConsoleProps EchoProps Keyboard Clock Acpi
begin

text \<open>
  The Flopperating System is a kernel for 32-bit x86 machines, written in C. This development models
  its core: synchronisation, physical and virtual memory, the kernel heap, scheduling, processes,
  signals, pipes, the file systems, the system calls, and the string and memory functions they all use. Source files are named as under
  src/.

  \<^bold>\<open>How the program fits together.\<close> The boot code passes a memory map to the page allocator
  (mem/pmm.c), which hands out page frames. On top of it lie the address spaces (mem/paging.c,
  mem/vmm.c) and the kernel heap (mem/alloc.c), which cuts pages into boxes of blocks. The scheduler
  (task/sched.c) moves threads between linked lists; mutexes, push locks and turnstiles
  (task/sync/) and pipes (task/ipc/pipe.c) block and wake threads through it. Processes
  (task/process.c) own threads, an address space and signals (task/ipc/signal.c), and form a family
  tree. Spinlocks (task/sync/spinlock.h) protect all of these structures.

  \<^bold>\<open>Conventions.\<close> A machine integer is a word of its width, so arithmetic wraps as in C. A C
  struct is a record, and the objects of a kind live in a function from their address (or from the
  index in their array), so that sharing and aliasing are those of the program; 0 or \<open>None\<close> is the
  null pointer. A C function is a function on the state it can change. Where it can fail to return
  (a loop that never ends, a lock that nobody can release) or can leave its data (an array index out
  of range, a null or unmapped pointer), the result is an option and \<open>None\<close> stands for it; a
  theorem that it works shows \<open>Some\<close>. Loops whose end is not evident are
  \<open>partial_function (option)\<close>; no fuel is used anywhere. Code that runs concurrently is cut at its
  atomic accesses, and the steps of all threads are an inductive relation. What several functions
  need of a component is a locale, interpreted on the model.

  \<^bold>\<open>The theories.\<close>

  \<^item> \<open>Prelude\<close>: machine integers, failing computations, linked lists through a \<open>next\<close> function and
    the walks over them.
  \<^item> \<open>Spinlock\<close> (task/sync/spinlock.h, lib/refcount.h): the lock word with the interrupt flag; any number
    of processors competing for a lock; owners dropping a reference with compare-and-swap loops.
  \<^item> \<open>Pmm\<close>, \<open>PmmInv\<close>, \<open>PmmProps\<close> (mem/pmm.c): the buddy allocator, its invariant (the free lists are
    lists of disjoint, aligned blocks that nobody holds) and what allocation and freeing do to it.
    \<open>PmmInit\<close> is its initialisation from the boot map. \<open>PageSource\<close> is the contract of a page
    allocator as a locale, proved for \<open>pmm_alloc_page\<close> and \<open>pmm_free_page\<close> in \<open>PmmInv\<close>.
  \<^item> \<open>Paging\<close>, \<open>Vmm\<close> (mem/paging.h, mem/vmm.c): page tables in memory, read and written through the
    address translation of the processor, and the operations on one page; \<open>VmmRange\<close>: ranges,
    making, copying and destroying address spaces, searches, user buffers; \<open>VmmClass\<close>: allocation
    classes; \<open>VmmPager\<close>: pagers and shuffling; \<open>PagingInit\<close> (mem/paging.c). \<open>AddressSpace\<close> is the
    contract between page tables and the loops over pages as a locale; \<open>VmmTables\<close> shows that the
    page tables keep it. \<open>VmmProps\<close>, \<open>VmmClassProps\<close> and \<open>VmmPagerProps\<close> hold the properties.
    They speak of the address space that is loaded, because the code reaches page tables through the
    recursive slot of the loaded directory, whatever region it is called for.
  \<^item> \<open>Memory\<close> (mem/utils.c): bytes, words in memory, \<open>memcpy\<close> and its relatives.
  \<^item> \<open>BoxHash\<close>, \<open>Heap\<close>, \<open>HeapInv\<close> (mem/alloc.c): the table of boxes (a linear-probing hash table that
    refines a finite map, the locale \<open>kv_table\<close>), boxes, their bitmaps and the \<open>kmalloc\<close> family.
  \<^item> \<open>Fifo\<close>, \<open>Sched\<close>, \<open>SchedQueue\<close>, \<open>SchedProps\<close> (task/sched.c): threads and their lists (a queue in the
    sense of the locale \<open>fifo_queue\<close>), choice of the next thread, boosting, yielding, blocking,
    sleeping and the timer tick. Which page directory belongs to a process is a map in the state of the scheduler, filled in from the
    processes and their regions by \<open>Syscall\<close>.
  \<^item> \<open>Pipe\<close> (task/ipc/pipe.c): readers and writers of a ring buffer, as a bounded stream.
  \<^item> \<open>Mutex\<close>, \<open>Pushlock\<close> (task/sync/mutex.h, pushlock.h): the locks, with the steps of all threads.
  \<^item> \<open>PrioQueue\<close>, \<open>Turnstile\<close> (task/sync/turnstile.h): waiters by priority (the locale
    \<open>prio_queue\<close>, with what any sequence of arrivals and services gives) and priority inheritance along a chain of owners.
  \<^item> \<open>Signal\<close> (task/ipc/signal.c) and \<open>Process\<close> (task/process.c): pending and masked signals and their
    delivery; the family tree, identifiers, the process table, waiting and forking.
  \<^item> \<open>Str\<close>, \<open>StrProps\<close> (lib/str.c): strings in memory.
  \<^item> \<open>Vfs\<close>, \<open>VfsNode\<close> (fs/vfs/vfs.c): mount points and open nodes; a file system is its table of
    operations. \<open>Tmpfs\<close> (fs/tmpflopfs/tmpflopfs.c) and \<open>Procfs\<close> (fs/procfs/procfs.c) are the two tables
    of the repository. \<open>TmpfsData\<close>, \<open>TmpfsProps\<close>: the bytes of a file as one list, over its pages;
    \<open>TmpfsTree\<close>: the tree of names; \<open>VfsProps\<close>: the mount table, mounting and opening.
  \<^item> \<open>Kernel\<close>: the state of the whole kernel, for code that works on several components at once. \<open>Kthread\<close>
    is the rest of task/sched.c (stacks and the creation of threads), \<open>Kproc\<close> the rest of task/process.c
    (allocation, descriptors, forking, termination, the first process).
  \<^item> \<open>Syscall\<close>, \<open>SyscallMem\<close> (sys/syscall.c): the system calls and their table. \<open>SyscallMemProps\<close> and
    \<open>MmapProps\<close>: the calls that change the address space, over the contract of the page tables, which the
    state of the kernel keeps as well; \<open>SyscallProps\<close> and \<open>SyscallLoops\<close>: descriptors, files and pipes.
  \<^item> \<open>Early\<close>, \<open>EarlyProps\<close>, \<open>EarlyInit\<close> (mem/early.c, and its place in init/init.c): the allocator of the
    boot phase, its list of chunks, and the reservation of its pages.
  \<^item> \<open>Printf\<close>, \<open>PrintfProps\<close> (the formatted output of lib/str.c) against the text that the directives of a
    format mean;
    \<open>StrHeap\<close>, \<open>StrHeapProps\<close>: the functions of lib/str.c that allocate.
  \<^item> \<open>Gdt\<close> (mem/gdt.c, task/tss.c): segment descriptors and the task segment.
  \<^item> \<open>Ata\<close>, \<open>AtaProps\<close> (drivers/ata/ata.c): the request queue of the disk (a \<open>fifo_queue\<close> again), its
    interrupt handler and the transfers; the device behind the ports is a parameter.
  \<^item> \<open>Ports\<close> (drivers/io/io.c): the port instructions, a parameter of everything that follows, and an instance
    that records what is written. \<open>Interrupts\<close> (interrupts/interrupts.c): the descriptor table, the
    controllers, the timer and the dispatch of an interrupt; \<open>InterruptProps\<close> joins it with the driver of the keyboard, which it
    calls.
  \<^item> \<open>Framebuffer\<close>, \<open>FramebufferProps\<close>, \<open>FramebufferShapes\<close> (drivers/vga/framebuffer.c): pixels at every depth,
    lines, circles and rectangles against the sets of points they are meant to be.
  \<^item> \<open>VgaText\<close> (the text mode of drivers/vga/vgahandler.c), \<open>Console\<close>, \<open>ConsoleProps\<close>, \<open>EchoProps\<close> (apps/echo.c,
    lib/logging.c): the screen as 2000 cells, output as on endless paper of which the screen is the end, colours as escape sequences for the terminal library,
    which is a parameter.
  \<^item> \<open>Keyboard\<close> (drivers/keyboard/keyboard.c), \<open>Clock\<close> (drivers/time/floptime.c), \<open>Acpi\<close> (drivers/acpi/acpi.c).
  \<^bold>\<open>What the lemmas show.\<close> The invariants come first, and each operation keeps its invariant on every
  branch. The functional theorems then say what an operation returns and what it leaves unchanged.
  Queues, tables and streams are shown to refine a list, a map and a bounded byte queue. The
  concurrent parts have safety theorems over all interleavings. Where the code does not do what it is
  meant to, a theorem shows the behaviour it has: killed processes go on running, a mutex that is
  handed over and a push lock that is waited for are never acquired again, the allocator loses
  the rest of a block and hands out the kernel's own pages, page tables pass as user buffers, a pipe
  made by a system call cannot be used, closing a descriptor frees pages in use.

  \<^bold>\<open>Bounds.\<close> Sizes in hypotheses are those of the machine: addresses below 4 GiB, at most \<open>2 ^ 20\<close>
  pages in a range, a page array that fits below 4 GiB. Concrete states in the witnesses are small
  (three or four pages, one box).

  \<^bold>\<open>What is not modelled.\<close> Messages, where a function prints one on the way: output is a component of its own
  (\<open>Console\<close>), and it has no effect on the state of the others. Assembly that switches stacks (task/ctx.asm): the
  functions of the scheduler end where it starts. Floating point (most of lib/flopmath.c). Weak memory:
  atomic accesses are sequentially consistent. The translation cache of the processor: every change of an
  entry is followed by its invalidation. The boot sequence in kernel/kernel.c and init/init.c, which only calls
  the initialisations of the components. Libraries and files that are only included (the terminal
  library, the fonts).
\<close>

end
